(* ===== verification/NrPrelude.thy ===== *)
theory NrPrelude imports "HOL-Library.Word" begin

text \<open>
  The shared vocabulary of the development: machine integers and bytes, the status and result
  types of \<^verbatim>\<open>NrStatus.h\<close>, \<^verbatim>\<open>NrErrorCode.h\<close> and \<^verbatim>\<open>NrResult.h\<close>, block copies into a byte
  store (\<^verbatim>\<open>std::memcpy\<close>, \<^verbatim>\<open>std::memmove\<close>), and the generic lemmas on lists, words and maps
  that the component theories use. The collection \<open>status_simps\<close> evaluates status values.
\<close>

unbundle bit_operations_syntax

named_theorems status_simps \<open>evaluation of statuses and results\<close>

section \<open>Machine integers and bytes\<close>

text \<open>
  A \<^verbatim>\<open>std::uintN_t\<close> is an N-bit word whose arithmetic wraps. A \<^verbatim>\<open>std::byte\<close> is an 8-bit word.
  \<^verbatim>\<open>std::size_t\<close> is 64 bits wide on the only platform the code builds for (Windows x64): it is a
  64-bit word where the code computes with positions that could wrap, and \<open>nat\<close> where it only
  counts elements of a container.
\<close>

type_synonym u8 = "8 word"
type_synonym u16 = "16 word"
type_synonym u32 = "32 word"
type_synonym u64 = "64 word"
type_synonym byte = "8 word"

section \<open>Error codes, statuses and results\<close>

datatype NrErrorCode =
    Success
  | InvalidArgument
  | InvalidState
  | OutOfMemory
  | PoolExhausted
  | CapacityExceeded
  | QueueFull
  | QueueEmpty
  | DispatchRuleNotFound
  | IoFailed
  | OperationCanceled
  | ProtocolError

record NrStatus =
  errorCode :: NrErrorCode
  nativeErrorCode :: u32

definition NrStatus_Success :: NrStatus where
  "NrStatus_Success = \<lparr>errorCode = NrErrorCode.Success, nativeErrorCode = 0\<rparr>"

definition NrStatus_Failure :: "NrErrorCode \<Rightarrow> NrStatus" where
  "NrStatus_Failure e = \<lparr>errorCode = e, nativeErrorCode = 0\<rparr>"

definition Succeeded :: "NrStatus \<Rightarrow> bool" where
  "Succeeded s \<longleftrightarrow> errorCode s = NrErrorCode.Success"

definition Failed :: "NrStatus \<Rightarrow> bool" where
  "Failed s \<longleftrightarrow> \<not> Succeeded s"

text \<open>\<^verbatim>\<open>NrResult<T>\<close> holds a value exactly when its status is a success.\<close>

type_synonym 'a NrResult = "NrStatus + 'a"

lemma errorCode_Success [simp, status_simps]: "errorCode NrStatus_Success = NrErrorCode.Success"
  by (simp add: NrStatus_Success_def)

lemma errorCode_Failure [simp, status_simps]: "errorCode (NrStatus_Failure e) = e"
  by (simp add: NrStatus_Failure_def)

lemma Succeeded_Success [simp, status_simps]: "Succeeded NrStatus_Success"
  by (simp add: Succeeded_def)

lemma Succeeded_Failure [simp, status_simps]:
  "Succeeded (NrStatus_Failure e) \<longleftrightarrow> e = NrErrorCode.Success"
  by (simp add: Succeeded_def)

lemma Failure_eq_iff [simp, status_simps]: "NrStatus_Failure e = NrStatus_Failure e' \<longleftrightarrow> e = e'"
  by (simp add: NrStatus_Failure_def)

lemma Failure_eq_Success [simp, status_simps]:
  "NrStatus_Failure e = NrStatus_Success \<longleftrightarrow> e = NrErrorCode.Success"
  "NrStatus_Success = NrStatus_Failure e \<longleftrightarrow> e = NrErrorCode.Success"
  by (auto simp: NrStatus_Failure_def NrStatus_Success_def)

lemma Failed_simps [simp, status_simps]:
  "\<not> Failed NrStatus_Success"
  "Failed (NrStatus_Failure e) \<longleftrightarrow> e \<noteq> NrErrorCode.Success"
  by (simp_all add: Failed_def)

section \<open>Block copies into a byte store\<close>

text \<open>
  \<open>memcpy_at off src dst\<close> is the store \<open>dst\<close> after \<^verbatim>\<open>memcpy(dst + off, src, src.size())\<close>. The
  source is read completely first, so it is also \<^verbatim>\<open>memmove\<close>. A copy that would run past the end
  is out of contract in C++; the callers' guards exclude it.
\<close>

definition memcpy_at :: "nat \<Rightarrow> 'a list \<Rightarrow> 'a list \<Rightarrow> 'a list" where
  "memcpy_at off src dst = take off dst @ src @ drop (off + length src) dst"

lemma length_memcpy_at [simp]:
  "off + length src \<le> length dst \<Longrightarrow> length (memcpy_at off src dst) = length dst"
  by (simp add: memcpy_at_def)

lemma take_drop_memcpy_at [simp]:
  "off + length src \<le> length dst \<Longrightarrow> take (length src) (drop off (memcpy_at off src dst)) = src"
  by (simp add: memcpy_at_def)

lemma memcpy_at_before:
  "n \<le> off \<Longrightarrow> off \<le> length dst \<Longrightarrow> take n (memcpy_at off src dst) = take n dst"
  by (simp add: memcpy_at_def)

lemma memcpy_at_append:
  "off + length src \<le> length dst \<Longrightarrow>
    take (off + length src) (memcpy_at off src dst) = take off dst @ src"
  by (simp add: memcpy_at_def)

lemma memcpy_at_after:
  "off + length src \<le> length dst \<Longrightarrow>
    drop (off + length src) (memcpy_at off src dst) = drop (off + length src) dst"
  by (simp add: memcpy_at_def)

section \<open>Lists\<close>

lemma take_append_drop_middle: "m \<le> n \<Longrightarrow> take (n - m) (drop m xs) @ drop n xs = drop m xs"
  by (metis append_take_drop_id drop_drop le_add_diff_inverse2)

lemma list_all_nthD: "list_all P xs \<Longrightarrow> i < length xs \<Longrightarrow> P (xs ! i)"
  by (simp add: list_all_length)

text \<open>Two cells of a ring of size \<open>n\<close> at different distances from the head are different.\<close>

lemma ring_index_less:
  fixes n :: nat
  assumes "i < j" "j < n"
  shows "(h + i) mod n \<noteq> (h + j) mod n"
proof
  assume "(h + i) mod n = (h + j) mod n"
  then have "(h + j) mod n = (h + i) mod n" by simp
  then have "n dvd (h + j) - (h + i)"
    using assms by (subst (asm) mod_eq_dvd_iff_nat) auto
  then have "n dvd j - i" by simp
  then show False using assms by (auto dest: dvd_imp_le)
qed

lemma ring_index_eq_iff [simp]:
  fixes n :: nat
  assumes "i < n" "j < n"
  shows "(h + i) mod n = (h + j) mod n \<longleftrightarrow> i = j"
  using ring_index_less [of i j n h] ring_index_less [of j i n h] assms
  by (metis linorder_neqE_nat)

text \<open>The number of elements with a property.\<close>

definition count_of :: "('a \<Rightarrow> bool) \<Rightarrow> 'a list \<Rightarrow> nat" where
  "count_of P xs = length (filter P xs)"

lemma count_of_Cons: "count_of P (x # xs) = (if P x then Suc (count_of P xs) else count_of P xs)"
  by (simp add: count_of_def)

lemma count_of_pos: "p < length xs \<Longrightarrow> P (xs ! p) \<Longrightarrow> 0 < count_of P xs"
  by (auto simp: count_of_def filter_empty_conv)

lemma count_of_zero: "count_of P xs = 0 \<longleftrightarrow> (\<forall>x \<in> set xs. \<not> P x)"
  by (auto simp: count_of_def filter_empty_conv)

lemma count_of_update:
  "p < length xs \<Longrightarrow> count_of P (xs[p := x]) =
    (if P (xs ! p) = P x then count_of P xs
     else if P x then Suc (count_of P xs) else count_of P xs - 1)"
proof (induction xs arbitrary: p)
  case (Cons a xs)
  show ?case
  proof (cases p)
    case (Suc q)
    have "0 < count_of P xs" if "P (xs ! q)" using that Cons.prems Suc by (simp add: count_of_pos)
    then show ?thesis using Cons Suc by (auto simp: count_of_Cons)
  qed (simp add: count_of_Cons)
qed simp

section \<open>Rings\<close>

text \<open>The \<open>n\<close> elements of a ring buffer from position \<open>head\<close> on, in order.\<close>

definition ring_list :: "'a list \<Rightarrow> nat \<Rightarrow> nat \<Rightarrow> 'a list" where
  "ring_list buf head n = map (\<lambda>i. buf ! ((head + i) mod length buf)) [0..<n]"

lemma length_ring_list [simp]: "length (ring_list buf head n) = n"
  by (simp add: ring_list_def)

lemma ring_list_0 [simp]: "ring_list buf head 0 = []"
  by (simp add: ring_list_def)

lemma ring_list_push:
  assumes "n < length buf"
  shows "ring_list (buf[(head + n) mod length buf := x]) head (Suc n) = ring_list buf head n @ [x]"
proof -
  have "(head + n) mod length buf < length buf" using assms by (intro mod_less_divisor) linarith
  moreover have "map (\<lambda>i. buf[(head + n) mod length buf := x] ! ((head + i) mod length buf)) [0..<n] =
      map (\<lambda>i. buf ! ((head + i) mod length buf)) [0..<n]"
    using assms by (intro map_cong) auto
  ultimately show ?thesis by (simp add: ring_list_def)
qed

lemma ring_list_pop:
  assumes "head < length buf"
  shows "ring_list buf head (Suc n) = buf ! head # ring_list buf ((head + 1) mod length buf) n"
proof -
  have "[0..<Suc n] = 0 # map Suc [0..<n]"
    unfolding map_Suc_upt by (simp add: upt_conv_Cons del: upt_Suc)
  then show ?thesis using assms by (simp add: ring_list_def mod_simps comp_def)
qed

text \<open>The cell that was taken may be overwritten.\<close>

lemma ring_list_pop_update:
  assumes "head < length buf" "n < length buf"
  shows "ring_list buf head (Suc n) = buf ! head # ring_list (buf[head := x]) ((head + 1) mod length buf) n"
proof -
  have "head \<noteq> (head + 1 + i) mod length buf" if "i < n" for i
  proof -
    have "(head + 0) mod length buf \<noteq> (head + Suc i) mod length buf"
      by (rule ring_index_less) (use that assms in auto)
    then show ?thesis using assms by simp
  qed
  then have "ring_list (buf[head := x]) ((head + 1) mod length buf) n = ring_list buf ((head + 1) mod length buf) n"
    by (simp add: ring_list_def mod_simps)
  then show ?thesis using ring_list_pop [OF assms(1)] by simp
qed

end
