(* ===== verification/NrFraming.thy ===== *)
theory NrFraming imports NrPrelude begin

text \<open>
  The transport framing of NetworkRuntime: \<^verbatim>\<open>NrPrimitiveCodec.h\<close>, \<^verbatim>\<open>NrPacketHeader.h\<close>,
  \<^verbatim>\<open>NrPacketHeaderCodec.h\<close>, \<^verbatim>\<open>NrPacketParser.h/.cpp\<close>. A frame is a 6-byte header (length, type,
  version, flags) followed by the semantic payload. The lemmas show that the header codec is a
  round trip between platforms of either byte order, and that the parser depends only on the
  bytes of the frame it reports, so that its verdict is stable when more bytes arrive.
\<close>

unbundle bit_operations_syntax

section \<open>Byte order\<close>

datatype NrByteOrder = LittleEndian | BigEndian

definition NrDefaultByteOrder :: NrByteOrder where
  "NrDefaultByteOrder = LittleEndian"

text \<open>
  The object representation that \<^verbatim>\<open>memcpy\<close> copies is the platform's: \<open>native\<close> stands for
  \<^verbatim>\<open>std::endian::native\<close>, which the code asserts to be little or big.
\<close>

fun object_bytes16 :: "NrByteOrder \<Rightarrow> u16 \<Rightarrow> byte list" where
  "object_bytes16 LittleEndian v = [ucast v, ucast (drop_bit 8 v)]"
| "object_bytes16 BigEndian v = [ucast (drop_bit 8 v), ucast v]"

fun object_value16 :: "NrByteOrder \<Rightarrow> byte list \<Rightarrow> u16" where
  "object_value16 LittleEndian [b0, b1] = ucast b0 OR push_bit 8 (ucast b1)"
| "object_value16 BigEndian [b0, b1] = ucast b1 OR push_bit 8 (ucast b0)"
| "object_value16 _ _ = 0"

definition NrByteSwap16 :: "u16 \<Rightarrow> u16" where
  "NrByteSwap16 value = drop_bit 8 value OR push_bit 8 value"

definition NrProtocolEndianConvert :: "NrByteOrder \<Rightarrow> u16 \<Rightarrow> u16" where
  "NrProtocolEndianConvert native value =
     (let shouldSwap =
            (NrDefaultByteOrder = LittleEndian \<and> native = BigEndian) \<or>
            (NrDefaultByteOrder = BigEndian \<and> native = LittleEndian)
      in if shouldSwap then NrByteSwap16 value else value)"

section \<open>Primitive codec\<close>

definition NrReadU8 :: "byte list \<Rightarrow> u8" where
  "NrReadU8 bytes = bytes ! 0"

definition NrReadU16 :: "NrByteOrder \<Rightarrow> byte list \<Rightarrow> u16" where
  "NrReadU16 native bytes = NrProtocolEndianConvert native (object_value16 native bytes)"

definition NrWriteU8 :: "u8 \<Rightarrow> byte list" where
  "NrWriteU8 value = [value]"

definition NrWriteU16 :: "NrByteOrder \<Rightarrow> u16 \<Rightarrow> byte list" where
  "NrWriteU16 native value = object_bytes16 native (NrProtocolEndianConvert native value)"

text \<open>The two bytes of a 16-bit word, low byte first, and the word they make.\<close>

lemma byte_bit_bound: "bit (b :: byte) n \<Longrightarrow> n < 8"
  using bit_imp_le_length [of b n] by simp

lemma u16_of_bytes: "(ucast (ucast v :: byte) :: u16) OR push_bit 8 (ucast (ucast (drop_bit 8 v) :: byte)) = v"
  by (rule bit_word_eqI) (auto simp: bit_simps)

lemma low_byte_of_bytes: "(ucast ((ucast b0 :: u16) OR push_bit 8 (ucast b1)) :: byte) = b0"
  by (rule bit_word_eqI) (auto simp: bit_simps)

lemma high_byte_of_bytes: "(ucast (drop_bit 8 ((ucast (b0 :: byte) :: u16) OR push_bit 8 (ucast b1))) :: byte) = b1"
  by (rule bit_word_eqI) (auto simp: bit_simps dest: byte_bit_bound)

lemma swap_low_byte: "(ucast (NrByteSwap16 v) :: byte) = ucast (drop_bit 8 v)"
  unfolding NrByteSwap16_def by (rule bit_word_eqI) (auto simp: bit_simps)

lemma swap_high_byte: "(ucast (drop_bit 8 (NrByteSwap16 v)) :: byte) = ucast v"
  unfolding NrByteSwap16_def by (rule bit_word_eqI) (auto simp: bit_simps dest: bit_imp_le_length)

lemma swap_of_bytes:
  "NrByteSwap16 ((ucast (b1 :: byte) :: u16) OR push_bit 8 (ucast (b0 :: byte))) = ucast b0 OR push_bit 8 (ucast b1)"
  unfolding NrByteSwap16_def by (rule bit_word_eqI) (auto simp: bit_simps dest: byte_bit_bound)

text \<open>Written bytes and read values do not depend on the platform: the wire is little-endian.\<close>

lemma NrWriteU16_wire: "NrWriteU16 native v = [ucast v, ucast (drop_bit 8 v)]"
  by (cases native)
    (simp_all add: NrWriteU16_def NrProtocolEndianConvert_def NrDefaultByteOrder_def
      swap_low_byte swap_high_byte)

lemma NrReadU16_wire: "NrReadU16 native [b0, b1] = ucast b0 OR push_bit 8 (ucast b1)"
  by (cases native)
    (simp_all add: NrReadU16_def NrProtocolEndianConvert_def NrDefaultByteOrder_def swap_of_bytes)

section \<open>Packet header\<close>

definition NrPacketHeaderLength :: nat where "NrPacketHeaderLength = 6"
definition NrMaxPacketLength :: nat where "NrMaxPacketLength = 8192"
definition NrCurrentProtocolVersion :: u8 where "NrCurrentProtocolVersion = 1"

record NrPacketHeader =
  packetLength :: u16
  packetType :: u16
  headerVersion :: u8
  headerFlags :: u8

definition NrPacketHeader_default :: NrPacketHeader where
  "NrPacketHeader_default = \<lparr>packetLength = 0, packetType = 0, headerVersion = 0, headerFlags = 0\<rparr>"

definition NrPacketHeader_Encode :: "NrByteOrder \<Rightarrow> NrPacketHeader \<Rightarrow> byte list \<Rightarrow> byte list" where
  "NrPacketHeader_Encode native header bytes =
     (let bytes = memcpy_at 0 (NrWriteU16 native (packetLength header)) bytes;
          bytes = memcpy_at 2 (NrWriteU16 native (packetType header)) bytes;
          bytes = memcpy_at 4 (NrWriteU8 (headerVersion header)) bytes
      in memcpy_at 5 (NrWriteU8 (headerFlags header)) bytes)"

definition NrPacketHeader_Decode :: "NrByteOrder \<Rightarrow> byte list \<Rightarrow> NrPacketHeader" where
  "NrPacketHeader_Decode native bytes =
     \<lparr>packetLength = NrReadU16 native (take 2 (drop 0 bytes)),
      packetType = NrReadU16 native (take 2 (drop 2 bytes)),
      headerVersion = NrReadU8 (take 1 (drop 4 bytes)),
      headerFlags = NrReadU8 (take 1 (drop 5 bytes))\<rparr>"

definition header_wire :: "NrPacketHeader \<Rightarrow> byte list" where
  "header_wire h =
     [ucast (packetLength h), ucast (drop_bit 8 (packetLength h)),
      ucast (packetType h), ucast (drop_bit 8 (packetType h)), headerVersion h, headerFlags h]"

lemma length_header_wire [simp]: "length (header_wire h) = NrPacketHeaderLength"
  by (simp add: header_wire_def NrPacketHeaderLength_def)

lemma header_bytes_cases:
  assumes "length bytes = NrPacketHeaderLength"
  obtains a b c d e f where "bytes = [a, b, c, d, e, f]"
  using assms by (auto simp: NrPacketHeaderLength_def numeral_eq_Suc length_Suc_conv)

lemma Encode_wire:
  assumes "length bytes = NrPacketHeaderLength"
  shows "NrPacketHeader_Encode native h bytes = header_wire h"
proof -
  obtain a b c d e f where "bytes = [a, b, c, d, e, f]"
    using assms by (rule header_bytes_cases)
  then show ?thesis
    by (simp add: NrPacketHeader_Encode_def Let_def memcpy_at_def NrWriteU16_wire NrWriteU8_def
        header_wire_def)
qed

lemma Decode_wire: "NrPacketHeader_Decode native (header_wire h @ rest) = h"
  by (simp add: NrPacketHeader_Decode_def header_wire_def NrReadU16_wire NrReadU8_def u16_of_bytes)

lemma Decode_take:
  assumes "NrPacketHeaderLength \<le> length bytes"
  shows "NrPacketHeader_Decode native (take NrPacketHeaderLength bytes) = NrPacketHeader_Decode native bytes"
  using assms by (simp add: NrPacketHeader_Decode_def NrPacketHeaderLength_def drop_take min_def)

lemma header_wire_Decode:
  assumes "length bytes = NrPacketHeaderLength"
  shows "header_wire (NrPacketHeader_Decode native bytes) = bytes"
proof -
  obtain a b c d e f where "bytes = [a, b, c, d, e, f]"
    using assms by (rule header_bytes_cases)
  then show ?thesis
    by (simp add: NrPacketHeader_Decode_def header_wire_def NrReadU8_def NrReadU16_wire
        low_byte_of_bytes high_byte_of_bytes del: drop_bit_or)
qed

section \<open>Packet parser\<close>

datatype NrProtocolErrorReason =
    NoReason
  | InvalidLength
  | PacketTooLarge
  | UnsupportedVersion
  | ReservedFlags

datatype NrPacketParseStatus = Complete | NeedMoreData | ParseProtocolError

record NrPacketParserConfig =
  maxPacketSize :: nat
  supportedVersion :: u8

definition NrPacketParserConfig_default :: NrPacketParserConfig where
  "NrPacketParserConfig_default =
     \<lparr>maxPacketSize = NrMaxPacketLength, supportedVersion = NrCurrentProtocolVersion\<rparr>"

text \<open>\<open>packetBytes\<close> is the span the result points at: a prefix of the readable bytes.\<close>

record NrPacketParseResult =
  parseStatus :: NrPacketParseStatus
  protocolErrorReason :: NrProtocolErrorReason
  parsedHeader :: NrPacketHeader
  packetBytes :: "byte list"

definition NrPacketParseResult_default :: NrPacketParseResult where
  "NrPacketParseResult_default =
     \<lparr>parseStatus = NeedMoreData, protocolErrorReason = NoReason,
      parsedHeader = NrPacketHeader_default, packetBytes = []\<rparr>"

definition NrPacketParser_Create :: "NrPacketParserConfig \<Rightarrow> NrPacketParserConfig NrResult" where
  "NrPacketParser_Create config =
     (if maxPacketSize config < NrPacketHeaderLength then
        Inl (NrStatus_Failure NrErrorCode.InvalidArgument)
      else if supportedVersion config = 0 then
        Inl (NrStatus_Failure NrErrorCode.InvalidArgument)
      else Inr config)"

definition SetProtocolError ::
    "NrPacketParseResult \<Rightarrow> NrProtocolErrorReason \<Rightarrow> NrStatus \<times> NrPacketParseResult" where
  "SetProtocolError result reason =
     (NrStatus_Failure NrErrorCode.ProtocolError,
      result\<lparr>parseStatus := ParseProtocolError, protocolErrorReason := reason\<rparr>)"

definition NrPacketParser_Parse ::
    "NrByteOrder \<Rightarrow> NrPacketParserConfig \<Rightarrow> byte list \<Rightarrow> NrStatus \<times> NrPacketParseResult" where
  "NrPacketParser_Parse native config readableBytes =
     (let result = NrPacketParseResult_default in
      if length readableBytes < NrPacketHeaderLength then (NrStatus_Success, result)
      else
        let header = NrPacketHeader_Decode native (take NrPacketHeaderLength readableBytes);
            result = result\<lparr>parsedHeader := header\<rparr> in
        if unat (packetLength header) < NrPacketHeaderLength then
          SetProtocolError result InvalidLength
        else if unat (packetLength header) > maxPacketSize config then
          SetProtocolError result PacketTooLarge
        else if headerVersion header \<noteq> supportedVersion config then
          SetProtocolError result UnsupportedVersion
        else if headerFlags header \<noteq> 0 then
          SetProtocolError result ReservedFlags
        else if length readableBytes < unat (packetLength header) then
          (NrStatus_Success, NrPacketParseResult_default)
        else
          (NrStatus_Success,
           result\<lparr>parseStatus := Complete, protocolErrorReason := NoReason,
             packetBytes := take (unat (packetLength header)) readableBytes\<rparr>))"

text \<open>
  What a frame is, independently of the parser: the header's four checks, and a frame of the
  wire with its payload.
\<close>

definition header_error :: "NrPacketParserConfig \<Rightarrow> NrPacketHeader \<Rightarrow> NrProtocolErrorReason" where
  "header_error config h =
     (if unat (packetLength h) < NrPacketHeaderLength then InvalidLength
      else if maxPacketSize config < unat (packetLength h) then PacketTooLarge
      else if headerVersion h \<noteq> supportedVersion config then UnsupportedVersion
      else if headerFlags h \<noteq> 0 then ReservedFlags else NoReason)"

definition valid_frame :: "NrPacketParserConfig \<Rightarrow> NrPacketHeader \<Rightarrow> byte list \<Rightarrow> bool" where
  "valid_frame config h payload \<longleftrightarrow>
     header_error config h = NoReason \<and>
     unat (packetLength h) = NrPacketHeaderLength + length payload"

definition frame :: "NrPacketHeader \<Rightarrow> byte list \<Rightarrow> byte list" where
  "frame h payload = header_wire h @ payload"

lemma Parse_short:
  "length bytes < NrPacketHeaderLength \<Longrightarrow>
    NrPacketParser_Parse native config bytes = (NrStatus_Success, NrPacketParseResult_default)"
  by (simp add: NrPacketParser_Parse_def Let_def)

text \<open>The parser by cases on the decoded header.\<close>

lemma Parse_long:
  assumes "NrPacketHeaderLength \<le> length bytes"
    and "h = NrPacketHeader_Decode native bytes"
  shows "NrPacketParser_Parse native config bytes =
    (if header_error config h \<noteq> NoReason then
       SetProtocolError (NrPacketParseResult_default\<lparr>parsedHeader := h\<rparr>) (header_error config h)
     else if length bytes < unat (packetLength h) then (NrStatus_Success, NrPacketParseResult_default)
     else (NrStatus_Success,
       \<lparr>parseStatus = Complete, protocolErrorReason = NoReason, parsedHeader = h,
        packetBytes = take (unat (packetLength h)) bytes\<rparr>))"
  using assms
  by (simp add: NrPacketParser_Parse_def Let_def Decode_take header_error_def
      NrPacketParseResult_default_def)

lemma Decode_append:
  assumes "NrPacketHeaderLength \<le> length bytes"
  shows "NrPacketHeader_Decode native (bytes @ rest) = NrPacketHeader_Decode native bytes"
  using assms Decode_take [of bytes native] Decode_take [of "bytes @ rest" native] by simp

lemma Parse_needs_header:
  assumes "parseStatus (snd (NrPacketParser_Parse native config bytes)) \<noteq> NeedMoreData"
  shows "NrPacketHeaderLength \<le> length bytes"
  using assms
  by (cases "length bytes < NrPacketHeaderLength")
    (simp_all add: Parse_short NrPacketParseResult_default_def)

lemma header_error_frame:
  "valid_frame config h payload \<Longrightarrow> header_error config h = NoReason"
  "valid_frame config h payload \<Longrightarrow> length (frame h payload) = unat (packetLength h)"
  by (simp_all add: valid_frame_def frame_def)

lemma parseStatus_SetProtocolError [simp]:
  "parseStatus (snd (SetProtocolError r e)) = ParseProtocolError"
  "protocolErrorReason (snd (SetProtocolError r e)) = e"
  "fst (SetProtocolError r e) = NrStatus_Failure NrErrorCode.ProtocolError"
  by (simp_all add: SetProtocolError_def)

lemma Parse_frame:
  assumes "valid_frame config h payload"
  shows "NrPacketParser_Parse native config (frame h payload @ rest) =
    (NrStatus_Success,
     \<lparr>parseStatus = Complete, protocolErrorReason = NoReason, parsedHeader = h,
      packetBytes = frame h payload\<rparr>)"
proof -
  have "NrPacketHeader_Decode native (frame h payload @ rest) = h"
    by (simp add: frame_def Decode_wire)
  moreover have "NrPacketHeaderLength \<le> length (frame h payload @ rest)"
    by (simp add: frame_def)
  ultimately show ?thesis
    using header_error_frame [OF assms] by (simp add: Parse_long)
qed

lemma Parse_Complete_frame:
  assumes "parseStatus (snd (NrPacketParser_Parse native config bytes)) = Complete"
  obtains h payload rest where "valid_frame config h payload" "bytes = frame h payload @ rest"
proof -
  let ?h = "NrPacketHeader_Decode native bytes"
  let ?n = "unat (packetLength ?h)"
  have long: "NrPacketHeaderLength \<le> length bytes"
    by (rule Parse_needs_header [of native config]) (simp add: assms)
  have ok: "header_error config ?h = NoReason" and fits: "?n \<le> length bytes"
    using assms by (auto simp: Parse_long [OF long refl] NrPacketParseResult_default_def
        split: if_splits)
  have six: "NrPacketHeaderLength \<le> ?n"
    using ok by (auto simp: header_error_def split: if_splits)
  have wire: "header_wire ?h = take NrPacketHeaderLength bytes"
    using header_wire_Decode [of "take NrPacketHeaderLength bytes" native] long by (simp add: Decode_take)
  show ?thesis
  proof
    show "valid_frame config ?h (drop NrPacketHeaderLength (take ?n bytes))"
      using ok fits six by (simp add: valid_frame_def)
    show "bytes = frame ?h (drop NrPacketHeaderLength (take ?n bytes)) @ drop ?n bytes"
      using fits six by (simp add: frame_def wire drop_take take_append_drop_middle)
  qed
qed

text \<open>Bytes behind the header's verdict or behind the frame do not change the result.\<close>

lemma Parse_verdict_append:
  assumes "parseStatus (snd (NrPacketParser_Parse native config bytes)) \<noteq> NeedMoreData"
  shows "NrPacketParser_Parse native config (bytes @ rest) = NrPacketParser_Parse native config bytes"
proof -
  have long: "NrPacketHeaderLength \<le> length bytes"
    using assms by (rule Parse_needs_header)
  then have long': "NrPacketHeaderLength \<le> length (bytes @ rest)" by simp
  show ?thesis
    using assms
    by (simp add: Parse_long [OF long refl] Parse_long [OF long' refl] Decode_append [OF long]
        NrPacketParseResult_default_def split: if_splits)
qed

section \<open>Properties\<close>

text \<open>
  The header codec is a round trip across platforms: what a machine of byte order
  \<open>native\<close> encodes, a machine of byte order \<open>other\<close> decodes to the same header, and encoding
  what was decoded gives the six bytes back.
\<close>

theorem header_roundtrip:
  assumes "length bytes = NrPacketHeaderLength"
  shows "NrPacketHeader_Decode other (NrPacketHeader_Encode native h bytes) = h \<and>
    NrPacketHeader_Encode native (NrPacketHeader_Decode other bytes) bytes = bytes"
  using assms Decode_wire [of other h "[]"] by (simp add: Encode_wire header_wire_Decode)

theorem header_roundtrip_witness:
  "NrPacketHeader_Decode BigEndian
     (NrPacketHeader_Encode LittleEndian
        \<lparr>packetLength = 10, packetType = 513, headerVersion = 1, headerFlags = 0\<rparr>
        [1, 2, 3, 4, 5, 6])
   = \<lparr>packetLength = 10, packetType = 513, headerVersion = 1, headerFlags = 0\<rparr>"
  using header_roundtrip [of "[1, 2, 3, 4, 5, 6]" BigEndian LittleEndian
      "\<lparr>packetLength = 10, packetType = 513, headerVersion = 1, headerFlags = 0\<rparr>"]
  by (simp add: NrPacketHeaderLength_def)

text \<open>
  Property C13. The parser accepts exactly the frames of the protocol. It returns success with a
  complete packet, the header \<open>h\<close> and the bytes \<open>packet\<close> exactly when the stream starts with a valid
  frame for that header (length of at least the header and at most the configured maximum,
  supported version, no reserved flag, payload present in full) whose bytes are \<open>packet\<close>; and a
  \<open>Complete\<close> verdict is never given otherwise, whatever status comes with it: the stream has one if
  and only if it starts with a valid frame.
\<close>

theorem parser_accepts_frames:
  "(NrPacketParser_Parse native config bytes =
      (NrStatus_Success,
       \<lparr>parseStatus = Complete, protocolErrorReason = NoReason, parsedHeader = h, packetBytes = packet\<rparr>) \<longleftrightarrow>
    (\<exists>payload rest. valid_frame config h payload \<and> packet = frame h payload \<and> bytes = packet @ rest)) \<and>
   (parseStatus (snd (NrPacketParser_Parse native config bytes)) = Complete \<longleftrightarrow>
    (\<exists>h payload rest. valid_frame config h payload \<and> bytes = frame h payload @ rest))"
proof (intro conjI iffI)
  assume parsed: "NrPacketParser_Parse native config bytes = (NrStatus_Success,
    \<lparr>parseStatus = Complete, protocolErrorReason = NoReason, parsedHeader = h, packetBytes = packet\<rparr>)"
  then have "parseStatus (snd (NrPacketParser_Parse native config bytes)) = Complete" by simp
  then obtain h' payload rest where v: "valid_frame config h' payload" "bytes = frame h' payload @ rest"
    by (rule Parse_Complete_frame)
  from parsed [unfolded v(2) Parse_frame [OF v(1)]] have "h = h' \<and> packet = frame h' payload" by auto
  then show "\<exists>payload rest. valid_frame config h payload \<and> packet = frame h payload \<and> bytes = packet @ rest"
    using v by blast
next
  assume "\<exists>payload rest. valid_frame config h payload \<and> packet = frame h payload \<and> bytes = packet @ rest"
  then show "NrPacketParser_Parse native config bytes = (NrStatus_Success,
      \<lparr>parseStatus = Complete, protocolErrorReason = NoReason, parsedHeader = h, packetBytes = packet\<rparr>)"
    using Parse_frame by blast
next
  assume "parseStatus (snd (NrPacketParser_Parse native config bytes)) = Complete"
  then show "\<exists>h payload rest. valid_frame config h payload \<and> bytes = frame h payload @ rest"
    by (rule Parse_Complete_frame) blast
next
  assume "\<exists>h payload rest. valid_frame config h payload \<and> bytes = frame h payload @ rest"
  then obtain h payload rest where "valid_frame config h payload" "bytes = frame h payload @ rest" by blast
  then show "parseStatus (snd (NrPacketParser_Parse native config bytes)) = Complete"
    using Parse_frame [of config h payload native rest] by simp
qed

text \<open>
  Property C36. A verdict of the parser does not depend on how the transport segments the
  stream: once it has reported a packet or a protocol error on the bytes received so far, it
  reports the same status and result on any longer stream.
\<close>

theorem parser_verdict_stable:
  assumes "parseStatus (snd (NrPacketParser_Parse native config bytes)) \<noteq> NeedMoreData"
  shows "NrPacketParser_Parse native config (bytes @ rest) = NrPacketParser_Parse native config bytes"
  using assms by (rule Parse_verdict_append)

theorem parser_verdict_stable_witness:
  "NrPacketParser_Parse LittleEndian NrPacketParserConfig_default ([7, 0, 2, 0, 1, 0, 99] @ [7, 0, 3])
   = NrPacketParser_Parse LittleEndian NrPacketParserConfig_default [7, 0, 2, 0, 1, 0, 99]"
proof (rule parser_verdict_stable)
  show "parseStatus (snd (NrPacketParser_Parse LittleEndian NrPacketParserConfig_default
          [7, 0, 2, 0, 1, 0, 99])) \<noteq> NeedMoreData"
    by code_simp
qed

end
