(* ===== verification/NrMemory.thy ===== *)
theory NrMemory imports NrPrelude begin

text \<open>
  The runtime's memory: the overflow-checked size arithmetic of \<^verbatim>\<open>NrMemoryMath.h\<close>, and the
  fixed-block pool of \<^verbatim>\<open>NrMemoryPool.h/.cpp\<close> with its stack of free block indices, its metadata
  and its statistics. Addresses are 64-bit words. The pool invariant says that the free stack holds
  exactly the blocks not in use, once each; from it follow that a block is never handed out twice
  and that a released pointer is resolved to the block it came from.
\<close>

unbundle bit_operations_syntax

section \<open>Size arithmetic\<close>

definition size_max :: u64 where "size_max = - 1"

definition NrIsPowerOfTwo :: "u64 \<Rightarrow> bool" where
  "NrIsPowerOfTwo v \<longleftrightarrow> v \<noteq> 0 \<and> (v AND (v - 1)) = 0"

definition NrTryMultiply :: "u64 \<Rightarrow> u64 \<Rightarrow> u64 option" where
  "NrTryMultiply left right =
     (if left \<noteq> 0 \<and> right > size_max div left then None else Some (left * right))"

definition NrTryAlignUp :: "u64 \<Rightarrow> u64 \<Rightarrow> u64 option" where
  "NrTryAlignUp v align =
     (let remainder = v AND (align - 1) in
      if remainder = 0 then Some v
      else let padding = align - remainder in
        if v > size_max - padding then None else Some (v + padding))"

definition NrIsAligned :: "u64 \<Rightarrow> u64 \<Rightarrow> bool" where
  "NrIsAligned address align \<longleftrightarrow> align \<noteq> 0 \<and> address mod align = 0"

lemma unat_size_max: "unat size_max = 2 ^ 64 - 1"
  by (simp add: size_max_def unsigned_minus_1_eq_mask mask_eq_exp_minus_1)

lemma unat_size_max_minus: "unat (size_max - p) = 2 ^ 64 - 1 - unat p"
proof -
  have "p \<le> size_max" by (simp add: size_max_def)
  then show ?thesis by (simp only: unat_sub unat_size_max)
qed

text \<open>The guard by division is exactly the absence of overflow.\<close>

lemma NrTryMultiply_Some_iff:
  "NrTryMultiply l r = Some p \<longleftrightarrow> unat l * unat r < 2 ^ 64 \<and> p = l * r"
proof (cases "l = 0")
  case True
  then show ?thesis by (auto simp: NrTryMultiply_def)
next
  case False
  then have pos: "0 < unat l" by (simp add: unat_gt_0)
  have "r > size_max div l \<longleftrightarrow> (2 ^ 64 - 1) div unat l < unat r"
    by (simp add: word_less_nat_alt unat_div unat_size_max)
  also have "\<dots> \<longleftrightarrow> \<not> unat r * unat l \<le> 2 ^ 64 - 1"
    using pos by (simp add: div_less_iff_less_mult not_le)
  finally show ?thesis
    using False by (auto simp: NrTryMultiply_def mult.commute)
qed

lemma NrTryMultiply_unat: "NrTryMultiply l r = Some p \<Longrightarrow> unat p = unat l * unat r"
  using unat_mult_lem [of l r] by (simp add: NrTryMultiply_Some_iff)

text \<open>The test for a power of two.\<close>

lemma nat_power_of_two:
  "n \<noteq> 0 \<Longrightarrow> (n AND (n - 1)) = 0 \<Longrightarrow> \<exists>k. n = 2 ^ k" for n :: nat
proof (induction n rule: less_induct)
  case (less n)
  show ?case
  proof (cases "even n")
    case True
    then obtain m where m: "n = 2 * m" by (auto elim: evenE)
    with less.prems have "m \<noteq> 0" by simp
    then have "n - 1 = 2 * (m - 1) + 1" using m by simp
    then have "(n AND (n - 1)) = 2 * (m AND (m - 1))"
      using m by (simp add: and_rec [of "2 * m"])
    then have "(m AND (m - 1)) = 0" using less.prems by simp
    with less.IH [of m] \<open>m \<noteq> 0\<close> m obtain k where "m = 2 ^ k" by auto
    then have "n = 2 ^ Suc k" using m by simp
    then show ?thesis by blast
  next
    case False
    then obtain m where m: "n = 2 * m + 1" by (auto elim: oddE)
    then have "(n AND (n - 1)) = 2 * m" by (simp add: and_rec [of "Suc (2 * m)"])
    then have "n = 2 ^ 0" using less.prems m by simp
    then show ?thesis by blast
  qed
qed

lemma unat_and: "unat (a AND b) = (unat a AND unat b)" for a b :: "'a::len word"
  by (simp add: unsigned_and_eq)

lemma NrIsPowerOfTwo_power:
  assumes "NrIsPowerOfTwo a"
  obtains k where "k < 64" "a = 2 ^ k" "unat a = 2 ^ k"
proof -
  have "a \<noteq> 0" and z: "(a AND (a - 1)) = 0" using assms by (auto simp: NrIsPowerOfTwo_def)
  then have "unat (a - 1) = unat a - 1" by (simp add: unat_minus_one)
  moreover have "(unat a AND unat (a - 1)) = 0" using z by (metis unat_0 unat_and)
  ultimately obtain k where k: "unat a = 2 ^ k"
    using nat_power_of_two [of "unat a"] \<open>a \<noteq> 0\<close> by (auto simp: unat_eq_0)
  then have "(2 :: nat) ^ k < 2 ^ 64" using unsigned_less [of a, where ?'a = nat] by simp
  then have "k < 64" using power_less_imp_less_exp [of 2 k 64] by simp
  moreover have "a = 2 ^ k"
  proof -
    have "a = of_nat (unat a)" by simp
    also have "\<dots> = 2 ^ k" unfolding k by simp
    finally show ?thesis .
  qed
  ultimately show ?thesis using k that by blast
qed

lemma and_align_mask:
  assumes "NrIsPowerOfTwo a"
  shows "unat (v AND (a - 1)) = unat v mod unat a"
proof -
  obtain k where k: "k < 64" "a = 2 ^ k" "unat a = 2 ^ k"
    using assms by (rule NrIsPowerOfTwo_power)
  have "v AND (a - 1) = take_bit k v"
    using k by (simp add: take_bit_eq_mask mask_eq_exp_minus_1)
  then have "unat (v AND (a - 1)) = take_bit k (unat v)"
    by (simp only: unsigned_take_bit_eq)
  then show ?thesis by (simp only: take_bit_eq_mod k(3))
qed

text \<open>
  Aligning up gives the least multiple of the alignment that is not below the value, and fails
  exactly when that multiple does not fit in 64 bits.
\<close>

definition align_up :: "nat \<Rightarrow> nat \<Rightarrow> nat" where
  "align_up v a = (v + (a - 1)) div a * a"

lemma align_up_alt:
  assumes "0 < a"
  shows "align_up v a = (if v mod a = 0 then v else v + (a - v mod a))"
proof -
  let ?q = "v div a" and ?r = "v mod a"
  have v: "v = ?q * a + ?r" by simp
  have "?r < a" using assms by simp
  have quot: "c < a \<Longrightarrow> (q * a + c) div a = q" for q c :: nat by simp
  show ?thesis
  proof (cases "?r = 0")
    case True
    then have "v + (a - 1) = ?q * a + (a - 1)" using v by linarith
    then have "(v + (a - 1)) div a = ?q" using quot [of "a - 1" ?q] assms by simp
    then show ?thesis using True v by (simp add: align_up_def)
  next
    case False
    have "v + (a - 1) = ?q * a + a + (?r - 1)" using False assms v by linarith
    then have "v + (a - 1) = (?q + 1) * a + (?r - 1)" by (simp only: distrib_right mult_1)
    then have "(v + (a - 1)) div a = ?q + 1"
      using quot [of "?r - 1" "?q + 1"] \<open>?r < a\<close> by simp
    then have "align_up v a = ?q * a + a" by (simp add: align_up_def)
    moreover have "v + (a - ?r) = ?q * a + a" using v \<open>?r < a\<close> by linarith
    ultimately show ?thesis using False by simp
  qed
qed

lemma NrTryAlignUp_Some_iff:
  assumes "NrIsPowerOfTwo a"
  shows "NrTryAlignUp v a = Some w \<longleftrightarrow>
    align_up (unat v) (unat a) < 2 ^ 64 \<and> unat w = align_up (unat v) (unat a)"
proof -
  let ?r = "v AND (a - 1)"
  obtain k where "unat a = 2 ^ k" using assms by (rule NrIsPowerOfTwo_power)
  then have pos: "0 < unat a" by simp
  have r: "unat ?r = unat v mod unat a" using assms by (rule and_align_mask)
  then have "unat ?r < unat a" using pos by simp
  then have pad: "unat (a - ?r) = unat a - unat v mod unat a"
    using r by (simp add: unat_sub word_le_nat_alt)
  show ?thesis
  proof (cases "?r = 0")
    case True
    then have "align_up (unat v) (unat a) = unat v" using r pos by (simp add: align_up_alt)
    then show ?thesis using True using unsigned_less [of v, where ?'a = nat]
      by (auto simp: NrTryAlignUp_def word_eq_iff_unsigned [where ?'a = nat])
  next
    case False
    then have nz: "unat v mod unat a \<noteq> 0" using r by (metis unat_eq_0)
    then have up: "align_up (unat v) (unat a) = unat v + unat (a - ?r)"
      using pos pad by (simp add: align_up_alt)
    have "v > size_max - (a - ?r) \<longleftrightarrow> \<not> unat v + unat (a - ?r) < 2 ^ 64"
      using unsigned_less [of "a - ?r", where ?'a = nat]
      unfolding word_less_nat_alt unat_size_max_minus by auto
    moreover have "unat v + unat (a - ?r) < 2 ^ 64 \<Longrightarrow> unat (v + (a - ?r)) = unat v + unat (a - ?r)"
      by (subst unat_add_lem [symmetric]) simp
    ultimately show ?thesis
      using False up
      by (auto simp: NrTryAlignUp_def Let_def word_eq_iff_unsigned [where ?'a = nat])
  qed
qed

section \<open>The fixed-block pool\<close>

record NrMemoryPoolConfig =
  blockSize :: u64
  blockCount :: u64
  alignment :: u64

record NrMemoryPoolStats =
  capacityStat :: u64
  inUseStat :: u64
  availableStat :: u64
  highWatermark :: u64
  failedAcquireCount :: u64

text \<open>
  \<open>storageBase\<close> is the address of \<^verbatim>\<open>storage_\<close> (0 is the null pointer). The stack
  \<open>freeBlockIndices\<close> grows at its end, like the vector of the code.
\<close>

record NrMemoryPool =
  poolConfig :: NrMemoryPoolConfig
  poolStats :: NrMemoryPoolStats
  blockStride :: u64
  storageSize :: u64
  storageBase :: u64
  metadata :: "bool list"
  freeBlockIndices :: "nat list"

definition IsValidConfig :: "NrMemoryPoolConfig \<Rightarrow> bool" where
  "IsValidConfig config \<longleftrightarrow>
     blockSize config > 0 \<and> blockCount config > 0 \<and> NrIsPowerOfTwo (alignment config)"

definition NrMemoryPool_construct :: "NrMemoryPoolConfig \<Rightarrow> NrMemoryPool" where
  "NrMemoryPool_construct config =
     \<lparr>poolConfig = config,
      poolStats = \<lparr>capacityStat = blockCount config, inUseStat = 0,
        availableStat = blockCount config, highWatermark = 0, failedAcquireCount = 0\<rparr>,
      blockStride = 0, storageSize = 0, storageBase = 0, metadata = [], freeBlockIndices = []\<rparr>"

text \<open>
  The C runtime's \<^verbatim>\<open>_aligned_malloc\<close> is the argument \<open>aligned_malloc\<close> (size, alignment, the
  resulting address or 0); \<open>vectorsFit\<close> tells whether the two vectors of the pool could be
  allocated.
\<close>

definition InitializeStorage ::
    "(u64 \<Rightarrow> u64 \<Rightarrow> u64) \<Rightarrow> bool \<Rightarrow> NrMemoryPool \<Rightarrow> NrStatus \<times> NrMemoryPool" where
  "InitializeStorage aligned_malloc vectorsFit pool =
     (let config = poolConfig pool in
      case NrTryAlignUp (blockSize config) (alignment config) of
        None \<Rightarrow> (NrStatus_Failure NrErrorCode.CapacityExceeded, pool)
      | Some stride \<Rightarrow>
        (case NrTryMultiply stride (blockCount config) of
           None \<Rightarrow> (NrStatus_Failure NrErrorCode.CapacityExceeded, pool)
         | Some bytes \<Rightarrow>
           let allocationAlignment = max (alignment config) 8;
               storage = aligned_malloc bytes allocationAlignment in
           if storage = 0 then (NrStatus_Failure NrErrorCode.OutOfMemory, pool)
           else
             let pool = pool\<lparr>storageBase := storage, blockStride := stride, storageSize := bytes\<rparr> in
             if \<not> vectorsFit then (NrStatus_Failure NrErrorCode.OutOfMemory, pool)
             else
               (NrStatus_Success,
                pool\<lparr>metadata := replicate (unat (blockCount config)) False,
                     freeBlockIndices := rev [0..<unat (blockCount config)]\<rparr>)))"

definition NrMemoryPool_Create ::
    "(u64 \<Rightarrow> u64 \<Rightarrow> u64) \<Rightarrow> bool \<Rightarrow> bool \<Rightarrow> NrMemoryPoolConfig \<Rightarrow> NrMemoryPool NrResult" where
  "NrMemoryPool_Create aligned_malloc poolFits vectorsFit config =
     (if \<not> IsValidConfig config then Inl (NrStatus_Failure NrErrorCode.InvalidArgument)
      else if \<not> poolFits then Inl (NrStatus_Failure NrErrorCode.OutOfMemory)
      else
        let (initStatus, pool) = InitializeStorage aligned_malloc vectorsFit (NrMemoryPool_construct config) in
        if Failed initStatus then Inl initStatus else Inr pool)"

definition blockAddressOf :: "NrMemoryPool \<Rightarrow> nat \<Rightarrow> u64" where
  "blockAddressOf pool blockIndex = storageBase pool + of_nat blockIndex * blockStride pool"

definition NrMemoryPool_Acquire :: "NrMemoryPool \<Rightarrow> u64 NrResult \<times> NrMemoryPool" where
  "NrMemoryPool_Acquire pool =
     (let stats = poolStats pool in
      if freeBlockIndices pool = [] then
        (Inl (NrStatus_Failure NrErrorCode.PoolExhausted),
         if failedAcquireCount stats \<noteq> size_max then
           pool\<lparr>poolStats := stats\<lparr>failedAcquireCount := failedAcquireCount stats + 1\<rparr>\<rparr>
         else pool)
      else
        let blockIndex = last (freeBlockIndices pool);
            inUse = inUseStat stats + 1 in
        (Inr (blockAddressOf pool blockIndex),
         pool\<lparr>freeBlockIndices := butlast (freeBlockIndices pool),
              metadata := (metadata pool)[blockIndex := True],
              poolStats := stats\<lparr>inUseStat := inUse, availableStat := availableStat stats - 1,
                highWatermark := max (highWatermark stats) inUse\<rparr>\<rparr>))"

definition TryResolveBlockIndex :: "NrMemoryPool \<Rightarrow> u64 \<Rightarrow> nat option" where
  "TryResolveBlockIndex pool block =
     (if block = 0 \<or> storageBase pool = 0 \<or> blockStride pool = 0 then None
      else if block < storageBase pool then None
      else
        let offset = block - storageBase pool in
        if offset \<ge> storageSize pool \<or> offset mod blockStride pool \<noteq> 0 then None
        else
          let index = unat (offset div blockStride pool) in
          if index < length (metadata pool) then Some index else None)"

definition NrMemoryPool_Release :: "u64 \<Rightarrow> NrMemoryPool \<Rightarrow> NrStatus \<times> NrMemoryPool" where
  "NrMemoryPool_Release block pool =
     (case TryResolveBlockIndex pool block of
        None \<Rightarrow> (NrStatus_Failure NrErrorCode.InvalidArgument, pool)
      | Some blockIndex \<Rightarrow>
          if \<not> metadata pool ! blockIndex then (NrStatus_Failure NrErrorCode.InvalidState, pool)
          else
            let stats = poolStats pool in
            (NrStatus_Success,
             pool\<lparr>metadata := (metadata pool)[blockIndex := False],
                  freeBlockIndices := freeBlockIndices pool @ [blockIndex],
                  poolStats := stats\<lparr>inUseStat := inUseStat stats - 1,
                    availableStat := availableStat stats + 1\<rparr>\<rparr>))"

text \<open>
  The pool's invariant: the storage does not wrap around the address space, the free stack holds
  exactly the blocks not in use, once each, and the statistics count the blocks.
\<close>

definition pool_storage_ok :: "NrMemoryPool \<Rightarrow> bool" where
  "pool_storage_ok pool \<longleftrightarrow>
     storageBase pool \<noteq> 0 \<and> blockStride pool \<noteq> 0 \<and>
     unat (blockStride pool) * length (metadata pool) = unat (storageSize pool) \<and>
     unat (storageBase pool) + unat (storageSize pool) \<le> 2 ^ 64 \<and>
     unat (blockSize (poolConfig pool)) \<le> unat (blockStride pool) \<and>
     unat (alignment (poolConfig pool)) dvd unat (blockStride pool) \<and>
     unat (alignment (poolConfig pool)) dvd unat (storageBase pool)"

definition pool_free_ok :: "NrMemoryPool \<Rightarrow> bool" where
  "pool_free_ok pool \<longleftrightarrow>
     distinct (freeBlockIndices pool) \<and>
     set (freeBlockIndices pool) = {i. i < length (metadata pool) \<and> \<not> metadata pool ! i}"

definition pool_stats_ok :: "NrMemoryPool \<Rightarrow> bool" where
  "pool_stats_ok pool \<longleftrightarrow>
     capacityStat (poolStats pool) = of_nat (length (metadata pool)) \<and>
     availableStat (poolStats pool) = of_nat (length (freeBlockIndices pool)) \<and>
     inUseStat (poolStats pool) + availableStat (poolStats pool) = capacityStat (poolStats pool) \<and>
     inUseStat (poolStats pool) \<le> highWatermark (poolStats pool)"

definition pool_inv :: "NrMemoryPool \<Rightarrow> bool" where
  "pool_inv pool \<longleftrightarrow> pool_storage_ok pool \<and> pool_free_ok pool \<and> pool_stats_ok pool"

text \<open>Block addresses: block \<open>i\<close> starts \<open>i\<close> strides into the storage, without wrap-around.\<close>

lemma unat_of_nat_mult:
  assumes "i * unat s < 2 ^ 64" "s \<noteq> 0"
  shows "unat (of_nat i * s :: u64) = i * unat s"
proof -
  have "1 \<le> unat s" using assms(2) by (simp add: Suc_le_eq unat_gt_0)
  then have "i * 1 \<le> i * unat s" by (intro mult_le_mono2)
  then have "i < 2 ^ 64" using assms(1) by linarith
  then have "unat (of_nat i :: u64) = i" by (simp add: unat_of_nat take_bit_nat_eq_self)
  then show ?thesis using assms(1) unat_mult_lem [of "of_nat i" s] by simp
qed

lemma block_offset:
  assumes "pool_storage_ok pool" "i < length (metadata pool)"
  shows "unat (of_nat i * blockStride pool) = i * unat (blockStride pool)"
    and "(i + 1) * unat (blockStride pool) \<le> unat (storageSize pool)"
    and "unat (blockAddressOf pool i) = unat (storageBase pool) + i * unat (blockStride pool)"
proof -
  let ?s = "unat (blockStride pool)"
  have "(i + 1) * ?s \<le> length (metadata pool) * ?s" using assms(2) by (intro mult_le_mono1) simp
  then show le: "(i + 1) * ?s \<le> unat (storageSize pool)"
    using assms(1) by (simp add: pool_storage_ok_def mult.commute)
  have s0: "0 < ?s" using assms(1) by (simp add: pool_storage_ok_def unat_gt_0)
  then have lt: "i * ?s < unat (storageSize pool)" using le by simp
  moreover have "unat (storageSize pool) < 2 ^ 64"
    using unsigned_less [of "storageSize pool", where ?'a = nat] by simp
  ultimately show off: "unat (of_nat i * blockStride pool) = i * ?s"
    using assms(1) by (intro unat_of_nat_mult) (simp_all add: pool_storage_ok_def)
  have "unat (storageBase pool) + i * ?s < 2 ^ 64"
    using lt assms(1) by (simp add: pool_storage_ok_def)
  then show "unat (blockAddressOf pool i) = unat (storageBase pool) + i * ?s"
    using off unat_add_lem [of "storageBase pool" "of_nat i * blockStride pool"]
    by (simp add: blockAddressOf_def)
qed

lemma Resolve_blockAddressOf:
  assumes "pool_storage_ok pool" "i < length (metadata pool)"
  shows "TryResolveBlockIndex pool (blockAddressOf pool i) = Some i"
proof -
  let ?s = "unat (blockStride pool)" and ?off = "of_nat i * blockStride pool"
  note off = block_offset [OF assms]
  have s0: "0 < ?s" "blockStride pool \<noteq> 0" and b0: "storageBase pool \<noteq> 0"
    using assms(1) by (simp_all add: pool_storage_ok_def unat_gt_0)
  have "blockAddressOf pool i \<noteq> 0"
    using off(3) b0 by (metis add_is_0 unat_eq_0)
  moreover have "\<not> blockAddressOf pool i < storageBase pool"
    by (simp add: word_less_nat_alt off(3))
  moreover have "blockAddressOf pool i - storageBase pool = ?off"
    by (simp add: blockAddressOf_def)
  moreover have "\<not> storageSize pool \<le> ?off"
    using off(1,2) s0 by (simp add: word_le_nat_alt)
  moreover have "?off mod blockStride pool = 0"
    by (simp add: word_eq_iff_unsigned [where ?'a = nat] unat_mod_distrib off(1))
  moreover have "unat (?off div blockStride pool) = i"
    using s0 by (simp add: unat_div_distrib off(1))
  ultimately show ?thesis
    using s0 b0 assms(2) by (simp add: TryResolveBlockIndex_def Let_def)
qed

text \<open>Conversely, a pointer resolves to an index only if it is that block's address.\<close>

lemma Resolve_SomeD:
  assumes "TryResolveBlockIndex pool block = Some i"
  shows "block = blockAddressOf pool i" "i < length (metadata pool)"
proof -
  let ?off = "block - storageBase pool"
  have m: "?off mod blockStride pool = 0" and i: "i = unat (?off div blockStride pool)"
    and len: "i < length (metadata pool)"
    using assms by (auto simp: TryResolveBlockIndex_def Let_def split: if_splits)
  have "?off = ?off div blockStride pool * blockStride pool + ?off mod blockStride pool"
    by (simp only: div_mult_mod_eq)
  then have "?off = of_nat i * blockStride pool" using m i by simp
  then show "block = blockAddressOf pool i" by (simp add: blockAddressOf_def algebra_simps)
  show "i < length (metadata pool)" by (rule len)
qed

text \<open>Every operation keeps the invariant.\<close>

lemma pool_storage_ok_update [simp]:
  "pool_storage_ok (pool\<lparr>poolStats := st\<rparr>) = pool_storage_ok pool"
  "pool_storage_ok (pool\<lparr>freeBlockIndices := fr\<rparr>) = pool_storage_ok pool"
  "length md = length (metadata pool) \<Longrightarrow>
    pool_storage_ok (pool\<lparr>metadata := md\<rparr>) = pool_storage_ok pool"
  by (simp_all add: pool_storage_ok_def)

abbreviation after_acquire :: "NrMemoryPool \<Rightarrow> nat \<Rightarrow> nat list \<Rightarrow> NrMemoryPool" where
  "after_acquire pool i fr \<equiv>
     pool\<lparr>freeBlockIndices := fr, metadata := (metadata pool)[i := True],
         poolStats := (poolStats pool)\<lparr>inUseStat := inUseStat (poolStats pool) + 1,
           availableStat := availableStat (poolStats pool) - 1,
           highWatermark := max (highWatermark (poolStats pool)) (inUseStat (poolStats pool) + 1)\<rparr>\<rparr>"

abbreviation after_release :: "NrMemoryPool \<Rightarrow> nat \<Rightarrow> NrMemoryPool" where
  "after_release pool i \<equiv>
     pool\<lparr>metadata := (metadata pool)[i := False],
           freeBlockIndices := freeBlockIndices pool @ [i],
           poolStats := (poolStats pool)\<lparr>inUseStat := inUseStat (poolStats pool) - 1,
             availableStat := availableStat (poolStats pool) + 1\<rparr>\<rparr>"

lemma Acquire_cases:
  assumes "pool_inv pool" "freeBlockIndices pool \<noteq> []"
  obtains fr i where "freeBlockIndices pool = fr @ [i]" "i < length (metadata pool)"
    "\<not> metadata pool ! i" "i \<notin> set fr"
    "NrMemoryPool_Acquire pool = (Inr (blockAddressOf pool i), after_acquire pool i fr)"
proof -
  obtain fr i where f: "freeBlockIndices pool = fr @ [i]"
    using assms(2) by (meson rev_exhaust)
  have "distinct (fr @ [i])"
    and s: "set (fr @ [i]) = {i. i < length (metadata pool) \<and> \<not> metadata pool ! i}"
    using assms(1) unfolding pool_inv_def pool_free_ok_def f by simp_all
  moreover have "i \<in> {i. i < length (metadata pool) \<and> \<not> metadata pool ! i}"
    unfolding s [symmetric] by simp
  ultimately show ?thesis
    using f by (intro that [OF f]) (simp_all add: NrMemoryPool_Acquire_def Let_def)
qed

lemma Acquire_inv:
  assumes "pool_inv pool"
  shows "pool_inv (snd (NrMemoryPool_Acquire pool))"
proof (cases "freeBlockIndices pool = []")
  case True
  then show ?thesis
    using assms
    by (auto simp: NrMemoryPool_Acquire_def pool_inv_def pool_free_ok_def pool_stats_ok_def Let_def)
next
  case False
  obtain fr i where f: "freeBlockIndices pool = fr @ [i]" "i < length (metadata pool)"
    "\<not> metadata pool ! i" "i \<notin> set fr"
    and a: "NrMemoryPool_Acquire pool = (Inr (blockAddressOf pool i), after_acquire pool i fr)"
    by (rule Acquire_cases [OF assms False])
  have "distinct (fr @ [i])"
    and s: "set (fr @ [i]) = {i. i < length (metadata pool) \<and> \<not> metadata pool ! i}"
    using assms unfolding pool_inv_def pool_free_ok_def f by simp_all
  moreover have "set fr = set (fr @ [i]) - {i}" using f(4) by auto
  ultimately have "set fr = {j. j < length (metadata pool) \<and> \<not> metadata pool ! j} - {i}"
    by (simp only:)
  also have "\<dots> = {j. j < length (metadata pool) \<and> \<not> (metadata pool)[i := True] ! j}"
    using f(2,3) by (auto simp: nth_list_update split: if_splits)
  finally have "set fr = {j. j < length (metadata pool) \<and> \<not> (metadata pool)[i := True] ! j}" .
  then have "pool_free_ok (after_acquire pool i fr)"
    using \<open>distinct (fr @ [i])\<close> by (simp add: pool_free_ok_def)
  moreover have st: "capacityStat (poolStats pool) = of_nat (length (metadata pool))"
    "availableStat (poolStats pool) = of_nat (length (freeBlockIndices pool))"
    "inUseStat (poolStats pool) + availableStat (poolStats pool) = capacityStat (poolStats pool)"
    "inUseStat (poolStats pool) \<le> highWatermark (poolStats pool)"
    using assms unfolding pool_inv_def pool_stats_ok_def by blast+
  have "availableStat (poolStats pool) = of_nat (length fr) + 1"
    unfolding st(2) f(1) by simp
  then have left: "availableStat (poolStats pool) - 1 = of_nat (length fr)" by simp
  have "inUseStat (poolStats pool) + 1 + of_nat (length fr) = capacityStat (poolStats pool)"
    unfolding left [symmetric] st(3) [symmetric] by simp
  then have "pool_stats_ok (after_acquire pool i fr)"
    using st left by (simp add: pool_stats_ok_def)
  ultimately show ?thesis
    using assms by (simp add: a pool_inv_def)
qed

lemma Release_cases:
  "(\<exists>i < length (metadata pool). metadata pool ! i \<and> block = blockAddressOf pool i \<and>
      NrMemoryPool_Release block pool = (NrStatus_Success, after_release pool i)) \<or>
   (\<exists>e \<in> {NrErrorCode.InvalidArgument, NrErrorCode.InvalidState}.
      NrMemoryPool_Release block pool = (NrStatus_Failure e, pool))"
proof (cases "TryResolveBlockIndex pool block")
  case (Some i)
  then show ?thesis
    using Resolve_SomeD [OF Some] by (auto simp: NrMemoryPool_Release_def Let_def)
qed (simp add: NrMemoryPool_Release_def)

lemma length_metadata_less: "pool_storage_ok pool \<Longrightarrow> length (metadata pool) < 2 ^ 64"
proof -
  assume ok: "pool_storage_ok pool"
  then have "1 * length (metadata pool) \<le> unat (blockStride pool) * length (metadata pool)"
    by (intro mult_le_mono1) (simp add: pool_storage_ok_def Suc_le_eq unat_gt_0)
  also have "\<dots> = unat (storageSize pool)" using ok by (simp add: pool_storage_ok_def)
  also have "\<dots> < 2 ^ 64" using unsigned_less [of "storageSize pool", where ?'a = nat] by simp
  finally show ?thesis by simp
qed

lemma in_use_positive:
  assumes "pool_inv pool" "i < length (metadata pool)" "metadata pool ! i"
  shows "1 \<le> inUseStat (poolStats pool)"
proof -
  let ?free = "freeBlockIndices pool" and ?n = "length (metadata pool)"
  have "set ?free \<subset> {..<?n}" using assms by (auto simp: pool_inv_def pool_free_ok_def)
  then have "card (set ?free) < ?n" using psubset_card_mono [of "{..<?n}"] by simp
  then have less: "length ?free < ?n"
    using assms(1) distinct_card [of ?free] by (simp add: pool_inv_def pool_free_ok_def)
  have "inUseStat (poolStats pool) = of_nat ?n - of_nat (length ?free)"
    using assms(1) by (auto simp: pool_inv_def pool_stats_ok_def algebra_simps)
  also have "\<dots> = of_nat (?n - length ?free)" using less by simp
  finally have eq: "inUseStat (poolStats pool) = of_nat (?n - length ?free)" .
  have "?n - length ?free < 2 ^ 64"
    using length_metadata_less [of pool] assms(1) by (simp add: pool_inv_def)
  then have "unat (inUseStat (poolStats pool)) = ?n - length ?free"
    unfolding eq by (simp add: unat_of_nat take_bit_nat_eq_self)
  then show ?thesis using less by (simp add: word_le_nat_alt)
qed

lemma Release_inv:
  assumes "pool_inv pool"
  shows "pool_inv (snd (NrMemoryPool_Release block pool))"
proof -
  have "pool_inv (after_release pool i)"
    if i: "i < length (metadata pool)" "metadata pool ! i" for i
  proof -
    have fr: "distinct (freeBlockIndices pool)"
      "set (freeBlockIndices pool) = {i. i < length (metadata pool) \<and> \<not> metadata pool ! i}"
      using assms by (simp_all add: pool_inv_def pool_free_ok_def)
    moreover have "insert i (set (freeBlockIndices pool)) =
        {j. j < length (metadata pool) \<and> \<not> (metadata pool)[i := False] ! j}"
      using i fr by (auto simp: nth_list_update)
    ultimately have "pool_free_ok (after_release pool i)"
      using i by (simp add: pool_free_ok_def)
    moreover have st: "pool_stats_ok pool" using assms by (simp add: pool_inv_def)
    have "pool_stats_ok (after_release pool i)"
      using st order_trans [OF word_sub_le [OF in_use_positive [OF assms i]]]
      by (simp add: pool_stats_ok_def) (metis add.commute)
    ultimately show ?thesis
      using assms by (simp add: pool_inv_def)
  qed
  then show ?thesis
    using Release_cases [of pool block] assms by auto
qed

text \<open>Creation establishes the invariant, given a C allocator that keeps its contract.\<close>

definition malloc_contract :: "(u64 \<Rightarrow> u64 \<Rightarrow> u64) \<Rightarrow> bool" where
  "malloc_contract aligned_malloc \<longleftrightarrow>
     (\<forall>bytes align. aligned_malloc bytes align \<noteq> 0 \<longrightarrow>
        unat (aligned_malloc bytes align) + unat bytes \<le> 2 ^ 64 \<and>
        unat align dvd unat (aligned_malloc bytes align))"

lemma power_dvd_max_8:
  assumes "NrIsPowerOfTwo a"
  shows "unat a dvd unat (max a 8)"
proof -
  obtain k where k: "unat a = 2 ^ k" using assms by (rule NrIsPowerOfTwo_power)
  show ?thesis
  proof (cases "a \<le> 8")
    case True
    then have "(2 :: nat) ^ k \<le> 2 ^ 3" using k by (simp add: word_le_nat_alt)
    then have "k \<le> 3" by (rule power_le_imp_le_exp [rotated]) simp
    then have "unat a dvd 2 ^ 3" unfolding k by (rule le_imp_power_dvd)
    then show ?thesis using True by (simp add: max_def)
  next
    case False
    then show ?thesis by (simp add: max_def)
  qed
qed

lemma align_up_dvd: "a dvd align_up v a"
  by (simp add: align_up_def)

lemma align_up_ge:
  assumes "0 < a"
  shows "v \<le> align_up v a"
  unfolding align_up_alt [OF assms] by (split if_split) (blast intro: le_add1 order_refl)

lemma Create_inv:
  assumes "malloc_contract aligned_malloc"
    and "NrMemoryPool_Create aligned_malloc poolFits vectorsFit config = Inr pool"
  shows "pool_inv pool" "length (metadata pool) = unat (blockCount config)"
    "poolConfig pool = config" "\<forall>i < length (metadata pool). \<not> metadata pool ! i"
proof -
  have cfg: "IsValidConfig config" and
    ini: "InitializeStorage aligned_malloc vectorsFit (NrMemoryPool_construct config) = (NrStatus_Success, pool)"
    using assms(2)
    by (auto simp: NrMemoryPool_Create_def InitializeStorage_def Let_def split: if_splits option.splits prod.splits)
  then have al: "NrIsPowerOfTwo (alignment config)" by (simp add: IsValidConfig_def)
  obtain k where "unat (alignment config) = 2 ^ k" using al by (rule NrIsPowerOfTwo_power)
  then have apos: "0 < unat (alignment config)" by simp
  obtain stride bytes where stride: "NrTryAlignUp (blockSize config) (alignment config) = Some stride"
    and bytes: "NrTryMultiply stride (blockCount config) = Some bytes"
    and base: "aligned_malloc bytes (max (alignment config) 8) \<noteq> 0"
    and pool: "pool = (NrMemoryPool_construct config)
      \<lparr>storageBase := aligned_malloc bytes (max (alignment config) 8), blockStride := stride,
       storageSize := bytes, metadata := replicate (unat (blockCount config)) False,
       freeBlockIndices := rev [0..<unat (blockCount config)]\<rparr>"
    using ini
    by (auto simp: InitializeStorage_def NrMemoryPool_construct_def Let_def
        split: if_splits option.splits)
  have st: "unat stride = align_up (unat (blockSize config)) (unat (alignment config))"
    using stride al by (simp add: NrTryAlignUp_Some_iff)
  have ge: "unat (blockSize config) \<le> unat stride" unfolding st by (rule align_up_ge [OF apos])
  then have nz: "stride \<noteq> 0" using cfg by (auto simp: IsValidConfig_def word_less_nat_alt)
  have dvd: "unat (alignment config) dvd unat stride" unfolding st by (rule align_up_dvd)
  have dvd2: "unat (alignment config) dvd unat (aligned_malloc bytes (max (alignment config) 8))"
    using assms(1) base power_dvd_max_8 [OF al] by (meson dvd_trans malloc_contract_def)
  have fits: "unat (aligned_malloc bytes (max (alignment config) 8)) + unat bytes \<le> 2 ^ 64"
    using assms(1) base by (auto simp: malloc_contract_def)
  have "pool_storage_ok pool"
    using base nz ge dvd dvd2 fits NrTryMultiply_unat [OF bytes]
    by (simp add: pool pool_storage_ok_def NrMemoryPool_construct_def)
  moreover have "pool_free_ok pool" by (auto simp: pool pool_free_ok_def)
  moreover have "pool_stats_ok pool"
    by (simp add: pool pool_stats_ok_def NrMemoryPool_construct_def)
  ultimately show "pool_inv pool" by (simp add: pool_inv_def)
  show "length (metadata pool) = unat (blockCount config)" "poolConfig pool = config"
    "\<forall>i < length (metadata pool). \<not> metadata pool ! i"
    by (simp_all add: pool NrMemoryPool_construct_def)
qed

section \<open>Properties\<close>

text \<open>The memory a block occupies, as the set of its byte addresses.\<close>

definition block_range :: "NrMemoryPool \<Rightarrow> u64 \<Rightarrow> nat set" where
  "block_range pool block =
     {unat block ..< unat block + unat (blockSize (poolConfig pool))}"

definition outstanding :: "NrMemoryPool \<Rightarrow> u64 set" where
  "outstanding pool = {blockAddressOf pool i | i. i < length (metadata pool) \<and> metadata pool ! i}"

lemma block_range_disjoint:
  assumes "pool_storage_ok pool" "i < length (metadata pool)" "j < length (metadata pool)" "i < j"
  shows "block_range pool (blockAddressOf pool i) \<inter> block_range pool (blockAddressOf pool j) = {}"
proof -
  let ?s = "unat (blockStride pool)"
  have "(i + 1) * ?s \<le> j * ?s" using assms(4) by (intro mult_le_mono1) simp
  then show ?thesis
    using assms by (simp add: block_range_def block_offset(3) pool_storage_ok_def ivl_disj_int)
qed

lemma blockAddressOf_inj:
  assumes "pool_storage_ok pool" "i < length (metadata pool)" "j < length (metadata pool)"
  shows "blockAddressOf pool i = blockAddressOf pool j \<longleftrightarrow> i = j"
  using Resolve_blockAddressOf [OF assms(1,2)] Resolve_blockAddressOf [OF assms(1,3)]
  by (metis option.inject)

lemma blockAddressOf_update [simp]:
  "blockAddressOf (after_acquire pool i fr) = blockAddressOf pool"
  "blockAddressOf (after_release pool i) = blockAddressOf pool"
  by (simp_all add: blockAddressOf_def fun_eq_iff)

lemma blockAddressOf_outstanding:
  assumes "pool_storage_ok pool" "i < length (metadata pool)"
  shows "blockAddressOf pool i \<in> outstanding pool \<longleftrightarrow> metadata pool ! i"
  using assms blockAddressOf_inj [OF assms(1)] unfolding outstanding_def by blast

lemma outstanding_acquire:
  assumes "i < length (metadata pool)"
  shows "outstanding (after_acquire pool i fr) = insert (blockAddressOf pool i) (outstanding pool)"
proof (rule set_eqI)
  fix b
  show "b \<in> outstanding (after_acquire pool i fr) \<longleftrightarrow>
      b \<in> insert (blockAddressOf pool i) (outstanding pool)"
    using assms by (simp add: outstanding_def nth_list_update) metis
qed

lemma outstanding_release:
  assumes "pool_storage_ok pool" "i < length (metadata pool)"
  shows "outstanding (after_release pool i) = outstanding pool - {blockAddressOf pool i}"
proof (rule set_eqI)
  fix b
  show "b \<in> outstanding (after_release pool i) \<longleftrightarrow>
      b \<in> outstanding pool - {blockAddressOf pool i}"
    using assms(2) blockAddressOf_inj [OF assms(1)]
    by (simp add: outstanding_def nth_list_update) metis
qed

lemma block_range_outstanding:
  assumes "pool_storage_ok pool" "i < length (metadata pool)" "\<not> metadata pool ! i"
    and "other \<in> outstanding pool"
  shows "block_range pool (blockAddressOf pool i) \<inter> block_range pool other = {}"
proof -
  obtain j where j: "j < length (metadata pool)" "metadata pool ! j" "other = blockAddressOf pool j"
    using assms(4) unfolding outstanding_def by blast
  then have "i < j \<or> j < i" using assms(3) by (metis linorder_neqE_nat)
  then show ?thesis
    using j block_range_disjoint [OF assms(1)] assms(2) by (metis Int_commute)
qed

text \<open>The acquired block, as a fact for the clients of the pool.\<close>

lemma Acquire_block:
  assumes "pool_inv pool"
  shows "case NrMemoryPool_Acquire pool of
      (Inr block, pool') \<Rightarrow>
        block \<notin> outstanding pool \<and> outstanding pool' = insert block (outstanding pool) \<and>
        unat (alignment (poolConfig pool)) dvd unat block \<and>
        block_range pool block \<subseteq>
          {unat (storageBase pool) ..< unat (storageBase pool) + unat (storageSize pool)} \<and>
        (\<forall>other \<in> outstanding pool. block_range pool block \<inter> block_range pool other = {})
    | (Inl status, pool') \<Rightarrow>
        status = NrStatus_Failure NrErrorCode.PoolExhausted \<and>
        (\<forall>i < length (metadata pool). metadata pool ! i) \<and> outstanding pool' = outstanding pool"
proof (cases "freeBlockIndices pool = []")
  case True
  then have "\<forall>i < length (metadata pool). metadata pool ! i"
    using assms by (simp add: pool_inv_def pool_free_ok_def)
  then show ?thesis
    using True by (simp add: NrMemoryPool_Acquire_def Let_def outstanding_def blockAddressOf_def)
next
  case False
  have ok: "pool_storage_ok pool" using assms by (simp add: pool_inv_def)
  obtain fr i where i: "i < length (metadata pool)" "\<not> metadata pool ! i"
    and a: "NrMemoryPool_Acquire pool = (Inr (blockAddressOf pool i), after_acquire pool i fr)"
    by (rule Acquire_cases [OF assms False])
  let ?b = "blockAddressOf pool i"
  have "unat (alignment (poolConfig pool)) dvd unat ?b"
    using ok by (simp add: block_offset(3) [OF ok i(1)] pool_storage_ok_def)
  moreover have "unat ?b + unat (blockSize (poolConfig pool)) \<le>
      unat (storageBase pool) + unat (storageSize pool)"
    using ok block_offset(2) [OF ok i(1)]
    by (simp add: block_offset(3) [OF ok i(1)] pool_storage_ok_def)
  then have "block_range pool ?b \<subseteq>
      {unat (storageBase pool) ..< unat (storageBase pool) + unat (storageSize pool)}"
    by (auto simp: block_range_def block_offset(3) [OF ok i(1)])
  ultimately show ?thesis
    using i(2) blockAddressOf_outstanding [OF ok i(1)] block_range_outstanding [OF ok i]
    by (simp add: a outstanding_acquire [OF i(1)])
qed

text \<open>The release, as a fact for the clients of the pool.\<close>

lemma Release_block:
  assumes "pool_inv pool"
  shows "(case NrMemoryPool_Release block pool of (status, pool') \<Rightarrow>
      if block \<in> outstanding pool then
        status = NrStatus_Success \<and> outstanding pool' = outstanding pool - {block}
      else Failed status \<and> pool' = pool) \<and>
    (case NrMemoryPool_Acquire pool of (Inr b, pool') \<Rightarrow>
        NrMemoryPool_Release b pool' =
          (NrStatus_Success,
           pool\<lparr>poolStats := (poolStats pool)\<lparr>highWatermark := highWatermark (poolStats pool')\<rparr>\<rparr>)
     | (Inl e, pool') \<Rightarrow> True)"
proof
  have ok: "pool_storage_ok pool" using assms by (simp add: pool_inv_def)
  show "case NrMemoryPool_Release block pool of (status, pool') \<Rightarrow>
      if block \<in> outstanding pool then
        status = NrStatus_Success \<and> outstanding pool' = outstanding pool - {block}
      else Failed status \<and> pool' = pool"
  proof (cases "block \<in> outstanding pool")
    case True
    then obtain i where i: "i < length (metadata pool)" "metadata pool ! i" "block = blockAddressOf pool i"
      unfolding outstanding_def by blast
    then have "NrMemoryPool_Release block pool = (NrStatus_Success, after_release pool i)"
      by (simp add: NrMemoryPool_Release_def Resolve_blockAddressOf [OF ok] Let_def)
    then show ?thesis
      using True i by (simp add: outstanding_release [OF ok])
  next
    case False
    then show ?thesis
      using Release_cases [of pool block] blockAddressOf_outstanding [OF ok] by auto
  qed
  show "case NrMemoryPool_Acquire pool of (Inr b, pool') \<Rightarrow>
        NrMemoryPool_Release b pool' =
          (NrStatus_Success,
           pool\<lparr>poolStats := (poolStats pool)\<lparr>highWatermark := highWatermark (poolStats pool')\<rparr>\<rparr>)
     | (Inl e, pool') \<Rightarrow> True"
  proof (cases "freeBlockIndices pool = []")
    case False
    obtain fr i where i: "freeBlockIndices pool = fr @ [i]" "i < length (metadata pool)"
        "\<not> metadata pool ! i"
      and a: "NrMemoryPool_Acquire pool = (Inr (blockAddressOf pool i), after_acquire pool i fr)"
      by (rule Acquire_cases [OF assms False])
    have "pool_storage_ok (after_acquire pool i fr)" using ok by simp
    then have "TryResolveBlockIndex (after_acquire pool i fr) (blockAddressOf pool i) = Some i"
      using Resolve_blockAddressOf [of "after_acquire pool i fr" i] i(2) by simp
    moreover have "(metadata pool)[i := False] = metadata pool"
      using i(3) list_update_id [of "metadata pool" i] by simp
    ultimately show ?thesis
      using i by (simp add: a NrMemoryPool_Release_def Let_def)
  qed (simp add: NrMemoryPool_Acquire_def Let_def)
qed

text \<open>A concrete pool of two 24-byte blocks, at alignment 16, for the witnesses.\<close>

definition sample_malloc :: "u64 \<Rightarrow> u64 \<Rightarrow> u64" where
  "sample_malloc bytes align = (if bytes \<le> 4096 \<and> align = 16 then 65536 else 0)"

definition sample_config :: NrMemoryPoolConfig where
  "sample_config = \<lparr>blockSize = 24, blockCount = 2, alignment = 16\<rparr>"

definition sample_pool :: NrMemoryPool where
  "sample_pool = (case NrMemoryPool_Create sample_malloc True True sample_config of
     Inr pool \<Rightarrow> pool | Inl e \<Rightarrow> NrMemoryPool_construct sample_config)"

lemma sample_malloc_contract: "malloc_contract sample_malloc"
proof -
  have "(65536 :: u64) \<noteq> 0" by simp
  moreover have "unat bytes \<le> 4096" if "bytes \<le> 4096" for bytes :: u64
    using that by (simp add: word_le_nat_alt)
  ultimately show ?thesis by (fastforce simp: malloc_contract_def sample_malloc_def)
qed

lemma sample_pool_Create: "NrMemoryPool_Create sample_malloc True True sample_config = Inr sample_pool"
  by code_simp

lemma sample_pool_inv: "pool_inv sample_pool"
  using sample_malloc_contract sample_pool_Create by (rule Create_inv(1))

text \<open>
  A pool created by the code satisfies the pool invariant, and every operation keeps
  it: the free stack always holds exactly the blocks not in use, once each, and the statistics
  count them. The C allocator is a parameter, trusted to return an aligned region that lies in
  the address space.
\<close>

theorem pool_invariant:
  "malloc_contract aligned_malloc \<Longrightarrow>
   NrMemoryPool_Create aligned_malloc poolFits vectorsFit config = Inr pool0 \<Longrightarrow>
   pool_inv pool0 \<and> outstanding pool0 = {} \<and>
   (\<forall>pool block. pool_inv pool \<longrightarrow>
      pool_inv (snd (NrMemoryPool_Acquire pool)) \<and> pool_inv (snd (NrMemoryPool_Release block pool)))"
  using Create_inv Acquire_inv Release_inv by (auto simp: outstanding_def)

theorem pool_invariant_witness: "pool_inv sample_pool \<and> outstanding sample_pool = {}"
  using pool_invariant [OF sample_malloc_contract sample_pool_Create] by blast

text \<open>
  Property C22. An acquired block is exclusively the caller's: it was not outstanding before, it is
  aligned, its bytes lie in the pool's storage and are disjoint from those of every outstanding
  block. Acquisition fails exactly when every block is in use.
\<close>

theorem acquire_exclusive:
  assumes "pool_inv pool"
  shows "case NrMemoryPool_Acquire pool of
      (Inr block, pool') \<Rightarrow>
        block \<notin> outstanding pool \<and> outstanding pool' = insert block (outstanding pool) \<and>
        unat (alignment (poolConfig pool)) dvd unat block \<and>
        block_range pool block \<subseteq>
          {unat (storageBase pool) ..< unat (storageBase pool) + unat (storageSize pool)} \<and>
        (\<forall>other \<in> outstanding pool. block_range pool block \<inter> block_range pool other = {})
    | (Inl status, pool') \<Rightarrow>
        status = NrStatus_Failure NrErrorCode.PoolExhausted \<and>
        (\<forall>i < length (metadata pool). metadata pool ! i) \<and> outstanding pool' = outstanding pool"
  using assms by (rule Acquire_block)

theorem acquire_exclusive_witness:
  "outstanding (snd (NrMemoryPool_Acquire sample_pool)) = insert 65536 (outstanding sample_pool)"
proof -
  have "fst (NrMemoryPool_Acquire sample_pool) = Inr 65536" by code_simp
  then show ?thesis
    using acquire_exclusive [OF sample_pool_inv] by (auto split: prod.splits)
qed

text \<open>
  A release succeeds exactly for the address of an outstanding block, which it then
  takes out of circulation; a foreign pointer or a second release is refused and changes
  nothing. Releasing the block just acquired restores the pool up to the high watermark.
\<close>

theorem release_outstanding:
  assumes "pool_inv pool"
  shows "(case NrMemoryPool_Release block pool of (status, pool') \<Rightarrow>
      if block \<in> outstanding pool then
        status = NrStatus_Success \<and> outstanding pool' = outstanding pool - {block}
      else Failed status \<and> pool' = pool) \<and>
    (case NrMemoryPool_Acquire pool of (Inr b, pool') \<Rightarrow>
        NrMemoryPool_Release b pool' =
          (NrStatus_Success,
           pool\<lparr>poolStats := (poolStats pool)\<lparr>highWatermark := highWatermark (poolStats pool')\<rparr>\<rparr>)
     | (Inl e, pool') \<Rightarrow> True)"
  using assms by (rule Release_block)

theorem release_outstanding_witness:
  "snd (NrMemoryPool_Release 65600 sample_pool) = sample_pool"
proof -
  have "Failed (fst (NrMemoryPool_Release 65600 sample_pool))" by code_simp
  then show ?thesis
    using release_outstanding [OF sample_pool_inv, of 65600] by (auto split: prod.splits if_splits)
qed

end
