(* ===== verification/NrReceive.thy ===== *)
theory NrReceive imports NrFraming NrMemory "HOL-Library.Sublist" begin

text \<open>
  The receive buffer of a session (\<^verbatim>\<open>NrRecvBuffer.h/.cpp\<close>): a pooled block with a read and a
  write position, both 64-bit words. The receive of the operating system fills the writable span,
  \<^verbatim>\<open>CommitWritten\<close> makes the bytes readable, \<^verbatim>\<open>Consume\<close> drops a prefix of them and
  \<^verbatim>\<open>Compact\<close> moves the rest to the front. The lemmas show that the buffer is a byte stream: its
  readable bytes are those received and not consumed, in order. The locale \<open>receive_stream\<close> states
  that contract; its client is the reassembly of frames, which is independent of how the transport
  segments the stream.
\<close>

section \<open>The receive buffer\<close>

text \<open>\<open>storageBlock\<close> holds the bytes of the pooled block, \<open>None\<close> for the null block.\<close>

record NrRecvBuffer =
  storageBlock :: "byte list option"
  bufferCapacity :: u64
  readPos :: u64
  writePos :: u64

definition ReadableBytes :: "NrRecvBuffer \<Rightarrow> u64" where
  "ReadableBytes b = writePos b - readPos b"

definition WritableBytes :: "NrRecvBuffer \<Rightarrow> u64" where
  "WritableBytes b = bufferCapacity b - writePos b"

definition ConsumedBytes :: "NrRecvBuffer \<Rightarrow> u64" where
  "ConsumedBytes b = readPos b"

text \<open>The block is what \<^verbatim>\<open>NrMemoryPoolManager::AcquireBlock\<close> returned: its bytes, or a failure.\<close>

definition NrRecvBuffer_Create ::
    "byte list option NrResult \<Rightarrow> u64 \<Rightarrow> NrRecvBuffer NrResult" where
  "NrRecvBuffer_Create blockResult capacity =
     (if capacity = 0 then Inl (NrStatus_Failure NrErrorCode.InvalidArgument)
      else case blockResult of
        Inl status \<Rightarrow> Inl status
      | Inr None \<Rightarrow> Inl (NrStatus_Failure NrErrorCode.InvalidState)
      | Inr (Some bytes) \<Rightarrow>
          if length bytes < unat capacity then Inl (NrStatus_Failure NrErrorCode.CapacityExceeded)
          else Inr \<lparr>storageBlock = Some bytes, bufferCapacity = capacity, readPos = 0, writePos = 0\<rparr>)"

text \<open>The move constructor: the new buffer, and the emptied source.\<close>

definition NrRecvBuffer_Move :: "NrRecvBuffer \<Rightarrow> NrRecvBuffer \<times> NrRecvBuffer" where
  "NrRecvBuffer_Move other =
     (other, \<lparr>storageBlock = None, bufferCapacity = 0, readPos = 0, writePos = 0\<rparr>)"

text \<open>A writable span as its offset into the block and its size.\<close>

definition WritableSpan :: "NrRecvBuffer \<Rightarrow> nat \<times> nat" where
  "WritableSpan b =
     (case storageBlock b of None \<Rightarrow> (0, 0)
      | Some data \<Rightarrow> (unat (writePos b), unat (WritableBytes b)))"

definition ReadableSpan :: "NrRecvBuffer \<Rightarrow> byte list" where
  "ReadableSpan b =
     (case storageBlock b of None \<Rightarrow> []
      | Some data \<Rightarrow> take (unat (ReadableBytes b)) (drop (unat (readPos b)) data))"

definition CommitWritten :: "u64 \<Rightarrow> NrRecvBuffer \<Rightarrow> NrStatus \<times> NrRecvBuffer" where
  "CommitWritten bytesTransferred b =
     (if bytesTransferred > WritableBytes b then (NrStatus_Failure NrErrorCode.InvalidArgument, b)
      else (NrStatus_Success, b\<lparr>writePos := writePos b + bytesTransferred\<rparr>))"

definition Consume :: "u64 \<Rightarrow> NrRecvBuffer \<Rightarrow> NrStatus \<times> NrRecvBuffer" where
  "Consume bytes b =
     (if bytes > ReadableBytes b then (NrStatus_Failure NrErrorCode.InvalidArgument, b)
      else (NrStatus_Success, b\<lparr>readPos := readPos b + bytes\<rparr>))"

definition Compact :: "NrRecvBuffer \<Rightarrow> NrRecvBuffer" where
  "Compact b =
     (let readableBytes = ReadableBytes b;
          b = (if readableBytes > 0 \<and> readPos b > 0 then
                 b\<lparr>storageBlock := (case storageBlock b of None \<Rightarrow> None
                    | Some data \<Rightarrow>
                        Some (memcpy_at 0 (take (unat readableBytes) (drop (unat (readPos b)) data)) data))\<rparr>
               else b)
      in b\<lparr>readPos := 0, writePos := readableBytes\<rparr>)"

text \<open>
  The transport's part: a receive of the operating system stores \<open>bytes\<close> at the start of the span
  it was given, here the writable span.
\<close>

definition fill_writable :: "byte list \<Rightarrow> NrRecvBuffer \<Rightarrow> NrRecvBuffer" where
  "fill_writable bytes b =
     b\<lparr>storageBlock := map_option (memcpy_at (fst (WritableSpan b)) bytes) (storageBlock b)\<rparr>"

section \<open>The buffer is a byte stream\<close>

definition recv_inv :: "NrRecvBuffer \<Rightarrow> bool" where
  "recv_inv b \<longleftrightarrow>
     (case storageBlock b of None \<Rightarrow> False
      | Some data \<Rightarrow> unat (bufferCapacity b) \<le> length data) \<and>
     readPos b \<le> writePos b \<and> writePos b \<le> bufferCapacity b"

definition writable_count :: "NrRecvBuffer \<Rightarrow> nat" where
  "writable_count b = unat (WritableBytes b)"

lemma unat_ReadableBytes:
  "readPos b \<le> writePos b \<Longrightarrow> unat (ReadableBytes b) = unat (writePos b) - unat (readPos b)"
  by (simp add: ReadableBytes_def unat_sub)

lemma unat_WritableBytes:
  "writePos b \<le> bufferCapacity b \<Longrightarrow> unat (WritableBytes b) = unat (bufferCapacity b) - unat (writePos b)"
  by (simp add: WritableBytes_def unat_sub)

text \<open>The invariant over natural numbers.\<close>

lemma recv_invE:
  assumes "recv_inv b"
  obtains data where "storageBlock b = Some data" "unat (bufferCapacity b) \<le> length data"
    "unat (readPos b) \<le> unat (writePos b)" "unat (writePos b) \<le> unat (bufferCapacity b)"
    "unat (ReadableBytes b) = unat (writePos b) - unat (readPos b)"
    "unat (WritableBytes b) = unat (bufferCapacity b) - unat (writePos b)"
  using assms
  by (auto simp: recv_inv_def unat_ReadableBytes unat_WritableBytes word_le_nat_alt split: option.splits)

lemma length_ReadableSpan:
  assumes "recv_inv b"
  shows "length (ReadableSpan b) = unat (ReadableBytes b)"
  using assms by (elim recv_invE) (simp add: ReadableSpan_def)

lemma unat_plus_le:
  fixes a n c :: u64
  assumes "n \<le> c - a" "a \<le> c"
  shows "unat (a + n) = unat a + unat n" "a + n \<le> c"
proof -
  have "unat n \<le> unat c - unat a" using assms by (simp add: word_le_nat_alt unat_sub)
  moreover have "unat a \<le> unat c" using assms(2) by (simp add: word_le_nat_alt)
  ultimately have le: "unat a + unat n \<le> unat c" by simp
  then have "unat a + unat n < 2 ^ 64" using unsigned_less [of c, where ?'a = nat] by simp
  then show eq: "unat (a + n) = unat a + unat n" using unat_add_lem [of a n] by simp
  show "a + n \<le> c" using le by (simp add: word_le_nat_alt eq)
qed

lemma fill_Commit:
  assumes "recv_inv b" "length bytes \<le> writable_count b"
    and n: "n = of_nat (length bytes)"
  shows "fst (CommitWritten n (fill_writable bytes b)) = NrStatus_Success"
    and "recv_inv (snd (CommitWritten n (fill_writable bytes b)))"
    and "ReadableSpan (snd (CommitWritten n (fill_writable bytes b))) = ReadableSpan b @ bytes"
    and "writable_count (snd (CommitWritten n (fill_writable bytes b))) = writable_count b - length bytes"
proof -
  obtain data where d: "storageBlock b = Some data" "unat (bufferCapacity b) \<le> length data"
    "unat (readPos b) \<le> unat (writePos b)" "unat (writePos b) \<le> unat (bufferCapacity b)"
    "unat (ReadableBytes b) = unat (writePos b) - unat (readPos b)"
    "unat (WritableBytes b) = unat (bufferCapacity b) - unat (writePos b)"
    using assms(1) by (rule recv_invE)
  have len: "length bytes \<le> unat (WritableBytes b)" using assms(2) by (simp add: writable_count_def)
  then have "length bytes < 2 ^ 64"
    using unsigned_less [of "WritableBytes b", where ?'a = nat] by simp
  then have un: "unat n = length bytes" by (simp add: n unat_of_nat take_bit_nat_eq_self)
  have ok: "n \<le> bufferCapacity b - writePos b" "writePos b \<le> bufferCapacity b"
    using len un d(4) by (simp_all add: word_le_nat_alt WritableBytes_def)
  note plus = unat_plus_le [OF ok]
  have commit: "CommitWritten n (fill_writable bytes b) =
    (NrStatus_Success, b\<lparr>storageBlock := Some (memcpy_at (unat (writePos b)) bytes data),
       writePos := writePos b + n\<rparr>)"
    using d(1) ok(1) by (simp add: CommitWritten_def fill_writable_def WritableSpan_def WritableBytes_def)
  show "fst (CommitWritten n (fill_writable bytes b)) = NrStatus_Success" by (simp add: commit)
  have fits: "unat (writePos b) + length bytes \<le> length data" using len d by simp
  show inv: "recv_inv (snd (CommitWritten n (fill_writable bytes b)))"
    using d plus fits by (simp add: commit recv_inv_def word_le_nat_alt)
  show "writable_count (snd (CommitWritten n (fill_writable bytes b))) = writable_count b - length bytes"
    using plus d un by (simp add: commit writable_count_def unat_WritableBytes)
  have "unat (ReadableBytes (snd (CommitWritten n (fill_writable bytes b)))) =
      unat (writePos b) - unat (readPos b) + length bytes"
    using recv_invE [OF inv] d(3) plus(1) un by (auto simp: commit)
  then have "ReadableSpan (snd (CommitWritten n (fill_writable bytes b))) =
      drop (unat (readPos b)) (take (unat (writePos b) + length bytes)
        (memcpy_at (unat (writePos b)) bytes data))"
    using d(3) by (simp add: commit ReadableSpan_def drop_take)
  also have "\<dots> = drop (unat (readPos b)) (take (unat (writePos b)) data) @ bytes"
    using d fits by (simp add: memcpy_at_append)
  also have "drop (unat (readPos b)) (take (unat (writePos b)) data) = ReadableSpan b"
    using d by (simp add: ReadableSpan_def drop_take)
  finally show "ReadableSpan (snd (CommitWritten n (fill_writable bytes b))) = ReadableSpan b @ bytes" .
qed

lemma Consume_stream:
  assumes "recv_inv b" "unat n \<le> length (ReadableSpan b)"
  shows "fst (Consume n b) = NrStatus_Success"
    and "recv_inv (snd (Consume n b))"
    and "ReadableSpan (snd (Consume n b)) = drop (unat n) (ReadableSpan b)"
    and "writable_count (snd (Consume n b)) = writable_count b"
proof -
  obtain data where d: "storageBlock b = Some data" "unat (bufferCapacity b) \<le> length data"
    "unat (readPos b) \<le> unat (writePos b)" "unat (writePos b) \<le> unat (bufferCapacity b)"
    "unat (ReadableBytes b) = unat (writePos b) - unat (readPos b)"
    "unat (WritableBytes b) = unat (bufferCapacity b) - unat (writePos b)"
    using assms(1) by (rule recv_invE)
  have "unat n \<le> unat (ReadableBytes b)" using assms by (simp add: length_ReadableSpan)
  then have ok: "n \<le> writePos b - readPos b" "readPos b \<le> writePos b"
    using d(3) by (simp_all add: word_le_nat_alt ReadableBytes_def)
  note plus = unat_plus_le [OF ok]
  have consume: "Consume n b = (NrStatus_Success, b\<lparr>readPos := readPos b + n\<rparr>)"
    using ok by (simp add: Consume_def ReadableBytes_def)
  show "fst (Consume n b) = NrStatus_Success" by (simp add: consume)
  show inv: "recv_inv (snd (Consume n b))"
    using d plus by (simp add: consume recv_inv_def word_le_nat_alt)
  show "writable_count (snd (Consume n b)) = writable_count b"
    by (simp add: consume writable_count_def WritableBytes_def)
  have "unat (ReadableBytes (snd (Consume n b))) = unat (ReadableBytes b) - unat n"
    using plus d by (simp add: consume unat_ReadableBytes)
  then show "ReadableSpan (snd (Consume n b)) = drop (unat n) (ReadableSpan b)"
    using d plus(1) by (simp add: consume ReadableSpan_def drop_take add.commute)
qed

lemma Compact_stream:
  assumes "recv_inv b"
  shows "recv_inv (Compact b)" and "ReadableSpan (Compact b) = ReadableSpan b"
    and "writable_count (Compact b) = unat (bufferCapacity b) - length (ReadableSpan b)"
    and "bufferCapacity (Compact b) = bufferCapacity b"
proof -
  obtain data where d: "storageBlock b = Some data" "unat (bufferCapacity b) \<le> length data"
    "unat (readPos b) \<le> unat (writePos b)" "unat (writePos b) \<le> unat (bufferCapacity b)"
    "unat (ReadableBytes b) = unat (writePos b) - unat (readPos b)"
    "unat (WritableBytes b) = unat (bufferCapacity b) - unat (writePos b)"
    using assms by (rule recv_invE)
  let ?live = "take (unat (ReadableBytes b)) (drop (unat (readPos b)) data)"
  have live: "length ?live = unat (ReadableBytes b)" using d by simp
  obtain data' where c: "Compact b = b\<lparr>storageBlock := Some data', readPos := 0, writePos := ReadableBytes b\<rparr>"
    and data': "length data' = length data" "take (unat (ReadableBytes b)) data' = ?live"
  proof (cases "ReadableBytes b > 0 \<and> readPos b > 0")
    case True
    have "length (memcpy_at 0 ?live data) = length data" using live d by (intro length_memcpy_at) simp
    moreover have "take (unat (ReadableBytes b)) (memcpy_at 0 ?live data) = ?live"
      using live by (simp add: memcpy_at_def)
    ultimately show ?thesis
      using True d(1) by (intro that [of "memcpy_at 0 ?live data"]) (simp_all add: Compact_def Let_def)
  next
    case False
    then have "take (unat (ReadableBytes b)) data = ?live"
      by (auto simp: word_gt_0)
    then show ?thesis
      using False d(1) by (intro that [of data]) (auto simp: Compact_def Let_def)
  qed
  have le: "ReadableBytes b \<le> bufferCapacity b" using d by (simp add: word_le_nat_alt)
  show "recv_inv (Compact b)" using le d data' by (simp add: c recv_inv_def)
  show span: "ReadableSpan (Compact b) = ReadableSpan b"
    using d(1) data' by (simp add: c ReadableSpan_def ReadableBytes_def)
  show "writable_count (Compact b) = unat (bufferCapacity b) - length (ReadableSpan b)"
    using le by (simp add: c writable_count_def unat_WritableBytes length_ReadableSpan [OF assms])
  show "bufferCapacity (Compact b) = bufferCapacity b" by (simp add: c)
qed

lemma Create_stream:
  assumes "NrRecvBuffer_Create blockResult capacity = Inr b"
  shows "recv_inv b" "ReadableSpan b = []" "writable_count b = unat capacity" "bufferCapacity b = capacity"
  using assms
  by (auto simp: NrRecvBuffer_Create_def recv_inv_def ReadableSpan_def ReadableBytes_def
      writable_count_def WritableBytes_def split: if_splits sum.splits option.splits)

lemma bufferCapacity_same [simp]:
  "bufferCapacity (snd (CommitWritten n b)) = bufferCapacity b"
  "bufferCapacity (snd (Consume n b)) = bufferCapacity b"
  "bufferCapacity (fill_writable bytes b) = bufferCapacity b"
  by (simp_all add: CommitWritten_def Consume_def fill_writable_def)

section \<open>The contract of the buffer and its client, the reassembly of frames\<close>

text \<open>
  \<open>split_frames\<close> is what the frames of a byte stream are, independently of any buffer: the frames
  the parser reports one after the other, the status the parsing stops with and the bytes left.
\<close>

function split_frames ::
    "NrByteOrder \<Rightarrow> NrPacketParserConfig \<Rightarrow> byte list \<Rightarrow>
     NrPacketParseResult list \<times> NrStatus \<times> byte list" where
  "split_frames native config bytes =
     (case NrPacketParser_Parse native config bytes of (status, result) \<Rightarrow>
        if parseStatus result = Complete then
          (case split_frames native config (drop (unat (packetLength (parsedHeader result))) bytes) of
             (results, end_status, rest) \<Rightarrow> (result # results, end_status, rest))
        else ([], status, bytes))"
  by pat_completeness auto

lemma Complete_length:
  assumes "NrPacketParser_Parse native config bytes = (status, result)" "parseStatus result = Complete"
  shows "0 < unat (packetLength (parsedHeader result))"
    and "unat (packetLength (parsedHeader result)) \<le> length bytes"
    and "status = NrStatus_Success"
    and "packetBytes result = take (unat (packetLength (parsedHeader result))) bytes"
    and "header_error config (parsedHeader result) = NoReason"
proof -
  have long: "NrPacketHeaderLength \<le> length bytes"
    by (rule Parse_needs_header [of native config]) (simp add: assms)
  note parse = assms(1) [unfolded Parse_long [OF long refl]]
  show ok: "header_error config (parsedHeader result) = NoReason"
    and "unat (packetLength (parsedHeader result)) \<le> length bytes"
    and "status = NrStatus_Success"
    and "packetBytes result = take (unat (packetLength (parsedHeader result))) bytes"
    using parse assms(2)
    by (auto simp: NrPacketParseResult_default_def SetProtocolError_def split: if_splits)
  show "0 < unat (packetLength (parsedHeader result))"
    using ok by (auto simp: header_error_def NrPacketHeaderLength_def split: if_splits)
qed

termination split_frames
proof (relation "measure (\<lambda>(_, _, bytes). length bytes)")
  fix native config bytes x y
  assume "(x, y) = NrPacketParser_Parse native config bytes" "parseStatus y = Complete"
  then show "((native, config, drop (unat (packetLength (parsedHeader y))) bytes), native, config, bytes)
      \<in> measure (\<lambda>(_, _, bytes). length bytes)"
    using Complete_length(1,2) [of native config bytes x y] by simp
qed simp

declare split_frames.simps [simp del]

text \<open>Frames already complete, and a protocol error, are not changed by the bytes that follow.\<close>

lemma split_frames_append:
  "split_frames native config (xs @ ys) =
     (case split_frames native config xs of (results, status, rest) \<Rightarrow>
        if Failed status then (results, status, rest @ ys)
        else case split_frames native config (rest @ ys) of (results', status', rest') \<Rightarrow>
          (results @ results', status', rest'))"
proof (induction "length xs" arbitrary: xs rule: less_induct)
  case less
  obtain status result where parse: "NrPacketParser_Parse native config xs = (status, result)"
    by fastforce
  show ?case
  proof (cases "parseStatus result = Complete")
    case True
    note c = Complete_length [OF parse True]
    have parse': "NrPacketParser_Parse native config (xs @ ys) = (status, result)"
      using Parse_verdict_append [of native config xs ys] parse True by simp
    have "length (drop (unat (packetLength (parsedHeader result))) xs) < length xs" using c by simp
    note ih = less [OF this]
    obtain fs st rest where fs: "split_frames native config
        (drop (unat (packetLength (parsedHeader result))) xs) = (fs, st, rest)"
      by (metis prod_cases3)
    obtain fs' st' rest' where fs': "split_frames native config (rest @ ys) = (fs', st', rest')"
      by (metis prod_cases3)
    show ?thesis
      using c ih by (simp add: split_frames.simps [of native config "xs @ ys"]
          split_frames.simps [of native config xs] parse parse' True fs fs')
  next
    case False
    then have xs: "split_frames native config xs = ([], status, xs)"
      by (simp add: split_frames.simps [of native config xs] parse)
    show ?thesis
    proof (cases "Failed status")
      case True
      then have "parseStatus result \<noteq> NeedMoreData"
        using parse Parse_long [of xs _ native config] Parse_short [of xs native config]
        by (cases "length xs < NrPacketHeaderLength")
          (auto simp: SetProtocolError_def split: if_splits)
      then have "NrPacketParser_Parse native config (xs @ ys) = (status, result)"
        using Parse_verdict_append [of native config xs ys] parse by simp
      then show ?thesis
        using True False xs by (simp add: split_frames.simps [of native config "xs @ ys"])
    next
      case False
      then show ?thesis by (simp add: xs split: prod.split)
    qed
  qed
qed

lemma split_frames_status:
  "split_frames native config bytes = (results, status, rest) \<Longrightarrow>
    status = NrStatus_Success \<or> status = NrStatus_Failure NrErrorCode.ProtocolError"
proof (induction "length bytes" arbitrary: bytes results rule: less_induct)
  case less
  obtain st result where parse: "NrPacketParser_Parse native config bytes = (st, result)"
    by fastforce
  show ?case
  proof (cases "parseStatus result = Complete")
    case True
    note c = Complete_length [OF parse True]
    obtain results' where
      "split_frames native config (drop (unat (packetLength (parsedHeader result))) bytes) = (results', status, rest)"
      using less(2) True parse by (auto simp: split_frames.simps [of native config bytes] split: prod.splits)
    with c show ?thesis by (intro less(1)) auto
  next
    case False
    then have "st = status"
      using less(2) parse by (auto simp: split_frames.simps [of native config bytes])
    then show ?thesis
      using parse Parse_long [of bytes _ native config] Parse_short [of bytes native config]
      by (cases "length bytes < NrPacketHeaderLength") (auto simp: SetProtocolError_def split: if_splits)
  qed
qed

lemma split_frames_idem:
  "split_frames native config bytes = (results, status, rest) \<Longrightarrow>
    split_frames native config rest = ([], status, rest)"
proof (induction "length bytes" arbitrary: bytes results rule: less_induct)
  case less
  obtain st result where parse: "NrPacketParser_Parse native config bytes = (st, result)"
    by fastforce
  show ?case
  proof (cases "parseStatus result = Complete")
    case True
    note c = Complete_length [OF parse True]
    obtain results' where
      "split_frames native config (drop (unat (packetLength (parsedHeader result))) bytes) = (results', status, rest)"
      using less(2) True parse by (auto simp: split_frames.simps [of native config bytes] split: prod.splits)
    with c show ?thesis by (intro less(1)) auto
  next
    case False
    then have "split_frames native config bytes = ([], st, bytes)"
      by (simp add: split_frames.simps [of native config bytes] parse)
    with less(2) show ?thesis by simp
  qed
qed

text \<open>What is left unparsed without an error is shorter than the largest frame.\<close>

lemma split_frames_rest:
  assumes "split_frames native config bytes = (results, status, rest)" "Succeeded status"
    and "NrPacketHeaderLength \<le> maxPacketSize config"
  shows "length rest < maxPacketSize config"
  using assms(1)
proof (induction "length bytes" arbitrary: bytes results rule: less_induct)
  case less
  obtain st result where parse: "NrPacketParser_Parse native config bytes = (st, result)"
    by fastforce
  show ?case
  proof (cases "parseStatus result = Complete")
    case True
    note c = Complete_length [OF parse True]
    obtain results' where
      "split_frames native config (drop (unat (packetLength (parsedHeader result))) bytes) = (results', status, rest)"
      using less(2) True parse by (auto simp: split_frames.simps [of native config bytes] split: prod.splits)
    with c show ?thesis by (intro less(1)) auto
  next
    case False
    then have eq: "st = status" "rest = bytes"
      using less(2) parse by (auto simp: split_frames.simps [of native config bytes])
    show ?thesis
    proof (cases "length bytes < NrPacketHeaderLength")
      case True then show ?thesis using assms(3) eq by simp
    next
      case short: False
      then have long: "NrPacketHeaderLength \<le> length bytes" by simp
      have "header_error config (NrPacketHeader_Decode native bytes) = NoReason \<and>
          length bytes < unat (packetLength (NrPacketHeader_Decode native bytes))"
        using parse [unfolded Parse_long [OF long refl]] False eq(1) assms(2)
        by (auto simp: SetProtocolError_def Succeeded_Failure split: if_splits)
      then show ?thesis using eq(2) by (auto simp: header_error_def split: if_splits)
    qed
  qed
qed

text \<open>
  The contract: \<open>receive\<close> appends to the readable bytes when there is room, \<open>consume\<close> drops a
  prefix, \<open>compact\<close> keeps them.
\<close>

locale receive_stream =
  fixes inv :: "'b \<Rightarrow> bool"
    and readable :: "'b \<Rightarrow> byte list"
    and room :: "'b \<Rightarrow> nat"
    and receive :: "byte list \<Rightarrow> 'b \<Rightarrow> 'b"
    and consume :: "nat \<Rightarrow> 'b \<Rightarrow> 'b"
    and compact :: "'b \<Rightarrow> 'b"
  assumes receive_stream: "inv b \<Longrightarrow> length bytes \<le> room b \<Longrightarrow>
      inv (receive bytes b) \<and> readable (receive bytes b) = readable b @ bytes"
    and consume_stream: "inv b \<Longrightarrow> n \<le> length (readable b) \<Longrightarrow>
      inv (consume n b) \<and> readable (consume n b) = drop n (readable b)"
    and compact_stream: "inv b \<Longrightarrow> inv (compact b) \<and> readable (compact b) = readable b"
begin

text \<open>The client takes a segment, removes its frames one by one, and compacts.\<close>

definition consume_frames :: "NrPacketParseResult list \<Rightarrow> 'b \<Rightarrow> 'b" where
  "consume_frames results b = fold (\<lambda>r. consume (unat (packetLength (parsedHeader r)))) results b"

lemma consume_frames_stream:
  assumes "inv b" "split_frames native config (readable b) = (results, status, rest)"
  shows "inv (consume_frames results b) \<and> readable (consume_frames results b) = rest"
  using assms
proof (induction results arbitrary: b)
  case Nil
  then show ?case
    by (auto simp: consume_frames_def split_frames.simps [of native config "readable b"]
        split: prod.splits if_splits)
next
  case (Cons r results)
  obtain st result where parse: "NrPacketParser_Parse native config (readable b) = (st, result)"
    by fastforce
  have c: "parseStatus result = Complete" "result = r"
    and more: "split_frames native config (drop (unat (packetLength (parsedHeader r))) (readable b)) =
      (results, status, rest)"
    using Cons.prems(2) parse
    by (auto simp: split_frames.simps [of native config "readable b"] split: prod.splits if_splits)
  have "inv (consume (unat (packetLength (parsedHeader r))) b) \<and>
      readable (consume (unat (packetLength (parsedHeader r))) b) =
        drop (unat (packetLength (parsedHeader r))) (readable b)"
    using Complete_length [OF parse c(1)] c(2) Cons.prems(1) by (intro consume_stream) auto
  with Cons.IH more show ?case by (simp add: consume_frames_def)
qed

fun receive_segments ::
    "NrByteOrder \<Rightarrow> NrPacketParserConfig \<Rightarrow> byte list list \<Rightarrow> 'b \<Rightarrow>
     (NrPacketParseResult list \<times> NrStatus \<times> 'b) option" where
  "receive_segments native config [] b = Some ([], NrStatus_Success, b)"
| "receive_segments native config (seg # segs) b =
     (if room (compact b) < length seg then None
      else
        let b = receive seg (compact b) in
        case split_frames native config (readable b) of (results, status, _) \<Rightarrow>
          let b = consume_frames results b in
          if Failed status then Some (results, status, b)
          else case receive_segments native config segs b of None \<Rightarrow> None
            | Some (results', status', b) \<Rightarrow> Some (results @ results', status', b))"

text \<open>The frames taken out do not depend on how the stream was cut into segments.\<close>

lemma receive_segments_stream:
  assumes "inv b" "receive_segments native config segs b = Some (results, status, b')"
    and "split_frames native config (readable b) = ([], NrStatus_Success, readable b)"
  shows "inv b' \<and> (\<exists>rest. split_frames native config (readable b @ concat segs) = (results, status, rest) \<and>
    prefix (readable b') rest)"
  using assms
proof (induction segs arbitrary: b results)
  case Nil
  then show ?case by auto
next
  case (Cons seg segs)
  let ?b = "receive seg (compact b)"
  have fits: "length seg \<le> room (compact b)" using Cons.prems(2) by (auto split: if_splits)
  have b: "inv ?b" "readable ?b = readable b @ seg"
    using receive_stream [OF _ fits] compact_stream [OF Cons.prems(1)] by auto
  obtain fs st rest where split: "split_frames native config (readable b @ seg) = (fs, st, rest)"
    by (metis prod_cases3)
  have c: "inv (consume_frames fs ?b)" "readable (consume_frames fs ?b) = rest"
    using consume_frames_stream [OF b(1)] b(2) split by auto
  show ?case
  proof (cases "Failed st")
    case True
    then have "results = fs" "status = st" "b' = consume_frames fs ?b"
      using Cons.prems(2) fits b(2) split by (auto simp: Let_def)
    then show ?thesis
      using True c split_frames_append [of native config "readable b @ seg" "concat segs"] split by simp
  next
    case False
    then obtain results' where rec: "receive_segments native config segs (consume_frames fs ?b) = Some (results', status, b')"
      and eq: "results = fs @ results'"
      using Cons.prems(2) fits b(2) split by (auto simp: Let_def split: option.splits)
    have end_split: "split_frames native config rest = ([], st, rest)"
      using split by (rule split_frames_idem)
    have "st = NrStatus_Success" using split_frames_status [OF split] False by auto
    then have "inv b' \<and> (\<exists>r. split_frames native config (rest @ concat segs) = (results', status, r) \<and>
        prefix (readable b') r)"
      using Cons.IH [OF c(1) rec] c(2) end_split by simp
    then show ?thesis
      using False eq split_frames_append [of native config "readable b @ seg" "concat segs"] split by auto
  qed
qed

end

text \<open>The receive buffer provides the contract.\<close>

definition receive_bytes :: "byte list \<Rightarrow> NrRecvBuffer \<Rightarrow> NrRecvBuffer" where
  "receive_bytes bytes b = snd (CommitWritten (of_nat (length bytes)) (fill_writable bytes b))"

definition consume_bytes :: "nat \<Rightarrow> NrRecvBuffer \<Rightarrow> NrRecvBuffer" where
  "consume_bytes n b = snd (Consume (of_nat n) b)"

lemma unat_of_nat_readable:
  assumes "recv_inv b" "n \<le> length (ReadableSpan b)"
  shows "unat (of_nat n :: u64) = n"
proof -
  have "n < 2 ^ 64"
    using assms unsigned_less [of "ReadableBytes b", where ?'a = nat] by (simp add: length_ReadableSpan)
  then show ?thesis by (simp add: unat_of_nat take_bit_nat_eq_self)
qed

interpretation buffer: receive_stream recv_inv ReadableSpan writable_count receive_bytes consume_bytes Compact
proof unfold_locales
  fix b :: NrRecvBuffer and bytes :: "byte list"
  assume "recv_inv b" "length bytes \<le> writable_count b"
  then show "recv_inv (receive_bytes bytes b) \<and> ReadableSpan (receive_bytes bytes b) = ReadableSpan b @ bytes"
    unfolding receive_bytes_def by (simp add: fill_Commit)
next
  fix b :: NrRecvBuffer and n :: nat
  assume "recv_inv b" "n \<le> length (ReadableSpan b)"
  then show "recv_inv (consume_bytes n b) \<and> ReadableSpan (consume_bytes n b) = drop n (ReadableSpan b)"
    unfolding consume_bytes_def using Consume_stream [of b "of_nat n"] by (simp add: unat_of_nat_readable)
qed (auto simp: Compact_stream)

end
