(* ===== verification/NrPayload.thy ===== *)
theory NrPayload imports NrFraming NrMemory begin

text \<open>
  Pooled memory and the payloads that live in it: \<^verbatim>\<open>NrMemoryPoolManager.h/.cpp\<close> (one pool per
  role), the block handle of \<^verbatim>\<open>NrMemoryPool.cpp\<close>, \<^verbatim>\<open>NrPayload.cpp\<close> and the reference-counted
  \<^verbatim>\<open>NrPayloadRef.cpp\<close>. The bytes of all pools are one memory, so that a copy into a block could
  overwrite another payload; the lemmas show that it never does, that a payload keeps its bytes
  until its last reference is dropped, and that both its blocks then return to their pools once.
  Control blocks are objects in that memory too: constructing, counting in and destroying one writes
  its object representation into the block acquired for it.
\<close>

section \<open>The pool manager\<close>

datatype NrMemoryPoolRole =
    RecvBuffer | SendBuffer | OverlappedContext | RuntimeIngressQueueStorage
  | ToWorldEventQueueStorage | SessionAcceptRecvMailboxStorage | SessionSendMailboxStorage
  | ActorReadyQueueStorage | DiagnosticsQueueStorage
  | Payload64 | Payload256 | Payload1024 | Payload8192 | PayloadRefControl
  | ClientPayloadQueueStorage | ClientEventQueueStorage | Count

fun role_index :: "NrMemoryPoolRole \<Rightarrow> nat" where
  "role_index RecvBuffer = 0"
| "role_index SendBuffer = 1"
| "role_index OverlappedContext = 2"
| "role_index RuntimeIngressQueueStorage = 3"
| "role_index ToWorldEventQueueStorage = 4"
| "role_index SessionAcceptRecvMailboxStorage = 5"
| "role_index SessionSendMailboxStorage = 6"
| "role_index ActorReadyQueueStorage = 7"
| "role_index DiagnosticsQueueStorage = 8"
| "role_index Payload64 = 9"
| "role_index Payload256 = 10"
| "role_index Payload1024 = 11"
| "role_index Payload8192 = 12"
| "role_index PayloadRefControl = 13"
| "role_index ClientPayloadQueueStorage = 14"
| "role_index ClientEventQueueStorage = 15"
| "role_index NrMemoryPoolRole.Count = 16"

definition NrMemoryPoolRoleCount :: nat where "NrMemoryPoolRoleCount = 16"

lemma role_index_inject [simp]: "role_index r = role_index r' \<longleftrightarrow> r = r'"
  by (cases r; cases r') simp_all

lemma role_index_less [simp]: "role_index r < NrMemoryPoolRoleCount \<longleftrightarrow> r \<noteq> NrMemoryPoolRole.Count"
  by (cases r) (simp_all add: NrMemoryPoolRoleCount_def)

text \<open>The array of pools; \<open>None\<close> is the null pointer of a role that is not configured.\<close>

type_synonym NrMemoryPoolManager = "NrMemoryPool option list"

definition TryGetPoolIndex :: "NrMemoryPoolRole \<Rightarrow> nat option" where
  "TryGetPoolIndex role =
     (if role_index role < NrMemoryPoolRoleCount then Some (role_index role) else None)"

definition IsKnownRole :: "NrMemoryPoolRole \<Rightarrow> bool" where
  "IsKnownRole role \<longleftrightarrow> TryGetPoolIndex role \<noteq> None"

definition ResolvePool :: "NrMemoryPoolManager \<Rightarrow> NrMemoryPoolRole \<Rightarrow> NrMemoryPool option" where
  "ResolvePool m role =
     (case TryGetPoolIndex role of None \<Rightarrow> None | Some poolIndex \<Rightarrow> m ! poolIndex)"

text \<open>
  The loop of \<^verbatim>\<open>Create\<close>. The environment gives each pool its allocator: \<open>mallocs i\<close> for the pool of
  index \<open>i\<close>, and whether the pool object and its vectors could be allocated.
\<close>

fun CreatePools ::
    "(nat \<Rightarrow> u64 \<Rightarrow> u64 \<Rightarrow> u64) \<Rightarrow> (nat \<Rightarrow> bool) \<Rightarrow> (nat \<Rightarrow> bool) \<Rightarrow>
     (NrMemoryPoolRole \<times> NrMemoryPoolConfig) list \<Rightarrow> NrMemoryPoolManager \<Rightarrow> bool \<Rightarrow>
     (NrMemoryPoolManager \<times> bool) NrResult" where
  "CreatePools mallocs poolFits vectorsFit [] pools hasPool = Inr (pools, hasPool)"
| "CreatePools mallocs poolFits vectorsFit ((role, config) # configs) pools hasPool =
     (if role = NrMemoryPoolRole.Count then
        CreatePools mallocs poolFits vectorsFit configs pools hasPool
      else case TryGetPoolIndex role of
        None \<Rightarrow> Inl (NrStatus_Failure NrErrorCode.InvalidArgument)
      | Some poolIndex \<Rightarrow>
          if pools ! poolIndex \<noteq> None then Inl (NrStatus_Failure NrErrorCode.InvalidArgument)
          else case NrMemoryPool_Create (mallocs poolIndex) (poolFits poolIndex) (vectorsFit poolIndex) config of
            Inl status \<Rightarrow> Inl status
          | Inr pool \<Rightarrow>
              CreatePools mallocs poolFits vectorsFit configs (pools[poolIndex := Some pool]) True)"

definition NrMemoryPoolManager_Create ::
    "(nat \<Rightarrow> u64 \<Rightarrow> u64 \<Rightarrow> u64) \<Rightarrow> (nat \<Rightarrow> bool) \<Rightarrow> (nat \<Rightarrow> bool) \<Rightarrow> bool \<Rightarrow>
     (NrMemoryPoolRole \<times> NrMemoryPoolConfig) list \<Rightarrow> NrMemoryPoolManager NrResult" where
  "NrMemoryPoolManager_Create mallocs poolFits vectorsFit managerFits configs =
     (case CreatePools mallocs poolFits vectorsFit configs (replicate NrMemoryPoolRoleCount None) False of
        Inl status \<Rightarrow> Inl status
      | Inr (pools, hasPool) \<Rightarrow>
          if \<not> hasPool then Inl (NrStatus_Failure NrErrorCode.InvalidArgument)
          else if \<not> managerFits then Inl (NrStatus_Failure NrErrorCode.OutOfMemory)
          else Inr pools)"

text \<open>
  A block handle: the pool it came from, by its role, and the block's address. An empty handle is
  \<open>None\<close> where the code can hold one.
\<close>

record NrPooledMemoryBlock =
  blockRole :: NrMemoryPoolRole
  blockData :: u64

definition Pool_AcquireBlock ::
    "NrMemoryPoolRole \<Rightarrow> NrMemoryPool \<Rightarrow> NrPooledMemoryBlock NrResult \<times> NrMemoryPool" where
  "Pool_AcquireBlock role pool =
     (case NrMemoryPool_Acquire pool of
        (Inl status, pool) \<Rightarrow> (Inl status, pool)
      | (Inr block, pool) \<Rightarrow> (Inr \<lparr>blockRole = role, blockData = block\<rparr>, pool))"

definition Manager_AcquireBlock ::
    "NrMemoryPoolRole \<Rightarrow> NrMemoryPoolManager \<Rightarrow> NrPooledMemoryBlock NrResult \<times> NrMemoryPoolManager" where
  "Manager_AcquireBlock role m =
     (case ResolvePool m role of
        None \<Rightarrow> (Inl (NrStatus_Failure (if IsKnownRole role then NrErrorCode.InvalidState
                       else NrErrorCode.InvalidArgument)), m)
      | Some pool \<Rightarrow>
          (case Pool_AcquireBlock role pool of
             (result, pool) \<Rightarrow> (result, m[role_index role := Some pool])))"

definition Manager_Stats :: "NrMemoryPoolRole \<Rightarrow> NrMemoryPoolManager \<Rightarrow> NrMemoryPoolStats NrResult" where
  "Manager_Stats role m =
     (case ResolvePool m role of
        None \<Rightarrow> Inl (NrStatus_Failure (if IsKnownRole role then NrErrorCode.InvalidState
                       else NrErrorCode.InvalidArgument))
      | Some pool \<Rightarrow> Inr (poolStats pool))"

definition Block_Capacity :: "NrMemoryPoolManager \<Rightarrow> NrPooledMemoryBlock option \<Rightarrow> u64" where
  "Block_Capacity m block =
     (case block of None \<Rightarrow> 0
      | Some b \<Rightarrow> (case ResolvePool m (blockRole b) of None \<Rightarrow> 0 | Some pool \<Rightarrow> blockSize (poolConfig pool)))"

definition Block_Reset :: "NrPooledMemoryBlock option \<Rightarrow> NrMemoryPoolManager \<Rightarrow> NrStatus \<times> NrMemoryPoolManager" where
  "Block_Reset block m =
     (case block of None \<Rightarrow> (NrStatus_Success, m)
      | Some b \<Rightarrow>
          (case ResolvePool m (blockRole b) of None \<Rightarrow> (NrStatus_Success, m)
           | Some pool \<Rightarrow>
               (case NrMemoryPool_Release (blockData b) pool of
                  (status, pool) \<Rightarrow> (status, m[role_index (blockRole b) := Some pool]))))"

section \<open>Invariant of the manager\<close>

definition storage_range :: "NrMemoryPool \<Rightarrow> nat set" where
  "storage_range pool = {unat (storageBase pool) ..< unat (storageBase pool) + unat (storageSize pool)}"

definition manager_inv :: "NrMemoryPoolManager \<Rightarrow> bool" where
  "manager_inv m \<longleftrightarrow> length m = NrMemoryPoolRoleCount \<and>
     (\<forall>role pool. ResolvePool m role = Some pool \<longrightarrow> pool_inv pool) \<and>
     (\<forall>role role' pool pool'. role \<noteq> role' \<longrightarrow> ResolvePool m role = Some pool \<longrightarrow>
        ResolvePool m role' = Some pool' \<longrightarrow> storage_range pool \<inter> storage_range pool' = {})"

text \<open>A block is live when its pool has handed it out, and then it occupies these addresses.\<close>

definition live_block :: "NrMemoryPoolManager \<Rightarrow> NrPooledMemoryBlock \<Rightarrow> bool" where
  "live_block m b \<longleftrightarrow>
     (\<exists>pool. ResolvePool m (blockRole b) = Some pool \<and> blockData b \<in> outstanding pool)"

definition block_bytes :: "NrMemoryPoolManager \<Rightarrow> NrPooledMemoryBlock \<Rightarrow> nat set" where
  "block_bytes m b =
     (case ResolvePool m (blockRole b) of None \<Rightarrow> {} | Some pool \<Rightarrow> block_range pool (blockData b))"

text \<open>
  The object representation of a control block in the memory of the program, which the compiler
  chooses: its bytes for a reference count, a length and a block handle (\<open>None\<close> once the handle has
  been reset). It fits when the blocks of the control pool are large enough for it.
\<close>

type_synonym control_layout = "u64 \<Rightarrow> nat \<Rightarrow> NrPooledMemoryBlock option \<Rightarrow> byte list"

definition control_fits :: "control_layout \<Rightarrow> NrMemoryPoolManager \<Rightarrow> bool" where
  "control_fits layout m \<longleftrightarrow>
     (\<forall>pool count n b. ResolvePool m PayloadRefControl = Some pool \<longrightarrow>
        length (layout count n b) \<le> unat (blockSize (poolConfig pool)))"

lemma ResolvePool_update [simp]:
  assumes "length m = NrMemoryPoolRoleCount" "role \<noteq> NrMemoryPoolRole.Count"
  shows "ResolvePool (m[role_index role := Some pool]) role' =
    (if role' = role then Some pool else ResolvePool m role')"
  using assms by (auto simp: ResolvePool_def TryGetPoolIndex_def nth_list_update)

lemma ResolvePool_Count [simp]: "ResolvePool m NrMemoryPoolRole.Count = None"
  by (simp add: ResolvePool_def TryGetPoolIndex_def NrMemoryPoolRoleCount_def)

lemma control_fits_update:
  assumes "length m = NrMemoryPoolRoleCount" "ResolvePool m role = Some pool" "poolConfig pool' = poolConfig pool"
  shows "control_fits layout (m[role_index role := Some pool']) = control_fits layout m"
proof -
  have "role \<noteq> NrMemoryPoolRole.Count" using assms(2) by auto
  then show ?thesis using assms by (auto simp: control_fits_def)
qed

lemma outstanding_in_storage:
  assumes "pool_inv pool" "a \<in> outstanding pool"
  shows "block_range pool a \<subseteq> storage_range pool"
    and "unat a + unat (blockSize (poolConfig pool)) \<le> 2 ^ 64"
proof -
  have ok: "pool_storage_ok pool" using assms(1) by (simp add: pool_inv_def)
  obtain i where i: "i < length (metadata pool)" "a = blockAddressOf pool i"
    using assms(2) unfolding outstanding_def by blast
  have le: "unat a + unat (blockSize (poolConfig pool)) \<le> unat (storageBase pool) + unat (storageSize pool)"
    using ok block_offset(2) [OF ok i(1)]
    by (simp add: i(2) block_offset(3) [OF ok i(1)] pool_storage_ok_def)
  then show "block_range pool a \<subseteq> storage_range pool"
    by (auto simp: block_range_def storage_range_def i(2) block_offset(3) [OF ok i(1)])
  show "unat a + unat (blockSize (poolConfig pool)) \<le> 2 ^ 64"
    using le ok by (simp add: pool_storage_ok_def)
qed

text \<open>The operations of a pool keep its geometry.\<close>

lemma pool_geometry_same:
  "poolConfig (snd (NrMemoryPool_Acquire pool)) = poolConfig pool"
  "storage_range (snd (NrMemoryPool_Acquire pool)) = storage_range pool"
  "poolConfig (snd (NrMemoryPool_Release a pool)) = poolConfig pool"
  "storage_range (snd (NrMemoryPool_Release a pool)) = storage_range pool"
  by (auto simp: NrMemoryPool_Acquire_def NrMemoryPool_Release_def Let_def storage_range_def
      split: option.splits)

lemma manager_inv_update:
  assumes "manager_inv m" "ResolvePool m role = Some pool" "pool_inv pool'"
    and "storage_range pool' = storage_range pool"
  shows "manager_inv (m[role_index role := Some pool'])"
proof -
  have role: "role \<noteq> NrMemoryPoolRole.Count" using assms(2) by auto
  have m: "length m = NrMemoryPoolRoleCount"
    "\<And>role pool. ResolvePool m role = Some pool \<Longrightarrow> pool_inv pool"
    "\<And>role role' pool pool'. role \<noteq> role' \<Longrightarrow> ResolvePool m role = Some pool \<Longrightarrow>
        ResolvePool m role' = Some pool' \<Longrightarrow> storage_range pool \<inter> storage_range pool' = {}"
    using assms(1) unfolding manager_inv_def by blast+
  have "storage_range p \<inter> storage_range p' = {}"
    if "r \<noteq> r'" "ResolvePool (m[role_index role := Some pool']) r = Some p"
      "ResolvePool (m[role_index role := Some pool']) r' = Some p'" for r r' p p'
    using that m(3) [of r r'] assms(2,4) role m(1) by (auto split: if_splits)
  moreover have "pool_inv p" if "ResolvePool (m[role_index role := Some pool']) r = Some p" for r p
    using that m(2) [of r p] assms(3) role m(1) by (auto split: if_splits)
  ultimately show ?thesis using m(1) by (simp add: manager_inv_def)
qed

text \<open>
  Acquisition hands out a block that was not live, and whose bytes no live block has; nothing else
  changes. A failed acquisition leaves the live blocks alone.
\<close>

lemma Manager_AcquireBlock_Inr:
  assumes "manager_inv m" "Manager_AcquireBlock role m = (Inr b, m')"
  shows "manager_inv m'" and "blockRole b = role" and "live_block m' b" and "\<not> live_block m b"
    and "live_block m' b' \<longleftrightarrow> live_block m b' \<or> b' = b"
    and "live_block m b' \<Longrightarrow> block_bytes m b' \<inter> block_bytes m b = {}"
    and "block_bytes m' b' = block_bytes m b'"
    and "Block_Capacity m' b'' = Block_Capacity m b''" and "control_fits layout m' = control_fits layout m"
proof -
  obtain pool where pool: "ResolvePool m role = Some pool"
    using assms(2) by (auto simp: Manager_AcquireBlock_def split: option.splits)
  then have role: "role \<noteq> NrMemoryPoolRole.Count" by auto
  have m: "length m = NrMemoryPoolRoleCount" "pool_inv pool"
    using assms(1) pool unfolding manager_inv_def by blast+
  obtain a pool' where acq: "NrMemoryPool_Acquire pool = (Inr a, pool')"
    and b: "b = \<lparr>blockRole = role, blockData = a\<rparr>" and m': "m' = m[role_index role := Some pool']"
    using assms(2) pool
    by (auto simp: Manager_AcquireBlock_def Pool_AcquireBlock_def split: prod.splits sum.splits)
  have pool': "pool_inv pool'" "storage_range pool' = storage_range pool" "poolConfig pool' = poolConfig pool"
    using Acquire_inv [OF m(2)] pool_geometry_same(1,2) [where pool = pool] acq by simp_all
  have ex: "a \<notin> outstanding pool" "outstanding pool' = insert a (outstanding pool)"
    "\<forall>other \<in> outstanding pool. block_range pool a \<inter> block_range pool other = {}"
    using Acquire_block [OF m(2)] by (simp_all add: acq)
  show inv': "manager_inv m'" unfolding m' by (rule manager_inv_update [OF assms(1) pool pool'(1,2)])
  show "blockRole b = role" by (simp add: b)
  show "live_block m' b" using ex(2) role m(1) by (simp add: live_block_def b m')
  show "\<not> live_block m b" using ex(1) pool by (simp add: live_block_def b)
  show "live_block m' b' \<longleftrightarrow> live_block m b' \<or> b' = b"
    using ex(2) role m(1) pool by (cases b') (auto simp: live_block_def b m')
  show bytes: "block_bytes m' b' = block_bytes m b'"
    using role m(1) pool pool'(3) by (auto simp: block_bytes_def m' block_range_def)
  show "Block_Capacity m' b'' = Block_Capacity m b''"
    using role m(1) pool pool'(3) by (auto simp: Block_Capacity_def m' split: option.splits)
  show "control_fits layout m' = control_fits layout m"
    unfolding m' by (rule control_fits_update [OF m(1) pool pool'(3)])
  show "block_bytes m b' \<inter> block_bytes m b = {}" if live: "live_block m b'"
  proof (cases "blockRole b' = role")
    case True
    then show ?thesis using live ex(3) pool by (auto simp: live_block_def block_bytes_def b)
  next
    case False
    obtain p where p: "ResolvePool m (blockRole b') = Some p" "blockData b' \<in> outstanding p" "pool_inv p"
      using live assms(1) unfolding live_block_def manager_inv_def by blast
    have "storage_range p \<inter> storage_range pool = {}"
      using False p(1) pool assms(1) unfolding manager_inv_def by blast
    moreover have "block_bytes m b' \<subseteq> storage_range p"
      using outstanding_in_storage(1) [OF p(3,2)] p(1) by (simp add: block_bytes_def)
    moreover have "block_range pool' a \<subseteq> storage_range pool'"
      using outstanding_in_storage(1) [OF pool'(1), of a] ex(2) by simp
    then have "block_bytes m b \<subseteq> storage_range pool"
      using pool pool'(2,3) by (simp add: block_bytes_def b block_range_def)
    ultimately show ?thesis by blast
  qed
qed

lemma Manager_AcquireBlock_Inl:
  assumes "manager_inv m" "Manager_AcquireBlock role m = (Inl status, m')"
  shows "manager_inv m'" and "live_block m' b' \<longleftrightarrow> live_block m b'"
    and "block_bytes m' b' = block_bytes m b'" and "Block_Capacity m' b'' = Block_Capacity m b''"
    and "status = NrStatus_Failure NrErrorCode.PoolExhausted \<or>
      status = NrStatus_Failure NrErrorCode.InvalidState \<or>
      status = NrStatus_Failure NrErrorCode.InvalidArgument"
    and "control_fits layout m' = control_fits layout m"
proof -
  have "control_fits layout m' = control_fits layout m \<and> manager_inv m' \<and> (\<forall>b'. live_block m' b' \<longleftrightarrow> live_block m b') \<and>
    (\<forall>b'. block_bytes m' b' = block_bytes m b') \<and> (\<forall>b''. Block_Capacity m' b'' = Block_Capacity m b'') \<and>
    (status = NrStatus_Failure NrErrorCode.PoolExhausted \<or>
      status = NrStatus_Failure NrErrorCode.InvalidState \<or>
      status = NrStatus_Failure NrErrorCode.InvalidArgument)"
  proof (cases "ResolvePool m role")
    case None
    then show ?thesis using assms by (auto simp: Manager_AcquireBlock_def split: if_splits)
  next
    case (Some pool)
    then have role: "role \<noteq> NrMemoryPoolRole.Count" by auto
    have m: "length m = NrMemoryPoolRoleCount" "pool_inv pool"
      using assms(1) Some unfolding manager_inv_def by blast+
    obtain pool' where acq: "NrMemoryPool_Acquire pool = (Inl status, pool')"
      and m': "m' = m[role_index role := Some pool']"
      using assms(2) Some
      by (auto simp: Manager_AcquireBlock_def Pool_AcquireBlock_def split: prod.splits sum.splits)
    have pool': "pool_inv pool'" "storage_range pool' = storage_range pool" "poolConfig pool' = poolConfig pool"
      using Acquire_inv [OF m(2)] pool_geometry_same(1,2) [where pool = pool] acq by simp_all
    have ex: "outstanding pool' = outstanding pool" "status = NrStatus_Failure NrErrorCode.PoolExhausted"
      using Acquire_block [OF m(2)] by (simp_all add: acq)
    show ?thesis
      using manager_inv_update [OF assms(1) Some pool'(1,2)] role m(1) Some ex pool'(3)
        control_fits_update [OF m(1) Some pool'(3), of layout]
      by (auto simp: m' live_block_def block_bytes_def Block_Capacity_def block_range_def split: option.splits)
  qed
  then show "manager_inv m'" "live_block m' b' \<longleftrightarrow> live_block m b'"
    "block_bytes m' b' = block_bytes m b'" "Block_Capacity m' b'' = Block_Capacity m b''"
    "status = NrStatus_Failure NrErrorCode.PoolExhausted \<or>
      status = NrStatus_Failure NrErrorCode.InvalidState \<or>
      status = NrStatus_Failure NrErrorCode.InvalidArgument"
    "control_fits layout m' = control_fits layout m" by blast+
qed

text \<open>Releasing a live block succeeds and takes exactly it out of circulation.\<close>

lemma Block_Reset_live:
  assumes "manager_inv m" "live_block m b" "Block_Reset (Some b) m = (status, m')"
  shows "status = NrStatus_Success" and "manager_inv m'"
    and "live_block m' b' \<longleftrightarrow> live_block m b' \<and> b' \<noteq> b"
    and "block_bytes m' b' = block_bytes m b'" and "Block_Capacity m' b'' = Block_Capacity m b''"
    and "control_fits layout m' = control_fits layout m"
proof -
  obtain pool where pool: "ResolvePool m (blockRole b) = Some pool" "blockData b \<in> outstanding pool" "pool_inv pool"
    using assms(1,2) unfolding live_block_def manager_inv_def by blast
  have role: "blockRole b \<noteq> NrMemoryPoolRole.Count" using pool(1) by auto
  have m: "length m = NrMemoryPoolRoleCount" using assms(1) unfolding manager_inv_def by blast
  obtain st pool' where rel: "NrMemoryPool_Release (blockData b) pool = (st, pool')" by fastforce
  have m': "m' = m[role_index (blockRole b) := Some pool']" and st: "status = st"
    using assms(3) pool(1) rel by (simp_all add: Block_Reset_def)
  have pool': "pool_inv pool'" "storage_range pool' = storage_range pool" "poolConfig pool' = poolConfig pool"
    using Release_inv [OF pool(3), of "blockData b"]
      pool_geometry_same(3,4) [where pool = pool and a = "blockData b"] rel by simp_all
  have ex: "st = NrStatus_Success" "outstanding pool' = outstanding pool - {blockData b}"
    using Release_block [OF pool(3), of "blockData b"] pool(2) by (simp_all add: rel)
  show "status = NrStatus_Success" using ex st by simp
  show "manager_inv m'" unfolding m' by (rule manager_inv_update [OF assms(1) pool(1) pool'(1,2)])
  show "live_block m' b' \<longleftrightarrow> live_block m b' \<and> b' \<noteq> b"
    using ex(2) role m pool(1) by (cases b; cases b') (auto simp: live_block_def m')
  show "block_bytes m' b' = block_bytes m b'"
    using role m pool(1) pool'(3) by (auto simp: block_bytes_def m' block_range_def)
  show "Block_Capacity m' b'' = Block_Capacity m b''"
    using role m pool(1) pool'(3) by (auto simp: Block_Capacity_def m' split: option.splits)
  show "control_fits layout m' = control_fits layout m"
    unfolding m' by (rule control_fits_update [OF m pool(1) pool'(3)])
qed

text \<open>Two live blocks have no byte in common.\<close>

lemma live_blocks_disjoint:
  assumes "manager_inv m" "live_block m b" "live_block m b'" "b \<noteq> b'"
  shows "block_bytes m b \<inter> block_bytes m b' = {}"
proof -
  obtain p where p: "ResolvePool m (blockRole b) = Some p" "blockData b \<in> outstanding p" "pool_inv p"
    using assms(1,2) unfolding live_block_def manager_inv_def by blast
  obtain p' where p': "ResolvePool m (blockRole b') = Some p'" "blockData b' \<in> outstanding p'" "pool_inv p'"
    using assms(1,3) unfolding live_block_def manager_inv_def by blast
  show ?thesis
  proof (cases "blockRole b = blockRole b'")
    case False
    then have "storage_range p \<inter> storage_range p' = {}"
      using p(1) p'(1) assms(1) unfolding manager_inv_def by blast
    then show ?thesis
      using outstanding_in_storage(1) [OF p(3,2)] outstanding_in_storage(1) [OF p'(3,2)] p(1) p'(1)
      by (auto simp: block_bytes_def)
  next
    case True
    then have pp: "p' = p" and ne: "blockData b \<noteq> blockData b'" using p(1) p'(1) assms(4) by auto
    have ok: "pool_storage_ok p" using p(3) by (simp add: pool_inv_def)
    obtain i j where i: "i < length (metadata p)" "blockData b = blockAddressOf p i"
      and j: "j < length (metadata p)" "blockData b' = blockAddressOf p j"
      using p(2) p'(2) unfolding pp outstanding_def by blast
    then have "i < j \<or> j < i" using ne by (metis linorder_neqE_nat)
    then have "block_range p (blockData b) \<inter> block_range p (blockData b') = {}"
      using block_range_disjoint [OF ok] i j by (metis Int_commute)
    then show ?thesis using p(1) p'(1) pp by (simp add: block_bytes_def)
  qed
qed

lemma live_block_no_wrap:
  assumes "manager_inv m" "live_block m b"
  shows "unat (blockData b) + unat (Block_Capacity m (Some b)) \<le> 2 ^ 64"
    and "block_bytes m b = {unat (blockData b) ..< unat (blockData b) + unat (Block_Capacity m (Some b))}"
proof -
  obtain pool where pool: "ResolvePool m (blockRole b) = Some pool" "blockData b \<in> outstanding pool" "pool_inv pool"
    using assms unfolding live_block_def manager_inv_def by blast
  then show "unat (blockData b) + unat (Block_Capacity m (Some b)) \<le> 2 ^ 64"
    and "block_bytes m b = {unat (blockData b) ..< unat (blockData b) + unat (Block_Capacity m (Some b))}"
    using outstanding_in_storage(2) [OF pool(3,2)]
    by (simp_all add: Block_Capacity_def block_bytes_def block_range_def)
qed

section \<open>Memory\<close>

type_synonym memory = "u64 \<Rightarrow> byte"

definition write_bytes :: "u64 \<Rightarrow> byte list \<Rightarrow> memory \<Rightarrow> memory" where
  "write_bytes a bytes mem = (\<lambda>x. if unat (x - a) < length bytes then bytes ! unat (x - a) else mem x)"

definition read_bytes :: "memory \<Rightarrow> u64 \<Rightarrow> nat \<Rightarrow> byte list" where
  "read_bytes mem a n = map (\<lambda>i. mem (a + of_nat i)) [0..<n]"

lemma length_read_bytes [simp]: "length (read_bytes mem a n) = n"
  by (simp add: read_bytes_def)

lemma read_write_same:
  assumes "length bytes \<le> 2 ^ 64"
  shows "read_bytes (write_bytes a bytes mem) a (length bytes) = bytes"
proof (rule nth_equalityI)
  fix i assume "i < length (read_bytes (write_bytes a bytes mem) a (length bytes))"
  then have i: "i < length bytes" by simp
  then have "i < 2 ^ 64" using assms by (rule less_le_trans)
  then have "unat (of_nat i :: u64) = i" by (simp add: unat_of_nat take_bit_nat_eq_self)
  then show "read_bytes (write_bytes a bytes mem) a (length bytes) ! i = bytes ! i"
    using i by (simp add: read_bytes_def write_bytes_def)
qed simp

lemma read_write_disjoint:
  assumes "{unat a ..< unat a + length bytes} \<inter> {unat b ..< unat b + n} = {}"
    and "unat a + length bytes \<le> 2 ^ 64" "unat b + n \<le> 2 ^ 64"
  shows "read_bytes (write_bytes a bytes mem) b n = read_bytes mem b n"
proof -
  have "\<not> unat (b + of_nat i - a) < length bytes" if i: "i < n" for i
  proof
    assume less: "unat (b + of_nat i - a) < length bytes"
    have "i < 2 ^ 64" using i assms(3) by linarith
    then have "unat (of_nat i :: u64) = i" by (simp add: unat_of_nat take_bit_nat_eq_self)
    then have x: "unat (b + of_nat i) = unat b + i"
      using i assms(3) unat_add_lem [of b "of_nat i"] by simp
    have "unat a + unat (b + of_nat i - a) < 2 ^ 64" using less assms(2) by linarith
    then have "unat (a + (b + of_nat i - a)) = unat a + unat (b + of_nat i - a)"
      using unat_add_lem [of a "b + of_nat i - a"] by simp
    then have "unat b + i = unat a + unat (b + of_nat i - a)" using x by simp
    then have "unat b + i \<in> {unat a ..< unat a + length bytes}" using less by simp
    moreover have "unat b + i \<in> {unat b ..< unat b + n}" using i by simp
    ultimately show False using assms(1) by blast
  qed
  then show ?thesis by (simp add: read_bytes_def write_bytes_def)
qed

section \<open>Payloads\<close>

text \<open>
  The control block of a shared payload; \<^verbatim>\<open>controlPool\<close> is the pool of role \<open>PayloadRefControl\<close> and
  \<^verbatim>\<open>controlMemory\<close> the address the control block is stored at. \<open>controlBlocks\<close> gives the values of the
  control blocks by their addresses, and \<open>memoryBytes\<close> holds their representations there, which the
  constant \<open>controlLayout\<close> fixes.
\<close>

record NrPayloadRefControlBlock =
  refCount :: u64
  controlLength :: nat
  controlPayloadBlock :: NrPooledMemoryBlock

record NrPayloadStore =
  poolManager :: NrMemoryPoolManager
  memoryBytes :: memory
  controlBlocks :: "u64 \<Rightarrow> NrPayloadRefControlBlock option"
  controlLayout :: control_layout

text \<open>An owned payload: its block, \<open>None\<close> for the payload of length 0.\<close>

record NrPayload =
  payloadBlock :: "NrPooledMemoryBlock option"
  payloadSize :: nat

text \<open>A reference to a shared payload: the address of its control block, \<open>None\<close> for null.\<close>

type_synonym NrPayloadRef = "u64 option"

definition TrySelectPayloadRole :: "nat \<Rightarrow> NrMemoryPoolRole option" where
  "TrySelectPayloadRole payloadLength =
     (if payloadLength = 0 then None
      else if payloadLength \<le> 64 then Some Payload64
      else if payloadLength \<le> 256 then Some Payload256
      else if payloadLength \<le> 1024 then Some Payload1024
      else if payloadLength \<le> NrMaxPacketLength then Some Payload8192
      else None)"

definition Payload_Bytes :: "NrPayload \<Rightarrow> NrPayloadStore \<Rightarrow> byte list" where
  "Payload_Bytes payload s =
     (case payloadBlock payload of None \<Rightarrow> []
      | Some b \<Rightarrow> read_bytes (memoryBytes s) (blockData b) (payloadSize payload))"

text \<open>A block handle that goes out of scope releases its block.\<close>

definition drop_block :: "NrPooledMemoryBlock option \<Rightarrow> NrPayloadStore \<Rightarrow> NrPayloadStore" where
  "drop_block block s = s\<lparr>poolManager := snd (Block_Reset block (poolManager s))\<rparr>"

definition CreatePayloadFrom :: "byte list \<Rightarrow> NrPayloadStore \<Rightarrow> NrPayload NrResult \<times> NrPayloadStore" where
  "CreatePayloadFrom payloadBytes s =
     (if payloadBytes = [] then (Inr \<lparr>payloadBlock = None, payloadSize = 0\<rparr>, s)
      else case TrySelectPayloadRole (length payloadBytes) of
        None \<Rightarrow> (Inl (NrStatus_Failure NrErrorCode.CapacityExceeded), s)
      | Some role \<Rightarrow>
          (case Manager_AcquireBlock role (poolManager s) of
             (Inl status, m) \<Rightarrow> (Inl status, s\<lparr>poolManager := m\<rparr>)
           | (Inr block, m) \<Rightarrow>
               let s = s\<lparr>poolManager := m\<rparr> in
               if unat (Block_Capacity m (Some block)) < length payloadBytes then
                 (Inl (NrStatus_Failure NrErrorCode.CapacityExceeded), drop_block (Some block) s)
               else
                 (Inr \<lparr>payloadBlock = Some block, payloadSize = length payloadBytes\<rparr>,
                  s\<lparr>memoryBytes := write_bytes (blockData block) payloadBytes (memoryBytes s)\<rparr>)))"

text \<open>Writing a control block: its value, and its representation in memory.\<close>

definition control_image :: "control_layout \<Rightarrow> NrPayloadRefControlBlock \<Rightarrow> byte list" where
  "control_image layout k = layout (refCount k) (controlLength k) (Some (controlPayloadBlock k))"

definition store_control :: "u64 \<Rightarrow> NrPayloadRefControlBlock \<Rightarrow> NrPayloadStore \<Rightarrow> NrPayloadStore" where
  "store_control control k s =
     s\<lparr>controlBlocks := (controlBlocks s)(control \<mapsto> k),
       memoryBytes := write_bytes control (control_image (controlLayout s) k) (memoryBytes s)\<rparr>"

text \<open>The end of a control block: its handle is reset, and the object is gone.\<close>

definition destroy_control :: "u64 \<Rightarrow> NrPayloadRefControlBlock \<Rightarrow> NrPayloadStore \<Rightarrow> NrPayloadStore" where
  "destroy_control control k s =
     s\<lparr>controlBlocks := (controlBlocks s)(control := None),
       memoryBytes := write_bytes control (controlLayout s (refCount k) (controlLength k) None) (memoryBytes s)\<rparr>"

definition CreateFromOwnedBlock ::
    "NrPooledMemoryBlock option \<Rightarrow> nat \<Rightarrow> NrPayloadStore \<Rightarrow> NrPayloadRef NrResult \<times> NrPayloadStore" where
  "CreateFromOwnedBlock block payloadLength s =
     (case block of
        None \<Rightarrow> (Inl (NrStatus_Failure NrErrorCode.InvalidArgument), s)
      | Some b \<Rightarrow>
          if blockData b = 0 \<or> payloadLength = 0 \<or>
             payloadLength > unat (Block_Capacity (poolManager s) block) then
            (Inl (NrStatus_Failure NrErrorCode.InvalidArgument), drop_block block s)
          else case ResolvePool (poolManager s) PayloadRefControl of
            None \<Rightarrow> (Inl (NrStatus_Failure NrErrorCode.InvalidState), drop_block block s)
          | Some controlPool \<Rightarrow>
              (case Manager_AcquireBlock PayloadRefControl (poolManager s) of
                 (Inl status, m) \<Rightarrow> (Inl status, drop_block block (s\<lparr>poolManager := m\<rparr>))
               | (Inr control, m) \<Rightarrow>
                   let s = s\<lparr>poolManager := m\<rparr> in
                   if blockData control = 0 then
                     (Inl (NrStatus_Failure NrErrorCode.InvalidState), drop_block block s)
                   else
                     (Inr (Some (blockData control)),
                      store_control (blockData control)
                        \<lparr>refCount = 1, controlLength = payloadLength, controlPayloadBlock = b\<rparr> s)))"

definition CreatePayloadRefFrom :: "byte list \<Rightarrow> NrPayloadStore \<Rightarrow> NrPayloadRef NrResult \<times> NrPayloadStore" where
  "CreatePayloadRefFrom payloadBytes s =
     (if payloadBytes = [] then (Inr None, s)
      else case TrySelectPayloadRole (length payloadBytes) of
        None \<Rightarrow> (Inl (NrStatus_Failure NrErrorCode.CapacityExceeded), s)
      | Some role \<Rightarrow>
          (case Manager_AcquireBlock role (poolManager s) of
             (Inl status, m) \<Rightarrow> (Inl status, s\<lparr>poolManager := m\<rparr>)
           | (Inr block, m) \<Rightarrow>
               let s = s\<lparr>poolManager := m\<rparr> in
               if unat (Block_Capacity m (Some block)) < length payloadBytes then
                 (Inl (NrStatus_Failure NrErrorCode.CapacityExceeded), drop_block (Some block) s)
               else
                 CreateFromOwnedBlock (Some block) (length payloadBytes)
                   (s\<lparr>memoryBytes := write_bytes (blockData block) payloadBytes (memoryBytes s)\<rparr>)))"

definition CreateFramedPayloadRef ::
    "NrByteOrder \<Rightarrow> u16 \<Rightarrow> byte list \<Rightarrow> NrPayloadStore \<Rightarrow> NrPayloadRef NrResult \<times> NrPayloadStore" where
  "CreateFramedPayloadRef native ptype semanticPayload s =
     (if length semanticPayload > NrMaxPacketLength - NrPacketHeaderLength then
        (Inl (NrStatus_Failure NrErrorCode.CapacityExceeded), s)
      else
        let framedLength = NrPacketHeaderLength + length semanticPayload in
        case TrySelectPayloadRole framedLength of
          None \<Rightarrow> (Inl (NrStatus_Failure NrErrorCode.CapacityExceeded), s)
        | Some role \<Rightarrow>
            (case Manager_AcquireBlock role (poolManager s) of
               (Inl status, m) \<Rightarrow> (Inl status, s\<lparr>poolManager := m\<rparr>)
             | (Inr block, m) \<Rightarrow>
                 let s = s\<lparr>poolManager := m\<rparr> in
                 if unat (Block_Capacity m (Some block)) < framedLength then
                   (Inl (NrStatus_Failure NrErrorCode.CapacityExceeded), drop_block (Some block) s)
                 else
                   let header = \<lparr>packetLength = of_nat framedLength, packetType = ptype,
                         headerVersion = NrCurrentProtocolVersion, headerFlags = 0\<rparr>;
                       mem = memoryBytes s;
                       mem = write_bytes (blockData block)
                         (NrPacketHeader_Encode native header
                           (read_bytes mem (blockData block) NrPacketHeaderLength)) mem;
                       mem = write_bytes (blockData block + of_nat NrPacketHeaderLength) semanticPayload mem
                   in CreateFromOwnedBlock (Some block) framedLength (s\<lparr>memoryBytes := mem\<rparr>)))"

text \<open>The reference count is a 64-bit atomic; the last release destroys the control block.\<close>

definition AddRef :: "u64 \<Rightarrow> NrPayloadStore \<Rightarrow> NrPayloadStore" where
  "AddRef control s =
     (case controlBlocks s control of None \<Rightarrow> s
      | Some k \<Rightarrow> store_control control (k\<lparr>refCount := refCount k + 1\<rparr>) s)"

definition ReleaseLastRef :: "u64 \<Rightarrow> NrPayloadStore \<Rightarrow> NrPayloadStore" where
  "ReleaseLastRef control s =
     (case controlBlocks s control of None \<Rightarrow> s
      | Some k \<Rightarrow>
          let s = drop_block (Some (controlPayloadBlock k)) (destroy_control control k s)
          in drop_block (Some \<lparr>blockRole = PayloadRefControl, blockData = control\<rparr>) s)"

definition ReleaseRef :: "u64 \<Rightarrow> NrPayloadStore \<Rightarrow> NrPayloadStore" where
  "ReleaseRef control s =
     (case controlBlocks s control of None \<Rightarrow> s
      | Some k \<Rightarrow>
          let s = store_control control (k\<lparr>refCount := refCount k - 1\<rparr>) s in
          if refCount k = 1 then ReleaseLastRef control s else s)"

definition PayloadRef_Bytes :: "NrPayloadRef \<Rightarrow> NrPayloadStore \<Rightarrow> byte list" where
  "PayloadRef_Bytes ref s =
     (case ref of None \<Rightarrow> []
      | Some control \<Rightarrow>
          (case controlBlocks s control of None \<Rightarrow> []
           | Some k \<Rightarrow> read_bytes (memoryBytes s) (blockData (controlPayloadBlock k)) (controlLength k)))"

definition PayloadRef_Length :: "NrPayloadRef \<Rightarrow> NrPayloadStore \<Rightarrow> nat" where
  "PayloadRef_Length ref s =
     (case ref of None \<Rightarrow> 0
      | Some control \<Rightarrow> (case controlBlocks s control of None \<Rightarrow> 0 | Some k \<Rightarrow> controlLength k))"

definition PayloadRef_Share :: "NrPayloadRef \<Rightarrow> NrPayloadStore \<Rightarrow> NrPayloadRef \<times> NrPayloadStore" where
  "PayloadRef_Share ref s =
     (case ref of None \<Rightarrow> (None, s) | Some control \<Rightarrow> (Some control, AddRef control s))"

definition PayloadRef_Reset :: "NrPayloadRef \<Rightarrow> NrPayloadStore \<Rightarrow> NrPayloadRef \<times> NrPayloadStore" where
  "PayloadRef_Reset ref s =
     (case ref of None \<Rightarrow> (None, s) | Some control \<Rightarrow> (None, ReleaseRef control s))"

section \<open>References and the invariant of the store\<close>

text \<open>
  \<open>refs\<close> is the list of the non-null references that exist anywhere in the program: the control
  blocks are those referred to, each counts its references, owns a block of its own, and stands
  unharmed in the memory of the block it lives in.
\<close>

abbreviation control_block :: "u64 \<Rightarrow> NrPooledMemoryBlock" where
  "control_block c \<equiv> \<lparr>blockRole = PayloadRefControl, blockData = c\<rparr>"

definition control_ok :: "u64 list \<Rightarrow> NrPayloadStore \<Rightarrow> u64 \<Rightarrow> NrPayloadRefControlBlock \<Rightarrow> bool" where
  "control_ok refs s c k \<longleftrightarrow>
     refCount k = of_nat (count_list refs c) \<and>
     live_block (poolManager s) (control_block c) \<and>
     live_block (poolManager s) (controlPayloadBlock k) \<and>
     blockRole (controlPayloadBlock k) \<noteq> PayloadRefControl \<and>
     0 < controlLength k \<and>
     controlLength k \<le> unat (Block_Capacity (poolManager s) (Some (controlPayloadBlock k))) \<and>
     read_bytes (memoryBytes s) c (length (control_image (controlLayout s) k)) = control_image (controlLayout s) k"

definition payload_inv :: "u64 list \<Rightarrow> NrPayloadStore \<Rightarrow> bool" where
  "payload_inv refs s \<longleftrightarrow>
     manager_inv (poolManager s) \<and> control_fits (controlLayout s) (poolManager s) \<and> length refs < 2 ^ 64 \<and>
     (\<forall>c. controlBlocks s c \<noteq> None \<longleftrightarrow> c \<in> set refs) \<and>
     (\<forall>c k. controlBlocks s c = Some k \<longrightarrow> control_ok refs s c k) \<and>
     (\<forall>c c' k k'. c \<noteq> c' \<longrightarrow> controlBlocks s c = Some k \<longrightarrow> controlBlocks s c' = Some k' \<longrightarrow>
        controlPayloadBlock k \<noteq> controlPayloadBlock k')"

lemma payload_invD:
  assumes "payload_inv refs s"
  shows "manager_inv (poolManager s)" and "length refs < 2 ^ 64"
    and "controlBlocks s c \<noteq> None \<longleftrightarrow> c \<in> set refs"
    and "controlBlocks s c = Some k \<Longrightarrow> control_ok refs s c k"
    and "c \<noteq> c' \<Longrightarrow> controlBlocks s c = Some k \<Longrightarrow> controlBlocks s c' = Some k' \<Longrightarrow>
        controlPayloadBlock k \<noteq> controlPayloadBlock k'"
    and "control_fits (controlLayout s) (poolManager s)"
  using assms unfolding payload_inv_def by blast+

lemma payload_invI:
  assumes "manager_inv (poolManager s)" "control_fits (controlLayout s) (poolManager s)" "length refs < 2 ^ 64"
    and "\<And>c. controlBlocks s c \<noteq> None \<longleftrightarrow> c \<in> set refs"
    and "\<And>c k. controlBlocks s c = Some k \<Longrightarrow> control_ok refs s c k"
    and "\<And>c c' k k'. c \<noteq> c' \<Longrightarrow> controlBlocks s c = Some k \<Longrightarrow> controlBlocks s c' = Some k' \<Longrightarrow>
        controlPayloadBlock k \<noteq> controlPayloadBlock k'"
  shows "payload_inv refs s"
  using assms unfolding payload_inv_def by blast

text \<open>The representation of a control block in a live block fits, also while the pools change.\<close>

lemma control_fits_live:
  assumes "control_fits layout m" "live_block m (control_block c)"
  shows "length (layout count n b) \<le> unat (Block_Capacity m (Some (control_block c)))"
  using assms by (auto simp: control_fits_def live_block_def Block_Capacity_def)

text \<open>
  A change that keeps the control blocks and what the live blocks contain keeps the invariant, and a
  payload keeps its bytes when the memory of its block is kept.
\<close>

definition memory_kept :: "NrPayloadStore \<Rightarrow> NrPayloadStore \<Rightarrow> bool" where
  "memory_kept s s' \<longleftrightarrow>
     (\<forall>b n. live_block (poolManager s) b \<and> n \<le> unat (Block_Capacity (poolManager s) (Some b)) \<longrightarrow>
        read_bytes (memoryBytes s') (blockData b) n = read_bytes (memoryBytes s) (blockData b) n)"

lemma memory_keptD:
  "memory_kept s s' \<Longrightarrow> live_block (poolManager s) b \<Longrightarrow> n \<le> unat (Block_Capacity (poolManager s) (Some b)) \<Longrightarrow>
    read_bytes (memoryBytes s') (blockData b) n = read_bytes (memoryBytes s) (blockData b) n"
  by (simp add: memory_kept_def)

lemma memory_kept_same [simp]: "memoryBytes s' = memoryBytes s \<Longrightarrow> memory_kept s s'"
  by (simp add: memory_kept_def)

lemma control_image_kept:
  assumes "payload_inv refs s" "controlBlocks s c = Some k" "memory_kept s s'"
  shows "read_bytes (memoryBytes s') c (length (control_image (controlLayout s) k)) = control_image (controlLayout s) k"
proof -
  note ok = payload_invD(4) [OF assms(1,2), unfolded control_ok_def]
  have "length (control_image (controlLayout s) k) \<le> unat (Block_Capacity (poolManager s) (Some (control_block c)))"
    unfolding control_image_def using ok by (intro control_fits_live [OF payload_invD(6) [OF assms(1)]]) simp
  then show ?thesis using memory_keptD [OF assms(3), of "control_block c"] ok by simp
qed

lemma payload_inv_keep:
  assumes "payload_inv refs s" "manager_inv (poolManager s')" "controlBlocks s' = controlBlocks s"
    and "\<And>b. live_block (poolManager s) b \<Longrightarrow> live_block (poolManager s') b"
    and "\<And>b. Block_Capacity (poolManager s') b = Block_Capacity (poolManager s) b"
    and "controlLayout s' = controlLayout s" "\<And>layout. control_fits layout (poolManager s') = control_fits layout (poolManager s)"
    and "memory_kept s s'"
  shows "payload_inv refs s'"
  using assms(2-7) payload_invD [OF assms(1)] control_image_kept [OF assms(1) _ assms(8)]
  by (intro payload_invI) (auto simp: control_ok_def)

lemma payload_bytes_keep:
  assumes "payload_inv refs s" "c \<in> set refs" "controlBlocks s' c = controlBlocks s c"
    and "memory_kept s s'"
  shows "PayloadRef_Bytes (Some c) s' = PayloadRef_Bytes (Some c) s"
proof -
  obtain k where k: "controlBlocks s c = Some k" using payload_invD(3) [OF assms(1)] assms(2) by blast
  then show ?thesis
    using payload_invD(4) [OF assms(1) k] assms(3) memory_keptD [OF assms(4)]
    by (simp add: PayloadRef_Bytes_def control_ok_def)
qed

text \<open>A block just acquired for a payload belongs to no control block.\<close>

definition fresh_block :: "NrPayloadStore \<Rightarrow> NrPooledMemoryBlock \<Rightarrow> bool" where
  "fresh_block s b \<longleftrightarrow> live_block (poolManager s) b \<and> blockRole b \<noteq> PayloadRefControl \<and>
     (\<forall>c k. controlBlocks s c = Some k \<longrightarrow> controlPayloadBlock k \<noteq> b)"

lemma drop_block_fields [simp]:
  "controlBlocks (drop_block b s) = controlBlocks s"
  "controlLayout (drop_block b s) = controlLayout s"
  "memoryBytes (drop_block b s) = memoryBytes s"
  "poolManager (drop_block b s) = snd (Block_Reset b (poolManager s))"
  by (simp_all add: drop_block_def)

lemma store_control_fields [simp]:
  "poolManager (store_control c k s) = poolManager s"
  "controlBlocks (store_control c k s) = (controlBlocks s)(c \<mapsto> k)"
  "controlLayout (store_control c k s) = controlLayout s"
  by (simp_all add: store_control_def)

lemma destroy_control_fields [simp]:
  "poolManager (destroy_control c k s) = poolManager s"
  "controlBlocks (destroy_control c k s) = (controlBlocks s)(c := None)"
  "controlLayout (destroy_control c k s) = controlLayout s"
  by (simp_all add: destroy_control_def)

text \<open>Writing into a live block changes no other live block's bytes.\<close>

lemma write_live:
  assumes "manager_inv m" "live_block m b" "live_block m b'" "b \<noteq> b'"
    and "length bytes \<le> unat (Block_Capacity m (Some b))" "n \<le> unat (Block_Capacity m (Some b'))"
  shows "read_bytes (write_bytes (blockData b) bytes mem) (blockData b') n = read_bytes mem (blockData b') n"
proof -
  note nb = live_block_no_wrap [OF assms(1,2)] and nb' = live_block_no_wrap [OF assms(1,3)]
  have "{unat (blockData b) ..< unat (blockData b) + length bytes} \<inter>
      {unat (blockData b') ..< unat (blockData b') + n} = {}"
    using live_blocks_disjoint [OF assms(1-4)] assms(5,6) unfolding nb(2) nb'(2) by fastforce
  then show ?thesis using nb(1) nb'(1) assms(5,6) by (intro read_write_disjoint) auto
qed

text \<open>
  Writing the representation of a control block in its own block: the payloads, which live in blocks
  of other roles, and the other control blocks keep theirs.
\<close>

lemma write_control_kept:
  assumes "manager_inv (poolManager s)" "control_fits (controlLayout s) (poolManager s)"
    and "live_block (poolManager s) (control_block c)" "live_block (poolManager s) b" "b \<noteq> control_block c"
    and "n \<le> unat (Block_Capacity (poolManager s) (Some b))"
  shows "read_bytes (memoryBytes (store_control c k s)) (blockData b) n = read_bytes (memoryBytes s) (blockData b) n"
    and "read_bytes (memoryBytes (destroy_control c k s)) (blockData b) n = read_bytes (memoryBytes s) (blockData b) n"
proof -
  have "read_bytes (write_bytes c (controlLayout s count l h) (memoryBytes s)) (blockData b) n =
      read_bytes (memoryBytes s) (blockData b) n" for count l h
    using write_live [OF assms(1,3,4) _ control_fits_live [OF assms(2,3), of count l h] assms(6)] assms(5)
    by simp
  then show "read_bytes (memoryBytes (store_control c k s)) (blockData b) n = read_bytes (memoryBytes s) (blockData b) n"
    and "read_bytes (memoryBytes (destroy_control c k s)) (blockData b) n = read_bytes (memoryBytes s) (blockData b) n"
    by (simp_all add: store_control_def destroy_control_def control_image_def)
qed

lemma read_own_control:
  assumes "manager_inv (poolManager s)" "control_fits (controlLayout s) (poolManager s)"
    and "live_block (poolManager s) (control_block c)"
  shows "read_bytes (memoryBytes (store_control c k s)) c (length (control_image (controlLayout s) k)) =
    control_image (controlLayout s) k"
proof -
  have "length (control_image (controlLayout s) k) \<le> 2 ^ 64"
    using control_fits_live [OF assms(2,3), of "refCount k" "controlLength k" "Some (controlPayloadBlock k)"]
      live_block_no_wrap(1) [OF assms(1,3)] unfolding control_image_def by linarith
  then show ?thesis by (simp add: store_control_def read_write_same)
qed

lemma drop_fresh_inv:
  assumes "payload_inv refs s" "fresh_block s b"
  shows "payload_inv refs (drop_block (Some b) s)"
proof -
  note inv = payload_invD [OF assms(1)]
  have live: "live_block (poolManager s) b" "blockRole b \<noteq> PayloadRefControl"
    and other: "\<And>c k. controlBlocks s c = Some k \<Longrightarrow> controlPayloadBlock k \<noteq> b"
    using assms(2) unfolding fresh_block_def by blast+
  obtain st m' where r: "Block_Reset (Some b) (poolManager s) = (st, m')" by fastforce
  note rel = Block_Reset_live [OF inv(1) live(1) r]
  have "control_ok refs (drop_block (Some b) s) c k" if "controlBlocks s c = Some k" for c k
    using inv(4) [OF that] rel other [OF that] live(2) by (auto simp: control_ok_def r)
  then show ?thesis
    using inv rel(2,6) by (intro payload_invI) (auto simp: r)
qed

lemma acquired_fresh:
  assumes "payload_inv refs s" "Manager_AcquireBlock role (poolManager s) = (Inr b, m)"
    and "role \<noteq> PayloadRefControl"
  shows "payload_inv refs (s\<lparr>poolManager := m\<rparr>)" and "fresh_block (s\<lparr>poolManager := m\<rparr>) b"
proof -
  note acq = Manager_AcquireBlock_Inr [OF payload_invD(1) [OF assms(1)] assms(2)]
  show "payload_inv refs (s\<lparr>poolManager := m\<rparr>)"
    using acq by (intro payload_inv_keep [OF assms(1)]) simp_all
  have "controlPayloadBlock k \<noteq> b" if "controlBlocks s c = Some k" for c k
    using payload_invD(4) [OF assms(1) that] acq(4) by (auto simp: control_ok_def)
  then show "fresh_block (s\<lparr>poolManager := m\<rparr>) b"
    using acq assms(3) by (simp add: fresh_block_def)
qed

text \<open>Writing into a fresh block changes no live block's bytes, even before it was acquired.\<close>

lemma write_fresh:
  assumes "manager_inv m" "Manager_AcquireBlock role m = (Inr b, m')"
    and "length bytes \<le> unat (Block_Capacity m' (Some b))" "live_block m b'"
    and "n \<le> unat (Block_Capacity m (Some b'))"
  shows "read_bytes (write_bytes (blockData b) bytes mem) (blockData b') n = read_bytes mem (blockData b') n"
proof -
  note acq = Manager_AcquireBlock_Inr [OF assms(1,2)]
  have b': "live_block m' b'" using acq(5) assms(4) by blast
  note nb = live_block_no_wrap [OF acq(1,3)] and nb' = live_block_no_wrap [OF acq(1) b']
  have "block_bytes m' b' \<inter> block_bytes m' b = {}"
    using acq(6) [OF assms(4)] acq(7) by simp
  then have "{unat (blockData b) ..< unat (blockData b) + length bytes} \<inter>
      {unat (blockData b') ..< unat (blockData b') + n} = {}"
    using nb(2) nb'(2) assms(3,5) acq(8) by fastforce
  then show ?thesis
    using nb(1) nb'(1) assms(3,5) acq(8) [of "Some b'"] by (intro read_write_disjoint) auto
qed

lemma count_list_le: "count_list xs x \<le> length xs"
  by (induction xs) auto

text \<open>
  A shared payload from a fresh block: a new control block with one reference, or the block is
  given back.
\<close>

lemma CreateFromOwnedBlock_step:
  assumes "payload_inv refs s" "fresh_block s b" "length refs + 1 < 2 ^ 64"
    and "CreateFromOwnedBlock (Some b) n s = (result, s')"
  shows "memory_kept s s' \<and> controlLayout s' = controlLayout s \<and>
    (case result of
       Inr None \<Rightarrow> False
     | Inr (Some c) \<Rightarrow> c \<notin> set refs \<and> payload_inv (c # refs) s' \<and>
         controlBlocks s' = (controlBlocks s)(c \<mapsto> \<lparr>refCount = 1, controlLength = n, controlPayloadBlock = b\<rparr>)
     | Inl status \<Rightarrow> payload_inv refs s' \<and> controlBlocks s' = controlBlocks s)"
proof -
  note inv = payload_invD [OF assms(1)]
  let ?cap = "Block_Capacity (poolManager s) (Some b)"
  show ?thesis
  proof (cases "blockData b = 0 \<or> n = 0 \<or> n > unat ?cap \<or> ResolvePool (poolManager s) PayloadRefControl = None")
    case True
    then have "(\<exists>e. result = Inl (NrStatus_Failure e)) \<and> s' = drop_block (Some b) s"
      using assms(4) by (auto simp: CreateFromOwnedBlock_def split: if_splits)
    then show ?thesis using drop_fresh_inv [OF assms(1,2)] by auto
  next
    case False
    then have n: "0 < n" "n \<le> unat ?cap" by auto
    obtain r m where acq: "Manager_AcquireBlock PayloadRefControl (poolManager s) = (r, m)" by fastforce
    show ?thesis
    proof (cases r)
      case (Inl status)
      note a = Manager_AcquireBlock_Inl [OF inv(1) acq [unfolded Inl]]
      have s': "result = Inl status" "s' = drop_block (Some b) (s\<lparr>poolManager := m\<rparr>)"
        using assms(4) False Inl acq by (auto simp: CreateFromOwnedBlock_def)
      have "payload_inv refs (s\<lparr>poolManager := m\<rparr>)"
        using a by (intro payload_inv_keep [OF assms(1)]) simp_all
      moreover have "fresh_block (s\<lparr>poolManager := m\<rparr>) b"
        using assms(2) a(2) by (simp add: fresh_block_def)
      ultimately show ?thesis using drop_fresh_inv s' by auto
    next
      case (Inr control)
      note a = Manager_AcquireBlock_Inr [OF inv(1) acq [unfolded Inr]]
      let ?s = "s\<lparr>poolManager := m\<rparr>" and ?c = "blockData control"
      have control: "control = control_block ?c" using a(2) by (cases control) simp
      have inv': "payload_inv refs ?s"
        using a by (intro payload_inv_keep [OF assms(1)]) simp_all
      have fresh': "fresh_block ?s b" using assms(2) a(5) by (simp add: fresh_block_def)
      show ?thesis
      proof (cases "?c = 0")
        case True
        then have "result = Inl (NrStatus_Failure NrErrorCode.InvalidState)" "s' = drop_block (Some b) ?s"
          using assms(4) False Inr acq by (auto simp: CreateFromOwnedBlock_def Let_def)
        then show ?thesis using drop_fresh_inv [OF inv' fresh'] by auto
      next
        case c0: False
        let ?k = "\<lparr>refCount = 1, controlLength = n, controlPayloadBlock = b\<rparr>"
        have s': "result = Inr (Some ?c)" "s' = store_control ?c ?k ?s"
          using assms(4) False Inr acq c0 by (auto simp: CreateFromOwnedBlock_def Let_def)
        have live: "live_block m (control_block ?c)" using a(3) control by metis
        note inv2 = payload_invD [OF inv']
        have fits: "control_fits (controlLayout s) m" using inv(6) a(9) by simp
        have mem: "read_bytes (memoryBytes s') (blockData b') n' = read_bytes (memoryBytes s) (blockData b') n'"
          if "live_block m b'" "b' \<noteq> control_block ?c" "n' \<le> unat (Block_Capacity m (Some b'))" for b' n'
          using write_control_kept(1) [of ?s ?c b' n' ?k] inv2(1) fits live that s'(2) by simp
        have kept: "memory_kept s s'"
          unfolding memory_kept_def
        proof (intro allI impI, elim conjE)
          fix b' n' assume b': "live_block (poolManager s) b'" "n' \<le> unat (Block_Capacity (poolManager s) (Some b'))"
          have "b' \<noteq> control_block ?c" using b'(1) a(4) control by metis
          then show "read_bytes (memoryBytes s') (blockData b') n' = read_bytes (memoryBytes s) (blockData b') n'"
            using b' a(5,8) by (intro mem) auto
        qed
        have own: "read_bytes (memoryBytes s') ?c (length (control_image (controlLayout s) ?k)) =
            control_image (controlLayout s) ?k"
          using read_own_control [of ?s ?c ?k] inv2(1) fits live s'(2) by simp
        have new: "?c \<notin> set refs"
        proof
          assume "?c \<in> set refs"
          then obtain k where "controlBlocks s ?c = Some k" using inv(3) by blast
          then have "live_block (poolManager s) (control_block ?c)"
            using inv(4) by (simp add: control_ok_def)
          then show False using a(4) control by metis
        qed
        have "control_ok (?c # refs) s' c k" if k: "controlBlocks s' c = Some k" for c k
        proof (cases "c = ?c")
          case True
          then have "k = ?k" using k s' by simp
          moreover have "count_list refs ?c = 0" using new by (simp add: count_list_0_iff)
          ultimately show ?thesis
            using True s'(2) fresh' n a(8) [of "Some b"] live own
            by (simp add: control_ok_def fresh_block_def)
        next
          case False
          then have "controlBlocks s c = Some k" using k s' by simp
          then show ?thesis
            using False inv2(4) [of c k] control_image_kept [OF assms(1) _ kept, of c k] s'(2) by (simp add: control_ok_def)
        qed
        moreover have "controlPayloadBlock k \<noteq> controlPayloadBlock k'"
          if "c \<noteq> c'" "controlBlocks s' c = Some k" "controlBlocks s' c' = Some k'" for c c' k k'
        proof -
          have fb: "\<forall>c k. controlBlocks s c = Some k \<longrightarrow> controlPayloadBlock k \<noteq> b"
            using assms(2) unfolding fresh_block_def by blast
          have ctl: "controlBlocks s' = (controlBlocks s)(?c \<mapsto> ?k)" using s' by simp
          show ?thesis
            using that fb inv(5) [of c c' k k'] unfolding ctl by (fastforce split: if_splits)
        qed
        moreover have "controlBlocks s' c \<noteq> None \<longleftrightarrow> c \<in> set (?c # refs)" for c
          using inv(3) [of c] s' by auto
        moreover have "manager_inv (poolManager s')" "control_fits (controlLayout s') (poolManager s')"
          using a(1) fits s' by simp_all
        moreover have "length (?c # refs) < 2 ^ 64" using assms(3) by simp
        ultimately have "payload_inv (?c # refs) s'" by (intro payload_invI)
        then show ?thesis using s' new kept by simp
      qed
    qed
  qed
qed

lemma TrySelectPayloadRole_Some:
  assumes "TrySelectPayloadRole n = Some role"
  shows "role \<noteq> PayloadRefControl" "0 < n" "n \<le> NrMaxPacketLength"
  using assms by (auto simp: TrySelectPayloadRole_def NrMaxPacketLength_def split: if_splits)

text \<open>
  What a factory of shared payloads does: \<open>published refs s bytes result s'\<close> holds when the result is
  a new reference to these bytes, or a failure, and no other payload has changed.
\<close>

definition published ::
    "u64 list \<Rightarrow> NrPayloadStore \<Rightarrow> byte list \<Rightarrow> NrPayloadRef NrResult \<Rightarrow> NrPayloadStore \<Rightarrow> bool" where
  "published refs s bytes result s' \<longleftrightarrow>
     (\<forall>r \<in> set refs. PayloadRef_Bytes (Some r) s' = PayloadRef_Bytes (Some r) s) \<and>
     (case result of
        Inr None \<Rightarrow> False
      | Inr (Some c) \<Rightarrow> c \<notin> set refs \<and> payload_inv (c # refs) s' \<and> PayloadRef_Bytes (Some c) s' = bytes
      | Inl status \<Rightarrow> payload_inv refs s')"

lemma published_failure:
  assumes "payload_inv refs s'" "\<And>c. PayloadRef_Bytes (Some c) s' = PayloadRef_Bytes (Some c) s"
  shows "published refs s bytes (Inl status) s'"
  using assms by (simp add: published_def)

lemma PayloadRef_Bytes_same:
  "controlBlocks s' = controlBlocks s \<Longrightarrow> memoryBytes s' = memoryBytes s \<Longrightarrow>
    PayloadRef_Bytes ref s' = PayloadRef_Bytes ref s"
  by (simp add: PayloadRef_Bytes_def split: option.split)

lemma publish_block:
  assumes "payload_inv refs s" "length refs + 1 < 2 ^ 64"
    and acq: "Manager_AcquireBlock role (poolManager s) = (Inr b, m)" "role \<noteq> PayloadRefControl"
    and create: "CreateFromOwnedBlock (Some b) (length bytes) (s\<lparr>poolManager := m, memoryBytes := mem\<rparr>) = (result, s')"
    and cap: "length bytes \<le> unat (Block_Capacity m (Some b))"
    and own: "read_bytes mem (blockData b) (length bytes) = bytes"
    and others: "\<And>b' n. live_block (poolManager s) b' \<Longrightarrow> n \<le> unat (Block_Capacity (poolManager s) (Some b')) \<Longrightarrow>
      read_bytes mem (blockData b') n = read_bytes (memoryBytes s) (blockData b') n"
  shows "published refs s bytes result s'"
proof -
  let ?s = "s\<lparr>poolManager := m, memoryBytes := mem\<rparr>"
  note a = Manager_AcquireBlock_Inr [OF payload_invD(1) [OF assms(1)] acq(1)]
  have kept: "memory_kept s ?s" using others by (simp add: memory_kept_def)
  have inv': "payload_inv refs ?s"
    using a by (intro payload_inv_keep [OF assms(1)]) (simp_all add: kept)
  have fresh': "fresh_block ?s b"
    using acquired_fresh(2) [OF assms(1) acq] by (simp add: fresh_block_def)
  note step = CreateFromOwnedBlock_step [OF inv' fresh' assms(2) create]
  have kept': "memory_kept s s'"
    unfolding memory_kept_def
  proof (intro allI impI, elim conjE)
    fix b' n assume b': "live_block (poolManager s) b'" "n \<le> unat (Block_Capacity (poolManager s) (Some b'))"
    then have "read_bytes (memoryBytes s') (blockData b') n = read_bytes (memoryBytes ?s) (blockData b') n"
      using step a(5,8) by (intro memory_keptD [of ?s s']) auto
    then show "read_bytes (memoryBytes s') (blockData b') n = read_bytes (memoryBytes s) (blockData b') n"
      using memory_keptD [OF kept b'] by simp
  qed
  have old: "PayloadRef_Bytes (Some r) s' = PayloadRef_Bytes (Some r) s"
    if r: "r \<in> set refs" "controlBlocks s' r = controlBlocks s r" for r
    by (rule payload_bytes_keep [OF assms(1) r kept'])
  show ?thesis
  proof (cases result)
    case (Inl status)
    then show ?thesis using step old by (auto simp: published_def)
  next
    case (Inr ref)
    then obtain c where c: "ref = Some c" using step by (auto split: option.splits)
    then have st: "c \<notin> set refs" "payload_inv (c # refs) s'"
      "controlBlocks s' = (controlBlocks s)(c \<mapsto>
        \<lparr>refCount = 1, controlLength = length bytes, controlPayloadBlock = b\<rparr>)"
      using step Inr by auto
    have "length bytes \<le> unat (Block_Capacity m (Some b))"
      by (rule cap)
    then have "read_bytes (memoryBytes s') (blockData b) (length bytes) = bytes"
      using memory_keptD [of ?s s' b "length bytes"] step a(3) own by simp
    then have "PayloadRef_Bytes (Some c) s' = bytes" using st by (simp add: PayloadRef_Bytes_def)
    moreover have "\<forall>r \<in> set refs. PayloadRef_Bytes (Some r) s' = PayloadRef_Bytes (Some r) s"
    proof
      fix r assume r: "r \<in> set refs"
      then have "r \<noteq> c" using st(1) by blast
      then show "PayloadRef_Bytes (Some r) s' = PayloadRef_Bytes (Some r) s"
        using r st(3) by (intro old) simp_all
    qed
    ultimately show ?thesis using Inr c st by (simp add: published_def)
  qed
qed

lemma acquire_failure:
  assumes "payload_inv refs s" "Manager_AcquireBlock role (poolManager s) = (Inl status, m)"
  shows "published refs s bytes (Inl status) (s\<lparr>poolManager := m\<rparr>)"
proof (rule published_failure)
  note a = Manager_AcquireBlock_Inl [OF payload_invD(1) [OF assms(1)] assms(2)]
  show "payload_inv refs (s\<lparr>poolManager := m\<rparr>)"
    using a by (intro payload_inv_keep [OF assms(1)]) simp_all
qed (rule PayloadRef_Bytes_same; simp)

lemma too_small_failure:
  assumes "payload_inv refs s" "Manager_AcquireBlock role (poolManager s) = (Inr b, m)" "role \<noteq> PayloadRefControl"
  shows "published refs s bytes (Inl status) (drop_block (Some b) (s\<lparr>poolManager := m\<rparr>))"
proof (rule published_failure)
  show "payload_inv refs (drop_block (Some b) (s\<lparr>poolManager := m\<rparr>))"
    using acquired_fresh [OF assms] by (rule drop_fresh_inv)
qed (rule PayloadRef_Bytes_same; simp)

lemma CreatePayloadRefFrom_published:
  assumes "payload_inv refs s" "length refs + 1 < 2 ^ 64" "bytes \<noteq> []"
    and "CreatePayloadRefFrom bytes s = (result, s')"
  shows "published refs s bytes result s'"
proof (cases "TrySelectPayloadRole (length bytes)")
  case None
  then show ?thesis using assms by (auto simp: CreatePayloadRefFrom_def published_def)
next
  case (Some role)
  note role = TrySelectPayloadRole_Some [OF Some]
  obtain r m where acq: "Manager_AcquireBlock role (poolManager s) = (r, m)" by fastforce
  show ?thesis
  proof (cases r)
    case (Inl status)
    then show ?thesis
      using assms(3,4) Some acq acquire_failure [OF assms(1) acq [unfolded Inl]]
      by (simp add: CreatePayloadRefFrom_def)
  next
    case (Inr b)
    note acq = acq [unfolded Inr]
    show ?thesis
    proof (cases "unat (Block_Capacity m (Some b)) < length bytes")
      case True
      then show ?thesis
        using assms(3,4) Some acq too_small_failure [OF assms(1) acq role(1)]
        by (auto simp: CreatePayloadRefFrom_def Let_def)
    next
      case fits: False
      have "CreateFromOwnedBlock (Some b) (length bytes)
          (s\<lparr>poolManager := m, memoryBytes := write_bytes (blockData b) bytes (memoryBytes s)\<rparr>) = (result, s')"
        using assms(3,4) Some acq fits by (simp add: CreatePayloadRefFrom_def Let_def)
      then show ?thesis
      proof (rule publish_block [OF assms(1,2) acq role(1)])
        show "read_bytes (write_bytes (blockData b) bytes (memoryBytes s)) (blockData b) (length bytes) = bytes"
          using role(3) by (intro read_write_same) (simp add: NrMaxPacketLength_def)
      qed (use fits write_fresh [OF payload_invD(1) [OF assms(1)] acq] in simp_all)
    qed
  qed
qed

lemma length_frame [simp]: "length (frame h payload) = NrPacketHeaderLength + length payload"
  by (simp add: frame_def)

lemma write_write_append:
  assumes "length xs + length ys \<le> 2 ^ 64"
  shows "write_bytes (a + of_nat (length xs)) ys (write_bytes a xs mem) = write_bytes a (xs @ ys) mem"
proof
  fix x
  let ?n = "length xs" and ?d = "x - a"
  show "write_bytes (a + of_nat ?n) ys (write_bytes a xs mem) x = write_bytes a (xs @ ys) mem x"
  proof (cases "ys = []")
    case True
    then show ?thesis by (simp add: write_bytes_def)
  next
    case False
    then have "?n < 2 ^ 64" using assms by (cases ys) auto
    then have n: "unat (of_nat ?n :: u64) = ?n" by (simp add: unat_of_nat take_bit_nat_eq_self)
    have e: "x - (a + of_nat ?n) = ?d - of_nat ?n" by simp
    show ?thesis
    proof (cases "unat ?d < ?n")
      case True
      then have "\<not> of_nat ?n \<le> ?d" using n by (simp add: word_le_nat_alt)
      then have "unat (?d - of_nat ?n) = unat ?d + 2 ^ 64 - ?n"
        using n by (simp add: unat_sub_if_size word_size word_le_nat_alt)
      then have "\<not> unat (?d - of_nat ?n) < length ys" using assms by linarith
      then show ?thesis using True by (simp add: write_bytes_def e nth_append)
    next
      case False
      then have "of_nat ?n \<le> ?d" using n by (simp add: word_le_nat_alt)
      then have "unat (?d - of_nat ?n) = unat ?d - ?n" using n by (simp add: unat_sub)
      then show ?thesis using False by (auto simp: write_bytes_def e nth_append)
    qed
  qed
qed

abbreviation framed_header :: "u16 \<Rightarrow> byte list \<Rightarrow> NrPacketHeader" where
  "framed_header ptype payload \<equiv>
     \<lparr>packetLength = of_nat (NrPacketHeaderLength + length payload), packetType = ptype,
      headerVersion = NrCurrentProtocolVersion, headerFlags = 0\<rparr>"

lemma CreateFramedPayloadRef_published:
  assumes "payload_inv refs s" "length refs + 1 < 2 ^ 64"
    and "CreateFramedPayloadRef native ptype payload s = (result, s')"
  shows "published refs s (frame (framed_header ptype payload) payload) result s'"
proof (cases "length payload > NrMaxPacketLength - NrPacketHeaderLength \<or>
    TrySelectPayloadRole (NrPacketHeaderLength + length payload) = None")
  case True
  then have "result = Inl (NrStatus_Failure NrErrorCode.CapacityExceeded)" "s' = s"
    using assms(3) by (auto simp: CreateFramedPayloadRef_def Let_def split: if_splits)
  then show ?thesis using published_failure [OF assms(1)] by simp
next
  case False
  then obtain role where small: "\<not> length payload > NrMaxPacketLength - NrPacketHeaderLength"
    and Some: "TrySelectPayloadRole (NrPacketHeaderLength + length payload) = Some role" by auto
  let ?bytes = "frame (framed_header ptype payload) payload"
  have len: "length ?bytes = NrPacketHeaderLength + length payload" by simp
  note role = TrySelectPayloadRole_Some [OF Some]
  obtain r m where acq: "Manager_AcquireBlock role (poolManager s) = (r, m)" by fastforce
  show ?thesis
  proof (cases r)
    case (Inl status)
    then show ?thesis
      using assms(3) small Some acq acquire_failure [OF assms(1) acq [unfolded Inl]]
      by (simp add: CreateFramedPayloadRef_def Let_def)
  next
    case (Inr b)
    note acq = acq [unfolded Inr]
    show ?thesis
    proof (cases "unat (Block_Capacity m (Some b)) < NrPacketHeaderLength + length payload")
      case True
      then show ?thesis
        using assms(3) small Some acq too_small_failure [OF assms(1) acq role(1)]
        by (auto simp: CreateFramedPayloadRef_def Let_def)
    next
      case fits: False
      have fit64: "length ?bytes \<le> 2 ^ 64" using role(3) by (simp add: NrMaxPacketLength_def)
      have two: "write_bytes (blockData b + of_nat NrPacketHeaderLength) payload
          (write_bytes (blockData b) (header_wire (framed_header ptype payload)) (memoryBytes s)) =
        write_bytes (blockData b) ?bytes (memoryBytes s)"
        using write_write_append [of "header_wire (framed_header ptype payload)" payload "blockData b" "memoryBytes s"]
          fit64 by (simp add: frame_def)
      have "CreateFromOwnedBlock (Some b) (length ?bytes)
          (s\<lparr>poolManager := m, memoryBytes := write_bytes (blockData b) ?bytes (memoryBytes s)\<rparr>) = (result, s')"
        unfolding len two [symmetric]
        using assms(3) small Some acq fits by (simp add: CreateFramedPayloadRef_def Let_def Encode_wire)
      then show ?thesis
      proof (rule publish_block [OF assms(1,2) acq role(1)])
        show "read_bytes (write_bytes (blockData b) ?bytes (memoryBytes s)) (blockData b) (length ?bytes) = ?bytes"
          using fit64 by (rule read_write_same)
      qed (use fits len write_fresh [OF payload_invD(1) [OF assms(1)] acq] in simp_all)
    qed
  qed
qed

text \<open>
  Counting in a control block: the payloads and the other control blocks stay as they are, and the
  invariant holds for the new list of references when the count is right for it.
\<close>

lemma store_control_step:
  assumes "payload_inv refs s" "controlBlocks s c = Some k" "k' = k\<lparr>refCount := of_nat (count_list refs' c)\<rparr>"
    and "length refs' < 2 ^ 64" "set refs' = set refs" "\<And>x. x \<noteq> c \<Longrightarrow> count_list refs' x = count_list refs x"
  shows "payload_inv refs' (store_control c k' s)"
    and "PayloadRef_Bytes r (store_control c k' s) = PayloadRef_Bytes r s"
proof -
  let ?s = "store_control c k' s"
  note inv = payload_invD [OF assms(1)]
  note ok = inv(4) [OF assms(2), unfolded control_ok_def]
  have live: "live_block (poolManager s) (control_block c)" using ok by blast
  note kept = write_control_kept(1) [OF inv(1,6) live]
  have payload: "read_bytes (memoryBytes ?s) (blockData (controlPayloadBlock d)) (controlLength d) =
      read_bytes (memoryBytes s) (blockData (controlPayloadBlock d)) (controlLength d)"
    if "controlBlocks s x = Some d" for x d
  proof -
    note okd = inv(4) [OF that, unfolded control_ok_def]
    have "controlPayloadBlock d \<noteq> control_block c" using okd by (cases "controlPayloadBlock d") auto
    then show ?thesis using okd by (intro kept) auto
  qed
  show "PayloadRef_Bytes r ?s = PayloadRef_Bytes r s"
    using payload assms(2,3) by (auto simp: PayloadRef_Bytes_def split: option.splits)
  have image: "read_bytes (memoryBytes ?s) x (length (control_image (controlLayout s) d)) = control_image (controlLayout s) d"
    if d: "controlBlocks s x = Some d" "x \<noteq> c" for x d
  proof -
    note okd = inv(4) [OF d(1), unfolded control_ok_def]
    have "length (control_image (controlLayout s) d) \<le> unat (Block_Capacity (poolManager s) (Some (control_block x)))"
      unfolding control_image_def using okd by (intro control_fits_live [OF inv(6)]) blast
    then show ?thesis using kept [of "control_block x" _ k'] okd d(2) by simp
  qed
  have "control_ok refs' ?s x d" if "controlBlocks ?s x = Some d" for x d
  proof (cases "x = c")
    case True
    then have "d = k'" using that by simp
    then show ?thesis
      using True ok assms(3) read_own_control [OF inv(1,6) live, of k'] by (simp add: control_ok_def)
  next
    case False
    then have "controlBlocks s x = Some d" using that by simp
    then show ?thesis
      using False inv(4) [of x d] image [of x d] assms(6) [OF False] by (simp add: control_ok_def)
  qed
  moreover have "controlPayloadBlock k1 \<noteq> controlPayloadBlock k2"
    if "c1 \<noteq> c2" "controlBlocks ?s c1 = Some k1" "controlBlocks ?s c2 = Some k2" for c1 c2 k1 k2
    using that inv(5) [OF that(1)] assms(2,3) by (auto split: if_splits)
  moreover have "controlBlocks ?s x \<noteq> None \<longleftrightarrow> x \<in> set refs'" for x
    using inv(3) [of x] assms(2,5) by auto
  ultimately show "payload_inv refs' ?s" using inv(1,6) assms(4) by (intro payload_invI) simp_all
qed

text \<open>Sharing counts one reference more.\<close>

lemma Share_step:
  assumes "payload_inv refs s" "length refs + 1 < 2 ^ 64" "c \<in> set refs"
    and "PayloadRef_Share (Some c) s = (ref, s')"
  shows "ref = Some c" "payload_inv (c # refs) s'" "PayloadRef_Bytes r s' = PayloadRef_Bytes r s"
proof -
  note inv = payload_invD [OF assms(1)]
  obtain k where k: "controlBlocks s c = Some k" using inv(3) assms(3) by blast
  have s': "ref = Some c" "s' = store_control c (k\<lparr>refCount := refCount k + 1\<rparr>) s"
    using assms(4) k by (simp_all add: PayloadRef_Share_def AddRef_def)
  have "refCount k = of_nat (count_list refs c)" using inv(4) [OF k] by (simp add: control_ok_def)
  then have "k\<lparr>refCount := refCount k + 1\<rparr> = k\<lparr>refCount := of_nat (count_list (c # refs) c)\<rparr>" by simp
  note step = store_control_step [OF assms(1) k this]
  show "ref = Some c" by (fact s')
  show "payload_inv (c # refs) s'" "PayloadRef_Bytes r s' = PayloadRef_Bytes r s"
    unfolding s'(2) using assms(2,3) by (auto intro: step)
qed

text \<open>
  Destroying the last reference's control block and returning both blocks: the other payloads and
  control blocks stay as they are.
\<close>

lemma destroy_step:
  assumes "payload_inv refs s" "controlBlocks s c = Some k"
    and "length refs' < 2 ^ 64" "c \<notin> set refs'" "set refs = insert c (set refs')"
    and "\<And>x. x \<noteq> c \<Longrightarrow> count_list refs' x = count_list refs x"
    and s': "s' = drop_block (Some (control_block c)) (drop_block (Some (controlPayloadBlock k))
      (destroy_control c j (store_control c k' s)))"
  shows "payload_inv refs' s'" and "r \<in> set refs' \<Longrightarrow> PayloadRef_Bytes (Some r) s' = PayloadRef_Bytes (Some r) s"
    and "live_block (poolManager s') b \<longleftrightarrow>
      live_block (poolManager s) b \<and> b \<noteq> controlPayloadBlock k \<and> b \<noteq> control_block c"
proof -
  note inv = payload_invD [OF assms(1)]
  note ok = inv(4) [OF assms(2), unfolded control_ok_def]
  obtain m1 st1 where r1: "Block_Reset (Some (controlPayloadBlock k)) (poolManager s) = (st1, m1)" by fastforce
  note d1 = Block_Reset_live [OF inv(1) _ r1]
  have live1: "live_block (poolManager s) (controlPayloadBlock k)" "live_block (poolManager s) (control_block c)"
    using ok by blast+
  have ne1: "control_block c \<noteq> controlPayloadBlock k" using ok by (cases "controlPayloadBlock k") auto
  have live2: "live_block m1 (control_block c)" using d1(3) [OF live1(1)] live1(2) ne1 by blast
  obtain m2 st2 where r2: "Block_Reset (Some (control_block c)) m1 = (st2, m2)" by fastforce
  note d2 = Block_Reset_live [OF d1(2) [OF live1(1)] live2 r2]
  let ?s1 = "store_control c k' s"
  have fields: "poolManager s' = m2" "controlBlocks s' = (controlBlocks s)(c := None)" "controlLayout s' = controlLayout s"
    "memoryBytes s' = memoryBytes (destroy_control c j ?s1)"
    by (simp_all add: s' r1 r2)
  have live: "live_block m2 b \<longleftrightarrow>
      live_block (poolManager s) b \<and> b \<noteq> controlPayloadBlock k \<and> b \<noteq> control_block c" for b
    using d2(3) d1(3) [OF live1(1)] by blast
  then show "live_block (poolManager s') b \<longleftrightarrow>
      live_block (poolManager s) b \<and> b \<noteq> controlPayloadBlock k \<and> b \<noteq> control_block c" by (simp add: fields)
  have cap: "Block_Capacity m2 b = Block_Capacity (poolManager s) b" for b
    using d2(5) d1(5) [OF live1(1)] by simp
  have mem: "read_bytes (memoryBytes s') (blockData b) n = read_bytes (memoryBytes s) (blockData b) n"
    if "live_block (poolManager s) b" "b \<noteq> control_block c" "n \<le> unat (Block_Capacity (poolManager s) (Some b))" for b n
    using write_control_kept(1) [OF inv(1,6) live1(2) that, of k'] write_control_kept(2) [of ?s1 c b n j]
      inv(1,6) live1(2) that unfolding fields(4) by simp
  have other: "control_ok refs' s' x d \<and>
      read_bytes (memoryBytes s') (blockData (controlPayloadBlock d)) (controlLength d) =
      read_bytes (memoryBytes s) (blockData (controlPayloadBlock d)) (controlLength d)"
    if d: "controlBlocks s x = Some d" "x \<noteq> c" for x d
  proof -
    note okd = inv(4) [OF d(1), unfolded control_ok_def]
    have ne: "controlPayloadBlock d \<noteq> controlPayloadBlock k" "controlPayloadBlock d \<noteq> control_block c"
      "control_block x \<noteq> controlPayloadBlock k" "control_block x \<noteq> control_block c"
      using inv(5) [OF d(2,1) assms(2)] okd ok d(2) by (cases "controlPayloadBlock d"; cases "controlPayloadBlock k"; auto)+
    have fit: "length (control_image (controlLayout s) d) \<le> unat (Block_Capacity (poolManager s) (Some (control_block x)))"
      unfolding control_image_def using okd by (intro control_fits_live [OF inv(6)]) blast
    have "read_bytes (memoryBytes s') x (length (control_image (controlLayout s) d)) = control_image (controlLayout s) d"
      using mem [of "control_block x"] okd ne(4) fit by simp
    moreover have "read_bytes (memoryBytes s') (blockData (controlPayloadBlock d)) (controlLength d) =
        read_bytes (memoryBytes s) (blockData (controlPayloadBlock d)) (controlLength d)"
      using okd ne(2) by (intro mem) auto
    ultimately show ?thesis
      using okd ne live cap assms(6) [OF d(2)] by (simp add: control_ok_def fields)
  qed
  show "PayloadRef_Bytes (Some r) s' = PayloadRef_Bytes (Some r) s" if "r \<in> set refs'"
  proof -
    have r: "r \<in> set refs" "r \<noteq> c" using that assms(4,5) by auto
    then obtain d where "controlBlocks s r = Some d" using inv(3) [of r] by blast
    then show ?thesis using other [of r d] r(2) by (simp add: PayloadRef_Bytes_def fields)
  qed
  have "controlPayloadBlock k1 \<noteq> controlPayloadBlock k2"
    if "c1 \<noteq> c2" "controlBlocks s' c1 = Some k1" "controlBlocks s' c2 = Some k2" for c1 c2 k1 k2
    using that inv(5) [OF that(1)] fields by (auto split: if_splits)
  moreover have "controlBlocks s' x \<noteq> None \<longleftrightarrow> x \<in> set refs'" for x
    using inv(3) [of x] fields assms(4,5) by auto
  moreover have "control_ok refs' s' x d" if "controlBlocks s' x = Some d" for x d
    using that other [of x d] by (auto simp: fields split: if_splits)
  moreover have "control_fits (controlLayout s') (poolManager s')"
    using inv(6) d1(6) [OF live1(1)] d2(6) fields by simp
  ultimately show "payload_inv refs' s'" using d2(2) assms(3) fields by (intro payload_invI) simp_all
qed

text \<open>
  Dropping a reference: while others remain the count goes down and nothing moves; the last one
  returns the payload's block and the control block to their pools.
\<close>

lemma Reset_step:
  assumes "payload_inv refs s" "i < length refs" "c = refs ! i"
    and "PayloadRef_Reset (Some c) s = (ref, s')"
    and refs': "refs' = take i refs @ drop (Suc i) refs"
  shows "payload_inv refs' s'" and "r \<in> set refs' \<Longrightarrow> PayloadRef_Bytes (Some r) s' = PayloadRef_Bytes (Some r) s"
    and "controlBlocks s c = Some k \<Longrightarrow> live_block (poolManager s') b \<longleftrightarrow>
      live_block (poolManager s) b \<and> (c \<in> set refs' \<or> b \<noteq> controlPayloadBlock k \<and> b \<noteq> control_block c)"
proof -
  note inv = payload_invD [OF assms(1)]
  have refs: "refs = take i refs @ c # drop (Suc i) refs"
    using assms(2,3) id_take_nth_drop by blast
  have c: "c \<in> set refs" using assms(2,3) by simp
  obtain k where k: "controlBlocks s c = Some k" using inv(3) c by blast
  note ok = inv(4) [OF k, unfolded control_ok_def]
  have count: "count_list refs x = count_list refs' x + (if x = c then 1 else 0)" for x
    by (subst refs) (simp add: refs')
  have set': "set refs = insert c (set refs')" by (subst refs) (auto simp: refs')
  have len': "length refs' < 2 ^ 64" using inv(2) assms(2) by (simp add: refs')
  have cnt64: "count_list refs c < 2 ^ 64" using count_list_le [of refs c] inv(2) by simp
  then have unat_count: "unat (refCount k) = count_list refs c"
    using ok by (simp add: unat_of_nat take_bit_nat_eq_self)
  have all: "payload_inv refs' s' \<and>
    (\<forall>r \<in> set refs'. PayloadRef_Bytes (Some r) s' = PayloadRef_Bytes (Some r) s) \<and>
    (\<forall>b. live_block (poolManager s') b \<longleftrightarrow>
      live_block (poolManager s) b \<and> (c \<in> set refs' \<or> b \<noteq> controlPayloadBlock k \<and> b \<noteq> control_block c))"
  proof (cases "refCount k = 1")
    case False
    then have s': "s' = store_control c (k\<lparr>refCount := refCount k - 1\<rparr>) s"
      using assms(4) k by (simp add: PayloadRef_Reset_def ReleaseRef_def Let_def)
    have "count_list refs c \<noteq> 1" using False ok by auto
    then have c': "c \<in> set refs'" using count [of c] count_list_0_iff [of refs' c] by fastforce
    then have same: "set refs' = set refs" using set' by auto
    have k': "k\<lparr>refCount := refCount k - 1\<rparr> = k\<lparr>refCount := of_nat (count_list refs' c)\<rparr>"
      using ok count [of c] by simp
    have others: "x \<noteq> c \<Longrightarrow> count_list refs' x = count_list refs x" for x using count [of x] by simp
    note step = store_control_step [OF assms(1) k k' len' same others]
    show ?thesis using step c' unfolding s' by simp
  next
    case True
    then have "count_list refs c = 1" using unat_count by simp
    then have "count_list refs' c = 0" using count [of c] by simp
    then have c': "c \<notin> set refs'" by (simp add: count_list_0_iff)
    have s': "s' = drop_block (Some (control_block c)) (drop_block (Some (controlPayloadBlock k))
        (destroy_control c (k\<lparr>refCount := refCount k - 1\<rparr>) (store_control c (k\<lparr>refCount := refCount k - 1\<rparr>) s)))"
      using assms(4) k True by (simp add: PayloadRef_Reset_def ReleaseRef_def ReleaseLastRef_def Let_def)
    have others: "x \<noteq> c \<Longrightarrow> count_list refs' x = count_list refs x" for x using count [of x] by simp
    show ?thesis using destroy_step [OF assms(1) k len' c' set' others s'] c' by blast
  qed
  then show "payload_inv refs' s'" and "r \<in> set refs' \<Longrightarrow> PayloadRef_Bytes (Some r) s' = PayloadRef_Bytes (Some r) s"
    by blast+
  show "live_block (poolManager s') b \<longleftrightarrow>
      live_block (poolManager s) b \<and> (c \<in> set refs' \<or> b \<noteq> controlPayloadBlock k \<and> b \<noteq> control_block c)"
    if "controlBlocks s c = Some k" for k b
    using all that k by simp
qed

section \<open>Creation of the manager\<close>

text \<open>
  Allocators that keep their contract and whose regions are disjoint for different pools give a
  manager that satisfies the invariant.
\<close>

definition mallocs_contract :: "(nat \<Rightarrow> u64 \<Rightarrow> u64 \<Rightarrow> u64) \<Rightarrow> bool" where
  "mallocs_contract mallocs \<longleftrightarrow> (\<forall>i. malloc_contract (mallocs i)) \<and>
     (\<forall>i j m a n b. i \<noteq> j \<longrightarrow> mallocs i m a \<noteq> 0 \<longrightarrow> mallocs j n b \<noteq> 0 \<longrightarrow>
        {unat (mallocs i m a) ..< unat (mallocs i m a) + unat m} \<inter>
        {unat (mallocs j n b) ..< unat (mallocs j n b) + unat n} = {})"

definition pool_from :: "(u64 \<Rightarrow> u64 \<Rightarrow> u64) \<Rightarrow> NrMemoryPool \<Rightarrow> bool" where
  "pool_from malloc pool \<longleftrightarrow> storageBase pool \<noteq> 0 \<and>
     (\<exists>align. storageBase pool = malloc (storageSize pool) align)"

lemma Create_pool_from:
  assumes "NrMemoryPool_Create malloc poolFits vectorsFit config = Inr pool"
  shows "pool_from malloc pool"
  using assms
  by (auto simp: NrMemoryPool_Create_def InitializeStorage_def Let_def pool_from_def
      split: if_splits option.splits)

definition pools_created :: "(nat \<Rightarrow> u64 \<Rightarrow> u64 \<Rightarrow> u64) \<Rightarrow> NrMemoryPoolManager \<Rightarrow> bool" where
  "pools_created mallocs m \<longleftrightarrow> length m = NrMemoryPoolRoleCount \<and>
     (\<forall>i < length m. \<forall>pool. m ! i = Some pool \<longrightarrow>
        pool_inv pool \<and> pool_from (mallocs i) pool \<and> outstanding pool = {})"

lemma CreatePools_created:
  assumes "mallocs_contract mallocs" "pools_created mallocs pools"
    and "CreatePools mallocs poolFits vectorsFit configs pools hasPool = Inr (m, hasPool')"
  shows "pools_created mallocs m"
  using assms(2,3)
proof (induction configs arbitrary: pools hasPool)
  case (Cons entry configs)
  obtain role config where entry: "entry = (role, config)" by fastforce
  show ?case
  proof (cases "role = NrMemoryPoolRole.Count")
    case False
    then have idx: "TryGetPoolIndex role = Some (role_index role)" by (simp add: TryGetPoolIndex_def)
    obtain pool where create: "NrMemoryPool_Create (mallocs (role_index role)) (poolFits (role_index role))
          (vectorsFit (role_index role)) config = Inr pool"
      and more: "CreatePools mallocs poolFits vectorsFit configs (pools[role_index role := Some pool]) True = Inr (m, hasPool')"
      using Cons.prems(2) False idx entry by (auto split: if_splits sum.splits)
    have "malloc_contract (mallocs (role_index role))" using assms(1) by (simp add: mallocs_contract_def)
    note inv = Create_inv [OF this create]
    have "outstanding pool = {}" using inv by (auto simp: outstanding_def)
    then have "pools_created mallocs (pools[role_index role := Some pool])"
      using Cons.prems(1) inv(1) Create_pool_from [OF create] False
      by (auto simp: pools_created_def nth_list_update split: if_splits)
    from Cons.IH [OF this more] show ?thesis .
  qed (use Cons entry in auto)
qed auto

lemma pools_created_manager_inv:
  assumes "mallocs_contract mallocs" "pools_created mallocs m"
  shows "manager_inv m" and "\<not> live_block m b"
proof -
  have pool: "role_index role < length m" "m ! role_index role = Some pool" "pool_inv pool"
    "pool_from (mallocs (role_index role)) pool" "outstanding pool = {}"
    if "ResolvePool m role = Some pool" for role pool
  proof -
    show i: "role_index role < length m" "m ! role_index role = Some pool"
      using that assms(2)
      by (auto simp: ResolvePool_def TryGetPoolIndex_def pools_created_def split: if_splits)
    then show "pool_inv pool" "pool_from (mallocs (role_index role)) pool" "outstanding pool = {}"
      using assms(2) unfolding pools_created_def by blast+
  qed
  have "storage_range p \<inter> storage_range p' = {}"
    if ne: "r \<noteq> r'" and p: "ResolvePool m r = Some p" "ResolvePool m r' = Some p'" for r r' p p'
  proof -
    have "role_index r \<noteq> role_index r'" using ne by simp
    then show ?thesis
      using assms(1) pool(4) [OF p(1)] pool(4) [OF p(2)]
      unfolding mallocs_contract_def pool_from_def storage_range_def by metis
  qed
  then show "manager_inv m"
    using pool(3) assms(2) by (auto simp: manager_inv_def pools_created_def)
  show "\<not> live_block m b" using pool(5) by (auto simp: live_block_def)
qed

lemma NrMemoryPoolManager_Create_inv:
  assumes "mallocs_contract mallocs"
    and "NrMemoryPoolManager_Create mallocs poolFits vectorsFit managerFits configs = Inr m"
  shows "manager_inv m" and "\<not> live_block m b"
proof -
  obtain hasPool where "CreatePools mallocs poolFits vectorsFit configs
      (replicate NrMemoryPoolRoleCount None) False = Inr (m, hasPool)"
    using assms(2) by (auto simp: NrMemoryPoolManager_Create_def split: sum.splits prod.splits if_splits)
  moreover have "pools_created mallocs (replicate NrMemoryPoolRoleCount None)"
    by (simp add: pools_created_def)
  ultimately have "pools_created mallocs m" using CreatePools_created [OF assms(1)] by blast
  then show "manager_inv m" and "\<not> live_block m b" using pools_created_manager_inv [OF assms(1)] by blast+
qed

text \<open>Every pool has a configuration that was given for its role, so the control blocks fit.\<close>

lemma Create_poolConfig: "NrMemoryPool_Create malloc poolFits vectorsFit config = Inr pool \<Longrightarrow> poolConfig pool = config"
  by (auto simp: NrMemoryPool_Create_def NrMemoryPool_construct_def InitializeStorage_def Let_def split: if_splits option.splits)

lemma CreatePools_configs:
  assumes "CreatePools mallocs poolFits vectorsFit configs pools hasPool = Inr (m, hasPool')"
    and "length pools = NrMemoryPoolRoleCount"
    and "\<And>role pool. ResolvePool pools role = Some pool \<Longrightarrow> (role, poolConfig pool) \<in> given"
    and "ResolvePool m role = Some pool"
  shows "(role, poolConfig pool) \<in> given \<union> set configs"
  using assms
proof (induction configs arbitrary: pools hasPool given)
  case (Cons entry configs)
  obtain r config where entry: "entry = (r, config)" by fastforce
  show ?case
  proof (cases "r = NrMemoryPoolRole.Count")
    case True
    then show ?thesis using Cons.IH [of pools hasPool given] Cons.prems entry by auto
  next
    case False
    then have idx: "TryGetPoolIndex r = Some (role_index r)" by (simp add: TryGetPoolIndex_def)
    obtain new where create: "NrMemoryPool_Create (mallocs (role_index r)) (poolFits (role_index r))
          (vectorsFit (role_index r)) config = Inr new"
      and more: "CreatePools mallocs poolFits vectorsFit configs (pools[role_index r := Some new]) True = Inr (m, hasPool')"
      using Cons.prems(1) False idx entry by (auto split: if_splits sum.splits)
    have "(role', poolConfig pool') \<in> insert entry given"
      if "ResolvePool (pools[role_index r := Some new]) role' = Some pool'" for role' pool'
      using that Cons.prems(2,3) False entry Create_poolConfig [OF create] by (auto split: if_splits)
    then show ?thesis using Cons.IH [OF more, of "insert entry given"] Cons.prems(2,4) by auto
  qed
qed simp

lemma NrMemoryPoolManager_Create_fits:
  assumes "NrMemoryPoolManager_Create mallocs poolFits vectorsFit managerFits configs = Inr m"
    and "\<And>count n b. length (layout count n b) \<le> 64"
    and "\<And>config. (PayloadRefControl, config) \<in> set configs \<Longrightarrow> 64 \<le> unat (blockSize config)"
  shows "control_fits layout m"
proof -
  obtain hasPool where c: "CreatePools mallocs poolFits vectorsFit configs
      (replicate NrMemoryPoolRoleCount None) False = Inr (m, hasPool)"
    using assms(1) by (auto simp: NrMemoryPoolManager_Create_def split: sum.splits prod.splits if_splits)
  have none: "ResolvePool (replicate NrMemoryPoolRoleCount None) role = None" for role :: NrMemoryPoolRole
    by (auto simp: ResolvePool_def TryGetPoolIndex_def)
  have "(PayloadRefControl, poolConfig pool) \<in> {} \<union> set configs" if "ResolvePool m PayloadRefControl = Some pool" for pool
    by (rule CreatePools_configs [OF c _ _ that]) (simp_all add: none)
  then have "64 \<le> unat (blockSize (poolConfig pool))" if "ResolvePool m PayloadRefControl = Some pool" for pool
    using assms(3) that by simp
  then show ?thesis using assms(2) unfolding control_fits_def by (meson order_trans)
qed

section \<open>Histories of references\<close>

text \<open>
  One operation of a program on its references: create a payload from bytes or from a packet, share
  the reference at a position of the list, or drop it.
\<close>

datatype payload_op = CreateRef "byte list" | CreateFramed u16 "byte list" | ShareRef nat | DropRef nat

fun payload_step :: "NrByteOrder \<Rightarrow> payload_op \<Rightarrow> u64 list \<times> NrPayloadStore \<Rightarrow> u64 list \<times> NrPayloadStore" where
  "payload_step native (CreateRef bytes) (refs, s) =
     (case CreatePayloadRefFrom bytes s of
        (Inr (Some c), s) \<Rightarrow> (c # refs, s) | (_, s) \<Rightarrow> (refs, s))"
| "payload_step native (CreateFramed ptype payload) (refs, s) =
     (case CreateFramedPayloadRef native ptype payload s of
        (Inr (Some c), s) \<Rightarrow> (c # refs, s) | (_, s) \<Rightarrow> (refs, s))"
| "payload_step native (ShareRef i) (refs, s) =
     (if i < length refs then
        (case PayloadRef_Share (Some (refs ! i)) s of
           (Some c, s) \<Rightarrow> (c # refs, s) | (None, s) \<Rightarrow> (refs, s))
      else (refs, s))"
| "payload_step native (DropRef i) (refs, s) =
     (if i < length refs then
        (take i refs @ drop (Suc i) refs, snd (PayloadRef_Reset (Some (refs ! i)) s))
      else (refs, s))"

lemma published_step:
  assumes "published refs s bytes result s'" "payload_inv refs s"
    and "step = (case (result, s') of (Inr (Some c), s) \<Rightarrow> (c # refs, s) | (_, s) \<Rightarrow> (refs, s))"
  shows "payload_inv (fst step) (snd step)"
    and "c \<in> set refs \<Longrightarrow> PayloadRef_Bytes (Some c) (snd step) = PayloadRef_Bytes (Some c) s"
  using assms by (auto simp: published_def split: sum.splits option.splits)

lemma payload_step_ok:
  assumes "payload_inv refs s" "length refs + 1 < 2 ^ 64"
  shows "payload_inv (fst (payload_step native op (refs, s))) (snd (payload_step native op (refs, s)))"
    and "c \<in> set refs \<Longrightarrow> c \<in> set (fst (payload_step native op (refs, s))) \<Longrightarrow>
      PayloadRef_Bytes (Some c) (snd (payload_step native op (refs, s))) = PayloadRef_Bytes (Some c) s"
proof -
  have "payload_inv (fst (payload_step native op (refs, s))) (snd (payload_step native op (refs, s))) \<and>
    (\<forall>c \<in> set refs. c \<in> set (fst (payload_step native op (refs, s))) \<longrightarrow>
      PayloadRef_Bytes (Some c) (snd (payload_step native op (refs, s))) = PayloadRef_Bytes (Some c) s)"
  proof (cases op)
    case (CreateRef bytes)
    obtain result s' where c: "CreatePayloadRefFrom bytes s = (result, s')" by fastforce
    show ?thesis
    proof (cases "bytes = []")
      case True
      then show ?thesis using assms(1) by (simp add: CreateRef CreatePayloadRefFrom_def)
    next
      case False
      note pub = CreatePayloadRefFrom_published [OF assms False c]
      show ?thesis using published_step [OF pub assms(1) refl] by (simp add: CreateRef c)
    qed
  next
    case (CreateFramed ptype payload)
    obtain result s' where c: "CreateFramedPayloadRef native ptype payload s = (result, s')" by fastforce
    note pub = CreateFramedPayloadRef_published [OF assms c]
    show ?thesis using published_step [OF pub assms(1) refl] by (simp add: CreateFramed c)
  next
    case (ShareRef i)
    show ?thesis
    proof (cases "i < length refs")
      case True
      obtain ref s' where c: "PayloadRef_Share (Some (refs ! i)) s = (ref, s')" by fastforce
      have mem: "refs ! i \<in> set refs" using True by simp
      show ?thesis using Share_step [OF assms mem c] True by (simp add: ShareRef c)
    qed (use assms(1) in \<open>simp add: ShareRef\<close>)
  next
    case (DropRef i)
    show ?thesis
    proof (cases "i < length refs")
      case True
      obtain ref s' where c: "PayloadRef_Reset (Some (refs ! i)) s = (ref, s')" by fastforce
      show ?thesis using Reset_step(1,2) [OF assms(1) True refl c refl] True by (simp add: DropRef c)
    qed (use assms(1) in \<open>simp add: DropRef\<close>)
  qed
  then show "payload_inv (fst (payload_step native op (refs, s))) (snd (payload_step native op (refs, s)))"
    and "c \<in> set refs \<Longrightarrow> c \<in> set (fst (payload_step native op (refs, s))) \<Longrightarrow>
      PayloadRef_Bytes (Some c) (snd (payload_step native op (refs, s))) = PayloadRef_Bytes (Some c) s"
    by blast+
qed

lemma payload_inv_empty:
  "manager_inv (poolManager s) \<Longrightarrow> control_fits (controlLayout s) (poolManager s) \<Longrightarrow>
    controlBlocks s = (\<lambda>c. None) \<Longrightarrow> payload_inv [] s"
  by (simp add: payload_inv_def)

fun payload_run :: "NrByteOrder \<Rightarrow> payload_op list \<Rightarrow> u64 list \<times> NrPayloadStore \<Rightarrow> u64 list \<times> NrPayloadStore" where
  "payload_run native [] st = st"
| "payload_run native (op # ops) st = payload_run native ops (payload_step native op st)"

lemma length_payload_step: "length (fst (payload_step native op st)) \<le> Suc (length (fst st))"
  by (cases st; cases op)
    (auto split: prod.splits sum.splits option.splits)

lemma payload_run_inv:
  assumes "payload_inv (fst st) (snd st)" "length (fst st) + length ops + 1 < 2 ^ 64"
  shows "payload_inv (fst (payload_run native ops st)) (snd (payload_run native ops st)) \<and>
    length (fst (payload_run native ops st)) \<le> length (fst st) + length ops"
  using assms
proof (induction ops arbitrary: st)
  case (Cons op ops)
  have len: "length (fst (payload_step native op st)) \<le> Suc (length (fst st))"
    by (rule length_payload_step)
  moreover have "payload_inv (fst (payload_step native op st)) (snd (payload_step native op st))"
    using payload_step_ok(1) [of "fst st" "snd st" native op] Cons.prems by simp
  ultimately show ?case using Cons.IH [of "payload_step native op st"] Cons.prems(2) by simp
qed simp

section \<open>Properties\<close>

text \<open>A manager with one pool for small payloads and one for their control blocks.\<close>

definition sample_mallocs :: "nat \<Rightarrow> u64 \<Rightarrow> u64 \<Rightarrow> u64" where
  "sample_mallocs i bytes align =
     (if i < 16 \<and> bytes \<le> 4096 \<and> align = 16 then 65536 * of_nat (i + 1) else 0)"

definition sample_configs :: "(NrMemoryPoolRole \<times> NrMemoryPoolConfig) list" where
  "sample_configs =
     [(Payload64, \<lparr>blockSize = 64, blockCount = 2, alignment = 16\<rparr>),
      (PayloadRefControl, \<lparr>blockSize = 64, blockCount = 2, alignment = 16\<rparr>)]"

definition sample_manager :: NrMemoryPoolManager where
  "sample_manager =
     (case NrMemoryPoolManager_Create sample_mallocs (\<lambda>i. True) (\<lambda>i. True) True sample_configs of
        Inr m \<Rightarrow> m | Inl e \<Rightarrow> [])"

text \<open>A layout of control blocks: the count, the length and the address of the payload, low bytes first.\<close>

definition sample_word_bytes :: "u64 \<Rightarrow> byte list" where
  "sample_word_bytes w = map (\<lambda>i. ucast (drop_bit (8 * i) w)) [0..<8]"

definition sample_layout :: control_layout where
  "sample_layout count n b = sample_word_bytes count @ sample_word_bytes (of_nat n) @
     sample_word_bytes (case b of None \<Rightarrow> 0 | Some x \<Rightarrow> blockData x)"

definition sample_store :: NrPayloadStore where
  "sample_store = \<lparr>poolManager = sample_manager, memoryBytes = (\<lambda>x. 0), controlBlocks = (\<lambda>c. None),
     controlLayout = sample_layout\<rparr>"

lemma unat_sample_base:
  assumes "i < 16"
  shows "unat (65536 * of_nat (i + 1) :: u64) = 65536 * (i + 1)"
proof -
  have "of_nat (65536 * (i + 1)) = (65536 * of_nat (i + 1) :: u64)" by simp
  moreover have "unat (of_nat (65536 * (i + 1)) :: u64) = 65536 * (i + 1)"
    using assms by (simp only: unat_of_nat) (simp add: take_bit_nat_eq_self)
  ultimately show ?thesis by simp
qed

lemma sample_mallocs_range:
  assumes "sample_mallocs i m a \<noteq> 0"
  shows "unat (sample_mallocs i m a) = 65536 * (i + 1)" "unat m \<le> 4096" "a = 16" "i < 16"
  using assms unat_sample_base [of i]
  by (auto simp: sample_mallocs_def word_le_nat_alt split: if_splits)

lemma sample_mallocs_contract: "mallocs_contract sample_mallocs"
  unfolding mallocs_contract_def
proof (intro conjI allI impI)
  fix i
  show "malloc_contract (sample_mallocs i)"
    unfolding malloc_contract_def
  proof (intro allI impI conjI)
    fix bytes align assume nz: "sample_mallocs i bytes align \<noteq> 0"
    note r = sample_mallocs_range [OF nz]
    show "unat (sample_mallocs i bytes align) + unat bytes \<le> 2 ^ 64" using r by simp
    show "unat align dvd unat (sample_mallocs i bytes align)" using r(3) unfolding r(1) by simp
  qed
next
  fix i j m a n b
  assume ne: "i \<noteq> j" and i: "sample_mallocs i m a \<noteq> 0" and j: "sample_mallocs j n b \<noteq> 0"
  then have "i < j \<or> j < i" by linarith
  then show "{unat (sample_mallocs i m a) ..< unat (sample_mallocs i m a) + unat m} \<inter>
      {unat (sample_mallocs j n b) ..< unat (sample_mallocs j n b) + unat n} = {}"
    using sample_mallocs_range(1,2) [OF i] sample_mallocs_range(1,2) [OF j] by auto
qed

lemma sample_manager_Create:
  "NrMemoryPoolManager_Create sample_mallocs (\<lambda>i. True) (\<lambda>i. True) True sample_configs = Inr sample_manager"
  by code_simp

lemma sample_layout_fits: "length (sample_layout count n b) \<le> 64"
  by (simp add: sample_layout_def sample_word_bytes_def)

lemma sample_configs_fit: "(PayloadRefControl, config) \<in> set sample_configs \<Longrightarrow> 64 \<le> unat (blockSize config)"
  by (simp add: sample_configs_def)

lemma sample_store_inv: "payload_inv [] sample_store"
  using NrMemoryPoolManager_Create_inv(1) [OF sample_mallocs_contract sample_manager_Create]
    NrMemoryPoolManager_Create_fits [OF sample_manager_Create sample_layout_fits sample_configs_fit]
  by (intro payload_inv_empty) (simp_all add: sample_store_def)

lemma sample_created:
  obtains c s where "CreateFramedPayloadRef LittleEndian 7 [1, 2, 3] sample_store = (Inr (Some c), s)"
proof -
  have "case fst (CreateFramedPayloadRef LittleEndian 7 [1, 2, 3] sample_store) of
      Inr (Some c) \<Rightarrow> True | _ \<Rightarrow> False"
    by code_simp
  then show ?thesis using that
    by (cases "CreateFramedPayloadRef LittleEndian 7 [1, 2, 3] sample_store")
      (auto split: sum.splits option.splits)
qed

text \<open>
  Property C33. A packet framed for sending is what the receiver parses: the reference made by
  \<^verbatim>\<open>CreateFramedPayloadRef\<close> holds exactly one valid frame, which a peer of either byte order parses
  to the packet type and the payload given. A payload that does not fit into the largest frame is
  refused.
\<close>

theorem framed_payload_parses:
  assumes "payload_inv refs s" "length refs + 1 < 2 ^ 64"
    and "CreateFramedPayloadRef native ptype payload s = (result, s')"
  shows "case result of
      Inr (Some c) \<Rightarrow>
        (\<exists>h. NrPacketParser_Parse other NrPacketParserConfig_default (PayloadRef_Bytes (Some c) s') =
          (NrStatus_Success, \<lparr>parseStatus = Complete, protocolErrorReason = NoReason, parsedHeader = h,
             packetBytes = PayloadRef_Bytes (Some c) s'\<rparr>) \<and>
          packetType h = ptype) \<and>
        drop NrPacketHeaderLength (PayloadRef_Bytes (Some c) s') = payload
    | Inr None \<Rightarrow> False
    | Inl status \<Rightarrow>
        (length payload > NrMaxPacketLength - NrPacketHeaderLength \<longrightarrow>
           status = NrStatus_Failure NrErrorCode.CapacityExceeded \<and> s' = s)"
proof -
  note pub = CreateFramedPayloadRef_published [OF assms]
  show ?thesis
  proof (cases result)
    case (Inl status)
    then show ?thesis
      using assms(3) by (auto simp: CreateFramedPayloadRef_def split: if_splits)
  next
    case (Inr ref)
    then obtain c where c: "ref = Some c" and bytes: "PayloadRef_Bytes (Some c) s' = frame (framed_header ptype payload) payload"
      using pub by (auto simp: published_def split: option.splits)
    have small: "NrPacketHeaderLength + length payload \<le> NrMaxPacketLength"
      using assms(3) Inr
      by (auto simp: CreateFramedPayloadRef_def NrPacketHeaderLength_def NrMaxPacketLength_def split: if_splits)
    then have "unat (of_nat (NrPacketHeaderLength + length payload) :: u16) = NrPacketHeaderLength + length payload"
      by (simp only: unat_of_nat) (simp add: NrMaxPacketLength_def take_bit_nat_eq_self)
    then have "valid_frame NrPacketParserConfig_default (framed_header ptype payload) payload"
      using small by (simp add: valid_frame_def header_error_def NrPacketParserConfig_default_def)
    from Parse_frame [OF this, of other "[]"] show ?thesis
      using Inr c bytes by (simp add: frame_def)
  qed
qed

theorem framed_payload_parses_witness:
  "\<exists>c s. CreateFramedPayloadRef LittleEndian 7 [1, 2, 3] sample_store = (Inr (Some c), s) \<and>
     drop NrPacketHeaderLength (PayloadRef_Bytes (Some c) s) = [1, 2, 3]"
proof -
  obtain c s where c: "CreateFramedPayloadRef LittleEndian 7 [1, 2, 3] sample_store = (Inr (Some c), s)"
    by (rule sample_created)
  from framed_payload_parses [OF sample_store_inv _ c] c show ?thesis by auto
qed

text \<open>
  Property C32. A payload never changes while it is referenced: from a created manager, whatever
  payloads the program creates, shares and drops, and for every further operation, a reference that
  survives the operation reads the same bytes after it, no matter how its memory and control blocks
  are reused; and every reference points to a control block that stands in memory as it was last
  written. Payload bytes and control blocks are written into one memory, so an overrun of either
  would show. The allocators are trusted to keep their regions apart, the representation of a control
  block is at most 64 bytes (the \<^verbatim>\<open>static_assert\<close> of \<^verbatim>\<open>NrPayloadRef.cpp\<close>), and the control pool is
  configured with blocks of at least 64 bytes, as the server and the client configure it: nothing in
  \<^verbatim>\<open>CreateFromOwnedBlock\<close> checks the size of the block it constructs the control block in.
\<close>

theorem payload_bytes_immutable:
  assumes "mallocs_contract mallocs"
    and "NrMemoryPoolManager_Create mallocs poolFits vectorsFit managerFits configs = Inr m"
    and "\<And>count n b. length (layout count n b) \<le> 64"
    and "\<And>config. (PayloadRefControl, config) \<in> set configs \<Longrightarrow> 64 \<le> unat (blockSize config)"
    and "length ops + 2 < 2 ^ 64"
    and "payload_run native ops ([], \<lparr>poolManager = m, memoryBytes = mem, controlBlocks = (\<lambda>c. None),
      controlLayout = layout\<rparr>) = (refs, s)"
    and "payload_step native op (refs, s) = (refs', s')"
  shows "payload_inv refs' s' \<and>
    (\<forall>c \<in> set refs \<inter> set refs'. PayloadRef_Bytes (Some c) s' = PayloadRef_Bytes (Some c) s) \<and>
    (\<forall>c \<in> set refs'. \<exists>k. controlBlocks s' c = Some k \<and>
       read_bytes (memoryBytes s') c (length (control_image (controlLayout s') k)) = control_image (controlLayout s') k)"
proof -
  let ?st = "([], \<lparr>poolManager = m, memoryBytes = mem, controlBlocks = (\<lambda>c. None), controlLayout = layout\<rparr>)
    :: u64 list \<times> NrPayloadStore"
  have "payload_inv (fst ?st) (snd ?st)"
    using NrMemoryPoolManager_Create_inv(1) [OF assms(1,2)] NrMemoryPoolManager_Create_fits [OF assms(2-4)]
      payload_inv_empty [of "snd ?st"] by simp
  then have "payload_inv refs s \<and> length refs \<le> length ops"
    using payload_run_inv [where st = ?st and ops = ops and native = native] assms(5,6) by simp
  then have step: "payload_inv refs' s' \<and>
      (\<forall>c \<in> set refs \<inter> set refs'. PayloadRef_Bytes (Some c) s' = PayloadRef_Bytes (Some c) s)"
    using payload_step_ok [where refs = refs and s = s and native = native and op = op] assms(5,7) by auto
  moreover have "\<exists>k. controlBlocks s' c = Some k \<and>
      read_bytes (memoryBytes s') c (length (control_image (controlLayout s') k)) = control_image (controlLayout s') k"
    if "c \<in> set refs'" for c
  proof -
    have "controlBlocks s' c \<noteq> None" using step payload_invD(3) [of refs' s' c] that by blast
    then obtain k where "controlBlocks s' c = Some k" by blast
    then show ?thesis using step payload_invD(4) [of refs' s' c k] by (simp add: control_ok_def)
  qed
  ultimately show ?thesis by blast
qed

theorem payload_bytes_immutable_witness:
  "\<exists>c s refs' s'. payload_run LittleEndian [CreateRef [5]] ([], sample_store) = ([c], s) \<and>
     payload_step LittleEndian (ShareRef 0) ([c], s) = (refs', s') \<and> refs' = [c, c] \<and>
     PayloadRef_Bytes (Some c) s' = PayloadRef_Bytes (Some c) s \<and> payload_inv refs' s'"
proof -
  let ?r = "payload_run LittleEndian [CreateRef [5]] ([], sample_store)"
  obtain c where c: "fst ?r = [c]"
  proof -
    have "length (fst ?r) = 1" by code_simp
    then show ?thesis using that by (cases "fst ?r") auto
  qed
  then have r: "?r = ([c], snd ?r)" by (metis prod.collapse)
  let ?step = "payload_step LittleEndian (ShareRef 0) ([c], snd ?r)"
  have refs': "fst ?step = [c, c]" by (simp add: PayloadRef_Share_def)
  have "payload_run LittleEndian [CreateRef [5]]
      ([], \<lparr>poolManager = sample_manager, memoryBytes = (\<lambda>x. 0), controlBlocks = (\<lambda>c. None), controlLayout = sample_layout\<rparr>) =
      ([c], snd ?r)"
    using r by (simp add: sample_store_def)
  from payload_bytes_immutable [OF sample_mallocs_contract sample_manager_Create sample_layout_fits sample_configs_fit _ this,
      of "ShareRef 0" "fst ?step" "snd ?step"]
  have "payload_inv (fst ?step) (snd ?step) \<and> PayloadRef_Bytes (Some c) (snd ?step) = PayloadRef_Bytes (Some c) (snd ?r)"
    using refs' by simp
  then show ?thesis using r refs' by (metis prod.collapse)
qed

text \<open>
  Property C38. Dropping a reference returns blocks to their pools exactly when it is the last one:
  then the payload's block and the control block stop being in use, and nothing else does; as
  long as another reference to the payload remains, every block stays in use.
\<close>

theorem last_reference_returns_blocks:
  assumes "payload_inv refs s" "i < length refs"
    and "controlBlocks s (refs ! i) = Some k"
    and "PayloadRef_Reset (Some (refs ! i)) s = (ref, s')"
  shows "{b. live_block (poolManager s') b} =
    (if refs ! i \<in> set (take i refs @ drop (Suc i) refs) then {b. live_block (poolManager s) b}
     else {b. live_block (poolManager s) b} - {controlPayloadBlock k, control_block (refs ! i)})"
  using Reset_step(3) [OF assms(1,2) refl assms(4) refl assms(3)] by auto

theorem last_reference_returns_blocks_witness:
  "\<exists>c s k. CreateFramedPayloadRef LittleEndian 7 [1, 2, 3] sample_store = (Inr (Some c), s) \<and>
     controlBlocks s c = Some k \<and>
     {b. live_block (poolManager (snd (PayloadRef_Reset (Some c) s))) b} =
       {b. live_block (poolManager s) b} - {controlPayloadBlock k, control_block c}"
proof -
  obtain c s where c: "CreateFramedPayloadRef LittleEndian 7 [1, 2, 3] sample_store = (Inr (Some c), s)"
    by (rule sample_created)
  then have inv: "payload_inv [c] s"
    using CreateFramedPayloadRef_published [OF sample_store_inv _ c] by (simp add: published_def)
  then obtain k where k: "controlBlocks s c = Some k"
    using payload_invD(3) [OF inv, of c] by auto
  obtain ref s' where r: "PayloadRef_Reset (Some c) s = (ref, s')" by fastforce
  have "{b. live_block (poolManager s') b} =
      {b. live_block (poolManager s) b} - {controlPayloadBlock k, control_block c}"
    using last_reference_returns_blocks [OF inv, of 0 k ref s'] k r by simp
  then show ?thesis using c k r by auto
qed

end
