(* ===== verification/NrQueue.thy ===== *)
theory NrQueue imports NrMemory begin

text \<open>
  The bounded multi-producer single-consumer queue of \<^verbatim>\<open>NrBoundedMpscQueue.h\<close>, executed by one
  thread at a time, and the actor mailbox of \<^verbatim>\<open>NrActorMailbox.h\<close> that wraps it. A ring of slots
  carries sequence numbers; the positions are 64-bit words that wrap around. The locale
  \<open>bounded_queue\<close> is the contract that the queue's clients rely on, \<open>spec_push\<close> and \<open>spec_pop\<close>
  its reference over lists; the ring is interpreted as a provider of the contract, for every
  pair of positions, also after a wrap-around.
\<close>

unbundle bit_operations_syntax

section \<open>The contract\<close>

text \<open>A bounded first-in first-out queue over lists.\<close>

definition spec_push :: "nat \<Rightarrow> 'a \<Rightarrow> 'a list \<Rightarrow> NrStatus \<times> 'a list" where
  "spec_push capacity v xs =
     (if length xs < capacity then (NrStatus_Success, xs @ [v])
      else (NrStatus_Failure NrErrorCode.QueueFull, xs))"

definition spec_pop :: "'a list \<Rightarrow> NrStatus \<times> 'a option \<times> 'a list" where
  "spec_pop xs =
     (case xs of [] \<Rightarrow> (NrStatus_Failure NrErrorCode.QueueEmpty, None, [])
      | x # rest \<Rightarrow> (NrStatus_Success, Some x, rest))"

text \<open>
  A provider implements the queue over a state of its own: its operations return, keep its
  invariant and its capacity, and act on the contents like the reference. \<open>None\<close> as the result of
  a push means that the call never returns.
\<close>

datatype 'a queue_op = Enqueue 'a | Dequeue

text \<open>A history of operations and what each reported, on a provider and on the reference.\<close>

fun run_ops ::
    "('a \<Rightarrow> 'q \<Rightarrow> (NrStatus \<times> 'q) option) \<Rightarrow> ('q \<Rightarrow> NrStatus \<times> 'a option \<times> 'q) \<Rightarrow>
     'a queue_op list \<Rightarrow> 'q \<Rightarrow> ((NrStatus \<times> 'a option) list \<times> 'q) option" where
  "run_ops push pop [] q = Some ([], q)"
| "run_ops push pop (Enqueue v # ops) q =
     (case push v q of None \<Rightarrow> None
      | Some (st, q') \<Rightarrow>
          (case run_ops push pop ops q' of None \<Rightarrow> None
           | Some (outs, q'') \<Rightarrow> Some ((st, None) # outs, q'')))"
| "run_ops push pop (Dequeue # ops) q =
     (case pop q of (st, out, q') \<Rightarrow>
          (case run_ops push pop ops q' of None \<Rightarrow> None
           | Some (outs, q'') \<Rightarrow> Some ((st, out) # outs, q'')))"

fun run_spec :: "nat \<Rightarrow> 'a queue_op list \<Rightarrow> 'a list \<Rightarrow> (NrStatus \<times> 'a option) list \<times> 'a list" where
  "run_spec capacity [] xs = ([], xs)"
| "run_spec capacity (Enqueue v # ops) xs =
     (case spec_push capacity v xs of (st, xs') \<Rightarrow>
        (case run_spec capacity ops xs' of (outs, xs'') \<Rightarrow> ((st, None) # outs, xs'')))"
| "run_spec capacity (Dequeue # ops) xs =
     (case spec_pop xs of (st, out, xs') \<Rightarrow>
        (case run_spec capacity ops xs' of (outs, xs'') \<Rightarrow> ((st, out) # outs, xs'')))"

locale bounded_queue =
  fixes push :: "'a \<Rightarrow> 'q \<Rightarrow> (NrStatus \<times> 'q) option"
    and pop :: "'q \<Rightarrow> NrStatus \<times> 'a option \<times> 'q"
    and contents :: "'q \<Rightarrow> 'a list"
    and capacity :: "'q \<Rightarrow> nat"
    and inv :: "'q \<Rightarrow> bool"
  assumes push_refines: "inv q \<Longrightarrow>
      \<exists>st q'. push v q = Some (st, q') \<and> inv q' \<and> capacity q' = capacity q \<and>
        spec_push (capacity q) v (contents q) = (st, contents q')"
    and pop_refines: "inv q \<Longrightarrow>
      \<exists>st out q'. pop q = (st, out, q') \<and> inv q' \<and> capacity q' = capacity q \<and>
        spec_pop (contents q) = (st, out, contents q')"
    and contents_bounded: "inv q \<Longrightarrow> length (contents q) \<le> capacity q"
begin

lemma run_refines:
  assumes "inv q"
  shows "\<exists>q'. run_ops push pop ops q = Some (fst (run_spec (capacity q) ops (contents q)), q') \<and>
    inv q' \<and> capacity q' = capacity q \<and> contents q' = snd (run_spec (capacity q) ops (contents q))"
  using assms
proof (induction ops arbitrary: q)
  case (Cons oper ops)
  show ?case
  proof (cases oper)
    case (Enqueue v)
    obtain st q1 where p: "push v q = Some (st, q1)" "inv q1" "capacity q1 = capacity q"
        "spec_push (capacity q) v (contents q) = (st, contents q1)"
      using push_refines [OF Cons.prems] by blast
    then show ?thesis
      using Cons.IH [OF p(2)] Enqueue by (auto split: prod.splits)
  next
    case Dequeue
    obtain st out q1 where p: "pop q = (st, out, q1)" "inv q1" "capacity q1 = capacity q"
        "spec_pop (contents q) = (st, out, contents q1)"
      using pop_refines [OF Cons.prems] by blast
    then show ?thesis
      using Cons.IH [OF p(2)] Dequeue by (auto split: prod.splits)
  qed
qed auto

end

section \<open>The ring\<close>

record 'a NrBoundedMpscQueueSlot =
  slotSequence :: u64
  slotItem :: "'a option"

record 'a NrBoundedMpscQueue =
  queueSlots :: "'a NrBoundedMpscQueueSlot list"
  queueCapacity :: u64
  capacityMask :: u64
  enqueuePos :: u64
  dequeuePos :: u64

definition NrCacheLineSize :: u64 where "NrCacheLineSize = 64"

text \<open>The size of a slot in bytes, a multiple of the cache line size, depends on the item type.\<close>

definition RequiredStorageBytes :: "u64 \<Rightarrow> u64 \<Rightarrow> u64 NrResult" where
  "RequiredStorageBytes slotBytes capacity =
     (if capacity < 2 \<or> \<not> NrIsPowerOfTwo capacity then Inl (NrStatus_Failure NrErrorCode.InvalidArgument)
      else case NrTryMultiply slotBytes capacity of
        None \<Rightarrow> Inl (NrStatus_Failure NrErrorCode.CapacityExceeded)
      | Some requiredBytes \<Rightarrow> Inr requiredBytes)"

definition InitializeSlots :: "u64 \<Rightarrow> 'a NrBoundedMpscQueueSlot list" where
  "InitializeSlots capacity =
     map (\<lambda>index. \<lparr>slotSequence = of_nat index, slotItem = None\<rparr>) [0..<unat capacity]"

text \<open>
  The acquired block is its address and its capacity in bytes; \<open>queueFits\<close> tells whether the queue
  object itself could be allocated.
\<close>

definition NrBoundedMpscQueue_Create ::
    "(u64 \<times> u64) NrResult \<Rightarrow> bool \<Rightarrow> u64 \<Rightarrow> u64 \<Rightarrow> 'a NrBoundedMpscQueue NrResult" where
  "NrBoundedMpscQueue_Create blockResult queueFits slotBytes capacity =
     (case RequiredStorageBytes slotBytes capacity of
        Inl status \<Rightarrow> Inl status
      | Inr requiredBytes \<Rightarrow>
          (case blockResult of
             Inl status \<Rightarrow> Inl status
           | Inr (blockAddress, blockBytes) \<Rightarrow>
               if blockAddress = 0 then Inl (NrStatus_Failure NrErrorCode.InvalidState)
               else if blockBytes < requiredBytes then Inl (NrStatus_Failure NrErrorCode.CapacityExceeded)
               else if \<not> NrIsAligned blockAddress NrCacheLineSize then
                 Inl (NrStatus_Failure NrErrorCode.InvalidState)
               else if \<not> queueFits then Inl (NrStatus_Failure NrErrorCode.OutOfMemory)
               else Inr \<lparr>queueSlots = InitializeSlots capacity, queueCapacity = capacity,
                         capacityMask = capacity - 1, enqueuePos = 0, dequeuePos = 0\<rparr>))"

definition SizeApprox :: "'a NrBoundedMpscQueue \<Rightarrow> u64" where
  "SizeApprox q = (if enqueuePos q \<ge> dequeuePos q then enqueuePos q - dequeuePos q else 0)"

definition SlotIndex :: "'a NrBoundedMpscQueue \<Rightarrow> u64 \<Rightarrow> nat" where
  "SlotIndex q pos = unat (pos AND capacityMask q)"

text \<open>
  With no other thread running, the compare-exchange of \<^verbatim>\<open>TryPush\<close> succeeds and the branch that
  reloads \<^verbatim>\<open>enqueuePos_\<close> would spin forever (\<open>None\<close>). The code casts both positions to a signed
  type and subtracts; here the subtraction wraps at 64 bits.  The two agree unless the signed
  subtraction overflows, which C++ leaves undefined and which takes about \<open>2 ^ 63\<close> pushes to reach.
\<close>

definition TryPush :: "'a \<Rightarrow> 'a NrBoundedMpscQueue \<Rightarrow> (NrStatus \<times> 'a NrBoundedMpscQueue) option" where
  "TryPush v q =
     (let pos = enqueuePos q;
          index = SlotIndex q pos;
          sequence = slotSequence (queueSlots q ! index);
          sequenceDiff = sint (sequence - pos) in
      if sequenceDiff = 0 then
        Some (NrStatus_Success,
          q\<lparr>enqueuePos := pos + 1,
            queueSlots := (queueSlots q)[index := \<lparr>slotSequence = pos + 1, slotItem = Some v\<rparr>]\<rparr>)
      else if sequenceDiff < 0 then Some (NrStatus_Failure NrErrorCode.QueueFull, q)
      else None)"

definition TryPop ::
    "'a NrBoundedMpscQueue \<Rightarrow> NrStatus \<times> 'a option \<times> 'a NrBoundedMpscQueue" where
  "TryPop q =
     (let pos = dequeuePos q;
          index = SlotIndex q pos;
          slot = queueSlots q ! index in
      if slotSequence slot \<noteq> pos + 1 then (NrStatus_Failure NrErrorCode.QueueEmpty, None, q)
      else
        (NrStatus_Success, slotItem slot,
         q\<lparr>queueSlots := (queueSlots q)[index := \<lparr>slotSequence = pos + queueCapacity q, slotItem = None\<rparr>],
           dequeuePos := pos + 1\<rparr>))"

section \<open>The actor mailbox\<close>

definition TryEnqueue :: "'a \<Rightarrow> 'a NrBoundedMpscQueue \<Rightarrow> (NrStatus \<times> 'a NrBoundedMpscQueue) option" where
  "TryEnqueue message mailbox = TryPush message mailbox"

definition TryDequeue ::
    "'a NrBoundedMpscQueue \<Rightarrow> NrStatus \<times> 'a option \<times> 'a NrBoundedMpscQueue" where
  "TryDequeue mailbox = TryPop mailbox"

section \<open>The ring implements the contract\<close>

definition ring_size :: "'a NrBoundedMpscQueue \<Rightarrow> nat" where
  "ring_size q = unat (enqueuePos q - dequeuePos q)"

abbreviation ring_slot :: "'a NrBoundedMpscQueue \<Rightarrow> nat \<Rightarrow> 'a NrBoundedMpscQueueSlot" where
  "ring_slot q i \<equiv> queueSlots q ! SlotIndex q (dequeuePos q + of_nat i)"

definition ring_contents :: "'a NrBoundedMpscQueue \<Rightarrow> 'a list" where
  "ring_contents q = map (\<lambda>i. the (slotItem (ring_slot q i))) [0..<ring_size q]"

definition ring_capacity :: "'a NrBoundedMpscQueue \<Rightarrow> nat" where
  "ring_capacity q = unat (queueCapacity q)"

definition ring_shape :: "'a NrBoundedMpscQueue \<Rightarrow> bool" where
  "ring_shape q \<longleftrightarrow> (\<exists>k. 1 \<le> k \<and> k \<le> 62 \<and> queueCapacity q = 2 ^ k) \<and>
     capacityMask q = queueCapacity q - 1 \<and> length (queueSlots q) = unat (queueCapacity q)"

definition ring_inv :: "'a NrBoundedMpscQueue \<Rightarrow> bool" where
  "ring_inv q \<longleftrightarrow> ring_shape q \<and> ring_size q \<le> ring_capacity q \<and>
     (\<forall>i < ring_capacity q.
        if i < ring_size q then
          slotSequence (ring_slot q i) = dequeuePos q + of_nat i + 1 \<and> slotItem (ring_slot q i) \<noteq> None
        else slotSequence (ring_slot q i) = dequeuePos q + of_nat i \<and> slotItem (ring_slot q i) = None)"

lemma ring_shapeE:
  assumes "ring_shape q"
  obtains k where "1 \<le> k" "k \<le> 62" "queueCapacity q = 2 ^ k" "capacityMask q = 2 ^ k - 1"
    "ring_capacity q = 2 ^ k" "length (queueSlots q) = 2 ^ k"
proof -
  obtain k where k: "1 \<le> k" "k \<le> 62" "queueCapacity q = 2 ^ k"
    using assms by (auto simp: ring_shape_def)
  have "(2 :: nat) ^ k < 2 ^ 64" using k(2) by (intro power_strict_increasing) simp_all
  then have "unat (of_nat (2 ^ k) :: u64) = 2 ^ k" by (simp only: unat_of_nat take_bit_nat_eq_self)
      (simp add: take_bit_nat_eq_self)
  then have "unat (queueCapacity q) = 2 ^ k" using k(3) by simp
  then show ?thesis using assms k by (intro that [of k]) (simp_all add: ring_shape_def ring_capacity_def)
qed

text \<open>Masking a position is reducing it modulo the capacity, across the wrap-around of the word.\<close>

lemma SlotIndex_offset:
  assumes "ring_shape q"
  shows "SlotIndex q (pos + of_nat i) = (unat pos + i) mod ring_capacity q"
proof -
  obtain k where k: "k \<le> 62" "capacityMask q = 2 ^ k - 1" "ring_capacity q = 2 ^ k"
    using assms by (rule ring_shapeE)
  have dvd: "(2 :: nat) ^ k dvd 2 ^ 64" using k(1) by (intro le_imp_power_dvd) simp
  have "unat (pos + of_nat i) = (unat pos + i) mod 2 ^ 64"
    by (simp add: unat_word_ariths unat_of_nat take_bit_eq_mod mod_simps)
  then have "unat (pos + of_nat i) mod 2 ^ k = (unat pos + i) mod 2 ^ k"
    using dvd by (simp only: mod_mod_cancel)
  moreover have "SlotIndex q (pos + of_nat i) = take_bit k (unat (pos + of_nat i))"
    using k(2) by (simp only: SlotIndex_def mask_eq_exp_minus_1 [symmetric] take_bit_eq_mask [symmetric]
        unsigned_take_bit_eq)
  ultimately show ?thesis by (simp only: take_bit_eq_mod k(3))
qed

lemma SlotIndex_inj:
  assumes "ring_shape q" "i < ring_capacity q" "j < ring_capacity q"
  shows "SlotIndex q (pos + of_nat i) = SlotIndex q (pos + of_nat j) \<longleftrightarrow> i = j"
  using assms by (simp add: SlotIndex_offset)

lemma SlotIndex_less:
  assumes "ring_shape q"
  shows "SlotIndex q pos < length (queueSlots q)"
proof -
  obtain k where "length (queueSlots q) = 2 ^ k" "ring_capacity q = 2 ^ k"
    using assms by (rule ring_shapeE)
  then show ?thesis using SlotIndex_offset [OF assms, of pos 0] by simp
qed

lemma enqueuePos_offset: "enqueuePos q = dequeuePos q + of_nat (ring_size q)"
  by (simp add: ring_size_def)

lemma unat_of_nat_small: "n < 2 ^ 64 \<Longrightarrow> unat (of_nat n :: u64) = n"
  by (simp add: unat_of_nat take_bit_nat_eq_self)

lemma ring_capacity_bounds:
  assumes "ring_shape q"
  shows "2 \<le> ring_capacity q" "ring_capacity q \<le> 2 ^ 62" "of_nat (ring_capacity q) = queueCapacity q"
proof -
  obtain k where k: "1 \<le> k" "k \<le> 62" "queueCapacity q = 2 ^ k" "ring_capacity q = 2 ^ k"
    using assms by (rule ring_shapeE)
  have "(2 :: nat) ^ 1 \<le> 2 ^ k" "(2 :: nat) ^ k \<le> 2 ^ 62"
    using k by (intro power_increasing; simp)+
  then show "2 \<le> ring_capacity q" "ring_capacity q \<le> 2 ^ 62" using k(4) by simp_all
  show "of_nat (ring_capacity q) = queueCapacity q" using k by simp
qed

text \<open>The sign of the sequence difference at a full ring.\<close>

lemma sint_full_ring:
  assumes "ring_shape q"
  shows "sint (pos + 1 - (pos + queueCapacity q)) < 0"
proof -
  obtain k where k: "1 \<le> k" "k \<le> 62" "queueCapacity q = 2 ^ k"
    using assms by (rule ring_shapeE)
  have up: "(2 :: int) ^ k \<le> 2 ^ 62" and low: "(2 :: int) ^ 1 \<le> 2 ^ k"
    using k by (intro power_increasing; simp)+
  have "pos + 1 - (pos + queueCapacity q) = word_of_int (1 - 2 ^ k)" using k(3) by simp
  then have "sint (pos + 1 - (pos + queueCapacity q)) = signed_take_bit 63 (1 - 2 ^ k)"
    by (simp only: signed_of_int) simp
  also have "\<dots> = 1 - 2 ^ k" using up low by (intro signed_take_bit_int_eq_self) simp_all
  finally show ?thesis using low by simp
qed

lemma ring_slot_update:
  assumes "ring_shape q" "n < ring_capacity q" "i < ring_capacity q"
    and "dequeuePos q' = dequeuePos q" "capacityMask q' = capacityMask q"
    and "queueSlots q' = (queueSlots q)[SlotIndex q (dequeuePos q + of_nat n) := s]"
  shows "ring_slot q' i = (if i = n then s else ring_slot q i)"
proof -
  have "SlotIndex q' = SlotIndex q" using assms(5) by (simp add: SlotIndex_def fun_eq_iff)
  then show ?thesis
    using assms SlotIndex_less [OF assms(1)] SlotIndex_inj [OF assms(1-3)] by (auto simp: nth_list_update)
qed

lemma TryPush_room:
  assumes "ring_inv q" "ring_size q < ring_capacity q"
  obtains q' where "TryPush v q = Some (NrStatus_Success, q')" "ring_inv q'"
    "ring_capacity q' = ring_capacity q" "ring_contents q' = ring_contents q @ [v]"
proof -
  let ?n = "ring_size q" and ?cap = "ring_capacity q"
  have shape: "ring_shape q" using assms(1) by (simp add: ring_inv_def)
  let ?i = "SlotIndex q (enqueuePos q)"
  let ?q = "q\<lparr>enqueuePos := enqueuePos q + 1,
      queueSlots := (queueSlots q)[?i := \<lparr>slotSequence = enqueuePos q + 1, slotItem = Some v\<rparr>]\<rparr>"
  have "slotSequence (queueSlots q ! ?i) = enqueuePos q"
    using assms by (simp add: ring_inv_def enqueuePos_offset)
  then have push: "TryPush v q = Some (NrStatus_Success, ?q)" by (simp add: TryPush_def Let_def)
  have cap: "ring_capacity ?q = ?cap" by (simp add: ring_capacity_def)
  have "?n + 1 < 2 ^ 64" using assms(2) ring_capacity_bounds(2) [OF shape] by simp
  then have sz: "ring_size ?q = ?n + 1"
  proof -
    have e: "enqueuePos ?q - dequeuePos ?q = of_nat (?n + 1)"
      using enqueuePos_offset [of q] by simp
    show ?thesis
      unfolding ring_size_def [of ?q] e using \<open>?n + 1 < 2 ^ 64\<close> by (rule unat_of_nat_small)
  qed
  have slot: "ring_slot ?q i = (if i = ?n then \<lparr>slotSequence = enqueuePos q + 1, slotItem = Some v\<rparr>
      else ring_slot q i)" if "i < ?cap" for i
    using ring_slot_update [OF shape assms(2) that, of ?q] by (simp add: enqueuePos_offset)
  have shape': "ring_shape ?q" using shape by (simp add: ring_shape_def)
  have "ring_inv ?q" unfolding ring_inv_def
  proof (intro conjI allI impI)
    fix i assume i: "i < ring_capacity ?q"
    have "dequeuePos ?q = dequeuePos q" by simp
    with i show "if i < ring_size ?q then
          slotSequence (ring_slot ?q i) = dequeuePos ?q + of_nat i + 1 \<and> slotItem (ring_slot ?q i) \<noteq> None
        else slotSequence (ring_slot ?q i) = dequeuePos ?q + of_nat i \<and> slotItem (ring_slot ?q i) = None"
      unfolding sz cap slot [OF i [unfolded cap]]
      using assms(1) by (auto simp: ring_inv_def enqueuePos_offset split: if_splits)
  qed (use shape' sz cap assms(2) in simp_all)
  moreover have "ring_contents ?q = ring_contents q @ [v]"
  proof -
    have "map (\<lambda>i. the (slotItem (ring_slot ?q i))) [0..<?n] = ring_contents q"
      unfolding ring_contents_def using slot assms(2) by (intro map_cong) auto
    moreover have "the (slotItem (ring_slot ?q ?n)) = v" using slot [OF assms(2)] by simp
    ultimately show ?thesis unfolding ring_contents_def [of ?q] sz by simp
  qed
  ultimately show ?thesis using push cap that by blast
qed

lemma TryPush_full:
  assumes "ring_inv q" "\<not> ring_size q < ring_capacity q"
  shows "TryPush v q = Some (NrStatus_Failure NrErrorCode.QueueFull, q)"
proof -
  have shape: "ring_shape q" and n: "ring_size q = ring_capacity q"
    using assms by (simp_all add: ring_inv_def)
  note cap = ring_capacity_bounds [OF shape]
  have "SlotIndex q (enqueuePos q) = SlotIndex q (dequeuePos q + of_nat 0)"
    unfolding enqueuePos_offset n SlotIndex_offset [OF shape] by simp
  then have "slotSequence (queueSlots q ! SlotIndex q (enqueuePos q)) = dequeuePos q + 1"
    using assms(1) n cap(1) unfolding ring_inv_def by (auto dest!: spec [of _ 0])
  moreover have "enqueuePos q = dequeuePos q + queueCapacity q"
    unfolding enqueuePos_offset n cap(3) ..
  ultimately show ?thesis
    using sint_full_ring [OF shape, of "dequeuePos q"] by (simp add: TryPush_def Let_def)
qed

lemma TryPop_empty:
  assumes "ring_inv q" "ring_size q = 0"
  shows "TryPop q = (NrStatus_Failure NrErrorCode.QueueEmpty, None, q)"
proof -
  have shape: "ring_shape q" using assms(1) by (simp add: ring_inv_def)
  note cap = ring_capacity_bounds [OF shape]
  have "slotSequence (queueSlots q ! SlotIndex q (dequeuePos q)) = dequeuePos q"
    using assms cap(1) unfolding ring_inv_def by (auto dest!: spec [of _ 0])
  then show ?thesis by (simp add: TryPop_def Let_def)
qed

lemma TryPop_item:
  assumes "ring_inv q" "ring_size q \<noteq> 0"
  obtains v q' where "TryPop q = (NrStatus_Success, Some v, q')" "ring_inv q'"
    "ring_capacity q' = ring_capacity q" "ring_contents q = v # ring_contents q'"
proof -
  let ?n = "ring_size q" and ?cap = "ring_capacity q" and ?d = "dequeuePos q"
  have shape: "ring_shape q" and le: "?n \<le> ?cap" using assms(1) by (simp_all add: ring_inv_def)
  note cap = ring_capacity_bounds [OF shape]
  let ?s = "\<lparr>slotSequence = ?d + queueCapacity q, slotItem = None :: 'a option\<rparr>"
  let ?q = "q\<lparr>queueSlots := (queueSlots q)[SlotIndex q ?d := ?s], dequeuePos := ?d + 1\<rparr>"
  obtain v where head: "slotSequence (queueSlots q ! SlotIndex q ?d) = ?d + 1"
      "slotItem (queueSlots q ! SlotIndex q ?d) = Some v"
    using assms cap(1) unfolding ring_inv_def by (auto dest!: spec [of _ 0])
  then have pop: "TryPop q = (NrStatus_Success, Some v, ?q)" by (simp add: TryPop_def Let_def)
  have cap': "ring_capacity ?q = ?cap" by (simp add: ring_capacity_def)
  have shape': "ring_shape ?q" using shape by (simp add: ring_shape_def)
  have sz: "ring_size ?q = ?n - 1"
  proof -
    have e: "enqueuePos ?q - dequeuePos ?q = of_nat (?n - 1)"
      using enqueuePos_offset [of q] assms(2) by (simp add: of_nat_diff)
    have "?n - 1 < 2 ^ 64" using le cap(2) by simp
    then show ?thesis unfolding ring_size_def [of ?q] e by (rule unat_of_nat_small)
  qed
  have slot: "ring_slot ?q i = (if i + 1 = ?cap then ?s else ring_slot q (i + 1))" if i: "i < ?cap" for i
  proof -
    have same: "SlotIndex ?q = SlotIndex q" by (simp add: SlotIndex_def fun_eq_iff)
    have idx: "SlotIndex ?q (dequeuePos ?q + of_nat i) = SlotIndex q (?d + of_nat (i + 1))"
      unfolding same by (simp add: algebra_simps)
    have zero: "SlotIndex q ?d = SlotIndex q (?d + of_nat 0)" by simp
    show ?thesis
    proof (cases "i + 1 = ?cap")
      case True
      have eq: "SlotIndex q (?d + of_nat (i + 1)) = SlotIndex q ?d"
        unfolding zero SlotIndex_offset [OF shape] True by simp
      show ?thesis unfolding idx eq using True SlotIndex_less [OF shape] by simp
    next
      case False
      then have "SlotIndex q (?d + of_nat (i + 1)) \<noteq> SlotIndex q ?d"
        unfolding zero using SlotIndex_inj [OF shape, of "i + 1" 0] i by simp
      then show ?thesis using False idx by simp
    qed
  qed
  have "ring_inv ?q" unfolding ring_inv_def
  proof (intro conjI allI impI)
    fix i assume i: "i < ring_capacity ?q"
    have old: "if i + 1 < ?n then
          slotSequence (ring_slot q (i + 1)) = ?d + of_nat (i + 1) + 1 \<and> slotItem (ring_slot q (i + 1)) \<noteq> None
        else slotSequence (ring_slot q (i + 1)) = ?d + of_nat (i + 1) \<and> slotItem (ring_slot q (i + 1)) = None"
      if "i + 1 \<noteq> ?cap"
      using assms(1) i that unfolding ring_inv_def cap' by (auto dest!: spec [of _ "i + 1"])
    have last: "?d + queueCapacity q = ?d + 1 + of_nat i" if "i + 1 = ?cap"
      using cap(3) that by (metis add.assoc add.commute of_nat_Suc Suc_eq_plus1)
    have "dequeuePos ?q = ?d + 1" by simp
    then show "if i < ring_size ?q then
          slotSequence (ring_slot ?q i) = dequeuePos ?q + of_nat i + 1 \<and> slotItem (ring_slot ?q i) \<noteq> None
        else slotSequence (ring_slot ?q i) = dequeuePos ?q + of_nat i \<and> slotItem (ring_slot ?q i) = None"
      unfolding sz slot [OF i [unfolded cap']]
      using old last le assms(2) by (cases "i + 1 = ?cap") (auto simp: algebra_simps split: if_splits)
  qed (use shape' sz cap' le in simp_all)
  moreover have "ring_contents q = v # ring_contents ?q"
  proof -
    have "[0..<?n] = 0 # map Suc [0..<?n - 1]"
      using assms(2) unfolding map_Suc_upt by (simp add: upt_conv_Cons del: upt_Suc)
    then have "ring_contents q = v # map (\<lambda>i. the (slotItem (ring_slot q (i + 1)))) [0..<?n - 1]"
      using head(2) by (simp add: ring_contents_def comp_def)
    also have "map (\<lambda>i. the (slotItem (ring_slot q (i + 1)))) [0..<?n - 1] = ring_contents ?q"
      unfolding ring_contents_def [of ?q] sz using slot le by (intro map_cong) auto
    finally show ?thesis .
  qed
  ultimately show ?thesis using pop cap' that by blast
qed

interpretation ring: bounded_queue TryPush TryPop ring_contents ring_capacity ring_inv
proof
  fix v :: 'a and q :: "'a NrBoundedMpscQueue"
  assume inv: "ring_inv q"
  show "length (ring_contents q) \<le> ring_capacity q"
    using inv by (simp add: ring_contents_def ring_inv_def)
  show "\<exists>st q'. TryPush v q = Some (st, q') \<and> ring_inv q' \<and> ring_capacity q' = ring_capacity q \<and>
      spec_push (ring_capacity q) v (ring_contents q) = (st, ring_contents q')"
  proof (cases "ring_size q < ring_capacity q")
    case True
    show ?thesis
      by (rule TryPush_room [OF inv True, of v]) (use True in \<open>simp add: spec_push_def ring_contents_def [of q]\<close>)
  next
    case False
    then show ?thesis using TryPush_full [OF inv False] inv by (simp add: spec_push_def ring_contents_def)
  qed
  show "\<exists>st out q'. TryPop q = (st, out, q') \<and> ring_inv q' \<and> ring_capacity q' = ring_capacity q \<and>
      spec_pop (ring_contents q) = (st, out, ring_contents q')"
  proof (cases "ring_size q = 0")
    case True
    then show ?thesis using TryPop_empty [OF inv True] inv by (simp add: spec_pop_def ring_contents_def)
  next
    case False
    show ?thesis by (rule TryPop_item [OF inv False]) (simp add: spec_pop_def)
  qed
qed

lemma Create_ring:
  assumes "NrBoundedMpscQueue_Create blockResult queueFits slotBytes capacity = Inr q"
    and "64 \<le> slotBytes"
  shows "ring_inv q" "ring_capacity q = unat capacity" "ring_contents q = []"
proof -
  have pow: "NrIsPowerOfTwo capacity" "2 \<le> capacity"
    and fits: "NrTryMultiply slotBytes capacity \<noteq> None"
    and q: "q = \<lparr>queueSlots = InitializeSlots capacity, queueCapacity = capacity,
      capacityMask = capacity - 1, enqueuePos = 0, dequeuePos = 0\<rparr>"
    using assms(1)
    by (auto simp: NrBoundedMpscQueue_Create_def RequiredStorageBytes_def
        split: sum.splits option.splits if_splits)
  obtain k where k: "capacity = 2 ^ k" "unat capacity = 2 ^ k"
    using pow(1) by (rule NrIsPowerOfTwo_power)
  have "1 \<le> k" using pow(2) k by (cases k) (auto simp: word_le_nat_alt)
  have "unat slotBytes * unat capacity < 2 ^ 64" using fits by (auto simp: NrTryMultiply_Some_iff)
  moreover have "64 \<le> unat slotBytes" using assms(2) by (simp add: word_le_nat_alt)
  ultimately have "64 * (2 :: nat) ^ k < 2 ^ 64"
    using k(2) by (metis le_less_trans mult_le_mono1)
  then have "(2 :: nat) ^ (k + 6) < 2 ^ 64" by (simp add: power_add)
  then have "k + 6 < 64" by (rule power_less_imp_less_exp [rotated]) simp
  then have "k \<le> 62" by simp
  have shape: "ring_shape q"
    using \<open>1 \<le> k\<close> \<open>k \<le> 62\<close> k(1) by (auto simp: q ring_shape_def InitializeSlots_def)
  show cap: "ring_capacity q = unat capacity" by (simp add: q ring_capacity_def)
  have "ring_slot q i = \<lparr>slotSequence = of_nat i, slotItem = None\<rparr>" if "i < ring_capacity q" for i
  proof -
    have "SlotIndex q (dequeuePos q + of_nat i) = i"
      unfolding SlotIndex_offset [OF shape] using that by (simp add: q)
    then show ?thesis using that unfolding cap by (simp add: q InitializeSlots_def)
  qed
  then show "ring_inv q" using shape by (simp add: ring_inv_def ring_size_def) (simp add: q)
  show "ring_contents q = []" by (simp add: ring_contents_def ring_size_def) (simp add: q)
qed

section \<open>Properties\<close>

text \<open>
  Property C18. The ring is a bounded first-in first-out queue. After a successful creation, every
  history of pushes and pops returns, reports operation by operation exactly what the reference
  queue over lists reports (success, full, empty, and the items in order), and holds the same
  items at the end. The invariant is over the wrapped 64-bit positions, so this also holds across
  the wrap-around of the positions.
\<close>

theorem queue_refines_fifo:
  assumes "NrBoundedMpscQueue_Create blockResult queueFits slotBytes capacity = Inr q"
    and "64 \<le> slotBytes"
  shows "\<exists>q'. run_ops TryPush TryPop ops q = Some (fst (run_spec (unat capacity) ops []), q') \<and>
    ring_contents q' = snd (run_spec (unat capacity) ops [])"
  using ring.run_refines [OF Create_ring(1) [OF assms], of ops] Create_ring(2,3) [OF assms] by auto

theorem queue_refines_fifo_witness:
  "\<exists>q q'. NrBoundedMpscQueue_Create (Inr (65536, 1024)) True 64 2 = Inr q \<and>
     run_ops TryPush TryPop [Enqueue (1 :: nat), Enqueue 2, Enqueue 3, Dequeue, Enqueue 4, Dequeue] q =
       Some ([(NrStatus_Success, None), (NrStatus_Success, None),
         (NrStatus_Failure NrErrorCode.QueueFull, None), (NrStatus_Success, Some 1),
         (NrStatus_Success, None), (NrStatus_Success, Some 2)], q')"
proof -
  let ?ops = "[Enqueue (1 :: nat), Enqueue 2, Enqueue 3, Dequeue, Enqueue 4, Dequeue]"
  have "\<not> isl (NrBoundedMpscQueue_Create (Inr (65536, 1024)) True 64 2 :: nat NrBoundedMpscQueue NrResult)"
    by code_simp
  then obtain q :: "nat NrBoundedMpscQueue"
    where q: "NrBoundedMpscQueue_Create (Inr (65536, 1024)) True 64 2 = Inr q"
    by (cases "NrBoundedMpscQueue_Create (Inr (65536, 1024)) True 64 2 :: nat NrBoundedMpscQueue NrResult")
      simp_all
  have "fst (run_spec 2 ?ops []) = [(NrStatus_Success, None), (NrStatus_Success, None),
         (NrStatus_Failure NrErrorCode.QueueFull, None), (NrStatus_Success, Some 1),
         (NrStatus_Success, None), (NrStatus_Success, Some 2)]"
    by (simp add: spec_push_def spec_pop_def)
  then show ?thesis
    using queue_refines_fifo [OF q, of ?ops] q by auto
qed

text \<open>
  Across the wrap-around of its positions the ring still accepts exactly when it has
  room and loses nothing: from every state of the invariant a push returns, is refused exactly at
  a full ring and otherwise appends, and a pop removes the head.
\<close>

theorem queue_step_exact:
  assumes "ring_inv q"
  shows "(\<exists>q'. TryPush v q =
      (if length (ring_contents q) < ring_capacity q then Some (NrStatus_Success, q')
       else Some (NrStatus_Failure NrErrorCode.QueueFull, q)) \<and>
      (length (ring_contents q) < ring_capacity q \<longrightarrow>
        ring_inv q' \<and> ring_contents q' = ring_contents q @ [v])) \<and>
    (\<exists>q'. TryPop q =
      (case ring_contents q of [] \<Rightarrow> (NrStatus_Failure NrErrorCode.QueueEmpty, None, q)
       | x # rest \<Rightarrow> (NrStatus_Success, Some x, q')) \<and>
      (ring_contents q \<noteq> [] \<longrightarrow> ring_inv q' \<and> ring_contents q' = tl (ring_contents q)))"
proof
  have len: "length (ring_contents q) = ring_size q" by (simp add: ring_contents_def)
  show "\<exists>q'. TryPush v q =
      (if length (ring_contents q) < ring_capacity q then Some (NrStatus_Success, q')
       else Some (NrStatus_Failure NrErrorCode.QueueFull, q)) \<and>
      (length (ring_contents q) < ring_capacity q \<longrightarrow>
        ring_inv q' \<and> ring_contents q' = ring_contents q @ [v])"
  proof (cases "ring_size q < ring_capacity q")
    case True
    show ?thesis
      by (rule TryPush_room [OF assms True, of v]) (use True len in auto)
  qed (simp add: len TryPush_full [OF assms])
  show "\<exists>q'. TryPop q =
      (case ring_contents q of [] \<Rightarrow> (NrStatus_Failure NrErrorCode.QueueEmpty, None, q)
       | x # rest \<Rightarrow> (NrStatus_Success, Some x, q')) \<and>
      (ring_contents q \<noteq> [] \<longrightarrow> ring_inv q' \<and> ring_contents q' = tl (ring_contents q))"
  proof (cases "ring_size q = 0")
    case True
    then show ?thesis using TryPop_empty [OF assms True] len by simp
  next
    case False
    show ?thesis by (rule TryPop_item [OF assms False]) auto
  qed
qed

text \<open>A ring of two slots that holds one item and whose positions are about to wrap around.\<close>

definition wrapping_ring :: "nat NrBoundedMpscQueue" where
  "wrapping_ring =
     \<lparr>queueSlots = [\<lparr>slotSequence = 0, slotItem = None\<rparr>, \<lparr>slotSequence = 0, slotItem = Some 7\<rparr>],
      queueCapacity = 2, capacityMask = 1, enqueuePos = 0, dequeuePos = - 1\<rparr>"

theorem queue_step_exact_witness: "\<exists>q'. TryPop wrapping_ring = (NrStatus_Success, Some 7, q') \<and> ring_contents q' = []"
proof -
  have sz: "ring_size wrapping_ring = 1" "ring_capacity wrapping_ring = 2"
    by (simp_all add: ring_size_def ring_capacity_def wrapping_ring_def)
  have slots: "ring_slot wrapping_ring 0 = \<lparr>slotSequence = 0, slotItem = Some 7\<rparr>"
      "ring_slot wrapping_ring 1 = \<lparr>slotSequence = 0, slotItem = None\<rparr>"
    by (simp_all add: SlotIndex_def wrapping_ring_def)
  have "\<exists>k. 1 \<le> k \<and> k \<le> 62 \<and> (2 :: u64) = 2 ^ k" by (rule exI [of _ 1]) simp
  then have "ring_shape wrapping_ring"
    unfolding ring_shape_def by (simp add: wrapping_ring_def)
  moreover have "dequeuePos wrapping_ring = - 1" by (simp add: wrapping_ring_def)
  ultimately have "ring_inv wrapping_ring"
    using slots unfolding ring_inv_def sz by (auto dest!: less_2_cases)
  moreover have "ring_contents wrapping_ring = [7]"
    using slots by (simp add: ring_contents_def sz)
  ultimately show ?thesis using queue_step_exact [of wrapping_ring 0] by auto
qed

end
