(* ===== verification/NrMetrics.thy ===== *)
theory NrMetrics imports NrPrelude begin

text \<open>
  The server's metrics (\<^verbatim>\<open>NrServerPressureTypes.h\<close>, \<^verbatim>\<open>NrServerMetrics.h/.cpp\<close>): saturating event
  counters and the gauges of pending IO and of the send backlog. Each operation is one atomic
  update; the compare-exchange loops retry until their own update is applied, so an execution is a
  sequence of these updates. \<open>metricsAssertFailed\<close> records that an \<^verbatim>\<open>assert\<close> of the code was false.
\<close>

section \<open>Outcomes\<close>

datatype NrPressureTransactionOutcome =
    ToWorldPacketAdmissionRejected
  | ToWorldLifecyclePublicationDeferred
  | ActorAdmissionMailboxRejected
  | ActorAdmissionReadyCapacityRejected
  | SendAdmissionRejected
  | ReceivePressureCloseCommitted
  | SendPressureCloseCommitted
  | SendResourceAcquireFailed
  | NativeSendPostFailed
  | OutcomeCount

fun outcome_index :: "NrPressureTransactionOutcome \<Rightarrow> nat" where
  "outcome_index ToWorldPacketAdmissionRejected = 0"
| "outcome_index ToWorldLifecyclePublicationDeferred = 1"
| "outcome_index ActorAdmissionMailboxRejected = 2"
| "outcome_index ActorAdmissionReadyCapacityRejected = 3"
| "outcome_index SendAdmissionRejected = 4"
| "outcome_index ReceivePressureCloseCommitted = 5"
| "outcome_index SendPressureCloseCommitted = 6"
| "outcome_index SendResourceAcquireFailed = 7"
| "outcome_index NativeSendPostFailed = 8"
| "outcome_index OutcomeCount = 9"

definition NrPressureTransactionOutcomeCount :: nat where "NrPressureTransactionOutcomeCount = 9"

definition IsKnownPressureTransactionOutcome :: "NrPressureTransactionOutcome \<Rightarrow> bool" where
  "IsKnownPressureTransactionOutcome outcome \<longleftrightarrow> outcome_index outcome < NrPressureTransactionOutcomeCount"

section \<open>Metrics\<close>

record NrServerMetrics =
  pressureTransactionCounters :: "u64 list"
  metricPendingRecvIo :: u64
  metricPendingSendIo :: u64
  sendMailboxDepth :: u64
  sendMailboxHighWatermark :: u64
  pendingSendQueueDepth :: u64
  pendingSendQueueHighWatermark :: u64
  metricsAssertFailed :: bool

definition NrServerMetrics_default :: NrServerMetrics where
  "NrServerMetrics_default =
     \<lparr>pressureTransactionCounters = replicate NrPressureTransactionOutcomeCount 0,
      metricPendingRecvIo = 0, metricPendingSendIo = 0, sendMailboxDepth = 0,
      sendMailboxHighWatermark = 0, pendingSendQueueDepth = 0, pendingSendQueueHighWatermark = 0,
      metricsAssertFailed = False\<rparr>"

definition NrSaturatingCounter_Increment :: "u64 \<Rightarrow> u64" where
  "NrSaturatingCounter_Increment observed = (if observed \<noteq> - 1 then observed + 1 else observed)"

definition Metrics_Record :: "NrPressureTransactionOutcome \<Rightarrow> NrServerMetrics \<Rightarrow> NrServerMetrics" where
  "Metrics_Record outcome m =
     (if \<not> IsKnownPressureTransactionOutcome outcome then m\<lparr>metricsAssertFailed := True\<rparr>
      else
        let i = outcome_index outcome; counters = pressureTransactionCounters m in
        m\<lparr>pressureTransactionCounters := counters[i := NrSaturatingCounter_Increment (counters ! i)]\<rparr>)"

text \<open>
  \<^verbatim>\<open>DecrementPendingIo\<close> and \<^verbatim>\<open>DecrementDepth\<close> are the same loop: the gauge after it, and whether it
  reached the assertion at its end.
\<close>

definition DecrementPendingIo :: "u64 \<Rightarrow> u64 \<times> bool" where
  "DecrementPendingIo count = (if count \<noteq> 0 then (count - 1, False) else (count, True))"

definition DecrementDepth :: "u64 \<Rightarrow> u64 \<times> bool" where
  "DecrementDepth depth = (if depth \<noteq> 0 then (depth - 1, False) else (depth, True))"

definition UpdateHighWatermark :: "u64 \<Rightarrow> u64 \<Rightarrow> u64" where
  "UpdateHighWatermark highWatermark observedDepth =
     (if highWatermark < observedDepth then observedDepth else highWatermark)"

definition Metrics_RecordPendingRecvIoStarted :: "NrServerMetrics \<Rightarrow> NrServerMetrics" where
  "Metrics_RecordPendingRecvIoStarted m = m\<lparr>metricPendingRecvIo := metricPendingRecvIo m + 1\<rparr>"

definition Metrics_RecordPendingRecvIoCompleted :: "NrServerMetrics \<Rightarrow> NrServerMetrics" where
  "Metrics_RecordPendingRecvIoCompleted m =
     (case DecrementPendingIo (metricPendingRecvIo m) of (count, failed) \<Rightarrow>
        m\<lparr>metricPendingRecvIo := count, metricsAssertFailed := metricsAssertFailed m \<or> failed\<rparr>)"

definition Metrics_RecordPendingSendIoStarted :: "NrServerMetrics \<Rightarrow> NrServerMetrics" where
  "Metrics_RecordPendingSendIoStarted m = m\<lparr>metricPendingSendIo := metricPendingSendIo m + 1\<rparr>"

definition Metrics_RecordPendingSendIoCompleted :: "NrServerMetrics \<Rightarrow> NrServerMetrics" where
  "Metrics_RecordPendingSendIoCompleted m =
     (case DecrementPendingIo (metricPendingSendIo m) of (count, failed) \<Rightarrow>
        m\<lparr>metricPendingSendIo := count, metricsAssertFailed := metricsAssertFailed m \<or> failed\<rparr>)"

definition BeginSendMailboxEnqueue :: "NrServerMetrics \<Rightarrow> u64 \<times> NrServerMetrics" where
  "BeginSendMailboxEnqueue m = (sendMailboxDepth m + 1, m\<lparr>sendMailboxDepth := sendMailboxDepth m + 1\<rparr>)"

definition CommitSendMailboxEnqueue :: "u64 \<Rightarrow> NrServerMetrics \<Rightarrow> NrServerMetrics" where
  "CommitSendMailboxEnqueue admittedDepth m =
     m\<lparr>sendMailboxHighWatermark := UpdateHighWatermark (sendMailboxHighWatermark m) admittedDepth\<rparr>"

definition CancelSendMailboxEnqueue :: "NrServerMetrics \<Rightarrow> NrServerMetrics" where
  "CancelSendMailboxEnqueue m =
     (case DecrementDepth (sendMailboxDepth m) of (depth, failed) \<Rightarrow>
        m\<lparr>sendMailboxDepth := depth, metricsAssertFailed := metricsAssertFailed m \<or> failed\<rparr>)"

definition RecordSendMailboxDequeued :: "NrServerMetrics \<Rightarrow> NrServerMetrics" where
  "RecordSendMailboxDequeued m =
     (case DecrementDepth (sendMailboxDepth m) of (depth, failed) \<Rightarrow>
        m\<lparr>sendMailboxDepth := depth, metricsAssertFailed := metricsAssertFailed m \<or> failed\<rparr>)"

definition RecordPendingSendQueued :: "NrServerMetrics \<Rightarrow> NrServerMetrics" where
  "RecordPendingSendQueued m =
     (let depth = pendingSendQueueDepth m + 1 in
      m\<lparr>pendingSendQueueDepth := depth,
        pendingSendQueueHighWatermark := UpdateHighWatermark (pendingSendQueueHighWatermark m) depth\<rparr>)"

definition RecordPendingSendDequeued :: "NrServerMetrics \<Rightarrow> NrServerMetrics" where
  "RecordPendingSendDequeued m =
     (case DecrementDepth (pendingSendQueueDepth m) of (depth, failed) \<Rightarrow>
        m\<lparr>pendingSendQueueDepth := depth, metricsAssertFailed := metricsAssertFailed m \<or> failed\<rparr>)"

section \<open>Effects on the gauges\<close>

named_theorems metrics_simps \<open>effect of the metric operations on the gauges\<close>

lemma metrics_gauges [metrics_simps]:
  "metricPendingRecvIo (Metrics_RecordPendingRecvIoStarted m) = metricPendingRecvIo m + 1"
  "metricPendingSendIo (Metrics_RecordPendingRecvIoStarted m) = metricPendingSendIo m"
  "pendingSendQueueDepth (Metrics_RecordPendingRecvIoStarted m) = pendingSendQueueDepth m"
  "sendMailboxDepth (Metrics_RecordPendingRecvIoStarted m) = sendMailboxDepth m"
  "metricPendingSendIo (Metrics_RecordPendingSendIoStarted m) = metricPendingSendIo m + 1"
  "metricPendingRecvIo (Metrics_RecordPendingSendIoStarted m) = metricPendingRecvIo m"
  "pendingSendQueueDepth (Metrics_RecordPendingSendIoStarted m) = pendingSendQueueDepth m"
  "sendMailboxDepth (Metrics_RecordPendingSendIoStarted m) = sendMailboxDepth m"
  "metricPendingRecvIo (Metrics_RecordPendingRecvIoCompleted m) =
    (if metricPendingRecvIo m = 0 then 0 else metricPendingRecvIo m - 1)"
  "metricPendingSendIo (Metrics_RecordPendingRecvIoCompleted m) = metricPendingSendIo m"
  "pendingSendQueueDepth (Metrics_RecordPendingRecvIoCompleted m) = pendingSendQueueDepth m"
  "sendMailboxDepth (Metrics_RecordPendingRecvIoCompleted m) = sendMailboxDepth m"
  "metricPendingSendIo (Metrics_RecordPendingSendIoCompleted m) =
    (if metricPendingSendIo m = 0 then 0 else metricPendingSendIo m - 1)"
  "metricPendingRecvIo (Metrics_RecordPendingSendIoCompleted m) = metricPendingRecvIo m"
  "pendingSendQueueDepth (Metrics_RecordPendingSendIoCompleted m) = pendingSendQueueDepth m"
  "sendMailboxDepth (Metrics_RecordPendingSendIoCompleted m) = sendMailboxDepth m"
  "metricPendingRecvIo (RecordPendingSendQueued m) = metricPendingRecvIo m"
  "metricPendingSendIo (RecordPendingSendQueued m) = metricPendingSendIo m"
  "pendingSendQueueDepth (RecordPendingSendQueued m) = pendingSendQueueDepth m + 1"
  "sendMailboxDepth (RecordPendingSendQueued m) = sendMailboxDepth m"
  "metricPendingRecvIo (RecordPendingSendDequeued m) = metricPendingRecvIo m"
  "metricPendingSendIo (RecordPendingSendDequeued m) = metricPendingSendIo m"
  "pendingSendQueueDepth (RecordPendingSendDequeued m) =
    (if pendingSendQueueDepth m = 0 then 0 else pendingSendQueueDepth m - 1)"
  "sendMailboxDepth (RecordPendingSendDequeued m) = sendMailboxDepth m"
  "metricPendingRecvIo (RecordSendMailboxDequeued m) = metricPendingRecvIo m"
  "metricPendingSendIo (RecordSendMailboxDequeued m) = metricPendingSendIo m"
  "pendingSendQueueDepth (RecordSendMailboxDequeued m) = pendingSendQueueDepth m"
  "sendMailboxDepth (RecordSendMailboxDequeued m) =
    (if sendMailboxDepth m = 0 then 0 else sendMailboxDepth m - 1)"
  "metricPendingRecvIo (Metrics_Record outcome m) = metricPendingRecvIo m"
  "metricPendingSendIo (Metrics_Record outcome m) = metricPendingSendIo m"
  "pendingSendQueueDepth (Metrics_Record outcome m) = pendingSendQueueDepth m"
  "sendMailboxDepth (Metrics_Record outcome m) = sendMailboxDepth m"
  by (simp_all add: Metrics_RecordPendingRecvIoStarted_def Metrics_RecordPendingSendIoStarted_def
      Metrics_RecordPendingRecvIoCompleted_def Metrics_RecordPendingSendIoCompleted_def
      RecordPendingSendQueued_def RecordPendingSendDequeued_def RecordSendMailboxDequeued_def
      Metrics_Record_def DecrementPendingIo_def DecrementDepth_def Let_def)

lemma metrics_asserts [metrics_simps]:
  "metricsAssertFailed (Metrics_RecordPendingRecvIoStarted m) = metricsAssertFailed m"
  "metricsAssertFailed (Metrics_RecordPendingSendIoStarted m) = metricsAssertFailed m"
  "metricsAssertFailed (Metrics_RecordPendingRecvIoCompleted m) \<longleftrightarrow>
    metricsAssertFailed m \<or> metricPendingRecvIo m = 0"
  "metricsAssertFailed (Metrics_RecordPendingSendIoCompleted m) \<longleftrightarrow>
    metricsAssertFailed m \<or> metricPendingSendIo m = 0"
  "metricsAssertFailed (RecordPendingSendQueued m) = metricsAssertFailed m"
  "metricsAssertFailed (RecordPendingSendDequeued m) \<longleftrightarrow> metricsAssertFailed m \<or> pendingSendQueueDepth m = 0"
  "metricsAssertFailed (RecordSendMailboxDequeued m) \<longleftrightarrow> metricsAssertFailed m \<or> sendMailboxDepth m = 0"
  "metricsAssertFailed (Metrics_Record outcome m) \<longleftrightarrow>
    metricsAssertFailed m \<or> \<not> IsKnownPressureTransactionOutcome outcome"
  by (auto simp: Metrics_RecordPendingRecvIoStarted_def Metrics_RecordPendingSendIoStarted_def
      Metrics_RecordPendingRecvIoCompleted_def Metrics_RecordPendingSendIoCompleted_def
      RecordPendingSendQueued_def RecordPendingSendDequeued_def RecordSendMailboxDequeued_def
      Metrics_Record_def DecrementPendingIo_def DecrementDepth_def Let_def)

end
