(* ===== verification/NrHandoff.thy ===== *)
theory NrHandoff imports NrQueue NrMetrics "HOL-Library.AList" begin

text \<open>
  The hand-off of session events from the network runtime to the world
  (\<^verbatim>\<open>NrToWorldLifecycleState.h/.cpp\<close>, \<^verbatim>\<open>NrToWorldHandoff.h/.cpp\<close>, \<^verbatim>\<open>NrToWorldEvent.cpp\<close>).
  Every operation of the handoff runs under one lock, so an execution is a sequence of operations.
  A session has a publication slot with its lifecycle facts; facts become events in a bounded
  queue, and facts that could not be queued wait in a ring of pending keys that every pop retries.
  The event queue is the reference queue \<open>spec_push\<close>/\<open>spec_pop\<close> that \<open>NrQueue\<close> shows the ring of
  \<^verbatim>\<open>NrBoundedMpscQueue.h\<close> to implement. The outcome of each nothrow allocation is read from the
  list \<open>allocations\<close>, an arbitrary environment.
\<close>

section \<open>Lifecycle facts of one session\<close>

type_synonym NrSessionKey = u64
type_synonym NrPacketType = u16

datatype NrSessionEndReason =
    NoEndReason
  | ApplicationRequested
  | ApplicationPolicy
  | EndProtocolError
  | RemoteClosed
  | ReceivePressure
  | SendPressure
  | TransportError
  | ServerStopping

datatype NrToWorldLifecycleNotificationKind = NotifyNone | NotifySessionAccepted | NotifySessionClosed

record NrToWorldLifecycleState =
  lifecycleEndReason :: NrSessionEndReason
  acceptedRecorded :: bool
  acceptedCommitted :: bool
  closedRecorded :: bool
  closedCommitted :: bool

definition NrToWorldLifecycleState_default :: NrToWorldLifecycleState where
  "NrToWorldLifecycleState_default =
     \<lparr>lifecycleEndReason = NoEndReason, acceptedRecorded = False, acceptedCommitted = False,
      closedRecorded = False, closedCommitted = False\<rparr>"

definition Lifecycle_RecordAccepted ::
    "NrToWorldLifecycleState \<Rightarrow> NrStatus \<times> NrToWorldLifecycleState" where
  "Lifecycle_RecordAccepted s =
     (if acceptedRecorded s then (NrStatus_Failure NrErrorCode.InvalidState, s)
      else (NrStatus_Success, s\<lparr>acceptedRecorded := True\<rparr>))"

definition Lifecycle_RecordClosed ::
    "NrSessionEndReason \<Rightarrow> NrToWorldLifecycleState \<Rightarrow> NrStatus \<times> NrToWorldLifecycleState" where
  "Lifecycle_RecordClosed reason s =
     (if reason = NoEndReason then (NrStatus_Failure NrErrorCode.InvalidArgument, s)
      else if \<not> acceptedRecorded s \<or> closedRecorded s then (NrStatus_Failure NrErrorCode.InvalidState, s)
      else (NrStatus_Success, s\<lparr>lifecycleEndReason := reason, closedRecorded := True\<rparr>))"

definition NextPendingKind :: "NrToWorldLifecycleState \<Rightarrow> NrToWorldLifecycleNotificationKind" where
  "NextPendingKind s =
     (if acceptedRecorded s \<and> \<not> acceptedCommitted s then NotifySessionAccepted
      else if acceptedCommitted s \<and> closedRecorded s \<and> \<not> closedCommitted s then NotifySessionClosed
      else NotifyNone)"

definition CommitNextPending :: "NrToWorldLifecycleState \<Rightarrow> NrStatus \<times> NrToWorldLifecycleState" where
  "CommitNextPending s =
     (case NextPendingKind s of
        NotifySessionAccepted \<Rightarrow> (NrStatus_Success, s\<lparr>acceptedCommitted := True\<rparr>)
      | NotifySessionClosed \<Rightarrow> (NrStatus_Success, s\<lparr>closedCommitted := True\<rparr>)
      | NotifyNone \<Rightarrow> (NrStatus_Failure NrErrorCode.InvalidState, s))"

definition CanPublishPacket :: "NrToWorldLifecycleState \<Rightarrow> bool" where
  "CanPublishPacket s \<longleftrightarrow> acceptedCommitted s \<and> \<not> closedRecorded s"

definition IsSessionClosedPublished :: "NrToWorldLifecycleState \<Rightarrow> bool" where
  "IsSessionClosedPublished s \<longleftrightarrow> closedCommitted s"

definition Lifecycle_GetEndReason :: "NrToWorldLifecycleState \<Rightarrow> NrSessionEndReason NrResult" where
  "Lifecycle_GetEndReason s =
     (if \<not> closedRecorded s then Inl (NrStatus_Failure NrErrorCode.InvalidState)
      else Inr (lifecycleEndReason s))"

section \<open>Events\<close>

datatype NrToWorldHandoffEventKind = KindNone | SessionAccepted | PacketReceived | SessionClosed

text \<open>The send channel control is shared by reference; a number identifies it.\<close>

type_synonym NrSessionSendChannelControl = nat

record NrToWorldHandoffEvent =
  eventKind :: NrToWorldHandoffEventKind
  eventSessionKey :: NrSessionKey
  eventSendChannelControl :: "NrSessionSendChannelControl option"
  eventPacketType :: NrPacketType
  eventPayload :: "byte list"
  eventEndReason :: NrSessionEndReason

definition NrToWorldHandoffEvent_construct ::
    "NrToWorldHandoffEventKind \<Rightarrow> NrSessionKey \<Rightarrow> NrToWorldHandoffEvent" where
  "NrToWorldHandoffEvent_construct kind sessionKey =
     \<lparr>eventKind = kind, eventSessionKey = sessionKey, eventSendChannelControl = None,
      eventPacketType = 0, eventPayload = [], eventEndReason = NoEndReason\<rparr>"

text \<open>One nothrow allocation: whether it succeeds, and the rest of the environment.\<close>

fun allocate :: "bool list \<Rightarrow> bool \<times> bool list" where
  "allocate [] = (True, [])"
| "allocate (a # as) = (a, as)"

definition CreateSessionAccepted ::
    "NrSessionKey \<Rightarrow> NrSessionSendChannelControl \<Rightarrow> bool list \<Rightarrow> NrToWorldHandoffEvent NrResult \<times> bool list" where
  "CreateSessionAccepted sessionKey control as =
     (if sessionKey = 0 then (Inl (NrStatus_Failure NrErrorCode.InvalidArgument), as)
      else case allocate as of (ok, as) \<Rightarrow>
        if \<not> ok then (Inl (NrStatus_Failure NrErrorCode.OutOfMemory), as)
        else
          (Inr ((NrToWorldHandoffEvent_construct SessionAccepted sessionKey)
                \<lparr>eventSendChannelControl := Some control\<rparr>), as))"

definition CreatePacketReceived ::
    "NrSessionKey \<Rightarrow> NrPacketType \<Rightarrow> byte list \<Rightarrow> bool list \<Rightarrow> NrToWorldHandoffEvent NrResult \<times> bool list" where
  "CreatePacketReceived sessionKey ptype payload as =
     (if sessionKey = 0 \<or> int (length payload) > 4294967295 then
        (Inl (NrStatus_Failure NrErrorCode.InvalidArgument), as)
      else case allocate as of (ok, as) \<Rightarrow>
        if \<not> ok then (Inl (NrStatus_Failure NrErrorCode.OutOfMemory), as)
        else
          let event = (NrToWorldHandoffEvent_construct PacketReceived sessionKey)\<lparr>eventPacketType := ptype\<rparr> in
          if payload \<noteq> [] then
            case allocate as of (ok, as) \<Rightarrow>
              if \<not> ok then (Inl (NrStatus_Failure NrErrorCode.OutOfMemory), as)
              else (Inr (event\<lparr>eventPayload := payload\<rparr>), as)
          else (Inr event, as))"

definition CreateSessionClosed ::
    "NrSessionKey \<Rightarrow> NrSessionEndReason \<Rightarrow> bool list \<Rightarrow> NrToWorldHandoffEvent NrResult \<times> bool list" where
  "CreateSessionClosed sessionKey reason as =
     (if sessionKey = 0 \<or> reason = NoEndReason then
        (Inl (NrStatus_Failure NrErrorCode.InvalidArgument), as)
      else case allocate as of (ok, as) \<Rightarrow>
        if \<not> ok then (Inl (NrStatus_Failure NrErrorCode.OutOfMemory), as)
        else
          (Inr ((NrToWorldHandoffEvent_construct SessionClosed sessionKey)\<lparr>eventEndReason := reason\<rparr>), as))"

section \<open>The handoff\<close>

record NrPublicationSlot =
  lifecycleState :: NrToWorldLifecycleState
  slotSendChannelControl :: "NrSessionSendChannelControl option"
  pendingRegistered :: bool
  lastDeferredKind :: NrToWorldLifecycleNotificationKind

definition NrPublicationSlot_default :: NrPublicationSlot where
  "NrPublicationSlot_default =
     \<lparr>lifecycleState = NrToWorldLifecycleState_default, slotSendChannelControl = None,
      pendingRegistered = False, lastDeferredKind = NotifyNone\<rparr>"

text \<open>The diagnostic records the handoff emits, and the pressure outcomes it counts.\<close>

datatype NrDiagnosticRecord = EmittedAccept NrSessionKey | EmittedClose NrSessionKey NrSessionEndReason

text \<open>
  \<open>publicationSlots\<close> is the unordered map as an association list, \<open>pendingEntries\<close> the array of the
  pending ring.
\<close>

record NrToWorldHandoff =
  eventQueue :: "NrToWorldHandoffEvent list"
  eventQueueCapacity :: nat
  recordedMetrics :: "NrPressureTransactionOutcome list"
  emittedDiagnostics :: "NrDiagnosticRecord list"
  publicationSlots :: "(NrSessionKey \<times> NrPublicationSlot) list"
  maxSessionCount :: nat
  pendingEntries :: "NrSessionKey list"
  pendingHead :: nat
  pendingSize :: nat
  eventDepth :: nat
  eventHighWatermark :: nat
  notifyCount :: nat
  handoffClosed :: bool
  allocations :: "bool list"

abbreviation find_slot :: "NrToWorldHandoff \<Rightarrow> NrSessionKey \<Rightarrow> NrPublicationSlot option" where
  "find_slot h key \<equiv> map_of (publicationSlots h) key"

abbreviation set_slot :: "NrSessionKey \<Rightarrow> NrPublicationSlot \<Rightarrow> NrToWorldHandoff \<Rightarrow> NrToWorldHandoff" where
  "set_slot key slot h \<equiv> h\<lparr>publicationSlots := AList.update key slot (publicationSlots h)\<rparr>"

abbreviation erase_slot :: "NrSessionKey \<Rightarrow> NrToWorldHandoff \<Rightarrow> NrToWorldHandoff" where
  "erase_slot key h \<equiv> h\<lparr>publicationSlots := AList.delete key (publicationSlots h)\<rparr>"

definition record_metric :: "NrPressureTransactionOutcome \<Rightarrow> NrToWorldHandoff \<Rightarrow> NrToWorldHandoff" where
  "record_metric m h = h\<lparr>recordedMetrics := recordedMetrics h @ [m]\<rparr>"

text \<open>
  \<^verbatim>\<open>Create\<close>: \<open>queueResult\<close> is the outcome of creating the event queue with its capacity; the
  environment decides the three allocations and the reservation of the slot map.
\<close>

definition NrToWorldHandoff_Create ::
    "nat NrResult \<Rightarrow> bool list \<Rightarrow> NrStatus \<Rightarrow> nat \<Rightarrow> NrToWorldHandoff NrResult" where
  "NrToWorldHandoff_Create queueResult as reserveStatus sessionCount =
     (if sessionCount = 0 \<or> sessionCount > (2 ^ 64 - 1) div 8 then
        Inl (NrStatus_Failure NrErrorCode.InvalidArgument)
      else case queueResult of
        Inl status \<Rightarrow> Inl status
      | Inr capacity \<Rightarrow>
        (case allocate as of (entriesFit, as) \<Rightarrow>
          if \<not> entriesFit then Inl (NrStatus_Failure NrErrorCode.OutOfMemory)
          else case allocate as of (implFits, as) \<Rightarrow>
            if \<not> implFits then Inl (NrStatus_Failure NrErrorCode.OutOfMemory)
            else if Failed reserveStatus then Inl reserveStatus
            else case allocate as of (handoffFits, as) \<Rightarrow>
              if \<not> handoffFits then Inl (NrStatus_Failure NrErrorCode.OutOfMemory)
              else Inr
                \<lparr>eventQueue = [], eventQueueCapacity = capacity, recordedMetrics = [],
                 emittedDiagnostics = [], publicationSlots = [], maxSessionCount = sessionCount,
                 pendingEntries = replicate sessionCount 0, pendingHead = 0, pendingSize = 0,
                 eventDepth = 0, eventHighWatermark = 0, notifyCount = 0, handoffClosed = False,
                 allocations = as\<rparr>))"

definition TryPushEvent :: "NrToWorldHandoffEvent \<Rightarrow> NrToWorldHandoff \<Rightarrow> NrStatus \<times> NrToWorldHandoff" where
  "TryPushEvent event h =
     (let wasEmpty = (eventDepth h = 0) in
      case spec_push (eventQueueCapacity h) event (eventQueue h) of (pushStatus, q) \<Rightarrow>
        let h = h\<lparr>eventQueue := q\<rparr> in
        if Succeeded pushStatus then
          let h = h\<lparr>eventDepth := eventDepth h + 1\<rparr>;
              h = (if eventHighWatermark h < eventDepth h then h\<lparr>eventHighWatermark := eventDepth h\<rparr> else h);
              h = (if wasEmpty then h\<lparr>notifyCount := notifyCount h + 1\<rparr> else h)
          in (pushStatus, h)
        else (pushStatus, h))"

text \<open>
  \<^verbatim>\<open>PromoteOne\<close> pushes the next lifecycle event of a slot; \<open>slot\<close> is the reference to the map's
  entry, so the commit is written back under its key.
\<close>

definition PromoteOne ::
    "NrSessionKey \<Rightarrow> NrPublicationSlot \<Rightarrow> NrToWorldHandoff \<Rightarrow> NrStatus \<times> NrToWorldHandoff" where
  "PromoteOne sessionKey slot h =
     (let created =
        (case NextPendingKind (lifecycleState slot) of
           NotifySessionAccepted \<Rightarrow>
             (case slotSendChannelControl slot of
                None \<Rightarrow> (Inl (NrStatus_Failure NrErrorCode.InvalidState), allocations h)
              | Some control \<Rightarrow> CreateSessionAccepted sessionKey control (allocations h))
         | NotifySessionClosed \<Rightarrow>
             (case Lifecycle_GetEndReason (lifecycleState slot) of
                Inl status \<Rightarrow> (Inl status, allocations h)
              | Inr reason \<Rightarrow> CreateSessionClosed sessionKey reason (allocations h))
         | NotifyNone \<Rightarrow> (Inl (NrStatus_Failure NrErrorCode.InvalidState), allocations h))
      in case created of (eventResult, as) \<Rightarrow>
        let h = h\<lparr>allocations := as\<rparr> in
        case eventResult of
          Inl status \<Rightarrow> (status, h)
        | Inr event \<Rightarrow>
            (case TryPushEvent event h of (pushStatus, h) \<Rightarrow>
               if Failed pushStatus then (pushStatus, h)
               else case CommitNextPending (lifecycleState slot) of (commitStatus, ls) \<Rightarrow>
                 (commitStatus, set_slot sessionKey (slot\<lparr>lifecycleState := ls\<rparr>) h)))"

definition RegisterPending :: "NrSessionKey \<Rightarrow> NrToWorldHandoff \<Rightarrow> NrToWorldHandoff" where
  "RegisterPending sessionKey h =
     (case find_slot h sessionKey of None \<Rightarrow> h
      | Some slot \<Rightarrow>
          if pendingRegistered slot then h
          else if pendingSize h \<ge> maxSessionCount h then h
          else
            let tail = (pendingHead h + pendingSize h) mod maxSessionCount h in
            set_slot sessionKey (slot\<lparr>pendingRegistered := True\<rparr>)
              (h\<lparr>pendingEntries := (pendingEntries h)[tail := sessionKey],
                 pendingSize := pendingSize h + 1\<rparr>))"

definition RecordLifecyclePublicationDeferred :: "NrSessionKey \<Rightarrow> NrToWorldHandoff \<Rightarrow> NrToWorldHandoff" where
  "RecordLifecyclePublicationDeferred sessionKey h =
     (case find_slot h sessionKey of None \<Rightarrow> h
      | Some slot \<Rightarrow>
          let kind = NextPendingKind (lifecycleState slot) in
          if lastDeferredKind slot = kind then h
          else record_metric ToWorldLifecyclePublicationDeferred
                 (set_slot sessionKey (slot\<lparr>lastDeferredKind := kind\<rparr>) h))"

text \<open>The loop of \<^verbatim>\<open>PromotePending\<close> with the turns that are left; \<^verbatim>\<open>QueueFull\<close> breaks out of it.\<close>

fun PromotePendingTurns :: "nat \<Rightarrow> NrToWorldHandoff \<Rightarrow> NrToWorldHandoff" where
  "PromotePendingTurns 0 h = h"
| "PromotePendingTurns (Suc turns) h =
     (if pendingSize h = 0 then h
      else
        let key = pendingEntries h ! pendingHead h;
            h = h\<lparr>pendingHead := (pendingHead h + 1) mod maxSessionCount h,
                  pendingSize := pendingSize h - 1\<rparr> in
        case find_slot h key of
          None \<Rightarrow> PromotePendingTurns turns h
        | Some slot \<Rightarrow>
            let slot = slot\<lparr>pendingRegistered := False\<rparr>;
                h = set_slot key slot h in
            (case PromoteOne key slot h of (promoteStatus, h) \<Rightarrow>
               if Failed promoteStatus then
                 let h = RegisterPending key (RecordLifecyclePublicationDeferred key h) in
                 if errorCode promoteStatus = NrErrorCode.QueueFull then h
                 else PromotePendingTurns turns h
               else
                 let slot = the (find_slot h key) in
                 if NextPendingKind (lifecycleState slot) \<noteq> NotifyNone then
                   PromotePendingTurns turns (RegisterPending key h)
                 else if IsSessionClosedPublished (lifecycleState slot) then
                   PromotePendingTurns turns (erase_slot key h)
                 else PromotePendingTurns turns h))"

definition PromotePending :: "NrToWorldHandoff \<Rightarrow> NrToWorldHandoff" where
  "PromotePending h = PromotePendingTurns (pendingSize h) h"

definition ReserveSession :: "NrSessionKey \<Rightarrow> NrToWorldHandoff \<Rightarrow> NrStatus \<times> NrToWorldHandoff" where
  "ReserveSession sessionKey h =
     (if sessionKey = 0 then (NrStatus_Failure NrErrorCode.InvalidArgument, h)
      else if handoffClosed h then (NrStatus_Failure NrErrorCode.InvalidState, h)
      else if find_slot h sessionKey \<noteq> None then (NrStatus_Failure NrErrorCode.InvalidState, h)
      else if length (publicationSlots h) \<ge> maxSessionCount h then
        (NrStatus_Failure NrErrorCode.CapacityExceeded, h)
      else case allocate (allocations h) of (ok, as) \<Rightarrow>
        let h = h\<lparr>allocations := as\<rparr> in
        if \<not> ok then (NrStatus_Failure NrErrorCode.OutOfMemory, h)
        else (NrStatus_Success, set_slot sessionKey NrPublicationSlot_default h))"

definition CancelSessionReservation ::
    "NrSessionKey \<Rightarrow> NrToWorldHandoff \<Rightarrow> NrStatus \<times> NrToWorldHandoff" where
  "CancelSessionReservation sessionKey h =
     (if handoffClosed h then (NrStatus_Failure NrErrorCode.InvalidState, h)
      else case find_slot h sessionKey of
        None \<Rightarrow> (NrStatus_Failure NrErrorCode.InvalidArgument, h)
      | Some slot \<Rightarrow>
          if slotSendChannelControl slot \<noteq> None \<or> pendingRegistered slot \<or>
             NextPendingKind (lifecycleState slot) \<noteq> NotifyNone then
            (NrStatus_Failure NrErrorCode.InvalidState, h)
          else (NrStatus_Success, erase_slot sessionKey h))"

definition EmitSessionAccepted :: "NrSessionKey \<Rightarrow> NrToWorldHandoff \<Rightarrow> NrToWorldHandoff" where
  "EmitSessionAccepted sessionKey h =
     h\<lparr>emittedDiagnostics := emittedDiagnostics h @ [EmittedAccept sessionKey]\<rparr>"

definition EmitSessionClosed ::
    "NrSessionKey \<Rightarrow> NrSessionEndReason \<Rightarrow> NrToWorldHandoff \<Rightarrow> NrToWorldHandoff" where
  "EmitSessionClosed sessionKey reason h =
     h\<lparr>emittedDiagnostics := emittedDiagnostics h @ [EmittedClose sessionKey reason]\<rparr>"

definition RecordAccepted ::
    "NrSessionKey \<Rightarrow> NrSessionSendChannelControl \<Rightarrow> NrToWorldHandoff \<Rightarrow> NrStatus \<times> NrToWorldHandoff" where
  "RecordAccepted sessionKey control h =
     (if sessionKey = 0 then (NrStatus_Failure NrErrorCode.InvalidArgument, h)
      else if handoffClosed h then (NrStatus_Failure NrErrorCode.InvalidState, h)
      else case find_slot h sessionKey of
        None \<Rightarrow> (NrStatus_Failure NrErrorCode.InvalidArgument, h)
      | Some slot \<Rightarrow>
          (case Lifecycle_RecordAccepted (lifecycleState slot) of (recordStatus, ls) \<Rightarrow>
             if Failed recordStatus then (recordStatus, h)
             else
               let slot = slot\<lparr>lifecycleState := ls, slotSendChannelControl := Some control\<rparr>;
                   h = EmitSessionAccepted sessionKey (set_slot sessionKey slot h) in
               case PromoteOne sessionKey slot h of (promoteStatus, h) \<Rightarrow>
                 if Failed promoteStatus then
                   (NrStatus_Success,
                    RegisterPending sessionKey (RecordLifecyclePublicationDeferred sessionKey h))
                 else (NrStatus_Success, h)))"

definition RecordClosed ::
    "NrSessionKey \<Rightarrow> NrSessionEndReason \<Rightarrow> NrToWorldHandoff \<Rightarrow> NrStatus \<times> NrToWorldHandoff" where
  "RecordClosed sessionKey reason h =
     (if handoffClosed h then (NrStatus_Failure NrErrorCode.InvalidState, h)
      else case find_slot h sessionKey of
        None \<Rightarrow> (NrStatus_Failure NrErrorCode.InvalidArgument, h)
      | Some slot \<Rightarrow>
          if reason = ServerStopping \<and> slotSendChannelControl slot = None \<and>
             NextPendingKind (lifecycleState slot) = NotifyNone then
            (NrStatus_Success, erase_slot sessionKey h)
          else
            (case Lifecycle_RecordClosed reason (lifecycleState slot) of (recordStatus, ls) \<Rightarrow>
               if Failed recordStatus then (recordStatus, h)
               else
                 let slot = slot\<lparr>lifecycleState := ls\<rparr>;
                     h = EmitSessionClosed sessionKey reason (set_slot sessionKey slot h) in
                 if pendingRegistered slot then (NrStatus_Success, h)
                 else
                   (case PromoteOne sessionKey slot h of (promoteStatus, h) \<Rightarrow>
                      if Failed promoteStatus then
                        (NrStatus_Success,
                         RegisterPending sessionKey (RecordLifecyclePublicationDeferred sessionKey h))
                      else (NrStatus_Success, erase_slot sessionKey h))))"

definition RecordPacket ::
    "NrSessionKey \<Rightarrow> NrPacketType \<Rightarrow> byte list \<Rightarrow> NrToWorldHandoff \<Rightarrow> NrStatus \<times> NrToWorldHandoff" where
  "RecordPacket sessionKey ptype payload h =
     (if handoffClosed h then (NrStatus_Failure NrErrorCode.InvalidState, h)
      else case find_slot h sessionKey of
        None \<Rightarrow> (NrStatus_Failure NrErrorCode.InvalidArgument, h)
      | Some slot \<Rightarrow>
          if \<not> CanPublishPacket (lifecycleState slot) then
            if NextPendingKind (lifecycleState slot) = NotifySessionAccepted then
              (NrStatus_Failure NrErrorCode.QueueFull, record_metric ToWorldPacketAdmissionRejected h)
            else (NrStatus_Failure NrErrorCode.InvalidState, h)
          else
            (case CreatePacketReceived sessionKey ptype payload (allocations h) of (eventResult, as) \<Rightarrow>
               let h = h\<lparr>allocations := as\<rparr> in
               case eventResult of
                 Inl status \<Rightarrow> (status, h)
               | Inr event \<Rightarrow>
                   (case TryPushEvent event h of (pushStatus, h) \<Rightarrow>
                      if errorCode pushStatus = NrErrorCode.QueueFull then
                        (pushStatus, record_metric ToWorldPacketAdmissionRejected h)
                      else (pushStatus, h))))"

definition TryPopOneLocked ::
    "NrToWorldHandoff \<Rightarrow> NrStatus \<times> NrToWorldHandoffEvent option \<times> NrToWorldHandoff" where
  "TryPopOneLocked h =
     (let h = PromotePending h in
      case spec_pop (eventQueue h) of (popStatus, out, q) \<Rightarrow>
        if Failed popStatus then (popStatus, None, h)
        else
          let h = h\<lparr>eventQueue := q, eventDepth := eventDepth h - 1\<rparr> in
          (NrStatus_Success, out, PromotePending h))"

text \<open>The caller's event pointer must be null on entry; its content after the call is the result.\<close>

definition Handoff_TryPop ::
    "NrToWorldHandoffEvent option \<Rightarrow> NrToWorldHandoff \<Rightarrow> NrStatus \<times> NrToWorldHandoffEvent option \<times> NrToWorldHandoff" where
  "Handoff_TryPop outEvent h =
     (if outEvent \<noteq> None then (NrStatus_Failure NrErrorCode.InvalidState, outEvent, h)
      else TryPopOneLocked h)"

text \<open>
  The loop of \<^verbatim>\<open>TryPopBatch\<close> with the places that are left and the events popped so far. The last
  component is the count stored through \<^verbatim>\<open>outEventCount\<close>, \<open>None\<close> where the code returns without
  storing it.
\<close>

fun PopBatchLoop ::
    "nat \<Rightarrow> NrToWorldHandoffEvent list \<Rightarrow> NrToWorldHandoff \<Rightarrow>
     NrStatus \<times> NrToWorldHandoffEvent list \<times> nat option \<times> NrToWorldHandoff" where
  "PopBatchLoop 0 events h = (NrStatus_Success, events, Some (length events), h)"
| "PopBatchLoop (Suc left) events h =
     (case TryPopOneLocked h of (popStatus, out, h) \<Rightarrow>
        if Failed popStatus then
          if errorCode popStatus = NrErrorCode.QueueEmpty \<and> length events \<noteq> 0 then
            (NrStatus_Success, events, Some (length events), h)
          else (popStatus, events, None, h)
        else PopBatchLoop left (events @ [the out]) h)"

definition TryPopBatch ::
    "NrToWorldHandoffEvent option list \<Rightarrow> bool \<Rightarrow> NrToWorldHandoff \<Rightarrow>
     NrStatus \<times> NrToWorldHandoffEvent list \<times> nat option \<times> NrToWorldHandoff" where
  "TryPopBatch eventBuffer hasCountPointer h =
     (if eventBuffer = [] \<or> \<not> hasCountPointer then
        (NrStatus_Failure NrErrorCode.InvalidArgument, [], None, h)
      else if list_ex (\<lambda>event. event \<noteq> None) eventBuffer then
        (NrStatus_Failure NrErrorCode.InvalidState, [], None, h)
      else PopBatchLoop (length eventBuffer) [] h)"

text \<open>
  \<^verbatim>\<open>WaitForEvents\<close> reads the state in which the wait ended: the condition variable returns when the
  predicate holds or the timeout has passed. \<open>waitFailed\<close> is the \<^verbatim>\<open>std::system_error\<close> that locking or
  waiting may throw.
\<close>

datatype NrToWorldHandoffWaitResult = EventsAvailable | TimedOut | WaitClosed

definition WaitForEvents ::
    "int \<Rightarrow> bool \<Rightarrow> bool \<Rightarrow> NrToWorldHandoff \<Rightarrow> NrToWorldHandoffWaitResult NrResult" where
  "WaitForEvents timeout hasResultPointer waitFailed h =
     (if timeout < 0 \<or> \<not> hasResultPointer then Inl (NrStatus_Failure NrErrorCode.InvalidArgument)
      else if waitFailed then Inl (NrStatus_Failure NrErrorCode.IoFailed)
      else
        let predicateSatisfied = (eventDepth h \<noteq> 0 \<or> handoffClosed h) in
        if \<not> predicateSatisfied then Inr TimedOut
        else if eventDepth h \<noteq> 0 then Inr EventsAvailable
        else Inr WaitClosed)"

definition Handoff_Close :: "NrToWorldHandoff \<Rightarrow> NrStatus \<times> NrToWorldHandoff" where
  "Handoff_Close h =
     (if handoffClosed h then (NrStatus_Success, h)
      else (NrStatus_Success, h\<lparr>handoffClosed := True, notifyCount := notifyCount h + 1\<rparr>))"

definition ActiveSlotCount :: "NrToWorldHandoff \<Rightarrow> nat" where
  "ActiveSlotCount h = length (publicationSlots h)"

definition PendingSlotCount :: "NrToWorldHandoff \<Rightarrow> nat" where
  "PendingSlotCount h = pendingSize h"

definition Handoff_Stats :: "NrToWorldHandoff \<Rightarrow> nat \<times> nat" where
  "Handoff_Stats h = (eventDepth h, eventHighWatermark h)"

end
