(* ===== verification/NrHandoffProofs.thy ===== *)
theory NrHandoffProofs imports NrHandoff begin

text \<open>
  Correctness of the hand-off of \<open>NrHandoff\<close>: the invariant of the slot map and the pending ring,
  the ghost history of everything ever pushed, and from them, for every sequence of operations in
  every environment, that the events of one session come out as an acceptance, packets and a
  closure, and that no recorded fact is lost.
\<close>

declare map_of_eq_Some_iff [simp del] Some_eq_map_of_iff [simp del] map_of_eq_None_iff [simp del]

section \<open>The invariant\<close>

definition pending_keys :: "NrToWorldHandoff \<Rightarrow> NrSessionKey list" where
  "pending_keys h = ring_list (pendingEntries h) (pendingHead h) (pendingSize h)"

definition waiting :: "NrPublicationSlot \<Rightarrow> bool" where
  "waiting slot \<longleftrightarrow> NextPendingKind (lifecycleState slot) \<noteq> NotifyNone"

definition slot_ok :: "NrPublicationSlot \<Rightarrow> bool" where
  "slot_ok slot \<longleftrightarrow> (let ls = lifecycleState slot in
     (acceptedCommitted ls \<longrightarrow> acceptedRecorded ls) \<and>
     (closedRecorded ls \<longrightarrow> acceptedRecorded ls \<and> lifecycleEndReason ls \<noteq> NoEndReason) \<and>
     (closedCommitted ls \<longrightarrow> closedRecorded ls \<and> acceptedCommitted ls) \<and>
     (acceptedRecorded ls \<longleftrightarrow> slotSendChannelControl slot \<noteq> None))"

text \<open>
  The structure of the state: the array bounds of the pending ring, the slots under their distinct
  nonzero keys, and the pending keys, which are the registered slots, once each.
\<close>

definition handoff_core :: "NrToWorldHandoff \<Rightarrow> bool" where
  "handoff_core h \<longleftrightarrow>
     pendingHead h < maxSessionCount h \<and>
     length (pendingEntries h) = maxSessionCount h \<and> pendingSize h \<le> maxSessionCount h \<and>
     distinct (map fst (publicationSlots h)) \<and> length (publicationSlots h) \<le> maxSessionCount h \<and>
     distinct (pending_keys h) \<and>
     (\<forall>key. key \<in> set (pending_keys h) \<longleftrightarrow>
        (\<exists>slot. find_slot h key = Some slot \<and> pendingRegistered slot)) \<and>
     (\<forall>key slot. find_slot h key = Some slot \<longrightarrow> key \<noteq> 0 \<and> slot_ok slot) \<and>
     eventDepth h = length (eventQueue h) \<and> eventDepth h \<le> eventQueueCapacity h"

text \<open>
  Outside the keys in work, a slot waits exactly when it is registered, and a session whose
  closure was published has no slot any more.
\<close>

definition settled :: "NrSessionKey set \<Rightarrow> NrToWorldHandoff \<Rightarrow> bool" where
  "settled work h \<longleftrightarrow> (\<forall>key slot. key \<notin> work \<longrightarrow> find_slot h key = Some slot \<longrightarrow>
     (pendingRegistered slot \<longleftrightarrow> waiting slot) \<and> \<not> closedCommitted (lifecycleState slot))"

text \<open>The phase of a session in a history of events.\<close>

datatype phase = Outside | Inside | Broken

fun phase_step :: "NrToWorldHandoffEventKind \<Rightarrow> phase \<Rightarrow> phase" where
  "phase_step SessionAccepted Outside = Inside"
| "phase_step PacketReceived Inside = Inside"
| "phase_step SessionClosed Inside = Outside"
| "phase_step _ _ = Broken"

definition session_phase :: "NrSessionKey \<Rightarrow> NrToWorldHandoffEvent list \<Rightarrow> phase" where
  "session_phase key events =
     fold (\<lambda>e p. if eventSessionKey e = key then phase_step (eventKind e) p else p) events Outside"

definition slot_phase :: "NrPublicationSlot option \<Rightarrow> phase" where
  "slot_phase s = (case s of None \<Rightarrow> Outside
     | Some slot \<Rightarrow> if acceptedCommitted (lifecycleState slot) \<and> \<not> closedCommitted (lifecycleState slot)
                    then Inside else Outside)"

text \<open>
  The lifecycle facts of one session: those recorded, by the diagnostics log, those published, by
  the events, and those still owed by the slot.
\<close>

datatype fact = FactAccepted | FactClosed NrSessionEndReason

fun recorded_fact :: "NrSessionKey \<Rightarrow> NrDiagnosticRecord \<Rightarrow> fact list" where
  "recorded_fact key (EmittedAccept k) = (if k = key then [FactAccepted] else [])"
| "recorded_fact key (EmittedClose k reason) = (if k = key then [FactClosed reason] else [])"

definition published_fact :: "NrSessionKey \<Rightarrow> NrToWorldHandoffEvent \<Rightarrow> fact list" where
  "published_fact key e =
     (if eventSessionKey e \<noteq> key then []
      else case eventKind e of
        SessionAccepted \<Rightarrow> [FactAccepted]
      | SessionClosed \<Rightarrow> [FactClosed (eventEndReason e)]
      | _ \<Rightarrow> [])"

definition recorded_facts :: "NrSessionKey \<Rightarrow> NrDiagnosticRecord list \<Rightarrow> fact list" where
  "recorded_facts key ds = concat (map (recorded_fact key) ds)"

definition published_facts :: "NrSessionKey \<Rightarrow> NrToWorldHandoffEvent list \<Rightarrow> fact list" where
  "published_facts key es = concat (map (published_fact key) es)"

definition owed_facts :: "NrPublicationSlot option \<Rightarrow> fact list" where
  "owed_facts s = (case s of None \<Rightarrow> []
     | Some slot \<Rightarrow> let ls = lifecycleState slot in
         (if acceptedRecorded ls \<and> \<not> acceptedCommitted ls then [FactAccepted] else []) @
         (if closedRecorded ls \<and> \<not> closedCommitted ls then [FactClosed (lifecycleEndReason ls)] else []))"

definition history_ok :: "NrToWorldHandoffEvent list \<Rightarrow> NrToWorldHandoff \<Rightarrow> bool" where
  "history_ok events h \<longleftrightarrow> (\<forall>key. session_phase key events = slot_phase (find_slot h key) \<and>
     recorded_facts key (emittedDiagnostics h) = published_facts key events @ owed_facts (find_slot h key))"

text \<open>\<open>popped\<close> are the events the world has taken so far.\<close>

definition handoff_inv :: "NrToWorldHandoffEvent list \<Rightarrow> NrSessionKey set \<Rightarrow> NrToWorldHandoff \<Rightarrow> bool" where
  "handoff_inv popped work h \<longleftrightarrow>
     handoff_core h \<and> settled work h \<and> history_ok (popped @ eventQueue h) h"

section \<open>Helpers\<close>

lemma session_phase_snoc [simp]:
  "session_phase key (events @ [e]) =
     (if eventSessionKey e = key then phase_step (eventKind e) (session_phase key events)
      else session_phase key events)"
  by (simp add: session_phase_def)

lemma facts_snoc [simp]:
  "recorded_facts key (ds @ [d]) = recorded_facts key ds @ recorded_fact key d"
  "published_facts key (es @ es') = published_facts key es @ published_facts key es'"
  "published_facts key [] = []"
  "published_facts key (e # es) = published_fact key e @ published_facts key es"
  by (simp_all add: recorded_facts_def published_facts_def)

lemma find_slot_update [simp]:
  "map_of (AList.update k v al) key = (if key = k then Some v else map_of al key)"
  by (simp add: update_conv')

lemma find_slot_delete [simp]:
  "map_of (AList.delete k al) key = (if key = k then None else map_of al key)"
  by (simp add: delete_conv')

lemma length_update_existing:
  assumes "map_of al k = Some s"
  shows "length (AList.update k v al) = length al"
proof -
  have "k \<in> fst ` set al" using assms by (metis domI dom_map_of_conv_image_fst)
  then have "map fst (AList.update k v al) = map fst al" by (simp add: update_keys)
  then show ?thesis by (metis length_map)
qed

lemma slot_default_ok [simp]:
  "slot_ok NrPublicationSlot_default" "\<not> waiting NrPublicationSlot_default"
  "\<not> pendingRegistered NrPublicationSlot_default"
  by (simp_all add: slot_ok_def waiting_def NrPublicationSlot_default_def NextPendingKind_def
      NrToWorldLifecycleState_default_def)

lemma settled_mono: "settled work h \<Longrightarrow> work \<subseteq> work' \<Longrightarrow> settled work' h"
  by (auto simp: settled_def)

text \<open>An existing slot whose registration does not change may be overwritten with a sound one.\<close>

lemma core_set_slot:
  assumes "handoff_core h" "find_slot h key = Some old"
    and "slot_ok slot" "pendingRegistered slot = pendingRegistered old"
  shows "handoff_core (set_slot key slot h)"
  using assms
  by (auto simp: handoff_core_def pending_keys_def distinct_update length_update_existing)

lemma settled_set_slot:
  "settled work h \<Longrightarrow> settled (insert key work) (set_slot key slot h)"
  by (auto simp: settled_def)

lemma core_erase_slot:
  assumes "handoff_core h" "find_slot h key = Some old" "\<not> pendingRegistered old"
  shows "handoff_core (erase_slot key h)"
  using assms distinct_delete [of "publicationSlots h" key]
    order_trans [OF length_delete_le [of key "publicationSlots h"]]
  by (auto simp: handoff_core_def pending_keys_def)

text \<open>Fields that the structure does not depend on.\<close>

lemma core_irrelevant [simp]:
  "handoff_core (h\<lparr>allocations := as\<rparr>) = handoff_core h"
  "handoff_core (h\<lparr>recordedMetrics := ms\<rparr>) = handoff_core h"
  "handoff_core (h\<lparr>emittedDiagnostics := ds\<rparr>) = handoff_core h"
  "handoff_core (h\<lparr>eventHighWatermark := w\<rparr>) = handoff_core h"
  "handoff_core (h\<lparr>notifyCount := n\<rparr>) = handoff_core h"
  "handoff_core (h\<lparr>handoffClosed := c\<rparr>) = handoff_core h"
  by (simp_all add: handoff_core_def pending_keys_def)

lemma settled_irrelevant [simp]:
  "settled work (h\<lparr>allocations := as\<rparr>) = settled work h"
  "settled work (h\<lparr>recordedMetrics := ms\<rparr>) = settled work h"
  "settled work (h\<lparr>emittedDiagnostics := ds\<rparr>) = settled work h"
  "settled work (h\<lparr>handoffClosed := c\<rparr>) = settled work h"
  "settled work (h\<lparr>notifyCount := n\<rparr>) = settled work h"
  by (simp_all add: settled_def)

lemma history_irrelevant [simp]:
  "history_ok es (h\<lparr>allocations := as\<rparr>) = history_ok es h"
  "history_ok es (h\<lparr>recordedMetrics := ms\<rparr>) = history_ok es h"
  "history_ok es (h\<lparr>handoffClosed := c\<rparr>) = history_ok es h"
  "history_ok es (h\<lparr>notifyCount := n\<rparr>) = history_ok es h"
  by (simp_all add: history_ok_def)

lemma handoff_inv_irrelevant [simp]:
  "handoff_inv popped work (h\<lparr>allocations := as\<rparr>) = handoff_inv popped work h"
  "handoff_inv popped work (h\<lparr>recordedMetrics := ms\<rparr>) = handoff_inv popped work h"
  "handoff_inv popped work (h\<lparr>handoffClosed := c\<rparr>) = handoff_inv popped work h"
  "handoff_inv popped work (h\<lparr>notifyCount := n\<rparr>) = handoff_inv popped work h"
  by (simp_all add: handoff_inv_def)

section \<open>The steps\<close>

text \<open>The state after an event has been pushed.\<close>

lemma TryPushEvent_cases:
  assumes "handoff_core h"
  shows "(length (eventQueue h) < eventQueueCapacity h \<and>
      (\<exists>w n. TryPushEvent event h =
        (NrStatus_Success, h\<lparr>eventQueue := eventQueue h @ [event], eventDepth := eventDepth h + 1,
           eventHighWatermark := w, notifyCount := n\<rparr>))) \<or>
    (length (eventQueue h) = eventQueueCapacity h \<and>
      TryPushEvent event h = (NrStatus_Failure NrErrorCode.QueueFull, h))"
proof (cases "length (eventQueue h) < eventQueueCapacity h")
  case True
  have eta: "h\<lparr>eventQueue := q, eventDepth := d\<rparr> =
      h\<lparr>eventQueue := q, eventDepth := d, eventHighWatermark := eventHighWatermark h, notifyCount := notifyCount h\<rparr>"
    "h\<lparr>eventQueue := q, eventDepth := d, eventHighWatermark := w\<rparr> =
      h\<lparr>eventQueue := q, eventDepth := d, eventHighWatermark := w, notifyCount := notifyCount h\<rparr>"
    "h\<lparr>eventQueue := q, eventDepth := d, notifyCount := n\<rparr> =
      h\<lparr>eventQueue := q, eventDepth := d, eventHighWatermark := eventHighWatermark h, notifyCount := n\<rparr>"
    for q d w n by simp_all
  have "TryPushEvent event h =
    (NrStatus_Success, h\<lparr>eventQueue := eventQueue h @ [event], eventDepth := eventDepth h + 1,
       eventHighWatermark := (if eventHighWatermark h < eventDepth h + 1 then eventDepth h + 1
                              else eventHighWatermark h),
       notifyCount := (if eventDepth h = 0 then notifyCount h + 1 else notifyCount h)\<rparr>)"
    using True by (simp add: TryPushEvent_def spec_push_def Let_def)
  with True show ?thesis by blast
next
  case False
  then have "TryPushEvent event h = (NrStatus_Failure NrErrorCode.QueueFull, h)"
    by (simp add: TryPushEvent_def spec_push_def Let_def)
  with False assms show ?thesis by (simp add: handoff_core_def)
qed

lemma core_push:
  assumes "handoff_core h" "length (eventQueue h) < eventQueueCapacity h"
  shows "handoff_core (h\<lparr>eventQueue := eventQueue h @ [e], eventDepth := eventDepth h + 1,
    eventHighWatermark := w, notifyCount := n\<rparr>)"
  using assms by (simp add: handoff_core_def pending_keys_def)

lemma allocate_cases:
  obtains ok as' where "allocate as = (ok, as')"
  by (cases "allocate as")

text \<open>
  \<^verbatim>\<open>PromoteOne\<close> on a waiting slot either fails for want of memory or of room, and then changes
  nothing but the environment, or pushes the next event of the session and commits the fact.
\<close>

definition promoted_event :: "NrSessionKey \<Rightarrow> NrPublicationSlot \<Rightarrow> NrToWorldHandoffEvent" where
  "promoted_event key slot =
     (if NextPendingKind (lifecycleState slot) = NotifySessionAccepted then
        (NrToWorldHandoffEvent_construct SessionAccepted key)
          \<lparr>eventSendChannelControl := slotSendChannelControl slot\<rparr>
      else (NrToWorldHandoffEvent_construct SessionClosed key)
          \<lparr>eventEndReason := lifecycleEndReason (lifecycleState slot)\<rparr>)"

definition committed_slot :: "NrPublicationSlot \<Rightarrow> NrPublicationSlot" where
  "committed_slot slot = slot\<lparr>lifecycleState := snd (CommitNextPending (lifecycleState slot))\<rparr>"

definition push_commit ::
    "NrSessionKey \<Rightarrow> NrPublicationSlot \<Rightarrow> bool list \<Rightarrow> nat \<Rightarrow> nat \<Rightarrow> NrToWorldHandoff \<Rightarrow> NrToWorldHandoff" where
  "push_commit key slot as w n h = set_slot key (committed_slot slot)
             (h\<lparr>allocations := as, eventQueue := eventQueue h @ [promoted_event key slot],
                eventDepth := eventDepth h + 1, eventHighWatermark := w, notifyCount := n\<rparr>)"

lemma push_commit_simps [simp]:
  "find_slot (push_commit key slot as w n h) k = (if k = key then Some (committed_slot slot) else find_slot h k)"
  "eventQueue (push_commit key slot as w n h) = eventQueue h @ [promoted_event key slot]"
  "pendingSize (push_commit key slot as w n h) = pendingSize h"
  "pending_keys (push_commit key slot as w n h) = pending_keys h"
  "maxSessionCount (push_commit key slot as w n h) = maxSessionCount h"
  "eventQueueCapacity (push_commit key slot as w n h) = eventQueueCapacity h"
  "emittedDiagnostics (push_commit key slot as w n h) = emittedDiagnostics h"
  by (simp_all add: push_commit_def pending_keys_def)

lemma core_push_commit:
  assumes "handoff_core h" "length (eventQueue h) < eventQueueCapacity h"
    and "find_slot h key = Some old" "slot_ok (committed_slot slot)"
    and "pendingRegistered slot = pendingRegistered old"
  shows "handoff_core (push_commit key slot as w n h)"
proof -
  let ?h = "h\<lparr>allocations := as, eventQueue := eventQueue h @ [promoted_event key slot],
                eventDepth := eventDepth h + 1, eventHighWatermark := w, notifyCount := n\<rparr>"
  have "handoff_core ?h" using assms(1,2) by (simp add: handoff_core_def pending_keys_def)
  then show ?thesis
    unfolding push_commit_def using assms(3-5)
    by (intro core_set_slot [of ?h key old]) (simp_all add: committed_slot_def)
qed

lemma settled_push_commit:
  "settled work h \<Longrightarrow> settled (insert key work) (push_commit key slot as w n h)"
  by (auto simp: settled_def)

lemma PromoteOne_disj:
  assumes "handoff_core h" "key \<noteq> 0" "slot_ok slot" "waiting slot"
  shows "\<exists>as. (\<exists>w n. length (eventQueue h) < eventQueueCapacity h \<and>
        PromoteOne key slot h =
          (NrStatus_Success, push_commit key slot as w n h)) \<or>
      (length (eventQueue h) = eventQueueCapacity h \<and>
        PromoteOne key slot h = (NrStatus_Failure NrErrorCode.QueueFull, h\<lparr>allocations := as\<rparr>)) \<or>
      (allocations h \<noteq> [] \<and> PromoteOne key slot h = (NrStatus_Failure NrErrorCode.OutOfMemory, h\<lparr>allocations := as\<rparr>))"
proof -
  let ?ls = "lifecycleState slot"
  obtain ok as where a: "allocate (allocations h) = (ok, as)" by (rule allocate_cases)
  have core: "handoff_core (h\<lparr>allocations := as\<rparr>)" using assms(1) by simp
  have created: "(case NextPendingKind ?ls of
           NotifySessionAccepted \<Rightarrow>
             (case slotSendChannelControl slot of
                None \<Rightarrow> (Inl (NrStatus_Failure NrErrorCode.InvalidState), allocations h)
              | Some control \<Rightarrow> CreateSessionAccepted key control (allocations h))
         | NotifySessionClosed \<Rightarrow>
             (case Lifecycle_GetEndReason ?ls of
                Inl status \<Rightarrow> (Inl status, allocations h)
              | Inr reason \<Rightarrow> CreateSessionClosed key reason (allocations h))
         | NotifyNone \<Rightarrow> (Inl (NrStatus_Failure NrErrorCode.InvalidState), allocations h)) =
     (if ok then Inr (promoted_event key slot) else Inl (NrStatus_Failure NrErrorCode.OutOfMemory), as)"
    using assms(2-4) a
    by (auto simp: waiting_def NextPendingKind_def slot_ok_def Let_def CreateSessionAccepted_def
        CreateSessionClosed_def Lifecycle_GetEndReason_def promoted_event_def split: if_splits)
  have commit: "CommitNextPending ?ls = (NrStatus_Success, lifecycleState (committed_slot slot))"
    using assms(4) by (auto simp: waiting_def CommitNextPending_def committed_slot_def
        split: NrToWorldLifecycleNotificationKind.splits)
  have slot: "slot\<lparr>lifecycleState := lifecycleState (committed_slot slot)\<rparr> = committed_slot slot"
    by (simp add: committed_slot_def)
  have cap: "eventQueue (h\<lparr>allocations := as\<rparr>) = eventQueue h"
    "eventQueueCapacity (h\<lparr>allocations := as\<rparr>) = eventQueueCapacity h" by simp_all
  show ?thesis
  proof (cases ok)
    case True
    then show ?thesis
      using TryPushEvent_cases [OF core, of "promoted_event key slot"] unfolding cap
      by (elim disjE conjE exE) (fastforce simp: PromoteOne_def Let_def created commit slot push_commit_def)+
  next
    case False
    moreover have "allocations h \<noteq> []" using False a by auto
    ultimately show ?thesis by (intro exI [of _ as]) (simp add: PromoteOne_def Let_def created)
  qed
qed

lemma PromoteOne_cases:
  assumes "handoff_core h" "key \<noteq> 0" "slot_ok slot" "waiting slot" "PromoteOne key slot h = (st, h')"
  obtains (ok) as w n where "length (eventQueue h) < eventQueueCapacity h" "st = NrStatus_Success"
      "h' = push_commit key slot as w n h"
    | (full) as where "length (eventQueue h) = eventQueueCapacity h"
        "st = NrStatus_Failure NrErrorCode.QueueFull" "h' = h\<lparr>allocations := as\<rparr>"
    | (memory) as where "allocations h \<noteq> []" "st = NrStatus_Failure NrErrorCode.OutOfMemory"
        "h' = h\<lparr>allocations := as\<rparr>"
proof -
  have "\<exists>as. (\<exists>w n. length (eventQueue h) < eventQueueCapacity h \<and> st = NrStatus_Success \<and>
        h' = push_commit key slot as w n h) \<or>
      (length (eventQueue h) = eventQueueCapacity h \<and>
        st = NrStatus_Failure NrErrorCode.QueueFull \<and> h' = h\<lparr>allocations := as\<rparr>) \<or>
      (allocations h \<noteq> [] \<and> st = NrStatus_Failure NrErrorCode.OutOfMemory \<and> h' = h\<lparr>allocations := as\<rparr>)"
    using PromoteOne_disj [OF assms(1-4)] unfolding assms(5) prod.inject .
  then show ?thesis
  proof (elim exE disjE conjE)
    fix as w n
    assume "length (eventQueue h) < eventQueueCapacity h" "st = NrStatus_Success"
      "h' = push_commit key slot as w n h"
    then show ?thesis by (rule ok)
  next
    fix as
    assume "length (eventQueue h) = eventQueueCapacity h" "st = NrStatus_Failure NrErrorCode.QueueFull"
      "h' = h\<lparr>allocations := as\<rparr>"
    then show ?thesis by (rule full)
  next
    fix as
    assume "allocations h \<noteq> []" "st = NrStatus_Failure NrErrorCode.OutOfMemory" "h' = h\<lparr>allocations := as\<rparr>"
    then show ?thesis by (rule memory)
  qed
qed

lemma waiting_cases:
  assumes "waiting slot"
  obtains (accepted) "acceptedRecorded (lifecycleState slot)" "\<not> acceptedCommitted (lifecycleState slot)"
      "NextPendingKind (lifecycleState slot) = NotifySessionAccepted"
      "committed_slot slot = slot\<lparr>lifecycleState := (lifecycleState slot)\<lparr>acceptedCommitted := True\<rparr>\<rparr>"
    | (closed) "acceptedCommitted (lifecycleState slot)" "closedRecorded (lifecycleState slot)"
      "\<not> closedCommitted (lifecycleState slot)"
      "NextPendingKind (lifecycleState slot) = NotifySessionClosed"
      "committed_slot slot = slot\<lparr>lifecycleState := (lifecycleState slot)\<lparr>closedCommitted := True\<rparr>\<rparr>"
proof (cases "NextPendingKind (lifecycleState slot)")
  case NotifyNone
  then show ?thesis using assms by (simp add: waiting_def)
next
  case NotifySessionAccepted
  then have "acceptedRecorded (lifecycleState slot) \<and> \<not> acceptedCommitted (lifecycleState slot)"
    by (auto simp: NextPendingKind_def split: if_splits)
  moreover have "committed_slot slot = slot\<lparr>lifecycleState := (lifecycleState slot)\<lparr>acceptedCommitted := True\<rparr>\<rparr>"
    by (simp add: committed_slot_def CommitNextPending_def NotifySessionAccepted)
  ultimately show ?thesis using NotifySessionAccepted by (elim conjE) (rule accepted)
next
  case NotifySessionClosed
  then have "acceptedCommitted (lifecycleState slot) \<and> closedRecorded (lifecycleState slot) \<and>
      \<not> closedCommitted (lifecycleState slot)"
    by (auto simp: NextPendingKind_def split: if_splits)
  moreover have "committed_slot slot = slot\<lparr>lifecycleState := (lifecycleState slot)\<lparr>closedCommitted := True\<rparr>\<rparr>"
    by (simp add: committed_slot_def CommitNextPending_def NotifySessionClosed)
  ultimately show ?thesis using NotifySessionClosed by (elim conjE) (rule closed)
qed

lemma pendingRegistered_committed [simp]: "pendingRegistered (committed_slot slot) = pendingRegistered slot"
  by (simp add: committed_slot_def)

lemma slot_ok_committed:
  assumes "slot_ok slot" "waiting slot"
  shows "slot_ok (committed_slot slot)"
  using assms(2) by (cases rule: waiting_cases) (use assms(1) in \<open>auto simp: slot_ok_def Let_def\<close>)

lemma committed_not_waiting:
  assumes "closedCommitted (lifecycleState slot)" "slot_ok slot"
  shows "\<not> waiting slot"
  using assms by (simp add: waiting_def NextPendingKind_def slot_ok_def Let_def)

lemma slot_phase_waiting:
  assumes "slot_ok slot" "waiting slot"
  shows "slot_phase (Some slot) =
    (if NextPendingKind (lifecycleState slot) = NotifySessionAccepted then Outside else Inside)"
    and "slot_phase (Some (committed_slot slot)) =
    (if NextPendingKind (lifecycleState slot) = NotifySessionAccepted then Inside else Outside)"
  using assms(2)
  by (cases rule: waiting_cases; use assms(1) in \<open>simp add: slot_phase_def slot_ok_def Let_def\<close>)+

lemma promoted_event_key [simp]: "eventSessionKey (promoted_event key slot) = key"
  by (simp add: promoted_event_def NrToWorldHandoffEvent_construct_def)

lemma promoted_event_kind:
  "eventKind (promoted_event key slot) =
    (if NextPendingKind (lifecycleState slot) = NotifySessionAccepted then SessionAccepted else SessionClosed)"
  by (simp add: promoted_event_def NrToWorldHandoffEvent_construct_def)

lemma promoted_event_phase:
  assumes "slot_ok slot" "waiting slot" "session_phase key events = slot_phase (Some slot)"
  shows "session_phase key (events @ [promoted_event key slot]) = slot_phase (Some (committed_slot slot))"
  using assms(3) by (simp add: promoted_event_kind slot_phase_waiting [OF assms(1,2)])

lemma promoted_event_facts:
  assumes "slot_ok slot" "waiting slot"
  shows "published_fact key (promoted_event key slot) @ owed_facts (Some (committed_slot slot)) =
      owed_facts (Some slot)"
    and "k \<noteq> key \<Longrightarrow> published_fact k (promoted_event key slot) = []"
proof -
  show "published_fact key (promoted_event key slot) @ owed_facts (Some (committed_slot slot)) =
      owed_facts (Some slot)"
    using assms(2)
  proof (cases rule: waiting_cases)
    case accepted
    then show ?thesis
      using assms(1)
      by (simp add: published_fact_def promoted_event_def NrToWorldHandoffEvent_construct_def
          owed_facts_def Let_def)
  next
    case closed
    then show ?thesis
      using assms(1)
      by (simp add: published_fact_def promoted_event_def NrToWorldHandoffEvent_construct_def
          owed_facts_def Let_def)
  qed
qed (simp add: published_fact_def)

lemma inv_slotD:
  assumes "handoff_inv popped work h" "find_slot h key = Some slot"
  shows "slot_ok slot" "key \<noteq> 0" "session_phase key (popped @ eventQueue h) = slot_phase (Some slot)"
    "key \<notin> work \<Longrightarrow> pendingRegistered slot \<longleftrightarrow> waiting slot"
    "key \<notin> work \<Longrightarrow> \<not> closedCommitted (lifecycleState slot)"
    "recorded_facts key (emittedDiagnostics h) =
      published_facts key (popped @ eventQueue h) @ owed_facts (Some slot)"
proof -
  have "session_phase key (popped @ eventQueue h) = slot_phase (find_slot h key)"
    "recorded_facts key (emittedDiagnostics h) =
      published_facts key (popped @ eventQueue h) @ owed_facts (find_slot h key)"
    using assms(1) unfolding handoff_inv_def history_ok_def by blast+
  then show "session_phase key (popped @ eventQueue h) = slot_phase (Some slot)"
    "recorded_facts key (emittedDiagnostics h) =
      published_facts key (popped @ eventQueue h) @ owed_facts (Some slot)"
    by (simp_all only: assms(2))
qed (use assms in \<open>auto simp: handoff_inv_def handoff_core_def settled_def\<close>)

text \<open>Writing a new fact to a slot, and logging it.\<close>

lemma inv_set_slot:
  assumes "handoff_inv popped work h" "find_slot h key = Some old"
    and "slot_ok slot" "pendingRegistered slot = pendingRegistered old"
    and "slot_phase (Some slot) = slot_phase (Some old)"
    and "owed_facts (Some slot) = owed_facts (Some old) @ recorded_fact key d"
    and "\<And>k. k \<noteq> key \<Longrightarrow> recorded_fact k d = []"
  shows "handoff_inv popped (insert key work)
    ((set_slot key slot h)\<lparr>emittedDiagnostics := emittedDiagnostics h @ [d]\<rparr>)"
proof -
  note old = inv_slotD [OF assms(1,2)]
  have hist: "history_ok (popped @ eventQueue h) h" using assms(1) by (simp add: handoff_inv_def)
  have "history_ok (popped @ eventQueue h)
      ((set_slot key slot h)\<lparr>emittedDiagnostics := emittedDiagnostics h @ [d]\<rparr>)"
    unfolding history_ok_def
  proof (intro allI conjI)
    fix k
    show "session_phase k (popped @ eventQueue h) =
        slot_phase (find_slot ((set_slot key slot h)\<lparr>emittedDiagnostics := emittedDiagnostics h @ [d]\<rparr>) k)"
      using hist old(3) assms(5) by (simp add: history_ok_def)
    show "recorded_facts k (emittedDiagnostics
          ((set_slot key slot h)\<lparr>emittedDiagnostics := emittedDiagnostics h @ [d]\<rparr>)) =
        published_facts k (popped @ eventQueue h) @
        owed_facts (find_slot ((set_slot key slot h)\<lparr>emittedDiagnostics := emittedDiagnostics h @ [d]\<rparr>) k)"
      using hist old(6) assms(6,7) by (cases "k = key") (simp_all add: history_ok_def)
  qed
  moreover have "settled (insert key work)
      ((set_slot key slot h)\<lparr>emittedDiagnostics := emittedDiagnostics h @ [d]\<rparr>)"
    using assms(1) settled_set_slot [of work h key slot] by (simp add: handoff_inv_def)
  moreover have "handoff_core ((set_slot key slot h)\<lparr>emittedDiagnostics := emittedDiagnostics h @ [d]\<rparr>)"
    using assms(1) core_set_slot [OF _ assms(2-4)] by (simp add: handoff_inv_def)
  ultimately show ?thesis by (simp add: handoff_inv_def)
qed

lemma PromoteOne_inv:
  assumes "handoff_inv popped work h" "find_slot h key = Some slot" "waiting slot"
    and p: "PromoteOne key slot h = (st, h')"
  shows "handoff_inv popped (insert key work) h'"
    and "st = NrStatus_Success \<and> find_slot h' key = Some (committed_slot slot) \<or>
      (st = NrStatus_Failure NrErrorCode.QueueFull \<and> length (eventQueue h) = eventQueueCapacity h \<or>
       st = NrStatus_Failure NrErrorCode.OutOfMemory \<and> allocations h \<noteq> []) \<and> find_slot h' key = Some slot"
    and "pendingSize h' = pendingSize h" "maxSessionCount h' = maxSessionCount h"
    and "eventQueueCapacity h' = eventQueueCapacity h"
    and "eventQueue h' = (if st = NrStatus_Success then eventQueue h @ [promoted_event key slot] else eventQueue h)"
proof -
  note slot = inv_slotD [OF assms(1,2)]
  have core: "handoff_core h" and st0: "settled work h" and hist: "history_ok (popped @ eventQueue h) h"
    using assms(1) by (simp_all add: handoff_inv_def)
  note sound = slot_ok_committed [OF slot(1) assms(3)]
  note phase = promoted_event_phase [OF slot(1) assms(3) slot(3)]
  have unchanged: "handoff_inv popped (insert key work) (h\<lparr>allocations := as\<rparr>)" for as
    using core hist settled_mono [OF st0] by (auto simp: handoff_inv_def)
  have success: "handoff_inv popped (insert key work) (push_commit key slot as w n h)"
    if "length (eventQueue h) < eventQueueCapacity h" for as w n
  proof -
    have "session_phase k ((popped @ eventQueue h) @ [promoted_event key slot]) =
          slot_phase (find_slot (push_commit key slot as w n h) k)" for k
    proof (cases "k = key")
      case True
      then show ?thesis using phase by simp
    next
      case False
      then have "session_phase k ((popped @ eventQueue h) @ [promoted_event key slot]) =
          session_phase k (popped @ eventQueue h)"
        by (simp only: session_phase_snoc) simp
      then show ?thesis using False hist by (simp add: history_ok_def)
    qed
    moreover have "recorded_facts k (emittedDiagnostics h) =
        published_facts k ((popped @ eventQueue h) @ [promoted_event key slot]) @
        owed_facts (find_slot (push_commit key slot as w n h) k)" for k
      using hist slot(6) promoted_event_facts(1) [OF slot(1) assms(3), where key = key]
        promoted_event_facts(2) [OF slot(1) assms(3), where key = key and k = k]
      by (cases "k = key") (simp_all add: history_ok_def)
    ultimately show ?thesis
      using core_push_commit [OF core that assms(2) sound refl] settled_push_commit [OF st0]
      by (simp add: handoff_inv_def history_ok_def)
  qed
  note cases = PromoteOne_cases [OF core slot(2) slot(1) assms(3) p]
  show "handoff_inv popped (insert key work) h'"
    by (cases rule: cases) (simp_all only: success unchanged)
  show "st = NrStatus_Success \<and> find_slot h' key = Some (committed_slot slot) \<or>
      (st = NrStatus_Failure NrErrorCode.QueueFull \<and> length (eventQueue h) = eventQueueCapacity h \<or>
       st = NrStatus_Failure NrErrorCode.OutOfMemory \<and> allocations h \<noteq> []) \<and> find_slot h' key = Some slot"
    by (cases rule: cases) (simp_all add: assms(2))
  show "pendingSize h' = pendingSize h" "maxSessionCount h' = maxSessionCount h"
    "eventQueueCapacity h' = eventQueueCapacity h"
    "eventQueue h' = (if st = NrStatus_Success then eventQueue h @ [promoted_event key slot] else eventQueue h)"
    by (cases rule: cases; simp)+
qed

text \<open>Registration: there is always room, since the pending keys are other slots of the map.\<close>

lemma pending_room:
  assumes "handoff_core h" "find_slot h key = Some slot" "\<not> pendingRegistered slot"
  shows "pendingSize h < maxSessionCount h" "key \<notin> set (pending_keys h)"
proof -
  have notin: "key \<notin> set (pending_keys h)" using assms by (auto simp: handoff_core_def)
  have "set (pending_keys h) \<subseteq> fst ` set (publicationSlots h)"
    using assms(1) by (force simp: handoff_core_def dest!: map_of_SomeD)
  moreover have "key \<in> fst ` set (publicationSlots h)"
    using assms(2) by (force dest!: map_of_SomeD)
  ultimately have "set (pending_keys h) \<subset> set (map fst (publicationSlots h))" using notin by auto
  then have "card (set (pending_keys h)) < card (set (map fst (publicationSlots h)))"
    by (intro psubset_card_mono) simp_all
  also have "\<dots> \<le> length (publicationSlots h)" using card_length [of "map fst (publicationSlots h)"] by simp
  finally have "length (pending_keys h) < length (publicationSlots h)"
    using assms(1) distinct_card [of "pending_keys h"] by (simp add: handoff_core_def)
  then show "pendingSize h < maxSessionCount h"
    using assms(1) by (simp add: handoff_core_def pending_keys_def)
  show "key \<notin> set (pending_keys h)" by (rule notin)
qed

lemma RegisterPending_inv:
  assumes "handoff_inv popped (insert key work) h" "find_slot h key = Some slot"
    and "\<not> pendingRegistered slot" "waiting slot" "\<not> closedCommitted (lifecycleState slot)"
  shows "handoff_inv popped work (RegisterPending key h)"
    and "pendingSize (RegisterPending key h) = pendingSize h + 1"
    and "eventQueue (RegisterPending key h) = eventQueue h"
    and "find_slot (RegisterPending key h) key = Some (slot\<lparr>pendingRegistered := True\<rparr>)"
    and "pending_keys (RegisterPending key h) = pending_keys h @ [key]"
proof -
  have core: "handoff_core h" using assms(1) by (simp add: handoff_inv_def)
  note room = pending_room [OF core assms(2,3)]
  let ?slot = "slot\<lparr>pendingRegistered := True\<rparr>"
  let ?tail = "(pendingHead h + pendingSize h) mod maxSessionCount h"
  let ?h = "set_slot key ?slot (h\<lparr>pendingEntries := (pendingEntries h)[?tail := key],
      pendingSize := pendingSize h + 1\<rparr>)"
  have r: "RegisterPending key h = ?h"
    using room assms(2,3) by (simp add: RegisterPending_def Let_def)
  have len: "length (pendingEntries h) = maxSessionCount h" using core by (simp add: handoff_core_def)
  have keys: "pending_keys ?h = pending_keys h @ [key]"
    using ring_list_push [of "pendingSize h" "pendingEntries h" "pendingHead h" key] room(1) len
    by (simp add: pending_keys_def)
  have "handoff_core ?h"
    unfolding handoff_core_def keys
    using core room assms(2) inv_slotD(1) [OF assms(1,2)]
    by (auto simp: handoff_core_def distinct_update length_update_existing [OF assms(2)] slot_ok_def)
  moreover have "settled work ?h"
    using assms by (auto simp: handoff_inv_def settled_def waiting_def)
  moreover have "history_ok (popped @ eventQueue ?h) ?h"
    using inv_slotD(3,6) [OF assms(1,2)] assms(1)
    by (simp add: handoff_inv_def history_ok_def slot_phase_def owed_facts_def)
  ultimately show "handoff_inv popped work (RegisterPending key h)" by (simp add: r handoff_inv_def)
  show "pending_keys (RegisterPending key h) = pending_keys h @ [key]" unfolding r by (rule keys)
qed (use assms pending_room [of h key slot] in \<open>simp_all add: RegisterPending_def Let_def handoff_inv_def\<close>)

lemma Deferred_inv:
  assumes "handoff_inv popped work h" "find_slot h key = Some slot"
  shows "handoff_inv popped work (RecordLifecyclePublicationDeferred key h)"
    and "\<exists>kind. find_slot (RecordLifecyclePublicationDeferred key h) key = Some (slot\<lparr>lastDeferredKind := kind\<rparr>)"
    and "pendingSize (RecordLifecyclePublicationDeferred key h) = pendingSize h"
    and "eventQueue (RecordLifecyclePublicationDeferred key h) = eventQueue h"
    and "pending_keys (RecordLifecyclePublicationDeferred key h) = pending_keys h"
proof -
  let ?slot = "slot\<lparr>lastDeferredKind := NextPendingKind (lifecycleState slot)\<rparr>"
  have d: "RecordLifecyclePublicationDeferred key h =
      (if lastDeferredKind slot = NextPendingKind (lifecycleState slot) then h
       else record_metric ToWorldLifecyclePublicationDeferred (set_slot key ?slot h))"
    using assms(2) by (simp add: RecordLifecyclePublicationDeferred_def Let_def)
  have "handoff_core (set_slot key ?slot h)"
    using assms inv_slotD(1) [OF assms]
    by (intro core_set_slot [of h key slot]) (simp_all add: handoff_inv_def slot_ok_def)
  moreover have "settled work (set_slot key ?slot h)"
    using assms by (auto simp: handoff_inv_def settled_def waiting_def)
  moreover have "history_ok (popped @ eventQueue h) (set_slot key ?slot h)"
    using inv_slotD(3,6) [OF assms] assms(1)
    by (simp add: handoff_inv_def history_ok_def slot_phase_def owed_facts_def)
  ultimately have "handoff_inv popped work (set_slot key ?slot h)" by (simp add: handoff_inv_def)
  then show "handoff_inv popped work (RecordLifecyclePublicationDeferred key h)"
    using assms(1) by (simp add: d record_metric_def)
  show "\<exists>kind. find_slot (RecordLifecyclePublicationDeferred key h) key = Some (slot\<lparr>lastDeferredKind := kind\<rparr>)"
    using assms(2) by (auto simp: d record_metric_def intro: exI [of _ "lastDeferredKind slot"])
  show "pendingSize (RecordLifecyclePublicationDeferred key h) = pendingSize h"
    "eventQueue (RecordLifecyclePublicationDeferred key h) = eventQueue h"
    "pending_keys (RecordLifecyclePublicationDeferred key h) = pending_keys h"
    by (simp_all add: d record_metric_def pending_keys_def)
qed

text \<open>Taking a key out of the set of keys in work.\<close>

lemma inv_settle:
  assumes "handoff_inv popped (insert key work) h" "find_slot h key = Some slot"
    and "pendingRegistered slot \<longleftrightarrow> waiting slot" "\<not> closedCommitted (lifecycleState slot)"
  shows "handoff_inv popped work h"
proof -
  have "settled work h"
    unfolding settled_def
  proof (intro allI impI)
    fix k s assume "k \<notin> work" "find_slot h k = Some s"
    then show "(pendingRegistered s \<longleftrightarrow> waiting s) \<and> \<not> closedCommitted (lifecycleState s)"
      using assms by (cases "k = key") (auto simp: handoff_inv_def settled_def)
  qed
  then show ?thesis using assms(1) by (simp add: handoff_inv_def)
qed

lemma inv_work_mono: "handoff_inv popped work h \<Longrightarrow> work \<subseteq> work' \<Longrightarrow> handoff_inv popped work' h"
  by (auto simp: handoff_inv_def settled_def)

lemma inv_erase:
  assumes "handoff_inv popped (insert key work) h" "find_slot h key = Some slot"
    and "\<not> pendingRegistered slot" "slot_phase (Some slot) = Outside" "owed_facts (Some slot) = []"
  shows "handoff_inv popped work (erase_slot key h)"
proof -
  have "handoff_core (erase_slot key h)"
    using assms by (intro core_erase_slot) (simp_all add: handoff_inv_def)
  moreover have "settled work (erase_slot key h)"
    using assms(1) by (auto simp: handoff_inv_def settled_def)
  moreover have "history_ok (popped @ eventQueue h) (erase_slot key h)"
    using inv_slotD(3,6) [OF assms(1,2)] assms(1,4,5)
    by (simp add: handoff_inv_def history_ok_def) (simp add: slot_phase_def owed_facts_def)
  ultimately show ?thesis by (simp add: handoff_inv_def)
qed

text \<open>One failed promotion: the fact goes back into the pending ring.\<close>

definition defer_key :: "NrSessionKey \<Rightarrow> NrToWorldHandoff \<Rightarrow> NrToWorldHandoff" where
  "defer_key key h = RegisterPending key (RecordLifecyclePublicationDeferred key h)"

lemma defer_key_inv:
  assumes "handoff_inv popped (insert key work) h" "find_slot h key = Some slot"
    and "\<not> pendingRegistered slot" "waiting slot" "\<not> closedCommitted (lifecycleState slot)"
  shows "handoff_inv popped work (defer_key key h)" "eventQueue (defer_key key h) = eventQueue h"
    "pendingSize (defer_key key h) = pendingSize h + 1"
    "pending_keys (defer_key key h) = pending_keys h @ [key]"
proof -
  note d = Deferred_inv [OF assms(1,2)]
  obtain kind where f: "find_slot (RecordLifecyclePublicationDeferred key h) key = Some (slot\<lparr>lastDeferredKind := kind\<rparr>)"
    using d(2) by blast
  have "\<not> pendingRegistered (slot\<lparr>lastDeferredKind := kind\<rparr>)" "waiting (slot\<lparr>lastDeferredKind := kind\<rparr>)"
    "\<not> closedCommitted (lifecycleState (slot\<lparr>lastDeferredKind := kind\<rparr>))"
    using assms(3-5) by (simp_all add: waiting_def)
  note r = RegisterPending_inv [OF d(1) f this]
  show "handoff_inv popped work (defer_key key h)" unfolding defer_key_def by (rule r(1))
  show "eventQueue (defer_key key h) = eventQueue h" unfolding defer_key_def by (simp only: r(3) d(4))
  show "pendingSize (defer_key key h) = pendingSize h + 1" unfolding defer_key_def by (simp only: r(2) d(3))
  show "pending_keys (defer_key key h) = pending_keys h @ [key]" unfolding defer_key_def by (simp only: r(5) d(5))
qed

text \<open>Taking the first pending key: its slot exists and waits.\<close>

abbreviation pop_pending :: "NrToWorldHandoff \<Rightarrow> NrToWorldHandoff" where
  "pop_pending h \<equiv> h\<lparr>pendingHead := (pendingHead h + 1) mod maxSessionCount h, pendingSize := pendingSize h - 1\<rparr>"

lemma pop_pending_inv:
  assumes "handoff_inv popped {} h" "pendingSize h \<noteq> 0"
    and key: "key = pendingEntries h ! pendingHead h"
  obtains slot where "find_slot h key = Some slot" "waiting slot" "\<not> closedCommitted (lifecycleState slot)"
    "handoff_inv popped {key} (set_slot key (slot\<lparr>pendingRegistered := False\<rparr>) (pop_pending h))"
    "pending_keys h = key # pending_keys (pop_pending h)"
proof -
  have core: "handoff_core h" using assms(1) by (simp add: handoff_inv_def)
  have len: "length (pendingEntries h) = maxSessionCount h" "pendingHead h < maxSessionCount h"
    using core by (simp_all add: handoff_core_def)
  have keys: "pending_keys h = key # pending_keys (pop_pending h)"
    using ring_list_pop [of "pendingHead h" "pendingEntries h" "pendingSize h - 1"] len assms(2)
    by (simp add: pending_keys_def key)
  then have "key \<in> set (pending_keys h)" by simp
  then obtain slot where slot: "find_slot h key = Some slot" "pendingRegistered slot"
    using core by (auto simp: handoff_core_def)
  note facts = inv_slotD [OF assms(1) slot(1)]
  let ?slot = "slot\<lparr>pendingRegistered := False\<rparr>"
  let ?h = "set_slot key ?slot (pop_pending h)"
  have keys': "pending_keys ?h = pending_keys (pop_pending h)" by (simp add: pending_keys_def)
  have mem: "k \<in> set (pending_keys h) \<longleftrightarrow> (\<exists>s. find_slot h k = Some s \<and> pendingRegistered s)" for k
    using core by (simp add: handoff_core_def)
  have dist: "distinct (key # pending_keys (pop_pending h))" using core keys by (simp add: handoff_core_def)
  have "k \<in> set (pending_keys ?h) \<longleftrightarrow> (\<exists>s. find_slot ?h k = Some s \<and> pendingRegistered s)" for k
    using mem [of k] dist unfolding keys keys' by (cases "k = key") auto
  moreover have "(pendingHead h + 1) mod maxSessionCount h < maxSessionCount h"
    using len(2) by (intro mod_less_divisor) simp
  moreover have "slot_ok ?slot" using facts(1) by (simp add: slot_ok_def)
  ultimately have "handoff_core ?h"
    using core dist keys' slot(1) facts(2)
    unfolding handoff_core_def
    by (elim conjE) (simp add: distinct_update length_update_existing [OF slot(1)])
  moreover have "settled {key} ?h" using assms(1) by (auto simp: handoff_inv_def settled_def)
  moreover have "history_ok (popped @ eventQueue h) ?h"
    using facts(3,6) assms(1) by (simp add: handoff_inv_def history_ok_def slot_phase_def owed_facts_def)
  ultimately have "handoff_inv popped {key} ?h" by (simp add: handoff_inv_def)
  then show ?thesis using slot facts(4,5) keys by (intro that [of slot]) simp_all
qed

text \<open>
  The invariant survives the loop, the queue only grows, and with a key pending, room in the queue
  and no allocation failure to come it grows by at least one event.
\<close>

definition can_promote :: "NrToWorldHandoff \<Rightarrow> bool" where
  "can_promote h \<longleftrightarrow>
     pendingSize h \<noteq> 0 \<and> allocations h = [] \<and> length (eventQueue h) < eventQueueCapacity h"

lemma PromotePendingTurns_step:
  assumes "handoff_inv popped {} h"
  shows "handoff_inv popped {} (PromotePendingTurns turns h) \<and>
    length (eventQueue h) + (if turns \<noteq> 0 \<and> can_promote h then 1 else 0) \<le>
      length (eventQueue (PromotePendingTurns turns h))"
  using assms
proof (induction turns arbitrary: h)
  case (Suc turns)
  have IH: "handoff_inv popped {} (PromotePendingTurns turns X)"
    "length (eventQueue X) \<le> length (eventQueue (PromotePendingTurns turns X))"
    if "handoff_inv popped {} X" for X
    using Suc.IH [OF that] by (metis add_leD1)+
  show ?case
  proof (cases "pendingSize h = 0")
    case False
    let ?key = "pendingEntries h ! pendingHead h"
    obtain slot where slot: "find_slot h ?key = Some slot" "waiting slot"
        "\<not> closedCommitted (lifecycleState slot)"
      and inv1: "handoff_inv popped {?key}
        (set_slot ?key (slot\<lparr>pendingRegistered := False\<rparr>) (pop_pending h))"
      by (rule pop_pending_inv [OF Suc.prems False refl])
    let ?slot = "slot\<lparr>pendingRegistered := False\<rparr>"
    let ?h1 = "set_slot ?key ?slot (pop_pending h)"
    have wait: "waiting ?slot" "\<not> pendingRegistered ?slot" "\<not> closedCommitted (lifecycleState ?slot)"
      using slot by (simp_all add: waiting_def)
    have find1: "find_slot ?h1 ?key = Some ?slot" by simp
    have same: "eventQueue ?h1 = eventQueue h" "allocations ?h1 = allocations h"
      "eventQueueCapacity ?h1 = eventQueueCapacity h" by simp_all
    obtain st h2 where p: "PromoteOne ?key ?slot ?h1 = (st, h2)" by (cases "PromoteOne ?key ?slot ?h1")
    have inv2: "handoff_inv popped {?key} h2" and
      out: "st = NrStatus_Success \<and> find_slot h2 ?key = Some (committed_slot ?slot) \<or>
        Failed st \<and> \<not> can_promote h \<and> find_slot h2 ?key = Some ?slot"
      using PromoteOne_inv(1,2) [OF inv1 find1 wait(1) p] unfolding same by (auto simp: can_promote_def)
    have queue2: "eventQueue h2 = (if st = NrStatus_Success then eventQueue h @ [promoted_event ?key ?slot]
        else eventQueue h)"
      using PromoteOne_inv(6) [OF inv1 find1 wait(1) p] unfolding same .
    have step: "PromotePendingTurns (Suc turns) h =
       (if Failed st then
          if errorCode st = NrErrorCode.QueueFull then defer_key ?key h2
          else PromotePendingTurns turns (defer_key ?key h2)
        else
          let slot = the (find_slot h2 ?key) in
          if NextPendingKind (lifecycleState slot) \<noteq> NotifyNone then
            PromotePendingTurns turns (RegisterPending ?key h2)
          else if IsSessionClosedPublished (lifecycleState slot) then
            PromotePendingTurns turns (erase_slot ?key h2)
          else PromotePendingTurns turns h2)"
      using False slot(1) p by (simp add: Let_def defer_key_def)
    show ?thesis
    proof (cases "Failed st")
      case True
      then have find2: "find_slot h2 ?key = Some ?slot" and stuck: "\<not> can_promote h" using out by auto
      have same2: "eventQueue h2 = eventQueue h" using queue2 True by auto
      note d = defer_key_inv(1,2) [OF inv2 find2 wait(2,1,3)]
      have "length (eventQueue h) \<le> length (eventQueue (PromotePendingTurns turns (defer_key ?key h2)))"
        using IH(2) [OF d(1)] d(2) same2 by simp
      moreover have "length (eventQueue h) \<le> length (eventQueue (defer_key ?key h2))" using d(2) same2 by simp
      ultimately show ?thesis
        unfolding step using True stuck d(1) IH(1) [OF d(1)] by (simp only: if_True if_False simp_thms) simp
    next
      case ok: False
      then have find2: "find_slot h2 ?key = Some (committed_slot ?slot)" using out by auto
      let ?s = "committed_slot ?slot"
      have sound: "slot_ok ?s" "\<not> pendingRegistered ?s"
        using inv_slotD(1) [OF inv2 find2] by simp_all
      have len2: "length (eventQueue h2) = length (eventQueue h) + 1" using queue2 out ok by auto
      have result: ?thesis
        if "handoff_inv popped {} X" "eventQueue X = eventQueue h2"
          "PromotePendingTurns (Suc turns) h = PromotePendingTurns turns X" for X
        using IH [OF that(1)] that(2) len2 unfolding that(3) by simp
      show ?thesis
      proof (cases "waiting ?s")
        case True
        then have "\<not> closedCommitted (lifecycleState ?s)" using committed_not_waiting [OF _ sound(1)] by auto
        then have r: "handoff_inv popped {} (RegisterPending ?key h2)" "eventQueue (RegisterPending ?key h2) = eventQueue h2"
          using RegisterPending_inv(1,3) [OF _ find2 sound(2) True] inv2 by simp_all
        show ?thesis
          using True ok by (intro result [OF r], unfold step Let_def find2) (simp add: waiting_def)
      next
        case idle: False
        show ?thesis
        proof (cases "closedCommitted (lifecycleState ?s)")
          case True
          then have "handoff_inv popped {} (erase_slot ?key h2)"
            using inv2 find2 sound by (intro inv_erase [where slot = ?s])
              (simp_all add: slot_phase_def slot_ok_def owed_facts_def Let_def)
          then show ?thesis
            using True ok idle
            by (intro result [of "erase_slot ?key h2"], unfold step Let_def find2)
              (simp_all add: waiting_def IsSessionClosedPublished_def)
        next
          case False
          then have "handoff_inv popped {} h2"
            using idle sound by (intro inv_settle [OF inv2 find2]) simp_all
          then show ?thesis
            using False ok idle
            by (intro result [of h2], unfold step Let_def find2)
              (simp_all add: waiting_def IsSessionClosedPublished_def)
        qed
      qed
    qed
  qed (use Suc.prems in \<open>simp add: can_promote_def\<close>)
qed simp

lemmas PromotePendingTurns_inv = PromotePendingTurns_step [THEN conjunct1]

lemma PromotePending_inv:
  "handoff_inv popped {} h \<Longrightarrow> handoff_inv popped {} (PromotePending h)"
  unfolding PromotePending_def by (rule PromotePendingTurns_inv)

section \<open>Every operation keeps the invariant\<close>

lemma ReserveSession_inv:
  assumes "handoff_inv popped {} h"
  shows "handoff_inv popped {} (snd (ReserveSession key h))"
proof -
  have new: "handoff_inv popped {} (set_slot key NrPublicationSlot_default (h\<lparr>allocations := as\<rparr>))"
    if "key \<noteq> 0" "find_slot h key = None" "length (publicationSlots h) < maxSessionCount h" for as
  proof -
    have fresh: "key \<notin> fst ` set (publicationSlots h)" using that(2) by (simp add: map_of_eq_None_iff)
    then have "map fst (AList.update key NrPublicationSlot_default (publicationSlots h)) =
        map fst (publicationSlots h) @ [key]"
      by (simp add: update_keys)
    then have len: "length (AList.update key NrPublicationSlot_default (publicationSlots h)) =
        length (publicationSlots h) + 1"
      by (metis length_append_singleton length_map Suc_eq_plus1)
    have "key \<notin> set (pending_keys h)" using assms that(2) by (auto simp: handoff_inv_def handoff_core_def)
    then have "handoff_core (set_slot key NrPublicationSlot_default h)"
      using assms that len
      by (auto simp: handoff_inv_def handoff_core_def pending_keys_def distinct_update)
    moreover have "settled {} (set_slot key NrPublicationSlot_default h)"
      using assms by (auto simp: handoff_inv_def settled_def)
        (simp add: NrPublicationSlot_default_def NrToWorldLifecycleState_default_def)
    moreover have "slot_phase (Some NrPublicationSlot_default) = slot_phase None"
      "owed_facts (Some NrPublicationSlot_default) = owed_facts None"
      by (simp_all add: slot_phase_def owed_facts_def NrPublicationSlot_default_def
          NrToWorldLifecycleState_default_def)
    then have "history_ok (popped @ eventQueue h) (set_slot key NrPublicationSlot_default h)"
      using assms that(2) by (auto simp: handoff_inv_def history_ok_def)
    ultimately show ?thesis by (simp add: handoff_inv_def handoff_core_def settled_def history_ok_def pending_keys_def)
  qed
  then show ?thesis
    using assms by (auto simp: ReserveSession_def Let_def split: prod.splits)
qed

lemma CancelSessionReservation_inv:
  assumes "handoff_inv popped {} h"
  shows "handoff_inv popped {} (snd (CancelSessionReservation key h))"
proof -
  have "handoff_inv popped {} (erase_slot key h)"
    if "find_slot h key = Some slot" "slotSendChannelControl slot = None" "\<not> pendingRegistered slot" for slot
  proof (rule inv_erase [where slot = slot])
    show "handoff_inv popped {key} h" using assms by (rule inv_work_mono) simp
    show "slot_phase (Some slot) = Outside" "owed_facts (Some slot) = []"
      using that(2) inv_slotD(1) [OF assms that(1)]
      by (auto simp: slot_phase_def slot_ok_def owed_facts_def Let_def)
  qed (use that in simp_all)
  then show ?thesis
    using assms by (auto simp: CancelSessionReservation_def split: option.splits)
qed

text \<open>
  What \<^verbatim>\<open>RecordAccepted\<close> and \<^verbatim>\<open>RecordClosed\<close> share: the fact has been written to the slot, and
  the promotion either publishes it or leaves it pending.
\<close>

lemma promote_or_defer_inv:
  assumes "handoff_inv popped {key} h" "find_slot h key = Some slot" "waiting slot"
    and "\<not> pendingRegistered slot" "\<not> closedCommitted (lifecycleState slot)"
    and p: "PromoteOne key slot h = (st, h')"
  shows "Failed st \<Longrightarrow> handoff_inv popped {} (defer_key key h')"
    and "\<not> Failed st \<Longrightarrow> \<not> waiting (committed_slot slot) \<Longrightarrow>
      \<not> closedCommitted (lifecycleState (committed_slot slot)) \<Longrightarrow> handoff_inv popped {} h'"
    and "\<not> Failed st \<Longrightarrow> closedCommitted (lifecycleState (committed_slot slot)) \<Longrightarrow>
      handoff_inv popped {} (erase_slot key h')"
proof -
  note one = PromoteOne_inv [OF assms(1-3) p]
  have inv: "handoff_inv popped {key} h'" using one(1) by simp
  have find: "find_slot h' key = Some (if Failed st then slot else committed_slot slot)"
    using one(2) by (elim disjE conjE) simp_all
  show "handoff_inv popped {} (defer_key key h')" if "Failed st"
    using find that by (intro defer_key_inv(1) [OF inv _ assms(4,3,5)]) simp
  show "handoff_inv popped {} h'" if "\<not> Failed st" "\<not> waiting (committed_slot slot)"
    "\<not> closedCommitted (lifecycleState (committed_slot slot))"
    using find that assms(4) by (intro inv_settle [OF inv, where slot = "committed_slot slot"]) simp_all
  show "handoff_inv popped {} (erase_slot key h')" if "\<not> Failed st"
    "closedCommitted (lifecycleState (committed_slot slot))"
    using find that assms(4) slot_ok_committed [OF inv_slotD(1) [OF assms(1,2)] assms(3)]
    by (intro inv_erase [OF inv, where slot = "committed_slot slot"])
      (simp_all add: slot_phase_def slot_ok_def owed_facts_def Let_def)
qed

lemma accepted_slot:
  assumes "slot_ok slot" "\<not> acceptedRecorded (lifecycleState slot)"
    and s: "s = slot\<lparr>lifecycleState := (lifecycleState slot)\<lparr>acceptedRecorded := True\<rparr>,
      slotSendChannelControl := Some control\<rparr>"
  shows "slot_ok s" "waiting s" "NextPendingKind (lifecycleState s) = NotifySessionAccepted"
    "pendingRegistered s = pendingRegistered slot" "slot_phase (Some s) = slot_phase (Some slot)"
    "\<not> closedCommitted (lifecycleState s)" "\<not> waiting slot"
    "\<not> waiting (committed_slot s)" "\<not> closedCommitted (lifecycleState (committed_slot s))"
    "owed_facts (Some s) = owed_facts (Some slot) @ [FactAccepted]"
  using assms(1,2)
  by (auto simp: s owed_facts_def slot_ok_def Let_def waiting_def NextPendingKind_def slot_phase_def committed_slot_def
      CommitNextPending_def)

lemma RecordAccepted_inv:
  assumes "handoff_inv popped {} h"
  shows "handoff_inv popped {} (snd (RecordAccepted key control h))"
proof (cases "key = 0 \<or> handoffClosed h \<or> find_slot h key = None")
  case True
  then show ?thesis using assms by (auto simp: RecordAccepted_def)
next
  case False
  then obtain slot where slot: "find_slot h key = Some slot" by auto
  show ?thesis
  proof (cases "acceptedRecorded (lifecycleState slot)")
    case True
    then show ?thesis using False slot assms by (simp add: RecordAccepted_def Lifecycle_RecordAccepted_def)
  next
    case fresh: False
    define s where s: "s = slot\<lparr>lifecycleState := (lifecycleState slot)\<lparr>acceptedRecorded := True\<rparr>,
      slotSendChannelControl := Some control\<rparr>"
    note facts = inv_slotD [OF assms slot]
    note acc = accepted_slot [OF facts(1) fresh s]
    let ?h = "EmitSessionAccepted key (set_slot key s h)"
    have inv: "handoff_inv popped {key} ?h"
      using inv_set_slot [OF assms slot acc(1,4,5), of "EmittedAccept key"] acc(10)
      by (simp add: EmitSessionAccepted_def)
    have find: "find_slot ?h key = Some s" by (simp add: EmitSessionAccepted_def)
    have unreg: "\<not> pendingRegistered s" using facts(4) acc(4,7) by simp
    obtain st h' where p: "PromoteOne key s ?h = (st, h')" by (cases "PromoteOne key s ?h")
    have "snd (RecordAccepted key control h) = (if Failed st then defer_key key h' else h')"
      using False slot fresh p by (simp add: RecordAccepted_def Lifecycle_RecordAccepted_def Let_def s defer_key_def)
    then show ?thesis
      using promote_or_defer_inv(1,2) [OF inv find acc(2) unreg acc(6) p] acc(8,9) by simp
  qed
qed

lemma closed_slot:
  assumes "slot_ok slot" "acceptedRecorded (lifecycleState slot)" "\<not> closedRecorded (lifecycleState slot)"
    and "reason \<noteq> NoEndReason"
    and s: "s = slot\<lparr>lifecycleState := (lifecycleState slot)\<lparr>lifecycleEndReason := reason, closedRecorded := True\<rparr>\<rparr>"
  shows "slot_ok s" "waiting s" "pendingRegistered s = pendingRegistered slot"
    "slot_phase (Some s) = slot_phase (Some slot)" "\<not> closedCommitted (lifecycleState s)"
    "\<not> waiting slot \<Longrightarrow> NextPendingKind (lifecycleState s) = NotifySessionClosed"
    "\<not> waiting slot \<Longrightarrow> closedCommitted (lifecycleState (committed_slot s))"
    "owed_facts (Some s) = owed_facts (Some slot) @ [FactClosed reason]"
  using assms(1-4)
  by (auto simp: s owed_facts_def slot_ok_def Let_def waiting_def NextPendingKind_def slot_phase_def committed_slot_def
      CommitNextPending_def split: if_splits)

lemma RecordClosed_inv:
  assumes "handoff_inv popped {} h"
  shows "handoff_inv popped {} (snd (RecordClosed key reason h))"
proof (cases "handoffClosed h \<or> find_slot h key = None")
  case True
  then show ?thesis using assms by (auto simp: RecordClosed_def)
next
  case False
  then obtain slot where slot: "find_slot h key = Some slot" by auto
  note facts = inv_slotD [OF assms slot]
  have inv0: "handoff_inv popped {key} h" using assms by (rule inv_work_mono) simp
  show ?thesis
  proof (cases "reason = ServerStopping \<and> slotSendChannelControl slot = None \<and> \<not> waiting slot")
    case True
    then have "handoff_inv popped {} (erase_slot key h)"
      using inv0 slot facts by (intro inv_erase [where slot = slot])
        (auto simp: slot_phase_def slot_ok_def owed_facts_def Let_def)
    then show ?thesis using False slot True by (simp add: RecordClosed_def waiting_def)
  next
    case visible: False
    show ?thesis
    proof (cases "reason = NoEndReason \<or> \<not> acceptedRecorded (lifecycleState slot) \<or> closedRecorded (lifecycleState slot)")
      case True
      then show ?thesis
        using False slot visible assms by (auto simp: RecordClosed_def Lifecycle_RecordClosed_def waiting_def)
    next
      case ok: False
      define s where s: "s = slot\<lparr>lifecycleState :=
        (lifecycleState slot)\<lparr>lifecycleEndReason := reason, closedRecorded := True\<rparr>\<rparr>"
      have "acceptedRecorded (lifecycleState slot)" "\<not> closedRecorded (lifecycleState slot)" "reason \<noteq> NoEndReason"
        using ok by auto
      note cl = closed_slot [OF facts(1) this s]
      let ?h = "EmitSessionClosed key reason (set_slot key s h)"
      have inv: "handoff_inv popped {key} ?h"
        using inv_set_slot [OF assms slot cl(1,3,4), of "EmittedClose key reason"] cl(8)
        by (simp add: EmitSessionClosed_def)
      have find: "find_slot ?h key = Some s" by (simp add: EmitSessionClosed_def)
      obtain st h' where p: "PromoteOne key s ?h = (st, h')" by (cases "PromoteOne key s ?h")
      have v: "\<not> (reason = ServerStopping \<and> slotSendChannelControl slot = None \<and>
          NextPendingKind (lifecycleState slot) = NotifyNone)"
        using visible by (simp add: waiting_def)
      have step: "snd (RecordClosed key reason h) =
          (if pendingRegistered s then ?h else if Failed st then defer_key key h' else erase_slot key h')"
        using False slot ok p
        by (simp add: RecordClosed_def if_not_P [OF v] Lifecycle_RecordClosed_def Let_def s defer_key_def)
      show ?thesis
      proof (cases "pendingRegistered s")
        case True
        have "handoff_inv popped {} ?h"
          using True cl(2,5) by (intro inv_settle [OF inv find]) simp_all
        then show ?thesis using step True by simp
      next
        case unreg: False
        then have "\<not> waiting slot" using facts(4) cl(3) by simp
        then show ?thesis
          using promote_or_defer_inv(1,3) [OF inv find cl(2) unreg cl(5) p] cl(7) step unreg by simp
      qed
    qed
  qed
qed

lemma push_packet_inv:
  assumes "handoff_inv popped {} h" "find_slot h key = Some slot" "CanPublishPacket (lifecycleState slot)"
    and e: "eventSessionKey e = key" "eventKind e = PacketReceived"
    and room: "length (eventQueue h) < eventQueueCapacity h"
  shows "handoff_inv popped {} (h\<lparr>eventQueue := eventQueue h @ [e], eventDepth := eventDepth h + 1,
    eventHighWatermark := w, notifyCount := n\<rparr>)" (is "handoff_inv _ _ ?h")
proof -
  note slot = inv_slotD [OF assms(1,2)]
  have hist: "history_ok (popped @ eventQueue h) h" using assms(1) by (simp add: handoff_inv_def)
  have inside: "session_phase key (popped @ eventQueue h) = Inside"
    using slot(3,5) assms(3) by (simp add: slot_phase_def CanPublishPacket_def)
  have "history_ok ((popped @ eventQueue h) @ [e]) ?h"
    unfolding history_ok_def
  proof (intro allI conjI)
    fix k
    have "session_phase k ((popped @ eventQueue h) @ [e]) = session_phase k (popped @ eventQueue h)"
      using inside e session_phase_snoc [of k "popped @ eventQueue h" e] by (cases "k = key") auto
    then show "session_phase k ((popped @ eventQueue h) @ [e]) = slot_phase (find_slot ?h k)"
      using hist by (simp add: history_ok_def)
    show "recorded_facts k (emittedDiagnostics ?h) =
        published_facts k ((popped @ eventQueue h) @ [e]) @ owed_facts (find_slot ?h k)"
      using hist e by (simp add: history_ok_def published_fact_def)
  qed
  moreover have "handoff_core ?h"
    using assms(1) room by (intro core_push) (simp_all add: handoff_inv_def)
  moreover have "settled {} ?h" using assms(1) by (simp add: handoff_inv_def settled_def)
  ultimately show ?thesis by (simp add: handoff_inv_def)
qed

text \<open>What \<^verbatim>\<open>RecordPacket\<close> does, by cases.\<close>

definition packet_event :: "NrSessionKey \<Rightarrow> NrPacketType \<Rightarrow> byte list \<Rightarrow> NrToWorldHandoffEvent" where
  "packet_event key ptype payload =
     (NrToWorldHandoffEvent_construct PacketReceived key)\<lparr>eventPacketType := ptype, eventPayload := payload\<rparr>"

lemma CreatePacketReceived_cases:
  "\<exists>as'. CreatePacketReceived key ptype payload as = (Inr (packet_event key ptype payload), as') \<or>
    (as \<noteq> [] \<and> CreatePacketReceived key ptype payload as = (Inl (NrStatus_Failure NrErrorCode.OutOfMemory), as')) \<or>
    (key = 0 \<or> int (length payload) > 4294967295) \<and>
      CreatePacketReceived key ptype payload as = (Inl (NrStatus_Failure NrErrorCode.InvalidArgument), as')"
proof (cases "key = 0 \<or> int (length payload) > 4294967295")
  case True
  then show ?thesis by (auto simp: CreatePacketReceived_def)
next
  case False
  obtain ok1 as1 where a1: "allocate as = (ok1, as1)" by (rule allocate_cases)
  obtain ok2 as2 where a2: "allocate as1 = (ok2, as2)" by (rule allocate_cases)
  have some: "as \<noteq> []" if "\<not> ok1 \<or> \<not> ok2" using a1 a2 that by (cases as) auto
  have "CreatePacketReceived key ptype payload as =
      (if \<not> ok1 then (Inl (NrStatus_Failure NrErrorCode.OutOfMemory), as1)
       else if payload = [] then (Inr (packet_event key ptype payload), as1)
       else if \<not> ok2 then (Inl (NrStatus_Failure NrErrorCode.OutOfMemory), as2)
       else (Inr (packet_event key ptype payload), as2))"
    using False a1 a2
    by (simp add: CreatePacketReceived_def packet_event_def NrToWorldHandoffEvent_construct_def Let_def)
  then show ?thesis using some by auto
qed

lemma RecordPacket_cases:
  assumes "handoff_inv popped {} h"
  obtains (pushed) slot as w n where "find_slot h key = Some slot" "CanPublishPacket (lifecycleState slot)"
      "\<not> handoffClosed h" "length (eventQueue h) < eventQueueCapacity h"
      "RecordPacket key ptype payload h = (NrStatus_Success,
         h\<lparr>allocations := as, eventQueue := eventQueue h @ [packet_event key ptype payload],
           eventDepth := eventDepth h + 1, eventHighWatermark := w, notifyCount := n\<rparr>)"
    | (refused) st as ms where "Failed st"
        "RecordPacket key ptype payload h = (st, h\<lparr>allocations := as, recordedMetrics := ms\<rparr>)"
proof (cases "find_slot h key")
  case None
  then show ?thesis
    by (intro refused [where st = "fst (RecordPacket key ptype payload h)" and as = "allocations h" and
          ms = "recordedMetrics h"])
      (simp_all add: RecordPacket_def)
next
  case (Some slot)
  show ?thesis
  proof (cases "handoffClosed h \<or> \<not> CanPublishPacket (lifecycleState slot)")
    case True
    then show ?thesis
      using Some
      by (intro refused [where st = "fst (RecordPacket key ptype payload h)" and as = "allocations h" and
            ms = "recordedMetrics (snd (RecordPacket key ptype payload h))"])
        (auto simp: RecordPacket_def record_metric_def)
  next
    case False
    obtain r as where c: "CreatePacketReceived key ptype payload (allocations h) = (r, as)"
      by (cases "CreatePacketReceived key ptype payload (allocations h)")
    let ?h = "h\<lparr>allocations := as\<rparr>" and ?e = "packet_event key ptype payload"
    have core: "handoff_core ?h" using assms by (simp add: handoff_inv_def)
    have r: "r = Inr ?e \<or> (\<exists>st. Failed st \<and> r = Inl st)"
      using CreatePacketReceived_cases [of key ptype payload "allocations h"] c by auto
    show ?thesis
    proof (cases r)
      case (Inl st)
      then have "RecordPacket key ptype payload h = (st, h\<lparr>allocations := as, recordedMetrics := recordedMetrics h\<rparr>)"
        using False Some c by (simp add: RecordPacket_def)
      moreover have "Failed st" using r Inl by auto
      ultimately show ?thesis by (intro refused)
    next
      case (Inr e)
      then have e: "r = Inr ?e" using r by auto
      show ?thesis
      proof (cases "length (eventQueue h) < eventQueueCapacity h")
        case True
        then obtain w n where "TryPushEvent ?e ?h = (NrStatus_Success,
            ?h\<lparr>eventQueue := eventQueue ?h @ [?e], eventDepth := eventDepth ?h + 1,
               eventHighWatermark := w, notifyCount := n\<rparr>)"
          using TryPushEvent_cases [OF core, of ?e] by auto
        then have "RecordPacket key ptype payload h = (NrStatus_Success,
            h\<lparr>allocations := as, eventQueue := eventQueue h @ [?e], eventDepth := eventDepth h + 1,
              eventHighWatermark := w, notifyCount := n\<rparr>)"
          using False Some c e by (simp add: RecordPacket_def)
        then show ?thesis using False Some True by (intro pushed [where slot = slot]) simp_all
      next
        case full: False
        then have "TryPushEvent ?e ?h = (NrStatus_Failure NrErrorCode.QueueFull, ?h)"
          using TryPushEvent_cases [OF core, of ?e] by auto
        then have "RecordPacket key ptype payload h = (NrStatus_Failure NrErrorCode.QueueFull,
            h\<lparr>allocations := as, recordedMetrics := recordedMetrics h @ [ToWorldPacketAdmissionRejected]\<rparr>)"
          using False Some c e by (simp add: RecordPacket_def record_metric_def)
        then show ?thesis by (intro refused) simp_all
      qed
    qed
  qed
qed

lemma RecordPacket_inv:
  assumes "handoff_inv popped {} h"
  shows "handoff_inv popped {} (snd (RecordPacket key ptype payload h))"
  using assms
proof (cases rule: RecordPacket_cases [where key = key and ptype = ptype and payload = payload])
  case (pushed slot as w n)
  have "handoff_inv popped {} (h\<lparr>allocations := as\<rparr>)" using assms by simp
  from push_packet_inv [OF this, where key = key and slot = slot and w = w and n = n and
      e = "packet_event key ptype payload"] pushed show ?thesis
    by (simp add: packet_event_def NrToWorldHandoffEvent_construct_def)
next
  case (refused st as ms)
  then show ?thesis using assms by simp
qed

text \<open>Taking an event from the queue moves it to the history.\<close>

lemma pop_inv:
  assumes "handoff_inv popped {} h" "eventQueue h = e # q"
  shows "handoff_inv (popped @ [e]) {} (h\<lparr>eventQueue := q, eventDepth := eventDepth h - 1\<rparr>)"
  using assms by (simp add: handoff_inv_def handoff_core_def settled_def history_ok_def pending_keys_def)

lemma TryPopOneLocked_inv:
  assumes "handoff_inv popped {} h"
  shows "case TryPopOneLocked h of
      (st, Some e, h') \<Rightarrow> st = NrStatus_Success \<and> handoff_inv (popped @ [e]) {} h' \<and>
        (\<exists>q. eventQueue (PromotePending h) = e # q)
    | (st, None, h') \<Rightarrow> st = NrStatus_Failure NrErrorCode.QueueEmpty \<and> handoff_inv popped {} h' \<and>
        eventQueue (PromotePending h) = [] \<and> h' = PromotePending h"
proof -
  have inv: "handoff_inv popped {} (PromotePending h)" using assms by (rule PromotePending_inv)
  show ?thesis
  proof (cases "eventQueue (PromotePending h)")
    case Nil
    then show ?thesis using inv by (simp add: TryPopOneLocked_def Let_def spec_pop_def)
  next
    case (Cons e q)
    then show ?thesis
      using PromotePending_inv [OF pop_inv [OF inv Cons]]
      by (simp add: TryPopOneLocked_def Let_def spec_pop_def)
  qed
qed

lemma PopBatchLoop_inv:
  assumes "handoff_inv popped {} h"
  shows "case PopBatchLoop left events h of
    (st, events', n, h') \<Rightarrow> \<exists>new. events' = events @ new \<and> length new \<le> left \<and> handoff_inv (popped @ new) {} h'"
  using assms
proof (induction left arbitrary: popped events h)
  case (Suc left)
  obtain st out h1 where t: "TryPopOneLocked h = (st, out, h1)" by (cases "TryPopOneLocked h")
  show ?case
  proof (cases out)
    case None
    then show ?thesis
      using TryPopOneLocked_inv [OF Suc.prems] t by (auto intro: exI [of _ "[]"])
  next
    case (Some e)
    then have ok: "st = NrStatus_Success" and inv: "handoff_inv (popped @ [e]) {} h1"
      using TryPopOneLocked_inv [OF Suc.prems] t by auto
    obtain st' ev n h' where r: "PopBatchLoop left (events @ [e]) h1 = (st', ev, n, h')"
      by (cases "PopBatchLoop left (events @ [e]) h1")
    then obtain new where "ev = (events @ [e]) @ new" "length new \<le> left"
        "handoff_inv ((popped @ [e]) @ new) {} h'"
      using Suc.IH [OF inv, of "events @ [e]"] by auto
    then show ?thesis
      using t Some ok r by (auto intro: exI [of _ "e # new"])
  qed
qed (simp add: exI [of _ "[]"])

section \<open>Executions\<close>

text \<open>A call of the handoff's interface.\<close>

datatype handoff_call =
    CallReserve NrSessionKey
  | CallCancel NrSessionKey
  | CallAccepted NrSessionKey NrSessionSendChannelControl
  | CallPacket NrSessionKey NrPacketType "byte list"
  | CallClosed NrSessionKey NrSessionEndReason
  | CallPop
  | CallPopBatch nat
  | CallShutdown

fun handoff_step ::
    "handoff_call \<Rightarrow> NrToWorldHandoffEvent list \<times> NrToWorldHandoff \<Rightarrow>
     NrToWorldHandoffEvent list \<times> NrToWorldHandoff" where
  "handoff_step (CallReserve key) (popped, h) = (popped, snd (ReserveSession key h))"
| "handoff_step (CallCancel key) (popped, h) = (popped, snd (CancelSessionReservation key h))"
| "handoff_step (CallAccepted key control) (popped, h) = (popped, snd (RecordAccepted key control h))"
| "handoff_step (CallPacket key ptype payload) (popped, h) = (popped, snd (RecordPacket key ptype payload h))"
| "handoff_step (CallClosed key reason) (popped, h) = (popped, snd (RecordClosed key reason h))"
| "handoff_step CallPop (popped, h) =
     (case Handoff_TryPop None h of (st, out, h') \<Rightarrow>
        (case out of None \<Rightarrow> (popped, h') | Some e \<Rightarrow> (popped @ [e], h')))"
| "handoff_step (CallPopBatch n) (popped, h) =
     (case TryPopBatch (replicate n None) True h of (st, events, count, h') \<Rightarrow> (popped @ events, h'))"
| "handoff_step CallShutdown (popped, h) = (popped, snd (Handoff_Close h))"

definition handoff_run ::
    "handoff_call list \<Rightarrow> NrToWorldHandoff \<Rightarrow> NrToWorldHandoffEvent list \<times> NrToWorldHandoff" where
  "handoff_run calls h = fold handoff_step calls ([], h)"

lemma handoff_step_inv:
  assumes "handoff_inv popped {} h" "handoff_step call (popped, h) = (popped', h')"
  shows "handoff_inv popped' {} h'"
proof (cases call)
  case CallPop
  obtain st out h1 where t: "TryPopOneLocked h = (st, out, h1)" by (cases "TryPopOneLocked h")
  then show ?thesis
    using TryPopOneLocked_inv [OF assms(1)] assms(2) CallPop
    by (cases out) (auto simp: Handoff_TryPop_def)
next
  case (CallPopBatch n)
  show ?thesis
  proof (cases n)
    case 0
    then show ?thesis using assms CallPopBatch by (simp add: TryPopBatch_def)
  next
    case (Suc m)
    obtain st ev c h1 where r: "PopBatchLoop n [] h = (st, ev, c, h1)" by (cases "PopBatchLoop n [] h")
    then have "handoff_step call (popped, h) = (popped @ ev, h1)"
      using CallPopBatch Suc by (simp add: TryPopBatch_def list_ex_iff)
    then show ?thesis using PopBatchLoop_inv [OF assms(1), where left = n and events = "[]"] r assms(2) by auto
  qed
qed (use assms ReserveSession_inv CancelSessionReservation_inv RecordAccepted_inv RecordPacket_inv
      RecordClosed_inv in \<open>auto simp: Handoff_Close_def\<close>)

lemma Create_handoff_inv:
  assumes "NrToWorldHandoff_Create queueResult as reserveStatus sessionCount = Inr h"
  shows "handoff_inv [] {} h"
  using assms
  by (auto simp: NrToWorldHandoff_Create_def handoff_inv_def handoff_core_def settled_def history_ok_def
      pending_keys_def session_phase_def slot_phase_def owed_facts_def recorded_facts_def
      split: if_splits sum.splits prod.splits)

lemma handoff_run_inv:
  assumes "NrToWorldHandoff_Create queueResult as reserveStatus sessionCount = Inr h0"
    and "handoff_run calls h0 = (popped, h)"
  shows "handoff_inv popped {} h"
proof -
  have "handoff_inv (fst (fold handoff_step calls ph)) {} (snd (fold handoff_step calls ph))"
    if "handoff_inv (fst ph) {} (snd ph)" for ph
    using that
  proof (induction calls arbitrary: ph)
    case (Cons c cs)
    obtain p1 h1 where "handoff_step c ph = (p1, h1)" by (cases "handoff_step c ph")
    then have "handoff_inv p1 {} h1"
      using handoff_step_inv [of "fst ph" "snd ph" c p1 h1] Cons.prems by simp
    then show ?case using Cons.IH [of "handoff_step c ph"] \<open>handoff_step c ph = (p1, h1)\<close> by simp
  qed simp
  from this [of "([], h0)"] show ?thesis
    using Create_handoff_inv [OF assms(1)] assms(2) by (simp add: handoff_run_def)
qed

section \<open>Lifetimes\<close>

text \<open>The kinds of complete lifetimes of a session with the given numbers of packets.\<close>

definition lifetimes :: "nat list \<Rightarrow> NrToWorldHandoffEventKind list" where
  "lifetimes ns = concat (map (\<lambda>n. SessionAccepted # replicate n PacketReceived @ [SessionClosed]) ns)"

definition kinds_of :: "NrSessionKey \<Rightarrow> NrToWorldHandoffEvent list \<Rightarrow> NrToWorldHandoffEventKind list" where
  "kinds_of key events = map eventKind (filter (\<lambda>e. eventSessionKey e = key) events)"

lemma kinds_of_append [simp]: "kinds_of key (a @ b) = kinds_of key a @ kinds_of key b"
  by (simp add: kinds_of_def)

lemma kinds_of_single [simp]:
  "kinds_of key [e] = (if eventSessionKey e = key then [eventKind e] else [])" "kinds_of key [] = []"
  by (simp_all add: kinds_of_def)

lemma phase_lifetimes:
  "(session_phase key events = Outside \<longrightarrow> (\<exists>ns. kinds_of key events = lifetimes ns)) \<and>
   (session_phase key events = Inside \<longrightarrow>
      (\<exists>ns n. kinds_of key events = lifetimes ns @ SessionAccepted # replicate n PacketReceived))"
proof (induction events rule: rev_induct)
  case Nil
  show ?case by (auto simp: session_phase_def lifetimes_def intro: exI [of _ "[]"])
next
  case (snoc e events)
  show ?case
  proof (cases "eventSessionKey e = key")
    case True
    show ?thesis
    proof (cases "session_phase key events")
      case Outside
      then obtain ns where "kinds_of key events = lifetimes ns" using snoc by auto
      then show ?thesis
        using True Outside by (cases "eventKind e") (auto intro: exI [of _ ns] exI [of _ 0])
    next
      case Inside
      then obtain ns n where k: "kinds_of key events = lifetimes ns @ SessionAccepted # replicate n PacketReceived"
        using snoc by auto
      then have "kinds_of key events @ [SessionClosed] = lifetimes (ns @ [n])"
        "kinds_of key events @ [PacketReceived] = lifetimes ns @ SessionAccepted # replicate (Suc n) PacketReceived"
        by (simp_all add: lifetimes_def replicate_append_same)
      then show ?thesis
        using True Inside by (cases "eventKind e") (simp_all del: replicate.simps, blast+)
    next
      case Broken
      then show ?thesis using True by (cases "eventKind e") simp_all
    qed
  next
    case False
    then show ?thesis using snoc by simp
  qed
qed

lemma phase_Broken_snoc: "session_phase key events = Broken \<Longrightarrow> session_phase key (events @ es) = Broken"
proof (induction es rule: rev_induct)
  case (snoc e es)
  then show ?case
    unfolding append_assoc [symmetric] session_phase_snoc by (cases "eventKind e") simp_all
qed simp

lemma not_Broken_lifetimes:
  assumes "session_phase key events \<noteq> Broken"
  shows "\<exists>ns tail. kinds_of key events = lifetimes ns @ tail \<and>
    (tail = [] \<or> (\<exists>n. tail = SessionAccepted # replicate n PacketReceived))"
proof (cases "session_phase key events")
  case Outside
  then show ?thesis using phase_lifetimes [of key events] by (metis append_Nil2)
next
  case Inside
  then show ?thesis using phase_lifetimes [of key events] by blast
qed (use assms in simp)

lemma PromotePending_grows:
  assumes "handoff_inv popped {} h" "can_promote h"
  shows "eventQueue (PromotePending h) \<noteq> []"
  using PromotePendingTurns_step [OF assms(1), of "pendingSize h"] assms(2)
  by (auto simp: PromotePending_def can_promote_def)

lemma owed_pending:
  assumes "handoff_inv popped {} h" "owed_facts (find_slot h key) \<noteq> []"
  shows "key \<in> set (pending_keys h)"
proof -
  obtain slot where slot: "find_slot h key = Some slot"
    using assms(2) by (cases "find_slot h key") (simp_all add: owed_facts_def)
  note facts = inv_slotD [OF assms(1) slot]
  have "waiting slot"
    using assms(2) facts(1,5) unfolding slot
    by (auto simp: owed_facts_def Let_def waiting_def NextPendingKind_def slot_ok_def split: if_splits)
  then have "pendingRegistered slot" using facts(4) by simp
  then show ?thesis using assms(1) slot by (auto simp: handoff_inv_def handoff_core_def)
qed

text \<open>When a pop finds the queue empty, nothing was pending.\<close>

lemma empty_pop_drained:
  assumes "handoff_inv popped {} h" "allocations h = []" "0 < eventQueueCapacity h"
    and "fst (TryPopOneLocked h) = NrStatus_Failure NrErrorCode.QueueEmpty"
  shows "eventQueue h = []" "pendingSize h = 0"
proof -
  have empty: "eventQueue (PromotePending h) = []"
    using TryPopOneLocked_inv [OF assms(1)] assms(4) by (auto split: prod.splits option.splits)
  have "length (eventQueue h) \<le> length (eventQueue (PromotePending h))"
    using PromotePendingTurns_step [OF assms(1), of "pendingSize h"] by (simp add: PromotePending_def)
  then show queue: "eventQueue h = []" using empty by simp
  have "\<not> can_promote h" using PromotePending_grows [OF assms(1)] empty by blast
  then show "pendingSize h = 0" using assms(2,3) queue by (simp add: can_promote_def)
qed

section \<open>Properties\<close>

text \<open>
  Property C1. Session order. In every execution of the handoff, with any interleaving of calls for
  any sessions, any queue capacity and any pattern of allocation failures, the events the world
  receives for one session are complete lifetimes (an acceptance, then packets, then a closure)
  followed by at most one lifetime that is still open: the world never sees a packet or a closure of
  a session it has not been told about, nor a packet after the closure.
\<close>

theorem session_events_ordered:
  assumes "NrToWorldHandoff_Create queueResult as reserveStatus sessionCount = Inr h0"
    and "handoff_run calls h0 = (popped, h)"
  shows "\<exists>ns tail. kinds_of key popped = lifetimes ns @ tail \<and>
    (tail = [] \<or> (\<exists>n. tail = SessionAccepted # replicate n PacketReceived))"
proof (rule not_Broken_lifetimes)
  have "history_ok (popped @ eventQueue h) h"
    using handoff_run_inv [OF assms] by (simp add: handoff_inv_def)
  then have "session_phase key (popped @ eventQueue h) = slot_phase (find_slot h key)"
    by (simp add: history_ok_def)
  also have "\<dots> \<noteq> Broken" by (simp add: slot_phase_def split: option.splits)
  finally show "session_phase key popped \<noteq> Broken" using phase_Broken_snoc by metis
qed

text \<open>A handoff for two sessions with a queue of two events, whose second allocation fails.\<close>

definition sample_handoff :: NrToWorldHandoff where
  "sample_handoff =
     \<lparr>eventQueue = [], eventQueueCapacity = 2, recordedMetrics = [], emittedDiagnostics = [],
      publicationSlots = [], maxSessionCount = 2, pendingEntries = [0, 0], pendingHead = 0,
      pendingSize = 0, eventDepth = 0, eventHighWatermark = 0, notifyCount = 0,
      handoffClosed = False, allocations = [True, False]\<rparr>"

definition sample_calls :: "handoff_call list" where
  "sample_calls =
     [CallReserve 7, CallAccepted 7 1, CallPacket 7 3 [9], CallPop, CallPacket 7 3 [9],
      CallClosed 7 RemoteClosed, CallPop, CallPop]"

lemma sample_handoff_Create:
  "NrToWorldHandoff_Create (Inr 2) [True, True, True, True, False] NrStatus_Success 2 = Inr sample_handoff"
proof -
  have "replicate 2 (0 :: u64) = [0, 0]" by (simp add: numeral_eq_Suc)
  then show ?thesis by (simp add: NrToWorldHandoff_Create_def sample_handoff_def)
qed

lemma sample_handoff_run: "handoff_run sample_calls sample_handoff =
    (fst (handoff_run sample_calls sample_handoff), snd (handoff_run sample_calls sample_handoff))"
  by simp

theorem session_events_ordered_witness:
  "kinds_of 7 (fst (handoff_run sample_calls sample_handoff)) =
     [SessionAccepted, PacketReceived, SessionClosed] \<and>
   (\<exists>ns tail. kinds_of 7 (fst (handoff_run sample_calls sample_handoff)) = lifetimes ns @ tail \<and>
     (tail = [] \<or> (\<exists>n. tail = SessionAccepted # replicate n PacketReceived)))"
proof
  show "kinds_of 7 (fst (handoff_run sample_calls sample_handoff)) =
     [SessionAccepted, PacketReceived, SessionClosed]" by code_simp
qed (rule session_events_ordered [OF sample_handoff_Create sample_handoff_run])

text \<open>
  Property C4. Exactly once. In every execution, the lifecycle facts that were recorded for a session
  (in the diagnostics log, with their end reasons) are, in order and without duplicates, the facts
  published as events so far followed by those its slot still owes; and a session that is owed a
  fact is in the pending ring, so that every pop retries it.
\<close>

theorem lifecycle_facts_exactly_once:
  assumes "NrToWorldHandoff_Create queueResult as reserveStatus sessionCount = Inr h0"
    and "handoff_run calls h0 = (popped, h)"
  shows "recorded_facts key (emittedDiagnostics h) =
      published_facts key (popped @ eventQueue h) @ owed_facts (find_slot h key) \<and>
    (owed_facts (find_slot h key) \<noteq> [] \<longrightarrow> key \<in> set (pending_keys h))"
proof -
  have inv: "handoff_inv popped {} h" by (rule handoff_run_inv [OF assms])
  then have "history_ok (popped @ eventQueue h) h" by (simp add: handoff_inv_def)
  then show ?thesis using owed_pending [OF inv] unfolding history_ok_def by blast
qed

theorem lifecycle_facts_exactly_once_witness:
  "recorded_facts 7 (emittedDiagnostics (snd (handoff_run sample_calls sample_handoff))) =
    published_facts 7 (fst (handoff_run sample_calls sample_handoff) @
      eventQueue (snd (handoff_run sample_calls sample_handoff))) @
    owed_facts (find_slot (snd (handoff_run sample_calls sample_handoff)) 7)"
  using lifecycle_facts_exactly_once [OF sample_handoff_Create sample_handoff_run, of 7] by blast

text \<open>
  Property C35. Draining. When a pop reports that the queue is empty while allocations succeed, the
  world has received every lifecycle fact that was ever recorded, for every session: nothing is
  queued and nothing is pending.
\<close>

theorem empty_pop_means_drained:
  assumes "NrToWorldHandoff_Create queueResult as reserveStatus sessionCount = Inr h0"
    and "handoff_run calls h0 = (popped, h)"
    and "allocations h = []" "0 < eventQueueCapacity h"
    and "fst (Handoff_TryPop None h) = NrStatus_Failure NrErrorCode.QueueEmpty"
  shows "recorded_facts key (emittedDiagnostics h) = published_facts key popped \<and> PendingSlotCount h = 0"
proof -
  have inv: "handoff_inv popped {} h" by (rule handoff_run_inv [OF assms(1,2)])
  have d: "eventQueue h = []" "pendingSize h = 0"
    using assms(5) by (auto intro: empty_pop_drained [OF inv assms(3,4)] simp: Handoff_TryPop_def)
  have "pending_keys h = []" using d(2) by (simp add: pending_keys_def)
  then have "owed_facts (find_slot h key) = []" using owed_pending [OF inv, of key] by auto
  moreover have "recorded_facts key (emittedDiagnostics h) =
      published_facts key (popped @ eventQueue h) @ owed_facts (find_slot h key)"
    using inv by (simp add: handoff_inv_def history_ok_def)
  ultimately show ?thesis using d by (simp add: PendingSlotCount_def)
qed

theorem empty_pop_means_drained_witness:
  "recorded_facts 7 (emittedDiagnostics (snd (handoff_run sample_calls sample_handoff))) =
    published_facts 7 (fst (handoff_run sample_calls sample_handoff))"
proof -
  have "allocations (snd (handoff_run sample_calls sample_handoff)) = []" by code_simp
  moreover have "0 < eventQueueCapacity (snd (handoff_run sample_calls sample_handoff))" by code_simp
  moreover have "fst (Handoff_TryPop None (snd (handoff_run sample_calls sample_handoff))) =
      NrStatus_Failure NrErrorCode.QueueEmpty" by code_simp
  ultimately show ?thesis
    using empty_pop_means_drained [OF sample_handoff_Create sample_handoff_run, of 7] by blast
qed

text \<open>
  Waiting. In every reachable state a wait that does not fail reports available events exactly when the
  queue holds one, and the closed state exactly when the handoff is closed and the queue drained.
\<close>

theorem wait_reports_queue:
  assumes "NrToWorldHandoff_Create queueResult as reserveStatus sessionCount = Inr h0"
    and "handoff_run calls h0 = (popped, h)" and "0 \<le> timeout"
  shows "WaitForEvents timeout True False h =
    Inr (if eventQueue h \<noteq> [] then EventsAvailable else if handoffClosed h then WaitClosed else TimedOut)"
  using handoff_run_inv [OF assms(1,2)] assms(3)
  by (auto simp: WaitForEvents_def Let_def handoff_inv_def handoff_core_def)

theorem wait_reports_queue_witness:
  "WaitForEvents 5 True False (snd (handoff_run [CallReserve 7, CallShutdown] sample_handoff)) = Inr WaitClosed"
proof -
  let ?r = "handoff_run [CallReserve 7, CallShutdown] sample_handoff"
  have "eventQueue (snd ?r) = [] \<and> handoffClosed (snd ?r)" by code_simp
  then show ?thesis
    using wait_reports_queue [OF sample_handoff_Create, of "[CallReserve 7, CallShutdown]" "fst ?r" "snd ?r" 5]
    by simp
qed

end
