(* ===== verification/NrHandoffAsserts.thy ===== *)
theory NrHandoffAsserts imports NrHandoffProofs "HOL-Library.Monad_Syntax" begin

text \<open>
  The assertions of \<^verbatim>\<open>NrToWorldHandoff.cpp\<close>. The operations once more as a build with assertions
  executes them: every \<^verbatim>\<open>assert\<close> stands where the code has it, and a failing one ends the program,
  \<open>None\<close>. In every execution that starts with \<^verbatim>\<open>Create\<close> none of them fires, and the build with
  assertions computes what \<open>NrHandoff\<close> says.
\<close>

section \<open>The operations with their assertions\<close>

definition assertion :: "bool \<Rightarrow> unit option" where
  "assertion b = (if b then Some () else None)"

definition checked_TryPushEvent ::
    "NrToWorldHandoffEvent \<Rightarrow> NrToWorldHandoff \<Rightarrow> (NrStatus \<times> NrToWorldHandoff) option" where
  "checked_TryPushEvent event h =
     (let wasEmpty = (eventDepth h = 0) in
      case spec_push (eventQueueCapacity h) event (eventQueue h) of (pushStatus, q) \<Rightarrow>
        let h = h\<lparr>eventQueue := q\<rparr> in
        if Succeeded pushStatus then do {
          assertion (eventDepth h < eventQueueCapacity h);
          let h = h\<lparr>eventDepth := eventDepth h + 1\<rparr>;
          let h = (if eventHighWatermark h < eventDepth h then h\<lparr>eventHighWatermark := eventDepth h\<rparr> else h);
          let h = (if wasEmpty then h\<lparr>notifyCount := notifyCount h + 1\<rparr> else h);
          Some (pushStatus, h)
        }
        else Some (pushStatus, h))"

definition checked_PromoteOne ::
    "NrSessionKey \<Rightarrow> NrPublicationSlot \<Rightarrow> NrToWorldHandoff \<Rightarrow> (NrStatus \<times> NrToWorldHandoff) option" where
  "checked_PromoteOne sessionKey slot h =
     (let created =
        (case NextPendingKind (lifecycleState slot) of
           NotifySessionAccepted \<Rightarrow>
             (case slotSendChannelControl slot of
                None \<Rightarrow> (Inl (NrStatus_Failure NrErrorCode.InvalidState), allocations h)
              | Some control \<Rightarrow> CreateSessionAccepted sessionKey control (allocations h))
         | NotifySessionClosed \<Rightarrow>
             (case Lifecycle_GetEndReason (lifecycleState slot) of
                Inl status \<Rightarrow> (Inl status, allocations h)
              | Inr reason \<Rightarrow> CreateSessionClosed sessionKey reason (allocations h))
         | NotifyNone \<Rightarrow> (Inl (NrStatus_Failure NrErrorCode.InvalidState), allocations h))
      in case created of (eventResult, as) \<Rightarrow>
        let h = h\<lparr>allocations := as\<rparr> in
        case eventResult of
          Inl status \<Rightarrow> Some (status, h)
        | Inr event \<Rightarrow> do {
            (pushStatus, h) \<leftarrow> checked_TryPushEvent event h;
            if Failed pushStatus then Some (pushStatus, h)
            else case CommitNextPending (lifecycleState slot) of (commitStatus, ls) \<Rightarrow>
              Some (commitStatus, set_slot sessionKey (slot\<lparr>lifecycleState := ls\<rparr>) h)
          })"

definition checked_RegisterPending :: "NrSessionKey \<Rightarrow> NrToWorldHandoff \<Rightarrow> NrToWorldHandoff option" where
  "checked_RegisterPending sessionKey h =
     (case find_slot h sessionKey of None \<Rightarrow> Some h
      | Some slot \<Rightarrow>
          if pendingRegistered slot then Some h
          else do {
            assertion (pendingSize h < maxSessionCount h);
            if pendingSize h \<ge> maxSessionCount h then Some h
            else
              let tail = (pendingHead h + pendingSize h) mod maxSessionCount h in
              Some (set_slot sessionKey (slot\<lparr>pendingRegistered := True\<rparr>)
                (h\<lparr>pendingEntries := (pendingEntries h)[tail := sessionKey],
                   pendingSize := pendingSize h + 1\<rparr>))
          })"

definition checked_RecordDeferred :: "NrSessionKey \<Rightarrow> NrToWorldHandoff \<Rightarrow> NrToWorldHandoff option" where
  "checked_RecordDeferred sessionKey h =
     (case find_slot h sessionKey of None \<Rightarrow> Some h
      | Some slot \<Rightarrow>
          let kind = NextPendingKind (lifecycleState slot) in
          do {
            assertion (kind \<noteq> NotifyNone);
            if lastDeferredKind slot = kind then Some h
            else Some (record_metric ToWorldLifecyclePublicationDeferred
                   (set_slot sessionKey (slot\<lparr>lastDeferredKind := kind\<rparr>) h))
          })"

fun checked_PromotePendingTurns :: "nat \<Rightarrow> NrToWorldHandoff \<Rightarrow> NrToWorldHandoff option" where
  "checked_PromotePendingTurns 0 h = Some h"
| "checked_PromotePendingTurns (Suc turns) h =
     (if pendingSize h = 0 then Some h
      else
        let key = pendingEntries h ! pendingHead h;
            h = h\<lparr>pendingHead := (pendingHead h + 1) mod maxSessionCount h,
                  pendingSize := pendingSize h - 1\<rparr> in
        case find_slot h key of
          None \<Rightarrow> checked_PromotePendingTurns turns h
        | Some slot \<Rightarrow>
            let slot = slot\<lparr>pendingRegistered := False\<rparr>;
                h = set_slot key slot h in
            do {
              (promoteStatus, h) \<leftarrow> checked_PromoteOne key slot h;
              if Failed promoteStatus then do {
                h \<leftarrow> checked_RecordDeferred key h;
                h \<leftarrow> checked_RegisterPending key h;
                if errorCode promoteStatus = NrErrorCode.QueueFull then Some h
                else checked_PromotePendingTurns turns h
              }
              else
                let slot = the (find_slot h key) in
                if NextPendingKind (lifecycleState slot) \<noteq> NotifyNone then do {
                  h \<leftarrow> checked_RegisterPending key h;
                  checked_PromotePendingTurns turns h
                }
                else if IsSessionClosedPublished (lifecycleState slot) then
                  checked_PromotePendingTurns turns (erase_slot key h)
                else checked_PromotePendingTurns turns h
            })"

definition checked_PromotePending :: "NrToWorldHandoff \<Rightarrow> NrToWorldHandoff option" where
  "checked_PromotePending h = checked_PromotePendingTurns (pendingSize h) h"

text \<open>\<open>slot\<close> is the reference to the entry of the map, read again after the promotion.\<close>

definition checked_RecordAccepted ::
    "NrSessionKey \<Rightarrow> NrSessionSendChannelControl \<Rightarrow> NrToWorldHandoff \<Rightarrow> (NrStatus \<times> NrToWorldHandoff) option" where
  "checked_RecordAccepted sessionKey control h =
     (if sessionKey = 0 then Some (NrStatus_Failure NrErrorCode.InvalidArgument, h)
      else if handoffClosed h then Some (NrStatus_Failure NrErrorCode.InvalidState, h)
      else case find_slot h sessionKey of
        None \<Rightarrow> Some (NrStatus_Failure NrErrorCode.InvalidArgument, h)
      | Some slot \<Rightarrow>
          (case Lifecycle_RecordAccepted (lifecycleState slot) of (recordStatus, ls) \<Rightarrow>
             if Failed recordStatus then Some (recordStatus, h)
             else
               let slot = slot\<lparr>lifecycleState := ls, slotSendChannelControl := Some control\<rparr>;
                   h = EmitSessionAccepted sessionKey (set_slot sessionKey slot h) in
               do {
                 (promoteStatus, h) \<leftarrow> checked_PromoteOne sessionKey slot h;
                 if Failed promoteStatus then do {
                   assertion (errorCode promoteStatus \<noteq> NrErrorCode.InvalidArgument \<and>
                     errorCode promoteStatus \<noteq> NrErrorCode.InvalidState);
                   h \<leftarrow> checked_RecordDeferred sessionKey h;
                   h \<leftarrow> checked_RegisterPending sessionKey h;
                   Some (NrStatus_Success, h)
                 }
                 else do {
                   assertion (NextPendingKind (lifecycleState (the (find_slot h sessionKey))) = NotifyNone);
                   Some (NrStatus_Success, h)
                 }
               }))"

definition checked_RecordClosed ::
    "NrSessionKey \<Rightarrow> NrSessionEndReason \<Rightarrow> NrToWorldHandoff \<Rightarrow> (NrStatus \<times> NrToWorldHandoff) option" where
  "checked_RecordClosed sessionKey reason h =
     (if handoffClosed h then Some (NrStatus_Failure NrErrorCode.InvalidState, h)
      else case find_slot h sessionKey of
        None \<Rightarrow> Some (NrStatus_Failure NrErrorCode.InvalidArgument, h)
      | Some slot \<Rightarrow>
          if reason = ServerStopping \<and> slotSendChannelControl slot = None \<and>
             NextPendingKind (lifecycleState slot) = NotifyNone then
            Some (NrStatus_Success, erase_slot sessionKey h)
          else
            (case Lifecycle_RecordClosed reason (lifecycleState slot) of (recordStatus, ls) \<Rightarrow>
               if Failed recordStatus then Some (recordStatus, h)
               else
                 let slot = slot\<lparr>lifecycleState := ls\<rparr>;
                     h = EmitSessionClosed sessionKey reason (set_slot sessionKey slot h) in
                 if pendingRegistered slot then Some (NrStatus_Success, h)
                 else do {
                   (promoteStatus, h) \<leftarrow> checked_PromoteOne sessionKey slot h;
                   if Failed promoteStatus then do {
                     assertion (errorCode promoteStatus \<noteq> NrErrorCode.InvalidArgument \<and>
                       errorCode promoteStatus \<noteq> NrErrorCode.InvalidState);
                     h \<leftarrow> checked_RecordDeferred sessionKey h;
                     h \<leftarrow> checked_RegisterPending sessionKey h;
                     Some (NrStatus_Success, h)
                   }
                   else do {
                     assertion (NextPendingKind (lifecycleState (the (find_slot h sessionKey))) = NotifyNone);
                     assertion (IsSessionClosedPublished (lifecycleState (the (find_slot h sessionKey))));
                     Some (NrStatus_Success, erase_slot sessionKey h)
                   }
                 }))"

definition checked_RecordPacket ::
    "NrSessionKey \<Rightarrow> NrPacketType \<Rightarrow> byte list \<Rightarrow> NrToWorldHandoff \<Rightarrow> (NrStatus \<times> NrToWorldHandoff) option" where
  "checked_RecordPacket sessionKey ptype payload h =
     (if handoffClosed h then Some (NrStatus_Failure NrErrorCode.InvalidState, h)
      else case find_slot h sessionKey of
        None \<Rightarrow> Some (NrStatus_Failure NrErrorCode.InvalidArgument, h)
      | Some slot \<Rightarrow>
          if \<not> CanPublishPacket (lifecycleState slot) then
            if NextPendingKind (lifecycleState slot) = NotifySessionAccepted then
              Some (NrStatus_Failure NrErrorCode.QueueFull, record_metric ToWorldPacketAdmissionRejected h)
            else Some (NrStatus_Failure NrErrorCode.InvalidState, h)
          else
            (case CreatePacketReceived sessionKey ptype payload (allocations h) of (eventResult, as) \<Rightarrow>
               let h = h\<lparr>allocations := as\<rparr> in
               case eventResult of
                 Inl status \<Rightarrow> Some (status, h)
               | Inr event \<Rightarrow> do {
                   (pushStatus, h) \<leftarrow> checked_TryPushEvent event h;
                   if errorCode pushStatus = NrErrorCode.QueueFull then
                     Some (pushStatus, record_metric ToWorldPacketAdmissionRejected h)
                   else Some (pushStatus, h)
                 }))"

text \<open>\<open>place\<close> is the pointer that the event is popped into.\<close>

definition checked_TryPopOneLocked ::
    "NrToWorldHandoffEvent option \<Rightarrow> NrToWorldHandoff \<Rightarrow>
     (NrStatus \<times> NrToWorldHandoffEvent option \<times> NrToWorldHandoff) option" where
  "checked_TryPopOneLocked place h = do {
     assertion (place = None);
     h \<leftarrow> checked_PromotePending h;
     case spec_pop (eventQueue h) of (popStatus, out, q) \<Rightarrow>
       if Failed popStatus then Some (popStatus, None, h)
       else do {
         let h = h\<lparr>eventQueue := q\<rparr>;
         assertion (eventDepth h \<noteq> 0);
         h \<leftarrow> checked_PromotePending (h\<lparr>eventDepth := eventDepth h - 1\<rparr>);
         Some (NrStatus_Success, out, h)
       }
   }"

definition checked_TryPop ::
    "NrToWorldHandoffEvent option \<Rightarrow> NrToWorldHandoff \<Rightarrow>
     (NrStatus \<times> NrToWorldHandoffEvent option \<times> NrToWorldHandoff) option" where
  "checked_TryPop outEvent h =
     (if outEvent \<noteq> None then Some (NrStatus_Failure NrErrorCode.InvalidState, outEvent, h)
      else checked_TryPopOneLocked outEvent h)"

fun checked_PopBatchLoop ::
    "NrToWorldHandoffEvent option list \<Rightarrow> NrToWorldHandoffEvent list \<Rightarrow> NrToWorldHandoff \<Rightarrow>
     (NrStatus \<times> NrToWorldHandoffEvent list \<times> nat option \<times> NrToWorldHandoff) option" where
  "checked_PopBatchLoop [] events h = Some (NrStatus_Success, events, Some (length events), h)"
| "checked_PopBatchLoop (place # places) events h = do {
     (popStatus, out, h) \<leftarrow> checked_TryPopOneLocked place h;
     if Failed popStatus then
       if errorCode popStatus = NrErrorCode.QueueEmpty \<and> length events \<noteq> 0 then
         Some (NrStatus_Success, events, Some (length events), h)
       else Some (popStatus, events, None, h)
     else checked_PopBatchLoop places (events @ [the out]) h
   }"

definition checked_TryPopBatch ::
    "NrToWorldHandoffEvent option list \<Rightarrow> bool \<Rightarrow> NrToWorldHandoff \<Rightarrow>
     (NrStatus \<times> NrToWorldHandoffEvent list \<times> nat option \<times> NrToWorldHandoff) option" where
  "checked_TryPopBatch eventBuffer hasCountPointer h =
     (if eventBuffer = [] \<or> \<not> hasCountPointer then
        Some (NrStatus_Failure NrErrorCode.InvalidArgument, [], None, h)
      else if list_ex (\<lambda>event. event \<noteq> None) eventBuffer then
        Some (NrStatus_Failure NrErrorCode.InvalidState, [], None, h)
      else checked_PopBatchLoop eventBuffer [] h)"

text \<open>The calls without assertions are those of \<open>NrHandoff\<close>.\<close>

fun checked_step ::
    "handoff_call \<Rightarrow> NrToWorldHandoffEvent list \<times> NrToWorldHandoff \<Rightarrow>
     (NrToWorldHandoffEvent list \<times> NrToWorldHandoff) option" where
  "checked_step (CallReserve key) (popped, h) = Some (popped, snd (ReserveSession key h))"
| "checked_step (CallCancel key) (popped, h) = Some (popped, snd (CancelSessionReservation key h))"
| "checked_step (CallAccepted key control) (popped, h) = do {
     (st, h') \<leftarrow> checked_RecordAccepted key control h;
     Some (popped, h')
   }"
| "checked_step (CallPacket key ptype payload) (popped, h) = do {
     (st, h') \<leftarrow> checked_RecordPacket key ptype payload h;
     Some (popped, h')
   }"
| "checked_step (CallClosed key reason) (popped, h) = do {
     (st, h') \<leftarrow> checked_RecordClosed key reason h;
     Some (popped, h')
   }"
| "checked_step CallPop (popped, h) = do {
     (st, out, h') \<leftarrow> checked_TryPop None h;
     Some (case out of None \<Rightarrow> (popped, h') | Some e \<Rightarrow> (popped @ [e], h'))
   }"
| "checked_step (CallPopBatch n) (popped, h) = do {
     (st, events, count, h') \<leftarrow> checked_TryPopBatch (replicate n None) True h;
     Some (popped @ events, h')
   }"
| "checked_step CallShutdown (popped, h) = Some (popped, snd (Handoff_Close h))"

fun checked_run ::
    "handoff_call list \<Rightarrow> NrToWorldHandoffEvent list \<times> NrToWorldHandoff \<Rightarrow>
     (NrToWorldHandoffEvent list \<times> NrToWorldHandoff) option" where
  "checked_run [] ph = Some ph"
| "checked_run (call # calls) ph = do { ph \<leftarrow> checked_step call ph; checked_run calls ph }"

section \<open>No assertion fires\<close>

text \<open>Each operation in turn: on a state with the invariant it computes what it does without assertions.\<close>

lemma assertion_simps [simp]: "assertion True = Some ()" "assertion False = None"
  by (simp_all add: assertion_def)

lemma checked_TryPushEvent_eq:
  assumes "handoff_core h"
  shows "checked_TryPushEvent e h = Some (TryPushEvent e h)"
proof -
  have "eventDepth h = length (eventQueue h)" using assms by (simp add: handoff_core_def)
  then show ?thesis by (simp add: checked_TryPushEvent_def TryPushEvent_def spec_push_def Let_def)
qed

lemma checked_PromoteOne_eq:
  assumes "handoff_core h"
  shows "checked_PromoteOne key slot h = Some (PromoteOne key slot h)"
proof -
  have push: "checked_TryPushEvent e (h\<lparr>allocations := as\<rparr>) = Some (TryPushEvent e (h\<lparr>allocations := as\<rparr>))" for e as
    using assms by (intro checked_TryPushEvent_eq) simp
  show ?thesis
    unfolding checked_PromoteOne_def PromoteOne_def Let_def
    by (simp add: push split: prod.splits sum.splits)
qed

lemma checked_RegisterPending_eq:
  assumes "handoff_core h"
  shows "checked_RegisterPending key h = Some (RegisterPending key h)"
  using pending_room(1) [OF assms, of key]
  by (auto simp: checked_RegisterPending_def RegisterPending_def Let_def split: option.splits)

lemma checked_RecordDeferred_eq:
  assumes "find_slot h key = Some slot" "waiting slot"
  shows "checked_RecordDeferred key h = Some (RecordLifecyclePublicationDeferred key h)"
  using assms
  by (simp add: checked_RecordDeferred_def RecordLifecyclePublicationDeferred_def waiting_def Let_def)

text \<open>The two calls that put a fact back, as one.\<close>

lemma checked_defer_eq:
  assumes "handoff_inv popped work h" "find_slot h key = Some slot" "waiting slot"
  shows "checked_RecordDeferred key h \<bind> (\<lambda>h. checked_RegisterPending key h \<bind> f) = f (defer_key key h)"
proof -
  have "handoff_core (RecordLifecyclePublicationDeferred key h)"
    using Deferred_inv(1) [OF assms(1,2)] by (simp add: handoff_inv_def)
  then show ?thesis
    using checked_RegisterPending_eq by (simp add: checked_RecordDeferred_eq [OF assms(2,3)] defer_key_def)
qed

lemma checked_PromotePendingTurns_eq:
  assumes "handoff_inv popped {} h"
  shows "checked_PromotePendingTurns turns h = Some (PromotePendingTurns turns h)"
  using assms
proof (induction turns arbitrary: h)
  case (Suc turns)
  show ?case
  proof (cases "pendingSize h = 0")
    case False
    let ?key = "pendingEntries h ! pendingHead h"
    obtain slot where slot: "find_slot h ?key = Some slot" "waiting slot" "\<not> closedCommitted (lifecycleState slot)"
      and inv1: "handoff_inv popped {?key} (set_slot ?key (slot\<lparr>pendingRegistered := False\<rparr>) (pop_pending h))"
      by (rule pop_pending_inv [OF Suc.prems False refl])
    let ?slot = "slot\<lparr>pendingRegistered := False\<rparr>"
    let ?h1 = "set_slot ?key ?slot (pop_pending h)"
    have wait: "waiting ?slot" "\<not> pendingRegistered ?slot" "\<not> closedCommitted (lifecycleState ?slot)"
      using slot by (simp_all add: waiting_def)
    have find1: "find_slot ?h1 ?key = Some ?slot" by simp
    obtain st h2 where p: "PromoteOne ?key ?slot ?h1 = (st, h2)" by (cases "PromoteOne ?key ?slot ?h1")
    note one = PromoteOne_inv(1,2) [OF inv1 find1 wait(1) p]
    have inv2: "handoff_inv popped {?key} h2" using one(1) by simp
    have core: "handoff_core ?h1" "handoff_core h2" using inv1 inv2 unfolding handoff_inv_def by blast+
    have c: "checked_PromoteOne ?key ?slot ?h1 = Some (st, h2)"
      using checked_PromoteOne_eq [OF core(1), of ?key ?slot] p by simp
    have step: "checked_PromotePendingTurns (Suc turns) h =
       (if Failed st then checked_RecordDeferred ?key h2 \<bind> (\<lambda>h. checked_RegisterPending ?key h \<bind> (\<lambda>h.
          if errorCode st = NrErrorCode.QueueFull then Some h else checked_PromotePendingTurns turns h))
        else
          let slot = the (find_slot h2 ?key) in
          if NextPendingKind (lifecycleState slot) \<noteq> NotifyNone then
            checked_RegisterPending ?key h2 \<bind> checked_PromotePendingTurns turns
          else if IsSessionClosedPublished (lifecycleState slot) then
            checked_PromotePendingTurns turns (erase_slot ?key h2)
          else checked_PromotePendingTurns turns h2)"
      using False slot(1) c by (simp add: Let_def)
    have plain: "PromotePendingTurns (Suc turns) h =
       (if Failed st then
          if errorCode st = NrErrorCode.QueueFull then defer_key ?key h2
          else PromotePendingTurns turns (defer_key ?key h2)
        else
          let slot = the (find_slot h2 ?key) in
          if NextPendingKind (lifecycleState slot) \<noteq> NotifyNone then
            PromotePendingTurns turns (RegisterPending ?key h2)
          else if IsSessionClosedPublished (lifecycleState slot) then
            PromotePendingTurns turns (erase_slot ?key h2)
          else PromotePendingTurns turns h2)"
      using False slot(1) p by (simp add: Let_def defer_key_def)
    show ?thesis
    proof (cases "Failed st")
      case True
      then have find2: "find_slot h2 ?key = Some ?slot" using one(2) by auto
      have d: "handoff_inv popped {} (defer_key ?key h2)" by (rule defer_key_inv(1) [OF inv2 find2 wait(2,1,3)])
      show ?thesis
        unfolding step plain by (simp add: True checked_defer_eq [OF inv2 find2 wait(1)] Suc.IH [OF d])
    next
      case ok: False
      let ?s = "committed_slot ?slot"
      have find2: "find_slot h2 ?key = Some ?s" using one(2) ok by auto
      have sound: "slot_ok ?s" "\<not> pendingRegistered ?s" using inv_slotD(1) [OF inv2 find2] by simp_all
      have register: "handoff_inv popped {} (RegisterPending ?key h2)" if "waiting ?s"
      proof -
        have "\<not> closedCommitted (lifecycleState ?s)" using committed_not_waiting [OF _ sound(1)] that by auto
        then show ?thesis using RegisterPending_inv(1) [OF _ find2 sound(2) that] inv2 by simp
      qed
      have erase: "handoff_inv popped {} (erase_slot ?key h2)" if "closedCommitted (lifecycleState ?s)"
        using inv2 find2 sound that by (intro inv_erase [where slot = ?s])
          (simp_all add: slot_phase_def slot_ok_def owed_facts_def Let_def)
      have settle: "handoff_inv popped {} h2" if "\<not> waiting ?s" "\<not> closedCommitted (lifecycleState ?s)"
        using that sound by (intro inv_settle [OF inv2 find2]) simp_all
      show ?thesis
        unfolding step plain Let_def find2 option.sel
        using ok register erase settle Suc.IH checked_RegisterPending_eq [OF core(2)]
        by (simp add: waiting_def IsSessionClosedPublished_def)
    qed
  qed simp
qed simp

lemma checked_PromotePending_eq:
  "handoff_inv popped {} h \<Longrightarrow> checked_PromotePending h = Some (PromotePending h)"
  by (simp add: checked_PromotePending_def PromotePending_def checked_PromotePendingTurns_eq)

text \<open>
  What the two record operations share: a promotion of a waiting slot fails only for want of room or
  memory, and the fact is put back.
\<close>

lemma promotion_status:
  assumes "handoff_inv popped work h" "find_slot h key = Some slot" "waiting slot" "PromoteOne key slot h = (st, h')"
  shows "Failed st \<Longrightarrow> errorCode st \<noteq> NrErrorCode.InvalidArgument \<and> errorCode st \<noteq> NrErrorCode.InvalidState"
    and "find_slot h' key = Some (if Failed st then slot else committed_slot slot)"
    and "handoff_inv popped (insert key work) h'"
  using PromoteOne_inv(1,2) [OF assms] by auto

lemma checked_RecordAccepted_eq:
  assumes "handoff_inv popped {} h"
  shows "checked_RecordAccepted key control h = Some (RecordAccepted key control h)"
proof (cases "key = 0 \<or> handoffClosed h \<or> find_slot h key = None")
  case True
  then show ?thesis by (auto simp: checked_RecordAccepted_def RecordAccepted_def)
next
  case False
  then obtain slot where slot: "find_slot h key = Some slot" by auto
  show ?thesis
  proof (cases "acceptedRecorded (lifecycleState slot)")
    case True
    then show ?thesis
      using False slot by (simp add: checked_RecordAccepted_def RecordAccepted_def Lifecycle_RecordAccepted_def)
  next
    case fresh: False
    define s where s: "s = slot\<lparr>lifecycleState := (lifecycleState slot)\<lparr>acceptedRecorded := True\<rparr>,
      slotSendChannelControl := Some control\<rparr>"
    note acc = accepted_slot [OF inv_slotD(1) [OF assms slot] fresh s]
    let ?h = "EmitSessionAccepted key (set_slot key s h)"
    have inv: "handoff_inv popped {key} ?h"
      using inv_set_slot [OF assms slot acc(1,4,5), of "EmittedAccept key"] acc(10)
      by (simp add: EmitSessionAccepted_def)
    have find: "find_slot ?h key = Some s" by (simp add: EmitSessionAccepted_def)
    obtain st h' where p: "PromoteOne key s ?h = (st, h')" by (cases "PromoteOne key s ?h")
    note pr = promotion_status [OF inv find acc(2) p]
    have "handoff_core ?h" using inv by (simp add: handoff_inv_def)
    then have c: "checked_PromoteOne key s ?h = Some (st, h')" using p by (simp add: checked_PromoteOne_eq)
    have checked: "checked_RecordAccepted key control h =
      (if Failed st then do {
         assertion (errorCode st \<noteq> NrErrorCode.InvalidArgument \<and> errorCode st \<noteq> NrErrorCode.InvalidState);
         h \<leftarrow> checked_RecordDeferred key h'; h \<leftarrow> checked_RegisterPending key h; Some (NrStatus_Success, h) }
       else do {
         assertion (NextPendingKind (lifecycleState (the (find_slot h' key))) = NotifyNone);
         Some (NrStatus_Success, h') })"
      using False slot fresh c by (simp add: checked_RecordAccepted_def Lifecycle_RecordAccepted_def Let_def s)
    have plain: "RecordAccepted key control h = (NrStatus_Success, if Failed st then defer_key key h' else h')"
      using False slot fresh p by (simp add: RecordAccepted_def Lifecycle_RecordAccepted_def Let_def s defer_key_def)
    show ?thesis
    proof (cases "Failed st")
      case True
      then have "find_slot h' key = Some s" using pr(2) by simp
      then show ?thesis
        unfolding checked plain using True pr(1) checked_defer_eq [OF pr(3) _ acc(2)] by simp
    next
      case ok: False
      then show ?thesis unfolding checked plain using pr(2) acc(8) by (simp add: waiting_def)
    qed
  qed
qed

lemma checked_RecordClosed_eq:
  assumes "handoff_inv popped {} h"
  shows "checked_RecordClosed key reason h = Some (RecordClosed key reason h)"
proof (cases "handoffClosed h \<or> find_slot h key = None")
  case True
  then show ?thesis by (auto simp: checked_RecordClosed_def RecordClosed_def)
next
  case False
  then obtain slot where slot: "find_slot h key = Some slot" by auto
  note facts = inv_slotD [OF assms slot]
  let ?hidden = "reason = ServerStopping \<and> slotSendChannelControl slot = None \<and>
    NextPendingKind (lifecycleState slot) = NotifyNone"
  consider (hidden) ?hidden | (refused) "\<not> ?hidden"
      "reason = NoEndReason \<or> \<not> acceptedRecorded (lifecycleState slot) \<or> closedRecorded (lifecycleState slot)"
    | (recorded) "\<not> ?hidden"
      "\<not> (reason = NoEndReason \<or> \<not> acceptedRecorded (lifecycleState slot) \<or> closedRecorded (lifecycleState slot))"
    by blast
  then show ?thesis
  proof cases
    case hidden
    then show ?thesis using False slot by (simp add: checked_RecordClosed_def RecordClosed_def)
  next
    case refused
    then show ?thesis
      using False slot by (auto simp: checked_RecordClosed_def RecordClosed_def Lifecycle_RecordClosed_def)
  next
    case recorded
    define s where s: "s = slot\<lparr>lifecycleState :=
      (lifecycleState slot)\<lparr>lifecycleEndReason := reason, closedRecorded := True\<rparr>\<rparr>"
    have r: "acceptedRecorded (lifecycleState slot)" "\<not> closedRecorded (lifecycleState slot)" "reason \<noteq> NoEndReason"
      using recorded(2) by auto
    note cl = closed_slot [OF facts(1) r s]
    let ?h = "EmitSessionClosed key reason (set_slot key s h)"
    have inv: "handoff_inv popped {key} ?h"
      using inv_set_slot [OF assms slot cl(1,3,4), of "EmittedClose key reason"] cl(8)
      by (simp add: EmitSessionClosed_def)
    have find: "find_slot ?h key = Some s" by (simp add: EmitSessionClosed_def)
    obtain st h' where p: "PromoteOne key s ?h = (st, h')" by (cases "PromoteOne key s ?h")
    note pr = promotion_status [OF inv find cl(2) p]
    have "handoff_core ?h" using inv by (simp add: handoff_inv_def)
    then have c: "checked_PromoteOne key s ?h = Some (st, h')" using p by (simp add: checked_PromoteOne_eq)
    have checked: "checked_RecordClosed key reason h =
      (if pendingRegistered s then Some (NrStatus_Success, ?h)
       else if Failed st then do {
         assertion (errorCode st \<noteq> NrErrorCode.InvalidArgument \<and> errorCode st \<noteq> NrErrorCode.InvalidState);
         h \<leftarrow> checked_RecordDeferred key h'; h \<leftarrow> checked_RegisterPending key h; Some (NrStatus_Success, h) }
       else do {
         assertion (NextPendingKind (lifecycleState (the (find_slot h' key))) = NotifyNone);
         assertion (IsSessionClosedPublished (lifecycleState (the (find_slot h' key))));
         Some (NrStatus_Success, erase_slot key h') })"
      using False slot r c
      by (simp add: checked_RecordClosed_def if_not_P [OF recorded(1)] Lifecycle_RecordClosed_def Let_def s)
    have plain: "RecordClosed key reason h =
        (NrStatus_Success, if pendingRegistered s then ?h else if Failed st then defer_key key h' else erase_slot key h')"
      using False slot r p
      by (simp add: RecordClosed_def if_not_P [OF recorded(1)] Lifecycle_RecordClosed_def Let_def s defer_key_def)
    have "\<not> pendingRegistered s \<Longrightarrow> \<not> waiting slot" using facts(4) cl(3) by simp
    then have done_slot: "closedCommitted (lifecycleState (committed_slot s))" if "\<not> pendingRegistered s" using cl(7) that by simp
    show ?thesis
    proof (cases "pendingRegistered s \<or> Failed st")
      case True
      then show ?thesis
        unfolding checked plain using pr(1,2) checked_defer_eq [OF pr(3) _ cl(2)] by auto
    next
      case ok: False
      then have "closedCommitted (lifecycleState (committed_slot s))" using done_slot by simp
      moreover have "slot_ok (committed_slot s)" by (rule slot_ok_committed [OF cl(1,2)])
      ultimately have "NextPendingKind (lifecycleState (committed_slot s)) = NotifyNone"
        by (simp add: NextPendingKind_def slot_ok_def Let_def)
      then show ?thesis
        unfolding checked plain using ok pr(2) done_slot by (simp add: IsSessionClosedPublished_def)
    qed
  qed
qed

lemma checked_RecordPacket_eq:
  assumes "handoff_inv popped {} h"
  shows "checked_RecordPacket key ptype payload h = Some (RecordPacket key ptype payload h)"
proof -
  have "checked_TryPushEvent e (h\<lparr>allocations := as\<rparr>) = Some (TryPushEvent e (h\<lparr>allocations := as\<rparr>))" for e as
    using assms by (intro checked_TryPushEvent_eq) (simp add: handoff_inv_def)
  then show ?thesis
    by (auto simp: checked_RecordPacket_def RecordPacket_def Let_def split: option.splits prod.splits sum.splits)
qed

lemma checked_TryPopOneLocked_eq:
  assumes "handoff_inv popped {} h"
  shows "checked_TryPopOneLocked None h = Some (TryPopOneLocked h)"
proof -
  have inv: "handoff_inv popped {} (PromotePending h)" using assms by (rule PromotePending_inv)
  show ?thesis
  proof (cases "eventQueue (PromotePending h)")
    case Nil
    then show ?thesis
      using checked_PromotePending_eq [OF assms]
      by (simp add: checked_TryPopOneLocked_def TryPopOneLocked_def Let_def spec_pop_def)
  next
    case (Cons e q)
    have "eventDepth (PromotePending h) \<noteq> 0" using inv Cons by (simp add: handoff_inv_def handoff_core_def)
    then show ?thesis
      using checked_PromotePending_eq [OF assms] checked_PromotePending_eq [OF pop_inv [OF inv Cons]] Cons
      by (simp add: checked_TryPopOneLocked_def TryPopOneLocked_def Let_def spec_pop_def)
  qed
qed

lemma checked_PopBatchLoop_eq:
  assumes "handoff_inv popped {} h"
  shows "checked_PopBatchLoop (replicate left None) events h = Some (PopBatchLoop left events h)"
  using assms
proof (induction left arbitrary: popped events h)
  case (Suc left)
  obtain st out h1 where t: "TryPopOneLocked h = (st, out, h1)" by (cases "TryPopOneLocked h")
  note c = checked_TryPopOneLocked_eq [OF Suc.prems]
  show ?case
  proof (cases out)
    case None
    then show ?thesis using TryPopOneLocked_inv [OF Suc.prems] t c by simp
  next
    case (Some e)
    then have "st = NrStatus_Success" "handoff_inv (popped @ [e]) {} h1"
      using TryPopOneLocked_inv [OF Suc.prems] t by auto
    then show ?thesis using Suc.IH t c Some by simp
  qed
qed simp

lemma checked_step_eq:
  assumes "handoff_inv popped {} h"
  shows "checked_step call (popped, h) = Some (handoff_step call (popped, h))"
proof (cases call)
  case (CallAccepted key control)
  then show ?thesis using checked_RecordAccepted_eq [OF assms] by (simp split: prod.splits)
next
  case (CallPacket key ptype payload)
  then show ?thesis using checked_RecordPacket_eq [OF assms] by (simp split: prod.splits)
next
  case (CallClosed key reason)
  then show ?thesis using checked_RecordClosed_eq [OF assms] by (simp split: prod.splits)
next
  case CallPop
  then show ?thesis
    using checked_TryPopOneLocked_eq [OF assms] by (simp add: checked_TryPop_def Handoff_TryPop_def split: prod.splits)
next
  case (CallPopBatch n)
  have "checked_TryPopBatch (replicate n None) True h = Some (TryPopBatch (replicate n None) True h)"
    using checked_PopBatchLoop_eq [OF assms] by (simp add: checked_TryPopBatch_def TryPopBatch_def list_ex_iff)
  then show ?thesis using CallPopBatch by (simp split: prod.splits)
qed simp_all

lemma checked_run_eq:
  assumes "handoff_inv popped {} h"
  shows "checked_run calls (popped, h) = Some (fold handoff_step calls (popped, h))"
  using assms
proof (induction calls arbitrary: popped h)
  case (Cons call calls)
  obtain popped' h' where s: "handoff_step call (popped, h) = (popped', h')" by fastforce
  then show ?case
    using Cons.IH [OF handoff_step_inv [OF Cons.prems s]] checked_step_eq [OF Cons.prems] by simp
qed simp

section \<open>Properties\<close>

text \<open>
  Property C37. No assertion of the handoff ever fires. Executed with every \<^verbatim>\<open>assert\<close> where the code
  has it (inside \<^verbatim>\<open>RecordAccepted\<close>, \<^verbatim>\<open>RecordClosed\<close>, \<^verbatim>\<open>TryPopOneLocked\<close>, \<^verbatim>\<open>TryPushEvent\<close>,
  \<^verbatim>\<open>RegisterPending\<close> and \<^verbatim>\<open>RecordLifecyclePublicationDeferred\<close>, which the pops reach through
  \<^verbatim>\<open>PromotePending\<close>), any sequence of calls from \<^verbatim>\<open>Create\<close> on runs to its end, for every queue
  capacity and every pattern of allocation failures, and leaves what the calls leave without
  assertions.
\<close>

theorem handoff_assertions:
  assumes "NrToWorldHandoff_Create queueResult as reserveStatus sessionCount = Inr h0"
  shows "checked_run calls ([], h0) = Some (handoff_run calls h0)"
  using checked_run_eq [OF Create_handoff_inv [OF assms]] by (simp add: handoff_run_def)

text \<open>
  The acceptance of session 7 is deferred for want of memory and published by the first pop; a packet
  and the closure of session 7 then fill the queue, and the acceptance of session 8 is deferred for
  want of room.
\<close>

definition sample_deferrals :: "handoff_call list" where
  "sample_deferrals =
     [CallReserve 7, CallAccepted 7 1, CallPop, CallPacket 7 3 [9], CallClosed 7 RemoteClosed,
      CallReserve 8, CallAccepted 8 2]"

theorem handoff_assertions_witness:
  "\<exists>popped h. checked_run sample_deferrals ([], sample_handoff) = Some (popped, h) \<and>
     eventDepth h = 2 \<and> PendingSlotCount h = 1"
proof -
  let ?r = "handoff_run sample_deferrals sample_handoff"
  have "checked_run sample_deferrals ([], sample_handoff) = Some (fst ?r, snd ?r)"
    using handoff_assertions [OF sample_handoff_Create, of sample_deferrals] by simp
  moreover have "eventDepth (snd ?r) = 2 \<and> PendingSlotCount (snd ?r) = 1" by code_simp
  ultimately show ?thesis by blast
qed

end
