(* ===== verification/NrDispatch.thy ===== *)
theory NrDispatch imports NrFraming NrQueue begin

text \<open>
  From parsed packets to inputs: the dispatch table (\<^verbatim>\<open>NrPacketDispatchTable.h/.cpp\<close>), the lanes
  (\<^verbatim>\<open>NrDispatchLane.h\<close>), the input factory (\<^verbatim>\<open>NrInputFactory.cpp\<close>) and the registry of ingress
  queues (\<^verbatim>\<open>NrIngressRegistry.cpp\<close>, \<^verbatim>\<open>NrQueueIngress.cpp\<close>). The lemmas characterise the tables
  that can be built and what a lookup in them finds.
\<close>

section \<open>Lanes and rules\<close>

datatype NrDispatchLane = ServerIngress | SessionIngress | WorldIngress | Count

fun lane_index :: "NrDispatchLane \<Rightarrow> nat" where
  "lane_index ServerIngress = 0"
| "lane_index SessionIngress = 1"
| "lane_index WorldIngress = 2"
| "lane_index NrDispatchLane.Count = 3"

definition DispatchLaneCount :: nat where "DispatchLaneCount = 3"

definition IsKnownDispatchLane :: "NrDispatchLane \<Rightarrow> bool" where
  "IsKnownDispatchLane dispatchLane \<longleftrightarrow> lane_index dispatchLane < DispatchLaneCount"

lemma IsKnownDispatchLane_iff [simp]: "IsKnownDispatchLane lane \<longleftrightarrow> lane \<noteq> NrDispatchLane.Count"
  by (cases lane) (simp_all add: IsKnownDispatchLane_def DispatchLaneCount_def)

lemma lane_index_inject [simp]: "lane_index l = lane_index l' \<longleftrightarrow> l = l'"
  by (cases l; cases l') simp_all

record NrPacketDispatchRule =
  rulePacketType :: u16
  dispatchLane :: NrDispatchLane

section \<open>The dispatch table\<close>

text \<open>The vector of optional rules, indexed by the packet type.\<close>

type_synonym NrPacketDispatchTable = "NrPacketDispatchRule option list"

text \<open>The two loops of \<^verbatim>\<open>Create\<close>: the size that is needed, and the rules stored one by one.\<close>

fun RequiredSize :: "NrPacketDispatchRule list \<Rightarrow> nat \<Rightarrow> nat option" where
  "RequiredSize [] requiredSize = Some requiredSize"
| "RequiredSize (rule # rules) requiredSize =
     (if \<not> IsKnownDispatchLane (dispatchLane rule) then None
      else
        let packetTypeIndex = unat (rulePacketType rule) in
        RequiredSize rules (if requiredSize \<le> packetTypeIndex then packetTypeIndex + 1 else requiredSize))"

fun StoreRules :: "NrPacketDispatchRule list \<Rightarrow> NrPacketDispatchTable \<Rightarrow> NrPacketDispatchTable option" where
  "StoreRules [] table = Some table"
| "StoreRules (rule # rules) table =
     (let packetTypeIndex = unat (rulePacketType rule) in
      if table ! packetTypeIndex \<noteq> None then None
      else StoreRules rules (table[packetTypeIndex := Some rule]))"

text \<open>\<open>resized\<close> tells whether the vector could be allocated; \<^verbatim>\<open>std::bad_alloc\<close> becomes a status.\<close>

definition NrPacketDispatchTable_Create ::
    "bool \<Rightarrow> NrPacketDispatchRule list \<Rightarrow> NrPacketDispatchTable NrResult" where
  "NrPacketDispatchTable_Create resized rules =
     (case RequiredSize rules 0 of
        None \<Rightarrow> Inl (NrStatus_Failure NrErrorCode.InvalidArgument)
      | Some requiredSize \<Rightarrow>
          if \<not> resized then Inl (NrStatus_Failure NrErrorCode.OutOfMemory)
          else case StoreRules rules (replicate requiredSize None) of
            None \<Rightarrow> Inl (NrStatus_Failure NrErrorCode.InvalidArgument)
          | Some table \<Rightarrow> Inr table)"

definition NrPacketDispatchTable_Find ::
    "NrPacketDispatchTable \<Rightarrow> u16 \<Rightarrow> NrStatus \<times> NrPacketDispatchRule option" where
  "NrPacketDispatchTable_Find table ptype =
     (let packetTypeIndex = unat ptype in
      if packetTypeIndex \<ge> length table \<or> table ! packetTypeIndex = None then
        (NrStatus_Failure NrErrorCode.DispatchRuleNotFound, None)
      else (NrStatus_Success, table ! packetTypeIndex))"

lemma RequiredSize_SomeD:
  assumes "RequiredSize rules n = Some needed"
  shows "\<forall>r \<in> set rules. dispatchLane r \<noteq> NrDispatchLane.Count \<and> unat (rulePacketType r) < needed"
    and "n \<le> needed"
  using assms by (induction rules arbitrary: n) (fastforce simp: Let_def split: if_splits)+

lemma RequiredSize_None_iff:
  "RequiredSize rules n = None \<longleftrightarrow> (\<exists>r \<in> set rules. dispatchLane r = NrDispatchLane.Count)"
  by (induction rules arbitrary: n) (auto simp: Let_def)

text \<open>What the second loop has stored: the rules, each at the index of its packet type.\<close>

definition table_has :: "NrPacketDispatchTable \<Rightarrow> NrPacketDispatchRule set \<Rightarrow> bool" where
  "table_has table R \<longleftrightarrow>
     (\<forall>r \<in> R. unat (rulePacketType r) < length table) \<and>
     (\<forall>i < length table. \<forall>r. table ! i = Some r \<longleftrightarrow> r \<in> R \<and> unat (rulePacketType r) = i)"

lemma StoreRules_Some:
  assumes "StoreRules rules table = Some table'" "table_has table R"
    and "\<forall>r \<in> set rules. unat (rulePacketType r) < length table"
  shows "table_has table' (R \<union> set rules)"
  using assms
proof (induction rules arbitrary: table R)
  case (Cons rule rules)
  let ?i = "unat (rulePacketType rule)"
  have i: "?i < length table" and free: "table ! ?i = None"
    and more: "StoreRules rules (table[?i := Some rule]) = Some table'"
    using Cons.prems by (auto simp: Let_def split: if_splits)
  have "table_has (table[?i := Some rule]) (insert rule R)"
    using Cons.prems(2) i free unfolding table_has_def
    by (auto simp: nth_list_update)
  from Cons.IH [OF more this] Cons.prems(3) show ?case by simp
qed simp

lemma StoreRules_None_iff:
  assumes "table_has table R" "\<forall>r \<in> set rules. unat (rulePacketType r) < length table"
  shows "StoreRules rules table = None \<longleftrightarrow>
    \<not> (distinct (map rulePacketType rules) \<and> (\<forall>r \<in> set rules. \<forall>r' \<in> R. rulePacketType r \<noteq> rulePacketType r'))"
  using assms
proof (induction rules arbitrary: table R)
  case (Cons rule rules)
  let ?i = "unat (rulePacketType rule)"
  have i: "?i < length table" using Cons.prems(2) by simp
  show ?case
  proof (cases "table ! ?i")
    case None
    then have new: "\<forall>r' \<in> R. rulePacketType rule \<noteq> rulePacketType r'"
      using Cons.prems(1) i unfolding table_has_def by (metis option.distinct(1))
    have "table_has (table[?i := Some rule]) (insert rule R)"
      using Cons.prems(1) i None unfolding table_has_def by (auto simp: nth_list_update)
    then show ?thesis
      using None new Cons.IH [of "table[?i := Some rule]" "insert rule R"] Cons.prems(2)
      by (auto simp: Let_def image_iff) metis+
  next
    case (Some r')
    then have "r' \<in> R" "rulePacketType r' = rulePacketType rule"
      using Cons.prems(1) i unfolding table_has_def by (auto simp: word_unat_eq_iff)
    then show ?thesis using Some by (auto simp: Let_def intro!: bexI [of _ r'])
  qed
qed simp

section \<open>Inputs\<close>

record NrInput =
  inputSessionId :: u64
  inputPacketType :: u16
  inputDispatchLane :: NrDispatchLane
  inputPayload :: "byte list"

text \<open>
  \<^verbatim>\<open>CreateInput\<close>: \<open>createPayload\<close> is \<^verbatim>\<open>NrPayloadFactory::CreatePayloadFrom\<close> on the shared pools in
  their state at that moment: the payload with the bytes given, or the failure.
\<close>

definition CreateInput ::
    "(byte list \<Rightarrow> byte list NrResult) \<Rightarrow> u64 \<Rightarrow> NrPacketParseResult \<Rightarrow> NrPacketDispatchRule \<Rightarrow> NrInput NrResult" where
  "CreateInput createPayload sessionId result rule =
     (if parseStatus result \<noteq> Complete then Inl (NrStatus_Failure NrErrorCode.InvalidArgument)
      else if \<not> IsKnownDispatchLane (dispatchLane rule) then Inl (NrStatus_Failure NrErrorCode.InvalidArgument)
      else if packetType (parsedHeader result) \<noteq> rulePacketType rule then
        Inl (NrStatus_Failure NrErrorCode.InvalidArgument)
      else if length (packetBytes result) < NrPacketHeaderLength \<or>
              length (packetBytes result) \<noteq> unat (packetLength (parsedHeader result)) then
        Inl (NrStatus_Failure NrErrorCode.InvalidArgument)
      else case createPayload (drop NrPacketHeaderLength (packetBytes result)) of
        Inl status \<Rightarrow> Inl status
      | Inr payload \<Rightarrow>
          Inr \<lparr>inputSessionId = sessionId, inputPacketType = rulePacketType rule,
               inputDispatchLane = dispatchLane rule, inputPayload = payload\<rparr>)"

section \<open>Ingress queues\<close>

text \<open>An ingress is the queue it forwards to: its capacity and its inputs.\<close>

type_synonym NrQueueIngress = "nat \<times> NrInput list"

definition NrQueueIngress_TryEnqueue :: "NrInput \<Rightarrow> NrQueueIngress \<Rightarrow> NrStatus \<times> NrQueueIngress" where
  "NrQueueIngress_TryEnqueue input ingress =
     (case ingress of (capacity, inputs) \<Rightarrow>
        (case spec_push capacity input inputs of (status, inputs) \<Rightarrow> (status, (capacity, inputs))))"

type_synonym NrIngressRegistry = "NrQueueIngress option list"

text \<open>The loop of \<^verbatim>\<open>Create\<close> over the bindings; a binding without an ingress is a null pointer.\<close>

fun BindIngresses ::
    "(NrDispatchLane \<times> NrQueueIngress option) list \<Rightarrow> NrIngressRegistry \<Rightarrow> NrIngressRegistry NrResult" where
  "BindIngresses [] registry = Inr registry"
| "BindIngresses ((lane, ingress) # bindings) registry =
     (if \<not> IsKnownDispatchLane lane \<or> ingress = None then
        Inl (NrStatus_Failure NrErrorCode.InvalidArgument)
      else if registry ! lane_index lane \<noteq> None then Inl (NrStatus_Failure NrErrorCode.InvalidArgument)
      else BindIngresses bindings (registry[lane_index lane := ingress]))"

definition NrIngressRegistry_Create ::
    "(NrDispatchLane \<times> NrQueueIngress option) list \<Rightarrow> NrIngressRegistry NrResult" where
  "NrIngressRegistry_Create bindings = BindIngresses bindings (replicate DispatchLaneCount None)"

definition NrIngressRegistry_TryEnqueue ::
    "NrDispatchLane \<Rightarrow> NrInput \<Rightarrow> NrIngressRegistry \<Rightarrow> NrStatus \<times> NrIngressRegistry" where
  "NrIngressRegistry_TryEnqueue lane input registry =
     (if \<not> IsKnownDispatchLane lane then (NrStatus_Failure NrErrorCode.InvalidArgument, registry)
      else case registry ! lane_index lane of
        None \<Rightarrow> (NrStatus_Failure NrErrorCode.InvalidState, registry)
      | Some ingress \<Rightarrow>
          (case NrQueueIngress_TryEnqueue input ingress of
             (status, ingress) \<Rightarrow> (status, registry[lane_index lane := Some ingress])))"

text \<open>
  The dispatch table can be built exactly when every rule has a known lane and no two
  rules have the same packet type; a table that was built finds for a packet type exactly the
  rule given for it, and reports the missing rule for every other type.
\<close>

theorem dispatch_table_exact:
  "case NrPacketDispatchTable_Create True rules of
     Inl status \<Rightarrow>
       status = NrStatus_Failure NrErrorCode.InvalidArgument \<and>
       \<not> ((\<forall>r \<in> set rules. dispatchLane r \<noteq> NrDispatchLane.Count) \<and> distinct (map rulePacketType rules))
   | Inr table \<Rightarrow>
       (\<forall>r \<in> set rules. dispatchLane r \<noteq> NrDispatchLane.Count) \<and> distinct (map rulePacketType rules) \<and>
       (\<forall>ptype. case NrPacketDispatchTable_Find table ptype of
          (status, Some r) \<Rightarrow> status = NrStatus_Success \<and> r \<in> set rules \<and> rulePacketType r = ptype
        | (status, None) \<Rightarrow> status = NrStatus_Failure NrErrorCode.DispatchRuleNotFound \<and>
            ptype \<notin> rulePacketType ` set rules)"
proof (cases "RequiredSize rules 0")
  case None
  then have "\<exists>r \<in> set rules. dispatchLane r = NrDispatchLane.Count"
    by (simp add: RequiredSize_None_iff)
  then show ?thesis using None by (simp add: NrPacketDispatchTable_Create_def)
next
  case (Some n)
  note size = RequiredSize_SomeD(1) [OF Some]
  have empty: "table_has (replicate n None) {}" by (simp add: table_has_def)
  have fits: "\<forall>r \<in> set rules. unat (rulePacketType r) < length (replicate n (None :: NrPacketDispatchRule option))"
    using size by simp
  show ?thesis
  proof (cases "StoreRules rules (replicate n None)")
    case None
    then show ?thesis
      using Some StoreRules_None_iff [OF empty fits] by (auto simp: NrPacketDispatchTable_Create_def)
  next
    case (Some table)
    have has: "table_has table (set rules)" using StoreRules_Some [OF Some empty fits] by simp
    have "case NrPacketDispatchTable_Find table ptype of
        (status, Some r) \<Rightarrow> status = NrStatus_Success \<and> r \<in> set rules \<and> rulePacketType r = ptype
      | (status, None) \<Rightarrow> status = NrStatus_Failure NrErrorCode.DispatchRuleNotFound \<and>
          ptype \<notin> rulePacketType ` set rules" for ptype
    proof (cases "unat ptype < length table \<and> table ! unat ptype \<noteq> None")
      case True
      then obtain r where r: "table ! unat ptype = Some r" by blast
      then have "r \<in> set rules" "unat (rulePacketType r) = unat ptype"
        using True has unfolding table_has_def by blast+
      moreover have "NrPacketDispatchTable_Find table ptype = (NrStatus_Success, Some r)"
        using True r by (simp add: NrPacketDispatchTable_Find_def Let_def)
      ultimately show ?thesis by (simp add: word_unat_eq_iff)
    next
      case False
      have "ptype \<noteq> rulePacketType r" if r: "r \<in> set rules" for r
        using False r has unfolding table_has_def by (metis option.distinct(1))
      then show ?thesis
        using False by (auto simp: NrPacketDispatchTable_Find_def Let_def)
    qed
    then show ?thesis
      using \<open>RequiredSize rules 0 = Some n\<close> Some StoreRules_None_iff [OF empty fits] size
      by (simp add: NrPacketDispatchTable_Create_def)
  qed
qed

theorem dispatch_table_exact_witness:
  "\<exists>table. NrPacketDispatchTable_Create True [\<lparr>rulePacketType = 2, dispatchLane = WorldIngress\<rparr>] = Inr table \<and>
     snd (NrPacketDispatchTable_Find table 3) = None"
proof -
  let ?rules = "[\<lparr>rulePacketType = 2, dispatchLane = WorldIngress\<rparr>]"
  obtain table where table: "NrPacketDispatchTable_Create True ?rules = Inr table"
    by (simp add: NrPacketDispatchTable_Create_def Let_def nth_append)
  moreover have "case NrPacketDispatchTable_Find table 3 of
      (status, Some r) \<Rightarrow> status = NrStatus_Success \<and> r \<in> set ?rules \<and> rulePacketType r = 3
    | (status, None) \<Rightarrow> status = NrStatus_Failure NrErrorCode.DispatchRuleNotFound \<and> 3 \<notin> rulePacketType ` set ?rules"
    using dispatch_table_exact [of ?rules] unfolding table by (simp only: sum.case)
  ultimately show ?thesis by (auto split: prod.splits option.splits)
qed

end
