(* ===== verification/NrSession.thy ===== *)
theory NrSession imports NrReceive NrMetrics begin

text \<open>
  A connected session and the IO it posts: the socket wrapper (\<^verbatim>\<open>NrWin32Socket.h/.cpp\<close>), the
  receive and send contexts (\<^verbatim>\<open>NrRecvIoContext.cpp\<close>, \<^verbatim>\<open>NrSendIoContext.cpp\<close>,
  \<^verbatim>\<open>NrIocpOverlappedContextFactory.cpp\<close>), the session (\<^verbatim>\<open>NrSession.h/.cpp\<close>) and the post operations
  (\<^verbatim>\<open>NrSessionIoOperations.cpp\<close>). The operating system and the shared pools are the environment: the
  outcome of each of their calls is read from a list. What the code asks of the operating system is
  recorded in \<open>nativePosts\<close>. A payload reference is the bytes it refers to, which never change
  while it is held (theory \<open>NrPayload\<close>).
\<close>

section \<open>The socket\<close>

datatype NrWin32SocketState =
    Closed
  | OpenTcpIPv4
  | BoundTcpIPv4
  | ConnectPendingTcpIPv4
  | ListeningTcpIPv4
  | AcceptPendingTcpIPv4
  | ConnectedTcpIPv4

text \<open>
  The outcome of a call of the operating system: \<open>None\<close> when it succeeded, otherwise what
  \<^verbatim>\<open>WSAGetLastError\<close> gives. The invalid handle is \<open>None\<close>; an extension function pointer is whether
  it is loaded.
\<close>

type_synonym native_result = "u32 option"

record NrWin32Socket =
  nativeSocket :: "u64 option"
  connectExLoaded :: bool
  acceptExLoaded :: bool
  socketState :: NrWin32SocketState

definition NrWin32Socket_default :: NrWin32Socket where
  "NrWin32Socket_default =
     \<lparr>nativeSocket = None, connectExLoaded = False, acceptExLoaded = False, socketState = Closed\<rparr>"

definition io_failed :: "u32 \<Rightarrow> NrStatus" where
  "io_failed e = \<lparr>errorCode = NrErrorCode.IoFailed, nativeErrorCode = e\<rparr>"

definition WSA_IO_PENDING :: u32 where "WSA_IO_PENDING = 997"

definition OverlappedPostStatus :: "native_result \<Rightarrow> NrStatus" where
  "OverlappedPostStatus result =
     (case result of None \<Rightarrow> NrStatus_Success
      | Some e \<Rightarrow> if e = WSA_IO_PENDING then NrStatus_Success else io_failed e)"

definition Socket_IsValid :: "NrWin32Socket \<Rightarrow> bool" where
  "Socket_IsValid s \<longleftrightarrow> nativeSocket s \<noteq> None"

definition Socket_OpenOverlappedTcpIPv4 :: "u32 + u64 \<Rightarrow> NrWin32Socket \<Rightarrow> NrStatus \<times> NrWin32Socket" where
  "Socket_OpenOverlappedTcpIPv4 wsaSocket s =
     (if Socket_IsValid s then (NrStatus_Failure NrErrorCode.InvalidState, s)
      else case wsaSocket of
        Inl e \<Rightarrow> (io_failed e, s)
      | Inr handle \<Rightarrow> (NrStatus_Success, s\<lparr>nativeSocket := Some handle, socketState := OpenTcpIPv4\<rparr>))"

definition Socket_Bind :: "NrStatus \<Rightarrow> native_result \<Rightarrow> NrWin32Socket \<Rightarrow> NrStatus \<times> NrWin32Socket" where
  "Socket_Bind addressStatus bindResult s =
     (if \<not> Socket_IsValid s \<or> socketState s \<noteq> OpenTcpIPv4 then (NrStatus_Failure NrErrorCode.InvalidState, s)
      else if Failed addressStatus then (addressStatus, s)
      else case bindResult of
        Some e \<Rightarrow> (io_failed e, s)
      | None \<Rightarrow> (NrStatus_Success, s\<lparr>socketState := BoundTcpIPv4\<rparr>))"

definition Socket_Listen :: "native_result \<Rightarrow> NrWin32Socket \<Rightarrow> NrStatus \<times> NrWin32Socket" where
  "Socket_Listen listenResult s =
     (if \<not> Socket_IsValid s \<or> socketState s \<noteq> BoundTcpIPv4 then (NrStatus_Failure NrErrorCode.InvalidState, s)
      else case listenResult of
        Some e \<Rightarrow> (io_failed e, s)
      | None \<Rightarrow> (NrStatus_Success, s\<lparr>socketState := ListeningTcpIPv4\<rparr>))"

text \<open>\<open>pointer\<close> tells whether the query returned a non-null function pointer.\<close>

definition Socket_LoadConnectEx :: "native_result \<Rightarrow> bool \<Rightarrow> NrWin32Socket \<Rightarrow> NrStatus \<times> NrWin32Socket" where
  "Socket_LoadConnectEx ioctlResult pointer s =
     (if \<not> Socket_IsValid s \<or> socketState s \<noteq> BoundTcpIPv4 then (NrStatus_Failure NrErrorCode.InvalidState, s)
      else case ioctlResult of
        Some e \<Rightarrow> (io_failed e, s)
      | None \<Rightarrow>
          if \<not> pointer then (NrStatus_Failure NrErrorCode.IoFailed, s)
          else (NrStatus_Success, s\<lparr>connectExLoaded := True\<rparr>))"

definition Socket_PostConnect :: "native_result \<Rightarrow> bool \<Rightarrow> NrWin32Socket \<Rightarrow> NrStatus \<times> NrWin32Socket" where
  "Socket_PostConnect connectResult argumentsValid s =
     (if \<not> Socket_IsValid s \<or> \<not> connectExLoaded s \<or> socketState s \<noteq> BoundTcpIPv4 then
        (NrStatus_Failure NrErrorCode.InvalidState, s)
      else if \<not> argumentsValid then (NrStatus_Failure NrErrorCode.InvalidArgument, s)
      else case connectResult of
        None \<Rightarrow> (NrStatus_Success, s\<lparr>socketState := ConnectPendingTcpIPv4\<rparr>)
      | Some e \<Rightarrow>
          if e \<noteq> WSA_IO_PENDING then (io_failed e, s)
          else (NrStatus_Success, s\<lparr>socketState := ConnectPendingTcpIPv4\<rparr>))"

definition Socket_UpdateConnectContext :: "native_result \<Rightarrow> NrWin32Socket \<Rightarrow> NrStatus \<times> NrWin32Socket" where
  "Socket_UpdateConnectContext optionResult s =
     (if \<not> Socket_IsValid s \<or> socketState s \<noteq> ConnectPendingTcpIPv4 then
        (NrStatus_Failure NrErrorCode.InvalidState, s)
      else case optionResult of
        Some e \<Rightarrow> (io_failed e, s)
      | None \<Rightarrow> (NrStatus_Success, s\<lparr>socketState := ConnectedTcpIPv4\<rparr>))"

definition Socket_LoadAcceptEx :: "native_result \<Rightarrow> bool \<Rightarrow> NrWin32Socket \<Rightarrow> NrStatus \<times> NrWin32Socket" where
  "Socket_LoadAcceptEx ioctlResult pointer s =
     (if \<not> Socket_IsValid s \<or> socketState s \<noteq> ListeningTcpIPv4 then (NrStatus_Failure NrErrorCode.InvalidState, s)
      else case ioctlResult of
        Some e \<Rightarrow> (io_failed e, s)
      | None \<Rightarrow>
          if \<not> pointer then (NrStatus_Failure NrErrorCode.IoFailed, s)
          else (NrStatus_Success, s\<lparr>acceptExLoaded := True\<rparr>))"

text \<open>\<^verbatim>\<open>PostAccept\<close> and \<^verbatim>\<open>UpdateAcceptContext\<close> change the accepted socket; the listener is read.\<close>

definition Socket_PostAccept ::
    "native_result \<Rightarrow> bool \<Rightarrow> NrWin32Socket \<Rightarrow> NrWin32Socket \<Rightarrow> NrStatus \<times> NrWin32Socket" where
  "Socket_PostAccept acceptResult argumentsValid listener accepted =
     (if \<not> Socket_IsValid listener \<or> \<not> acceptExLoaded listener \<or> socketState listener \<noteq> ListeningTcpIPv4 \<or>
         \<not> Socket_IsValid accepted \<or> socketState accepted \<noteq> OpenTcpIPv4 then
        (NrStatus_Failure NrErrorCode.InvalidState, accepted)
      else if \<not> argumentsValid then (NrStatus_Failure NrErrorCode.InvalidArgument, accepted)
      else case acceptResult of
        None \<Rightarrow> (NrStatus_Success, accepted\<lparr>socketState := AcceptPendingTcpIPv4\<rparr>)
      | Some e \<Rightarrow>
          if e \<noteq> WSA_IO_PENDING then (io_failed e, accepted)
          else (NrStatus_Success, accepted\<lparr>socketState := AcceptPendingTcpIPv4\<rparr>))"

definition Socket_UpdateAcceptContext ::
    "native_result \<Rightarrow> NrWin32Socket \<Rightarrow> NrWin32Socket \<Rightarrow> NrStatus \<times> NrWin32Socket" where
  "Socket_UpdateAcceptContext optionResult listener s =
     (if \<not> Socket_IsValid s \<or> socketState s \<noteq> AcceptPendingTcpIPv4 \<or> \<not> Socket_IsValid listener \<or>
         socketState listener \<noteq> ListeningTcpIPv4 then
        (NrStatus_Failure NrErrorCode.InvalidState, s)
      else case optionResult of
        Some e \<Rightarrow> (io_failed e, s)
      | None \<Rightarrow> (NrStatus_Success, s\<lparr>socketState := ConnectedTcpIPv4\<rparr>))"

definition Socket_Close :: "native_result \<Rightarrow> NrWin32Socket \<Rightarrow> NrStatus \<times> NrWin32Socket" where
  "Socket_Close closeResult s =
     (if \<not> Socket_IsValid s then (NrStatus_Success, s)
      else
        let s = s\<lparr>nativeSocket := None, connectExLoaded := False, acceptExLoaded := False,
                  socketState := Closed\<rparr> in
        case closeResult of Some e \<Rightarrow> (io_failed e, s) | None \<Rightarrow> (NrStatus_Success, s))"

text \<open>The calls of \<^verbatim>\<open>PostRecv\<close> and \<^verbatim>\<open>PostSend\<close>: the buffer is \<open>[]\<close> for a null pointer or length 0.\<close>

definition Socket_PostRecv :: "native_result \<Rightarrow> nat \<Rightarrow> bool \<Rightarrow> NrWin32Socket \<Rightarrow> NrStatus" where
  "Socket_PostRecv recvResult bufferLength hasOverlapped s =
     (if \<not> Socket_IsValid s \<or> socketState s \<noteq> ConnectedTcpIPv4 then NrStatus_Failure NrErrorCode.InvalidState
      else if bufferLength = 0 \<or> \<not> hasOverlapped then NrStatus_Failure NrErrorCode.InvalidArgument
      else OverlappedPostStatus recvResult)"

definition Socket_PostSend :: "native_result \<Rightarrow> byte list \<Rightarrow> bool \<Rightarrow> NrWin32Socket \<Rightarrow> NrStatus" where
  "Socket_PostSend sendResult buffer hasOverlapped s =
     (if \<not> Socket_IsValid s \<or> socketState s \<noteq> ConnectedTcpIPv4 then NrStatus_Failure NrErrorCode.InvalidState
      else if buffer = [] \<or> \<not> hasOverlapped then NrStatus_Failure NrErrorCode.InvalidArgument
      else OverlappedPostStatus sendResult)"

text \<open>The socket's state machine: the handle is valid outside the closed state.\<close>

definition socket_inv :: "NrWin32Socket \<Rightarrow> bool" where
  "socket_inv s \<longleftrightarrow> (nativeSocket s = None \<longleftrightarrow> socketState s = Closed) \<and>
     (acceptExLoaded s \<longrightarrow> socketState s = ListeningTcpIPv4) \<and>
     (connectExLoaded s \<longrightarrow> socketState s \<notin> {Closed, OpenTcpIPv4, AcceptPendingTcpIPv4})"

inductive socket_edge :: "NrWin32SocketState \<Rightarrow> NrWin32SocketState \<Rightarrow> bool" where
  "socket_edge Closed OpenTcpIPv4"
| "socket_edge OpenTcpIPv4 BoundTcpIPv4"
| "socket_edge BoundTcpIPv4 ConnectPendingTcpIPv4"
| "socket_edge ConnectPendingTcpIPv4 ConnectedTcpIPv4"
| "socket_edge BoundTcpIPv4 ListeningTcpIPv4"
| "socket_edge OpenTcpIPv4 AcceptPendingTcpIPv4"
| "socket_edge AcceptPendingTcpIPv4 ConnectedTcpIPv4"
| "socket_edge st Closed"

text \<open>One call on the socket, with what the operating system answers, as a relation.\<close>

inductive socket_call :: "NrWin32Socket \<Rightarrow> NrStatus \<Rightarrow> NrWin32Socket \<Rightarrow> bool" where
  call_open: "(st, s') = Socket_OpenOverlappedTcpIPv4 r s \<Longrightarrow> socket_call s st s'"
| call_bind: "(st, s') = Socket_Bind a r s \<Longrightarrow> socket_call s st s'"
| call_listen: "(st, s') = Socket_Listen r s \<Longrightarrow> socket_call s st s'"
| call_loadconnect: "(st, s') = Socket_LoadConnectEx r p s \<Longrightarrow> socket_call s st s'"
| call_connect: "(st, s') = Socket_PostConnect r v s \<Longrightarrow> socket_call s st s'"
| call_connected: "(st, s') = Socket_UpdateConnectContext r s \<Longrightarrow> socket_call s st s'"
| call_loadaccept: "(st, s') = Socket_LoadAcceptEx r p s \<Longrightarrow> socket_call s st s'"
| call_accept: "(st, s') = Socket_PostAccept r v listener s \<Longrightarrow> socket_call s st s'"
| call_accepted: "(st, s') = Socket_UpdateAcceptContext r listener s \<Longrightarrow> socket_call s st s'"
| call_close: "(st, s') = Socket_Close r s \<Longrightarrow> socket_call s st s'"

lemma socket_step:
  assumes "socket_call s st s'" "socket_inv s"
  shows "socket_inv s'" and "socketState s' = socketState s \<or> socket_edge (socketState s) (socketState s')"
    and "Failed st \<Longrightarrow> s' = s \<or> socketState s' = Closed"
  using assms
  by (cases; auto simp: socket_inv_def Socket_IsValid_def Socket_OpenOverlappedTcpIPv4_def Socket_Bind_def
      Socket_Listen_def Socket_LoadConnectEx_def Socket_PostConnect_def Socket_UpdateConnectContext_def
      Socket_LoadAcceptEx_def Socket_PostAccept_def Socket_UpdateAcceptContext_def Socket_Close_def Let_def
      intro: socket_edge.intros split: if_splits option.splits sum.splits)+

inductive socket_reachable :: "NrWin32Socket \<Rightarrow> bool" where
  fresh: "socket_reachable NrWin32Socket_default"
| called: "socket_reachable s \<Longrightarrow> socket_call s st s' \<Longrightarrow> socket_reachable s'"

lemma socket_reachable_inv: "socket_reachable s \<Longrightarrow> socket_inv s"
  by (induction rule: socket_reachable.induct)
    (auto simp: socket_inv_def NrWin32Socket_default_def dest: socket_step(1))

text \<open>
  Property C40. From its construction on, through any calls and any answers of the operating system, a
  socket holds a handle exactly when its state is not closed and has an extension function loaded
  only in the states that use it; each call moves it along an edge of the state machine or leaves
  its state, and a failed call changes nothing, except that a failed close still closes.
\<close>

theorem socket_state_machine:
  assumes "socket_reachable s" "socket_call s st s'"
  shows "(nativeSocket s' = None \<longleftrightarrow> socketState s' = Closed) \<and>
    (acceptExLoaded s' \<longrightarrow> socketState s' = ListeningTcpIPv4) \<and>
    (connectExLoaded s' \<longrightarrow> socketState s' \<in> {BoundTcpIPv4, ConnectPendingTcpIPv4, ConnectedTcpIPv4, ListeningTcpIPv4}) \<and>
    (socketState s' = socketState s \<or> socket_edge (socketState s) (socketState s')) \<and>
    (Failed st \<longrightarrow> s' = s \<or> socketState s' = Closed)"
  using socket_step [OF assms(2) socket_reachable_inv [OF assms(1)]]
  by (cases "socketState s'") (auto simp: socket_inv_def)

theorem socket_state_machine_witness:
  "socketState (snd (Socket_OpenOverlappedTcpIPv4 (Inr 5) NrWin32Socket_default)) = OpenTcpIPv4 \<and>
   nativeSocket (snd (Socket_OpenOverlappedTcpIPv4 (Inr 5) NrWin32Socket_default)) \<noteq> None"
proof -
  have "socketState (snd (Socket_OpenOverlappedTcpIPv4 (Inr 5) NrWin32Socket_default)) = OpenTcpIPv4"
    by (simp add: Socket_OpenOverlappedTcpIPv4_def NrWin32Socket_default_def Socket_IsValid_def)
  then show ?thesis
    using socket_state_machine [OF fresh call_open [OF prod.collapse], of "Inr 5"] by simp
qed

section \<open>The environment\<close>

datatype native_post = RecvPosted u64 nat nat | SendPosted u64 "byte list"

datatype NrDiagnosticIoOperation = Receive | Send

text \<open>
  \<open>nativeResults\<close> are the outcomes of the overlapped calls to come, \<open>contextResults\<close> those of
  acquiring and checking a context block (its address or the failure), \<open>payloadResults\<close> those of
  acquiring the block of a payload. \<open>nativePosts\<close> lists the buffers handed to the operating system
  with the token of their context, \<open>postFailures\<close> the diagnostics.
\<close>

record NrIoWorld =
  nativeResults :: "native_result list"
  contextResults :: "u64 NrResult list"
  payloadResults :: "NrStatus list"
  nativePosts :: "native_post list"
  postFailures :: "(NrDiagnosticIoOperation \<times> u64 \<times> NrStatus) list"
  ioMetrics :: NrServerMetrics

definition next_native :: "NrIoWorld \<Rightarrow> native_result \<times> NrIoWorld" where
  "next_native w =
     (case nativeResults w of [] \<Rightarrow> (None, w) | r # rs \<Rightarrow> (r, w\<lparr>nativeResults := rs\<rparr>))"

definition next_context :: "NrIoWorld \<Rightarrow> u64 NrResult \<times> NrIoWorld" where
  "next_context w =
     (case contextResults w of
        [] \<Rightarrow> (Inl (NrStatus_Failure NrErrorCode.PoolExhausted), w)
      | r # rs \<Rightarrow> (r, w\<lparr>contextResults := rs\<rparr>))"

section \<open>IO contexts\<close>

text \<open>A context lives in a pooled block; its token is the block's address.\<close>

record NrRecvIoContext =
  recvToken :: u64
  recvSessionKey :: u64
  writableLength :: u32
  recvWsabuf :: "nat \<times> nat"

definition NrRecvIoContext_construct :: "u64 \<Rightarrow> u64 \<Rightarrow> nat \<times> nat \<Rightarrow> NrRecvIoContext" where
  "NrRecvIoContext_construct token ownerSessionKey writableBuffer =
     \<lparr>recvToken = token, recvSessionKey = ownerSessionKey,
      writableLength = of_nat (snd writableBuffer),
      recvWsabuf = (fst writableBuffer, unat (of_nat (snd writableBuffer) :: u32))\<rparr>"

text \<open>\<open>sendWsabuf\<close> is the span the buffer describes, \<open>[]\<close> for the null buffer of length 0.\<close>

record NrSendIoContext =
  sendToken :: u64
  sendSessionKey :: u64
  sendPayload :: "byte list"
  payloadLength :: u32
  bytesSent :: u32
  sendWsabuf :: "byte list"

definition RemainingBytes :: "NrSendIoContext \<Rightarrow> u32" where
  "RemainingBytes c = payloadLength c - bytesSent c"

definition IsFullySent :: "NrSendIoContext \<Rightarrow> bool" where
  "IsFullySent c \<longleftrightarrow> bytesSent c = payloadLength c"

definition RefreshWsaBuffer :: "NrSendIoContext \<Rightarrow> NrSendIoContext" where
  "RefreshWsaBuffer c =
     (let remainingBytes = RemainingBytes c in
      if remainingBytes = 0 then c\<lparr>sendWsabuf := []\<rparr>
      else c\<lparr>sendWsabuf := take (unat remainingBytes) (drop (unat (bytesSent c)) (sendPayload c))\<rparr>)"

definition NrSendIoContext_construct :: "u64 \<Rightarrow> u64 \<Rightarrow> byte list \<Rightarrow> NrSendIoContext" where
  "NrSendIoContext_construct token ownerSessionKey ownerPayload =
     RefreshWsaBuffer
       \<lparr>sendToken = token, sendSessionKey = ownerSessionKey, sendPayload = ownerPayload,
        payloadLength = of_nat (length ownerPayload), bytesSent = 0, sendWsabuf = []\<rparr>"

definition AdvanceBytesSent :: "u32 \<Rightarrow> NrSendIoContext \<Rightarrow> NrStatus \<times> NrSendIoContext" where
  "AdvanceBytesSent bytesTransferred c =
     (if bytesTransferred = 0 \<or> bytesTransferred > RemainingBytes c then
        (NrStatus_Failure NrErrorCode.InvalidArgument, c)
      else (NrStatus_Success, RefreshWsaBuffer (c\<lparr>bytesSent := bytesSent c + bytesTransferred\<rparr>)))"

definition CanUseWsaBufferLength :: "nat \<Rightarrow> bool" where
  "CanUseWsaBufferLength len \<longleftrightarrow> len > 0 \<and> int len \<le> 4294967295"

definition CreateRecv :: "u64 \<Rightarrow> (nat \<times> nat) option \<Rightarrow> NrIoWorld \<Rightarrow> NrRecvIoContext NrResult \<times> NrIoWorld" where
  "CreateRecv sessionKey writableBuffer w =
     (case writableBuffer of
        None \<Rightarrow> (Inl (NrStatus_Failure NrErrorCode.InvalidArgument), w)
      | Some buffer \<Rightarrow>
          if sessionKey = 0 \<or> \<not> CanUseWsaBufferLength (snd buffer) then
            (Inl (NrStatus_Failure NrErrorCode.InvalidArgument), w)
          else case next_context w of
            (Inl status, w) \<Rightarrow> (Inl status, w)
          | (Inr token, w) \<Rightarrow> (Inr (NrRecvIoContext_construct token sessionKey buffer), w))"

definition CreateSend :: "u64 \<Rightarrow> byte list \<Rightarrow> NrIoWorld \<Rightarrow> NrSendIoContext NrResult \<times> NrIoWorld" where
  "CreateSend sessionKey payload w =
     (if sessionKey = 0 \<or> payload = [] \<or> \<not> CanUseWsaBufferLength (length payload) then
        (Inl (NrStatus_Failure NrErrorCode.InvalidArgument), w)
      else case next_context w of
        (Inl status, w) \<Rightarrow> (Inl status, w)
      | (Inr token, w) \<Rightarrow> (Inr (NrSendIoContext_construct token sessionKey payload), w))"

section \<open>The session\<close>

text \<open>A lease that is not valid is \<open>None\<close>.\<close>

record NrSession =
  sessionKey :: u64
  sessionSocket :: NrWin32Socket
  sessionRecvBuffer :: NrRecvBuffer
  pendingRecv :: "NrRecvIoContext option"
  pendingSend :: "NrSendIoContext option"

definition NrSession_Create :: "u64 \<Rightarrow> NrWin32Socket \<Rightarrow> NrRecvBuffer NrResult \<Rightarrow> NrSession NrResult" where
  "NrSession_Create key acceptedSocket recvBufferResult =
     (if key = 0 \<or> \<not> Socket_IsValid acceptedSocket \<or> socketState acceptedSocket \<noteq> ConnectedTcpIPv4 then
        Inl (NrStatus_Failure NrErrorCode.InvalidArgument)
      else case recvBufferResult of
        Inl status \<Rightarrow> Inl status
      | Inr recvBuffer \<Rightarrow>
          Inr \<lparr>sessionKey = key, sessionSocket = acceptedSocket, sessionRecvBuffer = recvBuffer,
               pendingRecv = None, pendingSend = None\<rparr>)"

definition NrSession_IsValid :: "NrSession \<Rightarrow> bool" where
  "NrSession_IsValid s \<longleftrightarrow>
     sessionKey s \<noteq> 0 \<and> Socket_IsValid (sessionSocket s) \<and> bufferCapacity (sessionRecvBuffer s) > 0"

definition HasPendingRecv :: "NrSession \<Rightarrow> bool" where
  "HasPendingRecv s \<longleftrightarrow> pendingRecv s \<noteq> None"

definition SetPendingRecv :: "NrRecvIoContext option \<Rightarrow> NrSession \<Rightarrow> NrStatus \<times> NrSession" where
  "SetPendingRecv lease s =
     (if pendingRecv s \<noteq> None \<or> lease = None then (NrStatus_Failure NrErrorCode.InvalidState, s)
      else (NrStatus_Success, s\<lparr>pendingRecv := lease\<rparr>))"

definition ClearPendingRecv :: "NrSession \<Rightarrow> NrSession" where
  "ClearPendingRecv s = s\<lparr>pendingRecv := None\<rparr>"

definition HasPendingSend :: "NrSession \<Rightarrow> bool" where
  "HasPendingSend s \<longleftrightarrow> pendingSend s \<noteq> None"

definition SetPendingSend :: "NrSendIoContext option \<Rightarrow> NrSession \<Rightarrow> NrStatus \<times> NrSession" where
  "SetPendingSend lease s =
     (if pendingSend s \<noteq> None \<or> lease = None then (NrStatus_Failure NrErrorCode.InvalidState, s)
      else (NrStatus_Success, s\<lparr>pendingSend := lease\<rparr>))"

definition ClearPendingSend :: "NrSession \<Rightarrow> NrSession" where
  "ClearPendingSend s = s\<lparr>pendingSend := None\<rparr>"

section \<open>Posting IO\<close>

definition RecordRecvPostFailure :: "NrSession \<Rightarrow> NrStatus \<Rightarrow> NrIoWorld \<Rightarrow> NrStatus \<times> NrIoWorld" where
  "RecordRecvPostFailure s status w =
     (status, w\<lparr>postFailures := postFailures w @ [(Receive, sessionKey s, status)]\<rparr>)"

definition RecordSendPostFailure :: "NrSession \<Rightarrow> NrStatus \<Rightarrow> NrIoWorld \<Rightarrow> NrStatus \<times> NrIoWorld" where
  "RecordSendPostFailure s status w =
     (status, w\<lparr>postFailures := postFailures w @ [(Send, sessionKey s, status)]\<rparr>)"

definition record_io_metric :: "NrPressureTransactionOutcome \<Rightarrow> NrIoWorld \<Rightarrow> NrIoWorld" where
  "record_io_metric outcome w = w\<lparr>ioMetrics := Metrics_Record outcome (ioMetrics w)\<rparr>"

definition recv_failed :: "NrStatus \<Rightarrow> NrSession \<Rightarrow> NrIoWorld \<Rightarrow> NrStatus \<times> NrSession \<times> NrIoWorld" where
  "recv_failed status s w = (case RecordRecvPostFailure s status w of (st, w) \<Rightarrow> (st, s, w))"

definition send_failed :: "NrStatus \<Rightarrow> NrSession \<Rightarrow> NrIoWorld \<Rightarrow> NrStatus \<times> NrSession \<times> NrIoWorld" where
  "send_failed status s w = (case RecordSendPostFailure s status w of (st, w) \<Rightarrow> (st, s, w))"

definition PostRecv :: "NrSession \<Rightarrow> NrIoWorld \<Rightarrow> NrStatus \<times> NrSession \<times> NrIoWorld" where
  "PostRecv s w =
     (if \<not> NrSession_IsValid s \<or> socketState (sessionSocket s) \<noteq> ConnectedTcpIPv4 then
        recv_failed (NrStatus_Failure NrErrorCode.InvalidArgument) s w
      else if HasPendingRecv s then recv_failed (NrStatus_Failure NrErrorCode.InvalidState) s w
      else
        let s = (if WritableBytes (sessionRecvBuffer s) = 0 then
                   s\<lparr>sessionRecvBuffer := Compact (sessionRecvBuffer s)\<rparr> else s);
            writableBuffer = WritableSpan (sessionRecvBuffer s) in
        if snd writableBuffer = 0 then recv_failed (NrStatus_Failure NrErrorCode.CapacityExceeded) s w
        else case CreateRecv (sessionKey s) (Some writableBuffer) w of
          (Inl status, w) \<Rightarrow> recv_failed status s w
        | (Inr context, w) \<Rightarrow>
            (case SetPendingRecv (Some context) s of (pendingStatus, s) \<Rightarrow>
               if Failed pendingStatus then recv_failed pendingStatus s w
               else case next_native w of (r, w) \<Rightarrow>
                 let postStatus = Socket_PostRecv r (snd (recvWsabuf context)) True (sessionSocket s);
                     w = w\<lparr>nativePosts := nativePosts w @
                       [RecvPosted (recvToken context) (fst (recvWsabuf context)) (snd (recvWsabuf context))]\<rparr> in
                 if Failed postStatus then recv_failed postStatus (ClearPendingRecv s) w
                 else (NrStatus_Success, s, w)))"

definition PostSend :: "NrSession \<Rightarrow> byte list \<Rightarrow> NrIoWorld \<Rightarrow> NrStatus \<times> NrSession \<times> NrIoWorld" where
  "PostSend s payload w =
     (if \<not> NrSession_IsValid s \<or> socketState (sessionSocket s) \<noteq> ConnectedTcpIPv4 \<or> payload = [] then
        send_failed (NrStatus_Failure NrErrorCode.InvalidArgument) s w
      else if HasPendingSend s then send_failed (NrStatus_Failure NrErrorCode.InvalidState) s w
      else case CreateSend (sessionKey s) payload w of
        (Inl status, w) \<Rightarrow> send_failed status s (record_io_metric SendResourceAcquireFailed w)
      | (Inr context, w) \<Rightarrow>
          (case SetPendingSend (Some context) s of (pendingStatus, s) \<Rightarrow>
             if Failed pendingStatus then send_failed pendingStatus s w
             else case next_native w of (r, w) \<Rightarrow>
               let postStatus = Socket_PostSend r (sendWsabuf context) True (sessionSocket s);
                   w = w\<lparr>nativePosts := nativePosts w @ [SendPosted (sendToken context) (sendWsabuf context)]\<rparr> in
               if Failed postStatus then
                 send_failed postStatus (ClearPendingSend s) (record_io_metric NativeSendPostFailed w)
               else (NrStatus_Success, s, w)))"

definition RepostPendingSend :: "NrSession \<Rightarrow> NrIoWorld \<Rightarrow> NrStatus \<times> NrSession \<times> NrIoWorld" where
  "RepostPendingSend s w =
     (case pendingSend s of
        None \<Rightarrow> send_failed (NrStatus_Failure NrErrorCode.InvalidArgument) s w
      | Some context \<Rightarrow>
          if \<not> NrSession_IsValid s \<or> socketState (sessionSocket s) \<noteq> ConnectedTcpIPv4 then
            send_failed (NrStatus_Failure NrErrorCode.InvalidArgument) s w
          else if IsFullySent context \<or> sendWsabuf context = [] then
            send_failed (NrStatus_Failure NrErrorCode.InvalidState) s w
          else case next_native w of (r, w) \<Rightarrow>
            let postStatus = Socket_PostSend r (sendWsabuf context) True (sessionSocket s);
                w = w\<lparr>nativePosts := nativePosts w @ [SendPosted (sendToken context) (sendWsabuf context)]\<rparr> in
            if Failed postStatus then
              send_failed postStatus (ClearPendingSend s) (record_io_metric NativeSendPostFailed w)
            else (NrStatus_Success, s, w))"

end
