(* ===== verification/NrSessionIo.thy ===== *)
theory NrSessionIo imports NrSession NrDispatch NrHandoff begin

text \<open>
  The IO actor of a session (\<^verbatim>\<open>NrSessionIoActor.h\<close> and its five source files \<^verbatim>\<open>.cpp\<close>,
  \<^verbatim>\<open>.Accept.cpp\<close>, \<^verbatim>\<open>.Recv.cpp\<close>, \<^verbatim>\<open>.Send.cpp\<close>, \<^verbatim>\<open>.Drain.cpp\<close>). One worker at a time runs it, so its
  handlers are functions on its state: the session with its buffer and contexts, the mailboxes, the
  ring of payloads waiting to be sent, the report for the scheduler and the components it calls.
  The mailboxes are reference queues (theory \<open>NrQueue\<close>). An \<^verbatim>\<open>assert\<close> is a condition whose failure is
  recorded in \<open>assertFailed\<close>.
\<close>

section \<open>Events and reports\<close>

record NrSessionIoCompletedEvent =
  completedSessionKey :: u64
  bytesTransferred :: u64
  completedStatus :: NrStatus
  contextToken :: u64

datatype NrSessionRecvEvent =
    Accepted
  | RecvCompleted NrSessionIoCompletedEvent
  | CloseRequested NrSessionEndReason

datatype NrSessionSendEvent =
    SendRequested "byte list"
  | SendCompleted NrSessionIoCompletedEvent

record NrSessionIoDrainReport =
  reportEndReason :: NrSessionEndReason
  reportCloseRequested :: bool
  reportCloseReady :: bool
  requestPostRecv :: bool
  pendingSendQueueFull :: bool

definition NrSessionIoDrainReport_default :: NrSessionIoDrainReport where
  "NrSessionIoDrainReport_default =
     \<lparr>reportEndReason = NoEndReason, reportCloseRequested = False, reportCloseReady = False,
      requestPostRecv = False, pendingSendQueueFull = False\<rparr>"

record NrActorDrainReport =
  drainedCount :: nat
  needsReschedule :: bool

section \<open>The actor\<close>

text \<open>
  \<open>sendChannel\<close> is the shared control of the send channel, by its identity, \<open>sendChannelOpen\<close> its
  state. \<open>pendingSendQueue\<close> is the array of the ring; a moved-out cell holds \<open>[]\<close>, the empty
  reference.
\<close>

record NrSessionIoActor =
  acceptRecvMailbox :: "NrSessionRecvEvent list"
  sendMailbox :: "NrSessionSendEvent list"
  sendChannel :: NrSessionSendChannelControl
  sendChannelOpen :: bool
  pendingSendQueue :: "byte list list"
  pendingSendQueueCapacity :: nat
  pendingSendQueueHead :: nat
  pendingSendQueueSize :: nat
  actorSession :: NrSession
  parserByteOrder :: NrByteOrder
  packetParser :: NrPacketParserConfig
  dispatchTable :: NrPacketDispatchTable
  ingressRegistry :: NrIngressRegistry
  toWorldHandoff :: NrToWorldHandoff
  ioWorld :: NrIoWorld
  drainReport :: NrSessionIoDrainReport
  pendingRecvIoCount :: nat
  pendingSendIoCount :: nat
  actorEndReason :: NrSessionEndReason
  closeRequested :: bool
  assertFailed :: bool

definition nr_assert :: "bool \<Rightarrow> NrSessionIoActor \<Rightarrow> NrSessionIoActor" where
  "nr_assert condition a = (if condition then a else a\<lparr>assertFailed := True\<rparr>)"

definition on_metrics :: "(NrServerMetrics \<Rightarrow> NrServerMetrics) \<Rightarrow> NrSessionIoActor \<Rightarrow> NrSessionIoActor" where
  "on_metrics f a = a\<lparr>ioWorld := (ioWorld a)\<lparr>ioMetrics := f (ioMetrics (ioWorld a))\<rparr>\<rparr>"

text \<open>
  \<^verbatim>\<open>Create\<close>: \<open>session\<close> is \<open>None\<close> for the null pointer, \<open>valid\<close> tells whether the schedule handle and
  the dependencies are valid; the results of creating the mailboxes, the send channel and of the two
  allocations are arguments.
\<close>

definition NrSessionIoActor_Create ::
    "nat \<Rightarrow> nat \<Rightarrow> NrSession option \<Rightarrow> bool \<Rightarrow> NrStatus \<Rightarrow> NrStatus \<Rightarrow>
     NrSessionSendChannelControl NrResult \<Rightarrow> bool \<Rightarrow> bool \<Rightarrow>
     NrByteOrder \<Rightarrow> NrPacketParserConfig \<Rightarrow> NrPacketDispatchTable \<Rightarrow> NrIngressRegistry \<Rightarrow> NrToWorldHandoff \<Rightarrow>
     NrIoWorld \<Rightarrow> NrSessionIoActor NrResult" where
  "NrSessionIoActor_Create mailboxCapacity sendQueueCapacity session valid acceptRecvStatus sendStatus
     channelResult queueAllocated actorAllocated order parser table registry handoff world =
     (if session = None \<or> mailboxCapacity = 0 \<or> sendQueueCapacity = 0 \<or> \<not> valid then
        Inl (NrStatus_Failure NrErrorCode.InvalidArgument)
      else if Failed acceptRecvStatus then Inl acceptRecvStatus
      else if Failed sendStatus then Inl sendStatus
      else case channelResult of
        Inl status \<Rightarrow> Inl status
      | Inr control \<Rightarrow>
          if \<not> queueAllocated then Inl (NrStatus_Failure NrErrorCode.OutOfMemory)
          else if \<not> actorAllocated then Inl (NrStatus_Failure NrErrorCode.OutOfMemory)
          else Inr
            \<lparr>acceptRecvMailbox = [], sendMailbox = [], sendChannel = control, sendChannelOpen = True,
             pendingSendQueue = replicate sendQueueCapacity [], pendingSendQueueCapacity = sendQueueCapacity,
             pendingSendQueueHead = 0, pendingSendQueueSize = 0, actorSession = the session,
             parserByteOrder = order, packetParser = parser, dispatchTable = table,
             ingressRegistry = registry, toWorldHandoff = handoff, ioWorld = world,
             drainReport = NrSessionIoDrainReport_default, pendingRecvIoCount = 0, pendingSendIoCount = 0,
             actorEndReason = NoEndReason, closeRequested = False, assertFailed = False\<rparr>)"

text \<open>
  The destructor on the server's metrics: it takes back what this actor still contributes to the
  gauges. Without metrics it only asserts that no IO is pending.
\<close>

definition NrSessionIoActor_destroy :: "bool \<Rightarrow> NrSessionIoActor \<Rightarrow> NrServerMetrics \<Rightarrow> NrServerMetrics \<times> bool" where
  "NrSessionIoActor_destroy hasMetrics a m =
     (if \<not> hasMetrics then (m, pendingRecvIoCount a = 0 \<and> pendingSendIoCount a = 0)
      else
        let m = (Metrics_RecordPendingRecvIoCompleted ^^ pendingRecvIoCount a) m;
            m = (Metrics_RecordPendingSendIoCompleted ^^ pendingSendIoCount a) m;
            m = fold (\<lambda>event m. case event of SendRequested payload \<Rightarrow> RecordSendMailboxDequeued m
                        | SendCompleted completed \<Rightarrow> m) (sendMailbox a) m;
            m = (RecordPendingSendDequeued ^^ pendingSendQueueSize a) m
        in (m, True))"

definition HasPendingIo :: "NrSessionIoActor \<Rightarrow> bool" where
  "HasPendingIo a \<longleftrightarrow> pendingRecvIoCount a \<noteq> 0 \<or> pendingSendIoCount a \<noteq> 0"

definition RefreshCloseReady :: "NrSessionIoActor \<Rightarrow> NrSessionIoActor" where
  "RefreshCloseReady a =
     a\<lparr>drainReport := (drainReport a)\<lparr>reportEndReason := actorEndReason a,
         reportCloseRequested := closeRequested a,
         reportCloseReady := closeRequested a \<and> \<not> HasPendingIo a\<rparr>\<rparr>"

definition TakeDrainReport :: "NrSessionIoActor \<Rightarrow> NrSessionIoDrainReport \<times> NrSessionIoActor" where
  "TakeDrainReport a =
     (let a = RefreshCloseReady a in
      (drainReport a, a\<lparr>drainReport := NrSessionIoDrainReport_default\<rparr>))"

definition RecordPendingRecvIoStarted :: "NrSessionIoActor \<Rightarrow> NrSessionIoActor" where
  "RecordPendingRecvIoStarted a =
     (let a = nr_assert (pendingRecvIoCount a = 0) a;
          a = a\<lparr>pendingRecvIoCount := pendingRecvIoCount a + 1\<rparr>
      in RefreshCloseReady (on_metrics Metrics_RecordPendingRecvIoStarted a))"

definition RecordPendingRecvIoCompleted :: "NrSessionIoActor \<Rightarrow> NrSessionIoActor" where
  "RecordPendingRecvIoCompleted a =
     (let a = nr_assert (pendingRecvIoCount a \<noteq> 0) a;
          a = a\<lparr>pendingRecvIoCount := pendingRecvIoCount a - 1\<rparr>
      in RefreshCloseReady (on_metrics Metrics_RecordPendingRecvIoCompleted a))"

definition RecordPendingSendIoStarted :: "NrSessionIoActor \<Rightarrow> NrSessionIoActor" where
  "RecordPendingSendIoStarted a =
     (let a = nr_assert (pendingSendIoCount a = 0) a;
          a = a\<lparr>pendingSendIoCount := pendingSendIoCount a + 1\<rparr>
      in RefreshCloseReady (on_metrics Metrics_RecordPendingSendIoStarted a))"

definition RecordPendingSendIoCompleted :: "NrSessionIoActor \<Rightarrow> NrSessionIoActor" where
  "RecordPendingSendIoCompleted a =
     (let a = nr_assert (pendingSendIoCount a \<noteq> 0) a;
          a = a\<lparr>pendingSendIoCount := pendingSendIoCount a - 1\<rparr>
      in RefreshCloseReady (on_metrics Metrics_RecordPendingSendIoCompleted a))"

text \<open>
  The first close request wins: it closes the socket, counts the pressure that caused it, closes the
  send channel and records the closure for the world.
\<close>

definition count_pressure_close :: "NrSessionEndReason \<Rightarrow> NrSessionIoActor \<Rightarrow> NrSessionIoActor" where
  "count_pressure_close reason a =
     (case reason of
        ReceivePressure \<Rightarrow> on_metrics (Metrics_Record ReceivePressureCloseCommitted) a
      | SendPressure \<Rightarrow> on_metrics (Metrics_Record SendPressureCloseCommitted) a
      | _ \<Rightarrow> a)"

definition RecordCloseRequested :: "NrSessionEndReason \<Rightarrow> NrSessionIoActor \<Rightarrow> NrSessionIoActor" where
  "RecordCloseRequested endReason a =
     (let a = nr_assert (endReason \<noteq> NoEndReason) a in
      let a = (if \<not> closeRequested a then
        let a = a\<lparr>closeRequested := True, actorEndReason := endReason\<rparr>;
            a = a\<lparr>actorSession := (actorSession a)
                   \<lparr>sessionSocket := snd (Socket_Close None (sessionSocket (actorSession a)))\<rparr>\<rparr>;
            a = count_pressure_close endReason a in
        if sendChannelOpen a then
          let a = a\<lparr>sendChannelOpen := False\<rparr> in
          (case RecordClosed (sessionKey (actorSession a)) (actorEndReason a) (toWorldHandoff a) of
             (publicationStatus, h) \<Rightarrow> nr_assert (Succeeded publicationStatus) (a\<lparr>toWorldHandoff := h\<rparr>))
        else a
      else a) in
      RefreshCloseReady a)"

definition RecordServerStopping :: "NrSessionIoActor \<Rightarrow> NrSessionIoActor" where
  "RecordServerStopping a = RecordCloseRequested ServerStopping a"

definition RecordPostRecvRequested :: "NrSessionIoActor \<Rightarrow> NrSessionIoActor" where
  "RecordPostRecvRequested a = a\<lparr>drainReport := (drainReport a)\<lparr>requestPostRecv := True\<rparr>\<rparr>"

definition IsCloseRequested :: "NrSessionIoActor \<Rightarrow> bool" where
  "IsCloseRequested a \<longleftrightarrow> closeRequested a"

definition on_session :: "(NrSession \<Rightarrow> NrSession) \<Rightarrow> NrSessionIoActor \<Rightarrow> NrSessionIoActor" where
  "on_session f a = a\<lparr>actorSession := f (actorSession a)\<rparr>"

section \<open>Receive lane\<close>

definition PostRequestedRecv :: "NrSessionIoActor \<Rightarrow> NrStatus \<times> NrSessionIoActor" where
  "PostRequestedRecv a =
     (if \<not> NrSession_IsValid (actorSession a) \<or> HasPendingRecv (actorSession a) then
        (NrStatus_Failure NrErrorCode.InvalidState, a)
      else
        let a = RecordPendingRecvIoStarted a in
        case PostRecv (actorSession a) (ioWorld a) of (postStatus, s, w) \<Rightarrow>
          let a = a\<lparr>actorSession := s, ioWorld := w\<rparr> in
          if Failed postStatus then
            (postStatus, RecordCloseRequested TransportError (RecordPendingRecvIoCompleted a))
          else (NrStatus_Success, a))"

definition RequestNextRecvIfReady :: "NrSessionIoActor \<Rightarrow> NrStatus \<times> NrSessionIoActor" where
  "RequestNextRecvIfReady a =
     (if reportCloseRequested (drainReport a) then (NrStatus_Success, a)
      else if \<not> NrSession_IsValid (actorSession a) \<or> HasPendingRecv (actorSession a) then
        (NrStatus_Failure NrErrorCode.InvalidState, RecordCloseRequested TransportError a)
      else
        let a = (if WritableBytes (sessionRecvBuffer (actorSession a)) = 0 then
                   on_session (\<lambda>s. s\<lparr>sessionRecvBuffer := Compact (sessionRecvBuffer s)\<rparr>) a else a) in
        if WritableBytes (sessionRecvBuffer (actorSession a)) = 0 then
          (NrStatus_Failure NrErrorCode.CapacityExceeded, RecordCloseRequested ReceivePressure a)
        else (NrStatus_Success, RecordPostRecvRequested a))"

text \<open>The payload factory on the pools at that moment, as the environment's next outcome.\<close>

definition next_payload :: "NrIoWorld \<Rightarrow> (byte list \<Rightarrow> byte list NrResult) \<times> NrIoWorld" where
  "next_payload w =
     (case payloadResults w of
        [] \<Rightarrow> (Inr, w)
      | st # sts \<Rightarrow>
          (\<lambda>bytes. if bytes = [] then Inr [] else if Failed st then Inl st else Inr bytes,
           w\<lparr>payloadResults := sts\<rparr>))"

text \<open>
  One frame that the parser reported: the dispatch of \<^verbatim>\<open>DrainCommittedRecvFrames\<close> up to the
  \<^verbatim>\<open>Consume\<close>. The failure has requested the close.
\<close>

definition DispatchFrame :: "NrPacketParseResult \<Rightarrow> NrSessionIoActor \<Rightarrow> NrStatus \<times> NrSessionIoActor" where
  "DispatchFrame result a =
     (case NrPacketDispatchTable_Find (dispatchTable a) (packetType (parsedHeader result)) of
        (findStatus, rule) \<Rightarrow>
        if Failed findStatus then (findStatus, RecordCloseRequested EndProtocolError a)
        else
          let rule = the rule in
          if dispatchLane rule = WorldIngress then
            (case RecordPacket (sessionKey (actorSession a)) (rulePacketType rule)
                (drop NrPacketHeaderLength (packetBytes result)) (toWorldHandoff a) of
               (publicationStatus, h) \<Rightarrow>
                 let a = a\<lparr>toWorldHandoff := h\<rparr> in
                 if Failed publicationStatus then
                   let e = errorCode publicationStatus;
                       receivePressure = (e = NrErrorCode.QueueFull \<or> e = NrErrorCode.OutOfMemory \<or>
                                          e = NrErrorCode.CapacityExceeded) in
                   (publicationStatus,
                    RecordCloseRequested (if receivePressure then ReceivePressure else TransportError) a)
                 else (NrStatus_Success, a))
          else
            (case next_payload (ioWorld a) of (createPayload, w) \<Rightarrow>
               let a = a\<lparr>ioWorld := w\<rparr> in
               case CreateInput createPayload (sessionKey (actorSession a)) result rule of
                 Inl status \<Rightarrow> (status, RecordCloseRequested ReceivePressure a)
               | Inr input \<Rightarrow>
                   (case NrIngressRegistry_TryEnqueue (dispatchLane rule) input (ingressRegistry a) of
                      (enqueueStatus, registry) \<Rightarrow>
                        let a = a\<lparr>ingressRegistry := registry\<rparr> in
                        if Failed enqueueStatus then (enqueueStatus, RecordCloseRequested ReceivePressure a)
                        else (NrStatus_Success, a))))"

definition ConsumeFrame :: "NrPacketParseResult \<Rightarrow> NrSessionIoActor \<Rightarrow> NrStatus \<times> NrSessionIoActor" where
  "ConsumeFrame result a =
     (case Consume (ucast (packetLength (parsedHeader result))) (sessionRecvBuffer (actorSession a)) of
        (consumeStatus, b) \<Rightarrow>
          let a = on_session (\<lambda>s. s\<lparr>sessionRecvBuffer := b\<rparr>) a in
          if Failed consumeStatus then (consumeStatus, RecordCloseRequested EndProtocolError a)
          else (NrStatus_Success, a))"

text \<open>
  The loop of \<^verbatim>\<open>DrainCommittedRecvFrames\<close>. Every turn consumes a frame, so the number of readable
  bytes bounds the turns: \<open>DrainFrames (length readable)\<close> never runs out (\<open>DrainFrames_enough\<close>).
\<close>

fun DrainFrames :: "nat \<Rightarrow> NrSessionIoActor \<Rightarrow> (NrStatus \<times> NrSessionIoActor) option" where
  "DrainFrames 0 a =
     (if ReadableBytes (sessionRecvBuffer (actorSession a)) > 0 then None else Some (NrStatus_Success, a))"
| "DrainFrames (Suc turns) a =
     (if ReadableBytes (sessionRecvBuffer (actorSession a)) > 0 then
        (case NrPacketParser_Parse (parserByteOrder a) (packetParser a)
            (ReadableSpan (sessionRecvBuffer (actorSession a))) of (parseStatus', result) \<Rightarrow>
           if Failed parseStatus' then Some (parseStatus', RecordCloseRequested EndProtocolError a)
           else if parseStatus result = NeedMoreData then Some (NrStatus_Success, a)
           else case DispatchFrame result a of (status, a) \<Rightarrow>
             if Failed status then Some (status, a)
             else case ConsumeFrame result a of (status, a) \<Rightarrow>
               if Failed status then Some (status, a) else DrainFrames turns a)
      else Some (NrStatus_Success, a))"

definition DrainCommittedRecvFrames :: "NrSessionIoActor \<Rightarrow> NrStatus \<times> NrSessionIoActor" where
  "DrainCommittedRecvFrames a =
     the (DrainFrames (unat (ReadableBytes (sessionRecvBuffer (actorSession a)))) a)"

definition HandleRecvCompleted ::
    "NrSessionIoCompletedEvent \<Rightarrow> NrSessionIoActor \<Rightarrow> NrStatus \<times> NrSessionIoActor" where
  "HandleRecvCompleted completed a =
     (case pendingRecv (actorSession a) of
        None \<Rightarrow> (NrStatus_Failure NrErrorCode.InvalidState, RecordCloseRequested TransportError a)
      | Some context \<Rightarrow>
          if completedSessionKey completed \<noteq> sessionKey (actorSession a) then
            (NrStatus_Failure NrErrorCode.InvalidState, RecordCloseRequested TransportError a)
          else if contextToken completed \<noteq> recvToken context then
            (NrStatus_Failure NrErrorCode.InvalidState, RecordCloseRequested TransportError (nr_assert False a))
          else if Succeeded (completedStatus completed) \<and> bytesTransferred completed > 0 then
            let a = RecordPendingRecvIoCompleted (on_session ClearPendingRecv a) in
            if IsCloseRequested a then (NrStatus_Success, a)
            else case CommitWritten (bytesTransferred completed) (sessionRecvBuffer (actorSession a)) of
              (commitStatus, b) \<Rightarrow>
                let a = on_session (\<lambda>s. s\<lparr>sessionRecvBuffer := b\<rparr>) a in
                if Failed commitStatus then (commitStatus, RecordCloseRequested TransportError a)
                else case DrainCommittedRecvFrames a of (drainStatus, a) \<Rightarrow>
                  if Failed drainStatus then (drainStatus, a) else RequestNextRecvIfReady a
          else
            let a = RecordPendingRecvIoCompleted (on_session ClearPendingRecv a) in
            (NrStatus_Success,
             RecordCloseRequested
               (if Succeeded (completedStatus completed) then RemoteClosed else TransportError) a))"

section \<open>Accept lane\<close>

definition FailCloseAcceptedSession :: "NrSessionIoActor \<Rightarrow> NrSessionIoActor" where
  "FailCloseAcceptedSession a = RecordCloseRequested TransportError a"

definition HandleAccepted :: "NrSessionIoActor \<Rightarrow> NrStatus \<times> NrSessionIoActor" where
  "HandleAccepted a =
     (case RecordAccepted (sessionKey (actorSession a)) (sendChannel a) (toWorldHandoff a) of
        (acceptedStatus, h) \<Rightarrow>
          let a = a\<lparr>toWorldHandoff := h\<rparr> in
          if Failed acceptedStatus then (acceptedStatus, FailCloseAcceptedSession a)
          else case PostRequestedRecv a of (recvStatus, a) \<Rightarrow>
            if Failed recvStatus then (recvStatus, FailCloseAcceptedSession a)
            else (NrStatus_Success, a))"

section \<open>Send lane\<close>

definition Actor_HasPendingSend :: "NrSessionIoActor \<Rightarrow> bool" where
  "Actor_HasPendingSend a \<longleftrightarrow> pendingSendQueueSize a \<noteq> 0"

definition RecordPendingSendQueueFull :: "NrSessionIoActor \<Rightarrow> NrSessionIoActor" where
  "RecordPendingSendQueueFull a =
     (let a = a\<lparr>drainReport := (drainReport a)\<lparr>pendingSendQueueFull := True\<rparr>\<rparr>;
          a = on_metrics (Metrics_Record SendAdmissionRejected) a
      in RecordCloseRequested SendPressure a)"

definition TryPushPendingSend :: "byte list \<Rightarrow> NrSessionIoActor \<Rightarrow> NrStatus \<times> NrSessionIoActor" where
  "TryPushPendingSend payload a =
     (if pendingSendQueueCapacity a = 0 \<or> payload = [] then (NrStatus_Failure NrErrorCode.InvalidArgument, a)
      else if pendingSendQueueSize a = pendingSendQueueCapacity a then
        (NrStatus_Failure NrErrorCode.QueueFull, a)
      else
        let tail = (pendingSendQueueHead a + pendingSendQueueSize a) mod pendingSendQueueCapacity a;
            a = a\<lparr>pendingSendQueue := (pendingSendQueue a)[tail := payload],
                  pendingSendQueueSize := pendingSendQueueSize a + 1\<rparr>
        in (NrStatus_Success, on_metrics RecordPendingSendQueued a))"

definition TryPopPendingSend :: "NrSessionIoActor \<Rightarrow> byte list NrResult \<times> NrSessionIoActor" where
  "TryPopPendingSend a =
     (if pendingSendQueueCapacity a = 0 then (Inl (NrStatus_Failure NrErrorCode.InvalidState), a)
      else if \<not> Actor_HasPendingSend a then (Inl (NrStatus_Failure NrErrorCode.QueueEmpty), a)
      else
        let head = pendingSendQueueHead a;
            payload = pendingSendQueue a ! head;
            a = a\<lparr>pendingSendQueue := (pendingSendQueue a)[head := []],
                  pendingSendQueueHead := (head + 1) mod pendingSendQueueCapacity a,
                  pendingSendQueueSize := pendingSendQueueSize a - 1\<rparr>
        in (Inr payload, on_metrics RecordPendingSendDequeued a))"

definition TryPostNextPendingSend :: "NrSessionIoActor \<Rightarrow> NrStatus \<times> NrSessionIoActor" where
  "TryPostNextPendingSend a =
     (if IsCloseRequested a then (NrStatus_Success, a)
      else if \<not> NrSession_IsValid (actorSession a) then
        (NrStatus_Failure NrErrorCode.InvalidState, RecordCloseRequested TransportError a)
      else if HasPendingSend (actorSession a) \<or> \<not> Actor_HasPendingSend a then (NrStatus_Success, a)
      else case TryPopPendingSend a of
        (Inl status, a) \<Rightarrow> (status, RecordCloseRequested TransportError a)
      | (Inr payload, a) \<Rightarrow>
          let a = RecordPendingSendIoStarted a in
          case PostSend (actorSession a) payload (ioWorld a) of (postStatus, s, w) \<Rightarrow>
            let a = a\<lparr>actorSession := s, ioWorld := w\<rparr> in
            if Failed postStatus then
              (postStatus, RecordCloseRequested TransportError (RecordPendingSendIoCompleted a))
            else (NrStatus_Success, a))"

definition HandleSendRequested :: "byte list \<Rightarrow> NrSessionIoActor \<Rightarrow> NrStatus \<times> NrSessionIoActor" where
  "HandleSendRequested payload a =
     (if IsCloseRequested a then (NrStatus_Success, a)
      else case TryPushPendingSend payload a of (pushStatus, a) \<Rightarrow>
        if errorCode pushStatus = NrErrorCode.QueueFull then (NrStatus_Success, RecordPendingSendQueueFull a)
        else if Failed pushStatus then (pushStatus, a)
        else TryPostNextPendingSend a)"

definition HandleSendCompleted ::
    "NrSessionIoCompletedEvent \<Rightarrow> NrSessionIoActor \<Rightarrow> NrStatus \<times> NrSessionIoActor" where
  "HandleSendCompleted completed a =
     (case pendingSend (actorSession a) of
        None \<Rightarrow> (NrStatus_Failure NrErrorCode.InvalidState, RecordCloseRequested TransportError a)
      | Some context \<Rightarrow>
          if completedSessionKey completed \<noteq> sessionKey (actorSession a) then
            (NrStatus_Failure NrErrorCode.InvalidState, RecordCloseRequested TransportError a)
          else if contextToken completed \<noteq> sendToken context then
            (NrStatus_Failure NrErrorCode.InvalidState, RecordCloseRequested TransportError (nr_assert False a))
          else
            let a = RecordPendingSendIoCompleted a in
            if Failed (completedStatus completed) \<or> bytesTransferred completed = 0 then
              (NrStatus_Success, RecordCloseRequested TransportError (on_session ClearPendingSend a))
            else case AdvanceBytesSent (ucast (bytesTransferred completed)) context of
              (advanceStatus, context) \<Rightarrow>
                let a = on_session (\<lambda>s. s\<lparr>pendingSend := Some context\<rparr>) a in
                if Failed advanceStatus then
                  (advanceStatus, RecordCloseRequested TransportError (on_session ClearPendingSend a))
                else if IsCloseRequested a then (NrStatus_Success, on_session ClearPendingSend a)
                else if IsFullySent context then TryPostNextPendingSend (on_session ClearPendingSend a)
                else
                  let a = RecordPendingSendIoStarted a in
                  case RepostPendingSend (actorSession a) (ioWorld a) of (repostStatus, s, w) \<Rightarrow>
                    let a = a\<lparr>actorSession := s, ioWorld := w\<rparr> in
                    if Failed repostStatus then
                      let a = RecordPendingSendIoCompleted a;
                          a = (if HasPendingSend (actorSession a) then on_session ClearPendingSend a else a)
                      in (repostStatus, RecordCloseRequested TransportError a)
                    else (NrStatus_Success, a))"

section \<open>Drain loop\<close>

definition TryDrainOneAcceptRecvEvent :: "NrSessionIoActor \<Rightarrow> bool NrResult \<times> NrSessionIoActor" where
  "TryDrainOneAcceptRecvEvent a =
     (case spec_pop (acceptRecvMailbox a) of (dequeueStatus, event, mailbox) \<Rightarrow>
        if errorCode dequeueStatus = NrErrorCode.QueueEmpty then (Inr False, a)
        else if Failed dequeueStatus then (Inl dequeueStatus, a)
        else
          let a = a\<lparr>acceptRecvMailbox := mailbox\<rparr> in
          case the event of
            Accepted \<Rightarrow>
              (case HandleAccepted a of (status, a) \<Rightarrow>
                 if Failed status then (Inl status, a) else (Inr True, a))
          | RecvCompleted completed \<Rightarrow>
              (case HandleRecvCompleted completed a of (status, a) \<Rightarrow>
                 if Failed status then (Inl status, a) else (Inr True, a))
          | CloseRequested endReason \<Rightarrow>
              if endReason = NoEndReason then (Inl (NrStatus_Failure NrErrorCode.InvalidArgument), a)
              else (Inr True, RecordCloseRequested endReason a))"

definition TryDrainOneSendEvent :: "NrSessionIoActor \<Rightarrow> bool NrResult \<times> NrSessionIoActor" where
  "TryDrainOneSendEvent a =
     (case spec_pop (sendMailbox a) of (dequeueStatus, event, mailbox) \<Rightarrow>
        if errorCode dequeueStatus = NrErrorCode.QueueEmpty then (Inr False, a)
        else if Failed dequeueStatus then (Inl dequeueStatus, a)
        else
          let a = a\<lparr>sendMailbox := mailbox\<rparr> in
          case the event of
            SendRequested payload \<Rightarrow>
              (case HandleSendRequested payload (on_metrics RecordSendMailboxDequeued a) of (status, a) \<Rightarrow>
                 if Failed status then (Inl status, a) else (Inr True, a))
          | SendCompleted completed \<Rightarrow>
              (case HandleSendCompleted completed a of (status, a) \<Rightarrow>
                 if Failed status then (Inl status, a) else (Inr True, a)))"

text \<open>
  The loop of \<^verbatim>\<open>Drain\<close> with the events it may still handle: the number it has handled, or the
  failure. It stops early when both mailboxes were empty.
\<close>

fun DrainLoop :: "nat \<Rightarrow> nat \<Rightarrow> NrSessionIoActor \<Rightarrow> (nat \<times> bool) NrResult \<times> NrSessionIoActor" where
  "DrainLoop 0 drained a = (Inr (drained, True), a)"
| "DrainLoop (Suc left) drained a =
     (case TryDrainOneAcceptRecvEvent a of
        (Inl status, a) \<Rightarrow> (Inl status, a)
      | (Inr True, a) \<Rightarrow>
          if left = 0 then (Inr (drained + 1, True), a)
          else (case TryDrainOneSendEvent a of
             (Inl status, a) \<Rightarrow> (Inl status, a)
           | (Inr True, a) \<Rightarrow> DrainLoop (left - 1) (drained + 2) a
           | (Inr False, a) \<Rightarrow> DrainLoop left (drained + 1) a)
      | (Inr False, a) \<Rightarrow>
          (case TryDrainOneSendEvent a of
             (Inl status, a) \<Rightarrow> (Inl status, a)
           | (Inr True, a) \<Rightarrow> DrainLoop left (drained + 1) a
           | (Inr False, a) \<Rightarrow> (Inr (drained, False), a)))"

definition Drain :: "nat \<Rightarrow> NrSessionIoActor \<Rightarrow> NrActorDrainReport NrResult \<times> NrSessionIoActor" where
  "Drain maxEvents a =
     (if maxEvents = 0 then (Inl (NrStatus_Failure NrErrorCode.InvalidArgument), a)
      else case DrainLoop maxEvents 0 a of
        (Inl status, a) \<Rightarrow> (Inl status, a)
      | (Inr (drained, exhausted), a) \<Rightarrow>
          (Inr \<lparr>drainedCount = drained, needsReschedule = exhausted\<rparr>, a))"

end
