(* ===== verification/NrSessionIoProofs.thy ===== *)
theory NrSessionIoProofs imports NrSessionIo begin

text \<open>
  Correctness of the session's IO actor (theory \<open>NrSessionIo\<close>). The collection \<open>actor_simps\<close> gives
  the effect of the bookkeeping operations field by field, so that the handlers are analysed without
  unfolding record updates. The invariant \<open>io_inv\<close> holds at every handler's boundary.
\<close>

named_theorems actor_simps \<open>effect of the actor's bookkeeping on its fields\<close>

section \<open>Effects of the bookkeeping operations\<close>

lemma nr_assert_fields [actor_simps]:
  "acceptRecvMailbox (nr_assert b a) = acceptRecvMailbox a"
  "sendMailbox (nr_assert b a) = sendMailbox a"
  "sendChannelOpen (nr_assert b a) = sendChannelOpen a"
  "pendingSendQueue (nr_assert b a) = pendingSendQueue a"
  "pendingSendQueueCapacity (nr_assert b a) = pendingSendQueueCapacity a"
  "pendingSendQueueHead (nr_assert b a) = pendingSendQueueHead a"
  "pendingSendQueueSize (nr_assert b a) = pendingSendQueueSize a"
  "actorSession (nr_assert b a) = actorSession a"
  "parserByteOrder (nr_assert b a) = parserByteOrder a"
  "packetParser (nr_assert b a) = packetParser a"
  "dispatchTable (nr_assert b a) = dispatchTable a"
  "ingressRegistry (nr_assert b a) = ingressRegistry a"
  "toWorldHandoff (nr_assert b a) = toWorldHandoff a"
  "sendChannel (nr_assert b a) = sendChannel a"
  "ioWorld (nr_assert b a) = ioWorld a"
  "drainReport (nr_assert b a) = drainReport a"
  "pendingRecvIoCount (nr_assert b a) = pendingRecvIoCount a"
  "pendingSendIoCount (nr_assert b a) = pendingSendIoCount a"
  "actorEndReason (nr_assert b a) = actorEndReason a"
  "closeRequested (nr_assert b a) = closeRequested a"
  "assertFailed (nr_assert b a) \<longleftrightarrow> assertFailed a \<or> \<not> b"
  by (simp_all add: nr_assert_def)

lemma on_metrics_fields [actor_simps]:
  "acceptRecvMailbox (on_metrics f a) = acceptRecvMailbox a"
  "sendMailbox (on_metrics f a) = sendMailbox a"
  "sendChannelOpen (on_metrics f a) = sendChannelOpen a"
  "pendingSendQueue (on_metrics f a) = pendingSendQueue a"
  "pendingSendQueueCapacity (on_metrics f a) = pendingSendQueueCapacity a"
  "pendingSendQueueHead (on_metrics f a) = pendingSendQueueHead a"
  "pendingSendQueueSize (on_metrics f a) = pendingSendQueueSize a"
  "actorSession (on_metrics f a) = actorSession a"
  "parserByteOrder (on_metrics f a) = parserByteOrder a"
  "packetParser (on_metrics f a) = packetParser a"
  "dispatchTable (on_metrics f a) = dispatchTable a"
  "ingressRegistry (on_metrics f a) = ingressRegistry a"
  "toWorldHandoff (on_metrics f a) = toWorldHandoff a"
  "sendChannel (on_metrics f a) = sendChannel a"
  "nativePosts (ioWorld (on_metrics f a)) = nativePosts (ioWorld a)"
  "ioMetrics (ioWorld (on_metrics f a)) = f (ioMetrics (ioWorld a))"
  "drainReport (on_metrics f a) = drainReport a"
  "pendingRecvIoCount (on_metrics f a) = pendingRecvIoCount a"
  "pendingSendIoCount (on_metrics f a) = pendingSendIoCount a"
  "actorEndReason (on_metrics f a) = actorEndReason a"
  "closeRequested (on_metrics f a) = closeRequested a"
  "assertFailed (on_metrics f a) = assertFailed a"
  by (simp_all add: on_metrics_def)

lemma RefreshCloseReady_fields [actor_simps]:
  "acceptRecvMailbox (RefreshCloseReady a) = acceptRecvMailbox a"
  "sendMailbox (RefreshCloseReady a) = sendMailbox a"
  "sendChannelOpen (RefreshCloseReady a) = sendChannelOpen a"
  "pendingSendQueue (RefreshCloseReady a) = pendingSendQueue a"
  "pendingSendQueueCapacity (RefreshCloseReady a) = pendingSendQueueCapacity a"
  "pendingSendQueueHead (RefreshCloseReady a) = pendingSendQueueHead a"
  "pendingSendQueueSize (RefreshCloseReady a) = pendingSendQueueSize a"
  "actorSession (RefreshCloseReady a) = actorSession a"
  "parserByteOrder (RefreshCloseReady a) = parserByteOrder a"
  "packetParser (RefreshCloseReady a) = packetParser a"
  "dispatchTable (RefreshCloseReady a) = dispatchTable a"
  "ingressRegistry (RefreshCloseReady a) = ingressRegistry a"
  "toWorldHandoff (RefreshCloseReady a) = toWorldHandoff a"
  "sendChannel (RefreshCloseReady a) = sendChannel a"
  "ioWorld (RefreshCloseReady a) = ioWorld a"
  "requestPostRecv (drainReport (RefreshCloseReady a)) = requestPostRecv (drainReport a)"
  "reportCloseRequested (drainReport (RefreshCloseReady a)) = closeRequested a"
  "pendingRecvIoCount (RefreshCloseReady a) = pendingRecvIoCount a"
  "pendingSendIoCount (RefreshCloseReady a) = pendingSendIoCount a"
  "actorEndReason (RefreshCloseReady a) = actorEndReason a"
  "closeRequested (RefreshCloseReady a) = closeRequested a"
  "assertFailed (RefreshCloseReady a) = assertFailed a"
  by (simp_all add: RefreshCloseReady_def)

lemma on_session_fields [actor_simps]:
  "acceptRecvMailbox (on_session f a) = acceptRecvMailbox a"
  "sendMailbox (on_session f a) = sendMailbox a"
  "sendChannelOpen (on_session f a) = sendChannelOpen a"
  "pendingSendQueue (on_session f a) = pendingSendQueue a"
  "pendingSendQueueCapacity (on_session f a) = pendingSendQueueCapacity a"
  "pendingSendQueueHead (on_session f a) = pendingSendQueueHead a"
  "pendingSendQueueSize (on_session f a) = pendingSendQueueSize a"
  "actorSession (on_session f a) = f (actorSession a)"
  "parserByteOrder (on_session f a) = parserByteOrder a"
  "packetParser (on_session f a) = packetParser a"
  "dispatchTable (on_session f a) = dispatchTable a"
  "ingressRegistry (on_session f a) = ingressRegistry a"
  "toWorldHandoff (on_session f a) = toWorldHandoff a"
  "sendChannel (on_session f a) = sendChannel a"
  "ioWorld (on_session f a) = ioWorld a"
  "drainReport (on_session f a) = drainReport a"
  "pendingRecvIoCount (on_session f a) = pendingRecvIoCount a"
  "pendingSendIoCount (on_session f a) = pendingSendIoCount a"
  "actorEndReason (on_session f a) = actorEndReason a"
  "closeRequested (on_session f a) = closeRequested a"
  "assertFailed (on_session f a) = assertFailed a"
  by (simp_all add: on_session_def)

text \<open>Starting and completing an IO change its count, its gauge and the report only.\<close>

lemmas io_count_defs = RecordPendingRecvIoStarted_def RecordPendingRecvIoCompleted_def
  RecordPendingSendIoStarted_def RecordPendingSendIoCompleted_def Let_def

lemma io_started_completed_counts [actor_simps]:
  "pendingRecvIoCount (RecordPendingRecvIoStarted a) = pendingRecvIoCount a + 1"
  "pendingSendIoCount (RecordPendingRecvIoStarted a) = pendingSendIoCount a"
  "pendingRecvIoCount (RecordPendingRecvIoCompleted a) = pendingRecvIoCount a - 1"
  "pendingSendIoCount (RecordPendingRecvIoCompleted a) = pendingSendIoCount a"
  "pendingRecvIoCount (RecordPendingSendIoStarted a) = pendingRecvIoCount a"
  "pendingSendIoCount (RecordPendingSendIoStarted a) = pendingSendIoCount a + 1"
  "pendingRecvIoCount (RecordPendingSendIoCompleted a) = pendingRecvIoCount a"
  "pendingSendIoCount (RecordPendingSendIoCompleted a) = pendingSendIoCount a - 1"
  "assertFailed (RecordPendingRecvIoStarted a) \<longleftrightarrow> assertFailed a \<or> pendingRecvIoCount a \<noteq> 0"
  "assertFailed (RecordPendingRecvIoCompleted a) \<longleftrightarrow> assertFailed a \<or> pendingRecvIoCount a = 0"
  "assertFailed (RecordPendingSendIoStarted a) \<longleftrightarrow> assertFailed a \<or> pendingSendIoCount a \<noteq> 0"
  "assertFailed (RecordPendingSendIoCompleted a) \<longleftrightarrow> assertFailed a \<or> pendingSendIoCount a = 0"
  "ioMetrics (ioWorld (RecordPendingRecvIoStarted a)) = Metrics_RecordPendingRecvIoStarted (ioMetrics (ioWorld a))"
  "ioMetrics (ioWorld (RecordPendingRecvIoCompleted a)) = Metrics_RecordPendingRecvIoCompleted (ioMetrics (ioWorld a))"
  "ioMetrics (ioWorld (RecordPendingSendIoStarted a)) = Metrics_RecordPendingSendIoStarted (ioMetrics (ioWorld a))"
  "ioMetrics (ioWorld (RecordPendingSendIoCompleted a)) = Metrics_RecordPendingSendIoCompleted (ioMetrics (ioWorld a))"
  by (auto simp: io_count_defs actor_simps)

lemma io_started_fields [actor_simps]:
  assumes "f \<in> {RecordPendingRecvIoStarted, RecordPendingRecvIoCompleted,
    RecordPendingSendIoStarted, RecordPendingSendIoCompleted}"
  shows "acceptRecvMailbox (f a) = acceptRecvMailbox a"
  "sendMailbox (f a) = sendMailbox a"
  "sendChannelOpen (f a) = sendChannelOpen a"
  "pendingSendQueue (f a) = pendingSendQueue a"
  "pendingSendQueueCapacity (f a) = pendingSendQueueCapacity a"
  "pendingSendQueueHead (f a) = pendingSendQueueHead a"
  "pendingSendQueueSize (f a) = pendingSendQueueSize a"
  "actorSession (f a) = actorSession a"
  "parserByteOrder (f a) = parserByteOrder a"
  "packetParser (f a) = packetParser a"
  "dispatchTable (f a) = dispatchTable a"
  "ingressRegistry (f a) = ingressRegistry a"
  "toWorldHandoff (f a) = toWorldHandoff a"
  "sendChannel (f a) = sendChannel a"
  "nativePosts (ioWorld (f a)) = nativePosts (ioWorld a)"
  "requestPostRecv (drainReport (f a)) = requestPostRecv (drainReport a)"
  "reportCloseRequested (drainReport (f a)) = closeRequested a"
  "actorEndReason (f a) = actorEndReason a"
  "closeRequested (f a) = closeRequested a"
  using assms by (elim insertE emptyE; simp add: io_count_defs actor_simps)+

text \<open>A close request: what it keeps, and what the first one does.\<close>

lemma count_pressure_close_eq:
  "count_pressure_close reason a = a \<or>
   (\<exists>outcome. IsKnownPressureTransactionOutcome outcome \<and>
      count_pressure_close reason a = on_metrics (Metrics_Record outcome) a)"
  by (cases reason)
    (auto simp: count_pressure_close_def IsKnownPressureTransactionOutcome_def
      NrPressureTransactionOutcomeCount_def intro: exI [of _ ReceivePressureCloseCommitted] exI [of _ SendPressureCloseCommitted])

definition close_session :: "NrSession \<Rightarrow> NrSession" where
  "close_session s = s\<lparr>sessionSocket := snd (Socket_Close None (sessionSocket s))\<rparr>"

lemma close_session_fields [actor_simps]:
  "sessionKey (close_session s) = sessionKey s"
  "sessionRecvBuffer (close_session s) = sessionRecvBuffer s"
  "pendingRecv (close_session s) = pendingRecv s"
  "pendingSend (close_session s) = pendingSend s"
  "\<not> Socket_IsValid (sessionSocket (close_session s))"
  by (simp_all add: close_session_def Socket_Close_def Socket_IsValid_def Let_def)

lemma RecordCloseRequested_again:
  assumes "closeRequested a"
  shows "RecordCloseRequested reason a = RefreshCloseReady (nr_assert (reason \<noteq> NoEndReason) a)"
  using assms by (simp add: RecordCloseRequested_def Let_def actor_simps)

lemma RecordCloseRequested_fields [actor_simps]:
  "acceptRecvMailbox (RecordCloseRequested reason a) = acceptRecvMailbox a"
  "sendMailbox (RecordCloseRequested reason a) = sendMailbox a"
  "pendingSendQueue (RecordCloseRequested reason a) = pendingSendQueue a"
  "pendingSendQueueCapacity (RecordCloseRequested reason a) = pendingSendQueueCapacity a"
  "pendingSendQueueHead (RecordCloseRequested reason a) = pendingSendQueueHead a"
  "pendingSendQueueSize (RecordCloseRequested reason a) = pendingSendQueueSize a"
  "parserByteOrder (RecordCloseRequested reason a) = parserByteOrder a"
  "packetParser (RecordCloseRequested reason a) = packetParser a"
  "dispatchTable (RecordCloseRequested reason a) = dispatchTable a"
  "ingressRegistry (RecordCloseRequested reason a) = ingressRegistry a"
  "sendChannel (RecordCloseRequested reason a) = sendChannel a"
  "nativePosts (ioWorld (RecordCloseRequested reason a)) = nativePosts (ioWorld a)"
  "pendingRecvIoCount (RecordCloseRequested reason a) = pendingRecvIoCount a"
  "pendingSendIoCount (RecordCloseRequested reason a) = pendingSendIoCount a"
  "requestPostRecv (drainReport (RecordCloseRequested reason a)) = requestPostRecv (drainReport a)"
  "reportCloseRequested (drainReport (RecordCloseRequested reason a))"
  "closeRequested (RecordCloseRequested reason a)"
  "actorEndReason (RecordCloseRequested reason a) = (if closeRequested a then actorEndReason a else reason)"
  "actorSession (RecordCloseRequested reason a) =
    (if closeRequested a then actorSession a else close_session (actorSession a))"
  "sendChannelOpen (RecordCloseRequested reason a) \<longleftrightarrow> closeRequested a \<and> sendChannelOpen a"
  by (cases "closeRequested a"; cases reason;
      auto simp: RecordCloseRequested_def count_pressure_close_def close_session_def Let_def actor_simps
        split: prod.splits)+

lemma RecordCloseRequested_handoff [actor_simps]:
  "toWorldHandoff (RecordCloseRequested reason a) =
    (if \<not> closeRequested a \<and> sendChannelOpen a then
       snd (RecordClosed (sessionKey (actorSession a)) reason (toWorldHandoff a))
     else toWorldHandoff a)"
  "assertFailed (RecordCloseRequested reason a) \<longleftrightarrow>
    assertFailed a \<or> reason = NoEndReason \<or>
    (\<not> closeRequested a \<and> sendChannelOpen a \<and>
     Failed (fst (RecordClosed (sessionKey (actorSession a)) reason (toWorldHandoff a))))"
  by (cases "closeRequested a"; cases reason;
      auto simp: RecordCloseRequested_def count_pressure_close_def Failed_def Let_def actor_simps
        split: prod.splits)+

lemma RecordCloseRequested_metrics [actor_simps]:
  "metricPendingRecvIo (ioMetrics (ioWorld (RecordCloseRequested reason a))) = metricPendingRecvIo (ioMetrics (ioWorld a))"
  "metricPendingSendIo (ioMetrics (ioWorld (RecordCloseRequested reason a))) = metricPendingSendIo (ioMetrics (ioWorld a))"
  "pendingSendQueueDepth (ioMetrics (ioWorld (RecordCloseRequested reason a))) = pendingSendQueueDepth (ioMetrics (ioWorld a))"
  "sendMailboxDepth (ioMetrics (ioWorld (RecordCloseRequested reason a))) = sendMailboxDepth (ioMetrics (ioWorld a))"
  "metricsAssertFailed (ioMetrics (ioWorld (RecordCloseRequested reason a))) = metricsAssertFailed (ioMetrics (ioWorld a))"
  by (cases "closeRequested a"; cases reason;
      auto simp: RecordCloseRequested_def count_pressure_close_def Let_def actor_simps metrics_simps
        IsKnownPressureTransactionOutcome_def NrPressureTransactionOutcomeCount_def split: prod.splits)+

section \<open>Posting\<close>

text \<open>
  What a post does to the session and to the environment. A failed post leaves no context behind, a
  successful one leaves the new context pending; the readable bytes are never touched.
\<close>

lemma next_fields [simp]:
  "next_native w = (r, w') \<Longrightarrow> ioMetrics w' = ioMetrics w \<and> nativePosts w' = nativePosts w \<and>
     payloadResults w' = payloadResults w"
  "next_context w = (c, w') \<Longrightarrow> ioMetrics w' = ioMetrics w \<and> nativePosts w' = nativePosts w \<and>
     payloadResults w' = payloadResults w"
  by (auto simp: next_native_def next_context_def split: list.splits)

lemma post_failed_simps [simp]:
  "recv_failed status s w = (status, s, w\<lparr>postFailures := postFailures w @ [(Receive, sessionKey s, status)]\<rparr>)"
  "send_failed status s w = (status, s, w\<lparr>postFailures := postFailures w @ [(Send, sessionKey s, status)]\<rparr>)"
  by (simp_all add: recv_failed_def send_failed_def RecordRecvPostFailure_def RecordSendPostFailure_def)

definition buffer_kept :: "NrRecvBuffer \<Rightarrow> NrRecvBuffer \<Rightarrow> bool" where
  "buffer_kept b b' \<longleftrightarrow> bufferCapacity b' = bufferCapacity b \<and>
     (recv_inv b \<longrightarrow> recv_inv b' \<and> ReadableSpan b' = ReadableSpan b)"

lemma buffer_kept_refl [simp]: "buffer_kept b b"
  by (simp add: buffer_kept_def)

lemma buffer_kept_Compact [simp]: "buffer_kept b (Compact b)"
  using Compact_stream [of b] by (auto simp: buffer_kept_def Compact_def Let_def)

text \<open>A failed allocation of a context carries a failure.\<close>

definition env_ok :: "NrIoWorld \<Rightarrow> bool" where
  "env_ok w \<longleftrightarrow> (\<forall>st. Inl st \<in> set (contextResults w) \<longrightarrow> Failed st)"

definition world_kept :: "NrIoWorld \<Rightarrow> NrIoWorld \<Rightarrow> bool" where
  "world_kept w w' \<longleftrightarrow> (env_ok w \<longrightarrow> env_ok w') \<and>
     metricPendingRecvIo (ioMetrics w') = metricPendingRecvIo (ioMetrics w) \<and>
     metricPendingSendIo (ioMetrics w') = metricPendingSendIo (ioMetrics w) \<and>
     pendingSendQueueDepth (ioMetrics w') = pendingSendQueueDepth (ioMetrics w) \<and>
     sendMailboxDepth (ioMetrics w') = sendMailboxDepth (ioMetrics w) \<and>
     metricsAssertFailed (ioMetrics w') = metricsAssertFailed (ioMetrics w)"

lemma world_kept_refl [simp]: "world_kept w w"
  by (simp add: world_kept_def)

lemma world_kept_trans: "world_kept w w' \<Longrightarrow> world_kept w' w'' \<Longrightarrow> world_kept w w''"
  by (simp add: world_kept_def)

lemma world_kept_update [simp]:
  "world_kept w (w'\<lparr>postFailures := x\<rparr>) \<longleftrightarrow> world_kept w w'"
  "world_kept w (w'\<lparr>nativePosts := y\<rparr>) \<longleftrightarrow> world_kept w w'"
  by (simp_all add: world_kept_def env_ok_def)

lemma world_kept_metric [simp]:
  "IsKnownPressureTransactionOutcome outcome \<Longrightarrow> world_kept w (record_io_metric outcome w') \<longleftrightarrow> world_kept w w'"
  by (simp add: world_kept_def env_ok_def record_io_metric_def metrics_simps)

lemma next_world_kept:
  "next_native w = (r, w') \<Longrightarrow> world_kept w w'"
  "next_context w = (c, w') \<Longrightarrow> world_kept w w'"
  "next_payload w = (f, w') \<Longrightarrow> world_kept w w'"
proof -
  have updates: "world_kept w (w\<lparr>nativeResults := x\<rparr>)" "world_kept w (w\<lparr>payloadResults := y\<rparr>)"
    "set rs \<subseteq> set (contextResults w) \<Longrightarrow> world_kept w (w\<lparr>contextResults := rs\<rparr>)" for x y rs
    by (auto simp: world_kept_def env_ok_def)
  show "next_native w = (r, w') \<Longrightarrow> world_kept w w'"
    using updates(1) by (cases "nativeResults w") (simp_all add: next_native_def, metis)
  show "next_context w = (c, w') \<Longrightarrow> world_kept w w'"
    using updates(3) [of "tl (contextResults w)"]
    by (cases "contextResults w") (auto simp: next_context_def)
  show "next_payload w = (f, w') \<Longrightarrow> world_kept w w'"
    using updates(2) [of "tl (payloadResults w)"]
    by (cases "payloadResults w") (auto simp: next_payload_def)
qed

lemma next_context_failed: "next_context w = (Inl st, w') \<Longrightarrow> env_ok w \<Longrightarrow> Failed st"
  by (auto simp: next_context_def env_ok_def split: list.splits)

lemma io_failed_Failed [simp]: "Failed (io_failed e)"
  by (simp add: io_failed_def Failed_def Succeeded_def)

lemma unat_u32_of_nat: "n < 2 ^ 32 \<Longrightarrow> unat (of_nat n :: u32) = n"
  by (simp add: unsigned_of_nat take_bit_nat_eq_self)

lemma CreateRecv_result:
  assumes "CreateRecv key (Some buffer) w = (result, w')" "env_ok w"
  shows "world_kept w w'" and "result = Inl st \<Longrightarrow> Failed st"
    and "result = Inr c \<Longrightarrow> recvSessionKey c = key \<and> recvWsabuf c = buffer"
proof -
  obtain r w1 where next_context: "next_context w = (r, w1)" by fastforce
  consider (bad) "(result, w') = (Inl (NrStatus_Failure NrErrorCode.InvalidArgument), w)"
    | (ok) "snd buffer < 2 ^ 32" "w' = w1"
        "result = (case r of Inl st \<Rightarrow> Inl st | Inr token \<Rightarrow> Inr (NrRecvIoContext_construct token key buffer))"
    using assms(1) next_context
    by (auto simp: CreateRecv_def CanUseWsaBufferLength_def split: if_splits sum.splits)
  then have "world_kept w w' \<and> (\<forall>st. result = Inl st \<longrightarrow> Failed st) \<and>
    (\<forall>c. result = Inr c \<longrightarrow> recvSessionKey c = key \<and> recvWsabuf c = buffer)"
  proof cases
    case bad then show ?thesis by simp
  next
    case ok
    then show ?thesis
      using next_world_kept(2) [OF next_context] next_context_failed [of w] next_context assms(2)
      by (auto simp: NrRecvIoContext_construct_def unat_u32_of_nat split: sum.splits)
  qed
  then show "world_kept w w'" "result = Inl st \<Longrightarrow> Failed st"
    "result = Inr c \<Longrightarrow> recvSessionKey c = key \<and> recvWsabuf c = buffer" by auto
qed

text \<open>A send context between two completions: it holds the unsent rest of a payload.\<close>

definition send_context_ok :: "NrSendIoContext \<Rightarrow> bool" where
  "send_context_ok c \<longleftrightarrow>
     length (sendPayload c) < 2 ^ 32 \<and> unat (payloadLength c) = length (sendPayload c) \<and>
     unat (bytesSent c) < length (sendPayload c) \<and> sendWsabuf c = drop (unat (bytesSent c)) (sendPayload c)"

lemma construct_send_ok:
  assumes "payload \<noteq> []" "length payload < 2 ^ 32"
  shows "send_context_ok (NrSendIoContext_construct token key payload)"
    and "sendWsabuf (NrSendIoContext_construct token key payload) = payload"
  using assms
  by (auto simp: send_context_ok_def NrSendIoContext_construct_def RefreshWsaBuffer_def RemainingBytes_def
      Let_def unat_u32_of_nat word_unat_eq_iff)

lemma CreateSend_result:
  assumes "CreateSend key payload w = (result, w')" "env_ok w"
  shows "world_kept w w'" and "result = Inl st \<Longrightarrow> Failed st"
    and "result = Inr c \<Longrightarrow> send_context_ok c \<and> sendWsabuf c = payload"
proof -
  obtain r w1 where next_context: "next_context w = (r, w1)" by fastforce
  consider (bad) "(result, w') = (Inl (NrStatus_Failure NrErrorCode.InvalidArgument), w)"
    | (ok) "payload \<noteq> []" "length payload < 2 ^ 32" "w' = w1"
        "result = (case r of Inl st \<Rightarrow> Inl st | Inr token \<Rightarrow> Inr (NrSendIoContext_construct token key payload))"
    using assms(1) next_context
    by (auto simp: CreateSend_def CanUseWsaBufferLength_def split: if_splits sum.splits)
  then have "world_kept w w' \<and> (\<forall>st. result = Inl st \<longrightarrow> Failed st) \<and>
    (\<forall>c. result = Inr c \<longrightarrow> send_context_ok c \<and> sendWsabuf c = payload)"
  proof cases
    case bad then show ?thesis by simp
  next
    case ok
    then show ?thesis
      using next_world_kept(2) [OF next_context] next_context_failed [of w] next_context assms(2)
        construct_send_ok [OF ok(1,2)]
      by (auto split: sum.splits)
  qed
  then show "world_kept w w'" "result = Inl st \<Longrightarrow> Failed st"
    "result = Inr c \<Longrightarrow> send_context_ok c \<and> sendWsabuf c = payload" by auto
qed

definition compact_if_full :: "NrSession \<Rightarrow> NrSession" where
  "compact_if_full s =
     (if WritableBytes (sessionRecvBuffer s) = 0 then s\<lparr>sessionRecvBuffer := Compact (sessionRecvBuffer s)\<rparr> else s)"

lemma compact_if_full_fields [simp]:
  "sessionKey (compact_if_full s) = sessionKey s"
  "sessionSocket (compact_if_full s) = sessionSocket s"
  "pendingRecv (compact_if_full s) = pendingRecv s"
  "pendingSend (compact_if_full s) = pendingSend s"
  "buffer_kept (sessionRecvBuffer s) (sessionRecvBuffer (compact_if_full s))"
  by (simp_all add: compact_if_full_def)

text \<open>The three outcomes of a post: refused before the call, refused by the call, accepted.\<close>

lemma PostRecv_cases:
  assumes "PostRecv s w = (st, s', w')" "env_ok w"
  obtains (refused) "Failed st" "s' = s \<or> s' = compact_if_full s" "world_kept w w'"
  | (failed) "Failed st" "pendingRecv s = None" "s' = (compact_if_full s)\<lparr>pendingRecv := None\<rparr>" "world_kept w w'"
  | (posted) c where "st = NrStatus_Success" "pendingRecv s = None"
      "s' = (compact_if_full s)\<lparr>pendingRecv := Some c\<rparr>" "world_kept w w'" "recvSessionKey c = sessionKey s"
      "recvWsabuf c = WritableSpan (sessionRecvBuffer (compact_if_full s))"
proof -
  let ?s = "compact_if_full s"
  let ?span = "WritableSpan (sessionRecvBuffer ?s)"
  consider (early) "Failed st" "s' = s" "world_kept w w'"
    | (full) "Failed st" "s' = ?s" "world_kept w w'"
    | (tried) "pendingRecv s = None"
        "(case CreateRecv (sessionKey s) (Some ?span) w of
          (Inl status, w) \<Rightarrow> recv_failed status ?s w
        | (Inr ctx, w) \<Rightarrow>
            (case SetPendingRecv (Some ctx) ?s of (pendingStatus, s) \<Rightarrow>
               if Failed pendingStatus then recv_failed pendingStatus s w
               else case next_native w of (r, w) \<Rightarrow>
                 let postStatus = Socket_PostRecv r (snd (recvWsabuf ctx)) True (sessionSocket s);
                     w = w\<lparr>nativePosts := nativePosts w @
                       [RecvPosted (recvToken ctx) (fst (recvWsabuf ctx)) (snd (recvWsabuf ctx))]\<rparr> in
                 if Failed postStatus then recv_failed postStatus (ClearPendingRecv s) w
                 else (NrStatus_Success, s, w))) = (st, s', w')"
    using assms(1)
    by (auto simp: PostRecv_def Let_def compact_if_full_def [symmetric] HasPendingRecv_def
        simp del: split_paired_All split: if_splits)
  then show thesis
  proof cases
    case tried
    obtain result w1 where create: "CreateRecv (sessionKey s) (Some ?span) w = (result, w1)" by fastforce
    note c = CreateRecv_result [OF create assms(2)]
    show thesis
    proof (cases result)
      case (Inl status)
      then show thesis using tried c(1,2) create refused by (auto simp del: compact_if_full_fields)
    next
      case (Inr ctx)
      obtain r w2 where native: "next_native w1 = (r, w2)" by fastforce
      define post where "post = Socket_PostRecv r (snd (recvWsabuf ctx)) True (sessionSocket s)"
      have set: "SetPendingRecv (Some ctx) ?s = (NrStatus_Success, ?s\<lparr>pendingRecv := Some ctx\<rparr>)"
        using tried(1) by (simp add: SetPendingRecv_def)
      have kept: "world_kept w w2"
        using c(1) next_world_kept(1) [OF native] by (rule world_kept_trans)
      show thesis
      proof (cases "Failed post")
        case True
        then have "Failed st \<and> s' = ?s\<lparr>pendingRecv := None\<rparr> \<and> world_kept w w'"
          using tried(2) kept
          by (auto simp: create Inr set native Let_def post_def [symmetric] ClearPendingRecv_def)
        then show thesis using failed tried(1) by blast
      next
        case False
        then have "st = NrStatus_Success \<and> s' = ?s\<lparr>pendingRecv := Some ctx\<rparr> \<and> world_kept w w'"
          using tried(2) kept
          by (auto simp: create Inr set native Let_def post_def [symmetric])
        then show thesis using posted tried(1) c(3) [OF Inr] by simp
      qed
    qed
  qed (use refused in blast)+
qed

lemma known_outcomes [simp]:
  "IsKnownPressureTransactionOutcome SendResourceAcquireFailed"
  "IsKnownPressureTransactionOutcome NativeSendPostFailed"
  "IsKnownPressureTransactionOutcome SendAdmissionRejected"
  by (simp_all add: IsKnownPressureTransactionOutcome_def NrPressureTransactionOutcomeCount_def)

lemma PostSend_cases:
  assumes "PostSend s payload w = (st, s', w')" "env_ok w"
  obtains (refused) "Failed st" "s' = s" "world_kept w w'"
  | (failed) "Failed st" "pendingSend s = None" "s' = s\<lparr>pendingSend := None\<rparr>" "world_kept w w'"
  | (posted) c where "st = NrStatus_Success" "pendingSend s = None" "s' = s\<lparr>pendingSend := Some c\<rparr>"
      "world_kept w w'" "send_context_ok c" "sendWsabuf c = payload"
      "last (nativePosts w') = SendPosted (sendToken c) payload"
proof (cases "NrSession_IsValid s \<and> socketState (sessionSocket s) = ConnectedTcpIPv4 \<and> payload \<noteq> [] \<and>
    \<not> HasPendingSend s")
  case False
  then have "Failed st \<and> s' = s \<and> world_kept w w'"
    using assms(1) by (auto simp: PostSend_def split: if_splits)
  then show thesis using refused by blast
next
  case True
  then have free: "pendingSend s = None" by (simp add: HasPendingSend_def)
  obtain result w1 where create: "CreateSend (sessionKey s) payload w = (result, w1)" by fastforce
  note c = CreateSend_result [OF create assms(2)]
  show thesis
  proof (cases result)
    case (Inl status)
    then have "Failed st \<and> s' = s \<and> world_kept w w'"
      using assms(1) True c(1) c(2) [OF Inl] by (auto simp: PostSend_def create)
    then show thesis using refused by blast
  next
    case (Inr ctx)
    obtain r w2 where native: "next_native w1 = (r, w2)" by fastforce
    define post where "post = Socket_PostSend r (sendWsabuf ctx) True (sessionSocket s)"
    have set: "SetPendingSend (Some ctx) s = (NrStatus_Success, s\<lparr>pendingSend := Some ctx\<rparr>)"
      using free by (simp add: SetPendingSend_def)
    have kept: "world_kept w w2"
      using c(1) next_world_kept(1) [OF native] by (rule world_kept_trans)
    show thesis
    proof (cases "Failed post")
      case fail: True
      then have "Failed st \<and> s' = s\<lparr>pendingSend := None\<rparr> \<and> world_kept w w'"
        using assms(1) True kept
        by (auto simp: PostSend_def create Inr set native Let_def post_def [symmetric] ClearPendingSend_def)
      then show thesis using failed free by blast
    next
      case False
      then have "st = NrStatus_Success \<and> s' = s\<lparr>pendingSend := Some ctx\<rparr> \<and> world_kept w w' \<and>
          last (nativePosts w') = SendPosted (sendToken ctx) (sendWsabuf ctx)"
        using assms(1) True kept
        by (auto simp: PostSend_def create Inr set native Let_def post_def [symmetric])
      then show thesis using posted free c(3) [OF Inr] by simp
    qed
  qed
qed

lemma RepostPendingSend_cases:
  assumes "RepostPendingSend s w = (st, s', w')" "pendingSend s = Some c"
  obtains (refused) "Failed st" "s' = s" "world_kept w w'"
  | (failed) "Failed st" "s' = s\<lparr>pendingSend := None\<rparr>" "world_kept w w'"
  | (posted) "st = NrStatus_Success" "s' = s" "world_kept w w'"
      "last (nativePosts w') = SendPosted (sendToken c) (sendWsabuf c)"
proof (cases "NrSession_IsValid s \<and> socketState (sessionSocket s) = ConnectedTcpIPv4 \<and>
    \<not> (IsFullySent c \<or> sendWsabuf c = [])")
  case False
  then have "Failed st \<and> s' = s \<and> world_kept w w'"
    using assms by (auto simp: RepostPendingSend_def split: if_splits)
  then show thesis using refused by blast
next
  case True
  obtain r w2 where native: "next_native w = (r, w2)" by fastforce
  define post where "post = Socket_PostSend r (sendWsabuf c) True (sessionSocket s)"
  note kept = next_world_kept(1) [OF native]
  show thesis
  proof (cases "Failed post")
    case fail: True
    then have "Failed st \<and> s' = s\<lparr>pendingSend := None\<rparr> \<and> world_kept w w'"
      using assms True kept
      by (auto simp: RepostPendingSend_def native Let_def post_def [symmetric] ClearPendingSend_def)
    then show thesis using failed by blast
  next
    case False
    then have "st = NrStatus_Success \<and> s' = s \<and> world_kept w w' \<and>
        last (nativePosts w') = SendPosted (sendToken c) (sendWsabuf c)"
      using assms True kept by (auto simp: RepostPendingSend_def native Let_def post_def [symmetric])
    then show thesis using posted by blast
  qed
qed

lemma AdvanceBytesSent_result:
  assumes "AdvanceBytesSent n c = (st, c')" "send_context_ok c"
  shows "st = NrStatus_Success \<or> Failed st \<and> c' = c"
    and "\<not> Failed st \<Longrightarrow> 0 < unat n \<and> unat n \<le> length (sendWsabuf c) \<and>
      sendWsabuf c' = drop (unat n) (sendWsabuf c) \<and> sendToken c' = sendToken c \<and>
      (if IsFullySent c' then unat n = length (sendWsabuf c) else send_context_ok c')"
proof -
  have remaining: "unat (RemainingBytes c) = length (sendWsabuf c)"
    using assms(2) unfolding send_context_ok_def RemainingBytes_def
    by (subst unat_sub) (auto simp: word_le_nat_alt)
  show "st = NrStatus_Success \<or> Failed st \<and> c' = c"
    using assms(1) by (auto simp: AdvanceBytesSent_def split: if_splits)
  assume "\<not> Failed st"
  then have n: "n \<noteq> 0" "n \<le> RemainingBytes c"
    and c': "c' = RefreshWsaBuffer (c\<lparr>bytesSent := bytesSent c + n\<rparr>)"
    using assms(1) by (auto simp: AdvanceBytesSent_def split: if_splits)
  have pos: "0 < unat n" using n(1) by (simp add: word_unat_eq_iff)
  have le: "unat n \<le> length (sendWsabuf c)" using n(2) remaining by (simp add: word_le_nat_alt)
  then have bound: "unat (bytesSent c) + unat n \<le> length (sendPayload c)"
    using assms(2) unfolding send_context_ok_def by auto
  then have sent: "unat (bytesSent c + n) = unat (bytesSent c) + unat n"
    using assms(2) by (subst unat_plus_simple [THEN iffD1])
      (auto simp: send_context_ok_def word_le_nat_alt unat_word_ariths)
  have rest: "unat (payloadLength c - (bytesSent c + n)) = length (sendPayload c) - (unat (bytesSent c) + unat n)"
    using assms(2) bound sent by (subst unat_sub) (auto simp: send_context_ok_def word_le_nat_alt)
  have full: "IsFullySent c' \<longleftrightarrow> unat (bytesSent c) + unat n = length (sendPayload c)"
    using assms(2) sent unfolding c'
    by (auto simp: IsFullySent_def RefreshWsaBuffer_def Let_def send_context_ok_def word_unat_eq_iff)
  have "payloadLength c - (bytesSent c + n) = 0 \<longleftrightarrow> unat (bytesSent c) + unat n = length (sendPayload c)"
    using rest bound by (metis diff_is_0_eq' le_antisym le_refl unat_eq_zero zero_less_diff not_less)
  then show "0 < unat n \<and> unat n \<le> length (sendWsabuf c) \<and>
      sendWsabuf c' = drop (unat n) (sendWsabuf c) \<and> sendToken c' = sendToken c \<and>
      (if IsFullySent c' then unat n = length (sendWsabuf c) else send_context_ok c')"
    using pos le full assms(2) bound sent rest unfolding c'
    by (auto simp: RefreshWsaBuffer_def RemainingBytes_def Let_def send_context_ok_def add.commute)
qed

end
