(* ===== verification/NrSessionIoInv.thy ===== *)
theory NrSessionIoInv imports NrSessionIoProofs begin

text \<open>
  The invariant of the session's IO actor and its preservation by every handler: the counts of
  pending IO are the contexts the session holds, the socket is closed exactly after a close was
  requested, the ring of waiting payloads is well formed and the pending send holds the unsent rest
  of its payload. \<open>closed_stable\<close> says what a close request fixes for good.
\<close>

section \<open>The invariant\<close>

definition waiting_payloads :: "NrSessionIoActor \<Rightarrow> byte list list" where
  "waiting_payloads a = ring_list (pendingSendQueue a) (pendingSendQueueHead a) (pendingSendQueueSize a)"

definition ring_ok :: "NrSessionIoActor \<Rightarrow> bool" where
  "ring_ok a \<longleftrightarrow>
     length (pendingSendQueue a) = pendingSendQueueCapacity a \<and>
     pendingSendQueueHead a < pendingSendQueueCapacity a \<and>
     pendingSendQueueSize a \<le> pendingSendQueueCapacity a \<and>
     [] \<notin> set (waiting_payloads a)"

definition session_open :: "NrSession \<Rightarrow> bool" where
  "session_open s \<longleftrightarrow> NrSession_IsValid s \<and> socketState (sessionSocket s) = ConnectedTcpIPv4"

text \<open>What the invariant says of the session's two contexts and the counts that go with them.\<close>

definition counts_ok :: "NrSessionIoActor \<Rightarrow> bool" where
  "counts_ok a \<longleftrightarrow>
     pendingRecvIoCount a = of_bool (HasPendingRecv (actorSession a)) \<and>
     pendingSendIoCount a = of_bool (HasPendingSend (actorSession a))"

definition send_ok :: "NrSessionIoActor \<Rightarrow> bool" where
  "send_ok a \<longleftrightarrow> ring_ok a \<and> (\<forall>c. pendingSend (actorSession a) = Some c \<longrightarrow> send_context_ok c)"

definition close_ok :: "NrSessionIoActor \<Rightarrow> bool" where
  "close_ok a \<longleftrightarrow>
     (closeRequested a \<longleftrightarrow> actorEndReason a \<noteq> NoEndReason) \<and>
     (if closeRequested a then \<not> Socket_IsValid (sessionSocket (actorSession a)) \<and> \<not> sendChannelOpen a
      else session_open (actorSession a))"

definition io_inv :: "NrSessionIoActor \<Rightarrow> bool" where
  "io_inv a \<longleftrightarrow> counts_ok a \<and> send_ok a \<and> close_ok a \<and>
     recv_inv (sessionRecvBuffer (actorSession a)) \<and> env_ok (ioWorld a)"

definition closed_stable :: "NrSessionIoActor \<Rightarrow> NrSessionIoActor \<Rightarrow> bool" where
  "closed_stable a a' \<longleftrightarrow>
     sessionKey (actorSession a') = sessionKey (actorSession a) \<and>
     bufferCapacity (sessionRecvBuffer (actorSession a')) = bufferCapacity (sessionRecvBuffer (actorSession a)) \<and>
     (closeRequested a \<longrightarrow> closeRequested a' \<and> actorEndReason a' = actorEndReason a \<and>
        nativePosts (ioWorld a') = nativePosts (ioWorld a))"

text \<open>The state of the sending side, which the accept and receive lane leaves alone.\<close>

definition send_side ::
    "NrSessionIoActor \<Rightarrow> byte list list \<times> nat \<times> nat \<times> nat \<times> NrSendIoContext option \<times> NrSessionSendEvent list" where
  "send_side a = (pendingSendQueue a, pendingSendQueueCapacity a, pendingSendQueueHead a,
     pendingSendQueueSize a, pendingSend (actorSession a), sendMailbox a)"

lemma closed_stable_refl [simp]: "closed_stable a a"
  by (simp add: closed_stable_def)

lemma closed_stable_trans: "closed_stable a b \<Longrightarrow> closed_stable b c \<Longrightarrow> closed_stable a c"
  by (simp add: closed_stable_def)

lemma env_ok_fields [actor_simps]:
  "env_ok (ioWorld (on_metrics f a)) = env_ok (ioWorld a)"
  "env_ok (ioWorld (RecordPendingRecvIoStarted a)) = env_ok (ioWorld a)"
  "env_ok (ioWorld (RecordPendingRecvIoCompleted a)) = env_ok (ioWorld a)"
  "env_ok (ioWorld (RecordPendingSendIoStarted a)) = env_ok (ioWorld a)"
  "env_ok (ioWorld (RecordPendingSendIoCompleted a)) = env_ok (ioWorld a)"
proof -
  show *: "env_ok (ioWorld (on_metrics f a)) = env_ok (ioWorld a)" for f a
    by (simp add: on_metrics_def env_ok_def)
  show "env_ok (ioWorld (RecordPendingRecvIoStarted a)) = env_ok (ioWorld a)"
    "env_ok (ioWorld (RecordPendingRecvIoCompleted a)) = env_ok (ioWorld a)"
    "env_ok (ioWorld (RecordPendingSendIoStarted a)) = env_ok (ioWorld a)"
    "env_ok (ioWorld (RecordPendingSendIoCompleted a)) = env_ok (ioWorld a)"
    by (simp_all add: io_count_defs actor_simps *)
qed

lemma env_ok_close [actor_simps]: "env_ok (ioWorld (RecordCloseRequested reason a)) = env_ok (ioWorld a)"
  by (cases "closeRequested a"; cases reason;
      simp add: RecordCloseRequested_def count_pressure_close_def Let_def actor_simps split: prod.split)

lemma waiting_fields [actor_simps]:
  "waiting_payloads (RecordCloseRequested reason a) = waiting_payloads a"
  "waiting_payloads (on_session f a) = waiting_payloads a"
  "waiting_payloads (on_metrics g a) = waiting_payloads a"
  "waiting_payloads (RecordPendingSendIoStarted a) = waiting_payloads a"
  "waiting_payloads (RecordPendingSendIoCompleted a) = waiting_payloads a"
  by (simp_all add: waiting_payloads_def actor_simps)

lemma close_inv:
  assumes "io_inv a" "reason \<noteq> NoEndReason"
  shows "io_inv (RecordCloseRequested reason a)"
  using assms
  by (auto simp: io_inv_def counts_ok_def send_ok_def ring_ok_def close_ok_def HasPendingRecv_def
      HasPendingSend_def actor_simps)

lemma close_stable [simp]: "closed_stable a (RecordCloseRequested reason a)"
  by (simp add: closed_stable_def actor_simps)

lemma close_send_side [simp]: "send_side (RecordCloseRequested reason a) = send_side a"
  by (simp add: send_side_def actor_simps)

text \<open>Changes that only concern the report, an assertion or the handoff.\<close>

lemma irrelevant_inv [simp]:
  "io_inv (nr_assert b a) = io_inv a" "io_inv (a\<lparr>toWorldHandoff := h\<rparr>) = io_inv a"
  "io_inv (a\<lparr>ingressRegistry := r\<rparr>) = io_inv a" "io_inv (RecordPostRecvRequested a) = io_inv a"
  "io_inv (a\<lparr>acceptRecvMailbox := m\<rparr>) = io_inv a" "io_inv (a\<lparr>sendMailbox := n\<rparr>) = io_inv a"
  "io_inv (a\<lparr>drainReport := rep\<rparr>) = io_inv a" "io_inv (on_metrics f a) = io_inv a"
  by (simp_all add: io_inv_def counts_ok_def send_ok_def ring_ok_def close_ok_def waiting_payloads_def
      RecordPostRecvRequested_def actor_simps)

lemma irrelevant_stable [simp]:
  "closed_stable a (nr_assert b a')  = closed_stable a a'"
  "closed_stable a (a'\<lparr>toWorldHandoff := h\<rparr>) = closed_stable a a'"
  "closed_stable a (a'\<lparr>ingressRegistry := r\<rparr>) = closed_stable a a'"
  "closed_stable a (RecordPostRecvRequested a') = closed_stable a a'"
  "closed_stable a (a'\<lparr>acceptRecvMailbox := m\<rparr>) = closed_stable a a'"
  "closed_stable a (a'\<lparr>sendMailbox := n\<rparr>) = closed_stable a a'"
  "closed_stable a (a'\<lparr>drainReport := rep\<rparr>) = closed_stable a a'"
  "closed_stable a (on_metrics f a') = closed_stable a a'"
  by (simp_all add: closed_stable_def RecordPostRecvRequested_def actor_simps)

section \<open>The receive lane\<close>

lemma io_invD:
  assumes "io_inv a"
  shows "pendingRecvIoCount a = of_bool (HasPendingRecv (actorSession a))"
    and "pendingSendIoCount a = of_bool (HasPendingSend (actorSession a))"
    and "closeRequested a \<Longrightarrow> \<not> NrSession_IsValid (actorSession a)"
    and "\<not> closeRequested a \<Longrightarrow> NrSession_IsValid (actorSession a)"
    and "\<not> closeRequested a \<Longrightarrow> socketState (sessionSocket (actorSession a)) = ConnectedTcpIPv4"
    and "recv_inv (sessionRecvBuffer (actorSession a))" "env_ok (ioWorld a)" "ring_ok a"
    and "pendingSend (actorSession a) = Some c \<Longrightarrow> send_context_ok c"
  using assms
  by (auto simp: io_inv_def counts_ok_def send_ok_def close_ok_def session_open_def NrSession_IsValid_def)

text \<open>
  The update of a receive post: the state with the count at \<open>n\<close>, the session's receive side and the
  environment replaced. It keeps the invariant when the count is that of the new session.
\<close>

lemma recv_update_inv:
  assumes "io_inv a" and new: "actorSession a' = s" "ioWorld a' = w"
    and same: "send_side a' = send_side a" "pendingSendIoCount a' = pendingSendIoCount a"
      "closeRequested a' = closeRequested a" "actorEndReason a' = actorEndReason a"
      "sendChannelOpen a' = sendChannelOpen a"
    and count: "pendingRecvIoCount a' = of_bool (pendingRecv s \<noteq> None)"
    and s: "sessionKey s = sessionKey (actorSession a)" "sessionSocket s = sessionSocket (actorSession a)"
      "bufferCapacity (sessionRecvBuffer s) = bufferCapacity (sessionRecvBuffer (actorSession a))"
      "recv_inv (sessionRecvBuffer s)" "env_ok w"
  shows "io_inv a'"
proof -
  have "pendingSend s = pendingSend (actorSession a)" "waiting_payloads a' = waiting_payloads a"
    using same(1) new(1) by (simp_all add: send_side_def waiting_payloads_def)
  then show ?thesis
    using assms
    by (simp add: io_inv_def counts_ok_def send_ok_def ring_ok_def close_ok_def HasPendingRecv_def
        HasPendingSend_def session_open_def NrSession_IsValid_def send_side_def split: if_splits)
qed

lemma PostRecv_facts:
  assumes "PostRecv s w = (st, s', w')" "env_ok w"
  shows "sessionKey s' = sessionKey s \<and> sessionSocket s' = sessionSocket s \<and> pendingSend s' = pendingSend s \<and>
      world_kept w w' \<and> buffer_kept (sessionRecvBuffer s) (sessionRecvBuffer s')" (is ?kept)
    and "Failed st \<Longrightarrow> pendingRecv s' = pendingRecv s"
    and "\<not> Failed st \<Longrightarrow> pendingRecv s' \<noteq> None"
proof -
  have "?kept \<and> (Failed st \<longrightarrow> pendingRecv s' = pendingRecv s) \<and> (\<not> Failed st \<longrightarrow> pendingRecv s' \<noteq> None)"
  proof (rule PostRecv_cases [OF assms])
    assume *: "Failed st" "s' = s \<or> s' = compact_if_full s" "world_kept w w'"
    from *(2) show ?thesis using *(1,3) by (elim disjE) simp_all
  next
    assume "Failed st" "pendingRecv s = None" "s' = compact_if_full s\<lparr>pendingRecv := None\<rparr>" "world_kept w w'"
    then show ?thesis by simp
  next
    fix c assume "st = NrStatus_Success" "s' = compact_if_full s\<lparr>pendingRecv := Some c\<rparr>" "world_kept w w'"
    then show ?thesis by simp
  qed
  then show ?kept "Failed st \<Longrightarrow> pendingRecv s' = pendingRecv s" "\<not> Failed st \<Longrightarrow> pendingRecv s' \<noteq> None"
    by blast+
qed

lemma PostRequestedRecv_result:
  assumes "PostRequestedRecv a = (st, a')" "io_inv a"
  shows "io_inv a'" "closed_stable a a'" "send_side a' = send_side a"
    and "Failed st \<Longrightarrow> a' = a \<or> closeRequested a'"
    and "\<not> Failed st \<Longrightarrow> st = NrStatus_Success \<and> HasPendingRecv (actorSession a') \<and> closeRequested a' = closeRequested a \<and>
      \<not> closeRequested a \<and> ReadableSpan (sessionRecvBuffer (actorSession a')) = ReadableSpan (sessionRecvBuffer (actorSession a))"
proof -
  let ?s = "actorSession a"
  have "io_inv a' \<and> closed_stable a a' \<and> send_side a' = send_side a \<and>
    (Failed st \<longrightarrow> a' = a \<or> closeRequested a') \<and>
    (\<not> Failed st \<longrightarrow> st = NrStatus_Success \<and> HasPendingRecv (actorSession a') \<and> closeRequested a' = closeRequested a \<and>
       \<not> closeRequested a \<and> ReadableSpan (sessionRecvBuffer (actorSession a')) = ReadableSpan (sessionRecvBuffer ?s))"
  proof (cases "\<not> NrSession_IsValid ?s \<or> HasPendingRecv ?s")
    case True
    then show ?thesis using assms by (auto simp: PostRequestedRecv_def)
  next
    case False
    note inv = io_invD [OF assms(2)]
    have free: "pendingRecv ?s = None" "\<not> closeRequested a"
      using False inv(3) by (auto simp: HasPendingRecv_def)
    have count: "pendingRecvIoCount a = 0" using inv(1) free by (simp add: HasPendingRecv_def)
    let ?a = "RecordPendingRecvIoStarted a"
    obtain pst s' w' where post: "PostRecv ?s (ioWorld ?a) = (pst, s', w')" by (metis prod_cases3)
    define b where "b = ?a\<lparr>actorSession := s', ioWorld := w'\<rparr>"
    have a': "(st, a') = (if Failed pst then
        (pst, RecordCloseRequested TransportError (RecordPendingRecvIoCompleted b)) else (NrStatus_Success, b))"
      using assms(1) False by (simp add: PostRequestedRecv_def Let_def actor_simps post b_def split: if_splits)
    have env: "env_ok (ioWorld ?a)" using inv(7) by (simp add: actor_simps)
    have b_fields: "send_side b = (pendingSendQueue a, pendingSendQueueCapacity a, pendingSendQueueHead a,
        pendingSendQueueSize a, pendingSend s', sendMailbox a)" "pendingSendIoCount b = pendingSendIoCount a"
        "closeRequested b = closeRequested a" "actorEndReason b = actorEndReason a"
        "sendChannelOpen b = sendChannelOpen a" "pendingRecvIoCount b = 1" "actorSession b = s'" "ioWorld b = w'"
      by (simp_all add: b_def send_side_def actor_simps count)
    let ?b = "RecordPendingRecvIoCompleted b"
    have b'_fields: "send_side ?b = send_side b" "pendingSendIoCount ?b = pendingSendIoCount a"
        "closeRequested ?b = closeRequested a" "actorEndReason ?b = actorEndReason a"
        "sendChannelOpen ?b = sendChannelOpen a" "pendingRecvIoCount ?b = 0" "actorSession ?b = s'"
        "env_ok (ioWorld ?b) = env_ok w'"
      by (simp_all add: send_side_def actor_simps b_fields)
    have s'_inv: "recv_inv (sessionRecvBuffer s')"
      "bufferCapacity (sessionRecvBuffer s') = bufferCapacity (sessionRecvBuffer ?s)"
      "ReadableSpan (sessionRecvBuffer s') = ReadableSpan (sessionRecvBuffer ?s)"
      "sessionKey s' = sessionKey ?s" "sessionSocket s' = sessionSocket ?s" "pendingSend s' = pendingSend ?s"
      "env_ok w'"
      using PostRecv_facts(1) [OF post env] inv(6) env by (simp_all add: buffer_kept_def world_kept_def)
    have b_send: "send_side b = send_side a" using s'_inv(6) b_fields(1) by (simp add: send_side_def)
    show ?thesis
    proof (cases "Failed pst")
      case True
      then have none: "pendingRecv s' = None"
        using PostRecv_facts(2) [OF post env] free by simp
      have "io_inv ?b"
        by (rule recv_update_inv [OF assms(2), where s = s' and w = "ioWorld ?b"])
          (simp_all add: b'_fields none s'_inv b_send)
      then have "io_inv (RecordCloseRequested TransportError ?b)" by (rule close_inv) simp
      then show ?thesis
        using a' True free b'_fields s'_inv b_send by (simp add: closed_stable_def actor_simps)
    next
      case False
      then have some: "pendingRecv s' \<noteq> None"
        using PostRecv_facts(3) [OF post env] by simp
      have "io_inv b"
        by (rule recv_update_inv [OF assms(2), where s = s' and w = w'])
          (use some in \<open>simp_all add: b_fields(2-) s'_inv b_send del: One_nat_def\<close>)
      then show ?thesis
        using a' False free b_fields(2-) s'_inv b_send some
        by (simp add: closed_stable_def HasPendingRecv_def)
    qed
  qed
  then show "io_inv a'" "closed_stable a a'" "send_side a' = send_side a"
    and "Failed st \<Longrightarrow> a' = a \<or> closeRequested a'"
    and "\<not> Failed st \<Longrightarrow> st = NrStatus_Success \<and> HasPendingRecv (actorSession a') \<and> closeRequested a' = closeRequested a \<and>
      \<not> closeRequested a \<and> ReadableSpan (sessionRecvBuffer (actorSession a')) = ReadableSpan (sessionRecvBuffer (actorSession a))"
    by auto
qed

end
