(* ===== verification/NrSessionIoStream.thy ===== *)
theory NrSessionIoStream imports NrSessionIoInv begin

text \<open>
  The receive loop of the IO actor against its reference, the frames of the byte stream
  (\<open>split_frames\<close> of theory \<open>NrReceive\<close>): the loop never runs out of turns and dispatches exactly
  these frames, in order, up to the first refusal.
\<close>

section \<open>Dispatching does not touch the buffer\<close>

definition set_buffer :: "NrRecvBuffer \<Rightarrow> NrSessionIoActor \<Rightarrow> NrSessionIoActor" where
  "set_buffer b a = on_session (\<lambda>s. s\<lparr>sessionRecvBuffer := b\<rparr>) a"

lemma set_buffer_fields [simp, actor_simps]:
  "sessionRecvBuffer (actorSession (set_buffer b a)) = b"
  "sessionKey (actorSession (set_buffer b a)) = sessionKey (actorSession a)"
  "dispatchTable (set_buffer b a) = dispatchTable a"
  "toWorldHandoff (set_buffer b a) = toWorldHandoff a"
  "ingressRegistry (set_buffer b a) = ingressRegistry a"
  "ioWorld (set_buffer b a) = ioWorld a"
  "parserByteOrder (set_buffer b a) = parserByteOrder a"
  "packetParser (set_buffer b a) = packetParser a"
  "set_buffer b (set_buffer c a) = set_buffer b a"
  by (simp_all add: set_buffer_def on_session_def)

lemma set_buffer_same: "sessionRecvBuffer (actorSession a) = b \<Longrightarrow> set_buffer b a = a"
  by (auto simp: set_buffer_def on_session_def)

lemma set_buffer_updates:
  "set_buffer b (a\<lparr>toWorldHandoff := h\<rparr>) = (set_buffer b a)\<lparr>toWorldHandoff := h\<rparr>"
  "set_buffer b (a\<lparr>ingressRegistry := r\<rparr>) = (set_buffer b a)\<lparr>ingressRegistry := r\<rparr>"
  "set_buffer b (a\<lparr>ioWorld := w\<rparr>) = (set_buffer b a)\<lparr>ioWorld := w\<rparr>"
  by (simp_all add: set_buffer_def on_session_def)

lemma set_buffer_bookkeeping:
  "nr_assert p (set_buffer b a) = set_buffer b (nr_assert p a)"
  "on_metrics f (set_buffer b a) = set_buffer b (on_metrics f a)"
  "RefreshCloseReady (set_buffer b a) = set_buffer b (RefreshCloseReady a)"
  "count_pressure_close reason (set_buffer b a) = set_buffer b (count_pressure_close reason a)"
  "(set_buffer b a)\<lparr>closeRequested := True, actorEndReason := reason\<rparr> =
    set_buffer b (a\<lparr>closeRequested := True, actorEndReason := reason\<rparr>)"
  "(set_buffer b a)\<lparr>actorSession := (actorSession (set_buffer b a))\<lparr>sessionSocket := sock\<rparr>\<rparr> =
    set_buffer b (a\<lparr>actorSession := (actorSession a)\<lparr>sessionSocket := sock\<rparr>\<rparr>)"
  "(set_buffer b a)\<lparr>sendChannelOpen := False\<rparr> = set_buffer b (a\<lparr>sendChannelOpen := False\<rparr>)"
  "(set_buffer b a)\<lparr>toWorldHandoff := h\<rparr> = set_buffer b (a\<lparr>toWorldHandoff := h\<rparr>)"
  by (simp_all add: set_buffer_def on_session_def nr_assert_def on_metrics_def RefreshCloseReady_def
      HasPendingIo_def count_pressure_close_def split: NrSessionEndReason.split)

lemma set_buffer_observed [simp]:
  "closeRequested (set_buffer b a) = closeRequested a" "actorEndReason (set_buffer b a) = actorEndReason a"
  "sendChannelOpen (set_buffer b a) = sendChannelOpen a"
  "sessionSocket (actorSession (set_buffer b a)) = sessionSocket (actorSession a)"
  by (simp_all add: set_buffer_def on_session_def)

lemma RecordCloseRequested_buffer:
  "RecordCloseRequested reason (set_buffer b a) = set_buffer b (RecordCloseRequested reason a)"
  unfolding RecordCloseRequested_def Let_def
  by (simp add: set_buffer_bookkeeping split: prod.split)

lemma DispatchFrame_buffer:
  "DispatchFrame r (set_buffer b a) = map_prod id (set_buffer b) (DispatchFrame r a)"
proof -
  obtain fst' rule' where find: "NrPacketDispatchTable_Find (dispatchTable a) (packetType (parsedHeader r)) = (fst', rule')"
    by fastforce
  obtain pst h where pub: "RecordPacket (sessionKey (actorSession a)) (rulePacketType (the rule'))
      (drop NrPacketHeaderLength (packetBytes r)) (toWorldHandoff a) = (pst, h)" by fastforce
  obtain f w where payload: "next_payload (ioWorld a) = (f, w)" by fastforce
  show ?thesis
  proof (cases "Failed fst' \<or> dispatchLane (the rule') = WorldIngress")
    case True
    then show ?thesis
      by (auto simp: DispatchFrame_def find pub Let_def RecordCloseRequested_buffer set_buffer_updates [symmetric])
  next
    case False
    show ?thesis
    proof (cases "CreateInput f (sessionKey (actorSession a)) r (the rule')")
      case (Inl st)
      with False show ?thesis
        by (simp add: DispatchFrame_def find payload Let_def RecordCloseRequested_buffer set_buffer_updates [symmetric])
    next
      case (Inr input)
      obtain est reg where enq: "NrIngressRegistry_TryEnqueue (dispatchLane (the rule')) input (ingressRegistry a) = (est, reg)"
        by fastforce
      show ?thesis
        using False Inr
        by (simp add: DispatchFrame_def find payload enq Let_def RecordCloseRequested_buffer set_buffer_updates [symmetric])
    qed
  qed
qed

text \<open>What dispatching keeps: the parser, the table and the buffer; a refusal has requested the close.\<close>

lemma CreateInput_failed:
  assumes "next_payload w = (f, w')" "CreateInput f key result rule = Inl st"
  shows "Failed st"
  using assms
  by (auto simp: CreateInput_def next_payload_def split: if_splits sum.splits list.splits)

text \<open>The states a frame's dispatch goes through before the close it may request.\<close>

definition dispatched :: "NrSessionIoActor \<Rightarrow> NrSessionIoActor \<Rightarrow> bool" where
  "dispatched a b \<longleftrightarrow> parserByteOrder b = parserByteOrder a \<and> packetParser b = packetParser a \<and>
     actorSession b = actorSession a \<and> closeRequested b = closeRequested a \<and> drainReport b = drainReport a \<and>
     closed_stable a b \<and> send_side b = send_side a \<and> (io_inv a \<longrightarrow> io_inv b)"

lemma dispatched_updates:
  "dispatched a a" "dispatched a (a\<lparr>toWorldHandoff := h\<rparr>)"
  "next_payload (ioWorld a) = (f, w) \<Longrightarrow> dispatched a (a\<lparr>ioWorld := w\<rparr>)"
  "next_payload (ioWorld a) = (f, w) \<Longrightarrow> dispatched a (a\<lparr>ioWorld := w, ingressRegistry := reg\<rparr>)"
proof -
  show "dispatched a a" "dispatched a (a\<lparr>toWorldHandoff := h\<rparr>)"
    by (simp_all add: dispatched_def send_side_def)
  assume payload: "next_payload (ioWorld a) = (f, w)"
  have "nativePosts w = nativePosts (ioWorld a)"
    using payload by (auto simp: next_payload_def split: list.splits)
  moreover have "env_ok (ioWorld a) \<longrightarrow> env_ok w"
    using next_world_kept(3) [OF payload] by (simp add: world_kept_def)
  ultimately show "dispatched a (a\<lparr>ioWorld := w\<rparr>)"
    by (simp add: dispatched_def send_side_def closed_stable_def io_inv_def counts_ok_def send_ok_def
        ring_ok_def close_ok_def waiting_payloads_def)
  then show "dispatched a (a\<lparr>ioWorld := w, ingressRegistry := reg\<rparr>)"
    using irrelevant_inv(3) [where a = "a\<lparr>ioWorld := w\<rparr>" and r = reg]
    by (simp add: dispatched_def send_side_def closed_stable_def)
qed

lemma DispatchFrame_cases:
  assumes "DispatchFrame r a = (st, a')"
  obtains (refused) b reason where "Failed st" "reason \<noteq> NoEndReason" "dispatched a b" "a' = RecordCloseRequested reason b"
  | (kept) "\<not> Failed st" "dispatched a a'"
proof -
  obtain fst' rule' where find: "NrPacketDispatchTable_Find (dispatchTable a) (packetType (parsedHeader r)) = (fst', rule')"
    by fastforce
  obtain pst h where pub: "RecordPacket (sessionKey (actorSession a)) (rulePacketType (the rule'))
      (drop NrPacketHeaderLength (packetBytes r)) (toWorldHandoff a) = (pst, h)" by fastforce
  obtain f w where payload: "next_payload (ioWorld a) = (f, w)" by fastforce
  note updates = dispatched_updates(1,2) dispatched_updates(3,4) [OF payload]
  show thesis
  proof (cases "Failed fst' \<or> dispatchLane (the rule') = WorldIngress")
    case True
    then show thesis
      using assms refused [OF _ _ updates(1)] refused [OF _ _ updates(2)] kept updates(2) [of _ h]
      by (auto simp: DispatchFrame_def find pub Let_def split: if_splits)
  next
    case False
    show thesis
    proof (cases "CreateInput f (sessionKey (actorSession a)) r (the rule')")
      case (Inl st')
      then have "Failed st'" using CreateInput_failed [OF payload] by simp
      then show thesis
        using assms False Inl refused [OF _ _ updates(3)] by (auto simp: DispatchFrame_def find payload Let_def)
    next
      case (Inr input)
      obtain est reg where enq: "NrIngressRegistry_TryEnqueue (dispatchLane (the rule')) input (ingressRegistry a) = (est, reg)"
        by fastforce
      show thesis
        using assms False Inr refused [OF _ _ updates(4)] kept updates(4)
        by (auto simp: DispatchFrame_def find payload enq Let_def split: if_splits)
    qed
  qed
qed

lemma DispatchFrame_kept:
  assumes "DispatchFrame r a = (st, a')"
  shows "parserByteOrder a' = parserByteOrder a \<and> packetParser a' = packetParser a \<and>
    sessionRecvBuffer (actorSession a') = sessionRecvBuffer (actorSession a)"
    and "Failed st \<Longrightarrow> closeRequested a' \<and> reportCloseRequested (drainReport a')"
    and "\<not> Failed st \<Longrightarrow> actorSession a' = actorSession a \<and> closeRequested a' = closeRequested a \<and>
      drainReport a' = drainReport a"
    and "closed_stable a a' \<and> send_side a' = send_side a \<and> (io_inv a \<longrightarrow> io_inv a')"
  using DispatchFrame_cases [OF assms]
  by (cases; auto simp: dispatched_def actor_simps intro: close_inv closed_stable_trans)+

section \<open>The receive loop is the dispatch of the stream's frames\<close>

fun DispatchFrames :: "NrPacketParseResult list \<Rightarrow> NrSessionIoActor \<Rightarrow> NrStatus \<times> NrSessionIoActor" where
  "DispatchFrames [] a = (NrStatus_Success, a)"
| "DispatchFrames (r # rs) a =
     (case DispatchFrame r a of (st, a') \<Rightarrow> if Failed st then (st, a') else DispatchFrames rs a')"

lemma DispatchFrames_buffer:
  "DispatchFrames rs (set_buffer b a) = map_prod id (set_buffer b) (DispatchFrames rs a)"
proof (induction rs arbitrary: a)
  case (Cons r rs)
  obtain st a' where "DispatchFrame r a = (st, a')" by fastforce
  then show ?case by (simp add: DispatchFrame_buffer Cons.IH)
qed simp

lemma DispatchFrames_kept:
  assumes "DispatchFrames rs a = (st, a')"
  shows "closed_stable a a' \<and> send_side a' = send_side a \<and> (io_inv a \<longrightarrow> io_inv a')"
    and "Failed st \<Longrightarrow> closeRequested a' \<and> reportCloseRequested (drainReport a')"
    and "\<not> Failed st \<Longrightarrow> actorSession a' = actorSession a \<and> closeRequested a' = closeRequested a \<and>
      drainReport a' = drainReport a"
proof -
  have "(closed_stable a a' \<and> send_side a' = send_side a \<and> (io_inv a \<longrightarrow> io_inv a')) \<and>
    (Failed st \<longrightarrow> closeRequested a' \<and> reportCloseRequested (drainReport a')) \<and>
    (\<not> Failed st \<longrightarrow> actorSession a' = actorSession a \<and> closeRequested a' = closeRequested a \<and>
      drainReport a' = drainReport a)"
    using assms
  proof (induction rs arbitrary: a)
    case (Cons r rs)
    obtain st1 a1 where d: "DispatchFrame r a = (st1, a1)" by fastforce
    note k = DispatchFrame_kept [OF d]
    show ?case
    proof (cases "Failed st1")
      case True
      then show ?thesis using Cons.prems d k by simp
    next
      case False
      then have "DispatchFrames rs a1 = (st, a')" using Cons.prems d by simp
      from Cons.IH [OF this] show ?thesis
        using k False closed_stable_trans by metis
    qed
  qed simp
  then show "closed_stable a a' \<and> send_side a' = send_side a \<and> (io_inv a \<longrightarrow> io_inv a')"
    and "Failed st \<Longrightarrow> closeRequested a' \<and> reportCloseRequested (drainReport a')"
    and "\<not> Failed st \<Longrightarrow> actorSession a' = actorSession a \<and> closeRequested a' = closeRequested a \<and>
      drainReport a' = drainReport a" by blast+
qed

text \<open>The loop's result in terms of the frames: the state with the buffer \<open>b\<close> after them.\<close>

definition drained ::
    "NrPacketParseResult list \<Rightarrow> NrStatus \<Rightarrow> NrRecvBuffer \<Rightarrow> NrSessionIoActor \<Rightarrow> NrStatus \<times> NrSessionIoActor" where
  "drained frames stop b a =
     (case DispatchFrames frames a of (st, d) \<Rightarrow>
        if Failed st then (st, set_buffer b d)
        else if Failed stop then (stop, set_buffer b (RecordCloseRequested EndProtocolError d))
        else (NrStatus_Success, set_buffer b d))"

lemma drained_buffer: "drained frames stop b (set_buffer c a) = drained frames stop b a"
  by (simp add: drained_def DispatchFrames_buffer RecordCloseRequested_buffer split: prod.split)

lemma parse_not_more:
  assumes "NrPacketParser_Parse native config bytes = (st, result)" "\<not> Failed st" "parseStatus result \<noteq> NeedMoreData"
  shows "parseStatus result = Complete"
  using assms Parse_long [of bytes _ native config] Parse_short [of bytes native config]
  by (cases "length bytes < NrPacketHeaderLength") (auto simp: SetProtocolError_def NrPacketParseResult_default_def split: if_splits)

lemma ReadableBytes_pos: "recv_inv b \<Longrightarrow> ReadableBytes b > 0 \<longleftrightarrow> ReadableSpan b \<noteq> []"
  using length_ReadableSpan [of b] by (metis length_greater_0_conv unat_gt_0 word_gt_0)

lemma ConsumeFrame_ok:
  assumes "recv_inv (sessionRecvBuffer (actorSession a))"
    and "unat (packetLength (parsedHeader r)) \<le> length (ReadableSpan (sessionRecvBuffer (actorSession a)))"
  obtains c where "ConsumeFrame r a = (NrStatus_Success, set_buffer c a)" "recv_inv c"
    "ReadableSpan c = drop (unat (packetLength (parsedHeader r))) (ReadableSpan (sessionRecvBuffer (actorSession a)))"
    "bufferCapacity c = bufferCapacity (sessionRecvBuffer (actorSession a))"
proof -
  let ?b = "sessionRecvBuffer (actorSession a)" and ?n = "ucast (packetLength (parsedHeader r)) :: u64"
  have n: "unat ?n = unat (packetLength (parsedHeader r))"
    using unsigned_less [of "packetLength (parsedHeader r)", where ?'a = nat]
    by (simp add: unsigned_ucast_eq take_bit_nat_eq_self)
  then have fits: "unat ?n \<le> length (ReadableSpan ?b)" using assms(2) by simp
  have "ConsumeFrame r a = (NrStatus_Success, set_buffer (snd (Consume ?n ?b)) a)"
    using Consume_stream(1) [OF assms(1) fits]
    by (auto simp: ConsumeFrame_def set_buffer_def Let_def split: prod.split)
  then show thesis
    using that [of "snd (Consume ?n ?b)"] Consume_stream [OF assms(1) fits] n by simp
qed

lemma DrainFrames_drained:
  assumes "recv_inv (sessionRecvBuffer (actorSession a))"
    and "split_frames (parserByteOrder a) (packetParser a) (ReadableSpan (sessionRecvBuffer (actorSession a))) =
      (frames, stop, rest)"
    and "length (ReadableSpan (sessionRecvBuffer (actorSession a))) \<le> turns"
  shows "\<exists>b. DrainFrames turns a = Some (drained frames stop b a) \<and> recv_inv b \<and>
    bufferCapacity b = bufferCapacity (sessionRecvBuffer (actorSession a)) \<and>
    (\<not> Failed (fst (DispatchFrames frames a)) \<longrightarrow> ReadableSpan b = rest)"
  using assms
proof (induction turns arbitrary: a frames)
  case 0
  then show ?case
    by (intro exI [of _ "sessionRecvBuffer (actorSession a)"])
      (auto simp: ReadableBytes_pos drained_def set_buffer_same split_frames.simps [of _ _ "[]"]
        Parse_short NrPacketHeaderLength_def NrPacketParseResult_default_def)
next
  case (Suc turns)
  let ?b = "sessionRecvBuffer (actorSession a)"
  obtain st result where parse: "NrPacketParser_Parse (parserByteOrder a) (packetParser a) (ReadableSpan ?b) = (st, result)"
    by fastforce
  show ?case
  proof (cases "ReadableSpan ?b = []")
    case True
    then show ?thesis
      using Suc.prems by (intro exI [of _ ?b])
        (auto simp: ReadableBytes_pos drained_def set_buffer_same split_frames.simps [of _ _ "[]"]
          Parse_short NrPacketHeaderLength_def NrPacketParseResult_default_def)
  next
    case nonempty: False
    then have pos: "ReadableBytes ?b > 0" using Suc.prems(1) by (simp add: ReadableBytes_pos)
    show ?thesis
    proof (cases "parseStatus result = Complete")
      case False
      then have split: "frames = []" "stop = st" "rest = ReadableSpan ?b"
        using Suc.prems(2) parse by (auto simp: split_frames.simps [of _ _ "ReadableSpan ?b"])
      have more: "\<not> Failed st \<Longrightarrow> parseStatus result = NeedMoreData"
        using parse_not_more [OF parse] False by blast
      have same: "set_buffer ?b (RecordCloseRequested EndProtocolError a) = RecordCloseRequested EndProtocolError a"
        by (simp add: set_buffer_same actor_simps)
      show ?thesis
        using pos parse more Suc.prems(1) same by (intro exI [of _ ?b]) (auto simp: split drained_def set_buffer_same)
    next
      case True
      note c = Complete_length [OF parse True]
      let ?n = "unat (packetLength (parsedHeader result))"
      obtain rs where frames: "frames = result # rs"
        and more: "split_frames (parserByteOrder a) (packetParser a) (drop ?n (ReadableSpan ?b)) = (rs, stop, rest)"
        using Suc.prems(2) parse True
        by (auto simp: split_frames.simps [of _ _ "ReadableSpan ?b"] split: prod.splits)
      obtain ds d where dispatch: "DispatchFrame result a = (ds, d)" by fastforce
      note k = DispatchFrame_kept [OF dispatch]
      show ?thesis
      proof (cases "Failed ds")
        case True
        then have "DrainFrames (Suc turns) a = Some (ds, d)"
          using pos parse c(3) \<open>parseStatus result = Complete\<close> dispatch by simp
        moreover have "set_buffer ?b d = d" using k(1) by (simp add: set_buffer_same)
        ultimately show ?thesis
          using True Suc.prems(1) dispatch by (intro exI [of _ ?b]) (simp add: frames drained_def)
      next
        case False
        have b_d: "sessionRecvBuffer (actorSession d) = ?b" using k(1) by simp
        obtain e where e: "ConsumeFrame result d = (NrStatus_Success, set_buffer e d)" "recv_inv e"
          "ReadableSpan e = drop ?n (ReadableSpan ?b)" "bufferCapacity e = bufferCapacity ?b"
          using ConsumeFrame_ok [of d result] Suc.prems(1) c(2) b_d by metis
        have step: "DrainFrames (Suc turns) a = DrainFrames turns (set_buffer e d)"
          using pos parse c(3) \<open>parseStatus result = Complete\<close> dispatch False e(1) by simp
        have "length (ReadableSpan e) \<le> turns" using Suc.prems(3) c(1,2) e(3) by simp
        moreover have "split_frames (parserByteOrder (set_buffer e d)) (packetParser (set_buffer e d))
            (ReadableSpan (sessionRecvBuffer (actorSession (set_buffer e d)))) = (rs, stop, rest)"
          using more e(3) k(1) by simp
        ultimately obtain b where b: "DrainFrames turns (set_buffer e d) = Some (drained rs stop b (set_buffer e d))"
          "recv_inv b" "bufferCapacity b = bufferCapacity e"
          "\<not> Failed (fst (DispatchFrames rs (set_buffer e d))) \<longrightarrow> ReadableSpan b = rest"
          using Suc.IH [of "set_buffer e d" rs] e(2) by auto
        have "drained rs stop b (set_buffer e d) = drained frames stop b a"
          unfolding drained_buffer using False dispatch by (simp add: frames drained_def)
        moreover have "fst (DispatchFrames rs (set_buffer e d)) = fst (DispatchFrames frames a)"
          using False dispatch by (simp add: DispatchFrames_buffer frames)
        ultimately show ?thesis using b e(4) step by (intro exI [of _ b]) simp
      qed
    qed
  qed
qed

section \<open>Handling a completed receive\<close>

lemma CommitWritten_inv:
  assumes "recv_inv b" "CommitWritten n b = (st, b')"
  shows "recv_inv b'" and "bufferCapacity b' = bufferCapacity b"
proof -
  obtain data where d: "storageBlock b = Some data" "unat (bufferCapacity b) \<le> length data"
    "unat (readPos b) \<le> unat (writePos b)" "unat (writePos b) \<le> unat (bufferCapacity b)"
    "unat (ReadableBytes b) = unat (writePos b) - unat (readPos b)"
    "unat (WritableBytes b) = unat (bufferCapacity b) - unat (writePos b)"
    using assms(1) by (rule recv_invE)
  have le: "writePos b \<le> bufferCapacity b" using d(4) by (simp add: word_le_nat_alt)
  show "recv_inv b'"
  proof (cases "n \<le> WritableBytes b")
    case True
    then have "n \<le> bufferCapacity b - writePos b" by (simp add: WritableBytes_def)
    note plus = unat_plus_le [OF this le]
    have "b' = b\<lparr>writePos := writePos b + n\<rparr>" using assms(2) True by (auto simp: CommitWritten_def split: if_splits)
    then show ?thesis using d plus by (simp add: recv_inv_def word_le_nat_alt)
  next
    case False
    then have "b' = b" using assms(2) by (auto simp: CommitWritten_def split: if_splits)
    then show ?thesis using assms(1) by simp
  qed
  show "bufferCapacity b' = bufferCapacity b" using assms(2) by (metis bufferCapacity_same(1) snd_conv)
qed

text \<open>The context is cleared and the count goes down together.\<close>

definition recv_released :: "NrSessionIoActor \<Rightarrow> NrSessionIoActor" where
  "recv_released a = RecordPendingRecvIoCompleted (on_session ClearPendingRecv a)"

lemma recv_released_fields [actor_simps]:
  "actorSession (recv_released a) = ClearPendingRecv (actorSession a)"
  "closeRequested (recv_released a) = closeRequested a"
  "reportCloseRequested (drainReport (recv_released a)) = closeRequested a"
  "toWorldHandoff (recv_released a) = toWorldHandoff a" "ingressRegistry (recv_released a) = ingressRegistry a"
  "dispatchTable (recv_released a) = dispatchTable a" "parserByteOrder (recv_released a) = parserByteOrder a"
  "packetParser (recv_released a) = packetParser a"
  by (simp_all add: recv_released_def actor_simps)

lemma ClearPendingRecv_fields [simp]:
  "sessionKey (ClearPendingRecv s) = sessionKey s" "sessionSocket (ClearPendingRecv s) = sessionSocket s"
  "sessionRecvBuffer (ClearPendingRecv s) = sessionRecvBuffer s" "pendingSend (ClearPendingRecv s) = pendingSend s"
  "pendingRecv (ClearPendingRecv s) = None"
  by (simp_all add: ClearPendingRecv_def)

lemma recv_released_inv:
  assumes "io_inv a" "pendingRecv (actorSession a) \<noteq> None"
  shows "io_inv (recv_released a)" "closed_stable a (recv_released a)" "send_side (recv_released a) = send_side a"
proof -
  note inv = io_invD [OF assms(1)]
  show "io_inv (recv_released a)"
    by (rule recv_update_inv [OF assms(1), where s = "ClearPendingRecv (actorSession a)"
          and w = "ioWorld (recv_released a)"])
      (use inv assms(2) in \<open>simp_all add: recv_released_def send_side_def HasPendingRecv_def actor_simps\<close>)
qed (simp_all add: closed_stable_def send_side_def recv_released_def actor_simps)

lemma set_buffer_inv:
  assumes "recv_inv b" "bufferCapacity b = bufferCapacity (sessionRecvBuffer (actorSession a))"
  shows "io_inv a \<Longrightarrow> io_inv (set_buffer b a)" "closed_stable a (set_buffer b a)" "send_side (set_buffer b a) = send_side a"
    "closed_stable x (set_buffer b a) = closed_stable x a"
  using assms
  by (simp_all add: set_buffer_def on_session_def io_inv_def counts_ok_def send_ok_def ring_ok_def close_ok_def
      waiting_payloads_def closed_stable_def send_side_def HasPendingRecv_def HasPendingSend_def
      session_open_def NrSession_IsValid_def split: if_splits)

lemma drained_kept:
  assumes "drained frames stop b a = (st, a')" "io_inv a" "recv_inv b"
    and "bufferCapacity b = bufferCapacity (sessionRecvBuffer (actorSession a))"
  shows "io_inv a'" "closed_stable a a'" "send_side a' = send_side a"
    and "Failed st \<Longrightarrow> closeRequested a'"
    and "\<not> Failed st \<Longrightarrow> closeRequested a' = closeRequested a \<and> drainReport a' = drainReport a \<and>
      HasPendingRecv (actorSession a') = HasPendingRecv (actorSession a)"
proof -
  obtain dst d where d: "DispatchFrames frames a = (dst, d)" by fastforce
  note k = DispatchFrames_kept [OF d]
  have cap: "bufferCapacity b = bufferCapacity (sessionRecvBuffer (actorSession d))"
    using k(1) assms(4) by (simp add: closed_stable_def)
  let ?d = "if \<not> Failed dst \<and> Failed stop then RecordCloseRequested EndProtocolError d else d"
  have a': "a' = set_buffer b ?d" "st = (if Failed dst then dst else if Failed stop then stop else NrStatus_Success)"
    using assms(1) d by (auto simp: drained_def split: if_splits)
  have inv: "io_inv ?d" using k(1) assms(2) by (simp add: close_inv)
  have cap': "bufferCapacity b = bufferCapacity (sessionRecvBuffer (actorSession ?d))"
    using cap by (simp add: actor_simps)
  show "io_inv a'" unfolding a' by (rule set_buffer_inv(1) [OF assms(3) cap' inv])
  show "closed_stable a a'"
    using k(1) closed_stable_trans [of a d] unfolding a' set_buffer_inv(4) [OF assms(3) cap'] by simp
  show "send_side a' = send_side a"
    using k(1) unfolding a' set_buffer_inv(3) [OF assms(3) cap'] by simp
  show "closeRequested a'" if "Failed st"
    using that k(2) unfolding a' by (auto simp: actor_simps split: if_splits)
  show "closeRequested a' = closeRequested a \<and> drainReport a' = drainReport a \<and>
      HasPendingRecv (actorSession a') = HasPendingRecv (actorSession a)" if "\<not> Failed st"
    using that k(3) unfolding a'
    by (auto simp: set_buffer_def on_session_def HasPendingRecv_def split: if_splits)
qed

lemma RequestNext_result:
  assumes "RequestNextRecvIfReady a = (st, a')" "io_inv a" "\<not> HasPendingRecv (actorSession a)"
    and "reportCloseRequested (drainReport a) = closeRequested a"
  shows "io_inv a'" "closed_stable a a'" "send_side a' = send_side a" "Failed st \<Longrightarrow> closeRequested a'"
    and "st = NrStatus_Success \<or> st = NrStatus_Failure NrErrorCode.CapacityExceeded"
    and "\<not> closeRequested a \<Longrightarrow>
      st = NrStatus_Success \<longleftrightarrow> unat (bufferCapacity (sessionRecvBuffer (actorSession a))) \<noteq>
        length (ReadableSpan (sessionRecvBuffer (actorSession a)))"
    and "\<not> Failed st \<Longrightarrow> closeRequested a' = closeRequested a \<and> toWorldHandoff a' = toWorldHandoff a \<and>
      ingressRegistry a' = ingressRegistry a \<and>
      ReadableSpan (sessionRecvBuffer (actorSession a')) = ReadableSpan (sessionRecvBuffer (actorSession a)) \<and>
      (\<not> closeRequested a \<longrightarrow> requestPostRecv (drainReport a'))"
proof -
  note inv = io_invD [OF assms(2)]
  let ?b = "sessionRecvBuffer (actorSession a)"
  define c where "c = (if WritableBytes ?b = 0 then Compact ?b else ?b)"
  have c: "recv_inv c" "bufferCapacity c = bufferCapacity ?b" "ReadableSpan c = ReadableSpan ?b"
    using Compact_stream [OF inv(6)] inv(6) by (simp_all add: c_def)
  obtain data where d: "unat (readPos ?b) \<le> unat (writePos ?b)" "unat (writePos ?b) \<le> unat (bufferCapacity ?b)"
    "unat (ReadableBytes ?b) = unat (writePos ?b) - unat (readPos ?b)"
    "unat (WritableBytes ?b) = unat (bufferCapacity ?b) - unat (writePos ?b)"
    using inv(6) by (rule recv_invE)
  have full: "WritableBytes c = 0 \<longleftrightarrow> unat (bufferCapacity ?b) = length (ReadableSpan ?b)"
  proof (cases "WritableBytes ?b = 0")
    case True
    then have "unat (WritableBytes c) = unat (bufferCapacity ?b) - length (ReadableSpan ?b)"
      using Compact_stream(3) [OF inv(6)] by (simp add: c_def writable_count_def)
    moreover have "length (ReadableSpan ?b) \<le> unat (bufferCapacity ?b)"
      using d length_ReadableSpan [OF inv(6)] by simp
    moreover have "WritableBytes c = 0 \<longleftrightarrow> unat (WritableBytes c) = 0" by (simp add: word_unat_eq_iff)
    ultimately show ?thesis by simp
  next
    case False
    then show ?thesis
      using d length_ReadableSpan [OF inv(6)] by (auto simp: c_def word_unat_eq_iff)
  qed
  have upd: "(if WritableBytes ?b = 0 then on_session (\<lambda>s. s\<lparr>sessionRecvBuffer := Compact (sessionRecvBuffer s)\<rparr>) a
      else a) = set_buffer c a"
    using set_buffer_same [of a] by (auto simp: c_def set_buffer_def on_session_def)
  have run: "RequestNextRecvIfReady a =
    (if closeRequested a then (NrStatus_Success, a)
     else if WritableBytes c = 0 then
       (NrStatus_Failure NrErrorCode.CapacityExceeded, RecordCloseRequested ReceivePressure (set_buffer c a))
     else (NrStatus_Success, RecordPostRecvRequested (set_buffer c a)))"
    using assms(3,4) inv(4) by (simp add: RequestNextRecvIfReady_def Let_def upd)
  note kept = set_buffer_inv [OF c(1,2)]
  have close: "closed_stable a (RecordCloseRequested ReceivePressure (set_buffer c a))"
    using kept(2) close_stable closed_stable_trans by blast
  show "io_inv a'" "closed_stable a a'" "send_side a' = send_side a" "Failed st \<Longrightarrow> closeRequested a'"
    and "st = NrStatus_Success \<or> st = NrStatus_Failure NrErrorCode.CapacityExceeded"
    using assms(1,2) kept close unfolding run
    by (auto simp: close_inv actor_simps RecordPostRecvRequested_def send_side_def split: if_splits)
  show "\<not> closeRequested a \<Longrightarrow> st = NrStatus_Success \<longleftrightarrow>
      unat (bufferCapacity ?b) \<noteq> length (ReadableSpan ?b)"
    using assms(1) full unfolding run by (auto split: if_splits)
  show "\<not> Failed st \<Longrightarrow> closeRequested a' = closeRequested a \<and> toWorldHandoff a' = toWorldHandoff a \<and>
      ingressRegistry a' = ingressRegistry a \<and>
      ReadableSpan (sessionRecvBuffer (actorSession a')) = ReadableSpan ?b \<and>
      (\<not> closeRequested a \<longrightarrow> requestPostRecv (drainReport a'))"
    using assms(1) c(3) unfolding run by (auto simp: RecordPostRecvRequested_def split: if_splits)
qed

text \<open>The accepted completion of a receive: its three continuations after the context is released.\<close>

definition recv_matches :: "NrSessionIoCompletedEvent \<Rightarrow> NrSessionIoActor \<Rightarrow> bool" where
  "recv_matches e a \<longleftrightarrow> completedSessionKey e = sessionKey (actorSession a) \<and>
     (case pendingRecv (actorSession a) of None \<Rightarrow> False | Some c \<Rightarrow> contextToken e = recvToken c)"

definition recv_continue :: "u64 \<Rightarrow> NrSessionIoActor \<Rightarrow> NrStatus \<times> NrSessionIoActor" where
  "recv_continue transferred a =
     (case CommitWritten transferred (sessionRecvBuffer (actorSession a)) of (commitStatus, b) \<Rightarrow>
        if Failed commitStatus then (commitStatus, RecordCloseRequested TransportError (set_buffer b a))
        else case DrainCommittedRecvFrames (set_buffer b a) of (drainStatus, a) \<Rightarrow>
          if Failed drainStatus then (drainStatus, a) else RequestNextRecvIfReady a)"

lemma HandleRecvCompleted_matched:
  assumes "recv_matches e a"
  shows "HandleRecvCompleted e a =
    (if Succeeded (completedStatus e) \<and> bytesTransferred e > 0 then
       if closeRequested a then (NrStatus_Success, recv_released a)
       else recv_continue (bytesTransferred e) (recv_released a)
     else (NrStatus_Success, RecordCloseRequested
       (if Succeeded (completedStatus e) then RemoteClosed else TransportError) (recv_released a)))"
proof -
  obtain c where c: "pendingRecv (actorSession a) = Some c" "contextToken e = recvToken c"
    "completedSessionKey e = sessionKey (actorSession a)"
    using assms by (auto simp: recv_matches_def split: option.splits)
  obtain cst b where "CommitWritten (bytesTransferred e) (sessionRecvBuffer (actorSession a)) = (cst, b)"
    by fastforce
  then show ?thesis
    by (simp add: HandleRecvCompleted_def c recv_released_def [symmetric] Let_def IsCloseRequested_def
        recv_released_fields recv_continue_def set_buffer_def)
qed

lemma HandleRecvCompleted_foreign:
  assumes "\<not> recv_matches e a"
  obtains p where "HandleRecvCompleted e a =
    (NrStatus_Failure NrErrorCode.InvalidState, RecordCloseRequested TransportError (nr_assert p a))"
proof (cases "pendingRecv (actorSession a)")
  case None
  then show thesis using that [of True] by (simp add: HandleRecvCompleted_def nr_assert_def)
next
  case (Some c)
  show thesis
  proof (cases "completedSessionKey e = sessionKey (actorSession a)")
    case True
    then have "contextToken e \<noteq> recvToken c" using assms Some by (simp add: recv_matches_def)
    then show thesis using that [of False] True Some by (simp add: HandleRecvCompleted_def)
  next
    case False
    then show thesis using that [of True] Some by (simp add: HandleRecvCompleted_def nr_assert_def)
  qed
qed

lemma DrainCommitted_eq:
  assumes "recv_inv (sessionRecvBuffer (actorSession a))"
    and "split_frames (parserByteOrder a) (packetParser a) (ReadableSpan (sessionRecvBuffer (actorSession a))) =
      (frames, stop, rest)"
  obtains b where "DrainCommittedRecvFrames a = drained frames stop b a" "recv_inv b"
    "bufferCapacity b = bufferCapacity (sessionRecvBuffer (actorSession a))"
    "\<not> Failed (fst (DispatchFrames frames a)) \<Longrightarrow> ReadableSpan b = rest"
  using DrainFrames_drained [OF assms, of "unat (ReadableBytes (sessionRecvBuffer (actorSession a)))"]
    length_ReadableSpan [OF assms(1)]
  unfolding DrainCommittedRecvFrames_def by (metis option.sel order_refl)

lemma recv_continue_result:
  assumes "recv_continue n a = (st, a')" "io_inv a" "\<not> HasPendingRecv (actorSession a)" "\<not> closeRequested a"
    and "reportCloseRequested (drainReport a) = closeRequested a"
  shows "io_inv a' \<and> closed_stable a a' \<and> send_side a' = send_side a \<and> (Failed st \<longrightarrow> closeRequested a')"
proof -
  let ?b = "sessionRecvBuffer (actorSession a)"
  obtain cst b where commit: "CommitWritten n ?b = (cst, b)" by fastforce
  note c = CommitWritten_inv [OF io_invD(6) [OF assms(2)] commit]
  note kept = set_buffer_inv [OF c]
  show ?thesis
  proof (cases "Failed cst")
    case True
    have "closed_stable a (RecordCloseRequested TransportError (set_buffer b a))"
      using kept(2) close_stable closed_stable_trans by blast
    then show ?thesis
      using assms(1,2) True commit kept by (auto simp: recv_continue_def close_inv actor_simps)
  next
    case False
    let ?a = "set_buffer b a"
    obtain frames stop rest where split: "split_frames (parserByteOrder ?a) (packetParser ?a)
        (ReadableSpan (sessionRecvBuffer (actorSession ?a))) = (frames, stop, rest)" by (metis prod_cases3)
    obtain e where e: "DrainCommittedRecvFrames ?a = drained frames stop e ?a" "recv_inv e"
      "bufferCapacity e = bufferCapacity (sessionRecvBuffer (actorSession ?a))"
      using DrainCommitted_eq [OF _ split] c(1) by auto
    obtain dst d where d: "drained frames stop e ?a = (dst, d)" by fastforce
    note k = drained_kept [OF d kept(1) [OF assms(2)] e(2,3)]
    have stable: "closed_stable a d" using kept(2) k(2) by (rule closed_stable_trans)
    show ?thesis
    proof (cases "Failed dst")
      case True
      then show ?thesis
        using assms(1) False commit e(1) d k kept stable by (auto simp: recv_continue_def)
    next
      case ok: False
      have next_recv: "RequestNextRecvIfReady d = (st, a')"
        using assms(1) False ok commit e(1) d by (simp add: recv_continue_def)
      have "\<not> HasPendingRecv (actorSession d)"
        using k(5) [OF ok] assms(3) by (simp add: set_buffer_def on_session_def HasPendingRecv_def)
      moreover have "reportCloseRequested (drainReport d) = closeRequested d"
        using k(5) [OF ok] assms(5) by (simp add: set_buffer_def on_session_def)
      ultimately show ?thesis
        using RequestNext_result [OF next_recv k(1)] k kept stable closed_stable_trans by metis
    qed
  qed
qed

lemma HandleRecvCompleted_result:
  assumes "HandleRecvCompleted e a = (st, a')" "io_inv a"
  shows "io_inv a' \<and> closed_stable a a' \<and> send_side a' = send_side a \<and> (Failed st \<longrightarrow> closeRequested a')"
proof (cases "recv_matches e a")
  case False
  obtain p where "HandleRecvCompleted e a =
      (NrStatus_Failure NrErrorCode.InvalidState, RecordCloseRequested TransportError (nr_assert p a))"
    using HandleRecvCompleted_foreign [OF False] .
  moreover have "closed_stable a (RecordCloseRequested TransportError (nr_assert p a))"
    by (rule closed_stable_trans [of _ "nr_assert p a"]) simp_all
  ultimately show ?thesis
    using assms by (auto simp: close_inv actor_simps send_side_def)
next
  case True
  then have "pendingRecv (actorSession a) \<noteq> None" by (auto simp: recv_matches_def split: option.splits)
  note r = recv_released_inv [OF assms(2) this]
  have none: "\<not> HasPendingRecv (actorSession (recv_released a))"
    by (simp add: HasPendingRecv_def actor_simps)
  have close: "closed_stable a (RecordCloseRequested reason (recv_released a))" for reason
    using r(2) close_stable closed_stable_trans by blast
  show ?thesis
  proof (cases "Succeeded (completedStatus e) \<and> bytesTransferred e > 0 \<and> \<not> closeRequested a")
    case True
    then have "recv_continue (bytesTransferred e) (recv_released a) = (st, a')"
      using assms(1) HandleRecvCompleted_matched [OF \<open>recv_matches e a\<close>] by simp
    from recv_continue_result [OF this r(1) none] show ?thesis
      using True r closed_stable_trans by (auto simp: actor_simps)
  next
    case False
    then show ?thesis
      using assms(1) HandleRecvCompleted_matched [OF \<open>recv_matches e a\<close>] r close
      by (auto simp: close_inv actor_simps split: if_splits)
  qed
qed

end
