(* ===== verification/NrSessionIoSend.thy ===== *)
theory NrSessionIoSend imports NrSessionIoInv begin

text \<open>
  The send lane of the IO actor. \<open>unsent\<close> is the stream of bytes the actor still owes the peer: the
  rest of the pending send and the payloads in the ring. Requests append to it, completions remove
  what the operating system took, posting only moves its front into the pending send.
\<close>

section \<open>The ring of waiting payloads\<close>

definition unsent :: "NrSessionIoActor \<Rightarrow> byte list" where
  "unsent a =
     (case pendingSend (actorSession a) of None \<Rightarrow> [] | Some c \<Rightarrow> sendWsabuf c) @ concat (waiting_payloads a)"

text \<open>The update of a send operation keeps the invariant when the new ring, context and count fit.\<close>

lemma send_update_inv:
  assumes "io_inv a"
    and same: "closeRequested a' = closeRequested a" "actorEndReason a' = actorEndReason a"
      "sendChannelOpen a' = sendChannelOpen a" "pendingRecvIoCount a' = pendingRecvIoCount a"
      "env_ok (ioWorld a')"
      "actorSession a' = (actorSession a)\<lparr>pendingSend := c\<rparr>"
    and new: "ring_ok a'" "pendingSendIoCount a' = of_bool (c \<noteq> None)"
      "\<And>x. c = Some x \<Longrightarrow> send_context_ok x"
  shows "io_inv a'"
  using assms
  by (auto simp: io_inv_def counts_ok_def send_ok_def close_ok_def HasPendingRecv_def HasPendingSend_def
      session_open_def NrSession_IsValid_def split: if_splits)

lemma TryPush_cases:
  assumes "io_inv a" "TryPushPendingSend payload a = (st, a')"
  obtains (malformed) "payload = []" "st = NrStatus_Failure NrErrorCode.InvalidArgument" "a' = a"
  | (full) "st = NrStatus_Failure NrErrorCode.QueueFull" "a' = a" "length (waiting_payloads a) = pendingSendQueueCapacity a"
  | (pushed) "st = NrStatus_Success" "io_inv a'" "waiting_payloads a' = waiting_payloads a @ [payload]"
      "actorSession a' = actorSession a" "closeRequested a' = closeRequested a" "closed_stable a a'"
      "payload \<noteq> []" "length (waiting_payloads a) < pendingSendQueueCapacity a"
      "pendingSendQueueCapacity a' = pendingSendQueueCapacity a" "acceptRecvMailbox a' = acceptRecvMailbox a"
proof -
  note inv = io_invD [OF assms(1)]
  have ring: "length (pendingSendQueue a) = pendingSendQueueCapacity a" "pendingSendQueueHead a < pendingSendQueueCapacity a"
    "pendingSendQueueSize a \<le> pendingSendQueueCapacity a" "[] \<notin> set (waiting_payloads a)"
    using inv(8) by (auto simp: ring_ok_def)
  have len: "length (waiting_payloads a) = pendingSendQueueSize a" by (simp add: waiting_payloads_def)
  show thesis
  proof (cases "payload = [] \<or> pendingSendQueueSize a = pendingSendQueueCapacity a")
    case True
    then show thesis
      using assms(2) ring(2) malformed full len by (auto simp: TryPushPendingSend_def split: if_splits)
  next
    case False
    let ?i = "(pendingSendQueueHead a + pendingSendQueueSize a) mod pendingSendQueueCapacity a"
    define b where "b = a\<lparr>pendingSendQueue := (pendingSendQueue a)[?i := payload],
      pendingSendQueueSize := pendingSendQueueSize a + 1\<rparr>"
    have res: "st = NrStatus_Success" "a' = on_metrics RecordPendingSendQueued b"
      using assms(2) False ring(2) by (auto simp: TryPushPendingSend_def Let_def b_def split: if_splits)
    have w: "waiting_payloads b = waiting_payloads a @ [payload]"
      using False ring ring_list_push [of "pendingSendQueueSize a" "pendingSendQueue a" "pendingSendQueueHead a" payload]
      by (simp add: waiting_payloads_def b_def)
    have "[] \<notin> set (waiting_payloads b)" using False ring(4) w by auto
    then have "ring_ok b" using ring False by (simp add: ring_ok_def b_def)
    then have "io_inv b"
      using inv
      by (intro send_update_inv [OF assms(1), where c = "pendingSend (actorSession a)"])
        (auto simp: b_def HasPendingSend_def)
    moreover have "closed_stable a b" by (simp add: closed_stable_def b_def)
    ultimately show thesis
      using pushed res w False ring(3) len by (simp add: actor_simps b_def)
  qed
qed

lemma TryPop_cases:
  assumes "io_inv a" "TryPopPendingSend a = (r, a')"
  obtains (empty) "waiting_payloads a = []" "r = Inl (NrStatus_Failure NrErrorCode.QueueEmpty)" "a' = a"
  | (popped) p where "r = Inr p" "p \<noteq> []" "io_inv a'" "waiting_payloads a = p # waiting_payloads a'"
      "actorSession a' = actorSession a" "closeRequested a' = closeRequested a" "closed_stable a a'"
      "pendingSendQueueCapacity a' = pendingSendQueueCapacity a" "acceptRecvMailbox a' = acceptRecvMailbox a"
      "sendMailbox a' = sendMailbox a"
proof -
  note inv = io_invD [OF assms(1)]
  have ring: "length (pendingSendQueue a) = pendingSendQueueCapacity a" "pendingSendQueueHead a < pendingSendQueueCapacity a"
    "pendingSendQueueSize a \<le> pendingSendQueueCapacity a" "[] \<notin> set (waiting_payloads a)"
    using inv(8) by (auto simp: ring_ok_def)
  have len: "length (waiting_payloads a) = pendingSendQueueSize a" by (simp add: waiting_payloads_def)
  show thesis
  proof (cases "pendingSendQueueSize a = 0")
    case True
    then have "r = Inl (NrStatus_Failure NrErrorCode.QueueEmpty)" "a' = a" "waiting_payloads a = []"
      using assms(2) ring(2) len by (simp_all add: TryPopPendingSend_def Actor_HasPendingSend_def)
    then show thesis using empty by blast
  next
    case False
    define p where "p = pendingSendQueue a ! pendingSendQueueHead a"
    define b where "b = a\<lparr>pendingSendQueue := (pendingSendQueue a)[pendingSendQueueHead a := []],
      pendingSendQueueHead := (pendingSendQueueHead a + 1) mod pendingSendQueueCapacity a,
      pendingSendQueueSize := pendingSendQueueSize a - 1\<rparr>"
    have res: "r = Inr p" "a' = on_metrics RecordPendingSendDequeued b"
      using assms(2) False ring(2)
      by (auto simp: TryPopPendingSend_def Actor_HasPendingSend_def Let_def b_def p_def split: if_splits)
    have w: "waiting_payloads a = p # waiting_payloads b"
      using False ring ring_list_pop_update [of "pendingSendQueueHead a" "pendingSendQueue a" "pendingSendQueueSize a - 1" "[]"]
      by (simp add: waiting_payloads_def b_def p_def)
    have "ring_ok b" using ring False w by (simp add: ring_ok_def b_def)
    then have "io_inv b"
      using inv
      by (intro send_update_inv [OF assms(1), where c = "pendingSend (actorSession a)"])
        (auto simp: b_def HasPendingSend_def)
    moreover have "closed_stable a b" by (simp add: closed_stable_def b_def)
    moreover have "p \<noteq> []" using w ring(4) by auto
    ultimately show thesis
      using popped res w by (simp add: actor_simps b_def)
  qed
qed

section \<open>Posting the next payload\<close>

text \<open>
  After a post the actor's session and environment are replaced; \<open>posted_state\<close> is that state with
  the count of pending sends at \<open>n\<close>.
\<close>

definition with_io :: "NrSession \<Rightarrow> NrIoWorld \<Rightarrow> NrSessionIoActor \<Rightarrow> NrSessionIoActor" where
  "with_io s w a = a\<lparr>actorSession := s, ioWorld := w\<rparr>"

lemma with_io_fields [simp, actor_simps]:
  "actorSession (with_io s w a) = s" "ioWorld (with_io s w a) = w"
  "closeRequested (with_io s w a) = closeRequested a" "actorEndReason (with_io s w a) = actorEndReason a"
  "sendChannelOpen (with_io s w a) = sendChannelOpen a" "waiting_payloads (with_io s w a) = waiting_payloads a"
  "pendingRecvIoCount (with_io s w a) = pendingRecvIoCount a"
  "pendingSendIoCount (with_io s w a) = pendingSendIoCount a"
  "ring_ok (with_io s w a) = ring_ok a" "sendMailbox (with_io s w a) = sendMailbox a"
  "pendingSendQueueCapacity (with_io s w a) = pendingSendQueueCapacity a"
  "acceptRecvMailbox (with_io s w a) = acceptRecvMailbox a"
  by (simp_all add: with_io_def waiting_payloads_def ring_ok_def)

lemma ring_ok_fields [simp, actor_simps]:
  "ring_ok (RecordPendingSendIoStarted a) = ring_ok a" "ring_ok (RecordPendingSendIoCompleted a) = ring_ok a"
  "ring_ok (RecordCloseRequested reason a) = ring_ok a" "ring_ok (on_session f a) = ring_ok a"
  "ring_ok (on_metrics g a) = ring_ok a" "ring_ok (nr_assert b a) = ring_ok a"
  by (simp_all add: ring_ok_def waiting_payloads_def actor_simps)

text \<open>The state after a post: the count is that of the session's context.\<close>

lemma post_state_inv:
  assumes "io_inv a" "\<not> closeRequested a"
    and "s = (actorSession a)\<lparr>pendingSend := c\<rparr>" "env_ok w" "\<And>x. c = Some x \<Longrightarrow> send_context_ok x"
  shows "c \<noteq> None \<Longrightarrow> pendingSendIoCount a = 0 \<Longrightarrow> io_inv (with_io s w (RecordPendingSendIoStarted a))"
    and "c = None \<Longrightarrow> pendingSendIoCount a = 0 \<Longrightarrow>
      io_inv (RecordPendingSendIoCompleted (with_io s w (RecordPendingSendIoStarted a)))"
    and "closed_stable a (with_io s w (RecordPendingSendIoStarted a))"
    and "closed_stable a (RecordPendingSendIoCompleted (with_io s w (RecordPendingSendIoStarted a)))"
proof -
  note ring = io_invD(8) [OF assms(1)]
  show "io_inv (with_io s w (RecordPendingSendIoStarted a))" if "c \<noteq> None" "pendingSendIoCount a = 0"
    by (rule send_update_inv [OF assms(1), where c = c])
      (use that assms ring in \<open>simp_all add: actor_simps\<close>)
  show "io_inv (RecordPendingSendIoCompleted (with_io s w (RecordPendingSendIoStarted a)))"
    if "c = None" "pendingSendIoCount a = 0"
    by (rule send_update_inv [OF assms(1), where c = c])
      (use that assms ring in \<open>simp_all add: actor_simps\<close>)
  show "closed_stable a (with_io s w (RecordPendingSendIoStarted a))"
    "closed_stable a (RecordPendingSendIoCompleted (with_io s w (RecordPendingSendIoStarted a)))"
    using assms(2,3) by (simp_all add: closed_stable_def actor_simps)
qed

lemma unsent_fields [simp]:
  "unsent (nr_assert b a) = unsent a" "unsent (on_metrics f a) = unsent a"
  by (simp_all add: unsent_def waiting_payloads_def actor_simps)

lemma TryPostNext_result:
  assumes "TryPostNextPendingSend a = (st, a')" "io_inv a"
  shows "io_inv a' \<and> closed_stable a a' \<and> (Failed st \<longrightarrow> closeRequested a') \<and>
    (\<not> closeRequested a' \<longrightarrow> unsent a' = unsent a \<and>
      (waiting_payloads a' = [] \<or> HasPendingSend (actorSession a')) \<and>
      (a' = a \<or> (\<exists>c. pendingSend (actorSession a') = Some c \<and>
         last (nativePosts (ioWorld a')) = SendPosted (sendToken c) (sendWsabuf c))))"
proof -
  note inv = io_invD [OF assms(2)]
  have size: "Actor_HasPendingSend a \<longleftrightarrow> waiting_payloads a \<noteq> []"
    by (metis Actor_HasPendingSend_def length_0_conv length_ring_list waiting_payloads_def)
  show ?thesis
  proof (cases "closeRequested a \<or> HasPendingSend (actorSession a) \<or> waiting_payloads a = []")
    case True
    then have "st = NrStatus_Success \<and> a' = a"
      using assms(1) inv(4) size by (auto simp: TryPostNextPendingSend_def IsCloseRequested_def split: if_splits)
    then show ?thesis using assms(2) True by auto
  next
    case False
    then have free: "\<not> closeRequested a" "pendingSend (actorSession a) = None"
      by (simp_all add: HasPendingSend_def)
    obtain r b where pop: "TryPopPendingSend a = (r, b)" by fastforce
    obtain p where p: "r = Inr p" "io_inv b" "waiting_payloads a = p # waiting_payloads b"
      "actorSession b = actorSession a" "closeRequested b = closeRequested a" "closed_stable a b"
      using TryPop_cases [OF assms(2) pop] False by metis
    have count: "pendingSendIoCount b = 0" using io_invD(2) [OF p(2)] free p(4) by (simp add: HasPendingSend_def)
    have env: "env_ok (ioWorld (RecordPendingSendIoStarted b))" using io_invD(7) [OF p(2)] by (simp add: actor_simps)
    obtain pst s w where post: "PostSend (actorSession b) p (ioWorld (RecordPendingSendIoStarted b)) = (pst, s, w)"
      by (metis prod_cases3)
    have run: "(st, a') =
        (if Failed pst then (pst, RecordCloseRequested TransportError (RecordPendingSendIoCompleted
           (with_io s w (RecordPendingSendIoStarted b))))
         else (NrStatus_Success, with_io s w (RecordPendingSendIoStarted b)))"
      using assms(1) False inv(4) free size pop p(1) post
      by (simp add: TryPostNextPendingSend_def IsCloseRequested_def Let_def with_io_def actor_simps split: if_splits)
    have open_b: "\<not> closeRequested b" using free p(5) by simp
    have none: "actorSession b\<lparr>pendingSend := None\<rparr> = actorSession b" using free(2) p(4) by simp
    show ?thesis
    proof (rule PostSend_cases [OF post env])
      assume *: "Failed pst" "s = actorSession b" "world_kept (ioWorld (RecordPendingSendIoStarted b)) w"
      have "env_ok w" using env *(3) by (simp add: world_kept_def)
      note st = post_state_inv [OF p(2) open_b, of s None w, unfolded none, OF *(2) this]
      show ?thesis
        using run *(1) st(2) [OF _ _ count] st(4) p(6) close_stable closed_stable_trans
        by (auto simp: close_inv actor_simps intro: closed_stable_trans)
    next
      assume *: "Failed pst" "s = actorSession b\<lparr>pendingSend := None\<rparr>" "world_kept (ioWorld (RecordPendingSendIoStarted b)) w"
      have "env_ok w" using env *(3) by (simp add: world_kept_def)
      note st = post_state_inv [OF p(2) open_b *(2) this]
      show ?thesis
        using run *(1) st(2) [OF _ _ count] st(4) p(6) close_stable closed_stable_trans
        by (auto simp: close_inv actor_simps intro: closed_stable_trans)
    next
      fix c
      assume *: "pst = NrStatus_Success" "s = actorSession b\<lparr>pendingSend := Some c\<rparr>" "world_kept (ioWorld (RecordPendingSendIoStarted b)) w"
        "send_context_ok c" "sendWsabuf c = p" "last (nativePosts w) = SendPosted (sendToken c) p"
      have "env_ok w" using env *(3) by (simp add: world_kept_def)
      note st = post_state_inv [OF p(2) open_b *(2) this]
      have "io_inv a' \<and> closed_stable b a'" "st = NrStatus_Success" "a' = with_io s w (RecordPendingSendIoStarted b)"
        using run *(1,4) st(1) [OF _ _ count] st(3) by auto
      moreover have "unsent a' = unsent a"
        using calculation(3) *(2,5) p(3) free by (simp add: unsent_def actor_simps)
      ultimately show ?thesis
        using p(6) *(2,5,6) by (auto simp: HasPendingSend_def intro: closed_stable_trans)
    qed
  qed
qed

section \<open>Send requests and completions\<close>

text \<open>An open actor with waiting payloads has a send posted.\<close>

definition posting :: "NrSessionIoActor \<Rightarrow> bool" where
  "posting a \<longleftrightarrow> closeRequested a \<or> waiting_payloads a = [] \<or> HasPendingSend (actorSession a)"

lemma HandleSendRequested_result:
  assumes "HandleSendRequested payload a = (st, a')" "io_inv a"
  shows "io_inv a' \<and> closed_stable a a' \<and> (Failed st \<longrightarrow> closeRequested a' \<or> payload = []) \<and>
    (\<not> closeRequested a' \<longrightarrow> unsent a' = unsent a @ payload) \<and> (posting a \<longrightarrow> posting a')"
proof (cases "closeRequested a")
  case True
  then show ?thesis using assms by (simp add: HandleSendRequested_def IsCloseRequested_def)
next
  case open_a: False
  obtain pst b where push: "TryPushPendingSend payload a = (pst, b)" by fastforce
  show ?thesis
    using assms(2) push
  proof (cases rule: TryPush_cases)
    case malformed
    then show ?thesis using assms open_a push by (simp add: HandleSendRequested_def IsCloseRequested_def)
  next
    case full
    then have "a' = RecordPendingSendQueueFull a \<and> st = NrStatus_Success"
      using assms(1) open_a push by (simp add: HandleSendRequested_def IsCloseRequested_def)
    moreover have "io_inv (RecordPendingSendQueueFull a)" "closeRequested (RecordPendingSendQueueFull a)"
      using assms(2) by (simp_all add: RecordPendingSendQueueFull_def close_inv Let_def actor_simps)
    moreover have "closed_stable a (RecordPendingSendQueueFull a)"
      unfolding RecordPendingSendQueueFull_def Let_def
      by (rule closed_stable_trans [OF _ close_stable]) simp
    ultimately show ?thesis by (simp add: posting_def)
  next
    case pushed
    then have post: "TryPostNextPendingSend b = (st, a')"
      using assms(1) open_a push by (simp add: HandleSendRequested_def IsCloseRequested_def)
    have "unsent b = unsent a @ payload" using pushed by (simp add: unsent_def)
    moreover have "closed_stable a a'"
      using TryPostNext_result [OF post pushed(2)] pushed(6) closed_stable_trans by blast
    ultimately show ?thesis
      using TryPostNext_result [OF post pushed(2)] unfolding posting_def by metis
  qed
qed

text \<open>The completion that belongs to the pending send.\<close>

definition send_matches :: "NrSessionIoCompletedEvent \<Rightarrow> NrSendIoContext \<Rightarrow> NrSessionIoActor \<Rightarrow> bool" where
  "send_matches e c a \<longleftrightarrow> pendingSend (actorSession a) = Some c \<and>
     completedSessionKey e = sessionKey (actorSession a) \<and> contextToken e = sendToken c"

definition send_released :: "NrSessionIoActor \<Rightarrow> NrSessionIoActor" where
  "send_released a = on_session ClearPendingSend (RecordPendingSendIoCompleted a)"

text \<open>The pending send advanced to the context \<open>c\<close> and posted again, with the post's result.\<close>

definition repost :: "NrSendIoContext \<Rightarrow> NrSessionIoActor \<Rightarrow> NrStatus \<times> NrSessionIoActor" where
  "repost c a =
     (let a = RecordPendingSendIoStarted a in
      case RepostPendingSend (actorSession a) (ioWorld a) of (repostStatus, s, w) \<Rightarrow>
        let a = with_io s w a in
        if Failed repostStatus then
          let a = RecordPendingSendIoCompleted a;
              a = (if HasPendingSend (actorSession a) then on_session ClearPendingSend a else a)
          in (repostStatus, RecordCloseRequested TransportError a)
        else (NrStatus_Success, a))"

definition advanced :: "NrSendIoContext \<Rightarrow> NrSessionIoActor \<Rightarrow> NrSessionIoActor" where
  "advanced c a = on_session (\<lambda>s. s\<lparr>pendingSend := Some c\<rparr>) (RecordPendingSendIoCompleted a)"

lemma HandleSendCompleted_matched:
  assumes "send_matches e c a" "AdvanceBytesSent (ucast (bytesTransferred e)) c = (ast, c')"
  shows "HandleSendCompleted e a =
    (if Failed (completedStatus e) \<or> bytesTransferred e = 0 then
       (NrStatus_Success, RecordCloseRequested TransportError (send_released a))
     else if Failed ast then (ast, RecordCloseRequested TransportError (send_released a))
     else if closeRequested a then (NrStatus_Success, send_released a)
     else if IsFullySent c' then TryPostNextPendingSend (send_released a)
     else repost c' (advanced c' a))"
proof -
  have "on_session ClearPendingSend (on_session (\<lambda>s. s\<lparr>pendingSend := Some c'\<rparr>) b) = on_session ClearPendingSend b" for b
    by (simp add: on_session_def ClearPendingSend_def)
  then show ?thesis
    using assms
    by (simp add: HandleSendCompleted_def send_matches_def Let_def IsCloseRequested_def send_released_def
        advanced_def repost_def with_io_def actor_simps)
qed

lemma HandleSendCompleted_foreign:
  assumes "\<nexists>c. send_matches e c a"
  obtains p where "HandleSendCompleted e a =
    (NrStatus_Failure NrErrorCode.InvalidState, RecordCloseRequested TransportError (nr_assert p a))"
proof (cases "pendingSend (actorSession a)")
  case None
  then show thesis using that [of True] by (simp add: HandleSendCompleted_def nr_assert_def)
next
  case (Some c)
  show thesis
  proof (cases "completedSessionKey e = sessionKey (actorSession a)")
    case True
    then have "contextToken e \<noteq> sendToken c" using assms Some by (simp add: send_matches_def)
    then show thesis using that [of False] True Some by (simp add: HandleSendCompleted_def)
  next
    case False
    then show thesis using that [of True] Some by (simp add: HandleSendCompleted_def nr_assert_def)
  qed
qed

lemma ClearPendingSend_fields [simp]:
  "sessionKey (ClearPendingSend s) = sessionKey s" "sessionSocket (ClearPendingSend s) = sessionSocket s"
  "sessionRecvBuffer (ClearPendingSend s) = sessionRecvBuffer s" "pendingRecv (ClearPendingSend s) = pendingRecv s"
  "pendingSend (ClearPendingSend s) = None"
  by (simp_all add: ClearPendingSend_def)

lemma send_released_inv:
  assumes "io_inv a" "pendingSend (actorSession a) = Some c"
  shows "io_inv (send_released a)" "closed_stable a (send_released a)"
    "unsent a = sendWsabuf c @ unsent (send_released a)"
    "closeRequested (send_released a) = closeRequested a"
proof -
  note inv = io_invD [OF assms(1)]
  show "io_inv (send_released a)"
    by (rule send_update_inv [OF assms(1), where c = None])
      (use inv assms(2) in \<open>simp_all add: send_released_def actor_simps HasPendingSend_def ClearPendingSend_def\<close>)
qed (use assms(2) in \<open>simp_all add: closed_stable_def send_released_def unsent_def actor_simps\<close>)

lemma repost_result:
  assumes "repost c' (advanced c' a) = (st, a')" "io_inv a" "\<not> closeRequested a"
    and "pendingSend (actorSession a) = Some c" "send_context_ok c'"
  shows "io_inv a' \<and> closed_stable a a' \<and> (Failed st \<longrightarrow> closeRequested a') \<and>
    (\<not> closeRequested a' \<longrightarrow> pendingSend (actorSession a') = Some c' \<and> waiting_payloads a' = waiting_payloads a)"
proof -
  note inv = io_invD [OF assms(2)]
  let ?s = "(actorSession a)\<lparr>pendingSend := Some c'\<rparr>"
  let ?b = "RecordPendingSendIoStarted (advanced c' a)"
  have b: "actorSession ?b = ?s" by (simp add: advanced_def actor_simps)
  obtain rst s w where post: "RepostPendingSend ?s (ioWorld ?b) = (rst, s, w)" by (metis prod_cases3)
  have env: "env_ok (ioWorld ?b)" using inv(7) by (simp add: advanced_def actor_simps)
  define d where "d = with_io s w ?b"
  define f where "f = (let g = RecordPendingSendIoCompleted d in
    if HasPendingSend (actorSession g) then on_session ClearPendingSend g else g)"
  have run: "(st, a') = (if Failed rst then (rst, RecordCloseRequested TransportError f) else (NrStatus_Success, d))"
    using assms(1) post by (simp add: repost_def b Let_def d_def [symmetric] f_def split: if_splits)
  have cases: "(Failed rst \<and> (s = ?s \<or> s = ?s\<lparr>pendingSend := None\<rparr>) \<or> rst = NrStatus_Success \<and> s = ?s) \<and> env_ok w"
    using RepostPendingSend_cases [OF post] env by (simp add: world_kept_def) blast
  have d_fields: "closeRequested d = closeRequested a" "actorEndReason d = actorEndReason a"
    "sendChannelOpen d = sendChannelOpen a" "pendingRecvIoCount d = pendingRecvIoCount a"
    "ioWorld d = w" "actorSession d = s" "ring_ok d" "waiting_payloads d = waiting_payloads a" "pendingSendIoCount d = 1"
    using inv(2,8) assms(4) by (simp_all add: d_def advanced_def actor_simps HasPendingSend_def)
  show ?thesis
  proof (cases "Failed rst")
    case True
    then have s: "s = ?s \<or> s = ?s\<lparr>pendingSend := None\<rparr>" using cases by auto
    have f_session: "actorSession f = (actorSession a)\<lparr>pendingSend := None\<rparr>"
      using s by (elim disjE) (simp_all add: f_def Let_def actor_simps d_fields HasPendingSend_def ClearPendingSend_def)
    have f_fields: "closeRequested f = closeRequested a" "actorEndReason f = actorEndReason a"
      "sendChannelOpen f = sendChannelOpen a" "pendingRecvIoCount f = pendingRecvIoCount a"
      "env_ok (ioWorld f)" "ring_ok f" "pendingSendIoCount f = 0"
      using cases by (simp_all add: f_def Let_def actor_simps d_fields)
    have "io_inv f"
      by (rule send_update_inv [OF assms(2), where c = None]) (simp_all add: f_session f_fields)
    moreover have "closed_stable a f" using assms(3) by (simp add: closed_stable_def f_session)
    ultimately show ?thesis
      using run True closed_stable_trans [OF _ close_stable] by (simp add: close_inv actor_simps)
  next
    case False
    then have s: "s = ?s" "env_ok w" using cases by auto
    have "io_inv d"
      by (rule send_update_inv [OF assms(2), where c = "Some c'"])
        (use s assms(5) in \<open>simp_all add: d_fields\<close>)
    moreover have "closed_stable a d" using assms(3) s by (simp add: closed_stable_def d_fields)
    ultimately show ?thesis using run False s by (simp add: d_fields)
  qed
qed

lemma HandleSendCompleted_result:
  assumes "HandleSendCompleted e a = (st, a')" "io_inv a"
  shows "io_inv a' \<and> closed_stable a a' \<and> (Failed st \<longrightarrow> closeRequested a') \<and>
    (\<not> closeRequested a' \<longrightarrow> (\<exists>c. send_matches e c a \<and>
       unat (ucast (bytesTransferred e) :: u32) \<le> length (sendWsabuf c) \<and>
       unsent a = take (unat (ucast (bytesTransferred e) :: u32)) (sendWsabuf c) @ unsent a')) \<and> posting a'"
proof (cases "\<exists>c. send_matches e c a")
  case False
  obtain p where "HandleSendCompleted e a =
      (NrStatus_Failure NrErrorCode.InvalidState, RecordCloseRequested TransportError (nr_assert p a))"
    using HandleSendCompleted_foreign [OF False] .
  moreover have "closed_stable a (RecordCloseRequested TransportError (nr_assert p a))"
    by (rule closed_stable_trans [of _ "nr_assert p a"]) simp_all
  ultimately show ?thesis using assms by (auto simp: close_inv posting_def actor_simps)
next
  case True
  then obtain c where c: "send_matches e c a" by blast
  then have pending: "pendingSend (actorSession a) = Some c" by (simp add: send_matches_def)
  let ?n = "ucast (bytesTransferred e) :: u32"
  obtain ast c' where adv: "AdvanceBytesSent ?n c = (ast, c')" by fastforce
  note adv_result = AdvanceBytesSent_result [OF adv io_invD(9) [OF assms(2) pending]]
  note rel = send_released_inv [OF assms(2) pending]
  note run = HandleSendCompleted_matched [OF c adv]
  have close: "closed_stable a (RecordCloseRequested reason (send_released a))" for reason
    using rel(2) close_stable closed_stable_trans by blast
  consider (failed) "Failed (completedStatus e) \<or> bytesTransferred e = 0 \<or> Failed ast"
    | (closed) "\<not> Failed ast" "closeRequested a" "\<not> (Failed (completedStatus e) \<or> bytesTransferred e = 0)"
    | (full) "\<not> Failed ast" "\<not> closeRequested a" "IsFullySent c'" "\<not> (Failed (completedStatus e) \<or> bytesTransferred e = 0)"
    | (part) "\<not> Failed ast" "\<not> closeRequested a" "\<not> IsFullySent c'" "\<not> (Failed (completedStatus e) \<or> bytesTransferred e = 0)"
    by blast
  then show ?thesis
  proof cases
    case failed
    then show ?thesis
      using assms(1) run rel(1) close by (auto simp: close_inv posting_def actor_simps split: if_splits)
  next
    case closed
    then show ?thesis using assms(1) run rel by (auto simp: posting_def)
  next
    case full
    then have "TryPostNextPendingSend (send_released a) = (st, a')" using assms(1) run by simp
    note post = TryPostNext_result [OF this rel(1)]
    have n: "unat ?n = length (sendWsabuf c)" using adv_result(2) full by simp
    then have "unsent a = take (unat ?n) (sendWsabuf c) @ unsent a'" if "\<not> closeRequested a'"
      using post that rel(3) by simp
    moreover have "closed_stable a a'" using closed_stable_trans [OF rel(2)] post by blast
    ultimately show ?thesis using post c n by (auto simp: posting_def)
  next
    case part
    then have "repost c' (advanced c' a) = (st, a')" using assms(1) run by simp
    note post = repost_result [OF this assms(2) part(2) pending]
    have c': "send_context_ok c'" "sendWsabuf c' = drop (unat ?n) (sendWsabuf c)" "unat ?n \<le> length (sendWsabuf c)"
      using adv_result(2) [OF part(1)] part(3) by auto
    have "unsent a = take (unat ?n) (sendWsabuf c) @ unsent a'" if "\<not> closeRequested a'"
      using post [OF c'(1)] that pending c'(2) by (simp add: unsent_def)
    moreover have "posting a'" using post [OF c'(1)] by (auto simp: posting_def HasPendingSend_def)
    ultimately show ?thesis using post [OF c'(1)] c c'(3) by blast
  qed
qed

end
