(* ===== verification/NrSessionIoRun.thy ===== *)
theory NrSessionIoRun imports NrSessionIoStream NrSessionIoSend begin

text \<open>
  Runs of the session's IO actor: the drain loop, the steps of the actor and of its environment, and
  the properties that hold of every run.
\<close>

section \<open>One event\<close>

lemma HandleAccepted_result:
  assumes "HandleAccepted a = (st, a')" "io_inv a"
  shows "io_inv a' \<and> closed_stable a a' \<and> send_side a' = send_side a \<and> (Failed st \<longrightarrow> closeRequested a')"
proof -
  obtain ast h where acc: "RecordAccepted (sessionKey (actorSession a)) (sendChannel a) (toWorldHandoff a) = (ast, h)"
    by fastforce
  let ?a = "a\<lparr>toWorldHandoff := h\<rparr>"
  have a: "io_inv ?a" "closed_stable a ?a" "send_side ?a = send_side a"
    using assms(2) by (simp_all add: send_side_def)
  have close: "io_inv b \<Longrightarrow> closed_stable a b \<Longrightarrow> io_inv (FailCloseAcceptedSession b) \<and>
      closed_stable a (FailCloseAcceptedSession b) \<and> send_side (FailCloseAcceptedSession b) = send_side b \<and>
      closeRequested (FailCloseAcceptedSession b)" for b
    unfolding FailCloseAcceptedSession_def
    using closed_stable_trans [OF _ close_stable] by (simp add: close_inv actor_simps)
  show ?thesis
  proof (cases "Failed ast")
    case True
    then show ?thesis
      using assms(1) acc a close [OF a(1,2)] by (auto simp: HandleAccepted_def Let_def)
  next
    case False
    obtain rst b where post: "PostRequestedRecv ?a = (rst, b)" by fastforce
    note r = PostRequestedRecv_result [OF post a(1)]
    have stable: "closed_stable a b" using a(2) r(2) by (rule closed_stable_trans)
    show ?thesis
      using assms(1) acc False post r(1,3,5) a(3) stable close [OF r(1) stable]
      by (auto simp: HandleAccepted_def Let_def split: if_splits)
  qed
qed

lemma send_side_mailbox [simp]:
  "send_side (a\<lparr>acceptRecvMailbox := m\<rparr>) = send_side a"
  by (simp add: send_side_def)

lemma TryDrainOneAcceptRecvEvent_result:
  assumes "TryDrainOneAcceptRecvEvent a = (r, a')" "io_inv a"
  shows "io_inv a' \<and> closed_stable a a' \<and> send_side a' = send_side a \<and>
    (case r of Inl st \<Rightarrow> closeRequested a' \<or> hd (acceptRecvMailbox a) = CloseRequested NoEndReason | Inr b \<Rightarrow>
       b = (acceptRecvMailbox a \<noteq> []) \<and> (\<not> b \<longrightarrow> a' = a))"
proof (cases "acceptRecvMailbox a")
  case Nil
  then show ?thesis using assms by (auto simp: TryDrainOneAcceptRecvEvent_def spec_pop_def)
next
  case (Cons e m)
  let ?a = "a\<lparr>acceptRecvMailbox := m\<rparr>"
  have a: "io_inv ?a" "closed_stable a ?a" using assms(2) by simp_all
  note trans = closed_stable_trans [OF a(2)]
  show ?thesis
  proof (cases e)
    case Accepted
    obtain st b where h: "HandleAccepted ?a = (st, b)" by fastforce
    show ?thesis
      using assms(1) Cons Accepted h HandleAccepted_result [OF h a(1)] trans
      by (auto simp: TryDrainOneAcceptRecvEvent_def spec_pop_def split: if_splits)
  next
    case (RecvCompleted c)
    obtain st b where h: "HandleRecvCompleted c ?a = (st, b)" by fastforce
    show ?thesis
      using assms(1) Cons RecvCompleted h HandleRecvCompleted_result [OF h a(1)] trans
      by (auto simp: TryDrainOneAcceptRecvEvent_def spec_pop_def split: if_splits)
  next
    case (CloseRequested reason)
    show ?thesis
      using assms(1) Cons CloseRequested a trans [OF close_stable]
      by (auto simp: TryDrainOneAcceptRecvEvent_def spec_pop_def close_inv Let_def split: if_splits)
  qed
qed

lemma posting_updates [simp]:
  "posting (a\<lparr>sendMailbox := m\<rparr>) = posting a" "posting (on_metrics f a) = posting a"
  by (simp_all add: posting_def waiting_payloads_def actor_simps)

lemma posting_recv_lane:
  assumes "posting a" "send_side a' = send_side a" "closed_stable a a'"
  shows "posting a'"
  using assms by (auto simp: posting_def send_side_def closed_stable_def waiting_payloads_def HasPendingSend_def)

lemma TryDrainOneSendEvent_result:
  assumes "TryDrainOneSendEvent a = (r, a')" "io_inv a"
  shows "io_inv a' \<and> closed_stable a a' \<and> (posting a \<longrightarrow> posting a') \<and>
    (case r of Inl st \<Rightarrow> closeRequested a' \<or> hd (sendMailbox a) = SendRequested [] | Inr b \<Rightarrow>
       b = (sendMailbox a \<noteq> []) \<and> (\<not> b \<longrightarrow> a' = a))"
proof (cases "sendMailbox a")
  case Nil
  then show ?thesis using assms by (auto simp: TryDrainOneSendEvent_def spec_pop_def)
next
  case (Cons e m)
  let ?a = "a\<lparr>sendMailbox := m\<rparr>"
  have a: "io_inv ?a" "closed_stable a ?a" "io_inv (on_metrics RecordSendMailboxDequeued ?a)"
    "closed_stable a (on_metrics RecordSendMailboxDequeued ?a)" using assms(2) by simp_all
  show ?thesis
  proof (cases e)
    case (SendRequested p)
    obtain st b where h: "HandleSendRequested p (on_metrics RecordSendMailboxDequeued ?a) = (st, b)" by fastforce
    show ?thesis
      using assms(1) Cons SendRequested h HandleSendRequested_result [OF h a(3)] closed_stable_trans [OF a(4)]
      by (auto simp: TryDrainOneSendEvent_def spec_pop_def split: if_splits)
  next
    case (SendCompleted c)
    obtain st b where h: "HandleSendCompleted c ?a = (st, b)" by fastforce
    show ?thesis
      using assms(1) Cons SendCompleted h HandleSendCompleted_result [OF h a(1)] closed_stable_trans [OF a(2)]
      by (auto simp: TryDrainOneSendEvent_def spec_pop_def split: if_splits)
  qed
qed

section \<open>The handlers leave the mailboxes alone\<close>

definition mailboxes :: "NrSessionIoActor \<Rightarrow> NrSessionRecvEvent list \<times> NrSessionSendEvent list" where
  "mailboxes a = (acceptRecvMailbox a, sendMailbox a)"

lemma mailboxes_bookkeeping [simp]:
  "mailboxes (nr_assert b a) = mailboxes a" "mailboxes (on_metrics f a) = mailboxes a"
  "mailboxes (on_session g a) = mailboxes a" "mailboxes (RecordCloseRequested reason a) = mailboxes a"
  "mailboxes (RecordPendingRecvIoStarted a) = mailboxes a" "mailboxes (RecordPendingRecvIoCompleted a) = mailboxes a"
  "mailboxes (RecordPendingSendIoStarted a) = mailboxes a" "mailboxes (RecordPendingSendIoCompleted a) = mailboxes a"
  "mailboxes (a\<lparr>toWorldHandoff := h\<rparr>) = mailboxes a" "mailboxes (a\<lparr>ingressRegistry := r\<rparr>) = mailboxes a"
  "mailboxes (a\<lparr>ioWorld := w\<rparr>) = mailboxes a" "mailboxes (a\<lparr>actorSession := s, ioWorld := w\<rparr>) = mailboxes a"
  "mailboxes (a\<lparr>actorSession := s\<rparr>) = mailboxes a" "mailboxes (RecordPostRecvRequested a) = mailboxes a" "mailboxes (set_buffer c a) = mailboxes a"
  "mailboxes (RecordPendingSendQueueFull a) = mailboxes a" "mailboxes (FailCloseAcceptedSession a) = mailboxes a"
  by (simp_all add: mailboxes_def RecordPostRecvRequested_def RecordPendingSendQueueFull_def Let_def set_buffer_def
      FailCloseAcceptedSession_def actor_simps)

lemma mailboxes_PostRequestedRecv [simp]: "mailboxes (snd (PostRequestedRecv a)) = mailboxes a"
  by (simp add: PostRequestedRecv_def Let_def split: prod.split)

lemma mailboxes_HandleAccepted [simp]: "mailboxes (snd (HandleAccepted a)) = mailboxes a"
proof -
  obtain ast h where acc: "RecordAccepted (sessionKey (actorSession a)) (sendChannel a) (toWorldHandoff a) = (ast, h)"
    by fastforce
  obtain rst b where post: "PostRequestedRecv (a\<lparr>toWorldHandoff := h\<rparr>) = (rst, b)" by fastforce
  then have "mailboxes b = mailboxes a" by (metis mailboxes_PostRequestedRecv mailboxes_bookkeeping(9) snd_conv)
  then show ?thesis by (simp add: HandleAccepted_def acc post Let_def)
qed

lemma mailboxes_TryPush [simp]: "mailboxes (snd (TryPushPendingSend p a)) = mailboxes a"
  by (simp add: TryPushPendingSend_def Let_def) (simp add: mailboxes_def)

lemma mailboxes_TryPop [simp]: "mailboxes (snd (TryPopPendingSend a)) = mailboxes a"
  by (simp add: TryPopPendingSend_def Let_def) (simp add: mailboxes_def)

lemma mailboxes_TryPostNext [simp]: "mailboxes (snd (TryPostNextPendingSend a)) = mailboxes a"
proof -
  obtain r b where pop: "TryPopPendingSend a = (r, b)" by fastforce
  then have "mailboxes b = mailboxes a" by (metis mailboxes_TryPop snd_conv)
  then show ?thesis
    by (cases r) (simp_all add: TryPostNextPendingSend_def pop Let_def split: prod.split)
qed

lemma mailboxes_HandleSendRequested [simp]: "mailboxes (snd (HandleSendRequested p a)) = mailboxes a"
proof -
  obtain st b where push: "TryPushPendingSend p a = (st, b)" by fastforce
  then have "mailboxes b = mailboxes a" by (metis mailboxes_TryPush snd_conv)
  then show ?thesis by (simp add: HandleSendRequested_def push)
qed

lemma mailboxes_HandleSendCompleted [simp]: "mailboxes (snd (HandleSendCompleted e a)) = mailboxes a"
proof (cases "\<exists>c. send_matches e c a")
  case True
  then obtain c where c: "send_matches e c a" by blast
  obtain ast c' where "AdvanceBytesSent (ucast (bytesTransferred e)) c = (ast, c')" by fastforce
  moreover have "mailboxes (snd (repost c' (advanced c' a))) = mailboxes a"
    by (simp add: repost_def advanced_def with_io_def Let_def split: prod.split)
  ultimately show ?thesis
    by (simp add: HandleSendCompleted_matched [OF c] send_released_def)
next
  case False
  then show ?thesis by (metis HandleSendCompleted_foreign mailboxes_bookkeeping(1,4) snd_conv)
qed

lemma mailboxes_DispatchFrame [simp]: "mailboxes (snd (DispatchFrame r a)) = mailboxes a"
  by (simp add: DispatchFrame_def Let_def split: prod.split sum.split)

lemma mailboxes_ConsumeFrame [simp]: "mailboxes (snd (ConsumeFrame r a)) = mailboxes a"
  by (simp add: ConsumeFrame_def Let_def split: prod.split)

lemma mailboxes_DispatchFrames [simp]: "mailboxes (snd (DispatchFrames rs a)) = mailboxes a"
proof (induction rs arbitrary: a)
  case (Cons r rs)
  obtain st b where d: "DispatchFrame r a = (st, b)" by fastforce
  then have "mailboxes b = mailboxes a" by (metis mailboxes_DispatchFrame snd_conv)
  then show ?case using Cons.IH by (simp add: d)
qed simp

lemma mailboxes_RequestNext [simp]: "mailboxes (snd (RequestNextRecvIfReady a)) = mailboxes a"
  by (simp add: RequestNextRecvIfReady_def Let_def)

lemma mailboxes_HandleRecvCompleted:
  assumes "io_inv a"
  shows "mailboxes (snd (HandleRecvCompleted e a)) = mailboxes a"
proof (cases "recv_matches e a")
  case False
  then show ?thesis by (metis HandleRecvCompleted_foreign mailboxes_bookkeeping(1,4) snd_conv)
next
  case True
  then have "pendingRecv (actorSession a) \<noteq> None" by (auto simp: recv_matches_def split: option.splits)
  note r = recv_released_inv [OF assms this]
  have released: "mailboxes (recv_released a) = mailboxes a" by (simp add: recv_released_def)
  have "mailboxes (snd (recv_continue n (recv_released a))) = mailboxes a" for n
  proof -
    obtain cst b where commit: "CommitWritten n (sessionRecvBuffer (actorSession (recv_released a))) = (cst, b)"
      by fastforce
    note c = CommitWritten_inv [OF io_invD(6) [OF r(1)] commit]
    let ?a = "set_buffer b (recv_released a)"
    obtain frames stop rest where split: "split_frames (parserByteOrder ?a) (packetParser ?a)
        (ReadableSpan (sessionRecvBuffer (actorSession ?a))) = (frames, stop, rest)" by (metis prod_cases3)
    obtain d where d: "DrainCommittedRecvFrames ?a = drained frames stop d ?a"
      using DrainCommitted_eq [OF _ split] c(1) by auto
    obtain dst f where f: "DispatchFrames frames ?a = (dst, f)" by fastforce
    have "mailboxes f = mailboxes a" using mailboxes_DispatchFrames [of frames ?a] f released by simp
    then show ?thesis
      using commit by (simp add: recv_continue_def d drained_def f released split: prod.split)
  qed
  then show ?thesis by (simp add: HandleRecvCompleted_matched [OF True] released)
qed

text \<open>An event leaves its mailbox exactly when it is handled.\<close>

lemma TryDrainOneAcceptRecvEvent_mailboxes:
  assumes "TryDrainOneAcceptRecvEvent a = (r, a')" "io_inv a"
  shows "mailboxes a' = (tl (acceptRecvMailbox a), sendMailbox a)"
proof (cases "acceptRecvMailbox a")
  case Nil
  then show ?thesis using assms by (auto simp: TryDrainOneAcceptRecvEvent_def spec_pop_def mailboxes_def)
next
  case (Cons e m)
  let ?a = "a\<lparr>acceptRecvMailbox := m\<rparr>"
  have a: "mailboxes ?a = (m, sendMailbox a)" "io_inv ?a" using assms(2) by (simp_all add: mailboxes_def)
  have "mailboxes a' = mailboxes ?a"
  proof (cases e)
    case Accepted
    then have "a' = snd (HandleAccepted ?a)"
      using assms(1) Cons by (auto simp: TryDrainOneAcceptRecvEvent_def spec_pop_def Let_def split: prod.splits if_splits)
    then show ?thesis by simp
  next
    case (RecvCompleted c)
    then have "a' = snd (HandleRecvCompleted c ?a)"
      using assms(1) Cons by (auto simp: TryDrainOneAcceptRecvEvent_def spec_pop_def Let_def split: prod.splits if_splits)
    then show ?thesis using mailboxes_HandleRecvCompleted [OF a(2)] by simp
  next
    case (CloseRequested reason)
    then show ?thesis
      using assms(1) Cons by (auto simp: TryDrainOneAcceptRecvEvent_def spec_pop_def Let_def split: if_splits)
  qed
  then show ?thesis using a(1) Cons by simp
qed

lemma TryDrainOneSendEvent_mailboxes:
  assumes "TryDrainOneSendEvent a = (r, a')"
  shows "mailboxes a' = (acceptRecvMailbox a, tl (sendMailbox a))"
proof (cases "sendMailbox a")
  case Nil
  then show ?thesis using assms by (auto simp: TryDrainOneSendEvent_def spec_pop_def mailboxes_def)
next
  case (Cons e m)
  let ?a = "a\<lparr>sendMailbox := m\<rparr>"
  have a: "mailboxes ?a = (acceptRecvMailbox a, m)" by (simp add: mailboxes_def)
  have "mailboxes a' = mailboxes ?a"
  proof (cases e)
    case (SendRequested p)
    then have "a' = snd (HandleSendRequested p (on_metrics RecordSendMailboxDequeued ?a))"
      using assms(1) Cons by (auto simp: TryDrainOneSendEvent_def spec_pop_def Let_def split: prod.splits if_splits)
    then show ?thesis by simp
  next
    case (SendCompleted c)
    then have "a' = snd (HandleSendCompleted c ?a)"
      using assms(1) Cons by (auto simp: TryDrainOneSendEvent_def spec_pop_def Let_def split: prod.splits if_splits)
    then show ?thesis by simp
  qed
  then show ?thesis using a Cons by simp
qed

section \<open>The drain loop\<close>

definition events_ok :: "NrSessionIoActor \<Rightarrow> bool" where
  "events_ok a \<longleftrightarrow> CloseRequested NoEndReason \<notin> set (acceptRecvMailbox a) \<and> SendRequested [] \<notin> set (sendMailbox a)"

text \<open>What a drain with room for \<open>n\<close> events took out: \<open>r\<close> accept/receive and \<open>s\<close> send events.\<close>

definition took :: "nat \<Rightarrow> NrSessionIoActor \<Rightarrow> NrSessionIoActor \<Rightarrow> nat \<Rightarrow> nat \<Rightarrow> bool" where
  "took n a a' r s \<longleftrightarrow>
     r \<le> length (acceptRecvMailbox a) \<and> s \<le> length (sendMailbox a) \<and> r + s \<le> n \<and>
     acceptRecvMailbox a' = drop r (acceptRecvMailbox a) \<and> sendMailbox a' = drop s (sendMailbox a)"

text \<open>Neither lane starves the other: each got every second turn while it had events.\<close>

definition fair_share :: "nat \<Rightarrow> NrSessionIoActor \<Rightarrow> nat \<Rightarrow> nat \<Rightarrow> bool" where
  "fair_share n a r s \<longleftrightarrow>
     min ((n + 1) div 2) (length (acceptRecvMailbox a)) \<le> r \<and> min (n div 2) (length (sendMailbox a)) \<le> s"

definition drain_outcome ::
    "nat \<Rightarrow> nat \<Rightarrow> NrSessionIoActor \<Rightarrow> (nat \<times> bool) NrResult \<Rightarrow> NrSessionIoActor \<Rightarrow> bool" where
  "drain_outcome n before a result a' \<longleftrightarrow>
     (case result of
        Inl st \<Rightarrow> closeRequested a' \<and> (\<exists>r s. took n a a' r s)
      | Inr (d, exhausted) \<Rightarrow> \<exists>r s. took n a a' r s \<and> fair_share n a r s \<and> d = before + r + s \<and>
          (exhausted \<longleftrightarrow> r + s = n) \<and> (\<not> exhausted \<longrightarrow> mailboxes a' = ([], [])))"

lemma hd_ok: "xs \<noteq> [] \<Longrightarrow> hd xs = x \<Longrightarrow> x \<notin> set xs \<Longrightarrow> False"
  by (cases xs) auto

lemma drain_step_recv:
  assumes "TryDrainOneAcceptRecvEvent a = (r, b)" "io_inv a" "events_ok a"
  shows "io_inv b" "closed_stable a b" "events_ok b"
    and "acceptRecvMailbox b = tl (acceptRecvMailbox a)" "sendMailbox b = sendMailbox a"
    and "r = Inl st \<Longrightarrow> closeRequested b \<and> acceptRecvMailbox a \<noteq> []"
    and "r = Inr p \<Longrightarrow> p = (acceptRecvMailbox a \<noteq> [])"
proof -
  note result = TryDrainOneAcceptRecvEvent_result [OF assms(1,2)]
  note boxes = TryDrainOneAcceptRecvEvent_mailboxes [OF assms(1,2)]
  show "io_inv b" "closed_stable a b" using result by auto
  show box: "acceptRecvMailbox b = tl (acceptRecvMailbox a)" "sendMailbox b = sendMailbox a"
    using boxes by (simp_all add: mailboxes_def)
  show "events_ok b"
    using assms(3) box by (cases "acceptRecvMailbox a"; cases "sendMailbox a") (auto simp: events_ok_def)
  show "r = Inr p \<Longrightarrow> p = (acceptRecvMailbox a \<noteq> [])" using result by simp
  assume r: "r = Inl st"
  then have "acceptRecvMailbox a \<noteq> []"
    using assms(1) by (auto simp: TryDrainOneAcceptRecvEvent_def spec_pop_def)
  then show "closeRequested b \<and> acceptRecvMailbox a \<noteq> []"
    using result r assms(3) hd_ok unfolding events_ok_def by fastforce
qed

lemma drain_step_send:
  assumes "TryDrainOneSendEvent a = (r, b)" "io_inv a" "events_ok a"
  shows "io_inv b" "closed_stable a b" "events_ok b"
    and "acceptRecvMailbox b = acceptRecvMailbox a" "sendMailbox b = tl (sendMailbox a)"
    and "r = Inl st \<Longrightarrow> closeRequested b \<and> sendMailbox a \<noteq> []"
    and "r = Inr p \<Longrightarrow> p = (sendMailbox a \<noteq> [])"
proof -
  note result = TryDrainOneSendEvent_result [OF assms(1,2)]
  note boxes = TryDrainOneSendEvent_mailboxes [OF assms(1)]
  show "io_inv b" "closed_stable a b" using result by auto
  show box: "acceptRecvMailbox b = acceptRecvMailbox a" "sendMailbox b = tl (sendMailbox a)"
    using boxes by (simp_all add: mailboxes_def)
  show "events_ok b"
    using assms(3) box by (cases "acceptRecvMailbox a"; cases "sendMailbox a") (auto simp: events_ok_def)
  show "r = Inr p \<Longrightarrow> p = (sendMailbox a \<noteq> [])" using result by simp
  assume r: "r = Inl st"
  then have "sendMailbox a \<noteq> []"
    using assms(1) by (auto simp: TryDrainOneSendEvent_def spec_pop_def)
  then show "closeRequested b \<and> sendMailbox a \<noteq> []"
    using result r assms(3) hd_ok unfolding events_ok_def by fastforce
qed

text \<open>The outcome of a drain from the outcome of what remains after one or two events.\<close>

lemma drop_tl: "xs \<noteq> [] \<Longrightarrow> drop n (tl xs) = drop (Suc n) xs"
  by (cases xs) simp_all

lemma took_recv:
  "took n b a' r s \<Longrightarrow> acceptRecvMailbox b = tl (acceptRecvMailbox a) \<Longrightarrow> sendMailbox b = sendMailbox a \<Longrightarrow>
    acceptRecvMailbox a \<noteq> [] \<Longrightarrow> took (Suc n) a a' (Suc r) s"
  by (cases "acceptRecvMailbox a") (auto simp: took_def)

lemma took_send:
  "took n b a' r s \<Longrightarrow> acceptRecvMailbox b = acceptRecvMailbox a \<Longrightarrow> sendMailbox b = tl (sendMailbox a) \<Longrightarrow>
    sendMailbox a \<noteq> [] \<Longrightarrow> took (Suc n) a a' r (Suc s)"
  by (cases "sendMailbox a") (auto simp: took_def)

lemma took_none: "mailboxes a' = mailboxes a \<Longrightarrow> took n a a' 0 0"
  by (simp add: took_def mailboxes_def)

lemma took_more: "took n a a' r s \<Longrightarrow> n \<le> m \<Longrightarrow> took m a a' r s"
  by (simp add: took_def)

text \<open>One turn of the loop: the outcome of the rest gives the outcome of the whole.\<close>

lemma outcome_recv_send:
  assumes "drain_outcome n (before + 2) c result a'" "acceptRecvMailbox a \<noteq> []" "sendMailbox a \<noteq> []"
    and "acceptRecvMailbox c = tl (acceptRecvMailbox a)" "sendMailbox c = tl (sendMailbox a)"
  shows "drain_outcome (Suc (Suc n)) before a result a'"
proof -
  have took: "took (Suc (Suc n)) a a' (Suc r) (Suc s)" if "took n c a' r s" for r s
    using that assms(2-) by (cases "acceptRecvMailbox a"; cases "sendMailbox a") (simp_all add: took_def)
  have fair: "fair_share (Suc (Suc n)) a (Suc r) (Suc s)" if "fair_share n c r s" for r s
    using that assms(2-) by (cases "acceptRecvMailbox a"; cases "sendMailbox a") (auto simp: fair_share_def)
  show ?thesis
  proof (cases result)
    case (Inl st)
    then show ?thesis using assms(1) took by (auto simp: drain_outcome_def)
  next
    case (Inr p)
    obtain d ex where p: "p = (d, ex)" by fastforce
    obtain r s where "took n c a' r s" "fair_share n c r s" "d = before + 2 + r + s"
      "ex \<longleftrightarrow> r + s = n" "\<not> ex \<longrightarrow> mailboxes a' = ([], [])"
      using assms(1) Inr p by (auto simp: drain_outcome_def)
    then show ?thesis
      unfolding drain_outcome_def Inr p using took [of r s] fair [of r s]
      by (simp, intro exI [of _ "Suc r"] exI [of _ "Suc s"]) simp
  qed
qed

lemma outcome_one:
  assumes "drain_outcome n (before + 1) c result a'"
    and "(acceptRecvMailbox a \<noteq> [] \<and> acceptRecvMailbox c = tl (acceptRecvMailbox a) \<and> sendMailbox a = [] \<and> sendMailbox c = []) \<or>
      (sendMailbox a \<noteq> [] \<and> sendMailbox c = tl (sendMailbox a) \<and> acceptRecvMailbox a = [] \<and> acceptRecvMailbox c = [])"
  shows "drain_outcome (Suc n) before a result a'"
  using assms(2)
proof (elim disjE conjE)
  assume lane: "acceptRecvMailbox a \<noteq> []" "acceptRecvMailbox c = tl (acceptRecvMailbox a)" "sendMailbox a = []" "sendMailbox c = []"
  have took: "took (Suc n) a a' (Suc r) s" if "took n c a' r s" for r s
    using that lane took_recv by fastforce
  have fair: "fair_share (Suc n) a (Suc r) s" if "fair_share n c r s" for r s
    using that lane by (cases "acceptRecvMailbox a") (auto simp: fair_share_def)
  show ?thesis
  proof (cases result)
    case (Inl st)
    then show ?thesis using assms(1) took by (auto simp: drain_outcome_def)
  next
    case (Inr p)
    obtain d ex where p: "p = (d, ex)" by fastforce
    obtain r s where "took n c a' r s" "fair_share n c r s" "d = before + 1 + r + s"
      "ex \<longleftrightarrow> r + s = n" "\<not> ex \<longrightarrow> mailboxes a' = ([], [])"
      using assms(1) Inr p by (auto simp: drain_outcome_def)
    then show ?thesis
      unfolding drain_outcome_def Inr p using took [of r s] fair [of r s]
      by (simp, intro exI [of _ "Suc r"] exI [of _ s]) simp
  qed
next
  assume lane: "sendMailbox a \<noteq> []" "sendMailbox c = tl (sendMailbox a)" "acceptRecvMailbox a = []" "acceptRecvMailbox c = []"
  have took: "took (Suc n) a a' r (Suc s)" if "took n c a' r s" for r s
    using that lane took_send by fastforce
  have fair: "fair_share (Suc n) a r (Suc s)" if "fair_share n c r s" for r s
    using that lane by (cases "sendMailbox a") (auto simp: fair_share_def)
  show ?thesis
  proof (cases result)
    case (Inl st)
    then show ?thesis using assms(1) took by (auto simp: drain_outcome_def)
  next
    case (Inr p)
    obtain d ex where p: "p = (d, ex)" by fastforce
    obtain r s where "took n c a' r s" "fair_share n c r s" "d = before + 1 + r + s"
      "ex \<longleftrightarrow> r + s = n" "\<not> ex \<longrightarrow> mailboxes a' = ([], [])"
      using assms(1) Inr p by (auto simp: drain_outcome_def)
    then show ?thesis
      unfolding drain_outcome_def Inr p using took [of r s] fair [of r s]
      by (simp, intro exI [of _ r] exI [of _ "Suc s"]) simp
  qed
qed

lemma DrainLoop_result:
  "DrainLoop n before a = (result, a') \<Longrightarrow> io_inv a \<Longrightarrow> events_ok a \<Longrightarrow>
    io_inv a' \<and> closed_stable a a' \<and> drain_outcome n before a result a'"
proof (induction n arbitrary: before a rule: less_induct)
  case (less n)
  show ?case
  proof (cases n)
    case 0
    then show ?thesis
      using less.prems took_none [of a a 0]
      by (auto simp: drain_outcome_def fair_share_def intro!: exI [of _ "0::nat"])
  next
    case (Suc left)
    obtain r1 b where b: "TryDrainOneAcceptRecvEvent a = (r1, b)" by fastforce
    note s1 = drain_step_recv [OF b less.prems(2,3)]
    obtain r2 c where c: "TryDrainOneSendEvent b = (r2, c)" by fastforce
    note s2 = drain_step_send [OF c s1(1,3)]
    have stable: "closed_stable a c" using s1(2) s2(2) by (rule closed_stable_trans)
    show ?thesis
    proof (cases r1)
      case (Inl st)
      then have "took n a a' 1 0"
        using less.prems(1) b s1(4,5) s1(6) [OF Inl] Suc by (cases "acceptRecvMailbox a") (auto simp: took_def)
      then show ?thesis
        using less.prems(1) b Inl s1 Suc by (auto simp: drain_outcome_def intro!: exI)
    next
      case (Inr p1)
      note p1 = s1(7) [OF Inr]
      consider (last) "p1" "left = 0" | (more) "\<not> p1 \<or> left \<noteq> 0" by blast
      then show ?thesis
      proof cases
        case last
        then have "a' = b" "result = Inr (before + 1, True)" using less.prems(1) b Inr Suc by auto
        moreover have "took 1 a b 1 0" "fair_share 1 a 1 0"
          using s1(4,5) p1 last by (cases "acceptRecvMailbox a"; simp add: took_def fair_share_def)+
        then have "drain_outcome 1 before a (Inr (before + 1, True)) b"
          unfolding drain_outcome_def by (simp, intro exI [of _ "Suc 0"] exI [of _ 0]) simp
        ultimately show ?thesis using s1 last Suc by simp
      next
        case more
        show ?thesis
        proof (cases r2)
          case (Inl st)
          then have run: "a' = c" "result = Inl st" using less.prems(1) b c \<open>r1 = Inr p1\<close> more Suc by (auto split: bool.splits)
          have "took n a c (of_bool p1) 1"
            using s1(4,5) s2(4,5) s2(6) [OF Inl] p1 more Suc
            by (cases "acceptRecvMailbox a"; cases "sendMailbox a") (auto simp: took_def)
          then show ?thesis using run s2 s2(6) [OF Inl] stable by (auto simp: drain_outcome_def)
        next
          case (Inr p2)
          note p2 = s2(7) [OF Inr]
          note boxes = s1(4,5) s2(4,5) p1 p2
          show ?thesis
          proof (cases "p1 \<or> p2")
            case False
            then have "a' = c" "result = Inr (before, False)"
              using less.prems(1) b c \<open>r1 = Inr p1\<close> Inr Suc by auto
            then show ?thesis
              using s2 stable boxes False Suc
              by (auto simp: drain_outcome_def took_def fair_share_def mailboxes_def intro!: exI [of _ "0::nat"])
          next
            case True
            define k where "k = of_bool p1 + (of_bool p2 :: nat)"
            have k: "k \<le> n" "0 < k" using True more Suc by (auto simp: k_def)
            have "DrainLoop (n - k) (before + k) c = (result, a')"
              using less.prems(1) b c \<open>r1 = Inr p1\<close> Inr Suc True more
              by (cases p1; cases p2) (simp_all add: k_def)
            from less.IH [OF _ this s2(1,3)] k
            have ih: "io_inv a' \<and> closed_stable c a' \<and> drain_outcome (n - k) (before + k) c result a'" by simp
            have "drain_outcome n before a result a'"
            proof (cases "p1 \<and> p2")
              case True
              then have "drain_outcome (Suc (Suc (n - k))) before a result a'"
                using ih boxes by (intro outcome_recv_send [of "n - k" before c]) (simp_all add: k_def)
              moreover have "Suc (Suc (n - k)) = n" using True k by (simp add: k_def)
              ultimately show ?thesis by metis
            next
              case False
              then have "drain_outcome (Suc (n - k)) before a result a'"
                using ih boxes \<open>p1 \<or> p2\<close> by (intro outcome_one [of "n - k" before c]) (auto simp: k_def)
              moreover have "Suc (n - k) = n" using False \<open>p1 \<or> p2\<close> k by (auto simp: k_def)
              ultimately show ?thesis by metis
            qed
            then show ?thesis using ih stable closed_stable_trans by blast
          qed
        qed
      qed
    qed
  qed
qed

end
