(* ===== verification/NrSessionIoLaws.thy ===== *)
theory NrSessionIoLaws imports NrSessionIoRun NrHandoffProofs begin

text \<open>
  The properties of the session's IO actor: over every sequence of its own steps and of what its
  environment does (events arriving, the operating system filling the receive buffer, the world and
  the ingress consumers changing the shared queues), over single completions, and over runs of the
  send lane.
\<close>

section \<open>Steps of the actor and of its environment\<close>

inductive actor_step :: "NrSessionIoActor \<Rightarrow> NrSessionIoActor \<Rightarrow> bool" where
  arrive_recv: "actor_step a (a\<lparr>acceptRecvMailbox := acceptRecvMailbox a @ [event]\<rparr>)"
| arrive_send: "actor_step a (a\<lparr>sendMailbox := sendMailbox a @ [request]\<rparr>)"
| received: "pendingRecv (actorSession a) \<noteq> None \<Longrightarrow>
    length bytes \<le> writable_count (sessionRecvBuffer (actorSession a)) \<Longrightarrow>
    actor_step a (set_buffer (fill_writable bytes (sessionRecvBuffer (actorSession a))) a)"
| world_side: "actor_step a (a\<lparr>toWorldHandoff := h\<rparr>)"
| ingress_side: "actor_step a (a\<lparr>ingressRegistry := registry\<rparr>)"
| handle_recv: "TryDrainOneAcceptRecvEvent a = (r, a') \<Longrightarrow> actor_step a a'"
| handle_send: "TryDrainOneSendEvent a = (r, a') \<Longrightarrow> actor_step a a'"
| post_recv: "PostRequestedRecv a = (st, a') \<Longrightarrow> actor_step a a'"
| stop: "actor_step a (RecordServerStopping a)"
| take_report: "TakeDrainReport a = (report, a') \<Longrightarrow> actor_step a a'"

lemma fill_writable_inv:
  assumes "recv_inv b" "length bytes \<le> writable_count b"
  shows "recv_inv (fill_writable bytes b)"
proof -
  obtain data where d: "storageBlock b = Some data" "unat (bufferCapacity b) \<le> length data"
    "unat (readPos b) \<le> unat (writePos b)" "unat (writePos b) \<le> unat (bufferCapacity b)"
    "unat (ReadableBytes b) = unat (writePos b) - unat (readPos b)"
    "unat (WritableBytes b) = unat (bufferCapacity b) - unat (writePos b)"
    using assms(1) by (rule recv_invE)
  have "unat (writePos b) + length bytes \<le> length data"
    using assms(2) d by (simp add: writable_count_def)
  then show ?thesis
    using d assms(1) by (simp add: recv_inv_def fill_writable_def WritableSpan_def length_memcpy_at)
qed

lemma TakeDrainReport_fields:
  assumes "TakeDrainReport a = (report, a')"
  shows "a' = a\<lparr>drainReport := NrSessionIoDrainReport_default\<rparr>"
    and "reportCloseReady report = (closeRequested a \<and> \<not> HasPendingIo a)"
    and "reportCloseRequested report = closeRequested a" "reportEndReason report = actorEndReason a"
  using assms by (auto simp: TakeDrainReport_def RefreshCloseReady_def Let_def)

lemma actor_step_inv:
  assumes "actor_step a a'" "io_inv a"
  shows "io_inv a' \<and> closed_stable a a' \<and> (posting a \<longrightarrow> posting a')"
  using assms(1)
proof cases
  case (received bytes)
  note b = fill_writable_inv [OF io_invD(6) [OF assms(2)] received(3)] bufferCapacity_same(3)
  show ?thesis unfolding received(1) using set_buffer_inv(1,2,3) [OF b] assms(2) posting_recv_lane by blast
next
  case (handle_recv r)
  then show ?thesis using TryDrainOneAcceptRecvEvent_result assms(2) posting_recv_lane by blast
next
  case (handle_send r)
  then show ?thesis using TryDrainOneSendEvent_result assms(2) by blast
next
  case (post_recv st)
  then show ?thesis using PostRequestedRecv_result(1,2,3) assms(2) posting_recv_lane by blast
next
  case stop
  then show ?thesis using assms(2) by (simp add: RecordServerStopping_def close_inv posting_def actor_simps)
next
  case (take_report report)
  show ?thesis unfolding TakeDrainReport_fields(1) [OF take_report] using assms(2)
    by (simp add: posting_def waiting_payloads_def)
qed (use assms(2) in \<open>simp_all add: posting_def waiting_payloads_def\<close>)

section \<open>Creation\<close>

lemma Actor_Create_inv:
  assumes "NrSession_Create key sock (NrRecvBuffer_Create block capacity) = Inr session" "env_ok world"
    and "NrSessionIoActor_Create mailboxCapacity sendQueueCapacity (Some session) valid acceptRecvStatus sendStatus
      channelResult queueAllocated actorAllocated order parser table registry handoff world = Inr a"
  shows "io_inv a" "posting a"
proof -
  obtain b where b: "NrRecvBuffer_Create block capacity = Inr b" "sessionRecvBuffer session = b"
    "pendingRecv session = None" "pendingSend session = None" "sessionKey session = key" "sessionSocket session = sock"
    and ok: "key \<noteq> 0" "Socket_IsValid sock" "socketState sock = ConnectedTcpIPv4"
    using assms(1) by (auto simp: NrSession_Create_def split: if_splits sum.splits)
  have cap: "bufferCapacity b > 0"
    using b(1) by (auto simp: NrRecvBuffer_Create_def word_gt_0 split: if_splits sum.splits option.splits)
  obtain control where a: "a = \<lparr>acceptRecvMailbox = [], sendMailbox = [], sendChannel = control, sendChannelOpen = True,
      pendingSendQueue = replicate sendQueueCapacity [], pendingSendQueueCapacity = sendQueueCapacity,
      pendingSendQueueHead = 0, pendingSendQueueSize = 0, actorSession = session,
      parserByteOrder = order, packetParser = parser, dispatchTable = table,
      ingressRegistry = registry, toWorldHandoff = handoff, ioWorld = world,
      drainReport = NrSessionIoDrainReport_default, pendingRecvIoCount = 0, pendingSendIoCount = 0,
      actorEndReason = NoEndReason, closeRequested = False, assertFailed = False\<rparr>" "sendQueueCapacity \<noteq> 0"
    using assms(3) by (auto simp: NrSessionIoActor_Create_def split: if_splits sum.splits)
  show "io_inv a" "posting a"
    unfolding a using b ok cap a(2) Create_stream(1) [OF b(1)] assms(2)
    by (simp_all add: io_inv_def counts_ok_def send_ok_def ring_ok_def close_ok_def waiting_payloads_def
        session_open_def NrSession_IsValid_def HasPendingRecv_def HasPendingSend_def posting_def)
qed

text \<open>The states of an actor between its creation and its destruction.\<close>

inductive actor_reachable :: "NrSessionIoActor \<Rightarrow> bool" where
  created: "NrSession_Create key sock (NrRecvBuffer_Create block capacity) = Inr session \<Longrightarrow> env_ok world \<Longrightarrow>
    NrSessionIoActor_Create mailboxCapacity sendQueueCapacity (Some session) valid acceptRecvStatus sendStatus
      channelResult queueAllocated actorAllocated order parser table registry handoff world = Inr a \<Longrightarrow>
    actor_reachable a"
| stepped: "actor_reachable a \<Longrightarrow> actor_step a a' \<Longrightarrow> actor_reachable a'"

lemma reachable_inv: "actor_reachable a \<Longrightarrow> io_inv a \<and> posting a"
proof (induction rule: actor_reachable.induct)
  case created
  then show ?case by (intro conjI Actor_Create_inv)
next
  case stepped
  then show ?case using actor_step_inv by blast
qed

lemma steps_stable:
  assumes "actor_step\<^sup>*\<^sup>* a a'" "actor_reachable a"
  shows "actor_reachable a' \<and> closed_stable a a'"
  using assms
proof (induction rule: rtranclp_induct)
  case (step b c)
  then have b: "actor_reachable b" "closed_stable a b" by auto
  have "closed_stable b c" using actor_step_inv [OF step.hyps(2)] reachable_inv [OF b(1)] by blast
  then show ?case using b stepped [OF b(1) step.hyps(2)] closed_stable_trans by blast
qed simp

section \<open>A concrete actor\<close>

text \<open>
  The witnesses use an actor with a receive buffer of 16 bytes, a ring of two payloads and a peer in
  the little-endian representation; packet type 7 goes to the world.
\<close>

definition sample_socket :: NrWin32Socket where
  "sample_socket = \<lparr>nativeSocket = Some 5, connectExLoaded = False, acceptExLoaded = False, socketState = ConnectedTcpIPv4\<rparr>"

definition sample_session :: NrSession where
  "sample_session = \<lparr>sessionKey = 1, sessionSocket = sample_socket,
     sessionRecvBuffer = \<lparr>storageBlock = Some (replicate 16 0), bufferCapacity = 16, readPos = 0, writePos = 0\<rparr>,
     pendingRecv = None, pendingSend = None\<rparr>"

definition sample_world :: NrIoWorld where
  "sample_world = \<lparr>nativeResults = [], contextResults = [Inr 100, Inr 200, Inr 300], payloadResults = [],
     nativePosts = [], postFailures = [], ioMetrics = NrServerMetrics_default\<rparr>"

definition sample_table :: NrPacketDispatchTable where
  "sample_table = replicate 7 None @ [Some \<lparr>rulePacketType = 7, dispatchLane = WorldIngress\<rparr>]"

definition sample_parser :: NrPacketParserConfig where
  "sample_parser = \<lparr>maxPacketSize = 16, supportedVersion = NrCurrentProtocolVersion\<rparr>"

definition sample_io_handoff :: NrToWorldHandoff where
  "sample_io_handoff = snd (ReserveSession 1 (sample_handoff\<lparr>allocations := []\<rparr>))"

definition sample_actor :: NrSessionIoActor where
  "sample_actor = \<lparr>acceptRecvMailbox = [], sendMailbox = [], sendChannel = 9, sendChannelOpen = True,
     pendingSendQueue = replicate 2 [], pendingSendQueueCapacity = 2,
     pendingSendQueueHead = 0, pendingSendQueueSize = 0, actorSession = sample_session,
     parserByteOrder = LittleEndian, packetParser = sample_parser, dispatchTable = sample_table,
     ingressRegistry = replicate 3 None, toWorldHandoff = sample_io_handoff, ioWorld = sample_world,
     drainReport = NrSessionIoDrainReport_default, pendingRecvIoCount = 0, pendingSendIoCount = 0,
     actorEndReason = NoEndReason, closeRequested = False, assertFailed = False\<rparr>"

lemma sample_reachable: "actor_reachable sample_actor"
proof (rule created)
  show "NrSession_Create 1 sample_socket (NrRecvBuffer_Create (Inr (Some (replicate 16 0))) 16) = Inr sample_session"
    by (simp add: NrSession_Create_def NrRecvBuffer_Create_def sample_session_def sample_socket_def Socket_IsValid_def)
  show "env_ok sample_world" by (simp add: env_ok_def sample_world_def)
  show "NrSessionIoActor_Create 4 2 (Some sample_session) True NrStatus_Success NrStatus_Success (Inr 9) True True
      LittleEndian sample_parser sample_table (replicate 3 None) sample_io_handoff sample_world =
    Inr sample_actor"
    by (simp add: NrSessionIoActor_Create_def sample_actor_def)
qed

text \<open>The definitions that evaluate the send lane on it.\<close>

lemmas send_eval = HandleSendRequested_def TryPushPendingSend_def TryPostNextPendingSend_def TryPopPendingSend_def
  Actor_HasPendingSend_def IsCloseRequested_def PostSend_def CreateSend_def next_context_def next_native_def
  on_metrics_def RecordPendingSendIoStarted_def RecordPendingSendIoCompleted_def nr_assert_def
  RefreshCloseReady_def HasPendingIo_def SetPendingSend_def Socket_PostSend_def OverlappedPostStatus_def
  NrSendIoContext_construct_def RefreshWsaBuffer_def RemainingBytes_def HasPendingSend_def NrSession_IsValid_def
  Socket_IsValid_def CanUseWsaBufferLength_def HandleSendCompleted_def AdvanceBytesSent_def IsFullySent_def
  RepostPendingSend_def ClearPendingSend_def on_session_def Let_def

lemmas sample_eval = sample_actor_def sample_session_def sample_socket_def sample_world_def

section \<open>Accounting and closing\<close>

text \<open>
  Property C10. In every reachable state the actor counts exactly the IO contexts its session holds,
  at most one receive and one send; the socket is connected until a close is requested and closed
  from then on; and the report it hands to the scheduler says that the actor may be removed exactly
  when a close was requested and no context is pending any more.
\<close>

theorem io_accounting:
  assumes "actor_reachable a" "TakeDrainReport a = (report, a')"
  shows "pendingRecvIoCount a = (if HasPendingRecv (actorSession a) then 1 else 0) \<and>
    pendingSendIoCount a = (if HasPendingSend (actorSession a) then 1 else 0) \<and>
    (socketState (sessionSocket (actorSession a)) = ConnectedTcpIPv4 \<or> reportCloseRequested report) \<and>
    (reportCloseRequested report \<longleftrightarrow> \<not> Socket_IsValid (sessionSocket (actorSession a))) \<and>
    (reportCloseRequested report \<longleftrightarrow> reportEndReason report \<noteq> NoEndReason) \<and>
    (reportCloseReady report \<longleftrightarrow> reportCloseRequested report \<and>
       pendingRecv (actorSession a) = None \<and> pendingSend (actorSession a) = None)"
  using reachable_inv [OF assms(1)] TakeDrainReport_fields [OF assms(2)]
  by (auto simp: io_inv_def counts_ok_def close_ok_def session_open_def NrSession_IsValid_def HasPendingIo_def
      HasPendingRecv_def HasPendingSend_def split: if_splits)

theorem io_accounting_witness:
  "reportCloseReady (fst (TakeDrainReport sample_actor)) = False \<and> pendingRecvIoCount sample_actor = 0"
  using io_accounting [OF sample_reachable prod.collapse [symmetric]]
  by (simp add: sample_actor_def sample_session_def HasPendingRecv_def TakeDrainReport_def RefreshCloseReady_def Let_def)

text \<open>
  Property C11. The first close request is final: whatever the actor and its environment do
  afterwards, the end reason stays the first one, the socket stays closed and nothing is posted to
  the operating system any more.
\<close>

theorem close_is_final:
  assumes "actor_reachable a" "closeRequested a" "actor_step\<^sup>*\<^sup>* a a'"
  shows "closeRequested a' \<and> actorEndReason a' = actorEndReason a \<and> actorEndReason a' \<noteq> NoEndReason \<and>
    \<not> Socket_IsValid (sessionSocket (actorSession a')) \<and> \<not> sendChannelOpen a' \<and>
    nativePosts (ioWorld a') = nativePosts (ioWorld a)"
  using steps_stable [OF assms(3,1)] reachable_inv [of a'] assms(2)
  by (auto simp: closed_stable_def io_inv_def close_ok_def split: if_splits)

theorem close_is_final_witness:
  "actorEndReason (RecordCloseRequested SendPressure (RecordServerStopping sample_actor)) = ServerStopping"
proof -
  let ?a = "RecordServerStopping sample_actor"
  have reach: "actor_reachable ?a" by (rule stepped [OF sample_reachable stop])
  have closed: "closeRequested ?a" by (simp add: RecordServerStopping_def actor_simps)
  have "TryDrainOneAcceptRecvEvent (?a\<lparr>acceptRecvMailbox := acceptRecvMailbox ?a @ [CloseRequested SendPressure]\<rparr>) =
      (Inr True, RecordCloseRequested SendPressure (?a\<lparr>acceptRecvMailbox := []\<rparr>))"
    by (simp add: TryDrainOneAcceptRecvEvent_def spec_pop_def RecordServerStopping_def actor_simps sample_actor_def)
  then have "actor_step\<^sup>*\<^sup>* ?a (RecordCloseRequested SendPressure (?a\<lparr>acceptRecvMailbox := []\<rparr>))"
    using handle_recv arrive_recv [of ?a "CloseRequested SendPressure"]
    by (meson converse_rtranclp_into_rtranclp r_into_rtranclp)
  from close_is_final [OF reach closed this] show ?thesis
    by (simp add: actor_simps RecordServerStopping_def sample_actor_def)
qed

section \<open>The send lane\<close>

text \<open>
  A run of send events. \<open>taken\<close> is what the operating system took from the pending send according to
  a completion: the first bytes of the buffer that was posted.
\<close>

definition taken :: "NrSessionIoCompletedEvent \<Rightarrow> NrSessionIoActor \<Rightarrow> byte list" where
  "taken e a =
     (case pendingSend (actorSession a) of None \<Rightarrow> []
      | Some c \<Rightarrow> take (unat (ucast (bytesTransferred e) :: u32)) (sendWsabuf c))"

fun send_run :: "NrSessionSendEvent list \<Rightarrow> NrSessionIoActor \<Rightarrow> byte list \<times> NrSessionIoActor" where
  "send_run [] a = ([], a)"
| "send_run (SendRequested payload # events) a = send_run events (snd (HandleSendRequested payload a))"
| "send_run (SendCompleted e # events) a =
     (case send_run events (snd (HandleSendCompleted e a)) of (sent, a') \<Rightarrow> (taken e a @ sent, a'))"

fun requested :: "NrSessionSendEvent \<Rightarrow> byte list" where
  "requested (SendRequested payload) = payload"
| "requested (SendCompleted e) = []"

lemma send_run_stream:
  "send_run events a = (sent, a') \<Longrightarrow> io_inv a \<Longrightarrow> \<not> closeRequested a' \<Longrightarrow>
    sent @ unsent a' = unsent a @ concat (map requested events) \<and> \<not> closeRequested a"
proof (induction events arbitrary: a sent)
  case (Cons event events)
  show ?case
  proof (cases event)
    case (SendRequested p)
    obtain st b where b: "HandleSendRequested p a = (st, b)" by fastforce
    note r = HandleSendRequested_result [OF b Cons.prems(2)]
    have "send_run events b = (sent, a')" using Cons.prems(1) SendRequested b by simp
    from Cons.IH [OF this _ Cons.prems(3)] show ?thesis
      using r SendRequested unfolding closed_stable_def by auto
  next
    case (SendCompleted e)
    obtain st b where b: "HandleSendCompleted e a = (st, b)" by fastforce
    note r = HandleSendCompleted_result [OF b Cons.prems(2)]
    obtain more where more: "send_run events b = (more, a')" "sent = taken e a @ more"
      using Cons.prems(1) SendCompleted b by (auto split: prod.splits)
    note ih = Cons.IH [OF more(1) _ Cons.prems(3)]
    then have open_b: "\<not> closeRequested b" using r by blast
    then obtain c where "send_matches e c a" "unsent a = taken e a @ unsent b"
      using r unfolding taken_def send_matches_def by auto
    then show ?thesis using ih r SendCompleted more(2) open_b unfolding closed_stable_def by auto
  qed
qed simp

text \<open>
  Property C2. The send stream is exact: over any run of send requests and completions that leaves
  the session open, the bytes the operating system took, in order, followed by those still owed are
  the bytes owed before followed by the requested payloads. Partial sends lose, repeat and reorder
  nothing.
\<close>

theorem send_stream_exact:
  assumes "actor_reachable a" "send_run events a = (sent, a')" "\<not> closeRequested a'"
  shows "sent @ unsent a' = unsent a @ concat (map requested events)"
  using send_run_stream [OF assms(2) _ assms(3)] reachable_inv [OF assms(1)] by blast

definition completed_send :: "u64 \<Rightarrow> u64 \<Rightarrow> NrSessionIoCompletedEvent" where
  "completed_send transferred token =
     \<lparr>completedSessionKey = 1, bytesTransferred = transferred, completedStatus = NrStatus_Success, contextToken = token\<rparr>"

definition sample_sends :: "NrSessionSendEvent list" where
  "sample_sends = [SendRequested [1, 2, 3], SendRequested [4, 5], SendCompleted (completed_send 2 100),
     SendCompleted (completed_send 1 100), SendCompleted (completed_send 2 200)]"

theorem send_stream_exact_witness:
  "fst (send_run sample_sends sample_actor) @ unsent (snd (send_run sample_sends sample_actor)) = [1, 2, 3, 4, 5]"
proof -
  have "\<not> closeRequested (snd (send_run sample_sends sample_actor))"
    by (simp add: send_eval sample_eval completed_send_def taken_def sample_sends_def)
  moreover have "unsent sample_actor = []" by (simp add: unsent_def waiting_payloads_def sample_eval)
  ultimately show ?thesis
    using send_stream_exact [OF sample_reachable prod.collapse [symmetric], of sample_sends]
    by (simp add: sample_sends_def)
qed

text \<open>
  Property C20. The send lane never stalls: while the session is open, a payload waits in the ring
  only when a send is pending at the operating system, whose completion will take it on; the pending
  send always has bytes left to send.
\<close>

theorem send_lane_never_stalls:
  assumes "actor_reachable a" "\<not> closeRequested a" "waiting_payloads a \<noteq> []"
  shows "\<exists>c. pendingSend (actorSession a) = Some c \<and> sendWsabuf c \<noteq> [] \<and> \<not> IsFullySent c"
proof -
  have inv: "io_inv a" "posting a" using reachable_inv [OF assms(1)] by auto
  then obtain c where c: "pendingSend (actorSession a) = Some c"
    using assms(2,3) by (auto simp: posting_def HasPendingSend_def)
  then have "send_context_ok c" using io_invD(9) [OF inv(1)] by blast
  then have "sendWsabuf c \<noteq> []" "bytesSent c \<noteq> payloadLength c"
    by (auto simp: send_context_ok_def)
  then show ?thesis using c by (auto simp: IsFullySent_def)
qed

theorem send_lane_never_stalls_witness:
  "\<exists>c. pendingSend (actorSession (snd (TryDrainOneSendEvent (snd (TryDrainOneSendEvent
     (sample_actor\<lparr>sendMailbox := [] @ [SendRequested [1, 2, 3]] @ [SendRequested [4, 5]]\<rparr>)))))) = Some c \<and> sendWsabuf c \<noteq> []"
proof -
  let ?a0 = "sample_actor\<lparr>sendMailbox := sendMailbox sample_actor @ [SendRequested [1, 2, 3]]\<rparr>"
  let ?a1 = "?a0\<lparr>sendMailbox := sendMailbox ?a0 @ [SendRequested [4, 5]]\<rparr>"
  let ?a = "snd (TryDrainOneSendEvent (snd (TryDrainOneSendEvent ?a1)))"
  have "actor_reachable ?a1" by (intro stepped [OF _ arrive_send] sample_reachable)
  then have "actor_reachable ?a" by (intro stepped [OF _ handle_send [OF prod.collapse [symmetric]]])
  moreover have "\<not> closeRequested ?a" "waiting_payloads ?a \<noteq> []"
    by (simp_all add: TryDrainOneSendEvent_def spec_pop_def send_eval sample_eval waiting_payloads_def ring_list_def)
  ultimately show ?thesis
    using send_lane_never_stalls [of ?a] by (auto simp: sample_actor_def)
qed

section \<open>The receive lane\<close>

lemma set_buffer_released:
  "recv_released (set_buffer b a) = set_buffer b (recv_released a)"
proof -
  have "on_session ClearPendingRecv (set_buffer b a) = set_buffer b (on_session ClearPendingRecv a)"
    by (simp add: set_buffer_def on_session_def ClearPendingRecv_def)
  moreover have "RecordPendingRecvIoCompleted (set_buffer b c) = set_buffer b (RecordPendingRecvIoCompleted c)" for c
    by (simp add: RecordPendingRecvIoCompleted_def Let_def set_buffer_def on_session_def nr_assert_def
        on_metrics_def RefreshCloseReady_def HasPendingIo_def)
  ultimately show ?thesis by (simp add: recv_released_def)
qed

lemma recv_matches_buffer [simp]: "recv_matches e (set_buffer b a) = recv_matches e a"
  by (simp add: recv_matches_def) (simp add: set_buffer_def on_session_def)

lemma recv_completion:
  assumes "actor_reachable a" "\<not> closeRequested a" "recv_matches e a" "Succeeded (completedStatus e)"
    and bytes: "bytes \<noteq> []" "length bytes \<le> writable_count (sessionRecvBuffer (actorSession a))"
      "bytesTransferred e = of_nat (length bytes)"
    and split: "split_frames (parserByteOrder a) (packetParser a)
      (ReadableSpan (sessionRecvBuffer (actorSession a)) @ bytes) = (frames, stop, rest)"
    and dispatch: "DispatchFrames frames (recv_released a) = (dst, d)"
    and run: "HandleRecvCompleted e (set_buffer (fill_writable bytes (sessionRecvBuffer (actorSession a))) a) = (st, a')"
  shows "if Failed dst then st = dst \<and> closeRequested a' \<and> toWorldHandoff a' = toWorldHandoff d
    else if Failed stop then st = stop \<and> closeRequested a' \<and> actorEndReason a' = EndProtocolError
    else if length rest = unat (bufferCapacity (sessionRecvBuffer (actorSession a))) then
      st = NrStatus_Failure NrErrorCode.CapacityExceeded \<and> closeRequested a' \<and> actorEndReason a' = ReceivePressure
    else st = NrStatus_Success \<and> \<not> closeRequested a' \<and> requestPostRecv (drainReport a') \<and>
      toWorldHandoff a' = toWorldHandoff d \<and> ingressRegistry a' = ingressRegistry d \<and>
      ReadableSpan (sessionRecvBuffer (actorSession a')) = rest"
proof -
  let ?b = "sessionRecvBuffer (actorSession a)" and ?n = "bytesTransferred e"
  let ?f = "fill_writable bytes ?b" and ?a = "recv_released a"
  have inv: "io_inv a" using reachable_inv [OF assms(1)] by simp
  note fill = fill_Commit [OF io_invD(6) [OF inv] bytes(2,3)]
  define c where "c = snd (CommitWritten ?n ?f)"
  have commit: "CommitWritten ?n ?f = (NrStatus_Success, c)" using fill(1) by (simp add: c_def prod_eq_iff)
  have c: "recv_inv c" "ReadableSpan c = ReadableSpan ?b @ bytes" "bufferCapacity c = bufferCapacity ?b"
    using fill(2,3) by (simp_all add: c_def)
  have "length bytes < 2 ^ 64"
    using bytes(2) unsigned_less [of "WritableBytes ?b", where ?'a = nat] by (simp add: writable_count_def)
  then have pos: "0 < ?n" using bytes(1,3) by (simp add: word_gt_0 word_unat_eq_iff unat_of_nat_small)
  have pending: "pendingRecv (actorSession a) \<noteq> None"
    using assms(3) by (auto simp: recv_matches_def split: option.splits)
  note rel = recv_released_inv [OF inv pending]
  have continue: "recv_continue ?n (set_buffer ?f ?a) = (st, a')"
    using run HandleRecvCompleted_matched [of e "set_buffer ?f a"] assms(2,3,4) pos
    by (simp add: set_buffer_released)
  have "split_frames (parserByteOrder (set_buffer c ?a)) (packetParser (set_buffer c ?a))
      (ReadableSpan (sessionRecvBuffer (actorSession (set_buffer c ?a)))) = (frames, stop, rest)"
    using split c(2) by (simp add: actor_simps)
  then obtain g where g: "DrainCommittedRecvFrames (set_buffer c ?a) = drained frames stop g (set_buffer c ?a)"
    "recv_inv g" "bufferCapacity g = bufferCapacity c"
    "\<not> Failed (fst (DispatchFrames frames (set_buffer c ?a))) \<Longrightarrow> ReadableSpan g = rest"
    using DrainCommitted_eq [of "set_buffer c ?a"] c(1) by auto
  have rest: "\<not> Failed dst \<Longrightarrow> ReadableSpan g = rest" using g(4) dispatch by (simp add: DispatchFrames_buffer)
  have drain: "DrainCommittedRecvFrames (set_buffer c ?a) = drained frames stop g ?a" using g(1) by (simp add: drained_buffer)
  have cap: "bufferCapacity g = bufferCapacity (sessionRecvBuffer (actorSession ?a))"
    using g(3) c(3) by (simp add: actor_simps)
  note k = DispatchFrames_kept [OF dispatch]
  show ?thesis
  proof (cases "Failed dst \<or> Failed stop")
    case True
    then show ?thesis
      using continue commit drain dispatch k assms(2)
      by (auto simp: recv_continue_def drained_def actor_simps split: if_splits)
  next
    case False
    then have done_eq: "drained frames stop g ?a = (NrStatus_Success, set_buffer g d)"
      using dispatch by (simp add: drained_def)
    note dk = drained_kept [OF done_eq rel(1) g(2) cap]
    have next_recv: "RequestNextRecvIfReady (set_buffer g d) = (st, a')"
      using continue commit drain done_eq by (simp add: recv_continue_def)
    have hyps: "\<not> HasPendingRecv (actorSession (set_buffer g d))" "\<not> closeRequested (set_buffer g d)"
      "reportCloseRequested (drainReport (set_buffer g d)) = closeRequested (set_buffer g d)"
      using dk(5) assms(2) by (simp_all add: actor_simps HasPendingRecv_def)
    note r = RequestNext_result [OF next_recv dk(1) hyps(1,3)]
    have len: "ReadableSpan (sessionRecvBuffer (actorSession (set_buffer g d))) = rest" using rest False by simp
    have capg: "bufferCapacity (sessionRecvBuffer (actorSession (set_buffer g d))) = bufferCapacity ?b"
      using g(3) c(3) by simp
    show ?thesis
    proof (cases "length rest = unat (bufferCapacity ?b)")
      case True
      then have "st = NrStatus_Failure NrErrorCode.CapacityExceeded"
        using r(5) r(6) [OF hyps(2)] len capg by auto
      moreover from this have "actorEndReason a' = ReceivePressure"
        using next_recv hyps by (auto simp: RequestNextRecvIfReady_def Let_def actor_simps split: if_splits)
      ultimately show ?thesis using False True r(4) by simp
    next
      case ok: False
      then have "st = NrStatus_Success" using r(6) [OF hyps(2)] len capg by auto
      then show ?thesis using False ok r(7) hyps(2) len by simp
    qed
  qed
qed

text \<open>
  \<open>delivers e bytes a\<close>: the completion \<open>e\<close> of the pending receive reports that the operating system
  stored \<open>bytes\<close> in the buffer of the open actor; \<open>with_bytes\<close> is the actor with these bytes stored.
\<close>

definition delivers :: "NrSessionIoCompletedEvent \<Rightarrow> byte list \<Rightarrow> NrSessionIoActor \<Rightarrow> bool" where
  "delivers e bytes a \<longleftrightarrow> \<not> closeRequested a \<and> recv_matches e a \<and> Succeeded (completedStatus e) \<and>
     bytes \<noteq> [] \<and> length bytes \<le> writable_count (sessionRecvBuffer (actorSession a)) \<and>
     bytesTransferred e = of_nat (length bytes)"

definition with_bytes :: "byte list \<Rightarrow> NrSessionIoActor \<Rightarrow> NrSessionIoActor" where
  "with_bytes bytes a = set_buffer (fill_writable bytes (sessionRecvBuffer (actorSession a))) a"

text \<open>
  Property C3. A completed receive does what the byte stream says: with the new bytes behind the
  unconsumed ones, exactly the frames of that stream are dispatched, in order, up to the first
  refusal; an unparsable stream ends the session as a protocol error; otherwise the incomplete rest
  stays buffered and the next receive is requested, unless the rest fills the whole buffer, which
  ends the session under receive pressure.
\<close>

theorem recv_completion_dispatches:
  assumes "actor_reachable a" "delivers e bytes a"
    and "split_frames (parserByteOrder a) (packetParser a)
      (ReadableSpan (sessionRecvBuffer (actorSession a)) @ bytes) = (frames, stop, rest)"
    and "DispatchFrames frames (recv_released a) = (dst, d)"
    and "HandleRecvCompleted e (with_bytes bytes a) = (st, a')"
  shows "if Failed dst then st = dst \<and> closeRequested a' \<and> toWorldHandoff a' = toWorldHandoff d
    else if Failed stop then st = stop \<and> closeRequested a' \<and> actorEndReason a' = EndProtocolError
    else if length rest = unat (bufferCapacity (sessionRecvBuffer (actorSession a))) then
      st = NrStatus_Failure NrErrorCode.CapacityExceeded \<and> closeRequested a' \<and> actorEndReason a' = ReceivePressure
    else st = NrStatus_Success \<and> \<not> closeRequested a' \<and> requestPostRecv (drainReport a') \<and>
      toWorldHandoff a' = toWorldHandoff d \<and> ingressRegistry a' = ingressRegistry d \<and>
      ReadableSpan (sessionRecvBuffer (actorSession a')) = rest"
  using assms unfolding delivers_def with_bytes_def by (intro recv_completion [of a e bytes]) blast+

text \<open>An accepted actor and a segment with one frame of type 7 and the first byte of the next.\<close>

definition accepted_actor :: NrSessionIoActor where
  "accepted_actor = snd (TryDrainOneAcceptRecvEvent
     (sample_actor\<lparr>acceptRecvMailbox := acceptRecvMailbox sample_actor @ [Accepted]\<rparr>))"

lemma accepted_reachable: "actor_reachable accepted_actor"
  unfolding accepted_actor_def
  by (intro stepped [OF _ handle_recv [OF prod.collapse [symmetric]]] stepped [OF _ arrive_recv] sample_reachable)

definition sample_segment :: "byte list" where
  "sample_segment = [7, 0, 7, 0, 1, 0, 42, 0]"

definition sample_received :: NrSessionIoCompletedEvent where
  "sample_received = \<lparr>completedSessionKey = 1, bytesTransferred = of_nat (length sample_segment),
     completedStatus = NrStatus_Success, contextToken = 100\<rparr>"

definition sample_result :: NrPacketParseResult where
  "sample_result = \<lparr>parseStatus = Complete, protocolErrorReason = NoReason,
     parsedHeader = NrPacketHeader_Decode LittleEndian sample_segment, packetBytes = [7, 0, 7, 0, 1, 0, 42]\<rparr>"

lemma sample_split:
  "split_frames LittleEndian sample_parser sample_segment = ([sample_result], NrStatus_Success, [0])"
  by code_simp

lemma accepted_session:
  "actorSession accepted_actor = sample_session
    \<lparr>pendingRecv := Some \<lparr>recvToken = 100, recvSessionKey = 1, writableLength = 16, recvWsabuf = (0, 16)\<rparr>\<rparr>"
  by code_simp

lemma accepted_fields:
  "parserByteOrder accepted_actor = LittleEndian" "packetParser accepted_actor = sample_parser"
  "\<not> closeRequested accepted_actor"
  by code_simp+

lemma accepted_buffer:
  "ReadableSpan (sessionRecvBuffer (actorSession accepted_actor)) = []"
  "bufferCapacity (sessionRecvBuffer (actorSession accepted_actor)) = 16"
  "writable_count (sessionRecvBuffer (actorSession accepted_actor)) = 16"
  "recv_matches sample_received accepted_actor"
  unfolding recv_matches_def accepted_session
  by (simp_all add: sample_session_def sample_received_def ReadableSpan_def ReadableBytes_def writable_count_def
      WritableBytes_def)

lemma sample_delivers: "delivers sample_received sample_segment accepted_actor"
  by (simp add: delivers_def accepted_fields accepted_buffer) (simp add: sample_received_def sample_segment_def)

lemma sample_dispatch: "fst (DispatchFrames [sample_result] (recv_released accepted_actor)) = NrStatus_Success"
  by code_simp

theorem recv_completion_dispatches_witness:
  "\<exists>a'. HandleRecvCompleted sample_received (with_bytes sample_segment accepted_actor) = (NrStatus_Success, a') \<and>
    ReadableSpan (sessionRecvBuffer (actorSession a')) = [0]"
proof -
  obtain st a' where run: "HandleRecvCompleted sample_received (with_bytes sample_segment accepted_actor) = (st, a')"
    by fastforce
  obtain d where d: "DispatchFrames [sample_result] (recv_released accepted_actor) = (NrStatus_Success, d)"
    using sample_dispatch by (metis prod.collapse)
  have "split_frames (parserByteOrder accepted_actor) (packetParser accepted_actor)
      (ReadableSpan (sessionRecvBuffer (actorSession accepted_actor)) @ sample_segment) =
    ([sample_result], NrStatus_Success, [0])"
    by (simp add: accepted_fields accepted_buffer sample_split)
  from recv_completion_dispatches [OF accepted_reachable sample_delivers this d run] show ?thesis
    using run by (simp add: accepted_buffer)
qed

text \<open>
  Property C24. A receive buffer of at least the largest packet never stalls the session: as long as
  the frames that arrive are parsed and accepted, every completed receive ends with room for more and
  the next receive requested. The server's buffer has exactly that size.
\<close>

theorem receive_buffer_never_stalls:
  assumes "actor_reachable a" "delivers e bytes a"
    and "NrPacketHeaderLength \<le> maxPacketSize (packetParser a)"
    and "maxPacketSize (packetParser a) \<le> unat (bufferCapacity (sessionRecvBuffer (actorSession a)))"
    and "split_frames (parserByteOrder a) (packetParser a)
      (ReadableSpan (sessionRecvBuffer (actorSession a)) @ bytes) = (frames, NrStatus_Success, rest)"
    and "fst (DispatchFrames frames (recv_released a)) = NrStatus_Success"
    and "HandleRecvCompleted e (with_bytes bytes a) = (st, a')"
  shows "st = NrStatus_Success \<and> requestPostRecv (drainReport a') \<and>
    length (ReadableSpan (sessionRecvBuffer (actorSession a'))) < maxPacketSize (packetParser a)"
proof -
  have "length rest < maxPacketSize (packetParser a)"
    using split_frames_rest [OF assms(5) _ assms(3)] by simp
  then show ?thesis
    using recv_completion [of a e bytes frames NrStatus_Success rest NrStatus_Success
        "snd (DispatchFrames frames (recv_released a))" st a'] assms
    by (auto simp: delivers_def with_bytes_def prod_eq_iff)
qed

theorem receive_buffer_never_stalls_witness:
  "\<exists>a'. HandleRecvCompleted sample_received (with_bytes sample_segment accepted_actor) = (NrStatus_Success, a') \<and>
    requestPostRecv (drainReport a')"
proof -
  obtain st a' where run: "HandleRecvCompleted sample_received (with_bytes sample_segment accepted_actor) = (st, a')"
    by fastforce
  have "split_frames (parserByteOrder accepted_actor) (packetParser accepted_actor)
      (ReadableSpan (sessionRecvBuffer (actorSession accepted_actor)) @ sample_segment) =
    ([sample_result], NrStatus_Success, [0])"
    by (simp add: accepted_fields accepted_buffer sample_split)
  from receive_buffer_never_stalls [OF accepted_reachable sample_delivers _ _ this sample_dispatch run] show ?thesis
    using run by (simp add: accepted_fields accepted_buffer sample_parser_def NrPacketHeaderLength_def)
qed

lemma DrainFrames_mono:
  "DrainFrames n a = Some r \<Longrightarrow> n \<le> m \<Longrightarrow> DrainFrames m a = Some r"
proof (induction n arbitrary: a m)
  case 0
  then show ?case by (cases m) (auto split: if_splits)
next
  case (Suc n)
  then obtain k where m: "m = Suc k" "n \<le> k" by (cases m) auto
  obtain st result where parse: "NrPacketParser_Parse (parserByteOrder a) (packetParser a)
      (ReadableSpan (sessionRecvBuffer (actorSession a))) = (st, result)" by fastforce
  obtain ds d where d: "DispatchFrame result a = (ds, d)" by fastforce
  obtain cs c where c: "ConsumeFrame result d = (cs, c)" by fastforce
  show ?case using Suc.prems(1) Suc.IH [OF _ m(2), of c] by (simp add: m(1) parse d c split: if_splits)
qed

text \<open>
  Property C39. The receive loop terminates: each turn consumes at least one byte, so as many turns as
  there are readable bytes are enough, and the result does not depend on how many more are allowed.
\<close>

theorem receive_loop_terminates:
  assumes "recv_inv (sessionRecvBuffer (actorSession a))"
    and "unat (ReadableBytes (sessionRecvBuffer (actorSession a))) \<le> turns"
  shows "DrainFrames turns a = Some (DrainCommittedRecvFrames a)"
proof -
  let ?n = "unat (ReadableBytes (sessionRecvBuffer (actorSession a)))"
  obtain r where r: "DrainFrames ?n a = Some r"
    using DrainFrames_drained [OF assms(1), of _ _ _ ?n] length_ReadableSpan [OF assms(1)]
    by (metis order_refl prod_cases3)
  then show ?thesis
    using DrainFrames_mono [OF r assms(2)] by (simp add: DrainCommittedRecvFrames_def)
qed

theorem receive_loop_terminates_witness:
  "DrainFrames 5 sample_actor = Some (DrainCommittedRecvFrames sample_actor)"
  by (rule receive_loop_terminates)
    (simp_all add: sample_actor_def sample_session_def recv_inv_def ReadableBytes_def)

section \<open>Draining and destruction\<close>

text \<open>
  Property C23. A drain handles at most its budget of events and takes them from the fronts of the two
  mailboxes, each lane getting every second turn while it has events; it asks to be run again exactly
  when it used the whole budget, otherwise both mailboxes are empty. A drain that fails has requested
  the close of the session, given events with a payload or an end reason.
\<close>

theorem drain_bounded_and_fair:
  assumes "actor_reachable a" "events_ok a" "Drain n a = (result, a')" "0 < n"
  shows "\<exists>r s. took n a a' r s \<and>
    (case result of
       Inl st \<Rightarrow> closeRequested a'
     | Inr report \<Rightarrow> fair_share n a r s \<and> drainedCount report = r + s \<and>
         (needsReschedule report \<longleftrightarrow> r + s = n) \<and>
         (\<not> needsReschedule report \<longrightarrow> acceptRecvMailbox a' = [] \<and> sendMailbox a' = []))"
proof -
  obtain loop b where loop: "DrainLoop n 0 a = (loop, b)" by fastforce
  have "drain_outcome n 0 a loop b"
    using DrainLoop_result [OF loop] reachable_inv [OF assms(1)] assms(2) by blast
  then show ?thesis
    using assms(3,4) loop
    by (auto simp: Drain_def drain_outcome_def mailboxes_def split: sum.splits prod.splits) blast+
qed

theorem drain_bounded_and_fair_witness:
  "\<exists>a'. Drain 1 (sample_actor\<lparr>sendMailbox := sendMailbox sample_actor @ [SendRequested [1]]\<rparr>) =
     (Inr \<lparr>drainedCount = 1, needsReschedule = True\<rparr>, a') \<and> sendMailbox a' = []"
proof -
  let ?a = "sample_actor\<lparr>sendMailbox := sendMailbox sample_actor @ [SendRequested [1]]\<rparr>"
  obtain result a' where run: "Drain 1 ?a = (result, a')" by fastforce
  have reach: "actor_reachable ?a" by (intro stepped [OF _ arrive_send] sample_reachable)
  have ok: "events_ok ?a" by (simp add: events_ok_def sample_actor_def)
  have "fst (Drain 1 ?a) = Inr \<lparr>drainedCount = 1, needsReschedule = True\<rparr>"
    by (simp add: Drain_def TryDrainOneAcceptRecvEvent_def TryDrainOneSendEvent_def spec_pop_def send_eval sample_eval)
  then have result: "result = Inr \<lparr>drainedCount = 1, needsReschedule = True\<rparr>" using run by simp
  obtain r s where "took 1 ?a a' r s" "r + s = 1"
    using drain_bounded_and_fair [OF reach ok run] result by auto
  then have "sendMailbox a' = []" by (auto simp: took_def sample_actor_def)
  then show ?thesis using run result by blast
qed

text \<open>What an actor still contributes to the server's gauges.\<close>

definition owed_sends :: "NrSessionIoActor \<Rightarrow> nat" where
  "owed_sends a = length (List.filter (\<lambda>e. case e of SendRequested p \<Rightarrow> True | SendCompleted c \<Rightarrow> False) (sendMailbox a))"

lemma unat_gauge_minus:
  assumes "Suc n \<le> unat (g :: u64)"
  shows "g \<noteq> of_nat n" and "g - of_nat n - 1 = g - of_nat (Suc n)"
proof -
  have "n < 2 ^ 64" using assms unsigned_less [of g, where ?'a = nat] by simp
  then have "unat (g - of_nat n) = unat g - n"
    using assms by (subst unat_sub) (simp_all add: word_le_nat_alt unat_of_nat_small)
  then show "g \<noteq> of_nat n" using assms by auto
  show "g - of_nat n - 1 = g - of_nat (Suc n)" by simp
qed

lemma settle_gauges:
  assumes "\<not> metricsAssertFailed m"
  shows "n \<le> unat (metricPendingRecvIo m) \<Longrightarrow> (Metrics_RecordPendingRecvIoCompleted ^^ n) m =
      m\<lparr>metricPendingRecvIo := metricPendingRecvIo m - of_nat n\<rparr>"
    and "n \<le> unat (metricPendingSendIo m) \<Longrightarrow> (Metrics_RecordPendingSendIoCompleted ^^ n) m =
      m\<lparr>metricPendingSendIo := metricPendingSendIo m - of_nat n\<rparr>"
    and "n \<le> unat (sendMailboxDepth m) \<Longrightarrow> (RecordSendMailboxDequeued ^^ n) m =
      m\<lparr>sendMailboxDepth := sendMailboxDepth m - of_nat n\<rparr>"
    and "n \<le> unat (pendingSendQueueDepth m) \<Longrightarrow> (RecordPendingSendDequeued ^^ n) m =
      m\<lparr>pendingSendQueueDepth := pendingSendQueueDepth m - of_nat n\<rparr>"
  by (induction n)
    (use assms in \<open>simp_all add: unat_gauge_minus Metrics_RecordPendingRecvIoCompleted_def DecrementDepth_def
      Metrics_RecordPendingSendIoCompleted_def RecordSendMailboxDequeued_def RecordPendingSendDequeued_def
      DecrementPendingIo_def del: of_nat_Suc\<close>)

lemma fold_mailbox:
  "fold (\<lambda>event m. case event of SendRequested payload \<Rightarrow> RecordSendMailboxDequeued m | SendCompleted c \<Rightarrow> m) events m =
    (RecordSendMailboxDequeued ^^
      length (List.filter (\<lambda>e. case e of SendRequested p \<Rightarrow> True | SendCompleted c \<Rightarrow> False) events)) m"
  by (induction events arbitrary: m) (auto simp: funpow_swap1 split: NrSessionSendEvent.split)

text \<open>
  Destroying an actor takes back from the server's gauges exactly what it still
  contributes: its pending receive and send, the send requests left in its mailbox and the payloads
  left in its ring; the gauges' assertions hold and no other metric changes.
\<close>

theorem destruction_settles_gauges:
  assumes "\<not> metricsAssertFailed m"
    and "pendingRecvIoCount a \<le> unat (metricPendingRecvIo m)" "pendingSendIoCount a \<le> unat (metricPendingSendIo m)"
    and "owed_sends a \<le> unat (sendMailboxDepth m)" "pendingSendQueueSize a \<le> unat (pendingSendQueueDepth m)"
  shows "NrSessionIoActor_destroy True a m =
    (m\<lparr>metricPendingRecvIo := metricPendingRecvIo m - of_nat (pendingRecvIoCount a),
       metricPendingSendIo := metricPendingSendIo m - of_nat (pendingSendIoCount a),
       sendMailboxDepth := sendMailboxDepth m - of_nat (owed_sends a),
       pendingSendQueueDepth := pendingSendQueueDepth m - of_nat (pendingSendQueueSize a)\<rparr>, True)"
  using assms by (simp add: NrSessionIoActor_destroy_def Let_def settle_gauges fold_mailbox owed_sends_def [symmetric])

theorem destruction_settles_gauges_witness:
  "sendMailboxDepth (fst (NrSessionIoActor_destroy True (sample_actor\<lparr>sendMailbox := [SendRequested [1]]\<rparr>)
     (NrServerMetrics_default\<lparr>sendMailboxDepth := 3\<rparr>))) = 2"
  by (subst destruction_settles_gauges)
    (simp_all add: owed_sends_def sample_actor_def NrServerMetrics_default_def)

end
