(* ===== verification/NrScheduleGate.thy ===== *)
theory NrScheduleGate imports NrPrelude begin

text \<open>
  The schedule gate of a session actor (\<^verbatim>\<open>NrActorScheduleGate.h\<close>, \<^verbatim>\<open>NrActorScheduleGate.cpp\<close>):
  one atomic 64-bit word that packs the scheduling phase of the actor, two drain flags and the
  number of producers inside an admission. Every operation of the source is a compare-exchange
  loop whose body computes the new word from the observed one only; the successful exchange is
  the moment at which it acts, so an operation is a function of the word at that moment, and the
  early returns are those of the last load. The collection \<open>gate_simps\<close> reads and writes the
  fields of the word; \<open>decode\<close> abstracts a word to a record, and each operation of the source is
  shown to act on the record as the state machine drawn in the header does.
\<close>

unbundle bit_operations_syntax

named_theorems gate_simps \<open>reading a field of the gate word after writing one\<close>

section \<open>The word\<close>

text \<open>
  \<^verbatim>\<open>NrPackedPhase\<close> is an enumeration over a byte; the three phase bits can also hold the values
  5, 6 and 7, which name no enumerator.
\<close>

datatype NrPackedPhase = Idle | Admitting | Scheduled | Draining | DrainCompleting | UnnamedPhase nat

datatype NrActorScheduleView =
    ViewIdle | ViewAdmitting | ViewScheduled | ViewDraining | ViewDrainingWithPending
  | ViewDrainCompleting

datatype NrActorAdmissionDecision = Rejected | RequiresNewPermit | UsesExistingPermit

datatype NrActorAdmissionResolution = CapacityRejected | MailboxRejected | MailboxCommitted

datatype NrActorScheduleDirective =
    NoAction | FinalizationDeferred | EnqueueReadyToken | ReleasePermit

record NrActorAdmissionTicket =
  decision :: NrActorAdmissionDecision

definition Ticket_Accepted :: "NrActorAdmissionTicket \<Rightarrow> bool" where
  "Ticket_Accepted t \<longleftrightarrow> decision t \<noteq> Rejected"

definition NeedsNewPermit :: "NrActorAdmissionTicket \<Rightarrow> bool" where
  "NeedsNewPermit t \<longleftrightarrow> decision t = RequiresNewPermit"

definition PhaseMask :: u64 where "PhaseMask = 0x7"

definition PendingBit :: u64 where "PendingBit = push_bit 3 1"

definition DrainNeedsRescheduleBit :: u64 where "DrainNeedsRescheduleBit = push_bit 4 1"

definition ProducerInFlightShift :: nat where "ProducerInFlightShift = 8"

definition ProducerInFlightMask :: u64 where
  "ProducerInFlightMask = push_bit ProducerInFlightShift 0xFFFFFFFF"

definition MaxProducerInFlight :: u32 where "MaxProducerInFlight = 0xFFFFFFFF"

fun phase_value :: "NrPackedPhase \<Rightarrow> u64" where
  "phase_value Idle = 0"
| "phase_value Admitting = 1"
| "phase_value Scheduled = 2"
| "phase_value Draining = 3"
| "phase_value DrainCompleting = 4"
| "phase_value (UnnamedPhase n) = of_nat n"

definition PackedPhase :: "u64 \<Rightarrow> NrPackedPhase" where
  "PackedPhase state =
     (let n = unat (state AND PhaseMask) in
      if n = 0 then Idle else if n = 1 then Admitting else if n = 2 then Scheduled
      else if n = 3 then Draining else if n = 4 then DrainCompleting else UnnamedPhase n)"

definition ProducerInFlight :: "u64 \<Rightarrow> u32" where
  "ProducerInFlight state = ucast (drop_bit ProducerInFlightShift (state AND ProducerInFlightMask))"

definition HasBit :: "u64 \<Rightarrow> u64 \<Rightarrow> bool" where
  "HasBit state bits \<longleftrightarrow> (state AND bits) \<noteq> 0"

definition WithPhase :: "u64 \<Rightarrow> NrPackedPhase \<Rightarrow> u64" where
  "WithPhase state phase = (state AND NOT PhaseMask) OR phase_value phase"

definition WithProducerInFlight :: "u64 \<Rightarrow> u32 \<Rightarrow> u64" where
  "WithProducerInFlight state count =
     (state AND NOT ProducerInFlightMask) OR push_bit ProducerInFlightShift (ucast count)"

definition ClearDrainFlags :: "u64 \<Rightarrow> u64" where
  "ClearDrainFlags state = state AND NOT (PendingBit OR DrainNeedsRescheduleBit)"

definition DecodeView :: "u64 \<Rightarrow> NrActorScheduleView" where
  "DecodeView state =
     (case PackedPhase state of
        Idle \<Rightarrow> ViewIdle
      | Admitting \<Rightarrow> ViewAdmitting
      | Scheduled \<Rightarrow> ViewScheduled
      | Draining \<Rightarrow> if HasBit state PendingBit then ViewDrainingWithPending else ViewDraining
      | DrainCompleting \<Rightarrow> ViewDrainCompleting
      | UnnamedPhase n \<Rightarrow> ViewIdle)"

section \<open>The operations\<close>

definition TryBeginAdmission :: "u64 \<Rightarrow> NrActorAdmissionTicket \<times> u64" where
  "TryBeginAdmission observed =
     (let phase = PackedPhase observed; producerInFlight = ProducerInFlight observed in
      if phase = Admitting \<or> producerInFlight = MaxProducerInFlight
      then (\<lparr>decision = Rejected\<rparr>, observed)
      else if phase = Idle
      then (\<lparr>decision = RequiresNewPermit\<rparr>,
            WithProducerInFlight (WithPhase (ClearDrainFlags observed) Admitting) 1)
      else (\<lparr>decision = UsesExistingPermit\<rparr>,
            WithProducerInFlight observed (producerInFlight + 1)))"

text \<open>
  \<open>settled\<close> is the choice made at the end of a drain, by the worker or by the last producer:
  back to the ready queue when a flag asks for it, otherwise give the permit back.
\<close>

definition settled :: "u64 \<Rightarrow> NrActorScheduleDirective \<times> u64" where
  "settled desired =
     (let needsReschedule = HasBit desired PendingBit \<or> HasBit desired DrainNeedsRescheduleBit in
      (if needsReschedule then EnqueueReadyToken else ReleasePermit,
       WithPhase (ClearDrainFlags desired) (if needsReschedule then Scheduled else Idle)))"

text \<open>The assertion \<^verbatim>\<open>producerInFlight > 0\<close> is a precondition; the release build returns early.\<close>

definition CompleteAdmission ::
    "NrActorAdmissionTicket \<Rightarrow> NrActorAdmissionResolution \<Rightarrow> u64 \<Rightarrow>
     NrActorScheduleDirective \<times> NrActorAdmissionTicket \<times> u64" where
  "CompleteAdmission ticket resolution observed =
     (if \<not> Ticket_Accepted ticket then (NoAction, ticket, observed)
      else
        let phase = PackedPhase observed; producerInFlight = ProducerInFlight observed;
            spent = \<lparr>decision = Rejected\<rparr> in
        if producerInFlight = 0 then (NoAction, spent, observed)
        else if decision ticket = RequiresNewPermit then
          if phase \<noteq> Admitting \<or> producerInFlight \<noteq> 1 then (NoAction, spent, observed)
          else
            let desired = WithProducerInFlight (ClearDrainFlags observed) 0 in
            (case resolution of
               CapacityRejected \<Rightarrow> (NoAction, spent, WithPhase desired Idle)
             | MailboxRejected \<Rightarrow> (ReleasePermit, spent, WithPhase desired Idle)
             | MailboxCommitted \<Rightarrow> (EnqueueReadyToken, spent, WithPhase desired Scheduled))
        else if resolution = CapacityRejected \<or> phase = Idle \<or> phase = Admitting
        then (NoAction, spent, observed)
        else
          let desired = WithProducerInFlight observed (producerInFlight - 1);
              desired = (if resolution = MailboxCommitted \<and> (phase = Draining \<or> phase = DrainCompleting)
                         then desired OR PendingBit else desired) in
          if phase = DrainCompleting \<and> producerInFlight = 1
          then (case settled desired of (directive, word) \<Rightarrow> (directive, spent, word))
          else (NoAction, spent, desired))"

definition TryBeginDrain :: "u64 \<Rightarrow> bool \<times> u64" where
  "TryBeginDrain observed =
     (if PackedPhase observed = Scheduled then (True, WithPhase (ClearDrainFlags observed) Draining)
      else (False, observed))"

definition CompleteDrain :: "bool \<Rightarrow> u64 \<Rightarrow> NrActorScheduleDirective \<times> u64" where
  "CompleteDrain shouldReschedule observed =
     (if PackedPhase observed \<noteq> Draining then (NoAction, observed)
      else
        let producerInFlight = ProducerInFlight observed;
            desired = (if shouldReschedule then observed OR DrainNeedsRescheduleBit else observed) in
        if 0 < producerInFlight then (FinalizationDeferred, WithPhase desired DrainCompleting)
        else settled desired)"

definition View :: "u64 \<Rightarrow> NrActorScheduleView" where
  "View scheduleState = DecodeView scheduleState"

section \<open>The fields of the word\<close>

definition phase_bits :: "NrPackedPhase \<Rightarrow> bool" where
  "phase_bits p \<longleftrightarrow> (case p of UnnamedPhase n \<Rightarrow> 4 < n \<and> n < 8 | _ \<Rightarrow> True)"

lemma PhaseMask_mask: "PhaseMask = mask 3"
  by (simp add: PhaseMask_def mask_eq_decr_exp)

lemma bit_PhaseMask: "bit PhaseMask n \<longleftrightarrow> n < 3"
  by (simp only: PhaseMask_mask bit_mask_iff) auto

lemma bit_PendingBit: "bit PendingBit n \<longleftrightarrow> n = 3"
  unfolding PendingBit_def bit_push_bit_iff bit_1_iff by auto

lemma bit_DrainNeedsRescheduleBit: "bit DrainNeedsRescheduleBit n \<longleftrightarrow> n = 4"
  unfolding DrainNeedsRescheduleBit_def bit_push_bit_iff bit_1_iff by auto

lemma bit_ProducerInFlightMask: "bit ProducerInFlightMask n \<longleftrightarrow> 8 \<le> n \<and> n < 40"
proof -
  have "ProducerInFlightMask = push_bit 8 (mask 32)"
    by (simp add: ProducerInFlightMask_def ProducerInFlightShift_def mask_numeral)
  moreover have "bit (push_bit 8 (mask 32) :: u64) n \<longleftrightarrow> 8 \<le> n \<and> n < 40"
    by (simp only: bit_push_bit_iff bit_mask_iff) auto
  ultimately show ?thesis by simp
qed

lemmas gate_bits =
  bit_PhaseMask bit_PendingBit bit_DrainNeedsRescheduleBit bit_ProducerInFlightMask
  ProducerInFlightShift_def

lemma phase_value_small: "phase_bits p \<Longrightarrow> take_bit 3 (phase_value p) = phase_value p"
proof (cases p)
  case (UnnamedPhase n)
  assume "phase_bits p"
  then have "n = 5 \<or> n = 6 \<or> n = 7" using UnnamedPhase by (auto simp: phase_bits_def)
  then show ?thesis using UnnamedPhase by auto
qed simp_all

lemma bit_phase_value: "phase_bits p \<Longrightarrow> bit (phase_value p) n \<Longrightarrow> n < 3"
  by (metis bit_take_bit_iff phase_value_small)

lemma and_phase_value: "phase_bits p \<Longrightarrow> phase_value p AND PhaseMask = phase_value p"
  using phase_value_small by (simp add: PhaseMask_mask take_bit_eq_mask)

lemma WithPhase_masked:
  "phase_bits p \<Longrightarrow> WithPhase w p AND PhaseMask = phase_value p"
  by (rule bit_eqI) (auto simp: WithPhase_def gate_bits bit_simps dest: bit_phase_value)

lemma PackedPhase_value: "phase_bits p \<Longrightarrow> w AND PhaseMask = phase_value p \<Longrightarrow> PackedPhase w = p"
  by (cases p) (auto simp: PackedPhase_def phase_bits_def unat_of_nat)

lemma phase_bits_named [simp]:
  "phase_bits Idle" "phase_bits Admitting" "phase_bits Scheduled" "phase_bits Draining"
  "phase_bits DrainCompleting"
  by (simp_all add: phase_bits_def)

lemma PackedPhase_WithPhase [gate_simps]: "phase_bits p \<Longrightarrow> PackedPhase (WithPhase w p) = p"
  by (simp add: PackedPhase_value WithPhase_masked)

lemma PackedPhase_masked: "w AND PhaseMask = v AND PhaseMask \<Longrightarrow> PackedPhase w = PackedPhase v"
  by (simp add: PackedPhase_def)

lemma PackedPhase_other [gate_simps]:
  "PackedPhase (WithProducerInFlight w n) = PackedPhase w"
  "PackedPhase (ClearDrainFlags w) = PackedPhase w"
  "PackedPhase (w OR PendingBit) = PackedPhase w"
  "PackedPhase (w OR DrainNeedsRescheduleBit) = PackedPhase w"
  by (rule PackedPhase_masked, rule bit_eqI,
      auto simp: WithProducerInFlight_def ClearDrainFlags_def gate_bits bit_simps)+

lemma ProducerInFlight_WithProducerInFlight [gate_simps]:
  "ProducerInFlight (WithProducerInFlight w n) = n"
  by (rule bit_eqI)
    (auto simp: ProducerInFlight_def WithProducerInFlight_def gate_bits bit_simps)

lemma ProducerInFlight_other [gate_simps]:
  "phase_bits p \<Longrightarrow> ProducerInFlight (WithPhase w p) = ProducerInFlight w"
  "ProducerInFlight (ClearDrainFlags w) = ProducerInFlight w"
  "ProducerInFlight (w OR PendingBit) = ProducerInFlight w"
  "ProducerInFlight (w OR DrainNeedsRescheduleBit) = ProducerInFlight w"
  by (rule bit_eqI,
      auto simp: ProducerInFlight_def WithPhase_def ClearDrainFlags_def gate_bits bit_simps
        dest: bit_phase_value)+

lemma HasBit_iff:
  "HasBit w PendingBit \<longleftrightarrow> bit w 3" "HasBit w DrainNeedsRescheduleBit \<longleftrightarrow> bit w 4"
  unfolding HasBit_def bit_eq_iff by (auto simp: gate_bits bit_simps)

lemma HasBit_after [gate_simps]:
  "\<not> HasBit (ClearDrainFlags w) PendingBit"
  "\<not> HasBit (ClearDrainFlags w) DrainNeedsRescheduleBit"
  "HasBit (w OR PendingBit) PendingBit"
  "HasBit (w OR DrainNeedsRescheduleBit) DrainNeedsRescheduleBit"
  "HasBit (w OR PendingBit) DrainNeedsRescheduleBit = HasBit w DrainNeedsRescheduleBit"
  "HasBit (w OR DrainNeedsRescheduleBit) PendingBit = HasBit w PendingBit"
  by (auto simp: HasBit_iff, auto simp: ClearDrainFlags_def gate_bits bit_simps)

lemma HasBit_other [gate_simps]:
  "phase_bits p \<Longrightarrow> HasBit (WithPhase w p) PendingBit = HasBit w PendingBit"
  "phase_bits p \<Longrightarrow> HasBit (WithPhase w p) DrainNeedsRescheduleBit = HasBit w DrainNeedsRescheduleBit"
  "HasBit (WithProducerInFlight w n) PendingBit = HasBit w PendingBit"
  "HasBit (WithProducerInFlight w n) DrainNeedsRescheduleBit = HasBit w DrainNeedsRescheduleBit"
  by (auto simp: HasBit_iff,
      auto simp: WithPhase_def WithProducerInFlight_def gate_bits bit_simps dest: bit_phase_value)

section \<open>The abstract gate\<close>

text \<open>
  The state machine that the header draws, over a record with an unbounded count: a producer
  pins the gate while its admission is open, the gate cannot become idle while it is pinned, and
  the drain flags survive until whoever ends the drain last has read them.
\<close>

record gate_state =
  gate_phase :: NrPackedPhase
  gate_pending :: bool
  gate_reschedule :: bool
  gate_producers :: nat

definition decode :: "u64 \<Rightarrow> gate_state" where
  "decode w = \<lparr>gate_phase = PackedPhase w, gate_pending = HasBit w PendingBit,
     gate_reschedule = HasBit w DrainNeedsRescheduleBit, gate_producers = unat (ProducerInFlight w)\<rparr>"

definition cleared :: "gate_state \<Rightarrow> gate_state" where
  "cleared g = g\<lparr>gate_pending := False, gate_reschedule := False\<rparr>"

definition begin_admission :: "gate_state \<Rightarrow> NrActorAdmissionDecision \<times> gate_state" where
  "begin_admission g =
     (if gate_phase g = Admitting \<or> gate_producers g = 2 ^ 32 - 1 then (Rejected, g)
      else if gate_phase g = Idle
      then (RequiresNewPermit, (cleared g)\<lparr>gate_phase := Admitting, gate_producers := 1\<rparr>)
      else (UsesExistingPermit, g\<lparr>gate_producers := gate_producers g + 1\<rparr>))"

definition settle :: "gate_state \<Rightarrow> NrActorScheduleDirective \<times> gate_state" where
  "settle g =
     (if gate_pending g \<or> gate_reschedule g
      then (EnqueueReadyToken, (cleared g)\<lparr>gate_phase := Scheduled\<rparr>)
      else (ReleasePermit, (cleared g)\<lparr>gate_phase := Idle\<rparr>))"

definition first_admission ::
    "NrActorAdmissionResolution \<Rightarrow> gate_state \<Rightarrow> NrActorScheduleDirective \<times> gate_state" where
  "first_admission resolution g =
     (if gate_phase g \<noteq> Admitting \<or> gate_producers g \<noteq> 1 then (NoAction, g)
      else case resolution of
          CapacityRejected \<Rightarrow> (NoAction, (cleared g)\<lparr>gate_phase := Idle, gate_producers := 0\<rparr>)
        | MailboxRejected \<Rightarrow> (ReleasePermit, (cleared g)\<lparr>gate_phase := Idle, gate_producers := 0\<rparr>)
        | MailboxCommitted \<Rightarrow>
            (EnqueueReadyToken, (cleared g)\<lparr>gate_phase := Scheduled, gate_producers := 0\<rparr>))"

definition joined_admission ::
    "NrActorAdmissionResolution \<Rightarrow> gate_state \<Rightarrow> NrActorScheduleDirective \<times> gate_state" where
  "joined_admission resolution g =
     (if gate_producers g = 0 \<or> resolution = CapacityRejected \<or> gate_phase g \<in> {Idle, Admitting}
      then (NoAction, g)
      else
        let g' = g\<lparr>gate_producers := gate_producers g - 1,
                  gate_pending := gate_pending g \<or>
                    resolution = MailboxCommitted \<and> gate_phase g \<in> {Draining, DrainCompleting}\<rparr> in
        if gate_phase g = DrainCompleting \<and> gate_producers g = 1 then settle g' else (NoAction, g'))"

definition begin_drain :: "gate_state \<Rightarrow> bool \<times> gate_state" where
  "begin_drain g =
     (if gate_phase g = Scheduled then (True, (cleared g)\<lparr>gate_phase := Draining\<rparr>) else (False, g))"

definition complete_drain :: "bool \<Rightarrow> gate_state \<Rightarrow> NrActorScheduleDirective \<times> gate_state" where
  "complete_drain shouldReschedule g =
     (if gate_phase g \<noteq> Draining then (NoAction, g)
      else
        let g' = g\<lparr>gate_reschedule := gate_reschedule g \<or> shouldReschedule\<rparr> in
        if 0 < gate_producers g then (FinalizationDeferred, g'\<lparr>gate_phase := DrainCompleting\<rparr>)
        else settle g')"

lemma decode_fields [simp]:
  "gate_phase (decode w) = PackedPhase w"
  "gate_pending (decode w) = HasBit w PendingBit"
  "gate_reschedule (decode w) = HasBit w DrainNeedsRescheduleBit"
  "gate_producers (decode w) = unat (ProducerInFlight w)"
  by (simp_all add: decode_def)

lemma decode_writes [gate_simps]:
  "phase_bits p \<Longrightarrow> decode (WithPhase w p) = (decode w)\<lparr>gate_phase := p\<rparr>"
  "decode (WithProducerInFlight w n) = (decode w)\<lparr>gate_producers := unat n\<rparr>"
  "decode (ClearDrainFlags w) = cleared (decode w)"
  "decode (w OR PendingBit) = (decode w)\<lparr>gate_pending := True\<rparr>"
  "decode (w OR DrainNeedsRescheduleBit) = (decode w)\<lparr>gate_reschedule := True\<rparr>"
  by (simp_all add: decode_def cleared_def gate_simps)

lemma unat_count:
  fixes c :: u32
  shows "unat c = 4294967295 \<longleftrightarrow> c = MaxProducerInFlight" "unat c = Suc 0 \<longleftrightarrow> c = 1"
    "unat c = 0 \<longleftrightarrow> c = 0" "c \<noteq> MaxProducerInFlight \<Longrightarrow> unat (c + 1) = unat c + 1"
    "c \<noteq> 0 \<Longrightarrow> unat (c - 1) = unat c - 1"
proof -
  have "unat MaxProducerInFlight = 4294967295" by (simp add: MaxProducerInFlight_def)
  then show max: "unat c = 4294967295 \<longleftrightarrow> c = MaxProducerInFlight"
    by (metis word_unat_eq_iff)
  show "unat c = Suc 0 \<longleftrightarrow> c = 1" "unat c = 0 \<longleftrightarrow> c = 0" by (simp_all add: word_unat_eq_iff)
  show "unat (c + 1) = unat c + 1" if "c \<noteq> MaxProducerInFlight"
  proof -
    have "unat c < 2 ^ 32" using unsigned_less [of c] by simp
    moreover have "unat c \<noteq> 4294967295" using that max by simp
    ultimately show ?thesis by (simp add: unat_word_ariths)
  qed
  show "unat (c - 1) = unat c - 1" if "c \<noteq> 0"
    using that by (simp add: unat_minus_one)
qed

lemma decode_same [gate_simps]:
  "(decode w)\<lparr>gate_reschedule := HasBit w DrainNeedsRescheduleBit\<rparr> = decode w"
  "(decode w)\<lparr>gate_producers := n, gate_pending := HasBit w PendingBit\<rparr> = (decode w)\<lparr>gate_producers := n\<rparr>"
  by (simp_all add: decode_def)

text \<open>Each operation of the word acts as the abstract one on the fields.\<close>

lemma decode_TryBeginAdmission:
  "(case TryBeginAdmission w of (t, w') \<Rightarrow> (decision t, decode w')) = begin_admission (decode w)"
  by (simp add: TryBeginAdmission_def begin_admission_def Let_def unat_count gate_simps cleared_def)

lemma decode_settled:
  "(case settled w of (d, w') \<Rightarrow> (d, decode w')) = settle (decode w)"
  by (simp add: settled_def settle_def Let_def gate_simps cleared_def)

lemma decode_TryBeginDrain:
  "(case TryBeginDrain w of (ok, w') \<Rightarrow> (ok, decode w')) = begin_drain (decode w)"
  by (simp add: TryBeginDrain_def begin_drain_def gate_simps cleared_def)

lemma decode_CompleteDrain:
  "(case CompleteDrain r w of (d, w') \<Rightarrow> (d, decode w')) = complete_drain r (decode w)"
  by (simp add: CompleteDrain_def complete_drain_def Let_def decode_settled gate_simps unat_count
      word_less_nat_alt)

lemma decode_first:
  "decision t = RequiresNewPermit \<Longrightarrow>
    (case CompleteAdmission t resolution w of (d, t', w') \<Rightarrow> (d, decode w')) = first_admission resolution (decode w)"
  by (cases resolution)
    (simp_all add: CompleteAdmission_def first_admission_def Ticket_Accepted_def Let_def gate_simps unat_count
      cleared_def)

lemma decode_joined:
  "decision t = UsesExistingPermit \<Longrightarrow>
    (case CompleteAdmission t resolution w of (d, t', w') \<Rightarrow> (d, decode w')) = joined_admission resolution (decode w)"
  using decode_settled [of "WithProducerInFlight w (ProducerInFlight w - 1)"]
    decode_settled [of "WithProducerInFlight w (ProducerInFlight w - 1) OR PendingBit"]
  by (auto simp add: CompleteAdmission_def joined_admission_def Ticket_Accepted_def Let_def gate_simps unat_count
      split: prod.splits)

definition complete_admission ::
    "NrActorAdmissionDecision \<Rightarrow> NrActorAdmissionResolution \<Rightarrow> gate_state \<Rightarrow>
     NrActorScheduleDirective \<times> gate_state" where
  "complete_admission d resolution g =
     (case d of
        Rejected \<Rightarrow> (NoAction, g)
      | RequiresNewPermit \<Rightarrow> first_admission resolution g
      | UsesExistingPermit \<Rightarrow> joined_admission resolution g)"

lemma decode_CompleteAdmission:
  "(case CompleteAdmission t resolution w of (d, t', w') \<Rightarrow> (d, decode w')) =
    complete_admission (decision t) resolution (decode w)"
  by (cases "decision t")
    (simp_all add: complete_admission_def decode_first decode_joined, simp add: CompleteAdmission_def Ticket_Accepted_def)

section \<open>What an operation does to the fields\<close>

text \<open>The same facts as case distinctions on the word, the form the clients of the gate use.\<close>

lemma TryBeginAdmission_cases:
  assumes "TryBeginAdmission w = (t, w')"
  obtains (rejected) "decision t = Rejected" "w' = w"
  | (first) "decision t = RequiresNewPermit" "PackedPhase w = Idle" "PackedPhase w' = Admitting"
      "unat (ProducerInFlight w') = 1" "\<not> HasBit w' PendingBit" "\<not> HasBit w' DrainNeedsRescheduleBit"
  | (joined) "decision t = UsesExistingPermit" "PackedPhase w \<noteq> Idle" "PackedPhase w \<noteq> Admitting"
      "PackedPhase w' = PackedPhase w" "unat (ProducerInFlight w') = unat (ProducerInFlight w) + 1"
      "HasBit w' PendingBit = HasBit w PendingBit"
      "HasBit w' DrainNeedsRescheduleBit = HasBit w DrainNeedsRescheduleBit"
proof (cases "PackedPhase w = Admitting \<or> ProducerInFlight w = MaxProducerInFlight")
  case True
  then show ?thesis using assms rejected by (auto simp: TryBeginAdmission_def)
next
  case False
  then show ?thesis using assms first joined
    by (cases "PackedPhase w = Idle") (auto simp: TryBeginAdmission_def Let_def gate_simps unat_count)
qed

lemma first_admission_result:
  assumes "CompleteAdmission t resolution w = (d, t', w')"
    and "decision t = RequiresNewPermit" "PackedPhase w = Admitting" "unat (ProducerInFlight w) = 1"
  shows "PackedPhase w' = (if resolution = MailboxCommitted then Scheduled else Idle)"
    and "d = (case resolution of CapacityRejected \<Rightarrow> NoAction | MailboxRejected \<Rightarrow> ReleasePermit
                | MailboxCommitted \<Rightarrow> EnqueueReadyToken)"
    and "unat (ProducerInFlight w') = 0" "\<not> HasBit w' PendingBit" "\<not> HasBit w' DrainNeedsRescheduleBit"
  using assms
  by (auto simp: CompleteAdmission_def Ticket_Accepted_def Let_def gate_simps unat_count
      split: NrActorAdmissionResolution.splits)

lemma joined_admission_cases:
  assumes "CompleteAdmission t resolution w = (d, t', w')"
    and "decision t = UsesExistingPermit" "resolution \<noteq> CapacityRejected"
      "PackedPhase w \<noteq> Idle" "PackedPhase w \<noteq> Admitting" "0 < unat (ProducerInFlight w)"
  obtains (kept) "d = NoAction" "PackedPhase w' = PackedPhase w"
      "unat (ProducerInFlight w') = unat (ProducerInFlight w) - 1"
      "PackedPhase w = DrainCompleting \<Longrightarrow> 0 < unat (ProducerInFlight w')"
      "HasBit w' PendingBit \<longleftrightarrow> HasBit w PendingBit \<or>
         resolution = MailboxCommitted \<and> PackedPhase w \<in> {Draining, DrainCompleting}"
      "HasBit w' DrainNeedsRescheduleBit = HasBit w DrainNeedsRescheduleBit"
  | (again) "d = EnqueueReadyToken" "PackedPhase w = DrainCompleting" "unat (ProducerInFlight w) = 1"
      "PackedPhase w' = Scheduled" "unat (ProducerInFlight w') = 0"
      "\<not> HasBit w' PendingBit" "\<not> HasBit w' DrainNeedsRescheduleBit"
  | (release) "d = ReleasePermit" "PackedPhase w = DrainCompleting" "unat (ProducerInFlight w) = 1"
      "PackedPhase w' = Idle" "unat (ProducerInFlight w') = 0" "resolution \<noteq> MailboxCommitted"
      "\<not> HasBit w PendingBit" "\<not> HasBit w DrainNeedsRescheduleBit"
      "\<not> HasBit w' PendingBit" "\<not> HasBit w' DrainNeedsRescheduleBit"
proof -
  have nz: "ProducerInFlight w \<noteq> 0" using assms(6) unat_count(3) by (metis less_irrefl)
  let ?v = "WithProducerInFlight w (ProducerInFlight w - 1)"
  let ?u = "if resolution = MailboxCommitted \<and> (PackedPhase w = Draining \<or> PackedPhase w = DrainCompleting)
     then ?v OR PendingBit else ?v"
  have r: "(d, t', w') = (if PackedPhase w = DrainCompleting \<and> ProducerInFlight w = 1
      then (case settled ?u of (d, v) \<Rightarrow> (d, \<lparr>decision = Rejected\<rparr>, v)) else (NoAction, \<lparr>decision = Rejected\<rparr>, ?u))"
    using assms nz by (simp add: CompleteAdmission_def Ticket_Accepted_def Let_def)
  have less: "unat (ProducerInFlight w - 1) = unat (ProducerInFlight w) - 1" using nz by (rule unat_count(5))
  show ?thesis
  proof (cases "PackedPhase w = DrainCompleting \<and> ProducerInFlight w = 1")
    case True
    then have "(d, w') = settled ?u" using r by (auto split: prod.splits)
    then show ?thesis using True again release
      by (cases "resolution = MailboxCommitted"; cases "HasBit ?u PendingBit \<or> HasBit ?u DrainNeedsRescheduleBit")
        (auto simp: settled_def Let_def gate_simps unat_count)
  next
    case False
    then have w': "d = NoAction" "w' = ?u" using r by auto
    have "0 < unat (ProducerInFlight w')" if "PackedPhase w = DrainCompleting"
      using False that assms(6) less unat_count(2) [of "ProducerInFlight w"] w' by (auto simp: gate_simps)
    then show ?thesis by (rule kept [rotated 3]) (use w' less in \<open>auto simp: gate_simps\<close>)
  qed
qed

lemma TryBeginDrain_scheduled:
  assumes "TryBeginDrain w = (begun, w')" "PackedPhase w = Scheduled"
  shows "begun" "PackedPhase w' = Draining" "ProducerInFlight w' = ProducerInFlight w"
    "\<not> HasBit w' PendingBit" "\<not> HasBit w' DrainNeedsRescheduleBit"
  using assms by (auto simp: TryBeginDrain_def gate_simps)

lemma CompleteDrain_cases:
  assumes "CompleteDrain r w = (d, w')" "PackedPhase w = Draining"
  obtains (deferred) "d = FinalizationDeferred" "PackedPhase w' = DrainCompleting" "0 < unat (ProducerInFlight w)"
      "ProducerInFlight w' = ProducerInFlight w" "HasBit w' PendingBit = HasBit w PendingBit"
      "HasBit w' DrainNeedsRescheduleBit \<longleftrightarrow> r \<or> HasBit w DrainNeedsRescheduleBit"
  | (again) "d = EnqueueReadyToken" "PackedPhase w' = Scheduled" "unat (ProducerInFlight w) = 0"
      "unat (ProducerInFlight w') = 0" "\<not> HasBit w' PendingBit" "\<not> HasBit w' DrainNeedsRescheduleBit"
  | (release) "d = ReleasePermit" "PackedPhase w' = Idle" "unat (ProducerInFlight w) = 0"
      "unat (ProducerInFlight w') = 0" "\<not> r" "\<not> HasBit w PendingBit" "\<not> HasBit w DrainNeedsRescheduleBit"
      "\<not> HasBit w' PendingBit" "\<not> HasBit w' DrainNeedsRescheduleBit"
proof (cases "0 < ProducerInFlight w")
  case True
  then show ?thesis using assms deferred
    by (cases r) (auto simp: CompleteDrain_def Let_def gate_simps word_less_nat_alt)
next
  case False
  let ?u = "if r then w OR DrainNeedsRescheduleBit else w"
  from False have "(d, w') = settled ?u" "ProducerInFlight w = 0"
    using assms by (auto simp: CompleteDrain_def Let_def word_gt_0)
  then show ?thesis using again release
    by (cases "HasBit ?u PendingBit \<or> HasBit ?u DrainNeedsRescheduleBit")
      (auto simp: settled_def Let_def gate_simps split: if_splits)
qed

text \<open>
  Property C19. The packed word implements the abstract gate: opening and completing an admission,
  beginning and ending a drain give the directive of the abstract state machine and change the
  phase, the flags and the producer count as it does, for every word and every ticket, with no
  bit of one field spilling into another and no wrap-around of the 32-bit count.
\<close>
theorem schedule_gate_refines:
  "(case TryBeginAdmission w of (t, w') \<Rightarrow> (decision t, decode w')) = begin_admission (decode w) \<and>
   (case CompleteAdmission t resolution w of (d, t', w') \<Rightarrow> (d, decode w')) =
     complete_admission (decision t) resolution (decode w) \<and>
   (case TryBeginDrain w of (ok, w') \<Rightarrow> (ok, decode w')) = begin_drain (decode w) \<and>
   (case CompleteDrain r w of (d, w') \<Rightarrow> (d, decode w')) = complete_drain r (decode w)"
  by (simp add: decode_TryBeginAdmission decode_CompleteAdmission decode_TryBeginDrain decode_CompleteDrain)

end
