(* ===== verification/NrScheduler.thy ===== *)
theory NrScheduler imports NrQueue NrScheduleGate begin

text \<open>
  The session actor scheduler (\<^verbatim>\<open>NrSessionActorScheduler.cpp\<close>, with \<^verbatim>\<open>NrActorExecutor.cpp\<close>) as
  an interleaving of its threads: any number of producers inside \<^verbatim>\<open>Enqueue\<close>, one worker per shard
  inside \<^verbatim>\<open>WorkerLoop\<close>, and the registry that adds and removes actors. A producer and a worker
  have a program counter, a datatype with one constructor per place between two atomic accesses;
  \<open>Enqueue_step\<close> and \<open>Worker_step\<close> are the code between two such places. The mailboxes and the
  ready queues are the bounded queues of the contract that \<open>NrQueue\<close> proves for the ring.
\<close>

section \<open>Configuration, permits and workers\<close>

record NrSessionActorSchedulerConfig =
  actorWorkerCount :: nat
  actorDrainBudget :: nat
  maxAdmittedRunnableActors :: u64

definition ValidateConfig :: "NrSessionActorSchedulerConfig \<Rightarrow> NrStatus" where
  "ValidateConfig config =
     (if actorWorkerCount config = 0 \<or> actorDrainBudget config = 0 \<or> maxAdmittedRunnableActors config = 0
      then NrStatus_Failure NrErrorCode.InvalidArgument
      else if \<not> NrIsPowerOfTwo (maxAdmittedRunnableActors config)
      then NrStatus_Failure NrErrorCode.InvalidArgument
      else NrStatus_Success)"

record NrRunnableActorPermitCounter =
  permitCapacity :: nat
  permitCount :: nat

definition Permit_TryAcquire :: "NrRunnableActorPermitCounter \<Rightarrow> bool \<times> NrRunnableActorPermitCounter" where
  "Permit_TryAcquire c =
     (if permitCount c < permitCapacity c then (True, c\<lparr>permitCount := permitCount c + 1\<rparr>) else (False, c))"

text \<open>The loop leaves a count of zero alone; the code asserts that this does not happen.\<close>

definition Permit_Release :: "NrRunnableActorPermitCounter \<Rightarrow> NrRunnableActorPermitCounter" where
  "Permit_Release c = (if 0 < permitCount c then c\<lparr>permitCount := permitCount c - 1\<rparr> else c)"

text \<open>
  Where a worker is: waiting for a token, holding one, holding the lease of its actor, inside the
  drain loop before looking at the receive or the send mailbox (with the budget that is left and
  whether this round handled an event), after the drain with what it reported, and after
  \<^verbatim>\<open>CompleteDrain\<close> with the directive.
\<close>

datatype worker_stage =
    Waiting
  | Popped u64
  | RunLeased u64
  | DrainRecv u64 nat
  | DrainSend u64 nat bool
  | DrainEnded u64 bool
  | RunCompleted u64 NrActorScheduleDirective
  | Cleaning u64

record NrWorkerState =
  readyQueue :: "u64 list"
  admittedRunnableActors :: NrRunnableActorPermitCounter
  workerStage :: worker_stage

text \<open>
  Where a producer is: at the checks of \<^verbatim>\<open>Enqueue\<close>, before the lease, holding the lease, the ticket,
  the permit, with a resolution to report to the gate, with a directive to apply, returned.
\<close>

datatype lane = RecvLane | SendLane

datatype 'e producer_stage =
    Calling u64 lane 'e
  | Started u64 lane 'e
  | Leased u64 lane 'e
  | Ticketed u64 lane 'e NrActorAdmissionTicket
  | Permitted u64 lane 'e NrActorAdmissionTicket
  | Resolving u64 NrActorAdmissionTicket NrActorAdmissionResolution NrStatus
  | Directed u64 NrActorScheduleDirective NrStatus
  | Returned NrStatus

datatype actor_presence = Unregistered | Registered | Deregistered

record 'e scheduler =
  schedulerConfig :: NrSessionActorSchedulerConfig
  workers :: "NrWorkerState list"
  producers :: "'e producer_stage list"
  presence :: "u64 \<Rightarrow> actor_presence"
  gates :: "u64 \<Rightarrow> u64"
  mail :: "u64 \<Rightarrow> lane \<Rightarrow> 'e list"
  mailboxCapacity :: nat
  drainFailed :: "u64 \<Rightarrow> bool"
  configured :: bool
  started :: bool
  stopRequested :: bool

section \<open>Lifecycle\<close>

definition EnsureReadyQueueStorage :: "'e scheduler \<Rightarrow> 'e scheduler" where
  "EnsureReadyQueueStorage s =
     s\<lparr>workers := replicate (actorWorkerCount (schedulerConfig s))
        \<lparr>readyQueue = [],
         admittedRunnableActors =
           \<lparr>permitCapacity = unat (maxAdmittedRunnableActors (schedulerConfig s)), permitCount = 0\<rparr>,
         workerStage = Waiting\<rparr>\<rparr>"

definition Scheduler_Configure :: "'e scheduler \<Rightarrow> NrStatus \<times> 'e scheduler" where
  "Scheduler_Configure s =
     (let validationStatus = ValidateConfig (schedulerConfig s) in
      if Failed validationStatus then (validationStatus, s)
      else
        let s = EnsureReadyQueueStorage s in
        if started s then (NrStatus_Failure NrErrorCode.InvalidState, s)
        else (NrStatus_Success, s\<lparr>configured := True, stopRequested := False\<rparr>))"

definition Scheduler_Start :: "'e scheduler \<Rightarrow> NrStatus \<times> 'e scheduler" where
  "Scheduler_Start s =
     (if \<not> configured s \<or> started s then (NrStatus_Failure NrErrorCode.InvalidState, s)
      else (NrStatus_Success, s\<lparr>started := True, stopRequested := False\<rparr>))"

definition Scheduler_RequestStop :: "'e scheduler \<Rightarrow> NrStatus \<times> 'e scheduler" where
  "Scheduler_RequestStop s = (NrStatus_Success, s\<lparr>stopRequested := True, started := False\<rparr>)"

section \<open>Permits and tokens of a shard\<close>

definition ShardIndex :: "u64 \<Rightarrow> 'e scheduler \<Rightarrow> nat" where
  "ShardIndex sessionKey s = (if workers s = [] then 0 else unat sessionKey mod length (workers s))"

definition TryAcquireRunnablePermit :: "nat \<Rightarrow> 'e scheduler \<Rightarrow> bool \<times> 'e scheduler" where
  "TryAcquireRunnablePermit i s =
     (if i < length (workers s) then
        (case Permit_TryAcquire (admittedRunnableActors (workers s ! i)) of (ok, c) \<Rightarrow>
           (ok, s\<lparr>workers := (workers s)[i := (workers s ! i)\<lparr>admittedRunnableActors := c\<rparr>]\<rparr>))
      else (False, s))"

definition ReleaseRunnablePermit :: "nat \<Rightarrow> 'e scheduler \<Rightarrow> 'e scheduler" where
  "ReleaseRunnablePermit i s =
     (if i < length (workers s) then
        s\<lparr>workers := (workers s)[i := (workers s ! i)\<lparr>admittedRunnableActors :=
            Permit_Release (admittedRunnableActors (workers s ! i))\<rparr>]\<rparr>
      else s)"

definition TryPushReadyQueue :: "u64 \<Rightarrow> 'e scheduler \<Rightarrow> NrStatus \<times> 'e scheduler" where
  "TryPushReadyQueue sessionKey s =
     (let i = ShardIndex sessionKey s in
      if length (workers s) \<le> i then (NrStatus_Failure NrErrorCode.InvalidState, s)
      else
        (case spec_push (unat (maxAdmittedRunnableActors (schedulerConfig s))) sessionKey
                (readyQueue (workers s ! i)) of (pushStatus, q) \<Rightarrow>
           (pushStatus, s\<lparr>workers := (workers s)[i := (workers s ! i)\<lparr>readyQueue := q\<rparr>]\<rparr>)))"

definition TryPopReadyQueue :: "nat \<Rightarrow> 'e scheduler \<Rightarrow> u64 option \<times> 'e scheduler" where
  "TryPopReadyQueue i s =
     (if i < length (workers s) then
        (case spec_pop (readyQueue (workers s ! i)) of (popStatus, out, q) \<Rightarrow>
           (out, s\<lparr>workers := (workers s)[i := (workers s ! i)\<lparr>readyQueue := q\<rparr>]\<rparr>))
      else (None, s))"

definition ApplyScheduleDirective ::
    "u64 \<Rightarrow> NrActorScheduleDirective \<Rightarrow> 'e scheduler \<Rightarrow> NrStatus \<times> 'e scheduler" where
  "ApplyScheduleDirective sessionKey directive s =
     (case directive of
        NoAction \<Rightarrow> (NrStatus_Success, s)
      | FinalizationDeferred \<Rightarrow> (NrStatus_Success, s)
      | EnqueueReadyToken \<Rightarrow> TryPushReadyQueue sessionKey s
      | ReleasePermit \<Rightarrow> (NrStatus_Success, ReleaseRunnablePermit (ShardIndex sessionKey s) s))"

text \<open>A lease is granted exactly for an actor that is in the registry.\<close>

definition TryAcquireLease_status :: "u64 \<Rightarrow> 'e scheduler \<Rightarrow> NrStatus" where
  "TryAcquireLease_status sessionKey s =
     (if sessionKey \<noteq> 0 \<and> presence s sessionKey = Registered then NrStatus_Success
      else NrStatus_Failure NrErrorCode.InvalidArgument)"

section \<open>A producer\<close>

text \<open>
  One step of \<^verbatim>\<open>Enqueue\<close>. The loop of \<^verbatim>\<open>BeginAdmission\<close> stays at \<open>Leased\<close> while the gate rejects
  the admission. A returned producer has dropped its lease.
\<close>

fun Enqueue_step :: "'e producer_stage \<Rightarrow> 'e scheduler \<Rightarrow> 'e producer_stage \<times> 'e scheduler" where
  "Enqueue_step (Calling sessionKey l e) s =
     (if sessionKey = 0 then (Returned (NrStatus_Failure NrErrorCode.InvalidArgument), s)
      else if \<not> started s \<or> stopRequested s then (Returned (NrStatus_Failure NrErrorCode.InvalidState), s)
      else (Started sessionKey l e, s))"
| "Enqueue_step (Started sessionKey l e) s =
     (let leaseStatus = TryAcquireLease_status sessionKey s in
      if Failed leaseStatus then (Returned leaseStatus, s) else (Leased sessionKey l e, s))"
| "Enqueue_step (Leased sessionKey l e) s =
     (if started s \<and> \<not> stopRequested s then
        (case TryBeginAdmission (gates s sessionKey) of (ticket, w) \<Rightarrow>
           let s' = s\<lparr>gates := (gates s)(sessionKey := w)\<rparr> in
           if Ticket_Accepted ticket then (Ticketed sessionKey l e ticket, s')
           else (Leased sessionKey l e, s'))
      else (Returned (NrStatus_Failure NrErrorCode.CapacityExceeded), s))"
| "Enqueue_step (Ticketed sessionKey l e ticket) s =
     (if NeedsNewPermit ticket then
        (case TryAcquireRunnablePermit (ShardIndex sessionKey s) s of (ok, s') \<Rightarrow>
           if ok then (Permitted sessionKey l e ticket, s')
           else (Resolving sessionKey ticket CapacityRejected (NrStatus_Failure NrErrorCode.QueueFull), s'))
      else (Permitted sessionKey l e ticket, s))"
| "Enqueue_step (Permitted sessionKey l e ticket) s =
     (case spec_push (mailboxCapacity s) e (mail s sessionKey l) of (enqueueStatus, box) \<Rightarrow>
        (Resolving sessionKey ticket
           (if Succeeded enqueueStatus then MailboxCommitted else MailboxRejected) enqueueStatus,
         s\<lparr>mail := (mail s)(sessionKey := (mail s sessionKey)(l := box))\<rparr>))"
| "Enqueue_step (Resolving sessionKey ticket resolution status) s =
     (case CompleteAdmission ticket resolution (gates s sessionKey) of (directive, ticket', w) \<Rightarrow>
        (if resolution = CapacityRejected then Returned status else Directed sessionKey directive status,
         s\<lparr>gates := (gates s)(sessionKey := w)\<rparr>))"
| "Enqueue_step (Directed sessionKey directive status) s =
     (case ApplyScheduleDirective sessionKey directive s of (directiveStatus, s') \<Rightarrow>
        (Returned (if Failed directiveStatus then directiveStatus else status), s'))"
| "Enqueue_step (Returned status) s = (Returned status, s)"

section \<open>A worker\<close>

text \<open>
  One step of \<^verbatim>\<open>WorkerLoop\<close>, \<^verbatim>\<open>RunReadyActor\<close>, \<^verbatim>\<open>NrActorExecutor::TryRun\<close> and of the drain of the
  actor. \<open>handled\<close> is the outcome of the handler of one event, which is the actor's own: a
  failure ends the drain and closes the actor, so its mail is dropped with it.
\<close>

definition set_worker :: "nat \<Rightarrow> worker_stage \<Rightarrow> 'e scheduler \<Rightarrow> 'e scheduler" where
  "set_worker i st s = s\<lparr>workers := (workers s)[i := (workers s ! i)\<lparr>workerStage := st\<rparr>]\<rparr>"

definition take_mail :: "u64 \<Rightarrow> lane \<Rightarrow> 'e scheduler \<Rightarrow> 'e scheduler" where
  "take_mail k l s = s\<lparr>mail := (mail s)(k := (mail s k)(l := tl (mail s k l)))\<rparr>"

definition fail_drain :: "u64 \<Rightarrow> 'e scheduler \<Rightarrow> 'e scheduler" where
  "fail_drain k s = s\<lparr>drainFailed := (drainFailed s)(k := True)\<rparr>"

fun Run_step :: "worker_stage \<Rightarrow> nat \<Rightarrow> bool \<Rightarrow> 'e scheduler \<Rightarrow> 'e scheduler" where
  "Run_step Waiting i handled s =
     (case TryPopReadyQueue i s of (out, s') \<Rightarrow>
        (case out of None \<Rightarrow> s' | Some sessionKey \<Rightarrow> set_worker i (Popped sessionKey) s'))"
| "Run_step (Popped sessionKey) i handled s =
     (if Failed (TryAcquireLease_status sessionKey s)
      then set_worker i Waiting (ReleaseRunnablePermit (ShardIndex sessionKey s) s)
      else set_worker i (RunLeased sessionKey) s)"
| "Run_step (RunLeased sessionKey) i handled s =
     (case TryBeginDrain (gates s sessionKey) of (begun, w) \<Rightarrow>
        let s' = s\<lparr>gates := (gates s)(sessionKey := w)\<rparr> in
        if begun then set_worker i (DrainRecv sessionKey (actorDrainBudget (schedulerConfig s))) s'
        else set_worker i (Cleaning sessionKey) s')"
| "Run_step (DrainRecv sessionKey left) i handled s =
     (if left = 0 then set_worker i (DrainEnded sessionKey True) s
      else if mail s sessionKey RecvLane = [] then set_worker i (DrainSend sessionKey left False) s
      else if \<not> handled
      then set_worker i (DrainEnded sessionKey False) (fail_drain sessionKey (take_mail sessionKey RecvLane s))
      else set_worker i (DrainSend sessionKey (left - 1) True) (take_mail sessionKey RecvLane s))"
| "Run_step (DrainSend sessionKey left took) i handled s =
     (if left = 0 then set_worker i (DrainEnded sessionKey True) s
      else if mail s sessionKey SendLane = []
      then set_worker i (if took then DrainRecv sessionKey left else DrainEnded sessionKey False) s
      else if \<not> handled
      then set_worker i (DrainEnded sessionKey False) (fail_drain sessionKey (take_mail sessionKey SendLane s))
      else set_worker i (DrainRecv sessionKey (left - 1)) (take_mail sessionKey SendLane s))"
| "Run_step (DrainEnded sessionKey shouldReschedule) i handled s =
     (case CompleteDrain shouldReschedule (gates s sessionKey) of (directive, w) \<Rightarrow>
        set_worker i (RunCompleted sessionKey directive) (s\<lparr>gates := (gates s)(sessionKey := w)\<rparr>))"
| "Run_step (RunCompleted sessionKey directive) i handled s =
     set_worker i (Cleaning sessionKey) (snd (ApplyScheduleDirective sessionKey directive s))"
| "Run_step (Cleaning sessionKey) i handled s = set_worker i Waiting s"

definition Worker_step :: "nat \<Rightarrow> bool \<Rightarrow> 'e scheduler \<Rightarrow> 'e scheduler" where
  "Worker_step i handled s =
     (if i < length (workers s) then Run_step (workerStage (workers s ! i)) i handled s else s)"

section \<open>The threads together\<close>

text \<open>The lease a thread holds on an actor.\<close>

fun producer_lease :: "'e producer_stage \<Rightarrow> u64 option" where
  "producer_lease (Leased k l e) = Some k"
| "producer_lease (Ticketed k l e t) = Some k"
| "producer_lease (Permitted k l e t) = Some k"
| "producer_lease (Resolving k t r st) = Some k"
| "producer_lease (Directed k d st) = Some k"
| "producer_lease st = None"

fun worker_lease :: "worker_stage \<Rightarrow> u64 option" where
  "worker_lease (RunLeased k) = Some k"
| "worker_lease (DrainRecv k left) = Some k"
| "worker_lease (DrainSend k left took) = Some k"
| "worker_lease (DrainEnded k r) = Some k"
| "worker_lease (RunCompleted k d) = Some k"
| "worker_lease (Cleaning k) = Some k"
| "worker_lease st = None"

definition leased :: "u64 \<Rightarrow> 'e scheduler \<Rightarrow> bool" where
  "leased k s \<longleftrightarrow> (\<exists>st \<in> set (producers s). producer_lease st = Some k) \<or>
     (\<exists>w \<in> set (workers s). worker_lease (workerStage w) = Some k)"

text \<open>
  A new actor has a fresh gate and empty mailboxes; session keys are never used again. The
  registry removes an actor only while nobody holds a lease on it. \<open>call\<close> starts the next
  \<^verbatim>\<open>Enqueue\<close> of a producer thread.
\<close>

inductive scheduler_step :: "'e scheduler \<Rightarrow> 'e scheduler \<Rightarrow> bool" where
  call: "p < length (producers s) \<Longrightarrow> producers s ! p = Returned status \<Longrightarrow>
    scheduler_step s (s\<lparr>producers := (producers s)[p := Calling k l e]\<rparr>)"
| produce: "p < length (producers s) \<Longrightarrow> Enqueue_step (producers s ! p) s = (st, s') \<Longrightarrow>
    scheduler_step s (s'\<lparr>producers := (producers s')[p := st]\<rparr>)"
| work: "i < length (workers s) \<Longrightarrow> scheduler_step s (Worker_step i handled s)"
| register: "k \<noteq> 0 \<Longrightarrow> presence s k = Unregistered \<Longrightarrow>
    scheduler_step s (s\<lparr>presence := (presence s)(k := Registered)\<rparr>)"
| deregister: "presence s k = Registered \<Longrightarrow> \<not> leased k s \<Longrightarrow>
    scheduler_step s (s\<lparr>presence := (presence s)(k := Deregistered)\<rparr>)"
| stop: "Scheduler_RequestStop s = (status, s') \<Longrightarrow> scheduler_step s s'"

definition fresh_scheduler :: "NrSessionActorSchedulerConfig \<Rightarrow> nat \<Rightarrow> nat \<Rightarrow> 'e scheduler" where
  "fresh_scheduler config mailboxes threads =
     \<lparr>schedulerConfig = config, workers = [], producers = replicate threads (Returned NrStatus_Success),
      presence = (\<lambda>k. Unregistered), gates = (\<lambda>k. 0), mail = (\<lambda>k l. []), mailboxCapacity = mailboxes,
      drainFailed = (\<lambda>k. False), configured = False, started = False, stopRequested = False\<rparr>"

inductive scheduler_reachable :: "'e scheduler \<Rightarrow> bool" where
  launch: "Scheduler_Configure (fresh_scheduler config mailboxes threads) = (st1, s1) \<Longrightarrow> Succeeded st1 \<Longrightarrow>
    Scheduler_Start s1 = (st2, s) \<Longrightarrow> scheduler_reachable s"
| advance: "scheduler_reachable s \<Longrightarrow> scheduler_step s s' \<Longrightarrow> scheduler_reachable s'"

end
