(* ===== verification/NrSchedulerInv.thy ===== *)
theory NrSchedulerInv imports NrScheduler begin

text \<open>
  The invariants of the scheduler's threads. A gate counts the tickets that are open on it and is
  \<open>Admitting\<close> exactly while one of them reserves a permit (\<open>gates_ok\<close>); an actor has one run token
  exactly while its gate is \<open>Scheduled\<close>, and one worker drains it exactly while the gate is
  \<open>Draining\<close> (\<open>tokens_ok\<close>); a shard's permit count is the number of its runnable actors
  (\<open>permits_ok\<close>); mail that is not announced yet keeps the gate from going idle (\<open>mail_ok\<close>).
\<close>

section \<open>Sums over threads\<close>

lemma sum_list_update_nat:
  fixes f :: "'a \<Rightarrow> nat"
  shows "p < length xs \<Longrightarrow> sum_list (map f (xs[p := x])) = sum_list (map f xs) - f (xs ! p) + f x"
proof (induction xs arbitrary: p)
  case (Cons a xs)
  show ?case
  proof (cases p)
    case (Suc q)
    have "f (xs ! q) \<le> sum_list (map f xs)" using Cons.prems Suc by (auto intro!: member_le_sum_list)
    then show ?thesis using Cons Suc by simp
  qed simp
qed simp

text \<open>What a thread contributes: an open ticket, a run token, a drain, a permit.\<close>

fun open_ticket :: "'e producer_stage \<Rightarrow> (u64 \<times> NrActorAdmissionDecision) option" where
  "open_ticket (Ticketed k l e t) = Some (k, decision t)"
| "open_ticket (Permitted k l e t) = Some (k, decision t)"
| "open_ticket (Resolving k t r st) = Some (k, decision t)"
| "open_ticket st = None"

fun producer_token :: "'e producer_stage \<Rightarrow> u64 option" where
  "producer_token (Directed k EnqueueReadyToken st) = Some k"
| "producer_token st = None"

fun worker_token :: "worker_stage \<Rightarrow> u64 option" where
  "worker_token (Popped k) = Some k"
| "worker_token (RunLeased k) = Some k"
| "worker_token (RunCompleted k EnqueueReadyToken) = Some k"
| "worker_token st = None"

fun worker_drain :: "worker_stage \<Rightarrow> u64 option" where
  "worker_drain (DrainRecv k left) = Some k"
| "worker_drain (DrainSend k left took) = Some k"
| "worker_drain (DrainEnded k r) = Some k"
| "worker_drain st = None"

definition firsts :: "'e scheduler \<Rightarrow> u64 \<Rightarrow> nat" where
  "firsts s k = count_of (\<lambda>st. open_ticket st = Some (k, RequiresNewPermit)) (producers s)"

definition joins :: "'e scheduler \<Rightarrow> u64 \<Rightarrow> nat" where
  "joins s k = count_of (\<lambda>st. open_ticket st = Some (k, UsesExistingPermit)) (producers s)"

definition tokens :: "'e scheduler \<Rightarrow> u64 \<Rightarrow> nat" where
  "tokens s k =
     count_of (\<lambda>st. producer_token st = Some k) (producers s) +
     count_of (\<lambda>w. worker_token (workerStage w) = Some k) (workers s) +
     sum_list (map (\<lambda>w. count_list (readyQueue w) k) (workers s))"

definition drains :: "'e scheduler \<Rightarrow> u64 \<Rightarrow> nat" where
  "drains s k = count_of (\<lambda>w. worker_drain (workerStage w) = Some k) (workers s)"

abbreviation phase :: "'e scheduler \<Rightarrow> u64 \<Rightarrow> NrPackedPhase" where
  "phase s k \<equiv> PackedPhase (gates s k)"

abbreviation inflight :: "'e scheduler \<Rightarrow> u64 \<Rightarrow> nat" where
  "inflight s k \<equiv> unat (ProducerInFlight (gates s k))"

definition flagged :: "u64 \<Rightarrow> bool" where
  "flagged w \<longleftrightarrow> HasBit w PendingBit \<or> HasBit w DrainNeedsRescheduleBit"

section \<open>The gate\<close>

definition gate_shape :: "u64 \<Rightarrow> bool" where
  "gate_shape w \<longleftrightarrow>
     (case PackedPhase w of
        Idle \<Rightarrow> ProducerInFlight w = 0 \<and> \<not> flagged w
      | Admitting \<Rightarrow> ProducerInFlight w = 1 \<and> \<not> flagged w
      | Scheduled \<Rightarrow> \<not> flagged w
      | Draining \<Rightarrow> True
      | DrainCompleting \<Rightarrow> ProducerInFlight w \<noteq> 0
      | UnnamedPhase n \<Rightarrow> False)"

fun stage_ok :: "'e producer_stage \<Rightarrow> bool" where
  "stage_ok (Resolving k t r st) \<longleftrightarrow>
     decision t = RequiresNewPermit \<or> decision t = UsesExistingPermit \<and> r \<noteq> CapacityRejected"
| "stage_ok (Ticketed k l e t) \<longleftrightarrow> decision t \<noteq> Rejected"
| "stage_ok (Permitted k l e t) \<longleftrightarrow> decision t \<noteq> Rejected"
| "stage_ok st \<longleftrightarrow> True"

definition gates_ok :: "'e scheduler \<Rightarrow> bool" where
  "gates_ok s \<longleftrightarrow> (\<forall>st \<in> set (producers s). stage_ok st) \<and>
     (\<forall>k. gate_shape (gates s k) \<and> inflight s k = firsts s k + joins s k \<and>
       firsts s k = of_bool (phase s k = Admitting))"

text \<open>An open ticket tells the phase.\<close>

lemma first_open:
  assumes "gates_ok s" "p < length (producers s)" "open_ticket (producers s ! p) = Some (k, RequiresNewPermit)"
  shows "phase s k = Admitting" "inflight s k = 1" "firsts s k = 1" "joins s k = 0"
proof -
  have "0 < firsts s k" unfolding firsts_def by (rule count_of_pos) (use assms in auto)
  then show ph: "phase s k = Admitting" using assms(1) by (auto simp: gates_ok_def split: if_splits)
  then show "inflight s k = 1" "firsts s k = 1" "joins s k = 0"
    using assms(1) unfolding gates_ok_def gate_shape_def
    by (auto simp: unat_count dest!: spec [of _ k])
qed

lemma joined_open:
  assumes "gates_ok s" "p < length (producers s)" "open_ticket (producers s ! p) = Some (k, UsesExistingPermit)"
  shows "phase s k \<noteq> Admitting" "phase s k \<noteq> Idle" "0 < inflight s k" "0 < joins s k" "firsts s k = 0"
proof -
  show j: "0 < joins s k" unfolding joins_def by (rule count_of_pos) (use assms in auto)
  then show i: "0 < inflight s k" using assms(1) by (auto simp: gates_ok_def)
  show a: "phase s k \<noteq> Admitting"
  proof
    assume "phase s k = Admitting"
    then have "firsts s k = 1" "inflight s k = 1" "inflight s k = firsts s k + joins s k"
      using assms(1) unfolding gates_ok_def gate_shape_def by (auto simp: unat_count dest!: spec [of _ k])
    then show False using j by simp
  qed
  then show "firsts s k = 0" using assms(1) by (simp add: gates_ok_def)
  show "phase s k \<noteq> Idle" using assms(1) i unfolding gates_ok_def gate_shape_def
    by (auto simp: dest!: spec [of _ k])
qed

section \<open>What a step leaves alone\<close>

lemma directive_frame:
  assumes "ApplyScheduleDirective k d s = (st, s')"
  shows "producers s' = producers s" "gates s' = gates s" "presence s' = presence s" "mail s' = mail s"
    "drainFailed s' = drainFailed s" "schedulerConfig s' = schedulerConfig s"
    "mailboxCapacity s' = mailboxCapacity s" "started s' = started s" "stopRequested s' = stopRequested s"
    "length (workers s') = length (workers s)" "map workerStage (workers s') = map workerStage (workers s)"
  using assms
  by (auto simp: ApplyScheduleDirective_def TryPushReadyQueue_def ReleaseRunnablePermit_def Let_def map_update
      list_update_same_conv intro!: nth_equalityI split: NrActorScheduleDirective.splits if_splits prod.splits)
    (simp_all add: nth_list_update)

lemma permit_frame:
  assumes "TryAcquireRunnablePermit i s = (ok, s')"
  shows "producers s' = producers s" "gates s' = gates s" "presence s' = presence s" "mail s' = mail s"
    "drainFailed s' = drainFailed s" "schedulerConfig s' = schedulerConfig s"
    "mailboxCapacity s' = mailboxCapacity s" "started s' = started s" "stopRequested s' = stopRequested s"
    "length (workers s') = length (workers s)" "map workerStage (workers s') = map workerStage (workers s)"
    "map readyQueue (workers s') = map readyQueue (workers s)"
  using assms
  by (auto simp: TryAcquireRunnablePermit_def Let_def map_update list_update_same_conv
      intro!: nth_equalityI split: if_splits prod.splits)
    (simp_all add: nth_list_update)

lemma Enqueue_frame:
  assumes "Enqueue_step st s = (st', s')"
  shows "producers s' = producers s \<and> presence s' = presence s \<and> drainFailed s' = drainFailed s \<and>
    schedulerConfig s' = schedulerConfig s \<and> started s' = started s \<and> stopRequested s' = stopRequested s \<and>
    length (workers s') = length (workers s) \<and> map workerStage (workers s') = map workerStage (workers s)"
  using assms
  by (cases "(st, s)" rule: Enqueue_step.cases)
    (auto simp: Let_def directive_frame permit_frame split: if_splits prod.splits)

section \<open>The gate invariant is kept\<close>

lemma gates_ok_update:
  assumes "gates_ok s" "p < length (producers s)"
    and "producers s' = (producers s)[p := st']" "gates s' = (gates s)(k := w)" "stage_ok st'"
    and "\<And>j d. open_ticket (producers s ! p) = Some (j, d) \<Longrightarrow> j = k"
    and "\<And>j d. open_ticket st' = Some (j, d) \<Longrightarrow> j = k"
    and "gate_shape w" "unat (ProducerInFlight w) = firsts s' k + joins s' k"
    and "firsts s' k = of_bool (PackedPhase w = Admitting)"
  shows "gates_ok s'"
proof -
  have "firsts s' j = firsts s j \<and> joins s' j = joins s j" if "j \<noteq> k" for j
    using assms(2,3) assms(6,7) [of j] that
    by (auto simp: firsts_def joins_def count_of_update)
  moreover have "\<forall>x \<in> set (producers s'). stage_ok x"
    using assms(1,3,5) by (auto simp: gates_ok_def dest: set_update_subset_insert [THEN subsetD])
  ultimately show ?thesis using assms(1,4,8-10) by (simp add: gates_ok_def)
qed

lemma gates_ok_same:
  assumes "gates_ok s" "p < length (producers s)"
    and "producers s' = (producers s)[p := st']" "gates s' = gates s" "stage_ok st'"
    and "open_ticket st' = open_ticket (producers s ! p)"
  shows "gates_ok s'"
proof -
  have "firsts s' j = firsts s j \<and> joins s' j = joins s j" for j
    using assms(2,3,6) by (auto simp: firsts_def joins_def count_of_update)
  moreover have "\<forall>x \<in> set (producers s'). stage_ok x"
    using assms(1,3,5) by (auto simp: gates_ok_def dest: set_update_subset_insert [THEN subsetD])
  ultimately show ?thesis using assms(1,4) by (simp add: gates_ok_def)
qed

text \<open>The step of a producer with its new stage written back.\<close>

definition produced :: "nat \<Rightarrow> 'e scheduler \<Rightarrow> 'e scheduler" where
  "produced p s = (case Enqueue_step (producers s ! p) s of (st, s') \<Rightarrow>
     s'\<lparr>producers := (producers s')[p := st]\<rparr>)"

lemma stage_ok_nth: "gates_ok s \<Longrightarrow> p < length (producers s) \<Longrightarrow> stage_ok (producers s ! p)"
  by (simp add: gates_ok_def)

lemma gates_ok_begin:
  assumes ok: "gates_ok s" and p: "p < length (producers s)" and st: "producers s ! p = Leased k l e"
  shows "gates_ok (produced p s)"
proof (cases "started s \<and> \<not> stopRequested s")
  case False
  then have r: "produced p s = s\<lparr>producers := (producers s)[p := Returned (NrStatus_Failure NrErrorCode.CapacityExceeded)]\<rparr>"
    using st by (auto simp: produced_def)
  show ?thesis unfolding r
    by (rule gates_ok_same [OF ok p, where st' = "Returned (NrStatus_Failure NrErrorCode.CapacityExceeded)"])
      (simp_all add: st)
next
  case True
  obtain t w where t: "TryBeginAdmission (gates s k) = (t, w)" by fastforce
  let ?st = "if Ticket_Accepted t then Ticketed k l e t else Leased k l e"
  have r: "produced p s = s\<lparr>gates := (gates s)(k := w), producers := (producers s)[p := ?st]\<rparr>"
    using st t True by (simp add: produced_def Let_def)
  have g: "gate_shape (gates s k)" "inflight s k = firsts s k + joins s k" "firsts s k = of_bool (phase s k = Admitting)"
    using ok by (auto simp: gates_ok_def)
  have "gates_ok (s\<lparr>gates := (gates s)(k := w), producers := (producers s)[p := ?st]\<rparr>)" using t
  proof (cases rule: TryBeginAdmission_cases)
    case rejected
    then show ?thesis
      by (intro gates_ok_same [OF ok p, where st' = ?st]) (simp_all add: st Ticket_Accepted_def)
  next
    case first
    have z: "firsts s k = 0" "joins s k = 0" using g first by (auto simp: gate_shape_def)
    show ?thesis
      by (rule gates_ok_update [OF ok p, where st' = ?st and k = k and w = w])
        (use first g z st p in \<open>auto simp: Ticket_Accepted_def gate_shape_def flagged_def firsts_def joins_def
          count_of_update unat_count\<close>)
  next
    case joined
    show ?thesis
      by (rule gates_ok_update [OF ok p, where st' = ?st and k = k and w = w])
        (use joined g st p in \<open>auto simp: Ticket_Accepted_def gate_shape_def flagged_def firsts_def joins_def
          count_of_update unat_count split: NrPackedPhase.splits\<close>)
  qed
  then show ?thesis using r by simp
qed

lemma gates_ok_resolve:
  assumes ok: "gates_ok s" and p: "p < length (producers s)" and st: "producers s ! p = Resolving k t r status"
  shows "gates_ok (produced p s)"
proof -
  obtain d t' w where c: "CompleteAdmission t r (gates s k) = (d, t', w)" by (metis prod_cases3)
  let ?st = "if r = CapacityRejected then Returned status else Directed k d status"
  have e: "produced p s = s\<lparr>gates := (gates s)(k := w), producers := (producers s)[p := ?st]\<rparr>"
    using st c by (simp add: produced_def)
  have g: "gate_shape (gates s k)" "inflight s k = firsts s k + joins s k" "firsts s k = of_bool (phase s k = Admitting)"
    using ok by (auto simp: gates_ok_def)
  have so: "decision t = RequiresNewPermit \<or> decision t = UsesExistingPermit \<and> r \<noteq> CapacityRejected"
    using stage_ok_nth [OF ok p] st by simp
  have "gates_ok (s\<lparr>gates := (gates s)(k := w), producers := (producers s)[p := ?st]\<rparr>)"
  proof (cases "decision t = RequiresNewPermit")
    case True
    note o = first_open [OF ok p, of k, unfolded st open_ticket.simps True, OF refl]
    note res = first_admission_result [OF c True o(1,2)]
    show ?thesis
      by (rule gates_ok_update [OF ok p, where st' = ?st and k = k and w = w])
        (use res o st p True in \<open>auto simp: gate_shape_def flagged_def firsts_def joins_def count_of_update
          unat_count split: if_splits\<close>)
  next
    case False
    with so have u: "decision t = UsesExistingPermit" "r \<noteq> CapacityRejected" by auto
    note o = joined_open [OF ok p, of k, unfolded st open_ticket.simps u(1), OF refl]
    show ?thesis using c u o(2,1,3)
    proof (cases rule: joined_admission_cases)
      case kept
      show ?thesis
        by (rule gates_ok_update [OF ok p, where st' = ?st and k = k and w = w])
          (use kept o g st p u in \<open>auto simp: gate_shape_def flagged_def firsts_def joins_def count_of_update
            unat_count split: NrPackedPhase.splits\<close>)
    next
      case again
      show ?thesis
        by (rule gates_ok_update [OF ok p, where st' = ?st and k = k and w = w])
          (use again o g st p u in \<open>auto simp: gate_shape_def flagged_def firsts_def joins_def count_of_update unat_count\<close>)
    next
      case release
      show ?thesis
        by (rule gates_ok_update [OF ok p, where st' = ?st and k = k and w = w])
          (use release o g st p u in \<open>auto simp: gate_shape_def flagged_def firsts_def joins_def count_of_update unat_count\<close>)
    qed
  qed
  then show ?thesis using e by simp
qed

lemma not_rejected: "d \<noteq> Rejected \<longleftrightarrow> d = RequiresNewPermit \<or> d = UsesExistingPermit"
  by (cases d) auto

lemma gates_ok_produced:
  assumes ok: "gates_ok s" and p: "p < length (producers s)"
  shows "gates_ok (produced p s)"
proof -
  obtain st' s' where e: "Enqueue_step (producers s ! p) s = (st', s')" by fastforce
  have r: "produced p s = s'\<lparr>producers := (producers s)[p := st']\<rparr>"
    using e Enqueue_frame [OF e] by (simp add: produced_def)
  have so: "stage_ok (producers s ! p)" using stage_ok_nth [OF ok p] .
  consider (leased) k l e where "producers s ! p = Leased k l e"
    | (resolving) k t r status where "producers s ! p = Resolving k t r status"
    | (other) "gates s' = gates s" "stage_ok st'" "open_ticket st' = open_ticket (producers s ! p)"
    using e so
    by (cases "producers s ! p")
      (auto simp: Let_def NeedsNewPermit_def directive_frame permit_frame not_rejected split: if_splits prod.splits,
       metis open_ticket.simps(8))
  then show ?thesis
  proof cases
    case leased then show ?thesis by (rule gates_ok_begin [OF ok p])
  next
    case resolving then show ?thesis by (rule gates_ok_resolve [OF ok p])
  next
    case other
    then show ?thesis unfolding r by (intro gates_ok_same [OF ok p, where st' = st']) auto
  qed
qed

text \<open>A worker moves the phase between \<open>Scheduled\<close>, \<open>Draining\<close> and what follows a drain only.\<close>

lemma gates_ok_worker:
  assumes "gates_ok s" and "producers s' = producers s" "gates s' = (gates s)(k := w)"
    and "gate_shape w" "ProducerInFlight w = ProducerInFlight (gates s k)"
    and "phase s k \<noteq> Admitting" "PackedPhase w \<noteq> Admitting"
  shows "gates_ok s'"
proof -
  have "firsts s' j = firsts s j" "joins s' j = joins s j" for j
    by (simp_all add: firsts_def joins_def assms(2))
  then show ?thesis using assms by (simp add: gates_ok_def)
qed

section \<open>Tokens and drains\<close>

definition tokens_ok :: "'e scheduler \<Rightarrow> bool" where
  "tokens_ok s \<longleftrightarrow> (\<forall>k. tokens s k \<le> 1 \<and>
     (presence s k \<noteq> Deregistered \<longrightarrow> tokens s k = of_bool (phase s k = Scheduled)) \<and>
     drains s k = of_bool (phase s k = Draining) \<and>
     (presence s k = Unregistered \<longrightarrow> phase s k = Idle))"

text \<open>Leases are held on registered actors only; zero is not a session key.\<close>

definition leases_ok :: "'e scheduler \<Rightarrow> bool" where
  "leases_ok s \<longleftrightarrow> presence s 0 = Unregistered \<and> (\<forall>k. leased k s \<longrightarrow> presence s k = Registered)"

lemma tokens_producer:
  assumes "p < length (producers s)" "producers s' = (producers s)[p := st']"
    and "map workerStage (workers s') = map workerStage (workers s)"
    and "map readyQueue (workers s') = map readyQueue (workers s)"
  shows "tokens s' k + of_bool (producer_token (producers s ! p) = Some k) =
    tokens s k + of_bool (producer_token st' = Some k)"
proof -
  have "count_of (\<lambda>w. worker_token (workerStage w) = Some k) (workers s') =
      count_of (\<lambda>w. worker_token (workerStage w) = Some k) (workers s)"
    using arg_cong [OF assms(3), of "count_of (\<lambda>w. worker_token w = Some k)"]
    by (simp add: count_of_def filter_map comp_def)
  moreover have "map (\<lambda>w. count_list (readyQueue w) k) (workers s') =
      map (\<lambda>w. count_list (readyQueue w) k) (workers s)"
    using arg_cong [OF assms(4), of "map (\<lambda>q. count_list q k)"] by (simp add: comp_def)
  moreover have "0 < count_of (\<lambda>st. producer_token st = Some k) (producers s)"
    if "producer_token (producers s ! p) = Some k"
    by (rule count_of_pos [OF assms(1)]) (rule that)
  ultimately show ?thesis using assms(1,2)
    by (auto simp: tokens_def count_of_update)
qed

lemma drains_stages:
  assumes "map workerStage (workers s') = map workerStage (workers s)"
  shows "drains s' k = drains s k"
  using arg_cong [OF assms, of "count_of (\<lambda>w. worker_drain w = Some k)"]
  by (simp add: drains_def count_of_def filter_map comp_def)

text \<open>The token a worker's shard contributes is replaced as a whole.\<close>

lemma tokens_worker:
  assumes "i < length (workers s)" "producers s' = producers s" "workers s' = (workers s)[i := w]"
  shows "tokens s' k + of_bool (worker_token (workerStage (workers s ! i)) = Some k) + count_list (readyQueue (workers s ! i)) k =
    tokens s k + of_bool (worker_token (workerStage w) = Some k) + count_list (readyQueue w) k"
proof -
  have "0 < count_of (\<lambda>w. worker_token (workerStage w) = Some k) (workers s)"
    if "worker_token (workerStage (workers s ! i)) = Some k"
    by (rule count_of_pos [OF assms(1)]) (rule that)
  moreover have "count_list (readyQueue (workers s ! i)) k \<le> sum_list (map (\<lambda>w. count_list (readyQueue w) k) (workers s))"
    using assms(1) by (auto intro!: member_le_sum_list)
  ultimately show ?thesis using assms
    by (auto simp: tokens_def count_of_update sum_list_update_nat)
qed

lemma drains_worker:
  assumes "i < length (workers s)" "workers s' = (workers s)[i := w]"
  shows "drains s' k + of_bool (worker_drain (workerStage (workers s ! i)) = Some k) =
    drains s k + of_bool (worker_drain (workerStage w) = Some k)"
proof -
  have "0 < count_of (\<lambda>w. worker_drain (workerStage w) = Some k) (workers s)"
    if "worker_drain (workerStage (workers s ! i)) = Some k"
    by (rule count_of_pos [OF assms(1)]) (rule that)
  then show ?thesis using assms by (auto simp: drains_def count_of_update)
qed

section \<open>Permits\<close>

fun producer_permit :: "'e producer_stage \<Rightarrow> u64 option" where
  "producer_permit (Permitted k l e t) = (if decision t = RequiresNewPermit then Some k else None)"
| "producer_permit (Resolving k t r st) =
     (if decision t = RequiresNewPermit \<and> r \<noteq> CapacityRejected then Some k else None)"
| "producer_permit (Directed k EnqueueReadyToken st) = Some k"
| "producer_permit (Directed k ReleasePermit st) = Some k"
| "producer_permit st = None"

fun worker_permit :: "worker_stage \<Rightarrow> u64 option" where
  "worker_permit (Popped k) = Some k"
| "worker_permit (RunLeased k) = Some k"
| "worker_permit (DrainRecv k left) = Some k"
| "worker_permit (DrainSend k left took) = Some k"
| "worker_permit (DrainEnded k r) = Some k"
| "worker_permit (RunCompleted k EnqueueReadyToken) = Some k"
| "worker_permit (RunCompleted k ReleasePermit) = Some k"
| "worker_permit st = None"

fun worker_key :: "worker_stage \<Rightarrow> u64 option" where
  "worker_key Waiting = None"
| "worker_key (Popped k) = Some k"
| "worker_key (RunLeased k) = Some k"
| "worker_key (DrainRecv k left) = Some k"
| "worker_key (DrainSend k left took) = Some k"
| "worker_key (DrainEnded k r) = Some k"
| "worker_key (RunCompleted k d) = Some k"
| "worker_key (Cleaning k) = Some k"

text \<open>
  The runnable actors of a shard: those whose permit a producer reserves or is about to pass on,
  those in the ready queue, the one the worker runs, and those that wait for a last producer.
\<close>

definition in_shard :: "'e scheduler \<Rightarrow> nat \<Rightarrow> u64 option \<Rightarrow> bool" where
  "in_shard s i x \<longleftrightarrow> (case x of None \<Rightarrow> False | Some k \<Rightarrow> ShardIndex k s = i)"

definition producer_permits :: "'e scheduler \<Rightarrow> nat \<Rightarrow> nat" where
  "producer_permits s i = count_of (\<lambda>st. in_shard s i (producer_permit st)) (producers s)"

definition deferred :: "'e scheduler \<Rightarrow> nat \<Rightarrow> nat" where
  "deferred s i = card {k. ShardIndex k s = i \<and> phase s k = DrainCompleting}"

definition runnable :: "'e scheduler \<Rightarrow> nat \<Rightarrow> nat" where
  "runnable s i = producer_permits s i + length (readyQueue (workers s ! i)) +
     of_bool (worker_permit (workerStage (workers s ! i)) \<noteq> None) + deferred s i"

definition permits_ok :: "'e scheduler \<Rightarrow> bool" where
  "permits_ok s \<longleftrightarrow> workers s \<noteq> [] \<and>
     (\<forall>i < length (workers s).
        permitCapacity (admittedRunnableActors (workers s ! i)) = unat (maxAdmittedRunnableActors (schedulerConfig s)) \<and>
        permitCount (admittedRunnableActors (workers s ! i)) = runnable s i \<and>
        runnable s i \<le> unat (maxAdmittedRunnableActors (schedulerConfig s)) \<and>
        (\<forall>k \<in> set (readyQueue (workers s ! i)). ShardIndex k s = i) \<and>
        (\<forall>k. worker_key (workerStage (workers s ! i)) = Some k \<longrightarrow> ShardIndex k s = i))"

lemma permits_ok_workers: "permits_ok s \<Longrightarrow> workers s \<noteq> []"
  unfolding permits_ok_def by (rule conjunct1)

lemma permits_okD:
  assumes "permits_ok s" "i < length (workers s)"
  shows "permitCapacity (admittedRunnableActors (workers s ! i)) = unat (maxAdmittedRunnableActors (schedulerConfig s))"
    and "permitCount (admittedRunnableActors (workers s ! i)) = runnable s i"
    and "runnable s i \<le> unat (maxAdmittedRunnableActors (schedulerConfig s))"
    and "\<And>k. k \<in> set (readyQueue (workers s ! i)) \<Longrightarrow> ShardIndex k s = i"
    and "\<And>k. worker_key (workerStage (workers s ! i)) = Some k \<Longrightarrow> ShardIndex k s = i"
  using assms unfolding permits_ok_def by blast+

lemma in_shard_simps [simp]:
  "\<not> in_shard s i None" "in_shard s i (Some k) \<longleftrightarrow> ShardIndex k s = i"
  by (simp_all add: in_shard_def)

lemma ShardIndex_cong: "length (workers s') = length (workers s) \<Longrightarrow> ShardIndex k s' = ShardIndex k s"
  unfolding ShardIndex_def by (cases "workers s"; cases "workers s'") auto

lemma in_shard_cong: "length (workers s') = length (workers s) \<Longrightarrow> in_shard s' i x = in_shard s i x"
  by (cases x) (simp_all add: ShardIndex_cong [of s' s])

lemma ShardIndex_less: "workers s \<noteq> [] \<Longrightarrow> ShardIndex k s < length (workers s)"
  by (simp add: ShardIndex_def)

lemma producer_permits_update:
  assumes "p < length (producers s)" "producers s' = (producers s)[p := st']"
    "length (workers s') = length (workers s)"
  shows "producer_permits s' i + of_bool (in_shard s i (producer_permit (producers s ! p))) =
    producer_permits s i + of_bool (in_shard s i (producer_permit st'))"
proof -
  have "0 < count_of (\<lambda>st. in_shard s i (producer_permit st)) (producers s)"
    if "in_shard s i (producer_permit (producers s ! p))"
    by (rule count_of_pos [OF assms(1)]) (rule that)
  then show ?thesis using assms(1,2)
    by (auto simp: producer_permits_def in_shard_cong [OF assms(3)] count_of_update)
qed

lemma producer_permits_same:
  "producers s' = producers s \<Longrightarrow> length (workers s') = length (workers s) \<Longrightarrow>
    producer_permits s' i = producer_permits s i"
  by (simp add: producer_permits_def in_shard_cong [of s' s])

lemma deferred_update:
  assumes "gates s' = (gates s)(k := w)" "length (workers s') = length (workers s)"
  shows "deferred s' i + of_bool (ShardIndex k s = i \<and> phase s k = DrainCompleting) =
    deferred s i + of_bool (ShardIndex k s = i \<and> PackedPhase w = DrainCompleting)"
proof -
  let ?A = "{j. ShardIndex j s = i \<and> phase s j = DrainCompleting}"
  have "{j. ShardIndex j s' = i \<and> phase s' j = DrainCompleting} =
      (if ShardIndex k s = i \<and> PackedPhase w = DrainCompleting then insert k ?A else ?A - {k})"
    using assms(1) ShardIndex_cong [OF assms(2)] by (auto split: if_splits)
  moreover have "card ?A > 0" if "k \<in> ?A" using that by (auto simp: card_gt_0_iff)
  ultimately show ?thesis
    by (auto simp: deferred_def card_insert_if card_Diff_singleton_if)
qed

lemma deferred_same:
  "gates s' = gates s \<Longrightarrow> length (workers s') = length (workers s) \<Longrightarrow> deferred s' i = deferred s i"
  by (simp add: deferred_def ShardIndex_cong [of s' s])

section \<open>The steps of a producer\<close>

definition sched_inv :: "'e scheduler \<Rightarrow> bool" where
  "sched_inv s \<longleftrightarrow> gates_ok s \<and> leases_ok s \<and> tokens_ok s \<and> permits_ok s"

lemma tokens_ok_at:
  assumes "tokens_ok s" "gates s' = (gates s)(k := w)" "presence s' = presence s"
    and "presence s k = Registered"
    and "\<And>j. j \<noteq> k \<Longrightarrow> tokens s' j = tokens s j" "\<And>j. j \<noteq> k \<Longrightarrow> drains s' j = drains s j"
    and "tokens s' k = of_bool (PackedPhase w = Scheduled)" "drains s' k = of_bool (PackedPhase w = Draining)"
  shows "tokens_ok s'"
  using assms unfolding tokens_ok_def by auto

lemma tokens_ok_same:
  assumes "tokens_ok s" "gates s' = gates s" "presence s' = presence s"
    and "\<And>j. tokens s' j = tokens s j" "\<And>j. drains s' j = drains s j"
  shows "tokens_ok s'"
  using assms unfolding tokens_ok_def by auto

lemma registered_lease:
  assumes "leases_ok s" "p < length (producers s)" "producer_lease (producers s ! p) = Some k"
  shows "presence s k = Registered"
  using assms unfolding leases_ok_def leased_def by (meson nth_mem)

lemma leases_ok_produced:
  assumes ok: "leases_ok s" and p: "p < length (producers s)"
  shows "leases_ok (produced p s)"
proof -
  obtain st' s' where e: "Enqueue_step (producers s ! p) s = (st', s')" by fastforce
  note fr = Enqueue_frame [OF e]
  have r: "produced p s = s'\<lparr>producers := (producers s)[p := st']\<rparr>"
    using e fr by (simp add: produced_def)
  have new: "presence s k = Registered" if "producer_lease st' = Some k" for k
  proof -
    define st where "st = producers s ! p"
    have "producer_lease st = Some k \<or> presence s k = Registered"
      using e [folded st_def] that by (cases st)
        (auto simp: Let_def TryAcquireLease_status_def split: if_splits prod.splits)
    then show ?thesis using registered_lease [OF ok p] by (auto simp: st_def)
  qed
  have w: "\<exists>w \<in> set (workers s). worker_lease (workerStage w) = Some k"
    if "w \<in> set (workers s')" "worker_lease (workerStage w) = Some k" for w k
  proof -
    have "workerStage w \<in> set (map workerStage (workers s))"
      using that(1) fr by (metis image_eqI set_map)
    then show ?thesis using that(2) by auto
  qed
  show ?thesis
    unfolding leases_ok_def
  proof (intro conjI allI impI)
    show "presence (produced p s) 0 = Unregistered" using ok fr by (simp add: r leases_ok_def)
    fix k assume "leased k (produced p s)"
    then have "(\<exists>st \<in> set ((producers s)[p := st']). producer_lease st = Some k) \<or>
        (\<exists>w \<in> set (workers s'). worker_lease (workerStage w) = Some k)"
      by (simp add: r leased_def)
    then have "producer_lease st' = Some k \<or> leased k s"
      using w by (auto simp: leased_def dest: set_update_subset_insert [THEN subsetD])
    then have "presence s k = Registered" using new ok by (auto simp: leases_ok_def)
    then show "presence (produced p s) k = Registered" using fr by (simp add: r)
  qed
qed

text \<open>A directive of a producer or of a worker, with the permit that stands behind it.\<close>

lemma push_ready:
  assumes "workers s \<noteq> []" "length (readyQueue (workers s ! ShardIndex k s)) < unat (maxAdmittedRunnableActors (schedulerConfig s))"
  shows "ApplyScheduleDirective k EnqueueReadyToken s =
    (NrStatus_Success, s\<lparr>workers := (workers s)[ShardIndex k s := (workers s ! ShardIndex k s)
        \<lparr>readyQueue := readyQueue (workers s ! ShardIndex k s) @ [k]\<rparr>]\<rparr>)"
  using assms ShardIndex_less [of s k]
  by (simp add: ApplyScheduleDirective_def TryPushReadyQueue_def Let_def spec_push_def not_le)

lemma release_permit:
  assumes "workers s \<noteq> []"
  shows "ApplyScheduleDirective k ReleasePermit s =
    (NrStatus_Success, s\<lparr>workers := (workers s)[ShardIndex k s := (workers s ! ShardIndex k s)
        \<lparr>admittedRunnableActors := Permit_Release (admittedRunnableActors (workers s ! ShardIndex k s))\<rparr>]\<rparr>)"
  using ShardIndex_less [OF assms, of k]
  by (simp add: ApplyScheduleDirective_def ReleaseRunnablePermit_def)

lemma Permit_Release_fields [simp]:
  "permitCapacity (Permit_Release c) = permitCapacity c"
  "permitCount (Permit_Release c) = permitCount c - 1"
  by (simp_all add: Permit_Release_def)

lemma permit_holder:
  assumes "permits_ok s" "p < length (producers s)" "producer_permit (producers s ! p) = Some k"
  shows "workers s \<noteq> []" "ShardIndex k s < length (workers s)"
    and "0 < permitCount (admittedRunnableActors (workers s ! ShardIndex k s))"
    and "length (readyQueue (workers s ! ShardIndex k s)) < unat (maxAdmittedRunnableActors (schedulerConfig s))"
proof -
  show w: "workers s \<noteq> []" using assms(1) by (simp add: permits_ok_def)
  show l: "ShardIndex k s < length (workers s)" using ShardIndex_less [OF w] .
  have "0 < producer_permits s (ShardIndex k s)"
    unfolding producer_permits_def by (rule count_of_pos [OF assms(2)]) (simp add: assms(3))
  then have "length (readyQueue (workers s ! ShardIndex k s)) < runnable s (ShardIndex k s)"
    by (simp add: runnable_def)
  then show "0 < permitCount (admittedRunnableActors (workers s ! ShardIndex k s))"
      "length (readyQueue (workers s ! ShardIndex k s)) < unat (maxAdmittedRunnableActors (schedulerConfig s))"
    using permits_okD(2,3) [OF assms(1) l] by linarith+
qed

lemma permits_ok_same:
  assumes "permits_ok s" "workers s' = workers s" "schedulerConfig s' = schedulerConfig s"
    and "\<And>i. producer_permits s' i + deferred s' i = producer_permits s i + deferred s i"
  shows "permits_ok s'"
proof -
  have run: "runnable s' i = runnable s i" for i using assms(2) assms(4) [of i] by (simp add: runnable_def)
  have sh: "ShardIndex k s' = ShardIndex k s" for k using assms(2) by (simp add: ShardIndex_def)
  show ?thesis using assms(1) unfolding permits_ok_def assms(2,3) run sh .
qed

lemma permits_ok_shard:
  assumes "permits_ok s" "i < length (workers s)" "workers s' = (workers s)[i := w]"
    and "schedulerConfig s' = schedulerConfig s"
    and "\<And>j. j \<noteq> i \<Longrightarrow> producer_permits s' j + deferred s' j = producer_permits s j + deferred s j"
    and "permitCapacity (admittedRunnableActors w) = permitCapacity (admittedRunnableActors (workers s ! i))"
    and "permitCount (admittedRunnableActors w) = runnable s' i"
    and "runnable s' i \<le> unat (maxAdmittedRunnableActors (schedulerConfig s))"
    and "\<And>k. k \<in> set (readyQueue w) \<Longrightarrow> ShardIndex k s = i"
    and "\<And>k. worker_key (workerStage w) = Some k \<Longrightarrow> ShardIndex k s = i"
  shows "permits_ok s'"
proof -
  have sh: "ShardIndex k s' = ShardIndex k s" for k using assms(3) by (intro ShardIndex_cong) simp
  have other: "runnable s' j = runnable s j" if "j \<noteq> i" for j
    using assms(3,5) that by (simp add: runnable_def)
  show ?thesis
    unfolding permits_ok_def
  proof (intro conjI allI impI)
    show "workers s' \<noteq> []" using assms(2,3) by auto
    fix j assume j: "j < length (workers s')"
    then have j': "j < length (workers s)" using assms(3) by simp
    note old = permits_okD [OF assms(1) j']
    show "permitCapacity (admittedRunnableActors (workers s' ! j)) = unat (maxAdmittedRunnableActors (schedulerConfig s'))"
      using old(1) permits_okD(1) [OF assms(1,2)] assms(2-4,6) by (cases "j = i") simp_all
    show "permitCount (admittedRunnableActors (workers s' ! j)) = runnable s' j"
      using old(2) assms(2,3,7) other by (cases "j = i") simp_all
    show "runnable s' j \<le> unat (maxAdmittedRunnableActors (schedulerConfig s'))"
      using old(3) assms(4,8) other by (cases "j = i") simp_all
    show "\<forall>k \<in> set (readyQueue (workers s' ! j)). ShardIndex k s' = j"
      using old(4) assms(2,3,9) sh by (cases "j = i") simp_all
    fix k assume "worker_key (workerStage (workers s' ! j)) = Some k"
    then show "ShardIndex k s' = j" using old(5) assms(2,3,10) sh by (cases "j = i") simp_all
  qed
qed

text \<open>A step that leaves gates and workers alone.\<close>

lemma quiet_step:
  assumes "sched_inv s" "p < length (producers s)" "producers s' = (producers s)[p := st']"
    and "gates s' = gates s" "workers s' = workers s" "presence s' = presence s"
    and "schedulerConfig s' = schedulerConfig s"
    and "producer_token st' = producer_token (producers s ! p)"
    and "producer_permit st' = producer_permit (producers s ! p)"
  shows "tokens_ok s' \<and> permits_ok s'"
proof
  have inv: "tokens_ok s" "permits_ok s" using assms(1) by (simp_all add: sched_inv_def)
  have t: "tokens s' k = tokens s k" for k
    using tokens_producer [OF assms(2,3), of k] assms(5,8) by simp
  have d: "drains s' k = drains s k" for k by (simp add: drains_def assms(5))
  show "tokens_ok s'" by (rule tokens_ok_same [OF inv(1) assms(4,6) t d])
  have p: "producer_permits s' i = producer_permits s i" for i
    using producer_permits_update [OF assms(2,3), of i] assms(5,9) by simp
  have f: "deferred s' i = deferred s i" for i
    by (rule deferred_same) (simp_all add: assms(4,5))
  show "permits_ok s'" by (rule permits_ok_same [OF inv(2) assms(5,7)]) (simp only: p f)
qed

text \<open>A step that changes one gate.\<close>

lemma gate_step:
  assumes "sched_inv s" "p < length (producers s)" "producers s' = (producers s)[p := st']"
    and "gates s' = (gates s)(k := w)" "workers s' = workers s" "presence s' = presence s"
    and "schedulerConfig s' = schedulerConfig s" "presence s k = Registered"
    and "producer_token (producers s ! p) = None"
    and "producer_token st' = (if phase s k \<noteq> Scheduled \<and> PackedPhase w = Scheduled then Some k else None)"
    and "phase s k = Scheduled \<Longrightarrow> PackedPhase w = Scheduled"
    and "phase s k = Draining \<longleftrightarrow> PackedPhase w = Draining"
    and "\<And>i. of_bool (in_shard s i (producer_permit st')) + of_bool (ShardIndex k s = i \<and> PackedPhase w = DrainCompleting) =
      of_bool (in_shard s i (producer_permit (producers s ! p))) + (of_bool (ShardIndex k s = i \<and> phase s k = DrainCompleting) :: nat)"
  shows "tokens_ok s' \<and> permits_ok s'"
proof
  have inv: "tokens_ok s" "permits_ok s" using assms(1) by (simp_all add: sched_inv_def)
  have t: "tokens s' j = tokens s j + of_bool (producer_token st' = Some j)" for j
    using tokens_producer [OF assms(2,3), of j] assms(5,9) by simp
  have d: "drains s' j = drains s j" for j by (simp add: drains_def assms(5))
  have at: "tokens s k = of_bool (phase s k = Scheduled)" "drains s k = of_bool (phase s k = Draining)"
    using inv(1) assms(8) by (auto simp: tokens_ok_def)
  show "tokens_ok s'"
    by (rule tokens_ok_at [OF inv(1) assms(4,6,8)]) (use t d at assms(10-12) in auto)
  have "producer_permits s' i + deferred s' i = producer_permits s i + deferred s i" for i
    using producer_permits_update [OF assms(2,3), of i] deferred_update [OF assms(4), of i] assms(5) assms(13) [of i]
    by simp
  then show "permits_ok s'" by (rule permits_ok_same [OF inv(2) assms(5,7)])
qed

lemma sched_invD:
  assumes "sched_inv s"
  shows "gates_ok s" "leases_ok s" "tokens_ok s" "permits_ok s"
  using assms by (simp_all add: sched_inv_def)

lemma step_leased:
  assumes inv: "sched_inv s" and p: "p < length (producers s)" and st: "producers s ! p = Leased k l e"
  shows "tokens_ok (produced p s) \<and> permits_ok (produced p s)"
proof (cases "started s \<and> \<not> stopRequested s")
  case False
  then have r: "produced p s = s\<lparr>producers := (producers s)[p := Returned (NrStatus_Failure NrErrorCode.CapacityExceeded)]\<rparr>"
    using st by (auto simp: produced_def)
  show ?thesis unfolding r
    by (rule quiet_step [OF inv p, where st' = "Returned (NrStatus_Failure NrErrorCode.CapacityExceeded)"])
      (simp_all add: st)
next
  case True
  obtain t w where t: "TryBeginAdmission (gates s k) = (t, w)" by fastforce
  let ?st = "if Ticket_Accepted t then Ticketed k l e t else Leased k l e"
  let ?s = "s\<lparr>gates := (gates s)(k := w), producers := (producers s)[p := ?st]\<rparr>"
  have r: "produced p s = ?s" using st t True by (simp add: produced_def Let_def)
  have reg: "presence s k = Registered" using registered_lease [OF sched_invD(2) [OF inv] p] st by simp
  have "tokens_ok ?s \<and> permits_ok ?s"
    by (rule gate_step [OF inv p, where st' = ?st and k = k and w = w])
      (use t in \<open>cases rule: TryBeginAdmission_cases; simp add: st reg\<close>)+
  then show ?thesis using r by simp
qed

lemma step_resolving:
  assumes inv: "sched_inv s" and p: "p < length (producers s)" and st: "producers s ! p = Resolving k t r status"
  shows "tokens_ok (produced p s) \<and> permits_ok (produced p s)"
proof -
  obtain d t' w where c: "CompleteAdmission t r (gates s k) = (d, t', w)" by (metis prod_cases3)
  let ?st = "if r = CapacityRejected then Returned status else Directed k d status"
  let ?s = "s\<lparr>gates := (gates s)(k := w), producers := (producers s)[p := ?st]\<rparr>"
  have e: "produced p s = ?s" using st c by (simp add: produced_def)
  have reg: "presence s k = Registered" using registered_lease [OF sched_invD(2) [OF inv] p] st by simp
  note ok = sched_invD(1) [OF inv]
  have so: "decision t = RequiresNewPermit \<or> decision t = UsesExistingPermit \<and> r \<noteq> CapacityRejected"
    using stage_ok_nth [OF ok p] st by simp
  have "tokens_ok ?s \<and> permits_ok ?s"
  proof (cases "decision t = RequiresNewPermit")
    case True
    note o = first_open [OF ok p, of k, unfolded st open_ticket.simps True, OF refl]
    note res = first_admission_result [OF c True o(1,2)]
    show ?thesis
      by (rule gate_step [OF inv p, where st' = ?st and k = k and w = w])
        (cases r; simp add: st reg True res o)+
  next
    case False
    with so have u: "decision t = UsesExistingPermit" "r \<noteq> CapacityRejected" by auto
    note o = joined_open [OF ok p, of k, unfolded st open_ticket.simps u(1), OF refl]
    show ?thesis
      by (rule gate_step [OF inv p, where st' = ?st and k = k and w = w])
        (use c u o(2,1,3) in \<open>cases rule: joined_admission_cases; simp add: st reg\<close>)+
  qed
  then show ?thesis using e by simp
qed

lemma step_ticketed:
  assumes inv: "sched_inv s" and p: "p < length (producers s)" and st: "producers s ! p = Ticketed k l e t"
  shows "tokens_ok (produced p s) \<and> permits_ok (produced p s)"
proof (cases "NeedsNewPermit t")
  case False
  then have r: "produced p s = s\<lparr>producers := (producers s)[p := Permitted k l e t]\<rparr>"
    using st by (simp add: produced_def)
  show ?thesis unfolding r
    by (rule quiet_step [OF inv p, where st' = "Permitted k l e t"])
      (use False in \<open>simp_all add: st NeedsNewPermit_def\<close>)
next
  case True
  note tok = sched_invD(3) [OF inv] and per = sched_invD(4) [OF inv]
  let ?i = "ShardIndex k s"
  let ?c = "admittedRunnableActors (workers s ! ?i)"
  have i: "?i < length (workers s)" by (rule ShardIndex_less [OF permits_ok_workers [OF per]])
  note here = permits_okD [OF per i]
  have d: "decision t = RequiresNewPermit" using True by (simp add: NeedsNewPermit_def)
  show ?thesis
  proof (cases "permitCount ?c < permitCapacity ?c")
    case False
    then have r: "produced p s = s\<lparr>producers := (producers s)[p :=
        Resolving k t CapacityRejected (NrStatus_Failure NrErrorCode.QueueFull)]\<rparr>"
      using st True i by (simp add: produced_def TryAcquireRunnablePermit_def Permit_TryAcquire_def)
    show ?thesis unfolding r
      by (rule quiet_step [OF inv p, where st' = "Resolving k t CapacityRejected (NrStatus_Failure NrErrorCode.QueueFull)"])
        (simp_all add: st)
  next
    case acq: True
    let ?w = "(workers s ! ?i)\<lparr>admittedRunnableActors := ?c\<lparr>permitCount := Suc (permitCount ?c)\<rparr>\<rparr>"
    let ?s = "s\<lparr>workers := (workers s)[?i := ?w], producers := (producers s)[p := Permitted k l e t]\<rparr>"
    have r: "produced p s = ?s"
      using st True i acq by (simp add: produced_def TryAcquireRunnablePermit_def Permit_TryAcquire_def)
    have "tokens ?s j = tokens s j" for j
      using tokens_producer [OF p, of ?s "Permitted k l e t" j] i
      by (simp add: st map_update list_update_same_conv)
    moreover have "drains ?s j = drains s j" for j
      using i by (intro drains_stages) (simp add: map_update list_update_same_conv)
    ultimately have t: "tokens_ok ?s" by (intro tokens_ok_same [OF tok]) simp_all
    have pp: "producer_permits ?s j = producer_permits s j + of_bool (?i = j)" for j
      using producer_permits_update [OF p, of ?s "Permitted k l e t" j] by (simp add: st d)
    have df: "deferred ?s j = deferred s j" for j by (rule deferred_same) simp_all
    have run: "runnable ?s ?i = runnable s ?i + 1" using i by (simp add: runnable_def pp df)
    have room: "runnable s ?i < unat (maxAdmittedRunnableActors (schedulerConfig s))"
      using acq unfolding here(1,2) .
    have "permits_ok ?s"
    proof (rule permits_ok_shard [OF per i, where w = ?w])
      show "permitCount (admittedRunnableActors ?w) = runnable ?s ?i" unfolding run using here(2) by simp
      show "runnable ?s ?i \<le> unat (maxAdmittedRunnableActors (schedulerConfig s))" unfolding run using room by simp
      show "ShardIndex j s = ?i" if "j \<in> set (readyQueue ?w)" for j by (rule here(4)) (use that in simp)
      show "ShardIndex j s = ?i" if "worker_key (workerStage ?w) = Some j" for j by (rule here(5)) (use that in simp)
    qed (simp_all add: pp df)
    then show ?thesis using t r by simp
  qed
qed

lemma step_directed:
  assumes inv: "sched_inv s" and p: "p < length (producers s)" and st: "producers s ! p = Directed k d status"
  shows "tokens_ok (produced p s) \<and> permits_ok (produced p s)"
proof -
  note tok = sched_invD(3) [OF inv] and per = sched_invD(4) [OF inv]
  let ?i = "ShardIndex k s"
  have i: "?i < length (workers s)" by (rule ShardIndex_less [OF permits_ok_workers [OF per]])
  note here = permits_okD [OF per i]
  show ?thesis
  proof (cases "d = EnqueueReadyToken \<or> d = ReleasePermit")
    case False
    then have r: "produced p s = s\<lparr>producers := (producers s)[p := Returned status]\<rparr>"
      using st by (cases d) (simp_all add: produced_def ApplyScheduleDirective_def)
    show ?thesis unfolding r
      by (rule quiet_step [OF inv p, where st' = "Returned status"]) (use False in \<open>cases d; simp add: st\<close>)+
  next
    case True
    then have held: "producer_permit (producers s ! p) = Some k" using st by auto
    note holder = permit_holder [OF per p held]
    let ?w = "if d = EnqueueReadyToken
      then (workers s ! ?i)\<lparr>readyQueue := readyQueue (workers s ! ?i) @ [k]\<rparr>
      else (workers s ! ?i)\<lparr>admittedRunnableActors := Permit_Release (admittedRunnableActors (workers s ! ?i))\<rparr>"
    define s1 where "s1 = s\<lparr>workers := (workers s)[?i := ?w]\<rparr>"
    define s2 where "s2 = s1\<lparr>producers := (producers s)[p := Returned status]\<rparr>"
    have r: "produced p s = s2"
      using True st push_ready [OF holder(1,4)] release_permit [OF holder(1)]
      by (auto simp: produced_def s2_def s1_def)
    have tw: "tokens s1 j = tokens s j + of_bool (d = EnqueueReadyToken \<and> j = k)" for j
      using tokens_worker [of ?i s s1 ?w j] i by (auto simp: s1_def)
    have f: "producers s1 = producers s" "producers s2 = (producers s)[p := Returned status]"
        "workers s2 = workers s1"
      by (simp_all add: s1_def s2_def)
    have t: "tokens s2 j = tokens s j" for j
    proof -
      have "tokens s2 j + of_bool (producer_token (producers s ! p) = Some j) = tokens s1 j"
        using tokens_producer [of p s1 s2 "Returned status" j] p by (simp add: f)
      then show ?thesis unfolding tw using True st by (cases "j = k") auto
    qed
    have d: "drains s2 j = drains s j" for j
      by (rule drains_stages) (use i in \<open>simp add: s2_def s1_def map_update list_update_same_conv\<close>)
    have tok': "tokens_ok s2"
      by (rule tokens_ok_same [OF tok]) (simp_all add: t d, simp_all add: s2_def s1_def)
    have pp: "producer_permits s2 j + of_bool (?i = j) = producer_permits s j" for j
      using producer_permits_update [of p s s2 "Returned status" j] p held by (simp add: s2_def s1_def)
    have df: "deferred s2 j = deferred s j" for j by (rule deferred_same) (simp_all add: s2_def s1_def)
    have run: "runnable s2 ?i + of_bool (d = ReleasePermit) = runnable s ?i"
      using i pp [of ?i] True by (auto simp: runnable_def df) (simp_all add: s2_def s1_def)
    have "permits_ok s2"
    proof (rule permits_ok_shard [OF per i, where w = ?w])
      show "permitCount (admittedRunnableActors ?w) = runnable s2 ?i" using run here(2) True by auto
      show "runnable s2 ?i \<le> unat (maxAdmittedRunnableActors (schedulerConfig s))" using run here(3) by linarith
      show "ShardIndex j s = ?i" if "j \<in> set (readyQueue ?w)" for j
        using that here(4) [of j] by (auto split: if_splits)
      show "ShardIndex j s = ?i" if "worker_key (workerStage ?w) = Some j" for j
        by (rule here(5)) (use that in \<open>simp split: if_splits\<close>)
      show "producer_permits s2 j + deferred s2 j = producer_permits s j + deferred s j" if "j \<noteq> ?i" for j
        using pp [of j] that by (simp add: df)
    qed (simp_all add: s2_def s1_def)
    then show ?thesis using tok' r by simp
  qed
qed

lemma sched_inv_produced:
  assumes inv: "sched_inv s" and p: "p < length (producers s)"
  shows "sched_inv (produced p s)"
proof -
  obtain st where st: "producers s ! p = st" by simp
  have "tokens_ok (produced p s) \<and> permits_ok (produced p s)"
  proof (cases st)
    case Leased then show ?thesis using step_leased [OF inv p] st by simp
  next
    case Ticketed then show ?thesis using step_ticketed [OF inv p] st by simp
  next
    case Resolving then show ?thesis using step_resolving [OF inv p] st by simp
  next
    case Directed then show ?thesis using step_directed [OF inv p] st by simp
  next
    case (Calling k l e)
    let ?st = "fst (Enqueue_step st s)"
    have r: "produced p s = s\<lparr>producers := (producers s)[p := ?st]\<rparr>" and n: "producer_token ?st = None" "producer_permit ?st = None"
      using st Calling by (auto simp: produced_def)
    show ?thesis unfolding r
      by (rule quiet_step [OF inv p, where st' = ?st]) (simp_all add: n, simp_all add: st Calling)
  next
    case (Started k l e)
    let ?st = "fst (Enqueue_step st s)"
    have r: "produced p s = s\<lparr>producers := (producers s)[p := ?st]\<rparr>" and n: "producer_token ?st = None" "producer_permit ?st = None"
      using st Started by (auto simp: produced_def Let_def)
    show ?thesis unfolding r
      by (rule quiet_step [OF inv p, where st' = ?st]) (simp_all add: n, simp_all add: st Started)
  next
    case (Returned status)
    then have "(producers s)[p := Returned status] = producers s" using st by (metis list_update_id)
    then have r: "produced p s = s" using st Returned by (simp add: produced_def)
    show ?thesis unfolding r using inv by (simp add: sched_inv_def)
  next
    case (Permitted k l e t)
    obtain es box where b: "spec_push (mailboxCapacity s) e (mail s k l) = (es, box)" by fastforce
    let ?st = "Resolving k t (if Succeeded es then MailboxCommitted else MailboxRejected) es"
    have r: "produced p s = s\<lparr>mail := (mail s)(k := (mail s k)(l := box)), producers := (producers s)[p := ?st]\<rparr>"
      using st Permitted b by (auto simp: produced_def)
    show ?thesis unfolding r
      by (rule quiet_step [OF inv p, where st' = ?st]) (simp_all add: st Permitted)
  qed
  then show ?thesis
    using gates_ok_produced [OF sched_invD(1) [OF inv] p] leases_ok_produced [OF sched_invD(2) [OF inv] p]
    by (simp add: sched_inv_def)
qed

end
