(* ===== verification/NrSchedulerRun.thy ===== *)
theory NrSchedulerRun imports NrSchedulerInv begin

text \<open>
  The steps of the workers and of the registry keep the invariants of the scheduler, and the
  invariant about mail: an event that its producer has announced is never left behind by a drain.
\<close>

section \<open>The steps of a worker\<close>

definition worker_tokens :: "NrWorkerState \<Rightarrow> u64 \<Rightarrow> nat" where
  "worker_tokens w k = of_bool (worker_token (workerStage w) = Some k) + count_list (readyQueue w) k"

definition worker_drains :: "NrWorkerState \<Rightarrow> u64 \<Rightarrow> nat" where
  "worker_drains w k = of_bool (worker_drain (workerStage w) = Some k)"

definition worker_runnable :: "NrWorkerState \<Rightarrow> nat" where
  "worker_runnable w = length (readyQueue w) + of_bool (worker_permit (workerStage w) \<noteq> None)"

lemma registered_worker:
  assumes "leases_ok s" "i < length (workers s)" "worker_lease (workerStage (workers s ! i)) = Some k"
  shows "presence s k = Registered"
proof -
  have "leased k s" unfolding leased_def using assms(2,3) by (metis nth_mem)
  then show ?thesis using assms(1) by (simp add: leases_ok_def)
qed

lemma worker_token_pos:
  assumes "sched_inv s" "i < length (workers s)" "worker_token (workerStage (workers s ! i)) = Some k"
  shows "tokens s k = 1" "presence s k \<noteq> Unregistered"
    and "presence s k \<noteq> Deregistered \<Longrightarrow> phase s k = Scheduled"
proof -
  note tok = sched_invD(3) [OF assms(1), unfolded tokens_ok_def, THEN spec, of k]
  have "0 < count_of (\<lambda>w. worker_token (workerStage w) = Some k) (workers s)"
    by (rule count_of_pos [OF assms(2)]) (rule assms(3))
  then have "0 < tokens s k" by (simp add: tokens_def)
  then show "tokens s k = 1" "presence s k \<noteq> Unregistered"
      "presence s k \<noteq> Deregistered \<Longrightarrow> phase s k = Scheduled"
    using tok by (auto split: if_splits)
qed

lemma worker_draining:
  assumes "sched_inv s" "i < length (workers s)" "worker_drain (workerStage (workers s ! i)) = Some k"
  shows "phase s k = Draining"
proof -
  have "0 < drains s k" unfolding drains_def by (rule count_of_pos [OF assms(2)]) (rule assms(3))
  then show ?thesis using sched_invD(3) [OF assms(1)] by (auto simp: tokens_ok_def split: if_splits)
qed

lemma work_step:
  assumes inv: "sched_inv s" and i: "i < length (workers s)" and ws: "workers s' = (workers s)[i := w]"
    and same: "producers s' = producers s" "presence s' = presence s" "schedulerConfig s' = schedulerConfig s"
    and g: "gates s' = (gates s)(k := v)" and shard: "ShardIndex k s = i"
    and gate: "v = gates s k \<or> gate_shape v \<and> ProducerInFlight v = ProducerInFlight (gates s k) \<and>
        phase s k \<noteq> Admitting \<and> PackedPhase v \<noteq> Admitting \<and> presence s k = Registered"
    and lease: "\<And>j. worker_lease (workerStage w) = Some j \<Longrightarrow> presence s j = Registered"
    and tok: "\<And>j. j \<noteq> k \<Longrightarrow> worker_tokens w j = worker_tokens (workers s ! i) j"
    and tok_k: "if presence s k = Deregistered then worker_tokens w k \<le> worker_tokens (workers s ! i) k
      else worker_tokens w k + of_bool (phase s k = Scheduled) =
        worker_tokens (workers s ! i) k + of_bool (PackedPhase v = Scheduled)"
    and dr: "\<And>j. worker_drains w j + of_bool (j = k \<and> phase s k = Draining) =
        worker_drains (workers s ! i) j + of_bool (j = k \<and> PackedPhase v = Draining)"
    and cap: "permitCapacity (admittedRunnableActors w) = permitCapacity (admittedRunnableActors (workers s ! i))"
    and per: "permitCount (admittedRunnableActors w) + worker_runnable (workers s ! i) + of_bool (phase s k = DrainCompleting) =
        permitCount (admittedRunnableActors (workers s ! i)) + worker_runnable w + of_bool (PackedPhase v = DrainCompleting)"
    and less: "permitCount (admittedRunnableActors w) \<le> permitCount (admittedRunnableActors (workers s ! i))"
    and keys: "\<And>j. j \<in> set (readyQueue w) \<Longrightarrow> j = k \<or> j \<in> set (readyQueue (workers s ! i))"
      "\<And>j. worker_key (workerStage w) = Some j \<Longrightarrow> j = k"
  shows "sched_inv s'"
proof -
  note ok = sched_invD [OF inv]
  note here = permits_okD [OF ok(4) i]
  have len: "length (workers s') = length (workers s)" using ws by simp
  have gates: "gates_ok s'"
  proof (cases "v = gates s k")
    case True
    then have "gates s' = gates s" using g by simp
    then show ?thesis using ok(1) same(1) by (simp add: gates_ok_def firsts_def joins_def)
  next
    case False
    then show ?thesis using gate by (intro gates_ok_worker [OF ok(1) same(1) g]) auto
  qed
  have leases: "leases_ok s'"
    unfolding leases_ok_def
  proof (intro conjI allI impI)
    show "presence s' 0 = Unregistered" using ok(2) same(2) by (simp add: leases_ok_def)
    fix j assume "leased j s'"
    then have "leased j s \<or> worker_lease (workerStage w) = Some j"
      unfolding leased_def ws same(1) by (auto dest: set_update_subset_insert [THEN subsetD])
    then show "presence s' j = Registered" using ok(2) lease same(2) by (auto simp: leases_ok_def)
  qed
  have t: "tokens s' j + worker_tokens (workers s ! i) j = tokens s j + worker_tokens w j" for j
    using tokens_worker [OF i same(1) ws, of j] by (simp add: worker_tokens_def)
  have d: "drains s' j + worker_drains (workers s ! i) j = drains s j + worker_drains w j" for j
    using drains_worker [OF i ws, of j] by (simp add: worker_drains_def)
  have "tokens_ok s'"
    unfolding tokens_ok_def
  proof
    fix j
    have old: "tokens s j \<le> 1" "presence s j \<noteq> Deregistered \<Longrightarrow> tokens s j = of_bool (phase s j = Scheduled)"
        "drains s j = of_bool (phase s j = Draining)" "presence s j = Unregistered \<Longrightarrow> phase s j = Idle"
      using ok(3) by (auto simp: tokens_ok_def)
    show "tokens s' j \<le> 1 \<and> (presence s' j \<noteq> Deregistered \<longrightarrow> tokens s' j = of_bool (phase s' j = Scheduled)) \<and>
        drains s' j = of_bool (phase s' j = Draining) \<and> (presence s' j = Unregistered \<longrightarrow> phase s' j = Idle)"
    proof (cases "j = k")
      case False
      then show ?thesis using old t [of j] d [of j] tok [of j] dr [of j] by (simp add: g same(2))
    next
      case True
      have D: "drains s' j = of_bool (phase s' j = Draining)"
        using old(3) d [of j] dr [of j] True by (simp add: g)
      have U: "presence s j = Unregistered \<Longrightarrow> phase s' j = Idle"
        using gate old(4) True by (auto simp: g)
      show ?thesis
      proof (cases "presence s j = Deregistered")
        case dereg: True
        then have "tokens s' j \<le> tokens s j" using t [of j] tok_k True by simp
        then show ?thesis using old(1) D U dereg same(2) by simp
      next
        case reg: False
        then have "tokens s' j + of_bool (phase s j = Scheduled) = tokens s j + of_bool (phase s' j = Scheduled)"
          using t [of j] tok_k True by (simp add: g)
        then have "tokens s' j = of_bool (phase s' j = Scheduled)" using old(2) reg by simp
        then show ?thesis using D U same(2) by simp
      qed
    qed
  qed
  moreover have "permits_ok s'"
  proof -
    have pp: "producer_permits s' j = producer_permits s j" for j
      by (rule producer_permits_same [OF same(1) len])
    have df: "deferred s' j + of_bool (i = j \<and> phase s k = DrainCompleting) =
        deferred s j + of_bool (i = j \<and> PackedPhase v = DrainCompleting)" for j
      using deferred_update [OF g len, of j] shard by simp
    have run: "runnable s' i + worker_runnable (workers s ! i) + of_bool (phase s k = DrainCompleting) =
        runnable s i + worker_runnable w + of_bool (PackedPhase v = DrainCompleting)"
      using df [of i] i by (simp add: runnable_def worker_runnable_def pp ws)
    have count: "permitCount (admittedRunnableActors w) = runnable s' i" using run per here(2) by linarith
    show ?thesis
    proof (rule permits_ok_shard [OF ok(4) i ws same(3)])
      show "producer_permits s' j + deferred s' j = producer_permits s j + deferred s j" if "j \<noteq> i" for j
        using df [of j] that by (simp add: pp)
      show "permitCapacity (admittedRunnableActors w) = permitCapacity (admittedRunnableActors (workers s ! i))" by (rule cap)
      show "permitCount (admittedRunnableActors w) = runnable s' i" by (rule count)
      show "runnable s' i \<le> unat (maxAdmittedRunnableActors (schedulerConfig s))"
        using count less here(2,3) by linarith
      show "ShardIndex j s = i" if "j \<in> set (readyQueue w)" for j
        using keys(1) [OF that] shard here(4) [of j] by auto
      show "ShardIndex j s = i" if "worker_key (workerStage w) = Some j" for j
        using keys(2) [OF that] shard by simp
    qed
  qed
  ultimately show ?thesis using gates leases by (simp add: sched_inv_def)
qed

lemmas worker_weights = worker_tokens_def worker_drains_def worker_runnable_def

lemma run_waiting:
  assumes inv: "sched_inv s" and i: "i < length (workers s)" and st: "workerStage (workers s ! i) = Waiting"
  shows "sched_inv (Run_step Waiting i handled s)"
proof (cases "readyQueue (workers s ! i)")
  case Nil
  then have "(workers s)[i := (workers s ! i)\<lparr>readyQueue := []\<rparr>] = workers s" by (intro list_update_same_conv [THEN iffD2]) (use i in simp_all)
  then have "Run_step Waiting i handled s = s"
    using Nil i by (simp add: TryPopReadyQueue_def spec_pop_def)
  then show ?thesis using inv by simp
next
  case (Cons k rest)
  have r: "Run_step Waiting i handled s =
      s\<lparr>workers := (workers s)[i := (workers s ! i)\<lparr>readyQueue := rest, workerStage := Popped k\<rparr>]\<rparr>"
    using Cons i by (simp add: TryPopReadyQueue_def spec_pop_def set_worker_def)
  show ?thesis unfolding r
  proof (rule work_step [OF inv i, where k = k and v = "gates s k"
        and w = "(workers s ! i)\<lparr>readyQueue := rest, workerStage := Popped k\<rparr>"])
    show "ShardIndex k s = i" by (rule permits_okD(4) [OF sched_invD(4) [OF inv] i]) (simp add: Cons)
  qed (simp_all add: worker_weights st Cons)
qed

lemma run_popped:
  assumes inv: "sched_inv s" and i: "i < length (workers s)" and st: "workerStage (workers s ! i) = Popped k"
  shows "sched_inv (Run_step (Popped k) i handled s)"
proof -
  have shard: "ShardIndex k s = i" by (rule permits_okD(5) [OF sched_invD(4) [OF inv] i]) (simp add: st)
  note pos = worker_token_pos [OF inv i, of k, unfolded st worker_token.simps, OF refl]
  have count: "0 < permitCount (admittedRunnableActors (workers s ! i))"
    using permits_okD(2) [OF sched_invD(4) [OF inv] i] by (simp add: runnable_def st)
  show ?thesis
  proof (cases "Failed (TryAcquireLease_status k s)")
    case True
    let ?w = "(workers s ! i)\<lparr>admittedRunnableActors := Permit_Release (admittedRunnableActors (workers s ! i)), workerStage := Waiting\<rparr>"
    have r: "Run_step (Popped k) i handled s = s\<lparr>workers := (workers s)[i := ?w]\<rparr>"
      using True i by (simp add: ReleaseRunnablePermit_def set_worker_def shard)
    have "presence s k \<noteq> Registered \<or> k = 0"
      using True by (auto simp: TryAcquireLease_status_def split: if_splits)
    moreover have "presence s 0 = Unregistered" using sched_invD(2) [OF inv] by (simp add: leases_ok_def)
    ultimately have "presence s k \<noteq> Registered" by auto
    then have "presence s k = Deregistered" using pos(2) by (cases "presence s k") auto
    then show ?thesis unfolding r
      by (intro work_step [OF inv i, where k = k and v = "gates s k" and w = ?w])
        (use count in \<open>simp_all add: worker_weights st shard\<close>)
  next
    case False
    then have reg: "presence s k = Registered" by (simp add: TryAcquireLease_status_def split: if_splits)
    have r: "Run_step (Popped k) i handled s = s\<lparr>workers := (workers s)[i := (workers s ! i)\<lparr>workerStage := RunLeased k\<rparr>]\<rparr>"
      using False by (simp add: set_worker_def)
    show ?thesis unfolding r
      by (rule work_step [OF inv i, where k = k and v = "gates s k" and w = "(workers s ! i)\<lparr>workerStage := RunLeased k\<rparr>"])
        (simp_all add: worker_weights st shard reg)
  qed
qed

lemma run_leased:
  assumes inv: "sched_inv s" and i: "i < length (workers s)" and st: "workerStage (workers s ! i) = RunLeased k"
  shows "sched_inv (Run_step (RunLeased k) i handled s)" "phase s k = Scheduled"
proof -
  have shard: "ShardIndex k s = i" by (rule permits_okD(5) [OF sched_invD(4) [OF inv] i]) (simp add: st)
  have reg: "presence s k = Registered"
    using registered_worker [OF sched_invD(2) [OF inv] i, of k] by (simp add: st)
  show ph: "phase s k = Scheduled"
    using worker_token_pos [OF inv i, of k, unfolded st worker_token.simps, OF refl] reg by simp
  obtain b w where b: "TryBeginDrain (gates s k) = (b, w)" by fastforce
  note res = TryBeginDrain_scheduled [OF b ph]
  let ?w = "(workers s ! i)\<lparr>workerStage := DrainRecv k (actorDrainBudget (schedulerConfig s))\<rparr>"
  have r: "Run_step (RunLeased k) i handled s = s\<lparr>gates := (gates s)(k := w), workers := (workers s)[i := ?w]\<rparr>"
    using b res(1) by (simp add: set_worker_def Let_def)
  show "sched_inv (Run_step (RunLeased k) i handled s)" unfolding r
    by (rule work_step [OF inv i, where k = k and v = w and w = ?w])
      (use res in \<open>simp_all add: worker_weights st shard reg ph gate_shape_def\<close>)
qed

text \<open>Inside the drain only the place of the worker and the mail of its actor change.\<close>

lemma run_draining:
  assumes inv: "sched_inv s" and i: "i < length (workers s)"
    and st: "worker_drain (workerStage (workers s ! i)) = Some k" "worker_drain st' = Some k"
    and e: "workers s' = (workers s)[i := (workers s ! i)\<lparr>workerStage := st'\<rparr>]" "gates s' = gates s"
      "producers s' = producers s" "presence s' = presence s" "schedulerConfig s' = schedulerConfig s"
  shows "sched_inv s'"
proof -
  have k: "worker_key st = Some j \<and> worker_lease st = Some j \<and> worker_permit st = Some j \<and> worker_token st = None"
    if "worker_drain st = Some j" for st j using that by (cases st) auto
  note k1 = k [OF st(1)] and k2 = k [OF st(2)]
  have shard: "ShardIndex k s = i" by (rule permits_okD(5) [OF sched_invD(4) [OF inv] i]) (simp add: k1)
  have reg: "presence s k = Registered"
    using registered_worker [OF sched_invD(2) [OF inv] i, of k] by (simp add: k1)
  show ?thesis
    by (rule work_step [OF inv i e(1) e(3,4,5), where k = k and v = "gates s k"])
      (use st k1 k2 in \<open>simp_all add: worker_weights shard reg e\<close>)
qed

lemma run_drain_recv:
  assumes inv: "sched_inv s" and i: "i < length (workers s)" and st: "workerStage (workers s ! i) = DrainRecv k left"
  shows "sched_inv (Run_step (DrainRecv k left) i handled s)"
proof -
  let ?st = "if left = 0 then DrainEnded k True else if mail s k RecvLane = [] then DrainSend k left False
    else if \<not> handled then DrainEnded k False else DrainSend k (left - 1) True"
  show ?thesis
    by (rule run_draining [OF inv i, of k ?st]) (simp_all add: st set_worker_def fail_drain_def take_mail_def)
qed

lemma run_drain_send:
  assumes inv: "sched_inv s" and i: "i < length (workers s)" and st: "workerStage (workers s ! i) = DrainSend k left took"
  shows "sched_inv (Run_step (DrainSend k left took) i handled s)"
proof -
  let ?st = "if left = 0 then DrainEnded k True else if mail s k SendLane = []
    then (if took then DrainRecv k left else DrainEnded k False)
    else if \<not> handled then DrainEnded k False else DrainRecv k (left - 1)"
  show ?thesis
    by (rule run_draining [OF inv i, of k ?st]) (simp_all add: st set_worker_def fail_drain_def take_mail_def)
qed

lemma run_drain_ended:
  assumes inv: "sched_inv s" and i: "i < length (workers s)" and st: "workerStage (workers s ! i) = DrainEnded k again"
  shows "sched_inv (Run_step (DrainEnded k again) i handled s)"
proof -
  have shard: "ShardIndex k s = i" by (rule permits_okD(5) [OF sched_invD(4) [OF inv] i]) (simp add: st)
  have reg: "presence s k = Registered"
    using registered_worker [OF sched_invD(2) [OF inv] i, of k] by (simp add: st)
  have ph: "phase s k = Draining" using worker_draining [OF inv i, of k] by (simp add: st)
  obtain d w where c: "CompleteDrain again (gates s k) = (d, w)" by fastforce
  let ?w = "(workers s ! i)\<lparr>workerStage := RunCompleted k d\<rparr>"
  let ?s = "s\<lparr>gates := (gates s)(k := w), workers := (workers s)[i := ?w]\<rparr>"
  have r: "Run_step (DrainEnded k again) i handled s = ?s" using c by (simp add: set_worker_def)
  have "sched_inv ?s" using c ph
  proof (cases rule: CompleteDrain_cases)
    case deferred
    then have "ProducerInFlight w \<noteq> 0" using unat_count(3) [of "ProducerInFlight w"] by (metis less_irrefl)
    then show ?thesis
      by (intro work_step [OF inv i, where k = k and v = w and w = ?w])
        (use deferred reg in \<open>auto simp: worker_weights st shard ph gate_shape_def\<close>)
  next
    case again
    show ?thesis
      by (rule work_step [OF inv i, where k = k and v = w and w = ?w])
        (use again reg in \<open>auto simp: worker_weights st shard ph gate_shape_def flagged_def unat_count\<close>)
  next
    case release
    show ?thesis
      by (rule work_step [OF inv i, where k = k and v = w and w = ?w])
        (use release reg in \<open>auto simp: worker_weights st shard ph gate_shape_def flagged_def unat_count\<close>)
  qed
  then show ?thesis using r by simp
qed

lemma run_completed:
  assumes inv: "sched_inv s" and i: "i < length (workers s)" and st: "workerStage (workers s ! i) = RunCompleted k d"
  shows "sched_inv (Run_step (RunCompleted k d) i handled s)"
proof -
  note per = sched_invD(4) [OF inv]
  have shard: "ShardIndex k s = i" by (rule permits_okD(5) [OF per i]) (simp add: st)
  have reg: "presence s k = Registered"
    using registered_worker [OF sched_invD(2) [OF inv] i, of k] by (simp add: st)
  have ne: "workers s \<noteq> []" by (rule permits_ok_workers [OF per])
  consider (push) "d = EnqueueReadyToken" | (give) "d = ReleasePermit" | (none) "d = NoAction \<or> d = FinalizationDeferred"
    by (cases d) auto
  then show ?thesis
  proof cases
    case push
    have "length (readyQueue (workers s ! i)) < runnable s i" using push by (simp add: runnable_def st)
    then have room: "length (readyQueue (workers s ! ShardIndex k s)) < unat (maxAdmittedRunnableActors (schedulerConfig s))"
      using permits_okD(3) [OF per i] unfolding shard by linarith
    let ?w = "(workers s ! i)\<lparr>readyQueue := readyQueue (workers s ! i) @ [k], workerStage := Cleaning k\<rparr>"
    have r: "Run_step (RunCompleted k d) i handled s = s\<lparr>workers := (workers s)[i := ?w]\<rparr>"
      using push_ready [OF ne room] i push by (simp add: set_worker_def shard)
    show ?thesis unfolding r
      by (rule work_step [OF inv i, where k = k and v = "gates s k" and w = ?w])
        (auto simp: worker_weights st shard reg push)
  next
    case give
    have count: "0 < permitCount (admittedRunnableActors (workers s ! i))"
      using permits_okD(2) [OF per i] give by (simp add: runnable_def st)
    let ?w = "(workers s ! i)\<lparr>admittedRunnableActors := Permit_Release (admittedRunnableActors (workers s ! i)), workerStage := Cleaning k\<rparr>"
    have r: "Run_step (RunCompleted k d) i handled s = s\<lparr>workers := (workers s)[i := ?w]\<rparr>"
      using release_permit [OF ne, of k] i give by (simp add: set_worker_def shard)
    show ?thesis unfolding r
      by (rule work_step [OF inv i, where k = k and v = "gates s k" and w = ?w])
        (use count in \<open>simp_all add: worker_weights st shard reg give\<close>)
  next
    case none
    let ?w = "(workers s ! i)\<lparr>workerStage := Cleaning k\<rparr>"
    have r: "Run_step (RunCompleted k d) i handled s = s\<lparr>workers := (workers s)[i := ?w]\<rparr>"
      using none by (auto simp: set_worker_def ApplyScheduleDirective_def)
    show ?thesis unfolding r
      by (rule work_step [OF inv i, where k = k and v = "gates s k" and w = ?w])
        (use none in \<open>auto simp: worker_weights st shard reg\<close>)
  qed
qed

lemma run_cleaning:
  assumes inv: "sched_inv s" and i: "i < length (workers s)" and st: "workerStage (workers s ! i) = Cleaning k"
  shows "sched_inv (Run_step (Cleaning k) i handled s)"
proof -
  have shard: "ShardIndex k s = i" by (rule permits_okD(5) [OF sched_invD(4) [OF inv] i]) (simp add: st)
  have r: "Run_step (Cleaning k) i handled s = s\<lparr>workers := (workers s)[i := (workers s ! i)\<lparr>workerStage := Waiting\<rparr>]\<rparr>"
    by (simp add: set_worker_def)
  show ?thesis unfolding r
    by (rule work_step [OF inv i, where k = k and v = "gates s k" and w = "(workers s ! i)\<lparr>workerStage := Waiting\<rparr>"])
      (simp_all add: worker_weights st shard)
qed

lemma sched_inv_worker:
  assumes inv: "sched_inv s" and i: "i < length (workers s)"
  shows "sched_inv (Worker_step i handled s)"
proof (cases "workerStage (workers s ! i)")
  case Waiting then show ?thesis using run_waiting [OF inv i] i by (simp add: Worker_step_def)
next
  case (Popped k) then show ?thesis using run_popped [OF inv i Popped] i by (simp only: Worker_step_def if_True)
next
  case (RunLeased k) then show ?thesis using run_leased(1) [OF inv i RunLeased] i by (simp only: Worker_step_def if_True)
next
  case (DrainRecv k left) then show ?thesis using run_drain_recv [OF inv i DrainRecv] i by (simp only: Worker_step_def if_True)
next
  case (DrainSend k left took) then show ?thesis using run_drain_send [OF inv i DrainSend] i by (simp only: Worker_step_def if_True)
next
  case (DrainEnded k again) then show ?thesis using run_drain_ended [OF inv i DrainEnded] i by (simp only: Worker_step_def if_True)
next
  case (RunCompleted k d) then show ?thesis using run_completed [OF inv i RunCompleted] i by (simp only: Worker_step_def if_True)
next
  case (Cleaning k) then show ?thesis using run_cleaning [OF inv i Cleaning] i by (simp only: Worker_step_def if_True)
qed

section \<open>Mail\<close>

text \<open>
  Mail is looked after when its actor has failed, is scheduled, or has a drain flag raised; when a
  producer is about to report it to the gate; or when the worker still has to look at the lane.
\<close>

fun announcing :: "'e producer_stage \<Rightarrow> u64 option" where
  "announcing (Resolving k t MailboxCommitted st) = Some k"
| "announcing st = None"

definition announcers :: "'e scheduler \<Rightarrow> u64 \<Rightarrow> nat" where
  "announcers s k = count_of (\<lambda>st. announcing st = Some k) (producers s)"

fun watches :: "worker_stage \<Rightarrow> u64 \<Rightarrow> lane \<Rightarrow> bool" where
  "watches (DrainRecv j left) k l \<longleftrightarrow> j = k"
| "watches (DrainSend j left took) k l \<longleftrightarrow> j = k \<and> (took \<or> l = SendLane)"
| "watches (DrainEnded j again) k l \<longleftrightarrow> j = k \<and> again"
| "watches st k l \<longleftrightarrow> False"

definition looked_after :: "'e scheduler \<Rightarrow> u64 \<Rightarrow> lane \<Rightarrow> bool" where
  "looked_after s k l \<longleftrightarrow> drainFailed s k \<or> phase s k = Scheduled \<or> flagged (gates s k) \<or> 0 < announcers s k \<or>
     watches (workerStage (workers s ! ShardIndex k s)) k l"

definition mail_ok :: "'e scheduler \<Rightarrow> bool" where
  "mail_ok s \<longleftrightarrow> (\<forall>k l. mail s k l \<noteq> [] \<longrightarrow> looked_after s k l)"

lemma announcing_ticket:
  assumes "gates_ok s" "st \<in> set (producers s)" "announcing st = Some k"
  shows "open_ticket st = Some (k, RequiresNewPermit) \<or> open_ticket st = Some (k, UsesExistingPermit)"
proof -
  have "stage_ok st" using assms(1,2) by (simp add: gates_ok_def)
  then show ?thesis using assms(3) by (cases st rule: announcing.cases) auto
qed

lemma count_of_add:
  assumes "\<And>x. x \<in> set xs \<Longrightarrow> P x \<Longrightarrow> Q x \<or> R x"
  shows "count_of P xs \<le> count_of Q xs + count_of R xs"
  using assms
proof (induction xs)
  case (Cons x xs)
  then have "count_of P xs \<le> count_of Q xs + count_of R xs" by simp
  moreover have "P x \<Longrightarrow> Q x \<or> R x" using Cons.prems by simp
  ultimately show ?case by (auto simp: count_of_Cons)
qed (simp add: count_of_def)

lemma announcers_le:
  assumes "gates_ok s" shows "announcers s k \<le> inflight s k"
proof -
  have "announcers s k \<le> firsts s k + joins s k"
    unfolding announcers_def firsts_def joins_def
    by (rule count_of_add) (rule announcing_ticket [OF assms])
  then show ?thesis using assms by (simp add: gates_ok_def)
qed

text \<open>A producer that has an open ticket without announcing mail leaves room below the bound.\<close>

lemma announcers_less:
  assumes ok: "gates_ok s" and p: "p < length (producers s)" and st: "producers s ! p = Resolving k t r status"
    and r: "r \<noteq> MailboxCommitted"
  shows "announcers s k < inflight s k"
proof -
  let ?s = "s\<lparr>producers := (producers s)[p := Resolving k t MailboxCommitted status]\<rparr>"
  have so: "decision t = RequiresNewPermit \<or> decision t = UsesExistingPermit"
    using stage_ok_nth [OF ok p] st by auto
  have "gates_ok ?s"
    by (rule gates_ok_same [OF ok p, where st' = "Resolving k t MailboxCommitted status"])
      (use so st in \<open>auto\<close>)
  then have "announcers ?s k \<le> inflight ?s k" by (rule announcers_le)
  moreover have "announcers ?s k = Suc (announcers s k)"
    using p st r by (cases r) (simp_all add: announcers_def count_of_update)
  ultimately show ?thesis by simp
qed

lemma announcers_update:
  "p < length (producers s) \<Longrightarrow> producers s' = (producers s)[p := st'] \<Longrightarrow>
    announcing (producers s ! p) \<noteq> Some k \<Longrightarrow> announcing st' \<noteq> Some k \<Longrightarrow> announcers s' k = announcers s k"
  by (simp add: announcers_def count_of_update)

lemma announcers_pos:
  "p < length (producers s) \<Longrightarrow> announcing (producers s ! p) = Some k \<Longrightarrow> 0 < announcers s k"
  unfolding announcers_def by (rule count_of_pos)

lemma watches_draining:
  assumes "sched_inv s" "watches (workerStage (workers s ! ShardIndex k s)) k l"
  shows "phase s k = Draining"
proof -
  have "worker_drain (workerStage (workers s ! ShardIndex k s)) = Some k"
    using assms(2) by (cases "workerStage (workers s ! ShardIndex k s)") auto
  then show ?thesis
    using worker_draining [OF assms(1) ShardIndex_less [OF permits_ok_workers [OF sched_invD(4) [OF assms(1)]]]]
    by blast
qed

lemma looked_after_same:
  assumes "drainFailed s' = drainFailed s" "gates s' k = gates s k" "announcers s' k = announcers s k"
    and "map workerStage (workers s') = map workerStage (workers s)" "workers s \<noteq> []"
  shows "looked_after s' k l = looked_after s k l"
proof -
  have len: "length (workers s') = length (workers s)" using assms(4) by (metis length_map)
  have "workerStage (workers s' ! i) = workerStage (workers s ! i)" if "i < length (workers s)" for i
    using arg_cong [OF assms(4), of "\<lambda>xs. xs ! i"] that len by simp
  then show ?thesis
    using assms(1-3) ShardIndex_cong [OF len] ShardIndex_less [OF assms(5)] by (simp add: looked_after_def)
qed

lemma ShardIndex_updates [simp]:
  "ShardIndex k (s\<lparr>gates := g\<rparr>) = ShardIndex k s"
  "ShardIndex k (s\<lparr>producers := ps\<rparr>) = ShardIndex k s"
  by (simp_all add: ShardIndex_def)

lemma mail_leased:
  assumes inv: "sched_inv s" and m: "mail_ok s" and p: "p < length (producers s)" and st: "producers s ! p = Leased k l e"
  shows "mail_ok (produced p s)"
proof (cases "started s \<and> \<not> stopRequested s")
  case False
  let ?s = "s\<lparr>producers := (producers s)[p := Returned (NrStatus_Failure NrErrorCode.CapacityExceeded)]\<rparr>"
  have r: "produced p s = ?s" using st False by (auto simp: produced_def)
  have "announcers ?s j = announcers s j" for j
    by (rule announcers_update [OF p, where st' = "Returned (NrStatus_Failure NrErrorCode.CapacityExceeded)"])
      (simp_all add: st)
  then have "looked_after ?s j l = looked_after s j l" for j l
    by (intro looked_after_same) (simp_all add: permits_ok_workers [OF sched_invD(4) [OF inv]])
  then show ?thesis using m unfolding r by (simp add: mail_ok_def)
next
  case True
  obtain t w where t: "TryBeginAdmission (gates s k) = (t, w)" by fastforce
  let ?st = "if Ticket_Accepted t then Ticketed k l e t else Leased k l e"
  let ?s = "s\<lparr>gates := (gates s)(k := w), producers := (producers s)[p := ?st]\<rparr>"
  have r: "produced p s = ?s" using st t True by (simp add: produced_def Let_def)
  have a: "announcers ?s j = announcers s j" for j
    by (rule announcers_update [OF p, of ?s ?st]) (simp_all add: st)
  have shape: "gate_shape (gates s k)" using sched_invD(1) [OF inv] by (simp add: gates_ok_def)
  have "looked_after ?s j x" if "looked_after s j x" for j x
  proof (cases "j = k")
    case False
    then have "looked_after ?s j x = looked_after s j x"
      by (intro looked_after_same) (simp_all add: a permits_ok_workers [OF sched_invD(4) [OF inv]])
    then show ?thesis using that by simp
  next
    case True
    have w: "watches (workerStage (workers ?s ! ShardIndex k ?s)) k x = watches (workerStage (workers s ! ShardIndex k s)) k x"
      by (simp add: ShardIndex_def)
    show ?thesis using t
      by (cases rule: TryBeginAdmission_cases)
        (use that a [of k] shape in \<open>auto simp: True looked_after_def gate_shape_def flagged_def\<close>)
  qed
  then have "mail_ok ?s" using m by (simp add: mail_ok_def)
  then show ?thesis using r by simp
qed

lemma mail_resolving:
  assumes inv: "sched_inv s" and m: "mail_ok s" and p: "p < length (producers s)"
    and st: "producers s ! p = Resolving k t r status"
  shows "mail_ok (produced p s)"
proof -
  obtain d t' w where c: "CompleteAdmission t r (gates s k) = (d, t', w)" by (metis prod_cases3)
  let ?st = "if r = CapacityRejected then Returned status else Directed k d status"
  let ?s = "s\<lparr>gates := (gates s)(k := w), producers := (producers s)[p := ?st]\<rparr>"
  have e: "produced p s = ?s" using st c by (simp add: produced_def)
  note ok = sched_invD(1) [OF inv]
  have so: "decision t = RequiresNewPermit \<or> decision t = UsesExistingPermit \<and> r \<noteq> CapacityRejected"
    using stage_ok_nth [OF ok p] st by simp
  have w: "watches (workerStage (workers ?s ! ShardIndex k ?s)) k x = watches (workerStage (workers s ! ShardIndex k s)) k x" for x
    by (simp add: ShardIndex_def)
  note dr = watches_draining [OF inv, of k]
  have "looked_after ?s j x" if l: "looked_after s j x" for j x
  proof (cases "j = k")
    case False
    then have "announcers ?s j = announcers s j"
      by (intro announcers_update [OF p, of ?s ?st]) (cases r; simp add: st)+
    with False have "looked_after ?s j x = looked_after s j x"
      by (intro looked_after_same) (simp_all add: permits_ok_workers [OF sched_invD(4) [OF inv]])
    then show ?thesis using l by simp
  next
    case True
    show ?thesis
    proof (cases "r = MailboxCommitted")
      case False
      then have a: "announcers ?s k = announcers s k" "announcers s k < inflight s k"
        by (intro announcers_update [OF p, of ?s ?st], simp, cases r; simp add: st)
          (rule announcers_less [OF ok p st False])
      show ?thesis
      proof (cases "decision t = RequiresNewPermit")
        case first: True
        note o = first_open [OF ok p, of k, unfolded st open_ticket.simps first, OF refl]
        have "gate_shape (gates s k)" using ok by (simp add: gates_ok_def)
        then show ?thesis using l o a dr [of x] first_admission_result [OF c first o(1,2)]
          unfolding True looked_after_def w by (auto simp: gate_shape_def)
      next
        case joined: False
        with so have u: "decision t = UsesExistingPermit" "r \<noteq> CapacityRejected" by auto
        note o = joined_open [OF ok p, of k, unfolded st open_ticket.simps u(1), OF refl]
        show ?thesis using c u o(2,1,3)
          by (cases rule: joined_admission_cases)
            (use l a dr [of x] in \<open>auto simp: True looked_after_def w flagged_def\<close>)
      qed
    next
      case committed: True
      show ?thesis
      proof (cases "decision t = RequiresNewPermit")
        case first: True
        note o = first_open [OF ok p, of k, unfolded st open_ticket.simps first, OF refl]
        show ?thesis using first_admission_result(1) [OF c first o(1,2)] committed
          unfolding True looked_after_def by simp
      next
        case joined: False
        with so have u: "decision t = UsesExistingPermit" "r \<noteq> CapacityRejected" by auto
        note o = joined_open [OF ok p, of k, unfolded st open_ticket.simps u(1), OF refl]
        have shape: "gate_shape (gates s k)" using ok by (simp add: gates_ok_def)
        show ?thesis using c u o(2,1,3)
          by (cases rule: joined_admission_cases)
            (use committed o shape in \<open>auto simp: True looked_after_def flagged_def gate_shape_def
              split: NrPackedPhase.splits\<close>)
      qed
    qed
  qed
  then have "mail_ok ?s" using m by (simp add: mail_ok_def)
  then show ?thesis using e by simp
qed

lemma mail_permitted:
  assumes inv: "sched_inv s" and m: "mail_ok s" and p: "p < length (producers s)" and st: "producers s ! p = Permitted k l e t"
  shows "mail_ok (produced p s)"
proof -
  obtain es box where b: "spec_push (mailboxCapacity s) e (mail s k l) = (es, box)" by fastforce
  let ?st = "Resolving k t (if Succeeded es then MailboxCommitted else MailboxRejected) es"
  let ?s = "s\<lparr>mail := (mail s)(k := (mail s k)(l := box)), producers := (producers s)[p := ?st]\<rparr>"
  have r: "produced p s = ?s" using st b by (auto simp: produced_def)
  have full: "box = mail s k l" if "\<not> Succeeded es" using b that by (auto simp: spec_push_def split: if_splits)
  have "looked_after ?s j x" if "mail ?s j x \<noteq> []" for j x
  proof (cases "j = k \<and> Succeeded es")
    case True
    then have "0 < announcers ?s j" using announcers_pos [of p ?s k] p by simp
    then show ?thesis by (simp add: looked_after_def)
  next
    case False
    then have "announcers ?s j = announcers s j"
      by (intro announcers_update [OF p, of ?s ?st]) (auto simp: st)
    then have "looked_after ?s j x = looked_after s j x"
      by (intro looked_after_same) (simp_all add: permits_ok_workers [OF sched_invD(4) [OF inv]])
    moreover have "mail s j x \<noteq> []" using that False full by (auto split: if_splits)
    ultimately show ?thesis using m by (simp add: mail_ok_def)
  qed
  then have "mail_ok ?s" unfolding mail_ok_def by blast
  then show ?thesis using r by simp
qed

lemma mail_ok_produced:
  assumes inv: "sched_inv s" and m: "mail_ok s" and p: "p < length (producers s)"
  shows "mail_ok (produced p s)"
proof -
  define st where "st = producers s ! p"
  obtain st' s' where e: "Enqueue_step st s = (st', s')" by fastforce
  note fr = Enqueue_frame [OF e]
  let ?s = "s'\<lparr>producers := (producers s)[p := st']\<rparr>"
  have r: "produced p s = ?s" using e fr by (simp add: produced_def st_def)
  consider (leased) k l x where "st = Leased k l x" | (permitted) k l x t where "st = Permitted k l x t"
    | (resolving) k t r status where "st = Resolving k t r status"
    | (other) "gates s' = gates s" "mail s' = mail s" "announcing st = None" "announcing st' = None"
    using e by (cases st) (auto simp: Let_def directive_frame permit_frame split: if_splits prod.splits)
  then show ?thesis
  proof cases
    case leased then show ?thesis using mail_leased [OF inv m p] by (simp add: st_def)
  next
    case permitted then show ?thesis using mail_permitted [OF inv m p] by (simp add: st_def)
  next
    case resolving then show ?thesis using mail_resolving [OF inv m p] by (simp add: st_def)
  next
    case other
    have "announcers ?s k = announcers s k" for k
      using announcers_update [OF p, of ?s st'] other by (simp add: st_def)
    then have "looked_after ?s k l = looked_after s k l" for k l
      using fr other(1) by (intro looked_after_same) (simp_all add: permits_ok_workers [OF sched_invD(4) [OF inv]])
    then show ?thesis using m other(2) unfolding r by (simp add: mail_ok_def)
  qed
qed

text \<open>A worker step that changes the place of worker \<open>i\<close> on an actor \<open>k\<close> of its shard.\<close>

lemma mail_work:
  assumes "sched_inv s" and m: "mail_ok s" and i: "i < length (workers s)"
    and ws: "length (workers s') = length (workers s)"
      "\<And>j. j < length (workers s) \<Longrightarrow> j \<noteq> i \<Longrightarrow> workers s' ! j = workers s ! j"
    and same: "producers s' = producers s" "\<And>j. j \<noteq> k \<Longrightarrow> gates s' j = gates s j"
      "\<And>j. j \<noteq> k \<Longrightarrow> drainFailed s' j = drainFailed s j" "\<And>j. j \<noteq> k \<Longrightarrow> mail s' j = mail s j"
    and key: "ShardIndex k s = i"
    and elsewhere: "\<And>j l. j \<noteq> k \<Longrightarrow> \<not> watches (workerStage (workers s ! i)) j l"
    and at: "\<And>l. mail s' k l \<noteq> [] \<Longrightarrow> looked_after s' k l"
  shows "mail_ok s'"
  unfolding mail_ok_def
proof (intro allI impI)
  fix j l assume n: "mail s' j l \<noteq> []"
  show "looked_after s' j l"
  proof (cases "j = k")
    case True then show ?thesis using at n by simp
  next
    case False
    have sh: "ShardIndex j s' = ShardIndex j s" "ShardIndex j s < length (workers s)"
      using ShardIndex_cong [OF ws(1)] ShardIndex_less [OF permits_ok_workers [OF sched_invD(4) [OF assms(1)]]] by auto
    have "looked_after s j l" using m n same(4) [OF False] by (simp add: mail_ok_def)
    moreover have "announcers s' j = announcers s j" by (simp add: announcers_def same(1))
    ultimately show ?thesis
      using same(2,3) [OF False] elsewhere [OF False] ws(2) sh
      by (cases "ShardIndex j s = i") (auto simp: looked_after_def)
  qed
qed

text \<open>Outside a drain a worker changes no gate and no mail, and looks at no mailbox.\<close>

lemma mail_idle_work:
  assumes "sched_inv s" and m: "mail_ok s" and i: "i < length (workers s)"
    and "workers s' = (workers s)[i := w]" "producers s' = producers s" "gates s' = gates s" "mail s' = mail s"
      "drainFailed s' = drainFailed s"
    and "worker_drain (workerStage (workers s ! i)) = None"
  shows "mail_ok s'"
  unfolding mail_ok_def
proof (intro allI impI)
  fix k l assume "mail s' k l \<noteq> []"
  then have l: "looked_after s k l" using m assms(7) by (simp add: mail_ok_def)
  have "\<not> watches (workerStage (workers s ! i)) k l"
    using assms(9) by (cases "workerStage (workers s ! i)") auto
  moreover have "ShardIndex k s' = ShardIndex k s" by (rule ShardIndex_cong) (simp add: assms(4))
  moreover have "announcers s' k = announcers s k" by (simp add: announcers_def assms(5))
  ultimately show "looked_after s' k l" using l assms(4,6,8)
    by (cases "ShardIndex k s = i") (auto simp: looked_after_def)
qed

lemma mail_draining:
  assumes inv: "sched_inv s" and m: "mail_ok s" and i: "i < length (workers s)"
    and st: "workerStage (workers s ! i) = DrainRecv k left \<or> workerStage (workers s ! i) = DrainSend k left took"
  shows "mail_ok (Worker_step i handled s)"
proof -
  let ?s = "Worker_step i handled s"
  have shard: "ShardIndex k s = i"
    by (rule permits_okD(5) [OF sched_invD(4) [OF inv] i]) (use st in auto)
  have len: "length (workers ?s) = length (workers s)"
    using st by (auto simp: Worker_step_def set_worker_def take_mail_def fail_drain_def)
  have shard': "ShardIndex k ?s = i" using ShardIndex_cong [OF len] shard by simp
  have ann: "announcers ?s k = announcers s k"
    using st i by (auto simp: Worker_step_def announcers_def set_worker_def take_mail_def fail_drain_def)
  have look: "looked_after s k l" if "mail s k l \<noteq> []" for l using m that by (simp add: mail_ok_def)
  show ?thesis
  proof (rule mail_work [OF inv m i, where k = k])
    fix l assume n: "mail ?s k l \<noteq> []"
    have n': "mail s k l \<noteq> []"
      using n st i by (auto simp: Worker_step_def set_worker_def take_mail_def fail_drain_def split: if_splits)
    show "looked_after ?s k l"
      using look [OF n'] n n' st i shard shard' ann
      by (cases l) (auto simp: looked_after_def Worker_step_def set_worker_def take_mail_def fail_drain_def split: if_splits)
  qed (use st i shard in \<open>auto simp: Worker_step_def set_worker_def take_mail_def fail_drain_def split: if_splits\<close>)
qed

lemma idle_worker:
  assumes inv: "sched_inv s" and i: "i < length (workers s)" and "workerStage (workers s ! i) = st"
    and st: "st = Waiting \<or> st = Popped k \<or> st = RunCompleted k d \<or> st = Cleaning k"
  shows "\<exists>w. Worker_step i handled s = s\<lparr>workers := (workers s)[i := w]\<rparr>"
proof -
  have shard: "st = Waiting \<or> ShardIndex k s = i"
    using st permits_okD(5) [OF sched_invD(4) [OF inv] i, of k] assms(3) by auto
  have "\<exists>w. Run_step st i handled s = s\<lparr>workers := (workers s)[i := w]\<rparr>" using st
  proof (elim disjE)
    assume "st = Waiting"
    then show ?thesis using i
      by (cases "readyQueue (workers s ! i)")
        (auto simp: TryPopReadyQueue_def spec_pop_def set_worker_def)
  next
    assume "st = Popped k"
    then show ?thesis using i shard by (auto simp: ReleaseRunnablePermit_def set_worker_def)
  next
    assume "st = RunCompleted k d"
    then show ?thesis using i shard
      by (cases d) (auto simp: ApplyScheduleDirective_def TryPushReadyQueue_def ReleaseRunnablePermit_def
          set_worker_def Let_def split: prod.splits)
  next
    assume "st = Cleaning k"
    then show ?thesis by (auto simp: set_worker_def)
  qed
  then show ?thesis using i assms(3) by (simp add: Worker_step_def)
qed

lemma mail_run_leased:
  assumes inv: "sched_inv s" and m: "mail_ok s" and i: "i < length (workers s)"
    and st: "workerStage (workers s ! i) = RunLeased k"
  shows "mail_ok (Worker_step i handled s)"
proof -
  have shard: "ShardIndex k s = i" by (rule permits_okD(5) [OF sched_invD(4) [OF inv] i]) (simp add: st)
  obtain b w where b: "TryBeginDrain (gates s k) = (b, w)" by fastforce
  note res = TryBeginDrain_scheduled [OF b run_leased(2) [OF inv i st]]
  let ?w = "(workers s ! i)\<lparr>workerStage := DrainRecv k (actorDrainBudget (schedulerConfig s))\<rparr>"
  let ?s = "s\<lparr>gates := (gates s)(k := w), workers := (workers s)[i := ?w]\<rparr>"
  have r: "Worker_step i handled s = ?s" using st i b res(1) by (simp add: Worker_step_def set_worker_def Let_def)
  have "ShardIndex k ?s = i" using ShardIndex_cong [of ?s s k] shard by simp
  then have "looked_after ?s k l" for l using i by (simp add: looked_after_def)
  then have "mail_ok ?s"
    by (intro mail_work [OF inv m i, where k = k]) (use st shard in auto)
  then show ?thesis using r by simp
qed

lemma mail_drain_ended:
  assumes inv: "sched_inv s" and m: "mail_ok s" and i: "i < length (workers s)"
    and st: "workerStage (workers s ! i) = DrainEnded k again"
  shows "mail_ok (Worker_step i handled s)"
proof -
  have shard: "ShardIndex k s = i" by (rule permits_okD(5) [OF sched_invD(4) [OF inv] i]) (simp add: st)
  have ph: "phase s k = Draining" using worker_draining [OF inv i, of k] by (simp add: st)
  obtain d w where c: "CompleteDrain again (gates s k) = (d, w)" by fastforce
  let ?w = "(workers s ! i)\<lparr>workerStage := RunCompleted k d\<rparr>"
  let ?s = "s\<lparr>gates := (gates s)(k := w), workers := (workers s)[i := ?w]\<rparr>"
  have r: "Worker_step i handled s = ?s" using c st i by (simp add: Worker_step_def set_worker_def)
  have le: "announcers s k \<le> inflight s k" by (rule announcers_le [OF sched_invD(1) [OF inv]])
  have a: "announcers ?s k = announcers s k" by (simp add: announcers_def)
  have "looked_after ?s k l" if "mail s k l \<noteq> []" for l
  proof -
    have l: "looked_after s k l" using m that by (simp add: mail_ok_def)
    show ?thesis using c ph
      by (cases rule: CompleteDrain_cases)
        (use l le a shard ph st in \<open>auto simp: looked_after_def flagged_def\<close>)
  qed
  then have "mail_ok ?s"
    by (intro mail_work [OF inv m i, where k = k]) (use st shard in auto)
  then show ?thesis using r by simp
qed

lemma mail_ok_worker:
  assumes inv: "sched_inv s" and m: "mail_ok s" and i: "i < length (workers s)"
  shows "mail_ok (Worker_step i handled s)"
proof (cases "workerStage (workers s ! i)")
  case (RunLeased k) then show ?thesis by (rule mail_run_leased [OF inv m i])
next
  case (DrainRecv k left) then show ?thesis using mail_draining [OF inv m i] by blast
next
  case (DrainSend k left took) then show ?thesis using mail_draining [OF inv m i] by blast
next
  case (DrainEnded k again) then show ?thesis by (rule mail_drain_ended [OF inv m i])
next
  case Waiting
  then obtain w where r: "Worker_step i handled s = s\<lparr>workers := (workers s)[i := w]\<rparr>"
    using idle_worker [OF inv i] by blast
  show ?thesis unfolding r by (rule mail_idle_work [OF inv m i, where w = w]) (simp_all add: Waiting)
next
  case (Popped k)
  then obtain w where r: "Worker_step i handled s = s\<lparr>workers := (workers s)[i := w]\<rparr>"
    using idle_worker [OF inv i] by blast
  show ?thesis unfolding r by (rule mail_idle_work [OF inv m i, where w = w]) (simp_all add: Popped)
next
  case (RunCompleted k d)
  then obtain w where r: "Worker_step i handled s = s\<lparr>workers := (workers s)[i := w]\<rparr>"
    using idle_worker [OF inv i] by blast
  show ?thesis unfolding r by (rule mail_idle_work [OF inv m i, where w = w]) (simp_all add: RunCompleted)
next
  case (Cleaning k)
  then obtain w where r: "Worker_step i handled s = s\<lparr>workers := (workers s)[i := w]\<rparr>"
    using idle_worker [OF inv i] by blast
  show ?thesis unfolding r by (rule mail_idle_work [OF inv m i, where w = w]) (simp_all add: Cleaning)
qed

end
