(* ===== verification/NrSchedulerLaws.thy ===== *)
theory NrSchedulerLaws imports NrSchedulerRun begin

text \<open>
  What the scheduler guarantees in every state its threads can reach: permits bound the runnable
  actors of a shard and the ready queue never overflows, an actor has at most one run token and
  one worker, mail is never forgotten, and a call that fails leaves no trace.
\<close>

section \<open>The registry and the callers keep the invariants\<close>

lemma call_keeps:
  assumes inv: "sched_inv s" and m: "mail_ok s" and p: "p < length (producers s)" and st: "producers s ! p = Returned status"
  shows "sched_inv (s\<lparr>producers := (producers s)[p := Calling k l e]\<rparr>) \<and>
    mail_ok (s\<lparr>producers := (producers s)[p := Calling k l e]\<rparr>)"
proof -
  let ?s = "s\<lparr>producers := (producers s)[p := Calling k l e]\<rparr>"
  have "gates_ok ?s"
    by (rule gates_ok_same [OF sched_invD(1) [OF inv] p, where st' = "Calling k l e"]) (simp_all add: st)
  moreover have "tokens_ok ?s \<and> permits_ok ?s"
    by (rule quiet_step [OF inv p, where st' = "Calling k l e"]) (simp_all add: st)
  moreover have "leased j s" if "leased j ?s" for j
    using that by (auto simp: leased_def dest: set_update_subset_insert [THEN subsetD])
  then have "leases_ok ?s" using sched_invD(2) [OF inv] by (auto simp: leases_ok_def)
  moreover have "announcers ?s j = announcers s j" for j
    by (rule announcers_update [OF p, where st' = "Calling k l e"]) (simp_all add: st)
  then have "looked_after ?s j x = looked_after s j x" for j x
    by (intro looked_after_same) (simp_all add: permits_ok_workers [OF sched_invD(4) [OF inv]])
  then have "mail_ok ?s" using m by (simp add: mail_ok_def)
  ultimately show ?thesis by (simp add: sched_inv_def)
qed

text \<open>A step that changes neither gates, workers, producers nor mail.\<close>

lemma outer_step:
  assumes inv: "sched_inv s" and m: "mail_ok s"
    and e: "workers s' = workers s" "producers s' = producers s" "gates s' = gates s" "mail s' = mail s"
      "drainFailed s' = drainFailed s" "schedulerConfig s' = schedulerConfig s"
    and z: "presence s' 0 = Unregistered"
    and pr: "\<And>k. presence s' k \<noteq> presence s k \<Longrightarrow>
      \<not> leased k s \<and> (presence s k = Unregistered \<and> presence s' k = Registered \<or> presence s' k = Deregistered)"
  shows "sched_inv s' \<and> mail_ok s'"
proof -
  have g: "gates_ok s'" using sched_invD(1) [OF inv] by (simp add: gates_ok_def firsts_def joins_def e)
  have lease: "leased k s' = leased k s" for k by (simp add: leased_def e)
  have "leases_ok s'"
    unfolding leases_ok_def
  proof (intro conjI z allI impI)
    fix k assume "leased k s'"
    then have "leased k s" by (simp add: lease)
    then show "presence s' k = Registered" using pr [of k] sched_invD(2) [OF inv] by (auto simp: leases_ok_def)
  qed
  moreover have "tokens_ok s'"
    unfolding tokens_ok_def
  proof
    fix k
    have same: "tokens s' k = tokens s k" "drains s' k = drains s k" by (simp_all add: tokens_def drains_def e)
    show "tokens s' k \<le> 1 \<and> (presence s' k \<noteq> Deregistered \<longrightarrow> tokens s' k = of_bool (phase s' k = Scheduled)) \<and>
        drains s' k = of_bool (phase s' k = Draining) \<and> (presence s' k = Unregistered \<longrightarrow> phase s' k = Idle)"
    proof -
      have old: "tokens s k \<le> 1" "presence s k \<noteq> Deregistered \<Longrightarrow> tokens s k = of_bool (phase s k = Scheduled)"
          "drains s k = of_bool (phase s k = Draining)" "presence s k = Unregistered \<Longrightarrow> phase s k = Idle"
        using sched_invD(3) [OF inv] by (simp_all add: tokens_ok_def)
      have "presence s' k \<noteq> Deregistered \<Longrightarrow> presence s k \<noteq> Deregistered"
        using pr [of k] by (cases "presence s' k = presence s k") auto
      moreover have "presence s' k = Unregistered \<Longrightarrow> presence s k = Unregistered"
        using pr [of k] by (cases "presence s' k = presence s k") auto
      ultimately show ?thesis unfolding same e(3) using old by blast
    qed
  qed
  moreover have "permits_ok s'"
  proof (rule permits_ok_same [OF sched_invD(4) [OF inv] e(1,6)])
    fix i
    have "producer_permits s' i = producer_permits s i" by (rule producer_permits_same) (simp_all only: e)
    moreover have "deferred s' i = deferred s i" by (rule deferred_same) (simp_all only: e)
    ultimately show "producer_permits s' i + deferred s' i = producer_permits s i + deferred s i" by simp
  qed
  moreover have "looked_after s' k l = looked_after s k l" for k l
    by (rule looked_after_same) (simp_all add: e announcers_def permits_ok_workers [OF sched_invD(4) [OF inv]])
  then have "mail_ok s'" using m by (simp add: mail_ok_def e)
  ultimately show ?thesis using g by (simp add: sched_inv_def)
qed

lemma scheduler_step_keeps:
  assumes "scheduler_step s s'" "sched_inv s" "mail_ok s"
  shows "sched_inv s' \<and> mail_ok s'"
  using assms
proof cases
  case (call p status k l e)
  then show ?thesis using call_keeps [OF assms(2,3)] by simp
next
  case (produce p st u)
  then have "s' = produced p s" by (simp add: produced_def)
  then show ?thesis using sched_inv_produced [OF assms(2) produce(2)] mail_ok_produced [OF assms(2,3) produce(2)] by simp
next
  case (work i handled)
  then show ?thesis using sched_inv_worker [OF assms(2)] mail_ok_worker [OF assms(2,3)] by simp
next
  case (register k)
  then have "\<not> leased k s" using sched_invD(2) [OF assms(2)] by (auto simp: leases_ok_def)
  then show ?thesis unfolding register(1)
    by (intro outer_step [OF assms(2,3)])
      (use register sched_invD(2) [OF assms(2)] in \<open>auto simp: leases_ok_def split: if_splits\<close>)
next
  case (deregister k)
  then show ?thesis unfolding deregister(1)
    by (intro outer_step [OF assms(2,3)])
      (use deregister sched_invD(2) [OF assms(2)] in \<open>auto simp: leases_ok_def split: if_splits\<close>)
next
  case (stop status)
  then have "s' = s\<lparr>stopRequested := True, started := False\<rparr>" by (simp add: Scheduler_RequestStop_def)
  then show ?thesis
    using outer_step [OF assms(2,3), of s'] sched_invD(2) [OF assms(2)] by (simp add: leases_ok_def)
qed

lemma zero_word [simp]:
  "PackedPhase 0 = Idle" "ProducerInFlight 0 = 0" "\<not> HasBit 0 b" "\<not> flagged 0" "gate_shape 0"
  by (simp_all add: PackedPhase_def ProducerInFlight_def HasBit_def flagged_def gate_shape_def)

lemma launch_keeps:
  assumes c: "Scheduler_Configure (fresh_scheduler config mailboxes threads) = (st1, s1)" "Succeeded st1"
    and s: "Scheduler_Start s1 = (st2, s)"
  shows "sched_inv s \<and> mail_ok s"
proof -
  let ?n = "actorWorkerCount config"
  let ?w = "\<lparr>readyQueue = [], admittedRunnableActors =
      \<lparr>permitCapacity = unat (maxAdmittedRunnableActors config), permitCount = 0\<rparr>, workerStage = Waiting\<rparr>"
  have n: "0 < ?n"
    using c by (auto simp: Scheduler_Configure_def ValidateConfig_def fresh_scheduler_def Let_def split: if_splits)
  have e: "workers s = replicate ?n ?w" "producers s = replicate threads (Returned NrStatus_Success)"
      "presence s = (\<lambda>k. Unregistered)" "gates s = (\<lambda>k. 0)" "mail s = (\<lambda>k l. [])" "schedulerConfig s = config"
    using c s by (auto simp: Scheduler_Configure_def Scheduler_Start_def fresh_scheduler_def Let_def
        EnsureReadyQueueStorage_def Failed_def split: if_splits)
  have none: "count_of P (replicate m x) = 0" if "\<not> P x" for P m and x :: 'b using that by (simp add: count_of_def)
  have "gates_ok s" by (simp add: gates_ok_def e firsts_def joins_def none)
  moreover have "leases_ok s" by (auto simp: leases_ok_def e leased_def)
  moreover have "tokens_ok s"
    by (simp add: tokens_ok_def e tokens_def drains_def none sum_list_replicate map_replicate_const)
  moreover have "permits_ok s"
    unfolding permits_ok_def
  proof (intro conjI allI impI)
    show "workers s \<noteq> []" using n by (simp add: e)
    fix i assume i: "i < length (workers s)"
    then have w: "workers s ! i = ?w" unfolding e by (simp del: replicate_eq_replicate)
    have "deferred s i = 0" by (simp add: deferred_def e)
    moreover have "producer_permits s i = 0" by (simp add: producer_permits_def e none)
    ultimately have run: "runnable s i = 0" by (simp add: runnable_def w)
    show "permitCapacity (admittedRunnableActors (workers s ! i)) = unat (maxAdmittedRunnableActors (schedulerConfig s))"
        "permitCount (admittedRunnableActors (workers s ! i)) = runnable s i"
        "runnable s i \<le> unat (maxAdmittedRunnableActors (schedulerConfig s))"
      unfolding w run e(6) by simp_all
    show "\<forall>k \<in> set (readyQueue (workers s ! i)). ShardIndex k s = i" by (simp add: w)
    fix k assume "worker_key (workerStage (workers s ! i)) = Some k"
    then show "ShardIndex k s = i" by (simp add: w)
  qed
  moreover have "mail_ok s" by (simp add: mail_ok_def e)
  ultimately show ?thesis by (simp add: sched_inv_def)
qed

lemma scheduler_reachable_inv: "scheduler_reachable s \<Longrightarrow> sched_inv s \<and> mail_ok s"
proof (induction rule: scheduler_reachable.induct)
  case launch then show ?case by (rule launch_keeps)
next
  case advance then show ?case using scheduler_step_keeps by blast
qed

section \<open>Where a runnable actor is\<close>

lemma count_of_memberE:
  assumes "0 < count_of P xs"
  obtains p where "p < length xs" "P (xs ! p)"
proof -
  obtain x where "x \<in> set xs" "P x" using assms count_of_zero [of P xs] by auto
  then show ?thesis using that by (metis in_set_conv_nth)
qed

lemma leased_producer:
  "p < length (producers s) \<Longrightarrow> producer_lease (producers s ! p) = Some k \<Longrightarrow> leased k s"
  unfolding leased_def by (metis nth_mem)

lemma leased_worker:
  "i < length (workers s) \<Longrightarrow> worker_lease (workerStage (workers s ! i)) = Some k \<Longrightarrow> leased k s"
  unfolding leased_def by (metis nth_mem)

lemma token_place:
  assumes inv: "sched_inv s" and t: "0 < tokens s k"
  shows "leased k s \<or> k \<in> set (readyQueue (workers s ! ShardIndex k s)) \<or>
    workerStage (workers s ! ShardIndex k s) = Popped k"
proof -
  have shard: "worker_key (workerStage (workers s ! i)) = Some k \<Longrightarrow> ShardIndex k s = i"
      "k \<in> set (readyQueue (workers s ! i)) \<Longrightarrow> ShardIndex k s = i" if "i < length (workers s)" for i
    using permits_okD(4,5) [OF sched_invD(4) [OF inv] that] by auto
  consider (p) "0 < count_of (\<lambda>st. producer_token st = Some k) (producers s)"
    | (w) "0 < count_of (\<lambda>w. worker_token (workerStage w) = Some k) (workers s)"
    | (q) "sum_list (map (\<lambda>w. count_list (readyQueue w) k) (workers s)) \<noteq> 0"
    using t unfolding tokens_def by linarith
  then show ?thesis
  proof cases
    case p
    then obtain q where q: "q < length (producers s)" "producer_token (producers s ! q) = Some k"
      by (rule count_of_memberE)
    then have "producer_lease (producers s ! q) = Some k"
      by (cases "producers s ! q" rule: producer_token.cases) auto
    then show ?thesis using leased_producer q(1) by blast
  next
    case w
    then obtain i where i: "i < length (workers s)" "worker_token (workerStage (workers s ! i)) = Some k"
      by (rule count_of_memberE)
    then have "workerStage (workers s ! i) = Popped k \<or> worker_lease (workerStage (workers s ! i)) = Some k"
      by (cases "workerStage (workers s ! i)" rule: worker_token.cases) auto
    then show ?thesis using leased_worker [OF i(1)] shard(1) [OF i(1)] by auto
  next
    case q
    then obtain w where "w \<in> set (workers s)" "count_list (readyQueue w) k \<noteq> 0" by auto
    then obtain i where "i < length (workers s)" "k \<in> set (readyQueue (workers s ! i))"
      by (metis count_list_0_iff in_set_conv_nth)
    then show ?thesis using shard(2) by auto
  qed
qed

lemma open_ticket_lease: "open_ticket st = Some (k, d) \<Longrightarrow> producer_lease st = Some k"
  by (cases st) auto

lemma pinned_leased:
  assumes "gates_ok s" "0 < inflight s k"
  shows "leased k s"
proof -
  have "0 < firsts s k \<or> 0 < joins s k" using assms by (auto simp: gates_ok_def)
  then show ?thesis
    unfolding firsts_def joins_def
    by (elim disjE; elim count_of_memberE) (blast intro: leased_producer open_ticket_lease)+
qed

lemma draining_leased:
  assumes "tokens_ok s" "phase s k = Draining"
  shows "leased k s"
proof -
  have "0 < drains s k" using assms by (simp add: tokens_ok_def)
  then obtain i where "i < length (workers s)" "worker_drain (workerStage (workers s ! i)) = Some k"
    unfolding drains_def by (rule count_of_memberE)
  moreover from this have "worker_lease (workerStage (workers s ! i)) = Some k"
    by (cases "workerStage (workers s ! i)") auto
  ultimately show ?thesis using leased_worker by blast
qed

section \<open>A call on its own\<close>

text \<open>A call of \<^verbatim>\<open>Enqueue\<close> that no other thread interrupts takes at most seven steps.\<close>

fun run_enqueue :: "nat \<Rightarrow> 'e producer_stage \<Rightarrow> 'e scheduler \<Rightarrow> 'e producer_stage \<times> 'e scheduler" where
  "run_enqueue 0 st s = (st, s)"
| "run_enqueue (Suc n) st s = (case Enqueue_step st s of (st', s') \<Rightarrow> run_enqueue n st' s')"

definition Enqueue_alone :: "u64 \<Rightarrow> lane \<Rightarrow> 'e \<Rightarrow> 'e scheduler \<Rightarrow> 'e producer_stage \<times> 'e scheduler" where
  "Enqueue_alone k l e s = run_enqueue 7 (Calling k l e) s"

definition enqueue_status :: "u64 \<Rightarrow> lane \<Rightarrow> 'e scheduler \<Rightarrow> NrStatus" where
  "enqueue_status k l s =
     (if k = 0 then NrStatus_Failure NrErrorCode.InvalidArgument
      else if \<not> started s \<or> stopRequested s then NrStatus_Failure NrErrorCode.InvalidState
      else if presence s k \<noteq> Registered then NrStatus_Failure NrErrorCode.InvalidArgument
      else if phase s k = Idle \<and>
          permitCapacity (admittedRunnableActors (workers s ! ShardIndex k s)) \<le>
          permitCount (admittedRunnableActors (workers s ! ShardIndex k s))
      then NrStatus_Failure NrErrorCode.QueueFull
      else if mailboxCapacity s \<le> length (mail s k l) then NrStatus_Failure NrErrorCode.QueueFull
      else NrStatus_Success)"

text \<open>What a call may leave behind: nothing but, on success, the event and a run token.\<close>

definition no_trace :: "'e scheduler \<Rightarrow> 'e scheduler \<Rightarrow> bool" where
  "no_trace s s' \<longleftrightarrow> mail s' = mail s \<and> workers s' = workers s \<and> producers s' = producers s \<and>
     presence s' = presence s \<and> drainFailed s' = drainFailed s \<and>
     (\<forall>j. decode (gates s' j) = decode (gates s j))"

definition delivered :: "u64 \<Rightarrow> lane \<Rightarrow> 'e \<Rightarrow> 'e scheduler \<Rightarrow> 'e scheduler \<Rightarrow> bool" where
  "delivered k l e s s' \<longleftrightarrow> mail s' = (mail s)(k := (mail s k)(l := mail s k l @ [e])) \<and>
     producers s' = producers s \<and> presence s' = presence s \<and>
     (\<forall>j. j \<noteq> k \<longrightarrow> gates s' j = gates s j) \<and>
     (if phase s k = Idle then phase s' k = Scheduled \<and> k \<in> set (readyQueue (workers s' ! ShardIndex k s'))
      else workers s' = workers s \<and> phase s' k = phase s k)"

lemma run_enqueue_step [simp]:
  "run_enqueue (numeral n) st s = (case Enqueue_step st s of (st', s') \<Rightarrow> run_enqueue (pred_numeral n) st' s')"
  by (simp add: numeral_eq_Suc)

lemma run_enqueue_returned [simp]: "run_enqueue n (Returned status) s = (Returned status, s)"
  by (induction n) simp_all

lemma decode_eq:
  "PackedPhase w = PackedPhase v \<Longrightarrow> unat (ProducerInFlight w) = unat (ProducerInFlight v) \<Longrightarrow>
    HasBit w PendingBit = HasBit v PendingBit \<Longrightarrow>
    HasBit w DrainNeedsRescheduleBit = HasBit v DrainNeedsRescheduleBit \<Longrightarrow> decode w = decode v"
  by (simp add: decode_def)

lemma alone_rejected:
  assumes "k = 0 \<or> \<not> started s \<or> stopRequested s \<or> presence s k \<noteq> Registered"
  shows "Enqueue_alone k l e s = (Returned (enqueue_status k l s), s)"
  using assms by (auto simp: Enqueue_alone_def enqueue_status_def TryAcquireLease_status_def Let_def)

text \<open>The steps after the lease.\<close>

lemma alone_leased:
  assumes "k \<noteq> 0" "started s" "\<not> stopRequested s" "presence s k = Registered"
  shows "Enqueue_alone k l e s = run_enqueue 5 (Leased k l e) s"
  using assms by (simp add: Enqueue_alone_def TryAcquireLease_status_def Let_def)

definition alone_ok :: "u64 \<Rightarrow> lane \<Rightarrow> 'e \<Rightarrow> 'e scheduler \<Rightarrow> bool" where
  "alone_ok k l e s \<longleftrightarrow>
     (case Enqueue_alone k l e s of (st, s') \<Rightarrow>
        st = Returned (enqueue_status k l s) \<and>
        (if Succeeded (enqueue_status k l s) then delivered k l e s s' else no_trace s s'))"

lemma alone_joined:
  assumes run: "k \<noteq> 0" "started s" "\<not> stopRequested s" "presence s k = Registered"
    and t: "TryBeginAdmission (gates s k) = (t, w1)" and u: "decision t = UsesExistingPermit"
    and ph: "phase s k = Scheduled \<or> phase s k = Draining" and free: "inflight s k = 0"
  shows "alone_ok k l e s"
proof -
  obtain es box where b: "spec_push (mailboxCapacity s) e (mail s k l) = (es, box)" by fastforce
  have es: "es = enqueue_status k l s" "box = (if Succeeded es then mail s k l @ [e] else mail s k l)"
    using b run ph by (auto simp: spec_push_def enqueue_status_def split: if_splits)
  let ?r = "if Succeeded es then MailboxCommitted else MailboxRejected"
  obtain d t' w2 where c: "CompleteAdmission t ?r w1 = (d, t', w2)" by (metis prod_cases3)
  have w1: "PackedPhase w1 = phase s k" "unat (ProducerInFlight w1) = 1"
      "HasBit w1 PendingBit = HasBit (gates s k) PendingBit"
      "HasBit w1 DrainNeedsRescheduleBit = HasBit (gates s k) DrainNeedsRescheduleBit"
    using t u by (cases rule: TryBeginAdmission_cases; simp add: free)+
  have kept: "d = NoAction" "PackedPhase w2 = phase s k" "unat (ProducerInFlight w2) = 0"
      "HasBit w2 PendingBit \<longleftrightarrow> HasBit (gates s k) PendingBit \<or> ?r = MailboxCommitted \<and> phase s k = Draining"
      "HasBit w2 DrainNeedsRescheduleBit = HasBit (gates s k) DrainNeedsRescheduleBit"
    using c u
    by (cases rule: joined_admission_cases; use w1 ph in \<open>auto split: if_splits\<close>)+
  let ?s = "s\<lparr>gates := (gates s)(k := w2), mail := (mail s)(k := (mail s k)(l := box))\<rparr>"
  have step: "Ticket_Accepted t" "\<not> NeedsNewPermit t" using u by (simp_all add: Ticket_Accepted_def NeedsNewPermit_def)
  have "Enqueue_alone k l e s = (Returned es, ?s)"
    using run t step b c kept(1)
    by (simp add: alone_leased Let_def ApplyScheduleDirective_def)
  then show ?thesis
    using es ph kept free decode_eq [of w2 "gates s k"]
    by (auto simp: alone_ok_def delivered_def no_trace_def)
qed

text \<open>The actor is idle: the first producer reserves a permit, and gives it back when it fails.\<close>

lemma alone_no_permit:
  assumes run: "k \<noteq> 0" "started s" "\<not> stopRequested s" "presence s k = Registered" and inv: "sched_inv s"
    and t: "TryBeginAdmission (gates s k) = (t, w1)" and u: "decision t = RequiresNewPermit"
    and full: "permitCapacity (admittedRunnableActors (workers s ! ShardIndex k s)) \<le>
      permitCount (admittedRunnableActors (workers s ! ShardIndex k s))"
    and idle: "phase s k = Idle"
  shows "alone_ok k l e s"
proof -
  have shape: "gate_shape (gates s k)" using sched_invD(1) [OF inv] by (simp add: gates_ok_def)
  have i: "ShardIndex k s < length (workers s)"
    by (rule ShardIndex_less [OF permits_ok_workers [OF sched_invD(4) [OF inv]]])
  obtain d t' w2 where c: "CompleteAdmission t CapacityRejected w1 = (d, t', w2)" by (metis prod_cases3)
  have w1: "PackedPhase w1 = Admitting" "unat (ProducerInFlight w1) = 1"
    using t u by (cases rule: TryBeginAdmission_cases; simp)+
  note res = first_admission_result [OF c u w1]
  have step: "Ticket_Accepted t" "NeedsNewPermit t" using u by (simp_all add: Ticket_Accepted_def NeedsNewPermit_def)
  let ?s1 = "s\<lparr>gates := (gates s)(k := w1)\<rparr>"
  have p: "TryAcquireRunnablePermit (ShardIndex k ?s1) ?s1 = (False, ?s1)"
    using full i by (simp add: TryAcquireRunnablePermit_def Permit_TryAcquire_def)
  have r: "Enqueue_alone k l e s = (Returned (NrStatus_Failure NrErrorCode.QueueFull), s\<lparr>gates := (gates s)(k := w2)\<rparr>)"
    using run t step p c by (simp add: alone_leased Let_def del: ShardIndex_updates)
  have "enqueue_status k l s = NrStatus_Failure NrErrorCode.QueueFull"
    using run idle full by (simp add: enqueue_status_def)
  moreover have "decode w2 = decode (gates s k)"
    by (rule decode_eq) (use res shape idle in \<open>auto simp: gate_shape_def flagged_def\<close>)
  ultimately show ?thesis using r by (simp add: alone_ok_def no_trace_def)
qed

lemma alone_first:
  assumes run: "k \<noteq> 0" "started s" "\<not> stopRequested s" "presence s k = Registered" and inv: "sched_inv s"
    and t: "TryBeginAdmission (gates s k) = (t, w1)" and u: "decision t = RequiresNewPermit"
    and room: "permitCount (admittedRunnableActors (workers s ! ShardIndex k s)) <
      permitCapacity (admittedRunnableActors (workers s ! ShardIndex k s))"
    and idle: "phase s k = Idle"
  shows "alone_ok k l e s"
proof -
  let ?i = "ShardIndex k s"
  let ?c = "admittedRunnableActors (workers s ! ?i)"
  note per = sched_invD(4) [OF inv]
  have shape: "gate_shape (gates s k)" using sched_invD(1) [OF inv] by (simp add: gates_ok_def)
  have i: "?i < length (workers s)" by (rule ShardIndex_less [OF permits_ok_workers [OF per]])
  note here = permits_okD [OF per i]
  obtain es box where b: "spec_push (mailboxCapacity s) e (mail s k l) = (es, box)" by fastforce
  have es: "es = enqueue_status k l s" "box = (if Succeeded es then mail s k l @ [e] else mail s k l)"
    using b run idle room by (auto simp: spec_push_def enqueue_status_def split: if_splits)
  let ?r = "if Succeeded es then MailboxCommitted else MailboxRejected"
  obtain d t' w2 where c: "CompleteAdmission t ?r w1 = (d, t', w2)" by (metis prod_cases3)
  have w1: "PackedPhase w1 = Admitting" "unat (ProducerInFlight w1) = 1"
    using t u by (cases rule: TryBeginAdmission_cases; simp)+
  note res = first_admission_result [OF c u w1]
  have step: "Ticket_Accepted t" "NeedsNewPermit t" using u by (simp_all add: Ticket_Accepted_def NeedsNewPermit_def)
  let ?s1 = "s\<lparr>gates := (gates s)(k := w1)\<rparr>"
  define ws where "ws = (workers s)[?i := (workers s ! ?i)\<lparr>admittedRunnableActors := ?c\<lparr>permitCount := Suc (permitCount ?c)\<rparr>\<rparr>]"
  have ws: "length ws = length (workers s)" "ws \<noteq> []"
      "readyQueue (ws ! ?i) = readyQueue (workers s ! ?i)"
      "Permit_Release (admittedRunnableActors (ws ! ?i)) = ?c"
    using i by (auto simp: ws_def Permit_Release_def)
  have p: "TryAcquireRunnablePermit (ShardIndex k ?s1) ?s1 = (True, ?s1\<lparr>workers := ws\<rparr>)"
    using room i by (simp add: TryAcquireRunnablePermit_def Permit_TryAcquire_def ws_def)
  let ?s2 = "s\<lparr>workers := ws, mail := (mail s)(k := (mail s k)(l := box)), gates := (gates s)(k := w2)\<rparr>"
  have sh: "ShardIndex k ?s2 = ?i" by (rule ShardIndex_cong) (simp add: ws)
  obtain st s3 where a: "ApplyScheduleDirective k d ?s2 = (st, s3)" by fastforce
  have r: "Enqueue_alone k l e s = (Returned (if Failed st then st else es), s3)"
    using run t step p b c a by (simp add: alone_leased Let_def del: ShardIndex_updates)
  show ?thesis
  proof (cases "Succeeded es")
    case True
    have "length (readyQueue (workers s ! ?i)) < unat (maxAdmittedRunnableActors (schedulerConfig s))"
      using room here(1,2) by (simp add: runnable_def)
    then have push: "st = NrStatus_Success \<and> s3 = ?s2\<lparr>workers := ws[?i := (ws ! ?i)\<lparr>readyQueue := readyQueue (ws ! ?i) @ [k]\<rparr>]\<rparr>"
      using a push_ready [of ?s2 k] res(2) True by (simp add: sh ws del: ShardIndex_updates)
    have "ShardIndex k s3 = ?i" using push by (intro ShardIndex_cong) (simp add: ws)
    then have "delivered k l e s s3" using push res(1) True es(2) idle i ws by (simp add: delivered_def)
    then show ?thesis using r push True es(1) by (simp add: alone_ok_def)
  next
    case False
    then have given: "st = NrStatus_Success \<and> s3 = ?s2\<lparr>workers := ws[?i := (ws ! ?i)\<lparr>admittedRunnableActors := ?c\<rparr>]\<rparr>"
      using a release_permit [of ?s2 k] res(2) by (simp add: sh ws del: ShardIndex_updates)
    have "ws[?i := (ws ! ?i)\<lparr>admittedRunnableActors := ?c\<rparr>] = workers s"
      using i by (simp add: ws_def)
    moreover have "decode w2 = decode (gates s k)"
      by (rule decode_eq) (use res shape idle False in \<open>auto simp: gate_shape_def flagged_def\<close>)
    ultimately have "no_trace s s3" using given es(2) False by (simp add: no_trace_def)
    then show ?thesis using r given False es(1) by (simp add: alone_ok_def)
  qed
qed

lemma alone_complete:
  assumes inv: "sched_inv s" and free: "\<forall>st \<in> set (producers s). producer_lease st = None"
  shows "alone_ok k l e s"
proof (cases "k = 0 \<or> \<not> started s \<or> stopRequested s \<or> presence s k \<noteq> Registered")
  case True
  then have "\<not> Succeeded (enqueue_status k l s)" by (auto simp: enqueue_status_def)
  then show ?thesis using alone_rejected [OF True] by (simp add: alone_ok_def no_trace_def)
next
  case False
  then have run: "k \<noteq> 0" "started s" "\<not> stopRequested s" "presence s k = Registered" by auto
  have "open_ticket st \<noteq> Some (k, d)" if "st \<in> set (producers s)" for st d
    using free that open_ticket_lease [of st k d] by auto
  then have "firsts s k = 0" "joins s k = 0" by (simp_all add: firsts_def joins_def count_of_zero)
  moreover have g: "gate_shape (gates s k)" "inflight s k = firsts s k + joins s k"
      "firsts s k = of_bool (phase s k = Admitting)"
    using sched_invD(1) [OF inv] by (simp_all add: gates_ok_def)
  ultimately have pin: "inflight s k = 0" "phase s k \<noteq> Admitting" and shape: "gate_shape (gates s k)"
    by (simp, force, simp)
  obtain t w1 where t: "TryBeginAdmission (gates s k) = (t, w1)" by fastforce
  have "decision t \<noteq> Rejected"
    using t pin by (auto simp: TryBeginAdmission_def MaxProducerInFlight_def Let_def unat_count split: if_splits)
  moreover have "phase s k = Idle \<or> phase s k = Scheduled \<or> phase s k = Draining"
    using shape pin unat_count(3) [of "ProducerInFlight (gates s k)"]
    by (cases "phase s k") (simp_all add: gate_shape_def)
  ultimately have "decision t = RequiresNewPermit \<and> phase s k = Idle \<or>
      decision t = UsesExistingPermit \<and> (phase s k = Scheduled \<or> phase s k = Draining)"
    using t by (auto simp: TryBeginAdmission_def Let_def split: if_splits)
  then consider (first) "decision t = RequiresNewPermit" "phase s k = Idle"
    | (joined) "decision t = UsesExistingPermit" "phase s k = Scheduled \<or> phase s k = Draining"
    by blast
  then show ?thesis
  proof cases
    case first
    then show ?thesis using alone_first [OF run inv t] alone_no_permit [OF run inv t] by (meson not_le)
  next
    case joined
    then show ?thesis using alone_joined [OF run t] pin(1) by blast
  qed
qed

section \<open>A run of the scheduler\<close>

text \<open>
  One worker, at most two runnable actors, two producer threads. Actor 5 is registered, the first
  producer sends it an event: it is parked at every stage of the call by \<open>sample_at\<close>.
\<close>

definition sample_config :: NrSessionActorSchedulerConfig where
  "sample_config = \<lparr>actorWorkerCount = 1, actorDrainBudget = 1, maxAdmittedRunnableActors = 2\<rparr>"

definition sample_idle :: "nat scheduler" where
  "sample_idle = (snd (Scheduler_Start (snd (Scheduler_Configure (fresh_scheduler sample_config 4 2)))))
     \<lparr>presence := (\<lambda>k. Unregistered)(5 := Registered)\<rparr>"

fun sample_at :: "nat \<Rightarrow> nat scheduler" where
  "sample_at 0 = sample_idle\<lparr>producers := (producers sample_idle)[0 := Calling 5 RecvLane 7]\<rparr>"
| "sample_at (Suc n) = produced 0 (sample_at n)"

fun sample_run :: "nat \<Rightarrow> nat scheduler" where
  "sample_run 0 = sample_at 7"
| "sample_run (Suc n) = Worker_step 0 True (sample_run n)"

lemma sample_idle_fields:
  "workers sample_idle = [\<lparr>readyQueue = [], admittedRunnableActors = \<lparr>permitCapacity = 2, permitCount = 0\<rparr>,
     workerStage = Waiting\<rparr>]"
  "producers sample_idle = [Returned NrStatus_Success, Returned NrStatus_Success]"
  "gates sample_idle = (\<lambda>k. 0)" "mail sample_idle = (\<lambda>k l. [])" "mailboxCapacity sample_idle = 4"
  "presence sample_idle = (\<lambda>k. Unregistered)(5 := Registered)" "started sample_idle" "\<not> stopRequested sample_idle"
  "drainFailed sample_idle = (\<lambda>k. False)" "schedulerConfig sample_idle = sample_config"
proof -
  have two: "replicate 2 x = [x, x]" for x :: "nat producer_stage" by (simp add: numeral_2_eq_2)
  show "workers sample_idle = [\<lparr>readyQueue = [], admittedRunnableActors = \<lparr>permitCapacity = 2, permitCount = 0\<rparr>,
      workerStage = Waiting\<rparr>]"
    "producers sample_idle = [Returned NrStatus_Success, Returned NrStatus_Success]"
    "gates sample_idle = (\<lambda>k. 0)" "mail sample_idle = (\<lambda>k l. [])" "mailboxCapacity sample_idle = 4"
    "presence sample_idle = (\<lambda>k. Unregistered)(5 := Registered)" "started sample_idle" "\<not> stopRequested sample_idle"
    "drainFailed sample_idle = (\<lambda>k. False)" "schedulerConfig sample_idle = sample_config"
    by (simp_all add: sample_idle_def Scheduler_Start_def Scheduler_Configure_def ValidateConfig_def sample_config_def
        fresh_scheduler_def NrIsPowerOfTwo_def EnsureReadyQueueStorage_def Let_def two)
qed

lemma sample_idle_reachable: "scheduler_reachable sample_idle"
proof -
  obtain st1 s1 where c: "Scheduler_Configure (fresh_scheduler sample_config 4 2 :: nat scheduler) = (st1, s1)" by fastforce
  obtain st2 s where s: "Scheduler_Start s1 = (st2, s)" by fastforce
  have "Succeeded st1" using c
    by (auto simp: Scheduler_Configure_def ValidateConfig_def sample_config_def fresh_scheduler_def NrIsPowerOfTwo_def
        EnsureReadyQueueStorage_def Let_def)
  then have "scheduler_reachable s" by (rule scheduler_reachable.launch [OF c _ s])
  moreover have pr: "presence s = (\<lambda>k. Unregistered)" using c s
    by (auto simp: Scheduler_Configure_def Scheduler_Start_def fresh_scheduler_def Let_def
        EnsureReadyQueueStorage_def split: if_splits)
  ultimately have "scheduler_reachable (s\<lparr>presence := (presence s)(5 := Registered)\<rparr>)"
    by (intro scheduler_reachable.advance [OF _ scheduler_step.register]) simp_all
  then show ?thesis using c s pr by (simp add: sample_idle_def)
qed

lemma produced_reachable:
  assumes "scheduler_reachable s" "p < length (producers s)"
  shows "scheduler_reachable (produced p s)"
proof -
  obtain st s' where "Enqueue_step (producers s ! p) s = (st, s')" by fastforce
  then show ?thesis
    using scheduler_reachable.advance [OF assms(1) scheduler_step.produce [OF assms(2)]] by (simp add: produced_def)
qed

lemma produced_length [simp]: "length (producers (produced p s)) = length (producers s)"
proof -
  obtain st s' where e: "Enqueue_step (producers s ! p) s = (st, s')" by fastforce
  then have "producers s' = producers s" using Enqueue_frame [OF e] by simp
  then show ?thesis by (simp add: produced_def e)
qed

lemma sample_called_reachable: "scheduler_reachable (sample_at 0)"
proof -
  have "producers sample_idle ! 0 = Returned NrStatus_Success" "0 < length (producers sample_idle)"
    by (simp_all add: sample_idle_fields)
  then have "scheduler_step sample_idle (sample_idle\<lparr>producers := (producers sample_idle)[0 := Calling 5 RecvLane 7]\<rparr>)"
    by (intro scheduler_step.call)
  then have "scheduler_reachable (sample_idle\<lparr>producers := (producers sample_idle)[0 := Calling 5 RecvLane 7]\<rparr>)"
    by (rule scheduler_reachable.advance [OF sample_idle_reachable])
  then show ?thesis by (simp only: sample_at.simps(1))
qed

lemma sample_enqueue_reachable: "scheduler_reachable (sample_at n) \<and> length (producers (sample_at n)) = 2"
proof (induction n)
  case 0
  have "length (producers (sample_at 0)) = 2" by (simp add: sample_idle_fields)
  then show ?case using sample_called_reachable by blast
next
  case (Suc n)
  then show ?case using produced_reachable [of "sample_at n" 0] by simp
qed

lemma worked_reachable: "scheduler_reachable s \<Longrightarrow> scheduler_reachable (Worker_step i handled s)"
  by (cases "i < length (workers s)")
    (rule scheduler_reachable.advance [OF _ scheduler_step.work], assumption+, simp add: Worker_step_def)

lemma sample_run_reachable: "scheduler_reachable (sample_run n)"
proof (induction n)
  case 0 then show ?case unfolding sample_run.simps using sample_enqueue_reachable by blast
next
  case (Suc n) then show ?case using worked_reachable by simp
qed

text \<open>Evaluation of the sample run.\<close>

lemma sample_numeral:
  "sample_at (numeral n) = produced 0 (sample_at (pred_numeral n))"
  "sample_run (numeral n) = Worker_step 0 True (sample_run (pred_numeral n))"
  by (simp_all add: numeral_eq_Suc)

lemmas gate_eval =
  TryBeginAdmission_def CompleteAdmission_def TryBeginDrain_def CompleteDrain_def settled_def
  PackedPhase_def ProducerInFlight_def HasBit_def WithPhase_def WithProducerInFlight_def ClearDrainFlags_def
  PhaseMask_def PendingBit_def DrainNeedsRescheduleBit_def ProducerInFlightShift_def ProducerInFlightMask_def
  MaxProducerInFlight_def Ticket_Accepted_def NeedsNewPermit_def Let_def

lemmas sched_eval =
  gate_eval sample_numeral produced_def sample_idle_fields TryAcquireLease_status_def TryAcquireRunnablePermit_def
  Permit_TryAcquire_def ShardIndex_def spec_push_def spec_pop_def ApplyScheduleDirective_def TryPushReadyQueue_def
  TryPopReadyQueue_def set_worker_def Worker_step_def sample_config_def

lemma sample_6:
  "sample_at 6 = sample_idle\<lparr>
     workers := [\<lparr>readyQueue = [], admittedRunnableActors = \<lparr>permitCapacity = 2, permitCount = 1\<rparr>, workerStage = Waiting\<rparr>],
     mail := (\<lambda>k l. [])(5 := (\<lambda>l. [])(RecvLane := [7])), gates := (\<lambda>k. 0)(5 := 2),
     producers := [Directed 5 EnqueueReadyToken NrStatus_Success, Returned NrStatus_Success]\<rparr>"
  by (simp add: sched_eval)

lemma sample_7:
  "sample_at 7 = sample_idle\<lparr>mail := (\<lambda>k l. [])(5 := (\<lambda>l. [])(RecvLane := [7])), gates := (\<lambda>k. 0)(5 := 2),
     workers := [\<lparr>readyQueue = [5], admittedRunnableActors = \<lparr>permitCapacity = 2, permitCount = 1\<rparr>, workerStage = Waiting\<rparr>],
     producers := [Returned NrStatus_Success, Returned NrStatus_Success]\<rparr>"
  by (simp add: sched_eval)

section \<open>Properties\<close>

text \<open>
  Property C5. Mail is never forgotten: whatever the interleaving of producers, workers and the
  registry, when a registered actor has mail in one of its mailboxes and its drain has not failed,
  then some thread holds a lease on it (it is being run, or an \<^verbatim>\<open>Enqueue\<close> on it is under way), or its
  run token is in the ready queue of its shard or in the hands of that shard's worker. In
  particular no wake-up is lost when a drain ends while producers are committing mail.
\<close>
theorem mail_never_forgotten:
  assumes "scheduler_reachable s" "presence s k = Registered" "\<not> drainFailed s k" "mail s k l \<noteq> []"
  shows "leased k s \<or> k \<in> set (readyQueue (workers s ! ShardIndex k s)) \<or>
    workerStage (workers s ! ShardIndex k s) = Popped k"
proof -
  have inv: "sched_inv s" and m: "mail_ok s" using scheduler_reachable_inv [OF assms(1)] by auto
  have shape: "gate_shape (gates s k)" using sched_invD(1) [OF inv] by (simp add: gates_ok_def)
  have "looked_after s k l" using m assms(4) by (simp add: mail_ok_def)
  then consider (sched) "phase s k = Scheduled" | (pinned) "0 < inflight s k" | (draining) "phase s k = Draining"
    using assms(3) shape watches_draining [OF inv, of k l] announcers_le [OF sched_invD(1) [OF inv], of k]
      unat_count(3) [of "ProducerInFlight (gates s k)"]
    by (cases "phase s k") (auto simp: looked_after_def gate_shape_def)
  then show ?thesis
  proof cases
    case sched
    then have "0 < tokens s k" using sched_invD(3) [OF inv] assms(2) by (simp add: tokens_ok_def)
    then show ?thesis by (rule token_place [OF inv])
  next
    case pinned then show ?thesis using pinned_leased [OF sched_invD(1) [OF inv]] by blast
  next
    case draining then show ?thesis using draining_leased [OF sched_invD(3) [OF inv]] by blast
  qed
qed

text \<open>
  Property C26. The permit counter of a shard is exact: it is the number of actors of the shard that
  are runnable (a permit reserved by a producer, a token in the ready queue, an actor being run, or
  one waiting for its last producer); it never exceeds the configured maximum, and the ready queue
  is never longer than it.
\<close>
theorem permits_count_runnable_actors:
  assumes "scheduler_reachable s" "i < length (workers s)"
  shows "permitCount (admittedRunnableActors (workers s ! i)) = runnable s i \<and>
    permitCount (admittedRunnableActors (workers s ! i)) \<le> unat (maxAdmittedRunnableActors (schedulerConfig s)) \<and>
    length (readyQueue (workers s ! i)) \<le> permitCount (admittedRunnableActors (workers s ! i))"
proof -
  note here = permits_okD [OF sched_invD(4) [OF conjunct1 [OF scheduler_reachable_inv [OF assms(1)]]] assms(2)]
  show ?thesis using here(2,3) by (simp add: runnable_def)
qed

text \<open>
  Property C30. The assertions of \<^verbatim>\<open>ApplyScheduleDirective\<close> and \<^verbatim>\<open>NrRunnableActorPermitCounter::Release\<close>
  never fire: whenever a producer or a worker is about to apply a directive, pushing the token
  finds room in the ready queue, and giving a permit back finds a count above zero.
\<close>
theorem directives_never_fail:
  assumes "scheduler_reachable s"
    and "Directed k d status \<in> set (producers s) \<or> (\<exists>w \<in> set (workers s). workerStage w = RunCompleted k d)"
  shows "Succeeded (fst (ApplyScheduleDirective k d s)) \<and>
    (d = ReleasePermit \<longrightarrow> 0 < permitCount (admittedRunnableActors (workers s ! ShardIndex k s)))"
proof (cases "d = EnqueueReadyToken \<or> d = ReleasePermit")
  case False
  then show ?thesis by (cases d) (auto simp: ApplyScheduleDirective_def)
next
  case True
  have per: "permits_ok s" using scheduler_reachable_inv [OF assms(1)] by (simp add: sched_inv_def)
  note ne = permits_ok_workers [OF per]
  note here = permits_okD [OF per ShardIndex_less [OF ne, of k]]
  have more: "length (readyQueue (workers s ! ShardIndex k s)) < runnable s (ShardIndex k s)"
    using assms(2)
  proof
    assume "Directed k d status \<in> set (producers s)"
    then obtain p where p: "p < length (producers s)" "producers s ! p = Directed k d status"
      by (metis in_set_conv_nth)
    have "0 < producer_permits s (ShardIndex k s)"
      unfolding producer_permits_def by (rule count_of_pos [OF p(1)]) (use p(2) True in auto)
    then show ?thesis by (simp add: runnable_def)
  next
    assume "\<exists>w \<in> set (workers s). workerStage w = RunCompleted k d"
    then obtain i where i: "i < length (workers s)" "workerStage (workers s ! i) = RunCompleted k d"
      by (metis in_set_conv_nth)
    then have "ShardIndex k s = i" using permits_okD(5) [OF per i(1), of k] by simp
    then show ?thesis using i(2) True by (auto simp: runnable_def)
  qed
  then have "0 < permitCount (admittedRunnableActors (workers s ! ShardIndex k s))"
      "length (readyQueue (workers s ! ShardIndex k s)) < unat (maxAdmittedRunnableActors (schedulerConfig s))"
    using here(2,3) by linarith+
  then show ?thesis using True push_ready [OF ne, of k] release_permit [OF ne, of k] by auto
qed

text \<open>
  Property C27. An actor is run by one worker at a time and its token is never wasted: a worker that
  holds the lease of an actor to run it is the worker of the actor's shard; no other worker holds
  it; when it tries to begin the drain it succeeds; and while it drains, the actor is in no ready
  queue.
\<close>
theorem one_run_per_actor:
  assumes "scheduler_reachable s" "i < length (workers s)" "worker_lease (workerStage (workers s ! i)) = Some k"
  shows "i = ShardIndex k s \<and> (\<forall>j < length (workers s). worker_lease (workerStage (workers s ! j)) = Some k \<longrightarrow> j = i) \<and>
    (workerStage (workers s ! i) = RunLeased k \<longrightarrow> fst (TryBeginDrain (gates s k))) \<and>
    (worker_drain (workerStage (workers s ! i)) = Some k \<longrightarrow> phase s k = Draining \<and> tokens s k = 0)"
proof -
  have inv: "sched_inv s" using scheduler_reachable_inv [OF assms(1)] by simp
  have key: "worker_key st = Some j" if "worker_lease st = Some j" for st j using that by (cases st) auto
  have shard: "ShardIndex k s = j" if "j < length (workers s)" "worker_lease (workerStage (workers s ! j)) = Some k" for j
    using permits_okD(5) [OF sched_invD(4) [OF inv] that(1)] key [OF that(2)] by blast
  have reg: "presence s k = Registered" by (rule registered_worker [OF sched_invD(2) [OF inv] assms(2,3)])
  have "tokens s k = 0" if "phase s k = Draining"
    using sched_invD(3) [OF inv] that reg by (simp add: tokens_ok_def)
  moreover have "fst (TryBeginDrain (gates s k))" if "workerStage (workers s ! i) = RunLeased k"
    using run_leased(2) [OF inv assms(2) that] by (simp add: TryBeginDrain_def)
  ultimately show ?thesis using shard assms(2,3) worker_draining [OF inv assms(2), of k] by blast
qed

text \<open>
  Property C25. A call of \<^verbatim>\<open>Enqueue\<close> on its own returns, with the status the error table gives
  (\<^verbatim>\<open>InvalidArgument\<close> for a zero or unknown key, \<^verbatim>\<open>InvalidState\<close> when the scheduler is not running,
  \<^verbatim>\<open>QueueFull\<close> when no permit or no mailbox room is left), and a call that fails leaves no trace: no
  mail, no permit, no pinned gate. A call that succeeds has appended its event and made the actor
  runnable.
\<close>
theorem failed_enqueue_leaves_no_trace:
  assumes "scheduler_reachable s" "\<forall>st \<in> set (producers s). producer_lease st = None"
  shows "case Enqueue_alone k l e s of (st, s') \<Rightarrow>
    st = Returned (enqueue_status k l s) \<and>
    (if Succeeded (enqueue_status k l s) then delivered k l e s s' else no_trace s s')"
  using alone_complete [OF conjunct1 [OF scheduler_reachable_inv [OF assms(1)]] assms(2), of k l e]
  by (simp add: alone_ok_def)

text \<open>
  Property C29. The packed gate word stays well-formed: in every reachable state the phase bits name
  an enumerator of \<^verbatim>\<open>NrPackedPhase\<close>; the producer count is the number of producers with an open
  ticket, exactly one of them reserving a permit while the gate is \<^verbatim>\<open>Admitting\<close> and none otherwise;
  an idle gate is pinned by nobody and has no flag raised, so neither the assertion
  \<^verbatim>\<open>producerInFlight > 0\<close> nor an early return of \<^verbatim>\<open>CompleteAdmission\<close> is ever reached.
\<close>
theorem gate_words_well_formed:
  assumes "scheduler_reachable s"
  shows "phase s k \<in> {Idle, Admitting, Scheduled, Draining, DrainCompleting} \<and>
    inflight s k = firsts s k + joins s k \<and> firsts s k = of_bool (phase s k = Admitting) \<and>
    (phase s k = Idle \<longrightarrow> inflight s k = 0 \<and> \<not> flagged (gates s k)) \<and>
    (\<forall>p < length (producers s). \<forall>d. open_ticket (producers s ! p) = Some (k, d) \<longrightarrow>
       0 < inflight s k \<and> (phase s k = Admitting \<longleftrightarrow> d = RequiresNewPermit))"
proof -
  have ok: "gates_ok s" using scheduler_reachable_inv [OF assms] by (simp add: sched_inv_def)
  have shape: "gate_shape (gates s k)" and counts: "inflight s k = firsts s k + joins s k"
      "firsts s k = of_bool (phase s k = Admitting)"
    using ok by (simp_all add: gates_ok_def)
  have ticket: "0 < inflight s k \<and> (phase s k = Admitting \<longleftrightarrow> d = RequiresNewPermit)"
    if "p < length (producers s)" "open_ticket (producers s ! p) = Some (k, d)" for p d
  proof (cases d)
    case Rejected
    then show ?thesis using stage_ok_nth [OF ok that(1)] that(2) by (cases "producers s ! p") auto
  next
    case RequiresNewPermit
    then show ?thesis using first_open [OF ok that(1), of k] that(2) by simp
  next
    case UsesExistingPermit
    then show ?thesis using joined_open [OF ok that(1), of k] that(2) by simp
  qed
  have "phase s k \<in> {Idle, Admitting, Scheduled, Draining, DrainCompleting}"
    using shape by (cases "phase s k") (simp_all add: gate_shape_def)
  moreover have "phase s k = Idle \<longrightarrow> inflight s k = 0 \<and> \<not> flagged (gates s k)"
    using shape by (cases "phase s k") (simp_all add: gate_shape_def)
  ultimately show ?thesis using counts ticket by blast
qed

section \<open>Witnesses\<close>

theorem mail_never_forgotten_witness:
  "leased 5 (sample_at 7) \<or> 5 \<in> set (readyQueue (workers (sample_at 7) ! ShardIndex 5 (sample_at 7))) \<or>
    workerStage (workers (sample_at 7) ! ShardIndex 5 (sample_at 7)) = Popped 5"
  by (rule mail_never_forgotten [where l = RecvLane])
    (use sample_enqueue_reachable in blast, simp_all add: sample_7 sample_idle_fields)

theorem permits_count_runnable_actors_witness:
  "permitCount (admittedRunnableActors (workers (sample_at 7) ! 0)) = 1 \<and> runnable (sample_at 7) 0 = 1"
  using permits_count_runnable_actors [of "sample_at 7" 0] sample_enqueue_reachable [of 7] by (simp add: sample_7)

theorem directives_never_fail_witness:
  "Succeeded (fst (ApplyScheduleDirective 5 EnqueueReadyToken (sample_at 6)))"
  using directives_never_fail [of "sample_at 6" 5 EnqueueReadyToken NrStatus_Success] sample_enqueue_reachable [of 6]
  by (simp add: sample_6)

theorem one_run_per_actor_witness:
  "workerStage (workers (sample_run 2) ! 0) = RunLeased 5 \<and> fst (TryBeginDrain (gates (sample_run 2) 5))"
proof -
  have "workerStage (workers (sample_run 2) ! 0) = RunLeased 5" "0 < length (workers (sample_run 2))"
    by (simp_all add: sched_eval)
  then show ?thesis using one_run_per_actor [OF sample_run_reachable [of 2], of 0 5] by simp
qed

theorem failed_enqueue_leaves_no_trace_witness:
  "enqueue_status 6 SendLane (sample_at 7) = NrStatus_Failure NrErrorCode.InvalidArgument \<and>
   no_trace (sample_at 7) (snd (Enqueue_alone 6 SendLane 9 (sample_at 7)))"
proof -
  have "enqueue_status 6 SendLane (sample_at 7) = NrStatus_Failure NrErrorCode.InvalidArgument"
    by (simp add: enqueue_status_def sample_7 sample_idle_fields)
  then show ?thesis
    using failed_enqueue_leaves_no_trace [of "sample_at 7" 6 SendLane 9] sample_enqueue_reachable [of 7]
    by (auto simp: sample_7 split: prod.splits)
qed

theorem gate_words_well_formed_witness:
  "phase (sample_at 6) 5 = Scheduled \<and> inflight (sample_at 6) 5 = firsts (sample_at 6) 5 + joins (sample_at 6) 5"
  using gate_words_well_formed [of "sample_at 6" 5] sample_enqueue_reachable [of 6]
  by (simp add: sample_6 PackedPhase_def PhaseMask_def Let_def)

end
