(* ===== verification/NrSessionRegistry.thy ===== *)
theory NrSessionRegistry imports NrSessionIoLaws NrScheduler begin

text \<open>
  The registry of session actors (\<^verbatim>\<open>NrSessionActorRegistry.cpp\<close>): the map from session keys to
  actors with their lifecycle and lease counts, the leases, the run of an actor through a lease with
  the registry actions it asks for, and the executor (\<^verbatim>\<open>NrActorExecutor.cpp\<close>, \<^verbatim>\<open>NrActor.h\<close>). Every
  operation holds the registry's lock, so it is one step; a run happens outside the lock, under a
  lease. An entry is identified by the address of its object, here \<open>entryId\<close>.
\<close>

section \<open>The executor\<close>

datatype NrActorRunState = Drained | AlreadyDraining

record NrActorRunReport =
  runState :: NrActorRunState
  runDrainedCount :: nat
  scheduleDirective :: NrActorScheduleDirective
  runStatus :: NrStatus

definition NrActorRunReport_Drained ::
    "NrActorDrainReport \<Rightarrow> NrActorScheduleDirective \<Rightarrow> NrActorRunReport" where
  "NrActorRunReport_Drained report directive =
     \<lparr>runState = Drained, runDrainedCount = drainedCount report, scheduleDirective = directive,
      runStatus = NrStatus_Success\<rparr>"

definition NrActorRunReport_DrainFailed :: "NrStatus \<Rightarrow> NrActorScheduleDirective \<Rightarrow> NrActorRunReport" where
  "NrActorRunReport_DrainFailed failureStatus directive =
     \<lparr>runState = Drained, runDrainedCount = 0, scheduleDirective = directive, runStatus = failureStatus\<rparr>"

definition NrActorRunReport_AlreadyDraining :: NrActorRunReport where
  "NrActorRunReport_AlreadyDraining =
     \<lparr>runState = AlreadyDraining, runDrainedCount = 0, scheduleDirective = NoAction, runStatus = NrStatus_Success\<rparr>"

text \<open>\<^verbatim>\<open>NrActorExecutor::TryRun\<close> on an actor and its gate, with the drain budget of the executor.\<close>

definition Executor_TryRun ::
    "nat \<Rightarrow> NrSessionIoActor \<Rightarrow> u64 \<Rightarrow> NrActorRunReport \<times> NrSessionIoActor \<times> u64" where
  "Executor_TryRun maxEvents a gate =
     (case TryBeginDrain gate of (begun, gate) \<Rightarrow>
        if \<not> begun then (NrActorRunReport_AlreadyDraining, a, gate)
        else
          (case Drain maxEvents a of (drainResult, a) \<Rightarrow>
             let shouldReschedule = (case drainResult of Inl st \<Rightarrow> False | Inr report \<Rightarrow> needsReschedule report) in
             (case CompleteDrain shouldReschedule gate of (directive, gate) \<Rightarrow>
                (case drainResult of
                   Inl status \<Rightarrow> (NrActorRunReport_DrainFailed status directive, a, gate)
                 | Inr report \<Rightarrow> (NrActorRunReport_Drained report directive, a, gate)))))"

section \<open>Entries and leases\<close>

datatype NrSessionActorLifecycle =
  Active | CloseRequestedAwaitingDrain | CloseRequestedReadyToDeregister | Deregistering

record NrSessionActorPostRunActions =
  shouldTryDeregister :: bool
  shouldTrackClosedActorKey :: bool
  postRecvRequested :: bool
  actionPendingSendQueueFull :: bool

record NrSessionActorRegistryCleanupActions =
  cleanupTryDeregister :: bool
  cleanupTrackClosedActorKey :: bool
  cleanupPendingSendQueueFull :: bool

definition no_cleanup :: NrSessionActorRegistryCleanupActions where
  "no_cleanup = \<lparr>cleanupTryDeregister = False, cleanupTrackClosedActorKey = False, cleanupPendingSendQueueFull = False\<rparr>"

record NrSessionActorEntry =
  entryId :: nat
  entryActor :: NrSessionIoActor
  entryGate :: u64
  lifecycle :: NrSessionActorLifecycle
  activeLeaseCount :: nat

text \<open>The assertion that the entry is not \<^verbatim>\<open>Deregistering\<close> is a precondition.\<close>

definition ApplyDrainReport ::
    "NrSessionIoDrainReport \<Rightarrow> NrSessionActorLifecycle \<Rightarrow> NrSessionActorPostRunActions \<times> NrSessionActorLifecycle" where
  "ApplyDrainReport report c =
     (let track = reportCloseRequested report \<and> c = Active;
          c = (if track then
                 if reportCloseReady report then CloseRequestedReadyToDeregister else CloseRequestedAwaitingDrain
               else c);
          c = (if c = CloseRequestedAwaitingDrain \<and> reportCloseReady report
               then CloseRequestedReadyToDeregister else c)
      in (\<lparr>shouldTryDeregister = (c = CloseRequestedReadyToDeregister),
           shouldTrackClosedActorKey = track,
           postRecvRequested = (requestPostRecv report \<and> \<not> reportCloseRequested report \<and> c = Active),
           actionPendingSendQueueFull = pendingSendQueueFull report\<rparr>, c))"

record NrSessionActorLease =
  leaseEntry :: "nat option"
  leaseKey :: u64
  leaseCleanup :: NrSessionActorRegistryCleanupActions

definition Lease_empty :: NrSessionActorLease where
  "Lease_empty = \<lparr>leaseEntry = None, leaseKey = 0, leaseCleanup = no_cleanup\<rparr>"

definition Lease_IsValid :: "NrSessionActorLease \<Rightarrow> bool" where
  "Lease_IsValid l \<longleftrightarrow> leaseEntry l \<noteq> None \<and> leaseKey l \<noteq> 0"

definition AccumulateRegistryCleanupActions ::
    "NrSessionActorPostRunActions \<Rightarrow> NrSessionActorLease \<Rightarrow> NrSessionActorLease" where
  "AccumulateRegistryCleanupActions actions l =
     l\<lparr>leaseCleanup :=
        \<lparr>cleanupTryDeregister = cleanupTryDeregister (leaseCleanup l) \<or> shouldTryDeregister actions,
         cleanupTrackClosedActorKey = cleanupTrackClosedActorKey (leaseCleanup l) \<or> shouldTrackClosedActorKey actions,
         cleanupPendingSendQueueFull = cleanupPendingSendQueueFull (leaseCleanup l) \<or> actionPendingSendQueueFull actions\<rparr>\<rparr>"

section \<open>The registry\<close>

text \<open>
  \<open>actors\<close> lists the entries of the unordered map, \<open>closedActorKeys\<close> the elements of the unordered
  set in the order in which it iterates them. \<open>nextEntry\<close> is the address of the next entry object.
\<close>

record NrSessionActorRegistry =
  maxSessionCount :: nat
  actors :: "(u64 \<times> NrSessionActorEntry) list"
  closedActorKeys :: "u64 list"
  nextEntry :: nat

definition NrSessionActorRegistry_construct :: "nat \<Rightarrow> NrSessionActorRegistry" where
  "NrSessionActorRegistry_construct limit =
     \<lparr>maxSessionCount = limit, actors = [], closedActorKeys = [], nextEntry = 0\<rparr>"

definition find_actor :: "u64 \<Rightarrow> NrSessionActorRegistry \<Rightarrow> NrSessionActorEntry option" where
  "find_actor k reg = map_of (actors reg) k"

definition set_actor :: "u64 \<Rightarrow> NrSessionActorEntry \<Rightarrow> NrSessionActorRegistry \<Rightarrow> NrSessionActorRegistry" where
  "set_actor k e reg = reg\<lparr>actors := map (\<lambda>(j, d). (j, if j = k then e else d)) (actors reg)\<rparr>"

definition erase_actor :: "u64 \<Rightarrow> (u64 \<times> NrSessionActorEntry) list \<Rightarrow> (u64 \<times> NrSessionActorEntry) list" where
  "erase_actor k xs = filter (\<lambda>(j, d). j \<noteq> k) xs"

definition insert_key :: "u64 \<Rightarrow> u64 list \<Rightarrow> u64 list" where
  "insert_key k ks = (if k \<in> set ks then ks else k # ks)"

text \<open>The allocations of an entry and of a node of the map may fail.\<close>

definition TryRegisterActor ::
    "u64 \<Rightarrow> NrSessionIoActor option \<Rightarrow> bool \<Rightarrow> bool \<Rightarrow> NrSessionActorRegistry \<Rightarrow> NrStatus \<times> NrSessionActorRegistry" where
  "TryRegisterActor key actor entryAllocated nodeAllocated reg =
     (case actor of
        None \<Rightarrow> (NrStatus_Failure NrErrorCode.InvalidArgument, reg)
      | Some a \<Rightarrow>
          if key = 0 then (NrStatus_Failure NrErrorCode.InvalidArgument, reg)
          else if \<not> entryAllocated then (NrStatus_Failure NrErrorCode.OutOfMemory, reg)
          else if find_actor key reg \<noteq> None then (NrStatus_Failure NrErrorCode.InvalidState, reg)
          else if maxSessionCount reg \<le> length (actors reg) then (NrStatus_Failure NrErrorCode.CapacityExceeded, reg)
          else if \<not> nodeAllocated then (NrStatus_Failure NrErrorCode.OutOfMemory, reg)
          else (NrStatus_Success,
                reg\<lparr>actors := (key, \<lparr>entryId = nextEntry reg, entryActor = a, entryGate = 0,
                      lifecycle = Active, activeLeaseCount = 0\<rparr>) # actors reg,
                    nextEntry := nextEntry reg + 1\<rparr>))"

definition TryAcquireLease ::
    "u64 \<Rightarrow> NrSessionActorRegistry \<Rightarrow> NrSessionActorLease NrResult \<times> NrSessionActorRegistry" where
  "TryAcquireLease key reg =
     (if key = 0 then (Inl (NrStatus_Failure NrErrorCode.InvalidArgument), reg)
      else case find_actor key reg of
        None \<Rightarrow> (Inl (NrStatus_Failure NrErrorCode.InvalidArgument), reg)
      | Some entry \<Rightarrow>
          if lifecycle entry = Deregistering then (Inl (NrStatus_Failure NrErrorCode.InvalidState), reg)
          else (Inr \<lparr>leaseEntry = Some (entryId entry), leaseKey = key, leaseCleanup = no_cleanup\<rparr>,
                set_actor key (entry\<lparr>activeLeaseCount := activeLeaseCount entry + 1\<rparr>) reg))"

definition ReleaseLease :: "u64 \<Rightarrow> nat \<Rightarrow> NrSessionActorRegistry \<Rightarrow> NrSessionActorRegistry" where
  "ReleaseLease key entryAddress reg =
     (case find_actor key reg of
        None \<Rightarrow> reg
      | Some entry \<Rightarrow>
          if entryId entry \<noteq> entryAddress \<or> activeLeaseCount entry = 0 then reg
          else set_actor key (entry\<lparr>activeLeaseCount := activeLeaseCount entry - 1\<rparr>) reg)"

definition Lease_Reset ::
    "NrSessionActorLease \<Rightarrow> NrSessionActorRegistry \<Rightarrow> NrSessionActorLease \<times> NrSessionActorRegistry" where
  "Lease_Reset l reg =
     (Lease_empty, case leaseEntry l of None \<Rightarrow> reg | Some address \<Rightarrow> ReleaseLease (leaseKey l) address reg)"

definition RequestClose :: "u64 \<Rightarrow> bool \<Rightarrow> NrSessionActorRegistry \<Rightarrow> NrStatus \<times> NrSessionActorRegistry" where
  "RequestClose key nodeAllocated reg =
     (if key = 0 then (NrStatus_Failure NrErrorCode.InvalidArgument, reg)
      else case find_actor key reg of
        None \<Rightarrow> (NrStatus_Failure NrErrorCode.InvalidArgument, reg)
      | Some entry \<Rightarrow>
          if lifecycle entry = Deregistering then (NrStatus_Failure NrErrorCode.InvalidState, reg)
          else if lifecycle entry = Active then
            if \<not> nodeAllocated then (NrStatus_Failure NrErrorCode.OutOfMemory, reg)
            else
              (NrStatus_Success,
               set_actor key
                 (entry\<lparr>lifecycle := (if activeLeaseCount entry = 0 \<and> \<not> HasPendingIo (entryActor entry)
                    then CloseRequestedReadyToDeregister else CloseRequestedAwaitingDrain)\<rparr>)
                 (reg\<lparr>closedActorKeys := insert_key key (closedActorKeys reg)\<rparr>))
          else (NrStatus_Success, reg))"

definition TrackClosedActorKey :: "u64 \<Rightarrow> bool \<Rightarrow> NrSessionActorRegistry \<Rightarrow> NrStatus \<times> NrSessionActorRegistry" where
  "TrackClosedActorKey key nodeAllocated reg =
     (if key = 0 then (NrStatus_Failure NrErrorCode.InvalidArgument, reg)
      else case find_actor key reg of
        None \<Rightarrow> (NrStatus_Success, reg)
      | Some entry \<Rightarrow>
          if lifecycle entry = Deregistering then (NrStatus_Success, reg)
          else if \<not> nodeAllocated then (NrStatus_Failure NrErrorCode.OutOfMemory, reg)
          else (NrStatus_Success, reg\<lparr>closedActorKeys := insert_key key (closedActorKeys reg)\<rparr>))"

definition CanEraseLocked :: "NrSessionActorEntry \<Rightarrow> bool" where
  "CanEraseLocked entry \<longleftrightarrow>
     lifecycle entry \<noteq> Active \<and> activeLeaseCount entry = 0 \<and> \<not> HasPendingIo (entryActor entry)"

definition TryDeregisterClosedActor :: "u64 \<Rightarrow> NrSessionActorRegistry \<Rightarrow> NrStatus \<times> NrSessionActorRegistry" where
  "TryDeregisterClosedActor key reg =
     (if key = 0 then (NrStatus_Failure NrErrorCode.InvalidArgument, reg)
      else case find_actor key reg of
        None \<Rightarrow> (NrStatus_Success, reg\<lparr>closedActorKeys := removeAll key (closedActorKeys reg)\<rparr>)
      | Some entry \<Rightarrow>
          if \<not> CanEraseLocked entry then (NrStatus_Success, reg)
          else (NrStatus_Success,
                reg\<lparr>actors := erase_actor key (actors reg),
                    closedActorKeys := removeAll key (closedActorKeys reg)\<rparr>))"

text \<open>
  The loop of \<^verbatim>\<open>DeregisterClosedActors\<close> over the keys that are still ahead: how many actors it
  erased, the keys that stay in the set, and the map.
\<close>

fun DeregisterLoop ::
    "u64 list \<Rightarrow> (u64 \<times> NrSessionActorEntry) list \<Rightarrow> nat \<times> u64 list \<times> (u64 \<times> NrSessionActorEntry) list" where
  "DeregisterLoop [] xs = (0, [], xs)"
| "DeregisterLoop (k # ks) xs =
     (case map_of xs k of
        None \<Rightarrow> DeregisterLoop ks xs
      | Some entry \<Rightarrow>
          if \<not> CanEraseLocked entry
          then (case DeregisterLoop ks xs of (n, kept, xs') \<Rightarrow> (n, k # kept, xs'))
          else (case DeregisterLoop ks (erase_actor k xs) of (n, kept, xs') \<Rightarrow> (n + 1, kept, xs')))"

definition DeregisterClosedActors :: "NrSessionActorRegistry \<Rightarrow> nat \<times> NrSessionActorRegistry" where
  "DeregisterClosedActors reg =
     (case DeregisterLoop (closedActorKeys reg) (actors reg) of (erasedCount, kept, xs) \<Rightarrow>
        (erasedCount, reg\<lparr>closedActorKeys := kept, actors := xs\<rparr>))"

record NrSessionActorRegistryStats =
  registeredSessionCount :: nat
  closingSessionCount :: nat

definition Registry_Count :: "NrSessionActorRegistry \<Rightarrow> nat" where
  "Registry_Count reg = length (actors reg)"

definition Registry_Stats :: "NrSessionActorRegistry \<Rightarrow> NrSessionActorRegistryStats" where
  "Registry_Stats reg =
     \<lparr>registeredSessionCount = length (actors reg),
      closingSessionCount = length (filter (\<lambda>(k, e). lifecycle e \<noteq> Active) (actors reg))\<rparr>"

text \<open>The actors that are destroyed have recorded that the server stops.\<close>

definition Registry_Shutdown :: "NrSessionActorRegistry \<Rightarrow> NrStatus \<times> NrSessionIoActor list \<times> NrSessionActorRegistry" where
  "Registry_Shutdown reg =
     (NrStatus_Success, map (\<lambda>(k, e). RecordServerStopping (entryActor e)) (actors reg),
      reg\<lparr>closedActorKeys := [], actors := []\<rparr>)"

section \<open>Running an actor through a lease\<close>

definition leased_entry :: "NrSessionActorLease \<Rightarrow> NrSessionActorRegistry \<Rightarrow> NrSessionActorEntry option" where
  "leased_entry l reg =
     (case find_actor (leaseKey l) reg of
        None \<Rightarrow> None
      | Some entry \<Rightarrow> if leaseEntry l = Some (entryId entry) then Some entry else None)"

definition TryPostRequestedRecv ::
    "NrSessionActorPostRunActions \<Rightarrow> NrSessionActorLease \<Rightarrow> NrSessionActorEntry \<Rightarrow>
     NrStatus \<times> NrSessionActorLease \<times> NrSessionActorEntry" where
  "TryPostRequestedRecv actions l entry =
     (if \<not> postRecvRequested actions then (NrStatus_Success, l, entry)
      else case PostRequestedRecv (entryActor entry) of (postRecvStatus, a) \<Rightarrow>
        if Succeeded postRecvStatus then (NrStatus_Success, l, entry\<lparr>entryActor := a\<rparr>)
        else (case TakeDrainReport a of (report, a) \<Rightarrow>
          let report = report\<lparr>reportCloseRequested := True, reportCloseReady := \<not> HasPendingIo a\<rparr> in
          case ApplyDrainReport report (lifecycle entry) of (failureActions, c) \<Rightarrow>
            (postRecvStatus, AccumulateRegistryCleanupActions failureActions l,
             entry\<lparr>entryActor := a, lifecycle := c\<rparr>)))"

text \<open>
  \<open>run_entry\<close> is \<^verbatim>\<open>NrSessionActorLease::TryRun\<close> on the entry that the lease keeps alive; a lease
  that is not valid reports a failed drain without a directive.
\<close>

definition run_entry ::
    "nat \<Rightarrow> NrSessionActorLease \<Rightarrow> NrSessionActorEntry \<Rightarrow>
     NrActorRunReport \<times> NrSessionActorLease \<times> NrSessionActorEntry" where
  "run_entry maxEvents l entry =
     (case Executor_TryRun maxEvents (entryActor entry) (entryGate entry) of (runReport, a, gate) \<Rightarrow>
      case TakeDrainReport a of (report, a) \<Rightarrow>
        let report = (if Failed (runStatus runReport)
              then report\<lparr>reportCloseRequested := True, reportCloseReady := \<not> HasPendingIo a, requestPostRecv := False\<rparr>
              else report) in
        case ApplyDrainReport report (lifecycle entry) of (actions, c) \<Rightarrow>
          let l = AccumulateRegistryCleanupActions actions l;
              entry = entry\<lparr>entryActor := a, entryGate := gate, lifecycle := c\<rparr> in
          if Failed (runStatus runReport) then (runReport, l, entry)
          else case TryPostRequestedRecv actions l entry of (postRecvStatus, l, entry) \<Rightarrow>
            (if Failed postRecvStatus then runReport\<lparr>runStatus := postRecvStatus\<rparr> else runReport, l, entry))"

definition Lease_TryRun ::
    "nat \<Rightarrow> NrSessionActorLease \<Rightarrow> NrSessionActorRegistry \<Rightarrow>
     NrActorRunReport \<times> NrSessionActorLease \<times> NrSessionActorRegistry" where
  "Lease_TryRun maxEvents l reg =
     (if \<not> Lease_IsValid l then
        (NrActorRunReport_DrainFailed (NrStatus_Failure NrErrorCode.InvalidState) NoAction, l, reg)
      else case leased_entry l reg of
        None \<Rightarrow> (NrActorRunReport_DrainFailed (NrStatus_Failure NrErrorCode.InvalidState) NoAction, l, reg)
      | Some entry \<Rightarrow>
          (case run_entry maxEvents l entry of (runReport, l', entry') \<Rightarrow>
             (runReport, l', set_actor (leaseKey l) entry' reg)))"

text \<open>
  The tail of \<^verbatim>\<open>NrSessionActorScheduler::RunReadyActor\<close>: after a run that finished, the lease is
  dropped and the registry is asked to track and to deregister the actor.
\<close>

definition RunRegistryCleanup ::
    "u64 \<Rightarrow> bool \<Rightarrow> bool \<Rightarrow> bool \<Rightarrow> NrSessionActorRegistry \<Rightarrow> NrSessionActorRegistry" where
  "RunRegistryCleanup key nodeAllocated track deregister reg =
     (let reg = (if track then snd (TrackClosedActorKey key nodeAllocated reg) else reg)
      in if deregister then snd (TryDeregisterClosedActor key reg) else reg)"

definition finish_run ::
    "bool \<Rightarrow> bool \<Rightarrow> NrSessionActorLease \<Rightarrow> NrSessionActorRegistry \<Rightarrow> NrSessionActorLease \<times> NrSessionActorRegistry" where
  "finish_run finished nodeAllocated l reg =
     (case Lease_Reset l reg of (l', reg) \<Rightarrow>
        (l', RunRegistryCleanup (leaseKey l) nodeAllocated (cleanupTrackClosedActorKey (leaseCleanup l))
               (cleanupTryDeregister (leaseCleanup l) \<and> finished) reg))"

end
