(* ===== verification/NrSessionRegistryLaws.thy ===== *)
theory NrSessionRegistryLaws imports NrSessionRegistry NrSchedulerInv begin

text \<open>
  The guarantees of the session actor registry over all interleavings of its operations: lease
  counts are exact and a lease never outlives its entry, an actor is erased only when it is closing,
  unleased and without pending IO (or by the shutdown, when no lease is held), the sweep erases
  exactly those, and an actor whose run failed stays closing and tracked.
\<close>

section \<open>The map of the registry\<close>

lemma map_of_replace:
  "map_of (map (\<lambda>(i, d). (i, if i = k then e else d)) xs) j =
    (if j = k then (case map_of xs k of None \<Rightarrow> None | Some d \<Rightarrow> Some e) else map_of xs j)"
  by (induction xs) auto

lemma find_set_actor [simp]:
  "find_actor j (set_actor k e reg) =
    (if j = k then (case find_actor k reg of None \<Rightarrow> None | Some d \<Rightarrow> Some e) else find_actor j reg)"
  unfolding find_actor_def set_actor_def by (simp add: map_of_replace)

lemma set_actor_fields [simp]:
  "maxSessionCount (set_actor k e reg) = maxSessionCount reg"
  "closedActorKeys (set_actor k e reg) = closedActorKeys reg"
  "map fst (actors (set_actor k e reg)) = map fst (actors reg)"
  "length (actors (set_actor k e reg)) = length (actors reg)"
  by (simp_all add: set_actor_def comp_def case_prod_beta)

lemma find_closed [simp]: "find_actor k (reg\<lparr>closedActorKeys := ks\<rparr>) = find_actor k reg"
  by (simp add: find_actor_def)

lemma map_of_erase [simp]: "map_of (erase_actor k xs) j = (if j = k then None else map_of xs j)"
  by (induction xs) (auto simp: erase_actor_def)

lemma keys_erase [simp]: "map fst (erase_actor k xs) = removeAll k (map fst xs)"
  by (induction xs) (auto simp: erase_actor_def)

lemma length_erase: "length (erase_actor k xs) \<le> length xs"
  by (simp add: erase_actor_def)

section \<open>The sweep\<close>

definition erasable :: "(u64 \<times> NrSessionActorEntry) list \<Rightarrow> u64 \<Rightarrow> bool" where
  "erasable xs k \<longleftrightarrow> (case map_of xs k of None \<Rightarrow> False | Some e \<Rightarrow> CanEraseLocked e)"

lemma erasable_erase: "k \<noteq> j \<Longrightarrow> erasable (erase_actor k xs) j = erasable xs j"
  by (simp add: erasable_def)

text \<open>The set of keys is the same in any order: the loop erases the erasable ones among them.\<close>

lemma DeregisterLoop_exact:
  assumes "distinct ks"
  shows "DeregisterLoop ks xs =
    (length (filter (erasable xs) ks),
     filter (\<lambda>k. map_of xs k \<noteq> None \<and> \<not> erasable xs k) ks,
     filter (\<lambda>(k, e). \<not> (k \<in> set ks \<and> erasable xs k)) xs)"
  using assms
proof (induction ks arbitrary: xs)
  case Nil
  then show ?case by simp
next
  case (Cons k ks)
  then have ks: "distinct ks" "k \<notin> set ks" by auto
  show ?case
  proof (cases "map_of xs k")
    case None
    have "k \<notin> fst ` set xs" using None by (simp add: map_of_eq_None_iff)
    then have "filter (\<lambda>(j, e). \<not> (j \<in> set ks \<and> erasable xs j)) xs =
        filter (\<lambda>(j, e). \<not> (j \<in> set (k # ks) \<and> erasable xs j)) xs"
      by (intro filter_cong) (auto simp: image_iff)
    then show ?thesis using Cons.IH [OF ks(1), of xs] None by (simp add: erasable_def)
  next
    case (Some e)
    show ?thesis
    proof (cases "CanEraseLocked e")
      case False
      then have n: "\<not> erasable xs k" using Some by (simp add: erasable_def)
      then have "filter (\<lambda>(j, e). \<not> (j \<in> set ks \<and> erasable xs j)) xs =
          filter (\<lambda>(j, e). \<not> (j \<in> set (k # ks) \<and> erasable xs j)) xs"
        by (intro filter_cong) auto
      then show ?thesis using Cons.IH [OF ks(1), of xs] Some False n by simp
    next
      case True
      then have y: "erasable xs k" using Some by (simp add: erasable_def)
      let ?xs = "erase_actor k xs"
      have e: "erasable ?xs j = erasable xs j \<and> (map_of ?xs j \<noteq> None) = (map_of xs j \<noteq> None)" if "j \<in> set ks" for j
        using that ks(2) by (auto simp: erasable_def)
      have "filter (erasable ?xs) ks = filter (erasable xs) ks"
          "filter (\<lambda>k. map_of ?xs k \<noteq> None \<and> \<not> erasable ?xs k) ks = filter (\<lambda>k. map_of xs k \<noteq> None \<and> \<not> erasable xs k) ks"
        using e ks(2) by (auto intro!: filter_cong)
      moreover have "filter (\<lambda>(j, e). \<not> (j \<in> set ks \<and> erasable ?xs j)) ?xs =
          filter (\<lambda>(j, e). \<not> (j \<in> set (k # ks) \<and> erasable xs j)) xs"
      proof -
        have "filter (\<lambda>(j, e). \<not> (j \<in> set ks \<and> erasable ?xs j)) ?xs =
            filter (\<lambda>x. (case x of (j, e) \<Rightarrow> \<not> (j \<in> set ks \<and> erasable ?xs j)) \<and> (case x of (j, d) \<Rightarrow> j \<noteq> k)) xs"
          unfolding erase_actor_def filter_filter by (rule filter_cong) auto
        also have "\<dots> = filter (\<lambda>(j, e). \<not> (j \<in> set (k # ks) \<and> erasable xs j)) xs"
          by (rule filter_cong) (use y e in auto)
        finally show ?thesis .
      qed
      ultimately show ?thesis using Cons.IH [OF ks(1), of ?xs] Some True y by simp
    qed
  qed
qed

section \<open>The registry at work\<close>

text \<open>
  The registry with the leases that threads hold. \<open>run\<close>, \<open>drop\<close> and \<open>finish\<close> are what a holder does
  with its lease; \<open>activity\<close> is any step of an actor (mail arrives, an IO operation completes) and
  \<open>pin\<close> any change of its gate by a producer. \<open>shutdown\<close> happens when no lease is held: the server
  graph shuts the registry down after the scheduler has joined its workers and the pumps, the other
  holders of leases, have stopped. A \<open>run\<close> is one step although the code applies its report without
  the lock of the registry. \<open>shutdownCalls\<close> counts the shutdowns.
\<close>

record registry_world =
  registry :: NrSessionActorRegistry
  liveLeases :: "NrSessionActorLease list"
  shutdownCalls :: nat

definition without :: "nat \<Rightarrow> 'a list \<Rightarrow> 'a list" where
  "without i xs = take i xs @ drop (Suc i) xs"

inductive registry_step :: "registry_world \<Rightarrow> registry_world \<Rightarrow> bool" where
  register: "TryRegisterActor k a x y (registry w) = (st, reg) \<Longrightarrow> registry_step w (w\<lparr>registry := reg\<rparr>)"
| acquire: "TryAcquireLease k (registry w) = (Inr l, reg) \<Longrightarrow>
    registry_step w (w\<lparr>registry := reg, liveLeases := l # liveLeases w\<rparr>)"
| run: "i < length (liveLeases w) \<Longrightarrow> Lease_TryRun n (liveLeases w ! i) (registry w) = (report, l, reg) \<Longrightarrow>
    registry_step w (w\<lparr>registry := reg, liveLeases := (liveLeases w)[i := l]\<rparr>)"
| drop: "i < length (liveLeases w) \<Longrightarrow> Lease_Reset (liveLeases w ! i) (registry w) = (l, reg) \<Longrightarrow>
    registry_step w (w\<lparr>registry := reg, liveLeases := without i (liveLeases w)\<rparr>)"
| finish: "i < length (liveLeases w) \<Longrightarrow> finish_run finished x (liveLeases w ! i) (registry w) = (l, reg) \<Longrightarrow>
    registry_step w (w\<lparr>registry := reg, liveLeases := without i (liveLeases w)\<rparr>)"
| close: "RequestClose k x (registry w) = (st, reg) \<Longrightarrow> registry_step w (w\<lparr>registry := reg\<rparr>)"
| track: "TrackClosedActorKey k x (registry w) = (st, reg) \<Longrightarrow> registry_step w (w\<lparr>registry := reg\<rparr>)"
| deregister: "TryDeregisterClosedActor k (registry w) = (st, reg) \<Longrightarrow> registry_step w (w\<lparr>registry := reg\<rparr>)"
| sweep: "DeregisterClosedActors (registry w) = (n, reg) \<Longrightarrow> registry_step w (w\<lparr>registry := reg\<rparr>)"
| shutdown: "liveLeases w = [] \<Longrightarrow> Registry_Shutdown (registry w) = (st, gone, reg) \<Longrightarrow>
    registry_step w (w\<lparr>registry := reg, shutdownCalls := shutdownCalls w + 1\<rparr>)"
| activity: "find_actor k (registry w) = Some e \<Longrightarrow> actor_step (entryActor e) a \<Longrightarrow>
    registry_step w (w\<lparr>registry := set_actor k (e\<lparr>entryActor := a\<rparr>) (registry w)\<rparr>)"
| pin: "find_actor k (registry w) = Some e \<Longrightarrow>
    registry_step w (w\<lparr>registry := set_actor k (e\<lparr>entryGate := g\<rparr>) (registry w)\<rparr>)"

inductive registry_reachable :: "registry_world \<Rightarrow> bool" where
  start: "registry_reachable \<lparr>registry = NrSessionActorRegistry_construct limit, liveLeases = [], shutdownCalls = 0\<rparr>"
| advance: "registry_reachable w \<Longrightarrow> registry_step w w' \<Longrightarrow> registry_reachable w'"

section \<open>The invariant\<close>

definition leases_on :: "u64 \<Rightarrow> NrSessionActorEntry \<Rightarrow> NrSessionActorLease list \<Rightarrow> nat" where
  "leases_on k e ls = count_of (\<lambda>l. leaseKey l = k \<and> leaseEntry l = Some (entryId e)) ls"

definition entry_ok :: "u64 \<Rightarrow> NrSessionActorEntry \<Rightarrow> NrSessionActorLease list \<Rightarrow> bool" where
  "entry_ok k e ls \<longleftrightarrow> k \<noteq> 0 \<and> lifecycle e \<noteq> Deregistering \<and> activeLeaseCount e = leases_on k e ls"

definition lease_ok :: "NrSessionActorRegistry \<Rightarrow> NrSessionActorLease \<Rightarrow> bool" where
  "lease_ok reg l \<longleftrightarrow> leased_entry l reg \<noteq> None"

definition registry_ok :: "registry_world \<Rightarrow> bool" where
  "registry_ok w \<longleftrightarrow>
     distinct (map fst (actors (registry w))) \<and> distinct (closedActorKeys (registry w)) \<and>
     length (actors (registry w)) \<le> maxSessionCount (registry w) \<and>
     (\<forall>k e. find_actor k (registry w) = Some e \<longrightarrow> entry_ok k e (liveLeases w)) \<and>
     (\<forall>l \<in> set (liveLeases w). lease_ok (registry w) l)"

lemma registry_okD:
  assumes "registry_ok w"
  shows "distinct (map fst (actors (registry w)))" "distinct (closedActorKeys (registry w))"
    and "length (actors (registry w)) \<le> maxSessionCount (registry w)"
    and "find_actor k (registry w) = Some e \<Longrightarrow> entry_ok k e (liveLeases w)"
    and "l \<in> set (liveLeases w) \<Longrightarrow> lease_ok (registry w) l"
  using assms unfolding registry_ok_def by blast+

lemma lease_okD:
  assumes "lease_ok reg l"
  obtains e where "find_actor (leaseKey l) reg = Some e" "leaseEntry l = Some (entryId e)" "leased_entry l reg = Some e"
  using assms by (auto simp: lease_ok_def leased_entry_def split: option.splits if_splits)

lemma lease_okI: "find_actor (leaseKey l) reg = Some e \<Longrightarrow> leaseEntry l = Some (entryId e) \<Longrightarrow> lease_ok reg l"
  by (simp add: lease_ok_def leased_entry_def)

text \<open>Replacing an entry by one with the same address, with the leases on it.\<close>

lemma ok_set_actor:
  assumes ok: "registry_ok w" and f: "find_actor k (registry w) = Some e"
    and e: "entryId e' = entryId e" "activeLeaseCount e' = leases_on k e (liveLeases w')" "lifecycle e' \<noteq> Deregistering"
    and r: "actors (registry w') = actors (set_actor k e' (registry w))"
      "maxSessionCount (registry w') = maxSessionCount (registry w)" "distinct (closedActorKeys (registry w'))"
    and l: "\<And>j d. j \<noteq> k \<Longrightarrow> leases_on j d (liveLeases w') = leases_on j d (liveLeases w)"
      "\<And>x. x \<in> set (liveLeases w') \<Longrightarrow> leaseKey x = k \<and> leaseEntry x = Some (entryId e) \<or>
         (\<exists>y \<in> set (liveLeases w). leaseKey y = leaseKey x \<and> leaseEntry y = leaseEntry x)"
  shows "registry_ok w'"
proof -
  note old = registry_okD [OF ok]
  have find: "find_actor j (registry w') = find_actor j (set_actor k e' (registry w))" for j
    by (simp only: find_actor_def r(1))
  have k: "entry_ok k e (liveLeases w)" using old(4) f .
  show ?thesis
    unfolding registry_ok_def
  proof (intro conjI allI impI ballI)
    show "distinct (map fst (actors (registry w')))" using old(1) by (simp add: r(1))
    show "distinct (closedActorKeys (registry w'))" by (rule r(3))
    show "length (actors (registry w')) \<le> maxSessionCount (registry w')" using old(3) by (simp add: r)
    fix j d assume "find_actor j (registry w') = Some d"
    then have "j = k \<and> d = e' \<or> j \<noteq> k \<and> find_actor j (registry w) = Some d"
      using f by (auto simp: find split: if_splits)
    then show "entry_ok j d (liveLeases w')"
    proof (elim disjE conjE)
      assume "j = k" "d = e'"
      then show ?thesis using k e by (simp add: entry_ok_def leases_on_def)
    next
      assume "j \<noteq> k" "find_actor j (registry w) = Some d"
      then show ?thesis using old(4) [of j d] l(1) [of j d] by (simp add: entry_ok_def)
    qed
  next
    fix x assume "x \<in> set (liveLeases w')"
    then consider "leaseKey x = k" "leaseEntry x = Some (entryId e)"
      | y where "y \<in> set (liveLeases w)" "leaseKey y = leaseKey x" "leaseEntry y = leaseEntry x"
      using l(2) by blast
    then show "lease_ok (registry w') x"
    proof cases
      case 1
      then show ?thesis using f e(1) by (intro lease_okI [where e = e']) (simp_all add: find)
    next
      case y: 2
      obtain d where d: "find_actor (leaseKey y) (registry w) = Some d" "leaseEntry y = Some (entryId d)"
        using old(5) [OF y(1)] by (rule lease_okD)
      show ?thesis
        by (rule lease_okI [where e = "if leaseKey x = k then e' else d"]) (use d y f e(1) in \<open>auto simp: find\<close>)
    qed
  qed
qed

text \<open>Erasing an entry that nobody leases.\<close>

lemma ok_erase:
  assumes ok: "registry_ok w" and free: "\<And>k e. find_actor k (registry w) = Some e \<Longrightarrow>
      find_actor k reg = None \<Longrightarrow> activeLeaseCount e = 0"
    and kept: "\<And>k e. find_actor k reg = Some e \<Longrightarrow> find_actor k (registry w) = Some e"
    and r: "distinct (map fst (actors reg))" "length (actors reg) \<le> length (actors (registry w))"
      "maxSessionCount reg = maxSessionCount (registry w)" "distinct (closedActorKeys reg)"
  shows "registry_ok (w\<lparr>registry := reg\<rparr>)"
  unfolding registry_ok_def
proof (intro conjI allI impI ballI)
  note old = registry_okD [OF ok]
  show "distinct (map fst (actors (registry (w\<lparr>registry := reg\<rparr>))))" using r(1) by simp
  show "distinct (closedActorKeys (registry (w\<lparr>registry := reg\<rparr>)))" using r(4) by simp
  show "length (actors (registry (w\<lparr>registry := reg\<rparr>))) \<le> maxSessionCount (registry (w\<lparr>registry := reg\<rparr>))"
    using old(3) r(2,3) by simp
  fix k e assume "find_actor k (registry (w\<lparr>registry := reg\<rparr>)) = Some e"
  then show "entry_ok k e (liveLeases (w\<lparr>registry := reg\<rparr>))" using old(4) kept by simp
next
  note old = registry_okD [OF ok]
  fix l assume "l \<in> set (liveLeases (w\<lparr>registry := reg\<rparr>))"
  then have l: "l \<in> set (liveLeases w)" by simp
  obtain e where e: "find_actor (leaseKey l) (registry w) = Some e" "leaseEntry l = Some (entryId e)"
    using old(5) [OF l] by (rule lease_okD)
  have "0 < leases_on (leaseKey l) e (liveLeases w)"
    using l e(2) count_of_zero unfolding leases_on_def by (metis (mono_tags, lifting) gr0I)
  then have "0 < activeLeaseCount e" using old(4) [OF e(1)] by (simp add: entry_ok_def)
  then obtain d where "find_actor (leaseKey l) reg = Some d" using free [OF e(1)] by (cases "find_actor (leaseKey l) reg") auto
  then show "lease_ok (registry (w\<lparr>registry := reg\<rparr>)) l" using kept e by (intro lease_okI [where e = e]) auto
qed

section \<open>The steps keep the invariant\<close>

lemma ok_same_leases:
  assumes "registry_ok w" "find_actor k (registry w) = Some e"
    and "entryId e' = entryId e" "activeLeaseCount e' = activeLeaseCount e" "lifecycle e' \<noteq> Deregistering"
  shows "registry_ok (w\<lparr>registry := set_actor k e' (registry w)\<rparr>)"
proof -
  have "activeLeaseCount e = leases_on k e (liveLeases w)"
    using registry_okD(4) [OF assms(1,2)] by (simp add: entry_ok_def)
  then show ?thesis
    by (intro ok_set_actor [OF assms(1,2)]) (use assms registry_okD(2) [OF assms(1)] in auto)
qed

lemma leases_update:
  assumes "leaseKey l = leaseKey (ls ! i)" "leaseEntry l = leaseEntry (ls ! i)" "i < length ls"
  shows "leases_on k e (ls[i := l]) = leases_on k e ls"
  using assms by (simp add: leases_on_def count_of_update)

lemma count_without:
  assumes "i < length xs"
  shows "count_of P (without i xs) + of_bool (P (xs ! i)) = count_of P xs"
proof -
  have "xs = take i xs @ xs ! i # drop (Suc i) xs" using assms by (rule id_take_nth_drop)
  then have "count_of P xs = count_of P (take i xs) + count_of P (xs ! i # drop (Suc i) xs)"
    by (metis count_of_def filter_append length_append)
  then show ?thesis by (simp add: without_def count_of_def)
qed

lemma set_without: "x \<in> set (without i xs) \<Longrightarrow> x \<in> set xs"
  by (auto simp: without_def dest: in_set_takeD in_set_dropD)

text \<open>A run moves the lifecycle forward only.\<close>

fun stage :: "NrSessionActorLifecycle \<Rightarrow> nat" where
  "stage Active = 0"
| "stage CloseRequestedAwaitingDrain = 1"
| "stage CloseRequestedReadyToDeregister = 2"
| "stage Deregistering = 3"

lemma stage_zero [simp]: "stage c = 0 \<longleftrightarrow> c = Active"
  by (cases c) simp_all

lemma ApplyDrainReport_result:
  assumes "ApplyDrainReport report c = (actions, c')"
  shows "stage c \<le> stage c'" "c \<noteq> Deregistering \<Longrightarrow> c' \<noteq> Deregistering"
    and "reportCloseRequested report \<Longrightarrow> c' \<noteq> Active"
    and "shouldTrackClosedActorKey actions \<longleftrightarrow> c = Active \<and> c' \<noteq> Active"
    and "shouldTryDeregister actions \<longleftrightarrow> c' = CloseRequestedReadyToDeregister"
    and "postRecvRequested actions \<Longrightarrow> c' = Active \<and> c = Active"
  using assms by (auto simp: ApplyDrainReport_def Let_def split: if_splits)

lemma AccumulateRegistryCleanupActions_fields [simp]:
  "leaseKey (AccumulateRegistryCleanupActions actions l) = leaseKey l"
  "leaseEntry (AccumulateRegistryCleanupActions actions l) = leaseEntry l"
  "cleanupTrackClosedActorKey (leaseCleanup (AccumulateRegistryCleanupActions actions l)) \<longleftrightarrow>
     cleanupTrackClosedActorKey (leaseCleanup l) \<or> shouldTrackClosedActorKey actions"
  "cleanupTryDeregister (leaseCleanup (AccumulateRegistryCleanupActions actions l)) \<longleftrightarrow>
     cleanupTryDeregister (leaseCleanup l) \<or> shouldTryDeregister actions"
  by (simp_all add: AccumulateRegistryCleanupActions_def)

lemma TryPostRequestedRecv_result:
  assumes "TryPostRequestedRecv actions l e = (st, l', e')"
  shows "entryId e' = entryId e" "activeLeaseCount e' = activeLeaseCount e" "leaseKey l' = leaseKey l"
    "leaseEntry l' = leaseEntry l" "stage (lifecycle e) \<le> stage (lifecycle e')"
    "lifecycle e \<noteq> Deregistering \<Longrightarrow> lifecycle e' \<noteq> Deregistering"
    and "Failed st \<Longrightarrow> lifecycle e' \<noteq> Active"
    and "cleanupTrackClosedActorKey (leaseCleanup l') \<longleftrightarrow>
      cleanupTrackClosedActorKey (leaseCleanup l) \<or> lifecycle e = Active \<and> lifecycle e' \<noteq> Active"
proof -
  obtain st1 a where p: "PostRequestedRecv (entryActor e) = (st1, a)" by fastforce
  obtain report b where t: "TakeDrainReport a = (report, b)" by fastforce
  let ?report = "report\<lparr>reportCloseRequested := True, reportCloseReady := \<not> HasPendingIo b\<rparr>"
  obtain fa c where c: "ApplyDrainReport ?report (lifecycle e) = (fa, c)" by fastforce
  note d = ApplyDrainReport_result [OF c]
  have e: "(st, l', e') = (if \<not> postRecvRequested actions then (NrStatus_Success, l, e)
      else if Succeeded st1 then (NrStatus_Success, l, e\<lparr>entryActor := a\<rparr>)
      else (st1, AccumulateRegistryCleanupActions fa l, e\<lparr>entryActor := b, lifecycle := c\<rparr>))"
    using assms unfolding TryPostRequestedRecv_def p t prod.case Let_def c by simp
  then show "entryId e' = entryId e" "activeLeaseCount e' = activeLeaseCount e" "leaseKey l' = leaseKey l"
      "leaseEntry l' = leaseEntry l" "stage (lifecycle e) \<le> stage (lifecycle e')"
      "lifecycle e \<noteq> Deregistering \<Longrightarrow> lifecycle e' \<noteq> Deregistering"
      "Failed st \<Longrightarrow> lifecycle e' \<noteq> Active"
      "cleanupTrackClosedActorKey (leaseCleanup l') \<longleftrightarrow>
        cleanupTrackClosedActorKey (leaseCleanup l) \<or> lifecycle e = Active \<and> lifecycle e' \<noteq> Active"
    using d(1-4) by (auto split: if_splits)
qed

lemma run_entry_fields:
  assumes "run_entry n l e = (report, l', e')"
  shows "entryId e' = entryId e" "activeLeaseCount e' = activeLeaseCount e" "leaseKey l' = leaseKey l"
    "leaseEntry l' = leaseEntry l" "lifecycle e \<noteq> Deregistering \<Longrightarrow> lifecycle e' \<noteq> Deregistering"
    and "stage (lifecycle e) \<le> stage (lifecycle e')"
    and "Failed (runStatus report) \<Longrightarrow> lifecycle e' \<noteq> Active"
    and "cleanupTrackClosedActorKey (leaseCleanup l') \<longleftrightarrow>
      cleanupTrackClosedActorKey (leaseCleanup l) \<or> lifecycle e = Active \<and> lifecycle e' \<noteq> Active"
proof -
  obtain rr a g where x: "Executor_TryRun n (entryActor e) (entryGate e) = (rr, a, g)" by (metis prod_cases3)
  obtain report0 b where t: "TakeDrainReport a = (report0, b)" by fastforce
  let ?report = "if Failed (runStatus rr)
    then report0\<lparr>reportCloseRequested := True, reportCloseReady := \<not> HasPendingIo b, requestPostRecv := False\<rparr> else report0"
  obtain actions c where c: "ApplyDrainReport ?report (lifecycle e) = (actions, c)" by fastforce
  note d = ApplyDrainReport_result [OF c]
  let ?l = "AccumulateRegistryCleanupActions actions l"
  let ?e = "e\<lparr>entryActor := b, entryGate := g, lifecycle := c\<rparr>"
  obtain st l2 e2 where post: "TryPostRequestedRecv actions ?l ?e = (st, l2, e2)" by (metis prod_cases3)
  note p = TryPostRequestedRecv_result [OF post]
  have r: "(report, l', e') = (if Failed (runStatus rr) then (rr, ?l, ?e)
      else (if Failed st then rr\<lparr>runStatus := st\<rparr> else rr, l2, e2))"
    using assms unfolding run_entry_def x t prod.case Let_def c post by simp
  have "(report, l', e') = (rr, ?l, ?e) \<and> Failed (runStatus rr) \<or>
      (report, l', e') = (if Failed st then rr\<lparr>runStatus := st\<rparr> else rr, l2, e2) \<and> \<not> Failed (runStatus rr)"
    using r by presburger
  then show "entryId e' = entryId e" "activeLeaseCount e' = activeLeaseCount e" "leaseKey l' = leaseKey l"
      "leaseEntry l' = leaseEntry l" "lifecycle e \<noteq> Deregistering \<Longrightarrow> lifecycle e' \<noteq> Deregistering"
      "stage (lifecycle e) \<le> stage (lifecycle e')"
      "Failed (runStatus report) \<Longrightarrow> lifecycle e' \<noteq> Active"
      "cleanupTrackClosedActorKey (leaseCleanup l') \<longleftrightarrow>
        cleanupTrackClosedActorKey (leaseCleanup l) \<or> lifecycle e = Active \<and> lifecycle e' \<noteq> Active"
    using d(1-4) p by (auto split: if_splits)
qed

lemma ok_run:
  assumes ok: "registry_ok w" and i: "i < length (liveLeases w)"
    and r: "Lease_TryRun n (liveLeases w ! i) (registry w) = (report, l, reg)"
  shows "registry_ok (w\<lparr>registry := reg, liveLeases := (liveLeases w)[i := l]\<rparr>)"
proof -
  let ?l = "liveLeases w ! i"
  obtain e where e: "find_actor (leaseKey ?l) (registry w) = Some e" "leaseEntry ?l = Some (entryId e)"
      "leased_entry ?l (registry w) = Some e"
    using registry_okD(5) [OF ok nth_mem [OF i]] by (rule lease_okD)
  note eo = registry_okD(4) [OF ok e(1)]
  obtain rep' l' e' where run: "run_entry n ?l e = (rep', l', e')" by (metis prod_cases3)
  note f = run_entry_fields [OF run]
  have reg: "reg = set_actor (leaseKey ?l) e' (registry w)" "l = l'"
    using r e eo run by (auto simp: Lease_TryRun_def Lease_IsValid_def entry_ok_def)
  have ls: "leases_on j d ((liveLeases w)[i := l]) = leases_on j d (liveLeases w)" for j d
    by (rule leases_update) (simp_all add: reg f i)
  show ?thesis
  proof (rule ok_set_actor [OF ok e(1), of e'])
    show "activeLeaseCount e' = leases_on (leaseKey ?l) e (liveLeases (w\<lparr>registry := reg, liveLeases := (liveLeases w)[i := l]\<rparr>))"
      using eo f(2) by (simp add: ls entry_ok_def)
    fix x assume "x \<in> set (liveLeases (w\<lparr>registry := reg, liveLeases := (liveLeases w)[i := l]\<rparr>))"
    then have "x = l \<or> x \<in> set (liveLeases w)" by (auto dest: set_update_subset_insert [THEN subsetD])
    then show "leaseKey x = leaseKey ?l \<and> leaseEntry x = Some (entryId e) \<or>
        (\<exists>y \<in> set (liveLeases w). leaseKey y = leaseKey x \<and> leaseEntry y = leaseEntry x)"
      using f(3,4) e(2) reg(2) by auto
  qed (use f eo ls registry_okD(2) [OF ok] in \<open>simp_all add: reg entry_ok_def\<close>)
qed

lemma ok_drop:
  assumes ok: "registry_ok w" and i: "i < length (liveLeases w)"
    and r: "Lease_Reset (liveLeases w ! i) (registry w) = (l, reg)"
  shows "registry_ok (w\<lparr>registry := reg, liveLeases := without i (liveLeases w)\<rparr>)"
proof -
  let ?l = "liveLeases w ! i"
  obtain e where e: "find_actor (leaseKey ?l) (registry w) = Some e" "leaseEntry ?l = Some (entryId e)"
    using registry_okD(5) [OF ok nth_mem [OF i]] by (rule lease_okD)
  note eo = registry_okD(4) [OF ok e(1)]
  have w: "leases_on j d (without i (liveLeases w)) + of_bool (leaseKey ?l = j \<and> leaseEntry ?l = Some (entryId d)) =
      leases_on j d (liveLeases w)" for j d
    unfolding leases_on_def by (rule count_without [OF i])
  have "0 < activeLeaseCount e" using w [of "leaseKey ?l" e] eo e(2) by (simp add: entry_ok_def)
  let ?e = "e\<lparr>activeLeaseCount := activeLeaseCount e - 1\<rparr>"
  have reg: "reg = set_actor (leaseKey ?l) ?e (registry w)"
    using r e \<open>0 < activeLeaseCount e\<close> by (auto simp: Lease_Reset_def ReleaseLease_def)
  show ?thesis
  proof (rule ok_set_actor [OF ok e(1), of ?e])
    show "activeLeaseCount ?e = leases_on (leaseKey ?l) e (liveLeases (w\<lparr>registry := reg, liveLeases := without i (liveLeases w)\<rparr>))"
      using w [of "leaseKey ?l" e] eo e(2) by (simp add: entry_ok_def)
    show "leases_on j d (liveLeases (w\<lparr>registry := reg, liveLeases := without i (liveLeases w)\<rparr>)) = leases_on j d (liveLeases w)"
      if "j \<noteq> leaseKey ?l" for j d using w [of j d] that by simp
    show "leaseKey x = leaseKey ?l \<and> leaseEntry x = Some (entryId e) \<or>
        (\<exists>y \<in> set (liveLeases w). leaseKey y = leaseKey x \<and> leaseEntry y = leaseEntry x)"
      if "x \<in> set (liveLeases (w\<lparr>registry := reg, liveLeases := without i (liveLeases w)\<rparr>))" for x
      using set_without [of x i "liveLeases w"] that by auto
  qed (use eo registry_okD(2) [OF ok] in \<open>auto simp: reg entry_ok_def\<close>)
qed

lemma ok_register:
  assumes ok: "registry_ok w" and r: "TryRegisterActor k a x y (registry w) = (st, reg)"
  shows "registry_ok (w\<lparr>registry := reg\<rparr>)"
proof (cases "reg = registry w")
  case True
  then show ?thesis using ok by simp
next
  case False
  then obtain b where b: "a = Some b" "k \<noteq> 0" "find_actor k (registry w) = None"
      "length (actors (registry w)) < maxSessionCount (registry w)"
    and reg: "reg = (registry w)\<lparr>actors := (k, \<lparr>entryId = nextEntry (registry w), entryActor = b, entryGate = 0,
        lifecycle = Active, activeLeaseCount = 0\<rparr>) # actors (registry w), nextEntry := nextEntry (registry w) + 1\<rparr>"
    using r by (auto simp: TryRegisterActor_def split: option.splits if_splits)
  note old = registry_okD [OF ok]
  have lk: "leaseKey l \<noteq> k" if "l \<in> set (liveLeases w)" for l
    using old(5) [OF that] b(3) by (auto simp: lease_ok_def leased_entry_def split: option.splits)
  have none: "leases_on k e (liveLeases w) = 0" for e
    using lk by (auto simp: leases_on_def count_of_zero)
  have find: "find_actor j reg = (if j = k then Some \<lparr>entryId = nextEntry (registry w), entryActor = b, entryGate = 0,
        lifecycle = Active, activeLeaseCount = 0\<rparr> else find_actor j (registry w))" for j
    by (simp add: find_actor_def reg)
  show ?thesis
    unfolding registry_ok_def
  proof (intro conjI allI impI ballI)
    show "distinct (map fst (actors (registry (w\<lparr>registry := reg\<rparr>))))"
      using old(1) b(3) by (simp add: reg find_actor_def map_of_eq_None_iff)
    show "distinct (closedActorKeys (registry (w\<lparr>registry := reg\<rparr>)))" using old(2) by (simp add: reg)
    show "length (actors (registry (w\<lparr>registry := reg\<rparr>))) \<le> maxSessionCount (registry (w\<lparr>registry := reg\<rparr>))"
      using b(4) by (simp add: reg)
    fix j e assume "find_actor j (registry (w\<lparr>registry := reg\<rparr>)) = Some e"
    then show "entry_ok j e (liveLeases (w\<lparr>registry := reg\<rparr>))"
      using old(4) [of j e] b(2) none by (auto simp: find entry_ok_def split: if_splits)
  next
    fix l assume "l \<in> set (liveLeases (w\<lparr>registry := reg\<rparr>))"
    then have l: "l \<in> set (liveLeases w)" by simp
    then obtain e where "find_actor (leaseKey l) (registry w) = Some e" "leaseEntry l = Some (entryId e)"
      using old(5) by (meson lease_okD)
    then show "lease_ok (registry (w\<lparr>registry := reg\<rparr>)) l"
      using lk [OF l] by (intro lease_okI [where e = e]) (simp_all add: find)
  qed
qed

lemma ok_acquire:
  assumes ok: "registry_ok w" and r: "TryAcquireLease k (registry w) = (Inr l, reg)"
  shows "registry_ok (w\<lparr>registry := reg, liveLeases := l # liveLeases w\<rparr>)"
proof -
  obtain e where e: "find_actor k (registry w) = Some e" "lifecycle e \<noteq> Deregistering"
    and l: "l = \<lparr>leaseEntry = Some (entryId e), leaseKey = k, leaseCleanup = no_cleanup\<rparr>"
    and reg: "reg = set_actor k (e\<lparr>activeLeaseCount := activeLeaseCount e + 1\<rparr>) (registry w)"
    using r by (auto simp: TryAcquireLease_def split: option.splits if_splits)
  note eo = registry_okD(4) [OF ok e(1)]
  show ?thesis
    by (rule ok_set_actor [OF ok e(1), of "e\<lparr>activeLeaseCount := activeLeaseCount e + 1\<rparr>"])
      (use eo e registry_okD(2) [OF ok] in \<open>auto simp: reg l entry_ok_def leases_on_def count_of_Cons\<close>)
qed

lemma distinct_insert_key: "distinct ks \<Longrightarrow> distinct (insert_key k ks)"
  by (simp add: insert_key_def)

lemma ok_keys:
  assumes "registry_ok w" "distinct ks"
  shows "registry_ok (w\<lparr>registry := (registry w)\<lparr>closedActorKeys := ks\<rparr>\<rparr>)"
  using assms unfolding registry_ok_def by (simp add: lease_ok_def leased_entry_def)

lemma ok_close:
  assumes ok: "registry_ok w" and r: "RequestClose k x (registry w) = (st, reg)"
  shows "registry_ok (w\<lparr>registry := reg\<rparr>)"
proof (cases "reg = registry w")
  case True
  then show ?thesis using ok by simp
next
  case False
  then obtain e c where e: "find_actor k (registry w) = Some e" and c: "c \<noteq> Deregistering"
    and reg: "reg = set_actor k (e\<lparr>lifecycle := c\<rparr>)
      ((registry w)\<lparr>closedActorKeys := insert_key k (closedActorKeys (registry w))\<rparr>)"
    using r by (auto simp: RequestClose_def split: option.splits if_splits)
  let ?w = "w\<lparr>registry := (registry w)\<lparr>closedActorKeys := insert_key k (closedActorKeys (registry w))\<rparr>\<rparr>"
  have "registry_ok ?w" by (rule ok_keys [OF ok distinct_insert_key [OF registry_okD(2) [OF ok]]])
  from ok_same_leases [OF this, of k e "e\<lparr>lifecycle := c\<rparr>"] show ?thesis using e c reg by simp
qed

lemma ok_track:
  assumes ok: "registry_ok w" and r: "TrackClosedActorKey k x (registry w) = (st, reg)"
  shows "registry_ok (w\<lparr>registry := reg\<rparr>)"
proof -
  have "reg = registry w \<or> reg = (registry w)\<lparr>closedActorKeys := insert_key k (closedActorKeys (registry w))\<rparr>"
    using r by (auto simp: TrackClosedActorKey_def split: option.splits if_splits)
  then show ?thesis
    using ok ok_keys [OF ok distinct_insert_key [OF registry_okD(2) [OF ok]]] by auto
qed

lemma ok_deregister:
  assumes ok: "registry_ok w" and r: "TryDeregisterClosedActor k (registry w) = (st, reg)"
  shows "registry_ok (w\<lparr>registry := reg\<rparr>)"
proof -
  note old = registry_okD [OF ok]
  have d: "distinct (removeAll k (closedActorKeys (registry w)))" using old(2) by (simp add: distinct_removeAll)
  consider "reg = registry w" | "reg = (registry w)\<lparr>closedActorKeys := removeAll k (closedActorKeys (registry w))\<rparr>"
    | e where "find_actor k (registry w) = Some e" "CanEraseLocked e"
        "reg = (registry w)\<lparr>actors := erase_actor k (actors (registry w)),
            closedActorKeys := removeAll k (closedActorKeys (registry w))\<rparr>"
    using r by (auto simp: TryDeregisterClosedActor_def split: option.splits if_splits)
  then show ?thesis
  proof cases
    case 1 then show ?thesis using ok by simp
  next
    case 2 then show ?thesis using ok_keys [OF ok d] by simp
  next
    case (3 e)
    have f: "find_actor j reg = (if j = k then None else find_actor j (registry w))" for j
      by (simp add: find_actor_def 3(3))
    show ?thesis
    proof (rule ok_erase [OF ok])
      show "activeLeaseCount d = 0" if "find_actor j (registry w) = Some d" "find_actor j reg = None" for j d
        using that 3(1,2) by (auto simp: f CanEraseLocked_def split: if_splits)
      show "find_actor j (registry w) = Some d" if "find_actor j reg = Some d" for j d
        using that by (simp add: f split: if_splits)
    qed (use old(1) d length_erase in \<open>simp_all add: 3(3) distinct_removeAll\<close>)
  qed
qed

lemma map_of_filter_keys:
  "map_of (filter (\<lambda>(k, e). P k) xs) j = (if P j then map_of xs j else None)"
  by (induction xs) auto

lemma sweep_find:
  assumes "registry_ok w" "DeregisterClosedActors (registry w) = (n, reg)"
  shows "find_actor j reg =
    (if j \<in> set (closedActorKeys (registry w)) \<and> erasable (actors (registry w)) j then None
     else find_actor j (registry w))"
proof -
  have "actors reg = filter (\<lambda>(k, e). \<not> (k \<in> set (closedActorKeys (registry w)) \<and> erasable (actors (registry w)) k))
      (actors (registry w))"
    using assms(2) by (auto simp: DeregisterClosedActors_def DeregisterLoop_exact [OF registry_okD(2) [OF assms(1)]])
  then show ?thesis by (simp add: find_actor_def map_of_filter_keys)
qed

lemma ok_sweep:
  assumes ok: "registry_ok w" and r: "DeregisterClosedActors (registry w) = (n, reg)"
  shows "registry_ok (w\<lparr>registry := reg\<rparr>)"
proof -
  note old = registry_okD [OF ok]
  have reg: "actors reg = filter (\<lambda>(k, e). \<not> (k \<in> set (closedActorKeys (registry w)) \<and> erasable (actors (registry w)) k))
        (actors (registry w))" "maxSessionCount reg = maxSessionCount (registry w)"
      "closedActorKeys reg = filter (\<lambda>k. map_of (actors (registry w)) k \<noteq> None \<and> \<not> erasable (actors (registry w)) k)
        (closedActorKeys (registry w))"
    using r by (auto simp: DeregisterClosedActors_def DeregisterLoop_exact [OF old(2)])
  note find = sweep_find [OF ok r]
  show ?thesis
  proof (rule ok_erase [OF ok])
    show "activeLeaseCount d = 0" if "find_actor j (registry w) = Some d" "find_actor j reg = None" for j d
    proof -
      have "erasable (actors (registry w)) j" using that find [of j] by (simp split: if_splits)
      then have "CanEraseLocked d" using that(1) by (simp add: erasable_def find_actor_def)
      then show ?thesis by (simp add: CanEraseLocked_def)
    qed
    show "find_actor j (registry w) = Some d" if "find_actor j reg = Some d" for j d
      using that by (simp add: find split: if_splits)
    show "distinct (map fst (actors reg))" unfolding reg(1) by (rule distinct_map_filter [OF old(1)])
    show "distinct (closedActorKeys reg)" unfolding reg(3) by (rule distinct_filter [OF old(2)])
  qed (simp_all add: reg(1,2))
qed

lemma ok_shutdown:
  assumes "registry_ok w" "liveLeases w = []" "Registry_Shutdown (registry w) = (st, gone, reg)"
  shows "registry_ok (w\<lparr>registry := reg, shutdownCalls := c\<rparr>)"
  using assms(2,3) by (auto simp: registry_ok_def Registry_Shutdown_def find_actor_def)

text \<open>The end of a run: the lease is dropped before the registry is asked to deregister.\<close>

lemma finish_run_steps:
  assumes "finish_run finished x l reg = (l', reg')"
  obtains reg1 reg2 where "Lease_Reset l reg = (l', reg1)"
    and "reg2 = reg1 \<or> (\<exists>st. TrackClosedActorKey (leaseKey l) x reg1 = (st, reg2))"
    and "reg' = reg2 \<or> (\<exists>st. TryDeregisterClosedActor (leaseKey l) reg2 = (st, reg'))"
proof -
  obtain reg1 where r: "Lease_Reset l reg = (l', reg1)"
    and c: "reg' = RunRegistryCleanup (leaseKey l) x (cleanupTrackClosedActorKey (leaseCleanup l))
      (cleanupTryDeregister (leaseCleanup l) \<and> finished) reg1"
    using assms by (auto simp: finish_run_def split: prod.splits)
  show thesis
    by (rule that [OF r, of "if cleanupTrackClosedActorKey (leaseCleanup l)
          then snd (TrackClosedActorKey (leaseKey l) x reg1) else reg1"])
      (auto simp: c RunRegistryCleanup_def Let_def intro: prod.collapse [symmetric])
qed

lemma ok_finish:
  assumes ok: "registry_ok w" and i: "i < length (liveLeases w)"
    and r: "finish_run finished x (liveLeases w ! i) (registry w) = (l, reg)"
  shows "registry_ok (w\<lparr>registry := reg, liveLeases := without i (liveLeases w)\<rparr>)"
proof -
  obtain reg1 reg2 where r1: "Lease_Reset (liveLeases w ! i) (registry w) = (l, reg1)"
    and r2: "reg2 = reg1 \<or> (\<exists>st. TrackClosedActorKey (leaseKey (liveLeases w ! i)) x reg1 = (st, reg2))"
    and r3: "reg = reg2 \<or> (\<exists>st. TryDeregisterClosedActor (leaseKey (liveLeases w ! i)) reg2 = (st, reg))"
    by (rule finish_run_steps [OF r])
  let ?w = "\<lambda>reg. w\<lparr>registry := reg, liveLeases := without i (liveLeases w)\<rparr>"
  have w: "(?w r)\<lparr>registry := s\<rparr> = ?w s" for r s by (cases w) simp
  have "registry_ok (?w reg1)" by (rule ok_drop [OF ok i r1])
  then have "registry_ok (?w reg2)" using r2 ok_track [of "?w reg1", unfolded w] by auto
  then show ?thesis using r3 ok_deregister [of "?w reg2", unfolded w] by auto
qed

lemma registry_step_ok:
  assumes "registry_step w w'" "registry_ok w"
  shows "registry_ok w'"
  using assms(1)
proof cases
  case (register k a x y st reg) then show ?thesis using ok_register [OF assms(2)] by simp
next
  case (acquire k l reg) then show ?thesis using ok_acquire [OF assms(2)] by simp
next
  case (run i n report l reg) then show ?thesis using ok_run [OF assms(2)] by simp
next
  case (drop i l reg) then show ?thesis using ok_drop [OF assms(2)] by simp
next
  case (finish i finished x l reg) then show ?thesis using ok_finish [OF assms(2)] by simp
next
  case (close k x st reg) then show ?thesis using ok_close [OF assms(2)] by simp
next
  case (track k x st reg) then show ?thesis using ok_track [OF assms(2)] by simp
next
  case (deregister k st reg) then show ?thesis using ok_deregister [OF assms(2)] by simp
next
  case (sweep n reg) then show ?thesis using ok_sweep [OF assms(2)] by simp
next
  case (shutdown st gone reg) then show ?thesis using ok_shutdown [OF assms(2)] by simp
next
  case (activity k e a)
  then show ?thesis using ok_same_leases [OF assms(2) activity(2)] registry_okD(4) [OF assms(2) activity(2)]
    by (simp add: entry_ok_def)
next
  case (pin k e g)
  then show ?thesis using ok_same_leases [OF assms(2) pin(2)] registry_okD(4) [OF assms(2) pin(2)]
    by (simp add: entry_ok_def)
qed

lemma registry_reachable_ok: "registry_reachable w \<Longrightarrow> registry_ok w"
proof (induction rule: registry_reachable.induct)
  case (start limit)
  show ?case by (simp add: registry_ok_def NrSessionActorRegistry_construct_def find_actor_def)
next
  case advance then show ?case using registry_step_ok by blast
qed

section \<open>Properties\<close>

text \<open>
  Property C6. Leases never dangle: in every state the registry reaches, under any interleaving of
  registrations, leases, runs, closes, deregistrations and sweeps, each session key has one entry, the
  session limit is kept, the lease count of an entry is exactly the number of live leases on it, and
  the entry a live lease points to is in the map under the key of the lease, so the raw pointer of a
  lease is never dangling.
\<close>
theorem leases_never_dangle:
  assumes "registry_reachable w"
  shows "distinct (map fst (actors (registry w))) \<and> Registry_Count (registry w) \<le> maxSessionCount (registry w) \<and>
    (\<forall>k e. find_actor k (registry w) = Some e \<longrightarrow> activeLeaseCount e = leases_on k e (liveLeases w)) \<and>
    (\<forall>l \<in> set (liveLeases w). \<exists>e. find_actor (leaseKey l) (registry w) = Some e \<and> leaseEntry l = Some (entryId e))"
proof (intro conjI allI impI ballI)
  note ok = registry_okD [OF registry_reachable_ok [OF assms]]
  show "distinct (map fst (actors (registry w)))" by (rule ok(1))
  show "Registry_Count (registry w) \<le> maxSessionCount (registry w)" using ok(3) by (simp add: Registry_Count_def)
  show "activeLeaseCount e = leases_on k e (liveLeases w)" if "find_actor k (registry w) = Some e" for k e
    using ok(4) [OF that] by (simp add: entry_ok_def)
  show "\<exists>e. find_actor (leaseKey l) (registry w) = Some e \<and> leaseEntry l = Some (entryId e)"
    if "l \<in> set (liveLeases w)" for l using ok(5) [OF that] by (rule lease_okD) blast
qed

lemma finds_kept:
  "TryRegisterActor k a x y reg = (st, reg') \<Longrightarrow> find_actor j reg = Some d \<Longrightarrow> find_actor j reg' \<noteq> None"
  "TryAcquireLease k reg = (r, reg') \<Longrightarrow> find_actor j reg = Some d \<Longrightarrow> find_actor j reg' \<noteq> None"
  "Lease_TryRun n l reg = (report, l', reg') \<Longrightarrow> find_actor j reg = Some d \<Longrightarrow> find_actor j reg' \<noteq> None"
  "RequestClose k x reg = (st, reg') \<Longrightarrow> find_actor j reg = Some d \<Longrightarrow> find_actor j reg' \<noteq> None"
  "TrackClosedActorKey k x reg = (st, reg') \<Longrightarrow> find_actor j reg = Some d \<Longrightarrow> find_actor j reg' \<noteq> None"
  by (auto simp: TryRegisterActor_def TryAcquireLease_def Lease_TryRun_def RequestClose_def TrackClosedActorKey_def
      find_actor_def set_actor_def map_of_replace split: option.splits if_splits prod.splits)

lemma Lease_Reset_find:
  assumes "Lease_Reset l reg = (l', reg')" "find_actor j reg = Some d"
  shows "\<exists>e. find_actor j reg' = Some e \<and> lifecycle e = lifecycle d \<and> entryActor e = entryActor d"
  using assms by (auto simp: Lease_Reset_def ReleaseLease_def split: option.splits if_splits)

lemma TrackClosedActorKey_find:
  "TrackClosedActorKey k x reg = (st, reg') \<Longrightarrow> find_actor j reg' = find_actor j reg"
  by (auto simp: TrackClosedActorKey_def split: option.splits if_splits)

lemma TryDeregister_find:
  assumes "TryDeregisterClosedActor k reg = (st, reg')" "find_actor j reg = Some d" "find_actor j reg' = None"
  shows "CanEraseLocked d"
  using assms by (auto simp: TryDeregisterClosedActor_def find_actor_def split: option.splits if_splits)

lemma finish_find:
  assumes "finish_run finished x l reg = (l', reg')" "find_actor j reg = Some d" "find_actor j reg' = None"
  shows "lifecycle d \<noteq> Active \<and> \<not> HasPendingIo (entryActor d)"
proof -
  obtain reg1 reg2 where r1: "Lease_Reset l reg = (l', reg1)"
    and r2: "reg2 = reg1 \<or> (\<exists>st. TrackClosedActorKey (leaseKey l) x reg1 = (st, reg2))"
    and r3: "reg' = reg2 \<or> (\<exists>st. TryDeregisterClosedActor (leaseKey l) reg2 = (st, reg'))"
    by (rule finish_run_steps [OF assms(1)])
  obtain e where e: "find_actor j reg1 = Some e" "lifecycle e = lifecycle d" "entryActor e = entryActor d"
    using Lease_Reset_find [OF r1 assms(2)] by blast
  have e2: "find_actor j reg2 = Some e" using r2 e(1) TrackClosedActorKey_find by auto
  then obtain st where "TryDeregisterClosedActor (leaseKey l) reg2 = (st, reg')" using r3 assms(3) by auto
  from TryDeregister_find [OF this e2 assms(3)] show ?thesis using e by (simp add: CanEraseLocked_def)
qed

lemma shutdown_erases:
  assumes "Registry_Shutdown reg = (st, gone, reg')" "find_actor k reg = Some e"
  shows "actors reg' = [] \<and> RecordServerStopping (entryActor e) \<in> set (fst (snd (Registry_Shutdown reg)))"
proof -
  have "(k, e) \<in> set (actors reg)" using assms(2) unfolding find_actor_def by (rule map_of_SomeD)
  then show ?thesis using assms(1) by (force simp: Registry_Shutdown_def)
qed

lemma step_erases:
  assumes ok: "registry_ok w" and "registry_step w w'"
    and "find_actor k (registry w) = Some e" "find_actor k (registry w') = None"
  shows "shutdownCalls w' = shutdownCalls w \<and> lifecycle e \<noteq> Active \<and> \<not> HasPendingIo (entryActor e) \<or>
    shutdownCalls w' = shutdownCalls w + 1 \<and> liveLeases w = [] \<and> actors (registry w') = [] \<and>
    RecordServerStopping (entryActor e) \<in> set (fst (snd (Registry_Shutdown (registry w))))"
  using assms(2)
proof cases
  case (register k a x y st reg) then show ?thesis using finds_kept(1) [OF register(2) assms(3)] assms(4) register(1) by auto
next
  case (acquire k l reg) then show ?thesis using finds_kept(2) [OF acquire(2) assms(3)] assms(4) acquire(1) by auto
next
  case (run i n report l reg) then show ?thesis using finds_kept(3) [OF run(3) assms(3)] assms(4) run(1) by auto
next
  case (drop i l reg) then show ?thesis using Lease_Reset_find [OF drop(3) assms(3)] assms(4) drop(1) by fastforce
next
  case (finish i finished x l reg) then show ?thesis using finish_find [OF finish(3) assms(3)] assms(4) finish(1) by auto
next
  case (close k x st reg) then show ?thesis using finds_kept(4) [OF close(2) assms(3)] assms(4) close(1) by auto
next
  case (track k x st reg) then show ?thesis using finds_kept(5) [OF track(2) assms(3)] assms(4) track(1) by auto
next
  case (deregister j st reg)
  then show ?thesis using TryDeregister_find [OF deregister(2) assms(3)] assms(4) deregister(1) by (auto simp: CanEraseLocked_def)
next
  case (sweep n reg)
  then have "erasable (actors (registry w)) k" using sweep_find [OF ok sweep(2), of k] assms(3,4) by (simp split: if_splits)
  then show ?thesis using assms(3) by (simp add: sweep(1) erasable_def find_actor_def CanEraseLocked_def)
next
  case (shutdown st gone reg)
  then show ?thesis using shutdown_erases [OF shutdown(3) assms(3)] by (simp add: shutdown(1))
next
  case (activity j d a) then show ?thesis using assms(3,4) by (auto split: if_splits)
next
  case (pin j d g) then show ?thesis using assms(3,4) by (auto split: if_splits)
qed

text \<open>
  Property C28. An actor is destroyed only when it is idle, or when the whole registry is shut down.
  A step that takes an actor out of the map finds it closing and without pending IO, whatever
  operation removed it (a deregistration, the sweep, or the end of a run); the one exception is
  \<^verbatim>\<open>Shutdown\<close>, which empties the map when nobody holds a lease any more and destroys every actor,
  active or not, after it has recorded that the server stops. In either case no lease on the
  destroyed actor is left.
\<close>
theorem erased_actor_is_idle:
  assumes "registry_reachable w" "registry_step w w'"
    and "find_actor k (registry w) = Some e" "find_actor k (registry w') = None"
  shows "(shutdownCalls w' = shutdownCalls w \<and> lifecycle e \<noteq> Active \<and> \<not> HasPendingIo (entryActor e) \<or>
      shutdownCalls w' = shutdownCalls w + 1 \<and> liveLeases w = [] \<and> actors (registry w') = [] \<and>
      RecordServerStopping (entryActor e) \<in> set (fst (snd (Registry_Shutdown (registry w))))) \<and>
    (\<forall>l \<in> set (liveLeases w'). leaseKey l \<noteq> k)"
proof -
  have ok: "registry_ok w" by (rule registry_reachable_ok [OF assms(1)])
  have ok': "registry_ok w'" by (rule registry_step_ok [OF assms(2) ok])
  have "leaseKey l \<noteq> k" if "l \<in> set (liveLeases w')" for l
    using registry_okD(5) [OF ok' that] assms(4) by (auto elim: lease_okD)
  then have "\<forall>l \<in> set (liveLeases w'). leaseKey l \<noteq> k" by blast
  then show ?thesis using step_erases [OF ok assms(2-4)] by blast
qed

text \<open>
  Property C34. The sweep is exact: \<^verbatim>\<open>DeregisterClosedActors\<close> erases every tracked actor that is
  closing, unleased and without pending IO and no other, in whatever order the set is iterated;
  it reports their number, and keeps the tracked keys whose actors have to wait.
\<close>
theorem sweep_exact:
  assumes "distinct (closedActorKeys reg)"
  shows "DeregisterClosedActors reg =
    (length (filter (erasable (actors reg)) (closedActorKeys reg)),
     reg\<lparr>closedActorKeys := filter (\<lambda>k. find_actor k reg \<noteq> None \<and> \<not> erasable (actors reg) k) (closedActorKeys reg),
         actors := filter (\<lambda>(k, e). \<not> (k \<in> set (closedActorKeys reg) \<and> erasable (actors reg) k)) (actors reg)\<rparr>)"
  unfolding DeregisterClosedActors_def DeregisterLoop_exact [OF assms] prod.case find_actor_def ..

text \<open>
  How an entry found after a step came about: it is new, at a fresh address, or it is the entry that
  was there, no less closed than before and still tracked if its key was.
\<close>

definition evolves :: "u64 \<Rightarrow> NrSessionActorRegistry \<Rightarrow> NrSessionActorRegistry \<Rightarrow> bool" where
  "evolves k reg reg' \<longleftrightarrow> nextEntry reg \<le> nextEntry reg' \<and>
     (\<forall>d'. find_actor k reg' = Some d' \<longrightarrow>
        entryId d' = nextEntry reg \<and> nextEntry reg' = Suc (nextEntry reg) \<or>
        (\<exists>d. find_actor k reg = Some d \<and> entryId d' = entryId d \<and> (lifecycle d' = Active \<longrightarrow> lifecycle d = Active) \<and>
           (k \<in> set (closedActorKeys reg) \<longrightarrow> k \<in> set (closedActorKeys reg'))))"

lemma evolves_refl [simp]: "evolves k reg reg"
  by (simp add: evolves_def)

lemma nextEntry_set_actor [simp]: "nextEntry (set_actor k e reg) = nextEntry reg"
  by (simp add: set_actor_def)

lemma evolves_set_actor:
  assumes "find_actor j reg = Some e" "entryId e' = entryId e" "lifecycle e' = Active \<Longrightarrow> lifecycle e = Active"
  shows "evolves k reg (set_actor j e' reg)"
  using assms by (simp add: evolves_def)

lemma evolves_register:
  "TryRegisterActor j a x y reg = (st, reg') \<Longrightarrow> evolves k reg reg'"
  by (auto simp: TryRegisterActor_def evolves_def find_actor_def split: option.splits if_splits)

lemma evolves_acquire: "TryAcquireLease j reg = (r, reg') \<Longrightarrow> evolves k reg reg'"
  by (auto simp: TryAcquireLease_def intro: evolves_set_actor split: option.splits if_splits)

lemma evolves_run:
  assumes "Lease_TryRun n l reg = (report, l', reg')"
  shows "evolves k reg reg'"
proof -
  have "reg' = reg \<or> (\<exists>e rep. leased_entry l reg = Some e \<and> (\<exists>l' e'. run_entry n l e = (rep, l', e') \<and>
      reg' = set_actor (leaseKey l) e' reg))"
    using assms by (auto simp: Lease_TryRun_def split: option.splits if_splits prod.splits)
  then show ?thesis
  proof (elim disjE exE conjE)
    fix e rep l' e'
    assume e: "leased_entry l reg = Some e" "run_entry n l e = (rep, l', e')" "reg' = set_actor (leaseKey l) e' reg"
    have f: "find_actor (leaseKey l) reg = Some e" using e(1) by (auto simp: leased_entry_def split: option.splits if_splits)
    have "lifecycle e = Active" if "lifecycle e' = Active" using run_entry_fields(6) [OF e(2)] that by simp
    then show ?thesis using evolves_set_actor [OF f run_entry_fields(1) [OF e(2)]] e(3) by simp
  qed simp
qed

lemma evolves_reset: "Lease_Reset l reg = (l', reg') \<Longrightarrow> evolves k reg reg'"
  by (auto simp: Lease_Reset_def ReleaseLease_def intro: evolves_set_actor split: option.splits if_splits)

lemma evolves_track: "TrackClosedActorKey j x reg = (st, reg') \<Longrightarrow> evolves k reg reg'"
  by (auto simp: TrackClosedActorKey_def evolves_def insert_key_def split: option.splits if_splits)

lemma evolves_close: "RequestClose j x reg = (st, reg') \<Longrightarrow> evolves k reg reg'"
  by (auto simp: RequestClose_def evolves_def insert_key_def split: option.splits if_splits)

lemma evolves_deregister: "TryDeregisterClosedActor j reg = (st, reg') \<Longrightarrow> evolves k reg reg'"
  by (auto simp: TryDeregisterClosedActor_def evolves_def find_actor_def split: option.splits if_splits)

lemma evolves_trans:
  assumes "evolves k reg reg1" "evolves k reg1 reg2" "nextEntry reg1 = nextEntry reg"
  shows "evolves k reg reg2"
  unfolding evolves_def
proof (intro conjI allI impI)
  show "nextEntry reg \<le> nextEntry reg2" using assms unfolding evolves_def by linarith
  fix d2 assume "find_actor k reg2 = Some d2"
  then consider "entryId d2 = nextEntry reg1" "nextEntry reg2 = Suc (nextEntry reg1)"
    | d1 where "find_actor k reg1 = Some d1" "entryId d2 = entryId d1" "lifecycle d2 = Active \<longrightarrow> lifecycle d1 = Active"
        "k \<in> set (closedActorKeys reg1) \<longrightarrow> k \<in> set (closedActorKeys reg2)"
    using assms(2) unfolding evolves_def by blast
  then show "entryId d2 = nextEntry reg \<and> nextEntry reg2 = Suc (nextEntry reg) \<or>
      (\<exists>d. find_actor k reg = Some d \<and> entryId d2 = entryId d \<and> (lifecycle d2 = Active \<longrightarrow> lifecycle d = Active) \<and>
         (k \<in> set (closedActorKeys reg) \<longrightarrow> k \<in> set (closedActorKeys reg2)))"
  proof cases
    case 1
    then show ?thesis using assms(3) by simp
  next
    case (2 d1)
    moreover have "nextEntry reg1 \<noteq> Suc (nextEntry reg)" using assms(3) by simp
    ultimately show ?thesis using assms(1) unfolding evolves_def by metis
  qed
qed

lemma nextEntry_kept:
  "Lease_Reset l reg = (l', reg') \<Longrightarrow> nextEntry reg' = nextEntry reg"
  "TrackClosedActorKey j x reg = (st, reg') \<Longrightarrow> nextEntry reg' = nextEntry reg"
  by (auto simp: Lease_Reset_def ReleaseLease_def TrackClosedActorKey_def split: option.splits if_splits)

lemma evolves_finish:
  assumes "finish_run finished x l reg = (l', reg')"
  shows "evolves k reg reg'"
proof -
  obtain reg1 reg2 where r1: "Lease_Reset l reg = (l', reg1)"
    and r2: "reg2 = reg1 \<or> (\<exists>st. TrackClosedActorKey (leaseKey l) x reg1 = (st, reg2))"
    and r3: "reg' = reg2 \<or> (\<exists>st. TryDeregisterClosedActor (leaseKey l) reg2 = (st, reg'))"
    by (rule finish_run_steps [OF assms])
  have n: "nextEntry reg1 = nextEntry reg" by (rule nextEntry_kept(1) [OF r1])
  have "evolves k reg1 reg2 \<and> nextEntry reg2 = nextEntry reg1"
    using r2 evolves_track nextEntry_kept(2) by auto
  then have "evolves k reg reg2" "nextEntry reg2 = nextEntry reg"
    using evolves_trans [OF evolves_reset [OF r1] _ n] n by simp_all
  then show ?thesis using r3 evolves_trans evolves_deregister by auto
qed

lemma evolves_sweep:
  assumes ok: "registry_ok w" and r: "DeregisterClosedActors (registry w) = (n, reg)"
  shows "evolves k (registry w) reg"
proof -
  have "closedActorKeys reg = filter (\<lambda>k. map_of (actors (registry w)) k \<noteq> None \<and> \<not> erasable (actors (registry w)) k)
      (closedActorKeys (registry w))" "nextEntry reg = nextEntry (registry w)"
    using r by (auto simp: DeregisterClosedActors_def DeregisterLoop_exact [OF registry_okD(2) [OF ok]])
  then show ?thesis using sweep_find [OF ok r, of k] by (auto simp: evolves_def find_actor_def split: if_splits)
qed

lemma step_evolves:
  assumes "registry_step w w'" "registry_ok w"
  shows "evolves k (registry w) (registry w')"
  using assms(1)
proof cases
  case register then show ?thesis using evolves_register by simp
next
  case acquire then show ?thesis using evolves_acquire by simp
next
  case run then show ?thesis using evolves_run by simp
next
  case drop then show ?thesis using evolves_reset by simp
next
  case finish then show ?thesis using evolves_finish by simp
next
  case close then show ?thesis using evolves_close by simp
next
  case track then show ?thesis using evolves_track by simp
next
  case deregister then show ?thesis using evolves_deregister by simp
next
  case sweep then show ?thesis using evolves_sweep [OF assms(2)] by simp
next
  case shutdown then show ?thesis by (auto simp: Registry_Shutdown_def evolves_def find_actor_def)
next
  case (activity j e a) then show ?thesis using evolves_set_actor [OF activity(2), of "e\<lparr>entryActor := a\<rparr>"] by simp
next
  case (pin j e g) then show ?thesis using evolves_set_actor [OF pin(2), of "e\<lparr>entryGate := g\<rparr>"] by simp
qed

lemma steps_ok: "registry_step\<^sup>*\<^sup>* w v \<Longrightarrow> registry_ok w \<Longrightarrow> registry_ok v"
  by (induction rule: rtranclp_induct) (auto intro: registry_step_ok)

text \<open>Addresses are fresh: an entry in the map was created before the next one.\<close>

definition addresses_fresh :: "registry_world \<Rightarrow> bool" where
  "addresses_fresh w \<longleftrightarrow> (\<forall>k e. find_actor k (registry w) = Some e \<longrightarrow> entryId e < nextEntry (registry w))"

lemma step_addresses_fresh:
  assumes "registry_step w w'" "registry_ok w" "addresses_fresh w"
  shows "addresses_fresh w'"
  unfolding addresses_fresh_def
proof (intro allI impI)
  fix k e assume "find_actor k (registry w') = Some e"
  then show "entryId e < nextEntry (registry w')"
    using step_evolves [OF assms(1,2), of k] assms(3) unfolding evolves_def addresses_fresh_def
    by (metis lessI order_less_le_trans)
qed

lemma registry_reachable_fresh: "registry_reachable w \<Longrightarrow> addresses_fresh w"
proof (induction rule: registry_reachable.induct)
  case start then show ?case by (simp add: addresses_fresh_def NrSessionActorRegistry_construct_def find_actor_def)
next
  case advance then show ?case using step_addresses_fresh registry_reachable_ok by blast
qed

text \<open>
  The entry at address \<open>a\<close> under key \<open>k\<close>, as long as it is in the map, is closing, and tracked too
  when \<open>t\<close> holds. Every later step keeps this.
\<close>

definition closing :: "u64 \<Rightarrow> nat \<Rightarrow> bool \<Rightarrow> registry_world \<Rightarrow> bool" where
  "closing k a t w \<longleftrightarrow> a < nextEntry (registry w) \<and>
     (\<forall>d. find_actor k (registry w) = Some d \<and> entryId d = a \<longrightarrow>
        lifecycle d \<noteq> Active \<and> (t \<longrightarrow> k \<in> set (closedActorKeys (registry w))))"

lemma step_closing:
  assumes "registry_step w w'" "registry_ok w" "closing k a t w"
  shows "closing k a t w'"
  unfolding closing_def
proof (intro conjI allI impI)
  note e = step_evolves [OF assms(1,2), of k, unfolded evolves_def]
  show "a < nextEntry (registry w')" using e assms(3) unfolding closing_def by linarith
  fix d' assume d': "find_actor k (registry w') = Some d' \<and> entryId d' = a"
  moreover have "a \<noteq> nextEntry (registry w)" using assms(3) unfolding closing_def by simp
  ultimately obtain d where d: "find_actor k (registry w) = Some d" "entryId d = a"
      "lifecycle d' = Active \<longrightarrow> lifecycle d = Active"
      "k \<in> set (closedActorKeys (registry w)) \<longrightarrow> k \<in> set (closedActorKeys (registry w'))"
    using e by metis
  then have "lifecycle d \<noteq> Active \<and> (t \<longrightarrow> k \<in> set (closedActorKeys (registry w)))"
    using assms(3) unfolding closing_def by blast
  then show "lifecycle d' \<noteq> Active" "t \<Longrightarrow> k \<in> set (closedActorKeys (registry w'))" using d(3,4) by blast+
qed

lemma steps_closing:
  "registry_step\<^sup>*\<^sup>* w v \<Longrightarrow> registry_ok w \<Longrightarrow> closing k a t w \<Longrightarrow> closing k a t v"
proof (induction rule: rtranclp_induct)
  case (step v u) then show ?case using step_closing steps_ok by metis
qed simp

text \<open>A run that fails on an active actor closes it and asks for the key to be tracked.\<close>

lemma failed_run:
  assumes ok: "registry_ok w" and i: "i < length (liveLeases w)"
    and find: "find_actor (leaseKey (liveLeases w ! i)) (registry w) = Some e" "lifecycle e = Active"
    and run: "Lease_TryRun n (liveLeases w ! i) (registry w) = (report, l, reg)" "Failed (runStatus report)"
  obtains e' where "reg = set_actor (leaseKey l) e' (registry w)" "leaseKey l = leaseKey (liveLeases w ! i)"
    "leaseEntry l = Some (entryId e)" "entryId e' = entryId e" "lifecycle e' \<noteq> Active"
    "cleanupTrackClosedActorKey (leaseCleanup l)"
proof -
  let ?l = "liveLeases w ! i"
  have le: "leaseEntry ?l = Some (entryId e)" "leased_entry ?l (registry w) = Some e"
    using registry_okD(5) [OF ok nth_mem [OF i]] find(1) by (auto elim: lease_okD)
  have k: "leaseKey ?l \<noteq> 0" using registry_okD(4) [OF ok find(1)] by (simp add: entry_ok_def)
  obtain rep' l2 e' where r: "run_entry n ?l e = (rep', l2, e')" by (metis prod_cases3)
  note f = run_entry_fields [OF r]
  have r': "report = rep'" "l = l2" "reg = set_actor (leaseKey ?l) e' (registry w)"
    using run(1) le k r by (simp_all add: Lease_TryRun_def Lease_IsValid_def)
  have inactive: "lifecycle e' \<noteq> Active" using f(7) run(2) r'(1) by simp
  show thesis
    by (rule that [of e']) (use r' f(1,3,4,8) le(1) find(2) inactive in simp_all)
qed

text \<open>The end of a run tracks the key of a lease that asks for it, if the node is allocated.\<close>

lemma finish_tracks:
  assumes ok: "registry_ok w" and i: "i < length (liveLeases w)" and l: "liveLeases w ! i = l"
    and c: "cleanupTrackClosedActorKey (leaseCleanup l)"
    and r: "finish_run finished True l (registry w) = (l', reg')" and f: "find_actor (leaseKey l) reg' = Some d"
  shows "leaseKey l \<in> set (closedActorKeys reg')"
proof -
  obtain e where e: "find_actor (leaseKey l) (registry w) = Some e"
    using registry_okD(5) [OF ok nth_mem [OF i]] l by (auto elim: lease_okD)
  have k: "leaseKey l \<noteq> 0" "lifecycle e \<noteq> Deregistering" using registry_okD(4) [OF ok e] by (simp_all add: entry_ok_def)
  obtain reg1 where reset: "Lease_Reset l (registry w) = (Lease_empty, reg1)" by (simp add: Lease_Reset_def)
  obtain e1 where e1: "find_actor (leaseKey l) reg1 = Some e1" "lifecycle e1 = lifecycle e"
    using Lease_Reset_find [OF reset e] by blast
  define reg2 where "reg2 = reg1\<lparr>closedActorKeys := insert_key (leaseKey l) (closedActorKeys reg1)\<rparr>"
  have track: "TrackClosedActorKey (leaseKey l) True reg1 = (NrStatus_Success, reg2)"
    using e1 k by (simp add: TrackClosedActorKey_def reg2_def)
  have in2: "leaseKey l \<in> set (closedActorKeys reg2)" by (simp add: reg2_def insert_key_def)
  have "reg' = (if cleanupTryDeregister (leaseCleanup l) \<and> finished
      then snd (TryDeregisterClosedActor (leaseKey l) reg2) else reg2)"
    using r c by (auto simp: finish_run_def reset RunRegistryCleanup_def track Let_def split: if_splits)
  then show ?thesis
    using in2 e1 k(1) f by (auto simp: TryDeregisterClosedActor_def find_actor_def reg2_def split: option.splits if_splits)
qed

text \<open>
  Property C17. A failed run closes its actor for good: when \<^verbatim>\<open>TryRun\<close> on a live lease of an active actor
  reports a failure (of the drain or of the receive it posts), then in every state that any
  interleaving of registry operations reaches before the end of the run the actor is not active; and
  after the end of the run it is, as long as it is in the map (the same entry, not a later session
  under the same key), neither active again nor, if the set of closed keys could take its key,
  missing from that set, until it is deregistered or the registry shut down. The scheduler ignores
  a failed insertion, so without memory for it only the first half holds.
\<close>
theorem failed_run_closes:
  assumes "registry_reachable w" "i < length (liveLeases w)"
    and "find_actor (leaseKey (liveLeases w ! i)) (registry w) = Some e" "lifecycle e = Active"
    and "Lease_TryRun n (liveLeases w ! i) (registry w) = (report, l, reg)" "Failed (runStatus report)"
    and "registry_step\<^sup>*\<^sup>* (w\<lparr>registry := reg, liveLeases := (liveLeases w)[i := l]\<rparr>) v"
    and "j < length (liveLeases v)" "liveLeases v ! j = l"
    and "finish_run finished nodeAllocated l (registry v) = (l', reg')"
    and "registry_step\<^sup>*\<^sup>* (v\<lparr>registry := reg', liveLeases := without j (liveLeases v)\<rparr>) u"
  shows "(\<exists>c. find_actor (leaseKey l) (registry v) = Some c \<and> entryId c = entryId e \<and> lifecycle c \<noteq> Active) \<and>
    (\<forall>d. find_actor (leaseKey l) (registry u) = Some d \<and> entryId d = entryId e \<longrightarrow>
       lifecycle d \<noteq> Active \<and> (nodeAllocated \<longrightarrow> leaseKey l \<in> set (closedActorKeys (registry u))))"
proof -
  let ?w1 = "w\<lparr>registry := reg, liveLeases := (liveLeases w)[i := l]\<rparr>"
  let ?v1 = "v\<lparr>registry := reg', liveLeases := without j (liveLeases v)\<rparr>"
  have ok: "registry_ok w" by (rule registry_reachable_ok [OF assms(1)])
  obtain e' where r: "reg = set_actor (leaseKey l) e' (registry w)" "leaseKey l = leaseKey (liveLeases w ! i)"
      "leaseEntry l = Some (entryId e)" "entryId e' = entryId e" "lifecycle e' \<noteq> Active"
      "cleanupTrackClosedActorKey (leaseCleanup l)"
    using failed_run [OF ok assms(2-6)] .
  have ok1: "registry_ok ?w1" by (rule ok_run [OF ok assms(2,5)])
  have "entryId e < nextEntry (registry w)"
    using registry_reachable_fresh [OF assms(1)] assms(3) unfolding addresses_fresh_def by blast
  then have "closing (leaseKey l) (entryId e) False ?w1" using r(1,2,5) assms(3) by (simp add: closing_def)
  then have cv: "closing (leaseKey l) (entryId e) False v" by (rule steps_closing [OF assms(7) ok1])
  have okv: "registry_ok v" by (rule steps_ok [OF assms(7) ok1])
  have okv1: "registry_ok ?v1" by (rule ok_finish [OF okv assms(8), of finished nodeAllocated l']) (simp add: assms(9,10))
  obtain c where c: "find_actor (leaseKey l) (registry v) = Some c" "entryId c = entryId e"
    using registry_okD(5) [OF okv nth_mem [OF assms(8)]] assms(9) r(3) by (auto elim: lease_okD)
  have "registry_step v ?v1" by (rule registry_step.finish [OF assms(8), of finished nodeAllocated l']) (simp add: assms(9,10))
  then have "closing (leaseKey l) (entryId e) False ?v1" by (rule step_closing [OF _ okv cv])
  moreover have "leaseKey l \<in> set (closedActorKeys reg')" if "nodeAllocated" "find_actor (leaseKey l) reg' = Some d" for d
    using finish_tracks [OF okv assms(8,9) r(6)] assms(10) that by simp
  ultimately have "closing (leaseKey l) (entryId e) nodeAllocated ?v1" unfolding closing_def by simp
  then have "closing (leaseKey l) (entryId e) nodeAllocated u" by (rule steps_closing [OF assms(11) okv1])
  then show ?thesis using c cv unfolding closing_def by blast
qed

section \<open>A sample run\<close>

text \<open>
  A registry for two sessions: session 5 registers and a worker takes a lease on it
  (\<open>sample_leased\<close>); in \<open>sample_closed\<close> it is closed from outside instead.
\<close>

definition sample_entry :: NrSessionActorEntry where
  "sample_entry = \<lparr>entryId = 0, entryActor = sample_actor, entryGate = 0, lifecycle = Active, activeLeaseCount = 0\<rparr>"

definition sample_registered :: registry_world where
  "sample_registered =
     \<lparr>registry = \<lparr>maxSessionCount = 2, actors = [(5, sample_entry)], closedActorKeys = [], nextEntry = 1\<rparr>,
      liveLeases = [], shutdownCalls = 0\<rparr>"

definition sample_lease :: NrSessionActorLease where
  "sample_lease = \<lparr>leaseEntry = Some 0, leaseKey = 5, leaseCleanup = no_cleanup\<rparr>"

definition sample_leased :: registry_world where
  "sample_leased = sample_registered\<lparr>registry := set_actor 5 (sample_entry\<lparr>activeLeaseCount := 1\<rparr>) (registry sample_registered),
     liveLeases := [sample_lease]\<rparr>"

definition sample_scheduled :: registry_world where
  "sample_scheduled = sample_leased\<lparr>registry := set_actor 5 (sample_entry\<lparr>activeLeaseCount := 1, entryGate := WithPhase 0 Scheduled\<rparr>)
     (registry sample_leased)\<rparr>"

definition sample_closed :: registry_world where
  "sample_closed = sample_registered\<lparr>registry := snd (RequestClose 5 True (registry sample_registered))\<rparr>"

lemmas registry_eval = sample_registered_def sample_entry_def sample_lease_def set_actor_def find_actor_def

lemma sample_registered_reachable: "registry_reachable sample_registered"
proof -
  let ?w = "\<lparr>registry = NrSessionActorRegistry_construct 2, liveLeases = [], shutdownCalls = 0\<rparr>"
  have "TryRegisterActor 5 (Some sample_actor) True True (registry ?w) = (NrStatus_Success, registry sample_registered)"
    by (simp add: TryRegisterActor_def NrSessionActorRegistry_construct_def registry_eval)
  from registry_step.register [OF this] have "registry_step ?w sample_registered"
    by (simp add: sample_registered_def)
  then show ?thesis by (rule registry_reachable.advance [OF registry_reachable.start])
qed

lemma sample_scheduled_reachable: "registry_reachable sample_scheduled"
proof -
  have "TryAcquireLease 5 (registry sample_registered) = (Inr sample_lease, registry sample_leased)"
    by (simp add: TryAcquireLease_def sample_leased_def registry_eval)
  from registry_step.acquire [OF this] have "registry_step sample_registered sample_leased"
    by (simp add: sample_leased_def sample_registered_def)
  then have "registry_reachable sample_leased" by (rule registry_reachable.advance [OF sample_registered_reachable])
  moreover have "find_actor 5 (registry sample_leased) = Some (sample_entry\<lparr>activeLeaseCount := 1\<rparr>)"
    by (simp add: sample_leased_def registry_eval)
  from registry_step.pin [OF this, of "WithPhase 0 Scheduled"] have "registry_step sample_leased sample_scheduled"
    by (simp add: sample_scheduled_def)
  ultimately show ?thesis by (rule registry_reachable.advance)
qed

lemma sample_closed_reachable: "registry_reachable sample_closed"
proof (rule registry_reachable.advance [OF sample_registered_reachable])
  show "registry_step sample_registered sample_closed"
    unfolding sample_closed_def by (rule registry_step.close [OF prod.collapse [symmetric]])
qed

theorem leases_never_dangle_witness:
  "find_actor 5 (registry sample_scheduled) =
      Some (sample_entry\<lparr>activeLeaseCount := leases_on 5 sample_entry [sample_lease], entryGate := WithPhase 0 Scheduled\<rparr>)"
proof -
  have f: "find_actor 5 (registry sample_scheduled) =
      Some (sample_entry\<lparr>activeLeaseCount := 1, entryGate := WithPhase 0 Scheduled\<rparr>)"
    by (simp add: sample_scheduled_def sample_leased_def registry_eval)
  moreover have "activeLeaseCount e = leases_on 5 e [sample_lease]" if "find_actor 5 (registry sample_scheduled) = Some e" for e
    using leases_never_dangle [OF sample_scheduled_reachable] that by (simp add: sample_scheduled_def sample_leased_def)
  ultimately show ?thesis by (fastforce simp: leases_on_def)
qed

theorem erased_actor_is_idle_witness:
  "lifecycle (sample_entry\<lparr>lifecycle := CloseRequestedReadyToDeregister\<rparr>) \<noteq> Active \<and> \<not> HasPendingIo sample_actor"
proof -
  let ?w = "sample_closed\<lparr>registry := snd (DeregisterClosedActors (registry sample_closed))\<rparr>"
  have "\<not> HasPendingIo sample_actor" by (simp add: HasPendingIo_def sample_actor_def)
  then have f: "find_actor 5 (registry sample_closed) = Some (sample_entry\<lparr>lifecycle := CloseRequestedReadyToDeregister\<rparr>)"
      "find_actor 5 (registry ?w) = None"
    by (simp_all add: sample_closed_def RequestClose_def DeregisterClosedActors_def CanEraseLocked_def erase_actor_def
        insert_key_def registry_eval)
  have "registry_step sample_closed ?w" by (rule registry_step.sweep [OF prod.collapse [symmetric]])
  from erased_actor_is_idle [OF sample_closed_reachable this f] show ?thesis by (simp add: sample_entry_def)
qed

theorem sweep_exact_witness:
  "DeregisterClosedActors (registry sample_closed) = (1, (registry sample_closed)\<lparr>closedActorKeys := [], actors := []\<rparr>)"
proof -
  have "\<not> HasPendingIo sample_actor" by (simp add: HasPendingIo_def sample_actor_def)
  then show ?thesis
    using sweep_exact [of "registry sample_closed"]
    by (simp add: sample_closed_def RequestClose_def erasable_def CanEraseLocked_def insert_key_def registry_eval)
qed

theorem failed_run_closes_witness:
  "\<exists>report l reg l' reg' c d. Lease_TryRun 0 sample_lease (registry sample_scheduled) = (report, l, reg) \<and>
     finish_run False True l reg = (l', reg') \<and>
     find_actor 5 reg = Some c \<and> lifecycle c \<noteq> Active \<and>
     find_actor 5 reg' = Some d \<and> lifecycle d \<noteq> Active \<and> 5 \<in> set (closedActorKeys reg')"
proof -
  let ?w = sample_scheduled
  let ?e = "sample_entry\<lparr>activeLeaseCount := 1, entryGate := WithPhase 0 Scheduled\<rparr>"
  obtain report l reg where run: "Lease_TryRun 0 sample_lease (registry ?w) = (report, l, reg)"
    by (metis prod_cases3)
  obtain l' reg' where fin: "finish_run False True l reg = (l', reg')" by fastforce
  have f: "find_actor 5 (registry ?w) = Some ?e"
    by (simp add: sample_scheduled_def sample_leased_def registry_eval)
  have ls: "liveLeases ?w = [sample_lease]" "leaseKey sample_lease = 5"
    by (simp_all add: sample_scheduled_def sample_leased_def sample_lease_def)
  have b: "fst (TryBeginDrain (WithPhase 0 Scheduled))"
    by (simp add: TryBeginDrain_def PackedPhase_def WithPhase_def PhaseMask_def Let_def)
  have bad: "Failed (runStatus report)"
    using run f b by (auto simp: Lease_TryRun_def Lease_IsValid_def sample_lease_def leased_entry_def run_entry_def
        sample_entry_def Executor_TryRun_def Drain_def Let_def NrActorRunReport_DrainFailed_def split: prod.splits)
  have l: "leaseKey l = 5"
    using run f run_entry_fields(3) by (fastforce simp: Lease_TryRun_def Lease_IsValid_def sample_lease_def
        leased_entry_def sample_entry_def split: prod.splits)
  let ?v = "?w\<lparr>registry := reg, liveLeases := [l]\<rparr>"
  have claim: "(\<exists>c. find_actor (leaseKey l) (registry ?v) = Some c \<and> entryId c = entryId ?e \<and> lifecycle c \<noteq> Active) \<and>
      (\<forall>d. find_actor (leaseKey l) reg' = Some d \<and> entryId d = entryId ?e \<longrightarrow>
         lifecycle d \<noteq> Active \<and> (True \<longrightarrow> leaseKey l \<in> set (closedActorKeys reg')))"
    using failed_run_closes [OF sample_scheduled_reachable, of 0 ?e 0 report l reg ?v 0 False True l' reg'
        "?v\<lparr>registry := reg', liveLeases := without 0 [l]\<rparr>"] run fin f bad ls
    by (simp add: sample_entry_def) blast
  obtain c where c: "find_actor 5 reg = Some c" "entryId c = entryId ?e" "lifecycle c \<noteq> Active" using claim l by auto
  obtain reg1 where reset: "Lease_Reset l reg = (l', reg1)"
    and reg': "reg' = (if cleanupTrackClosedActorKey (leaseCleanup l)
      then snd (TrackClosedActorKey (leaseKey l) True reg1) else reg1)"
    using fin by (auto simp: finish_run_def RunRegistryCleanup_def Let_def split: prod.splits)
  obtain c1 where "find_actor 5 reg1 = Some c1" "entryId c1 = entryId ?e"
    using reset c l by (auto simp: Lease_Reset_def ReleaseLease_def split: option.splits if_splits)
  then have d: "find_actor 5 reg' = Some c1" "entryId c1 = entryId ?e"
    using TrackClosedActorKey_find [OF prod.collapse [symmetric]] by (simp_all add: reg')
  then have "lifecycle c1 \<noteq> Active \<and> 5 \<in> set (closedActorKeys reg')" using claim l by simp
  then show ?thesis using run fin c(1,3) d(1) by blast
qed

end
