(* ===== verification/WsWire.thy ===== *)
theory WsWire imports NrPrelude "HOL-Library.Monad_Syntax" begin

text \<open>
  The wire codec of the World protocol (\<^verbatim>\<open>WorldProtocolWireCodec.h/.cpp\<close>,
  \<^verbatim>\<open>WorldProtocolValues.h\<close>, \<^verbatim>\<open>WorldPacketTypes.h\<close>) and the interface that every World message
  implements, the locale \<open>wire_message\<close>. A span is a list of bytes; an access outside a span, which
  is undefined behaviour in the code, is the value \<open>None\<close>. A \<^verbatim>\<open>float\<close> is its IEEE 754 bit
  pattern, as the code asserts (\<^verbatim>\<open>is_iec559\<close>).
\<close>

unbundle bit_operations_syntax

named_theorems wire_simps \<open>evaluation of reads and writes on a span of known layout\<close>

section \<open>Protocol values\<close>

datatype WorldProtocolError =
  Success | InvalidArgument | InvalidLength | UnsupportedVersion | InvalidEnum | InvalidNumeric

text \<open>
  The scoped enums have the fixed underlying type \<^verbatim>\<open>std::uint16_t\<close> and are cast from the wire
  before they are validated, so that a variable of such a type may hold any 16-bit value.
\<close>

type_synonym EntityKind = u16
type_synonym ShapeKind = u16
type_synonym EntityRemoveReason = u16
type_synonym RoundPhase = u16
type_synonym TurnState = u16
type_synonym BoostState = u16

definition EntityKind_Player :: EntityKind where "EntityKind_Player = 1"
definition EntityKind_Resource :: EntityKind where "EntityKind_Resource = 2"
definition EntityKind_StaticObstacle :: EntityKind where "EntityKind_StaticObstacle = 3"
definition ShapeKind_Circle :: ShapeKind where "ShapeKind_Circle = 1"
definition EntityRemoveReason_LeftAoi :: EntityRemoveReason where "EntityRemoveReason_LeftAoi = 1"
definition EntityRemoveReason_Destroyed :: EntityRemoveReason where "EntityRemoveReason_Destroyed = 2"
definition EntityRemoveReason_Collected :: EntityRemoveReason where "EntityRemoveReason_Collected = 3"
definition EntityRemoveReason_SessionClosed :: EntityRemoveReason where "EntityRemoveReason_SessionClosed = 4"
definition EntityRemoveReason_RoundReset :: EntityRemoveReason where "EntityRemoveReason_RoundReset = 5"
definition RoundPhase_Waiting :: RoundPhase where "RoundPhase_Waiting = 1"
definition RoundPhase_Running :: RoundPhase where "RoundPhase_Running = 2"
definition RoundPhase_Ended :: RoundPhase where "RoundPhase_Ended = 3"
definition TurnState_Straight :: TurnState where "TurnState_Straight = 1"
definition TurnState_Left :: TurnState where "TurnState_Left = 2"
definition TurnState_Right :: TurnState where "TurnState_Right = 3"
definition BoostState_Off :: BoostState where "BoostState_Off = 1"
definition BoostState_On :: BoostState where "BoostState_On = 2"

definition PayloadVersion_v1 :: u16 where "PayloadVersion_v1 = 1"
definition PayloadVersion_v2 :: u16 where "PayloadVersion_v2 = 2"
definition PayloadVersion_v3 :: u16 where "PayloadVersion_v3 = 3"

section \<open>Floating-point values\<close>

text \<open>
  The comparisons the validation uses, on bit patterns: the sign is bit 31, the magnitude the rest;
  a magnitude above that of the infinity is a NaN, with which every comparison is false. \<open>F32_key\<close>
  orders the other values; both zeros have the key 0.
\<close>

type_synonym f32 = u32

definition F32_magnitude :: "f32 \<Rightarrow> u32" where "F32_magnitude x = x AND 0x7FFFFFFF"
definition F32_is_nan :: "f32 \<Rightarrow> bool" where "F32_is_nan x \<longleftrightarrow> F32_magnitude x > 0x7F800000"
definition F32_is_zero :: "f32 \<Rightarrow> bool" where "F32_is_zero x \<longleftrightarrow> F32_magnitude x = 0"
definition F32_isfinite :: "f32 \<Rightarrow> bool" where "F32_isfinite x \<longleftrightarrow> F32_magnitude x < 0x7F800000"

definition F32_key :: "f32 \<Rightarrow> int" where
  "F32_key x = (if bit x 31 then - uint (F32_magnitude x) else uint (F32_magnitude x))"

definition F32_less :: "f32 \<Rightarrow> f32 \<Rightarrow> bool" where
  "F32_less x y \<longleftrightarrow> \<not> F32_is_nan x \<and> \<not> F32_is_nan y \<and> F32_key x < F32_key y"

definition F32_less_eq :: "f32 \<Rightarrow> f32 \<Rightarrow> bool" where
  "F32_less_eq x y \<longleftrightarrow> \<not> F32_is_nan x \<and> \<not> F32_is_nan y \<and> F32_key x \<le> F32_key y"

text \<open>\<^verbatim>\<open>value == 0.0f ? 0.0f : value\<close>: the negative zero becomes the positive one.\<close>

definition F32_normalize :: "f32 \<Rightarrow> f32" where
  "F32_normalize x = (if F32_is_zero x then 0 else x)"

lemma F32_key_zero: "F32_is_zero x \<Longrightarrow> F32_key x = 0"
  by (simp add: F32_key_def F32_is_zero_def)

lemma F32_of_zero [simp]: "F32_magnitude 0 = 0" "F32_key 0 = 0" "F32_is_zero 0" "\<not> F32_is_nan 0" "F32_isfinite 0"
  by (simp_all add: F32_magnitude_def F32_key_def F32_is_zero_def F32_is_nan_def F32_isfinite_def)

lemma F32_normalize_idem [simp]: "F32_normalize (F32_normalize x) = F32_normalize x"
  by (simp add: F32_normalize_def)

lemma F32_normalize_magnitude [simp]: "F32_magnitude (F32_normalize x) = F32_magnitude x"
  by (simp add: F32_normalize_def F32_is_zero_def)

lemma F32_normalize_key [simp]: "F32_key (F32_normalize x) = F32_key x"
  by (simp add: F32_normalize_def F32_key_zero)

lemma F32_normalize_tests [simp]:
  "F32_isfinite (F32_normalize x) = F32_isfinite x" "F32_is_zero (F32_normalize x) = F32_is_zero x"
  "F32_is_nan (F32_normalize x) = F32_is_nan x"
  "F32_less (F32_normalize x) y = F32_less x y" "F32_less y (F32_normalize x) = F32_less y x"
  "F32_less_eq (F32_normalize x) y = F32_less_eq x y" "F32_less_eq y (F32_normalize x) = F32_less_eq y x"
  by (simp_all add: F32_isfinite_def F32_is_zero_def F32_is_nan_def F32_less_def F32_less_eq_def)

section \<open>Reading and writing spans\<close>

definition get_at :: "nat \<Rightarrow> byte list \<Rightarrow> byte option" where
  "get_at i payload = (if i < length payload then Some (payload ! i) else None)"

definition set_at :: "nat \<Rightarrow> byte \<Rightarrow> byte list \<Rightarrow> byte list option" where
  "set_at i b output = (if i < length output then Some (output[i := b]) else None)"

definition WriteU16 :: "u16 \<Rightarrow> nat \<Rightarrow> byte list \<Rightarrow> byte list option" where
  "WriteU16 value offset output = do {
     output \<leftarrow> set_at offset (ucast (value AND 0xFF)) output;
     set_at (offset + 1) (ucast (drop_bit 8 value AND 0xFF)) output }"

definition ReadU16 :: "nat \<Rightarrow> byte list \<Rightarrow> u16 option" where
  "ReadU16 offset payload = do {
     low \<leftarrow> get_at offset payload;
     high \<leftarrow> get_at (offset + 1) payload;
     Some (ucast low OR push_bit 8 (ucast high)) }"

definition WriteU32 :: "u32 \<Rightarrow> nat \<Rightarrow> byte list \<Rightarrow> byte list option" where
  "WriteU32 value offset output = do {
     output \<leftarrow> set_at offset (ucast (value AND 0xFF)) output;
     output \<leftarrow> set_at (offset + 1) (ucast (drop_bit 8 value AND 0xFF)) output;
     output \<leftarrow> set_at (offset + 2) (ucast (drop_bit 16 value AND 0xFF)) output;
     set_at (offset + 3) (ucast (drop_bit 24 value AND 0xFF)) output }"

definition ReadU32 :: "nat \<Rightarrow> byte list \<Rightarrow> u32 option" where
  "ReadU32 offset payload = do {
     byte0 \<leftarrow> get_at offset payload;
     byte1 \<leftarrow> get_at (offset + 1) payload;
     byte2 \<leftarrow> get_at (offset + 2) payload;
     byte3 \<leftarrow> get_at (offset + 3) payload;
     Some (ucast byte0 OR push_bit 8 (ucast byte1) OR push_bit 16 (ucast byte2) OR push_bit 24 (ucast byte3)) }"

text \<open>A \<^verbatim>\<open>std::int16_t\<close> is a 16-bit word in two's complement, whose value is its \<open>sint\<close>.\<close>

type_synonym i16 = "16 word"

definition WriteI16 :: "i16 \<Rightarrow> nat \<Rightarrow> byte list \<Rightarrow> byte list option" where
  "WriteI16 value offset output = WriteU16 value offset output"

definition ReadI16 :: "nat \<Rightarrow> byte list \<Rightarrow> i16 option" where
  "ReadI16 offset payload = do {
     encodedValue \<leftarrow> ReadU16 offset payload;
     if encodedValue \<le> 0x7FFF then Some encodedValue
     else Some (word_of_int (uint encodedValue - 0x10000)) }"

definition WriteF32 :: "f32 \<Rightarrow> nat \<Rightarrow> byte list \<Rightarrow> byte list option" where
  "WriteF32 value offset output = WriteU32 (F32_normalize value) offset output"

definition ReadF32 :: "nat \<Rightarrow> byte list \<Rightarrow> f32 option" where
  "ReadF32 offset payload = do { value \<leftarrow> ReadU32 offset payload; Some (F32_normalize value) }"

text \<open>A display name is a string of at most 48 bytes, all of them ASCII letters or digits.\<close>

definition MaximumPlayerDisplayNameBytes :: nat where "MaximumPlayerDisplayNameBytes = 48"

definition is_name_byte :: "byte \<Rightarrow> bool" where
  "is_name_byte c \<longleftrightarrow> 0x41 \<le> c \<and> c \<le> 0x5A \<or> 0x61 \<le> c \<and> c \<le> 0x7A \<or> 0x30 \<le> c \<and> c \<le> 0x39"

fun all_name_bytes :: "byte list \<Rightarrow> bool" where
  "all_name_bytes [] = True"
| "all_name_bytes (c # cs) = (if \<not> is_name_byte c then False else all_name_bytes cs)"

definition IsValidPlayerDisplayName :: "byte list \<Rightarrow> bool" where
  "IsValidPlayerDisplayName value \<longleftrightarrow>
     (if length value > MaximumPlayerDisplayNameBytes then False else all_name_bytes value)"

text \<open>The loops that copy a display name into a span.\<close>

fun write_bytes :: "byte list \<Rightarrow> nat \<Rightarrow> byte list \<Rightarrow> byte list option" where
  "write_bytes [] offset output = Some output"
| "write_bytes (b # bs) offset output = do {
     output \<leftarrow> set_at offset b output;
     write_bytes bs (offset + 1) output }"

section \<open>The bytes of a value\<close>

definition le16 :: "u16 \<Rightarrow> byte list" where
  "le16 v = [ucast v, ucast (drop_bit 8 v)]"

definition le32 :: "u32 \<Rightarrow> byte list" where
  "le32 v = [ucast v, ucast (drop_bit 8 v), ucast (drop_bit 16 v), ucast (drop_bit 24 v)]"

definition le_f32 :: "f32 \<Rightarrow> byte list" where
  "le_f32 v = le32 (F32_normalize v)"

fun of_le16 :: "byte list \<Rightarrow> u16" where
  "of_le16 [b0, b1] = ucast b0 OR push_bit 8 (ucast b1)"
| "of_le16 _ = 0"

fun of_le32 :: "byte list \<Rightarrow> u32" where
  "of_le32 [b0, b1, b2, b3] =
     ucast b0 OR push_bit 8 (ucast b1) OR push_bit 16 (ucast b2) OR push_bit 24 (ucast b3)"
| "of_le32 _ = 0"

lemma length_le [simp]: "length (le16 v) = 2" "length (le32 w) = 4" "length (le_f32 x) = 4"
  by (simp_all add: le16_def le32_def le_f32_def)

lemma ucast_byte_mask [simp]: "(ucast (v AND 0xFF :: u16) :: byte) = ucast v" "(ucast (w AND 0xFF :: u32) :: byte) = ucast w"
proof -
  have "v AND 0xFF = take_bit 8 v" "w AND 0xFF = take_bit 8 w" by (simp_all add: take_bit_eq_mask mask_eq_exp_minus_1)
  moreover have "(ucast (take_bit 8 v) :: byte) = ucast v" by (rule bit_word_eqI) (simp add: bit_simps)
  moreover have "(ucast (take_bit 8 w) :: byte) = ucast w" by (rule bit_word_eqI) (simp add: bit_simps)
  ultimately show "(ucast (v AND 0xFF :: u16) :: byte) = ucast v" "(ucast (w AND 0xFF :: u32) :: byte) = ucast w" by simp_all
qed

lemma of_le16_le16 [simp]: "of_le16 (le16 v) = v"
  unfolding le16_def of_le16.simps by (rule bit_word_eqI) (auto simp: bit_simps)

lemma of_le32_le32 [simp]: "of_le32 (le32 v) = v"
  unfolding le32_def of_le32.simps
proof (rule bit_word_eqI)
  fix n assume "n < LENGTH(32)"
  then consider "n < 8" | "8 \<le> n" "n < 16" | "16 \<le> n" "n < 24" | "24 \<le> n" "n < 32" by fastforce
  then show "bit ((ucast (ucast v :: byte) :: u32) OR push_bit 8 (ucast (ucast (drop_bit 8 v) :: byte)) OR
      push_bit 16 (ucast (ucast (drop_bit 16 v) :: byte)) OR push_bit 24 (ucast (ucast (drop_bit 24 v) :: byte))) n = bit v n"
    by cases (auto simp: bit_simps)
qed

lemma le16_of_le16: "length bs = 2 \<Longrightarrow> le16 (of_le16 bs) = bs"
  by (auto simp: le16_def numeral_2_eq_2 length_Suc_conv intro!: bit_word_eqI) (auto simp: bit_simps dest: bit_imp_le_length)

lemma le16_inj [simp]: "le16 v = le16 w \<longleftrightarrow> v = w"
  by (metis of_le16_le16)

text \<open>Reading looks at a slice of the span.\<close>

definition slice :: "nat \<Rightarrow> nat \<Rightarrow> byte list \<Rightarrow> byte list" where
  "slice offset n payload = take n (drop offset payload)"

lemma slice_skip [wire_simps]: "length x \<le> offset \<Longrightarrow> slice offset n (x @ y) = slice (offset - length x) n y"
  by (simp add: slice_def)

lemma slice_here [wire_simps]: "length x = n \<Longrightarrow> slice 0 n (x @ y) = x" "length x = n \<Longrightarrow> slice 0 n x = x"
  by (simp_all add: slice_def)

lemma take_nths: "offset + 2 \<le> length xs \<Longrightarrow> take 2 (drop offset xs) = [xs ! offset, xs ! Suc offset]"
  by (rule nth_equalityI) (auto simp: less_Suc_eq numeral_2_eq_2)

lemma take_4_nths: "offset + 4 \<le> length xs \<Longrightarrow>
    take 4 (drop offset xs) = [xs ! offset, xs ! (offset + 1), xs ! (offset + 2), xs ! (offset + 3)]"
  by (rule nth_equalityI) (auto simp: less_Suc_eq numeral_eq_Suc)

lemma ReadU16_slice [wire_simps]:
  "ReadU16 offset payload = (if offset + 2 \<le> length payload then Some (of_le16 (slice offset 2 payload)) else None)"
  by (auto simp: ReadU16_def get_at_def slice_def take_nths)

lemma ReadU32_slice [wire_simps]:
  "ReadU32 offset payload = (if offset + 4 \<le> length payload then Some (of_le32 (slice offset 4 payload)) else None)"
proof (cases "offset + 4 \<le> length payload")
  case True
  then show ?thesis by (simp add: ReadU32_def get_at_def slice_def take_4_nths)
next
  case False
  then show ?thesis by (auto simp: ReadU32_def get_at_def bind_eq_None_conv)
qed

lemma ReadF32_slice [wire_simps]:
  "ReadF32 offset payload =
    (if offset + 4 \<le> length payload then Some (F32_normalize (of_le32 (slice offset 4 payload))) else None)"
  by (simp add: ReadF32_def ReadU32_slice)

lemma of_le32_le_f32 [simp]: "of_le32 (le_f32 x) = F32_normalize x"
  by (simp add: le_f32_def)

text \<open>A count that fits 16 bits.\<close>

lemma unat_of_nat_u16 [simp]: "n < 65536 \<Longrightarrow> unat (word_of_nat n :: u16) = n"
  by (simp add: unat_of_nat take_bit_nat_eq_self)

text \<open>A span of which a first part is written.\<close>

definition wrote :: "byte list \<Rightarrow> byte list \<Rightarrow> byte list" where
  "wrote bs dst = bs @ drop (length bs) dst"

lemma length_wrote: "length bs \<le> length dst \<Longrightarrow> length (wrote bs dst) = length dst"
  by (simp add: wrote_def)

lemma wrote_all: "length bs = length dst \<Longrightarrow> wrote bs dst = bs"
  by (simp add: wrote_def)

lemma set_at_wrote:
  assumes "length bs < length dst"
  shows "set_at (length bs) b (wrote bs dst) = Some (wrote (bs @ [b]) dst)"
proof -
  obtain x xs where "drop (length bs) dst = x # xs" using assms by (metis Cons_nth_drop_Suc)
  moreover from this have "drop (Suc (length bs)) dst = xs" by (metis drop_Suc tl_drop list.sel(3))
  ultimately show ?thesis using assms by (simp add: set_at_def wrote_def list_update_append)
qed

lemma set_at_wrote_plus:
  assumes "length cs = k" "length bs + k < length dst"
  shows "set_at (length bs + k) b (wrote (bs @ cs) dst) = Some (wrote (bs @ cs @ [b]) dst)"
  using set_at_wrote [of "bs @ cs" dst b] assms by simp

lemma WriteU16_wrote [wire_simps]:
  "offset = length bs \<Longrightarrow> offset + 2 \<le> length dst \<Longrightarrow>
    WriteU16 v offset (wrote bs dst) = Some (wrote (bs @ le16 v) dst)"
  using set_at_wrote_plus [of "[ucast v]" 1 bs dst] by (simp add: WriteU16_def le16_def set_at_wrote)

lemma WriteU32_wrote [wire_simps]:
  "offset = length bs \<Longrightarrow> offset + 4 \<le> length dst \<Longrightarrow>
    WriteU32 v offset (wrote bs dst) = Some (wrote (bs @ le32 v) dst)"
  using set_at_wrote_plus [of "[ucast v]" 1 bs dst] set_at_wrote_plus [of "[ucast v, ucast (drop_bit 8 v)]" 2 bs dst]
    set_at_wrote_plus [of "[ucast v, ucast (drop_bit 8 v), ucast (drop_bit 16 v)]" 3 bs dst]
  by (simp add: WriteU32_def le32_def set_at_wrote)

lemma WriteF32_wrote [wire_simps]:
  "offset = length bs \<Longrightarrow> offset + 4 \<le> length dst \<Longrightarrow>
    WriteF32 v offset (wrote bs dst) = Some (wrote (bs @ le_f32 v) dst)"
  by (simp add: WriteF32_def WriteU32_wrote le_f32_def)

lemma WriteU16_start [wire_simps]: "2 \<le> length dst \<Longrightarrow> WriteU16 v 0 dst = Some (wrote (le16 v) dst)"
  using WriteU16_wrote [of 0 "[]" dst v] by (simp add: wrote_def)

lemma write_bytes_wrote [wire_simps]:
  "offset = length cs \<Longrightarrow> offset + length bs \<le> length dst \<Longrightarrow>
    write_bytes bs offset (wrote cs dst) = Some (wrote (cs @ bs) dst)"
proof (induction bs arbitrary: offset cs)
  case (Cons b bs)
  from Cons.IH [of "Suc (length cs)" "cs @ [b]"] Cons.prems show ?case by (simp add: set_at_wrote)
qed simp

lemma WriteI16_wrote [wire_simps]:
  "offset = length bs \<Longrightarrow> offset + 2 \<le> length dst \<Longrightarrow>
    WriteI16 v offset (wrote bs dst) = Some (wrote (bs @ le16 v) dst)"
  by (simp add: WriteI16_def WriteU16_wrote)

lemma ReadI16_slice [wire_simps]:
  "ReadI16 offset payload = (if offset + 2 \<le> length payload then Some (of_le16 (slice offset 2 payload)) else None)"
proof -
  have "word_of_int (uint (x :: u16) - 0x10000) = x" for x
    by (subst wi_hom_sub [symmetric]) simp
  then show ?thesis by (simp add: ReadI16_def ReadU16_slice)
qed

lemma IsValidPlayerDisplayName_length: "IsValidPlayerDisplayName name \<Longrightarrow> length name \<le> 48"
  by (simp add: IsValidPlayerDisplayName_def MaximumPlayerDisplayNameBytes_def split: if_splits)

section \<open>Loops over records\<close>

text \<open>
  A loop that writes the elements of a vector one after the other, and one that reads a known number
  of elements of the same size. Where the code computes the offset of element \<open>i\<close> as the base plus
  \<open>i\<close> times the width, that is the offset the loop has reached.
\<close>

fun write_each ::
    "('a \<Rightarrow> nat \<Rightarrow> byte list \<Rightarrow> byte list option) \<Rightarrow> ('a \<Rightarrow> nat) \<Rightarrow> 'a list \<Rightarrow> nat \<Rightarrow> byte list \<Rightarrow> byte list option" where
  "write_each write width [] offset output = Some output"
| "write_each write width (r # rs) offset output = do {
     output \<leftarrow> write r offset output;
     write_each write width rs (offset + width r) output }"

fun read_each :: "(nat \<Rightarrow> byte list \<Rightarrow> 'a option) \<Rightarrow> nat \<Rightarrow> nat \<Rightarrow> nat \<Rightarrow> byte list \<Rightarrow> 'a list option" where
  "read_each read width 0 offset payload = Some []"
| "read_each read width (Suc n) offset payload = do {
     r \<leftarrow> read offset payload;
     rs \<leftarrow> read_each read width n (offset + width) payload;
     Some (r # rs) }"

lemma length_concat_map: "(\<And>r. length (enc r) = width r) \<Longrightarrow> length (concat (map enc rs)) = (\<Sum>r \<leftarrow> rs. width r)"
  by (induction rs) simp_all

lemma write_each_wrote:
  assumes "\<And>r bs. length bs + width r \<le> length dst \<Longrightarrow> write r (length bs) (wrote bs dst) = Some (wrote (bs @ enc r) dst)"
    and "\<And>r. length (enc r) = width r" and "offset = length bs" "offset + (\<Sum>r \<leftarrow> rs. width r) \<le> length dst"
  shows "write_each write width rs offset (wrote bs dst) = Some (wrote (bs @ concat (map enc rs)) dst)"
  using assms(3,4)
proof (induction rs arbitrary: offset bs)
  case (Cons r rs)
  from Cons.IH [of "length (bs @ enc r)" "bs @ enc r"] Cons.prems show ?case by (simp add: assms(1,2))
qed simp

lemma read_each_defined:
  assumes "\<And>i. i + width \<le> length payload \<Longrightarrow> \<exists>r. read i payload = Some r \<and> P r"
  shows "offset + n * width \<le> length payload \<Longrightarrow>
    \<exists>rs. read_each read width n offset payload = Some rs \<and> length rs = n \<and> (\<forall>r \<in> set rs. P r)"
proof (induction n arbitrary: offset)
  case (Suc n)
  then show ?case using assms [of offset] Suc.IH [of "offset + width"] by fastforce
qed simp

lemma read_each_concat:
  assumes "\<And>r i p. drop i payload = enc r @ p \<Longrightarrow> i \<le> length payload \<Longrightarrow> read i payload = Some (canon r)"
    and "\<And>r. length (enc r) = width" and "drop offset payload = concat (map enc rs) @ p" "offset \<le> length payload"
    and "n = length rs"
  shows "read_each read width n offset payload = Some (map canon rs)"
  using assms(3-5)
proof (induction rs arbitrary: offset n)
  case (Cons r rs)
  have d: "drop (offset + width) payload = concat (map enc rs) @ p"
    using arg_cong [OF Cons.prems(1), of "drop width"] assms(2) by (simp add: add.commute)
  have "offset + width \<le> length payload"
    using arg_cong [OF Cons.prems(1), of length] assms(2) [of r] Cons.prems(2) by simp
  with Cons.IH [OF d] show ?case using assms(1) [of offset r] Cons.prems by simp
qed simp

section \<open>The contract of a World message\<close>

text \<open>
  \<open>valid\<close> is what the message's own validation accepts, \<open>payload_bytes\<close> the length of its payload,
  \<open>canonical v\<close> the value that arrives when \<open>v\<close> is sent: \<open>v\<close> with its negative zeros made positive.
\<close>

locale wire_message =
  fixes Encode :: "'v \<Rightarrow> byte list \<Rightarrow> (WorldProtocolError \<times> byte list) option"
    and Decode :: "bool \<Rightarrow> byte list \<Rightarrow> (WorldProtocolError + 'v) option"
    and valid :: "'v \<Rightarrow> bool" and payload_bytes :: "'v \<Rightarrow> nat" and canonical :: "'v \<Rightarrow> 'v"
  assumes encode_ok: "valid v \<Longrightarrow> length dst = payload_bytes v \<Longrightarrow>
      \<exists>bytes. Encode v dst = Some (Success, bytes) \<and> length bytes = length dst \<and>
        Decode True bytes = Some (Inr (canonical v))"
    and encode_error: "\<not> (valid v \<and> length dst = payload_bytes v) \<Longrightarrow>
      \<exists>e. e \<noteq> Success \<and> Encode v dst = Some (e, dst)"
    and decode_defined: "Decode out bytes \<noteq> None"
    and decode_null: "Decode False bytes = Some (Inl InvalidArgument)"
    and decode_ok: "Decode True bytes = Some (Inr v) \<Longrightarrow> valid v \<and> payload_bytes v = length bytes \<and> canonical v = v"
    and decode_error: "Decode out bytes = Some (Inl e) \<Longrightarrow> e \<noteq> Success"
begin

lemma encode_succeeds: "(\<exists>bytes. Encode v dst = Some (Success, bytes)) \<longleftrightarrow> valid v \<and> length dst = payload_bytes v"
  using encode_ok [of v dst] encode_error [of v dst] by force

lemma encode_decodes: "Encode v dst = Some (Success, bytes) \<Longrightarrow> Decode True bytes = Some (Inr (canonical v))"
  using encode_succeeds [of v dst] encode_ok [of v dst] by auto

lemma decode_encodes:
  assumes "Decode True bytes = Some (Inr v)" "length dst = length bytes"
  shows "\<exists>bytes'. Encode v dst = Some (Success, bytes') \<and> Decode True bytes' = Some (Inr v)"
  using encode_ok [of v dst] decode_ok [OF assms(1)] assms(2) by auto

lemma same_bytes: "Encode v dst = Some (Success, bytes) \<Longrightarrow> Encode w dst' = Some (Success, bytes) \<Longrightarrow>
    canonical v = canonical w"
  using encode_decodes [of v dst bytes] encode_decodes [of w dst' bytes] by simp

lemma decode_null_pointer: "Decode out bytes = Some (Inr v) \<Longrightarrow> out"
  using decode_null by (cases out) auto

end

end
