(* ===== verification/WsClientMessages.thy ===== *)
theory WsClientMessages imports WsWire begin

text \<open>
  The messages that a client sends to the World server: \<^verbatim>\<open>MovementInput.h\<close>,
  \<^verbatim>\<open>JoinWorldRequest.h\<close>, \<^verbatim>\<open>ObserveWorldRequest.h\<close>, \<^verbatim>\<open>WorldTimeSyncRequest.h\<close> and
  \<^verbatim>\<open>ControlStateCommand.h\<close>. Each message is an instance of \<open>wire_message\<close>. The flag of a decoder
  tells whether its output pointer is not null.
\<close>

section \<open>MovementInput\<close>

record MovementInput =
  controlledEntityGeneration :: u32
  targetServerTick :: u32
  moveX :: i16
  moveY :: i16

definition MovementInput_IsValid :: "MovementInput \<Rightarrow> bool" where
  "MovementInput_IsValid value \<longleftrightarrow>
     controlledEntityGeneration value \<noteq> 0 \<and> moveX value \<noteq> 0x8000 \<and> moveY value \<noteq> 0x8000"

definition MovementInput_Encode ::
    "MovementInput \<Rightarrow> byte list \<Rightarrow> (WorldProtocolError \<times> byte list) option" where
  "MovementInput_Encode value output =
     (if length output \<noteq> 14 then Some (InvalidLength, output)
      else if \<not> MovementInput_IsValid value then Some (InvalidNumeric, output)
      else do {
        output \<leftarrow> WriteU16 PayloadVersion_v1 0 output;
        output \<leftarrow> WriteU32 (controlledEntityGeneration value) 2 output;
        output \<leftarrow> WriteU32 (targetServerTick value) 6 output;
        output \<leftarrow> WriteI16 (moveX value) 10 output;
        output \<leftarrow> WriteI16 (moveY value) 12 output;
        Some (Success, output) })"

definition MovementInput_Decode ::
    "bool \<Rightarrow> byte list \<Rightarrow> (WorldProtocolError + MovementInput) option" where
  "MovementInput_Decode outValue payload =
     (if \<not> outValue then Some (Inl InvalidArgument)
      else if length payload \<noteq> 14 then Some (Inl InvalidLength)
      else do {
        version \<leftarrow> ReadU16 0 payload;
        if version \<noteq> PayloadVersion_v1 then Some (Inl UnsupportedVersion)
        else do {
          controlledEntityGeneration' \<leftarrow> ReadU32 2 payload;
          targetServerTick' \<leftarrow> ReadU32 6 payload;
          moveX' \<leftarrow> ReadI16 10 payload;
          moveY' \<leftarrow> ReadI16 12 payload;
          let decoded = \<lparr>controlledEntityGeneration = controlledEntityGeneration',
              targetServerTick = targetServerTick', moveX = moveX', moveY = moveY'\<rparr>;
          if \<not> MovementInput_IsValid decoded then Some (Inl InvalidNumeric) else Some (Inr decoded) } })"

interpretation movement_input: wire_message MovementInput_Encode MovementInput_Decode
  MovementInput_IsValid "\<lambda>v. 14" "\<lambda>v. v"
proof
  fix v :: MovementInput and dst :: "byte list"
  assume "MovementInput_IsValid v" "length dst = 14"
  then show "\<exists>bytes. MovementInput_Encode v dst = Some (Success, bytes) \<and> length bytes = length dst \<and>
      MovementInput_Decode True bytes = Some (Inr v)"
    by (simp add: MovementInput_Encode_def MovementInput_Decode_def MovementInput_IsValid_def wire_simps wrote_all Let_def)
qed (auto simp: MovementInput_Encode_def MovementInput_Decode_def wire_simps Let_def split: if_splits)

section \<open>WorldTimeSyncRequest\<close>

record WorldTimeSyncRequest =
  probeSequence :: u32

definition WorldTimeSyncRequest_Encode ::
    "WorldTimeSyncRequest \<Rightarrow> byte list \<Rightarrow> (WorldProtocolError \<times> byte list) option" where
  "WorldTimeSyncRequest_Encode value output =
     (if length output \<noteq> 6 then Some (InvalidLength, output)
      else do {
        output \<leftarrow> WriteU16 PayloadVersion_v1 0 output;
        output \<leftarrow> WriteU32 (probeSequence value) 2 output;
        Some (Success, output) })"

definition WorldTimeSyncRequest_Decode ::
    "bool \<Rightarrow> byte list \<Rightarrow> (WorldProtocolError + WorldTimeSyncRequest) option" where
  "WorldTimeSyncRequest_Decode outValue payload =
     (if \<not> outValue then Some (Inl InvalidArgument)
      else if length payload \<noteq> 6 then Some (Inl InvalidLength)
      else do {
        version \<leftarrow> ReadU16 0 payload;
        if version \<noteq> PayloadVersion_v1 then Some (Inl UnsupportedVersion)
        else do {
          probeSequence' \<leftarrow> ReadU32 2 payload;
          let decoded = \<lparr>probeSequence = probeSequence'\<rparr>;
          Some (Inr decoded) } })"

interpretation world_time_sync_request: wire_message WorldTimeSyncRequest_Encode WorldTimeSyncRequest_Decode
  "\<lambda>v. True" "\<lambda>v. 6" "\<lambda>v. v"
proof
  fix v :: WorldTimeSyncRequest and dst :: "byte list"
  assume "length dst = 6"
  then show "\<exists>bytes. WorldTimeSyncRequest_Encode v dst = Some (Success, bytes) \<and> length bytes = length dst \<and>
      WorldTimeSyncRequest_Decode True bytes = Some (Inr v)"
    by (simp add: WorldTimeSyncRequest_Encode_def WorldTimeSyncRequest_Decode_def wire_simps wrote_all Let_def)
qed (auto simp: WorldTimeSyncRequest_Encode_def WorldTimeSyncRequest_Decode_def wire_simps Let_def split: if_splits)

section \<open>JoinWorldRequest, version 1\<close>

text \<open>The message has no field.\<close>

datatype JoinWorldRequest_v1 = JoinWorldRequest_v1

definition JoinWorldRequest_v1_Encode :: "JoinWorldRequest_v1 \<Rightarrow> byte list \<Rightarrow> (WorldProtocolError \<times> byte list) option" where
  "JoinWorldRequest_v1_Encode value output =
     (if length output \<noteq> 2 then Some (InvalidLength, output)
      else do {
        output \<leftarrow> WriteU16 PayloadVersion_v1 0 output;
        Some (Success, output) })"

definition JoinWorldRequest_v1_Decode :: "bool \<Rightarrow> byte list \<Rightarrow> (WorldProtocolError + JoinWorldRequest_v1) option" where
  "JoinWorldRequest_v1_Decode outValue payload =
     (if \<not> outValue then Some (Inl InvalidArgument)
      else if length payload \<noteq> 2 then Some (Inl InvalidLength)
      else do {
        version \<leftarrow> ReadU16 0 payload;
        if version \<noteq> PayloadVersion_v1 then Some (Inl UnsupportedVersion) else Some (Inr JoinWorldRequest_v1) })"

interpretation join_world_request_v1: wire_message JoinWorldRequest_v1_Encode JoinWorldRequest_v1_Decode "\<lambda>v. True" "\<lambda>v. 2" "\<lambda>v. v"
proof
  fix v :: JoinWorldRequest_v1 and dst :: "byte list"
  assume "length dst = 2"
  then show "\<exists>bytes. JoinWorldRequest_v1_Encode v dst = Some (Success, bytes) \<and> length bytes = length dst \<and>
      JoinWorldRequest_v1_Decode True bytes = Some (Inr v)"
    by (cases v) (simp add: JoinWorldRequest_v1_Encode_def JoinWorldRequest_v1_Decode_def wire_simps wrote_all)
qed (auto simp: JoinWorldRequest_v1_Encode_def JoinWorldRequest_v1_Decode_def wire_simps split: if_splits)

section \<open>ObserveWorldRequest\<close>

text \<open>The message has no field.\<close>

datatype ObserveWorldRequest = ObserveWorldRequest

definition ObserveWorldRequest_Encode :: "ObserveWorldRequest \<Rightarrow> byte list \<Rightarrow> (WorldProtocolError \<times> byte list) option" where
  "ObserveWorldRequest_Encode value output =
     (if length output \<noteq> 2 then Some (InvalidLength, output)
      else do {
        output \<leftarrow> WriteU16 PayloadVersion_v1 0 output;
        Some (Success, output) })"

definition ObserveWorldRequest_Decode :: "bool \<Rightarrow> byte list \<Rightarrow> (WorldProtocolError + ObserveWorldRequest) option" where
  "ObserveWorldRequest_Decode outValue payload =
     (if \<not> outValue then Some (Inl InvalidArgument)
      else if length payload \<noteq> 2 then Some (Inl InvalidLength)
      else do {
        version \<leftarrow> ReadU16 0 payload;
        if version \<noteq> PayloadVersion_v1 then Some (Inl UnsupportedVersion) else Some (Inr ObserveWorldRequest) })"

interpretation observe_world_request: wire_message ObserveWorldRequest_Encode ObserveWorldRequest_Decode "\<lambda>v. True" "\<lambda>v. 2" "\<lambda>v. v"
proof
  fix v :: ObserveWorldRequest and dst :: "byte list"
  assume "length dst = 2"
  then show "\<exists>bytes. ObserveWorldRequest_Encode v dst = Some (Success, bytes) \<and> length bytes = length dst \<and>
      ObserveWorldRequest_Decode True bytes = Some (Inr v)"
    by (cases v) (simp add: ObserveWorldRequest_Encode_def ObserveWorldRequest_Decode_def wire_simps wrote_all)
qed (auto simp: ObserveWorldRequest_Encode_def ObserveWorldRequest_Decode_def wire_simps split: if_splits)

section \<open>ControlStateCommand\<close>

record ControlStateCommand =
  command_controlledEntityGeneration :: u32
  command_inputSequence :: u32
  command_turnState :: TurnState
  command_boostState :: BoostState

definition IsValidTurnState :: "TurnState \<Rightarrow> bool" where
  "IsValidTurnState value \<longleftrightarrow> value = TurnState_Straight \<or> value = TurnState_Left \<or> value = TurnState_Right"

definition IsValidBoostState :: "BoostState \<Rightarrow> bool" where
  "IsValidBoostState value \<longleftrightarrow> value = BoostState_Off \<or> value = BoostState_On"

definition ControlStateCommand_Encode ::
    "ControlStateCommand \<Rightarrow> byte list \<Rightarrow> (WorldProtocolError \<times> byte list) option" where
  "ControlStateCommand_Encode value output =
     (if length output \<noteq> 14 then Some (InvalidLength, output)
      else if \<not> IsValidTurnState (command_turnState value) \<or> \<not> IsValidBoostState (command_boostState value)
      then Some (InvalidEnum, output)
      else if command_controlledEntityGeneration value = 0 \<or> command_inputSequence value = 0
      then Some (InvalidNumeric, output)
      else do {
        output \<leftarrow> WriteU16 PayloadVersion_v2 0 output;
        output \<leftarrow> WriteU32 (command_controlledEntityGeneration value) 2 output;
        output \<leftarrow> WriteU32 (command_inputSequence value) 6 output;
        output \<leftarrow> WriteU16 (command_turnState value) 10 output;
        output \<leftarrow> WriteU16 (command_boostState value) 12 output;
        Some (Success, output) })"

definition ControlStateCommand_Decode ::
    "bool \<Rightarrow> byte list \<Rightarrow> (WorldProtocolError + ControlStateCommand) option" where
  "ControlStateCommand_Decode outValue payload =
     (if \<not> outValue then Some (Inl InvalidArgument)
      else if length payload \<noteq> 14 then Some (Inl InvalidLength)
      else do {
        version \<leftarrow> ReadU16 0 payload;
        if version \<noteq> PayloadVersion_v2 then Some (Inl UnsupportedVersion)
        else do {
          turnState \<leftarrow> ReadU16 10 payload;
          boostState \<leftarrow> ReadU16 12 payload;
          if \<not> IsValidTurnState turnState \<or> \<not> IsValidBoostState boostState then Some (Inl InvalidEnum)
          else do {
            generation \<leftarrow> ReadU32 2 payload;
            sequence \<leftarrow> ReadU32 6 payload;
            let decoded = \<lparr>command_controlledEntityGeneration = generation, command_inputSequence = sequence,
                command_turnState = turnState, command_boostState = boostState\<rparr>;
            if command_controlledEntityGeneration decoded = 0 \<or> command_inputSequence decoded = 0
            then Some (Inl InvalidNumeric)
            else Some (Inr decoded) } } })"

text \<open>What both directions check.\<close>

definition ControlStateCommand_ok :: "ControlStateCommand \<Rightarrow> bool" where
  "ControlStateCommand_ok value \<longleftrightarrow>
     IsValidTurnState (command_turnState value) \<and> IsValidBoostState (command_boostState value) \<and>
     command_controlledEntityGeneration value \<noteq> 0 \<and> command_inputSequence value \<noteq> 0"

interpretation control_state_command: wire_message ControlStateCommand_Encode ControlStateCommand_Decode
  ControlStateCommand_ok "\<lambda>v. 14" "\<lambda>v. v"
proof
  fix v :: ControlStateCommand and dst :: "byte list"
  assume "ControlStateCommand_ok v" "length dst = 14"
  then show "\<exists>bytes. ControlStateCommand_Encode v dst = Some (Success, bytes) \<and> length bytes = length dst \<and>
      ControlStateCommand_Decode True bytes = Some (Inr v)"
    by (simp add: ControlStateCommand_Encode_def ControlStateCommand_Decode_def ControlStateCommand_ok_def
        wire_simps wrote_all Let_def)
qed (auto simp: ControlStateCommand_Encode_def ControlStateCommand_Decode_def ControlStateCommand_ok_def wire_simps
    Let_def split: if_splits)

section \<open>JoinWorldRequest, version 2\<close>

record JoinWorldRequest_v2 =
  join_displayName :: "byte list"

definition JoinWorldRequest_v2_CalculatePayloadBytes :: "byte list \<Rightarrow> nat" where
  "JoinWorldRequest_v2_CalculatePayloadBytes displayName =
     (if length displayName \<le> MaximumPlayerDisplayNameBytes then 4 + length displayName else 0)"

definition JoinWorldRequest_v2_Encode ::
    "JoinWorldRequest_v2 \<Rightarrow> byte list \<Rightarrow> (WorldProtocolError \<times> byte list) option" where
  "JoinWorldRequest_v2_Encode value output =
     (let payloadBytes = JoinWorldRequest_v2_CalculatePayloadBytes (join_displayName value) in
      if payloadBytes = 0 \<or> length output \<noteq> payloadBytes then Some (InvalidLength, output)
      else if \<not> IsValidPlayerDisplayName (join_displayName value) then Some (InvalidArgument, output)
      else do {
        output \<leftarrow> WriteU16 PayloadVersion_v2 0 output;
        output \<leftarrow> WriteU16 (word_of_nat (length (join_displayName value))) 2 output;
        output \<leftarrow> write_bytes (join_displayName value) 4 output;
        Some (Success, output) })"

definition JoinWorldRequest_v2_Decode ::
    "bool \<Rightarrow> byte list \<Rightarrow> (WorldProtocolError + JoinWorldRequest_v2) option" where
  "JoinWorldRequest_v2_Decode outValue payload =
     (if \<not> outValue then Some (Inl InvalidArgument)
      else if length payload < 4 \<or> length payload > 4 + MaximumPlayerDisplayNameBytes then Some (Inl InvalidLength)
      else do {
        version \<leftarrow> ReadU16 0 payload;
        if version \<noteq> PayloadVersion_v2 then Some (Inl UnsupportedVersion)
        else do {
          displayNameByteCount \<leftarrow> ReadU16 2 payload;
          if unat displayNameByteCount \<noteq> length payload - 4 then Some (Inl InvalidLength)
          else let displayNameBytes = drop 4 payload in
            if \<not> IsValidPlayerDisplayName displayNameBytes then Some (Inl InvalidArgument)
            else Some (Inr \<lparr>join_displayName = displayNameBytes\<rparr>) } })"

interpretation join_world_request_v2: wire_message JoinWorldRequest_v2_Encode JoinWorldRequest_v2_Decode
  "\<lambda>v. IsValidPlayerDisplayName (join_displayName v)" "\<lambda>v. 4 + length (join_displayName v)" "\<lambda>v. v"
proof
  fix v :: JoinWorldRequest_v2 and dst :: "byte list"
  assume v: "IsValidPlayerDisplayName (join_displayName v)" and l: "length dst = 4 + length (join_displayName v)"
  have n: "length (join_displayName v) \<le> 48" by (rule IsValidPlayerDisplayName_length [OF v])
  then have "unat (word_of_nat (length (join_displayName v)) :: u16) = length (join_displayName v)"
    by (simp add: unat_of_nat_u16)
  then show "\<exists>bytes. JoinWorldRequest_v2_Encode v dst = Some (Success, bytes) \<and> length bytes = length dst \<and>
      JoinWorldRequest_v2_Decode True bytes = Some (Inr v)"
    using v l n by (simp add: JoinWorldRequest_v2_Encode_def JoinWorldRequest_v2_Decode_def
        JoinWorldRequest_v2_CalculatePayloadBytes_def MaximumPlayerDisplayNameBytes_def wire_simps wrote_all Let_def)
qed (auto simp: JoinWorldRequest_v2_Encode_def JoinWorldRequest_v2_Decode_def wire_simps Let_def
    JoinWorldRequest_v2_CalculatePayloadBytes_def MaximumPlayerDisplayNameBytes_def IsValidPlayerDisplayName_length
    split: if_splits)

end
