(* ===== verification/WsServerMessages.thy ===== *)
theory WsServerMessages imports WsWire begin

text \<open>
  The messages of fixed size that the World server sends: \<^verbatim>\<open>WorldTimeSyncResponse.h\<close>,
  \<^verbatim>\<open>EntityRemove.h\<close>, \<^verbatim>\<open>ScoreState.h\<close>, \<^verbatim>\<open>RoundState.h\<close>, \<^verbatim>\<open>ControlledEntityRebind.h\<close>,
  \<^verbatim>\<open>ObserverReady.h\<close> and the first versions of \<^verbatim>\<open>WorldReady.h\<close>, \<^verbatim>\<open>ControlledEntityState.h\<close> and
  \<^verbatim>\<open>EntitySpawn.h\<close>. Each message is an instance of \<open>wire_message\<close>. The fields carry a prefix that
  names their message.
\<close>

section \<open>WorldTimeSyncResponse\<close>

record WorldTimeSyncResponse =
  response_probeSequence :: u32
  response_serverTick :: u32

definition WorldTimeSyncResponse_Encode ::
    "WorldTimeSyncResponse \<Rightarrow> byte list \<Rightarrow> (WorldProtocolError \<times> byte list) option" where
  "WorldTimeSyncResponse_Encode value output =
     (if length output \<noteq> 10 then Some (InvalidLength, output)
      else do {
        output \<leftarrow> WriteU16 PayloadVersion_v1 0 output;
        output \<leftarrow> WriteU32 (response_probeSequence value) 2 output;
        output \<leftarrow> WriteU32 (response_serverTick value) 6 output;
        Some (Success, output) })"

definition WorldTimeSyncResponse_Decode ::
    "bool \<Rightarrow> byte list \<Rightarrow> (WorldProtocolError + WorldTimeSyncResponse) option" where
  "WorldTimeSyncResponse_Decode outValue payload =
     (if \<not> outValue then Some (Inl InvalidArgument)
      else if length payload \<noteq> 10 then Some (Inl InvalidLength)
      else do {
        version \<leftarrow> ReadU16 0 payload;
        if version \<noteq> PayloadVersion_v1 then Some (Inl UnsupportedVersion)
        else do {
          response_probeSequence' \<leftarrow> ReadU32 2 payload;
          response_serverTick' \<leftarrow> ReadU32 6 payload;
          let decoded = \<lparr>response_probeSequence = response_probeSequence',
              response_serverTick = response_serverTick'\<rparr>;
          Some (Inr decoded) } })"

interpretation world_time_sync_response: wire_message WorldTimeSyncResponse_Encode WorldTimeSyncResponse_Decode
  "\<lambda>v. True" "\<lambda>v. 10" "\<lambda>v. v"
proof
  fix v :: WorldTimeSyncResponse and dst :: "byte list"
  assume "length dst = 10"
  then show "\<exists>bytes. WorldTimeSyncResponse_Encode v dst = Some (Success, bytes) \<and> length bytes = length dst \<and>
      WorldTimeSyncResponse_Decode True bytes = Some (Inr v)"
    by (simp add: WorldTimeSyncResponse_Encode_def WorldTimeSyncResponse_Decode_def wire_simps wrote_all Let_def)
qed (auto simp: WorldTimeSyncResponse_Encode_def WorldTimeSyncResponse_Decode_def wire_simps Let_def split: if_splits)

section \<open>EntityRemove\<close>

record EntityRemove =
  remove_serverTick :: u32
  remove_entityId :: u32
  remove_generation :: u32
  remove_reason :: EntityRemoveReason

definition EntityRemove_Validate :: "EntityRemove \<Rightarrow> WorldProtocolError" where
  "EntityRemove_Validate value =
     (if \<not> (remove_reason value \<in> {EntityRemoveReason_LeftAoi, EntityRemoveReason_Destroyed, EntityRemoveReason_Collected,
           EntityRemoveReason_SessionClosed, EntityRemoveReason_RoundReset}) then InvalidEnum
      else if remove_entityId value = 0 \<or> remove_generation value = 0 then InvalidNumeric
      else Success)"

definition EntityRemove_Encode ::
    "EntityRemove \<Rightarrow> byte list \<Rightarrow> (WorldProtocolError \<times> byte list) option" where
  "EntityRemove_Encode value output =
     (if length output \<noteq> 16 then Some (InvalidLength, output)
      else if EntityRemove_Validate value \<noteq> Success then Some (EntityRemove_Validate value, output)
      else do {
        output \<leftarrow> WriteU16 PayloadVersion_v1 0 output;
        output \<leftarrow> WriteU32 (remove_serverTick value) 2 output;
        output \<leftarrow> WriteU32 (remove_entityId value) 6 output;
        output \<leftarrow> WriteU32 (remove_generation value) 10 output;
        output \<leftarrow> WriteU16 (remove_reason value) 14 output;
        Some (Success, output) })"

definition EntityRemove_Decode ::
    "bool \<Rightarrow> byte list \<Rightarrow> (WorldProtocolError + EntityRemove) option" where
  "EntityRemove_Decode outValue payload =
     (if \<not> outValue then Some (Inl InvalidArgument)
      else if length payload \<noteq> 16 then Some (Inl InvalidLength)
      else do {
        version \<leftarrow> ReadU16 0 payload;
        if version \<noteq> PayloadVersion_v1 then Some (Inl UnsupportedVersion)
        else do {
          remove_serverTick' \<leftarrow> ReadU32 2 payload;
          remove_entityId' \<leftarrow> ReadU32 6 payload;
          remove_generation' \<leftarrow> ReadU32 10 payload;
          remove_reason' \<leftarrow> ReadU16 14 payload;
          let decoded = \<lparr>remove_serverTick = remove_serverTick', remove_entityId = remove_entityId',
              remove_generation = remove_generation', remove_reason = remove_reason'\<rparr>;
          if EntityRemove_Validate decoded \<noteq> Success then Some (Inl (EntityRemove_Validate decoded)) else Some (Inr decoded) } })"

lemma EntityRemove_rebuild [simp]: "\<lparr>remove_serverTick = remove_serverTick v, remove_entityId = remove_entityId v,
      remove_generation = remove_generation v, remove_reason = remove_reason v\<rparr> = v"
  by (cases v) (simp)

interpretation entity_remove: wire_message EntityRemove_Encode EntityRemove_Decode
  "\<lambda>v. EntityRemove_Validate v = Success" "\<lambda>v. 16" "\<lambda>v. v"
proof
  fix v :: EntityRemove and dst :: "byte list"
  assume "EntityRemove_Validate v = Success" "length dst = 16"
  then show "\<exists>bytes. EntityRemove_Encode v dst = Some (Success, bytes) \<and> length bytes = length dst \<and>
      EntityRemove_Decode True bytes = Some (Inr v)"
    by (simp add: EntityRemove_Encode_def EntityRemove_Decode_def wire_simps wrote_all Let_def)
qed (auto simp: EntityRemove_Encode_def EntityRemove_Decode_def wire_simps Let_def split: if_splits)

section \<open>ScoreState\<close>

record ScoreState =
  score_serverTick :: u32
  score_playerId :: u32
  score_score :: u32

definition ScoreState_IsValid :: "ScoreState \<Rightarrow> bool" where
  "ScoreState_IsValid value \<longleftrightarrow>
     score_playerId value \<noteq> 0"

definition ScoreState_Encode ::
    "ScoreState \<Rightarrow> byte list \<Rightarrow> (WorldProtocolError \<times> byte list) option" where
  "ScoreState_Encode value output =
     (if length output \<noteq> 14 then Some (InvalidLength, output)
      else if \<not> ScoreState_IsValid value then Some (InvalidNumeric, output)
      else do {
        output \<leftarrow> WriteU16 PayloadVersion_v1 0 output;
        output \<leftarrow> WriteU32 (score_serverTick value) 2 output;
        output \<leftarrow> WriteU32 (score_playerId value) 6 output;
        output \<leftarrow> WriteU32 (score_score value) 10 output;
        Some (Success, output) })"

definition ScoreState_Decode ::
    "bool \<Rightarrow> byte list \<Rightarrow> (WorldProtocolError + ScoreState) option" where
  "ScoreState_Decode outValue payload =
     (if \<not> outValue then Some (Inl InvalidArgument)
      else if length payload \<noteq> 14 then Some (Inl InvalidLength)
      else do {
        version \<leftarrow> ReadU16 0 payload;
        if version \<noteq> PayloadVersion_v1 then Some (Inl UnsupportedVersion)
        else do {
          score_serverTick' \<leftarrow> ReadU32 2 payload;
          score_playerId' \<leftarrow> ReadU32 6 payload;
          score_score' \<leftarrow> ReadU32 10 payload;
          let decoded = \<lparr>score_serverTick = score_serverTick', score_playerId = score_playerId',
              score_score = score_score'\<rparr>;
          if \<not> ScoreState_IsValid decoded then Some (Inl InvalidNumeric) else Some (Inr decoded) } })"

interpretation score_state: wire_message ScoreState_Encode ScoreState_Decode
  ScoreState_IsValid "\<lambda>v. 14" "\<lambda>v. v"
proof
  fix v :: ScoreState and dst :: "byte list"
  assume "ScoreState_IsValid v" "length dst = 14"
  then show "\<exists>bytes. ScoreState_Encode v dst = Some (Success, bytes) \<and> length bytes = length dst \<and>
      ScoreState_Decode True bytes = Some (Inr v)"
    by (simp add: ScoreState_Encode_def ScoreState_Decode_def ScoreState_IsValid_def wire_simps wrote_all Let_def)
qed (auto simp: ScoreState_Encode_def ScoreState_Decode_def wire_simps Let_def split: if_splits)

section \<open>RoundState\<close>

record RoundState =
  round_serverTick :: u32
  round_roundId :: u32
  round_phase :: RoundPhase
  round_phaseEndsAtServerTick :: u32
  round_scoreToWin :: u32
  round_winnerPlayerId :: u32

definition RoundState_Validate :: "RoundState \<Rightarrow> WorldProtocolError" where
  "RoundState_Validate value =
     (if \<not> (round_phase value \<in> {RoundPhase_Waiting, RoundPhase_Running, RoundPhase_Ended}) then InvalidEnum
      else if round_roundId value = 0 \<or> round_scoreToWin value = 0 then InvalidNumeric
      else if round_phase value = RoundPhase_Ended then
        (if round_winnerPlayerId value = 0 then InvalidNumeric else Success)
      else if round_winnerPlayerId value = 0 then Success else InvalidNumeric)"

definition RoundState_Encode ::
    "RoundState \<Rightarrow> byte list \<Rightarrow> (WorldProtocolError \<times> byte list) option" where
  "RoundState_Encode value output =
     (if length output \<noteq> 24 then Some (InvalidLength, output)
      else if RoundState_Validate value \<noteq> Success then Some (RoundState_Validate value, output)
      else do {
        output \<leftarrow> WriteU16 PayloadVersion_v1 0 output;
        output \<leftarrow> WriteU32 (round_serverTick value) 2 output;
        output \<leftarrow> WriteU32 (round_roundId value) 6 output;
        output \<leftarrow> WriteU16 (round_phase value) 10 output;
        output \<leftarrow> WriteU32 (round_phaseEndsAtServerTick value) 12 output;
        output \<leftarrow> WriteU32 (round_scoreToWin value) 16 output;
        output \<leftarrow> WriteU32 (round_winnerPlayerId value) 20 output;
        Some (Success, output) })"

definition RoundState_Decode ::
    "bool \<Rightarrow> byte list \<Rightarrow> (WorldProtocolError + RoundState) option" where
  "RoundState_Decode outValue payload =
     (if \<not> outValue then Some (Inl InvalidArgument)
      else if length payload \<noteq> 24 then Some (Inl InvalidLength)
      else do {
        version \<leftarrow> ReadU16 0 payload;
        if version \<noteq> PayloadVersion_v1 then Some (Inl UnsupportedVersion)
        else do {
          round_serverTick' \<leftarrow> ReadU32 2 payload;
          round_roundId' \<leftarrow> ReadU32 6 payload;
          round_phase' \<leftarrow> ReadU16 10 payload;
          round_phaseEndsAtServerTick' \<leftarrow> ReadU32 12 payload;
          round_scoreToWin' \<leftarrow> ReadU32 16 payload;
          round_winnerPlayerId' \<leftarrow> ReadU32 20 payload;
          let decoded = \<lparr>round_serverTick = round_serverTick', round_roundId = round_roundId',
              round_phase = round_phase', round_phaseEndsAtServerTick = round_phaseEndsAtServerTick',
              round_scoreToWin = round_scoreToWin', round_winnerPlayerId = round_winnerPlayerId'\<rparr>;
          if RoundState_Validate decoded \<noteq> Success then Some (Inl (RoundState_Validate decoded)) else Some (Inr decoded) } })"

lemma RoundState_rebuild [simp]: "\<lparr>round_serverTick = round_serverTick v, round_roundId = round_roundId v, round_phase = round_phase v,
      round_phaseEndsAtServerTick = round_phaseEndsAtServerTick v, round_scoreToWin = round_scoreToWin v,
      round_winnerPlayerId = round_winnerPlayerId v\<rparr> = v"
  by (cases v) (simp)

interpretation round_state: wire_message RoundState_Encode RoundState_Decode
  "\<lambda>v. RoundState_Validate v = Success" "\<lambda>v. 24" "\<lambda>v. v"
proof
  fix v :: RoundState and dst :: "byte list"
  assume "RoundState_Validate v = Success" "length dst = 24"
  then show "\<exists>bytes. RoundState_Encode v dst = Some (Success, bytes) \<and> length bytes = length dst \<and>
      RoundState_Decode True bytes = Some (Inr v)"
    by (simp add: RoundState_Encode_def RoundState_Decode_def wire_simps wrote_all Let_def)
qed (auto simp: RoundState_Encode_def RoundState_Decode_def wire_simps Let_def split: if_splits)

section \<open>ControlledEntityRebind\<close>

record ControlledEntityRebind =
  rebind_serverTick :: u32
  rebind_playerId :: u32
  rebind_previousEntityId :: u32
  rebind_previousEntityGeneration :: u32
  rebind_controlledEntityId :: u32
  rebind_controlledEntityGeneration :: u32

definition ControlledEntityRebind_IsValid :: "ControlledEntityRebind \<Rightarrow> bool" where
  "ControlledEntityRebind_IsValid value \<longleftrightarrow>
     rebind_playerId value \<noteq> 0 \<and> rebind_previousEntityId value \<noteq> 0 \<and> rebind_previousEntityGeneration value \<noteq> 0 \<and>
     rebind_controlledEntityId value \<noteq> 0 \<and> rebind_controlledEntityGeneration value \<noteq> 0 \<and>
     (rebind_previousEntityId value \<noteq> rebind_controlledEntityId value \<or>
      rebind_previousEntityGeneration value \<noteq> rebind_controlledEntityGeneration value)"

definition ControlledEntityRebind_Encode ::
    "ControlledEntityRebind \<Rightarrow> byte list \<Rightarrow> (WorldProtocolError \<times> byte list) option" where
  "ControlledEntityRebind_Encode value output =
     (if length output \<noteq> 26 then Some (InvalidLength, output)
      else if \<not> ControlledEntityRebind_IsValid value then Some (InvalidNumeric, output)
      else do {
        output \<leftarrow> WriteU16 PayloadVersion_v1 0 output;
        output \<leftarrow> WriteU32 (rebind_serverTick value) 2 output;
        output \<leftarrow> WriteU32 (rebind_playerId value) 6 output;
        output \<leftarrow> WriteU32 (rebind_previousEntityId value) 10 output;
        output \<leftarrow> WriteU32 (rebind_previousEntityGeneration value) 14 output;
        output \<leftarrow> WriteU32 (rebind_controlledEntityId value) 18 output;
        output \<leftarrow> WriteU32 (rebind_controlledEntityGeneration value) 22 output;
        Some (Success, output) })"

definition ControlledEntityRebind_Decode ::
    "bool \<Rightarrow> byte list \<Rightarrow> (WorldProtocolError + ControlledEntityRebind) option" where
  "ControlledEntityRebind_Decode outValue payload =
     (if \<not> outValue then Some (Inl InvalidArgument)
      else if length payload \<noteq> 26 then Some (Inl InvalidLength)
      else do {
        version \<leftarrow> ReadU16 0 payload;
        if version \<noteq> PayloadVersion_v1 then Some (Inl UnsupportedVersion)
        else do {
          rebind_serverTick' \<leftarrow> ReadU32 2 payload;
          rebind_playerId' \<leftarrow> ReadU32 6 payload;
          rebind_previousEntityId' \<leftarrow> ReadU32 10 payload;
          rebind_previousEntityGeneration' \<leftarrow> ReadU32 14 payload;
          rebind_controlledEntityId' \<leftarrow> ReadU32 18 payload;
          rebind_controlledEntityGeneration' \<leftarrow> ReadU32 22 payload;
          let decoded = \<lparr>rebind_serverTick = rebind_serverTick', rebind_playerId = rebind_playerId',
              rebind_previousEntityId = rebind_previousEntityId',
              rebind_previousEntityGeneration = rebind_previousEntityGeneration',
              rebind_controlledEntityId = rebind_controlledEntityId',
              rebind_controlledEntityGeneration = rebind_controlledEntityGeneration'\<rparr>;
          if \<not> ControlledEntityRebind_IsValid decoded then Some (Inl InvalidNumeric) else Some (Inr decoded) } })"

interpretation controlled_entity_rebind: wire_message ControlledEntityRebind_Encode ControlledEntityRebind_Decode
  ControlledEntityRebind_IsValid "\<lambda>v. 26" "\<lambda>v. v"
proof
  fix v :: ControlledEntityRebind and dst :: "byte list"
  assume "ControlledEntityRebind_IsValid v" "length dst = 26"
  then show "\<exists>bytes. ControlledEntityRebind_Encode v dst = Some (Success, bytes) \<and> length bytes = length dst \<and>
      ControlledEntityRebind_Decode True bytes = Some (Inr v)"
    by (simp add: ControlledEntityRebind_Encode_def ControlledEntityRebind_Decode_def ControlledEntityRebind_IsValid_def wire_simps wrote_all Let_def)
qed (auto simp: ControlledEntityRebind_Encode_def ControlledEntityRebind_Decode_def wire_simps Let_def split: if_splits)

section \<open>ObserverReady\<close>

record ObserverReady =
  observer_currentServerTick :: u32
  observer_tickRateHz :: u32
  observer_arenaMinX :: f32
  observer_arenaMinY :: f32
  observer_arenaMaxX :: f32
  observer_arenaMaxY :: f32
  observer_channelId :: u32

definition ObserverReady_IsValid :: "ObserverReady \<Rightarrow> bool" where
  "ObserverReady_IsValid value \<longleftrightarrow>
     observer_tickRateHz value \<noteq> 0 \<and> observer_channelId value \<noteq> 0 \<and>
     F32_isfinite (observer_arenaMinX value) \<and>
     F32_isfinite (observer_arenaMinY value) \<and>
     F32_isfinite (observer_arenaMaxX value) \<and>
     F32_isfinite (observer_arenaMaxY value) \<and>
     F32_less (observer_arenaMinX value) (observer_arenaMaxX value) \<and> F32_less (observer_arenaMinY value) (observer_arenaMaxY value)"

definition ObserverReady_Encode ::
    "ObserverReady \<Rightarrow> byte list \<Rightarrow> (WorldProtocolError \<times> byte list) option" where
  "ObserverReady_Encode value output =
     (if length output \<noteq> 30 then Some (InvalidLength, output)
      else if \<not> ObserverReady_IsValid value then Some (InvalidNumeric, output)
      else do {
        output \<leftarrow> WriteU16 PayloadVersion_v1 0 output;
        output \<leftarrow> WriteU32 (observer_currentServerTick value) 2 output;
        output \<leftarrow> WriteU32 (observer_tickRateHz value) 6 output;
        output \<leftarrow> WriteF32 (observer_arenaMinX value) 10 output;
        output \<leftarrow> WriteF32 (observer_arenaMinY value) 14 output;
        output \<leftarrow> WriteF32 (observer_arenaMaxX value) 18 output;
        output \<leftarrow> WriteF32 (observer_arenaMaxY value) 22 output;
        output \<leftarrow> WriteU32 (observer_channelId value) 26 output;
        Some (Success, output) })"

definition ObserverReady_Decode ::
    "bool \<Rightarrow> byte list \<Rightarrow> (WorldProtocolError + ObserverReady) option" where
  "ObserverReady_Decode outValue payload =
     (if \<not> outValue then Some (Inl InvalidArgument)
      else if length payload \<noteq> 30 then Some (Inl InvalidLength)
      else do {
        version \<leftarrow> ReadU16 0 payload;
        if version \<noteq> PayloadVersion_v1 then Some (Inl UnsupportedVersion)
        else do {
          observer_currentServerTick' \<leftarrow> ReadU32 2 payload;
          observer_tickRateHz' \<leftarrow> ReadU32 6 payload;
          observer_arenaMinX' \<leftarrow> ReadF32 10 payload;
          observer_arenaMinY' \<leftarrow> ReadF32 14 payload;
          observer_arenaMaxX' \<leftarrow> ReadF32 18 payload;
          observer_arenaMaxY' \<leftarrow> ReadF32 22 payload;
          observer_channelId' \<leftarrow> ReadU32 26 payload;
          let decoded = \<lparr>observer_currentServerTick = observer_currentServerTick',
              observer_tickRateHz = observer_tickRateHz', observer_arenaMinX = observer_arenaMinX',
              observer_arenaMinY = observer_arenaMinY', observer_arenaMaxX = observer_arenaMaxX',
              observer_arenaMaxY = observer_arenaMaxY', observer_channelId = observer_channelId'\<rparr>;
          if \<not> ObserverReady_IsValid decoded then Some (Inl InvalidNumeric) else Some (Inr decoded) } })"

definition ObserverReady_canonical :: "ObserverReady \<Rightarrow> ObserverReady" where
  "ObserverReady_canonical v = v\<lparr>observer_arenaMinX := F32_normalize (observer_arenaMinX v),
      observer_arenaMinY := F32_normalize (observer_arenaMinY v),
      observer_arenaMaxX := F32_normalize (observer_arenaMaxX v),
      observer_arenaMaxY := F32_normalize (observer_arenaMaxY v)\<rparr>"

interpretation observer_ready: wire_message ObserverReady_Encode ObserverReady_Decode
  ObserverReady_IsValid "\<lambda>v. 30" ObserverReady_canonical
proof
  fix v :: ObserverReady and dst :: "byte list"
  assume "ObserverReady_IsValid v" "length dst = 30"
  then show "\<exists>bytes. ObserverReady_Encode v dst = Some (Success, bytes) \<and> length bytes = length dst \<and>
      ObserverReady_Decode True bytes = Some (Inr (ObserverReady_canonical v))"
    by (simp add: ObserverReady_Encode_def ObserverReady_Decode_def ObserverReady_IsValid_def ObserverReady_canonical_def wire_simps wrote_all Let_def)
qed (auto simp: ObserverReady_Encode_def ObserverReady_Decode_def ObserverReady_canonical_def wire_simps Let_def split: if_splits)

section \<open>WorldReady, version 1\<close>

record WorldReady_v1 =
  ready_playerId :: u32
  ready_controlledEntityId :: u32
  ready_controlledEntityGeneration :: u32
  ready_currentServerTick :: u32
  ready_tickRateHz :: u32
  ready_snapshotIntervalTicks :: u32
  ready_commandSlackTicks :: u32
  ready_arenaMinX :: f32
  ready_arenaMinY :: f32
  ready_arenaMaxX :: f32
  ready_arenaMaxY :: f32

definition WorldReady_v1_IsValid :: "WorldReady_v1 \<Rightarrow> bool" where
  "WorldReady_v1_IsValid value \<longleftrightarrow>
     ready_playerId value \<noteq> 0 \<and>
     ready_controlledEntityId value \<noteq> 0 \<and>
     ready_controlledEntityGeneration value \<noteq> 0 \<and>
     ready_tickRateHz value \<noteq> 0 \<and>
     ready_snapshotIntervalTicks value \<noteq> 0 \<and>
     ready_commandSlackTicks value \<noteq> 0 \<and>
     F32_isfinite (ready_arenaMinX value) \<and>
     F32_isfinite (ready_arenaMinY value) \<and>
     F32_isfinite (ready_arenaMaxX value) \<and>
     F32_isfinite (ready_arenaMaxY value) \<and>
     F32_less (ready_arenaMinX value) (ready_arenaMaxX value) \<and> F32_less (ready_arenaMinY value) (ready_arenaMaxY value)"

definition WorldReady_v1_Encode ::
    "WorldReady_v1 \<Rightarrow> byte list \<Rightarrow> (WorldProtocolError \<times> byte list) option" where
  "WorldReady_v1_Encode value output =
     (if length output \<noteq> 46 then Some (InvalidLength, output)
      else if \<not> WorldReady_v1_IsValid value then Some (InvalidNumeric, output)
      else do {
        output \<leftarrow> WriteU16 PayloadVersion_v1 0 output;
        output \<leftarrow> WriteU32 (ready_playerId value) 2 output;
        output \<leftarrow> WriteU32 (ready_controlledEntityId value) 6 output;
        output \<leftarrow> WriteU32 (ready_controlledEntityGeneration value) 10 output;
        output \<leftarrow> WriteU32 (ready_currentServerTick value) 14 output;
        output \<leftarrow> WriteU32 (ready_tickRateHz value) 18 output;
        output \<leftarrow> WriteU32 (ready_snapshotIntervalTicks value) 22 output;
        output \<leftarrow> WriteU32 (ready_commandSlackTicks value) 26 output;
        output \<leftarrow> WriteF32 (ready_arenaMinX value) 30 output;
        output \<leftarrow> WriteF32 (ready_arenaMinY value) 34 output;
        output \<leftarrow> WriteF32 (ready_arenaMaxX value) 38 output;
        output \<leftarrow> WriteF32 (ready_arenaMaxY value) 42 output;
        Some (Success, output) })"

definition WorldReady_v1_Decode ::
    "bool \<Rightarrow> byte list \<Rightarrow> (WorldProtocolError + WorldReady_v1) option" where
  "WorldReady_v1_Decode outValue payload =
     (if \<not> outValue then Some (Inl InvalidArgument)
      else if length payload \<noteq> 46 then Some (Inl InvalidLength)
      else do {
        version \<leftarrow> ReadU16 0 payload;
        if version \<noteq> PayloadVersion_v1 then Some (Inl UnsupportedVersion)
        else do {
          ready_playerId' \<leftarrow> ReadU32 2 payload;
          ready_controlledEntityId' \<leftarrow> ReadU32 6 payload;
          ready_controlledEntityGeneration' \<leftarrow> ReadU32 10 payload;
          ready_currentServerTick' \<leftarrow> ReadU32 14 payload;
          ready_tickRateHz' \<leftarrow> ReadU32 18 payload;
          ready_snapshotIntervalTicks' \<leftarrow> ReadU32 22 payload;
          ready_commandSlackTicks' \<leftarrow> ReadU32 26 payload;
          ready_arenaMinX' \<leftarrow> ReadF32 30 payload;
          ready_arenaMinY' \<leftarrow> ReadF32 34 payload;
          ready_arenaMaxX' \<leftarrow> ReadF32 38 payload;
          ready_arenaMaxY' \<leftarrow> ReadF32 42 payload;
          let decoded = \<lparr>ready_playerId = ready_playerId', ready_controlledEntityId = ready_controlledEntityId',
              ready_controlledEntityGeneration = ready_controlledEntityGeneration',
              ready_currentServerTick = ready_currentServerTick',
              ready_tickRateHz = ready_tickRateHz',
              ready_snapshotIntervalTicks = ready_snapshotIntervalTicks',
              ready_commandSlackTicks = ready_commandSlackTicks', ready_arenaMinX = ready_arenaMinX',
              ready_arenaMinY = ready_arenaMinY', ready_arenaMaxX = ready_arenaMaxX',
              ready_arenaMaxY = ready_arenaMaxY'\<rparr>;
          if \<not> WorldReady_v1_IsValid decoded then Some (Inl InvalidNumeric) else Some (Inr decoded) } })"

definition WorldReady_v1_canonical :: "WorldReady_v1 \<Rightarrow> WorldReady_v1" where
  "WorldReady_v1_canonical v = v\<lparr>ready_arenaMinX := F32_normalize (ready_arenaMinX v),
      ready_arenaMinY := F32_normalize (ready_arenaMinY v),
      ready_arenaMaxX := F32_normalize (ready_arenaMaxX v),
      ready_arenaMaxY := F32_normalize (ready_arenaMaxY v)\<rparr>"

interpretation world_ready_v1: wire_message WorldReady_v1_Encode WorldReady_v1_Decode
  WorldReady_v1_IsValid "\<lambda>v. 46" WorldReady_v1_canonical
proof
  fix v :: WorldReady_v1 and dst :: "byte list"
  assume "WorldReady_v1_IsValid v" "length dst = 46"
  then show "\<exists>bytes. WorldReady_v1_Encode v dst = Some (Success, bytes) \<and> length bytes = length dst \<and>
      WorldReady_v1_Decode True bytes = Some (Inr (WorldReady_v1_canonical v))"
    by (simp add: WorldReady_v1_Encode_def WorldReady_v1_Decode_def WorldReady_v1_IsValid_def WorldReady_v1_canonical_def wire_simps wrote_all Let_def)
qed (auto simp: WorldReady_v1_Encode_def WorldReady_v1_Decode_def WorldReady_v1_canonical_def wire_simps Let_def split: if_splits)

section \<open>ControlledEntityState, version 1\<close>

record ControlledEntityState_v1 =
  state_serverTick :: u32
  state_controlledEntityGeneration :: u32
  state_positionX :: f32
  state_positionY :: f32
  state_velocityX :: f32
  state_velocityY :: f32
  state_angleRadians :: f32

definition ControlledEntityState_v1_IsValid :: "ControlledEntityState_v1 \<Rightarrow> bool" where
  "ControlledEntityState_v1_IsValid value \<longleftrightarrow>
     state_controlledEntityGeneration value \<noteq> 0 \<and>
     F32_isfinite (state_positionX value) \<and>
     F32_isfinite (state_positionY value) \<and>
     F32_isfinite (state_velocityX value) \<and>
     F32_isfinite (state_velocityY value) \<and>
     F32_isfinite (state_angleRadians value)"

definition ControlledEntityState_v1_Encode ::
    "ControlledEntityState_v1 \<Rightarrow> byte list \<Rightarrow> (WorldProtocolError \<times> byte list) option" where
  "ControlledEntityState_v1_Encode value output =
     (if length output \<noteq> 30 then Some (InvalidLength, output)
      else if \<not> ControlledEntityState_v1_IsValid value then Some (InvalidNumeric, output)
      else do {
        output \<leftarrow> WriteU16 PayloadVersion_v1 0 output;
        output \<leftarrow> WriteU32 (state_serverTick value) 2 output;
        output \<leftarrow> WriteU32 (state_controlledEntityGeneration value) 6 output;
        output \<leftarrow> WriteF32 (state_positionX value) 10 output;
        output \<leftarrow> WriteF32 (state_positionY value) 14 output;
        output \<leftarrow> WriteF32 (state_velocityX value) 18 output;
        output \<leftarrow> WriteF32 (state_velocityY value) 22 output;
        output \<leftarrow> WriteF32 (state_angleRadians value) 26 output;
        Some (Success, output) })"

definition ControlledEntityState_v1_Decode ::
    "bool \<Rightarrow> byte list \<Rightarrow> (WorldProtocolError + ControlledEntityState_v1) option" where
  "ControlledEntityState_v1_Decode outValue payload =
     (if \<not> outValue then Some (Inl InvalidArgument)
      else if length payload \<noteq> 30 then Some (Inl InvalidLength)
      else do {
        version \<leftarrow> ReadU16 0 payload;
        if version \<noteq> PayloadVersion_v1 then Some (Inl UnsupportedVersion)
        else do {
          state_serverTick' \<leftarrow> ReadU32 2 payload;
          state_controlledEntityGeneration' \<leftarrow> ReadU32 6 payload;
          state_positionX' \<leftarrow> ReadF32 10 payload;
          state_positionY' \<leftarrow> ReadF32 14 payload;
          state_velocityX' \<leftarrow> ReadF32 18 payload;
          state_velocityY' \<leftarrow> ReadF32 22 payload;
          state_angleRadians' \<leftarrow> ReadF32 26 payload;
          let decoded = \<lparr>state_serverTick = state_serverTick',
              state_controlledEntityGeneration = state_controlledEntityGeneration',
              state_positionX = state_positionX', state_positionY = state_positionY',
              state_velocityX = state_velocityX', state_velocityY = state_velocityY',
              state_angleRadians = state_angleRadians'\<rparr>;
          if \<not> ControlledEntityState_v1_IsValid decoded then Some (Inl InvalidNumeric) else Some (Inr decoded) } })"

definition ControlledEntityState_v1_canonical :: "ControlledEntityState_v1 \<Rightarrow> ControlledEntityState_v1" where
  "ControlledEntityState_v1_canonical v = v\<lparr>state_positionX := F32_normalize (state_positionX v),
      state_positionY := F32_normalize (state_positionY v),
      state_velocityX := F32_normalize (state_velocityX v),
      state_velocityY := F32_normalize (state_velocityY v),
      state_angleRadians := F32_normalize (state_angleRadians v)\<rparr>"

interpretation controlled_entity_state_v1: wire_message ControlledEntityState_v1_Encode ControlledEntityState_v1_Decode
  ControlledEntityState_v1_IsValid "\<lambda>v. 30" ControlledEntityState_v1_canonical
proof
  fix v :: ControlledEntityState_v1 and dst :: "byte list"
  assume "ControlledEntityState_v1_IsValid v" "length dst = 30"
  then show "\<exists>bytes. ControlledEntityState_v1_Encode v dst = Some (Success, bytes) \<and> length bytes = length dst \<and>
      ControlledEntityState_v1_Decode True bytes = Some (Inr (ControlledEntityState_v1_canonical v))"
    by (simp add: ControlledEntityState_v1_Encode_def ControlledEntityState_v1_Decode_def ControlledEntityState_v1_IsValid_def ControlledEntityState_v1_canonical_def wire_simps wrote_all Let_def)
qed (auto simp: ControlledEntityState_v1_Encode_def ControlledEntityState_v1_Decode_def ControlledEntityState_v1_canonical_def wire_simps Let_def split: if_splits)

section \<open>EntitySpawn, version 1\<close>

record EntitySpawn_v1 =
  spawn_serverTick :: u32
  spawn_entityId :: u32
  spawn_generation :: u32
  spawn_entityKind :: EntityKind
  spawn_archetypeId :: u32
  spawn_primaryShapeKind :: ShapeKind
  spawn_primaryCircleRadius :: f32
  spawn_maxMoveSpeed :: f32
  spawn_positionX :: f32
  spawn_positionY :: f32
  spawn_velocityX :: f32
  spawn_velocityY :: f32
  spawn_angleRadians :: f32

definition EntitySpawn_v1_Validate :: "EntitySpawn_v1 \<Rightarrow> WorldProtocolError" where
  "EntitySpawn_v1_Validate value =
     (if \<not> (spawn_entityKind value \<in> {EntityKind_Player, EntityKind_Resource, EntityKind_StaticObstacle}) \<or>
         spawn_primaryShapeKind value \<noteq> ShapeKind_Circle then InvalidEnum
      else if spawn_entityId value = 0 \<or> spawn_generation value = 0 \<or> spawn_archetypeId value = 0 \<or>
         \<not> F32_isfinite (spawn_primaryCircleRadius value) \<or>
         \<not> F32_isfinite (spawn_maxMoveSpeed value) \<or>
         \<not> F32_isfinite (spawn_positionX value) \<or>
         \<not> F32_isfinite (spawn_positionY value) \<or>
         \<not> F32_isfinite (spawn_velocityX value) \<or>
         \<not> F32_isfinite (spawn_velocityY value) \<or>
         \<not> F32_isfinite (spawn_angleRadians value) \<or>
         F32_less_eq (spawn_primaryCircleRadius value) 0 then InvalidNumeric
      else if spawn_entityKind value = EntityKind_Player \<and> F32_less_eq (spawn_maxMoveSpeed value) 0 then InvalidNumeric
      else if spawn_entityKind value \<noteq> EntityKind_Player \<and> \<not> F32_is_zero (spawn_maxMoveSpeed value) then InvalidNumeric
      else if spawn_entityKind value = EntityKind_StaticObstacle \<and>
         (\<not> F32_is_zero (spawn_velocityX value) \<or> \<not> F32_is_zero (spawn_velocityY value)) then InvalidNumeric
      else Success)"

definition EntitySpawn_v1_Encode ::
    "EntitySpawn_v1 \<Rightarrow> byte list \<Rightarrow> (WorldProtocolError \<times> byte list) option" where
  "EntitySpawn_v1_Encode value output =
     (if length output \<noteq> 50 then Some (InvalidLength, output)
      else if EntitySpawn_v1_Validate value \<noteq> Success then Some (EntitySpawn_v1_Validate value, output)
      else do {
        output \<leftarrow> WriteU16 PayloadVersion_v1 0 output;
        output \<leftarrow> WriteU32 (spawn_serverTick value) 2 output;
        output \<leftarrow> WriteU32 (spawn_entityId value) 6 output;
        output \<leftarrow> WriteU32 (spawn_generation value) 10 output;
        output \<leftarrow> WriteU16 (spawn_entityKind value) 14 output;
        output \<leftarrow> WriteU32 (spawn_archetypeId value) 16 output;
        output \<leftarrow> WriteU16 (spawn_primaryShapeKind value) 20 output;
        output \<leftarrow> WriteF32 (spawn_primaryCircleRadius value) 22 output;
        output \<leftarrow> WriteF32 (spawn_maxMoveSpeed value) 26 output;
        output \<leftarrow> WriteF32 (spawn_positionX value) 30 output;
        output \<leftarrow> WriteF32 (spawn_positionY value) 34 output;
        output \<leftarrow> WriteF32 (spawn_velocityX value) 38 output;
        output \<leftarrow> WriteF32 (spawn_velocityY value) 42 output;
        output \<leftarrow> WriteF32 (spawn_angleRadians value) 46 output;
        Some (Success, output) })"

definition EntitySpawn_v1_Decode ::
    "bool \<Rightarrow> byte list \<Rightarrow> (WorldProtocolError + EntitySpawn_v1) option" where
  "EntitySpawn_v1_Decode outValue payload =
     (if \<not> outValue then Some (Inl InvalidArgument)
      else if length payload \<noteq> 50 then Some (Inl InvalidLength)
      else do {
        version \<leftarrow> ReadU16 0 payload;
        if version \<noteq> PayloadVersion_v1 then Some (Inl UnsupportedVersion)
        else do {
          spawn_serverTick' \<leftarrow> ReadU32 2 payload;
          spawn_entityId' \<leftarrow> ReadU32 6 payload;
          spawn_generation' \<leftarrow> ReadU32 10 payload;
          spawn_entityKind' \<leftarrow> ReadU16 14 payload;
          spawn_archetypeId' \<leftarrow> ReadU32 16 payload;
          spawn_primaryShapeKind' \<leftarrow> ReadU16 20 payload;
          spawn_primaryCircleRadius' \<leftarrow> ReadF32 22 payload;
          spawn_maxMoveSpeed' \<leftarrow> ReadF32 26 payload;
          spawn_positionX' \<leftarrow> ReadF32 30 payload;
          spawn_positionY' \<leftarrow> ReadF32 34 payload;
          spawn_velocityX' \<leftarrow> ReadF32 38 payload;
          spawn_velocityY' \<leftarrow> ReadF32 42 payload;
          spawn_angleRadians' \<leftarrow> ReadF32 46 payload;
          let decoded = \<lparr>spawn_serverTick = spawn_serverTick', spawn_entityId = spawn_entityId',
              spawn_generation = spawn_generation', spawn_entityKind = spawn_entityKind',
              spawn_archetypeId = spawn_archetypeId',
              spawn_primaryShapeKind = spawn_primaryShapeKind',
              spawn_primaryCircleRadius = spawn_primaryCircleRadius',
              spawn_maxMoveSpeed = spawn_maxMoveSpeed', spawn_positionX = spawn_positionX',
              spawn_positionY = spawn_positionY', spawn_velocityX = spawn_velocityX',
              spawn_velocityY = spawn_velocityY', spawn_angleRadians = spawn_angleRadians'\<rparr>;
          if EntitySpawn_v1_Validate decoded \<noteq> Success then Some (Inl (EntitySpawn_v1_Validate decoded)) else Some (Inr decoded) } })"

definition EntitySpawn_v1_canonical :: "EntitySpawn_v1 \<Rightarrow> EntitySpawn_v1" where
  "EntitySpawn_v1_canonical v = v\<lparr>spawn_primaryCircleRadius := F32_normalize (spawn_primaryCircleRadius v),
      spawn_maxMoveSpeed := F32_normalize (spawn_maxMoveSpeed v),
      spawn_positionX := F32_normalize (spawn_positionX v),
      spawn_positionY := F32_normalize (spawn_positionY v),
      spawn_velocityX := F32_normalize (spawn_velocityX v),
      spawn_velocityY := F32_normalize (spawn_velocityY v),
      spawn_angleRadians := F32_normalize (spawn_angleRadians v)\<rparr>"

lemma EntitySpawn_v1_rebuild [simp]: "\<lparr>spawn_serverTick = spawn_serverTick v, spawn_entityId = spawn_entityId v,
      spawn_generation = spawn_generation v, spawn_entityKind = spawn_entityKind v,
      spawn_archetypeId = spawn_archetypeId v, spawn_primaryShapeKind = spawn_primaryShapeKind v,
      spawn_primaryCircleRadius = F32_normalize (spawn_primaryCircleRadius v),
      spawn_maxMoveSpeed = F32_normalize (spawn_maxMoveSpeed v),
      spawn_positionX = F32_normalize (spawn_positionX v),
      spawn_positionY = F32_normalize (spawn_positionY v),
      spawn_velocityX = F32_normalize (spawn_velocityX v),
      spawn_velocityY = F32_normalize (spawn_velocityY v),
      spawn_angleRadians = F32_normalize (spawn_angleRadians v)\<rparr> = EntitySpawn_v1_canonical v"
  by (cases v) (simp add: EntitySpawn_v1_canonical_def)

lemma EntitySpawn_v1_Validate_canonical [simp]: "EntitySpawn_v1_Validate (EntitySpawn_v1_canonical v) = EntitySpawn_v1_Validate v"
  by (simp add: EntitySpawn_v1_Validate_def EntitySpawn_v1_canonical_def)

interpretation entity_spawn_v1: wire_message EntitySpawn_v1_Encode EntitySpawn_v1_Decode
  "\<lambda>v. EntitySpawn_v1_Validate v = Success" "\<lambda>v. 50" EntitySpawn_v1_canonical
proof
  fix v :: EntitySpawn_v1 and dst :: "byte list"
  assume "EntitySpawn_v1_Validate v = Success" "length dst = 50"
  then show "\<exists>bytes. EntitySpawn_v1_Encode v dst = Some (Success, bytes) \<and> length bytes = length dst \<and>
      EntitySpawn_v1_Decode True bytes = Some (Inr (EntitySpawn_v1_canonical v))"
    by (simp add: EntitySpawn_v1_Encode_def EntitySpawn_v1_Decode_def wire_simps wrote_all Let_def)
qed (auto simp: EntitySpawn_v1_Encode_def EntitySpawn_v1_Decode_def EntitySpawn_v1_canonical_def wire_simps Let_def split: if_splits)

end
