(* ===== verification/WsStateMessages.thy ===== *)
theory WsStateMessages imports WsServerMessages begin

text \<open>
  The messages of variable size that the World server sends, but for the overview: the second
  versions of \<^verbatim>\<open>WorldReady.h\<close> and \<^verbatim>\<open>EntitySpawn.h\<close> with a display name, the second version of
  \<^verbatim>\<open>ControlledEntityState.h\<close> with a body trail, \<^verbatim>\<open>RoundResult.h\<close> with its winners, and both
  versions of \<^verbatim>\<open>EntityStateBatch.h\<close>.
\<close>

section \<open>WorldReady, version 2\<close>

record WorldReady_v2 =
  ready2_playerId :: u32
  ready2_controlledEntityId :: u32
  ready2_controlledEntityGeneration :: u32
  ready2_currentServerTick :: u32
  ready2_tickRateHz :: u32
  ready2_snapshotIntervalTicks :: u32
  ready2_commandSlackTicks :: u32
  ready2_arenaMinX :: f32
  ready2_arenaMinY :: f32
  ready2_arenaMaxX :: f32
  ready2_arenaMaxY :: f32
  ready2_channelId :: u32
  ready2_displayName :: "byte list"

definition DisplayName_payload_bytes :: "nat \<Rightarrow> byte list \<Rightarrow> nat" where
  "DisplayName_payload_bytes displayNameOffset displayName =
     (if length displayName \<le> MaximumPlayerDisplayNameBytes then displayNameOffset + length displayName else 0)"

definition WorldReady_v2_IsValidNumeric :: "WorldReady_v2 \<Rightarrow> bool" where
  "WorldReady_v2_IsValidNumeric value \<longleftrightarrow>
     ready2_playerId value \<noteq> 0 \<and>
     ready2_controlledEntityId value \<noteq> 0 \<and>
     ready2_controlledEntityGeneration value \<noteq> 0 \<and>
     ready2_tickRateHz value \<noteq> 0 \<and>
     ready2_snapshotIntervalTicks value \<noteq> 0 \<and>
     ready2_commandSlackTicks value \<noteq> 0 \<and>
     ready2_channelId value \<noteq> 0 \<and>
     F32_isfinite (ready2_arenaMinX value) \<and>
     F32_isfinite (ready2_arenaMinY value) \<and>
     F32_isfinite (ready2_arenaMaxX value) \<and>
     F32_isfinite (ready2_arenaMaxY value) \<and>
     F32_less (ready2_arenaMinX value) (ready2_arenaMaxX value) \<and> F32_less (ready2_arenaMinY value) (ready2_arenaMaxY value)"

definition WorldReady_v2_Encode :: "WorldReady_v2 \<Rightarrow> byte list \<Rightarrow> (WorldProtocolError \<times> byte list) option" where
  "WorldReady_v2_Encode value output =
     (let payloadBytes = DisplayName_payload_bytes 52 (ready2_displayName value) in
      if payloadBytes = 0 \<or> length output \<noteq> payloadBytes then Some (InvalidLength, output)
      else if \<not> WorldReady_v2_IsValidNumeric value then Some (InvalidNumeric, output)
      else if \<not> IsValidPlayerDisplayName (ready2_displayName value) then Some (InvalidArgument, output)
      else do {
        output \<leftarrow> WriteU16 PayloadVersion_v2 0 output;
        output \<leftarrow> WriteU32 (ready2_playerId value) 2 output;
        output \<leftarrow> WriteU32 (ready2_controlledEntityId value) 6 output;
        output \<leftarrow> WriteU32 (ready2_controlledEntityGeneration value) 10 output;
        output \<leftarrow> WriteU32 (ready2_currentServerTick value) 14 output;
        output \<leftarrow> WriteU32 (ready2_tickRateHz value) 18 output;
        output \<leftarrow> WriteU32 (ready2_snapshotIntervalTicks value) 22 output;
        output \<leftarrow> WriteU32 (ready2_commandSlackTicks value) 26 output;
        output \<leftarrow> WriteF32 (ready2_arenaMinX value) 30 output;
        output \<leftarrow> WriteF32 (ready2_arenaMinY value) 34 output;
        output \<leftarrow> WriteF32 (ready2_arenaMaxX value) 38 output;
        output \<leftarrow> WriteF32 (ready2_arenaMaxY value) 42 output;
        output \<leftarrow> WriteU32 (ready2_channelId value) 46 output;
        output \<leftarrow> WriteU16 (word_of_nat (length (ready2_displayName value))) 50 output;
        output \<leftarrow> write_bytes (ready2_displayName value) 52 output;
        Some (Success, output) })"

definition WorldReady_v2_Decode :: "bool \<Rightarrow> byte list \<Rightarrow> (WorldProtocolError + WorldReady_v2) option" where
  "WorldReady_v2_Decode outValue payload =
     (if \<not> outValue then Some (Inl InvalidArgument)
      else if length payload < 52 \<or> length payload > 52 + MaximumPlayerDisplayNameBytes then Some (Inl InvalidLength)
      else do {
        version \<leftarrow> ReadU16 0 payload;
        if version \<noteq> PayloadVersion_v2 then Some (Inl UnsupportedVersion)
        else do {
          displayNameByteCount \<leftarrow> ReadU16 50 payload;
          if unat displayNameByteCount \<noteq> length payload - 52 then Some (Inl InvalidLength)
          else if \<not> IsValidPlayerDisplayName (drop 52 payload) then Some (Inl InvalidArgument)
          else do {
            ready2_playerId' \<leftarrow> ReadU32 2 payload;
            ready2_controlledEntityId' \<leftarrow> ReadU32 6 payload;
            ready2_controlledEntityGeneration' \<leftarrow> ReadU32 10 payload;
            ready2_currentServerTick' \<leftarrow> ReadU32 14 payload;
            ready2_tickRateHz' \<leftarrow> ReadU32 18 payload;
            ready2_snapshotIntervalTicks' \<leftarrow> ReadU32 22 payload;
            ready2_commandSlackTicks' \<leftarrow> ReadU32 26 payload;
            ready2_arenaMinX' \<leftarrow> ReadF32 30 payload;
            ready2_arenaMinY' \<leftarrow> ReadF32 34 payload;
            ready2_arenaMaxX' \<leftarrow> ReadF32 38 payload;
            ready2_arenaMaxY' \<leftarrow> ReadF32 42 payload;
            ready2_channelId' \<leftarrow> ReadU32 46 payload;
            let decoded = \<lparr>ready2_playerId = ready2_playerId', ready2_controlledEntityId = ready2_controlledEntityId',
                ready2_controlledEntityGeneration = ready2_controlledEntityGeneration', ready2_currentServerTick = ready2_currentServerTick',
                ready2_tickRateHz = ready2_tickRateHz', ready2_snapshotIntervalTicks = ready2_snapshotIntervalTicks',
                ready2_commandSlackTicks = ready2_commandSlackTicks', ready2_arenaMinX = ready2_arenaMinX',
                ready2_arenaMinY = ready2_arenaMinY', ready2_arenaMaxX = ready2_arenaMaxX',
                ready2_arenaMaxY = ready2_arenaMaxY', ready2_channelId = ready2_channelId',
                ready2_displayName = drop 52 payload\<rparr>;
            if \<not> WorldReady_v2_IsValidNumeric decoded then Some (Inl InvalidNumeric) else Some (Inr decoded) } } })"

definition WorldReady_v2_canonical :: "WorldReady_v2 \<Rightarrow> WorldReady_v2" where
  "WorldReady_v2_canonical v = v\<lparr>ready2_arenaMinX := F32_normalize (ready2_arenaMinX v),
     ready2_arenaMinY := F32_normalize (ready2_arenaMinY v),
     ready2_arenaMaxX := F32_normalize (ready2_arenaMaxX v),
     ready2_arenaMaxY := F32_normalize (ready2_arenaMaxY v)\<rparr>"

interpretation world_ready_v2: wire_message WorldReady_v2_Encode WorldReady_v2_Decode
  "\<lambda>v. WorldReady_v2_IsValidNumeric v \<and> IsValidPlayerDisplayName (ready2_displayName v)"
  "\<lambda>v. 52 + length (ready2_displayName v)" WorldReady_v2_canonical
proof
  fix v :: WorldReady_v2 and dst :: "byte list"
  assume v: "WorldReady_v2_IsValidNumeric v \<and> IsValidPlayerDisplayName (ready2_displayName v)"
    and l: "length dst = 52 + length (ready2_displayName v)"
  have "length (ready2_displayName v) \<le> 48" using v IsValidPlayerDisplayName_length by blast
  then show "\<exists>bytes. WorldReady_v2_Encode v dst = Some (Success, bytes) \<and> length bytes = length dst \<and>
      WorldReady_v2_Decode True bytes = Some (Inr (WorldReady_v2_canonical v))"
    using v l by (simp add: WorldReady_v2_Encode_def WorldReady_v2_Decode_def DisplayName_payload_bytes_def
        MaximumPlayerDisplayNameBytes_def wire_simps wrote_all Let_def WorldReady_v2_IsValidNumeric_def
        WorldReady_v2_canonical_def)
qed (auto simp: WorldReady_v2_Encode_def WorldReady_v2_Decode_def wire_simps Let_def DisplayName_payload_bytes_def
    MaximumPlayerDisplayNameBytes_def IsValidPlayerDisplayName_length WorldReady_v2_canonical_def split: if_splits)

section \<open>EntitySpawn, version 2\<close>

text \<open>The first 50 bytes are the message of version 1 but for the version.\<close>

record EntitySpawn_v2 =
  spawn2_baseline :: EntitySpawn_v1
  spawn2_playerId :: u32
  spawn2_displayName :: "byte list"

definition EntitySpawn_v2_Validate :: "EntitySpawn_v2 \<Rightarrow> WorldProtocolError" where
  "EntitySpawn_v2_Validate value =
     (let baselineError = EntitySpawn_v1_Validate (spawn2_baseline value) in
      if baselineError \<noteq> Success then baselineError
      else if \<not> IsValidPlayerDisplayName (spawn2_displayName value) then InvalidArgument
      else
        let isPlayer = (spawn_entityKind (spawn2_baseline value) = EntityKind_Player) in
        if isPlayer \<and> spawn2_playerId value = 0 \<or>
           \<not> isPlayer \<and> (spawn2_playerId value \<noteq> 0 \<or> spawn2_displayName value \<noteq> []) then InvalidNumeric
        else Success)"

definition EntitySpawn_v2_Encode :: "EntitySpawn_v2 \<Rightarrow> byte list \<Rightarrow> (WorldProtocolError \<times> byte list) option" where
  "EntitySpawn_v2_Encode value output =
     (let payloadBytes = DisplayName_payload_bytes 56 (spawn2_displayName value) in
      if payloadBytes = 0 \<or> length output \<noteq> payloadBytes then Some (InvalidLength, output)
      else if EntitySpawn_v2_Validate value \<noteq> Success then Some (EntitySpawn_v2_Validate value, output)
      else do {
        (error, first) \<leftarrow> EntitySpawn_v1_Encode (spawn2_baseline value) (take 50 output);
        let output = first @ drop 50 output;
        if error \<noteq> Success then Some (InvalidNumeric, output)
        else do {
          output \<leftarrow> WriteU16 PayloadVersion_v2 0 output;
          output \<leftarrow> WriteU32 (spawn2_playerId value) 50 output;
          output \<leftarrow> WriteU16 (word_of_nat (length (spawn2_displayName value))) 54 output;
          output \<leftarrow> write_bytes (spawn2_displayName value) 56 output;
          Some (Success, output) } })"

definition EntitySpawn_v2_Decode :: "bool \<Rightarrow> byte list \<Rightarrow> (WorldProtocolError + EntitySpawn_v2) option" where
  "EntitySpawn_v2_Decode outValue payload =
     (if \<not> outValue then Some (Inl InvalidArgument)
      else if length payload < 56 \<or> length payload > 56 + MaximumPlayerDisplayNameBytes then Some (Inl InvalidLength)
      else do {
        version \<leftarrow> ReadU16 0 payload;
        if version \<noteq> PayloadVersion_v2 then Some (Inl UnsupportedVersion)
        else do {
          displayNameByteCount \<leftarrow> ReadU16 54 payload;
          if length payload \<noteq> 56 + unat displayNameByteCount then Some (Inl InvalidLength)
          else do {
            baselineBytes \<leftarrow> WriteU16 PayloadVersion_v1 0 (take 50 payload);
            baseline \<leftarrow> EntitySpawn_v1_Decode True baselineBytes;
            case baseline of Inl baselineError \<Rightarrow> Some (Inl baselineError)
            | Inr baseline \<Rightarrow> do {
                playerId \<leftarrow> ReadU32 50 payload;
                if \<not> IsValidPlayerDisplayName (drop 56 payload) then Some (Inl InvalidArgument)
                else
                  let decoded = \<lparr>spawn2_baseline = baseline, spawn2_playerId = playerId,
                      spawn2_displayName = drop 56 payload\<rparr> in
                  if EntitySpawn_v2_Validate decoded \<noteq> Success then Some (Inl (EntitySpawn_v2_Validate decoded))
                  else Some (Inr decoded) } } } })"

definition EntitySpawn_v2_canonical :: "EntitySpawn_v2 \<Rightarrow> EntitySpawn_v2" where
  "EntitySpawn_v2_canonical v = v\<lparr>spawn2_baseline := EntitySpawn_v1_canonical (spawn2_baseline v)\<rparr>"

lemma EntitySpawn_v1_version:
  assumes "EntitySpawn_v1_Decode True bytes = Some (Inr v)"
  obtains rest where "bytes = le16 PayloadVersion_v1 @ rest" "length rest = 48"
proof
  have l: "length bytes = 50" and r: "of_le16 (take 2 bytes) = PayloadVersion_v1"
    using assms by (simp_all add: EntitySpawn_v1_Decode_def wire_simps slice_def split: if_splits)
  have "take 2 bytes = le16 (of_le16 (take 2 bytes))" using l by (simp add: le16_of_le16)
  then show "bytes = le16 PayloadVersion_v1 @ drop 2 bytes" using r by (metis append_take_drop_id)
  show "length (drop 2 bytes) = 48" using l by simp
qed

lemma EntitySpawn_v2_Validate_Success:
  "EntitySpawn_v2_Validate v = Success \<Longrightarrow>
    EntitySpawn_v1_Validate (spawn2_baseline v) = Success \<and> IsValidPlayerDisplayName (spawn2_displayName v)"
  by (simp add: EntitySpawn_v2_Validate_def Let_def split: if_splits)

lemma EntitySpawn_v2_Validate_canonical [simp]:
  "EntitySpawn_v2_Validate (v\<lparr>spawn2_baseline := EntitySpawn_v1_canonical (spawn2_baseline v)\<rparr>) = EntitySpawn_v2_Validate v"
proof -
  have "spawn_entityKind (EntitySpawn_v1_canonical w) = spawn_entityKind w" for w by (simp add: EntitySpawn_v1_canonical_def)
  then show ?thesis by (simp add: EntitySpawn_v2_Validate_def Let_def)
qed

lemma EntitySpawn_v2_sent:
  assumes v: "EntitySpawn_v2_Validate v = Success" and l: "length dst = 56 + length (spawn2_displayName v)"
  shows "\<exists>bytes. EntitySpawn_v2_Encode v dst = Some (Success, bytes) \<and> length bytes = length dst \<and>
    EntitySpawn_v2_Decode True bytes = Some (Inr (EntitySpawn_v2_canonical v))"
proof -
  note ok = EntitySpawn_v2_Validate_Success [OF v]
  have n: "length (spawn2_displayName v) \<le> 48" using ok IsValidPlayerDisplayName_length by blast
  have "length (take 50 dst) = 50" using l by simp
  then obtain first where first: "EntitySpawn_v1_Encode (spawn2_baseline v) (take 50 dst) = Some (Success, first)"
      "length first = 50" "EntitySpawn_v1_Decode True first = Some (Inr (EntitySpawn_v1_canonical (spawn2_baseline v)))"
    using entity_spawn_v1.encode_ok [of "spawn2_baseline v" "take 50 dst"] ok by auto
  obtain rest where rest: "first = le16 PayloadVersion_v1 @ rest" "length rest = 48"
    using first(3) by (rule EntitySpawn_v1_version)
  define name where "name = spawn2_displayName v"
  let ?bytes = "le16 PayloadVersion_v2 @ rest @ le32 (spawn2_playerId v) @ le16 (word_of_nat (length name)) @ name"
  have start: "WriteU16 PayloadVersion_v2 0 (first @ drop 50 dst) = Some (wrote (le16 PayloadVersion_v2 @ rest) (first @ drop 50 dst))"
    using l rest by (simp add: WriteU16_start wrote_def)
  have enc: "EntitySpawn_v2_Encode v dst = Some (Success, ?bytes)"
    using v l n first start rest(2) by (simp add: EntitySpawn_v2_Encode_def DisplayName_payload_bytes_def
        MaximumPlayerDisplayNameBytes_def wire_simps wrote_all Let_def name_def)
  have base: "WriteU16 PayloadVersion_v1 0 (take 50 ?bytes) = Some first"
    using rest by (simp add: WriteU16_start wrote_def)
  have r: "\<lparr>spawn2_baseline = EntitySpawn_v1_canonical (spawn2_baseline v), spawn2_playerId = spawn2_playerId v,
      spawn2_displayName = spawn2_displayName v\<rparr> = v\<lparr>spawn2_baseline := EntitySpawn_v1_canonical (spawn2_baseline v)\<rparr>"
    by (cases v) simp
  have "EntitySpawn_v2_Decode True ?bytes = Some (Inr (EntitySpawn_v2_canonical v))"
    unfolding EntitySpawn_v2_Decode_def Let_def base
    using v ok n first(3) rest(2) by (simp add: MaximumPlayerDisplayNameBytes_def wire_simps name_def r
        EntitySpawn_v2_canonical_def)
  then show ?thesis using enc l rest(2) by (intro exI [of _ ?bytes]) (simp add: name_def)
qed

interpretation entity_spawn_v2: wire_message EntitySpawn_v2_Encode EntitySpawn_v2_Decode
  "\<lambda>v. EntitySpawn_v2_Validate v = Success" "\<lambda>v. 56 + length (spawn2_displayName v)" EntitySpawn_v2_canonical
proof
  fix v :: EntitySpawn_v2 and dst :: "byte list"
  assume "EntitySpawn_v2_Validate v = Success" "length dst = 56 + length (spawn2_displayName v)"
  then show "\<exists>bytes. EntitySpawn_v2_Encode v dst = Some (Success, bytes) \<and> length bytes = length dst \<and>
      EntitySpawn_v2_Decode True bytes = Some (Inr (EntitySpawn_v2_canonical v))"
    by (rule EntitySpawn_v2_sent)
next
  fix v :: EntitySpawn_v2 and dst :: "byte list"
  assume n: "\<not> (EntitySpawn_v2_Validate v = Success \<and> length dst = 56 + length (spawn2_displayName v))"
  have "length (spawn2_displayName v) \<le> 48" if "EntitySpawn_v2_Validate v = Success"
    using EntitySpawn_v2_Validate_Success [OF that] IsValidPlayerDisplayName_length by blast
  then show "\<exists>e. e \<noteq> Success \<and> EntitySpawn_v2_Encode v dst = Some (e, dst)"
    using n by (auto simp: EntitySpawn_v2_Encode_def DisplayName_payload_bytes_def MaximumPlayerDisplayNameBytes_def Let_def)
next
  fix out and bytes :: "byte list"
  obtain r where "EntitySpawn_v1_Decode True (wrote (le16 PayloadVersion_v1) (take 50 bytes)) = Some r"
    using entity_spawn_v1.decode_defined by blast
  then show "EntitySpawn_v2_Decode out bytes \<noteq> None"
    by (cases r) (auto simp: EntitySpawn_v2_Decode_def wire_simps Let_def WriteU16_start)
next
  show "EntitySpawn_v2_Decode False bytes = Some (Inl InvalidArgument)" for bytes
    by (simp add: EntitySpawn_v2_Decode_def)
next
  fix v :: EntitySpawn_v2 and bytes :: "byte list"
  assume d: "EntitySpawn_v2_Decode True bytes = Some (Inr v)"
  obtain r where r: "EntitySpawn_v1_Decode True (wrote (le16 PayloadVersion_v1) (take 50 bytes)) = Some r"
    using entity_spawn_v1.decode_defined by blast
  show "EntitySpawn_v2_Validate v = Success \<and> 56 + length (spawn2_displayName v) = length bytes \<and>
      EntitySpawn_v2_canonical v = v"
    using d r entity_spawn_v1.decode_ok by (cases r) (auto simp: EntitySpawn_v2_Decode_def wire_simps Let_def
        WriteU16_start EntitySpawn_v2_canonical_def split: if_splits)
next
  fix out e and bytes :: "byte list"
  assume d: "EntitySpawn_v2_Decode out bytes = Some (Inl e)"
  obtain r where r: "EntitySpawn_v1_Decode True (wrote (le16 PayloadVersion_v1) (take 50 bytes)) = Some r"
    using entity_spawn_v1.decode_defined by blast
  show "e \<noteq> Success"
    using d r entity_spawn_v1.decode_error by (cases r) (auto simp: EntitySpawn_v2_Decode_def wire_simps Let_def
        WriteU16_start split: if_splits)
qed

section \<open>RoundResult\<close>

record RoundResult =
  result_endTick :: u32
  result_roundId :: u32
  result_winningGrowthPoint :: u32
  result_recipientFinalGrowthPoint :: u32
  result_winnerPlayerIds :: "u32 list"

definition RoundResult_MaximumWinnerCount :: nat where
  "RoundResult_MaximumWinnerCount = (8186 - 20) div 4"

definition RoundResult_CalculatePayloadBytes :: "nat \<Rightarrow> nat" where
  "RoundResult_CalculatePayloadBytes winnerCount =
     (if winnerCount \<le> RoundResult_MaximumWinnerCount then 20 + winnerCount * 4 else 0)"

fun winners_ascend :: "u32 \<Rightarrow> u32 list \<Rightarrow> bool" where
  "winners_ascend previousPlayerId [] = True"
| "winners_ascend previousPlayerId (playerId # ids) =
     (if playerId = 0 \<or> playerId \<le> previousPlayerId then False else winners_ascend playerId ids)"

definition RoundResult_Validate :: "RoundResult \<Rightarrow> WorldProtocolError" where
  "RoundResult_Validate value =
     (if result_endTick value = 0 \<or> result_roundId value = 0 \<or>
         result_winnerPlayerIds value = [] \<and> result_winningGrowthPoint value \<noteq> 0 then InvalidNumeric
      else if \<not> winners_ascend 0 (result_winnerPlayerIds value) then InvalidNumeric
      else Success)"

definition RoundResult_Encode :: "RoundResult \<Rightarrow> byte list \<Rightarrow> (WorldProtocolError \<times> byte list) option" where
  "RoundResult_Encode value output =
     (let payloadBytes = RoundResult_CalculatePayloadBytes (length (result_winnerPlayerIds value)) in
      if payloadBytes = 0 \<or> length output \<noteq> payloadBytes then Some (InvalidLength, output)
      else if RoundResult_Validate value \<noteq> Success then Some (InvalidNumeric, output)
      else do {
        output \<leftarrow> WriteU16 PayloadVersion_v2 0 output;
        output \<leftarrow> WriteU32 (result_endTick value) 2 output;
        output \<leftarrow> WriteU32 (result_roundId value) 6 output;
        output \<leftarrow> WriteU32 (result_winningGrowthPoint value) 10 output;
        output \<leftarrow> WriteU32 (result_recipientFinalGrowthPoint value) 14 output;
        output \<leftarrow> WriteU16 (word_of_nat (length (result_winnerPlayerIds value))) 18 output;
        output \<leftarrow> write_each WriteU32 (\<lambda>r. 4) (result_winnerPlayerIds value) 20 output;
        Some (Success, output) })"

definition RoundResult_Decode :: "bool \<Rightarrow> byte list \<Rightarrow> (WorldProtocolError + RoundResult) option" where
  "RoundResult_Decode outValue payload =
     (if \<not> outValue then Some (Inl InvalidArgument)
      else if length payload < 20 \<or> length payload > 8186 then Some (Inl InvalidLength)
      else do {
        version \<leftarrow> ReadU16 0 payload;
        if version \<noteq> PayloadVersion_v2 then Some (Inl UnsupportedVersion)
        else do {
          winnerCount \<leftarrow> ReadU16 18 payload;
          if RoundResult_CalculatePayloadBytes (unat winnerCount) \<noteq> length payload then Some (Inl InvalidLength)
          else do {
            endTick \<leftarrow> ReadU32 2 payload;
            roundId \<leftarrow> ReadU32 6 payload;
            winning \<leftarrow> ReadU32 10 payload;
            recipientFinal \<leftarrow> ReadU32 14 payload;
            ids \<leftarrow> read_each ReadU32 4 (unat winnerCount) 20 payload;
            let decoded = \<lparr>result_endTick = endTick, result_roundId = roundId, result_winningGrowthPoint = winning,
                result_recipientFinalGrowthPoint = recipientFinal, result_winnerPlayerIds = ids\<rparr>;
            if RoundResult_Validate decoded \<noteq> Success then Some (Inl InvalidNumeric) else Some (Inr decoded) } } })"

lemma write_ids [wire_simps]:
  "offset = length bs \<Longrightarrow> offset + 4 * length ids \<le> length dst \<Longrightarrow>
    write_each WriteU32 (\<lambda>r. 4) ids offset (wrote bs dst) = Some (wrote (bs @ concat (map le32 ids)) dst)"
  by (rule write_each_wrote) (simp_all add: WriteU32_wrote sum_list_triv)

lemma length_ids [simp]: "length (concat (map le32 ids)) = 4 * length ids"
  by (simp add: length_concat_map [where width = "\<lambda>r. 4"] sum_list_triv)

lemma slice_eqI: "drop offset payload = x @ y \<Longrightarrow> length x = n \<Longrightarrow> slice offset n payload = x"
  by (simp add: slice_def)

lemma offset_room:
  assumes "drop offset payload = x @ y" "offset \<le> length payload"
  shows "offset + length x \<le> length payload"
proof -
  have "length payload - offset = length x + length y" using arg_cong [OF assms(1), of length] by simp
  then show ?thesis using assms(2) by simp
qed

lemma read_ids [wire_simps]:
  assumes "drop offset payload = concat (map le32 ids)" "offset \<le> length payload" "n = length ids"
  shows "read_each ReadU32 4 n offset payload = Some ids"
proof -
  have "ReadU32 i payload = Some r" if "drop i payload = le32 r @ p" "i \<le> length payload" for r i p
    using slice_eqI [OF that(1)] offset_room [OF that] by (simp add: ReadU32_slice)
  then have "read_each ReadU32 4 n offset payload = Some (map (\<lambda>r. r) ids)"
    using assms by (intro read_each_concat [where enc = le32 and p = "[]"]) simp_all
  then show ?thesis by simp
qed

lemma read_ids_defined:
  "offset + n * 4 \<le> length payload \<Longrightarrow> \<exists>ids. read_each ReadU32 4 n offset payload = Some ids \<and> length ids = n"
  using read_each_defined [of 4 payload ReadU32 "\<lambda>r. True" offset n] by (auto simp: ReadU32_slice)

lemma RoundResult_rebuild [simp]:
  "\<lparr>result_endTick = result_endTick v, result_roundId = result_roundId v,
    result_winningGrowthPoint = result_winningGrowthPoint v,
    result_recipientFinalGrowthPoint = result_recipientFinalGrowthPoint v,
    result_winnerPlayerIds = result_winnerPlayerIds v\<rparr> = v"
  by (cases v) simp

interpretation round_result: wire_message RoundResult_Encode RoundResult_Decode
  "\<lambda>v. RoundResult_Validate v = Success \<and> length (result_winnerPlayerIds v) \<le> RoundResult_MaximumWinnerCount"
  "\<lambda>v. 20 + 4 * length (result_winnerPlayerIds v)" "\<lambda>v. v"
proof
  fix v :: RoundResult and dst :: "byte list"
  assume "RoundResult_Validate v = Success \<and> length (result_winnerPlayerIds v) \<le> RoundResult_MaximumWinnerCount"
    "length dst = 20 + 4 * length (result_winnerPlayerIds v)"
  then show "\<exists>bytes. RoundResult_Encode v dst = Some (Success, bytes) \<and> length bytes = length dst \<and>
      RoundResult_Decode True bytes = Some (Inr v)"
    by (simp add: RoundResult_Encode_def RoundResult_Decode_def RoundResult_CalculatePayloadBytes_def
        RoundResult_MaximumWinnerCount_def wire_simps wrote_all Let_def)
next
  fix out and bytes :: "byte list"
  show "RoundResult_Decode out bytes \<noteq> None"
    using read_ids_defined [of 20 "unat (of_le16 (slice 18 2 bytes))" bytes]
    by (auto simp: RoundResult_Decode_def RoundResult_CalculatePayloadBytes_def wire_simps Let_def)
next
  fix v :: RoundResult and bytes :: "byte list"
  assume "RoundResult_Decode True bytes = Some (Inr v)"
  then show "(RoundResult_Validate v = Success \<and> length (result_winnerPlayerIds v) \<le> RoundResult_MaximumWinnerCount) \<and>
      20 + 4 * length (result_winnerPlayerIds v) = length bytes \<and> v = v"
    using read_ids_defined [of 20 "unat (of_le16 (slice 18 2 bytes))" bytes]
    by (auto simp: RoundResult_Decode_def RoundResult_CalculatePayloadBytes_def wire_simps Let_def split: if_splits)
next
  fix out e and bytes :: "byte list"
  assume "RoundResult_Decode out bytes = Some (Inl e)"
  then show "e \<noteq> Success"
    using read_ids_defined [of 20 "unat (of_le16 (slice 18 2 bytes))" bytes]
    by (auto simp: RoundResult_Decode_def RoundResult_CalculatePayloadBytes_def wire_simps Let_def split: if_splits)
qed (auto simp: RoundResult_Encode_def RoundResult_Decode_def RoundResult_CalculatePayloadBytes_def Let_def)

section \<open>Body samples\<close>

text \<open>\<^verbatim>\<open>ControlledEntityBodySample\<close>, \<^verbatim>\<open>EntityStateBodySample\<close> and \<^verbatim>\<open>WorldOverviewPoint\<close> have the same members and layout.\<close>

record BodySample =
  samplePositionX :: f32
  samplePositionY :: f32

definition WriteBodySample :: "BodySample \<Rightarrow> nat \<Rightarrow> byte list \<Rightarrow> byte list option" where
  "WriteBodySample sample offset output = do {
     output \<leftarrow> WriteF32 (samplePositionX sample) offset output;
     WriteF32 (samplePositionY sample) (offset + 4) output }"

definition ReadBodySample :: "nat \<Rightarrow> byte list \<Rightarrow> BodySample option" where
  "ReadBodySample offset payload = do {
     x \<leftarrow> ReadF32 offset payload;
     y \<leftarrow> ReadF32 (offset + 4) payload;
     Some \<lparr>samplePositionX = x, samplePositionY = y\<rparr> }"

definition BodySample_IsValid :: "BodySample \<Rightarrow> bool" where
  "BodySample_IsValid sample \<longleftrightarrow> F32_isfinite (samplePositionX sample) \<and> F32_isfinite (samplePositionY sample)"

definition BodySample_canonical :: "BodySample \<Rightarrow> BodySample" where
  "BodySample_canonical s = \<lparr>samplePositionX = F32_normalize (samplePositionX s),
     samplePositionY = F32_normalize (samplePositionY s)\<rparr>"

definition sample_bytes :: "BodySample \<Rightarrow> byte list" where
  "sample_bytes s = le_f32 (samplePositionX s) @ le_f32 (samplePositionY s)"

lemma length_sample_bytes [simp]: "length (sample_bytes s) = 8" by (simp add: sample_bytes_def)

lemma BodySample_canonical_simps [simp]:
  "BodySample_canonical (BodySample_canonical s) = BodySample_canonical s"
  "BodySample_IsValid (BodySample_canonical s) = BodySample_IsValid s"
  by (simp_all add: BodySample_canonical_def BodySample_IsValid_def)

lemma WriteBodySample_wrote [wire_simps]:
  "offset = length bs \<Longrightarrow> offset + 8 \<le> length dst \<Longrightarrow>
    WriteBodySample s offset (wrote bs dst) = Some (wrote (bs @ sample_bytes s) dst)"
  by (simp add: WriteBodySample_def sample_bytes_def WriteF32_wrote)

lemma write_samples [wire_simps]:
  "offset = length bs \<Longrightarrow> offset + 8 * length ss \<le> length dst \<Longrightarrow>
    write_each WriteBodySample (\<lambda>s. 8) ss offset (wrote bs dst) = Some (wrote (bs @ concat (map sample_bytes ss)) dst)"
  by (rule write_each_wrote) (simp_all add: WriteBodySample_wrote sum_list_triv)

lemma length_samples [simp]: "length (concat (map sample_bytes ss)) = 8 * length ss"
  by (simp add: length_concat_map [where width = "\<lambda>r. 8"] sum_list_triv)

lemma slice_next: "drop offset payload = x @ y \<Longrightarrow> length x \<le> k \<Longrightarrow> slice (offset + k) n payload = slice (k - length x) n y"
  by (simp add: slice_def add.commute flip: drop_drop)

lemma ReadBodySample_sent:
  assumes "drop offset payload = sample_bytes s @ p" "offset \<le> length payload"
  shows "ReadBodySample offset payload = Some (BodySample_canonical s)"
  using offset_room [OF assms] assms(1)
  by (simp add: ReadBodySample_def ReadF32_slice sample_bytes_def slice_eqI slice_next slice_here BodySample_canonical_def)

lemma read_samples:
  assumes "drop offset payload = concat (map sample_bytes ss) @ p" "offset \<le> length payload" "n = length ss"
  shows "read_each ReadBodySample 8 n offset payload = Some (map BodySample_canonical ss)"
  by (rule read_each_concat [where enc = sample_bytes and p = p]) (simp_all add: assms ReadBodySample_sent)

lemma read_samples_defined:
  "offset + n * 8 \<le> length payload \<Longrightarrow> \<exists>ss. read_each ReadBodySample 8 n offset payload = Some ss \<and> length ss = n \<and>
    (\<forall>s \<in> set ss. BodySample_canonical s = s)"
  by (rule read_each_defined) (simp_all add: ReadBodySample_def ReadF32_slice BodySample_canonical_def)

section \<open>ControlledEntityState, version 2\<close>

record ControlledEntityState_v2 =
  state2_serverTick :: u32
  state2_controlledEntityGeneration :: u32
  state2_lastProcessedControlSequence :: u32
  state2_headPositionX :: f32
  state2_headPositionY :: f32
  state2_headingRadians :: f32
  state2_diameter :: f32
  state2_growthPoint :: u32
  state2_boostState :: BoostState
  state2_bodyTrailSamples :: "BodySample list"

definition MaximumBodySampleCount :: nat where "MaximumBodySampleCount = (8186 - 38) div 8"

definition ControlledEntityState_v2_CalculatePayloadBytes :: "nat \<Rightarrow> nat" where
  "ControlledEntityState_v2_CalculatePayloadBytes bodySampleCount =
     (if bodySampleCount \<le> MaximumBodySampleCount then 38 + bodySampleCount * 8 else 0)"

definition ControlledEntityState_v2_IsValid :: "ControlledEntityState_v2 \<Rightarrow> bool" where
  "ControlledEntityState_v2_IsValid value \<longleftrightarrow>
     \<not> (state2_controlledEntityGeneration value = 0 \<or> \<not> F32_isfinite (state2_headPositionX value) \<or>
       \<not> F32_isfinite (state2_headPositionY value) \<or> \<not> F32_isfinite (state2_headingRadians value) \<or>
       \<not> F32_isfinite (state2_diameter value) \<or> F32_less_eq (state2_diameter value) 0 \<or>
       state2_bodyTrailSamples value = []) \<and>
     list_all BodySample_IsValid (state2_bodyTrailSamples value)"

definition ControlledEntityState_v2_Encode ::
    "ControlledEntityState_v2 \<Rightarrow> byte list \<Rightarrow> (WorldProtocolError \<times> byte list) option" where
  "ControlledEntityState_v2_Encode value output =
     (let bodySampleCount = length (state2_bodyTrailSamples value) in
      if bodySampleCount > MaximumBodySampleCount \<or>
         length output \<noteq> ControlledEntityState_v2_CalculatePayloadBytes bodySampleCount then Some (InvalidLength, output)
      else if state2_boostState value \<noteq> BoostState_Off \<and> state2_boostState value \<noteq> BoostState_On
      then Some (InvalidEnum, output)
      else if \<not> ControlledEntityState_v2_IsValid value then Some (InvalidNumeric, output)
      else do {
        output \<leftarrow> WriteU16 PayloadVersion_v2 0 output;
        output \<leftarrow> WriteU32 (state2_serverTick value) 2 output;
        output \<leftarrow> WriteU32 (state2_controlledEntityGeneration value) 6 output;
        output \<leftarrow> WriteU32 (state2_lastProcessedControlSequence value) 10 output;
        output \<leftarrow> WriteF32 (state2_headPositionX value) 14 output;
        output \<leftarrow> WriteF32 (state2_headPositionY value) 18 output;
        output \<leftarrow> WriteF32 (state2_headingRadians value) 22 output;
        output \<leftarrow> WriteF32 (state2_diameter value) 26 output;
        output \<leftarrow> WriteU32 (state2_growthPoint value) 30 output;
        output \<leftarrow> WriteU16 (state2_boostState value) 34 output;
        output \<leftarrow> WriteU16 (word_of_nat bodySampleCount) 36 output;
        output \<leftarrow> write_each WriteBodySample (\<lambda>s. 8) (state2_bodyTrailSamples value) 38 output;
        Some (Success, output) })"

definition ControlledEntityState_v2_Decode ::
    "bool \<Rightarrow> byte list \<Rightarrow> (WorldProtocolError + ControlledEntityState_v2) option" where
  "ControlledEntityState_v2_Decode outValue payload =
     (if \<not> outValue then Some (Inl InvalidArgument)
      else if length payload < 38 then Some (Inl InvalidLength)
      else do {
        version \<leftarrow> ReadU16 0 payload;
        if version \<noteq> PayloadVersion_v2 then Some (Inl UnsupportedVersion)
        else do {
          bodySampleCount \<leftarrow> ReadU16 36 payload;
          if unat bodySampleCount > MaximumBodySampleCount \<or>
             length payload \<noteq> ControlledEntityState_v2_CalculatePayloadBytes (unat bodySampleCount)
          then Some (Inl InvalidLength)
          else do {
            serverTick' \<leftarrow> ReadU32 2 payload;
            generation \<leftarrow> ReadU32 6 payload;
            sequence \<leftarrow> ReadU32 10 payload;
            headX \<leftarrow> ReadF32 14 payload;
            headY \<leftarrow> ReadF32 18 payload;
            heading \<leftarrow> ReadF32 22 payload;
            diameter' \<leftarrow> ReadF32 26 payload;
            growthPoint' \<leftarrow> ReadU32 30 payload;
            boost \<leftarrow> ReadU16 34 payload;
            if boost \<noteq> BoostState_Off \<and> boost \<noteq> BoostState_On then Some (Inl InvalidEnum)
            else do {
              samples \<leftarrow> read_each ReadBodySample 8 (unat bodySampleCount) 38 payload;
              let decoded = \<lparr>state2_serverTick = serverTick', state2_controlledEntityGeneration = generation,
                  state2_lastProcessedControlSequence = sequence, state2_headPositionX = headX,
                  state2_headPositionY = headY, state2_headingRadians = heading, state2_diameter = diameter',
                  state2_growthPoint = growthPoint', state2_boostState = boost, state2_bodyTrailSamples = samples\<rparr>;
              if \<not> ControlledEntityState_v2_IsValid decoded then Some (Inl InvalidNumeric)
              else Some (Inr decoded) } } } })"

definition ControlledEntityState_v2_canonical :: "ControlledEntityState_v2 \<Rightarrow> ControlledEntityState_v2" where
  "ControlledEntityState_v2_canonical v =
     v\<lparr>state2_headPositionX := F32_normalize (state2_headPositionX v),
       state2_headPositionY := F32_normalize (state2_headPositionY v),
       state2_headingRadians := F32_normalize (state2_headingRadians v),
       state2_diameter := F32_normalize (state2_diameter v),
       state2_bodyTrailSamples := map BodySample_canonical (state2_bodyTrailSamples v)\<rparr>"

definition ControlledEntityState_v2_ok :: "ControlledEntityState_v2 \<Rightarrow> bool" where
  "ControlledEntityState_v2_ok v \<longleftrightarrow> ControlledEntityState_v2_IsValid v \<and>
     (state2_boostState v = BoostState_Off \<or> state2_boostState v = BoostState_On) \<and>
     length (state2_bodyTrailSamples v) \<le> MaximumBodySampleCount"

lemma list_all_canonical [simp]: "list_all BodySample_IsValid (map BodySample_canonical ss) = list_all BodySample_IsValid ss"
  by (simp add: list.pred_map comp_def)

lemma map_canonical_id: "\<forall>s \<in> set ss. BodySample_canonical s = s \<Longrightarrow> map BodySample_canonical ss = ss"
  by (simp add: map_idI)

interpretation controlled_entity_state_v2: wire_message ControlledEntityState_v2_Encode ControlledEntityState_v2_Decode
  ControlledEntityState_v2_ok "\<lambda>v. 38 + 8 * length (state2_bodyTrailSamples v)" ControlledEntityState_v2_canonical
proof
  fix v :: ControlledEntityState_v2 and dst :: "byte list"
  assume v: "ControlledEntityState_v2_ok v" "length dst = 38 + 8 * length (state2_bodyTrailSamples v)"
  have n: "length (state2_bodyTrailSamples v) < 65536"
    using v(1) by (simp add: ControlledEntityState_v2_ok_def MaximumBodySampleCount_def)
  show "\<exists>bytes. ControlledEntityState_v2_Encode v dst = Some (Success, bytes) \<and> length bytes = length dst \<and>
      ControlledEntityState_v2_Decode True bytes = Some (Inr (ControlledEntityState_v2_canonical v))"
    using v n by (auto simp: ControlledEntityState_v2_Encode_def ControlledEntityState_v2_Decode_def
        ControlledEntityState_v2_CalculatePayloadBytes_def ControlledEntityState_v2_IsValid_def
        ControlledEntityState_v2_ok_def ControlledEntityState_v2_canonical_def wire_simps wrote_all Let_def
        read_samples [where ss = "state2_bodyTrailSamples v" and p = "[]"])
next
  fix out and bytes :: "byte list"
  show "ControlledEntityState_v2_Decode out bytes \<noteq> None"
    using read_samples_defined [of 38 "unat (of_le16 (slice 36 2 bytes))" bytes]
    by (auto simp: ControlledEntityState_v2_Decode_def ControlledEntityState_v2_CalculatePayloadBytes_def wire_simps Let_def)
next
  fix v :: ControlledEntityState_v2 and bytes :: "byte list"
  assume "ControlledEntityState_v2_Decode True bytes = Some (Inr v)"
  then show "ControlledEntityState_v2_ok v \<and> 38 + 8 * length (state2_bodyTrailSamples v) = length bytes \<and>
      ControlledEntityState_v2_canonical v = v"
    using read_samples_defined [of 38 "unat (of_le16 (slice 36 2 bytes))" bytes]
    by (auto simp: ControlledEntityState_v2_Decode_def ControlledEntityState_v2_CalculatePayloadBytes_def wire_simps
        Let_def ControlledEntityState_v2_ok_def ControlledEntityState_v2_canonical_def map_canonical_id split: if_splits)
next
  fix out e and bytes :: "byte list"
  assume "ControlledEntityState_v2_Decode out bytes = Some (Inl e)"
  then show "e \<noteq> Success"
    using read_samples_defined [of 38 "unat (of_le16 (slice 36 2 bytes))" bytes]
    by (auto simp: ControlledEntityState_v2_Decode_def ControlledEntityState_v2_CalculatePayloadBytes_def wire_simps
        Let_def split: if_splits)
qed (auto simp: ControlledEntityState_v2_Encode_def ControlledEntityState_v2_Decode_def Let_def
    ControlledEntityState_v2_CalculatePayloadBytes_def ControlledEntityState_v2_ok_def)

end
