(* ===== verification/WsBatchMessages.thy ===== *)
theory WsBatchMessages imports WsStateMessages begin

text \<open>
  \<^verbatim>\<open>EntityStateBatch.h\<close>: the authoritative state of the entities near a client, in version 1
  (records of fixed size) and in version 2 (records with a body trail, split into chunks).
\<close>

section \<open>EntityStateBatch, version 1\<close>

record EntityStateRecord_v1 =
  record_entityId :: u32
  record_generation :: u32
  record_positionX :: f32
  record_positionY :: f32
  record_velocityX :: f32
  record_velocityY :: f32
  record_angleRadians :: f32

record EntityStateBatch_v1 =
  batch_serverTick :: u32
  batch_records :: "EntityStateRecord_v1 list"

definition EntityStateBatch_v1_CalculatePayloadBytes :: "nat \<Rightarrow> nat" where
  "EntityStateBatch_v1_CalculatePayloadBytes recordCount = (if recordCount \<le> 292 then 8 + recordCount * 28 else 0)"

definition EntityStateRecord_v1_IsValid :: "EntityStateRecord_v1 \<Rightarrow> bool" where
  "EntityStateRecord_v1_IsValid value \<longleftrightarrow>
     record_entityId value \<noteq> 0 \<and> record_generation value \<noteq> 0 \<and> F32_isfinite (record_positionX value) \<and>
     F32_isfinite (record_positionY value) \<and> F32_isfinite (record_velocityX value) \<and>
     F32_isfinite (record_velocityY value) \<and> F32_isfinite (record_angleRadians value)"

fun EntityStateBatch_v1_AreValid :: "EntityStateRecord_v1 list \<Rightarrow> bool" where
  "EntityStateBatch_v1_AreValid [] = True"
| "EntityStateBatch_v1_AreValid (r # rs) =
     (if \<not> EntityStateRecord_v1_IsValid r then False else EntityStateBatch_v1_AreValid rs)"

definition EntityStateBatch_v1_Validate :: "EntityStateRecord_v1 list \<Rightarrow> WorldProtocolError" where
  "EntityStateBatch_v1_Validate records =
     (if length records > 292 then InvalidLength
      else if records = [] \<or> \<not> EntityStateBatch_v1_AreValid records then InvalidNumeric
      else Success)"

definition EntityStateRecord_v1_Write :: "EntityStateRecord_v1 \<Rightarrow> nat \<Rightarrow> byte list \<Rightarrow> byte list option" where
  "EntityStateRecord_v1_Write r offset output = do {
     output \<leftarrow> WriteU32 (record_entityId r) offset output;
     output \<leftarrow> WriteU32 (record_generation r) (offset + 4) output;
     output \<leftarrow> WriteF32 (record_positionX r) (offset + 8) output;
     output \<leftarrow> WriteF32 (record_positionY r) (offset + 12) output;
     output \<leftarrow> WriteF32 (record_velocityX r) (offset + 16) output;
     output \<leftarrow> WriteF32 (record_velocityY r) (offset + 20) output;
     WriteF32 (record_angleRadians r) (offset + 24) output }"

definition EntityStateRecord_v1_Read :: "nat \<Rightarrow> byte list \<Rightarrow> EntityStateRecord_v1 option" where
  "EntityStateRecord_v1_Read offset payload = do {
     entityId' \<leftarrow> ReadU32 offset payload;
     generation \<leftarrow> ReadU32 (offset + 4) payload;
     positionX' \<leftarrow> ReadF32 (offset + 8) payload;
     positionY' \<leftarrow> ReadF32 (offset + 12) payload;
     velocityX' \<leftarrow> ReadF32 (offset + 16) payload;
     velocityY' \<leftarrow> ReadF32 (offset + 20) payload;
     angle \<leftarrow> ReadF32 (offset + 24) payload;
     Some \<lparr>record_entityId = entityId', record_generation = generation, record_positionX = positionX',
       record_positionY = positionY', record_velocityX = velocityX', record_velocityY = velocityY',
       record_angleRadians = angle\<rparr> }"

definition EntityStateBatch_v1_Encode ::
    "EntityStateBatch_v1 \<Rightarrow> byte list \<Rightarrow> (WorldProtocolError \<times> byte list) option" where
  "EntityStateBatch_v1_Encode value output =
     (let recordCount = length (batch_records value) in
      if recordCount > 292 then Some (InvalidLength, output)
      else if length output \<noteq> EntityStateBatch_v1_CalculatePayloadBytes recordCount then Some (InvalidLength, output)
      else if EntityStateBatch_v1_Validate (batch_records value) \<noteq> Success
      then Some (EntityStateBatch_v1_Validate (batch_records value), output)
      else do {
        output \<leftarrow> WriteU16 PayloadVersion_v1 0 output;
        output \<leftarrow> WriteU16 (word_of_nat recordCount) 2 output;
        output \<leftarrow> WriteU32 (batch_serverTick value) 4 output;
        output \<leftarrow> write_each EntityStateRecord_v1_Write (\<lambda>r. 28) (batch_records value) 8 output;
        Some (Success, output) })"

definition EntityStateBatch_v1_Decode :: "bool \<Rightarrow> byte list \<Rightarrow> (WorldProtocolError + EntityStateBatch_v1) option" where
  "EntityStateBatch_v1_Decode outValue payload =
     (if \<not> outValue then Some (Inl InvalidArgument)
      else if length payload < 8 then Some (Inl InvalidLength)
      else do {
        version \<leftarrow> ReadU16 0 payload;
        if version \<noteq> PayloadVersion_v1 then Some (Inl UnsupportedVersion)
        else do {
          recordCount \<leftarrow> ReadU16 2 payload;
          if unat recordCount > 292 then Some (Inl InvalidLength)
          else if length payload \<noteq> EntityStateBatch_v1_CalculatePayloadBytes (unat recordCount)
          then Some (Inl InvalidLength)
          else if recordCount = 0 then Some (Inl InvalidNumeric)
          else do {
            tick \<leftarrow> ReadU32 4 payload;
            records \<leftarrow> read_each EntityStateRecord_v1_Read 28 (unat recordCount) 8 payload;
            if \<not> EntityStateBatch_v1_AreValid records then Some (Inl InvalidNumeric)
            else Some (Inr \<lparr>batch_serverTick = tick, batch_records = records\<rparr>) } } })"

definition EntityStateRecord_v1_canonical :: "EntityStateRecord_v1 \<Rightarrow> EntityStateRecord_v1" where
  "EntityStateRecord_v1_canonical r =
     r\<lparr>record_positionX := F32_normalize (record_positionX r), record_positionY := F32_normalize (record_positionY r),
       record_velocityX := F32_normalize (record_velocityX r), record_velocityY := F32_normalize (record_velocityY r),
       record_angleRadians := F32_normalize (record_angleRadians r)\<rparr>"

definition EntityStateBatch_v1_canonical :: "EntityStateBatch_v1 \<Rightarrow> EntityStateBatch_v1" where
  "EntityStateBatch_v1_canonical v = v\<lparr>batch_records := map EntityStateRecord_v1_canonical (batch_records v)\<rparr>"

definition record_bytes :: "EntityStateRecord_v1 \<Rightarrow> byte list" where
  "record_bytes r = le32 (record_entityId r) @ le32 (record_generation r) @ le_f32 (record_positionX r) @
     le_f32 (record_positionY r) @ le_f32 (record_velocityX r) @ le_f32 (record_velocityY r) @
     le_f32 (record_angleRadians r)"

lemma length_record_bytes [simp]: "length (record_bytes r) = 28" by (simp add: record_bytes_def)

lemma length_records [simp]: "length (concat (map record_bytes rs)) = 28 * length rs"
  by (simp add: length_concat_map [where width = "\<lambda>r. 28"] sum_list_triv)

lemma write_records [wire_simps]:
  "offset = length bs \<Longrightarrow> offset + 28 * length rs \<le> length dst \<Longrightarrow>
    write_each EntityStateRecord_v1_Write (\<lambda>r. 28) rs offset (wrote bs dst) = Some (wrote (bs @ concat (map record_bytes rs)) dst)"
  by (rule write_each_wrote) (simp_all add: EntityStateRecord_v1_Write_def record_bytes_def wire_simps sum_list_triv)

lemma EntityStateRecord_v1_sent:
  assumes "drop offset payload = record_bytes r @ p" "offset \<le> length payload"
  shows "EntityStateRecord_v1_Read offset payload = Some (EntityStateRecord_v1_canonical r)"
  using offset_room [OF assms] assms(1)
  by (simp add: EntityStateRecord_v1_Read_def ReadF32_slice ReadU32_slice record_bytes_def slice_eqI slice_next slice_here
      slice_skip EntityStateRecord_v1_canonical_def)

lemma read_records:
  assumes "drop offset payload = concat (map record_bytes rs) @ p" "offset \<le> length payload" "n = length rs"
  shows "read_each EntityStateRecord_v1_Read 28 n offset payload = Some (map EntityStateRecord_v1_canonical rs)"
  by (rule read_each_concat [where enc = record_bytes and p = p]) (simp_all add: assms EntityStateRecord_v1_sent)

lemma read_records_defined:
  "offset + n * 28 \<le> length payload \<Longrightarrow>
    \<exists>rs. read_each EntityStateRecord_v1_Read 28 n offset payload = Some rs \<and> length rs = n \<and>
      (\<forall>r \<in> set rs. EntityStateRecord_v1_canonical r = r)"
  by (rule read_each_defined) (simp_all add: EntityStateRecord_v1_Read_def ReadF32_slice ReadU32_slice EntityStateRecord_v1_canonical_def)

lemma AreValid_canonical [simp]:
  "EntityStateBatch_v1_AreValid (map EntityStateRecord_v1_canonical rs) = EntityStateBatch_v1_AreValid rs"
  by (induction rs) (simp_all add: EntityStateRecord_v1_IsValid_def EntityStateRecord_v1_canonical_def)

lemma EntityStateBatch_v1_rebuild [simp]:
  "\<lparr>batch_serverTick = batch_serverTick v, batch_records = map EntityStateRecord_v1_canonical (batch_records v)\<rparr> =
    EntityStateBatch_v1_canonical v"
  by (cases v) (simp add: EntityStateBatch_v1_canonical_def)

interpretation entity_state_batch_v1: wire_message EntityStateBatch_v1_Encode EntityStateBatch_v1_Decode
  "\<lambda>v. EntityStateBatch_v1_Validate (batch_records v) = Success" "\<lambda>v. 8 + 28 * length (batch_records v)"
  EntityStateBatch_v1_canonical
proof
  fix v :: EntityStateBatch_v1 and dst :: "byte list"
  assume "EntityStateBatch_v1_Validate (batch_records v) = Success" "length dst = 8 + 28 * length (batch_records v)"
  then show "\<exists>bytes. EntityStateBatch_v1_Encode v dst = Some (Success, bytes) \<and> length bytes = length dst \<and>
      EntityStateBatch_v1_Decode True bytes = Some (Inr (EntityStateBatch_v1_canonical v))"
    by (auto simp: EntityStateBatch_v1_Encode_def EntityStateBatch_v1_Decode_def EntityStateBatch_v1_Validate_def
        EntityStateBatch_v1_CalculatePayloadBytes_def wire_simps wrote_all Let_def unat_eq_0 [symmetric]
        read_records [where rs = "batch_records v" and p = "[]"] split: if_splits)
next
  fix out and bytes :: "byte list"
  show "EntityStateBatch_v1_Decode out bytes \<noteq> None"
    using read_records_defined [of 8 "unat (of_le16 (slice 2 2 bytes))" bytes]
    by (auto simp: EntityStateBatch_v1_Decode_def EntityStateBatch_v1_CalculatePayloadBytes_def wire_simps Let_def)
next
  fix v :: EntityStateBatch_v1 and bytes :: "byte list"
  assume "EntityStateBatch_v1_Decode True bytes = Some (Inr v)"
  then show "EntityStateBatch_v1_Validate (batch_records v) = Success \<and> 8 + 28 * length (batch_records v) = length bytes \<and>
      EntityStateBatch_v1_canonical v = v"
    using read_records_defined [of 8 "unat (of_le16 (slice 2 2 bytes))" bytes]
    by (auto simp: EntityStateBatch_v1_Decode_def EntityStateBatch_v1_CalculatePayloadBytes_def wire_simps Let_def
        EntityStateBatch_v1_Validate_def EntityStateBatch_v1_canonical_def unat_eq_0 [symmetric] intro!: map_idI split: if_splits)
next
  fix out e and bytes :: "byte list"
  assume "EntityStateBatch_v1_Decode out bytes = Some (Inl e)"
  then show "e \<noteq> Success"
    using read_records_defined [of 8 "unat (of_le16 (slice 2 2 bytes))" bytes]
    by (auto simp: EntityStateBatch_v1_Decode_def EntityStateBatch_v1_CalculatePayloadBytes_def wire_simps Let_def split: if_splits)
qed (auto simp: EntityStateBatch_v1_Encode_def EntityStateBatch_v1_Decode_def Let_def
    EntityStateBatch_v1_CalculatePayloadBytes_def EntityStateBatch_v1_Validate_def)

section \<open>EntityStateBatch, version 2\<close>

record EntityStateRecord_v2 =
  trail_entityId :: u32
  trail_generation :: u32
  trail_headPositionX :: f32
  trail_headPositionY :: f32
  trail_headingRadians :: f32
  trail_diameter :: f32
  trail_growthPoint :: u32
  trail_boostState :: BoostState
  trail_bodyTrailSamples :: "BodySample list"

record EntityStateBatch_v2 =
  batch2_serverTick :: u32
  batch2_snapshotId :: u32
  batch2_chunkIndex :: u16
  batch2_chunkCount :: u16
  batch2_records :: "EntityStateRecord_v2 list"

abbreviation trail_width :: "EntityStateRecord_v2 \<Rightarrow> nat" where
  "trail_width r \<equiv> 32 + length (trail_bodyTrailSamples r) * 8"

text \<open>
  \<^verbatim>\<open>CalculatePayloadBytes\<close> with the bytes counted so far. Its subtraction is that of
  \<^verbatim>\<open>std::size_t\<close>: it wraps when a record without samples has made the count exceed the maximum.
\<close>

fun EntityStateBatch_v2_CalculatePayloadBytes :: "nat \<Rightarrow> EntityStateRecord_v2 list \<Rightarrow> nat" where
  "EntityStateBatch_v2_CalculatePayloadBytes payloadBytes [] = payloadBytes"
| "EntityStateBatch_v2_CalculatePayloadBytes payloadBytes (r # rs) =
     (if length (trail_bodyTrailSamples r) > 65535 then 0
      else
        let remainingBytes = (8186 + 2 ^ 64 - payloadBytes) mod 2 ^ 64;
            maximumSamples = (if remainingBytes \<ge> 32 then (remainingBytes - 32) div 8 else 0) in
        if length (trail_bodyTrailSamples r) > maximumSamples then 0
        else EntityStateBatch_v2_CalculatePayloadBytes (payloadBytes + trail_width r) rs)"

definition EntityStateRecord_v2_Validate :: "EntityStateRecord_v2 \<Rightarrow> WorldProtocolError" where
  "EntityStateRecord_v2_Validate record =
     (if trail_boostState record \<noteq> BoostState_Off \<and> trail_boostState record \<noteq> BoostState_On then InvalidEnum
      else if trail_entityId record = 0 \<or> trail_generation record = 0 \<or> \<not> F32_isfinite (trail_headPositionX record) \<or>
         \<not> F32_isfinite (trail_headPositionY record) \<or> \<not> F32_isfinite (trail_headingRadians record) \<or>
         \<not> F32_isfinite (trail_diameter record) \<or> F32_less_eq (trail_diameter record) 0 \<or>
         trail_bodyTrailSamples record = [] then InvalidNumeric
      else if \<not> list_all BodySample_IsValid (trail_bodyTrailSamples record) then InvalidNumeric
      else Success)"

fun EntityStateRecords_v2_Validate :: "EntityStateRecord_v2 list \<Rightarrow> WorldProtocolError" where
  "EntityStateRecords_v2_Validate [] = Success"
| "EntityStateRecords_v2_Validate (r # rs) =
     (if EntityStateRecord_v2_Validate r \<noteq> Success then EntityStateRecord_v2_Validate r
      else EntityStateRecords_v2_Validate rs)"

definition EntityStateBatch_v2_Validate :: "EntityStateBatch_v2 \<Rightarrow> WorldProtocolError" where
  "EntityStateBatch_v2_Validate value =
     (if batch2_snapshotId value = 0 \<or> batch2_chunkCount value = 0 \<or> batch2_chunkIndex value \<ge> batch2_chunkCount value
      then InvalidNumeric
      else EntityStateRecords_v2_Validate (batch2_records value))"

definition EntityStateRecord_v2_Write :: "EntityStateRecord_v2 \<Rightarrow> nat \<Rightarrow> byte list \<Rightarrow> byte list option" where
  "EntityStateRecord_v2_Write r offset output = do {
     output \<leftarrow> WriteU32 (trail_entityId r) offset output;
     output \<leftarrow> WriteU32 (trail_generation r) (offset + 4) output;
     output \<leftarrow> WriteF32 (trail_headPositionX r) (offset + 8) output;
     output \<leftarrow> WriteF32 (trail_headPositionY r) (offset + 12) output;
     output \<leftarrow> WriteF32 (trail_headingRadians r) (offset + 16) output;
     output \<leftarrow> WriteF32 (trail_diameter r) (offset + 20) output;
     output \<leftarrow> WriteU32 (trail_growthPoint r) (offset + 24) output;
     output \<leftarrow> WriteU16 (trail_boostState r) (offset + 28) output;
     output \<leftarrow> WriteU16 (word_of_nat (length (trail_bodyTrailSamples r))) (offset + 30) output;
     write_each WriteBodySample (\<lambda>s. 8) (trail_bodyTrailSamples r) (offset + 32) output }"

definition EntityStateRecord_v2_Read :: "nat \<Rightarrow> u16 \<Rightarrow> byte list \<Rightarrow> EntityStateRecord_v2 option" where
  "EntityStateRecord_v2_Read offset bodySampleCount payload = do {
     entityId' \<leftarrow> ReadU32 offset payload;
     generation \<leftarrow> ReadU32 (offset + 4) payload;
     headX \<leftarrow> ReadF32 (offset + 8) payload;
     headY \<leftarrow> ReadF32 (offset + 12) payload;
     heading \<leftarrow> ReadF32 (offset + 16) payload;
     diameter' \<leftarrow> ReadF32 (offset + 20) payload;
     growthPoint' \<leftarrow> ReadU32 (offset + 24) payload;
     boost \<leftarrow> ReadU16 (offset + 28) payload;
     samples \<leftarrow> read_each ReadBodySample 8 (unat bodySampleCount) (offset + 32) payload;
     Some \<lparr>trail_entityId = entityId', trail_generation = generation, trail_headPositionX = headX,
       trail_headPositionY = headY, trail_headingRadians = heading, trail_diameter = diameter',
       trail_growthPoint = growthPoint', trail_boostState = boost, trail_bodyTrailSamples = samples\<rparr> }"

definition EntityStateBatch_v2_Encode ::
    "EntityStateBatch_v2 \<Rightarrow> byte list \<Rightarrow> (WorldProtocolError \<times> byte list) option" where
  "EntityStateBatch_v2_Encode value output =
     (if batch2_records value = [] \<or> length (batch2_records value) > 65535 then Some (InvalidLength, output)
      else
        let payloadBytes = EntityStateBatch_v2_CalculatePayloadBytes 16 (batch2_records value) in
        if payloadBytes = 0 \<or> length output \<noteq> payloadBytes then Some (InvalidLength, output)
        else if EntityStateBatch_v2_Validate value \<noteq> Success then Some (EntityStateBatch_v2_Validate value, output)
        else do {
          output \<leftarrow> WriteU16 PayloadVersion_v2 0 output;
          output \<leftarrow> WriteU32 (batch2_serverTick value) 2 output;
          output \<leftarrow> WriteU32 (batch2_snapshotId value) 6 output;
          output \<leftarrow> WriteU16 (batch2_chunkIndex value) 10 output;
          output \<leftarrow> WriteU16 (batch2_chunkCount value) 12 output;
          output \<leftarrow> WriteU16 (word_of_nat (length (batch2_records value))) 14 output;
          output \<leftarrow> write_each EntityStateRecord_v2_Write trail_width (batch2_records value) 16 output;
          Some (Success, output) })"

text \<open>
  The loop over the records that are still to come; it returns the offset it has reached too. The
  offset never exceeds the size of the payload, so that the subtractions do not wrap.
\<close>

fun read_trail_records ::
    "nat \<Rightarrow> nat \<Rightarrow> byte list \<Rightarrow> (WorldProtocolError + EntityStateRecord_v2 list \<times> nat) option" where
  "read_trail_records 0 offset payload = Some (Inr ([], offset))"
| "read_trail_records (Suc n) offset payload =
     (if length payload - offset < 32 then Some (Inl InvalidLength)
      else do {
        bodySampleCount \<leftarrow> ReadU16 (offset + 30) payload;
        let remainingBytes = length payload - offset - 32;
        if bodySampleCount = 0 \<or> unat bodySampleCount > remainingBytes div 8 then Some (Inl InvalidLength)
        else do {
          record \<leftarrow> EntityStateRecord_v2_Read offset bodySampleCount payload;
          rest \<leftarrow> read_trail_records n (offset + (32 + unat bodySampleCount * 8)) payload;
          case rest of Inl e \<Rightarrow> Some (Inl e) | Inr (records, end) \<Rightarrow> Some (Inr (record # records, end)) } })"

definition EntityStateBatch_v2_Decode :: "bool \<Rightarrow> byte list \<Rightarrow> (WorldProtocolError + EntityStateBatch_v2) option" where
  "EntityStateBatch_v2_Decode outValue payload =
     (if \<not> outValue then Some (Inl InvalidArgument)
      else if length payload < 16 \<or> length payload > 8186 then Some (Inl InvalidLength)
      else do {
        version \<leftarrow> ReadU16 0 payload;
        if version \<noteq> PayloadVersion_v2 then Some (Inl UnsupportedVersion)
        else do {
          recordCount \<leftarrow> ReadU16 14 payload;
          if recordCount = 0 \<or> unat recordCount > (length payload - 16) div 40 then Some (Inl InvalidLength)
          else do {
            tick \<leftarrow> ReadU32 2 payload;
            snapshot \<leftarrow> ReadU32 6 payload;
            index \<leftarrow> ReadU16 10 payload;
            count \<leftarrow> ReadU16 12 payload;
            result \<leftarrow> read_trail_records (unat recordCount) 16 payload;
            case result of Inl e \<Rightarrow> Some (Inl e)
            | Inr (records, offset) \<Rightarrow>
                if offset \<noteq> length payload then Some (Inl InvalidLength)
                else
                  let decoded = \<lparr>batch2_serverTick = tick, batch2_snapshotId = snapshot, batch2_chunkIndex = index,
                      batch2_chunkCount = count, batch2_records = records\<rparr> in
                  if EntityStateBatch_v2_Validate decoded \<noteq> Success
                  then Some (Inl (EntityStateBatch_v2_Validate decoded))
                  else Some (Inr decoded) } } })"

definition EntityStateRecord_v2_canonical :: "EntityStateRecord_v2 \<Rightarrow> EntityStateRecord_v2" where
  "EntityStateRecord_v2_canonical r =
     r\<lparr>trail_headPositionX := F32_normalize (trail_headPositionX r),
       trail_headPositionY := F32_normalize (trail_headPositionY r),
       trail_headingRadians := F32_normalize (trail_headingRadians r), trail_diameter := F32_normalize (trail_diameter r),
       trail_bodyTrailSamples := map BodySample_canonical (trail_bodyTrailSamples r)\<rparr>"

definition EntityStateBatch_v2_canonical :: "EntityStateBatch_v2 \<Rightarrow> EntityStateBatch_v2" where
  "EntityStateBatch_v2_canonical v = v\<lparr>batch2_records := map EntityStateRecord_v2_canonical (batch2_records v)\<rparr>"

definition trail_bytes :: "EntityStateRecord_v2 \<Rightarrow> byte list" where
  "trail_bytes r = le32 (trail_entityId r) @ le32 (trail_generation r) @ le_f32 (trail_headPositionX r) @
     le_f32 (trail_headPositionY r) @ le_f32 (trail_headingRadians r) @ le_f32 (trail_diameter r) @
     le32 (trail_growthPoint r) @ le16 (trail_boostState r) @
     le16 (word_of_nat (length (trail_bodyTrailSamples r))) @ concat (map sample_bytes (trail_bodyTrailSamples r))"

lemma length_trail_bytes [simp]: "length (trail_bytes r) = trail_width r" by (simp add: trail_bytes_def)

lemma length_trails [simp]: "length (concat (map trail_bytes rs)) = (\<Sum>r \<leftarrow> rs. trail_width r)"
  by (rule length_concat_map) simp

lemma calculate_fits:
  assumes "\<forall>r \<in> set rs. trail_bodyTrailSamples r \<noteq> []" "p \<le> 8186"
  shows "EntityStateBatch_v2_CalculatePayloadBytes p rs =
    (if p + (\<Sum>r \<leftarrow> rs. trail_width r) \<le> 8186 then p + (\<Sum>r \<leftarrow> rs. trail_width r) else 0)"
  using assms
proof (induction rs arbitrary: p)
  case (Cons r rs)
  let ?n = "length (trail_bodyTrailSamples r)"
  have "8186 + 2 ^ 64 - p = (8186 - p) + 2 ^ 64" using Cons.prems(2) by simp
  then have "(8186 + 2 ^ 64 - p) mod 2 ^ 64 = (8186 - p) mod (2 ^ 64 :: nat)" by (simp only: mod_add_self2)
  then have m: "(8186 + 2 ^ 64 - p) mod 2 ^ 64 = 8186 - p" by simp
  have n: "0 < ?n" using Cons.prems(1) by simp
  have room: "?n \<le> (if 8186 - p \<ge> 32 then (8186 - p - 32) div 8 else 0) \<longleftrightarrow> p + trail_width r \<le> 8186"
    using n Cons.prems(2) by auto
  show ?case
  proof (cases "p + trail_width r \<le> 8186")
    case True
    then have "EntityStateBatch_v2_CalculatePayloadBytes p (r # rs) =
        EntityStateBatch_v2_CalculatePayloadBytes (p + trail_width r) rs"
      unfolding EntityStateBatch_v2_CalculatePayloadBytes.simps m Let_def using room by auto
    then show ?thesis using Cons.IH [of "p + trail_width r"] Cons.prems(1) True by (simp add: add.assoc)
  next
    case False
    then have "EntityStateBatch_v2_CalculatePayloadBytes p (r # rs) = 0"
      unfolding EntityStateBatch_v2_CalculatePayloadBytes.simps m Let_def using room by auto
    then show ?thesis using False by simp
  qed
qed simp

lemma write_trails [wire_simps]:
  assumes "offset = length bs" "offset + (\<Sum>r \<leftarrow> rs. trail_width r) \<le> length dst"
  shows "write_each EntityStateRecord_v2_Write trail_width rs offset (wrote bs dst) = Some (wrote (bs @ concat (map trail_bytes rs)) dst)"
proof (rule write_each_wrote [OF _ _ assms])
  show "EntityStateRecord_v2_Write r (length cs) (wrote cs dst) = Some (wrote (cs @ trail_bytes r) dst)"
    if "length cs + trail_width r \<le> length dst" for r cs
    using that by (simp add: EntityStateRecord_v2_Write_def trail_bytes_def wire_simps)
qed simp

lemma EntityStateRecord_v2_sent:
  assumes d: "drop offset payload = trail_bytes r @ p" and l: "offset \<le> length payload"
    and n: "length (trail_bodyTrailSamples r) < 65536"
  shows "ReadU16 (offset + 30) payload = Some (word_of_nat (length (trail_bodyTrailSamples r)))"
    and "EntityStateRecord_v2_Read offset (word_of_nat (length (trail_bodyTrailSamples r))) payload =
      Some (EntityStateRecord_v2_canonical r)"
proof -
  note room = offset_room [OF d l]
  have d32: "drop (offset + 32) payload = concat (map sample_bytes (trail_bodyTrailSamples r)) @ p"
    using arg_cong [OF d, of "drop 32"] by (simp add: trail_bytes_def add.commute)
  have s: "slice (offset + k) m payload = slice k m (trail_bytes r @ p)" for k m
    by (simp add: slice_def add.commute flip: d drop_drop)
  show "ReadU16 (offset + 30) payload = Some (word_of_nat (length (trail_bodyTrailSamples r)))"
    using room by (simp add: ReadU16_slice s) (simp add: trail_bytes_def wire_simps)
  show "EntityStateRecord_v2_Read offset (word_of_nat (length (trail_bodyTrailSamples r))) payload =
      Some (EntityStateRecord_v2_canonical r)"
    using room read_samples [OF d32] n s [of 0]
    by (simp add: EntityStateRecord_v2_Read_def ReadU16_slice ReadU32_slice ReadF32_slice s)
      (simp add: trail_bytes_def wire_simps EntityStateRecord_v2_canonical_def)
qed

lemma read_trail_records_sent:
  assumes "drop offset payload = concat (map trail_bytes rs) @ p" "offset \<le> length payload"
    and "\<forall>r \<in> set rs. trail_bodyTrailSamples r \<noteq> [] \<and> length (trail_bodyTrailSamples r) < 65536"
  shows "read_trail_records (length rs) offset payload =
    Some (Inr (map EntityStateRecord_v2_canonical rs, offset + (\<Sum>r \<leftarrow> rs. trail_width r)))"
  using assms
proof (induction rs arbitrary: offset)
  case (Cons r rs)
  let ?n = "length (trail_bodyTrailSamples r)"
  have n: "0 < ?n" "?n < 65536" using Cons.prems(3) by auto
  have d: "drop offset payload = trail_bytes r @ (concat (map trail_bytes rs) @ p)" using Cons.prems(1) by simp
  have room: "offset + trail_width r \<le> length payload" using offset_room [OF d Cons.prems(2)] by simp
  have d': "drop (offset + trail_width r) payload = concat (map trail_bytes rs) @ p"
    using arg_cong [OF d, of "drop (trail_width r)"] by (simp add: add.commute)
  have c: "unat (word_of_nat ?n :: u16) = ?n" "(word_of_nat ?n :: u16) \<noteq> 0" using n by (simp_all add: unat_eq_0 [symmetric])
  note sent = EntityStateRecord_v2_sent [OF d Cons.prems(2) n(2)]
  have fits: "\<not> (length payload - (offset + 32)) div 8 < ?n" "\<not> length payload - offset < 32" using room by auto
  from Cons.IH [OF d' room] show ?case using sent c fits Cons.prems(3) by (simp add: Let_def)
qed simp

lemma EntityStateRecord_v2_Read_defined:
  assumes "offset + (32 + unat n * 8) \<le> length payload"
  shows "\<exists>r. EntityStateRecord_v2_Read offset n payload = Some r \<and> length (trail_bodyTrailSamples r) = unat n \<and>
    EntityStateRecord_v2_canonical r = r"
  using read_samples_defined [of "offset + 32" "unat n" payload] assms
  by (auto simp: EntityStateRecord_v2_Read_def ReadU16_slice ReadU32_slice ReadF32_slice
      EntityStateRecord_v2_canonical_def map_canonical_id)

lemma read_trail_records_defined:
  "offset \<le> length payload \<Longrightarrow>
    (\<exists>e. read_trail_records n offset payload = Some (Inl e) \<and> e \<noteq> Success) \<or>
    (\<exists>rs. read_trail_records n offset payload = Some (Inr (rs, offset + (\<Sum>r \<leftarrow> rs. trail_width r))) \<and> length rs = n \<and>
      offset + (\<Sum>r \<leftarrow> rs. trail_width r) \<le> length payload \<and> map EntityStateRecord_v2_canonical rs = rs)"
proof (induction n arbitrary: offset)
  case (Suc n)
  let ?c = "of_le16 (slice (offset + 30) 2 payload)"
  show ?case
  proof (cases "length payload - offset < 32 \<or> ?c = 0 \<or> unat ?c > (length payload - offset - 32) div 8")
    case True
    then show ?thesis using Suc.prems by (auto simp: ReadU16_slice Let_def)
  next
    case False
    then have room: "offset + (32 + unat ?c * 8) \<le> length payload" by auto
    obtain r where r: "EntityStateRecord_v2_Read offset ?c payload = Some r" "length (trail_bodyTrailSamples r) = unat ?c"
        "EntityStateRecord_v2_canonical r = r"
      using EntityStateRecord_v2_Read_defined [OF room] by blast
    have "read_trail_records (Suc n) offset payload = do {
        rest \<leftarrow> read_trail_records n (offset + (32 + unat ?c * 8)) payload;
        case rest of Inl e \<Rightarrow> Some (Inl e) | Inr (records, end) \<Rightarrow> Some (Inr (r # records, end)) }"
      using False r(1) room by (simp add: ReadU16_slice Let_def)
    then show ?thesis using Suc.IH [OF room] r(2,3) by (auto simp: add.assoc)
  qed
qed simp

lemma Validate_trails:
  "EntityStateRecords_v2_Validate rs = Success \<Longrightarrow> \<forall>r \<in> set rs. trail_bodyTrailSamples r \<noteq> []"
  by (induction rs) (auto simp: EntityStateRecord_v2_Validate_def split: if_splits)

lemma Validate_trails_canonical [simp]:
  "EntityStateRecords_v2_Validate (map EntityStateRecord_v2_canonical rs) = EntityStateRecords_v2_Validate rs"
proof -
  have "EntityStateRecord_v2_Validate (EntityStateRecord_v2_canonical r) = EntityStateRecord_v2_Validate r" for r
    by (simp add: EntityStateRecord_v2_Validate_def EntityStateRecord_v2_canonical_def)
  then show ?thesis by (induction rs) simp_all
qed

lemma width_ge: "r \<in> set rs \<Longrightarrow> trail_width r \<le> (\<Sum>r \<leftarrow> rs. trail_width r)"
  by (induction rs) auto

lemma widths_ge: "\<forall>r \<in> set rs. trail_bodyTrailSamples r \<noteq> [] \<Longrightarrow> 40 * length rs \<le> (\<Sum>r \<leftarrow> rs. trail_width r)"
proof (induction rs)
  case (Cons r rs)
  then have "1 \<le> length (trail_bodyTrailSamples r)" by (cases "trail_bodyTrailSamples r") auto
  then show ?case using Cons by simp
qed simp

definition EntityStateBatch_v2_ok :: "EntityStateBatch_v2 \<Rightarrow> bool" where
  "EntityStateBatch_v2_ok v \<longleftrightarrow> batch2_records v \<noteq> [] \<and> EntityStateBatch_v2_Validate v = Success \<and>
     16 + (\<Sum>r \<leftarrow> batch2_records v. trail_width r) \<le> 8186"

lemma EntityStateBatch_v2_okD:
  assumes "EntityStateBatch_v2_ok v"
  shows "length (batch2_records v) < 65536" "40 * length (batch2_records v) \<le> (\<Sum>r \<leftarrow> batch2_records v. trail_width r)"
    and "\<forall>r \<in> set (batch2_records v). trail_bodyTrailSamples r \<noteq> [] \<and> length (trail_bodyTrailSamples r) < 65536"
    and "EntityStateBatch_v2_CalculatePayloadBytes 16 (batch2_records v) = 16 + (\<Sum>r \<leftarrow> batch2_records v. trail_width r)"
proof -
  have s: "\<forall>r \<in> set (batch2_records v). trail_bodyTrailSamples r \<noteq> []"
    using assms Validate_trails by (auto simp: EntityStateBatch_v2_ok_def EntityStateBatch_v2_Validate_def split: if_splits)
  have b: "16 + (\<Sum>r \<leftarrow> batch2_records v. trail_width r) \<le> 8186" using assms by (simp add: EntityStateBatch_v2_ok_def)
  show "40 * length (batch2_records v) \<le> (\<Sum>r \<leftarrow> batch2_records v. trail_width r)" by (rule widths_ge [OF s])
  then show "length (batch2_records v) < 65536" using b by simp
  show "\<forall>r \<in> set (batch2_records v). trail_bodyTrailSamples r \<noteq> [] \<and> length (trail_bodyTrailSamples r) < 65536"
  proof (intro ballI conjI)
    fix r assume r: "r \<in> set (batch2_records v)"
    show "trail_bodyTrailSamples r \<noteq> []" using s r by blast
    show "length (trail_bodyTrailSamples r) < 65536" using width_ge [OF r] b by linarith
  qed
  show "EntityStateBatch_v2_CalculatePayloadBytes 16 (batch2_records v) = 16 + (\<Sum>r \<leftarrow> batch2_records v. trail_width r)"
    using calculate_fits [OF s, of 16] b by simp
qed

lemma EntityStateBatch_v2_sent:
  assumes v: "EntityStateBatch_v2_ok v" and l: "length dst = 16 + (\<Sum>r \<leftarrow> batch2_records v. trail_width r)"
  shows "\<exists>bytes. EntityStateBatch_v2_Encode v dst = Some (Success, bytes) \<and> length bytes = length dst \<and>
    EntityStateBatch_v2_Decode True bytes = Some (Inr (EntityStateBatch_v2_canonical v))"
proof -
  note ok = EntityStateBatch_v2_okD [OF v]
  let ?rs = "batch2_records v"
  have n: "?rs \<noteq> []" "EntityStateBatch_v2_Validate v = Success" "16 + (\<Sum>r \<leftarrow> ?rs. trail_width r) \<le> 8186"
    using v by (simp_all add: EntityStateBatch_v2_ok_def)
  define bytes where "bytes = le16 PayloadVersion_v2 @ le32 (batch2_serverTick v) @ le32 (batch2_snapshotId v) @
    le16 (batch2_chunkIndex v) @ le16 (batch2_chunkCount v) @ le16 (word_of_nat (length ?rs)) @ concat (map trail_bytes ?rs)"
  have len: "length bytes = length dst" by (simp add: bytes_def l)
  have enc: "EntityStateBatch_v2_Encode v dst = Some (Success, bytes)"
    using n ok(1) by (simp add: EntityStateBatch_v2_Encode_def ok(4) Let_def wire_simps wrote_all l bytes_def)
  have d: "drop 16 bytes = concat (map trail_bytes ?rs) @ []" by (simp add: bytes_def)
  have rd: "read_trail_records (length ?rs) 16 bytes =
      Some (Inr (map EntityStateRecord_v2_canonical ?rs, 16 + (\<Sum>r \<leftarrow> ?rs. trail_width r)))"
    using len l by (intro read_trail_records_sent [OF d _ ok(3)]) simp
  have c: "unat (word_of_nat (length ?rs) :: u16) = length ?rs" "(word_of_nat (length ?rs) :: u16) \<noteq> 0"
    using ok(1) n(1) by (simp_all add: unat_eq_0 [symmetric])
  have fits: "\<not> (length bytes - 16) div 40 < length ?rs" using ok(2) len l by auto
  have r: "\<lparr>batch2_serverTick = batch2_serverTick v, batch2_snapshotId = batch2_snapshotId v,
      batch2_chunkIndex = batch2_chunkIndex v, batch2_chunkCount = batch2_chunkCount v,
      batch2_records = map EntityStateRecord_v2_canonical ?rs\<rparr> = EntityStateBatch_v2_canonical v"
    by (cases v) (simp add: EntityStateBatch_v2_canonical_def)
  have val: "EntityStateBatch_v2_Validate (EntityStateBatch_v2_canonical v) = Success"
    using n(2) by (auto simp: EntityStateBatch_v2_Validate_def EntityStateBatch_v2_canonical_def split: if_splits)
  have h: "slice 0 2 bytes = le16 PayloadVersion_v2" "slice 14 2 bytes = le16 (word_of_nat (length ?rs))"
      "slice 2 4 bytes = le32 (batch2_serverTick v)" "slice 6 4 bytes = le32 (batch2_snapshotId v)"
      "slice 10 2 bytes = le16 (batch2_chunkIndex v)" "slice 12 2 bytes = le16 (batch2_chunkCount v)"
    by (simp_all add: bytes_def wire_simps)
  have "EntityStateBatch_v2_Decode True bytes = Some (Inr (EntityStateBatch_v2_canonical v))"
    using len l n(3) fits c
    by (simp add: EntityStateBatch_v2_Decode_def ReadU16_slice ReadU32_slice h rd r val Let_def)
  then show ?thesis using enc len by blast
qed

lemma EntityStateBatch_v2_Decode_cases:
  obtains (error) e where "EntityStateBatch_v2_Decode out bytes = Some (Inl e)" "e \<noteq> Success"
  | (decoded) v where "out" "EntityStateBatch_v2_Decode out bytes = Some (Inr v)" "EntityStateBatch_v2_ok v"
    "16 + (\<Sum>r \<leftarrow> batch2_records v. trail_width r) = length bytes" "EntityStateBatch_v2_canonical v = v"
proof (cases "out \<and> 16 \<le> length bytes \<and> length bytes \<le> 8186 \<and> of_le16 (slice 0 2 bytes) = PayloadVersion_v2 \<and>
    of_le16 (slice 14 2 bytes) \<noteq> 0 \<and> unat (of_le16 (slice 14 2 bytes)) \<le> (length bytes - 16) div 40")
  case False
  then have "\<exists>e. EntityStateBatch_v2_Decode out bytes = Some (Inl e) \<and> e \<noteq> Success"
    by (auto simp: EntityStateBatch_v2_Decode_def ReadU16_slice not_le)
  then show thesis using error by blast
next
  case True
  let ?n = "unat (of_le16 (slice 14 2 bytes))"
  let ?v = "\<lambda>rs. \<lparr>batch2_serverTick = of_le32 (slice 2 4 bytes), batch2_snapshotId = of_le32 (slice 6 4 bytes),
      batch2_chunkIndex = of_le16 (slice 10 2 bytes), batch2_chunkCount = of_le16 (slice 12 2 bytes), batch2_records = rs\<rparr>"
  have o1: "out = True" using True by simp
  have dec: "EntityStateBatch_v2_Decode True bytes = do {
      result \<leftarrow> read_trail_records ?n 16 bytes;
      case result of Inl e \<Rightarrow> Some (Inl e)
      | Inr (rs, offset) \<Rightarrow>
          if offset \<noteq> length bytes then Some (Inl InvalidLength)
          else if EntityStateBatch_v2_Validate (?v rs) \<noteq> Success then Some (Inl (EntityStateBatch_v2_Validate (?v rs)))
          else Some (Inr (?v rs)) }"
    unfolding EntityStateBatch_v2_Decode_def Let_def using True by (simp add: ReadU16_slice ReadU32_slice not_less)
  from True have "16 \<le> length bytes" by simp
  from read_trail_records_defined [OF this, of ?n] show thesis
  proof (elim disjE exE conjE)
    fix e assume "read_trail_records ?n 16 bytes = Some (Inl e)" "e \<noteq> Success"
    then show thesis by (intro error) (simp_all add: dec o1)
  next
    fix rs assume rs: "read_trail_records ?n 16 bytes = Some (Inr (rs, 16 + (\<Sum>r \<leftarrow> rs. trail_width r)))" "length rs = ?n"
      "map EntityStateRecord_v2_canonical rs = rs"
    have ne: "rs \<noteq> []" using rs(2) True by (auto simp: unat_eq_0)
    show thesis
    proof (cases "16 + (\<Sum>r \<leftarrow> rs. trail_width r) = length bytes \<and> EntityStateBatch_v2_Validate (?v rs) = Success")
      case ok: True
      then show thesis using True rs(1,3) ne
        by (intro decoded [of "?v rs"]) (simp_all add: dec o1 EntityStateBatch_v2_ok_def EntityStateBatch_v2_canonical_def)
    next
      case False
      then show thesis using rs(1) by (intro error [of "if 16 + (\<Sum>r \<leftarrow> rs. trail_width r) \<noteq> length bytes then InvalidLength
          else EntityStateBatch_v2_Validate (?v rs)"]) (auto simp: dec o1)
    qed
  qed
qed

interpretation entity_state_batch_v2: wire_message EntityStateBatch_v2_Encode EntityStateBatch_v2_Decode
  EntityStateBatch_v2_ok "\<lambda>v. 16 + (\<Sum>r \<leftarrow> batch2_records v. trail_width r)" EntityStateBatch_v2_canonical
proof
  fix v :: EntityStateBatch_v2 and dst :: "byte list"
  assume "EntityStateBatch_v2_ok v" "length dst = 16 + (\<Sum>r \<leftarrow> batch2_records v. trail_width r)"
  then show "\<exists>bytes. EntityStateBatch_v2_Encode v dst = Some (Success, bytes) \<and> length bytes = length dst \<and>
      EntityStateBatch_v2_Decode True bytes = Some (Inr (EntityStateBatch_v2_canonical v))"
    by (rule EntityStateBatch_v2_sent)
next
  fix v :: EntityStateBatch_v2 and dst :: "byte list"
  assume n: "\<not> (EntityStateBatch_v2_ok v \<and> length dst = 16 + (\<Sum>r \<leftarrow> batch2_records v. trail_width r))"
  let ?p = "EntityStateBatch_v2_CalculatePayloadBytes 16 (batch2_records v)"
  have "\<not> (batch2_records v \<noteq> [] \<and> ?p \<noteq> 0 \<and> length dst = ?p \<and> EntityStateBatch_v2_Validate v = Success)"
  proof
    assume a: "batch2_records v \<noteq> [] \<and> ?p \<noteq> 0 \<and> length dst = ?p \<and> EntityStateBatch_v2_Validate v = Success"
    then have s: "\<forall>r \<in> set (batch2_records v). trail_bodyTrailSamples r \<noteq> []"
      by (intro Validate_trails) (simp add: EntityStateBatch_v2_Validate_def split: if_splits)
    show False using a n calculate_fits [OF s, of 16] by (simp add: EntityStateBatch_v2_ok_def split: if_splits)
  qed
  then show "\<exists>e. e \<noteq> Success \<and> EntityStateBatch_v2_Encode v dst = Some (e, dst)"
    by (auto simp: EntityStateBatch_v2_Encode_def Let_def)
next
  show "EntityStateBatch_v2_Decode out bytes \<noteq> None" for out bytes
    by (cases rule: EntityStateBatch_v2_Decode_cases [of out bytes]) simp_all
next
  show "EntityStateBatch_v2_Decode False bytes = Some (Inl InvalidArgument)" for bytes
    by (simp add: EntityStateBatch_v2_Decode_def)
next
  fix v :: EntityStateBatch_v2 and bytes :: "byte list"
  assume d: "EntityStateBatch_v2_Decode True bytes = Some (Inr v)"
  show "EntityStateBatch_v2_ok v \<and> 16 + (\<Sum>r \<leftarrow> batch2_records v. trail_width r) = length bytes \<and>
      EntityStateBatch_v2_canonical v = v"
    by (cases rule: EntityStateBatch_v2_Decode_cases [of True bytes]) (use d in simp_all)
next
  fix out e and bytes :: "byte list"
  assume d: "EntityStateBatch_v2_Decode out bytes = Some (Inl e)"
  show "e \<noteq> Success"
    by (cases rule: EntityStateBatch_v2_Decode_cases [of out bytes]) (use d in simp_all)
qed

end
