(* ===== verification/WsOverviewMessages.thy ===== *)
theory WsOverviewMessages imports WsStateMessages begin

text \<open>
  \<^verbatim>\<open>WorldOverviewSnapshot.h\<close>: the chunked overview of the whole map, with player silhouettes and a
  leaderboard, without names in version 2 and with names in version 3. The two versions have the
  same header and players; the records extend the common part with their leaderboard.
\<close>

section \<open>The common part\<close>

record WorldOverviewPlayer =
  overview_playerId :: u32
  overview_growthPoint :: u32
  overview_bodySamples :: "BodySample list"

record WorldOverview =
  overview_serverTick :: u32
  overview_overviewId :: u32
  overview_chunkIndex :: u16
  overview_chunkCount :: u16
  overview_mapMinX :: f32
  overview_mapMinY :: f32
  overview_mapMaxX :: f32
  overview_mapMaxY :: f32
  overview_activeAreaCenterX :: f32
  overview_activeAreaCenterY :: f32
  overview_activeAreaRadius :: f32
  overview_players :: "WorldOverviewPlayer list"

abbreviation player_width :: "WorldOverviewPlayer \<Rightarrow> nat" where
  "player_width p \<equiv> 10 + length (overview_bodySamples p) * 8"

text \<open>The loop of \<^verbatim>\<open>CalculatePayloadBytes\<close> over the players; \<open>None\<close> is its early return of 0.\<close>

fun overview_player_bytes :: "nat \<Rightarrow> WorldOverviewPlayer list \<Rightarrow> nat option" where
  "overview_player_bytes bytes [] = Some bytes"
| "overview_player_bytes bytes (p # ps) =
     (if overview_bodySamples p = [] \<or> length (overview_bodySamples p) > 65535 then None
      else if player_width p > 8186 - bytes then None
      else overview_player_bytes (bytes + player_width p) ps)"

definition WorldOverviewPlayer_IsValid :: "WorldOverviewPlayer \<Rightarrow> bool" where
  "WorldOverviewPlayer_IsValid p \<longleftrightarrow>
     \<not> (overview_playerId p = 0 \<or> overview_bodySamples p = []) \<and> list_all BodySample_IsValid (overview_bodySamples p)"

definition WorldOverview_IsValid :: "bool \<Rightarrow> 'a WorldOverview_scheme \<Rightarrow> bool" where
  "WorldOverview_IsValid leaderboardEmpty value \<longleftrightarrow>
     \<not> (overview_overviewId value = 0 \<or> overview_chunkCount value = 0 \<or>
       overview_chunkIndex value \<ge> overview_chunkCount value \<or>
       overview_chunkIndex value \<noteq> 0 \<and> \<not> leaderboardEmpty \<or>
       \<not> F32_isfinite (overview_mapMinX value) \<or> \<not> F32_isfinite (overview_mapMinY value) \<or>
       \<not> F32_isfinite (overview_mapMaxX value) \<or> \<not> F32_isfinite (overview_mapMaxY value) \<or>
       F32_less_eq (overview_mapMaxX value) (overview_mapMinX value) \<or>
       F32_less_eq (overview_mapMaxY value) (overview_mapMinY value) \<or>
       \<not> F32_isfinite (overview_activeAreaCenterX value) \<or> \<not> F32_isfinite (overview_activeAreaCenterY value) \<or>
       \<not> F32_isfinite (overview_activeAreaRadius value) \<or> F32_less_eq (overview_activeAreaRadius value) 0) \<and>
     list_all WorldOverviewPlayer_IsValid (overview_players value)"

definition write_overview_header ::
    "u16 \<Rightarrow> 'a WorldOverview_scheme \<Rightarrow> nat \<Rightarrow> byte list \<Rightarrow> byte list option" where
  "write_overview_header version value leaderboardCount output = do {
     output \<leftarrow> WriteU16 version 0 output;
     output \<leftarrow> WriteU32 (overview_serverTick value) 2 output;
     output \<leftarrow> WriteU32 (overview_overviewId value) 6 output;
     output \<leftarrow> WriteU16 (overview_chunkIndex value) 10 output;
     output \<leftarrow> WriteU16 (overview_chunkCount value) 12 output;
     output \<leftarrow> WriteF32 (overview_mapMinX value) 14 output;
     output \<leftarrow> WriteF32 (overview_mapMinY value) 18 output;
     output \<leftarrow> WriteF32 (overview_mapMaxX value) 22 output;
     output \<leftarrow> WriteF32 (overview_mapMaxY value) 26 output;
     output \<leftarrow> WriteF32 (overview_activeAreaCenterX value) 30 output;
     output \<leftarrow> WriteF32 (overview_activeAreaCenterY value) 34 output;
     output \<leftarrow> WriteF32 (overview_activeAreaRadius value) 38 output;
     output \<leftarrow> WriteU16 (word_of_nat (length (overview_players value))) 42 output;
     WriteU16 (word_of_nat leaderboardCount) 44 output }"

definition write_overview_player :: "WorldOverviewPlayer \<Rightarrow> nat \<Rightarrow> byte list \<Rightarrow> byte list option" where
  "write_overview_player p offset output = do {
     output \<leftarrow> WriteU32 (overview_playerId p) offset output;
     output \<leftarrow> WriteU32 (overview_growthPoint p) (offset + 4) output;
     output \<leftarrow> WriteU16 (word_of_nat (length (overview_bodySamples p))) (offset + 8) output;
     write_each WriteBodySample (\<lambda>s. 8) (overview_bodySamples p) (offset + 10) output }"

text \<open>The scalar members of the header, without players yet.\<close>

definition read_overview_header :: "byte list \<Rightarrow> WorldOverview option" where
  "read_overview_header payload = do {
     tick \<leftarrow> ReadU32 2 payload;
     id \<leftarrow> ReadU32 6 payload;
     chunk \<leftarrow> ReadU16 10 payload;
     chunks \<leftarrow> ReadU16 12 payload;
     minX \<leftarrow> ReadF32 14 payload;
     minY \<leftarrow> ReadF32 18 payload;
     maxX \<leftarrow> ReadF32 22 payload;
     maxY \<leftarrow> ReadF32 26 payload;
     centerX \<leftarrow> ReadF32 30 payload;
     centerY \<leftarrow> ReadF32 34 payload;
     radius \<leftarrow> ReadF32 38 payload;
     Some \<lparr>overview_serverTick = tick, overview_overviewId = id, overview_chunkIndex = chunk,
       overview_chunkCount = chunks, overview_mapMinX = minX, overview_mapMinY = minY, overview_mapMaxX = maxX,
       overview_mapMaxY = maxY, overview_activeAreaCenterX = centerX, overview_activeAreaCenterY = centerY,
       overview_activeAreaRadius = radius, overview_players = []\<rparr> }"

fun read_overview_players ::
    "nat \<Rightarrow> nat \<Rightarrow> byte list \<Rightarrow> (WorldProtocolError + WorldOverviewPlayer list \<times> nat) option" where
  "read_overview_players 0 offset payload = Some (Inr ([], offset))"
| "read_overview_players (Suc n) offset payload =
     (if length payload - offset < 10 then Some (Inl InvalidLength)
      else do {
        playerId \<leftarrow> ReadU32 offset payload;
        growthPoint \<leftarrow> ReadU32 (offset + 4) payload;
        sampleCount \<leftarrow> ReadU16 (offset + 8) payload;
        if sampleCount = 0 \<or> unat sampleCount * 8 > length payload - (offset + 10) then Some (Inl InvalidLength)
        else do {
          samples \<leftarrow> read_each ReadBodySample 8 (unat sampleCount) (offset + 10) payload;
          rest \<leftarrow> read_overview_players n (offset + (10 + unat sampleCount * 8)) payload;
          case rest of Inl e \<Rightarrow> Some (Inl e)
          | Inr (players, end) \<Rightarrow>
              Some (Inr (\<lparr>overview_playerId = playerId, overview_growthPoint = growthPoint,
                overview_bodySamples = samples\<rparr> # players, end)) } })"

definition WorldOverviewPlayer_canonical :: "WorldOverviewPlayer \<Rightarrow> WorldOverviewPlayer" where
  "WorldOverviewPlayer_canonical p = p\<lparr>overview_bodySamples := map BodySample_canonical (overview_bodySamples p)\<rparr>"

definition WorldOverview_canonical :: "'a WorldOverview_scheme \<Rightarrow> 'a WorldOverview_scheme" where
  "WorldOverview_canonical v =
     v\<lparr>overview_mapMinX := F32_normalize (overview_mapMinX v), overview_mapMinY := F32_normalize (overview_mapMinY v),
       overview_mapMaxX := F32_normalize (overview_mapMaxX v), overview_mapMaxY := F32_normalize (overview_mapMaxY v),
       overview_activeAreaCenterX := F32_normalize (overview_activeAreaCenterX v),
       overview_activeAreaCenterY := F32_normalize (overview_activeAreaCenterY v),
       overview_activeAreaRadius := F32_normalize (overview_activeAreaRadius v),
       overview_players := map WorldOverviewPlayer_canonical (overview_players v)\<rparr>"

text \<open>What the header and the players look like on the wire, and what is read back.\<close>

definition header_bytes :: "u16 \<Rightarrow> 'a WorldOverview_scheme \<Rightarrow> nat \<Rightarrow> byte list" where
  "header_bytes version v n = le16 version @ le32 (overview_serverTick v) @ le32 (overview_overviewId v) @
     le16 (overview_chunkIndex v) @ le16 (overview_chunkCount v) @ le_f32 (overview_mapMinX v) @
     le_f32 (overview_mapMinY v) @ le_f32 (overview_mapMaxX v) @ le_f32 (overview_mapMaxY v) @
     le_f32 (overview_activeAreaCenterX v) @ le_f32 (overview_activeAreaCenterY v) @
     le_f32 (overview_activeAreaRadius v) @ le16 (word_of_nat (length (overview_players v))) @ le16 (word_of_nat n)"

lemma length_header_bytes [simp]: "length (header_bytes version v n) = 46" by (simp add: header_bytes_def)

lemma write_header [wire_simps]:
  "46 \<le> length dst \<Longrightarrow> write_overview_header version v n dst = Some (wrote (header_bytes version v n) dst)"
  by (simp add: write_overview_header_def header_bytes_def wire_simps)

definition player_bytes :: "WorldOverviewPlayer \<Rightarrow> byte list" where
  "player_bytes p = le32 (overview_playerId p) @ le32 (overview_growthPoint p) @
     le16 (word_of_nat (length (overview_bodySamples p))) @ concat (map sample_bytes (overview_bodySamples p))"

lemma length_player_bytes [simp]: "length (player_bytes p) = player_width p" by (simp add: player_bytes_def)

lemma length_players [simp]: "length (concat (map player_bytes ps)) = (\<Sum>p \<leftarrow> ps. player_width p)"
  by (rule length_concat_map) simp

lemma write_players [wire_simps]:
  assumes "offset = length bs" "offset + (\<Sum>p \<leftarrow> ps. player_width p) \<le> length dst"
  shows "write_each write_overview_player player_width ps offset (wrote bs dst) =
    Some (wrote (bs @ concat (map player_bytes ps)) dst)"
proof (rule write_each_wrote [OF _ _ assms])
  show "write_overview_player p (length cs) (wrote cs dst) = Some (wrote (cs @ player_bytes p) dst)"
    if "length cs + player_width p \<le> length dst" for p cs
    using that by (simp add: write_overview_player_def player_bytes_def wire_simps)
qed simp

lemma read_header_sent:
  "read_overview_header (header_bytes version v n @ rest) =
    Some (WorldOverview.truncate ((WorldOverview_canonical v)\<lparr>overview_players := []\<rparr>))"
  by (simp add: read_overview_header_def ReadU32_slice ReadU16_slice ReadF32_slice)
    (simp add: header_bytes_def wire_simps WorldOverview_canonical_def WorldOverview.truncate_def)

lemma header_counts_sent:
  "ReadU16 0 (header_bytes version v n @ rest) = Some version"
  "ReadU16 42 (header_bytes version v n @ rest) = Some (word_of_nat (length (overview_players v)))"
  "ReadU16 44 (header_bytes version v n @ rest) = Some (word_of_nat n)"
  by (simp_all add: ReadU16_slice) (simp_all add: header_bytes_def wire_simps)

lemma read_header_defined:
  "46 \<le> length payload \<Longrightarrow> \<exists>v. read_overview_header payload = Some v \<and> overview_players v = [] \<and>
    WorldOverview_canonical v = v"
  by (simp add: read_overview_header_def wire_simps WorldOverview_canonical_def)

lemma read_players_sent:
  assumes "drop offset payload = concat (map player_bytes ps) @ p" "offset \<le> length payload"
    and "\<forall>r \<in> set ps. overview_bodySamples r \<noteq> [] \<and> length (overview_bodySamples r) < 65536"
  shows "read_overview_players (length ps) offset payload =
    Some (Inr (map WorldOverviewPlayer_canonical ps, offset + (\<Sum>r \<leftarrow> ps. player_width r)))"
  using assms
proof (induction ps arbitrary: offset)
  case (Cons r ps)
  let ?n = "length (overview_bodySamples r)"
  have n: "0 < ?n" "?n < 65536" using Cons.prems(3) by auto
  have d: "drop offset payload = player_bytes r @ (concat (map player_bytes ps) @ p)" using Cons.prems(1) by simp
  have room: "offset + player_width r \<le> length payload" using offset_room [OF d Cons.prems(2)] by simp
  have d': "drop (offset + player_width r) payload = concat (map player_bytes ps) @ p"
    using arg_cong [OF d, of "drop (player_width r)"] by (simp add: add.commute)
  have d10: "drop (offset + 10) payload = concat (map sample_bytes (overview_bodySamples r)) @ (concat (map player_bytes ps) @ p)"
    using arg_cong [OF d, of "drop 10"] by (simp add: player_bytes_def add.commute)
  have c: "unat (word_of_nat ?n :: u16) = ?n" "(word_of_nat ?n :: u16) \<noteq> 0" using n by (simp_all add: unat_eq_0 [symmetric])
  have s: "slice (offset + k) m payload = slice k m (player_bytes r @ (concat (map player_bytes ps) @ p))" for k m
    by (simp add: slice_def add.commute flip: d drop_drop)
  have h: "ReadU32 offset payload = Some (overview_playerId r)" "ReadU32 (offset + 4) payload = Some (overview_growthPoint r)"
      "ReadU16 (offset + 8) payload = Some (word_of_nat ?n)"
    using room s [of 0] s [of 4] s [of 8]
    by (simp_all add: ReadU32_slice ReadU16_slice) (simp_all add: player_bytes_def wire_simps)
  have samples: "read_each ReadBodySample 8 ?n (offset + 10) payload = Some (map BodySample_canonical (overview_bodySamples r))"
    using room by (intro read_samples [OF d10]) simp_all
  have fits: "\<not> length payload - offset < 10" "\<not> length payload - (offset + 10) < ?n * 8" using room by auto
  have rebuild: "\<lparr>overview_playerId = overview_playerId r, overview_growthPoint = overview_growthPoint r,
      overview_bodySamples = map BodySample_canonical (overview_bodySamples r)\<rparr> = WorldOverviewPlayer_canonical r"
    by (cases r) (simp add: WorldOverviewPlayer_canonical_def)
  from Cons.IH [OF d' room] show ?case using h c fits samples Cons.prems(3) by (simp add: rebuild)
qed simp

lemma read_players_defined:
  "offset \<le> length payload \<Longrightarrow>
    (\<exists>e. read_overview_players n offset payload = Some (Inl e) \<and> e \<noteq> Success) \<or>
    (\<exists>ps. read_overview_players n offset payload = Some (Inr (ps, offset + (\<Sum>p \<leftarrow> ps. player_width p))) \<and> length ps = n \<and>
      offset + (\<Sum>p \<leftarrow> ps. player_width p) \<le> length payload \<and> map WorldOverviewPlayer_canonical ps = ps \<and>
      (\<forall>p \<in> set ps. overview_bodySamples p \<noteq> [] \<and> length (overview_bodySamples p) < 65536))"
proof (induction n arbitrary: offset)
  case (Suc n)
  let ?c = "of_le16 (slice (offset + 8) 2 payload)"
  show ?case
  proof (cases "length payload - offset < 10 \<or> ?c = 0 \<or> unat ?c * 8 > length payload - (offset + 10)")
    case True
    then show ?thesis using Suc.prems by (auto simp: ReadU16_slice ReadU32_slice)
  next
    case False
    then have room: "offset + (10 + unat ?c * 8) \<le> length payload" by auto
    obtain ss where ss: "read_each ReadBodySample 8 (unat ?c) (offset + 10) payload = Some ss" "length ss = unat ?c"
        "\<forall>s \<in> set ss. BodySample_canonical s = s"
      using read_samples_defined [of "offset + 10" "unat ?c" payload] room by auto
    let ?r = "\<lparr>overview_playerId = of_le32 (slice offset 4 payload),
        overview_growthPoint = of_le32 (slice (offset + 4) 4 payload), overview_bodySamples = ss\<rparr>"
    have "read_overview_players (Suc n) offset payload = do {
        rest \<leftarrow> read_overview_players n (offset + (10 + unat ?c * 8)) payload;
        case rest of Inl e \<Rightarrow> Some (Inl e) | Inr (players, end) \<Rightarrow> Some (Inr (?r # players, end)) }"
      using False ss(1) room by (simp add: ReadU16_slice ReadU32_slice)
    moreover have "ss \<noteq> [] \<and> length ss < 65536" using ss(2) False unsigned_less [of ?c] by (auto simp: unat_eq_0)
    moreover have "WorldOverviewPlayer_canonical ?r = ?r" using ss(3) by (simp add: WorldOverviewPlayer_canonical_def map_canonical_id)
    ultimately show ?thesis using Suc.IH [OF room] ss(2) by (auto simp: add.assoc)
  qed
qed simp

text \<open>The size of the players.\<close>

lemma player_bytes_Some:
  "overview_player_bytes k ps = Some m \<Longrightarrow> k \<le> 8186 \<Longrightarrow> m = k + (\<Sum>p \<leftarrow> ps. player_width p) \<and> m \<le> 8186 \<and>
    (\<forall>p \<in> set ps. overview_bodySamples p \<noteq> [] \<and> length (overview_bodySamples p) < 65536)"
proof (induction ps arbitrary: k)
  case (Cons p ps)
  have "overview_player_bytes (k + player_width p) ps = Some m" "k + player_width p \<le> 8186"
      "overview_bodySamples p \<noteq> [] \<and> length (overview_bodySamples p) < 65536"
    using Cons.prems by (auto split: if_splits)
  with Cons.IH [of "k + player_width p"] show ?case by auto
qed simp

lemma player_bytes_fit:
  "\<forall>p \<in> set ps. overview_bodySamples p \<noteq> [] \<and> length (overview_bodySamples p) < 65536 \<Longrightarrow>
    k + (\<Sum>p \<leftarrow> ps. player_width p) \<le> 8186 \<Longrightarrow> overview_player_bytes k ps = Some (k + (\<Sum>p \<leftarrow> ps. player_width p))"
  by (induction ps arbitrary: k) (auto simp: add.assoc)

lemma players_ge: "\<forall>p \<in> set ps. overview_bodySamples p \<noteq> [] \<and> length (overview_bodySamples p) < 65536 \<Longrightarrow>
    18 * length ps \<le> (\<Sum>p \<leftarrow> ps. player_width p)"
proof (induction ps)
  case (Cons p ps)
  then have "1 \<le> length (overview_bodySamples p)" by (cases "overview_bodySamples p") auto
  then show ?case using Cons by simp
qed simp

lemma WorldOverview_IsValid_canonical [simp]:
  "WorldOverview_IsValid b (WorldOverview_canonical v) = WorldOverview_IsValid b v"
proof -
  have "WorldOverviewPlayer_IsValid (WorldOverviewPlayer_canonical p) = WorldOverviewPlayer_IsValid p" for p
    by (simp add: WorldOverviewPlayer_IsValid_def WorldOverviewPlayer_canonical_def)
  then show ?thesis by (simp add: WorldOverview_IsValid_def WorldOverview_canonical_def list.pred_map comp_def)
qed

section \<open>WorldOverviewSnapshot, version 2\<close>

record WorldOverviewLeaderboardEntry_v2 =
  entry_rank :: u16
  entry_playerId :: u32
  entry_growthPoint :: u32

record WorldOverviewSnapshot_v2 = WorldOverview +
  overview_leaderboard :: "WorldOverviewLeaderboardEntry_v2 list"

definition WorldOverviewSnapshot_v2_CalculatePayloadBytes :: "WorldOverviewSnapshot_v2 \<Rightarrow> nat" where
  "WorldOverviewSnapshot_v2_CalculatePayloadBytes value =
     (if length (overview_players value) > 65535 \<or> length (overview_leaderboard value) > 10 then 0
      else case overview_player_bytes 46 (overview_players value) of None \<Rightarrow> 0
      | Some bytes \<Rightarrow>
          let leaderboardBytes = length (overview_leaderboard value) * 10 in
          if leaderboardBytes \<le> 8186 - bytes then bytes + leaderboardBytes else 0)"

definition WorldOverviewSnapshot_v2_IsValid :: "WorldOverviewSnapshot_v2 \<Rightarrow> bool" where
  "WorldOverviewSnapshot_v2_IsValid value \<longleftrightarrow>
     WorldOverview_IsValid (overview_leaderboard value = []) value \<and>
     list_all (\<lambda>e. \<not> (entry_rank e = 0 \<or> entry_playerId e = 0)) (overview_leaderboard value)"

definition write_leaderboard_entry :: "WorldOverviewLeaderboardEntry_v2 \<Rightarrow> nat \<Rightarrow> byte list \<Rightarrow> byte list option" where
  "write_leaderboard_entry e offset output = do {
     output \<leftarrow> WriteU16 (entry_rank e) offset output;
     output \<leftarrow> WriteU32 (entry_playerId e) (offset + 2) output;
     WriteU32 (entry_growthPoint e) (offset + 6) output }"

definition read_leaderboard_entry :: "nat \<Rightarrow> byte list \<Rightarrow> WorldOverviewLeaderboardEntry_v2 option" where
  "read_leaderboard_entry offset payload = do {
     rank \<leftarrow> ReadU16 offset payload;
     playerId \<leftarrow> ReadU32 (offset + 2) payload;
     growthPoint \<leftarrow> ReadU32 (offset + 6) payload;
     Some \<lparr>entry_rank = rank, entry_playerId = playerId, entry_growthPoint = growthPoint\<rparr> }"

definition WorldOverviewSnapshot_v2_Encode ::
    "WorldOverviewSnapshot_v2 \<Rightarrow> byte list \<Rightarrow> (WorldProtocolError \<times> byte list) option" where
  "WorldOverviewSnapshot_v2_Encode value output =
     (let payloadBytes = WorldOverviewSnapshot_v2_CalculatePayloadBytes value in
      if payloadBytes = 0 \<or> length output \<noteq> payloadBytes then Some (InvalidLength, output)
      else if \<not> WorldOverviewSnapshot_v2_IsValid value then Some (InvalidNumeric, output)
      else do {
        output \<leftarrow> write_overview_header PayloadVersion_v2 value (length (overview_leaderboard value)) output;
        output \<leftarrow> write_each write_overview_player player_width (overview_players value) 46 output;
        output \<leftarrow> write_each write_leaderboard_entry (\<lambda>e. 10) (overview_leaderboard value)
          (46 + (\<Sum>p \<leftarrow> overview_players value. player_width p)) output;
        Some (Success, output) })"

definition WorldOverviewSnapshot_v2_Decode ::
    "bool \<Rightarrow> byte list \<Rightarrow> (WorldProtocolError + WorldOverviewSnapshot_v2) option" where
  "WorldOverviewSnapshot_v2_Decode outValue payload =
     (if \<not> outValue then Some (Inl InvalidArgument)
      else if length payload < 46 \<or> length payload > 8186 then Some (Inl InvalidLength)
      else do {
        version \<leftarrow> ReadU16 0 payload;
        if version \<noteq> PayloadVersion_v2 then Some (Inl UnsupportedVersion)
        else do {
          header \<leftarrow> read_overview_header payload;
          playerCount \<leftarrow> ReadU16 42 payload;
          leaderboardCount \<leftarrow> ReadU16 44 payload;
          if unat playerCount > (length payload - 46) div 18 \<or> unat leaderboardCount > 10 then Some (Inl InvalidLength)
          else do {
            result \<leftarrow> read_overview_players (unat playerCount) 46 payload;
            case result of Inl e \<Rightarrow> Some (Inl e)
            | Inr (players, offset) \<Rightarrow>
                if unat leaderboardCount * 10 \<noteq> length payload - offset then Some (Inl InvalidLength)
                else do {
                  entries \<leftarrow> read_each read_leaderboard_entry 10 (unat leaderboardCount) offset payload;
                  let decoded = WorldOverview.extend (header\<lparr>overview_players := players\<rparr>)
                    (WorldOverviewSnapshot_v2.fields entries);
                  if \<not> WorldOverviewSnapshot_v2_IsValid decoded then Some (Inl InvalidNumeric)
                  else Some (Inr decoded) } } } })"

definition WorldOverviewSnapshot_v2_ok :: "WorldOverviewSnapshot_v2 \<Rightarrow> bool" where
  "WorldOverviewSnapshot_v2_ok v \<longleftrightarrow>
     WorldOverviewSnapshot_v2_CalculatePayloadBytes v \<noteq> 0 \<and> WorldOverviewSnapshot_v2_IsValid v"

definition entry_bytes :: "WorldOverviewLeaderboardEntry_v2 \<Rightarrow> byte list" where
  "entry_bytes e = le16 (entry_rank e) @ le32 (entry_playerId e) @ le32 (entry_growthPoint e)"

lemma length_entry_bytes [simp]: "length (entry_bytes e) = 10" by (simp add: entry_bytes_def)

lemma length_entries [simp]: "length (concat (map entry_bytes es)) = 10 * length es"
  by (simp add: length_concat_map [where width = "\<lambda>e. 10"] sum_list_triv)

lemma write_entries [wire_simps]:
  "offset = length bs \<Longrightarrow> offset + 10 * length es \<le> length dst \<Longrightarrow>
    write_each write_leaderboard_entry (\<lambda>e. 10) es offset (wrote bs dst) = Some (wrote (bs @ concat (map entry_bytes es)) dst)"
  by (rule write_each_wrote) (simp_all add: write_leaderboard_entry_def entry_bytes_def wire_simps sum_list_triv)

lemma read_leaderboard_entry_sent:
  assumes "drop offset payload = entry_bytes e @ p" "offset \<le> length payload"
  shows "read_leaderboard_entry offset payload = Some e"
proof -
  have s: "slice (offset + k) m payload = slice k m (entry_bytes e @ p)" for k m
    by (simp add: slice_def add.commute flip: assms(1) drop_drop)
  show ?thesis using offset_room [OF assms] s [of 0] s [of 2] s [of 6]
    by (simp add: read_leaderboard_entry_def ReadU16_slice ReadU32_slice) (simp add: entry_bytes_def wire_simps)
qed

lemma read_entries:
  assumes "drop offset payload = concat (map entry_bytes es)" "offset \<le> length payload" "n = length es"
  shows "read_each read_leaderboard_entry 10 n offset payload = Some es"
proof -
  have "read_each read_leaderboard_entry 10 n offset payload = Some (map (\<lambda>e. e) es)"
    using assms by (intro read_each_concat [where enc = entry_bytes and p = "[]"]) (simp_all add: read_leaderboard_entry_sent)
  then show ?thesis by simp
qed

lemma read_entries_defined:
  "offset + n * 10 \<le> length payload \<Longrightarrow> \<exists>es. read_each read_leaderboard_entry 10 n offset payload = Some es \<and> length es = n"
  using read_each_defined [of 10 payload read_leaderboard_entry "\<lambda>e. True" offset n]
  by (auto simp: read_leaderboard_entry_def ReadU16_slice ReadU32_slice)

lemma WorldOverviewSnapshot_v2_Calculate:
  assumes "WorldOverviewSnapshot_v2_CalculatePayloadBytes v \<noteq> 0"
  shows "WorldOverviewSnapshot_v2_CalculatePayloadBytes v =
      46 + (\<Sum>p \<leftarrow> overview_players v. player_width p) + 10 * length (overview_leaderboard v)"
    and "WorldOverviewSnapshot_v2_CalculatePayloadBytes v \<le> 8186" "length (overview_leaderboard v) \<le> 10"
    and "\<forall>p \<in> set (overview_players v). overview_bodySamples p \<noteq> [] \<and> length (overview_bodySamples p) < 65536"
  using assms player_bytes_Some [of 46 "overview_players v"]
  by (auto simp: WorldOverviewSnapshot_v2_CalculatePayloadBytes_def Let_def split: option.splits if_splits)

lemma WorldOverviewSnapshot_v2_Calculate_fits:
  assumes "\<forall>p \<in> set (overview_players v). overview_bodySamples p \<noteq> [] \<and> length (overview_bodySamples p) < 65536"
    and "46 + (\<Sum>p \<leftarrow> overview_players v. player_width p) + 10 * length (overview_leaderboard v) \<le> 8186"
    and "length (overview_leaderboard v) \<le> 10"
  shows "WorldOverviewSnapshot_v2_CalculatePayloadBytes v =
    46 + (\<Sum>p \<leftarrow> overview_players v. player_width p) + 10 * length (overview_leaderboard v)"
proof -
  have "length (overview_players v) \<le> 65535" using players_ge [OF assms(1)] assms(2) by linarith
  then show ?thesis using player_bytes_fit [OF assms(1), of 46] assms(2,3)
    by (auto simp: WorldOverviewSnapshot_v2_CalculatePayloadBytes_def Let_def)
qed

lemma WorldOverviewSnapshot_v2_canonical [simp]:
  "overview_leaderboard (WorldOverview_canonical v) = overview_leaderboard v"
  "WorldOverviewSnapshot_v2_IsValid (WorldOverview_canonical v) = WorldOverviewSnapshot_v2_IsValid v"
proof -
  show l: "overview_leaderboard (WorldOverview_canonical v) = overview_leaderboard v" for v :: WorldOverviewSnapshot_v2
    by (simp add: WorldOverview_canonical_def)
  show "WorldOverviewSnapshot_v2_IsValid (WorldOverview_canonical v) = WorldOverviewSnapshot_v2_IsValid v"
    by (simp add: WorldOverviewSnapshot_v2_IsValid_def l)
qed

lemma WorldOverviewSnapshot_v2_sent:
  assumes v: "WorldOverviewSnapshot_v2_ok v" and l: "length dst = WorldOverviewSnapshot_v2_CalculatePayloadBytes v"
  shows "\<exists>bytes. WorldOverviewSnapshot_v2_Encode v dst = Some (Success, bytes) \<and> length bytes = length dst \<and>
    WorldOverviewSnapshot_v2_Decode True bytes = Some (Inr (WorldOverview_canonical v))"
proof -
  let ?ps = "overview_players v" and ?es = "overview_leaderboard v"
  have c: "WorldOverviewSnapshot_v2_CalculatePayloadBytes v \<noteq> 0" "WorldOverviewSnapshot_v2_IsValid v"
    using v by (simp_all add: WorldOverviewSnapshot_v2_ok_def)
  note calc = WorldOverviewSnapshot_v2_Calculate [OF c(1)]
  define bytes where "bytes = header_bytes PayloadVersion_v2 v (length ?es) @ concat (map player_bytes ?ps) @
    concat (map entry_bytes ?es)"
  have len: "length bytes = length dst" by (simp add: bytes_def l calc(1))
  have enc: "WorldOverviewSnapshot_v2_Encode v dst = Some (Success, bytes)"
    unfolding WorldOverviewSnapshot_v2_Encode_def Let_def using c l calc(1) by (simp add: wire_simps wrote_all bytes_def)
  have ge: "18 * length ?ps \<le> (\<Sum>p \<leftarrow> ?ps. player_width p)" by (rule players_ge [OF calc(4)])
  have n: "unat (word_of_nat (length ?ps) :: u16) = length ?ps" "unat (word_of_nat (length ?es) :: u16) = length ?es"
    using ge calc by simp_all
  have fits: "\<not> (length bytes - 46) div 18 < length ?ps" using ge len l calc(1) by auto
  let ?o = "46 + (\<Sum>p \<leftarrow> ?ps. player_width p)"
  have ps: "read_overview_players (length ?ps) 46 bytes = Some (Inr (map WorldOverviewPlayer_canonical ?ps, ?o))"
    by (rule read_players_sent [where p = "concat (map entry_bytes ?es)", OF _ _ calc(4)]) (simp_all add: bytes_def)
  have es: "read_each read_leaderboard_entry 10 (length ?es) ?o bytes = Some ?es"
    by (rule read_entries) (simp_all add: bytes_def)
  have h: "read_overview_header bytes = Some (WorldOverview.truncate ((WorldOverview_canonical v)\<lparr>overview_players := []\<rparr>))"
      "ReadU16 0 bytes = Some PayloadVersion_v2" "ReadU16 42 bytes = Some (word_of_nat (length ?ps))"
      "ReadU16 44 bytes = Some (word_of_nat (length ?es))"
    unfolding bytes_def by (rule read_header_sent header_counts_sent)+
  have r: "WorldOverview.extend ((WorldOverview.truncate ((WorldOverview_canonical v)\<lparr>overview_players := []\<rparr>))
      \<lparr>overview_players := map WorldOverviewPlayer_canonical ?ps\<rparr>) (WorldOverviewSnapshot_v2.fields ?es) = WorldOverview_canonical v"
    by (cases v) (simp add: WorldOverview.defs WorldOverviewSnapshot_v2.defs WorldOverview_canonical_def)
  have "WorldOverviewSnapshot_v2_Decode True bytes = Some (Inr (WorldOverview_canonical v))"
    unfolding WorldOverviewSnapshot_v2_Decode_def Let_def
    using len l calc c(2) fits by (simp add: h ps es n r)
  then show ?thesis using enc len by blast
qed

lemma WorldOverviewSnapshot_v2_Decode_cases:
  obtains (failed) e where "WorldOverviewSnapshot_v2_Decode out bytes = Some (Inl e)" "e \<noteq> Success"
  | (decoded) v where "out" "WorldOverviewSnapshot_v2_Decode out bytes = Some (Inr v)" "WorldOverviewSnapshot_v2_ok v"
    "WorldOverviewSnapshot_v2_CalculatePayloadBytes v = length bytes" "WorldOverview_canonical v = v"
proof (cases "out \<and> 46 \<le> length bytes \<and> length bytes \<le> 8186 \<and> of_le16 (slice 0 2 bytes) = PayloadVersion_v2 \<and>
    unat (of_le16 (slice 42 2 bytes)) \<le> (length bytes - 46) div 18 \<and> unat (of_le16 (slice 44 2 bytes)) \<le> 10")
  case False
  then have "\<exists>e. WorldOverviewSnapshot_v2_Decode out bytes = Some (Inl e) \<and> e \<noteq> Success"
    using read_header_defined [of bytes] by (auto simp: WorldOverviewSnapshot_v2_Decode_def ReadU16_slice not_le)
  then show thesis using failed by blast
next
  case True
  then have o1: "out = True" and size: "46 \<le> length bytes" "length bytes \<le> 8186" by simp_all
  obtain h where h: "read_overview_header bytes = Some h" "overview_players h = []" "WorldOverview_canonical h = h"
    using read_header_defined [OF size(1)] by blast
  let ?n = "unat (of_le16 (slice 42 2 bytes))" and ?m = "unat (of_le16 (slice 44 2 bytes))"
  have dec: "WorldOverviewSnapshot_v2_Decode True bytes = do {
      result \<leftarrow> read_overview_players ?n 46 bytes;
      case result of Inl e \<Rightarrow> Some (Inl e)
      | Inr (players, offset) \<Rightarrow>
          if ?m * 10 \<noteq> length bytes - offset then Some (Inl InvalidLength)
          else do {
            entries \<leftarrow> read_each read_leaderboard_entry 10 ?m offset bytes;
            if \<not> WorldOverviewSnapshot_v2_IsValid (WorldOverview.extend (h\<lparr>overview_players := players\<rparr>)
              (WorldOverviewSnapshot_v2.fields entries)) then Some (Inl InvalidNumeric)
            else Some (Inr (WorldOverview.extend (h\<lparr>overview_players := players\<rparr>)
              (WorldOverviewSnapshot_v2.fields entries))) } }"
    unfolding WorldOverviewSnapshot_v2_Decode_def Let_def using True by (simp add: ReadU16_slice h(1) not_less)
  from read_players_defined [OF size(1), of ?n] show thesis
  proof (elim disjE exE conjE)
    fix e assume "read_overview_players ?n 46 bytes = Some (Inl e)" "e \<noteq> Success"
    then show thesis by (intro failed) (simp_all add: dec o1)
  next
    fix ps let ?o = "46 + (\<Sum>p \<leftarrow> ps. player_width p)"
    assume ps: "read_overview_players ?n 46 bytes = Some (Inr (ps, ?o))" "length ps = ?n" "?o \<le> length bytes"
      "map WorldOverviewPlayer_canonical ps = ps"
      "\<forall>p \<in> set ps. overview_bodySamples p \<noteq> [] \<and> length (overview_bodySamples p) < 65536"
    show thesis
    proof (cases "?m * 10 = length bytes - ?o")
      case False
      then show thesis using ps(1) by (intro failed [of InvalidLength]) (simp_all add: dec o1)
    next
      case m: True
      then obtain es where es: "read_each read_leaderboard_entry 10 ?m ?o bytes = Some es" "length es = ?m"
        using read_entries_defined [of ?o ?m bytes] ps(3) by auto
      let ?v = "WorldOverview.extend (h\<lparr>overview_players := ps\<rparr>) (WorldOverviewSnapshot_v2.fields es)"
      have f: "overview_players ?v = ps" "overview_leaderboard ?v = es"
        by (simp_all add: WorldOverview.defs WorldOverviewSnapshot_v2.defs)
      have can: "WorldOverview_canonical ?v = ?v"
        using h(3) ps(4) by (cases h) (simp add: WorldOverview.defs WorldOverviewSnapshot_v2.defs WorldOverview_canonical_def)
      have calc: "WorldOverviewSnapshot_v2_CalculatePayloadBytes ?v = length bytes"
        using WorldOverviewSnapshot_v2_Calculate_fits [of ?v] ps(3,5) es(2) m True size(2) by (simp add: f)
      show thesis
      proof (cases "WorldOverviewSnapshot_v2_IsValid ?v")
        case False
        then show thesis using ps(1) es(1) m by (intro failed [of InvalidNumeric]) (simp_all add: dec o1)
      next
        case valid: True
        then show thesis using ps(1) es(1) m can calc size(1)
          by (intro decoded [of ?v]) (auto simp: dec o1 WorldOverviewSnapshot_v2_ok_def)
      qed
    qed
  qed
qed

interpretation world_overview_snapshot_v2: wire_message WorldOverviewSnapshot_v2_Encode WorldOverviewSnapshot_v2_Decode
  WorldOverviewSnapshot_v2_ok WorldOverviewSnapshot_v2_CalculatePayloadBytes WorldOverview_canonical
proof
  show "\<exists>bytes. WorldOverviewSnapshot_v2_Encode v dst = Some (Success, bytes) \<and> length bytes = length dst \<and>
      WorldOverviewSnapshot_v2_Decode True bytes = Some (Inr (WorldOverview_canonical v))"
    if "WorldOverviewSnapshot_v2_ok v" "length dst = WorldOverviewSnapshot_v2_CalculatePayloadBytes v" for v and dst :: "byte list"
    using that by (rule WorldOverviewSnapshot_v2_sent)
  show "\<exists>e. e \<noteq> Success \<and> WorldOverviewSnapshot_v2_Encode v dst = Some (e, dst)"
    if "\<not> (WorldOverviewSnapshot_v2_ok v \<and> length dst = WorldOverviewSnapshot_v2_CalculatePayloadBytes v)" for v dst
    using that by (auto simp: WorldOverviewSnapshot_v2_Encode_def WorldOverviewSnapshot_v2_ok_def Let_def)
  show "WorldOverviewSnapshot_v2_Decode out bytes \<noteq> None" for out bytes
    by (cases rule: WorldOverviewSnapshot_v2_Decode_cases [of out bytes]) simp_all
  show "WorldOverviewSnapshot_v2_Decode False bytes = Some (Inl InvalidArgument)" for bytes
    by (simp add: WorldOverviewSnapshot_v2_Decode_def)
  show "WorldOverviewSnapshot_v2_ok v \<and> WorldOverviewSnapshot_v2_CalculatePayloadBytes v = length bytes \<and>
      WorldOverview_canonical v = v" if "WorldOverviewSnapshot_v2_Decode True bytes = Some (Inr v)" for bytes v
    by (cases rule: WorldOverviewSnapshot_v2_Decode_cases [of True bytes]) (use that in simp_all)
  show "e \<noteq> Success" if "WorldOverviewSnapshot_v2_Decode out bytes = Some (Inl e)" for out bytes e
    by (cases rule: WorldOverviewSnapshot_v2_Decode_cases [of out bytes]) (use that in simp_all)
qed

section \<open>WorldOverviewSnapshot, version 3\<close>

record WorldOverviewLeaderboardEntry_v3 =
  named_rank :: u16
  named_playerId :: u32
  named_growthPoint :: u32
  named_displayName :: "byte list"

record WorldOverviewSnapshot_v3 = WorldOverview +
  overview_namedLeaderboard :: "WorldOverviewLeaderboardEntry_v3 list"

abbreviation named_width :: "WorldOverviewLeaderboardEntry_v3 \<Rightarrow> nat" where
  "named_width e \<equiv> 12 + length (named_displayName e)"

text \<open>The loop of \<^verbatim>\<open>CalculatePayloadBytes\<close> over the leaderboard.\<close>

fun overview_named_bytes :: "nat \<Rightarrow> WorldOverviewLeaderboardEntry_v3 list \<Rightarrow> nat" where
  "overview_named_bytes bytes [] = bytes"
| "overview_named_bytes bytes (e # es) =
     (if length (named_displayName e) > MaximumPlayerDisplayNameBytes then 0
      else if named_width e > 8186 - bytes then 0
      else overview_named_bytes (bytes + named_width e) es)"

definition WorldOverviewSnapshot_v3_CalculatePayloadBytes :: "WorldOverviewSnapshot_v3 \<Rightarrow> nat" where
  "WorldOverviewSnapshot_v3_CalculatePayloadBytes value =
     (if length (overview_players value) > 65535 \<or> length (overview_namedLeaderboard value) > 10 then 0
      else case overview_player_bytes 46 (overview_players value) of None \<Rightarrow> 0
      | Some bytes \<Rightarrow> overview_named_bytes bytes (overview_namedLeaderboard value))"

definition WorldOverviewSnapshot_v3_IsValidNumeric :: "WorldOverviewSnapshot_v3 \<Rightarrow> bool" where
  "WorldOverviewSnapshot_v3_IsValidNumeric value \<longleftrightarrow>
     WorldOverview_IsValid (overview_namedLeaderboard value = []) value \<and>
     list_all (\<lambda>e. \<not> (named_rank e = 0 \<or> named_playerId e = 0)) (overview_namedLeaderboard value)"

definition write_named_entry :: "WorldOverviewLeaderboardEntry_v3 \<Rightarrow> nat \<Rightarrow> byte list \<Rightarrow> byte list option" where
  "write_named_entry e offset output = do {
     output \<leftarrow> WriteU16 (named_rank e) offset output;
     output \<leftarrow> WriteU32 (named_playerId e) (offset + 2) output;
     output \<leftarrow> WriteU32 (named_growthPoint e) (offset + 6) output;
     output \<leftarrow> WriteU16 (word_of_nat (length (named_displayName e))) (offset + 10) output;
     write_bytes (named_displayName e) (offset + 12) output }"

definition WorldOverviewSnapshot_v3_Encode ::
    "WorldOverviewSnapshot_v3 \<Rightarrow> byte list \<Rightarrow> (WorldProtocolError \<times> byte list) option" where
  "WorldOverviewSnapshot_v3_Encode value output =
     (let payloadBytes = WorldOverviewSnapshot_v3_CalculatePayloadBytes value in
      if payloadBytes = 0 \<or> length output \<noteq> payloadBytes then Some (InvalidLength, output)
      else if \<not> WorldOverviewSnapshot_v3_IsValidNumeric value then Some (InvalidNumeric, output)
      else if \<not> list_all (\<lambda>e. IsValidPlayerDisplayName (named_displayName e)) (overview_namedLeaderboard value)
      then Some (InvalidArgument, output)
      else do {
        output \<leftarrow> write_overview_header PayloadVersion_v3 value (length (overview_namedLeaderboard value)) output;
        output \<leftarrow> write_each write_overview_player player_width (overview_players value) 46 output;
        output \<leftarrow> write_each write_named_entry named_width (overview_namedLeaderboard value)
          (46 + (\<Sum>p \<leftarrow> overview_players value. player_width p)) output;
        Some (Success, output) })"

fun read_named_entries ::
    "nat \<Rightarrow> nat \<Rightarrow> byte list \<Rightarrow> (WorldProtocolError + WorldOverviewLeaderboardEntry_v3 list \<times> nat) option" where
  "read_named_entries 0 offset payload = Some (Inr ([], offset))"
| "read_named_entries (Suc n) offset payload =
     (if length payload - offset < 12 then Some (Inl InvalidLength)
      else do {
        rank \<leftarrow> ReadU16 offset payload;
        playerId \<leftarrow> ReadU32 (offset + 2) payload;
        growthPoint \<leftarrow> ReadU32 (offset + 6) payload;
        displayNameByteCount \<leftarrow> ReadU16 (offset + 10) payload;
        if unat displayNameByteCount > length payload - (offset + 12) then Some (Inl InvalidLength)
        else
          let displayNameBytes = take (unat displayNameByteCount) (drop (offset + 12) payload) in
          if \<not> IsValidPlayerDisplayName displayNameBytes then Some (Inl InvalidArgument)
          else do {
            rest \<leftarrow> read_named_entries n (offset + (12 + unat displayNameByteCount)) payload;
            case rest of Inl e \<Rightarrow> Some (Inl e)
            | Inr (entries, end) \<Rightarrow>
                Some (Inr (\<lparr>named_rank = rank, named_playerId = playerId, named_growthPoint = growthPoint,
                  named_displayName = displayNameBytes\<rparr> # entries, end)) } })"

definition WorldOverviewSnapshot_v3_Decode ::
    "bool \<Rightarrow> byte list \<Rightarrow> (WorldProtocolError + WorldOverviewSnapshot_v3) option" where
  "WorldOverviewSnapshot_v3_Decode outValue payload =
     (if \<not> outValue then Some (Inl InvalidArgument)
      else if length payload < 46 \<or> length payload > 8186 then Some (Inl InvalidLength)
      else do {
        version \<leftarrow> ReadU16 0 payload;
        if version \<noteq> PayloadVersion_v3 then Some (Inl UnsupportedVersion)
        else do {
          header \<leftarrow> read_overview_header payload;
          playerCount \<leftarrow> ReadU16 42 payload;
          leaderboardCount \<leftarrow> ReadU16 44 payload;
          if unat playerCount > (length payload - 46) div 18 \<or> unat leaderboardCount > 10 then Some (Inl InvalidLength)
          else do {
            result \<leftarrow> read_overview_players (unat playerCount) 46 payload;
            case result of Inl e \<Rightarrow> Some (Inl e)
            | Inr (players, offset) \<Rightarrow> do {
                result \<leftarrow> read_named_entries (unat leaderboardCount) offset payload;
                case result of Inl e \<Rightarrow> Some (Inl e)
                | Inr (entries, offset) \<Rightarrow>
                    if offset \<noteq> length payload then Some (Inl InvalidLength)
                    else
                      let decoded = WorldOverview.extend (header\<lparr>overview_players := players\<rparr>)
                        (WorldOverviewSnapshot_v3.fields entries) in
                      if \<not> WorldOverviewSnapshot_v3_IsValidNumeric decoded then Some (Inl InvalidNumeric)
                      else Some (Inr decoded) } } } })"

definition WorldOverviewSnapshot_v3_ok :: "WorldOverviewSnapshot_v3 \<Rightarrow> bool" where
  "WorldOverviewSnapshot_v3_ok v \<longleftrightarrow>
     WorldOverviewSnapshot_v3_CalculatePayloadBytes v \<noteq> 0 \<and> WorldOverviewSnapshot_v3_IsValidNumeric v \<and>
     list_all (\<lambda>e. IsValidPlayerDisplayName (named_displayName e)) (overview_namedLeaderboard v)"

definition named_bytes :: "WorldOverviewLeaderboardEntry_v3 \<Rightarrow> byte list" where
  "named_bytes e = le16 (named_rank e) @ le32 (named_playerId e) @ le32 (named_growthPoint e) @
     le16 (word_of_nat (length (named_displayName e))) @ named_displayName e"

lemma length_named_bytes [simp]: "length (named_bytes e) = named_width e" by (simp add: named_bytes_def)

lemma length_named [simp]: "length (concat (map named_bytes es)) = (\<Sum>e \<leftarrow> es. named_width e)"
  by (rule length_concat_map) simp

lemma write_named [wire_simps]:
  assumes "offset = length bs" "offset + (\<Sum>e \<leftarrow> es. named_width e) \<le> length dst"
  shows "write_each write_named_entry named_width es offset (wrote bs dst) = Some (wrote (bs @ concat (map named_bytes es)) dst)"
proof (rule write_each_wrote [OF _ _ assms])
  show "write_named_entry e (length cs) (wrote cs dst) = Some (wrote (cs @ named_bytes e) dst)"
    if "length cs + named_width e \<le> length dst" for e cs
    using that by (simp add: write_named_entry_def named_bytes_def wire_simps)
qed simp

lemma read_named_sent:
  assumes "drop offset payload = concat (map named_bytes es) @ p" "offset \<le> length payload"
    and "list_all (\<lambda>e. IsValidPlayerDisplayName (named_displayName e)) es"
  shows "read_named_entries (length es) offset payload = Some (Inr (es, offset + (\<Sum>e \<leftarrow> es. named_width e)))"
  using assms
proof (induction es arbitrary: offset)
  case (Cons e es)
  let ?n = "length (named_displayName e)"
  have name: "IsValidPlayerDisplayName (named_displayName e)" "list_all (\<lambda>e. IsValidPlayerDisplayName (named_displayName e)) es"
    using Cons.prems(3) by simp_all
  have n: "unat (word_of_nat ?n :: u16) = ?n" using IsValidPlayerDisplayName_length [OF name(1)] by simp
  have d: "drop offset payload = named_bytes e @ (concat (map named_bytes es) @ p)" using Cons.prems(1) by simp
  have room: "offset + named_width e \<le> length payload" using offset_room [OF d Cons.prems(2)] by simp
  have d': "drop (offset + named_width e) payload = concat (map named_bytes es) @ p"
    using arg_cong [OF d, of "drop (named_width e)"] by (simp add: add.commute)
  have d12: "take ?n (drop (offset + 12) payload) = named_displayName e"
    using arg_cong [OF d, of "drop 12"] by (simp add: named_bytes_def add.commute)
  have s: "slice (offset + k) m payload = slice k m (named_bytes e @ (concat (map named_bytes es) @ p))" for k m
    by (simp add: slice_def add.commute flip: d drop_drop)
  have h: "ReadU16 offset payload = Some (named_rank e)" "ReadU32 (offset + 2) payload = Some (named_playerId e)"
      "ReadU32 (offset + 6) payload = Some (named_growthPoint e)" "ReadU16 (offset + 10) payload = Some (word_of_nat ?n)"
    using room s [of 0] s [of 2] s [of 6] s [of 10]
    by (simp_all add: ReadU32_slice ReadU16_slice) (simp_all add: named_bytes_def wire_simps)
  have fits: "\<not> length payload - offset < 12" "\<not> length payload - (offset + 12) < ?n" using room by auto
  show ?case using h n fits d12 name(1) Cons.IH [OF d' room name(2)] by (simp add: Let_def)
qed simp

lemma read_named_defined:
  "offset \<le> length payload \<Longrightarrow>
    (\<exists>e. read_named_entries n offset payload = Some (Inl e) \<and> e \<noteq> Success) \<or>
    (\<exists>es. read_named_entries n offset payload = Some (Inr (es, offset + (\<Sum>e \<leftarrow> es. named_width e))) \<and> length es = n \<and>
      offset + (\<Sum>e \<leftarrow> es. named_width e) \<le> length payload \<and>
      list_all (\<lambda>e. IsValidPlayerDisplayName (named_displayName e)) es)"
proof (induction n arbitrary: offset)
  case (Suc n)
  let ?c = "of_le16 (slice (offset + 10) 2 payload)"
  let ?name = "take (unat ?c) (drop (offset + 12) payload)"
  show ?case
  proof (cases "length payload - offset < 12 \<or> unat ?c > length payload - (offset + 12) \<or> \<not> IsValidPlayerDisplayName ?name")
    case True
    then show ?thesis using Suc.prems by (auto simp: ReadU16_slice ReadU32_slice Let_def)
  next
    case False
    then have room: "offset + (12 + unat ?c) \<le> length payload" by auto
    let ?r = "\<lparr>named_rank = of_le16 (slice offset 2 payload), named_playerId = of_le32 (slice (offset + 2) 4 payload),
        named_growthPoint = of_le32 (slice (offset + 6) 4 payload), named_displayName = ?name\<rparr>"
    have "read_named_entries (Suc n) offset payload = do {
        rest \<leftarrow> read_named_entries n (offset + (12 + unat ?c)) payload;
        case rest of Inl e \<Rightarrow> Some (Inl e) | Inr (entries, end) \<Rightarrow> Some (Inr (?r # entries, end)) }"
      using False room by (simp add: ReadU16_slice ReadU32_slice Let_def del: add_2_eq_Suc')
    moreover have "length ?name = unat ?c" using room by simp
    ultimately show ?thesis using Suc.IH [OF room] False by (auto simp: add.assoc)
  qed
qed simp

lemma named_bytes_nonzero:
  "overview_named_bytes k es \<noteq> 0 \<Longrightarrow> k \<le> 8186 \<Longrightarrow>
    overview_named_bytes k es = k + (\<Sum>e \<leftarrow> es. named_width e) \<and> overview_named_bytes k es \<le> 8186"
proof (induction es arbitrary: k)
  case (Cons e es)
  have "overview_named_bytes (k + named_width e) es \<noteq> 0" "k + named_width e \<le> 8186"
      "overview_named_bytes k (e # es) = overview_named_bytes (k + named_width e) es"
    using Cons.prems by (auto split: if_splits)
  with Cons.IH [of "k + named_width e"] show ?case by simp
qed simp

lemma named_bytes_fit:
  "list_all (\<lambda>e. IsValidPlayerDisplayName (named_displayName e)) es \<Longrightarrow> k + (\<Sum>e \<leftarrow> es. named_width e) \<le> 8186 \<Longrightarrow>
    overview_named_bytes k es = k + (\<Sum>e \<leftarrow> es. named_width e)"
proof (induction es arbitrary: k)
  case (Cons e es)
  then have "length (named_displayName e) \<le> 48" using IsValidPlayerDisplayName_length by simp
  then show ?case using Cons.IH [of "k + named_width e"] Cons.prems by (simp add: MaximumPlayerDisplayNameBytes_def)
qed simp

lemma WorldOverviewSnapshot_v3_Calculate:
  assumes "WorldOverviewSnapshot_v3_CalculatePayloadBytes v \<noteq> 0"
  shows "WorldOverviewSnapshot_v3_CalculatePayloadBytes v =
      46 + (\<Sum>p \<leftarrow> overview_players v. player_width p) + (\<Sum>e \<leftarrow> overview_namedLeaderboard v. named_width e)"
    and "WorldOverviewSnapshot_v3_CalculatePayloadBytes v \<le> 8186" "length (overview_namedLeaderboard v) \<le> 10"
    and "\<forall>p \<in> set (overview_players v). overview_bodySamples p \<noteq> [] \<and> length (overview_bodySamples p) < 65536"
proof -
  obtain m where m: "overview_player_bytes 46 (overview_players v) = Some m"
      "WorldOverviewSnapshot_v3_CalculatePayloadBytes v = overview_named_bytes m (overview_namedLeaderboard v)"
    and l: "length (overview_namedLeaderboard v) \<le> 10"
    using assms by (auto simp: WorldOverviewSnapshot_v3_CalculatePayloadBytes_def split: option.splits if_splits)
  note p = player_bytes_Some [OF m(1), simplified]
  have "overview_named_bytes m (overview_namedLeaderboard v) \<noteq> 0" "m \<le> 8186" using assms m(2) p by simp_all
  note n = named_bytes_nonzero [OF this]
  show "WorldOverviewSnapshot_v3_CalculatePayloadBytes v =
      46 + (\<Sum>p \<leftarrow> overview_players v. player_width p) + (\<Sum>e \<leftarrow> overview_namedLeaderboard v. named_width e)"
    using n p m(2) by simp
  show "WorldOverviewSnapshot_v3_CalculatePayloadBytes v \<le> 8186" using n m(2) by simp
  show "length (overview_namedLeaderboard v) \<le> 10" by (rule l)
  show "\<forall>p \<in> set (overview_players v). overview_bodySamples p \<noteq> [] \<and> length (overview_bodySamples p) < 65536"
    using p by blast
qed

lemma WorldOverviewSnapshot_v3_Calculate_fits:
  assumes "\<forall>p \<in> set (overview_players v). overview_bodySamples p \<noteq> [] \<and> length (overview_bodySamples p) < 65536"
    and "46 + (\<Sum>p \<leftarrow> overview_players v. player_width p) + (\<Sum>e \<leftarrow> overview_namedLeaderboard v. named_width e) \<le> 8186"
    and "length (overview_namedLeaderboard v) \<le> 10"
    and "list_all (\<lambda>e. IsValidPlayerDisplayName (named_displayName e)) (overview_namedLeaderboard v)"
  shows "WorldOverviewSnapshot_v3_CalculatePayloadBytes v =
    46 + (\<Sum>p \<leftarrow> overview_players v. player_width p) + (\<Sum>e \<leftarrow> overview_namedLeaderboard v. named_width e)"
proof -
  have "length (overview_players v) \<le> 65535" using players_ge [OF assms(1)] assms(2) by linarith
  then show ?thesis using player_bytes_fit [OF assms(1), of 46] named_bytes_fit [OF assms(4)] assms(2,3)
    by (simp add: WorldOverviewSnapshot_v3_CalculatePayloadBytes_def)
qed

lemma WorldOverviewSnapshot_v3_canonical [simp]:
  "overview_namedLeaderboard (WorldOverview_canonical v) = overview_namedLeaderboard v"
  "WorldOverviewSnapshot_v3_IsValidNumeric (WorldOverview_canonical v) = WorldOverviewSnapshot_v3_IsValidNumeric v"
proof -
  show l: "overview_namedLeaderboard (WorldOverview_canonical v) = overview_namedLeaderboard v" for v :: WorldOverviewSnapshot_v3
    by (simp add: WorldOverview_canonical_def)
  show "WorldOverviewSnapshot_v3_IsValidNumeric (WorldOverview_canonical v) = WorldOverviewSnapshot_v3_IsValidNumeric v"
    by (simp add: WorldOverviewSnapshot_v3_IsValidNumeric_def l)
qed

lemma WorldOverviewSnapshot_v3_sent:
  assumes v: "WorldOverviewSnapshot_v3_ok v" and l: "length dst = WorldOverviewSnapshot_v3_CalculatePayloadBytes v"
  shows "\<exists>bytes. WorldOverviewSnapshot_v3_Encode v dst = Some (Success, bytes) \<and> length bytes = length dst \<and>
    WorldOverviewSnapshot_v3_Decode True bytes = Some (Inr (WorldOverview_canonical v))"
proof -
  let ?ps = "overview_players v" and ?es = "overview_namedLeaderboard v"
  have c: "WorldOverviewSnapshot_v3_CalculatePayloadBytes v \<noteq> 0" "WorldOverviewSnapshot_v3_IsValidNumeric v"
      "list_all (\<lambda>e. IsValidPlayerDisplayName (named_displayName e)) ?es"
    using v by (simp_all add: WorldOverviewSnapshot_v3_ok_def)
  note calc = WorldOverviewSnapshot_v3_Calculate [OF c(1)]
  define bytes where "bytes = header_bytes PayloadVersion_v3 v (length ?es) @ concat (map player_bytes ?ps) @
    concat (map named_bytes ?es)"
  have len: "length bytes = length dst" by (simp add: bytes_def l calc(1))
  have enc: "WorldOverviewSnapshot_v3_Encode v dst = Some (Success, bytes)"
    unfolding WorldOverviewSnapshot_v3_Encode_def Let_def using c l calc(1) by (simp add: wire_simps wrote_all bytes_def)
  have ge: "18 * length ?ps \<le> (\<Sum>p \<leftarrow> ?ps. player_width p)" by (rule players_ge [OF calc(4)])
  have n: "unat (word_of_nat (length ?ps) :: u16) = length ?ps" "unat (word_of_nat (length ?es) :: u16) = length ?es"
    using ge calc by simp_all
  have fits: "\<not> (length bytes - 46) div 18 < length ?ps" using ge len l calc(1) by auto
  let ?o = "46 + (\<Sum>p \<leftarrow> ?ps. player_width p)"
  have ps: "read_overview_players (length ?ps) 46 bytes = Some (Inr (map WorldOverviewPlayer_canonical ?ps, ?o))"
    by (rule read_players_sent [where p = "concat (map named_bytes ?es)", OF _ _ calc(4)]) (simp_all add: bytes_def)
  have es: "read_named_entries (length ?es) ?o bytes = Some (Inr (?es, ?o + (\<Sum>e \<leftarrow> ?es. named_width e)))"
    by (rule read_named_sent [where p = "[]", OF _ _ c(3)]) (simp_all add: bytes_def)
  have h: "read_overview_header bytes = Some (WorldOverview.truncate ((WorldOverview_canonical v)\<lparr>overview_players := []\<rparr>))"
      "ReadU16 0 bytes = Some PayloadVersion_v3" "ReadU16 42 bytes = Some (word_of_nat (length ?ps))"
      "ReadU16 44 bytes = Some (word_of_nat (length ?es))"
    unfolding bytes_def by (rule read_header_sent header_counts_sent)+
  have r: "WorldOverview.extend ((WorldOverview.truncate ((WorldOverview_canonical v)\<lparr>overview_players := []\<rparr>))
      \<lparr>overview_players := map WorldOverviewPlayer_canonical ?ps\<rparr>) (WorldOverviewSnapshot_v3.fields ?es) = WorldOverview_canonical v"
    by (cases v) (simp add: WorldOverview.defs WorldOverviewSnapshot_v3.defs WorldOverview_canonical_def)
  have "WorldOverviewSnapshot_v3_Decode True bytes = Some (Inr (WorldOverview_canonical v))"
    unfolding WorldOverviewSnapshot_v3_Decode_def Let_def
    using len l calc c(2) fits by (simp add: h ps es n r)
  then show ?thesis using enc len by blast
qed

lemma WorldOverviewSnapshot_v3_Decode_cases:
  obtains (failed) e where "WorldOverviewSnapshot_v3_Decode out bytes = Some (Inl e)" "e \<noteq> Success"
  | (decoded) v where "out" "WorldOverviewSnapshot_v3_Decode out bytes = Some (Inr v)" "WorldOverviewSnapshot_v3_ok v"
    "WorldOverviewSnapshot_v3_CalculatePayloadBytes v = length bytes" "WorldOverview_canonical v = v"
proof (cases "out \<and> 46 \<le> length bytes \<and> length bytes \<le> 8186 \<and> of_le16 (slice 0 2 bytes) = PayloadVersion_v3 \<and>
    unat (of_le16 (slice 42 2 bytes)) \<le> (length bytes - 46) div 18 \<and> unat (of_le16 (slice 44 2 bytes)) \<le> 10")
  case False
  then have "\<exists>e. WorldOverviewSnapshot_v3_Decode out bytes = Some (Inl e) \<and> e \<noteq> Success"
    using read_header_defined [of bytes] by (auto simp: WorldOverviewSnapshot_v3_Decode_def ReadU16_slice not_le)
  then show thesis using failed by blast
next
  case True
  then have o1: "out = True" and size: "46 \<le> length bytes" "length bytes \<le> 8186" by simp_all
  obtain h where h: "read_overview_header bytes = Some h" "overview_players h = []" "WorldOverview_canonical h = h"
    using read_header_defined [OF size(1)] by blast
  let ?n = "unat (of_le16 (slice 42 2 bytes))" and ?m = "unat (of_le16 (slice 44 2 bytes))"
  let ?v = "\<lambda>ps es. WorldOverview.extend (h\<lparr>overview_players := ps\<rparr>) (WorldOverviewSnapshot_v3.fields es)"
  have dec: "WorldOverviewSnapshot_v3_Decode True bytes = do {
      result \<leftarrow> read_overview_players ?n 46 bytes;
      case result of Inl e \<Rightarrow> Some (Inl e)
      | Inr (players, offset) \<Rightarrow> do {
          result \<leftarrow> read_named_entries ?m offset bytes;
          case result of Inl e \<Rightarrow> Some (Inl e)
          | Inr (entries, offset) \<Rightarrow>
              if offset \<noteq> length bytes then Some (Inl InvalidLength)
              else if \<not> WorldOverviewSnapshot_v3_IsValidNumeric (?v players entries) then Some (Inl InvalidNumeric)
              else Some (Inr (?v players entries)) } }"
    unfolding WorldOverviewSnapshot_v3_Decode_def Let_def using True by (simp add: ReadU16_slice h(1) not_less)
  from read_players_defined [OF size(1), of ?n] show thesis
  proof (elim disjE exE conjE)
    fix e assume "read_overview_players ?n 46 bytes = Some (Inl e)" "e \<noteq> Success"
    then show thesis by (intro failed) (simp_all add: dec o1)
  next
    fix ps let ?o = "46 + (\<Sum>p \<leftarrow> ps. player_width p)"
    assume ps: "read_overview_players ?n 46 bytes = Some (Inr (ps, ?o))" "length ps = ?n" "?o \<le> length bytes"
      "map WorldOverviewPlayer_canonical ps = ps"
      "\<forall>p \<in> set ps. overview_bodySamples p \<noteq> [] \<and> length (overview_bodySamples p) < 65536"
    from read_named_defined [OF ps(3), of ?m] show thesis
    proof (elim disjE exE conjE)
      fix e assume "read_named_entries ?m ?o bytes = Some (Inl e)" "e \<noteq> Success"
      then show thesis using ps(1) by (intro failed) (simp_all add: dec o1)
    next
      fix es assume es: "read_named_entries ?m ?o bytes = Some (Inr (es, ?o + (\<Sum>e \<leftarrow> es. named_width e)))" "length es = ?m"
        "list_all (\<lambda>e. IsValidPlayerDisplayName (named_displayName e)) es"
      have f: "overview_players (?v ps es) = ps" "overview_namedLeaderboard (?v ps es) = es"
        by (simp_all add: WorldOverview.defs WorldOverviewSnapshot_v3.defs)
      have can: "WorldOverview_canonical (?v ps es) = ?v ps es"
        using h(3) ps(4) by (cases h) (simp add: WorldOverview.defs WorldOverviewSnapshot_v3.defs WorldOverview_canonical_def)
      show thesis
      proof (cases "?o + (\<Sum>e \<leftarrow> es. named_width e) = length bytes \<and> WorldOverviewSnapshot_v3_IsValidNumeric (?v ps es)")
        case ok: True
        have calc: "WorldOverviewSnapshot_v3_CalculatePayloadBytes (?v ps es) = length bytes"
          using WorldOverviewSnapshot_v3_Calculate_fits [of "?v ps es"] ps(5) es(2,3) ok True size(2) by (simp add: f)
        show thesis using ps(1) es(1,3) ok can calc size(1)
          by (intro decoded [of "?v ps es"]) (auto simp: dec o1 f WorldOverviewSnapshot_v3_ok_def)
      next
        case False
        then have "\<exists>e. WorldOverviewSnapshot_v3_Decode out bytes = Some (Inl e) \<and> e \<noteq> Success"
          using ps(1) es(1) by (auto simp: dec o1)
        then show thesis using failed by blast
      qed
    qed
  qed
qed

interpretation world_overview_snapshot_v3: wire_message WorldOverviewSnapshot_v3_Encode WorldOverviewSnapshot_v3_Decode
  WorldOverviewSnapshot_v3_ok WorldOverviewSnapshot_v3_CalculatePayloadBytes WorldOverview_canonical
proof
  show "\<exists>bytes. WorldOverviewSnapshot_v3_Encode v dst = Some (Success, bytes) \<and> length bytes = length dst \<and>
      WorldOverviewSnapshot_v3_Decode True bytes = Some (Inr (WorldOverview_canonical v))"
    if "WorldOverviewSnapshot_v3_ok v" "length dst = WorldOverviewSnapshot_v3_CalculatePayloadBytes v" for v and dst :: "byte list"
    using that by (rule WorldOverviewSnapshot_v3_sent)
  show "\<exists>e. e \<noteq> Success \<and> WorldOverviewSnapshot_v3_Encode v dst = Some (e, dst)"
    if "\<not> (WorldOverviewSnapshot_v3_ok v \<and> length dst = WorldOverviewSnapshot_v3_CalculatePayloadBytes v)" for v dst
    using that by (auto simp: WorldOverviewSnapshot_v3_Encode_def WorldOverviewSnapshot_v3_ok_def Let_def)
  show "WorldOverviewSnapshot_v3_Decode out bytes \<noteq> None" for out bytes
    by (cases rule: WorldOverviewSnapshot_v3_Decode_cases [of out bytes]) simp_all
  show "WorldOverviewSnapshot_v3_Decode False bytes = Some (Inl InvalidArgument)" for bytes
    by (simp add: WorldOverviewSnapshot_v3_Decode_def)
  show "WorldOverviewSnapshot_v3_ok v \<and> WorldOverviewSnapshot_v3_CalculatePayloadBytes v = length bytes \<and>
      WorldOverview_canonical v = v" if "WorldOverviewSnapshot_v3_Decode True bytes = Some (Inr v)" for bytes v
    by (cases rule: WorldOverviewSnapshot_v3_Decode_cases [of True bytes]) (use that in simp_all)
  show "e \<noteq> Success" if "WorldOverviewSnapshot_v3_Decode out bytes = Some (Inl e)" for out bytes e
    by (cases rule: WorldOverviewSnapshot_v3_Decode_cases [of out bytes]) (use that in simp_all)
qed

end
