(* ===== verification/WsWireLaws.thy ===== *)
theory WsWireLaws imports WsClientMessages WsBatchMessages WsOverviewMessages begin

text \<open>
  The guarantees of the World protocol, for every message it has: encoding and decoding are a round
  trip, and neither ever touches a byte outside its span, whatever arrives from the network. Both are
  consequences of the contract \<open>wire_message\<close>, of which every message is an instance.
\<close>

section \<open>What the contract gives\<close>

definition round_trips ::
    "('v \<Rightarrow> byte list \<Rightarrow> (WorldProtocolError \<times> byte list) option) \<Rightarrow>
     (bool \<Rightarrow> byte list \<Rightarrow> (WorldProtocolError + 'v) option) \<Rightarrow>
     ('v \<Rightarrow> bool) \<Rightarrow> ('v \<Rightarrow> nat) \<Rightarrow> ('v \<Rightarrow> 'v) \<Rightarrow> bool" where
  "round_trips Encode Decode valid payload_bytes canonical \<longleftrightarrow>
     (\<forall>v dst. (\<exists>bytes. Encode v dst = Some (Success, bytes)) = (valid v \<and> length dst = payload_bytes v)) \<and>
     (\<forall>v dst bytes. Encode v dst = Some (Success, bytes) \<longrightarrow>
        length bytes = length dst \<and> Decode True bytes = Some (Inr (canonical v))) \<and>
     (\<forall>v dst bytes. Decode True bytes = Some (Inr v) \<and> length dst = length bytes \<longrightarrow>
        canonical v = v \<and> (\<exists>bytes'. Encode v dst = Some (Success, bytes') \<and> Decode True bytes' = Some (Inr v)))"

definition stays_in_bounds ::
    "('v \<Rightarrow> byte list \<Rightarrow> (WorldProtocolError \<times> byte list) option) \<Rightarrow>
     (bool \<Rightarrow> byte list \<Rightarrow> (WorldProtocolError + 'v) option) \<Rightarrow> bool" where
  "stays_in_bounds Encode Decode \<longleftrightarrow>
     (\<forall>v dst. \<exists>e bytes. Encode v dst = Some (e, bytes) \<and> length bytes = length dst \<and> (e = Success \<or> bytes = dst)) \<and>
     (\<forall>bytes. \<exists>r. Decode True bytes = Some r) \<and> (\<forall>bytes. Decode False bytes = Some (Inl InvalidArgument))"

context wire_message begin

lemma codec_round_trips: "round_trips Encode Decode valid payload_bytes canonical"
  unfolding round_trips_def
proof (intro conjI allI impI)
  show "(\<exists>bytes. Encode v dst = Some (Success, bytes)) = (valid v \<and> length dst = payload_bytes v)" for v dst
    by (rule encode_succeeds)
  show "length bytes = length dst" if "Encode v dst = Some (Success, bytes)" for v dst bytes
    using encode_succeeds [of v dst] encode_ok [of v dst] that by auto
  show "Decode True bytes = Some (Inr (canonical v))" if "Encode v dst = Some (Success, bytes)" for v dst bytes
    using that by (rule encode_decodes)
  show "canonical v = v" if "Decode True bytes = Some (Inr v) \<and> length dst = length bytes" for v dst bytes
    using decode_ok that by blast
  show "\<exists>bytes'. Encode v dst = Some (Success, bytes') \<and> Decode True bytes' = Some (Inr v)"
    if "Decode True bytes = Some (Inr v) \<and> length dst = length bytes" for v dst bytes
    using decode_encodes that by blast
qed

lemma codec_stays_in_bounds: "stays_in_bounds Encode Decode"
  unfolding stays_in_bounds_def
proof (intro conjI allI)
  show "\<exists>e bytes. Encode v dst = Some (e, bytes) \<and> length bytes = length dst \<and> (e = Success \<or> bytes = dst)" for v dst
    using encode_ok [of v dst] encode_error [of v dst] by blast
  show "\<exists>r. Decode True bytes = Some r" for bytes using decode_defined by blast
  show "Decode False bytes = Some (Inl InvalidArgument)" for bytes by (rule decode_null)
qed

end

section \<open>Properties\<close>

text \<open>
  Property C31. Every message a client sends arrives as it was sent: a value is encoded exactly when it
  is valid and the span has its length, the payload then decodes to that value, and a payload that the
  server accepts is one that encoding the accepted value could have produced.
\<close>
theorem client_messages_round_trip:
  "round_trips MovementInput_Encode MovementInput_Decode MovementInput_IsValid (\<lambda>v. 14) (\<lambda>v. v) \<and>
   round_trips JoinWorldRequest_v1_Encode JoinWorldRequest_v1_Decode (\<lambda>v. True) (\<lambda>v. 2) (\<lambda>v. v) \<and>
   round_trips JoinWorldRequest_v2_Encode JoinWorldRequest_v2_Decode
     (\<lambda>v. IsValidPlayerDisplayName (join_displayName v)) (\<lambda>v. 4 + length (join_displayName v)) (\<lambda>v. v) \<and>
   round_trips ObserveWorldRequest_Encode ObserveWorldRequest_Decode (\<lambda>v. True) (\<lambda>v. 2) (\<lambda>v. v) \<and>
   round_trips WorldTimeSyncRequest_Encode WorldTimeSyncRequest_Decode (\<lambda>v. True) (\<lambda>v. 6) (\<lambda>v. v) \<and>
   round_trips ControlStateCommand_Encode ControlStateCommand_Decode ControlStateCommand_ok (\<lambda>v. 14) (\<lambda>v. v)"
  by (intro conjI movement_input.codec_round_trips join_world_request_v1.codec_round_trips
      join_world_request_v2.codec_round_trips observe_world_request.codec_round_trips
      world_time_sync_request.codec_round_trips control_state_command.codec_round_trips)

text \<open>
  Property C15. Every message the server sends arrives as it was sent, up to the sign of zeros: the
  messages of fixed size, those with a display name, the body trails, the winners of a round, the
  chunked entity batches and both versions of the overview. In particular a batch or an overview whose
  size the server computes decodes to the same records, in the same order.
\<close>
theorem server_messages_round_trip:
  "round_trips WorldTimeSyncResponse_Encode WorldTimeSyncResponse_Decode (\<lambda>v. True) (\<lambda>v. 10) (\<lambda>v. v) \<and>
   round_trips EntityRemove_Encode EntityRemove_Decode (\<lambda>v. EntityRemove_Validate v = Success) (\<lambda>v. 16) (\<lambda>v. v) \<and>
   round_trips ScoreState_Encode ScoreState_Decode ScoreState_IsValid (\<lambda>v. 14) (\<lambda>v. v) \<and>
   round_trips RoundState_Encode RoundState_Decode (\<lambda>v. RoundState_Validate v = Success) (\<lambda>v. 24) (\<lambda>v. v) \<and>
   round_trips ControlledEntityRebind_Encode ControlledEntityRebind_Decode ControlledEntityRebind_IsValid
     (\<lambda>v. 26) (\<lambda>v. v) \<and>
   round_trips ObserverReady_Encode ObserverReady_Decode ObserverReady_IsValid (\<lambda>v. 30) ObserverReady_canonical \<and>
   round_trips WorldReady_v1_Encode WorldReady_v1_Decode WorldReady_v1_IsValid (\<lambda>v. 46) WorldReady_v1_canonical \<and>
   round_trips WorldReady_v2_Encode WorldReady_v2_Decode
     (\<lambda>v. WorldReady_v2_IsValidNumeric v \<and> IsValidPlayerDisplayName (ready2_displayName v))
     (\<lambda>v. 52 + length (ready2_displayName v)) WorldReady_v2_canonical \<and>
   round_trips EntitySpawn_v1_Encode EntitySpawn_v1_Decode (\<lambda>v. EntitySpawn_v1_Validate v = Success) (\<lambda>v. 50)
     EntitySpawn_v1_canonical \<and>
   round_trips EntitySpawn_v2_Encode EntitySpawn_v2_Decode (\<lambda>v. EntitySpawn_v2_Validate v = Success)
     (\<lambda>v. 56 + length (spawn2_displayName v)) EntitySpawn_v2_canonical \<and>
   round_trips ControlledEntityState_v1_Encode ControlledEntityState_v1_Decode ControlledEntityState_v1_IsValid
     (\<lambda>v. 30) ControlledEntityState_v1_canonical \<and>
   round_trips ControlledEntityState_v2_Encode ControlledEntityState_v2_Decode ControlledEntityState_v2_ok
     (\<lambda>v. 38 + 8 * length (state2_bodyTrailSamples v)) ControlledEntityState_v2_canonical \<and>
   round_trips RoundResult_Encode RoundResult_Decode
     (\<lambda>v. RoundResult_Validate v = Success \<and> length (result_winnerPlayerIds v) \<le> RoundResult_MaximumWinnerCount)
     (\<lambda>v. 20 + 4 * length (result_winnerPlayerIds v)) (\<lambda>v. v) \<and>
   round_trips EntityStateBatch_v1_Encode EntityStateBatch_v1_Decode
     (\<lambda>v. EntityStateBatch_v1_Validate (batch_records v) = Success) (\<lambda>v. 8 + 28 * length (batch_records v))
     EntityStateBatch_v1_canonical \<and>
   round_trips EntityStateBatch_v2_Encode EntityStateBatch_v2_Decode EntityStateBatch_v2_ok
     (\<lambda>v. 16 + (\<Sum>r \<leftarrow> batch2_records v. trail_width r)) EntityStateBatch_v2_canonical \<and>
   round_trips WorldOverviewSnapshot_v2_Encode WorldOverviewSnapshot_v2_Decode WorldOverviewSnapshot_v2_ok
     WorldOverviewSnapshot_v2_CalculatePayloadBytes WorldOverview_canonical \<and>
   round_trips WorldOverviewSnapshot_v3_Encode WorldOverviewSnapshot_v3_Decode WorldOverviewSnapshot_v3_ok
     WorldOverviewSnapshot_v3_CalculatePayloadBytes WorldOverview_canonical"
  by (intro conjI world_time_sync_response.codec_round_trips entity_remove.codec_round_trips
      score_state.codec_round_trips round_state.codec_round_trips controlled_entity_rebind.codec_round_trips
      observer_ready.codec_round_trips world_ready_v1.codec_round_trips world_ready_v2.codec_round_trips
      entity_spawn_v1.codec_round_trips entity_spawn_v2.codec_round_trips controlled_entity_state_v1.codec_round_trips
      controlled_entity_state_v2.codec_round_trips round_result.codec_round_trips
      entity_state_batch_v1.codec_round_trips entity_state_batch_v2.codec_round_trips
      world_overview_snapshot_v2.codec_round_trips world_overview_snapshot_v3.codec_round_trips)

text \<open>
  Property C14. No payload makes a decoder read outside it, and no value makes an encoder write outside
  its span: whatever bytes a peer sends, with whatever counts and lengths in them, every decoder
  returns a value or an error; an encoder that fails leaves the span as it was; and a null output
  pointer is refused.
\<close>
theorem codecs_stay_in_bounds:
  "stays_in_bounds MovementInput_Encode MovementInput_Decode \<and>
   stays_in_bounds JoinWorldRequest_v1_Encode JoinWorldRequest_v1_Decode \<and>
   stays_in_bounds JoinWorldRequest_v2_Encode JoinWorldRequest_v2_Decode \<and>
   stays_in_bounds ObserveWorldRequest_Encode ObserveWorldRequest_Decode \<and>
   stays_in_bounds WorldTimeSyncRequest_Encode WorldTimeSyncRequest_Decode \<and>
   stays_in_bounds ControlStateCommand_Encode ControlStateCommand_Decode \<and>
   stays_in_bounds WorldTimeSyncResponse_Encode WorldTimeSyncResponse_Decode \<and>
   stays_in_bounds EntityRemove_Encode EntityRemove_Decode \<and>
   stays_in_bounds ScoreState_Encode ScoreState_Decode \<and>
   stays_in_bounds RoundState_Encode RoundState_Decode \<and>
   stays_in_bounds ControlledEntityRebind_Encode ControlledEntityRebind_Decode \<and>
   stays_in_bounds ObserverReady_Encode ObserverReady_Decode \<and>
   stays_in_bounds WorldReady_v1_Encode WorldReady_v1_Decode \<and>
   stays_in_bounds WorldReady_v2_Encode WorldReady_v2_Decode \<and>
   stays_in_bounds EntitySpawn_v1_Encode EntitySpawn_v1_Decode \<and>
   stays_in_bounds EntitySpawn_v2_Encode EntitySpawn_v2_Decode \<and>
   stays_in_bounds ControlledEntityState_v1_Encode ControlledEntityState_v1_Decode \<and>
   stays_in_bounds ControlledEntityState_v2_Encode ControlledEntityState_v2_Decode \<and>
   stays_in_bounds RoundResult_Encode RoundResult_Decode \<and>
   stays_in_bounds EntityStateBatch_v1_Encode EntityStateBatch_v1_Decode \<and>
   stays_in_bounds EntityStateBatch_v2_Encode EntityStateBatch_v2_Decode \<and>
   stays_in_bounds WorldOverviewSnapshot_v2_Encode WorldOverviewSnapshot_v2_Decode \<and>
   stays_in_bounds WorldOverviewSnapshot_v3_Encode WorldOverviewSnapshot_v3_Decode"
  by (intro conjI movement_input.codec_stays_in_bounds join_world_request_v1.codec_stays_in_bounds
      join_world_request_v2.codec_stays_in_bounds observe_world_request.codec_stays_in_bounds
      world_time_sync_request.codec_stays_in_bounds control_state_command.codec_stays_in_bounds
      world_time_sync_response.codec_stays_in_bounds entity_remove.codec_stays_in_bounds
      score_state.codec_stays_in_bounds round_state.codec_stays_in_bounds controlled_entity_rebind.codec_stays_in_bounds
      observer_ready.codec_stays_in_bounds world_ready_v1.codec_stays_in_bounds world_ready_v2.codec_stays_in_bounds
      entity_spawn_v1.codec_stays_in_bounds entity_spawn_v2.codec_stays_in_bounds
      controlled_entity_state_v1.codec_stays_in_bounds controlled_entity_state_v2.codec_stays_in_bounds
      round_result.codec_stays_in_bounds entity_state_batch_v1.codec_stays_in_bounds
      entity_state_batch_v2.codec_stays_in_bounds world_overview_snapshot_v2.codec_stays_in_bounds
      world_overview_snapshot_v3.codec_stays_in_bounds)

section \<open>Samples\<close>

definition sample_input :: MovementInput where
  "sample_input = \<lparr>controlledEntityGeneration = 1, targetServerTick = 258, moveX = - 5, moveY = 7\<rparr>"

theorem client_messages_round_trip_witness:
  "\<exists>bytes. MovementInput_Encode sample_input (replicate 14 0) = Some (Success, bytes) \<and>
    MovementInput_Decode True bytes = Some (Inr sample_input)"
proof -
  have "MovementInput_IsValid sample_input" by (simp add: sample_input_def MovementInput_IsValid_def)
  moreover have "round_trips MovementInput_Encode MovementInput_Decode MovementInput_IsValid (\<lambda>v. 14) (\<lambda>v. v)"
    using client_messages_round_trip by blast
  ultimately show ?thesis unfolding round_trips_def by (metis length_replicate)
qed

definition sample_batch :: EntityStateBatch_v2 where
  "sample_batch = \<lparr>batch2_serverTick = 3, batch2_snapshotId = 1, batch2_chunkIndex = 0, batch2_chunkCount = 1,
     batch2_records = [\<lparr>trail_entityId = 9, trail_generation = 1, trail_headPositionX = 0x80000000,
       trail_headPositionY = 0x3F800000, trail_headingRadians = 0, trail_diameter = 0x3F800000, trail_growthPoint = 4,
       trail_boostState = BoostState_Off, trail_bodyTrailSamples = [\<lparr>samplePositionX = 0, samplePositionY = 0\<rparr>]\<rparr>]\<rparr>"

theorem server_messages_round_trip_witness:
  "\<exists>bytes. EntityStateBatch_v2_Encode sample_batch (replicate 56 0) = Some (Success, bytes) \<and>
    EntityStateBatch_v2_Decode True bytes = Some (Inr (EntityStateBatch_v2_canonical sample_batch))"
proof -
  have "F32_isfinite 0x80000000" "F32_isfinite 0x3F800000" "\<not> F32_less_eq 0x3F800000 0"
    by (simp_all add: F32_isfinite_def F32_magnitude_def F32_less_eq_def F32_key_def)
  then have "EntityStateBatch_v2_ok sample_batch"
    by (simp add: sample_batch_def EntityStateBatch_v2_ok_def EntityStateBatch_v2_Validate_def
        EntityStateRecord_v2_Validate_def BodySample_IsValid_def BoostState_Off_def BoostState_On_def)
  moreover have "(\<Sum>r \<leftarrow> batch2_records sample_batch. trail_width r) = 40" by (simp add: sample_batch_def)
  moreover have rt: "round_trips EntityStateBatch_v2_Encode EntityStateBatch_v2_Decode EntityStateBatch_v2_ok
     (\<lambda>v. 16 + (\<Sum>r \<leftarrow> batch2_records v. trail_width r)) EntityStateBatch_v2_canonical"
    using server_messages_round_trip by blast
  ultimately have "\<exists>bytes. EntityStateBatch_v2_Encode sample_batch (replicate 56 0) = Some (Success, bytes)"
    unfolding round_trips_def by simp
  then show ?thesis using rt unfolding round_trips_def by blast
qed

theorem codecs_stay_in_bounds_witness:
  "\<exists>r. WorldOverviewSnapshot_v3_Decode True (replicate 46 0xFF) = Some r"
  using codecs_stay_in_bounds unfolding stays_in_bounds_def by blast

end
