(* ===== verification/WsIdentity.thy ===== *)
theory WsIdentity imports NrPrelude begin

text \<open>
  The vocabulary of the World server's own state: error codes and results (\<^verbatim>\<open>WorldResult.h\<close>) and the
  identities of entities (\<^verbatim>\<open>WorldEntityIdentity.h\<close>). A \<^verbatim>\<open>WorldResult<T, E>\<close> is a value of the
  sum type \<open>E + T\<close>; a \<^verbatim>\<open>WorldResult<void, E>\<close> succeeds with the unit value.
\<close>

datatype WorldErrorCode =
    InvalidArgument | InvalidCapacity | InvalidInput | InvalidState | InvalidConfig | MalformedPayload | NotFound
  | AlreadyExists | InvalidSessionSet | NonSequentialTick | ArithmeticOverflow | InitialPenetration
  | AllocationFailed | CapacityExceeded | DependencyFailure | OperationFailed

record WorldEntityKey =
  entityId :: u32
  generation :: u32

definition WorldEntityKey_IsValid :: "WorldEntityKey \<Rightarrow> bool" where
  "WorldEntityKey_IsValid key \<longleftrightarrow> entityId key \<noteq> 0 \<and> generation key \<noteq> 0"

text \<open>The comparison the compiler generates: the members in the order of their declaration.\<close>

definition WorldEntityKey_less :: "WorldEntityKey \<Rightarrow> WorldEntityKey \<Rightarrow> bool" where
  "WorldEntityKey_less a b \<longleftrightarrow>
     (if entityId a \<noteq> entityId b then entityId a < entityId b else generation a < generation b)"

record EntityHandle =
  slotIndex :: u32
  slotGeneration :: u32

definition EntityHandle_IsValid :: "EntityHandle \<Rightarrow> bool" where
  "EntityHandle_IsValid handle \<longleftrightarrow> slotGeneration handle \<noteq> 0"

lemma WorldEntityKey_less_irrefl [simp]: "\<not> WorldEntityKey_less a a"
  by (simp add: WorldEntityKey_less_def)

lemma WorldEntityKey_less_trans: "WorldEntityKey_less a b \<Longrightarrow> WorldEntityKey_less b c \<Longrightarrow> WorldEntityKey_less a c"
  by (auto simp: WorldEntityKey_less_def split: if_splits)

lemma WorldEntityKey_less_total: "a \<noteq> b \<Longrightarrow> WorldEntityKey_less a b \<or> WorldEntityKey_less b a"
  by (cases a, cases b) (auto simp: WorldEntityKey_less_def)

end
