(* ===== verification/WsDoubleBuffer.thy ===== *)
theory WsDoubleBuffer imports WsIdentity begin

text \<open>
  The double buffer between the pump that collects network events and the owner of the World
  (\<^verbatim>\<open>WorldDoubleBufferRoleExchange.h/.cpp\<close>, \<^verbatim>\<open>WorldIngressDoubleBuffer.h/.cpp\<close>): two slots whose
  roles, written and read, are exchanged at the boundary of a tick. Every operation runs under the
  mutex of the exchange and is a function of its state. A wait on the condition variable with a
  predicate returns the value of the predicate when it returns, so that an operation that waits is
  its effect at that moment: if the predicate is false then, the time has run out.
\<close>

section \<open>The exchange of roles\<close>

datatype WorldDoubleBufferRoleExchangeError = InvalidArgument | InvalidState | TimedOut | Closed

record WorldDoubleBufferWriteClaim =
  write_slotIndex :: nat
  write_generation :: u64

record WorldDoubleBufferReadClaim =
  read_slotIndex :: nat
  read_generation :: u64
  read_epoch :: u64

record WorldDoubleBufferRoleExchange =
  writeSlotIndex :: nat
  readSlotIndex :: nat
  exchangeGeneration :: u64
  publishedEpoch :: u64
  writeClaimActive :: bool
  readClaimActive :: bool
  readReady :: bool
  swapPending :: bool
  closed :: bool

definition RoleExchange_construct :: WorldDoubleBufferRoleExchange where
  "RoleExchange_construct = \<lparr>writeSlotIndex = 0, readSlotIndex = 1, exchangeGeneration = 1, publishedEpoch = 0,
     writeClaimActive = False, readClaimActive = False, readReady = False, swapPending = False, closed = False\<rparr>"

definition RoleExchange_WaitAcquireWrite ::
    "u64 \<Rightarrow> int \<Rightarrow> WorldDoubleBufferRoleExchange \<Rightarrow>
     (WorldDoubleBufferRoleExchangeError + WorldDoubleBufferWriteClaim) \<times> WorldDoubleBufferRoleExchange" where
  "RoleExchange_WaitAcquireWrite minimumGeneration timeout x =
     (if timeout < 0 then (Inl InvalidArgument, x)
      else if \<not> (closed x \<or> (\<not> swapPending x \<and> \<not> writeClaimActive x \<and> exchangeGeneration x \<ge> minimumGeneration))
      then (Inl TimedOut, x)
      else if closed x then (Inl Closed, x)
      else (Inr \<lparr>write_slotIndex = writeSlotIndex x, write_generation = exchangeGeneration x\<rparr>,
            x\<lparr>writeClaimActive := True\<rparr>))"

definition MatchesActiveWrite :: "WorldDoubleBufferWriteClaim \<Rightarrow> WorldDoubleBufferRoleExchange \<Rightarrow> bool" where
  "MatchesActiveWrite claim x \<longleftrightarrow>
     writeClaimActive x \<and> write_slotIndex claim = writeSlotIndex x \<and> write_generation claim = exchangeGeneration x"

definition RoleExchange_ReleaseWrite ::
    "WorldDoubleBufferWriteClaim \<Rightarrow> WorldDoubleBufferRoleExchange \<Rightarrow>
     (WorldDoubleBufferRoleExchangeError + unit) \<times> WorldDoubleBufferRoleExchange" where
  "RoleExchange_ReleaseWrite claim x =
     (if \<not> writeClaimActive x \<or> write_slotIndex claim \<noteq> writeSlotIndex x \<or> write_generation claim \<noteq> exchangeGeneration x
      then (Inl InvalidState, x)
      else (Inr (), x\<lparr>writeClaimActive := False\<rparr>))"

text \<open>
  A swap announces itself, which keeps new writers out, and then waits: \<open>WaitSwap_begin\<close> is the part
  before the wait, \<open>WaitSwap_end\<close> the part after it; the other threads run in between.
\<close>

definition WaitSwap_begin ::
    "u64 \<Rightarrow> int \<Rightarrow> WorldDoubleBufferRoleExchange \<Rightarrow>
     (WorldDoubleBufferRoleExchangeError + unit) \<times> WorldDoubleBufferRoleExchange" where
  "WaitSwap_begin epoch timeout x =
     (if epoch = 0 \<or> timeout < 0 then (Inl InvalidArgument, x)
      else if closed x then (Inl Closed, x)
      else if epoch \<le> publishedEpoch x \<or> exchangeGeneration x = - 1 \<or> swapPending x then (Inl InvalidState, x)
      else (Inr (), x\<lparr>swapPending := True\<rparr>))"

definition WaitSwap_end ::
    "u64 \<Rightarrow> WorldDoubleBufferRoleExchange \<Rightarrow>
     (WorldDoubleBufferRoleExchangeError + unit) \<times> WorldDoubleBufferRoleExchange" where
  "WaitSwap_end epoch x =
     (if \<not> (closed x \<or> (\<not> writeClaimActive x \<and> \<not> readClaimActive x \<and> \<not> readReady x))
      then (Inl TimedOut, x\<lparr>swapPending := False\<rparr>)
      else if closed x then (Inl Closed, x\<lparr>swapPending := False\<rparr>)
      else (Inr (), x\<lparr>writeSlotIndex := readSlotIndex x, readSlotIndex := writeSlotIndex x,
              exchangeGeneration := exchangeGeneration x + 1, publishedEpoch := epoch, readReady := True,
              swapPending := False\<rparr>))"

definition RoleExchange_WaitSwap ::
    "u64 \<Rightarrow> int \<Rightarrow> (WorldDoubleBufferRoleExchange \<Rightarrow> WorldDoubleBufferRoleExchange) \<Rightarrow> WorldDoubleBufferRoleExchange \<Rightarrow>
     (WorldDoubleBufferRoleExchangeError + unit) \<times> WorldDoubleBufferRoleExchange" where
  "RoleExchange_WaitSwap epoch timeout others x =
     (case WaitSwap_begin epoch timeout x of (Inl e, x) \<Rightarrow> (Inl e, x) | (Inr u, x) \<Rightarrow> WaitSwap_end epoch (others x))"

definition RoleExchange_WaitAcquireRead ::
    "u64 \<Rightarrow> int \<Rightarrow> WorldDoubleBufferRoleExchange \<Rightarrow>
     (WorldDoubleBufferRoleExchangeError + WorldDoubleBufferReadClaim) \<times> WorldDoubleBufferRoleExchange" where
  "RoleExchange_WaitAcquireRead epoch timeout x =
     (if epoch = 0 \<or> timeout < 0 then (Inl InvalidArgument, x)
      else if \<not> (closed x \<or> readReady x) then (Inl TimedOut, x)
      else if closed x then (Inl Closed, x)
      else if readClaimActive x \<or> publishedEpoch x \<noteq> epoch then (Inl InvalidState, x)
      else (Inr \<lparr>read_slotIndex = readSlotIndex x, read_generation = exchangeGeneration x, read_epoch = publishedEpoch x\<rparr>,
            x\<lparr>readReady := False, readClaimActive := True\<rparr>))"

definition MatchesActiveRead :: "WorldDoubleBufferReadClaim \<Rightarrow> WorldDoubleBufferRoleExchange \<Rightarrow> bool" where
  "MatchesActiveRead claim x \<longleftrightarrow>
     readClaimActive x \<and> read_slotIndex claim = readSlotIndex x \<and> read_generation claim = exchangeGeneration x \<and>
     read_epoch claim = publishedEpoch x"

definition RoleExchange_ReleaseRead ::
    "WorldDoubleBufferReadClaim \<Rightarrow> WorldDoubleBufferRoleExchange \<Rightarrow>
     (WorldDoubleBufferRoleExchangeError + unit) \<times> WorldDoubleBufferRoleExchange" where
  "RoleExchange_ReleaseRead claim x =
     (if \<not> readClaimActive x \<or> read_slotIndex claim \<noteq> readSlotIndex x \<or> read_generation claim \<noteq> exchangeGeneration x \<or>
         read_epoch claim \<noteq> publishedEpoch x
      then (Inl InvalidState, x)
      else (Inr (), x\<lparr>readClaimActive := False\<rparr>))"

definition RoleExchange_Close :: "WorldDoubleBufferRoleExchange \<Rightarrow> WorldDoubleBufferRoleExchange" where
  "RoleExchange_Close x = x\<lparr>closed := True\<rparr>"

section \<open>The storage of the events\<close>

text \<open>
  A span of events points into a slot; its pointer is the slot with the offset of its first event.
  \<open>blank\<close> is the event a default constructor makes.
\<close>

record EventSpan =
  spanSlot :: nat
  spanOffset :: nat
  spanSize :: nat

record WorldIngressWriteBatch =
  write_claim :: WorldDoubleBufferWriteClaim
  write_events :: EventSpan

record WorldIngressReadBatch =
  read_claim :: WorldDoubleBufferReadClaim
  batch_epoch :: u64
  read_events :: EventSpan

record 'e IngressSlot =
  slotEvents :: "'e list"
  slotEventCount :: nat

record 'e WorldIngressDoubleBuffer =
  ingressSlots :: "'e IngressSlot list"
  roleExchange :: WorldDoubleBufferRoleExchange

definition WorldIngressDoubleBuffer_construct :: "'e \<Rightarrow> nat \<Rightarrow> 'e WorldIngressDoubleBuffer" where
  "WorldIngressDoubleBuffer_construct blank eventCapacityPerSlot =
     \<lparr>ingressSlots = replicate 2 \<lparr>slotEvents = replicate eventCapacityPerSlot blank, slotEventCount = 0\<rparr>,
      roleExchange = RoleExchange_construct\<rparr>"

definition WorldIngressDoubleBuffer_Create ::
    "bool \<Rightarrow> 'e \<Rightarrow> nat \<Rightarrow> WorldErrorCode + 'e WorldIngressDoubleBuffer" where
  "WorldIngressDoubleBuffer_Create allocated blank eventCapacityPerSlot =
     (if eventCapacityPerSlot = 0 then Inl WorldErrorCode.InvalidArgument
      else if \<not> allocated then Inl AllocationFailed
      else Inr (WorldIngressDoubleBuffer_construct blank eventCapacityPerSlot))"

definition Ingress_WaitAcquireWrite ::
    "u64 \<Rightarrow> int \<Rightarrow> 'e WorldIngressDoubleBuffer \<Rightarrow>
     (WorldDoubleBufferRoleExchangeError + WorldIngressWriteBatch) \<times> 'e WorldIngressDoubleBuffer" where
  "Ingress_WaitAcquireWrite minimumGeneration timeout buf =
     (case RoleExchange_WaitAcquireWrite minimumGeneration timeout (roleExchange buf) of
        (Inl e, x) \<Rightarrow> (Inl e, buf\<lparr>roleExchange := x\<rparr>)
      | (Inr claim, x) \<Rightarrow>
          let slot = ingressSlots buf ! write_slotIndex claim in
          (Inr \<lparr>write_claim = claim, write_events = \<lparr>spanSlot = write_slotIndex claim, spanOffset = slotEventCount slot,
              spanSize = length (slotEvents slot) - slotEventCount slot\<rparr>\<rparr>,
           buf\<lparr>roleExchange := x\<rparr>))"

definition CommitWrite_store ::
    "WorldIngressWriteBatch \<Rightarrow> nat \<Rightarrow> 'e WorldIngressDoubleBuffer \<Rightarrow>
     (WorldDoubleBufferRoleExchangeError + unit) \<times> 'e WorldIngressDoubleBuffer" where
  "CommitWrite_store batch eventCount buf =
     (if \<not> MatchesActiveWrite (write_claim batch) (roleExchange buf) then (Inl InvalidState, buf)
      else let i = write_slotIndex (write_claim batch); slot = ingressSlots buf ! i; events = write_events batch in
        if spanSlot events \<noteq> i \<or> spanOffset events \<noteq> slotEventCount slot \<or>
           spanSize events \<noteq> length (slotEvents slot) - slotEventCount slot \<or> eventCount > spanSize events
        then (Inl InvalidArgument, buf)
        else (Inr (), buf\<lparr>ingressSlots := (ingressSlots buf)[i := slot\<lparr>slotEventCount := slotEventCount slot + eventCount\<rparr>]\<rparr>))"

definition Ingress_CommitWrite ::
    "WorldIngressWriteBatch \<Rightarrow> nat \<Rightarrow> 'e WorldIngressDoubleBuffer \<Rightarrow>
     (WorldDoubleBufferRoleExchangeError + unit) \<times> 'e WorldIngressDoubleBuffer" where
  "Ingress_CommitWrite batch eventCount buf =
     (case CommitWrite_store batch eventCount buf of
        (Inl e, buf) \<Rightarrow> (Inl e, buf)
      | (Inr u, buf) \<Rightarrow>
          (case RoleExchange_ReleaseWrite (write_claim batch) (roleExchange buf) of
             (r, x) \<Rightarrow> (r, buf\<lparr>roleExchange := x\<rparr>)))"

definition Ingress_WaitAcquireRead ::
    "u64 \<Rightarrow> int \<Rightarrow> 'e WorldIngressDoubleBuffer \<Rightarrow>
     (WorldDoubleBufferRoleExchangeError + WorldIngressReadBatch) \<times> 'e WorldIngressDoubleBuffer" where
  "Ingress_WaitAcquireRead epoch timeout buf =
     (case RoleExchange_WaitAcquireRead epoch timeout (roleExchange buf) of
        (Inl e, x) \<Rightarrow> (Inl e, buf\<lparr>roleExchange := x\<rparr>)
      | (Inr claim, x) \<Rightarrow>
          let slot = ingressSlots buf ! read_slotIndex claim in
          (Inr \<lparr>read_claim = claim, batch_epoch = read_epoch claim, read_events = \<lparr>spanSlot = read_slotIndex claim,
              spanOffset = 0, spanSize = slotEventCount slot\<rparr>\<rparr>,
           buf\<lparr>roleExchange := x\<rparr>))"

definition ReleaseRead_clear ::
    "'e \<Rightarrow> WorldIngressReadBatch \<Rightarrow> 'e WorldIngressDoubleBuffer \<Rightarrow>
     (WorldDoubleBufferRoleExchangeError + unit) \<times> 'e WorldIngressDoubleBuffer" where
  "ReleaseRead_clear blank batch buf =
     (if \<not> MatchesActiveRead (read_claim batch) (roleExchange buf) \<or> batch_epoch batch \<noteq> read_epoch (read_claim batch)
      then (Inl InvalidState, buf)
      else let i = read_slotIndex (read_claim batch); slot = ingressSlots buf ! i; events = read_events batch in
        if spanSlot events \<noteq> i \<or> spanOffset events \<noteq> 0 \<or> spanSize events \<noteq> slotEventCount slot
        then (Inl InvalidArgument, buf)
        else (Inr (), buf\<lparr>ingressSlots := (ingressSlots buf)[i :=
               \<lparr>slotEvents = memcpy_at 0 (replicate (slotEventCount slot) blank) (slotEvents slot), slotEventCount = 0\<rparr>]\<rparr>))"

definition Ingress_ReleaseRead ::
    "'e \<Rightarrow> WorldIngressReadBatch \<Rightarrow> 'e WorldIngressDoubleBuffer \<Rightarrow>
     (WorldDoubleBufferRoleExchangeError + unit) \<times> 'e WorldIngressDoubleBuffer" where
  "Ingress_ReleaseRead blank batch buf =
     (case ReleaseRead_clear blank batch buf of
        (Inl e, buf) \<Rightarrow> (Inl e, buf)
      | (Inr u, buf) \<Rightarrow>
          (case RoleExchange_ReleaseRead (read_claim batch) (roleExchange buf) of
             (r, x) \<Rightarrow> (r, buf\<lparr>roleExchange := x\<rparr>)))"

definition EventCapacityPerSlot :: "'e WorldIngressDoubleBuffer \<Rightarrow> nat" where
  "EventCapacityPerSlot buf = length (slotEvents (ingressSlots buf ! 0))"

text \<open>What a span shows, and the store of one event through it.\<close>

definition span_view :: "EventSpan \<Rightarrow> 'e WorldIngressDoubleBuffer \<Rightarrow> 'e list" where
  "span_view events buf = take (spanSize events) (drop (spanOffset events) (slotEvents (ingressSlots buf ! spanSlot events)))"

definition span_put :: "EventSpan \<Rightarrow> nat \<Rightarrow> 'e \<Rightarrow> 'e WorldIngressDoubleBuffer \<Rightarrow> 'e WorldIngressDoubleBuffer" where
  "span_put events i e buf = buf\<lparr>ingressSlots := (ingressSlots buf)[spanSlot events :=
     (ingressSlots buf ! spanSlot events)\<lparr>slotEvents := (slotEvents (ingressSlots buf ! spanSlot events))[spanOffset events + i := e]\<rparr>]\<rparr>"

end
