(* ===== verification/WsDoubleBufferLaws.thy ===== *)
theory WsDoubleBufferLaws imports WsDoubleBuffer begin

text \<open>
  The guarantees of the ingress double buffer over all interleavings of its threads: every event that
  a writer commits is handed to a reader exactly once and in order, the writer and the reader never
  work on the same slot, and a swap hands over everything that was committed before it.
\<close>

section \<open>The buffer at work\<close>

text \<open>
  The writer, the reader and the coordinator work at the same time. A commit and a release of a read
  batch are two sections each: the work on the slot, which the claim protects, and the release of the
  claim. \<open>committed\<close> and \<open>delivered\<close> record what writers have committed and what readers were shown.
\<close>

datatype writer = Unclaimed | Filling WorldIngressWriteBatch | Filled WorldIngressWriteBatch
datatype 'e reader = Resting | Reading WorldIngressReadBatch "'e list" | Cleared WorldIngressReadBatch

record 'e ingress_world =
  buffer :: "'e WorldIngressDoubleBuffer"
  writer :: writer
  reader :: "'e reader"
  swapping :: "u64 option"
  committed :: "'e list"
  delivered :: "'e list"

inductive ingress_step :: "'e \<Rightarrow> 'e ingress_world \<Rightarrow> 'e ingress_world \<Rightarrow> bool" for blank where
  acquire_write: "Ingress_WaitAcquireWrite g t (buffer w) = (Inr batch, buf) \<Longrightarrow>
    ingress_step blank w (w\<lparr>buffer := buf, writer := Filling batch\<rparr>)"
| refuse_write: "Ingress_WaitAcquireWrite g t (buffer w) = (Inl e, buf) \<Longrightarrow> ingress_step blank w (w\<lparr>buffer := buf\<rparr>)"
| store: "writer w = Filling batch \<Longrightarrow> i < spanSize (write_events batch) \<Longrightarrow>
    ingress_step blank w (w\<lparr>buffer := span_put (write_events batch) i e (buffer w)\<rparr>)"
| commit: "writer w = Filling batch \<Longrightarrow> CommitWrite_store batch n (buffer w) = (Inr u, buf) \<Longrightarrow>
    ingress_step blank w (w\<lparr>buffer := buf, writer := Filled batch,
      committed := committed w @ take n (span_view (write_events batch) (buffer w))\<rparr>)"
| refuse_commit: "CommitWrite_store batch n (buffer w) = (Inl e, buf) \<Longrightarrow> ingress_step blank w (w\<lparr>buffer := buf\<rparr>)"
| release_write: "writer w = Filled batch \<Longrightarrow>
    RoleExchange_ReleaseWrite (write_claim batch) (roleExchange (buffer w)) = (r, x) \<Longrightarrow>
    ingress_step blank w (w\<lparr>buffer := (buffer w)\<lparr>roleExchange := x\<rparr>, writer := Unclaimed\<rparr>)"
| begin_swap: "WaitSwap_begin epoch t (roleExchange (buffer w)) = (Inr u, x) \<Longrightarrow>
    ingress_step blank w (w\<lparr>buffer := (buffer w)\<lparr>roleExchange := x\<rparr>, swapping := Some epoch\<rparr>)"
| end_swap: "swapping w = Some epoch \<Longrightarrow> WaitSwap_end epoch (roleExchange (buffer w)) = (r, x) \<Longrightarrow>
    ingress_step blank w (w\<lparr>buffer := (buffer w)\<lparr>roleExchange := x\<rparr>, swapping := None\<rparr>)"
| acquire_read: "Ingress_WaitAcquireRead epoch t (buffer w) = (Inr batch, buf) \<Longrightarrow>
    ingress_step blank w (w\<lparr>buffer := buf, reader := Reading batch (span_view (read_events batch) (buffer w)),
      delivered := delivered w @ span_view (read_events batch) (buffer w)\<rparr>)"
| refuse_read: "Ingress_WaitAcquireRead epoch t (buffer w) = (Inl e, buf) \<Longrightarrow> ingress_step blank w (w\<lparr>buffer := buf\<rparr>)"
| clear: "reader w = Reading batch events \<Longrightarrow> ReleaseRead_clear blank batch (buffer w) = (Inr u, buf) \<Longrightarrow>
    ingress_step blank w (w\<lparr>buffer := buf, reader := Cleared batch\<rparr>)"
| release_read: "reader w = Cleared batch \<Longrightarrow>
    RoleExchange_ReleaseRead (read_claim batch) (roleExchange (buffer w)) = (r, x) \<Longrightarrow>
    ingress_step blank w (w\<lparr>buffer := (buffer w)\<lparr>roleExchange := x\<rparr>, reader := Resting\<rparr>)"
| close: "ingress_step blank w (w\<lparr>buffer := (buffer w)\<lparr>roleExchange := RoleExchange_Close (roleExchange (buffer w))\<rparr>\<rparr>)"

definition ingress_start :: "'e \<Rightarrow> nat \<Rightarrow> 'e ingress_world" where
  "ingress_start blank capacity = \<lparr>buffer = WorldIngressDoubleBuffer_construct blank capacity, writer = Unclaimed,
     reader = Resting, swapping = None, committed = [], delivered = []\<rparr>"

inductive ingress_reachable :: "'e \<Rightarrow> nat \<Rightarrow> 'e ingress_world \<Rightarrow> bool" for blank capacity where
  start: "ingress_reachable blank capacity (ingress_start blank capacity)"
| advance: "ingress_reachable blank capacity w \<Longrightarrow> ingress_step blank w w' \<Longrightarrow> ingress_reachable blank capacity w'"

section \<open>The invariant\<close>

definition slot_view :: "'e IngressSlot \<Rightarrow> 'e list" where
  "slot_view slot = take (slotEventCount slot) (slotEvents slot)"

text \<open>The slot that is being written, the slot that is read, and what each still holds.\<close>

definition write_slot :: "'e ingress_world \<Rightarrow> 'e IngressSlot" where
  "write_slot w = ingressSlots (buffer w) ! writeSlotIndex (roleExchange (buffer w))"

definition read_slot :: "'e ingress_world \<Rightarrow> 'e IngressSlot" where
  "read_slot w = ingressSlots (buffer w) ! readSlotIndex (roleExchange (buffer w))"

definition unread :: "'e ingress_world \<Rightarrow> 'e list" where
  "unread w = (if readReady (roleExchange (buffer w)) then slot_view (read_slot w) else [])"

text \<open>The invariant speaks of the exchange, the two slots by their role, and the threads.\<close>

definition slots_ok :: "nat \<Rightarrow> 'e IngressSlot \<Rightarrow> 'e IngressSlot \<Rightarrow> bool" where
  "slots_ok capacity W R \<longleftrightarrow> length (slotEvents W) = capacity \<and> length (slotEvents R) = capacity \<and>
     slotEventCount W \<le> capacity \<and> slotEventCount R \<le> capacity"

definition writer_ok :: "WorldDoubleBufferRoleExchange \<Rightarrow> 'e IngressSlot \<Rightarrow> writer \<Rightarrow> bool" where
  "writer_ok x W a \<longleftrightarrow>
     (case a of
       Unclaimed \<Rightarrow> \<not> writeClaimActive x
     | Filling batch \<Rightarrow> MatchesActiveWrite (write_claim batch) x \<and>
         write_events batch = \<lparr>spanSlot = writeSlotIndex x, spanOffset = slotEventCount W,
           spanSize = length (slotEvents W) - slotEventCount W\<rparr>
     | Filled batch \<Rightarrow> MatchesActiveWrite (write_claim batch) x)"

definition reader_ok :: "WorldDoubleBufferRoleExchange \<Rightarrow> 'e IngressSlot \<Rightarrow> 'e reader \<Rightarrow> 'e list \<Rightarrow> bool" where
  "reader_ok x R b seen \<longleftrightarrow>
     (case b of
       Resting \<Rightarrow> \<not> readClaimActive x \<and> (\<not> readReady x \<longrightarrow> slotEventCount R = 0)
     | Reading batch events \<Rightarrow> MatchesActiveRead (read_claim batch) x \<and> \<not> readReady x \<and>
         batch_epoch batch = read_epoch (read_claim batch) \<and>
         read_events batch = \<lparr>spanSlot = readSlotIndex x, spanOffset = 0, spanSize = slotEventCount R\<rparr> \<and>
         slot_view R = events \<and> (\<exists>earlier. seen = earlier @ events)
     | Cleared batch \<Rightarrow> MatchesActiveRead (read_claim batch) x \<and> \<not> readReady x \<and> slotEventCount R = 0)"

definition core_ok ::
    "nat \<Rightarrow> WorldDoubleBufferRoleExchange \<Rightarrow> 'e IngressSlot \<Rightarrow> 'e IngressSlot \<Rightarrow> writer \<Rightarrow> 'e reader \<Rightarrow> u64 option \<Rightarrow>
     'e list \<Rightarrow> 'e list \<Rightarrow> bool" where
  "core_ok capacity x W R a b s sent seen \<longleftrightarrow> slots_ok capacity W R \<and> writer_ok x W a \<and> reader_ok x R b seen \<and>
     (s \<noteq> None) = swapPending x \<and> sent = seen @ (if readReady x then slot_view R else []) @ slot_view W"

definition indices_ok :: "'e WorldIngressDoubleBuffer \<Rightarrow> bool" where
  "indices_ok buf \<longleftrightarrow> length (ingressSlots buf) = 2 \<and>
     (writeSlotIndex (roleExchange buf) = 0 \<and> readSlotIndex (roleExchange buf) = 1 \<or>
      writeSlotIndex (roleExchange buf) = 1 \<and> readSlotIndex (roleExchange buf) = 0)"

definition ingress_ok :: "nat \<Rightarrow> 'e ingress_world \<Rightarrow> bool" where
  "ingress_ok capacity w \<longleftrightarrow> indices_ok (buffer w) \<and>
     core_ok capacity (roleExchange (buffer w)) (write_slot w) (read_slot w) (writer w) (reader w) (swapping w)
       (committed w) (delivered w)"

lemmas core_defs = core_ok_def slots_ok_def writer_ok_def reader_ok_def slot_view_def MatchesActiveWrite_def
  MatchesActiveRead_def

lemma ingress_ok_start: "ingress_ok capacity (ingress_start blank capacity)"
  by (simp add: ingress_ok_def ingress_start_def WorldIngressDoubleBuffer_construct_def RoleExchange_construct_def
      core_defs indices_ok_def write_slot_def read_slot_def numeral_2_eq_2)

inductive_cases ingress_stepE: "ingress_step blank w w'"


lemmas exchange_defs = Ingress_WaitAcquireWrite_def RoleExchange_WaitAcquireWrite_def CommitWrite_store_def
  RoleExchange_ReleaseWrite_def WaitSwap_begin_def WaitSwap_end_def Ingress_WaitAcquireRead_def
  RoleExchange_WaitAcquireRead_def ReleaseRead_clear_def RoleExchange_ReleaseRead_def RoleExchange_Close_def

lemma refused_unchanged:
  "Ingress_WaitAcquireWrite g t buf = (Inl e, buf') \<Longrightarrow> buf' = buf"
  "CommitWrite_store batch n buf = (Inl e, buf') \<Longrightarrow> buf' = buf"
  "Ingress_WaitAcquireRead epoch t buf = (Inl e, buf') \<Longrightarrow> buf' = buf"
  by (auto simp: exchange_defs Let_def split: if_splits)

text \<open>The two slots after an update of one of them.\<close>

lemma slots_update:
  assumes "indices_ok buf"
  shows "(ingressSlots buf)[writeSlotIndex (roleExchange buf) := s] ! writeSlotIndex (roleExchange buf) = s"
    and "(ingressSlots buf)[writeSlotIndex (roleExchange buf) := s] ! readSlotIndex (roleExchange buf) =
      ingressSlots buf ! readSlotIndex (roleExchange buf)"
    and "(ingressSlots buf)[readSlotIndex (roleExchange buf) := s] ! readSlotIndex (roleExchange buf) = s"
    and "(ingressSlots buf)[readSlotIndex (roleExchange buf) := s] ! writeSlotIndex (roleExchange buf) =
      ingressSlots buf ! writeSlotIndex (roleExchange buf)"
  using assms by (auto simp: indices_ok_def)

text \<open>The effect of each operation on the invariant, seen from the roles.\<close>

lemma core_acquire_write:
  assumes "core_ok c x W R a b s sent seen" "\<not> writeClaimActive x"
  shows "core_ok c (x\<lparr>writeClaimActive := True\<rparr>) W R
    (Filling \<lparr>write_claim = \<lparr>write_slotIndex = writeSlotIndex x, write_generation = exchangeGeneration x\<rparr>,
       write_events = \<lparr>spanSlot = writeSlotIndex x, spanOffset = slotEventCount W,
         spanSize = length (slotEvents W) - slotEventCount W\<rparr>\<rparr>) b s sent seen"
  using assms by (cases a; cases b) (auto simp: core_defs)

lemma core_store:
  assumes "core_ok c x W R (Filling batch) b s sent seen" "i < spanSize (write_events batch)"
  shows "core_ok c x (W\<lparr>slotEvents := (slotEvents W)[spanOffset (write_events batch) + i := e]\<rparr>) R (Filling batch) b s sent seen"
  using assms by (cases b) (auto simp: core_defs)

lemma core_commit:
  assumes "core_ok c x W R (Filling batch) b s sent seen" "n \<le> spanSize (write_events batch)"
  shows "core_ok c x (W\<lparr>slotEventCount := slotEventCount W + n\<rparr>) R (Filled batch) b s
    (sent @ take n (drop (slotEventCount W) (slotEvents W))) seen"
  using assms by (cases b) (auto simp: core_defs take_add)

lemma core_release_write:
  assumes "core_ok c x W R (Filled batch) b s sent seen"
  shows "core_ok c (x\<lparr>writeClaimActive := False\<rparr>) W R Unclaimed b s sent seen"
  using assms by (cases b) (auto simp: core_defs)

lemma core_pending:
  assumes "core_ok c x W R a b s sent seen"
  shows "core_ok c (x\<lparr>swapPending := True\<rparr>) W R a b (Some e) sent seen"
    and "core_ok c (x\<lparr>swapPending := False\<rparr>) W R a b None sent seen"
    and "core_ok c (x\<lparr>closed := True\<rparr>) W R a b s sent seen"
  using assms by (cases a; cases b; auto simp: core_defs)+

lemma core_swap:
  assumes "core_ok c x W R a b s sent seen" "\<not> writeClaimActive x" "\<not> readClaimActive x" "\<not> readReady x"
  shows "core_ok c (x\<lparr>writeSlotIndex := i, readSlotIndex := j, exchangeGeneration := g, publishedEpoch := e,
    readReady := True, swapPending := False\<rparr>) R W a b None sent seen"
  using assms by (cases a; cases b) (auto simp: core_defs)

lemma core_acquire_read:
  assumes "core_ok c x W R a b s sent seen" "readReady x" "\<not> readClaimActive x"
  shows "core_ok c (x\<lparr>readReady := False, readClaimActive := True\<rparr>) W R a
    (Reading \<lparr>read_claim = \<lparr>read_slotIndex = readSlotIndex x, read_generation = exchangeGeneration x, read_epoch = publishedEpoch x\<rparr>,
       batch_epoch = publishedEpoch x,
       read_events = \<lparr>spanSlot = readSlotIndex x, spanOffset = 0, spanSize = slotEventCount R\<rparr>\<rparr> (slot_view R))
    s sent (seen @ slot_view R)"
  using assms by (cases a; cases b) (auto simp: core_defs)

lemma core_clear:
  assumes "core_ok c x W R a (Reading batch events) s sent seen"
  shows "core_ok c x W \<lparr>slotEvents = memcpy_at 0 (replicate (slotEventCount R) blank) (slotEvents R), slotEventCount = 0\<rparr>
    a (Cleared batch) s sent seen"
  using assms by (cases a) (auto simp: core_defs)

lemma core_release_read:
  assumes "core_ok c x W R a (Cleared batch) s sent seen"
  shows "core_ok c (x\<lparr>readClaimActive := False\<rparr>) W R a Resting s sent seen"
  using assms by (cases a) (auto simp: core_defs)

section \<open>Every step keeps the invariant\<close>

lemma acquired_write:
  assumes "Ingress_WaitAcquireWrite g t buf = (Inr batch, buf')"
  shows "\<not> writeClaimActive (roleExchange buf)"
    and "buf' = buf\<lparr>roleExchange := (roleExchange buf)\<lparr>writeClaimActive := True\<rparr>\<rparr>"
    and "batch = \<lparr>write_claim = \<lparr>write_slotIndex = writeSlotIndex (roleExchange buf), write_generation = exchangeGeneration (roleExchange buf)\<rparr>,
       write_events = \<lparr>spanSlot = writeSlotIndex (roleExchange buf),
         spanOffset = slotEventCount (ingressSlots buf ! writeSlotIndex (roleExchange buf)),
         spanSize = length (slotEvents (ingressSlots buf ! writeSlotIndex (roleExchange buf))) -
           slotEventCount (ingressSlots buf ! writeSlotIndex (roleExchange buf))\<rparr>\<rparr>"
  using assms by (auto simp: exchange_defs Let_def split: if_splits)

lemma acquired_read:
  assumes "Ingress_WaitAcquireRead epoch t buf = (Inr batch, buf')"
  shows "readReady (roleExchange buf)" "\<not> readClaimActive (roleExchange buf)" "publishedEpoch (roleExchange buf) = epoch"
    and "\<not> closed (roleExchange buf)"
    and "buf' = buf\<lparr>roleExchange := (roleExchange buf)\<lparr>readReady := False, readClaimActive := True\<rparr>\<rparr>"
    and "batch = \<lparr>read_claim = \<lparr>read_slotIndex = readSlotIndex (roleExchange buf),
        read_generation = exchangeGeneration (roleExchange buf), read_epoch = publishedEpoch (roleExchange buf)\<rparr>,
       batch_epoch = publishedEpoch (roleExchange buf),
       read_events = \<lparr>spanSlot = readSlotIndex (roleExchange buf), spanOffset = 0,
         spanSize = slotEventCount (ingressSlots buf ! readSlotIndex (roleExchange buf))\<rparr>\<rparr>"
  using assms by (auto simp: exchange_defs Let_def split: if_splits)

lemma stored:
  assumes "CommitWrite_store batch n buf = (Inr u, buf')"
  shows "n \<le> spanSize (write_events batch)"
    and "buf' = buf\<lparr>ingressSlots := (ingressSlots buf)[writeSlotIndex (roleExchange buf) :=
      (ingressSlots buf ! writeSlotIndex (roleExchange buf))\<lparr>slotEventCount :=
        slotEventCount (ingressSlots buf ! writeSlotIndex (roleExchange buf)) + n\<rparr>]\<rparr>"
    and "write_events batch = \<lparr>spanSlot = writeSlotIndex (roleExchange buf),
       spanOffset = slotEventCount (ingressSlots buf ! writeSlotIndex (roleExchange buf)),
       spanSize = length (slotEvents (ingressSlots buf ! writeSlotIndex (roleExchange buf))) -
         slotEventCount (ingressSlots buf ! writeSlotIndex (roleExchange buf))\<rparr>"
  using assms by (auto simp: exchange_defs MatchesActiveWrite_def Let_def split: if_splits)

lemma cleared:
  assumes "ReleaseRead_clear blank batch buf = (Inr u, buf')"
  shows "buf' = buf\<lparr>ingressSlots := (ingressSlots buf)[readSlotIndex (roleExchange buf) :=
      \<lparr>slotEvents = memcpy_at 0 (replicate (slotEventCount (ingressSlots buf ! readSlotIndex (roleExchange buf))) blank)
         (slotEvents (ingressSlots buf ! readSlotIndex (roleExchange buf))), slotEventCount = 0\<rparr>]\<rparr>"
  using assms by (auto simp: exchange_defs MatchesActiveRead_def Let_def split: if_splits)

lemma ingress_okD:
  assumes "ingress_ok c w"
  shows "indices_ok (buffer w)"
    and "core_ok c (roleExchange (buffer w)) (ingressSlots (buffer w) ! writeSlotIndex (roleExchange (buffer w)))
      (ingressSlots (buffer w) ! readSlotIndex (roleExchange (buffer w))) (writer w) (reader w) (swapping w)
      (committed w) (delivered w)"
  using assms by (simp_all add: ingress_ok_def write_slot_def read_slot_def)

lemma ingress_okI:
  assumes "indices_ok buf" "core_ok c (roleExchange buf) (ingressSlots buf ! writeSlotIndex (roleExchange buf))
      (ingressSlots buf ! readSlotIndex (roleExchange buf)) a b s sent seen"
  shows "ingress_ok c \<lparr>buffer = buf, writer = a, reader = b, swapping = s, committed = sent, delivered = seen\<rparr>"
  using assms by (simp add: ingress_ok_def write_slot_def read_slot_def)

lemma released_write:
  assumes "ingress_ok c w" "writer w = Filled batch"
  shows "RoleExchange_ReleaseWrite (write_claim batch) (roleExchange (buffer w)) =
    (Inr (), (roleExchange (buffer w))\<lparr>writeClaimActive := False\<rparr>)"
  using ingress_okD(2) [OF assms(1)] assms(2) by (simp add: core_defs RoleExchange_ReleaseWrite_def)

lemma released_read:
  assumes "ingress_ok c w" "reader w = Cleared batch"
  shows "RoleExchange_ReleaseRead (read_claim batch) (roleExchange (buffer w)) =
    (Inr (), (roleExchange (buffer w))\<lparr>readClaimActive := False\<rparr>)"
  using ingress_okD(2) [OF assms(1)] assms(2) by (simp add: core_defs RoleExchange_ReleaseRead_def)

lemma ingress_step_keeps_ok:
  assumes "ingress_step blank w w'" "ingress_ok c w"
  shows "ingress_ok c w'"
  using assms
proof (induction rule: ingress_step.induct)
  case (acquire_write g t w batch buf)
  note d = ingress_okD [OF acquire_write.prems] and a = acquired_write [OF acquire_write.hyps]
  show ?case using core_acquire_write [OF d(2) a(1)] d(1) unfolding a(2,3)
    by (cases w) (auto intro!: ingress_okI simp: indices_ok_def)
next
  case (refuse_write g t w e buf)
  show ?case using refused_unchanged(1) [OF refuse_write.hyps] refuse_write.prems by simp
next
  case (store w batch i e)
  note d = ingress_okD [OF store.prems]
  let ?wi = "writeSlotIndex (roleExchange (buffer w))"
  have p: "spanSlot (write_events batch) = ?wi" using d(2) store.hyps(1) by (simp add: core_defs)
  show ?case using core_store [OF d(2) [unfolded store.hyps(1)] store.hyps(2), of e] d(1) store.hyps(1)
    unfolding span_put_def p
    by (cases w) (auto intro!: ingress_okI simp: slots_update [OF d(1)] indices_ok_def)
next
  case (commit w batch n u buf)
  note d = ingress_okD [OF commit.prems] and a = stored [OF commit.hyps(2)]
  have v: "take n (span_view (write_events batch) (buffer w)) =
      take n (drop (slotEventCount (ingressSlots (buffer w) ! writeSlotIndex (roleExchange (buffer w))))
        (slotEvents (ingressSlots (buffer w) ! writeSlotIndex (roleExchange (buffer w)))))"
    using a(1) by (simp add: span_view_def a(3) min_def)
  show ?case using core_commit [OF d(2) [unfolded commit.hyps(1)] a(1)] d(1) unfolding a(2) v
    by (cases w) (auto intro!: ingress_okI simp: slots_update [OF d(1)] indices_ok_def)
next
  case (refuse_commit batch n w e buf)
  show ?case using refused_unchanged(2) [OF refuse_commit.hyps] refuse_commit.prems by simp
next
  case (release_write w batch r x)
  note d = ingress_okD [OF release_write.prems]
  have "x = (roleExchange (buffer w))\<lparr>writeClaimActive := False\<rparr>"
    using released_write [OF release_write.prems release_write.hyps(1)] release_write.hyps(2) by simp
  then show ?case using core_release_write [OF d(2) [unfolded release_write.hyps(1)]] d(1)
    by (cases w) (auto intro!: ingress_okI simp: indices_ok_def)
next
  case (begin_swap epoch t w u x)
  note d = ingress_okD [OF begin_swap.prems]
  have "x = (roleExchange (buffer w))\<lparr>swapPending := True\<rparr>"
    using begin_swap.hyps by (auto simp: WaitSwap_begin_def split: if_splits)
  then show ?case using core_pending(1) [OF d(2)] d(1) by (cases w) (auto intro!: ingress_okI simp: indices_ok_def)
next
  case (end_swap w epoch r x)
  note d = ingress_okD [OF end_swap.prems]
  show ?case
  proof (cases "r = Inr ()")
    case True
    then have "x = (roleExchange (buffer w))\<lparr>writeSlotIndex := readSlotIndex (roleExchange (buffer w)),
        readSlotIndex := writeSlotIndex (roleExchange (buffer w)),
        exchangeGeneration := exchangeGeneration (roleExchange (buffer w)) + 1, publishedEpoch := epoch,
        readReady := True, swapPending := False\<rparr>" "\<not> writeClaimActive (roleExchange (buffer w))"
        "\<not> readClaimActive (roleExchange (buffer w))" "\<not> readReady (roleExchange (buffer w))"
      using end_swap.hyps(2) by (auto simp: WaitSwap_end_def split: if_splits)
    then show ?thesis using core_swap [OF d(2)] d(1) by (cases w) (auto intro!: ingress_okI simp: indices_ok_def)
  next
    case False
    then have "x = (roleExchange (buffer w))\<lparr>swapPending := False\<rparr>"
      using end_swap.hyps(2) by (auto simp: WaitSwap_end_def split: if_splits)
    then show ?thesis using core_pending(2) [OF d(2)] d(1) by (cases w) (auto intro!: ingress_okI simp: indices_ok_def)
  qed
next
  case (acquire_read epoch t w batch buf)
  note d = ingress_okD [OF acquire_read.prems] and a = acquired_read [OF acquire_read.hyps]
  have v: "span_view (read_events batch) (buffer w) = slot_view (ingressSlots (buffer w) ! readSlotIndex (roleExchange (buffer w)))"
    by (simp add: span_view_def slot_view_def a(6))
  show ?case using core_acquire_read [OF d(2) a(1,2)] d(1) unfolding v a(5) unfolding a(6)
    by (cases w) (auto intro!: ingress_okI simp: indices_ok_def)
next
  case (refuse_read epoch t w e buf)
  show ?case using refused_unchanged(3) [OF refuse_read.hyps] refuse_read.prems by simp
next
  case (clear w batch events u buf)
  note d = ingress_okD [OF clear.prems] and a = cleared [OF clear.hyps(2)]
  show ?case using core_clear [OF d(2) [unfolded clear.hyps(1)], of blank] d(1) unfolding a
    by (cases w) (auto intro!: ingress_okI simp: slots_update [OF d(1)] indices_ok_def)
next
  case (release_read w batch r x)
  note d = ingress_okD [OF release_read.prems]
  have "x = (roleExchange (buffer w))\<lparr>readClaimActive := False\<rparr>"
    using released_read [OF release_read.prems release_read.hyps(1)] release_read.hyps(2) by simp
  then show ?case using core_release_read [OF d(2) [unfolded release_read.hyps(1)]] d(1)
    by (cases w) (auto intro!: ingress_okI simp: indices_ok_def)
next
  case (close w)
  note d = ingress_okD [OF close.prems]
  show ?case using core_pending(3) [OF d(2)] d(1) unfolding RoleExchange_Close_def
    by (cases w) (auto intro!: ingress_okI simp: indices_ok_def)
qed

lemma ingress_reachable_ok: "ingress_reachable blank capacity w \<Longrightarrow> ingress_ok capacity w"
  by (induction rule: ingress_reachable.induct) (simp_all add: ingress_ok_start ingress_step_keeps_ok)

section \<open>Properties\<close>

text \<open>
  Property C7. Under all interleavings of the pump, the owner and the coordinator, the events shown to
  readers are exactly the events that writers committed, each once and in order; what is not shown yet
  waits in the slot to be read and in the slot that is written. The two are never the same slot: what a
  reader was shown stays as it was until it releases the batch, and a writer fills only the free end of
  its own slot.
\<close>
theorem ingress_events_exactly_once:
  assumes "ingress_reachable blank capacity w"
  shows "committed w = delivered w @ unread w @ slot_view (write_slot w) \<and>
    writeSlotIndex (roleExchange (buffer w)) \<noteq> readSlotIndex (roleExchange (buffer w)) \<and>
    (\<forall>batch. writer w = Filling batch \<longrightarrow> spanSlot (write_events batch) = writeSlotIndex (roleExchange (buffer w)) \<and>
       spanOffset (write_events batch) = length (slot_view (write_slot w)) \<and>
       spanOffset (write_events batch) + spanSize (write_events batch) = capacity) \<and>
    (\<forall>batch events. reader w = Reading batch events \<longrightarrow>
       spanSlot (read_events batch) = readSlotIndex (roleExchange (buffer w)) \<and>
       span_view (read_events batch) (buffer w) = events \<and> (\<exists>earlier. delivered w = earlier @ events))"
proof (intro conjI allI impI)
  have ok: "ingress_ok capacity w" using assms by (rule ingress_reachable_ok)
  note d = ingress_okD(1) [OF ok] and core = ok [unfolded ingress_ok_def, THEN conjunct2]
  show "committed w = delivered w @ unread w @ slot_view (write_slot w)" using core by (simp add: core_ok_def unread_def)
  show "writeSlotIndex (roleExchange (buffer w)) \<noteq> readSlotIndex (roleExchange (buffer w))"
    using d by (auto simp: indices_ok_def)
  fix batch
  {
    assume "writer w = Filling batch"
    then show "spanSlot (write_events batch) = writeSlotIndex (roleExchange (buffer w))"
      "spanOffset (write_events batch) = length (slot_view (write_slot w))"
      "spanOffset (write_events batch) + spanSize (write_events batch) = capacity"
      using core by (auto simp: core_defs)
  next
    fix events assume r: "reader w = Reading batch events"
    then show "spanSlot (read_events batch) = readSlotIndex (roleExchange (buffer w))"
      "\<exists>earlier. delivered w = earlier @ events" using core by (auto simp: core_defs)
    show "span_view (read_events batch) (buffer w) = events"
      using core r by (simp add: core_defs span_view_def read_slot_def)
  }
qed

text \<open>
  Property C21. A swap that has been announced cannot be starved: no new writer is let in, and once the
  writer and the reader have released their claims and the last batch has been read, the swap
  succeeds, and the reader of its epoch is shown every event committed and not yet delivered.
\<close>
theorem announced_swap_hands_over_everything:
  assumes "ingress_reachable blank capacity w" "swapping w = Some epoch" "epoch \<noteq> 0"
    and "\<not> closed (roleExchange (buffer w))" and "0 \<le> t"
  shows "(\<forall>g. fst (Ingress_WaitAcquireWrite g t (buffer w)) = Inl TimedOut) \<and>
    (writer w = Unclaimed \<and> reader w = Resting \<and> \<not> readReady (roleExchange (buffer w)) \<longrightarrow>
      (\<exists>x batch buf. WaitSwap_end epoch (roleExchange (buffer w)) = (Inr (), x) \<and>
         Ingress_WaitAcquireRead epoch t ((buffer w)\<lparr>roleExchange := x\<rparr>) = (Inr batch, buf) \<and>
         committed w = delivered w @ span_view (read_events batch) buf))"
proof (intro conjI allI impI)
  have ok: "ingress_ok capacity w" using assms(1) by (rule ingress_reachable_ok)
  note core = ok [unfolded ingress_ok_def, THEN conjunct2]
  have p: "swapPending (roleExchange (buffer w))" using core assms(2) by (simp add: core_ok_def)
  show "fst (Ingress_WaitAcquireWrite g t (buffer w)) = Inl TimedOut" for g
    using p assms(4,5) by (simp add: Ingress_WaitAcquireWrite_def RoleExchange_WaitAcquireWrite_def)
  assume idle: "writer w = Unclaimed \<and> reader w = Resting \<and> \<not> readReady (roleExchange (buffer w))"
  then have "\<not> writeClaimActive (roleExchange (buffer w))" "\<not> readClaimActive (roleExchange (buffer w))"
    "committed w = delivered w @ slot_view (write_slot w)" using core by (auto simp: core_defs)
  then show "\<exists>x batch buf. WaitSwap_end epoch (roleExchange (buffer w)) = (Inr (), x) \<and>
       Ingress_WaitAcquireRead epoch t ((buffer w)\<lparr>roleExchange := x\<rparr>) = (Inr batch, buf) \<and>
       committed w = delivered w @ span_view (read_events batch) buf"
    using idle assms(3-5)
    by (auto simp: WaitSwap_end_def Ingress_WaitAcquireRead_def RoleExchange_WaitAcquireRead_def span_view_def
        slot_view_def write_slot_def Let_def)
qed

section \<open>Samples\<close>

text \<open>A buffer of two events in which one was committed and a swap of epoch 1 is announced.\<close>

definition ingress_sample :: "u8 ingress_world" where
  "ingress_sample =
    (let slot = \<lparr>slotEvents = [7, 0], slotEventCount = 1\<rparr>; other = \<lparr>slotEvents = [0, 0], slotEventCount = 0\<rparr> in
     \<lparr>buffer = \<lparr>ingressSlots = [slot, other], roleExchange = RoleExchange_construct\<lparr>swapPending := True\<rparr>\<rparr>,
      writer = Unclaimed, reader = Resting, swapping = Some 1, committed = [7], delivered = []\<rparr>)"

lemma ingress_sample_reachable: "ingress_reachable 0 2 ingress_sample"
proof -
  let ?batch = "\<lparr>write_claim = \<lparr>write_slotIndex = 0, write_generation = 1\<rparr>,
    write_events = \<lparr>spanSlot = 0, spanOffset = 0, spanSize = 2\<rparr>\<rparr>"
  let ?x = "RoleExchange_construct\<lparr>writeClaimActive := True\<rparr>"
  let ?e = "\<lparr>slotEvents = [0, 0], slotEventCount = 0\<rparr> :: u8 IngressSlot"
  let ?w1 = "\<lparr>buffer = \<lparr>ingressSlots = [?e, ?e], roleExchange = ?x\<rparr>, writer = Filling ?batch, reader = Resting,
    swapping = None, committed = [], delivered = []\<rparr>"
  let ?w2 = "?w1\<lparr>buffer := \<lparr>ingressSlots = [?e\<lparr>slotEvents := [7, 0]\<rparr>, ?e], roleExchange = ?x\<rparr>\<rparr>"
  let ?w3 = "?w2\<lparr>buffer := \<lparr>ingressSlots = [\<lparr>slotEvents = [7, 0], slotEventCount = 1\<rparr>, ?e], roleExchange = ?x\<rparr>,
    writer := Filled ?batch, committed := [7]\<rparr>"
  let ?w4 = "?w3\<lparr>buffer := (buffer ?w3)\<lparr>roleExchange := RoleExchange_construct\<rparr>, writer := Unclaimed\<rparr>"
  note [simp] = ingress_start_def WorldIngressDoubleBuffer_construct_def RoleExchange_construct_def numeral_2_eq_2 Let_def
  have "ingress_step 0 (ingress_start 0 2) ?w1"
    using acquire_write [of 0 0 "ingress_start 0 2 :: u8 ingress_world" ?batch "buffer ?w1" 0] by (simp add: exchange_defs)
  with ingress_reachable.start have r: "ingress_reachable 0 2 ?w1" by (rule ingress_reachable.advance)
  have "ingress_step 0 ?w1 ?w2" using store [of ?w1 ?batch 0 0 7] by (simp add: span_put_def)
  with r have r: "ingress_reachable 0 2 ?w2" by (rule ingress_reachable.advance)
  have "ingress_step 0 ?w2 ?w3"
    using commit [of ?w2 ?batch 1 "()" "buffer ?w3" 0] by (simp add: exchange_defs MatchesActiveWrite_def span_view_def)
  with r have r: "ingress_reachable 0 2 ?w3" by (rule ingress_reachable.advance)
  have "ingress_step 0 ?w3 ?w4"
    using release_write [of ?w3 ?batch "Inr ()" RoleExchange_construct 0] by (simp add: exchange_defs)
  with r have r: "ingress_reachable 0 2 ?w4" by (rule ingress_reachable.advance)
  have "ingress_step 0 ?w4 ingress_sample"
    using begin_swap [of 1 0 ?w4 "()" "RoleExchange_construct\<lparr>swapPending := True\<rparr>" 0]
    by (simp add: exchange_defs ingress_sample_def)
  with r show ?thesis by (rule ingress_reachable.advance)
qed

theorem ingress_events_exactly_once_witness:
  "committed ingress_sample = delivered ingress_sample @ unread ingress_sample @ slot_view (write_slot ingress_sample)"
  using ingress_events_exactly_once [OF ingress_sample_reachable] by blast

theorem announced_swap_hands_over_everything_witness:
  "\<exists>x batch buf. WaitSwap_end 1 (roleExchange (buffer ingress_sample)) = (Inr (), x) \<and>
     Ingress_WaitAcquireRead 1 0 ((buffer ingress_sample)\<lparr>roleExchange := x\<rparr>) = (Inr batch, buf) \<and>
     span_view (read_events batch) buf = [7]"
proof -
  have "swapping ingress_sample = Some 1" "\<not> closed (roleExchange (buffer ingress_sample))" "writer ingress_sample = Unclaimed"
    "reader ingress_sample = Resting" "\<not> readReady (roleExchange (buffer ingress_sample))" "committed ingress_sample = [7]"
    "delivered ingress_sample = []"
    by (simp_all add: ingress_sample_def RoleExchange_construct_def Let_def)
  then show ?thesis using announced_swap_hands_over_everything [OF ingress_sample_reachable, of 1 0] by fastforce
qed

end
