(* ===== verification/WsEntities.thy ===== *)
theory WsEntities imports WsIdentity begin

text \<open>
  The entities of the World: the registry that issues their keys and handles
  (\<^verbatim>\<open>WorldEntityRegistry.h/.cpp\<close>), the sparse set that stores their components
  (\<^verbatim>\<open>WorldEntityComponentStore.h/.cpp\<close>) and the manager that keeps the two together
  (\<^verbatim>\<open>WorldEntityManager.h/.cpp\<close>). The components of an entity are opaque to all three: they are a
  type variable. Memory is assumed to suffice. An output pointer is a truth value, whether it is not
  null, and the value stored through it is part of the result.
\<close>

section \<open>The registry of identities\<close>

record EntitySlot =
  entityGeneration :: u32
  slotGeneration' :: u32
  isUsed :: bool

record WorldEntityRegistry =
  entitySlots :: "EntitySlot list"
  freeSlotIndices :: "u32 list"
  activeCount :: nat

definition WorldEntityRegistry_construct :: WorldEntityRegistry where
  "WorldEntityRegistry_construct = \<lparr>entitySlots = [], freeSlotIndices = [], activeCount = 0\<rparr>"

definition Registry_IsAlive :: "EntityHandle \<Rightarrow> WorldEntityRegistry \<Rightarrow> bool" where
  "Registry_IsAlive handle reg \<longleftrightarrow>
     (if \<not> EntityHandle_IsValid handle \<or> unat (slotIndex handle) \<ge> length (entitySlots reg) then False
      else let slot = entitySlots reg ! unat (slotIndex handle) in
        isUsed slot \<and> slotGeneration' slot = slotGeneration handle)"

text \<open>The assertions that \<^verbatim>\<open>TryCreate\<close> makes about the slot it takes from the free list.\<close>

definition Registry_TryCreate_asserts :: "WorldEntityRegistry \<Rightarrow> bool" where
  "Registry_TryCreate_asserts reg \<longleftrightarrow>
     (if freeSlotIndices reg \<noteq> [] then
        let slot = entitySlots reg ! unat (last (freeSlotIndices reg)) in
        \<not> isUsed slot \<and> entityGeneration slot < - 1 \<and> slotGeneration' slot < - 1
      else True)"

definition Registry_TryCreate ::
    "bool \<Rightarrow> WorldEntityRegistry \<Rightarrow> (WorldEntityKey \<times> EntityHandle) option \<times> WorldEntityRegistry" where
  "Registry_TryCreate out reg =
     (if \<not> out then (None, reg)
      else if freeSlotIndices reg \<noteq> [] then
        let i = last (freeSlotIndices reg); slot = entitySlots reg ! unat i;
            slot = slot\<lparr>entityGeneration := entityGeneration slot + 1, slotGeneration' := slotGeneration' slot + 1, isUsed := True\<rparr> in
        (Some (\<lparr>entityId = i + 1, generation = entityGeneration slot\<rparr>, \<lparr>slotIndex = i, slotGeneration = slotGeneration' slot\<rparr>),
         reg\<lparr>entitySlots := (entitySlots reg)[unat i := slot], freeSlotIndices := butlast (freeSlotIndices reg),
           activeCount := activeCount reg + 1\<rparr>)
      else if length (entitySlots reg) \<ge> 2 ^ 32 - 1 then (None, reg)
      else
        let i = word_of_nat (length (entitySlots reg)) in
        (Some (\<lparr>entityId = i + 1, generation = 1\<rparr>, \<lparr>slotIndex = i, slotGeneration = 1\<rparr>),
         reg\<lparr>entitySlots := entitySlots reg @ [\<lparr>entityGeneration = 1, slotGeneration' = 1, isUsed = True\<rparr>],
           activeCount := activeCount reg + 1\<rparr>))"

definition Registry_TryFindHandle :: "WorldEntityKey \<Rightarrow> bool \<Rightarrow> WorldEntityRegistry \<Rightarrow> EntityHandle option" where
  "Registry_TryFindHandle key out reg =
     (if \<not> out \<or> \<not> WorldEntityKey_IsValid key then None
      else let i = entityId key - 1 in
        if unat i \<ge> length (entitySlots reg) then None
        else let slot = entitySlots reg ! unat i in
          if \<not> isUsed slot \<or> entityGeneration slot \<noteq> generation key then None
          else Some \<lparr>slotIndex = i, slotGeneration = slotGeneration' slot\<rparr>)"

definition Registry_TryFindKey :: "EntityHandle \<Rightarrow> bool \<Rightarrow> WorldEntityRegistry \<Rightarrow> WorldEntityKey option" where
  "Registry_TryFindKey handle out reg =
     (if \<not> out \<or> \<not> Registry_IsAlive handle reg then None
      else Some \<lparr>entityId = slotIndex handle + 1,
        generation = entityGeneration (entitySlots reg ! unat (slotIndex handle))\<rparr>)"

definition Registry_Remove :: "EntityHandle \<Rightarrow> WorldEntityRegistry \<Rightarrow> bool \<times> WorldEntityRegistry" where
  "Registry_Remove handle reg =
     (if \<not> Registry_IsAlive handle reg then (False, reg)
      else
        let i = unat (slotIndex handle); slot = (entitySlots reg ! i)\<lparr>isUsed := False\<rparr> in
        (True, reg\<lparr>entitySlots := (entitySlots reg)[i := slot], activeCount := activeCount reg - 1,
           freeSlotIndices := (if entityGeneration slot \<noteq> - 1 \<and> slotGeneration' slot \<noteq> - 1
             then freeSlotIndices reg @ [slotIndex handle] else freeSlotIndices reg)\<rparr>))"

section \<open>The sparse set of components\<close>

record SparseSlot =
  denseIndex :: u32
  sparseGeneration :: u32

definition SparseSlot_empty :: SparseSlot where "SparseSlot_empty = \<lparr>denseIndex = 0, sparseGeneration = 0\<rparr>"

definition SparseSlot_IsUsed :: "SparseSlot \<Rightarrow> bool" where "SparseSlot_IsUsed s \<longleftrightarrow> sparseGeneration s \<noteq> 0"

record 'c WorldEntityComponentStore =
  sparseSlots :: "SparseSlot list"
  denseHandles :: "EntityHandle list"
  denseComponents :: "'c list"

definition WorldEntityComponentStore_construct :: "'c WorldEntityComponentStore" where
  "WorldEntityComponentStore_construct = \<lparr>sparseSlots = [], denseHandles = [], denseComponents = []\<rparr>"

definition Store_IsAlive :: "EntityHandle \<Rightarrow> 'c WorldEntityComponentStore \<Rightarrow> bool" where
  "Store_IsAlive handle st \<longleftrightarrow>
     (if \<not> EntityHandle_IsValid handle \<or> unat (slotIndex handle) \<ge> length (sparseSlots st) then False
      else let s = sparseSlots st ! unat (slotIndex handle) in
        if \<not> SparseSlot_IsUsed s \<or> sparseGeneration s \<noteq> slotGeneration handle \<or> unat (denseIndex s) \<ge> length (denseHandles st)
        then False
        else denseHandles st ! unat (denseIndex s) = handle)"

definition Store_TryCreate :: "EntityHandle \<Rightarrow> 'c \<Rightarrow> 'c WorldEntityComponentStore \<Rightarrow> bool \<times> 'c WorldEntityComponentStore" where
  "Store_TryCreate handle components st =
     (if \<not> EntityHandle_IsValid handle \<or> unat (slotIndex handle) > length (sparseSlots st) \<or>
         length (denseComponents st) \<ge> 2 ^ 32 - 1 then (False, st)
      else
        let i = unat (slotIndex handle);
            sparse = (if i = length (sparseSlots st) then sparseSlots st @ [SparseSlot_empty] else sparseSlots st) in
        if SparseSlot_IsUsed (sparse ! i) then (False, st\<lparr>sparseSlots := sparse\<rparr>)
        else (True, \<lparr>sparseSlots = sparse[i := \<lparr>denseIndex = word_of_nat (length (denseComponents st)),
                 sparseGeneration = slotGeneration handle\<rparr>],
               denseHandles = denseHandles st @ [handle], denseComponents = denseComponents st @ [components]\<rparr>))"

text \<open>The element a handle stands for; \<^verbatim>\<open>TryReadView\<close> gives a pointer to it, here its index.\<close>

definition Store_TryReadView :: "EntityHandle \<Rightarrow> bool \<Rightarrow> 'c WorldEntityComponentStore \<Rightarrow> nat option" where
  "Store_TryReadView handle out st =
     (if \<not> out \<or> \<not> Store_IsAlive handle st then None
      else Some (unat (denseIndex (sparseSlots st ! unat (slotIndex handle)))))"

definition Store_TryRead :: "EntityHandle \<Rightarrow> bool \<Rightarrow> 'c WorldEntityComponentStore \<Rightarrow> 'c option" where
  "Store_TryRead handle out st =
     (if \<not> out \<or> \<not> Store_IsAlive handle st then None
      else Some (denseComponents st ! unat (denseIndex (sparseSlots st ! unat (slotIndex handle)))))"

definition Store_TryReplace :: "EntityHandle \<Rightarrow> 'c \<Rightarrow> 'c WorldEntityComponentStore \<Rightarrow> bool \<times> 'c WorldEntityComponentStore" where
  "Store_TryReplace handle components st =
     (if \<not> Store_IsAlive handle st then (False, st)
      else (True, st\<lparr>denseComponents :=
        (denseComponents st)[unat (denseIndex (sparseSlots st ! unat (slotIndex handle))) := components]\<rparr>))"

definition Store_Remove :: "EntityHandle \<Rightarrow> 'c WorldEntityComponentStore \<Rightarrow> bool \<times> 'c WorldEntityComponentStore" where
  "Store_Remove handle st =
     (if \<not> Store_IsAlive handle st then (False, st)
      else
        let removed = unat (denseIndex (sparseSlots st ! unat (slotIndex handle)));
            lastIndex = length (denseComponents st) - 1;
            st = (if removed \<noteq> lastIndex then
                    let moved = denseHandles st ! lastIndex; j = unat (slotIndex moved) in
                    st\<lparr>denseComponents := (denseComponents st)[removed := denseComponents st ! lastIndex],
                       denseHandles := (denseHandles st)[removed := moved],
                       sparseSlots := (sparseSlots st)[j := (sparseSlots st ! j)\<lparr>denseIndex := word_of_nat removed\<rparr>]\<rparr>
                  else st) in
        (True, st\<lparr>denseComponents := butlast (denseComponents st), denseHandles := butlast (denseHandles st),
           sparseSlots := (sparseSlots st)[unat (slotIndex handle) := SparseSlot_empty]\<rparr>))"

section \<open>The manager\<close>

record 'c WorldEntityManager =
  entityRegistry :: WorldEntityRegistry
  componentStore :: "'c WorldEntityComponentStore"

definition WorldEntityManager_construct :: "'c WorldEntityManager" where
  "WorldEntityManager_construct =
     \<lparr>entityRegistry = WorldEntityRegistry_construct, componentStore = WorldEntityComponentStore_construct\<rparr>"

definition Manager_TryCreate ::
    "'c \<Rightarrow> bool \<Rightarrow> 'c WorldEntityManager \<Rightarrow> (WorldEntityKey \<times> EntityHandle) option \<times> 'c WorldEntityManager" where
  "Manager_TryCreate components out m =
     (if \<not> out then (None, m)
      else case Registry_TryCreate True (entityRegistry m) of
        (None, reg) \<Rightarrow> (None, m\<lparr>entityRegistry := reg\<rparr>)
      | (Some (key, handle), reg) \<Rightarrow>
          (case Store_TryCreate handle components (componentStore m) of
             (False, st) \<Rightarrow> (None, \<lparr>entityRegistry = snd (Registry_Remove handle reg), componentStore = st\<rparr>)
           | (True, st) \<Rightarrow> (Some (key, handle), \<lparr>entityRegistry = reg, componentStore = st\<rparr>)))"

definition Manager_TryFindHandle :: "WorldEntityKey \<Rightarrow> bool \<Rightarrow> 'c WorldEntityManager \<Rightarrow> EntityHandle option" where
  "Manager_TryFindHandle key out m = Registry_TryFindHandle key out (entityRegistry m)"

definition Manager_TryFindKey :: "EntityHandle \<Rightarrow> bool \<Rightarrow> 'c WorldEntityManager \<Rightarrow> WorldEntityKey option" where
  "Manager_TryFindKey handle out m = Registry_TryFindKey handle out (entityRegistry m)"

definition Manager_TryReadComponents :: "EntityHandle \<Rightarrow> bool \<Rightarrow> 'c WorldEntityManager \<Rightarrow> 'c option" where
  "Manager_TryReadComponents handle out m = Store_TryRead handle out (componentStore m)"

definition Manager_TryReadComponentsView :: "EntityHandle \<Rightarrow> bool \<Rightarrow> 'c WorldEntityManager \<Rightarrow> nat option" where
  "Manager_TryReadComponentsView handle out m = Store_TryReadView handle out (componentStore m)"

definition Manager_TryReplaceComponents :: "EntityHandle \<Rightarrow> 'c \<Rightarrow> 'c WorldEntityManager \<Rightarrow> bool \<times> 'c WorldEntityManager" where
  "Manager_TryReplaceComponents handle components m =
     (case Store_TryReplace handle components (componentStore m) of (r, st) \<Rightarrow> (r, m\<lparr>componentStore := st\<rparr>))"

definition Manager_Remove :: "EntityHandle \<Rightarrow> 'c WorldEntityManager \<Rightarrow> bool \<times> 'c WorldEntityManager" where
  "Manager_Remove handle m =
     (case (Registry_TryFindKey handle True (entityRegistry m), Store_TryRead handle True (componentStore m)) of
        (Some key, Some components) \<Rightarrow>
          (case Store_Remove handle (componentStore m) of
             (False, st) \<Rightarrow> (False, m\<lparr>componentStore := st\<rparr>)
           | (True, st) \<Rightarrow>
               (case Registry_Remove handle (entityRegistry m) of
                  (False, reg) \<Rightarrow> (False, \<lparr>entityRegistry = reg, componentStore = snd (Store_TryCreate handle components st)\<rparr>)
                | (True, reg) \<Rightarrow> (True, \<lparr>entityRegistry = reg, componentStore = st\<rparr>)))
      | _ \<Rightarrow> (False, m))"

definition Manager_ActiveHandles :: "'c WorldEntityManager \<Rightarrow> EntityHandle list" where
  "Manager_ActiveHandles m = denseHandles (componentStore m)"

definition Manager_Size :: "'c WorldEntityManager \<Rightarrow> nat" where
  "Manager_Size m = activeCount (entityRegistry m)"

end
