(* ===== verification/WsEntitiesLaws.thy ===== *)
theory WsEntitiesLaws imports WsEntities begin

text \<open>
  The guarantees of the entity manager: it is a finite map from the handles it issued to keys and
  components, keys and handles find each other, and no key and no handle is ever issued twice, so that
  a stale one is refused for ever. The contract of a keyed store is the locale \<open>keyed_store\<close>.
\<close>

section \<open>The contract of a keyed store\<close>

text \<open>
  What the manager relies on: \<open>look\<close> reads a store, \<open>put\<close> adds a new key, \<open>set_at\<close> replaces the value of
  a key and \<open>del\<close> removes one; each says whether it did.
\<close>

locale keyed_store =
  fixes ok :: "'s \<Rightarrow> bool" and look :: "'s \<Rightarrow> 'k \<Rightarrow> 'v option"
    and put :: "'k \<Rightarrow> 'v \<Rightarrow> 's \<Rightarrow> bool \<times> 's" and update :: "'k \<Rightarrow> 'v \<Rightarrow> 's \<Rightarrow> bool \<times> 's" and del :: "'k \<Rightarrow> 's \<Rightarrow> bool \<times> 's"
  assumes put_done: "ok s \<Longrightarrow> put k v s = (True, s') \<Longrightarrow> ok s' \<and> look s k = None \<and> look s' = (look s)(k \<mapsto> v)"
    and put_refused: "ok s \<Longrightarrow> put k v s = (False, s') \<Longrightarrow> ok s' \<and> look s' = look s"
    and update_done: "ok s \<Longrightarrow> update k v s = (True, s') \<Longrightarrow> ok s' \<and> look s k \<noteq> None \<and> look s' = (look s)(k \<mapsto> v)"
    and update_refused: "ok s \<Longrightarrow> update k v s = (False, s') \<Longrightarrow> s' = s \<and> look s k = None"
    and del_done: "ok s \<Longrightarrow> del k s = (True, s') \<Longrightarrow> ok s' \<and> look s k \<noteq> None \<and> look s' = (look s)(k := None)"
    and del_refused: "ok s \<Longrightarrow> del k s = (False, s') \<Longrightarrow> s' = s \<and> look s k = None"
begin

lemma del_present:
  assumes "ok s" "look s k \<noteq> None"
  shows "\<exists>s'. del k s = (True, s') \<and> ok s' \<and> look s' = (look s)(k := None)"
proof -
  obtain b s' where d: "del k s = (b, s')" by (cases "del k s") auto
  have b using del_refused [OF assms(1)] d assms(2) by (cases b) auto
  then show ?thesis using del_done [OF assms(1), of k s'] d by simp
qed

lemma update_present:
  assumes "ok s" "look s k \<noteq> None"
  shows "\<exists>s'. update k v s = (True, s') \<and> ok s' \<and> look s' = (look s)(k \<mapsto> v)"
proof -
  obtain b s' where d: "update k v s = (b, s')" by (cases "update k v s") auto
  have b using update_refused [OF assms(1)] d assms(2) by (cases b) auto
  then show ?thesis using update_done [OF assms(1), of k v s'] d by simp
qed

lemma put_keeps:
  assumes "ok s"
  shows "ok (snd (put k v s))"
proof -
  obtain b s' where d: "put k v s = (b, s')" by (cases "put k v s") auto
  then show ?thesis using put_done [OF assms, of k v s'] put_refused [OF assms, of k v s'] by (cases b) auto
qed

text \<open>Putting a key back after deleting it leaves nothing but the change of order.\<close>

lemma put_after_del:
  assumes "ok s" "del k s = (True, s')" "put k v s' = (True, s'')" "look s k = Some v"
  shows "look s'' = look s"
  using del_done [OF assms(1,2)] put_done [of s' k v s''] assms(3,4) by auto

end

section \<open>The sparse set\<close>

definition store_ok :: "'c WorldEntityComponentStore \<Rightarrow> bool" where
  "store_ok st \<longleftrightarrow> length (denseHandles st) = length (denseComponents st) \<and> length (denseHandles st) \<le> 2 ^ 32 - 1 \<and>
     length (sparseSlots st) \<le> 2 ^ 32 \<and>
     (\<forall>i < length (denseHandles st). EntityHandle_IsValid (denseHandles st ! i) \<and>
        unat (slotIndex (denseHandles st ! i)) < length (sparseSlots st) \<and>
        sparseSlots st ! unat (slotIndex (denseHandles st ! i)) =
          \<lparr>denseIndex = word_of_nat i, sparseGeneration = slotGeneration (denseHandles st ! i)\<rparr>) \<and>
     (\<forall>j < length (sparseSlots st). SparseSlot_IsUsed (sparseSlots st ! j) \<longrightarrow>
        (\<exists>i < length (denseHandles st). unat (slotIndex (denseHandles st ! i)) = j))"

lemma store_okD:
  assumes "store_ok st"
  shows "length (denseComponents st) = length (denseHandles st)" "length (denseHandles st) < 2 ^ 32"
    and "length (sparseSlots st) \<le> 2 ^ 32"
    and "i < length (denseHandles st) \<Longrightarrow> EntityHandle_IsValid (denseHandles st ! i)"
    and "i < length (denseHandles st) \<Longrightarrow> unat (slotIndex (denseHandles st ! i)) < length (sparseSlots st)"
    and "i < length (denseHandles st) \<Longrightarrow> sparseSlots st ! unat (slotIndex (denseHandles st ! i)) =
      \<lparr>denseIndex = word_of_nat i, sparseGeneration = slotGeneration (denseHandles st ! i)\<rparr>"
    and "j < length (sparseSlots st) \<Longrightarrow> SparseSlot_IsUsed (sparseSlots st ! j) \<Longrightarrow>
      \<exists>i < length (denseHandles st). unat (slotIndex (denseHandles st ! i)) = j"
  using assms by (auto simp: store_ok_def)

lemma unat_index: "i < 2 ^ 32 \<Longrightarrow> unat (word_of_nat i :: u32) = i"
  by (simp add: unat_of_nat take_bit_nat_eq_self)

lemma slot_of_dense:
  assumes "store_ok st" "i < length (denseHandles st)" "j < length (denseHandles st)"
    and "unat (slotIndex (denseHandles st ! i)) = unat (slotIndex (denseHandles st ! j))"
  shows "i = j"
proof -
  have "(word_of_nat i :: u32) = word_of_nat j"
    using store_okD(6) [OF assms(1,2)] store_okD(6) [OF assms(1,3)] assms(4) by simp
  then show ?thesis using assms(2,3) store_okD(2) [OF assms(1)] by (metis order_less_trans unat_index)
qed

lemma distinct_dense: "store_ok st \<Longrightarrow> distinct (denseHandles st)"
  unfolding distinct_conv_nth using slot_of_dense [of st] by metis

lemma alive_dense:
  assumes "store_ok st"
  shows "Store_IsAlive h st \<longleftrightarrow> (\<exists>i < length (denseHandles st). denseHandles st ! i = h \<and>
    unat (denseIndex (sparseSlots st ! unat (slotIndex h))) = i)" (is "?a = ?b")
proof
  show "?a \<Longrightarrow> ?b" unfolding Store_IsAlive_def Let_def by (auto split: if_splits)
  assume ?b
  then obtain i where i: "i < length (denseHandles st)" "denseHandles st ! i = h" by blast
  then show ?a using store_okD(2) [OF assms] store_okD(4-6) [OF assms, of i] unat_index [of i]
    by (auto simp: Store_IsAlive_def Let_def SparseSlot_IsUsed_def EntityHandle_IsValid_def)
qed

lemma read_dense:
  assumes "store_ok st" "i < length (denseHandles st)"
  shows "Store_TryRead (denseHandles st ! i) True st = Some (denseComponents st ! i)"
    and "Store_IsAlive (denseHandles st ! i) st"
    and "unat (denseIndex (sparseSlots st ! unat (slotIndex (denseHandles st ! i)))) = i"
proof -
  show u: "unat (denseIndex (sparseSlots st ! unat (slotIndex (denseHandles st ! i)))) = i"
    using store_okD(2) [OF assms(1)] store_okD(6) [OF assms(1), of i] assms(2) unat_index [of i] by simp
  then show a: "Store_IsAlive (denseHandles st ! i) st" using alive_dense [OF assms(1)] assms(2) by blast
  show "Store_TryRead (denseHandles st ! i) True st = Some (denseComponents st ! i)"
    using a u by (simp add: Store_TryRead_def)
qed

lemma alive_iff: "store_ok st \<Longrightarrow> Store_IsAlive h st \<longleftrightarrow> h \<in> set (denseHandles st)"
  using alive_dense [of st h] read_dense(2) [of st] by (metis in_set_conv_nth)

lemma map_add_single: "M k = None \<Longrightarrow> [k \<mapsto> v] ++ M = M(k \<mapsto> v)"
  by (auto simp: map_add_def fun_eq_iff split: option.split)

definition components_of :: "'c WorldEntityComponentStore \<Rightarrow> EntityHandle \<Rightarrow> 'c option" where
  "components_of st h = Store_TryRead h True st"

lemma read_map:
  assumes "store_ok st"
  shows "components_of st = map_of (zip (denseHandles st) (denseComponents st))"
proof
  fix h
  show "components_of st h = map_of (zip (denseHandles st) (denseComponents st)) h"
  proof (cases "h \<in> set (denseHandles st)")
    case False
    then show ?thesis using alive_iff [OF assms] store_okD(1) [OF assms]
      by (metis (no_types, lifting) components_of_def Store_TryRead_def map_of_zip_is_None)
  next
    case True
    then obtain i where "i < length (denseHandles st)" "denseHandles st ! i = h" by (auto simp: in_set_conv_nth)
    then show ?thesis
      using read_dense(1) [OF assms] map_of_zip_nth [OF _ distinct_dense [OF assms]] store_okD(1) [OF assms]
      unfolding components_of_def by metis
  qed
qed

lemma store_ok_construct: "store_ok WorldEntityComponentStore_construct"
  by (simp add: store_ok_def WorldEntityComponentStore_construct_def)

lemma store_create:
  assumes ok: "store_ok st" and c: "Store_TryCreate h v st = (True, st')"
  shows "store_ok st'" "components_of st h = None" "components_of st' = (components_of st)(h \<mapsto> v)"
    and "denseHandles st' = denseHandles st @ [h]"
    and "length (sparseSlots st') = max (length (sparseSlots st)) (Suc (unat (slotIndex h)))"
proof -
  let ?n = "length (denseHandles st)" and ?k = "unat (slotIndex h)"
  define sparse where "sparse = (if ?k = length (sparseSlots st) then sparseSlots st @ [SparseSlot_empty] else sparseSlots st)"
  note d = store_okD [OF ok]
  have h: "EntityHandle_IsValid h" "?k \<le> length (sparseSlots st)" "?n < 2 ^ 32 - 1" "\<not> SparseSlot_IsUsed (sparse ! ?k)"
    and st': "st' = \<lparr>sparseSlots = sparse[?k := \<lparr>denseIndex = word_of_nat ?n, sparseGeneration = slotGeneration h\<rparr>],
      denseHandles = denseHandles st @ [h], denseComponents = denseComponents st @ [v]\<rparr>"
    using c d(1) by (auto simp: Store_TryCreate_def Let_def sparse_def split: if_splits)
  have k: "?k < 2 ^ 32" using unsigned_less [of "slotIndex h"] by simp
  have len: "length sparse = max (length (sparseSlots st)) (Suc ?k)" using h(2) by (auto simp: sparse_def)
  have old: "sparse ! j = sparseSlots st ! j" if "j < length (sparseSlots st)" for j
    using that by (auto simp: sparse_def nth_append)
  have away: "unat (slotIndex (denseHandles st ! i)) \<noteq> ?k" if i: "i < ?n" for i
    using d(4-6) [OF i] h(4) old [of ?k] by (auto simp: SparseSlot_IsUsed_def EntityHandle_IsValid_def)
  show ok': "store_ok st'"
    unfolding store_ok_def
  proof (intro conjI allI impI)
    show "length (denseHandles st') = length (denseComponents st')" using d(1) by (simp add: st')
    show "length (denseHandles st') \<le> 2 ^ 32 - 1" using h(3) by (simp add: st')
    show "length (sparseSlots st') \<le> 2 ^ 32" using d(3) k by (simp add: st' len)
    fix i assume i: "i < length (denseHandles st')"
    show "EntityHandle_IsValid (denseHandles st' ! i)" using i h(1) d(4) by (auto simp: st' nth_append less_Suc_eq)
    show "unat (slotIndex (denseHandles st' ! i)) < length (sparseSlots st')"
      using i d(5) by (auto simp: st' nth_append less_Suc_eq len less_max_iff_disj)
    show "sparseSlots st' ! unat (slotIndex (denseHandles st' ! i)) =
        \<lparr>denseIndex = word_of_nat i, sparseGeneration = slotGeneration (denseHandles st' ! i)\<rparr>"
    proof (cases "i < ?n")
      case True
      then show ?thesis using d(5,6) [OF True] away [OF True] old by (simp add: st' nth_append)
    next
      case False
      then show ?thesis using i len by (simp add: st' nth_append less_Suc_eq)
    qed
  next
    fix j assume j: "j < length (sparseSlots st')" and u: "SparseSlot_IsUsed (sparseSlots st' ! j)"
    show "\<exists>i < length (denseHandles st'). unat (slotIndex (denseHandles st' ! i)) = j"
    proof (cases "j = ?k")
      case True
      then show ?thesis by (intro exI [of _ ?n]) (simp add: st')
    next
      case False
      then have "j < length (sparseSlots st)" using j h(2) by (auto simp: st' len)
      moreover have "SparseSlot_IsUsed (sparseSlots st ! j)" using u False old calculation by (simp add: st')
      ultimately obtain i where "i < ?n" "unat (slotIndex (denseHandles st ! i)) = j" using d(7) by blast
      then show ?thesis by (intro exI [of _ i]) (simp add: st' nth_append)
    qed
  qed
  have "h \<notin> set (denseHandles st)" using away by (auto simp: in_set_conv_nth)
  then show "components_of st h = None" using alive_iff [OF ok] by (simp add: components_of_def Store_TryRead_def)
  have "map_of (zip (denseHandles st') (denseComponents st')) = (map_of (zip (denseHandles st) (denseComponents st)))(h \<mapsto> v)"
  proof -
    have "map_of (zip (denseHandles st) (denseComponents st)) h = None"
      using \<open>h \<notin> set (denseHandles st)\<close> d(1) by simp
    from map_add_single [of "map_of (zip (denseHandles st) (denseComponents st))", OF this] show ?thesis using d(1) by (simp add: st')
  qed
  then show "components_of st' = (components_of st)(h \<mapsto> v)" by (simp add: read_map [OF ok] read_map [OF ok'])
  show "denseHandles st' = denseHandles st @ [h]" by (simp add: st')
  show "length (sparseSlots st') = max (length (sparseSlots st)) (Suc ?k)" by (simp add: st' len)
qed

lemma store_create_refused:
  assumes ok: "store_ok st" and c: "Store_TryCreate h v st = (False, st')"
  shows "st' = st"
  using assms by (auto simp: Store_TryCreate_def Let_def SparseSlot_empty_def SparseSlot_IsUsed_def split: if_splits)

lemma store_replace:
  assumes ok: "store_ok st" and c: "Store_TryReplace h v st = (True, st')"
  shows "store_ok st'" "components_of st h \<noteq> None" "components_of st' = (components_of st)(h \<mapsto> v)"
    and "denseHandles st' = denseHandles st" "sparseSlots st' = sparseSlots st"
proof -
  let ?i = "unat (denseIndex (sparseSlots st ! unat (slotIndex h)))"
  have a: "Store_IsAlive h st" and st': "st' = st\<lparr>denseComponents := (denseComponents st)[?i := v]\<rparr>"
    using c by (auto simp: Store_TryReplace_def split: if_splits)
  then show "components_of st h \<noteq> None" by (simp add: components_of_def Store_TryRead_def)
  have i: "?i < length (denseHandles st)" "denseHandles st ! ?i = h" using a alive_dense [OF ok] by auto
  show "store_ok st'" using store_okD(1) [OF ok] ok unfolding store_ok_def st' by auto
  show "components_of st' = (components_of st)(h \<mapsto> v)"
  proof
    fix g
    have l: "Store_IsAlive g st' = Store_IsAlive g st" by (simp add: st' Store_IsAlive_def)
    show "components_of st' g = ((components_of st)(h \<mapsto> v)) g"
    proof (cases "g = h")
      case True
      then show ?thesis using a l i store_okD(1) [OF ok] by (simp add: components_of_def Store_TryRead_def st')
    next
      case False
      then have "Store_IsAlive g st \<Longrightarrow> unat (denseIndex (sparseSlots st ! unat (slotIndex g))) \<noteq> ?i"
        using alive_dense [OF ok, of g] i by auto
      then show ?thesis using False l by (auto simp: components_of_def Store_TryRead_def st')
    qed
  qed
  show "denseHandles st' = denseHandles st" "sparseSlots st' = sparseSlots st" by (simp_all add: st')
qed

lemma store_replace_refused:
  "Store_TryReplace h v st = (False, st') \<Longrightarrow> st' = st \<and> components_of st h = None"
  by (auto simp: Store_TryReplace_def components_of_def Store_TryRead_def split: if_splits)

lemma store_remove:
  assumes ok: "store_ok st" and c: "Store_Remove h st = (True, st')"
  shows "store_ok st'" "components_of st h \<noteq> None" "components_of st' = (components_of st)(h := None)"
    and "set (denseHandles st') = set (denseHandles st) - {h}" "length (sparseSlots st') = length (sparseSlots st)"
    and "Suc (length (denseHandles st')) = length (denseHandles st)"
proof -
  let ?n = "length (denseHandles st)" and ?k = "unat (slotIndex h)" and ?dh = "denseHandles st" and ?dc = "denseComponents st"
  note d = store_okD [OF ok]
  have a: "Store_IsAlive h st" using c by (auto simp: Store_Remove_def split: if_splits)
  then show "components_of st h \<noteq> None" by (simp add: components_of_def Store_TryRead_def)
  define r where "r = unat (denseIndex (sparseSlots st ! ?k))"
  have r: "r < ?n" "?dh ! r = h" using a alive_dense [OF ok] by (auto simp: r_def)
  define m where "m = ?n - 1"
  have m: "m < ?n" "?n = Suc m" using r(1) by (auto simp: m_def)
  define j where "j = unat (slotIndex (?dh ! m))"
  have jk: "j = ?k \<longleftrightarrow> r = m"
    using slot_of_dense [OF ok r(1) m(1)] r(2) by (auto simp: j_def)
  have bounds: "?k < length (sparseSlots st)" "j < length (sparseSlots st)"
    using d(5) [OF r(1)] d(5) [OF m(1)] r(2) by (simp_all add: j_def)
  have st': "denseHandles st' = butlast (?dh[r := ?dh ! m])" "denseComponents st' = butlast (?dc[r := ?dc ! m])"
      "sparseSlots st' = (if r \<noteq> m then (sparseSlots st)[j := (sparseSlots st ! j)\<lparr>denseIndex := word_of_nat r\<rparr>]
        else sparseSlots st)[?k := SparseSlot_empty]"
    using c a d(1) m by (auto simp: Store_Remove_def Let_def r_def [symmetric] j_def list_update_same_conv)
  have len: "length (denseHandles st') = m" "length (denseComponents st') = m" using m d(1) by (simp_all add: st')
  then show "Suc (length (denseHandles st')) = length ?dh" using m by simp
  have dh: "denseHandles st' ! i = (if i = r then ?dh ! m else ?dh ! i)" if "i < m" for i
    using that m by (simp add: st' nth_butlast nth_list_update)
  have dc: "denseComponents st' ! i = (if i = r then ?dc ! m else ?dc ! i)" if "i < m" for i
    using that m d(1) by (simp add: st' nth_butlast nth_list_update)
  have idx: "unat (slotIndex (?dh ! i)) \<noteq> ?k" if "i < ?n" "i \<noteq> r" for i
    using slot_of_dense [OF ok that(1) r(1)] that(2) r(2) by auto
  show sl: "length (sparseSlots st') = length (sparseSlots st)" by (simp add: st')
  have sp: "sparseSlots st' ! unat (slotIndex (?dh ! i)) =
      (if i = m then (sparseSlots st ! j)\<lparr>denseIndex := word_of_nat r\<rparr> else sparseSlots st ! unat (slotIndex (?dh ! i)))"
    if i: "i < ?n" "i \<noteq> r" for i
    using idx [OF i] slot_of_dense [OF ok i(1) m(1)] bounds i jk by (auto simp: st' j_def nth_list_update)
  show ok': "store_ok st'"
    unfolding store_ok_def
  proof (intro conjI allI impI)
    show "length (denseHandles st') = length (denseComponents st')" by (simp add: len)
    show "length (denseHandles st') \<le> 2 ^ 32 - 1" using d(2) m by (simp add: len)
    show "length (sparseSlots st') \<le> 2 ^ 32" using d(3) by (simp add: sl)
    fix i assume "i < length (denseHandles st')"
    then have i: "i < m" by (simp add: len)
    show "EntityHandle_IsValid (denseHandles st' ! i)" using dh [OF i] d(4) i m by simp
    show "unat (slotIndex (denseHandles st' ! i)) < length (sparseSlots st')" using dh [OF i] d(5) i m by (simp add: sl)
    show "sparseSlots st' ! unat (slotIndex (denseHandles st' ! i)) =
        \<lparr>denseIndex = word_of_nat i, sparseGeneration = slotGeneration (denseHandles st' ! i)\<rparr>"
      using dh [OF i] sp [of m] sp [of i] d(6) [of m] d(6) [of i] i m by (auto simp: j_def)
  next
    fix s assume s: "s < length (sparseSlots st')" "SparseSlot_IsUsed (sparseSlots st' ! s)"
    have "s \<noteq> ?k" using s bounds by (auto simp: st' SparseSlot_IsUsed_def SparseSlot_empty_def)
    moreover have "SparseSlot_IsUsed (sparseSlots st ! s)"
      using s \<open>s \<noteq> ?k\<close> bounds by (auto simp: st' SparseSlot_IsUsed_def nth_list_update split: if_splits)
    ultimately obtain i where i: "i < ?n" "unat (slotIndex (?dh ! i)) = s" "i \<noteq> r" using d(7) s(1) r(2) by (auto simp: sl)
    have "(if i = m then r else i) < m \<and> unat (slotIndex (denseHandles st' ! (if i = m then r else i))) = s"
      using i m r(1) dh [of r] dh [of i] by auto
    then show "\<exists>i < length (denseHandles st'). unat (slotIndex (denseHandles st' ! i)) = s" using len(1) by metis
  qed
  show set': "set (denseHandles st') = set ?dh - {h}"
  proof (intro equalityI subsetI)
    fix g assume "g \<in> set (denseHandles st')"
    then obtain i where i: "i < m" "g = denseHandles st' ! i" by (auto simp: in_set_conv_nth len)
    then have "g = ?dh ! (if i = r then m else i)" "(if i = r then m else i) < ?n" "(if i = r then m else i) \<noteq> r"
      using dh m by auto
    then show "g \<in> set ?dh - {h}" using idx r(2) by (metis DiffI in_set_conv_nth singletonD)
  next
    fix g assume g: "g \<in> set ?dh - {h}"
    then obtain i where i: "i < ?n" "g = ?dh ! i" "i \<noteq> r" using r(2) by (auto simp: in_set_conv_nth)
    then have "g = denseHandles st' ! (if i = m then r else i)" "(if i = m then r else i) < m"
      using dh [of r] dh [of i] m r(1) by auto
    then show "g \<in> set (denseHandles st')" using len(1) by (metis in_set_conv_nth)
  qed
  show "components_of st' = (components_of st)(h := None)"
  proof
    fix g
    show "components_of st' g = ((components_of st)(h := None)) g"
    proof (cases "g \<in> set ?dh - {h}")
      case False
      then show ?thesis using set' alive_iff [OF ok] alive_iff [OF ok'] by (auto simp: components_of_def Store_TryRead_def)
    next
      case True
      then obtain i where i: "i < ?n" "g = ?dh ! i" "i \<noteq> r" using r(2) by (auto simp: in_set_conv_nth)
      let ?i = "if i = m then r else i"
      have "g = denseHandles st' ! ?i" "?i < length (denseHandles st')" "denseComponents st' ! ?i = ?dc ! i"
        using i dh [of r] dh [of i] dc [of r] dc [of i] m r(1) by (auto simp: len)
      then show ?thesis using read_dense(1) [OF ok', of ?i] read_dense(1) [OF ok i(1)] i(2) True by (simp add: components_of_def)
    qed
  qed
qed

lemma store_remove_refused:
  "Store_Remove h st = (False, st') \<Longrightarrow> st' = st \<and> components_of st h = None"
  by (auto simp: Store_Remove_def components_of_def Store_TryRead_def Let_def split: if_splits)

interpretation component_store: keyed_store store_ok components_of Store_TryCreate Store_TryReplace Store_Remove
proof
  fix st st' :: "'a WorldEntityComponentStore" and h v
  assume ok: "store_ok st"
  show "store_ok st' \<and> components_of st h = None \<and> components_of st' = (components_of st)(h \<mapsto> v)"
    if "Store_TryCreate h v st = (True, st')" using store_create [OF ok that] by blast
  show "store_ok st' \<and> components_of st' = components_of st"
    if "Store_TryCreate h v st = (False, st')" using store_create_refused [OF ok that] ok by blast
  show "store_ok st' \<and> components_of st h \<noteq> None \<and> components_of st' = (components_of st)(h \<mapsto> v)"
    if "Store_TryReplace h v st = (True, st')" using store_replace [OF ok that] by blast
  show "st' = st \<and> components_of st h = None"
    if "Store_TryReplace h v st = (False, st')" using store_replace_refused [OF that] .
  show "store_ok st' \<and> components_of st h \<noteq> None \<and> components_of st' = (components_of st)(h := None)"
    if "Store_Remove h st = (True, st')" using store_remove [OF ok that] by blast
  show "st' = st \<and> components_of st h = None"
    if "Store_Remove h st = (False, st')" using store_remove_refused [OF that] .
qed

section \<open>The registry\<close>

text \<open>The key that belongs to a handle, and the handles that a registry has issued so far.\<close>

definition key_of :: "EntityHandle \<Rightarrow> WorldEntityKey" where
  "key_of h = \<lparr>entityId = slotIndex h + 1, generation = slotGeneration h\<rparr>"

definition issued_before :: "EntityHandle \<Rightarrow> WorldEntityRegistry \<Rightarrow> bool" where
  "issued_before h reg \<longleftrightarrow> unat (slotIndex h) < length (entitySlots reg) \<and> slotGeneration h \<noteq> 0 \<and>
     slotGeneration h \<le> slotGeneration' (entitySlots reg ! unat (slotIndex h))"

definition ids_ok :: "WorldEntityRegistry \<Rightarrow> bool" where
  "ids_ok reg \<longleftrightarrow> length (entitySlots reg) \<le> 2 ^ 32 - 1 \<and> distinct (freeSlotIndices reg) \<and>
     (\<forall>i \<in> set (freeSlotIndices reg). unat i < length (entitySlots reg) \<and>
        \<not> isUsed (entitySlots reg ! unat i) \<and> slotGeneration' (entitySlots reg ! unat i) \<noteq> - 1) \<and>
     (\<forall>i < length (entitySlots reg). entityGeneration (entitySlots reg ! i) = slotGeneration' (entitySlots reg ! i) \<and>
        slotGeneration' (entitySlots reg ! i) \<noteq> 0 \<and>
        (isUsed (entitySlots reg ! i) \<or> slotGeneration' (entitySlots reg ! i) = - 1 \<or> word_of_nat i \<in> set (freeSlotIndices reg))) \<and>
     activeCount reg = count_of isUsed (entitySlots reg)"

lemma ids_okD:
  assumes "ids_ok reg"
  shows "length (entitySlots reg) \<le> 2 ^ 32 - 1" "distinct (freeSlotIndices reg)"
    and "i \<in> set (freeSlotIndices reg) \<Longrightarrow> unat i < length (entitySlots reg)"
    and "i \<in> set (freeSlotIndices reg) \<Longrightarrow> \<not> isUsed (entitySlots reg ! unat i)"
    and "i \<in> set (freeSlotIndices reg) \<Longrightarrow> slotGeneration' (entitySlots reg ! unat i) \<noteq> - 1"
    and "j < length (entitySlots reg) \<Longrightarrow> entityGeneration (entitySlots reg ! j) = slotGeneration' (entitySlots reg ! j)"
    and "j < length (entitySlots reg) \<Longrightarrow> slotGeneration' (entitySlots reg ! j) \<noteq> 0"
    and "j < length (entitySlots reg) \<Longrightarrow> isUsed (entitySlots reg ! j) \<or> slotGeneration' (entitySlots reg ! j) = - 1 \<or>
      word_of_nat j \<in> set (freeSlotIndices reg)"
    and "activeCount reg = count_of isUsed (entitySlots reg)"
  using assms by (auto simp: ids_ok_def)

lemma ids_ok_construct: "ids_ok WorldEntityRegistry_construct"
  by (simp add: ids_ok_def WorldEntityRegistry_construct_def count_of_def)

lemma alive_slot:
  assumes "ids_ok reg"
  shows "Registry_IsAlive h reg \<longleftrightarrow> unat (slotIndex h) < length (entitySlots reg) \<and>
    isUsed (entitySlots reg ! unat (slotIndex h)) \<and> slotGeneration' (entitySlots reg ! unat (slotIndex h)) = slotGeneration h"
  using ids_okD(7) [OF assms, of "unat (slotIndex h)"]
  by (auto simp: Registry_IsAlive_def EntityHandle_IsValid_def Let_def)

lemma alive_issued: "ids_ok reg \<Longrightarrow> Registry_IsAlive h reg \<Longrightarrow> issued_before h reg"
  using ids_okD(7) [of reg "unat (slotIndex h)"] by (auto simp: alive_slot issued_before_def)

lemma word_next:
  assumes "(x :: u32) \<noteq> - 1"
  shows "unat (x + 1) = unat x + 1" "x < x + 1" "x + 1 \<noteq> 0"
proof -
  show n: "x + 1 \<noteq> 0" using assms by (simp add: add_eq_0_iff2)
  then show u: "unat (x + 1) = unat x + 1" using unatSuc [of x] by (simp add: add.commute)
  then show "x < x + 1" by (simp add: word_less_nat_alt)
qed

text \<open>What a creation gives: a handle that was never issued.\<close>

definition creates :: "WorldEntityRegistry \<Rightarrow> WorldEntityKey \<Rightarrow> EntityHandle \<Rightarrow> WorldEntityRegistry \<Rightarrow> bool" where
  "creates reg k h reg' \<longleftrightarrow> ids_ok reg' \<and> k = key_of h \<and> \<not> issued_before h reg \<and> issued_before h reg' \<and>
     (\<forall>g. Registry_IsAlive g reg' \<longleftrightarrow> g = h \<or> Registry_IsAlive g reg) \<and>
     (\<forall>g. issued_before g reg \<longrightarrow> issued_before g reg') \<and> unat (slotIndex h) \<le> length (entitySlots reg) \<and>
     length (entitySlots reg') = max (length (entitySlots reg)) (Suc (unat (slotIndex h))) \<and>
     activeCount reg' = Suc (activeCount reg) \<and>
     (unat (slotIndex h) < length (entitySlots reg) \<longrightarrow> \<not> isUsed (entitySlots reg ! unat (slotIndex h)))"

lemma last_butlast_distinct: "distinct xs \<Longrightarrow> xs \<noteq> [] \<Longrightarrow> set (butlast xs) = set xs - {last xs}"
  by (induction xs rule: rev_induct) auto

lemma ids_reuse:
  assumes ok: "ids_ok reg" and f: "freeSlotIndices reg \<noteq> []"
  defines "i \<equiv> last (freeSlotIndices reg)"
  defines "s \<equiv> entitySlots reg ! unat i"
  defines "g \<equiv> slotGeneration' s + 1"
  defines "reg' \<equiv> reg\<lparr>entitySlots := (entitySlots reg)[unat i := \<lparr>entityGeneration = g, slotGeneration' = g, isUsed = True\<rparr>],
    freeSlotIndices := butlast (freeSlotIndices reg), activeCount := activeCount reg + 1\<rparr>"
  shows "creates reg \<lparr>entityId = i + 1, generation = g\<rparr> \<lparr>slotIndex = i, slotGeneration = g\<rparr> reg'"
proof -
  note d = ids_okD [OF ok]
  have i: "i \<in> set (freeSlotIndices reg)" "unat i < length (entitySlots reg)" "\<not> isUsed s" "slotGeneration' s \<noteq> - 1"
    using f d(3-5) [of i] by (auto simp: i_def s_def)
  have g: "slotGeneration' s < g" "g \<noteq> 0" using word_next [OF i(4)] by (auto simp: g_def)
  have free: "set (butlast (freeSlotIndices reg)) = set (freeSlotIndices reg) - {i}"
    using last_butlast_distinct [OF d(2) f] by (simp add: i_def)
  have eq: "unat j = unat i \<longleftrightarrow> j = i" for j by (simp add: word_unat_eq_iff)
  have "ids_ok reg'"
    unfolding ids_ok_def
  proof (intro conjI ballI allI impI)
    show "length (entitySlots reg') \<le> 2 ^ 32 - 1" using d(1) by (simp add: reg'_def)
    show "distinct (freeSlotIndices reg')" using d(2) by (simp add: reg'_def distinct_butlast)
    show "activeCount reg' = count_of isUsed (entitySlots reg')"
      using d(9) i(2,3) by (simp add: reg'_def count_of_update s_def)
  next
    fix j assume "j \<in> set (freeSlotIndices reg')"
    then have j: "j \<in> set (freeSlotIndices reg)" "unat j \<noteq> unat i" by (auto simp: reg'_def free eq)
    then show "unat j < length (entitySlots reg')" "\<not> isUsed (entitySlots reg' ! unat j)"
      "slotGeneration' (entitySlots reg' ! unat j) \<noteq> - 1" using d(3-5) [of j] by (auto simp: reg'_def)
  next
    fix j assume j: "j < length (entitySlots reg')"
    then have j': "j < length (entitySlots reg)" by (simp add: reg'_def)
    show "entityGeneration (entitySlots reg' ! j) = slotGeneration' (entitySlots reg' ! j)"
      "slotGeneration' (entitySlots reg' ! j) \<noteq> 0"
      using d(6,7) [OF j'] g(2) j' by (cases "j = unat i"; simp add: reg'_def)+
    have "unat (word_of_nat j :: u32) = j" using j' d(1) by (intro unat_index) linarith
    then have "j \<noteq> unat i \<Longrightarrow> (word_of_nat j :: u32) \<noteq> i" by auto
    then show "isUsed (entitySlots reg' ! j) \<or> slotGeneration' (entitySlots reg' ! j) = - 1 \<or>
        word_of_nat j \<in> set (freeSlotIndices reg')"
      using d(8) [OF j'] j' by (cases "j = unat i") (auto simp: reg'_def free)
  qed
  moreover have "Registry_IsAlive x reg' \<longleftrightarrow> x = \<lparr>slotIndex = i, slotGeneration = g\<rparr> \<or> Registry_IsAlive x reg" for x
    using i(2,3) eq [of "slotIndex x"] unfolding alive_slot [OF ok] alive_slot [OF \<open>ids_ok reg'\<close>]
    by (cases x; cases "slotIndex x = i") (auto simp: reg'_def s_def)
  moreover have "issued_before x reg'" if "issued_before x reg" for x
    using that i(2) g(1) eq [of "slotIndex x"] by (auto simp: issued_before_def reg'_def nth_list_update s_def)
  moreover have "\<not> issued_before \<lparr>slotIndex = i, slotGeneration = g\<rparr> reg" using g by (simp add: issued_before_def s_def not_le)
  moreover have "issued_before \<lparr>slotIndex = i, slotGeneration = g\<rparr> reg'" using g i(2) by (simp add: issued_before_def reg'_def)
  ultimately show ?thesis using i(2,3) unfolding creates_def by (simp add: key_of_def reg'_def s_def)
qed

lemma ids_extend:
  assumes ok: "ids_ok reg" and f: "freeSlotIndices reg = []" and n: "length (entitySlots reg) < 2 ^ 32 - 1"
  defines "i \<equiv> word_of_nat (length (entitySlots reg)) :: u32"
  defines "reg' \<equiv> reg\<lparr>entitySlots := entitySlots reg @ [\<lparr>entityGeneration = 1, slotGeneration' = 1, isUsed = True\<rparr>],
    activeCount := activeCount reg + 1\<rparr>"
  shows "creates reg \<lparr>entityId = i + 1, generation = 1\<rparr> \<lparr>slotIndex = i, slotGeneration = 1\<rparr> reg'"
proof -
  note d = ids_okD [OF ok]
  have i: "unat i = length (entitySlots reg)" using n by (simp add: i_def unat_index)
  have "ids_ok reg'"
    unfolding ids_ok_def
  proof (intro conjI ballI allI impI)
    show "length (entitySlots reg') \<le> 2 ^ 32 - 1" using n by (simp add: reg'_def)
    show "distinct (freeSlotIndices reg')" using d(2) by (simp add: reg'_def)
    show "activeCount reg' = count_of isUsed (entitySlots reg')" using d(9) by (simp add: reg'_def count_of_def)
  next
    fix j assume j: "j < length (entitySlots reg')"
    then have "j < length (entitySlots reg) \<or> j = length (entitySlots reg)" by (auto simp: reg'_def)
    then show "entityGeneration (entitySlots reg' ! j) = slotGeneration' (entitySlots reg' ! j)"
      "slotGeneration' (entitySlots reg' ! j) \<noteq> 0"
      "isUsed (entitySlots reg' ! j) \<or> slotGeneration' (entitySlots reg' ! j) = - 1 \<or> word_of_nat j \<in> set (freeSlotIndices reg')"
      using d(6-8) [of j] by (auto simp: reg'_def nth_append)
  qed (simp_all add: reg'_def f)
  moreover have "Registry_IsAlive x reg' \<longleftrightarrow> x = \<lparr>slotIndex = i, slotGeneration = 1\<rparr> \<or> Registry_IsAlive x reg" for x
  proof -
    have "unat (slotIndex x) = length (entitySlots reg) \<longleftrightarrow> slotIndex x = i" by (simp add: word_unat_eq_iff i)
    then show ?thesis unfolding alive_slot [OF ok] alive_slot [OF \<open>ids_ok reg'\<close>]
      by (cases x) (auto simp: reg'_def nth_append less_Suc_eq)
  qed
  moreover have "issued_before x reg'" if "issued_before x reg" for x
    using that by (auto simp: issued_before_def reg'_def nth_append)
  ultimately show ?thesis using i unfolding creates_def by (simp add: key_of_def issued_before_def reg'_def)
qed

lemma ids_create:
  assumes ok: "ids_ok reg" and c: "Registry_TryCreate out reg = (Some (k, h), reg')"
  shows "creates reg k h reg'"
proof (cases "freeSlotIndices reg = []")
  case True
  then show ?thesis using c ids_extend [OF ok] by (auto simp: Registry_TryCreate_def Let_def split: if_splits)
next
  case False
  let ?s = "entitySlots reg ! unat (last (freeSlotIndices reg))"
  have e: "entityGeneration ?s = slotGeneration' ?s"
    using ids_okD(3,6) [OF ok] False by simp
  have u: "?s\<lparr>entityGeneration := slotGeneration' ?s + 1, slotGeneration' := slotGeneration' ?s + 1, isUsed := True\<rparr> =
      \<lparr>entityGeneration = slotGeneration' ?s + 1, slotGeneration' = slotGeneration' ?s + 1, isUsed = True\<rparr>"
    by (cases ?s) simp
  show ?thesis using c False ids_reuse [OF ok False] by (auto simp: Registry_TryCreate_def Let_def e u split: if_splits)
qed

text \<open>A refused creation: every slot is used or has no generation left.\<close>

lemma ids_create_refused:
  assumes ok: "ids_ok reg" and c: "Registry_TryCreate True reg = (None, reg')"
  shows "reg' = reg" "length (entitySlots reg) = 2 ^ 32 - 1"
    and "s \<in> set (entitySlots reg) \<Longrightarrow> isUsed s \<or> slotGeneration' s = - 1"
proof -
  show "reg' = reg" using c by (auto simp: Registry_TryCreate_def Let_def split: if_splits)
  have n: "freeSlotIndices reg = []" "length (entitySlots reg) \<ge> 2 ^ 32 - 1"
    using c by (auto simp: Registry_TryCreate_def Let_def split: if_splits)
  then show "length (entitySlots reg) = 2 ^ 32 - 1" using ids_okD(1) [OF ok] by simp
  show "s \<in> set (entitySlots reg) \<Longrightarrow> isUsed s \<or> slotGeneration' s = - 1"
    using ids_okD(8) [OF ok] n(1) by (auto simp: in_set_conv_nth)
qed

lemma ids_assert: "ids_ok reg \<Longrightarrow> Registry_TryCreate_asserts reg"
proof -
  assume ok: "ids_ok reg"
  have "x \<noteq> - 1 \<Longrightarrow> x < - 1" for x :: u32 by (simp add: order.not_eq_order_implies_strict word_order.extremum)
  then show ?thesis
    using ids_okD(3-5) [OF ok, of "last (freeSlotIndices reg)"] ids_okD(6) [OF ok]
    by (auto simp: Registry_TryCreate_asserts_def Let_def)
qed

lemma ids_remove:
  assumes ok: "ids_ok reg" and c: "Registry_Remove h reg = (True, reg')"
  shows "ids_ok reg'" "Registry_IsAlive h reg" "Registry_IsAlive g reg' \<longleftrightarrow> g \<noteq> h \<and> Registry_IsAlive g reg"
    and "issued_before g reg' \<longleftrightarrow> issued_before g reg" "length (entitySlots reg') = length (entitySlots reg)"
    and "Suc (activeCount reg') = activeCount reg"
proof -
  note d = ids_okD [OF ok]
  define i where "i = unat (slotIndex h)"
  define s where "s = entitySlots reg ! i"
  have a: "Registry_IsAlive h reg" using c by (auto simp: Registry_Remove_def split: if_splits)
  then show "Registry_IsAlive h reg" .
  have i: "i < length (entitySlots reg)" "isUsed s" "slotGeneration' s = slotGeneration h"
    using a alive_slot [OF ok] by (simp_all add: i_def s_def)
  have e: "entityGeneration s = slotGeneration' s" using d(6) [OF i(1)] by (simp add: s_def)
  have r: "entitySlots reg' = (entitySlots reg)[i := s\<lparr>isUsed := False\<rparr>]" "activeCount reg' = activeCount reg - 1"
      "freeSlotIndices reg' = (if slotGeneration' s \<noteq> - 1 then freeSlotIndices reg @ [slotIndex h] else freeSlotIndices reg)"
    using c a e by (auto simp: Registry_Remove_def Let_def i_def s_def)
  have eq: "unat j = i \<longleftrightarrow> j = slotIndex h" for j by (simp add: word_unat_eq_iff i_def)
  have nf: "slotIndex h \<notin> set (freeSlotIndices reg)" using d(4) i(2) by (auto simp: s_def i_def)
  show "length (entitySlots reg') = length (entitySlots reg)" by (simp add: r)
  have "0 < count_of isUsed (entitySlots reg)" using count_of_pos [OF i(1)] i(2) by (simp add: s_def)
  then show cnt: "Suc (activeCount reg') = activeCount reg" using d(9) r(2) by simp
  show ok': "ids_ok reg'"
    unfolding ids_ok_def
  proof (intro conjI ballI allI impI)
    show "length (entitySlots reg') \<le> 2 ^ 32 - 1" using d(1) by (simp add: r)
    show "distinct (freeSlotIndices reg')" using d(2) nf by (simp add: r)
    show "activeCount reg' = count_of isUsed (entitySlots reg')"
      using d(9) i r(2) by (simp add: r count_of_update s_def)
  next
    fix j assume j: "j \<in> set (freeSlotIndices reg')"
    then have "j \<in> set (freeSlotIndices reg) \<and> unat j \<noteq> i \<or> j = slotIndex h \<and> slotGeneration' s \<noteq> - 1"
      using nf eq by (auto simp: r split: if_splits)
    then show "unat j < length (entitySlots reg')" "\<not> isUsed (entitySlots reg' ! unat j)"
      "slotGeneration' (entitySlots reg' ! unat j) \<noteq> - 1"
      using d(3-5) [of j] i(1) by (auto simp: r i_def [symmetric])
  next
    fix j assume j: "j < length (entitySlots reg')"
    then have j': "j < length (entitySlots reg)" by (simp add: r)
    show "entityGeneration (entitySlots reg' ! j) = slotGeneration' (entitySlots reg' ! j)"
      "slotGeneration' (entitySlots reg' ! j) \<noteq> 0"
      using d(6,7) [OF j'] j' e by (cases "j = i"; simp add: r s_def)+
    have "unat (word_of_nat j :: u32) = j" using j' d(1) by (intro unat_index) linarith
    then have "j = i \<Longrightarrow> (word_of_nat j :: u32) = slotIndex h" using eq by auto
    then show "isUsed (entitySlots reg' ! j) \<or> slotGeneration' (entitySlots reg' ! j) = - 1 \<or>
        word_of_nat j \<in> set (freeSlotIndices reg')"
      using d(8) [OF j'] j' by (cases "j = i") (auto simp: r)
  qed
  show "Registry_IsAlive g reg' \<longleftrightarrow> g \<noteq> h \<and> Registry_IsAlive g reg"
    using i eq [of "slotIndex g"] unfolding alive_slot [OF ok] alive_slot [OF ok']
    by (cases g; cases h; cases "slotIndex g = slotIndex h") (auto simp: r s_def i_def)
  show "issued_before g reg' \<longleftrightarrow> issued_before g reg"
    by (cases "unat (slotIndex g) = i") (auto simp: issued_before_def r s_def i(1))
qed

lemma ids_remove_refused: "Registry_Remove h reg = (False, reg') \<Longrightarrow> reg' = reg \<and> \<not> Registry_IsAlive h reg"
  by (auto simp: Registry_Remove_def Let_def split: if_splits)

text \<open>Keys and handles find each other.\<close>

lemma find_key: "ids_ok reg \<Longrightarrow> Registry_TryFindKey h True reg = (if Registry_IsAlive h reg then Some (key_of h) else None)"
  using ids_okD(6) [of reg "unat (slotIndex h)"] by (auto simp: Registry_TryFindKey_def alive_slot key_of_def)

lemma find_handle:
  assumes ok: "ids_ok reg"
  shows "Registry_TryFindHandle k True reg = Some h \<longleftrightarrow> Registry_IsAlive h reg \<and> k = key_of h"
proof
  assume a: "Registry_TryFindHandle k True reg = Some h"
  then have "h = \<lparr>slotIndex = entityId k - 1, slotGeneration = slotGeneration' (entitySlots reg ! unat (entityId k - 1))\<rparr>"
    "unat (entityId k - 1) < length (entitySlots reg)" "isUsed (entitySlots reg ! unat (entityId k - 1))"
    "entityGeneration (entitySlots reg ! unat (entityId k - 1)) = generation k"
    by (auto simp: Registry_TryFindHandle_def Let_def split: if_splits)
  then show "Registry_IsAlive h reg \<and> k = key_of h"
    using ids_okD(6) [OF ok] by (cases k) (auto simp: alive_slot [OF ok] key_of_def)
next
  assume a: "Registry_IsAlive h reg \<and> k = key_of h"
  let ?i = "unat (slotIndex h)"
  have h: "?i < length (entitySlots reg)" "isUsed (entitySlots reg ! ?i)" "slotGeneration' (entitySlots reg ! ?i) = slotGeneration h"
    using a alive_slot [OF ok] by auto
  have "?i < 2 ^ 32 - 1" using h(1) ids_okD(1) [OF ok] by linarith
  then have "slotIndex h \<noteq> - 1" by (auto simp: unsigned_minus_1_eq_mask mask_eq_exp_minus_1)
  then have "slotIndex h + 1 \<noteq> 0" by (rule word_next(3))
  then show "Registry_TryFindHandle k True reg = Some h"
    using a h ids_okD(6,7) [OF ok h(1)]
    by (cases h) (auto simp: Registry_TryFindHandle_def Let_def key_of_def WorldEntityKey_IsValid_def)
qed

section \<open>The manager at work\<close>

text \<open>
  \<open>contents\<close> is the abstract state, a map from handles to components; \<open>issued\<close> lists every key and
  handle that was ever given out.
\<close>

record 'c entity_world =
  manager :: "'c WorldEntityManager"
  contents :: "EntityHandle \<Rightarrow> 'c option"
  issued :: "(WorldEntityKey \<times> EntityHandle) list"

inductive entity_step :: "'c entity_world \<Rightarrow> 'c entity_world \<Rightarrow> bool" where
  create: "Manager_TryCreate c out (manager w) = (Some (k, h), m) \<Longrightarrow>
    entity_step w \<lparr>manager = m, contents = (contents w)(h \<mapsto> c), issued = (k, h) # issued w\<rparr>"
| refuse_create: "Manager_TryCreate c out (manager w) = (None, m) \<Longrightarrow> entity_step w (w\<lparr>manager := m\<rparr>)"
| replace: "Manager_TryReplaceComponents h c (manager w) = (True, m) \<Longrightarrow>
    entity_step w (w\<lparr>manager := m, contents := (contents w)(h \<mapsto> c)\<rparr>)"
| refuse_replace: "Manager_TryReplaceComponents h c (manager w) = (False, m) \<Longrightarrow> entity_step w (w\<lparr>manager := m\<rparr>)"
| remove: "Manager_Remove h (manager w) = (True, m) \<Longrightarrow>
    entity_step w (w\<lparr>manager := m, contents := (contents w)(h := None)\<rparr>)"
| refuse_remove: "Manager_Remove h (manager w) = (False, m) \<Longrightarrow> entity_step w (w\<lparr>manager := m\<rparr>)"

definition entity_start :: "'c entity_world" where
  "entity_start = \<lparr>manager = WorldEntityManager_construct, contents = Map.empty, issued = []\<rparr>"

inductive entity_reachable :: "'c entity_world \<Rightarrow> bool" where
  start: "entity_reachable entity_start"
| advance: "entity_reachable w \<Longrightarrow> entity_step w w' \<Longrightarrow> entity_reachable w'"

definition manager_ok :: "'c WorldEntityManager \<Rightarrow> bool" where
  "manager_ok m \<longleftrightarrow> ids_ok (entityRegistry m) \<and> store_ok (componentStore m) \<and>
     length (sparseSlots (componentStore m)) = length (entitySlots (entityRegistry m)) \<and>
     activeCount (entityRegistry m) = length (denseHandles (componentStore m)) \<and>
     (\<forall>h. Registry_IsAlive h (entityRegistry m) \<longleftrightarrow> components_of (componentStore m) h \<noteq> None)"

definition entity_ok :: "'c entity_world \<Rightarrow> bool" where
  "entity_ok w \<longleftrightarrow> manager_ok (manager w) \<and> components_of (componentStore (manager w)) = contents w \<and>
     (\<forall>(k, h) \<in> set (issued w). k = key_of h \<and> issued_before h (entityRegistry (manager w))) \<and>
     distinct (map snd (issued w)) \<and> (\<forall>h. contents w h \<noteq> None \<longrightarrow> (key_of h, h) \<in> set (issued w))"

text \<open>The dense arrays have room for whatever the registry creates, and its slot is free.\<close>

lemma component_create_succeeds:
  assumes ok: "manager_ok m" and c: "creates (entityRegistry m) k h reg'"
  shows "fst (Store_TryCreate h v (componentStore m))"
proof -
  let ?st = "componentStore m" and ?k = "unat (slotIndex h)"
  have st: "store_ok ?st" and len: "length (sparseSlots ?st) = length (entitySlots (entityRegistry m))"
    and live: "Registry_IsAlive g (entityRegistry m) \<longleftrightarrow> g \<in> set (denseHandles ?st)" for g
    using ok alive_iff [of ?st] by (auto simp: manager_ok_def components_of_def Store_TryRead_def)
  note c = c [unfolded creates_def]
  have valid: "EntityHandle_IsValid h" using c by (auto simp: issued_before_def EntityHandle_IsValid_def)
  have away: "unat (slotIndex (denseHandles ?st ! i)) \<noteq> ?k" if i: "i < length (denseHandles ?st)" for i
  proof -
    have "Registry_IsAlive (denseHandles ?st ! i) (entityRegistry m)" using live i by simp
    then have "unat (slotIndex (denseHandles ?st ! i)) < length (entitySlots (entityRegistry m)) \<and>
        isUsed (entitySlots (entityRegistry m) ! unat (slotIndex (denseHandles ?st ! i)))"
      using ok alive_slot by (auto simp: manager_ok_def)
    then show ?thesis using c by auto
  qed
  have "distinct (map (\<lambda>g. unat (slotIndex g)) (denseHandles ?st))"
    unfolding distinct_conv_nth using slot_of_dense [OF st] by auto
  moreover have "set (map (\<lambda>g. unat (slotIndex g)) (denseHandles ?st)) \<subseteq> {..<length (entitySlots reg')} - {?k}"
    using store_okD(5) [OF st] away c len by (fastforce simp: in_set_conv_nth less_max_iff_disj less_Suc_eq)
  ultimately have "length (denseHandles ?st) \<le> card ({..<length (entitySlots reg')} - {?k})"
    by (metis card_mono distinct_card finite_Diff finite_lessThan length_map)
  moreover have "card ({..<length (entitySlots reg')} - {?k}) = length (entitySlots reg') - 1" using c by simp
  moreover have "length (entitySlots reg') \<le> 2 ^ 32 - 1" using c ids_okD(1) by blast
  moreover have "length (entitySlots reg') \<noteq> 0" using c by simp
  ultimately have room: "length (denseComponents ?st) < 2 ^ 32 - 1" using store_okD(1) [OF st] by linarith
  have "\<not> SparseSlot_IsUsed (sparseSlots ?st ! ?k)" if "?k < length (sparseSlots ?st)"
    using store_okD(7) [OF st that] away by blast
  then show ?thesis using valid room c len
    by (auto simp: Store_TryCreate_def Let_def nth_append SparseSlot_IsUsed_def SparseSlot_empty_def)
qed

lemma manager_create:
  assumes ok: "manager_ok m" and c: "Manager_TryCreate v out m = (Some (k, h), m')"
  shows "manager_ok m'" "creates (entityRegistry m) k h (entityRegistry m')"
    "components_of (componentStore m') = (components_of (componentStore m))(h \<mapsto> v)"
proof -
  obtain reg st where r: "Registry_TryCreate True (entityRegistry m) = (Some (k, h), reg)"
    and s: "Store_TryCreate h v (componentStore m) = (True, st)" and m': "m' = \<lparr>entityRegistry = reg, componentStore = st\<rparr>"
    using c by (auto simp: Manager_TryCreate_def split: if_splits prod.splits option.splits bool.splits)
  have o: "ids_ok (entityRegistry m)" "store_ok (componentStore m)" using ok by (simp_all add: manager_ok_def)
  note cr = ids_create [OF o(1) r] and sc = store_create [OF o(2) s]
  show "creates (entityRegistry m) k h (entityRegistry m')" using cr by (simp add: m')
  show "components_of (componentStore m') = (components_of (componentStore m))(h \<mapsto> v)" using sc(3) by (simp add: m')
  show "manager_ok m'" using ok cr sc unfolding manager_ok_def creates_def by (auto simp: m')
qed

lemma manager_create_refused:
  assumes ok: "manager_ok m" and c: "Manager_TryCreate v out m = (None, m')"
  shows "m' = m" "out \<Longrightarrow> length (entitySlots (entityRegistry m)) = 2 ^ 32 - 1"
    and "out \<Longrightarrow> s \<in> set (entitySlots (entityRegistry m)) \<Longrightarrow> isUsed s \<or> slotGeneration' s = - 1"
proof -
  have o: "ids_ok (entityRegistry m)" using ok by (simp add: manager_ok_def)
  have r: "Registry_TryCreate True (entityRegistry m) = (None, entityRegistry m) \<and> m' = m" if out
  proof (cases "Registry_TryCreate True (entityRegistry m)")
    case (Pair r reg)
    show ?thesis
    proof (cases r)
      case None
      then show ?thesis using Pair c that ids_create_refused(1) [OF o, of reg]
        by (simp add: Manager_TryCreate_def)
    next
      case (Some kh)
      obtain k h where kh: "kh = (k, h)" by (cases kh)
      have "fst (Store_TryCreate h v (componentStore m))"
        using component_create_succeeds [OF ok ids_create [OF o]] Pair Some kh by blast
      then show ?thesis using c that Pair Some kh
        by (auto simp: Manager_TryCreate_def split: prod.splits bool.splits)
    qed
  qed
  then show "m' = m" using c by (cases out) (auto simp: Manager_TryCreate_def)
  show "out \<Longrightarrow> length (entitySlots (entityRegistry m)) = 2 ^ 32 - 1"
    "out \<Longrightarrow> s \<in> set (entitySlots (entityRegistry m)) \<Longrightarrow> isUsed s \<or> slotGeneration' s = - 1"
    using ids_create_refused(2,3) [OF o] r by blast+
qed

lemma manager_replace:
  assumes ok: "manager_ok m" and c: "Manager_TryReplaceComponents h v m = (r, m')"
  shows "manager_ok m'" "r = (components_of (componentStore m) h \<noteq> None)" "\<not> r \<Longrightarrow> m' = m"
    "r \<Longrightarrow> components_of (componentStore m') = (components_of (componentStore m))(h \<mapsto> v)"
    "entityRegistry m' = entityRegistry m"
proof -
  obtain st where s: "Store_TryReplace h v (componentStore m) = (r, st)" and m': "m' = m\<lparr>componentStore := st\<rparr>"
    using c by (auto simp: Manager_TryReplaceComponents_def split: prod.splits)
  have o: "store_ok (componentStore m)" using ok by (simp add: manager_ok_def)
  have "r \<Longrightarrow> store_ok st \<and> components_of (componentStore m) h \<noteq> None \<and>
      components_of st = (components_of (componentStore m))(h \<mapsto> v) \<and> length (sparseSlots st) = length (sparseSlots (componentStore m)) \<and>
      denseHandles st = denseHandles (componentStore m)"
    using store_replace [OF o, of h v st] s by simp
  note replaced = this
  have "\<not> r \<Longrightarrow> st = componentStore m \<and> components_of (componentStore m) h = None"
    using component_store.update_refused [OF o] s by simp
  note refused = this
  show "r = (components_of (componentStore m) h \<noteq> None)" by (cases r) (use replaced refused in auto)
  show "\<not> r \<Longrightarrow> m' = m" using refused by (simp add: m')
  show "r \<Longrightarrow> components_of (componentStore m') = (components_of (componentStore m))(h \<mapsto> v)" using replaced by (simp add: m')
  show "entityRegistry m' = entityRegistry m" by (simp add: m')
  show "manager_ok m'"
  proof (cases r)
    case True
    then show ?thesis using ok replaced by (auto simp: m' manager_ok_def)
  next
    case False
    then show ?thesis using ok refused by (simp add: m')
  qed
qed

lemma manager_remove:
  assumes ok: "manager_ok m" and c: "Manager_Remove h m = (r, m')"
  shows "manager_ok m'" "r = (components_of (componentStore m) h \<noteq> None)" "\<not> r \<Longrightarrow> m' = m"
    "r \<Longrightarrow> components_of (componentStore m') = (components_of (componentStore m))(h := None)"
    "issued_before g (entityRegistry m') = issued_before g (entityRegistry m)"
proof -
  have o: "ids_ok (entityRegistry m)" "store_ok (componentStore m)" using ok by (simp_all add: manager_ok_def)
  have live: "Registry_IsAlive h (entityRegistry m) \<longleftrightarrow> components_of (componentStore m) h \<noteq> None"
    using ok by (simp add: manager_ok_def)
  have all: "manager_ok m' \<and> r = (components_of (componentStore m) h \<noteq> None) \<and> (\<not> r \<longrightarrow> m' = m) \<and>
    (r \<longrightarrow> components_of (componentStore m') = (components_of (componentStore m))(h := None)) \<and>
    (\<forall>g. issued_before g (entityRegistry m') = issued_before g (entityRegistry m))"
  proof (cases "components_of (componentStore m) h")
    case None
    then show ?thesis using c ok find_key [OF o(1)] live by (auto simp: Manager_Remove_def components_of_def)
  next
    case (Some v)
    then obtain st where s: "Store_Remove h (componentStore m) = (True, st)"
      using component_store.del_present [OF o(2), of h] by auto
    obtain b reg where g: "Registry_Remove h (entityRegistry m) = (b, reg)" by (cases "Registry_Remove h (entityRegistry m)")
    then have b using ids_remove_refused live Some by (cases b) auto
    note ir = ids_remove [OF o(1), of h reg] and sr = store_remove [OF o(2) s]
    have "m' = \<lparr>entityRegistry = reg, componentStore = st\<rparr>" r
      using c s g \<open>b\<close> live Some by (auto simp: Manager_Remove_def find_key [OF o(1)] components_of_def)
    then show ?thesis using ok ir g \<open>b\<close> sr by (auto simp: manager_ok_def)
  qed
  then show "manager_ok m'" "r = (components_of (componentStore m) h \<noteq> None)" "\<not> r \<Longrightarrow> m' = m"
    "r \<Longrightarrow> components_of (componentStore m') = (components_of (componentStore m))(h := None)"
    "issued_before g (entityRegistry m') = issued_before g (entityRegistry m)" by blast+
qed

lemma manager_ok_construct: "manager_ok WorldEntityManager_construct"
  using ids_ok_construct store_ok_construct
  by (simp add: manager_ok_def WorldEntityManager_construct_def components_of_def Store_TryRead_def Store_IsAlive_def
      Registry_IsAlive_def WorldEntityRegistry_construct_def WorldEntityComponentStore_construct_def)

lemma entity_ok_start: "entity_ok (entity_start :: 'c entity_world)"
proof -
  have "components_of (componentStore (WorldEntityManager_construct :: 'c WorldEntityManager)) = Map.empty"
    by (simp add: fun_eq_iff components_of_def Store_TryRead_def Store_IsAlive_def WorldEntityManager_construct_def
        WorldEntityComponentStore_construct_def)
  then show ?thesis by (simp add: entity_ok_def entity_start_def manager_ok_construct)
qed

lemma entity_step_keeps_ok: "entity_step w w' \<Longrightarrow> entity_ok w \<Longrightarrow> entity_ok w'"
proof (induction rule: entity_step.induct)
  case (create c out w k h m)
  have ok: "manager_ok (manager w)" using create.prems by (simp add: entity_ok_def)
  note mc = manager_create [OF ok create.hyps]
  have "h \<notin> set (map snd (issued w))" using create.prems mc(2) by (auto simp: entity_ok_def creates_def)
  then show ?case using create.prems mc unfolding entity_ok_def creates_def by (auto simp: image_iff)
next
  case (refuse_create c out w m)
  then have "m = manager w" using manager_create_refused(1) [of "manager w"] by (auto simp: entity_ok_def)
  then show ?case using refuse_create.prems by simp
next
  case (replace h c w m)
  then show ?case using manager_replace [of "manager w" h c True m] by (auto simp: entity_ok_def)
next
  case (refuse_replace h c w m)
  then show ?case using manager_replace [of "manager w" h c False m] by (auto simp: entity_ok_def)
next
  case (remove h w m)
  then show ?case using manager_remove [of "manager w" h True m] by (auto simp: entity_ok_def)
next
  case (refuse_remove h w m)
  then show ?case using manager_remove [of "manager w" h False m] by (auto simp: entity_ok_def)
qed

lemma entity_reachable_ok: "entity_reachable w \<Longrightarrow> entity_ok w"
  by (induction rule: entity_reachable.induct) (simp_all add: entity_ok_start entity_step_keeps_ok)

lemma entity_okD:
  assumes "entity_ok w"
  shows "manager_ok (manager w)" "ids_ok (entityRegistry (manager w))" "store_ok (componentStore (manager w))"
    and "Store_TryRead h True (componentStore (manager w)) = contents w h"
    and "Registry_IsAlive h (entityRegistry (manager w)) \<longleftrightarrow> contents w h \<noteq> None"
    and "(k, h) \<in> set (issued w) \<Longrightarrow> k = key_of h" "(k, h) \<in> set (issued w) \<Longrightarrow> issued_before h (entityRegistry (manager w))"
    and "distinct (map snd (issued w))" "contents w h \<noteq> None \<Longrightarrow> (key_of h, h) \<in> set (issued w)"
  using assms by (auto simp: entity_ok_def manager_ok_def components_of_def fun_eq_iff)

section \<open>Properties\<close>

text \<open>
  Property C9. The entity manager implements a finite map from handles to components, whatever is
  created, replaced and removed: a handle reads what the map holds, exactly the handles of the map are
  active, each once, the size is their number, keys and handles find each other, and a replacement or
  a removal succeeds exactly on the handles of the map. A creation can only fail when all slots that
  an entity id can name are taken, and the registry's assertions hold.
\<close>
theorem entity_manager_refines_map:
  assumes "entity_reachable w"
  shows "(\<forall>h. Manager_TryReadComponents h True (manager w) = contents w h) \<and>
    set (Manager_ActiveHandles (manager w)) = dom (contents w) \<and> distinct (Manager_ActiveHandles (manager w)) \<and>
    Manager_Size (manager w) = card (dom (contents w)) \<and>
    (\<forall>h k. Manager_TryFindKey h True (manager w) = Some k \<longleftrightarrow> contents w h \<noteq> None \<and> (k, h) \<in> set (issued w)) \<and>
    (\<forall>h k. Manager_TryFindHandle k True (manager w) = Some h \<longleftrightarrow> Manager_TryFindKey h True (manager w) = Some k) \<and>
    (\<forall>h c. fst (Manager_TryReplaceComponents h c (manager w)) = (contents w h \<noteq> None)) \<and>
    (\<forall>h. fst (Manager_Remove h (manager w)) = (contents w h \<noteq> None)) \<and>
    (\<forall>c. fst (Manager_TryCreate c True (manager w)) = None \<longrightarrow> length (entitySlots (entityRegistry (manager w))) = 2 ^ 32 - 1) \<and>
    Registry_TryCreate_asserts (entityRegistry (manager w))"
proof (intro conjI allI impI)
  have ok: "entity_ok w" using assms by (rule entity_reachable_ok)
  note d = entity_okD [OF ok]
  show r: "Manager_TryReadComponents h True (manager w) = contents w h" for h
    by (simp add: Manager_TryReadComponents_def d(4))
  show a: "set (Manager_ActiveHandles (manager w)) = dom (contents w)"
    using alive_iff [OF d(3)] by (auto simp: Manager_ActiveHandles_def d(4) [symmetric] Store_TryRead_def dom_def split: if_splits)
  show "distinct (Manager_ActiveHandles (manager w))" using distinct_dense [OF d(3)] by (simp add: Manager_ActiveHandles_def)
  then show "Manager_Size (manager w) = card (dom (contents w))"
    using d(1) a distinct_card by (fastforce simp: Manager_Size_def Manager_ActiveHandles_def manager_ok_def)
  show k: "Manager_TryFindKey h True (manager w) = Some k \<longleftrightarrow> contents w h \<noteq> None \<and> (k, h) \<in> set (issued w)" for h k
    using d(5) [of h] d(9) [of h] d(6) by (auto simp: Manager_TryFindKey_def find_key [OF d(2)])
  show "Manager_TryFindHandle k True (manager w) = Some h \<longleftrightarrow> Manager_TryFindKey h True (manager w) = Some k" for h k
    by (auto simp: Manager_TryFindHandle_def Manager_TryFindKey_def find_handle [OF d(2)] find_key [OF d(2)])
  show "fst (Manager_TryReplaceComponents h c (manager w)) = (contents w h \<noteq> None)" for h c
    using manager_replace(2) [OF d(1)] d(4) by (metis components_of_def prod.collapse)
  show "fst (Manager_Remove h (manager w)) = (contents w h \<noteq> None)" for h
    using manager_remove(2) [OF d(1)] d(4) by (metis components_of_def prod.collapse)
  show "length (entitySlots (entityRegistry (manager w))) = 2 ^ 32 - 1" if "fst (Manager_TryCreate c True (manager w)) = None" for c
    using manager_create_refused(2) [OF d(1), of c True] that by (metis prod.collapse)
  show "Registry_TryCreate_asserts (entityRegistry (manager w))" by (rule ids_assert [OF d(2)])
qed

text \<open>
  Property C16. No identity is ever issued twice. Whatever happens to their slots, all keys that were
  given out are different and so are all handles; once an entity is removed, its key finds nothing, its
  handle reads, replaces and removes nothing, and those attempts leave the manager as it was.
\<close>
theorem identities_never_reused:
  assumes "entity_reachable w"
  shows "distinct (map fst (issued w)) \<and> distinct (map snd (issued w)) \<and>
    (\<forall>k h. (k, h) \<in> set (issued w) \<and> contents w h = None \<longrightarrow>
       Manager_TryFindHandle k True (manager w) = None \<and> Manager_TryFindKey h True (manager w) = None \<and>
       Manager_TryReadComponents h True (manager w) = None \<and>
       (\<forall>c. Manager_TryReplaceComponents h c (manager w) = (False, manager w)) \<and>
       Manager_Remove h (manager w) = (False, manager w))"
proof (intro conjI allI impI)
  have ok: "entity_ok w" using assms by (rule entity_reachable_ok)
  note d = entity_okD [OF ok]
  show s: "distinct (map snd (issued w))" by (rule d(8))
  have inj: "key_of g = key_of h \<Longrightarrow> g = h" for g h by (cases g; cases h) (simp add: key_of_def)
  have "distinct (map (key_of \<circ> snd) (issued w))"
    using s by (simp add: distinct_map comp_inj_on inj_on_def inj)
  moreover have "map (key_of \<circ> snd) (issued w) = map fst (issued w)" using d(6) by (auto simp: comp_def)
  ultimately show "distinct (map fst (issued w))" by simp
  fix k h assume a: "(k, h) \<in> set (issued w) \<and> contents w h = None"
  then have k: "k = key_of h" using d(6) by blast
  show "Manager_TryFindHandle k True (manager w) = None"
  proof (cases "Manager_TryFindHandle k True (manager w)")
    case (Some g)
    then have "Registry_IsAlive g (entityRegistry (manager w))" "g = h"
      using find_handle [OF d(2)] k inj by (auto simp: Manager_TryFindHandle_def)
    then show ?thesis using a d(5) by simp
  qed
  show "Manager_TryFindKey h True (manager w) = None" using a d(5) by (simp add: Manager_TryFindKey_def find_key [OF d(2)])
  show "Manager_TryReadComponents h True (manager w) = None" using a d(4) by (simp add: Manager_TryReadComponents_def)
  show "Manager_TryReplaceComponents h c (manager w) = (False, manager w)" for c
    using manager_replace(2,3) [OF d(1)] a d(4) by (metis components_of_def prod.collapse)
  show "Manager_Remove h (manager w) = (False, manager w)"
    using manager_remove(2,3) [OF d(1)] a d(4) by (metis components_of_def prod.collapse)
qed

section \<open>Samples\<close>

text \<open>An entity is created and removed, and another one takes its slot.\<close>

definition first_handle :: EntityHandle where "first_handle = \<lparr>slotIndex = 0, slotGeneration = 1\<rparr>"

definition second_handle :: EntityHandle where "second_handle = \<lparr>slotIndex = 0, slotGeneration = 2\<rparr>"

lemma entity_sample:
  "\<exists>m. entity_reachable \<lparr>manager = m, contents = [second_handle \<mapsto> (8 :: u8)],
    issued = [(key_of second_handle, second_handle), (key_of first_handle, first_handle)]\<rparr>"
proof -
  let ?m1 = "\<lparr>entityRegistry = \<lparr>entitySlots = [\<lparr>entityGeneration = 1, slotGeneration' = 1, isUsed = True\<rparr>],
      freeSlotIndices = [], activeCount = 1\<rparr>,
    componentStore = \<lparr>sparseSlots = [\<lparr>denseIndex = 0, sparseGeneration = 1\<rparr>], denseHandles = [first_handle],
      denseComponents = [7 :: u8]\<rparr>\<rparr>"
  let ?m2 = "\<lparr>entityRegistry = \<lparr>entitySlots = [\<lparr>entityGeneration = 1, slotGeneration' = 1, isUsed = False\<rparr>],
      freeSlotIndices = [0], activeCount = 0\<rparr>,
    componentStore = \<lparr>sparseSlots = [SparseSlot_empty], denseHandles = [], denseComponents = [] :: u8 list\<rparr>\<rparr>"
  let ?m3 = "\<lparr>entityRegistry = \<lparr>entitySlots = [\<lparr>entityGeneration = 2, slotGeneration' = 2, isUsed = True\<rparr>],
      freeSlotIndices = [], activeCount = 1\<rparr>,
    componentStore = \<lparr>sparseSlots = [\<lparr>denseIndex = 0, sparseGeneration = 2\<rparr>], denseHandles = [second_handle],
      denseComponents = [8 :: u8]\<rparr>\<rparr>"
  note [simp] = first_handle_def second_handle_def WorldEntityManager_construct_def
    WorldEntityRegistry_construct_def WorldEntityComponentStore_construct_def Manager_TryCreate_def
    Registry_TryCreate_def Store_TryCreate_def EntityHandle_IsValid_def SparseSlot_IsUsed_def SparseSlot_empty_def
    Manager_Remove_def Registry_Remove_def Store_Remove_def Registry_TryFindKey_def Store_TryRead_def Store_IsAlive_def
    Registry_IsAlive_def Let_def key_of_def
  have "Manager_TryCreate 7 True WorldEntityManager_construct = (Some (key_of first_handle, first_handle), ?m1)" by simp
  then have "entity_step entity_start
      \<lparr>manager = ?m1, contents = [first_handle \<mapsto> 7], issued = [(key_of first_handle, first_handle)]\<rparr>"
    using entity_step.create [of 7 True entity_start] by (simp only: entity_start_def entity_world.select_convs) blast
  with entity_reachable.start have r: "entity_reachable
      \<lparr>manager = ?m1, contents = [first_handle \<mapsto> 7], issued = [(key_of first_handle, first_handle)]\<rparr>"
    by (rule entity_reachable.advance)
  have "Manager_Remove first_handle ?m1 = (True, ?m2)" by simp
  then have "entity_step \<lparr>manager = ?m1, contents = [first_handle \<mapsto> 7], issued = [(key_of first_handle, first_handle)]\<rparr>
      \<lparr>manager = ?m2, contents = Map.empty, issued = [(key_of first_handle, first_handle)]\<rparr>"
    using entity_step.remove [of first_handle
      "\<lparr>manager = ?m1, contents = [first_handle \<mapsto> 7], issued = [(key_of first_handle, first_handle)]\<rparr>" ?m2]
    by (simp del: Manager_Remove_def)
  with r have r: "entity_reachable \<lparr>manager = ?m2, contents = Map.empty, issued = [(key_of first_handle, first_handle)]\<rparr>"
    by (rule entity_reachable.advance)
  have "Manager_TryCreate 8 True ?m2 = (Some (key_of second_handle, second_handle), ?m3)" by simp
  then have "entity_step \<lparr>manager = ?m2, contents = Map.empty, issued = [(key_of first_handle, first_handle)]\<rparr>
      \<lparr>manager = ?m3, contents = [second_handle \<mapsto> 8],
       issued = [(key_of second_handle, second_handle), (key_of first_handle, first_handle)]\<rparr>"
    using entity_step.create [of 8 True "\<lparr>manager = ?m2, contents = Map.empty, issued = [(key_of first_handle, first_handle)]\<rparr>"]
    by (simp only: entity_world.select_convs)
  with r show ?thesis by (intro exI) (rule entity_reachable.advance)
qed

theorem entity_manager_refines_map_witness:
  "\<exists>m. Manager_Size m = 1 \<and> Manager_TryReadComponents second_handle True m = Some (8 :: u8)"
proof -
  obtain m where m: "entity_reachable \<lparr>manager = m, contents = [second_handle \<mapsto> (8 :: u8)],
      issued = [(key_of second_handle, second_handle), (key_of first_handle, first_handle)]\<rparr>"
    using entity_sample by blast
  show ?thesis using entity_manager_refines_map [OF m] by (intro exI [of _ m]) simp
qed

theorem identities_never_reused_witness:
  "\<exists>m :: u8 WorldEntityManager. Manager_TryReadComponents second_handle True m \<noteq> None \<and>
    Manager_TryReadComponents first_handle True m = None \<and> Manager_TryFindHandle (key_of first_handle) True m = None \<and>
    Manager_Remove first_handle m = (False, m)"
proof -
  obtain m where m: "entity_reachable \<lparr>manager = m, contents = [second_handle \<mapsto> (8 :: u8)],
      issued = [(key_of second_handle, second_handle), (key_of first_handle, first_handle)]\<rparr>"
    using entity_sample by blast
  have "second_handle \<noteq> first_handle" by (simp add: first_handle_def second_handle_def)
  moreover have "Manager_TryReadComponents second_handle True m = Some 8"
    using entity_okD(4) [OF entity_reachable_ok [OF m]] by (simp add: Manager_TryReadComponents_def)
  moreover note identities_never_reused [OF m, THEN conjunct2, THEN conjunct2, rule_format, of "key_of first_handle" first_handle]
  ultimately show ?thesis by (intro exI [of _ m]) simp
qed

end
