(* ===== verification/WsSessions.thy ===== *)
theory WsSessions imports WsIdentity begin

text \<open>
  The sessions the World knows (\<^verbatim>\<open>WorldSessionRegistry.h/.cpp\<close>): a dense vector whose first part
  holds the players, with a map from session keys to positions and a map from controlled entities to
  session keys. A session key is its number. A span over a vector is the list of its elements and a
  pointer into one is the position it points to; memory is assumed to suffice.
\<close>

datatype WorldSessionRole = Connected | Player | Observer

type_synonym WorldSessionKey = u64

definition WorldSessionKey_IsValid :: "WorldSessionKey \<Rightarrow> bool" where "WorldSessionKey_IsValid key \<longleftrightarrow> key \<noteq> 0"

record WorldSession =
  sessionKey :: WorldSessionKey
  session_playerId :: u32
  controlledEntity :: WorldEntityKey
  session_displayName :: "byte list"
  session_role :: WorldSessionRole

definition WorldSession_construct :: "WorldSessionKey \<Rightarrow> WorldSession" where
  "WorldSession_construct key = \<lparr>sessionKey = key, session_playerId = 0,
     controlledEntity = \<lparr>entityId = 0, generation = 0\<rparr>, session_displayName = [], session_role = Connected\<rparr>"

definition WorldSession_IsJoined :: "WorldSession \<Rightarrow> bool" where
  "WorldSession_IsJoined s \<longleftrightarrow> session_playerId s \<noteq> 0 \<and> WorldEntityKey_IsValid (controlledEntity s)"

definition WorldSession_IsObserver :: "WorldSession \<Rightarrow> bool" where
  "WorldSession_IsObserver s \<longleftrightarrow> session_role s = Observer"

section \<open>Lookup by player\<close>

fun FindFirstByPlayerId_from :: "nat \<Rightarrow> WorldSession list \<Rightarrow> u32 \<Rightarrow> nat option" where
  "FindFirstByPlayerId_from i [] player = None"
| "FindFirstByPlayerId_from i (s # ss) player =
     (if session_playerId s = player then Some i else FindFirstByPlayerId_from (i + 1) ss player)"

definition FindFirstByPlayerId :: "WorldSession list \<Rightarrow> u32 \<Rightarrow> nat option" where
  "FindFirstByPlayerId ss player = FindFirstByPlayerId_from 0 ss player"

fun FindUniqueByPlayerId_from :: "nat option \<Rightarrow> nat \<Rightarrow> WorldSession list \<Rightarrow> u32 \<Rightarrow> nat option" where
  "FindUniqueByPlayerId_from found i [] player = found"
| "FindUniqueByPlayerId_from found i (s # ss) player =
     (if session_playerId s \<noteq> player then FindUniqueByPlayerId_from found (i + 1) ss player
      else if found \<noteq> None then None
      else FindUniqueByPlayerId_from (Some i) (i + 1) ss player)"

definition FindUniqueByPlayerId :: "WorldSession list \<Rightarrow> u32 \<Rightarrow> nat option" where
  "FindUniqueByPlayerId ss player = FindUniqueByPlayerId_from None 0 ss player"

section \<open>The registry\<close>

record WorldSessionRegistry =
  sessions :: "WorldSession list"
  sessionKeyToDenseIndex :: "WorldSessionKey \<Rightarrow> nat option"
  entityKeyToSessionKey :: "WorldEntityKey \<Rightarrow> WorldSessionKey option"
  joinedSessionCount :: nat

definition WorldSessionRegistry_construct :: WorldSessionRegistry where
  "WorldSessionRegistry_construct =
     \<lparr>sessions = [], sessionKeyToDenseIndex = Map.empty, entityKeyToSessionKey = Map.empty, joinedSessionCount = 0\<rparr>"

text \<open>The assertions of a swap: both positions exist, and the map knows both sessions.\<close>

definition SwapDenseSessions_asserts :: "nat \<Rightarrow> nat \<Rightarrow> WorldSessionRegistry \<Rightarrow> bool" where
  "SwapDenseSessions_asserts l r reg \<longleftrightarrow> l < length (sessions reg) \<and> r < length (sessions reg) \<and>
     sessionKeyToDenseIndex reg (sessionKey (sessions reg ! l)) \<noteq> None \<and>
     sessionKeyToDenseIndex reg (sessionKey (sessions reg ! r)) \<noteq> None"

definition SwapDenseSessions :: "nat \<Rightarrow> nat \<Rightarrow> WorldSessionRegistry \<Rightarrow> WorldSessionRegistry" where
  "SwapDenseSessions l r reg =
     (if l = r then reg
      else let ss = (sessions reg)[l := sessions reg ! r, r := sessions reg ! l] in
        reg\<lparr>sessions := ss,
            sessionKeyToDenseIndex := (sessionKeyToDenseIndex reg)(sessionKey (ss ! l) \<mapsto> l, sessionKey (ss ! r) \<mapsto> r)\<rparr>)"

definition RemoveDenseSessionAt :: "nat \<Rightarrow> WorldSessionRegistry \<Rightarrow> WorldSessionRegistry" where
  "RemoveDenseSessionAt denseIndex reg =
     (let removed = sessionKey (sessions reg ! denseIndex);
          reg = SwapDenseSessions denseIndex (length (sessions reg) - 1) reg in
      reg\<lparr>sessionKeyToDenseIndex := (sessionKeyToDenseIndex reg)(removed := None), sessions := butlast (sessions reg)\<rparr>)"

definition TryRegister :: "WorldSessionKey \<Rightarrow> WorldSessionRegistry \<Rightarrow> bool \<times> WorldSessionRegistry" where
  "TryRegister key reg =
     (if \<not> WorldSessionKey_IsValid key \<or> sessionKeyToDenseIndex reg key \<noteq> None then (False, reg)
      else (True, reg\<lparr>sessions := sessions reg @ [WorldSession_construct key],
                      sessionKeyToDenseIndex := (sessionKeyToDenseIndex reg)(key \<mapsto> length (sessions reg))\<rparr>))"

definition TryBindPlayer ::
    "WorldSessionKey \<Rightarrow> u32 \<Rightarrow> WorldEntityKey \<Rightarrow> byte list \<Rightarrow> WorldSessionRegistry \<Rightarrow> bool \<times> WorldSessionRegistry" where
  "TryBindPlayer key player entity name reg =
     (if player = 0 \<or> \<not> WorldEntityKey_IsValid entity then (False, reg)
      else case sessionKeyToDenseIndex reg key of
        None \<Rightarrow> (False, reg)
      | Some i \<Rightarrow>
          if i < joinedSessionCount reg \<or> session_role (sessions reg ! i) \<noteq> Connected \<or>
             entityKeyToSessionKey reg entity \<noteq> None
          then (False, reg)
          else
            let j = joinedSessionCount reg;
                reg = reg\<lparr>entityKeyToSessionKey := (entityKeyToSessionKey reg)(entity \<mapsto> key)\<rparr>;
                reg = SwapDenseSessions i j reg;
                s = (sessions reg ! j)\<lparr>session_playerId := player, controlledEntity := entity, session_displayName := name,
                      session_role := Player\<rparr> in
            (True, reg\<lparr>sessions := (sessions reg)[j := s], joinedSessionCount := j + 1\<rparr>))"

definition TryBindObserver :: "WorldSessionKey \<Rightarrow> WorldSessionRegistry \<Rightarrow> bool \<times> WorldSessionRegistry" where
  "TryBindObserver key reg =
     (case sessionKeyToDenseIndex reg key of
        None \<Rightarrow> (False, reg)
      | Some i \<Rightarrow>
          if i < joinedSessionCount reg \<or> session_role (sessions reg ! i) \<noteq> Connected then (False, reg)
          else (True, reg\<lparr>sessions := (sessions reg)[i := (sessions reg ! i)\<lparr>session_role := Observer\<rparr>]\<rparr>))"

definition TryRebindControlledEntity ::
    "WorldSessionKey \<Rightarrow> WorldEntityKey \<Rightarrow> WorldSessionRegistry \<Rightarrow> bool \<times> WorldSessionRegistry" where
  "TryRebindControlledEntity key entity reg =
     (if \<not> WorldEntityKey_IsValid entity then (False, reg)
      else case sessionKeyToDenseIndex reg key of
        None \<Rightarrow> (False, reg)
      | Some i \<Rightarrow>
          if i \<ge> joinedSessionCount reg \<or> entityKeyToSessionKey reg entity \<noteq> None then (False, reg)
          else (True, reg\<lparr>
            entityKeyToSessionKey := ((entityKeyToSessionKey reg)(entity \<mapsto> key))(controlledEntity (sessions reg ! i) := None),
            sessions := (sessions reg)[i := (sessions reg ! i)\<lparr>controlledEntity := entity\<rparr>]\<rparr>))"

definition TryFind :: "WorldSessionKey \<Rightarrow> bool \<Rightarrow> WorldSessionRegistry \<Rightarrow> WorldSession option" where
  "TryFind key out reg =
     (if \<not> out then None
      else case sessionKeyToDenseIndex reg key of None \<Rightarrow> None | Some i \<Rightarrow> Some (sessions reg ! i))"

definition JoinedSessions :: "WorldSessionRegistry \<Rightarrow> WorldSession list" where
  "JoinedSessions reg = take (joinedSessionCount reg) (sessions reg)"

definition RegisteredSessions :: "WorldSessionRegistry \<Rightarrow> WorldSession list" where
  "RegisteredSessions reg = sessions reg"

definition Sessions_Remove :: "WorldSessionKey \<Rightarrow> WorldSessionRegistry \<Rightarrow> bool \<times> WorldSessionRegistry" where
  "Sessions_Remove key reg =
     (case sessionKeyToDenseIndex reg key of
        None \<Rightarrow> (False, reg)
      | Some i \<Rightarrow>
          if i < joinedSessionCount reg then
            let last = joinedSessionCount reg - 1;
                reg = reg\<lparr>entityKeyToSessionKey := (entityKeyToSessionKey reg)(controlledEntity (sessions reg ! i) := None)\<rparr>;
                reg = (SwapDenseSessions i last reg)\<lparr>joinedSessionCount := last\<rparr> in
            (True, RemoveDenseSessionAt last reg)
          else (True, RemoveDenseSessionAt i reg))"

definition Sessions_Size :: "WorldSessionRegistry \<Rightarrow> nat" where "Sessions_Size reg = length (sessions reg)"

section \<open>The specification\<close>

text \<open>The registry as a map from session keys to sessions, and what each operation means on it.\<close>

type_synonym session_map = "WorldSessionKey \<Rightarrow> WorldSession option"

definition controls :: "session_map \<Rightarrow> WorldEntityKey \<Rightarrow> bool" where
  "controls M e \<longleftrightarrow> (\<exists>s \<in> ran M. session_role s = Player \<and> controlledEntity s = e)"

definition spec_register :: "WorldSessionKey \<Rightarrow> session_map \<Rightarrow> bool \<times> session_map" where
  "spec_register k M = (if k = 0 \<or> M k \<noteq> None then (False, M) else (True, M(k \<mapsto> WorldSession_construct k)))"

definition spec_bind_player ::
    "WorldSessionKey \<Rightarrow> u32 \<Rightarrow> WorldEntityKey \<Rightarrow> byte list \<Rightarrow> session_map \<Rightarrow> bool \<times> session_map" where
  "spec_bind_player k p e n M =
     (case M k of None \<Rightarrow> (False, M)
      | Some s \<Rightarrow> if p \<noteq> 0 \<and> WorldEntityKey_IsValid e \<and> session_role s = Connected \<and> \<not> controls M e
          then (True, M(k \<mapsto> s\<lparr>session_playerId := p, controlledEntity := e, session_displayName := n, session_role := Player\<rparr>))
          else (False, M))"

definition spec_bind_observer :: "WorldSessionKey \<Rightarrow> session_map \<Rightarrow> bool \<times> session_map" where
  "spec_bind_observer k M =
     (case M k of None \<Rightarrow> (False, M)
      | Some s \<Rightarrow> if session_role s = Connected then (True, M(k \<mapsto> s\<lparr>session_role := Observer\<rparr>)) else (False, M))"

definition spec_rebind :: "WorldSessionKey \<Rightarrow> WorldEntityKey \<Rightarrow> session_map \<Rightarrow> bool \<times> session_map" where
  "spec_rebind k e M =
     (case M k of None \<Rightarrow> (False, M)
      | Some s \<Rightarrow> if WorldEntityKey_IsValid e \<and> session_role s = Player \<and> \<not> controls M e
          then (True, M(k \<mapsto> s\<lparr>controlledEntity := e\<rparr>)) else (False, M))"

definition spec_remove :: "WorldSessionKey \<Rightarrow> session_map \<Rightarrow> bool \<times> session_map" where
  "spec_remove k M = (if M k = None then (False, M) else (True, M(k := None)))"

end
