(* ===== verification/WsSessionsLaws.thy ===== *)
theory WsSessionsLaws imports WsSessions begin

text \<open>
  The guarantees of the session registry: it implements the map of its specification, its dense vector
  keeps the players in front, and its two maps agree with it.
\<close>

section \<open>The dense vector\<close>

definition dense_ok :: "WorldSessionRegistry \<Rightarrow> bool" where
  "dense_ok reg \<longleftrightarrow> (\<forall>k i. sessionKeyToDenseIndex reg k = Some i \<longleftrightarrow> i < length (sessions reg) \<and> sessionKey (sessions reg ! i) = k)"

definition session_map_of :: "WorldSessionRegistry \<Rightarrow> session_map" where
  "session_map_of reg k = TryFind k True reg"

lemma dense_okD: "dense_ok reg \<Longrightarrow> sessionKeyToDenseIndex reg k = Some i \<longleftrightarrow> i < length (sessions reg) \<and> sessionKey (sessions reg ! i) = k"
  by (simp add: dense_ok_def)

lemma dense_inj:
  assumes "dense_ok reg" "i < length (sessions reg)" "j < length (sessions reg)"
    and "sessionKey (sessions reg ! i) = sessionKey (sessions reg ! j)"
  shows "i = j"
  using assms dense_okD [OF assms(1)] by (metis option.inject)

lemma dense_distinct: "dense_ok reg \<Longrightarrow> distinct (sessions reg)"
  unfolding distinct_conv_nth using dense_inj by metis

lemma map_of_sessions:
  assumes "dense_ok reg"
  shows "session_map_of reg k = Some s \<longleftrightarrow> s \<in> set (sessions reg) \<and> sessionKey s = k"
  using dense_okD [OF assms, of k] dense_inj [OF assms]
  by (auto simp: session_map_of_def TryFind_def in_set_conv_nth split: option.splits) metis+

lemma session_map_None:
  assumes "dense_ok reg"
  shows "session_map_of reg k = None \<longleftrightarrow> sessionKeyToDenseIndex reg k = None"
  by (simp add: session_map_of_def TryFind_def split: option.splits)

lemma session_map_ran: "dense_ok reg \<Longrightarrow> ran (session_map_of reg) = set (sessions reg)"
  by (auto simp: ran_def map_of_sessions)

lemma option_same: "(\<And>t. x = Some t \<longleftrightarrow> y = Some t) \<Longrightarrow> x = y"
  by (metis option.exhaust)

lemma map_replaced:
  assumes "dense_ok reg" "dense_ok reg'" "s \<in> set (sessions reg)" "sessionKey s = k" "sessionKey s' = k"
    and "set (sessions reg') = insert s' (set (sessions reg) - {s})"
  shows "session_map_of reg' = (session_map_of reg)(k \<mapsto> s')"
proof
  fix j
  show "session_map_of reg' j = ((session_map_of reg)(k \<mapsto> s')) j"
  proof (cases "j = k")
    case True
    then show ?thesis using map_of_sessions [OF assms(2), of k s'] assms by simp
  next
    case False
    then have "session_map_of reg' j = Some t \<longleftrightarrow> session_map_of reg j = Some t" for t
      using map_of_sessions [OF assms(1)] map_of_sessions [OF assms(2)] assms by auto
    then show ?thesis using False by (metis fun_upd_other option.exhaust)
  qed
qed

lemma map_added:
  assumes "dense_ok reg" "dense_ok reg'" "session_map_of reg k = None" "sessionKey s' = k"
    and "set (sessions reg') = insert s' (set (sessions reg))"
  shows "session_map_of reg' = (session_map_of reg)(k \<mapsto> s')"
proof
  fix j
  show "session_map_of reg' j = ((session_map_of reg)(k \<mapsto> s')) j"
  proof (cases "j = k")
    case True
    then show ?thesis using map_of_sessions [OF assms(2), of k s'] assms by simp
  next
    case False
    then have "session_map_of reg' j = Some t \<longleftrightarrow> session_map_of reg j = Some t" for t
      using map_of_sessions [OF assms(1)] map_of_sessions [OF assms(2)] assms by auto
    then show ?thesis using False by (metis fun_upd_other option.exhaust)
  qed
qed

lemma map_removed:
  assumes "dense_ok reg" "dense_ok reg'" "s \<in> set (sessions reg)" "sessionKey s = k"
    and "set (sessions reg') = set (sessions reg) - {s}"
  shows "session_map_of reg' = (session_map_of reg)(k := None)"
proof
  fix j
  have "session_map_of reg' j = Some t \<longleftrightarrow> j \<noteq> k \<and> session_map_of reg j = Some t" for t
  proof -
    have "t \<in> set (sessions reg) \<Longrightarrow> sessionKey t = k \<Longrightarrow> t = s"
      using map_of_sessions [OF assms(1), of k] assms(3,4) by (metis option.inject)
    then show ?thesis using map_of_sessions [OF assms(1)] map_of_sessions [OF assms(2)] assms by auto
  qed
  then show "session_map_of reg' j = ((session_map_of reg)(k := None)) j" by (intro option_same) simp
qed

text \<open>A swap of two positions permutes the vector and keeps the map to positions.\<close>

lemma swap_sessions:
  assumes ok: "dense_ok reg" and l: "l < length (sessions reg)" and r: "r < length (sessions reg)"
  defines "reg' \<equiv> SwapDenseSessions l r reg"
  shows "dense_ok reg'" "set (sessions reg') = set (sessions reg)" "length (sessions reg') = length (sessions reg)"
    and "i < length (sessions reg) \<Longrightarrow> sessions reg' ! i = sessions reg ! (if i = l then r else if i = r then l else i)"
    and "entityKeyToSessionKey reg' = entityKeyToSessionKey reg" "joinedSessionCount reg' = joinedSessionCount reg"
    and "SwapDenseSessions_asserts l r reg"
proof -
  show len: "length (sessions reg') = length (sessions reg)" by (simp add: reg'_def SwapDenseSessions_def Let_def)
  show nth: "sessions reg' ! i = sessions reg ! (if i = l then r else if i = r then l else i)" if "i < length (sessions reg)" for i
    using that l r by (auto simp: reg'_def SwapDenseSessions_def Let_def nth_list_update)
  show "set (sessions reg') = set (sessions reg)"
    using l r by (simp add: reg'_def SwapDenseSessions_def Let_def set_swap)
  show "entityKeyToSessionKey reg' = entityKeyToSessionKey reg" "joinedSessionCount reg' = joinedSessionCount reg"
    by (simp_all add: reg'_def SwapDenseSessions_def Let_def)
  show "SwapDenseSessions_asserts l r reg" using dense_okD [OF ok] l r by (auto simp: SwapDenseSessions_asserts_def)
  show "dense_ok reg'"
  proof (cases "l = r")
    case True
    then show ?thesis using ok by (simp add: reg'_def SwapDenseSessions_def)
  next
    case False
    have m: "sessionKeyToDenseIndex reg' =
        (sessionKeyToDenseIndex reg)(sessionKey (sessions reg ! r) \<mapsto> l, sessionKey (sessions reg ! l) \<mapsto> r)"
      using False l r by (simp add: reg'_def SwapDenseSessions_def Let_def nth_list_update)
    have ne: "sessionKey (sessions reg ! r) \<noteq> sessionKey (sessions reg ! l)" using dense_inj [OF ok l r] False by metis
    show ?thesis
      unfolding dense_ok_def
    proof (intro allI)
      fix k i
      show "sessionKeyToDenseIndex reg' k = Some i \<longleftrightarrow> i < length (sessions reg') \<and> sessionKey (sessions reg' ! i) = k"
      proof (cases "i < length (sessions reg)")
        case True
        then show ?thesis
          using nth [OF True] ne l r dense_okD [OF ok, of k i] dense_inj [OF ok True l] dense_inj [OF ok True r]
          by (auto simp: m len)
      next
        case False
        then show ?thesis using l r dense_okD [OF ok, of k i] by (auto simp: m len)
      qed
    qed
  qed
qed

text \<open>Removing a position: the last element takes its place.\<close>

lemma remove_dense:
  assumes ok: "dense_ok reg" and d: "d < length (sessions reg)"
  defines "reg' \<equiv> RemoveDenseSessionAt d reg"
  shows "dense_ok reg'" "set (sessions reg') = set (sessions reg) - {sessions reg ! d}"
    and "Suc (length (sessions reg')) = length (sessions reg)"
    and "i < length (sessions reg') \<Longrightarrow> sessions reg' ! i = sessions reg ! (if i = d then length (sessions reg') else i)"
    and "entityKeyToSessionKey reg' = entityKeyToSessionKey reg" "joinedSessionCount reg' = joinedSessionCount reg"
proof -
  define n where "n = length (sessions reg) - 1"
  have n: "n < length (sessions reg)" "length (sessions reg) = Suc n" using d by (auto simp: n_def)
  define s where "s = SwapDenseSessions d n reg"
  note sw = swap_sessions [OF ok d n(1), folded s_def]
  have r: "sessions reg' = butlast (sessions s)"
      "sessionKeyToDenseIndex reg' = (sessionKeyToDenseIndex s)(sessionKey (sessions reg ! d) := None)"
      "entityKeyToSessionKey reg' = entityKeyToSessionKey s" "joinedSessionCount reg' = joinedSessionCount s"
    by (simp_all add: reg'_def RemoveDenseSessionAt_def Let_def s_def n_def)
  have last: "sessions s ! n = sessions reg ! d" using sw(4) [OF n(1)] by simp
  show len: "Suc (length (sessions reg')) = length (sessions reg)" using sw(3) n by (simp add: r)
  show "sessions reg' ! i = sessions reg ! (if i = d then length (sessions reg') else i)" if "i < length (sessions reg')" for i
    using that sw(3) sw(4) [of i] n by (auto simp: r nth_butlast)
  show "entityKeyToSessionKey reg' = entityKeyToSessionKey reg" "joinedSessionCount reg' = joinedSessionCount reg"
    using sw(5,6) by (simp_all add: r)
  have e: "sessions s = sessions reg' @ [sessions reg ! d]"
    using sw(3) n last by (metis append_butlast_last_id last_conv_nth length_0_conv nat.simps(3) diff_Suc_1 r(1))
  then show "set (sessions reg') = set (sessions reg) - {sessions reg ! d}"
    using dense_distinct [OF sw(1)] sw(2) by auto
  show "dense_ok reg'"
    unfolding dense_ok_def
  proof (intro allI)
    fix k i
    show "sessionKeyToDenseIndex reg' k = Some i \<longleftrightarrow> i < length (sessions reg') \<and> sessionKey (sessions reg' ! i) = k"
      using dense_okD [OF sw(1), of k i] dense_inj [OF sw(1), of i n] n sw(3) last len
      by (auto simp: r(2) e nth_append less_Suc_eq)
  qed
qed

section \<open>The invariant\<close>

definition sessions_ok :: "WorldSessionRegistry \<Rightarrow> bool" where
  "sessions_ok reg \<longleftrightarrow> dense_ok reg \<and> joinedSessionCount reg \<le> length (sessions reg) \<and>
     (\<forall>i < length (sessions reg). session_role (sessions reg ! i) = Player \<longleftrightarrow> i < joinedSessionCount reg) \<and>
     (\<forall>s \<in> set (sessions reg). sessionKey s \<noteq> 0 \<and>
        (if session_role s = Player then WorldSession_IsJoined s
         else \<exists>role. s = (WorldSession_construct (sessionKey s))\<lparr>session_role := role\<rparr>)) \<and>
     (\<forall>e k. entityKeyToSessionKey reg e = Some k \<longleftrightarrow>
        (\<exists>s \<in> set (sessions reg). session_role s = Player \<and> controlledEntity s = e \<and> sessionKey s = k))"

lemma sessions_okD:
  assumes "sessions_ok reg"
  shows "dense_ok reg" "joinedSessionCount reg \<le> length (sessions reg)"
    and "i < length (sessions reg) \<Longrightarrow> session_role (sessions reg ! i) = Player \<longleftrightarrow> i < joinedSessionCount reg"
    and "s \<in> set (sessions reg) \<Longrightarrow> sessionKey s \<noteq> 0"
    and "s \<in> set (sessions reg) \<Longrightarrow> session_role s = Player \<Longrightarrow> WorldSession_IsJoined s"
    and "s \<in> set (sessions reg) \<Longrightarrow> session_role s \<noteq> Player \<Longrightarrow> \<exists>role. s = (WorldSession_construct (sessionKey s))\<lparr>session_role := role\<rparr>"
    and "entityKeyToSessionKey reg e = Some k \<longleftrightarrow>
        (\<exists>s \<in> set (sessions reg). session_role s = Player \<and> controlledEntity s = e \<and> sessionKey s = k)"
  using assms unfolding sessions_ok_def by (auto split: if_splits)

lemma sessions_ok_construct: "sessions_ok WorldSessionRegistry_construct"
  by (simp add: sessions_ok_def dense_ok_def WorldSessionRegistry_construct_def)

lemma entity_map_None:
  assumes "sessions_ok reg"
  shows "entityKeyToSessionKey reg e = None \<longleftrightarrow> \<not> controls (session_map_of reg) e"
  using sessions_okD(7) [OF assms, of e] unfolding controls_def session_map_ran [OF sessions_okD(1) [OF assms]]
  by (metis not_None_eq)

text \<open>Sessions are kept by an operation that changes one of them, moves some, and says how it changed the entity map.\<close>

lemma sessions_ok_change:
  assumes ok: "sessions_ok reg" and d: "dense_ok reg'" and j: "joinedSessionCount reg' \<le> length (sessions reg')"
    and p: "\<And>i. i < length (sessions reg') \<Longrightarrow> session_role (sessions reg' ! i) = Player \<longleftrightarrow> i < joinedSessionCount reg'"
    and s: "set (sessions reg') = insert s' (set (sessions reg) - {s})" "s \<in> set (sessions reg)" "sessionKey s' = sessionKey s"
    and v: "if session_role s' = Player then WorldSession_IsJoined s' else \<exists>role. s' = (WorldSession_construct (sessionKey s'))\<lparr>session_role := role\<rparr>"
    and e: "\<And>e k. entityKeyToSessionKey reg' e = Some k \<longleftrightarrow>
      (\<exists>t \<in> set (sessions reg'). session_role t = Player \<and> controlledEntity t = e \<and> sessionKey t = k)"
  shows "sessions_ok reg' \<and> session_map_of reg' = (session_map_of reg)(sessionKey s \<mapsto> s')"
proof
  note o = sessions_okD [OF ok]
  show "session_map_of reg' = (session_map_of reg)(sessionKey s \<mapsto> s')" using map_replaced [OF o(1) d s(2) refl s(3,1)] .
  have "sessionKey t \<noteq> 0 \<and> (if session_role t = Player then WorldSession_IsJoined t
      else \<exists>role. t = (WorldSession_construct (sessionKey t))\<lparr>session_role := role\<rparr>)" if "t \<in> set (sessions reg')" for t
    using that s o(4-6) v by (cases "t = s'") auto
  then show "sessions_ok reg'" using d j p e unfolding sessions_ok_def by blast
qed

section \<open>The operations\<close>

lemma register_refines:
  assumes ok: "sessions_ok reg"
  shows "sessions_ok (snd (TryRegister k reg))" "map_prod id session_map_of (TryRegister k reg) = spec_register k (session_map_of reg)"
proof -
  note o = sessions_okD [OF ok]
  define reg' where "reg' = snd (TryRegister k reg)"
  have both: "sessions_ok reg' \<and> map_prod id session_map_of (TryRegister k reg) = spec_register k (session_map_of reg)"
  proof (cases "k = 0 \<or> sessionKeyToDenseIndex reg k \<noteq> None")
    case True
    then show ?thesis using ok session_map_None [OF o(1), of k]
      by (auto simp: reg'_def TryRegister_def spec_register_def WorldSessionKey_IsValid_def)
  next
    case False
    then have r: "reg' = reg\<lparr>sessions := sessions reg @ [WorldSession_construct k],
        sessionKeyToDenseIndex := (sessionKeyToDenseIndex reg)(k \<mapsto> length (sessions reg))\<rparr>"
      by (simp add: reg'_def TryRegister_def WorldSessionKey_IsValid_def)
    have fresh: "t \<in> set (sessions reg) \<Longrightarrow> sessionKey t \<noteq> k" for t
      using False map_of_sessions [OF o(1), of k] session_map_None [OF o(1), of k] by auto
    then have f: "i < length (sessions reg) \<Longrightarrow> sessionKey (sessions reg ! i) \<noteq> k" for i by simp
    have d: "dense_ok reg'"
      unfolding dense_ok_def
    proof (intro allI)
      fix j i
      show "sessionKeyToDenseIndex reg' j = Some i \<longleftrightarrow> i < length (sessions reg') \<and> sessionKey (sessions reg' ! i) = j"
      proof (cases "i < length (sessions reg)")
        case True
        then show ?thesis using dense_okD [OF o(1), of j i] f [OF True] by (auto simp: r nth_append)
      next
        case False
        then show ?thesis using dense_okD [OF o(1), of j i]
          by (auto simp: r nth_append less_Suc_eq WorldSession_construct_def)
      qed
    qed
    moreover have "sessions_ok reg'"
      unfolding sessions_ok_def
    proof (intro conjI allI impI ballI d)
      show "joinedSessionCount reg' \<le> length (sessions reg')" using o(2) by (simp add: r)
      show "session_role (sessions reg' ! i) = Player \<longleftrightarrow> i < joinedSessionCount reg'" if "i < length (sessions reg')" for i
        using that o(2,3) by (auto simp: r nth_append less_Suc_eq WorldSession_construct_def)
      show "entityKeyToSessionKey reg' e = Some j \<longleftrightarrow>
        (\<exists>s \<in> set (sessions reg'). session_role s = Player \<and> controlledEntity s = e \<and> sessionKey s = j)" for e j
        using o(7) by (auto simp: r WorldSession_construct_def)
      fix s assume "s \<in> set (sessions reg')"
      then have "s \<in> set (sessions reg) \<or> s = WorldSession_construct k" by (auto simp: r)
      moreover have "\<exists>role. WorldSession_construct k = (WorldSession_construct k)\<lparr>session_role := role\<rparr>"
        by (intro exI [of _ Connected]) (simp add: WorldSession_construct_def)
      ultimately show "sessionKey s \<noteq> 0" "if session_role s = Player then WorldSession_IsJoined s
          else \<exists>role. s = (WorldSession_construct (sessionKey s))\<lparr>session_role := role\<rparr>"
        using o(4-6) False by (auto simp: WorldSession_construct_def)
    qed
    moreover have "session_map_of reg' = (session_map_of reg)(k \<mapsto> WorldSession_construct k)"
      using False session_map_None [OF o(1), of k]
      by (intro map_added [OF o(1) d]) (auto simp: r WorldSession_construct_def)
    ultimately show ?thesis using False session_map_None [OF o(1), of k]
      by (auto simp: reg'_def TryRegister_def spec_register_def WorldSessionKey_IsValid_def)
  qed
  then show "sessions_ok (snd (TryRegister k reg))"
    "map_prod id session_map_of (TryRegister k reg) = spec_register k (session_map_of reg)" by (simp_all add: reg'_def)
qed

lemma dense_update:
  assumes ok: "dense_ok reg" and j: "j < length (sessions reg)" "sessionKey s' = sessionKey (sessions reg ! j)"
    and r: "sessions reg' = (sessions reg)[j := s']" "sessionKeyToDenseIndex reg' = sessionKeyToDenseIndex reg"
  shows "dense_ok reg'" "set (sessions reg') = insert s' (set (sessions reg) - {sessions reg ! j})"
proof -
  show "set (sessions reg') = insert s' (set (sessions reg) - {sessions reg ! j})"
    unfolding r(1) by (rule set_update_distinct [OF dense_distinct [OF ok] j(1)])
  have "sessionKey (sessions reg' ! i) = sessionKey (sessions reg ! i)" if "i < length (sessions reg)" for i
    using that j by (cases "i = j") (simp_all add: r)
  then show "dense_ok reg'" using ok r unfolding dense_ok_def by auto
qed

lemma found_session:
  assumes ok: "sessions_ok reg" and f: "sessionKeyToDenseIndex reg k = Some i"
  shows "i < length (sessions reg)" "sessionKey (sessions reg ! i) = k" "session_map_of reg k = Some (sessions reg ! i)"
    and "sessions reg ! i \<in> set (sessions reg)" "k \<noteq> 0"
    and "session_role (sessions reg ! i) = Player \<longleftrightarrow> i < joinedSessionCount reg"
proof -
  note o = sessions_okD [OF ok]
  show i: "i < length (sessions reg)" "sessionKey (sessions reg ! i) = k" using dense_okD [OF o(1)] f by auto
  then show "sessions reg ! i \<in> set (sessions reg)" by simp
  then show "session_map_of reg k = Some (sessions reg ! i)" "k \<noteq> 0" using map_of_sessions [OF o(1)] i o(4) by auto
  show "session_role (sessions reg ! i) = Player \<longleftrightarrow> i < joinedSessionCount reg" by (rule o(3) [OF i(1)])
qed

lemma bex_replaced:
  assumes "\<And>t. t \<in> A \<Longrightarrow> P t \<Longrightarrow> t \<noteq> s \<longleftrightarrow> \<not> P s"
  shows "(\<exists>t \<in> insert s' (A - {s}). P t) \<longleftrightarrow> P s' \<or> (\<exists>t \<in> A. P t) \<and> \<not> P s"
  using assms by blast

text \<open>Changing one session, and the entity it controls, in the map from entities.\<close>

lemma entity_map_change:
  assumes ok: "sessions_ok reg" and s: "s \<in> set (sessions reg)" "sessionKey s' = sessionKey s"
    and c: "session_role s = Player \<Longrightarrow> session_role s' = Player"
    and n: "session_role s' = Player \<Longrightarrow> entityKeyToSessionKey reg (controlledEntity s') = None \<or>
      session_role s = Player \<and> controlledEntity s' = controlledEntity s"
    and m: "m = (if session_role s' = Player then
        (if session_role s = Player \<and> controlledEntity s \<noteq> controlledEntity s'
         then ((entityKeyToSessionKey reg)(controlledEntity s' \<mapsto> sessionKey s))(controlledEntity s := None)
         else (entityKeyToSessionKey reg)(controlledEntity s' \<mapsto> sessionKey s))
      else entityKeyToSessionKey reg)"
  shows "m e = Some k \<longleftrightarrow> (\<exists>t \<in> insert s' (set (sessions reg) - {s}).
    session_role t = Player \<and> controlledEntity t = e \<and> sessionKey t = k)"
proof -
  note o = sessions_okD [OF ok]
  have one: "t = s" if "t \<in> set (sessions reg)" "sessionKey t = sessionKey s" for t
    using map_of_sessions [OF o(1), of "sessionKey s"] that s(1) by (metis option.inject)
  let ?P = "\<lambda>t. session_role t = Player \<and> controlledEntity t = e \<and> sessionKey t = k"
  have "t \<noteq> s \<longleftrightarrow> \<not> ?P s" if "t \<in> set (sessions reg)" "?P t" for t
    using one [OF that(1)] that(2) by (cases "t = s") auto
  then have "(\<exists>t \<in> insert s' (set (sessions reg) - {s}). ?P t) \<longleftrightarrow> ?P s' \<or> (\<exists>t \<in> set (sessions reg). ?P t) \<and> \<not> ?P s"
    by (rule bex_replaced)
  also have "\<dots> \<longleftrightarrow> ?P s' \<or> entityKeyToSessionKey reg e = Some k \<and> \<not> ?P s" by (simp only: o(7))
  finally have rhs: "(\<exists>t \<in> insert s' (set (sessions reg) - {s}). ?P t) \<longleftrightarrow>
      ?P s' \<or> entityKeyToSessionKey reg e = Some k \<and> \<not> ?P s" .
  have own: "session_role s = Player \<Longrightarrow> entityKeyToSessionKey reg (controlledEntity s) = Some (sessionKey s)"
    using o(7) s(1) by blast
  show ?thesis
    unfolding rhs
  proof (cases "session_role s = Player")
    case True
    then show "m e = Some k \<longleftrightarrow> ?P s' \<or> entityKeyToSessionKey reg e = Some k \<and> \<not> ?P s"
      using c own n s(2) by (cases "e = controlledEntity s"; cases "e = controlledEntity s'") (auto simp: m)
  next
    case False
    then show "m e = Some k \<longleftrightarrow> ?P s' \<or> entityKeyToSessionKey reg e = Some k \<and> \<not> ?P s"
      using n s(2) by (cases "session_role s' = Player"; cases "e = controlledEntity s'") (auto simp: m)
  qed
qed

lemma bind_player_refines:
  assumes ok: "sessions_ok reg"
  shows "sessions_ok (snd (TryBindPlayer k p e n reg)) \<and>
    map_prod id session_map_of (TryBindPlayer k p e n reg) = spec_bind_player k p e n (session_map_of reg)"
proof -
  note o = sessions_okD [OF ok]
  show ?thesis
  proof (cases "sessionKeyToDenseIndex reg k")
    case None
    then show ?thesis using ok session_map_None [OF o(1), of k] by (simp add: TryBindPlayer_def spec_bind_player_def)
  next
    case (Some i)
    note f = found_session [OF ok Some]
    let ?s = "sessions reg ! i"
    show ?thesis
    proof (cases "p \<noteq> 0 \<and> WorldEntityKey_IsValid e \<and> session_role ?s = Connected \<and> entityKeyToSessionKey reg e = None")
      case False
      then show ?thesis using ok Some f(3,6) entity_map_None [OF ok, of e]
        by (auto simp: TryBindPlayer_def spec_bind_player_def)
    next
      case True
      define j where "j = joinedSessionCount reg"
      have ij: "j \<le> i" "i < length (sessions reg)" using True f(1,6) by (auto simp: j_def)
      define r1 where "r1 = SwapDenseSessions i j (reg\<lparr>entityKeyToSessionKey := (entityKeyToSessionKey reg)(e \<mapsto> k)\<rparr>)"
      define s' where "s' = ?s\<lparr>session_playerId := p, controlledEntity := e, session_displayName := n, session_role := Player\<rparr>"
      define reg' where "reg' = r1\<lparr>sessions := (sessions r1)[j := s'], joinedSessionCount := j + 1\<rparr>"
      have "dense_ok (reg\<lparr>entityKeyToSessionKey := (entityKeyToSessionKey reg)(e \<mapsto> k)\<rparr>)"
        using o(1) by (simp add: dense_ok_def)
      note sw = swap_sessions [OF this, of i j, folded r1_def, simplified]
      have sj: "sessions r1 ! j = ?s" "j < length (sessions r1)" "length (sessions r1) = length (sessions reg)"
        using sw(3) sw(4) [of j] ij by auto
      have t: "TryBindPlayer k p e n reg = (True, reg')"
        using True Some f(6) sj(1) ij by (auto simp: TryBindPlayer_def Let_def reg'_def s'_def r1_def j_def)
      have d1: "dense_ok r1" "set (sessions r1) = set (sessions reg)" using sw(1,2) ij by auto
      note du = dense_update [OF d1(1) sj(2), of s' reg', unfolded sj(1)]
      have key: "sessionKey s' = sessionKey ?s" by (simp add: s'_def)
      have c: "sessions_ok reg' \<and> session_map_of reg' = (session_map_of reg)(sessionKey ?s \<mapsto> s')"
      proof (rule sessions_ok_change [OF ok])
        show "dense_ok reg'" using du(1) key by (simp add: reg'_def)
        show "joinedSessionCount reg' \<le> length (sessions reg')" using sj by (simp add: reg'_def)
        show "session_role (sessions reg' ! x) = Player \<longleftrightarrow> x < joinedSessionCount reg'" if "x < length (sessions reg')" for x
        proof (cases "x = j")
          case True
          then show ?thesis using sj by (simp add: reg'_def s'_def)
        next
          case False
          then have "sessions reg' ! x = sessions reg ! (if x = i then j else x)" "x < length (sessions reg)"
            using that sw(4) [of x] ij sj by (simp_all add: reg'_def)
          then show ?thesis using False o(3) [of x] o(3) [of j] ij by (auto simp: reg'_def j_def)
        qed
        show set': "set (sessions reg') = insert s' (set (sessions reg) - {?s})"
          using du(2) key d1(2) by (simp add: reg'_def)
        show "?s \<in> set (sessions reg)" by (rule f(4))
        show "sessionKey s' = sessionKey ?s" by (rule key)
        show "if session_role s' = Player then WorldSession_IsJoined s'
            else \<exists>role. s' = (WorldSession_construct (sessionKey s'))\<lparr>session_role := role\<rparr>"
          using True by (simp add: s'_def WorldSession_IsJoined_def)
        have m: "entityKeyToSessionKey reg' = (entityKeyToSessionKey reg)(e \<mapsto> k)" using sw(5) ij by (simp add: reg'_def)
        show "entityKeyToSessionKey reg' a = Some b \<longleftrightarrow>
            (\<exists>t \<in> set (sessions reg'). session_role t = Player \<and> controlledEntity t = a \<and> sessionKey t = b)" for a b
          unfolding set' by (rule entity_map_change [OF ok f(4) key]) (simp_all add: s'_def True f(2) m fun_upd_def)
      qed
      then show ?thesis using True t f(2,3) entity_map_None [OF ok, of e] by (simp add: spec_bind_player_def s'_def)
    qed
  qed
qed

text \<open>A change of one session in place that leaves its role on the same side of the border.\<close>

lemma in_place:
  assumes ok: "sessions_ok reg" and f: "sessionKeyToDenseIndex reg k = Some i"
    and s': "sessionKey s' = k" "session_role s' = Player \<longleftrightarrow> session_role (sessions reg ! i) = Player"
    and v: "if session_role s' = Player then WorldSession_IsJoined s'
      else \<exists>role. s' = (WorldSession_construct (sessionKey s'))\<lparr>session_role := role\<rparr>"
    and r: "reg' = reg\<lparr>entityKeyToSessionKey := m, sessions := (sessions reg)[i := s']\<rparr>"
    and m: "\<And>e k. m e = Some k \<longleftrightarrow> (\<exists>t \<in> insert s' (set (sessions reg) - {sessions reg ! i}).
      session_role t = Player \<and> controlledEntity t = e \<and> sessionKey t = k)"
  shows "sessions_ok reg' \<and> session_map_of reg' = (session_map_of reg)(k \<mapsto> s')"
proof -
  note o = sessions_okD [OF ok] and f = found_session [OF ok f]
  have du: "dense_ok reg'" "set (sessions reg') = insert s' (set (sessions reg) - {sessions reg ! i})"
    using dense_update [OF o(1) f(1), of s' reg'] s'(1) f(2) by (simp_all add: r)
  have "sessions_ok reg' \<and> session_map_of reg' = (session_map_of reg)(sessionKey (sessions reg ! i) \<mapsto> s')"
  proof (rule sessions_ok_change [OF ok du(1)])
    show "joinedSessionCount reg' \<le> length (sessions reg')" using o(2) by (simp add: r)
    show "session_role (sessions reg' ! x) = Player \<longleftrightarrow> x < joinedSessionCount reg'" if "x < length (sessions reg')" for x
      using that o(3) [of x] f(6) s'(2) by (cases "x = i") (simp_all add: r)
    show "sessionKey s' = sessionKey (sessions reg ! i)" using s'(1) f(2) by simp
    show "entityKeyToSessionKey reg' e = Some k \<longleftrightarrow>
        (\<exists>t \<in> set (sessions reg'). session_role t = Player \<and> controlledEntity t = e \<and> sessionKey t = k)" for e k
      unfolding du(2) using m by (simp add: r)
  qed (use du(2) f(4) v in auto)
  then show ?thesis by (simp only: f(2))
qed

lemma bind_observer_refines:
  assumes ok: "sessions_ok reg"
  shows "sessions_ok (snd (TryBindObserver k reg)) \<and>
    map_prod id session_map_of (TryBindObserver k reg) = spec_bind_observer k (session_map_of reg)"
proof (cases "sessionKeyToDenseIndex reg k")
  case None
  then show ?thesis using ok session_map_None [OF sessions_okD(1) [OF ok], of k]
    by (simp add: TryBindObserver_def spec_bind_observer_def)
next
  case (Some i)
  note f = found_session [OF ok Some]
  show ?thesis
  proof (cases "session_role (sessions reg ! i) = Connected")
    case False
    then show ?thesis using ok Some f(3,6) by (auto simp: TryBindObserver_def spec_bind_observer_def)
  next
    case True
    let ?s' = "(sessions reg ! i)\<lparr>session_role := Observer\<rparr>"
    have v: "\<exists>role. ?s' = (WorldSession_construct (sessionKey ?s'))\<lparr>session_role := role\<rparr>"
      using sessions_okD(6) [OF ok f(4)] True by (metis WorldSessionRole.distinct(1) WorldSession.surjective
          WorldSession.update_convs(5) WorldSession.select_convs(1))
    have "sessions_ok (reg\<lparr>entityKeyToSessionKey := entityKeyToSessionKey reg, sessions := (sessions reg)[i := ?s']\<rparr>) \<and>
      session_map_of (reg\<lparr>entityKeyToSessionKey := entityKeyToSessionKey reg, sessions := (sessions reg)[i := ?s']\<rparr>) =
        (session_map_of reg)(k \<mapsto> ?s')"
    proof (rule in_place [OF ok Some _ _ _ refl])
      show "entityKeyToSessionKey reg e = Some j \<longleftrightarrow> (\<exists>t \<in> insert ?s' (set (sessions reg) - {sessions reg ! i}).
          session_role t = Player \<and> controlledEntity t = e \<and> sessionKey t = j)" for e j
        by (rule entity_map_change [OF ok f(4)]) (use True in simp_all)
    qed (use True f(2) v in simp_all)
    then show ?thesis using True Some f(3,6) by (simp add: TryBindObserver_def spec_bind_observer_def)
  qed
qed

lemma rebind_refines:
  assumes ok: "sessions_ok reg"
  shows "sessions_ok (snd (TryRebindControlledEntity k e reg)) \<and>
    map_prod id session_map_of (TryRebindControlledEntity k e reg) = spec_rebind k e (session_map_of reg)"
proof (cases "sessionKeyToDenseIndex reg k")
  case None
  then show ?thesis using ok session_map_None [OF sessions_okD(1) [OF ok], of k]
    by (simp add: TryRebindControlledEntity_def spec_rebind_def)
next
  case (Some i)
  note f = found_session [OF ok Some]
  let ?s = "sessions reg ! i"
  show ?thesis
  proof (cases "WorldEntityKey_IsValid e \<and> session_role ?s = Player \<and> entityKeyToSessionKey reg e = None")
    case False
    then show ?thesis using ok Some f(3,6) entity_map_None [OF ok, of e]
      by (auto simp: TryRebindControlledEntity_def spec_rebind_def)
  next
    case True
    let ?s' = "?s\<lparr>controlledEntity := e\<rparr>"
    let ?m = "((entityKeyToSessionKey reg)(e \<mapsto> k))(controlledEntity ?s := None)"
    have "entityKeyToSessionKey reg (controlledEntity ?s) = Some k" using sessions_okD(7) [OF ok] f(2,4) True by blast
    then have ne: "controlledEntity ?s \<noteq> e" using True by auto
    have "sessions_ok (reg\<lparr>entityKeyToSessionKey := ?m, sessions := (sessions reg)[i := ?s']\<rparr>) \<and>
      session_map_of (reg\<lparr>entityKeyToSessionKey := ?m, sessions := (sessions reg)[i := ?s']\<rparr>) = (session_map_of reg)(k \<mapsto> ?s')"
    proof (rule in_place [OF ok Some _ _ _ refl])
      show "?m a = Some j \<longleftrightarrow> (\<exists>t \<in> insert ?s' (set (sessions reg) - {?s}).
          session_role t = Player \<and> controlledEntity t = a \<and> sessionKey t = j)" for a j
        by (rule entity_map_change [OF ok f(4)]) (use True f(2) ne in \<open>simp_all add: fun_upd_def\<close>)
      show "if session_role ?s' = Player then WorldSession_IsJoined ?s'
          else \<exists>role. ?s' = (WorldSession_construct (sessionKey ?s'))\<lparr>session_role := role\<rparr>"
        using True sessions_okD(5) [OF ok f(4)] by (simp add: WorldSession_IsJoined_def)
    qed (use f(2) in simp_all)
    then show ?thesis using True Some f(3,6) entity_map_None [OF ok, of e]
      by (simp add: TryRebindControlledEntity_def spec_rebind_def)
  qed
qed

lemma remove_refines:
  assumes ok: "sessions_ok reg"
  shows "sessions_ok (snd (Sessions_Remove k reg)) \<and>
    map_prod id session_map_of (Sessions_Remove k reg) = spec_remove k (session_map_of reg)"
proof (cases "sessionKeyToDenseIndex reg k")
  case None
  then show ?thesis using ok session_map_None [OF sessions_okD(1) [OF ok], of k]
    by (simp add: Sessions_Remove_def spec_remove_def)
next
  case (Some i)
  note o = sessions_okD [OF ok] and f = found_session [OF ok Some]
  let ?s = "sessions reg ! i"
  \<comment> \<open>the registry before the last position is taken away\<close>
  define joined where "joined = (i < joinedSessionCount reg)"
  define d where "d = (if joined then joinedSessionCount reg - 1 else i)"
  define mid where "mid = (if joined then
      (SwapDenseSessions i d (reg\<lparr>entityKeyToSessionKey := (entityKeyToSessionKey reg)(controlledEntity ?s := None)\<rparr>))\<lparr>joinedSessionCount := d\<rparr>
    else reg)"
  define reg' where "reg' = RemoveDenseSessionAt d mid"
  have t: "Sessions_Remove k reg = (True, reg')"
    using Some by (auto simp: Sessions_Remove_def Let_def reg'_def mid_def d_def joined_def)
  have d: "d < length (sessions reg)" "joined \<Longrightarrow> i \<le> d" using f(1) o(2) by (auto simp: d_def joined_def)
  have pre: "dense_ok (reg\<lparr>entityKeyToSessionKey := (entityKeyToSessionKey reg)(controlledEntity ?s := None)\<rparr>)"
    using o(1) by (simp add: dense_ok_def)
  have mid: "dense_ok mid" "set (sessions mid) = set (sessions reg)" "length (sessions mid) = length (sessions reg)"
      "sessions mid ! d = ?s"
    using swap_sessions(1-3) [OF pre, of i d] swap_sessions(4) [OF pre, of i d d] o(1) f(1) d
    by (auto simp: mid_def dense_ok_def d_def)
  have nth: "sessions mid ! x = sessions reg ! (if x = d then i else if x = i then d else x)" if "x < length (sessions reg)" for x
    using swap_sessions(4) [OF pre, of i d x] that f(1) d by (auto simp: mid_def d_def)
  have counts: "joinedSessionCount mid = (if joined then d else joinedSessionCount reg)"
      "entityKeyToSessionKey mid = (if joined then (entityKeyToSessionKey reg)(controlledEntity ?s := None) else entityKeyToSessionKey reg)"
    using swap_sessions(5) [OF pre, of i d] f(1) d by (auto simp: mid_def)
  have dm: "d < length (sessions mid)" using d mid by simp
  note rd = remove_dense [OF mid(1) dm, folded reg'_def]
  have set': "set (sessions reg') = set (sessions reg) - {?s}" using rd(2) mid by simp
  have one: "t \<noteq> ?s \<longleftrightarrow> sessionKey t \<noteq> k" if "t \<in> set (sessions reg)" for t
    using map_of_sessions [OF o(1), of k] that f(2,4) by (metis option.inject)
  have m: "session_map_of reg' = (session_map_of reg)(k := None)"
    using map_removed [OF o(1) rd(1) f(4) refl set'] by (simp only: f(2))
  have j: "joined \<longleftrightarrow> session_role ?s = Player" using f(6) by (simp add: joined_def)
  have "sessions_ok reg'"
    unfolding sessions_ok_def
  proof (intro conjI allI impI ballI)
    show "dense_ok reg'" by (rule rd(1))
    show "joinedSessionCount reg' \<le> length (sessions reg')"
      using rd(3,6) counts(1) mid(3) d(1) o(2) f(1) by (auto simp: joined_def)
    fix s assume "s \<in> set (sessions reg')"
    then show "sessionKey s \<noteq> 0" "if session_role s = Player then WorldSession_IsJoined s
        else \<exists>role. s = (WorldSession_construct (sessionKey s))\<lparr>session_role := role\<rparr>"
      using o(4-6) set' by auto
  next
    fix x assume x: "x < length (sessions reg')"
    define y where "y = (if x = d then length (sessions reg') else x)"
    define z where "z = (if y = d then i else if y = i then d else y)"
    have y: "y < length (sessions reg)" "y \<noteq> d" using x rd(3) mid(3) d(1) by (auto simp: y_def)
    have "sessions reg' ! x = sessions reg ! z" using rd(4) [OF x] nth [OF y(1)] by (simp add: y_def z_def)
    moreover have "z < length (sessions reg)" using y d(1) f(1) by (auto simp: z_def)
    moreover have "z < joinedSessionCount reg \<longleftrightarrow> x < joinedSessionCount reg'"
    proof (cases joined)
      case True
      then have "joinedSessionCount reg = Suc d" by (auto simp: d_def joined_def)
      then show ?thesis using True y(2) x rd(3) mid(3) d(1,2) f(1)
        by (auto simp: z_def y_def rd(6) counts(1) split: if_splits)
    next
      case False
      then have "d = i" "\<not> i < joinedSessionCount reg" by (auto simp: d_def joined_def)
      then show ?thesis using False y(2) x rd(3) mid(3) by (auto simp: z_def y_def rd(6) counts(1) split: if_splits)
    qed
    ultimately show "session_role (sessions reg' ! x) = Player \<longleftrightarrow> x < joinedSessionCount reg'" using o(3) by simp
  next
    fix e j
    have "controlledEntity t \<noteq> controlledEntity ?s" if "t \<in> set (sessions reg)" "t \<noteq> ?s" "session_role t = Player" "joined" for t
      using o(7) [of "controlledEntity ?s" k] o(7) [of "controlledEntity ?s" "sessionKey t"] that f(2,4) j one [of t]
      by (metis option.inject)
    then show "entityKeyToSessionKey reg' e = Some j \<longleftrightarrow>
        (\<exists>s \<in> set (sessions reg'). session_role s = Player \<and> controlledEntity s = e \<and> sessionKey s = j)"
      using o(7) [of e j] j by (cases joined; cases "e = controlledEntity ?s") (auto simp: rd(5) counts(2) set')
  qed
  then show ?thesis using t m f(3) by (simp add: spec_remove_def)
qed

section \<open>Histories\<close>

datatype session_op =
    Register WorldSessionKey
  | BindPlayer WorldSessionKey u32 WorldEntityKey "byte list"
  | BindObserver WorldSessionKey
  | RebindControlledEntity WorldSessionKey WorldEntityKey
  | RemoveSession WorldSessionKey

fun perform :: "session_op \<Rightarrow> WorldSessionRegistry \<Rightarrow> bool \<times> WorldSessionRegistry" where
  "perform (Register k) reg = TryRegister k reg"
| "perform (BindPlayer k p e n) reg = TryBindPlayer k p e n reg"
| "perform (BindObserver k) reg = TryBindObserver k reg"
| "perform (RebindControlledEntity k e) reg = TryRebindControlledEntity k e reg"
| "perform (RemoveSession k) reg = Sessions_Remove k reg"

fun specified :: "session_op \<Rightarrow> session_map \<Rightarrow> bool \<times> session_map" where
  "specified (Register k) M = spec_register k M"
| "specified (BindPlayer k p e n) M = spec_bind_player k p e n M"
| "specified (BindObserver k) M = spec_bind_observer k M"
| "specified (RebindControlledEntity k e) M = spec_rebind k e M"
| "specified (RemoveSession k) M = spec_remove k M"

inductive sessions_reachable :: "WorldSessionRegistry \<Rightarrow> bool" where
  start: "sessions_reachable WorldSessionRegistry_construct"
| advance: "sessions_reachable reg \<Longrightarrow> sessions_reachable (snd (perform op reg))"

lemma perform_refines:
  assumes "sessions_ok reg"
  shows "sessions_ok (snd (perform op reg))" "map_prod id session_map_of (perform op reg) = specified op (session_map_of reg)"
  using register_refines [OF assms] bind_player_refines [OF assms] bind_observer_refines [OF assms]
    rebind_refines [OF assms] remove_refines [OF assms]
  by (cases op; simp)+

lemma sessions_reachable_ok: "sessions_reachable reg \<Longrightarrow> sessions_ok reg"
  by (induction rule: sessions_reachable.induct) (simp_all add: sessions_ok_construct perform_refines)

text \<open>A lookup by player is unique exactly when one session has the player.\<close>

lemma find_unique_from:
  "FindUniqueByPlayerId_from found i ss p = Some j \<longleftrightarrow>
    (found = Some j \<and> (\<forall>s \<in> set ss. session_playerId s \<noteq> p) \<or>
     found = None \<and> (\<exists>n < length ss. j = i + n \<and> session_playerId (ss ! n) = p \<and>
       (\<forall>m < length ss. session_playerId (ss ! m) = p \<longrightarrow> m = n)))"
proof (induction ss arbitrary: found i)
  case Nil
  then show ?case by simp
next
  case (Cons s ss)
  show ?case
  proof (cases "session_playerId s = p")
    case False
    then show ?thesis using Cons.IH [of found "i + 1"] by (auto simp: Ex_less_Suc2 All_less_Suc2)
  next
    case True
    then show ?thesis using Cons.IH [of "Some i" "i + 1"]
      by (cases found) (auto simp: Ex_less_Suc2 All_less_Suc2 all_set_conv_all_nth)
  qed
qed

section \<open>Properties\<close>

text \<open>
  Property C12. After any history, every operation of the session registry does what its specification
  says on the map from session keys to sessions, with the same result: a player is bound once, to an
  entity no other player controls, an observer never becomes a player, and a refused operation changes
  nothing. The vector holds every session once with exactly the players in front, and no two players
  control the same entity.
\<close>
theorem session_registry_refines_map:
  assumes "sessions_reachable reg"
  shows "(\<forall>op. map_prod id session_map_of (perform op reg) = specified op (session_map_of reg)) \<and>
    set (RegisteredSessions reg) = ran (session_map_of reg) \<and> distinct (map sessionKey (RegisteredSessions reg)) \<and>
    JoinedSessions reg = filter (\<lambda>s. session_role s = Player) (RegisteredSessions reg) \<and>
    distinct (map controlledEntity (JoinedSessions reg)) \<and> (\<forall>s \<in> set (JoinedSessions reg). WorldSession_IsJoined s) \<and>
    Sessions_Size reg = card (dom (session_map_of reg))"
proof (intro conjI allI ballI)
  have ok: "sessions_ok reg" using assms by (rule sessions_reachable_ok)
  note o = sessions_okD [OF ok]
  show "map_prod id session_map_of (perform op reg) = specified op (session_map_of reg)" for op
    by (rule perform_refines(2) [OF ok])
  show all: "set (RegisteredSessions reg) = ran (session_map_of reg)"
    by (simp add: RegisteredSessions_def session_map_ran [OF o(1)])
  show keys: "distinct (map sessionKey (RegisteredSessions reg))"
    unfolding distinct_conv_nth RegisteredSessions_def using dense_inj [OF o(1)] by auto
  have front: "session_role s = Player" if "s \<in> set (JoinedSessions reg)" for s
    using that o(2,3) by (auto simp: JoinedSessions_def in_set_conv_nth)
  have rest: "session_role s \<noteq> Player" if "s \<in> set (drop (joinedSessionCount reg) (sessions reg))" for s
    using that o(3) by (auto simp: in_set_conv_nth)
  have "filter (\<lambda>s. session_role s = Player) (JoinedSessions reg @ drop (joinedSessionCount reg) (sessions reg)) = JoinedSessions reg"
    using front rest by (simp add: filter_id_conv filter_empty_conv)
  then show j: "JoinedSessions reg = filter (\<lambda>s. session_role s = Player) (RegisteredSessions reg)"
    by (simp add: JoinedSessions_def RegisteredSessions_def)
  have "inj_on controlledEntity (set (JoinedSessions reg))"
  proof (rule inj_onI)
    fix s t assume st: "s \<in> set (JoinedSessions reg)" "t \<in> set (JoinedSessions reg)" "controlledEntity s = controlledEntity t"
    then have m: "s \<in> set (sessions reg)" "t \<in> set (sessions reg)" "session_role s = Player" "session_role t = Player"
      by (auto simp: j RegisteredSessions_def)
    then have "sessionKey s = sessionKey t" using o(7) [of "controlledEntity s"] st(3) by (metis option.inject)
    then show "s = t" using map_of_sessions [OF o(1)] m(1,2) by (metis option.inject)
  qed
  moreover have "distinct (JoinedSessions reg)" using dense_distinct [OF o(1)] by (simp add: JoinedSessions_def)
  ultimately show "distinct (map controlledEntity (JoinedSessions reg))" by (simp add: distinct_map)
  show "WorldSession_IsJoined s" if "s \<in> set (JoinedSessions reg)" for s
    using that o(5) by (auto simp: j RegisteredSessions_def)
  have "dom (session_map_of reg) = sessionKey ` set (sessions reg)" by (force simp: dom_def map_of_sessions [OF o(1)])
  then show "Sessions_Size reg = card (dom (session_map_of reg))"
    using distinct_card [OF keys] by (simp add: RegisteredSessions_def Sessions_Size_def)
qed

section \<open>Samples\<close>

theorem session_registry_refines_map_witness:
  "\<exists>reg. sessions_reachable reg \<and> Sessions_Size reg = 1 \<and>
    map_prod id session_map_of (perform (BindObserver 5) reg) = (True, [5 \<mapsto> (WorldSession_construct 5)\<lparr>session_role := Observer\<rparr>])"
proof -
  let ?reg = "snd (perform (Register 5) WorldSessionRegistry_construct)"
  have r: "sessions_reachable ?reg" by (rule sessions_reachable.advance [OF sessions_reachable.start])
  have m: "session_map_of ?reg = [5 \<mapsto> WorldSession_construct 5]"
    by (simp add: fun_eq_iff session_map_of_def TryFind_def TryRegister_def WorldSessionRegistry_construct_def
        WorldSessionKey_IsValid_def)
  show ?thesis
    using session_registry_refines_map [OF r, THEN conjunct1, rule_format, of "BindObserver 5"]
      session_registry_refines_map [OF r] r unfolding m
    by (intro exI [of _ ?reg]) (simp add: spec_bind_observer_def WorldSession_construct_def)
qed

end
