(* ===== verification/WsOutbound.thy ===== *)
theory WsOutbound imports WsIdentity begin

text \<open>
  The buffer between the owner of the World and the worker that publishes its messages
  (\<^verbatim>\<open>WorldOutboundDoubleBuffer.h/.cpp\<close>): two or three slots of fixed capacity that are written,
  sealed, read in the order of sealing and used again. A send channel is opaque, a type variable, with
  \<open>none\<close> as the value its default constructor makes. A wait is its effect at the moment it returns; if
  its predicate is false then, the time has run out. An encoder is a function that fills a span and says
  whether it succeeded; \<open>None\<close> is the null pointer.
\<close>

section \<open>Records, slots and failures\<close>

datatype WorldOutboundRecordKind = Generic | ReplicationSpawn | ReplicationStateBatch | ReplicationRemove

record WorldOutboundRecordMetadata =
  recordKind :: WorldOutboundRecordKind
  replicationRecipientIndex :: u32
  entityCount :: u32

definition default_metadata :: WorldOutboundRecordMetadata where
  "default_metadata = \<lparr>recordKind = Generic, replicationRecipientIndex = 0, entityCount = 0\<rparr>"

record WorldOutboundBatchCapacity =
  recordCapacity :: nat
  recipientCapacity :: nat
  payloadByteCapacity :: nat

record WorldOutboundBatchUsage =
  usedRecords :: nat
  usedRecipients :: nat
  usedPayloadBytes :: nat

definition no_usage :: WorldOutboundBatchUsage where
  "no_usage = \<lparr>usedRecords = 0, usedRecipients = 0, usedPayloadBytes = 0\<rparr>"

record WorldOutboundRecord =
  recordPacketType :: u16
  recipientOffset :: u32
  recipientCount :: u32
  payloadOffset :: u32
  payloadSize :: u32
  recordMetadata :: WorldOutboundRecordMetadata

definition default_record :: WorldOutboundRecord where
  "default_record = \<lparr>recordPacketType = 0, recipientOffset = 0, recipientCount = 0, payloadOffset = 0, payloadSize = 0,
     recordMetadata = default_metadata\<rparr>"

record 'ch WorldOutboundReadBatch =
  batchEpoch :: u64
  batchFirstServerTick :: u32
  batchLastServerTick :: u32
  batchRecords :: "WorldOutboundRecord list"
  batchRecipients :: "'ch list"
  batchPayloadBytes :: "byte list"
  batchReplicationServerTick :: u32
  batchReplicationRecipientCount :: u32

datatype WorldOutboundAppendResult = Appended | InvalidArgument | InvalidState | CapacityExceeded | EncodingFailed

datatype WorldOutboundWriteOperation = NoOperation | Append | AppendEncoded | ReserveReplicationRecipients

record WorldOutboundAppendFailure =
  failedOperation :: WorldOutboundWriteOperation
  failedResult :: WorldOutboundAppendResult
  failedPacketType :: u16
  failedServerTick :: u32
  existingReplicationServerTick :: u32
  existingReplicationRecipientCount :: u32
  failedRecipientIndex :: u32
  failedEntityCount :: u32
  requestedRecipientCount :: nat
  requestedPayloadByteCount :: nat
  failedUsage :: WorldOutboundBatchUsage

definition no_failure :: WorldOutboundAppendFailure where
  "no_failure = \<lparr>failedOperation = NoOperation, failedResult = Appended, failedPacketType = 0, failedServerTick = 0,
     existingReplicationServerTick = 0, existingReplicationRecipientCount = 0, failedRecipientIndex = 0,
     failedEntityCount = 0, requestedRecipientCount = 0, requestedPayloadByteCount = 0, failedUsage = no_usage\<rparr>"

datatype WorldOutboundDoubleBufferExchangeResult =
  Exchanged | EmptyBatch | ExchangeInvalidArgument | ExchangeInvalidState | Busy | TimedOut

datatype SlotState = SlotEmpty | Writing | Sealed | Reading

record 'ch OutboundSlot =
  slotRecords :: "WorldOutboundRecord list"
  slotRecipients :: "'ch list"
  slotPayloadBytes :: "byte list"
  usage :: WorldOutboundBatchUsage
  firstServerTick :: u32
  lastServerTick :: u32
  replicationRecipientCount :: u32
  slotEpoch :: u64
  slotState :: SlotState

definition OutboundSlot_construct :: "'ch \<Rightarrow> WorldOutboundBatchCapacity \<Rightarrow> 'ch OutboundSlot" where
  "OutboundSlot_construct none capacity = \<lparr>slotRecords = replicate (recordCapacity capacity) default_record,
     slotRecipients = replicate (recipientCapacity capacity) none,
     slotPayloadBytes = replicate (payloadByteCapacity capacity) 0, usage = no_usage, firstServerTick = 0,
     lastServerTick = 0, replicationRecipientCount = 0, slotEpoch = 0, slotState = SlotEmpty\<rparr>"

record 'ch WorldOutboundDoubleBuffer =
  capacityPerSlot :: WorldOutboundBatchCapacity
  slots :: "'ch OutboundSlot list"
  readySlotIndices :: "nat list"
  readyHeadIndex :: nat
  readySlotCount :: nat
  writeSlotIndex :: nat
  readSlotIndex :: nat
  lastAppendFailure :: WorldOutboundAppendFailure
  lastSealedEpoch :: u64
  writesFinished :: bool
  closed :: bool
  writeSlotActive :: bool
  readClaimActive :: bool

definition MaximumSlotCount :: nat where "MaximumSlotCount = 3"

definition InvalidSlotIndex :: nat where "InvalidSlotIndex = MaximumSlotCount"

section \<open>Construction\<close>

definition IsValidCapacity :: "WorldOutboundBatchCapacity \<Rightarrow> bool" where
  "IsValidCapacity capacity \<longleftrightarrow> recordCapacity capacity > 0 \<and> recipientCapacity capacity > 0 \<and>
     payloadByteCapacity capacity > 0 \<and> recordCapacity capacity \<le> 2 ^ 32 - 1 \<and>
     recipientCapacity capacity \<le> 2 ^ 32 - 1 \<and> payloadByteCapacity capacity \<le> 2 ^ 32 - 1"

definition IsValidSlotCount :: "nat \<Rightarrow> bool" where "IsValidSlotCount slotCount \<longleftrightarrow> slotCount = 2 \<or> slotCount = 3"

definition update_slot :: "nat \<Rightarrow> ('ch OutboundSlot \<Rightarrow> 'ch OutboundSlot) \<Rightarrow> 'ch WorldOutboundDoubleBuffer \<Rightarrow> 'ch WorldOutboundDoubleBuffer" where
  "update_slot i f buf = buf\<lparr>slots := (slots buf)[i := f (slots buf ! i)]\<rparr>"

definition Outbound_construct :: "'ch \<Rightarrow> WorldOutboundBatchCapacity \<Rightarrow> nat \<Rightarrow> 'ch WorldOutboundDoubleBuffer" where
  "Outbound_construct none capacity slotCount = update_slot 0 (slotState_update (\<lambda>_. Writing))
     \<lparr>capacityPerSlot = capacity, slots = replicate slotCount (OutboundSlot_construct none capacity),
      readySlotIndices = replicate MaximumSlotCount 0, readyHeadIndex = 0, readySlotCount = 0, writeSlotIndex = 0,
      readSlotIndex = InvalidSlotIndex, lastAppendFailure = no_failure, lastSealedEpoch = 0, writesFinished = False,
      closed = False, writeSlotActive = True, readClaimActive = False\<rparr>"

definition Outbound_Create ::
    "bool \<Rightarrow> 'ch \<Rightarrow> WorldOutboundBatchCapacity \<Rightarrow> nat \<Rightarrow> WorldErrorCode + 'ch WorldOutboundDoubleBuffer" where
  "Outbound_Create allocated none capacity slotCount =
     (if \<not> IsValidCapacity capacity \<or> \<not> IsValidSlotCount slotCount then Inl WorldErrorCode.InvalidArgument
      else if \<not> allocated then Inl AllocationFailed
      else Inr (Outbound_construct none capacity slotCount))"

fun find_empty_from :: "nat \<Rightarrow> 'ch OutboundSlot list \<Rightarrow> nat" where
  "find_empty_from i [] = InvalidSlotIndex"
| "find_empty_from i (s # ss) = (if slotState s = SlotEmpty then i else find_empty_from (i + 1) ss)"

definition FindEmptySlotIndexLocked :: "'ch WorldOutboundDoubleBuffer \<Rightarrow> nat" where
  "FindEmptySlotIndexLocked buf = find_empty_from 0 (slots buf)"

definition EnqueueReadySlotLocked :: "nat \<Rightarrow> 'ch WorldOutboundDoubleBuffer \<Rightarrow> 'ch WorldOutboundDoubleBuffer" where
  "EnqueueReadySlotLocked i buf =
     (let readyTailIndex = (readyHeadIndex buf + readySlotCount buf) mod length (readySlotIndices buf) in
      buf\<lparr>readySlotIndices := (readySlotIndices buf)[readyTailIndex := i], readySlotCount := readySlotCount buf + 1\<rparr>)"

definition DequeueReadySlotLocked :: "'ch WorldOutboundDoubleBuffer \<Rightarrow> nat \<times> 'ch WorldOutboundDoubleBuffer" where
  "DequeueReadySlotLocked buf =
     (if readySlotCount buf = 0 then (InvalidSlotIndex, buf)
      else (readySlotIndices buf ! readyHeadIndex buf,
            buf\<lparr>readySlotIndices := (readySlotIndices buf)[readyHeadIndex buf := InvalidSlotIndex],
                readyHeadIndex := (readyHeadIndex buf + 1) mod length (readySlotIndices buf),
                readySlotCount := readySlotCount buf - 1\<rparr>))"

section \<open>The writer\<close>

definition start_writing :: "nat \<Rightarrow> 'ch WorldOutboundDoubleBuffer \<Rightarrow> 'ch WorldOutboundDoubleBuffer" where
  "start_writing i buf = (update_slot i (slotState_update (\<lambda>_. Writing)) buf)\<lparr>writeSlotIndex := i, writeSlotActive := True\<rparr>"

definition WaitPrepareWrite ::
    "int \<Rightarrow> 'ch WorldOutboundDoubleBuffer \<Rightarrow> WorldOutboundDoubleBufferExchangeResult \<times> 'ch WorldOutboundDoubleBuffer" where
  "WaitPrepareWrite timeout buf =
     (if timeout < 0 then (ExchangeInvalidArgument, buf)
      else if \<not> (closed buf \<or> writesFinished buf \<or> writeSlotActive buf \<or> FindEmptySlotIndexLocked buf \<noteq> InvalidSlotIndex)
      then (if timeout = 0 then Busy else TimedOut, buf)
      else if closed buf \<or> writesFinished buf then (ExchangeInvalidState, buf)
      else if writeSlotActive buf then (Exchanged, buf)
      else let next = FindEmptySlotIndexLocked buf in
        if next = InvalidSlotIndex then (ExchangeInvalidState, buf)
        else (Exchanged, start_writing next buf))"

definition BeginWriteBatch ::
    "u64 \<Rightarrow> u32 \<Rightarrow> u32 \<Rightarrow> 'ch WorldOutboundDoubleBuffer \<Rightarrow>
     WorldOutboundDoubleBufferExchangeResult \<times> 'ch WorldOutboundDoubleBuffer" where
  "BeginWriteBatch epoch firstTick lastTick buf =
     (if epoch = 0 \<or> firstTick = 0 \<or> firstTick > lastTick then (ExchangeInvalidArgument, buf)
      else if closed buf \<or> writesFinished buf then (ExchangeInvalidState, buf)
      else if epoch \<le> lastSealedEpoch buf then (ExchangeInvalidState, buf)
      else if \<not> writeSlotActive buf \<and> FindEmptySlotIndexLocked buf = InvalidSlotIndex then (Busy, buf)
      else
        let buf = (if writeSlotActive buf then buf else start_writing (FindEmptySlotIndexLocked buf) buf) in
        if writeSlotIndex buf \<ge> length (slots buf) then (ExchangeInvalidState, buf)
        else
          let slot = slots buf ! writeSlotIndex buf in
          if slotState slot \<noteq> Writing \<or> slotEpoch slot \<noteq> 0 \<or> usage slot \<noteq> no_usage \<or> replicationRecipientCount slot \<noteq> 0
          then (ExchangeInvalidState, buf)
          else (Exchanged, update_slot (writeSlotIndex buf)
                 (\<lambda>s. s\<lparr>slotEpoch := epoch, firstServerTick := firstTick, lastServerTick := lastTick\<rparr>) buf))"

definition RecordAppendFailure ::
    "WorldOutboundWriteOperation \<Rightarrow> WorldOutboundAppendResult \<Rightarrow> u16 \<Rightarrow> u32 \<Rightarrow> nat \<Rightarrow> nat \<Rightarrow>
     WorldOutboundRecordMetadata \<Rightarrow> 'ch WorldOutboundDoubleBuffer \<Rightarrow>
     WorldOutboundAppendResult \<times> 'ch WorldOutboundDoubleBuffer" where
  "RecordAppendFailure operation result packetType serverTick recipients bytes metadata buf =
     (if failedOperation (lastAppendFailure buf) = NoOperation then
        let slot = slots buf ! writeSlotIndex buf in
        (result, buf\<lparr>lastAppendFailure := \<lparr>failedOperation = operation, failedResult = result,
           failedPacketType = packetType, failedServerTick = serverTick, existingReplicationServerTick = lastServerTick slot,
           existingReplicationRecipientCount = replicationRecipientCount slot,
           failedRecipientIndex = replicationRecipientIndex metadata, failedEntityCount = entityCount metadata,
           requestedRecipientCount = recipients, requestedPayloadByteCount = bytes, failedUsage = usage slot\<rparr>\<rparr>)
      else (result, buf))"

text \<open>The room that is left, and the record that an append makes.\<close>

definition lacks_room :: "nat \<Rightarrow> nat \<Rightarrow> 'ch OutboundSlot \<Rightarrow> bool" where
  "lacks_room recipients bytes slot \<longleftrightarrow> usedRecords (usage slot) = length (slotRecords slot) \<or>
     recipients > length (slotRecipients slot) - usedRecipients (usage slot) \<or>
     bytes > length (slotPayloadBytes slot) - usedPayloadBytes (usage slot)"

definition append_record ::
    "u16 \<Rightarrow> 'ch list \<Rightarrow> nat \<Rightarrow> WorldOutboundRecordMetadata \<Rightarrow> 'ch OutboundSlot \<Rightarrow> 'ch OutboundSlot" where
  "append_record packetType recipients bytes metadata slot =
     slot\<lparr>slotRecipients := memcpy_at (usedRecipients (usage slot)) recipients (slotRecipients slot),
       slotRecords := (slotRecords slot)[usedRecords (usage slot) :=
         \<lparr>recordPacketType = packetType, recipientOffset = word_of_nat (usedRecipients (usage slot)),
          recipientCount = word_of_nat (length recipients), payloadOffset = word_of_nat (usedPayloadBytes (usage slot)),
          payloadSize = word_of_nat bytes, recordMetadata = metadata\<rparr>],
       usage := \<lparr>usedRecords = usedRecords (usage slot) + 1, usedRecipients = usedRecipients (usage slot) + length recipients,
         usedPayloadBytes = usedPayloadBytes (usage slot) + bytes\<rparr>\<rparr>"

definition TryAppend ::
    "u16 \<Rightarrow> 'ch list \<Rightarrow> byte list \<Rightarrow> 'ch WorldOutboundDoubleBuffer \<Rightarrow>
     WorldOutboundAppendResult \<times> 'ch WorldOutboundDoubleBuffer" where
  "TryAppend packetType recipients payload buf =
     (let slot = slots buf ! writeSlotIndex buf;
          fail = (\<lambda>result. RecordAppendFailure Append result packetType 0 (length recipients) (length payload)
            default_metadata buf) in
      if closed buf \<or> writesFinished buf then fail InvalidState
      else if packetType = 0 \<or> recipients = [] then fail InvalidArgument
      else if slotState slot \<noteq> Writing then fail InvalidState
      else if lacks_room (length recipients) (length payload) slot then fail CapacityExceeded
      else (Appended, update_slot (writeSlotIndex buf) (\<lambda>s. append_record packetType recipients (length payload) default_metadata
             (s\<lparr>slotPayloadBytes := memcpy_at (usedPayloadBytes (usage s)) payload (slotPayloadBytes s)\<rparr>)) buf))"

definition TryAppendEncoded ::
    "u16 \<Rightarrow> 'ch list \<Rightarrow> nat \<Rightarrow> (byte list \<Rightarrow> bool \<times> byte list) option \<Rightarrow> WorldOutboundRecordMetadata \<Rightarrow>
     'ch WorldOutboundDoubleBuffer \<Rightarrow> WorldOutboundAppendResult \<times> 'ch WorldOutboundDoubleBuffer" where
  "TryAppendEncoded packetType recipients bytes encoder metadata buf =
     (let slot = slots buf ! writeSlotIndex buf;
          fail = (\<lambda>result. RecordAppendFailure AppendEncoded result packetType 0 (length recipients) bytes metadata) in
      if closed buf \<or> writesFinished buf then fail InvalidState buf
      else if packetType = 0 \<or> recipients = [] \<or> encoder = None then fail InvalidArgument buf
      else if slotState slot \<noteq> Writing then fail InvalidState buf
      else if recordKind metadata \<noteq> Generic \<and>
         (entityCount metadata = 0 \<or> replicationRecipientIndex metadata \<ge> replicationRecipientCount slot)
      then fail InvalidArgument buf
      else if lacks_room (length recipients) bytes slot then fail CapacityExceeded buf
      else
        let (encoded, payload) = the encoder (take bytes (drop (usedPayloadBytes (usage slot)) (slotPayloadBytes slot)));
            buf = update_slot (writeSlotIndex buf)
              (\<lambda>s. s\<lparr>slotPayloadBytes := memcpy_at (usedPayloadBytes (usage s)) payload (slotPayloadBytes s)\<rparr>) buf in
        if \<not> encoded then fail EncodingFailed buf
        else (Appended, update_slot (writeSlotIndex buf) (append_record packetType recipients bytes metadata) buf))"

definition Outbound_ReserveReplicationRecipients ::
    "u32 \<Rightarrow> bool \<Rightarrow> 'ch WorldOutboundDoubleBuffer \<Rightarrow>
     (WorldOutboundAppendResult \<times> u32 option) \<times> 'ch WorldOutboundDoubleBuffer" where
  "Outbound_ReserveReplicationRecipients count out buf =
     (let slot = slots buf ! writeSlotIndex buf;
          fail = (\<lambda>result tick. case RecordAppendFailure ReserveReplicationRecipients result 0 tick (unat count) 0
            default_metadata buf of (r, buf) \<Rightarrow> ((r, None), buf)) in
      if closed buf \<or> writesFinished buf then fail InvalidState 0
      else if slotState slot \<noteq> Writing \<or> slotEpoch slot = 0 \<or> lastServerTick slot = 0 then fail InvalidState (lastServerTick slot)
      else if count = 0 \<or> \<not> out \<or> count > - 1 - replicationRecipientCount slot then fail InvalidArgument (lastServerTick slot)
      else ((Appended, Some (replicationRecipientCount slot)),
            update_slot (writeSlotIndex buf)
              (\<lambda>s. s\<lparr>replicationRecipientCount := replicationRecipientCount s + count\<rparr>) buf))"

definition SealWrite ::
    "u64 \<Rightarrow> 'ch WorldOutboundDoubleBuffer \<Rightarrow> WorldOutboundDoubleBufferExchangeResult \<times> 'ch WorldOutboundDoubleBuffer" where
  "SealWrite epoch buf =
     (if epoch = 0 then (ExchangeInvalidArgument, buf)
      else if closed buf \<or> writesFinished buf then (ExchangeInvalidState, buf)
      else if writeSlotIndex buf \<ge> length (slots buf) then (ExchangeInvalidState, buf)
      else
        let i = writeSlotIndex buf; slot = slots buf ! i in
        if \<not> writeSlotActive buf \<or> slotState slot \<noteq> Writing \<or> epoch \<le> lastSealedEpoch buf \<or>
           (slotEpoch slot \<noteq> 0 \<and> slotEpoch slot \<noteq> epoch)
        then (ExchangeInvalidState, buf)
        else if usedRecords (usage slot) = 0
        then (EmptyBatch, update_slot i (\<lambda>s. s\<lparr>slotEpoch := 0, firstServerTick := 0, lastServerTick := 0\<rparr>) buf)
        else (Exchanged, EnqueueReadySlotLocked i
               ((update_slot i (\<lambda>s. s\<lparr>slotEpoch := epoch, slotState := Sealed\<rparr>) buf)\<lparr>lastSealedEpoch := epoch, writeSlotActive := False\<rparr>)))"

section \<open>The reader\<close>

definition read_batch :: "'ch OutboundSlot \<Rightarrow> 'ch WorldOutboundReadBatch" where
  "read_batch slot = \<lparr>batchEpoch = slotEpoch slot, batchFirstServerTick = firstServerTick slot,
     batchLastServerTick = lastServerTick slot, batchRecords = take (usedRecords (usage slot)) (slotRecords slot),
     batchRecipients = take (usedRecipients (usage slot)) (slotRecipients slot),
     batchPayloadBytes = take (usedPayloadBytes (usage slot)) (slotPayloadBytes slot),
     batchReplicationServerTick = lastServerTick slot, batchReplicationRecipientCount = replicationRecipientCount slot\<rparr>"

definition Outbound_WaitAcquireRead ::
    "int \<Rightarrow> bool \<Rightarrow> 'ch WorldOutboundDoubleBuffer \<Rightarrow>
     (WorldOutboundDoubleBufferExchangeResult \<times> 'ch WorldOutboundReadBatch option) \<times> 'ch WorldOutboundDoubleBuffer" where
  "Outbound_WaitAcquireRead timeout out buf =
     (if timeout < 0 \<or> \<not> out then ((ExchangeInvalidArgument, None), buf)
      else if \<not> (closed buf \<or> (\<not> readClaimActive buf \<and> (readySlotCount buf \<noteq> 0 \<or> writesFinished buf)))
      then ((TimedOut, None), buf)
      else if closed buf then ((ExchangeInvalidState, None), buf)
      else if readySlotCount buf = 0 \<and> writesFinished buf then ((EmptyBatch, None), buf)
      else
        let (i, buf) = DequeueReadySlotLocked buf in
        if i \<ge> length (slots buf) then ((ExchangeInvalidState, None), buf)
        else
          let slot = slots buf ! i in
          if slotState slot \<noteq> Sealed \<or> slotEpoch slot = 0 then ((ExchangeInvalidState, None), buf)
          else ((Exchanged, Some (read_batch slot)),
                (update_slot i (slotState_update (\<lambda>_. Reading)) buf)\<lparr>readSlotIndex := i, readClaimActive := True\<rparr>))"

definition clear_slot :: "'ch \<Rightarrow> 'ch OutboundSlot \<Rightarrow> 'ch OutboundSlot" where
  "clear_slot none slot = slot\<lparr>
     slotRecords := memcpy_at 0 (replicate (usedRecords (usage slot)) default_record) (slotRecords slot),
     slotRecipients := memcpy_at 0 (replicate (usedRecipients (usage slot)) none) (slotRecipients slot),
     usage := no_usage, firstServerTick := 0, lastServerTick := 0, replicationRecipientCount := 0, slotEpoch := 0,
     slotState := SlotEmpty\<rparr>"

definition Outbound_ReleaseRead ::
    "'ch \<Rightarrow> u64 \<Rightarrow> 'ch WorldOutboundDoubleBuffer \<Rightarrow>
     WorldOutboundDoubleBufferExchangeResult \<times> 'ch WorldOutboundDoubleBuffer" where
  "Outbound_ReleaseRead none epoch buf =
     (if epoch = 0 then (ExchangeInvalidArgument, buf)
      else if \<not> readClaimActive buf \<or> readSlotIndex buf \<ge> length (slots buf) then (ExchangeInvalidState, buf)
      else
        let slot = slots buf ! readSlotIndex buf in
        if slotState slot \<noteq> Reading \<or> slotEpoch slot \<noteq> epoch then (ExchangeInvalidState, buf)
        else (Exchanged, (update_slot (readSlotIndex buf) (clear_slot none) buf)
               \<lparr>readClaimActive := False, readSlotIndex := InvalidSlotIndex\<rparr>))"

definition ConfiguredSlotCount :: "'ch WorldOutboundDoubleBuffer \<Rightarrow> nat" where
  "ConfiguredSlotCount buf = length (slots buf)"

definition WritableUsage :: "'ch WorldOutboundDoubleBuffer \<Rightarrow> WorldOutboundBatchUsage" where
  "WritableUsage buf = usage (slots buf ! writeSlotIndex buf)"

definition FinishWrites :: "'ch WorldOutboundDoubleBuffer \<Rightarrow> 'ch WorldOutboundDoubleBuffer" where
  "FinishWrites buf = buf\<lparr>writesFinished := True\<rparr>"

definition Outbound_Close :: "'ch WorldOutboundDoubleBuffer \<Rightarrow> 'ch WorldOutboundDoubleBuffer" where
  "Outbound_Close buf = buf\<lparr>closed := True\<rparr>"

end
