(* ===== verification/WsOutboundLaws.thy ===== *)
theory WsOutboundLaws imports WsOutbound begin

text \<open>
  The guarantees of the outbound buffer over all interleavings of the coordinator and the publisher:
  the publisher takes exactly the sealed batches, each once and in the order of sealing, with exactly
  the messages that were appended, and nobody writes to a batch that is sealed or read.
\<close>

section \<open>The messages of a batch\<close>

type_synonym 'ch message = "u16 \<times> 'ch list \<times> byte list \<times> WorldOutboundRecordMetadata"

definition message_of :: "'ch list \<Rightarrow> byte list \<Rightarrow> WorldOutboundRecord \<Rightarrow> 'ch message" where
  "message_of recipients bytes r = (recordPacketType r,
     take (unat (recipientCount r)) (drop (unat (recipientOffset r)) recipients),
     take (unat (payloadSize r)) (drop (unat (payloadOffset r)) bytes), recordMetadata r)"

definition messages_of :: "'ch WorldOutboundReadBatch \<Rightarrow> 'ch message list" where
  "messages_of batch = map (message_of (batchRecipients batch) (batchPayloadBytes batch)) (batchRecords batch)"

text \<open>What a reader sees of a batch: its epoch, its ticks, its recipients' count and its messages.\<close>

type_synonym 'ch batch_view = "u64 \<times> u32 \<times> u32 \<times> u32 \<times> 'ch message list"

definition view_of :: "'ch WorldOutboundReadBatch \<Rightarrow> 'ch batch_view" where
  "view_of batch = (batchEpoch batch, batchFirstServerTick batch, batchLastServerTick batch,
     batchReplicationRecipientCount batch, messages_of batch)"

definition slot_messages :: "'ch OutboundSlot \<Rightarrow> 'ch message list" where
  "slot_messages s = messages_of (read_batch s)"

definition outbound_slot_ok :: "WorldOutboundBatchCapacity \<Rightarrow> 'ch OutboundSlot \<Rightarrow> bool" where
  "outbound_slot_ok cap s \<longleftrightarrow> length (slotRecords s) = recordCapacity cap \<and> length (slotRecipients s) = recipientCapacity cap \<and>
     length (slotPayloadBytes s) = payloadByteCapacity cap \<and> usedRecords (usage s) \<le> recordCapacity cap \<and>
     usedRecipients (usage s) \<le> recipientCapacity cap \<and> usedPayloadBytes (usage s) \<le> payloadByteCapacity cap \<and>
     (\<forall>r \<in> set (take (usedRecords (usage s)) (slotRecords s)).
        unat (recipientOffset r) + unat (recipientCount r) \<le> usedRecipients (usage s) \<and>
        unat (payloadOffset r) + unat (payloadSize r) \<le> usedPayloadBytes (usage s)) \<and>
     (usedRecords (usage s) = 0 \<longrightarrow> usage s = no_usage)"

lemma slot_okD:
  assumes "outbound_slot_ok cap s"
  shows "length (slotRecords s) = recordCapacity cap" "length (slotRecipients s) = recipientCapacity cap"
    and "length (slotPayloadBytes s) = payloadByteCapacity cap" "usedRecords (usage s) \<le> recordCapacity cap"
    and "usedRecipients (usage s) \<le> recipientCapacity cap" "usedPayloadBytes (usage s) \<le> payloadByteCapacity cap"
    and "r \<in> set (take (usedRecords (usage s)) (slotRecords s)) \<Longrightarrow>
      unat (recipientOffset r) + unat (recipientCount r) \<le> usedRecipients (usage s)"
    and "r \<in> set (take (usedRecords (usage s)) (slotRecords s)) \<Longrightarrow>
      unat (payloadOffset r) + unat (payloadSize r) \<le> usedPayloadBytes (usage s)"
    and "usedRecords (usage s) = 0 \<Longrightarrow> usage s = no_usage"
  using assms by (auto simp: outbound_slot_ok_def)

lemma slot_ok_construct: "outbound_slot_ok cap (OutboundSlot_construct none cap)"
  by (simp add: outbound_slot_ok_def OutboundSlot_construct_def no_usage_def)

lemma messages_construct: "usedRecords (usage s) = 0 \<Longrightarrow> slot_messages s = []"
  by (simp add: slot_messages_def messages_of_def read_batch_def)

lemma take_drop_prefix: "o' + n \<le> length xs \<Longrightarrow> take n (drop o' (xs @ ys)) = take n (drop o' xs)"
  by simp

lemma unat_small: "n \<le> 2 ^ 32 - 1 \<Longrightarrow> unat (word_of_nat n :: u32) = n"
  by (simp add: unat_of_nat take_bit_nat_eq_self)

text \<open>An append writes behind everything that is in use, and adds one message.\<close>

lemma append_message:
  assumes ok: "outbound_slot_ok cap s" and cap: "IsValidCapacity cap" and room: "\<not> lacks_room (length rs) (length bs) s"
    and p: "slotPayloadBytes s' = memcpy_at (usedPayloadBytes (usage s)) bs (slotPayloadBytes s)"
    and same: "usage s' = usage s" "slotRecords s' = slotRecords s" "slotRecipients s' = slotRecipients s"
  shows "outbound_slot_ok cap (append_record t rs (length bs) m s')"
    and "slot_messages (append_record t rs (length bs) m s') = slot_messages s @ [(t, rs, bs, m)]"
proof -
  note d = slot_okD [OF ok]
  let ?n = "usedRecords (usage s)" and ?a = "usedRecipients (usage s)" and ?b = "usedPayloadBytes (usage s)"
  have fit: "?n < length (slotRecords s)" "?a + length rs \<le> length (slotRecipients s)" "?b + length bs \<le> length (slotPayloadBytes s)"
    using room d(1-6) by (auto simp: lacks_room_def)
  have small: "unat (word_of_nat ?a :: u32) = ?a" "unat (word_of_nat (length rs) :: u32) = length rs"
      "unat (word_of_nat ?b :: u32) = ?b" "unat (word_of_nat (length bs) :: u32) = length bs"
    using cap fit d(1-6) by (auto intro!: unat_small simp: IsValidCapacity_def)
  define r where "r = \<lparr>recordPacketType = t, recipientOffset = word_of_nat ?a, recipientCount = word_of_nat (length rs),
    payloadOffset = word_of_nat ?b, payloadSize = word_of_nat (length bs), recordMetadata = m\<rparr>"
  define u where "u = append_record t rs (length bs) m s'"
  have u: "slotRecords u = (slotRecords s)[?n := r]" "slotRecipients u = memcpy_at ?a rs (slotRecipients s)"
      "slotPayloadBytes u = memcpy_at ?b bs (slotPayloadBytes s)"
      "usage u = \<lparr>usedRecords = ?n + 1, usedRecipients = ?a + length rs, usedPayloadBytes = ?b + length bs\<rparr>"
    by (simp_all add: u_def append_record_def p same r_def)
  have recs: "take (?n + 1) (slotRecords u) = take ?n (slotRecords s) @ [r]"
    using fit(1) by (simp add: u take_Suc_conv_app_nth)
  show "outbound_slot_ok cap (append_record t rs (length bs) m s')"
    unfolding u_def [symmetric] outbound_slot_ok_def
  proof (intro conjI ballI)
    fix x assume "x \<in> set (take (usedRecords (usage u)) (slotRecords u))"
    then have "x \<in> set (take ?n (slotRecords s)) \<or> x = r" using recs by (auto simp: u(4))
    then show "unat (recipientOffset x) + unat (recipientCount x) \<le> usedRecipients (usage u)"
      "unat (payloadOffset x) + unat (payloadSize x) \<le> usedPayloadBytes (usage u)"
      using d(7,8) [of x] small by (auto simp: u(4) r_def)
  qed (use fit d(1-6) in \<open>auto simp: u\<close>)
  have rcp: "take (?a + length rs) (slotRecipients u) = take ?a (slotRecipients s) @ rs"
      "take (?b + length bs) (slotPayloadBytes u) = take ?b (slotPayloadBytes s) @ bs"
    using memcpy_at_append [OF fit(2)] memcpy_at_append [OF fit(3)] by (simp_all add: u)
  have old: "message_of (take ?a (slotRecipients s) @ rs) (take ?b (slotPayloadBytes s) @ bs) x =
      message_of (take ?a (slotRecipients s)) (take ?b (slotPayloadBytes s)) x" if "x \<in> set (take ?n (slotRecords s))" for x
    using d(7,8) [OF that] d(2,3,5,6) by (simp add: message_of_def)
  have new: "message_of (take ?a (slotRecipients s) @ rs) (take ?b (slotPayloadBytes s) @ bs) r = (t, rs, bs, m)"
    using small fit by (simp add: message_of_def r_def)
  show "slot_messages (append_record t rs (length bs) m s') = slot_messages s @ [(t, rs, bs, m)]"
    unfolding u_def [symmetric] using recs rcp old new
    by (simp add: slot_messages_def messages_of_def read_batch_def u(4))
qed

text \<open>Bytes behind those in use do not matter.\<close>

lemma spoiled_bytes:
  assumes ok: "outbound_slot_ok cap s" and b: "usedPayloadBytes (usage s) + length bs \<le> length (slotPayloadBytes s)"
  defines "s' \<equiv> s\<lparr>slotPayloadBytes := memcpy_at (usedPayloadBytes (usage s)) bs (slotPayloadBytes s)\<rparr>"
  shows "outbound_slot_ok cap s'" "slot_messages s' = slot_messages s"
proof -
  show "outbound_slot_ok cap s'" using ok b by (simp add: outbound_slot_ok_def s'_def)
  have "take (usedPayloadBytes (usage s)) (slotPayloadBytes s') = take (usedPayloadBytes (usage s)) (slotPayloadBytes s)"
    using b by (simp add: s'_def memcpy_at_before)
  then show "slot_messages s' = slot_messages s" by (simp add: slot_messages_def messages_of_def read_batch_def s'_def)
qed

section \<open>The buffer at work\<close>

text \<open>
  The coordinator's and the publisher's calls in any order. \<open>draft\<close> is the list of messages appended to
  the batch that is being written, \<open>sealed\<close> and \<open>acquired\<close> are the batches that were sealed and taken.
\<close>

record 'ch outbound_world =
  outbound :: "'ch WorldOutboundDoubleBuffer"
  draft :: "'ch message list"
  sealed :: "'ch batch_view list"
  acquired :: "'ch batch_view list"

definition writable_span :: "nat \<Rightarrow> 'ch WorldOutboundDoubleBuffer \<Rightarrow> byte list" where
  "writable_span n buf = (let s = slots buf ! writeSlotIndex buf in take n (drop (usedPayloadBytes (usage s)) (slotPayloadBytes s)))"

text \<open>An encoder cannot change the length of the span it fills.\<close>

definition span_encoder :: "(byte list \<Rightarrow> bool \<times> byte list) \<Rightarrow> bool" where
  "span_encoder f \<longleftrightarrow> (\<forall>span. length (snd (f span)) = length span)"

definition sealed_view :: "u64 \<Rightarrow> 'ch outbound_world \<Rightarrow> 'ch batch_view" where
  "sealed_view epoch w = (let s = slots (outbound w) ! writeSlotIndex (outbound w) in
     (epoch, firstServerTick s, lastServerTick s, replicationRecipientCount s, draft w))"

inductive outbound_step :: "'ch \<Rightarrow> 'ch outbound_world \<Rightarrow> 'ch outbound_world \<Rightarrow> bool" for none where
  prepare: "WaitPrepareWrite t (outbound w) = (r, buf) \<Longrightarrow> outbound_step none w (w\<lparr>outbound := buf\<rparr>)"
| begin_batch: "BeginWriteBatch epoch a b (outbound w) = (r, buf) \<Longrightarrow> outbound_step none w (w\<lparr>outbound := buf\<rparr>)"
| append: "TryAppend t rs bs (outbound w) = (r, buf) \<Longrightarrow>
    outbound_step none w (w\<lparr>outbound := buf,
      draft := (if r = Appended then draft w @ [(t, rs, bs, default_metadata)] else draft w)\<rparr>)"
| append_encoded: "span_encoder f \<Longrightarrow> TryAppendEncoded t rs n (Some f) m (outbound w) = (r, buf) \<Longrightarrow>
    outbound_step none w (w\<lparr>outbound := buf,
      draft := (if r = Appended then draft w @ [(t, rs, snd (f (writable_span n (outbound w))), m)] else draft w)\<rparr>)"
| no_encoder: "TryAppendEncoded t rs n None m (outbound w) = (r, buf) \<Longrightarrow> outbound_step none w (w\<lparr>outbound := buf\<rparr>)"
| reserve: "Outbound_ReserveReplicationRecipients n out (outbound w) = (r, buf) \<Longrightarrow> outbound_step none w (w\<lparr>outbound := buf\<rparr>)"
| seal: "SealWrite epoch (outbound w) = (r, buf) \<Longrightarrow>
    outbound_step none w (if r = Exchanged then w\<lparr>outbound := buf, draft := [], sealed := sealed w @ [sealed_view epoch w]\<rparr>
      else w\<lparr>outbound := buf\<rparr>)"
| acquire: "Outbound_WaitAcquireRead t out (outbound w) = ((r, batch), buf) \<Longrightarrow>
    outbound_step none w (w\<lparr>outbound := buf,
      acquired := (case batch of None \<Rightarrow> acquired w | Some b \<Rightarrow> acquired w @ [view_of b])\<rparr>)"
| release: "Outbound_ReleaseRead none epoch (outbound w) = (r, buf) \<Longrightarrow> outbound_step none w (w\<lparr>outbound := buf\<rparr>)"
| finish: "outbound_step none w (w\<lparr>outbound := FinishWrites (outbound w)\<rparr>)"
| close: "outbound_step none w (w\<lparr>outbound := Outbound_Close (outbound w)\<rparr>)"

inductive outbound_reachable :: "'ch \<Rightarrow> WorldOutboundBatchCapacity \<Rightarrow> nat \<Rightarrow> 'ch outbound_world \<Rightarrow> bool" for none cap n where
  start: "Outbound_Create True none cap n = Inr buf \<Longrightarrow>
    outbound_reachable none cap n \<lparr>outbound = buf, draft = [], sealed = [], acquired = []\<rparr>"
| advance: "outbound_reachable none cap n w \<Longrightarrow> outbound_step none w w' \<Longrightarrow> outbound_reachable none cap n w'"

section \<open>The invariant\<close>

definition outbound_view :: "'ch OutboundSlot \<Rightarrow> 'ch batch_view" where
  "outbound_view s = (slotEpoch s, firstServerTick s, lastServerTick s, replicationRecipientCount s, slot_messages s)"

lemma view_read_batch [simp]: "view_of (read_batch s) = outbound_view s"
  by (simp add: view_of_def outbound_view_def read_batch_def slot_messages_def)

definition ready :: "'ch WorldOutboundDoubleBuffer \<Rightarrow> nat list" where
  "ready buf = ring_list (readySlotIndices buf) (readyHeadIndex buf) (readySlotCount buf)"

definition states_ok :: "WorldOutboundBatchCapacity \<Rightarrow> 'ch WorldOutboundDoubleBuffer \<Rightarrow> bool" where
  "states_ok cap buf \<longleftrightarrow> (\<forall>i < length (slots buf). outbound_slot_ok cap (slots buf ! i) \<and>
     (slotState (slots buf ! i) = Writing \<longleftrightarrow> writeSlotActive buf \<and> i = writeSlotIndex buf) \<and>
     (slotState (slots buf ! i) = Sealed \<longleftrightarrow> i \<in> set (ready buf)) \<and>
     (slotState (slots buf ! i) = Reading \<longleftrightarrow> readClaimActive buf \<and> i = readSlotIndex buf) \<and>
     (slotState (slots buf ! i) = Sealed \<longrightarrow> slotEpoch (slots buf ! i) \<noteq> 0) \<and>
     (slotState (slots buf ! i) = SlotEmpty \<longrightarrow> usage (slots buf ! i) = no_usage \<and> slotEpoch (slots buf ! i) = 0))"

definition outbound_indices_ok :: "'ch WorldOutboundDoubleBuffer \<Rightarrow> bool" where
  "outbound_indices_ok buf \<longleftrightarrow> (length (slots buf) = 2 \<or> length (slots buf) = 3) \<and> length (readySlotIndices buf) = 3 \<and>
     readyHeadIndex buf < 3 \<and> readySlotCount buf \<le> 3 \<and> writeSlotIndex buf < length (slots buf) \<and>
     (readClaimActive buf \<longrightarrow> readSlotIndex buf < length (slots buf)) \<and>
     distinct (ready buf) \<and> set (ready buf) \<subseteq> {..<length (slots buf)}"

definition epochs_ok :: "'ch batch_view list \<Rightarrow> u64 \<Rightarrow> bool" where
  "epochs_ok views highest \<longleftrightarrow> sorted_wrt (<) (map fst views) \<and> (\<forall>e \<in> set (map fst views). 0 < e \<and> e \<le> highest)"

definition outbound_ok :: "WorldOutboundBatchCapacity \<Rightarrow> 'ch outbound_world \<Rightarrow> bool" where
  "outbound_ok cap w \<longleftrightarrow> IsValidCapacity cap \<and> outbound_indices_ok (outbound w) \<and> states_ok cap (outbound w) \<and>
     (if writeSlotActive (outbound w) then draft w = slot_messages (slots (outbound w) ! writeSlotIndex (outbound w)) else draft w = []) \<and>
     sealed w = acquired w @ map (\<lambda>i. outbound_view (slots (outbound w) ! i)) (ready (outbound w)) \<and>
     (readClaimActive (outbound w) \<longrightarrow> (\<exists>earlier. acquired w = earlier @ [outbound_view (slots (outbound w) ! readSlotIndex (outbound w))])) \<and>
     epochs_ok (sealed w) (lastSealedEpoch (outbound w))"

lemma outbound_okD:
  assumes "outbound_ok cap w"
  shows "IsValidCapacity cap" "outbound_indices_ok (outbound w)" "states_ok cap (outbound w)"
    and "writeSlotActive (outbound w) \<Longrightarrow> draft w = slot_messages (slots (outbound w) ! writeSlotIndex (outbound w))"
    and "\<not> writeSlotActive (outbound w) \<Longrightarrow> draft w = []"
    and "sealed w = acquired w @ map (\<lambda>i. outbound_view (slots (outbound w) ! i)) (ready (outbound w))"
    and "readClaimActive (outbound w) \<Longrightarrow> \<exists>earlier. acquired w = earlier @ [outbound_view (slots (outbound w) ! readSlotIndex (outbound w))]"
    and "epochs_ok (sealed w) (lastSealedEpoch (outbound w))"
  using assms by (auto simp: outbound_ok_def split: if_splits)

lemma outbound_okI:
  assumes "IsValidCapacity cap" "outbound_indices_ok buf" "states_ok cap buf"
    and "writeSlotActive buf \<Longrightarrow> messages = slot_messages (slots buf ! writeSlotIndex buf)"
    and "\<not> writeSlotActive buf \<Longrightarrow> messages = []"
    and "S = A @ map (\<lambda>i. outbound_view (slots buf ! i)) (ready buf)"
    and "readClaimActive buf \<Longrightarrow> \<exists>earlier. A = earlier @ [outbound_view (slots buf ! readSlotIndex buf)]"
    and "epochs_ok S (lastSealedEpoch buf)"
  shows "outbound_ok cap \<lparr>outbound = buf, draft = messages, sealed = S, acquired = A\<rparr>"
  using assms by (simp add: outbound_ok_def)

lemma states_okD:
  assumes "states_ok cap buf" "i < length (slots buf)"
  shows "outbound_slot_ok cap (slots buf ! i)" "slotState (slots buf ! i) = Writing \<longleftrightarrow> writeSlotActive buf \<and> i = writeSlotIndex buf"
    and "slotState (slots buf ! i) = Sealed \<longleftrightarrow> i \<in> set (ready buf)"
    and "slotState (slots buf ! i) = Reading \<longleftrightarrow> readClaimActive buf \<and> i = readSlotIndex buf"
    and "slotState (slots buf ! i) = Sealed \<Longrightarrow> slotEpoch (slots buf ! i) \<noteq> 0"
    and "slotState (slots buf ! i) = SlotEmpty \<Longrightarrow> usage (slots buf ! i) = no_usage"
  using assms unfolding states_ok_def by blast+

lemma indices_okD:
  assumes "outbound_indices_ok buf"
  shows "length (slots buf) = 2 \<or> length (slots buf) = 3" "length (readySlotIndices buf) = 3" "readyHeadIndex buf < 3"
    and "readySlotCount buf \<le> 3" "writeSlotIndex buf < length (slots buf)" "distinct (ready buf)"
    and "readClaimActive buf \<Longrightarrow> readSlotIndex buf < length (slots buf)" "i \<in> set (ready buf) \<Longrightarrow> i < length (slots buf)"
  using assms unfolding outbound_indices_ok_def by blast+

lemma slots_update_slot [simp]:
  "slots (update_slot i f buf) = (slots buf)[i := f (slots buf ! i)]" "writeSlotIndex (update_slot i f buf) = writeSlotIndex buf"
  "readSlotIndex (update_slot i f buf) = readSlotIndex buf" "writeSlotActive (update_slot i f buf) = writeSlotActive buf"
  "readClaimActive (update_slot i f buf) = readClaimActive buf" "lastSealedEpoch (update_slot i f buf) = lastSealedEpoch buf"
  "ready (update_slot i f buf) = ready buf" "readySlotIndices (update_slot i f buf) = readySlotIndices buf"
  "readyHeadIndex (update_slot i f buf) = readyHeadIndex buf" "readySlotCount (update_slot i f buf) = readySlotCount buf"
  by (simp_all add: update_slot_def ready_def)

lemma construct_ok:
  assumes "Outbound_Create True none cap n = Inr buf"
  shows "outbound_ok cap \<lparr>outbound = buf, draft = [], sealed = [], acquired = []\<rparr>"
proof -
  have v: "IsValidCapacity cap" "n = 2 \<or> n = 3" and b: "buf = Outbound_construct none cap n"
    using assms by (auto simp: Outbound_Create_def IsValidSlotCount_def split: if_splits)
  have s: "slots buf = (replicate n (OutboundSlot_construct none cap))[0 := (OutboundSlot_construct none cap)\<lparr>slotState := Writing\<rparr>]"
    using v(2) by (auto simp: b Outbound_construct_def)
  have r: "ready buf = []" "writeSlotIndex buf = 0" "writeSlotActive buf" "\<not> readClaimActive buf" "length (readySlotIndices buf) = 3"
      "readyHeadIndex buf = 0" "readySlotCount buf = 0"
    by (simp_all add: b Outbound_construct_def MaximumSlotCount_def ready_def)
  have n: "length (slots buf) = n" "slots buf ! 0 = (OutboundSlot_construct none cap)\<lparr>slotState := Writing\<rparr>" using v(2) s by auto
  have "outbound_slot_ok cap (OutboundSlot_construct none cap)" by (rule slot_ok_construct)
  moreover from this have "outbound_slot_ok cap ((OutboundSlot_construct none cap)\<lparr>slotState := Writing\<rparr>)" by (simp add: outbound_slot_ok_def)
  ultimately have "states_ok cap buf"
    unfolding states_ok_def n(1) using v(2) r
    by (auto simp: s nth_list_update OutboundSlot_construct_def)
  moreover have "slot_messages (slots buf ! 0) = []"
    by (rule messages_construct) (simp add: n OutboundSlot_construct_def no_usage_def)
  ultimately show ?thesis using v r n by (auto simp: outbound_ok_def outbound_indices_ok_def epochs_ok_def)
qed

section \<open>The operations of the writer\<close>

text \<open>The slot that is written, while it is written.\<close>

lemma writing_slot:
  assumes ok: "outbound_ok cap w" and s: "slotState (slots (outbound w) ! writeSlotIndex (outbound w)) = Writing"
  shows "writeSlotActive (outbound w)" "outbound_slot_ok cap (slots (outbound w) ! writeSlotIndex (outbound w))"
    "draft w = slot_messages (slots (outbound w) ! writeSlotIndex (outbound w))"
    "writeSlotIndex (outbound w) \<notin> set (ready (outbound w))"
    "readClaimActive (outbound w) \<Longrightarrow> readSlotIndex (outbound w) \<noteq> writeSlotIndex (outbound w)"
proof -
  note d = outbound_okD [OF ok] and x = states_okD [OF outbound_okD(3) [OF ok] indices_okD(5) [OF outbound_okD(2) [OF ok]]]
  show a: "writeSlotActive (outbound w)" "outbound_slot_ok cap (slots (outbound w) ! writeSlotIndex (outbound w))" using x s by auto
  show "draft w = slot_messages (slots (outbound w) ! writeSlotIndex (outbound w))" by (rule d(4) [OF a(1)])
  show "writeSlotIndex (outbound w) \<notin> set (ready (outbound w))" using x(3) s by simp
  show "readClaimActive (outbound w) \<Longrightarrow> readSlotIndex (outbound w) \<noteq> writeSlotIndex (outbound w)" using x(4) s by auto
qed

lemma update_other:
  "i \<notin> set (ready buf) \<Longrightarrow> map (\<lambda>j. outbound_view ((slots buf)[i := s] ! j)) (ready buf) = map (\<lambda>j. outbound_view (slots buf ! j)) (ready buf)"
  by (intro map_cong refl) (metis nth_list_update_neq)

text \<open>Work on the slot that is written changes only the draft.\<close>

lemma ok_write:
  assumes ok: "outbound_ok cap w" and s: "slotState (slots (outbound w) ! writeSlotIndex (outbound w)) = Writing"
    and f: "outbound_slot_ok cap (f (slots (outbound w) ! writeSlotIndex (outbound w)))"
      "slotState (f (slots (outbound w) ! writeSlotIndex (outbound w))) = Writing"
    and m: "slot_messages (f (slots (outbound w) ! writeSlotIndex (outbound w))) = messages"
  shows "outbound_ok cap (w\<lparr>outbound := update_slot (writeSlotIndex (outbound w)) f (outbound w), draft := messages\<rparr>)"
proof -
  let ?b = "outbound w" and ?i = "writeSlotIndex (outbound w)"
  note d = outbound_okD [OF ok] and x = indices_okD [OF outbound_okD(2) [OF ok]] and ws = writing_slot [OF ok s]
  have "states_ok cap (update_slot ?i f ?b)"
    unfolding states_ok_def
  proof (intro allI impI)
    fix j assume "j < length (slots (update_slot ?i f ?b))"
    then have j: "j < length (slots ?b)" by simp
    show "outbound_slot_ok cap (slots (update_slot ?i f ?b) ! j) \<and>
      (slotState (slots (update_slot ?i f ?b) ! j) = Writing \<longleftrightarrow> writeSlotActive (update_slot ?i f ?b) \<and> j = writeSlotIndex (update_slot ?i f ?b)) \<and>
      (slotState (slots (update_slot ?i f ?b) ! j) = Sealed \<longleftrightarrow> j \<in> set (ready (update_slot ?i f ?b))) \<and>
      (slotState (slots (update_slot ?i f ?b) ! j) = Reading \<longleftrightarrow> readClaimActive (update_slot ?i f ?b) \<and> j = readSlotIndex (update_slot ?i f ?b)) \<and>
      (slotState (slots (update_slot ?i f ?b) ! j) = Sealed \<longrightarrow> slotEpoch (slots (update_slot ?i f ?b) ! j) \<noteq> 0) \<and>
      (slotState (slots (update_slot ?i f ?b) ! j) = SlotEmpty \<longrightarrow> usage (slots (update_slot ?i f ?b) ! j) = no_usage \<and>
         slotEpoch (slots (update_slot ?i f ?b) ! j) = 0)"
      using j d(3) ws f unfolding states_ok_def by (cases "j = ?i") auto
  qed
  moreover have "outbound_indices_ok (update_slot ?i f ?b)" using d(2) by (simp add: outbound_indices_ok_def)
  moreover have "sealed w = acquired w @ map (\<lambda>j. outbound_view (slots (update_slot ?i f ?b) ! j)) (ready (update_slot ?i f ?b))"
    using d(6) update_other [OF ws(4)] by simp
  moreover have "readClaimActive ?b \<Longrightarrow> slots (update_slot ?i f ?b) ! readSlotIndex ?b = slots ?b ! readSlotIndex ?b"
    using ws(5) by simp
  ultimately show ?thesis using d(1,7,8) x(5) ws(1) m unfolding outbound_ok_def by auto
qed

text \<open>A failure is recorded, and nothing else.\<close>

lemma record_failure:
  "RecordAppendFailure op result t tick n k m buf = (r, buf') \<Longrightarrow> r = result \<and> (\<exists>f. buf' = buf\<lparr>lastAppendFailure := f\<rparr>)"
  by (auto simp: RecordAppendFailure_def Let_def split: if_splits intro: exI [of _ "lastAppendFailure buf"])

lemma same_ok:
  assumes "outbound_ok cap w"
    and "slots buf = slots (outbound w)" "readySlotIndices buf = readySlotIndices (outbound w)"
      "readyHeadIndex buf = readyHeadIndex (outbound w)" "readySlotCount buf = readySlotCount (outbound w)"
      "writeSlotIndex buf = writeSlotIndex (outbound w)" "readSlotIndex buf = readSlotIndex (outbound w)"
      "writeSlotActive buf = writeSlotActive (outbound w)" "readClaimActive buf = readClaimActive (outbound w)"
      "lastSealedEpoch buf = lastSealedEpoch (outbound w)"
  shows "outbound_ok cap (w\<lparr>outbound := buf\<rparr>)"
proof -
  have "ready buf = ready (outbound w)" using assms by (simp add: ready_def)
  moreover from this have "outbound_indices_ok buf" "states_ok cap buf"
    using outbound_okD(2,3) [OF assms(1)] assms(2-) unfolding outbound_indices_ok_def states_ok_def by simp_all
  ultimately have "outbound_ok cap \<lparr>outbound = buf, draft = draft w, sealed = sealed w, acquired = acquired w\<rparr>"
    using outbound_okD [OF assms(1)] assms(2-) by (intro outbound_okI) simp_all
  then show ?thesis by (cases w) simp
qed

lemma ok_append:
  assumes ok: "outbound_ok cap w" and a: "TryAppend t rs bs (outbound w) = (r, buf)"
  shows "outbound_ok cap (w\<lparr>outbound := buf,
    draft := (if r = Appended then draft w @ [(t, rs, bs, default_metadata)] else draft w)\<rparr>)"
proof -
  let ?s = "slots (outbound w) ! writeSlotIndex (outbound w)"
  note a = a [unfolded TryAppend_def Let_def]
  show ?thesis
  proof (cases "r = Appended")
    case True
    then have s: "slotState ?s = Writing" "\<not> lacks_room (length rs) (length bs) ?s"
      and b: "buf = update_slot (writeSlotIndex (outbound w)) (\<lambda>s. append_record t rs (length bs) default_metadata
             (s\<lparr>slotPayloadBytes := memcpy_at (usedPayloadBytes (usage s)) bs (slotPayloadBytes s)\<rparr>)) (outbound w)"
      using a by (auto split: if_splits dest!: record_failure)
    note ws = writing_slot [OF ok s(1)]
    have am: "outbound_slot_ok cap (append_record t rs (length bs) default_metadata
        (?s\<lparr>slotPayloadBytes := memcpy_at (usedPayloadBytes (usage ?s)) bs (slotPayloadBytes ?s)\<rparr>))"
      "slot_messages (append_record t rs (length bs) default_metadata
        (?s\<lparr>slotPayloadBytes := memcpy_at (usedPayloadBytes (usage ?s)) bs (slotPayloadBytes ?s)\<rparr>)) = draft w @ [(t, rs, bs, default_metadata)]"
      using append_message [OF ws(2) outbound_okD(1) [OF ok] s(2),
        of "?s\<lparr>slotPayloadBytes := memcpy_at (usedPayloadBytes (usage ?s)) bs (slotPayloadBytes ?s)\<rparr>"] ws(3) by simp_all
    let ?f = "\<lambda>s. append_record t rs (length bs) default_metadata
      (s\<lparr>slotPayloadBytes := memcpy_at (usedPayloadBytes (usage s)) bs (slotPayloadBytes s)\<rparr>)"
    have "slotState (?f ?s) = Writing" using s(1) by (simp add: append_record_def)
    from ok_write [where f = ?f, OF ok s(1) am(1) this am(2)] show ?thesis unfolding b using True by simp
  next
    case False
    then obtain f where "buf = (outbound w)\<lparr>lastAppendFailure := f\<rparr>"
      using a by (auto split: if_splits dest!: record_failure)
    then show ?thesis using False same_ok [OF ok, of buf] by simp
  qed
qed

lemma ok_append_encoded:
  assumes ok: "outbound_ok cap w" and f: "span_encoder f" and a: "TryAppendEncoded t rs n (Some f) m (outbound w) = (r, buf)"
  shows "outbound_ok cap (w\<lparr>outbound := buf,
    draft := (if r = Appended then draft w @ [(t, rs, snd (f (writable_span n (outbound w))), m)] else draft w)\<rparr>)"
proof -
  let ?s = "slots (outbound w) ! writeSlotIndex (outbound w)" and ?span = "writable_span n (outbound w)"
  define bs where "bs = snd (f ?span)"
  let ?spoil = "\<lambda>s. s\<lparr>slotPayloadBytes := memcpy_at (usedPayloadBytes (usage s)) bs (slotPayloadBytes s)\<rparr>"
  define spoiled where "spoiled = update_slot (writeSlotIndex (outbound w)) ?spoil (outbound w)"
  have unf: "TryAppendEncoded t rs n (Some f) m (outbound w) =
    (let fail = (\<lambda>result. RecordAppendFailure AppendEncoded result t 0 (length rs) n m) in
      if closed (outbound w) \<or> writesFinished (outbound w) then fail InvalidState (outbound w)
      else if t = 0 \<or> rs = [] then fail InvalidArgument (outbound w)
      else if slotState ?s \<noteq> Writing then fail InvalidState (outbound w)
      else if recordKind m \<noteq> Generic \<and> (entityCount m = 0 \<or> replicationRecipientIndex m \<ge> replicationRecipientCount ?s)
      then fail InvalidArgument (outbound w)
      else if lacks_room (length rs) n ?s then fail CapacityExceeded (outbound w)
      else if \<not> fst (f ?span) then fail EncodingFailed spoiled
      else (Appended, update_slot (writeSlotIndex (outbound w)) (append_record t rs n m) spoiled))"
    by (simp add: TryAppendEncoded_def Let_def writable_span_def case_prod_beta spoiled_def bs_def)
  note a = a [unfolded unf Let_def]
  have n: "length bs = n" if "\<not> lacks_room (length rs) n ?s" "outbound_slot_ok cap ?s"
    using f that slot_okD(3,6) [OF that(2)]
    by (auto simp: span_encoder_def bs_def writable_span_def Let_def lacks_room_def)
  show ?thesis
  proof (cases "slotState ?s = Writing \<and> \<not> lacks_room (length rs) n ?s")
    case False
    then have "\<exists>g. buf = (outbound w)\<lparr>lastAppendFailure := g\<rparr>" "r \<noteq> Appended"
      using a by (auto split: if_splits dest!: record_failure)
    then show ?thesis using same_ok [OF ok, of buf] by auto
  next
    case True
    note ws = writing_slot [OF ok conjunct1 [OF True]]
    have len: "length bs = n" using n True ws(2) by blast
    have room: "usedPayloadBytes (usage ?s) + length bs \<le> length (slotPayloadBytes ?s)"
      using True len slot_okD(3,6) [OF ws(2)] by (auto simp: lacks_room_def)
    note sp = spoiled_bytes [OF ws(2) room]
    have sp': "outbound_ok cap (w\<lparr>outbound := spoiled\<rparr>)"
    proof -
      have "slotState (?spoil ?s) = Writing" using True by simp
      from ok_write [where f = ?spoil, OF ok conjunct1 [OF True] sp(1) this sp(2)] show ?thesis
        using ws(3) by (cases w) (simp add: spoiled_def)
    qed
    show ?thesis
    proof (cases "r = Appended")
      case False
      then have "(\<exists>g. buf = (outbound w)\<lparr>lastAppendFailure := g\<rparr>) \<or> (\<exists>g. buf = spoiled\<lparr>lastAppendFailure := g\<rparr>)"
        using a by (auto split: if_splits dest!: record_failure)
      then show ?thesis using False same_ok [OF ok, of buf] same_ok [OF sp', of buf] by auto
    next
      case r: True
      then have b: "buf = update_slot (writeSlotIndex (outbound w)) (append_record t rs n m) spoiled"
        using a by (auto split: if_splits dest!: record_failure)
      have x: "writeSlotIndex (outbound w) < length (slots (outbound w))" by (rule indices_okD(5) [OF outbound_okD(2) [OF ok]])
      have s': "slots spoiled ! writeSlotIndex spoiled = ?spoil ?s" using x by (simp add: spoiled_def)
      have am: "outbound_slot_ok cap (append_record t rs n m (?spoil ?s))"
          "slot_messages (append_record t rs n m (?spoil ?s)) = draft w @ [(t, rs, bs, m)]"
        using append_message [OF ws(2) outbound_okD(1) [OF ok], of rs bs "?spoil ?s" t m] True ws(3) len by simp_all
      have "outbound_ok cap ((w\<lparr>outbound := spoiled\<rparr>)\<lparr>outbound := update_slot (writeSlotIndex spoiled) (append_record t rs n m) spoiled,
          draft := draft w @ [(t, rs, bs, m)]\<rparr>)"
        using ok_write [OF sp', where f = "append_record t rs n m" and messages = "draft w @ [(t, rs, bs, m)]"] s' am True
        by (simp add: append_record_def)
      then show ?thesis using r b by (simp add: bs_def spoiled_def)
    qed
  qed
qed

lemma ok_no_encoder:
  assumes ok: "outbound_ok cap w" and a: "TryAppendEncoded t rs n None m (outbound w) = (r, buf)"
  shows "outbound_ok cap (w\<lparr>outbound := buf\<rparr>)"
proof -
  have "\<exists>g. buf = (outbound w)\<lparr>lastAppendFailure := g\<rparr>"
    using a by (auto simp: TryAppendEncoded_def Let_def split: if_splits dest!: record_failure)
  then show ?thesis using same_ok [OF ok, of buf] by auto
qed

lemma ok_reserve:
  assumes ok: "outbound_ok cap w" and a: "Outbound_ReserveReplicationRecipients n out (outbound w) = (r, buf)"
  shows "outbound_ok cap (w\<lparr>outbound := buf\<rparr>)"
proof -
  let ?s = "slots (outbound w) ! writeSlotIndex (outbound w)"
  let ?f = "\<lambda>s :: 'a OutboundSlot. s\<lparr>replicationRecipientCount := replicationRecipientCount s + n\<rparr>"
  have "(\<exists>g. buf = (outbound w)\<lparr>lastAppendFailure := g\<rparr>) \<or>
      slotState ?s = Writing \<and> buf = update_slot (writeSlotIndex (outbound w)) ?f (outbound w)"
    using a by (auto simp: Outbound_ReserveReplicationRecipients_def Let_def split: if_splits prod.splits dest!: record_failure)
  then show ?thesis
  proof
    assume "\<exists>g. buf = (outbound w)\<lparr>lastAppendFailure := g\<rparr>"
    then show ?thesis using same_ok [OF ok, of buf] by auto
  next
    assume b: "slotState ?s = Writing \<and> buf = update_slot (writeSlotIndex (outbound w)) ?f (outbound w)"
    note ws = writing_slot [OF ok conjunct1 [OF b]]
    have "outbound_slot_ok cap (?f ?s)" using ws(2) by (simp add: outbound_slot_ok_def)
    moreover have "slot_messages (?f ?s) = draft w" using ws(3) by (simp add: slot_messages_def messages_of_def read_batch_def)
    ultimately have "outbound_ok cap (w\<lparr>outbound := update_slot (writeSlotIndex (outbound w)) ?f (outbound w), draft := draft w\<rparr>)"
      by (intro ok_write [OF ok conjunct1 [OF b]]) (use b in auto)
    then show ?thesis using b by (cases w) simp
  qed
qed

text \<open>The search for an empty slot.\<close>

lemma find_empty_from_found:
  "find_empty_from k ss = i \<Longrightarrow> i = InvalidSlotIndex \<or> k \<le> i \<and> i < k + length ss \<and> slotState (ss ! (i - k)) = SlotEmpty"
proof (induction ss arbitrary: k)
  case (Cons s ss)
  show ?case
  proof (cases "slotState s = SlotEmpty")
    case False
    then have "i = InvalidSlotIndex \<or> Suc k \<le> i \<and> i < Suc k + length ss \<and> slotState (ss ! (i - Suc k)) = SlotEmpty"
      using Cons.IH [of "Suc k"] Cons.prems by simp
    moreover have "(s # ss) ! (i - k) = ss ! (i - Suc k)" if "Suc k \<le> i" using that by (simp add: nth_Cons')
    ultimately show ?thesis by auto
  qed (use Cons.prems in auto)
qed simp

lemma find_empty_found:
  "FindEmptySlotIndexLocked buf = i \<Longrightarrow> i \<noteq> InvalidSlotIndex \<Longrightarrow> i < length (slots buf) \<and> slotState (slots buf ! i) = SlotEmpty"
  using find_empty_from_found [of 0 "slots buf" i] by (auto simp: FindEmptySlotIndexLocked_def)

lemma find_empty_from_none:
  "k + length ss \<le> InvalidSlotIndex \<Longrightarrow> find_empty_from k ss = InvalidSlotIndex \<Longrightarrow> j < length ss \<Longrightarrow> slotState (ss ! j) \<noteq> SlotEmpty"
proof (induction ss arbitrary: k j)
  case (Cons s ss)
  have "slotState s \<noteq> SlotEmpty" using Cons.prems(1,2) by (auto split: if_splits)
  then show ?case using Cons.prems Cons.IH [of "Suc k"] by (cases j) auto
qed simp

lemma ok_start_writing:
  assumes ok: "outbound_ok cap w" and i: "i < length (slots (outbound w))" "slotState (slots (outbound w) ! i) = SlotEmpty"
    and n: "\<not> writeSlotActive (outbound w)"
  shows "outbound_ok cap (w\<lparr>outbound := start_writing i (outbound w)\<rparr>)"
proof -
  let ?b = "outbound w" and ?b' = "start_writing i (outbound w)"
  note d = outbound_okD [OF ok] and x = states_okD [OF outbound_okD(3) [OF ok] i(1)]
  have sl: "slots ?b' = (slots ?b)[i := (slots ?b ! i)\<lparr>slotState := Writing\<rparr>]" and
    fr: "writeSlotIndex ?b' = i" "writeSlotActive ?b'" "readSlotIndex ?b' = readSlotIndex ?b"
      "readClaimActive ?b' = readClaimActive ?b" "lastSealedEpoch ?b' = lastSealedEpoch ?b" "ready ?b' = ready ?b"
      "readySlotIndices ?b' = readySlotIndices ?b" "readyHeadIndex ?b' = readyHeadIndex ?b" "readySlotCount ?b' = readySlotCount ?b"
    by (simp_all add: start_writing_def update_slot_def ready_def)
  have out: "i \<notin> set (ready ?b)" "readClaimActive ?b \<Longrightarrow> readSlotIndex ?b \<noteq> i" using x i(2) by auto
  have s': "outbound_slot_ok cap ((slots ?b ! i)\<lparr>slotState := Writing\<rparr>)" using x(1) by (simp add: outbound_slot_ok_def)
  have "outbound_indices_ok ?b'" using d(2) i(1) unfolding outbound_indices_ok_def by (simp add: sl fr)
  moreover have "states_ok cap ?b'"
    unfolding states_ok_def
  proof (intro allI impI)
    fix j assume "j < length (slots ?b')"
    then have j: "j < length (slots ?b)" by (simp add: sl)
    show "outbound_slot_ok cap (slots ?b' ! j) \<and> (slotState (slots ?b' ! j) = Writing \<longleftrightarrow> writeSlotActive ?b' \<and> j = writeSlotIndex ?b') \<and>
      (slotState (slots ?b' ! j) = Sealed \<longleftrightarrow> j \<in> set (ready ?b')) \<and>
      (slotState (slots ?b' ! j) = Reading \<longleftrightarrow> readClaimActive ?b' \<and> j = readSlotIndex ?b') \<and>
      (slotState (slots ?b' ! j) = Sealed \<longrightarrow> slotEpoch (slots ?b' ! j) \<noteq> 0) \<and>
      (slotState (slots ?b' ! j) = SlotEmpty \<longrightarrow> usage (slots ?b' ! j) = no_usage \<and> slotEpoch (slots ?b' ! j) = 0)"
      using d(3) j out s' n unfolding states_ok_def by (cases "j = i") (auto simp: sl fr)
  qed
  moreover have "slot_messages ((slots ?b ! i)\<lparr>slotState := Writing\<rparr>) = []"
    using x(6) [OF i(2)] by (intro messages_construct) (simp add: no_usage_def)
  moreover have "map (\<lambda>j. outbound_view (slots ?b' ! j)) (ready ?b') = map (\<lambda>j. outbound_view (slots ?b ! j)) (ready ?b)"
    unfolding sl fr using update_other [OF out(1)] .
  ultimately have "outbound_ok cap \<lparr>outbound = ?b', draft = draft w, sealed = sealed w, acquired = acquired w\<rparr>"
    using d n i(1) out by (intro outbound_okI) (auto simp: sl fr)
  then show ?thesis by (cases w) simp
qed

lemma ok_prepare:
  assumes ok: "outbound_ok cap w" and a: "WaitPrepareWrite t (outbound w) = (r, buf)"
  shows "outbound_ok cap (w\<lparr>outbound := buf\<rparr>)"
proof -
  have "buf = outbound w \<or> \<not> writeSlotActive (outbound w) \<and> FindEmptySlotIndexLocked (outbound w) \<noteq> InvalidSlotIndex \<and>
      buf = start_writing (FindEmptySlotIndexLocked (outbound w)) (outbound w)"
    using a by (auto simp: WaitPrepareWrite_def Let_def split: if_splits)
  then show ?thesis using ok ok_start_writing [OF ok] find_empty_found [OF refl, of "outbound w"] by auto
qed

lemma ok_begin:
  assumes ok: "outbound_ok cap w" and a: "BeginWriteBatch epoch first' last' (outbound w) = (r, buf)"
  shows "outbound_ok cap (w\<lparr>outbound := buf\<rparr>)"
proof -
  let ?b = "if writeSlotActive (outbound w) then outbound w else start_writing (FindEmptySlotIndexLocked (outbound w)) (outbound w)"
  let ?f = "\<lambda>s :: 'a OutboundSlot. s\<lparr>slotEpoch := epoch, firstServerTick := first', lastServerTick := last'\<rparr>"
  have c: "buf = outbound w \<or> (writeSlotActive (outbound w) \<or> FindEmptySlotIndexLocked (outbound w) \<noteq> InvalidSlotIndex) \<and>
      (buf = ?b \<or> slotState (slots ?b ! writeSlotIndex ?b) = Writing \<and> buf = update_slot (writeSlotIndex ?b) ?f ?b)"
    using a unfolding BeginWriteBatch_def Let_def by (auto split: if_splits)
  have okb: "outbound_ok cap (w\<lparr>outbound := ?b\<rparr>)"
    if "writeSlotActive (outbound w) \<or> FindEmptySlotIndexLocked (outbound w) \<noteq> InvalidSlotIndex"
    using that ok ok_start_writing [OF ok] find_empty_found [OF refl, of "outbound w"] by auto
  have "outbound_ok cap (w\<lparr>outbound := update_slot (writeSlotIndex ?b) ?f ?b\<rparr>)"
    if o: "outbound_ok cap (w\<lparr>outbound := ?b\<rparr>)" and s: "slotState (slots ?b ! writeSlotIndex ?b) = Writing"
  proof -
    have s': "slotState (slots (outbound (w\<lparr>outbound := ?b\<rparr>)) ! writeSlotIndex (outbound (w\<lparr>outbound := ?b\<rparr>))) = Writing"
      using s by simp
    note ws = writing_slot [OF o s']
    have "outbound_slot_ok cap (?f (slots ?b ! writeSlotIndex ?b))" using ws(2) by (simp add: outbound_slot_ok_def)
    moreover have "slot_messages (?f (slots ?b ! writeSlotIndex ?b)) = draft w"
      using ws(3) by (simp add: slot_messages_def messages_of_def read_batch_def)
    ultimately have "outbound_ok cap ((w\<lparr>outbound := ?b\<rparr>)\<lparr>outbound := update_slot (writeSlotIndex ?b) ?f ?b, draft := draft w\<rparr>)"
      using ok_write [OF o s', where f = ?f and messages = "draft w"] s by simp
    then show ?thesis by (cases w) simp
  qed
  then show ?thesis using c ok okb by auto
qed

section \<open>Sealing\<close>

lemma ready_room:
  assumes x: "outbound_indices_ok buf" and i: "i < length (slots buf)" "i \<notin> set (ready buf)"
  shows "readySlotCount buf < 3"
proof -
  note d = indices_okD [OF x]
  have "set (i # ready buf) \<subseteq> {..<length (slots buf)}" using i d(8) by auto
  then have "card (set (i # ready buf)) \<le> length (slots buf)" using card_mono [of "{..<length (slots buf)}"] by simp
  moreover have "card (set (i # ready buf)) = Suc (readySlotCount buf)"
    using d(6) i(2) distinct_card [of "i # ready buf"] by (simp add: ready_def)
  ultimately show ?thesis using d(1) by auto
qed

lemma ready_enqueue:
  assumes "outbound_indices_ok buf" "readySlotCount buf < 3"
  shows "ready (EnqueueReadySlotLocked i buf) = ready buf @ [i]"
  using ring_list_push [of "readySlotCount buf" "readySlotIndices buf" "readyHeadIndex buf" i] assms indices_okD(2,3) [OF assms(1)]
  by (simp add: EnqueueReadySlotLocked_def ready_def Let_def)

lemma epochs_ok_snoc:
  "epochs_ok views highest \<Longrightarrow> highest < e \<Longrightarrow> epochs_ok (views @ [(e, v)]) e"
  unfolding epochs_ok_def by (auto simp: sorted_wrt_append) (meson le_less_trans less_imp_le order.trans word_zero_le le_less_trans)+

lemma ok_sealed:
  assumes ok: "outbound_ok cap w" and s: "slotState (slots (outbound w) ! writeSlotIndex (outbound w)) = Writing"
    and e: "lastSealedEpoch (outbound w) < epoch"
    and b: "buf = EnqueueReadySlotLocked (writeSlotIndex (outbound w)) ((update_slot (writeSlotIndex (outbound w))
      (\<lambda>s. s\<lparr>slotEpoch := epoch, slotState := Sealed\<rparr>) (outbound w))\<lparr>lastSealedEpoch := epoch, writeSlotActive := False\<rparr>)"
  shows "outbound_ok cap (w\<lparr>outbound := buf, draft := [], sealed := sealed w @ [sealed_view epoch w]\<rparr>)"
proof -
  let ?b = "outbound w" and ?i = "writeSlotIndex (outbound w)"
  let ?s = "slots ?b ! ?i" and ?t = "(slots ?b ! ?i)\<lparr>slotEpoch := epoch, slotState := Sealed\<rparr>"
  let ?c = "(update_slot ?i (\<lambda>s. s\<lparr>slotEpoch := epoch, slotState := Sealed\<rparr>) ?b)\<lparr>lastSealedEpoch := epoch, writeSlotActive := False\<rparr>"
  note d = outbound_okD [OF ok] and x = indices_okD [OF outbound_okD(2) [OF ok]] and ws = writing_slot [OF ok s]
  have c: "outbound_indices_ok ?c" "readySlotCount ?c = readySlotCount ?b" "ready ?c = ready ?b"
    using d(2) by (simp_all add: outbound_indices_ok_def ready_def)
  have room: "readySlotCount ?b < 3" by (rule ready_room [OF d(2) x(5) ws(4)])
  have r: "ready buf = ready ?b @ [?i]" unfolding b using ready_enqueue [OF c(1)] room c by simp
  have fr: "slots buf = (slots ?b)[?i := ?t]" "writeSlotIndex buf = ?i" "\<not> writeSlotActive buf" "readSlotIndex buf = readSlotIndex ?b"
      "readClaimActive buf = readClaimActive ?b" "lastSealedEpoch buf = epoch" "readySlotCount buf = Suc (readySlotCount ?b)"
      "readyHeadIndex buf = readyHeadIndex ?b" "length (readySlotIndices buf) = 3"
    using x(2) by (simp_all add: b EnqueueReadySlotLocked_def Let_def)
  have e0: "0 < epoch" using e word_zero_le le_less_trans by blast
  have t: "outbound_slot_ok cap ?t" "outbound_view ?t = sealed_view epoch w"
    using ws(2,3) by (simp_all add: outbound_slot_ok_def outbound_view_def sealed_view_def Let_def slot_messages_def messages_of_def read_batch_def)
  have "outbound_indices_ok buf"
    using x ws(4) room unfolding outbound_indices_ok_def r by (auto simp: fr)
  moreover have "states_ok cap buf"
    unfolding states_ok_def
  proof (intro allI impI)
    fix j assume "j < length (slots buf)"
    then have j: "j < length (slots ?b)" by (simp add: fr)
    show "outbound_slot_ok cap (slots buf ! j) \<and> (slotState (slots buf ! j) = Writing \<longleftrightarrow> writeSlotActive buf \<and> j = writeSlotIndex buf) \<and>
      (slotState (slots buf ! j) = Sealed \<longleftrightarrow> j \<in> set (ready buf)) \<and>
      (slotState (slots buf ! j) = Reading \<longleftrightarrow> readClaimActive buf \<and> j = readSlotIndex buf) \<and>
      (slotState (slots buf ! j) = Sealed \<longrightarrow> slotEpoch (slots buf ! j) \<noteq> 0) \<and>
      (slotState (slots buf ! j) = SlotEmpty \<longrightarrow> usage (slots buf ! j) = no_usage \<and> slotEpoch (slots buf ! j) = 0)"
      using j d(3) ws t(1) e0 unfolding states_ok_def r by (cases "j = ?i") (auto simp: fr)
  qed
  moreover have "sealed w @ [sealed_view epoch w] = acquired w @ map (\<lambda>j. outbound_view (slots buf ! j)) (ready buf)"
    using d(6) update_other [OF ws(4), of ?t] t(2) x(5) unfolding r by (simp add: fr)
  moreover have "readClaimActive buf \<Longrightarrow> slots buf ! readSlotIndex buf = slots ?b ! readSlotIndex ?b"
    using ws(5) by (simp add: fr)
  moreover have "epochs_ok (sealed w @ [sealed_view epoch w]) (lastSealedEpoch buf)"
    using epochs_ok_snoc [OF d(8) e] by (simp add: sealed_view_def Let_def fr)
  ultimately have "outbound_ok cap \<lparr>outbound = buf, draft = [], sealed = sealed w @ [sealed_view epoch w], acquired = acquired w\<rparr>"
    using d(1,7) fr by (intro outbound_okI) auto
  then show ?thesis by (cases w) simp
qed

lemma ok_seal:
  assumes ok: "outbound_ok cap w" and a: "SealWrite epoch (outbound w) = (r, buf)"
  shows "outbound_ok cap (if r = Exchanged then w\<lparr>outbound := buf, draft := [], sealed := sealed w @ [sealed_view epoch w]\<rparr>
      else w\<lparr>outbound := buf\<rparr>)"
proof (cases r)
  case Exchanged
  have "slotState (slots (outbound w) ! writeSlotIndex (outbound w)) = Writing \<and> lastSealedEpoch (outbound w) < epoch \<and>
    buf = EnqueueReadySlotLocked (writeSlotIndex (outbound w)) ((update_slot (writeSlotIndex (outbound w))
      (\<lambda>s. s\<lparr>slotEpoch := epoch, slotState := Sealed\<rparr>) (outbound w))\<lparr>lastSealedEpoch := epoch, writeSlotActive := False\<rparr>)"
    using a Exchanged unfolding SealWrite_def Let_def by (auto split: if_splits)
  then show ?thesis using ok_sealed [OF ok] Exchanged by auto
next
  case EmptyBatch
  let ?f = "\<lambda>s :: 'a OutboundSlot. s\<lparr>slotEpoch := 0, firstServerTick := 0, lastServerTick := 0\<rparr>"
  have s: "slotState (slots (outbound w) ! writeSlotIndex (outbound w)) = Writing" and
    b: "buf = update_slot (writeSlotIndex (outbound w)) ?f (outbound w)"
    using a EmptyBatch unfolding SealWrite_def Let_def by (auto split: if_splits)
  note ws = writing_slot [OF ok s]
  have "outbound_slot_ok cap (?f (slots (outbound w) ! writeSlotIndex (outbound w)))" using ws(2) by (simp add: outbound_slot_ok_def)
  moreover have "slot_messages (?f (slots (outbound w) ! writeSlotIndex (outbound w))) = draft w"
    using ws(3) by (simp add: slot_messages_def messages_of_def read_batch_def)
  ultimately have "outbound_ok cap (w\<lparr>outbound := update_slot (writeSlotIndex (outbound w)) ?f (outbound w), draft := draft w\<rparr>)"
    by (intro ok_write [OF ok s]) (use s in auto)
  then show ?thesis using EmptyBatch b by (cases w) simp
qed (use a ok in \<open>auto simp: SealWrite_def Let_def split: if_splits\<close>)

section \<open>The operations of the reader\<close>

lemma ready_dequeue:
  assumes x: "outbound_indices_ok buf" and n: "readySlotCount buf \<noteq> 0" and q: "DequeueReadySlotLocked buf = (i, buf')"
  shows "ready buf = i # ready buf'"
    and "buf' = buf\<lparr>readySlotIndices := readySlotIndices buf', readyHeadIndex := readyHeadIndex buf', readySlotCount := readySlotCount buf'\<rparr>"
    and "length (readySlotIndices buf') = 3" "readyHeadIndex buf' < 3" "Suc (readySlotCount buf') = readySlotCount buf"
proof -
  note d = indices_okD [OF x]
  obtain m where m: "readySlotCount buf = Suc m" using n by (cases "readySlotCount buf") auto
  have q': "i = readySlotIndices buf ! readyHeadIndex buf" "buf' = buf\<lparr>readySlotIndices := (readySlotIndices buf)[readyHeadIndex buf := InvalidSlotIndex],
      readyHeadIndex := (readyHeadIndex buf + 1) mod 3, readySlotCount := m\<rparr>"
    using q m d(2) by (auto simp: DequeueReadySlotLocked_def)
  show "ready buf = i # ready buf'"
    using ring_list_pop_update [of "readyHeadIndex buf" "readySlotIndices buf" m InvalidSlotIndex] d(2,3,4) m by (simp add: ready_def q')
  show "buf' = buf\<lparr>readySlotIndices := readySlotIndices buf', readyHeadIndex := readyHeadIndex buf', readySlotCount := readySlotCount buf'\<rparr>"
    "length (readySlotIndices buf') = 3" "readyHeadIndex buf' < 3" "Suc (readySlotCount buf') = readySlotCount buf"
    using d(2) m by (simp_all add: q')
qed

text \<open>An acquisition takes the oldest sealed batch, or changes nothing.\<close>

lemma acquire_cases:
  assumes ok: "outbound_ok cap w" and a: "Outbound_WaitAcquireRead t out (outbound w) = ((r, batch), buf)"
  obtains "batch = None" "buf = outbound w"
  | i b where "\<not> readClaimActive (outbound w)" "ready (outbound w) = i # ready b"
      "b = (outbound w)\<lparr>readySlotIndices := readySlotIndices b, readyHeadIndex := readyHeadIndex b, readySlotCount := readySlotCount b\<rparr>"
      "length (readySlotIndices b) = 3" "readyHeadIndex b < 3" "readySlotCount b \<le> 3"
      "batch = Some (read_batch (slots (outbound w) ! i))"
      "buf = (update_slot i (slotState_update (\<lambda>_. Reading)) b)\<lparr>readSlotIndex := i, readClaimActive := True\<rparr>"
proof -
  note d = outbound_okD [OF ok] and x = indices_okD [OF outbound_okD(2) [OF ok]]
  obtain i b where q: "DequeueReadySlotLocked (outbound w) = (i, b)" by fastforce
  show thesis
  proof (cases "batch = None \<and> buf = outbound w")
    case False
    then have n: "readySlotCount (outbound w) \<noteq> 0" "\<not> readClaimActive (outbound w)"
      using a unfolding Outbound_WaitAcquireRead_def by (auto split: if_splits)
    note y = ready_dequeue [OF d(2) n(1) q]
    have i: "i \<in> set (ready (outbound w))" by (simp add: y(1))
    have sl: "slots b = slots (outbound w)" by (subst y(2)) simp
    have s: "i < length (slots b)" "slotState (slots b ! i) = Sealed" "slotEpoch (slots b ! i) \<noteq> 0"
      using x(8) [OF i] states_okD(3,5) [OF d(3) x(8) [OF i]] i by (simp_all add: sl)
    have "batch = Some (read_batch (slots (outbound w) ! i)) \<and>
        buf = (update_slot i (slotState_update (\<lambda>_. Reading)) b)\<lparr>readSlotIndex := i, readClaimActive := True\<rparr>"
      using a False q s sl unfolding Outbound_WaitAcquireRead_def Let_def by (auto split: if_splits)
    then show thesis using that(2) [OF n(2) y(1,2,3,4)] y(5) x(4) by auto
  qed (use that(1) in blast)
qed

lemma outbound_ok_acquire:
  assumes ok: "outbound_ok cap w" and a: "Outbound_WaitAcquireRead t out (outbound w) = ((r, batch), buf)"
  shows "outbound_ok cap (w\<lparr>outbound := buf,
      acquired := (case batch of None \<Rightarrow> acquired w | Some b \<Rightarrow> acquired w @ [view_of b])\<rparr>)"
  using ok a
proof (cases rule: acquire_cases)
  case 1
  then show ?thesis using ok by simp
next
  case (2 i b)
  let ?b = "outbound w" and ?s = "slots (outbound w) ! i"
  note d = outbound_okD [OF ok] and x = indices_okD [OF outbound_okD(2) [OF ok]]
  have same: "slots b = slots ?b" "writeSlotIndex b = writeSlotIndex ?b" "writeSlotActive b = writeSlotActive ?b"
    "lastSealedEpoch b = lastSealedEpoch ?b" by (subst 2(3), simp)+
  have fr: "slots buf = (slots ?b)[i := ?s\<lparr>slotState := Reading\<rparr>]" "ready buf = ready b" "writeSlotIndex buf = writeSlotIndex ?b"
      "writeSlotActive buf = writeSlotActive ?b" "lastSealedEpoch buf = lastSealedEpoch ?b" "readSlotIndex buf = i" "readClaimActive buf"
      "readySlotIndices buf = readySlotIndices b" "readyHeadIndex buf = readyHeadIndex b" "readySlotCount buf = readySlotCount b"
    by (simp_all add: 2(8) update_slot_def same ready_def)
  have i: "i < length (slots ?b)" "i \<notin> set (ready b)" "i \<in> set (ready ?b)" using x(6,8) 2(2) by auto
  have st: "slotState ?s = Sealed" "outbound_slot_ok cap ?s" using states_okD(1,3) [OF d(3) i(1)] i(3) by auto
  have wr: "writeSlotActive ?b \<Longrightarrow> writeSlotIndex ?b \<noteq> i" using states_okD(2) [OF d(3) i(1)] st(1) by auto
  have v: "outbound_view (?s\<lparr>slotState := Reading\<rparr>) = outbound_view ?s" "outbound_slot_ok cap (?s\<lparr>slotState := Reading\<rparr>)"
    using st(2) by (simp_all add: outbound_view_def slot_messages_def messages_of_def read_batch_def outbound_slot_ok_def)
  have "outbound_indices_ok buf"
    unfolding outbound_indices_ok_def
  proof (intro conjI)
    show "set (ready buf) \<subseteq> {..<length (slots buf)}" using x(8) 2(2) by (auto simp: fr(1,2))
  qed (use x(1,5,6) 2(2,4,5,6) i(1) in \<open>simp_all add: fr(1-3,6-)\<close>)
  moreover have "states_ok cap buf"
    unfolding states_ok_def
  proof (intro allI impI)
    fix j assume "j < length (slots buf)"
    then have j: "j < length (slots ?b)" by (simp add: fr)
    show "outbound_slot_ok cap (slots buf ! j) \<and> (slotState (slots buf ! j) = Writing \<longleftrightarrow> writeSlotActive buf \<and> j = writeSlotIndex buf) \<and>
      (slotState (slots buf ! j) = Sealed \<longleftrightarrow> j \<in> set (ready buf)) \<and>
      (slotState (slots buf ! j) = Reading \<longleftrightarrow> readClaimActive buf \<and> j = readSlotIndex buf) \<and>
      (slotState (slots buf ! j) = Sealed \<longrightarrow> slotEpoch (slots buf ! j) \<noteq> 0) \<and>
      (slotState (slots buf ! j) = SlotEmpty \<longrightarrow> usage (slots buf ! j) = no_usage \<and> slotEpoch (slots buf ! j) = 0)"
      using j d(3) v(2) wr i(2) 2(1,2) unfolding states_ok_def fr(2-6) by (cases "j = i") (auto simp: fr(1,7))
  qed
  moreover have "sealed w = (acquired w @ [outbound_view ?s]) @ map (\<lambda>j. outbound_view (slots buf ! j)) (ready buf)"
  proof -
    have "map (\<lambda>j. outbound_view (slots buf ! j)) (ready b) = map (\<lambda>j. outbound_view (slots ?b ! j)) (ready b)"
      using i(2) unfolding fr by (intro map_cong refl) (metis nth_list_update_neq)
    then show ?thesis using d(6) 2(2) by (simp add: fr(2))
  qed
  moreover have "outbound_view (slots buf ! readSlotIndex buf) = outbound_view ?s" using i(1) v(1) by (simp add: fr)
  ultimately have "outbound_ok cap \<lparr>outbound = buf, draft = draft w, sealed = sealed w, acquired = acquired w @ [outbound_view ?s]\<rparr>"
    using d(1,4,5,8) wr by (intro outbound_okI) (auto simp: fr)
  then show ?thesis using 2(7) by (cases w) simp
qed

text \<open>A release empties the slot that was read.\<close>

lemma clear_slot_ok:
  assumes "outbound_slot_ok cap s"
  shows "outbound_slot_ok cap (clear_slot none s)" "slotState (clear_slot none s) = SlotEmpty"
    "usage (clear_slot none s) = no_usage" "slotEpoch (clear_slot none s) = 0"
  using assms slot_okD(1-6) [OF assms] by (simp_all add: outbound_slot_ok_def clear_slot_def no_usage_def)

lemma ok_release:
  assumes ok: "outbound_ok cap w" and a: "Outbound_ReleaseRead none epoch (outbound w) = (r, buf)"
  shows "outbound_ok cap (w\<lparr>outbound := buf\<rparr>)"
proof (cases "buf = outbound w")
  case True
  then show ?thesis using ok by simp
next
  case False
  let ?b = "outbound w" and ?i = "readSlotIndex (outbound w)"
  note d = outbound_okD [OF ok] and x = indices_okD [OF outbound_okD(2) [OF ok]]
  have g: "readClaimActive ?b" "?i < length (slots ?b)" "slotState (slots ?b ! ?i) = Reading"
    "buf = (update_slot ?i (clear_slot none) ?b)\<lparr>readClaimActive := False, readSlotIndex := InvalidSlotIndex\<rparr>"
    using a False unfolding Outbound_ReleaseRead_def Let_def by (auto split: if_splits)
  have fr: "slots buf = (slots ?b)[?i := clear_slot none (slots ?b ! ?i)]" "ready buf = ready ?b" "writeSlotIndex buf = writeSlotIndex ?b"
      "writeSlotActive buf = writeSlotActive ?b" "lastSealedEpoch buf = lastSealedEpoch ?b" "\<not> readClaimActive buf"
      "readySlotIndices buf = readySlotIndices ?b" "readyHeadIndex buf = readyHeadIndex ?b" "readySlotCount buf = readySlotCount ?b"
    by (simp_all add: g(4) update_slot_def ready_def)
  have out: "?i \<notin> set (ready ?b)" "writeSlotActive ?b \<Longrightarrow> writeSlotIndex ?b \<noteq> ?i"
    using states_okD(2,3) [OF d(3) g(2)] g(3) by auto
  note c = clear_slot_ok [OF states_okD(1) [OF d(3) g(2)], of none]
  have "outbound_indices_ok buf" using d(2) unfolding outbound_indices_ok_def by (simp add: fr)
  moreover have "states_ok cap buf"
    unfolding states_ok_def
  proof (intro allI impI)
    fix j assume "j < length (slots buf)"
    then have j: "j < length (slots ?b)" by (simp add: fr)
    show "outbound_slot_ok cap (slots buf ! j) \<and> (slotState (slots buf ! j) = Writing \<longleftrightarrow> writeSlotActive buf \<and> j = writeSlotIndex buf) \<and>
      (slotState (slots buf ! j) = Sealed \<longleftrightarrow> j \<in> set (ready buf)) \<and>
      (slotState (slots buf ! j) = Reading \<longleftrightarrow> readClaimActive buf \<and> j = readSlotIndex buf) \<and>
      (slotState (slots buf ! j) = Sealed \<longrightarrow> slotEpoch (slots buf ! j) \<noteq> 0) \<and>
      (slotState (slots buf ! j) = SlotEmpty \<longrightarrow> usage (slots buf ! j) = no_usage \<and> slotEpoch (slots buf ! j) = 0)"
      using j d(3) c out g(1) unfolding states_ok_def by (cases "j = ?i") (auto simp: fr)
  qed
  moreover have "sealed w = acquired w @ map (\<lambda>j. outbound_view (slots buf ! j)) (ready buf)"
    using d(6) update_other [OF out(1)] by (simp add: fr)
  ultimately have "outbound_ok cap \<lparr>outbound = buf, draft = draft w, sealed = sealed w, acquired = acquired w\<rparr>"
    using d(1,4,5,8) out(2) by (intro outbound_okI) (auto simp: fr)
  then show ?thesis by (cases w) simp
qed

section \<open>All interleavings\<close>

lemma outbound_step_ok: "outbound_step none w w' \<Longrightarrow> outbound_ok cap w \<Longrightarrow> outbound_ok cap w'"
proof (induction rule: outbound_step.induct)
  case (finish w)
  then show ?case by (intro same_ok) (simp_all add: FinishWrites_def)
next
  case (close w)
  then show ?case by (intro same_ok) (simp_all add: Outbound_Close_def)
qed (simp_all only: ok_prepare ok_begin ok_append ok_append_encoded ok_no_encoder ok_reserve ok_seal outbound_ok_acquire ok_release)

lemma outbound_reachable_ok: "outbound_reachable none cap n w \<Longrightarrow> outbound_ok cap w"
  by (induction rule: outbound_reachable.induct) (auto intro: construct_ok outbound_step_ok)

lemma acquire_progress:
  assumes ok: "outbound_ok cap w" and g: "\<not> closed (outbound w)" "\<not> readClaimActive (outbound w)" "readySlotCount (outbound w) \<noteq> 0" "0 \<le> t"
  shows "snd (fst (Outbound_WaitAcquireRead t True (outbound w))) \<noteq> None"
proof -
  note d = outbound_okD [OF ok]
  obtain i b where q: "DequeueReadySlotLocked (outbound w) = (i, b)" by fastforce
  note y = ready_dequeue [OF d(2) g(3) q]
  have i: "i \<in> set (ready (outbound w))" by (simp add: y(1))
  have sl: "slots b = slots (outbound w)" by (subst y(2)) simp
  have j: "i < length (slots (outbound w))" using indices_okD(8) [OF d(2) i] .
  have "\<not> i \<ge> length (slots b)" "slotState (slots b ! i) = Sealed" "slotEpoch (slots b ! i) \<noteq> 0"
    using j states_okD(3,5) [OF d(3) j] i by (simp_all add: sl)
  then show ?thesis using g q by (simp add: Outbound_WaitAcquireRead_def Let_def)
qed

lemma acquire_oldest:
  assumes ok: "outbound_ok cap w" and a: "\<not> closed (outbound w)" "\<not> readClaimActive (outbound w)"
    "length (acquired w) < length (sealed w)" "0 \<le> t"
  shows "\<exists>b buf. Outbound_WaitAcquireRead t True (outbound w) = ((Exchanged, Some b), buf) \<and> view_of b = sealed w ! length (acquired w)"
proof -
  note s = outbound_okD(6) [OF ok]
  have n: "readySlotCount (outbound w) \<noteq> 0" using a(3) s by (auto simp: ready_def)
  obtain r batch buf where q: "Outbound_WaitAcquireRead t True (outbound w) = ((r, batch), buf)" by (metis prod.exhaust)
  from ok q show ?thesis
  proof (cases rule: acquire_cases)
    case 1
    then show ?thesis using q acquire_progress [OF ok a(1,2) n a(4)] by simp
  next
    case (2 i b)
    then have "view_of (read_batch (slots (outbound w) ! i)) = sealed w ! length (acquired w)" using s by simp
    moreover have "r = Exchanged"
      using q 2(7) unfolding Outbound_WaitAcquireRead_def Let_def by (auto split: if_splits prod.splits)
    ultimately show ?thesis using q 2(7) by auto
  qed
qed

text \<open>
  Property C8. After any interleaving of the coordinator's and the publisher's calls the batches that were sealed
  are those that the publisher took, in the same order and with exactly the messages that were appended to
  them, followed by those that wait in their slots; their epochs ascend strictly. The slot that is read still
  holds the batch taken last and is not the one that is written; the slot that is written holds exactly the
  messages appended since the last sealing; and while a sealed batch waits, an idle publisher that asks for a
  batch gets the oldest one.
\<close>

theorem outbound_batches_in_order:
  assumes "outbound_reachable none cap n w"
  shows "sealed w = acquired w @ map (\<lambda>i. outbound_view (slots (outbound w) ! i)) (ready (outbound w)) \<and>
    sorted_wrt (<) (map fst (sealed w)) \<and>
    (readClaimActive (outbound w) \<longrightarrow>
      acquired w \<noteq> [] \<and> outbound_view (slots (outbound w) ! readSlotIndex (outbound w)) = List.last (acquired w) \<and>
      readSlotIndex (outbound w) \<notin> set (ready (outbound w)) \<and>
      (writeSlotActive (outbound w) \<longrightarrow> readSlotIndex (outbound w) \<noteq> writeSlotIndex (outbound w))) \<and>
    (writeSlotActive (outbound w) \<longrightarrow>
      slot_messages (slots (outbound w) ! writeSlotIndex (outbound w)) = draft w \<and>
      writeSlotIndex (outbound w) \<notin> set (ready (outbound w))) \<and>
    (\<forall>t. \<not> closed (outbound w) \<and> \<not> readClaimActive (outbound w) \<and> length (acquired w) < length (sealed w) \<and> 0 \<le> t \<longrightarrow>
      (\<exists>b buf. Outbound_WaitAcquireRead t True (outbound w) = ((Exchanged, Some b), buf) \<and>
        view_of b = sealed w ! length (acquired w)))"
proof (intro conjI impI allI; (elim conjE)?)
  note ok = outbound_reachable_ok [OF assms]
  note d = outbound_okD [OF ok] and x = indices_okD [OF outbound_okD(2) [OF ok]]
  show "sealed w = acquired w @ map (\<lambda>i. outbound_view (slots (outbound w) ! i)) (ready (outbound w))" by (rule d(6))
  show "sorted_wrt (<) (map fst (sealed w))" using d(8) by (simp add: epochs_ok_def)
  { assume r: "readClaimActive (outbound w)"
    then show "acquired w \<noteq> []" "outbound_view (slots (outbound w) ! readSlotIndex (outbound w)) = List.last (acquired w)"
      using d(7) by auto
    note y = states_okD(2-4) [OF d(3) x(7) [OF r]]
    then show "readSlotIndex (outbound w) \<notin> set (ready (outbound w))" using r by auto
    show "readSlotIndex (outbound w) \<noteq> writeSlotIndex (outbound w)" if "writeSlotActive (outbound w)" using y r that by auto }
  { assume a: "writeSlotActive (outbound w)"
    then show "slot_messages (slots (outbound w) ! writeSlotIndex (outbound w)) = draft w"
      "writeSlotIndex (outbound w) \<notin> set (ready (outbound w))" using d(4) states_okD(2,3) [OF d(3) x(5)] by auto }
  show "\<exists>b buf. Outbound_WaitAcquireRead t True (outbound w) = ((Exchanged, Some b), buf) \<and> view_of b = sealed w ! length (acquired w)"
    if "\<not> closed (outbound w)" "\<not> readClaimActive (outbound w)" "length (acquired w) < length (sealed w)" "0 \<le> t" for t
    by (rule acquire_oldest [OF ok that])
qed

text \<open>A batch with one message is written, sealed and taken while the next one is written.\<close>

abbreviation sample_outbound_capacity :: WorldOutboundBatchCapacity where
  "sample_outbound_capacity \<equiv> \<lparr>recordCapacity = 1, recipientCapacity = 1, payloadByteCapacity = 1\<rparr>"

definition sample_outbound_0 :: "unit outbound_world" where
  "sample_outbound_0 = \<lparr>outbound = Outbound_construct () sample_outbound_capacity 2, draft = [], sealed = [], acquired = []\<rparr>"

definition sample_outbound_1 :: "unit outbound_world" where
  "sample_outbound_1 = sample_outbound_0\<lparr>outbound := snd (BeginWriteBatch 5 1 2 (outbound sample_outbound_0))\<rparr>"

definition sample_outbound_2 :: "unit outbound_world" where
  "sample_outbound_2 = sample_outbound_1\<lparr>outbound := snd (TryAppend 7 [()] [9] (outbound sample_outbound_1)),
     draft := [(7, [()], [9], default_metadata)]\<rparr>"

definition sample_outbound_3 :: "unit outbound_world" where
  "sample_outbound_3 = sample_outbound_2\<lparr>outbound := snd (SealWrite 5 (outbound sample_outbound_2)), draft := [],
     sealed := [(5, 1, 2, 0, [(7, [()], [9], default_metadata)])]\<rparr>"

lemma sample_outbound_reachable: "outbound_reachable () sample_outbound_capacity 2 sample_outbound_3"
proof -
  have r: "fst (TryAppend 7 [()] [9] (outbound sample_outbound_1)) = Appended" "fst (SealWrite 5 (outbound sample_outbound_2)) = Exchanged"
    "sealed_view 5 sample_outbound_2 = (5, 1, 2, 0, [(7, [()], [9], default_metadata)])"
    by code_simp+
  have e: "draft sample_outbound_1 = []" "sealed sample_outbound_2 = []"
    by (simp_all add: sample_outbound_2_def sample_outbound_1_def sample_outbound_0_def)
  have "Outbound_Create True () sample_outbound_capacity 2 = Inr (Outbound_construct () sample_outbound_capacity 2)"
    by (simp add: Outbound_Create_def IsValidCapacity_def IsValidSlotCount_def)
  from outbound_reachable.start [OF this]
  have "outbound_reachable () sample_outbound_capacity 2 sample_outbound_0" by (simp add: sample_outbound_0_def)
  from outbound_reachable.advance [OF this outbound_step.begin_batch [OF surjective_pairing]]
  have "outbound_reachable () sample_outbound_capacity 2 sample_outbound_1" unfolding sample_outbound_1_def .
  from outbound_reachable.advance [OF this outbound_step.append [OF surjective_pairing, where t = 7 and rs = "[()]" and bs = "[9]"]]
  have "outbound_reachable () sample_outbound_capacity 2 sample_outbound_2"
    unfolding sample_outbound_2_def by (simp only: r(1) e append_Nil simp_thms if_True)
  from outbound_reachable.advance [OF this outbound_step.seal [OF surjective_pairing, where epoch = 5]]
  show ?thesis unfolding sample_outbound_3_def by (simp only: r(2,3) e append_Nil simp_thms if_True)
qed

theorem outbound_batches_in_order_witness:
  "sealed sample_outbound_3 = [outbound_view (slots (outbound sample_outbound_3) ! 0)] \<and>
   (\<exists>b buf. Outbound_WaitAcquireRead 0 True (outbound sample_outbound_3) = ((Exchanged, Some b), buf) \<and>
     view_of b = (5, 1, 2, 0, [(7, [()], [9], default_metadata)]))"
proof -
  have e: "ready (outbound sample_outbound_3) = [0]" "\<not> closed (outbound sample_outbound_3)" "\<not> readClaimActive (outbound sample_outbound_3)"
    by code_simp+
  have s: "acquired sample_outbound_3 = []" "sealed sample_outbound_3 = [(5, 1, 2, 0, [(7, [()], [9], default_metadata)])]"
    by (simp_all add: sample_outbound_3_def sample_outbound_2_def sample_outbound_1_def sample_outbound_0_def)
  show ?thesis
    using outbound_batches_in_order [OF sample_outbound_reachable] e s by auto
qed

end
