(* ===== verification/Spec2Isabelle.thy ===== *)
theory Spec2Isabelle imports NrReceive NrPayload NrHandoffAsserts NrDispatch NrSessionIoLaws NrSchedulerLaws NrSessionRegistryLaws WsWireLaws WsDoubleBufferLaws WsEntitiesLaws WsSessionsLaws WsOutboundLaws begin

text \<open>
  Verification development for PrivateServer, a C++ game server for Windows. The paths below are relative to
  \<^verbatim>\<open>src/\<close> of the repository; \<^verbatim>\<open>Internal\<close> stands for \<^verbatim>\<open>PrivateServer.NetworkRuntime.Internal\<close> and
  \<^verbatim>\<open>World\<close> for \<^verbatim>\<open>PrivateServer.WorldServer\<close>.

  \<^bold>\<open>The program.\<close> The network runtime accepts TCP connections over IO completion ports. Every connection is a
  session with an IO actor. Completions and send requests reach an actor as mail; the scheduler runs each actor on
  one worker of its shard at a time; the actor parses the byte stream into packets, dispatches them by packet type,
  and writes queued payloads out. What happens to sessions (accepted, packets, closed) goes to the World through the
  hand-off queue. In the World a pump moves these events into the ingress double buffer, the owner consumes them
  tick by tick on its sessions and entities, and the messages it produces leave through the outbound double buffer
  to the publisher, encoded by the World wire protocol.

  \<^bold>\<open>Network runtime.\<close>
  \<^item> \<open>NrPrelude\<close>: machine integers, statuses (\<^verbatim>\<open>NrStatus.h\<close>, \<^verbatim>\<open>NrErrorCode.h\<close>), \<^verbatim>\<open>memcpy\<close>, ring buffers, sums over
    threads; the lemmas all theories share.
  \<^item> \<open>NrFraming\<close>: \<^verbatim>\<open>Internal/NrPrimitiveCodec.h\<close>, \<^verbatim>\<open>NrPacketHeaderCodec.h\<close>, \<^verbatim>\<open>NrPacketParser.cpp\<close>. The parser accepts
    exactly the valid frames and never changes a verdict when more bytes arrive.
  \<^item> \<open>NrMemory\<close>, \<open>NrPayload\<close>: \<^verbatim>\<open>NrMemoryPool.cpp\<close>, \<^verbatim>\<open>NrMemoryPoolManager.cpp\<close>, \<^verbatim>\<open>NrPayload.cpp\<close>, \<^verbatim>\<open>NrPayloadRef.cpp\<close>. Blocks in
    use are disjoint, shared payloads keep their bytes, the last reference gives the blocks back. Payloads and control
    blocks are written into one memory.
  \<^item> \<open>NrQueue\<close>: \<^verbatim>\<open>NrBoundedMpscQueue.h\<close>, \<^verbatim>\<open>NrActorMailbox.h\<close>. The ring over 64-bit positions refines a bounded FIFO; the
    locale \<open>bounded_queue\<close> is that contract, interpreted on the ring, and its clients use the FIFO.
  \<^item> \<open>NrHandoff\<close>, \<open>NrHandoffProofs\<close>, \<open>NrHandoffAsserts\<close>: \<^verbatim>\<open>NrToWorldLifecycleState.cpp\<close>, \<^verbatim>\<open>NrToWorldHandoff.cpp\<close>. The events
    of a session are complete lifetimes in order, a lifecycle fact is published exactly once, and an empty pop means
    nothing is owed; executed with its assertions where the code has them, the hand-off never fails one.
  \<^item> \<open>NrReceive\<close>: \<^verbatim>\<open>NrRecvBuffer.cpp\<close>; the locale \<open>receive_stream\<close> says that a buffer is a byte stream with a window, and
    is interpreted on it.
  \<^item> \<open>NrDispatch\<close>, \<open>NrMetrics\<close>: the dispatch table, inputs and ingress queues; the server's counters.
  \<^item> \<open>NrSession\<close>, \<open>NrSessionIo\<close> and the theories \<open>NrSessionIoProofs\<close>, \<open>NrSessionIoInv\<close>, \<open>NrSessionIoStream\<close>,
    \<open>NrSessionIoSend\<close>, \<open>NrSessionIoRun\<close>, \<open>NrSessionIoLaws\<close>: \<^verbatim>\<open>NrWin32Socket.cpp\<close>, \<^verbatim>\<open>NrSession.cpp\<close>, the IO contexts and
    \<^verbatim>\<open>NrSessionIoActor*.cpp\<close>. A completed receive dispatches exactly the frames of the stream (equivalence with the
    reference \<open>split_frames\<close>), the send lane sends exactly the payloads requested and never stalls, pending IO is
    counted exactly and a close is final.
  \<^item> \<open>NrScheduleGate\<close>, \<open>NrScheduler\<close>, \<open>NrSchedulerInv\<close>, \<open>NrSchedulerRun\<close>, \<open>NrSchedulerLaws\<close>: \<^verbatim>\<open>NrActorScheduleGate.cpp\<close>,
    \<^verbatim>\<open>NrActorExecutor.cpp\<close>, \<^verbatim>\<open>NrSessionActorScheduler.cpp\<close>. The packed gate word refines an abstract gate; over all
    interleavings of producers, workers and registry mail is never forgotten, permits count the runnable actors, an
    actor has one run at a time.
  \<^item> \<open>NrSessionRegistry\<close>, \<open>NrSessionRegistryLaws\<close>: \<^verbatim>\<open>NrSessionActorRegistry.cpp\<close>. Leases never dangle, only idle actors are
    erased (before the shutdown, which empties the map when no lease is left), a failed run closes its actor for good.

  \<^bold>\<open>World server.\<close>
  \<^item> \<open>WsWire\<close>, \<open>WsClientMessages\<close>, \<open>WsServerMessages\<close>, \<open>WsStateMessages\<close>, \<open>WsBatchMessages\<close>, \<open>WsOverviewMessages\<close>, \<open>WsWireLaws\<close>:
    \<^verbatim>\<open>World/WorldProtocolWireCodec.cpp\<close> and the message headers, every version. The locale \<open>wire_message\<close> is the contract
    of a codec (round trip, bounds, no partial write); it is interpreted once for every message.
  \<^item> \<open>WsIdentity\<close>: keys, handles, error codes. \<open>WsEntities\<close>, \<open>WsEntitiesLaws\<close>: \<^verbatim>\<open>WorldEntityRegistry.cpp\<close>,
    \<^verbatim>\<open>WorldEntityComponentStore.cpp\<close>, \<^verbatim>\<open>WorldEntityManager.cpp\<close>. The manager refines a finite map and no identity is used
    twice; the locale \<open>keyed_store\<close> is the store's contract.
  \<^item> \<open>WsSessions\<close>, \<open>WsSessionsLaws\<close>: \<^verbatim>\<open>WorldSessionRegistry.cpp\<close> refines a map from session keys to sessions.
  \<^item> \<open>WsDoubleBuffer\<close>, \<open>WsDoubleBufferLaws\<close>: \<^verbatim>\<open>WorldDoubleBufferRoleExchange.cpp\<close>, \<^verbatim>\<open>WorldIngressDoubleBuffer.cpp\<close>. Events are
    handed over exactly once and in order; an announced swap cannot be starved.
  \<^item> \<open>WsOutbound\<close>, \<open>WsOutboundLaws\<close>: \<^verbatim>\<open>WorldOutboundDoubleBuffer.cpp\<close>. Batches are read in the order of sealing with exactly
    the messages appended.

  \<^bold>\<open>How the code is modelled.\<close> A class is a record, a method a function from the state before to the result and the
  state after, an error a value of a sum or option type. Integers keep their width as words; a \<^verbatim>\<open>size_t\<close> that only
  counts elements of a container is a natural number, and the arithmetic that the code checks for overflow is
  written with its bound. Threads are interleaved atomic steps (an inductive relation with its reachable states); an
  operation under a lock is one step, a wait on a condition is the pair of what happens before and after it, an
  atomic compare-exchange loop is the function it applies. The run of an actor through its lease is one step too, although
  it updates the lifecycle of the entry without the lock of the registry. The operating system, the C allocator, \<^verbatim>\<open>new\<close> and time are
  arguments. Floating-point values on the wire are their bit patterns, with the one arithmetic fact the codec uses
  (adding zero turns the negative zero positive) written out.

  \<^bold>\<open>Fuel.\<close> Only the receive loop of the IO actor takes fuel: the number of readable bytes. Every turn consumes a whole
  frame, so this is enough, and any larger bound gives the same result (\<open>receive_loop_terminates\<close>). The drain loop runs
  on the budget of the code. All other loops are structural recursion.

  \<^bold>\<open>Not modelled.\<close> The Win32 glue (IOCP port, pump and dispatchers, listener, thread start and the sleeping hand-shake of
  idle workers), diagnostics, logging and JSON output, configuration and bootstrap of the runtime, the client transport,
  the C ABI and the managed wrappers: they call the operating system or pass values on. In the World: the solvers over
  floating-point positions, the Box2D adapter and the spatial index (their correctness is numeric), and the gameplay
  phases, planners, committer and the consumer of ingress events that are built on them; tests, benchmarks and smoke
  programs.
\<close>

end
